(* ===== verification/Prelude.thy ===== *)
theory Prelude
  imports Main "HOL-Library.AList" "HOL-Library.Word"
begin

text \<open>
  Shared vocabulary of the development: Python exceptions as values of a result type with
  its sequencing operators, Python's integer and list primitives, insertion-ordered
  dictionaries as association lists (\<open>AList.update\<close> keeps the position of an existing key
  and appends a new one, which is what a Python \<^verbatim>\<open>dict\<close> and an \<^verbatim>\<open>OrderedDict\<close> do), and the
  list lemmas that the component theories share.
\<close>

section \<open>Exceptions as values\<close>

datatype py_error =
    ValueError | RuntimeError | AssertionError | KeyError | IndexError
  | OverflowError | StopIteration | NotImplementedError | AttributeError | ZeroDivisionError | PyException

type_synonym 'a result = "py_error + 'a"

definition rbind :: "'e + 'a \<Rightarrow> ('a \<Rightarrow> 'e + 'b) \<Rightarrow> 'e + 'b" where
  "rbind m f = (case m of Inl e \<Rightarrow> Inl e | Inr x \<Rightarrow> f x)"

definition py_assert :: "bool \<Rightarrow> 'a result \<Rightarrow> 'a result" where
  "py_assert b k = (if b then k else Inl AssertionError)"

text \<open>A \<^verbatim>\<open>for\<close> loop whose body may raise: the first error ends it.\<close>

fun mfold :: "('x \<Rightarrow> 's \<Rightarrow> 'e + 's) \<Rightarrow> 'x list \<Rightarrow> 's \<Rightarrow> 'e + 's" where
  "mfold f [] s = Inr s"
| "mfold f (x # xs) s = (case f x s of Inl e \<Rightarrow> Inl e | Inr s' \<Rightarrow> mfold f xs s')"

text \<open>A list comprehension whose element expression may raise.\<close>

fun mmap :: "('x \<Rightarrow> 'e + 'y) \<Rightarrow> 'x list \<Rightarrow> 'e + 'y list" where
  "mmap f [] = Inr []"
| "mmap f (x # xs) = rbind (f x) (\<lambda>y. rbind (mmap f xs) (\<lambda>ys. Inr (y # ys)))"

section \<open>Integers, lists and dictionaries\<close>

type_synonym bytes = "8 word list"

definition cdiv :: "int \<Rightarrow> int \<Rightarrow> int" where
  "cdiv a b = - (a div - b)"

text \<open>List subscription \<^verbatim>\<open>xs[i]\<close>: a negative index counts from the end, out of range raises.\<close>

definition py_index :: "'a list \<Rightarrow> int \<Rightarrow> 'a result" where
  "py_index xs i =
     (if 0 \<le> i \<and> nat i < length xs then Inr (xs ! nat i)
      else if i < 0 \<and> nat (- i) \<le> length xs then Inr (xs ! (length xs - nat (- i)))
      else Inl IndexError)"

text \<open>Slices \<^verbatim>\<open>xs[a:]\<close>, \<^verbatim>\<open>xs[:b]\<close> and \<^verbatim>\<open>xs[a:b]\<close>; a negative bound counts from the end.\<close>

definition slice_pos :: "'a list \<Rightarrow> int \<Rightarrow> nat" where
  "slice_pos xs i = (if i < 0 then nat (int (length xs) + i) else nat i)"

definition py_drop :: "int \<Rightarrow> 'a list \<Rightarrow> 'a list" where
  "py_drop a xs = drop (slice_pos xs a) xs"

definition py_take :: "int \<Rightarrow> 'a list \<Rightarrow> 'a list" where
  "py_take b xs = take (slice_pos xs b) xs"

definition py_slice :: "int \<Rightarrow> int \<Rightarrow> 'a list \<Rightarrow> 'a list" where
  "py_slice a b xs = drop (slice_pos xs a) (take (slice_pos xs b) xs)"

type_synonym ('k, 'v) dict = "('k \<times> 'v) list"

definition dict_keys :: "('k, 'v) dict \<Rightarrow> 'k list" where
  "dict_keys d = map fst d"

definition dict_values :: "('k, 'v) dict \<Rightarrow> 'v list" where
  "dict_values d = map snd d"

definition dict_item :: "('k, 'v) dict \<Rightarrow> 'k \<Rightarrow> 'v result" where
  "dict_item d k = (case map_of d k of None \<Rightarrow> Inl KeyError | Some v \<Rightarrow> Inr v)"

definition move_to_end :: "'k \<Rightarrow> ('k, 'v) dict \<Rightarrow> ('k, 'v) dict result" where
  "move_to_end k d =
     (case map_of d k of None \<Rightarrow> Inl KeyError | Some v \<Rightarrow> Inr (AList.delete k d @ [(k, v)]))"

definition popitem_first :: "('k, 'v) dict \<Rightarrow> (('k \<times> 'v) \<times> ('k, 'v) dict) result" where
  "popitem_first d = (case d of [] \<Rightarrow> Inl KeyError | kv # d' \<Rightarrow> Inr (kv, d'))"

named_theorems model_defs \<open>unfolding rules of the operations of a component\<close>
named_theorems frame_simps \<open>what an operation leaves unchanged\<close>

section \<open>Lemmas on results\<close>

lemma rbind_simps [simp]:
  "rbind (Inl e) f = Inl e" "rbind (Inr x) f = f x"
  by (simp_all add: rbind_def)

lemma rbind_Inr_iff: "rbind m f = Inr y \<longleftrightarrow> (\<exists>x. m = Inr x \<and> f x = Inr y)"
  by (cases m) auto

lemma rbind_Inl_iff: "rbind m f = Inl e \<longleftrightarrow> m = Inl e \<or> (\<exists>x. m = Inr x \<and> f x = Inl e)"
  by (cases m) auto

lemma py_assert_simps [simp]:
  "py_assert True k = k" "py_assert False k = Inl AssertionError"
  by (simp_all add: py_assert_def)

lemma py_assert_Inr_iff [simp]: "py_assert b k = Inr y \<longleftrightarrow> b \<and> k = Inr y"
  by (simp add: py_assert_def)

lemma mfold_append:
  "mfold f (xs @ ys) s = rbind (mfold f xs s) (mfold f ys)"
  by (induction xs arbitrary: s) (auto split: sum.splits)

lemma rbind_cong [fundef_cong]:
  "m = m' \<Longrightarrow> (\<And>x. m' = Inr x \<Longrightarrow> f x = g x) \<Longrightarrow> rbind m f = rbind m' g"
  by (cases m') auto

lemma mmap_cong [fundef_cong]:
  "xs = ys \<Longrightarrow> (\<And>x. x \<in> set ys \<Longrightarrow> f x = g x) \<Longrightarrow> mmap f xs = mmap g ys"
  by (induction xs arbitrary: ys) auto

lemma mmap_Inr_iff: "mmap f xs = Inr ys \<longleftrightarrow> list_all2 (\<lambda>x y. f x = Inr y) xs ys"
proof (induction xs arbitrary: ys)
  case (Cons x xs)
  then show ?case by (cases ys) (auto simp: rbind_Inr_iff)
qed auto

lemma mmap_map: "(\<And>x. x \<in> set xs \<Longrightarrow> f x = Inr (g x)) \<Longrightarrow> mmap f xs = Inr (map g xs)"
  by (induction xs) auto

text \<open>The loop rule: an invariant kept by a body that never raises on the loop's elements.\<close>

lemma mfold_rule:
  assumes "I [] s"
    and "\<And>ys x s. \<lbrakk>I ys s; \<exists>zs. xs = ys @ x # zs\<rbrakk> \<Longrightarrow> \<exists>s'. f x s = Inr s' \<and> I (ys @ [x]) s'"
  shows "\<exists>s'. mfold f xs s = Inr s' \<and> I xs s'"
proof -
  have "\<exists>s'. mfold f zs s = Inr s' \<and> I (ys @ zs) s'" if "I ys s" "xs = ys @ zs" for ys zs s
    using that
  proof (induction zs arbitrary: ys s)
    case Nil
    then show ?case by simp
  next
    case (Cons z zs)
    then obtain s' where "f z s = Inr s'" "I (ys @ [z]) s'"
      using assms(2) by blast
    with Cons.IH[of "ys @ [z]" s'] Cons.prems show ?case by simp
  qed
  from this[of "[]" s xs] assms(1) show ?thesis by simp
qed

text \<open>Partial version: whatever a returning loop keeps.\<close>

lemma mfold_Inr_inv:
  assumes "mfold f xs s = Inr s'" "I s" "\<And>x s s'. \<lbrakk>x \<in> set xs; I s; f x s = Inr s'\<rbrakk> \<Longrightarrow> I s'"
  shows "I s'"
  using assms
proof (induction xs arbitrary: s)
  case Nil
  then show ?case by simp
next
  case (Cons x xs)
  from Cons.prems(1) obtain t where t: "f x s = Inr t" "mfold f xs t = Inr s'"
    by (auto split: sum.splits)
  have "I t" by (rule Cons.prems(3)[OF _ Cons.prems(2) t(1)]) simp
  with t(2) show ?case by (rule Cons.IH) (rule Cons.prems(3), auto)
qed

section \<open>Lemmas on integers and lists\<close>

lemma le_div_iff_mult_le: "0 < b \<Longrightarrow> n \<le> a div b \<longleftrightarrow> n * b \<le> a" for a b n :: int
proof
  assume b: "0 < b" and "n \<le> a div b"
  then have "n * b \<le> a div b * b" by simp
  also have "\<dots> \<le> a" using b by (metis minus_mod_eq_div_mult pos_mod_sign diff_ge_0_iff_ge minus_div_mult_eq_mod)
  finally show "n * b \<le> a" .
next
  assume b: "0 < b" and "n * b \<le> a"
  then have "(n * b) div b \<le> a div b" by (intro zdiv_mono1)
  then show "n \<le> a div b" using b by simp
qed

lemma cdiv_ge: "0 < b \<Longrightarrow> a \<le> cdiv a b * b"
proof -
  assume b: "0 < b"
  have "(- a) div b * b \<le> - a"
    using b by (metis minus_mod_eq_div_mult pos_mod_sign diff_ge_0_iff_ge minus_div_mult_eq_mod)
  then show ?thesis by (simp add: cdiv_def div_minus_right)
qed

lemma cdiv_le_iff:
  assumes "0 < b"
  shows "cdiv a b \<le> n \<longleftrightarrow> a \<le> n * b"
proof
  assume "cdiv a b \<le> n"
  then have "cdiv a b * b \<le> n * b" using assms by simp
  with cdiv_ge[OF assms, of a] show "a \<le> n * b" by linarith
next
  assume "a \<le> n * b"
  then have "(- n * b) div b \<le> (- a) div b"
    using assms by (intro zdiv_mono1) auto
  moreover have "(- n * b) div b = - n" using assms by (intro nonzero_mult_div_cancel_right) simp
  ultimately have "- n \<le> (- a) div b" by simp
  then show "cdiv a b \<le> n" by (simp add: cdiv_def div_minus_right)
qed

lemma cdiv_mono: "\<lbrakk>0 < b; a \<le> a'\<rbrakk> \<Longrightarrow> cdiv a b \<le> cdiv a' b"
  using cdiv_le_iff cdiv_ge order_trans by blast

lemma cdiv_nonneg: "\<lbrakk>0 < b; 0 \<le> a\<rbrakk> \<Longrightarrow> 0 \<le> cdiv a b"
  using cdiv_mono[of b 0 a] by (simp add: cdiv_def)

lemma cdiv_mult [simp]: "0 < b \<Longrightarrow> cdiv (n * b) b = n"
  by (simp add: cdiv_def div_minus_right flip: mult_minus_left)

lemma div_le_cdiv: "0 < b \<Longrightarrow> a div b \<le> cdiv a b"
proof -
  assume b: "0 < b"
  have "a div b * b \<le> cdiv a b * b"
    using cdiv_ge[OF b, of a] b
    by (metis minus_mod_eq_div_mult pos_mod_sign diff_ge_0_iff_ge minus_div_mult_eq_mod order_trans)
  then show ?thesis using b by simp
qed

text \<open>Only the first component of adjacent pairs off the last element, and the second off the head.\<close>

lemma successively_butlast_tl:
  assumes "successively P xs"
    and "\<And>a b. \<lbrakk>a \<in> set (butlast xs); b \<in> set (tl xs); P a b\<rbrakk> \<Longrightarrow> Q a b"
  shows "successively Q xs"
  using assms
proof (induction P xs rule: successively.induct)
  case (3 P x y xs)
  have "successively Q (y # xs)"
  proof (rule "3.IH")
    show "successively P (y # xs)" using "3.prems"(1) by simp
    show "Q a b" if "a \<in> set (butlast (y # xs))" "b \<in> set (tl (y # xs))" "P a b" for a b
      using that "3.prems"(2) by auto
  qed
  moreover have "Q x y" using "3.prems" by simp
  ultimately show ?case by simp
qed simp_all

lemma map_of_delete: "map_of (AList.delete k d) x = (if x = k then None else map_of d x)"
  by (simp add: AList.delete_conv')

lemma set_delete: "set (AList.delete k d) = {p \<in> set d. fst p \<noteq> k}"
  by (auto simp: AList.delete_eq)

lemma map_fst_delete: "map fst (AList.delete k d) = filter (\<lambda>x. x \<noteq> k) (map fst d)"
  by (induction d) auto

lemma map_of_update: "map_of (AList.update k v d) x = (if x = k then Some v else map_of d x)"
  by (simp add: AList.update_conv')

lemma length_delete_distinct:
  assumes "distinct (map fst d)" "map_of d k = Some v"
  shows "Suc (length (AList.delete k d)) = length d"
  using assms
proof (induction d)
  case Nil
  then show ?case by simp
next
  case (Cons a d)
  obtain a1 a2 where a: "a = (a1, a2)" by (cases a)
  show ?case
  proof (cases "a1 = k")
    case True
    then have "k \<notin> fst ` set d" using Cons.prems(1) a by auto
    then have "AList.delete k d = d" by (simp add: AList.delete_idem)
    with True a show ?thesis by simp
  next
    case False
    with Cons a show ?thesis by auto
  qed
qed

lemma update_new: "map_of d k = None \<Longrightarrow> AList.update k v d = d @ [(k, v)]"
  by (induction d) (auto split: if_splits)

end
