(* ===== verification/KV_Specs.thy ===== *)
theory KV_Specs
  imports Prelude
begin

text \<open>
  \<^verbatim>\<open>vllm/v1/kv_cache_interface.py\<close>: the KV-cache format of a layer, its page size and its worst-case
  memory, merging of layer formats into a group format, and the uniform-type test. The class
  hierarchy is one datatype; \<open>is_full_attention\<close> is \<^verbatim>\<open>isinstance(spec, FullAttentionSpec)\<close>, which also
  holds for the two subclasses. Torch's element sizes are the argument \<open>dsize\<close>.
\<close>

section \<open>Specifications\<close>

type_synonym dtype = string

record AttentionSpec =
  a_block_size :: int
  num_kv_heads :: int
  head_size :: int
  dtype :: dtype
  page_size_padded :: "int option"

record FullFields =
  head_size_v :: int
  fa_sliding_window :: "int option"
  fa_attention_chunk_size :: "int option"

record MambaFields =
  m_block_size :: int
  shapes :: "int list list"
  dtypes :: "dtype list"
  m_page_size_padded :: "int option"
  mamba_type :: string
  m_mamba_cache_mode :: string
  m_num_speculative_blocks :: int

datatype KVCacheSpec =
    FullAttentionSpec AttentionSpec FullFields
  | MLAAttentionSpec AttentionSpec FullFields "string option"
  | SinkFullAttentionSpec AttentionSpec FullFields "int option"
  | ChunkedLocalAttentionSpec AttentionSpec int
  | SlidingWindowSpec AttentionSpec int
  | CrossAttentionSpec AttentionSpec
  | EncoderOnlyAttentionSpec AttentionSpec
  | MambaSpec MambaFields
  | UniformTypeKVCacheSpecs int "(string \<times> KVCacheSpec) list"

fun spec_block_size :: "KVCacheSpec \<Rightarrow> int" where
  "spec_block_size (FullAttentionSpec a f) = a_block_size a"
| "spec_block_size (MLAAttentionSpec a f c) = a_block_size a"
| "spec_block_size (SinkFullAttentionSpec a f s) = a_block_size a"
| "spec_block_size (ChunkedLocalAttentionSpec a c) = a_block_size a"
| "spec_block_size (SlidingWindowSpec a w) = a_block_size a"
| "spec_block_size (CrossAttentionSpec a) = a_block_size a"
| "spec_block_size (EncoderOnlyAttentionSpec a) = a_block_size a"
| "spec_block_size (MambaSpec m) = m_block_size m"
| "spec_block_size (UniformTypeKVCacheSpecs b ss) = b"

fun is_full_attention :: "KVCacheSpec \<Rightarrow> bool" where
  "is_full_attention (FullAttentionSpec a f) = True"
| "is_full_attention (MLAAttentionSpec a f c) = True"
| "is_full_attention (SinkFullAttentionSpec a f s) = True"
| "is_full_attention _ = False"

fun copy_with_new_block_size :: "int \<Rightarrow> KVCacheSpec \<Rightarrow> KVCacheSpec" where
  "copy_with_new_block_size b (FullAttentionSpec a f) = FullAttentionSpec (a\<lparr>a_block_size := b\<rparr>) f"
| "copy_with_new_block_size b (MLAAttentionSpec a f c) = MLAAttentionSpec (a\<lparr>a_block_size := b\<rparr>) f c"
| "copy_with_new_block_size b (SinkFullAttentionSpec a f s) = SinkFullAttentionSpec (a\<lparr>a_block_size := b\<rparr>) f s"
| "copy_with_new_block_size b (ChunkedLocalAttentionSpec a c) = ChunkedLocalAttentionSpec (a\<lparr>a_block_size := b\<rparr>) c"
| "copy_with_new_block_size b (SlidingWindowSpec a w) = SlidingWindowSpec (a\<lparr>a_block_size := b\<rparr>) w"
| "copy_with_new_block_size b (CrossAttentionSpec a) = CrossAttentionSpec (a\<lparr>a_block_size := b\<rparr>)"
| "copy_with_new_block_size b (EncoderOnlyAttentionSpec a) = EncoderOnlyAttentionSpec (a\<lparr>a_block_size := b\<rparr>)"
| "copy_with_new_block_size b (MambaSpec m) = MambaSpec (m\<lparr>m_block_size := b\<rparr>)"
| "copy_with_new_block_size b (UniformTypeKVCacheSpecs b' ss) = UniformTypeKVCacheSpecs b ss"

section \<open>Page sizes\<close>

definition padded_page :: "int option \<Rightarrow> int \<Rightarrow> int result" where
  "padded_page padded real =
     (case padded of None \<Rightarrow> Inr real | Some n \<Rightarrow> py_assert (n \<ge> real) (Inr n))"

text \<open>\<^verbatim>\<open>real_page_size_bytes\<close> of the attention formats: the base class, full attention, latent attention.\<close>

definition attn_real_page_size :: "(dtype \<Rightarrow> int) \<Rightarrow> AttentionSpec \<Rightarrow> int" where
  "attn_real_page_size dsize a = 2 * a_block_size a * num_kv_heads a * head_size a * dsize (dtype a)"

definition full_real_page_size :: "(dtype \<Rightarrow> int) \<Rightarrow> AttentionSpec \<Rightarrow> FullFields \<Rightarrow> int" where
  "full_real_page_size dsize a f =
     a_block_size a * num_kv_heads a * (head_size a + head_size_v f) * dsize (dtype a)"

definition mla_real_page_size :: "(dtype \<Rightarrow> int) \<Rightarrow> AttentionSpec \<Rightarrow> string option \<Rightarrow> int" where
  "mla_real_page_size dsize a cache_dtype_str =
     (if cache_dtype_str = Some ''fp8_ds_mla'' then a_block_size a * 656
      else a_block_size a * num_kv_heads a * head_size a * dsize (dtype a))"

definition mamba_page_size :: "(dtype \<Rightarrow> int) \<Rightarrow> MambaFields \<Rightarrow> int result" where
  "mamba_page_size dsize m =
     padded_page (m_page_size_padded m)
       (sum_list (map (\<lambda>(shape, dt). prod_list shape * dsize dt) (zip (shapes m) (dtypes m))))"

fun page_size_bytes :: "(dtype \<Rightarrow> int) \<Rightarrow> KVCacheSpec \<Rightarrow> int result" where
  "page_size_bytes dsize (FullAttentionSpec a f) = padded_page (page_size_padded a) (full_real_page_size dsize a f)"
| "page_size_bytes dsize (MLAAttentionSpec a f c) = padded_page (page_size_padded a) (mla_real_page_size dsize a c)"
| "page_size_bytes dsize (SinkFullAttentionSpec a f s) = padded_page (page_size_padded a) (full_real_page_size dsize a f)"
| "page_size_bytes dsize (ChunkedLocalAttentionSpec a c) = padded_page (page_size_padded a) (attn_real_page_size dsize a)"
| "page_size_bytes dsize (SlidingWindowSpec a w) = padded_page (page_size_padded a) (attn_real_page_size dsize a)"
| "page_size_bytes dsize (CrossAttentionSpec a) = padded_page (page_size_padded a) (attn_real_page_size dsize a)"
| "page_size_bytes dsize (EncoderOnlyAttentionSpec a) = padded_page (page_size_padded a) (attn_real_page_size dsize a)"
| "page_size_bytes dsize (MambaSpec m) = mamba_page_size dsize m"
| "page_size_bytes dsize (UniformTypeKVCacheSpecs b ss) =
     rbind (mmap (\<lambda>(_, s). page_size_bytes dsize s) ss) (\<lambda>ps. Inr (sum_list ps))"

section \<open>Worst-case memory of one request\<close>

text \<open>The parts of \<^verbatim>\<open>VllmConfig\<close> that the memory formulas read.\<close>

record VllmConfig =
  max_model_len :: int
  decode_context_parallel_size :: int
  prefill_context_parallel_size :: int
  max_num_batched_tokens :: int
  max_num_encoder_input_tokens :: int
  mamba_cache_mode :: string
  num_gpu_blocks_override :: "int option"
  disable_hybrid_kv_cache_manager :: bool
  original_max_model_len :: int

definition full_max_model_len :: "VllmConfig \<Rightarrow> int" where
  "full_max_model_len cfg =
     (let ws = decode_context_parallel_size cfg * prefill_context_parallel_size cfg
      in if ws > 1 then cdiv (max_model_len cfg) ws else max_model_len cfg)"

text \<open>Number of pages, except for Mamba and encoder-only layers, times the page size.\<close>

definition pages_of :: "(dtype \<Rightarrow> int) \<Rightarrow> KVCacheSpec \<Rightarrow> int \<Rightarrow> int result" where
  "pages_of dsize s n = rbind (page_size_bytes dsize s) (\<lambda>b. Inr (n * b))"

fun max_memory_usage_bytes :: "(dtype \<Rightarrow> int) \<Rightarrow> VllmConfig \<Rightarrow> KVCacheSpec \<Rightarrow> int result" where
  "max_memory_usage_bytes dsize cfg (FullAttentionSpec a f) =
     pages_of dsize (FullAttentionSpec a f) (cdiv (full_max_model_len cfg) (a_block_size a))"
| "max_memory_usage_bytes dsize cfg (MLAAttentionSpec a f c) =
     pages_of dsize (MLAAttentionSpec a f c) (cdiv (full_max_model_len cfg) (a_block_size a))"
| "max_memory_usage_bytes dsize cfg (SinkFullAttentionSpec a f s) =
     pages_of dsize (SinkFullAttentionSpec a f s) (cdiv (full_max_model_len cfg) (a_block_size a))"
| "max_memory_usage_bytes dsize cfg (ChunkedLocalAttentionSpec a c) =
     pages_of dsize (ChunkedLocalAttentionSpec a c)
       (cdiv (min (c + max_num_batched_tokens cfg) (max_model_len cfg)) (a_block_size a))"
| "max_memory_usage_bytes dsize cfg (SlidingWindowSpec a w) =
     py_assert (decode_context_parallel_size cfg = 1)
       (pages_of dsize (SlidingWindowSpec a w)
          (cdiv (min (w - 1 + max_num_batched_tokens cfg) (max_model_len cfg)) (a_block_size a) + 1))"
| "max_memory_usage_bytes dsize cfg (CrossAttentionSpec a) =
     pages_of dsize (CrossAttentionSpec a) (cdiv (max_num_encoder_input_tokens cfg) (a_block_size a))"
| "max_memory_usage_bytes dsize cfg (EncoderOnlyAttentionSpec a) = Inr 0"
| "max_memory_usage_bytes dsize cfg (MambaSpec m) =
     pages_of dsize (MambaSpec m)
       (if mamba_cache_mode cfg = ''all'' then cdiv (max_model_len cfg) (m_block_size m)
        else if mamba_cache_mode cfg = ''align'' then 2 + m_num_speculative_blocks m
        else 1 + m_num_speculative_blocks m)"
| "max_memory_usage_bytes dsize cfg (UniformTypeKVCacheSpecs b ss) =
     rbind (mmap (\<lambda>(_, s). rbind (max_memory_usage_bytes dsize cfg s) (\<lambda>u.
                            rbind (page_size_bytes dsize s) (\<lambda>p.
                              if p = 0 then Inl ZeroDivisionError else Inr (cdiv u p)))) ss) (\<lambda>ns.
       if ns = [] then Inl ValueError
       else pages_of dsize (UniformTypeKVCacheSpecs b ss) (Max (set ns)))"

section \<open>Merging\<close>

definition merge_window_sizes :: "int list \<Rightarrow> int option result" where
  "merge_window_sizes ws =
     (case remdups ws of [] \<Rightarrow> Inr None | [w] \<Rightarrow> Inr (Some w) | _ \<Rightarrow> Inl ValueError)"

fun attention_part :: "KVCacheSpec \<Rightarrow> AttentionSpec option" where
  "attention_part (FullAttentionSpec a f) = Some a"
| "attention_part (MLAAttentionSpec a f c) = Some a"
| "attention_part (SinkFullAttentionSpec a f s) = Some a"
| "attention_part (ChunkedLocalAttentionSpec a c) = Some a"
| "attention_part (SlidingWindowSpec a w) = Some a"
| "attention_part (CrossAttentionSpec a) = Some a"
| "attention_part (EncoderOnlyAttentionSpec a) = Some a"
| "attention_part _ = None"

fun full_part :: "KVCacheSpec \<Rightarrow> FullFields option" where
  "full_part (FullAttentionSpec a f) = Some f"
| "full_part (MLAAttentionSpec a f c) = Some f"
| "full_part (SinkFullAttentionSpec a f s) = Some f"
| "full_part _ = None"

fun is_mla :: "KVCacheSpec \<Rightarrow> bool" where
  "is_mla (MLAAttentionSpec a f c) = True"
| "is_mla _ = False"

text \<open>
  The body shared by \<^verbatim>\<open>FullAttentionSpec.merge\<close> and \<^verbatim>\<open>SinkFullAttentionSpec.merge\<close>: the first layer's
  attention fields, which every layer has to repeat, with the merged window sizes.
\<close>

definition merge_full_fields :: "KVCacheSpec list \<Rightarrow> (AttentionSpec \<times> FullFields) result" where
  "merge_full_fields specs =
     py_assert (\<forall>s \<in> set specs. is_full_attention s)
       (py_assert (\<forall>s \<in> set specs. \<not> is_mla s)
          (case specs of
             [] \<Rightarrow> Inl IndexError
           | s0 # _ \<Rightarrow>
               rbind (merge_window_sizes (List.map_filter (\<lambda>s. Option.bind (full_part s) fa_sliding_window) specs)) (\<lambda>w.
               rbind (merge_window_sizes (List.map_filter (\<lambda>s. Option.bind (full_part s) fa_attention_chunk_size) specs)) (\<lambda>c.
                 py_assert (\<forall>s \<in> set specs. attention_part s = attention_part s0)
                   (py_assert (\<not> (w \<noteq> None \<and> c \<noteq> None))
                     (case (attention_part s0, full_part s0) of
                        (Some a, Some f) \<Rightarrow> Inr (a, \<lparr>head_size_v = head_size_v f, fa_sliding_window = w,
                                                    fa_attention_chunk_size = c\<rparr>)
                      | _ \<Rightarrow> Inl AssertionError))))))"

fun mla_cache_dtype :: "KVCacheSpec \<Rightarrow> string option" where
  "mla_cache_dtype (MLAAttentionSpec a f c) = c"
| "mla_cache_dtype _ = None"

fun spec_merge :: "KVCacheSpec list \<Rightarrow> KVCacheSpec result" where
  "spec_merge [] = Inl IndexError"
| "spec_merge (FullAttentionSpec a0 f0 # ss) =
     rbind (merge_full_fields (FullAttentionSpec a0 f0 # ss)) (\<lambda>(a, f). Inr (FullAttentionSpec a f))"
| "spec_merge (SinkFullAttentionSpec a0 f0 s0 # ss) =
     rbind (merge_full_fields (SinkFullAttentionSpec a0 f0 s0 # ss)) (\<lambda>(a, f). Inr (SinkFullAttentionSpec a f s0))"
| "spec_merge (MLAAttentionSpec a f c # ss) =
     py_assert (\<forall>s \<in> set ss. is_mla s)
       (py_assert (\<forall>s \<in> set ss. mla_cache_dtype s = c)
          (Inr (MLAAttentionSpec a \<lparr>head_size_v = head_size a, fa_sliding_window = None,
                                    fa_attention_chunk_size = None\<rparr> c)))"
| "spec_merge (s # ss) = py_assert (\<forall>t \<in> set ss. t = s) (Inr s)"

section \<open>Uniform types\<close>

fun is_uniform_type :: "(string \<times> KVCacheSpec) list \<Rightarrow> bool result" where
  "is_uniform_type [] = Inl StopIteration"
| "is_uniform_type ((n, s0) # ss) =
     (if \<exists>(_, s) \<in> set ss. spec_block_size s \<noteq> spec_block_size s0 then Inr False
      else case s0 of
        CrossAttentionSpec _ \<Rightarrow>
          Inr (\<forall>(_, s) \<in> set ss. case s of CrossAttentionSpec _ \<Rightarrow> True | _ \<Rightarrow> False)
      | SlidingWindowSpec _ w \<Rightarrow>
          Inr (\<forall>(_, s) \<in> set ss. case s of SlidingWindowSpec _ w' \<Rightarrow> w' = w | _ \<Rightarrow> False)
      | ChunkedLocalAttentionSpec _ c \<Rightarrow>
          Inr (\<forall>(_, s) \<in> set ss. case s of ChunkedLocalAttentionSpec _ c' \<Rightarrow> c' = c | _ \<Rightarrow> False)
      | MambaSpec m \<Rightarrow>
          Inr (\<forall>(_, s) \<in> set ss. case s of
                 MambaSpec m' \<Rightarrow> m_num_speculative_blocks m' = m_num_speculative_blocks m | _ \<Rightarrow> False)
      | _ \<Rightarrow>
          if is_full_attention s0 then Inr (\<forall>(_, s) \<in> set ss. is_full_attention s)
          else Inl NotImplementedError)"

definition uniform_from_specs :: "(string \<times> KVCacheSpec) list \<Rightarrow> KVCacheSpec option result" where
  "uniform_from_specs specs =
     rbind (is_uniform_type specs) (\<lambda>u.
       case specs of
         [] \<Rightarrow> Inl StopIteration
       | (_, s0) # _ \<Rightarrow> Inr (if u then Some (UniformTypeKVCacheSpecs (spec_block_size s0) specs) else None))"

section \<open>Configuration of a model\<close>

record KVCacheTensor =
  kt_size :: int
  shared_by :: "string list"

record KVCacheGroupSpec =
  layer_names :: "string list"
  g_kv_cache_spec :: KVCacheSpec

record KVCacheConfig =
  num_blocks :: int
  kv_cache_tensors :: "KVCacheTensor list"
  kv_cache_groups :: "KVCacheGroupSpec list"

end
