(* ===== verification/Free_Block_Queue.thy ===== *)
theory Free_Block_Queue
  imports Prelude
begin

text \<open>
  The free-block queue of \<^verbatim>\<open>vllm/v1/core/kv_cache_utils.py\<close>: \<^verbatim>\<open>KVCacheBlock\<close> objects threaded on a
  doubly linked list between two fake sentinel blocks. Object identity is a reference
  (\<open>bref\<close>), the objects live in a store, and the queue operations assign the link fields of
  the store in the order the code does. The lemmas relate the pointer structure to a plain
  list (\<open>fq_repr\<close>) and every operation to a list operation; the locale \<open>block_queue\<close> states
  that contract for the block pool, and its interpretation discharges it for this code.
\<close>

section \<open>Block objects and their store\<close>

datatype bref = Blk nat | FakeHead | FakeTail

record KVCacheBlock =
  block_id :: int
  ref_cnt :: int
  block_hash :: "bytes option"
  prev_free_block :: "bref option"
  next_free_block :: "bref option"
  is_null :: bool

type_synonym objs = "bref \<Rightarrow> KVCacheBlock"

definition new_block :: "int \<Rightarrow> KVCacheBlock" where
  "new_block i = \<lparr>block_id = i, ref_cnt = 0, block_hash = None,
     prev_free_block = None, next_free_block = None, is_null = False\<rparr>"

definition set_prev :: "bref \<Rightarrow> bref option \<Rightarrow> objs \<Rightarrow> objs" where
  "set_prev r v h = h(r := (h r)\<lparr>prev_free_block := v\<rparr>)"

definition set_next :: "bref \<Rightarrow> bref option \<Rightarrow> objs \<Rightarrow> objs" where
  "set_next r v h = h(r := (h r)\<lparr>next_free_block := v\<rparr>)"

text \<open>
  The queue's own fields. The block pool's record extends this one, so the operations below
  work on the queue embedded in the pool, with the pool's block objects.
\<close>

record fbq =
  objs :: objs
  num_free_blocks :: int

section \<open>Operations\<close>

fun init_links :: "bref list \<Rightarrow> nat \<Rightarrow> objs \<Rightarrow> objs" where
  "init_links bs 0 h = h"
| "init_links bs (Suc k) h =
     (let i = length bs - Suc k;
          h1 = (if i > 0 then set_prev (bs ! i) (Some (bs ! (i - 1))) h else h);
          h2 = (if i < length bs - 1 then set_next (bs ! i) (Some (bs ! (i + 1))) h1 else h1)
      in init_links bs k h2)"

definition fq_init :: "bref list \<Rightarrow> 'z fbq_scheme \<Rightarrow> 'z fbq_scheme" where
  "fq_init bs q =
     (let h = init_links bs (length bs) (objs q);
          h1 = h(FakeHead := new_block (-1), FakeTail := new_block (-1));
          h2 = (if length bs > 0
                then set_next (last bs) (Some FakeTail)
                       (set_prev FakeTail (Some (last bs))
                          (set_prev (hd bs) (Some FakeHead)
                             (set_next FakeHead (Some (hd bs)) h1)))
                else set_prev FakeTail (Some FakeHead) (set_next FakeHead (Some FakeTail) h1))
      in q\<lparr>objs := h2, num_free_blocks := int (length bs)\<rparr>)"

definition fq_popleft :: "'z fbq_scheme \<Rightarrow> (bref \<times> 'z fbq_scheme) result" where
  "fq_popleft q =
     (let h = objs q;
          no_free = py_assert (num_free_blocks q = 0) (Inl ValueError)
      in case next_free_block (h FakeHead) of
           None \<Rightarrow> no_free
         | Some first_block \<Rightarrow>
             if first_block = FakeTail then no_free
             else (case next_free_block (h first_block) of
                     None \<Rightarrow> Inl RuntimeError
                   | Some nxt \<Rightarrow>
                       let h1 = set_next FakeHead (Some nxt) h;
                           h2 = set_prev nxt (Some FakeHead) h1;
                           h3 = set_next first_block None (set_prev first_block None h2)
                       in Inr (first_block,
                               q\<lparr>objs := h3, num_free_blocks := num_free_blocks q - 1\<rparr>)))"

text \<open>The loop of \<^verbatim>\<open>popleft_n\<close>: the blocks popped, the block after them, the new store.\<close>

fun popleft_loop :: "nat \<Rightarrow> objs \<Rightarrow> bref option \<Rightarrow> (bref list \<times> bref option \<times> objs) result" where
  "popleft_loop 0 h cur = Inr ([], cur, h)"
| "popleft_loop (Suc k) h cur =
     (case cur of
        None \<Rightarrow> Inl AssertionError
      | Some b \<Rightarrow>
          rbind (popleft_loop k (set_next b None (set_prev b None h)) (next_free_block (h b)))
            (\<lambda>(bs, c, h'). Inr (b # bs, c, h')))"

definition fq_popleft_n :: "int \<Rightarrow> 'z fbq_scheme \<Rightarrow> (bref list \<times> 'z fbq_scheme) result" where
  "fq_popleft_n n q =
     (if n = 0 then Inr ([], q)
      else py_assert (num_free_blocks q \<ge> n)
        (rbind (popleft_loop (nat n) (objs q) (next_free_block (objs q FakeHead)))
          (\<lambda>(bs, cur, h).
             let h' = (case cur of
                         None \<Rightarrow> h
                       | Some c \<Rightarrow> set_prev c (Some FakeHead) (set_next FakeHead (Some c) h))
             in Inr (bs, q\<lparr>objs := h', num_free_blocks := num_free_blocks q - n\<rparr>))))"

definition fq_remove :: "bref \<Rightarrow> 'z fbq_scheme \<Rightarrow> 'z fbq_scheme result" where
  "fq_remove b q =
     (let h = objs q in
      case (prev_free_block (h b), next_free_block (h b)) of
        (Some p, Some n) \<Rightarrow>
          (let h1 = set_next p (Some n) h;
               h2 = set_prev n (Some p) h1;
               h3 = set_next b None (set_prev b None h2)
           in Inr (q\<lparr>objs := h3, num_free_blocks := num_free_blocks q - 1\<rparr>))
      | _ \<Rightarrow> Inl RuntimeError)"

definition fq_append :: "bref \<Rightarrow> 'z fbq_scheme \<Rightarrow> 'z fbq_scheme result" where
  "fq_append b q =
     (let h = objs q in
      case prev_free_block (h FakeTail) of
        None \<Rightarrow> Inl RuntimeError
      | Some last_block \<Rightarrow>
          (let h1 = set_next last_block (Some b) h;
               h2 = set_prev b (Some last_block) h1;
               h3 = set_next b (Some FakeTail) h2;
               h4 = set_prev FakeTail (Some b) h3
           in Inr (q\<lparr>objs := h4, num_free_blocks := num_free_blocks q + 1\<rparr>)))"

fun append_loop :: "bref list \<Rightarrow> bref \<Rightarrow> objs \<Rightarrow> bref \<times> objs" where
  "append_loop [] last_block h = (last_block, h)"
| "append_loop (b # bs) last_block h =
     append_loop bs b (set_next last_block (Some b) (set_prev b (Some last_block) h))"

definition fq_append_n :: "bref list \<Rightarrow> 'z fbq_scheme \<Rightarrow> 'z fbq_scheme result" where
  "fq_append_n bs q =
     (if bs = [] then Inr q
      else case prev_free_block (objs q FakeTail) of
        None \<Rightarrow> Inl AssertionError
      | Some last_block \<Rightarrow>
          (let (l, h) = append_loop bs last_block (objs q);
               h' = set_prev FakeTail (Some l) (set_next l (Some FakeTail) h)
           in Inr (q\<lparr>objs := h', num_free_blocks := num_free_blocks q + int (length bs)\<rparr>)))"

text \<open>The traversal follows \<^verbatim>\<open>next_free_block\<close> until it is None; on a cyclic store it never returns.\<close>

partial_function (option) traverse :: "objs \<Rightarrow> bref \<Rightarrow> bref list \<Rightarrow> bref list option" where
  "traverse h cur ret =
     (case next_free_block (h cur) of
        None \<Rightarrow> Some ret
      | Some n \<Rightarrow> traverse h n (ret @ [cur]))"

definition fq_get_all_free_blocks :: "'z fbq_scheme \<Rightarrow> bref list result option" where
  "fq_get_all_free_blocks q =
     (case next_free_block (objs q FakeHead) of
        None \<Rightarrow> Some (Inl RuntimeError)
      | Some first \<Rightarrow> map_option Inr (traverse (objs q) first []))"

section \<open>The list a queue represents\<close>

definition link :: "objs \<Rightarrow> bref \<Rightarrow> bref \<Rightarrow> bool" where
  "link h a b \<longleftrightarrow> next_free_block (h a) = Some b \<and> prev_free_block (h b) = Some a"

definition chained :: "objs \<Rightarrow> bref list \<Rightarrow> bool" where
  "chained h xs \<longleftrightarrow> successively (link h) (FakeHead # xs @ [FakeTail])"

definition unlinked :: "objs \<Rightarrow> bref \<Rightarrow> bool" where
  "unlinked h b \<longleftrightarrow> prev_free_block (h b) = None \<and> next_free_block (h b) = None"

definition links_ok :: "objs \<Rightarrow> bref list \<Rightarrow> bool" where
  "links_ok h xs \<longleftrightarrow> chained h xs \<and> distinct xs \<and> set xs \<subseteq> range Blk \<and>
     next_free_block (h FakeTail) = None \<and> prev_free_block (h FakeHead) = None \<and>
     (\<forall>i. Blk i \<notin> set xs \<longrightarrow> unlinked h (Blk i))"

definition fq_repr :: "'z fbq_scheme \<Rightarrow> bref list \<Rightarrow> bool" where
  "fq_repr q xs \<longleftrightarrow> links_ok (objs q) xs \<and> num_free_blocks q = int (length xs)"

text \<open>The fields of a block that the queue never touches.\<close>

definition payload :: "objs \<Rightarrow> bref \<Rightarrow> int \<times> int \<times> bytes option \<times> bool" where
  "payload h b = (block_id (h b), ref_cnt (h b), block_hash (h b), is_null (h b))"

text \<open>The net effect of taking \<open>b\<close> out from between \<open>p\<close> and \<open>n\<close>, and of clearing links.\<close>

definition unlink :: "bref \<Rightarrow> bref \<Rightarrow> bref \<Rightarrow> objs \<Rightarrow> objs" where
  "unlink p b n h = set_next b None (set_prev b None (set_prev n (Some p) (set_next p (Some n) h)))"

definition clear_links :: "bref set \<Rightarrow> objs \<Rightarrow> objs" where
  "clear_links B h = (\<lambda>x. if x \<in> B then (h x)\<lparr>prev_free_block := None, next_free_block := None\<rparr> else h x)"

section \<open>Field updates\<close>

lemma link_fields [simp]:
  "next_free_block (set_prev r v h x) = next_free_block (h x)"
  "prev_free_block (set_next r v h x) = prev_free_block (h x)"
  "prev_free_block (set_prev r v h x) = (if x = r then v else prev_free_block (h x))"
  "next_free_block (set_next r v h x) = (if x = r then v else next_free_block (h x))"
  by (simp_all add: set_prev_def set_next_def)

lemma payload_set [simp]:
  "payload (set_prev r v h) = payload h" "payload (set_next r v h) = payload h"
  by (auto simp: payload_def set_prev_def set_next_def)

lemma segment_cong:
  assumes "successively (link h) xs"
    and "\<And>a. a \<in> set (butlast xs) \<Longrightarrow> next_free_block (h' a) = next_free_block (h a)"
    and "\<And>b. b \<in> set (tl xs) \<Longrightarrow> prev_free_block (h' b) = prev_free_block (h b)"
  shows "successively (link h') xs"
  by (rule successively_butlast_tl[OF assms(1)]) (auto simp: link_def assms(2,3))

lemma chained_append:
  "chained h (us @ vs) \<longleftrightarrow> successively (link h) (FakeHead # us) \<and>
     successively (link h) (vs @ [FakeTail]) \<and> link h (last (FakeHead # us)) (hd (vs @ [FakeTail]))"
  using successively_append_iff[of "link h" "FakeHead # us" "vs @ [FakeTail]"]
  by (simp add: chained_def)

lemma chained_cong:
  assumes "chained h xs" "\<And>b. prev_free_block (h' b) = prev_free_block (h b)"
    "\<And>b. next_free_block (h' b) = next_free_block (h b)"
  shows "chained h' xs"
  using assms unfolding chained_def by (blast intro: segment_cong)

lemma links_ok_cong:
  assumes "\<And>b. prev_free_block (h' b) = prev_free_block (h b)"
    "\<And>b. next_free_block (h' b) = next_free_block (h b)"
  shows "links_ok h' xs = links_ok h xs"
  using chained_cong[of h xs h'] chained_cong[of h' xs h] assms
  by (auto simp: links_ok_def unlinked_def)

lemma not_fake: "set xs \<subseteq> range Blk \<Longrightarrow> FakeHead \<notin> set xs \<and> FakeTail \<notin> set xs"
  by auto

section \<open>Removing a block\<close>

lemma links_ok_neighbours:
  assumes "links_ok h (us @ b # vs)"
  shows "prev_free_block (h b) = Some (last (FakeHead # us))"
    and "next_free_block (h b) = Some (hd (vs @ [FakeTail]))"
proof -
  have c: "chained h (us @ b # vs)" using assms by (simp add: links_ok_def)
  from c show "prev_free_block (h b) = Some (last (FakeHead # us))"
    by (simp only: chained_append) (simp add: link_def)
  have "chained h ((us @ [b]) @ vs)" using c by simp
  then show "next_free_block (h b) = Some (hd (vs @ [FakeTail]))"
    by (simp only: chained_append) (simp add: link_def)
qed

lemma links_ok_unlink:
  assumes ok: "links_ok h (us @ b # vs)"
  defines "p \<equiv> last (FakeHead # us)" and "n \<equiv> hd (vs @ [FakeTail])"
  shows "links_ok (unlink p b n h) (us @ vs)"
proof -
  let ?pre = "FakeHead # us" and ?post = "vs @ [FakeTail]"
  let ?h = "unlink p b n h"
  have c: "chained h (us @ b # vs)" and d: "distinct (us @ b # vs)"
    and r: "set (us @ b # vs) \<subseteq> range Blk" using ok by (simp_all add: links_ok_def)
  have c1: "chained h ((us @ [b]) @ vs)" using c by simp
  have pre: "successively (link h) ?pre" using c chained_append by blast
  have post: "successively (link h) ?post" using c1 chained_append by blast
  have dd: "distinct (?pre @ b # ?post)" using d r not_fake[OF r] by auto
  have p: "p \<in> set ?pre" and n: "n \<in> set ?post"
    unfolding p_def n_def using last_in_set[of ?pre] hd_in_set[of ?post] by auto
  have pb: "p \<noteq> b" and nb: "n \<noteq> b" using p n dd by auto
  have pl: "p \<notin> set (butlast ?pre)"
    unfolding p_def using dd distinct_append[of "butlast ?pre" "[last ?pre]"]
    by (metis append_butlast_last_id distinct_append disjoint_iff list.set_intros(1) list.discI)
  have nl: "n \<notin> set (tl ?post)"
    unfolding n_def using dd by (cases vs) auto
  have s1: "successively (link ?h) ?pre"
  proof (rule segment_cong[OF pre])
    fix a assume "a \<in> set (butlast ?pre)"
    then show "next_free_block (?h a) = next_free_block (h a)"
      using pl dd in_set_butlastD[of a ?pre] by (auto simp: unlink_def)
  next
    fix a assume "a \<in> set (tl ?pre)"
    then show "prev_free_block (?h a) = prev_free_block (h a)"
      using n dd by (auto simp: unlink_def)
  qed
  have s2: "successively (link ?h) ?post"
  proof (rule segment_cong[OF post])
    fix a assume "a \<in> set (butlast ?post)"
    then show "next_free_block (?h a) = next_free_block (h a)"
      using p dd by (auto simp: unlink_def)
  next
    fix a assume "a \<in> set (tl ?post)"
    then show "prev_free_block (?h a) = prev_free_block (h a)"
      using nl dd list.set_sel(2)[of ?post a] by (auto simp: unlink_def)
  qed
  have "link ?h p n" using pb nb by (simp add: link_def unlink_def)
  then have "chained ?h (us @ vs)"
    unfolding chained_append using s1 s2 by (simp only: p_def n_def)
  moreover have "unlinked ?h (Blk i)" if "Blk i \<notin> set (us @ vs)" for i
  proof (cases "Blk i = b")
    case True
    then show ?thesis by (simp add: unlinked_def unlink_def)
  next
    case False
    then have "Blk i \<noteq> p" "Blk i \<noteq> n" using that p n by auto
    then show ?thesis using False that ok by (auto simp: unlinked_def unlink_def links_ok_def)
  qed
  moreover have "next_free_block (?h FakeTail) = None" "prev_free_block (?h FakeHead) = None"
    using ok p n dd by (auto simp: unlink_def links_ok_def)
  ultimately show ?thesis using d r by (simp add: links_ok_def)
qed

lemma fq_remove_spec:
  assumes "fq_repr q (us @ b # vs)"
  shows "\<exists>q'. fq_remove b q = Inr q' \<and> fq_repr q' (us @ vs) \<and>
    payload (objs q') = payload (objs q) \<and> fbq.more q' = fbq.more q"
proof -
  let ?p = "last (FakeHead # us)" and ?n = "hd (vs @ [FakeTail])"
  have ok: "links_ok (objs q) (us @ b # vs)" and n: "num_free_blocks q = int (length (us @ b # vs))"
    using assms by (simp_all add: fq_repr_def)
  let ?q = "q\<lparr>objs := unlink ?p b ?n (objs q), num_free_blocks := num_free_blocks q - 1\<rparr>"
  have "fq_remove b q = Inr ?q"
    by (simp only: fq_remove_def Let_def links_ok_neighbours[OF ok] unlink_def prod.case option.case)
  moreover have "fq_repr ?q (us @ vs)"
    using links_ok_unlink[OF ok] n by (simp add: fq_repr_def)
  moreover have "payload (objs ?q) = payload (objs q)"
    by (simp add: unlink_def)
  ultimately show ?thesis by auto
qed

lemma fq_remove_not_free:
  assumes "fq_repr q xs" "Blk i \<notin> set xs"
  shows "fq_remove (Blk i) q = Inl RuntimeError"
  using assms by (simp add: fq_repr_def links_ok_def unlinked_def fq_remove_def)

lemma fq_popleft_eq_remove:
  assumes "fq_repr q (b # xs)"
  shows "fq_popleft q = rbind (fq_remove b q) (\<lambda>q'. Inr (b, q'))"
proof -
  have ok: "links_ok (objs q) ([] @ b # xs)" using assms by (simp add: fq_repr_def)
  have "chained (objs q) ([] @ b # xs)" and "b \<noteq> FakeTail" using ok by (auto simp: links_ok_def)
  moreover from this(1) have "next_free_block (objs q FakeHead) = Some b"
    by (simp only: chained_append) (simp add: link_def)
  ultimately show ?thesis
    using links_ok_neighbours[OF ok]
    by (simp add: fq_popleft_def fq_remove_def Let_def)
qed

lemma fq_popleft_spec:
  assumes "fq_repr q (b # xs)"
  shows "\<exists>q'. fq_popleft q = Inr (b, q') \<and> fq_repr q' xs \<and>
    payload (objs q') = payload (objs q) \<and> fbq.more q' = fbq.more q"
  using fq_remove_spec[of q "[]" b xs] fq_popleft_eq_remove[OF assms] assms by auto

lemma fq_popleft_empty: "fq_repr q [] \<Longrightarrow> fq_popleft q = Inl ValueError"
  by (simp add: fq_repr_def links_ok_def chained_def link_def fq_popleft_def)

section \<open>Popping several blocks\<close>

lemma clear_links_fields [simp]:
  "prev_free_block (clear_links B h x) = (if x \<in> B then None else prev_free_block (h x))"
  "next_free_block (clear_links B h x) = (if x \<in> B then None else next_free_block (h x))"
  by (simp_all add: clear_links_def)

lemma payload_clear_links [simp]: "payload (clear_links B h) = payload h"
  by (auto simp: payload_def clear_links_def)

lemma clear_links_insert: "clear_links B (set_next b None (set_prev b None h)) = clear_links (insert b B) h"
  by (auto simp: clear_links_def set_next_def set_prev_def)

lemma popleft_loop_spec:
  assumes "successively (\<lambda>a b. next_free_block (h a) = Some b) (us @ c # vs)" "distinct (us @ c # vs)"
  shows "popleft_loop (length us) h (Some (hd (us @ c # vs))) = Inr (us, Some c, clear_links (set us) h)"
  using assms
proof (induction us arbitrary: h)
  case Nil
  then show ?case by (simp add: clear_links_def)
next
  case (Cons u us)
  let ?h = "set_next u None (set_prev u None h)"
  have "next_free_block (h u) = Some (hd (us @ c # vs))"
    using Cons.prems(1) by (cases us) auto
  moreover have "successively (\<lambda>a b. next_free_block (?h a) = Some b) (us @ c # vs)"
    using Cons.prems by (cases us) (auto intro: successively_mono)
  then have "popleft_loop (length us) ?h (Some (hd (us @ c # vs))) = Inr (us, Some c, clear_links (set us) ?h)"
    using Cons.IH Cons.prems(2) by simp
  ultimately show ?case by (simp add: clear_links_insert)
qed

lemma links_ok_drop:
  assumes ok: "links_ok h (us @ vs)"
  defines "n \<equiv> hd (vs @ [FakeTail])"
  shows "links_ok (set_prev n (Some FakeHead) (set_next FakeHead (Some n) (clear_links (set us) h))) vs"
    (is "links_ok ?h vs")
proof -
  let ?post = "vs @ [FakeTail]"
  have d: "distinct (us @ vs)" and r: "set (us @ vs) \<subseteq> range Blk" using ok by (simp_all add: links_ok_def)
  have post: "successively (link h) ?post"
    using ok chained_append by (auto simp: links_ok_def)
  have dd: "distinct (us @ ?post)" "FakeHead \<notin> set (us @ ?post)" using d r not_fake[OF r] by auto
  have n: "n \<in> set ?post" "n \<notin> set (tl ?post)"
    unfolding n_def using dd hd_in_set[of ?post] by (cases vs; auto)+
  have "successively (link ?h) ?post"
  proof (rule segment_cong[OF post])
    fix a assume "a \<in> set (butlast ?post)"
    then show "next_free_block (?h a) = next_free_block (h a)" using dd by auto
  next
    fix a assume "a \<in> set (tl ?post)"
    then show "prev_free_block (?h a) = prev_free_block (h a)"
      using n dd list.set_sel(2)[of ?post a] by auto
  qed
  moreover have "link ?h FakeHead n" using n dd by (auto simp: link_def)
  ultimately have "chained ?h vs"
    using chained_append[of ?h "[]" vs] by (simp add: n_def)
  moreover have "unlinked ?h (Blk i)" if "Blk i \<notin> set vs" for i
    using that n ok by (auto simp: unlinked_def links_ok_def)
  moreover have "next_free_block (?h FakeTail) = None" "prev_free_block (?h FakeHead) = None"
    using ok n dd by (auto simp: links_ok_def)
  ultimately show ?thesis using d r by (simp add: links_ok_def)
qed

lemma fq_popleft_n_spec:
  assumes rep: "fq_repr q xs" and n: "0 \<le> n" "n \<le> int (length xs)"
  shows "\<exists>q'. fq_popleft_n n q = Inr (take (nat n) xs, q') \<and> fq_repr q' (drop (nat n) xs) \<and>
    payload (objs q') = payload (objs q) \<and> fbq.more q' = fbq.more q"
proof (cases "n = 0")
  case True
  then show ?thesis using rep by (simp add: fq_popleft_n_def)
next
  case False
  define us where "us = take (nat n) xs"
  define vs where "vs = drop (nat n) xs"
  have xs: "xs = us @ vs" and lu: "length us = nat n" using n by (auto simp: us_def vs_def)
  obtain c ws where c: "vs @ [FakeTail] = c # ws" by (cases vs) auto
  have ok: "links_ok (objs q) (us @ vs)" using rep xs by (simp add: fq_repr_def)
  then have ch: "successively (link (objs q)) (FakeHead # us @ vs @ [FakeTail])"
    and d: "distinct (us @ vs @ [FakeTail])"
    by (auto simp: links_ok_def chained_def)
  have "successively (\<lambda>a b. next_free_block (objs q a) = Some b) (us @ c # ws)"
    using ch c by (cases us) (auto simp: successively_Cons link_def intro: successively_mono)
  then have loop: "popleft_loop (nat n) (objs q) (Some (hd (us @ c # ws))) = Inr (us, Some c, clear_links (set us) (objs q))"
    using popleft_loop_spec d c lu by metis
  have hd: "next_free_block (objs q FakeHead) = Some (hd (us @ c # ws))"
    using ch c by (cases us) (auto simp: link_def)
  have num: "n \<le> num_free_blocks q" using rep n(2) by (simp add: fq_repr_def)
  let ?h = "set_prev c (Some FakeHead) (set_next FakeHead (Some c) (clear_links (set us) (objs q)))"
  let ?q = "q\<lparr>objs := ?h, num_free_blocks := num_free_blocks q - n\<rparr>"
  have "fq_popleft_n n q = Inr (us, ?q)"
    using False loop hd num by (simp add: fq_popleft_n_def)
  moreover have "links_ok ?h vs" using links_ok_drop[OF ok] c by simp
  then have "fq_repr ?q vs" using rep xs lu n by (simp add: fq_repr_def)
  ultimately show ?thesis by (auto simp: us_def vs_def)
qed

lemma fq_popleft_n_too_many:
  "\<lbrakk>fq_repr q xs; int (length xs) < n\<rbrakk> \<Longrightarrow> fq_popleft_n n q = Inl AssertionError"
  by (auto simp: fq_repr_def fq_popleft_n_def)

section \<open>Appending blocks\<close>

lemma append_loop_spec:
  assumes "distinct (l # bs)" "append_loop bs l h = (l', h')"
  shows "l' = last (l # bs) \<and> successively (link h') (l # bs) \<and> payload h' = payload h \<and>
    prev_free_block (h' l) = prev_free_block (h l) \<and>
    (\<forall>x. x \<notin> set (l # bs) \<longrightarrow> prev_free_block (h' x) = prev_free_block (h x) \<and>
                               next_free_block (h' x) = next_free_block (h x))"
  using assms
proof (induction bs arbitrary: l h)
  case Nil
  then show ?case by simp
next
  case (Cons b bs)
  let ?h = "set_next l (Some b) (set_prev b (Some l) h)"
  have "append_loop bs b ?h = (l', h')" using Cons.prems(2) by simp
  from Cons.IH[OF _ this] Cons.prems(1)
  have ih: "l' = last (b # bs)" "successively (link h') (b # bs)" "payload h' = payload ?h"
    "prev_free_block (h' b) = prev_free_block (?h b)"
    "\<And>x. x \<notin> set (b # bs) \<Longrightarrow> prev_free_block (h' x) = prev_free_block (?h x) \<and>
                               next_free_block (h' x) = next_free_block (?h x)"
    by simp_all
  have "l \<notin> set (b # bs)" using Cons.prems(1) by simp
  from ih(5)[OF this] ih(4) Cons.prems(1)
  have "link h' l b" "prev_free_block (h' l) = prev_free_block (h l)" by (auto simp: link_def)
  then show ?case using ih by auto
qed

lemma links_ok_append:
  assumes ok: "links_ok h xs" and bs: "bs \<noteq> []" "distinct bs" "set bs \<subseteq> range Blk" "set bs \<inter> set xs = {}"
    and lp: "append_loop bs (last (FakeHead # xs)) h = (l, h1)"
  shows "links_ok (set_prev FakeTail (Some l) (set_next l (Some FakeTail) h1)) (xs @ bs)" (is "links_ok ?h _")
proof -
  let ?l = "last (FakeHead # xs)" and ?pre = "FakeHead # xs"
  have r: "set (xs @ bs) \<subseteq> range Blk" and dx: "distinct xs" using ok bs by (auto simp: links_ok_def)
  have dpre: "distinct (?pre @ bs)" using not_fake[OF r] bs dx by auto
  have lin: "?l \<in> set ?pre" using last_in_set[of ?pre] by auto
  have dl: "distinct (?l # bs)" using lin dpre bs by auto
  note sp = append_loop_spec[OF dl lp]
  then have l: "l = last bs" using bs(1) by simp
  have lb: "l \<in> set bs" using l bs(1) by simp
  have tl_out: "FakeTail \<notin> set (?l # bs)" using lin not_fake[OF r] by auto
  have plast: "?l \<notin> set (butlast ?pre)"
    using dpre by (metis append_butlast_last_id distinct_append disjoint_iff list.set_intros(1) list.discI)
  have pre: "successively (link h) ?pre" using ok chained_append[of h xs "[]"] by (simp add: links_ok_def)
  have s1: "successively (link ?h) ?pre"
  proof (rule segment_cong[OF pre])
    fix a assume a: "a \<in> set (butlast ?pre)"
    then have "a \<in> set ?pre" "a \<noteq> ?l" using plast in_set_butlastD by fast+
    then have "a \<notin> set (?l # bs)" "a \<noteq> l" using dpre lb by auto
    then show "next_free_block (?h a) = next_free_block (h a)" using sp by simp
  next
    fix a assume a: "a \<in> set (tl ?pre)"
    then have "a \<notin> set bs" "a \<noteq> FakeTail" using dpre not_fake[OF r] by auto
    then show "prev_free_block (?h a) = prev_free_block (h a)" using sp by (cases "a = ?l") auto
  qed
  have s2: "successively (link ?h) (?l # bs)"
  proof (rule segment_cong[of h1])
    show "successively (link h1) (?l # bs)" using sp by blast
    fix a assume "a \<in> set (butlast (?l # bs))"
    then have "a \<noteq> l" using dl l bs(1)
      by (metis append_butlast_last_id distinct_append disjoint_iff last_ConsR list.set_intros(1) list.discI)
    then show "next_free_block (?h a) = next_free_block (h1 a)" by simp
  next
    fix b assume "b \<in> set (tl (?l # bs))"
    then show "prev_free_block (?h b) = prev_free_block (h1 b)" using tl_out by auto
  qed
  have "chained ?h (xs @ bs)"
  proof -
    have "successively (link ?h) (?pre @ bs)"
      using s1 s2 bs(1) by (simp only: successively_append_iff) (auto simp: successively_Cons)
    moreover have "link ?h (last (?pre @ bs)) FakeTail" using l bs(1) by (simp add: link_def)
    ultimately show ?thesis using chained_append[of ?h "xs @ bs" "[]"] bs(1) by simp
  qed
  moreover have "unlinked ?h (Blk i)" if "Blk i \<notin> set (xs @ bs)" for i
  proof -
    have "Blk i \<notin> set (?l # bs)" "Blk i \<noteq> l" using that lin lb by auto
    then show ?thesis using sp that ok by (auto simp: unlinked_def links_ok_def)
  qed
  moreover have "next_free_block (?h FakeTail) = None"
    using sp tl_out lb ok by (auto simp: links_ok_def)
  moreover have "prev_free_block (?h FakeHead) = None"
  proof (cases "?l = FakeHead")
    case True
    then show ?thesis using sp ok by (simp add: links_ok_def)
  next
    case False
    then have "FakeHead \<notin> set (?l # bs)" using not_fake[OF r] by auto
    then show ?thesis using sp ok by (simp add: links_ok_def)
  qed
  ultimately show ?thesis using dpre r by (simp add: links_ok_def)
qed

lemma links_ok_tail: "links_ok h xs \<Longrightarrow> prev_free_block (h FakeTail) = Some (last (FakeHead # xs))"
  using chained_append[of h xs "[]"] by (simp add: links_ok_def link_def)

lemma fq_append_n_spec:
  assumes rep: "fq_repr q xs" and bs: "distinct bs" "set bs \<subseteq> range Blk" "set bs \<inter> set xs = {}"
  shows "\<exists>q'. fq_append_n bs q = Inr q' \<and> fq_repr q' (xs @ bs) \<and>
    payload (objs q') = payload (objs q) \<and> fbq.more q' = fbq.more q"
proof (cases "bs = []")
  case True
  then show ?thesis using rep by (simp add: fq_append_n_def)
next
  case False
  have ok: "links_ok (objs q) xs" and num: "num_free_blocks q = int (length xs)"
    using rep by (simp_all add: fq_repr_def)
  have r: "set (xs @ bs) \<subseteq> range Blk" using ok bs(2) by (auto simp: links_ok_def)
  obtain l h1 where lp: "append_loop bs (last (FakeHead # xs)) (objs q) = (l, h1)" by fastforce
  have "last (FakeHead # xs) \<in> set (FakeHead # xs)" by (rule last_in_set) simp
  then have dl: "distinct (last (FakeHead # xs) # bs)"
    using bs not_fake[OF r] by auto
  let ?h = "set_prev FakeTail (Some l) (set_next l (Some FakeTail) h1)"
  have "fq_append_n bs q = Inr (q\<lparr>objs := ?h, num_free_blocks := num_free_blocks q + int (length bs)\<rparr>)"
    using False lp links_ok_tail[OF ok] by (simp add: fq_append_n_def del: last.simps)
  moreover have "links_ok ?h (xs @ bs)" by (rule links_ok_append[OF ok False bs lp])
  ultimately show ?thesis
    using num append_loop_spec[OF dl lp] by (simp add: fq_repr_def)
qed

lemma fq_append_eq: "prev_free_block (objs q FakeTail) \<noteq> None \<Longrightarrow> fq_append b q = fq_append_n [b] q"
  by (auto simp: fq_append_def fq_append_n_def Let_def set_prev_def set_next_def fun_eq_iff
      intro!: arg_cong[where f = "\<lambda>h. q\<lparr>objs := h, num_free_blocks := num_free_blocks q + 1\<rparr>"])

section \<open>Traversal and construction\<close>

lemma traverse_chain:
  assumes "successively (link h) (c # ys @ [FakeTail])" "next_free_block (h FakeTail) = None"
  shows "traverse h (hd (ys @ [FakeTail])) acc = Some (acc @ ys)"
  using assms
proof (induction ys arbitrary: c acc)
  case Nil
  then show ?case by (simp add: traverse.simps)
next
  case (Cons y ys)
  have "next_free_block (h y) = Some (hd (ys @ [FakeTail]))"
    using Cons.prems(1) by (cases ys) (auto simp: link_def)
  moreover have "successively (link h) (y # ys @ [FakeTail])" using Cons.prems(1) by simp
  ultimately show ?case
    using Cons.IH[of y "acc @ [y]"] Cons.prems(2) by (simp add: traverse.simps[of h y])
qed

lemma fq_get_all_free_blocks_repr:
  assumes "fq_repr q xs"
  shows "fq_get_all_free_blocks q = Some (Inr xs)"
proof -
  have c: "successively (link (objs q)) (FakeHead # xs @ [FakeTail])" "next_free_block (objs q FakeTail) = None"
    using assms by (auto simp: fq_repr_def links_ok_def chained_def)
  then have "next_free_block (objs q FakeHead) = Some (hd (xs @ [FakeTail]))"
    by (cases xs) (auto simp: link_def)
  with traverse_chain[OF c, of "[]"] show ?thesis by (simp add: fq_get_all_free_blocks_def)
qed

lemma init_links_spec:
  assumes "distinct bs" "k \<le> length bs"
  shows "payload (init_links bs k h) = payload h \<and>
    (\<forall>i. length bs - k \<le> i \<and> i < length bs \<longrightarrow>
       prev_free_block (init_links bs k h (bs ! i)) =
         (if i > 0 then Some (bs ! (i - 1)) else prev_free_block (h (bs ! i))) \<and>
       next_free_block (init_links bs k h (bs ! i)) =
         (if i < length bs - 1 then Some (bs ! (i + 1)) else next_free_block (h (bs ! i)))) \<and>
    (\<forall>x. x \<notin> (!) bs ` {length bs - k..<length bs} \<longrightarrow>
       prev_free_block (init_links bs k h x) = prev_free_block (h x) \<and>
       next_free_block (init_links bs k h x) = next_free_block (h x))"
  using assms(2)
proof (induction k arbitrary: h)
  case 0
  then show ?case by auto
next
  case (Suc k)
  let ?i = "length bs - Suc k"
  let ?h1 = "if ?i > 0 then set_prev (bs ! ?i) (Some (bs ! (?i - 1))) h else h"
  let ?h = "if ?i < length bs - 1 then set_next (bs ! ?i) (Some (bs ! (?i + 1))) ?h1 else ?h1"
  have step: "init_links bs (Suc k) h = init_links bs k ?h" by (simp add: Let_def)
  have i: "?i < length bs" "Suc ?i = length bs - k" using Suc.prems by auto
  have out: "bs ! ?i \<notin> (!) bs ` {length bs - k..<length bs}"
    using assms(1) i by (auto simp: nth_eq_iff_index_eq)
  have ivl: "{?i..<length bs} = insert ?i {length bs - k..<length bs}" using i by auto
  note ih = Suc.IH[of ?h, OF Suc_leD[OF Suc.prems]]
  have ne: "bs ! j \<noteq> bs ! ?i" if "length bs - k \<le> j" "j < length bs" for j
    using that assms(1) i by (auto simp: nth_eq_iff_index_eq)
  have "payload (init_links bs (Suc k) h) = payload h" using ih step by simp
  moreover have "prev_free_block (init_links bs (Suc k) h (bs ! j)) =
         (if j > 0 then Some (bs ! (j - 1)) else prev_free_block (h (bs ! j))) \<and>
       next_free_block (init_links bs (Suc k) h (bs ! j)) =
         (if j < length bs - 1 then Some (bs ! (j + 1)) else next_free_block (h (bs ! j)))"
    if j: "?i \<le> j" "j < length bs" for j
  proof (cases "j = ?i")
    case True
    then show ?thesis unfolding step using ih out by simp
  next
    case False
    then have "length bs - k \<le> j" using j i by linarith
    then show ?thesis unfolding step using ih j ne[of j] by simp
  qed
  moreover have "prev_free_block (init_links bs (Suc k) h x) = prev_free_block (h x) \<and>
       next_free_block (init_links bs (Suc k) h x) = next_free_block (h x)"
    if "x \<notin> (!) bs ` {?i..<length bs}" for x
    using that ih step unfolding ivl by simp
  ultimately show ?case by blast
qed

lemma fq_init_objs:
  assumes "distinct bs" "set bs \<subseteq> range Blk" "bs \<noteq> []" "\<And>i. unlinked (objs q) (Blk i)"
  defines "h \<equiv> objs (fq_init bs q)"
  shows "i < length bs \<Longrightarrow> prev_free_block (h (bs ! i)) = (if i > 0 then Some (bs ! (i - 1)) else Some FakeHead)"
    and "i < length bs \<Longrightarrow> next_free_block (h (bs ! i)) = (if Suc i < length bs then Some (bs ! Suc i) else Some FakeTail)"
    and "h FakeHead = (new_block (-1))\<lparr>next_free_block := Some (hd bs)\<rparr>"
    and "h FakeTail = (new_block (-1))\<lparr>prev_free_block := Some (last bs)\<rparr>"
    and "Blk j \<notin> set bs \<Longrightarrow> unlinked h (Blk j)"
    and "payload h (Blk j) = payload (objs q) (Blk j)"
proof -
  let ?h0 = "init_links bs (length bs) (objs q)"
  note sp = init_links_spec[OF assms(1) order_refl, of "objs q"]
  have fake: "FakeHead \<notin> set bs" "FakeTail \<notin> set bs" using not_fake[OF assms(2)] by auto
  have heq: "h = set_next (last bs) (Some FakeTail) (set_prev FakeTail (Some (last bs))
      (set_prev (hd bs) (Some FakeHead) (set_next FakeHead (Some (hd bs))
         (?h0(FakeHead := new_block (-1), FakeTail := new_block (-1))))))"
    using assms(3) by (simp add: h_def fq_init_def Let_def)
  have ends: "hd bs = bs ! 0" "last bs = bs ! (length bs - 1)"
    using assms(3) by (simp_all add: hd_conv_nth last_conv_nth)
  have mem: "hd bs \<in> set bs" "last bs \<in> set bs" using assms(3) by auto
  have idx: "bs ! i = bs ! j \<longleftrightarrow> i = j" if "i < length bs" "j < length bs" for i j
    using that assms(1) by (simp add: nth_eq_iff_index_eq)
  have nf: "bs ! i \<noteq> FakeHead" "bs ! i \<noteq> FakeTail" if "i < length bs" for i
    using that fake nth_mem by metis+
  have pos: "0 < length bs" "length bs - 1 < length bs" using assms(3) by auto
  show "prev_free_block (h (bs ! i)) = (if i > 0 then Some (bs ! (i - 1)) else Some FakeHead)" if i: "i < length bs"
    using i nf[OF i] sp idx[OF i pos(1)] by (simp add: heq ends)
  show "next_free_block (h (bs ! i)) = (if Suc i < length bs then Some (bs ! Suc i) else Some FakeTail)" if i: "i < length bs"
    using i nf[OF i] sp idx[OF i pos(2)] by (auto simp: heq ends)
  show "h FakeHead = (new_block (-1))\<lparr>next_free_block := Some (hd bs)\<rparr>"
    using mem fake by (auto simp: heq set_next_def set_prev_def)
  show "h FakeTail = (new_block (-1))\<lparr>prev_free_block := Some (last bs)\<rparr>"
    using mem fake by (auto simp: heq set_next_def set_prev_def)
  have im: "(!) bs ` {length bs - length bs..<length bs} = set bs"
    by (auto simp: in_set_conv_nth atLeast0LessThan[symmetric])
  show "unlinked h (Blk j)" if j: "Blk j \<notin> set bs"
  proof -
    have "Blk j \<noteq> hd bs" "Blk j \<noteq> last bs" using j mem by auto
    then show ?thesis using sp j assms(4)[of j] unfolding im by (auto simp: heq unlinked_def)
  qed
  show "payload h (Blk j) = payload (objs q) (Blk j)"
    using sp by (simp add: heq payload_def set_next_def set_prev_def prod_eq_iff fun_eq_iff)
qed

lemma fq_init_repr:
  assumes "distinct bs" "set bs \<subseteq> range Blk" "bs \<noteq> []" "\<And>i. unlinked (objs q) (Blk i)"
  shows "fq_repr (fq_init bs q) bs" and "fbq.more (fq_init bs q) = fbq.more q"
proof -
  let ?h = "objs (fq_init bs q)"
  note sp = fq_init_objs[OF assms]
  have "successively (link ?h) bs"
    unfolding successively_conv_nth by (auto simp: link_def sp(1,2))
  moreover have "prev_free_block (?h (bs ! 0)) = Some FakeHead"
    "next_free_block (?h (bs ! (length bs - 1))) = Some FakeTail"
    using sp(1)[of 0] sp(2)[of "length bs - 1"] assms(3) by auto
  then have "link ?h FakeHead (hd bs)" "link ?h (last bs) FakeTail"
    using assms(3) by (simp_all add: link_def sp(3,4) hd_conv_nth last_conv_nth)
  ultimately have "chained ?h bs"
    using assms(3) by (simp add: chained_def successively_Cons successively_append_iff)
  moreover have "num_free_blocks (fq_init bs q) = int (length bs)" "fbq.more (fq_init bs q) = fbq.more q"
    by (simp_all add: fq_init_def Let_def)
  ultimately show "fq_repr (fq_init bs q) bs" "fbq.more (fq_init bs q) = fbq.more q"
    using assms sp(5) by (simp_all add: fq_repr_def links_ok_def sp(3,4) new_block_def)
qed

section \<open>The contract of the queue\<close>

text \<open>
  What the block pool relies on: a queue represents a list without repetition, popping takes
  a prefix, removing takes one element out, appending adds at the end, and none of them
  changes the rest of the state (\<open>frame\<close>).
\<close>

locale block_queue =
  fixes repr :: "'q \<Rightarrow> 'b list \<Rightarrow> bool"
    and valid :: "'b \<Rightarrow> bool"
    and num :: "'q \<Rightarrow> int"
    and frame :: "'q \<Rightarrow> 'f"
    and pop_n :: "int \<Rightarrow> 'q \<Rightarrow> ('b list \<times> 'q) result"
    and rem :: "'b \<Rightarrow> 'q \<Rightarrow> 'q result"
    and app_n :: "'b list \<Rightarrow> 'q \<Rightarrow> 'q result"
  assumes repr_num: "repr q xs \<Longrightarrow> num q = int (length xs)"
    and repr_distinct: "repr q xs \<Longrightarrow> distinct xs"
    and repr_valid: "repr q xs \<Longrightarrow> b \<in> set xs \<Longrightarrow> valid b"
    and pop_n_spec: "repr q xs \<Longrightarrow> 0 \<le> n \<Longrightarrow> n \<le> int (length xs) \<Longrightarrow>
      \<exists>q'. pop_n n q = Inr (take (nat n) xs, q') \<and> repr q' (drop (nat n) xs) \<and> frame q' = frame q"
    and rem_spec: "repr q (us @ b # vs) \<Longrightarrow>
      \<exists>q'. rem b q = Inr q' \<and> repr q' (us @ vs) \<and> frame q' = frame q"
    and app_n_spec: "repr q xs \<Longrightarrow> distinct bs \<Longrightarrow> (\<And>b. b \<in> set bs \<Longrightarrow> valid b) \<Longrightarrow> set bs \<inter> set xs = {} \<Longrightarrow>
      \<exists>q'. app_n bs q = Inr q' \<and> repr q' (xs @ bs) \<and> frame q' = frame q"
begin

lemma rem_mem:
  assumes "repr q xs" "b \<in> set xs"
  shows "\<exists>q'. rem b q = Inr q' \<and> repr q' (filter (\<lambda>x. x \<noteq> b) xs) \<and> frame q' = frame q"
proof -
  obtain us vs where xs: "xs = us @ b # vs" using assms(2) by (meson split_list)
  have "b \<notin> set us \<union> set vs" using repr_distinct[OF assms(1)] xs by auto
  then have "filter (\<lambda>x. x \<noteq> b) us = us" "filter (\<lambda>x. x \<noteq> b) vs = vs" by (auto simp: filter_id_conv)
  then have "filter (\<lambda>x. x \<noteq> b) xs = us @ vs" unfolding xs by simp
  then show ?thesis using rem_spec[of q us b vs] assms(1) xs by simp
qed

lemma fifo:
  assumes "repr q xs" "distinct bs" "\<And>b. b \<in> set bs \<Longrightarrow> valid b" "set bs \<inter> set xs = {}"
  shows "\<exists>q1 q2. app_n bs q = Inr q1 \<and> pop_n (num q) q1 = Inr (xs, q2) \<and> repr q2 bs \<and> frame q2 = frame q"
proof -
  from app_n_spec[OF assms(1,2) assms(3) assms(4)] obtain q1
    where q1: "app_n bs q = Inr q1" "repr q1 (xs @ bs)" "frame q1 = frame q" by blast
  have "0 \<le> num q" "num q \<le> int (length (xs @ bs))" and n: "nat (num q) = length xs"
    using repr_num[OF assms(1)] by simp_all
  with pop_n_spec[OF q1(2)] q1 show ?thesis by fastforce
qed

lemma pop_disjoint:
  assumes "repr q xs" "0 \<le> n" "n \<le> int (length xs)" "pop_n n q = Inr (bs, q')"
  shows "int (length bs) = n \<and> distinct bs \<and> set bs \<subseteq> set xs \<and> repr q' (filter (\<lambda>b. b \<notin> set bs) xs)
    \<and> frame q' = frame q"
proof -
  have bs: "bs = take (nat n) xs" and q': "repr q' (drop (nat n) xs)" "frame q' = frame q"
    using pop_n_spec[OF assms(1-3)] assms(4) by auto
  have d: "distinct xs" by (rule repr_distinct[OF assms(1)])
  have "set (take (nat n) xs) \<inter> set (drop (nat n) xs) = {}"
    using d by (simp add: set_take_disj_set_drop_if_distinct)
  then have "filter (\<lambda>b. b \<notin> set bs) (take (nat n) xs @ drop (nat n) xs) = drop (nat n) xs"
    unfolding bs filter_append by (auto simp: filter_id_conv filter_empty_conv)
  then have "filter (\<lambda>b. b \<notin> set bs) xs = drop (nat n) xs" by simp
  then show ?thesis using bs q' d assms(2,3) by (auto dest: in_set_takeD)
qed

end

interpretation fq: block_queue
  "fq_repr :: 'z fbq_scheme \<Rightarrow> bref list \<Rightarrow> bool" "\<lambda>b. b \<in> range Blk" num_free_blocks
  "\<lambda>q. (payload (objs q), fbq.more q)" fq_popleft_n fq_remove fq_append_n
proof (unfold_locales, goal_cases)
  case (1 q xs)
  then show ?case by (simp add: fq_repr_def)
next
  case (2 q xs)
  then show ?case by (simp add: fq_repr_def links_ok_def)
next
  case (3 q xs b)
  then show ?case by (auto simp: fq_repr_def links_ok_def)
next
  case (4 q xs n)
  then show ?case using fq_popleft_n_spec by fastforce
next
  case (5 q us b vs)
  then show ?case using fq_remove_spec by fastforce
next
  case (6 q xs bs)
  then show ?case using fq_append_n_spec[of q xs bs] by blast
qed

end
