(* ===== verification/Block_Map.thy ===== *)
theory Block_Map
  imports Free_Block_Queue
begin

text \<open>
  \<^verbatim>\<open>BlockHashToBlockMap\<close> of \<^verbatim>\<open>vllm/v1/core/block_pool.py\<close>: the prefix cache from hash keys to one block, or to a
  dictionary of blocks by block id once several blocks share a key. The operations read the
  block ids through the argument \<open>ident\<close>. The locale \<open>block_index\<close> is the contract the block
  pool relies on: a map from keys to sets of blocks.
\<close>

section \<open>Operations\<close>

datatype cached_blocks = Single bref | Many "(int, bref) dict"

type_synonym block_map = "(bytes, cached_blocks) dict"

definition bm_get_one_block :: "block_map \<Rightarrow> bytes \<Rightarrow> bref option result" where
  "bm_get_one_block m key =
     (case map_of m key of
        None \<Rightarrow> Inr None
      | Some (Single b) \<Rightarrow> Inr (Some b)
      | Some (Many d) \<Rightarrow> (case dict_values d of [] \<Rightarrow> Inl StopIteration | b # _ \<Rightarrow> Inr (Some b)))"

definition bm_insert :: "(bref \<Rightarrow> int) \<Rightarrow> block_map \<Rightarrow> bytes \<Rightarrow> bref \<Rightarrow> block_map" where
  "bm_insert ident m key b =
     (case map_of m key of
        None \<Rightarrow> AList.update key (Single b) m
      | Some (Single b0) \<Rightarrow> AList.update key (Many (AList.update (ident b) b [(ident b0, b0)])) m
      | Some (Many d) \<Rightarrow> AList.update key (Many (AList.update (ident b) b d)) m)"

definition bm_pop :: "(bref \<Rightarrow> int) \<Rightarrow> block_map \<Rightarrow> bytes \<Rightarrow> int \<Rightarrow> bref option \<times> block_map" where
  "bm_pop ident m key bid =
     (case map_of m key of
        None \<Rightarrow> (None, m)
      | Some (Single b) \<Rightarrow>
          if ident b = bid then (Some b, AList.delete key m)
          else (None, AList.update key (Single b) (AList.delete key m))
      | Some (Many d) \<Rightarrow>
          (let block = map_of d bid; d' = AList.delete bid d
           in (block, if length d' > 0 then AList.update key (Many d') (AList.delete key m)
                      else AList.delete key m)))"

definition bm_len :: "block_map \<Rightarrow> nat" where
  "bm_len m = length m"

section \<open>The sets of blocks it represents\<close>

fun entry_blocks :: "cached_blocks \<Rightarrow> bref list" where
  "entry_blocks (Single b) = [b]"
| "entry_blocks (Many d) = map snd d"

definition bm_blocks :: "block_map \<Rightarrow> bytes \<Rightarrow> bref set" where
  "bm_blocks m key = (case map_of m key of None \<Rightarrow> {} | Some c \<Rightarrow> set (entry_blocks c))"

fun entry_ok :: "(bref \<Rightarrow> int) \<Rightarrow> cached_blocks \<Rightarrow> bool" where
  "entry_ok ident (Single b) = True"
| "entry_ok ident (Many d) \<longleftrightarrow> d \<noteq> [] \<and> distinct (map fst d) \<and> (\<forall>(i, b) \<in> set d. i = ident b)"

definition bm_ok :: "(bref \<Rightarrow> int) \<Rightarrow> block_map \<Rightarrow> bool" where
  "bm_ok ident m \<longleftrightarrow> distinct (map fst m) \<and> (\<forall>key c. map_of m key = Some c \<longrightarrow> entry_ok ident c)"

section \<open>The contract\<close>

locale block_index =
  fixes ok :: "('b \<Rightarrow> int) \<Rightarrow> 'm \<Rightarrow> bool"
    and blocks_at :: "'m \<Rightarrow> 'k \<Rightarrow> 'b set"
    and get_one :: "'m \<Rightarrow> 'k \<Rightarrow> 'b option result"
    and ins :: "('b \<Rightarrow> int) \<Rightarrow> 'm \<Rightarrow> 'k \<Rightarrow> 'b \<Rightarrow> 'm"
    and pop :: "('b \<Rightarrow> int) \<Rightarrow> 'm \<Rightarrow> 'k \<Rightarrow> int \<Rightarrow> 'b option \<times> 'm"
  assumes get_one_spec: "ok ident m \<Longrightarrow> \<exists>r. get_one m k = Inr r \<and>
      (case r of None \<Rightarrow> blocks_at m k = {} | Some b \<Rightarrow> b \<in> blocks_at m k)"
    and ins_ok: "ok ident m \<Longrightarrow> ok ident (ins ident m k b)"
    and ins_blocks: "ok ident m \<Longrightarrow> inj_on ident (insert b (blocks_at m k)) \<Longrightarrow>
      blocks_at (ins ident m k b) k' = (if k' = k then insert b (blocks_at m k) else blocks_at m k')"
    and pop_ok: "ok ident m \<Longrightarrow> ok ident (snd (pop ident m k i))"
    and pop_blocks: "ok ident m \<Longrightarrow> inj_on ident (blocks_at m k) \<Longrightarrow>
      blocks_at (snd (pop ident m k i)) k' =
        (if k' = k then {b \<in> blocks_at m k. ident b \<noteq> i} else blocks_at m k')"
    and pop_result: "ok ident m \<Longrightarrow> inj_on ident (blocks_at m k) \<Longrightarrow>
      (case fst (pop ident m k i) of
         None \<Rightarrow> \<forall>b \<in> blocks_at m k. ident b \<noteq> i
       | Some b \<Rightarrow> b \<in> blocks_at m k \<and> ident b = i)"
begin

lemma get_after_ins:
  assumes "ok ident m" "inj_on ident (insert b (blocks_at m k))"
  shows "\<exists>b'. get_one (ins ident m k b) k = Inr (Some b') \<and> b' \<in> insert b (blocks_at m k)"
  using get_one_spec[OF ins_ok[OF assms(1), of k b], of k] ins_blocks[OF assms, of k]
  by (auto split: option.splits)

lemma pop_mem:
  assumes "ok ident m" "inj_on ident (blocks_at m k)" "b \<in> blocks_at m k"
  shows "fst (pop ident m k (ident b)) = Some b"
  using pop_result[OF assms(1,2), of "ident b"] assms(2,3)
  by (auto split: option.splits dest: inj_onD)

lemma pop_mem_blocks:
  assumes "ok ident m" "inj_on ident (blocks_at m k)" "b \<in> blocks_at m k"
  shows "blocks_at (snd (pop ident m k (ident b))) k' = (if k' = k then blocks_at m k - {b} else blocks_at m k')"
  using pop_blocks[OF assms(1,2), of "ident b"] assms(2,3) by (auto dest: inj_onD)

text \<open>Evicting a block right after caching it leaves every key as it was.\<close>

lemma pop_after_ins:
  assumes "ok ident m" "inj_on ident (insert b (blocks_at m k))" "b \<notin> blocks_at m k"
  shows "fst (pop ident (ins ident m k b) k (ident b)) = Some b"
    and "blocks_at (snd (pop ident (ins ident m k b) k (ident b))) = blocks_at m"
proof -
  have bl: "blocks_at (ins ident m k b) k = insert b (blocks_at m k)" using ins_blocks[OF assms(1,2)] by simp
  note p = pop_mem[OF ins_ok[OF assms(1)], of k b k b] pop_mem_blocks[OF ins_ok[OF assms(1)], of k b k b]
  show "fst (pop ident (ins ident m k b) k (ident b)) = Some b" using p(1) bl assms(2) by simp
  show "blocks_at (snd (pop ident (ins ident m k b) k (ident b))) = blocks_at m"
    using p(2) bl assms ins_blocks[OF assms(1,2)] by (auto simp: fun_eq_iff)
qed

end

section \<open>The map satisfies the contract\<close>

lemma map_of_mem_ok: "bm_ok ident m \<Longrightarrow> map_of m k = Some c \<Longrightarrow> entry_ok ident c"
  by (simp add: bm_ok_def)

lemma bm_ok_update: "bm_ok ident m \<Longrightarrow> entry_ok ident c \<Longrightarrow> bm_ok ident (AList.update k c m)"
  by (auto simp: bm_ok_def map_of_update AList.distinct_update split: if_splits)

lemma bm_ok_delete: "bm_ok ident m \<Longrightarrow> bm_ok ident (AList.delete k m)"
  by (auto simp: bm_ok_def map_of_delete AList.distinct_delete split: if_splits)

lemma bm_blocks_update: "bm_blocks (AList.update k c m) k' = (if k' = k then set (entry_blocks c) else bm_blocks m k')"
  by (simp add: bm_blocks_def map_of_update)

lemma bm_blocks_delete: "bm_blocks (AList.delete k m) k' = (if k' = k then {} else bm_blocks m k')"
  by (simp add: bm_blocks_def map_of_delete)

lemma ident_dict_update:
  assumes "distinct (map fst d)" "\<forall>(i, b) \<in> set d. i = ident b" "inj_on ident (insert b (snd ` set d))"
  shows "snd ` set (AList.update (ident b) b d) = insert b (snd ` set d)"
    and "\<forall>(i, b) \<in> set (AList.update (ident b) b d). i = ident b" and "AList.update (ident b) b d \<noteq> []"
proof -
  have d': "distinct (map fst (AList.update (ident b) b d))" using assms(1) by (rule AList.distinct_update)
  have "(i, x) \<in> set (AList.update (ident b) b d) \<longleftrightarrow> (if i = ident b then x = b else (i, x) \<in> set d)" for i x
    using map_of_eq_Some_iff[OF d', of i x] map_of_eq_Some_iff[OF assms(1), of i x] by (auto simp: map_of_update)
  note mem = this
  show "\<forall>(i, b) \<in> set (AList.update (ident b) b d). i = ident b" using mem assms(2) by (auto split: if_splits)
  have "x \<in> snd ` set (AList.update (ident b) b d) \<longleftrightarrow> x = b \<or> x \<in> snd ` set d" for x
  proof
    assume "x \<in> snd ` set (AList.update (ident b) b d)"
    then show "x = b \<or> x \<in> snd ` set d" using mem by (force split: if_splits)
  next
    assume r: "x = b \<or> x \<in> snd ` set d"
    then consider "x = b" | i where "x \<noteq> b" "(i, x) \<in> set d" by force
    then show "x \<in> snd ` set (AList.update (ident b) b d)"
    proof cases
      case 1
      then show ?thesis using mem[of "ident b" b] by force
    next
      case 2
      then have i: "i = ident x" using assms(2) by auto
      have "ident x \<noteq> ident b"
      proof
        assume "ident x = ident b"
        then have "x = b" by (rule inj_onD[OF assms(3)]) (use 2 in force)+
        with 2(1) show False ..
      qed
      then show ?thesis using mem[of i x] 2 i by force
    qed
  qed
  then show "snd ` set (AList.update (ident b) b d) = insert b (snd ` set d)" by blast
  show "AList.update (ident b) b d \<noteq> []" using mem[of "ident b" b] by auto
qed

lemma bm_insert_ok:
  assumes "bm_ok ident m"
  shows "bm_ok ident (bm_insert ident m k b)"
proof -
  have m: "entry_ok ident (Many (AList.update (ident b) b d))" if "entry_ok ident (Many d)" for d
  proof -
    have d: "distinct (map fst d)" "\<forall>(i, b) \<in> set d. i = ident b" using that by auto
    have d': "distinct (map fst (AList.update (ident b) b d))" using d(1) by (rule AList.distinct_update)
    have "i = ident x" if "(i, x) \<in> set (AList.update (ident b) b d)" for i x
    proof -
      have "map_of (AList.update (ident b) b d) i = Some x" using that d' by simp
      then show ?thesis using d by (auto simp: map_of_update split: if_splits dest: map_of_SomeD)
    qed
    moreover have "AList.update (ident b) b d \<noteq> []" by (cases d) auto
    ultimately show ?thesis using d' by auto
  qed
  show ?thesis
  proof (cases "map_of m k")
    case None
    then show ?thesis using assms by (simp add: bm_insert_def bm_ok_update)
  next
    case (Some c)
    then have c: "entry_ok ident c" using assms map_of_mem_ok by blast
    show ?thesis
    proof (cases c)
      case (Single b0)
      have "entry_ok ident (Many [(ident b0, b0)])" by simp
      from m[OF this] show ?thesis using Some Single assms by (simp add: bm_insert_def bm_ok_update)
    next
      case (Many d)
      with m[of d] c Some assms show ?thesis by (simp add: bm_insert_def bm_ok_update)
    qed
  qed
qed

lemma bm_insert_blocks:
  assumes "bm_ok ident m" "inj_on ident (insert b (bm_blocks m k))"
  shows "bm_blocks (bm_insert ident m k b) k' = (if k' = k then insert b (bm_blocks m k) else bm_blocks m k')"
proof (cases "map_of m k")
  case None
  then show ?thesis by (simp add: bm_insert_def bm_blocks_def map_of_update)
next
  case (Some c)
  then have c: "entry_ok ident c" using assms map_of_mem_ok by blast
  show ?thesis
  proof (cases c)
    case (Single b0)
    have "inj_on ident (insert b (snd ` set [(ident b0, b0)]))" using assms(2) Some Single by (simp add: bm_blocks_def)
    from ident_dict_update(1)[OF _ _ this] show ?thesis
      using Some Single by (simp add: bm_insert_def bm_blocks_update) (auto simp: bm_blocks_def)
  next
    case (Many d)
    have "inj_on ident (insert b (snd ` set d))" using assms(2) Some Many by (simp add: bm_blocks_def)
    from ident_dict_update(1)[OF _ _ this] show ?thesis
      using Some Many c by (simp add: bm_insert_def bm_blocks_update) (auto simp: bm_blocks_def)
  qed
qed

lemma entry_ok_delete: "entry_ok ident (Many d) \<Longrightarrow> AList.delete i d \<noteq> [] \<Longrightarrow> entry_ok ident (Many (AList.delete i d))"
  by (auto simp: AList.distinct_delete set_delete)

lemma bm_pop_ok: "bm_ok ident m \<Longrightarrow> bm_ok ident (snd (bm_pop ident m k i))"
  using map_of_mem_ok[of ident m k] entry_ok_delete[of ident _ i]
  by (auto simp: bm_pop_def Let_def bm_ok_update bm_ok_delete split: option.splits cached_blocks.splits)

lemma bm_pop_blocks:
  assumes "bm_ok ident m"
  shows "bm_blocks (snd (bm_pop ident m k i)) k' = (if k' = k then {b \<in> bm_blocks m k. ident b \<noteq> i} else bm_blocks m k')"
proof (cases "map_of m k")
  case None
  then show ?thesis by (simp add: bm_pop_def bm_blocks_def)
next
  case (Some c)
  then have c: "entry_ok ident c" using assms map_of_mem_ok by blast
  show ?thesis
  proof (cases c)
    case (Single b0)
    then show ?thesis using Some
      by (auto simp: bm_pop_def bm_blocks_def map_of_update map_of_delete)
  next
    case (Many d)
    have "snd ` set (AList.delete i d) = {b \<in> snd ` set d. ident b \<noteq> i}"
      using c Many by (force simp: set_delete)
    moreover have "bm_blocks m k = snd ` set d" using Some Many by (simp add: bm_blocks_def)
    ultimately show ?thesis using Some Many
      by (auto simp: bm_pop_def Let_def bm_blocks_update bm_blocks_delete)
  qed
qed

interpretation bm: block_index bm_ok bm_blocks bm_get_one_block bm_insert bm_pop
proof (unfold_locales, goal_cases)
  case (1 ident m k)
  then show ?case using map_of_mem_ok[of ident m k]
    by (auto simp: bm_get_one_block_def bm_blocks_def dict_values_def split: option.splits cached_blocks.splits list.splits)
next
  case (2 ident m k b)
  then show ?case by (rule bm_insert_ok)
next
  case (3 ident m b k k')
  then show ?case by (rule bm_insert_blocks)
next
  case (4 ident m k i)
  then show ?case by (rule bm_pop_ok)
next
  case (5 ident m k i k')
  then show ?case by (simp add: bm_pop_blocks)
next
  case (6 ident m k i)
  show ?case
  proof (cases "map_of m k")
    case None
    then show ?thesis by (simp add: bm_pop_def bm_blocks_def)
  next
    case (Some c)
    with 6 have "entry_ok ident c" using map_of_mem_ok by blast
    with Some show ?thesis
      by (cases c) (force simp: bm_pop_def bm_blocks_def Let_def map_of_eq_None_iff split: option.splits dest: map_of_SomeD)+
  qed
qed

end
