(* ===== verification/Hash_Keys.thy ===== *)
theory Hash_Keys
  imports Prelude
begin

unbundle bit_operations_syntax

text \<open>
  Block-hash keys of \<^verbatim>\<open>vllm/v1/core/kv_cache_utils.py\<close>: a \<^verbatim>\<open>BlockHashWithGroupId\<close> is the block hash
  followed by the group id in four big-endian bytes. The lemmas show that the two components
  are recovered and that distinct pairs get distinct keys, so the groups of a hybrid model
  never share a cache entry.
\<close>

section \<open>Python's integer/byte conversions\<close>

fun be_bytes :: "nat \<Rightarrow> nat \<Rightarrow> bytes" where
  "be_bytes 0 n = []"
| "be_bytes (Suc k) n = be_bytes k (n div 256) @ [word_of_nat n]"

text \<open>\<^verbatim>\<open>n.to_bytes(k, "big", signed=False)\<close>\<close>

definition to_bytes :: "nat \<Rightarrow> int \<Rightarrow> bytes result" where
  "to_bytes k n = (if n < 0 \<or> n \<ge> 256 ^ k then Inl OverflowError else Inr (be_bytes k (nat n)))"

text \<open>\<^verbatim>\<open>int.from_bytes(bs, "big", signed=False)\<close>\<close>

definition from_bytes :: "bytes \<Rightarrow> int" where
  "from_bytes bs = foldl (\<lambda>acc b. acc * 256 + uint b) 0 bs"

section \<open>Keys\<close>

datatype ext_hash = HashBytes bytes | HashInt int

definition make_block_hash_with_group_id :: "bytes \<Rightarrow> int \<Rightarrow> bytes result" where
  "make_block_hash_with_group_id block_hash group_id =
     rbind (to_bytes 4 group_id) (\<lambda>g. Inr (block_hash @ g))"

definition get_block_hash :: "bytes \<Rightarrow> bytes" where
  "get_block_hash key = py_take (-4) key"

definition get_group_id :: "bytes \<Rightarrow> int" where
  "get_group_id key = from_bytes (py_drop (-4) key)"

definition maybe_convert_block_hash :: "bool \<Rightarrow> bytes \<Rightarrow> ext_hash" where
  "maybe_convert_block_hash use_int_block_hashes hash_bytes =
     (if \<not> use_int_block_hashes then HashBytes hash_bytes
      else HashInt (from_bytes hash_bytes AND (push_bit 64 1 - 1)))"

section \<open>Round trips\<close>

lemma length_be_bytes [simp]: "length (be_bytes k n) = k"
  by (induction k n rule: be_bytes.induct) auto

lemma from_bytes_snoc [simp]: "from_bytes (bs @ [b]) = from_bytes bs * 256 + uint b"
  by (simp add: from_bytes_def)

lemma from_bytes_Nil [simp]: "from_bytes [] = 0"
  by (simp add: from_bytes_def)

lemma from_bytes_be_bytes: "n < 256 ^ k \<Longrightarrow> from_bytes (be_bytes k n) = int n"
proof (induction k n rule: be_bytes.induct)
  case (1 n)
  then show ?case by simp
next
  case (2 k n)
  have "n div 256 < 256 ^ k" using "2.prems" by (simp add: div_less_iff_less_mult mult.commute)
  with "2.IH" have "from_bytes (be_bytes k (n div 256)) = int (n div 256)" .
  moreover have "uint (word_of_nat n :: 8 word) = int n mod 256"
    by (simp add: unsigned_of_nat take_bit_eq_mod zmod_int)
  ultimately show ?case by (simp add: zdiv_int)
qed

lemma from_bytes_nonneg: "0 \<le> from_bytes bs"
  by (induction bs rule: rev_induct) auto

lemma from_bytes_bound: "from_bytes bs < 256 ^ length bs"
proof (induction bs rule: rev_induct)
  case Nil
  then show ?case by simp
next
  case (snoc b bs)
  have "uint b < 256" using uint_lt2p[of b] by simp
  then show ?case using snoc by simp
qed

lemma to_bytes_Inr:
  assumes "to_bytes k n = Inr bs"
  shows "length bs = k" "from_bytes bs = n"
proof -
  have n: "0 \<le> n" "n < 256 ^ k" "bs = be_bytes k (nat n)"
    using assms by (auto simp: to_bytes_def split: if_splits)
  then show "length bs = k" by simp
  show "from_bytes bs = n" using n from_bytes_be_bytes[of "nat n" k] by (simp add: nat_less_iff)
qed

lemma make_key_Inr:
  assumes "make_block_hash_with_group_id h g = Inr k"
  shows "get_block_hash k = h" "get_group_id k = g"
  using assms to_bytes_Inr[of 4 g]
  by (auto simp: make_block_hash_with_group_id_def rbind_Inr_iff get_block_hash_def get_group_id_def
      py_take_def py_drop_def slice_pos_def)

lemma make_key_total:
  assumes "0 \<le> g" "g < 2 ^ 32"
  shows "\<exists>k. make_block_hash_with_group_id h g = Inr k"
  using assms by (simp add: make_block_hash_with_group_id_def to_bytes_def)

text \<open>The two components of a key determine it and are determined by it.\<close>

lemma make_key_inj:
  assumes "make_block_hash_with_group_id h g = Inr k" "make_block_hash_with_group_id h' g' = Inr k"
  shows "h = h' \<and> g = g'"
  using make_key_Inr[OF assms(1)] make_key_Inr[OF assms(2)] by simp

lemma mask64: "x AND (push_bit 64 1 - 1) = x mod 2 ^ 64" for x :: int
  using take_bit_eq_mask[of 64 x] by (simp add: take_bit_eq_mod mask_eq_exp_minus_1)

text \<open>
  Keys of the prefix cache (\<^verbatim>\<open>make_block_hash_with_group_id\<close>, \<^verbatim>\<open>get_block_hash\<close>, \<^verbatim>\<open>get_group_id\<close>): for every group
  id that fits in four bytes, packing succeeds and unpacking returns exactly the block hash and the
  group id that were packed; two packings that give the same key had the same hash and group id.
\<close>

theorem group_key_roundtrip:
  assumes "0 \<le> g" "g < 2 ^ 32"
  shows "\<exists>k. make_block_hash_with_group_id h g = Inr k \<and> length k = length h + 4 \<and>
    get_block_hash k = h \<and> get_group_id k = g \<and>
    (\<forall>h' g'. make_block_hash_with_group_id h' g' = Inr k \<longrightarrow> h' = h \<and> g' = g)"
proof -
  obtain k where k: "make_block_hash_with_group_id h g = Inr k" using make_key_total[OF assms] by blast
  then have "length k = length h + 4"
    by (auto simp: make_block_hash_with_group_id_def rbind_Inr_iff dest: to_bytes_Inr(1))
  then show ?thesis using k make_key_Inr[OF k] make_key_inj[OF _ k] by blast
qed

theorem group_key_roundtrip_witness:
  "\<exists>k. make_block_hash_with_group_id [1, 2] 258 = Inr k \<and> length k = length [1::8 word, 2] + 4 \<and>
    get_block_hash k = [1, 2] \<and> get_group_id k = 258 \<and>
    (\<forall>h' g'. make_block_hash_with_group_id h' g' = Inr k \<longrightarrow> h' = [1, 2] \<and> g' = 258)"
  by (rule group_key_roundtrip) simp_all

end
