(* ===== verification/Requests.thy ===== *)
theory Requests
  imports Prelude Complex_Main "HOL-Library.List_Lexorder" "HOL-Library.Char_ord"
begin

text \<open>
  The request object of \<^verbatim>\<open>vllm/v1/request.py\<close> with the parameter objects it reads
  (\<^verbatim>\<open>sampling_params.py\<close>, \<^verbatim>\<open>pooling_params.py\<close>, \<^verbatim>\<open>lora/request.py\<close>, \<^verbatim>\<open>multimodal/inputs.py\<close>), the request status
  machine, and the stop check of \<^verbatim>\<open>core/sched/utils.py\<close>. Clock readings and \<^verbatim>\<open>id(self)\<close> are
  explicit arguments or fields; times are rationals, of which the code only uses the order.
\<close>

section \<open>Parameter objects\<close>

record StructuredOutputsParams =
  so_json :: "string option"
  so_regex :: "string option"
  so_choice :: "string list option"
  so_grammar :: "string option"
  so_json_object :: "bool option"
  so_structural_tag :: "string option"

definition all_constraints_none :: "StructuredOutputsParams \<Rightarrow> bool" where
  "all_constraints_none p \<longleftrightarrow> so_json p = None \<and> so_regex p = None \<and> so_choice p = None \<and>
     so_grammar p = None \<and> so_json_object p = None \<and> so_structural_tag p = None"

record SamplingParams =
  sp_max_tokens :: "int option"
  sp_min_tokens :: int
  sp_ignore_eos :: bool
  sp_stop_token_ids :: "int list option"
  sp_skip_reading_prefix_cache :: "bool option"
  sp_structured_outputs :: "StructuredOutputsParams option"
  sp_extra_args :: "(string, string) dict option"

record PoolingParams =
  pp_skip_reading_prefix_cache :: "bool option"

record LoRARequest =
  lora_name :: string
  lora_int_id :: int

record PlaceholderRange =
  pr_offset :: int
  pr_length :: int
  pr_is_embed :: "bool list option"

text \<open>\<^verbatim>\<open>get_num_embeds\<close>: the last entry of the mask's cumulative sum, or the length without a mask.\<close>

definition get_num_embeds :: "PlaceholderRange \<Rightarrow> int result" where
  "get_num_embeds r =
     (case pr_is_embed r of
        None \<Rightarrow> Inr (pr_length r)
      | Some m \<Rightarrow> if m = [] then Inl IndexError else Inr (int (length (filter (\<lambda>b. b) m))))"

record MultiModalFeatureSpec =
  mm_modality :: string
  mm_identifier :: "string option"
  mm_position :: PlaceholderRange

definition structured_output_from_sampling_params ::
  "SamplingParams option \<Rightarrow> StructuredOutputsParams option" where
  "structured_output_from_sampling_params sp =
     (case sp of
        None \<Rightarrow> None
      | Some s \<Rightarrow>
          (case sp_structured_outputs s of
             None \<Rightarrow> None
           | Some p \<Rightarrow> if all_constraints_none p then None else Some p))"

section \<open>Status\<close>

datatype RequestStatus =
    WAITING | WAITING_FOR_FSM | WAITING_FOR_REMOTE_KVS | WAITING_FOR_STREAMING_REQ
  | RUNNING | PREEMPTED
  | FINISHED_STOPPED | FINISHED_LENGTH_CAPPED | FINISHED_ABORTED | FINISHED_IGNORED | FINISHED_ERROR

datatype FinishReason = FR_STOP | FR_LENGTH | FR_ABORT | FR_ERROR

text \<open>The values \<^verbatim>\<open>enum.auto()\<close> gives the members, in declaration order from 1.\<close>

fun status_value :: "RequestStatus \<Rightarrow> int" where
  "status_value WAITING = 1"
| "status_value WAITING_FOR_FSM = 2"
| "status_value WAITING_FOR_REMOTE_KVS = 3"
| "status_value WAITING_FOR_STREAMING_REQ = 4"
| "status_value RUNNING = 5"
| "status_value PREEMPTED = 6"
| "status_value FINISHED_STOPPED = 7"
| "status_value FINISHED_LENGTH_CAPPED = 8"
| "status_value FINISHED_ABORTED = 9"
| "status_value FINISHED_IGNORED = 10"
| "status_value FINISHED_ERROR = 11"

definition is_finished_status :: "RequestStatus \<Rightarrow> bool" where
  "is_finished_status s \<longleftrightarrow> status_value s > status_value PREEMPTED"

fun get_finished_reason_status :: "RequestStatus \<Rightarrow> FinishReason option" where
  "get_finished_reason_status FINISHED_STOPPED = Some FR_STOP"
| "get_finished_reason_status FINISHED_LENGTH_CAPPED = Some FR_LENGTH"
| "get_finished_reason_status FINISHED_ABORTED = Some FR_ABORT"
| "get_finished_reason_status FINISHED_IGNORED = Some FR_LENGTH"
| "get_finished_reason_status FINISHED_ERROR = Some FR_ERROR"
| "get_finished_reason_status WAITING_FOR_STREAMING_REQ = Some FR_STOP"
| "get_finished_reason_status _ = None"

section \<open>The request\<close>

datatype EngineCoreEventType = EV_QUEUED | EV_SCHEDULED | EV_PREEMPTED

record StreamingUpdate =
  su_mm_features :: "MultiModalFeatureSpec list option"
  su_prompt_token_ids :: "int list option"
  su_max_tokens :: int
  su_arrival_time :: rat
  su_sampling_params :: "SamplingParams option"

text \<open>
  \<^verbatim>\<open>prompt_embeds\<close> is a tensor with one row per token: the rows' bytes. \<^verbatim>\<open>py_id\<close> is the object
  identity that \<^verbatim>\<open>__lt__\<close> falls back to. \<^verbatim>\<open>stop_reason\<close> holds the stopping token id.
\<close>

record Request =
  py_id :: nat
  request_id :: string
  client_index :: int
  priority :: int
  sampling_params :: "SamplingParams option"
  pooling_params :: "PoolingParams option"
  eos_token_id :: "int option"
  lora_request :: "LoRARequest option"
  structured_output_request :: "StructuredOutputsParams option"
  arrival_time :: rat
  status :: RequestStatus
  req_events :: "(EngineCoreEventType \<times> rat) list"
  stop_reason :: "int option"
  kv_transfer_params :: "string option"
  max_tokens :: int
  prompt_token_ids :: "int list option"
  prompt_embeds :: "bytes list option"
  num_prompt_tokens :: int
  output_token_ids :: "int list"
  all_token_ids :: "int list"
  num_output_placeholders :: int
  discard_latest_async_tokens :: bool
  spec_token_ids :: "int list"
  num_computed_tokens :: int
  cache_salt :: "string option"
  mm_features :: "MultiModalFeatureSpec list"
  num_cached_tokens :: int
  num_nans_in_logits :: int
  num_preemptions :: int
  num_external_computed_tokens :: int
  block_hashes :: "bytes list"
  skip_reading_prefix_cache :: bool
  resumable :: bool
  streaming_queue :: "StreamingUpdate option list option"

definition length_from_prompt_token_ids_or_embeds ::
  "int list option \<Rightarrow> bytes list option \<Rightarrow> int result" where
  "length_from_prompt_token_ids_or_embeds ids embeds =
     (case ids of
        None \<Rightarrow> (case embeds of None \<Rightarrow> Inl ValueError | Some e \<Rightarrow> Inr (int (length e)))
      | Some t \<Rightarrow>
          (case embeds of
             None \<Rightarrow> Inr (int (length t))
           | Some e \<Rightarrow> if length e \<noteq> length t then Inl ValueError else Inr (int (length t))))"

definition get_skip_reading_prefix_cache ::
  "SamplingParams option \<Rightarrow> PoolingParams option \<Rightarrow> bool" where
  "get_skip_reading_prefix_cache sp pp =
     (case Option.bind sp sp_skip_reading_prefix_cache of
        Some b \<Rightarrow> b
      | None \<Rightarrow>
          (case Option.bind pp pp_skip_reading_prefix_cache of Some b \<Rightarrow> b | None \<Rightarrow> False))"

definition num_tokens :: "Request \<Rightarrow> int" where
  "num_tokens r = int (length (all_token_ids r))"

definition num_tokens_with_spec :: "Request \<Rightarrow> int" where
  "num_tokens_with_spec r = int (length (all_token_ids r)) + int (length (spec_token_ids r))"

definition num_output_tokens :: "Request \<Rightarrow> int" where
  "num_output_tokens r = int (length (output_token_ids r))"

definition num_encoder_inputs :: "Request \<Rightarrow> int" where
  "num_encoder_inputs r = int (length (mm_features r))"

definition use_structured_output :: "Request \<Rightarrow> bool" where
  "use_structured_output r \<longleftrightarrow> structured_output_request r \<noteq> None"

definition is_finished :: "Request \<Rightarrow> bool" where
  "is_finished r \<longleftrightarrow> is_finished_status (status r)"

definition get_finished_reason :: "Request \<Rightarrow> FinishReason option" where
  "get_finished_reason r = get_finished_reason_status (status r)"

definition get_num_encoder_embeds :: "Request \<Rightarrow> nat \<Rightarrow> int result" where
  "get_num_encoder_embeds r input_id =
     py_assert (input_id < length (mm_features r))
       (get_num_embeds (mm_position (mm_features r ! input_id)))"

definition record_event :: "EngineCoreEventType \<Rightarrow> rat option \<Rightarrow> rat \<Rightarrow> Request \<Rightarrow> Request" where
  "record_event ty ts now r =
     r\<lparr>req_events := req_events r @ [(ty, case ts of None \<Rightarrow> now | Some t \<Rightarrow> t)]\<rparr>"

definition take_req_events :: "Request \<Rightarrow> (EngineCoreEventType \<times> rat) list option \<times> Request" where
  "take_req_events r =
     (if req_events r = [] then (None, r) else (Some (req_events r), r\<lparr>req_events := []\<rparr>))"

definition StreamingUpdate_from_request :: "Request \<Rightarrow> StreamingUpdate option" where
  "StreamingUpdate_from_request r =
     (if \<not> resumable r then None
      else Some \<lparr>su_mm_features = Some (mm_features r), su_prompt_token_ids = prompt_token_ids r,
                 su_max_tokens = max_tokens r, su_arrival_time = arrival_time r,
                 su_sampling_params = sampling_params r\<rparr>)"

text \<open>\<^verbatim>\<open>Request.__lt__\<close>\<close>

definition req_lt :: "Request \<Rightarrow> Request \<Rightarrow> bool" where
  "req_lt a b =
     (if priority a \<noteq> priority b then priority a < priority b
      else if arrival_time a \<noteq> arrival_time b then arrival_time a < arrival_time b
      else if request_id a \<noteq> request_id b then request_id a < request_id b
      else py_id a < py_id b)"

section \<open>Stopping\<close>

text \<open>\<^verbatim>\<open>check_stop\<close> returns the flag and the request with its status and stop reason updated.\<close>

definition check_stop :: "Request \<Rightarrow> int \<Rightarrow> (bool \<times> Request) result" where
  "check_stop r max_model_len =
     py_assert (pooling_params r = None)
      (case sampling_params r of
         None \<Rightarrow> Inl AssertionError
       | Some sp \<Rightarrow>
           if num_output_tokens r < sp_min_tokens sp then Inr (False, r)
           else rbind (py_index (output_token_ids r) (-1)) (\<lambda>last_token_id.
             if \<not> sp_ignore_eos sp \<and> Some last_token_id = eos_token_id r
             then Inr (True, r\<lparr>status := FINISHED_STOPPED\<rparr>)
             else if last_token_id \<in> set (case sp_stop_token_ids sp of None \<Rightarrow> [] | Some l \<Rightarrow> l)
             then Inr (True, r\<lparr>status := FINISHED_STOPPED, stop_reason := Some last_token_id\<rparr>)
             else if num_tokens r \<ge> max_model_len \<or> num_output_tokens r \<ge> max_tokens r
             then Inr (True, r\<lparr>status := FINISHED_LENGTH_CAPPED\<rparr>)
             else Inr (False, r)))"

definition remove_all :: "'a list \<Rightarrow> 'a set \<Rightarrow> 'a list" where
  "remove_all lst items =
     (if items = {} then lst
      else if card items = 1 then remove1 (the_elem items) lst
      else filter (\<lambda>x. x \<notin> items) lst)"

section \<open>Lemmas\<close>

lemma finished_iff:
  "is_finished_status s \<longleftrightarrow>
     s \<in> {FINISHED_STOPPED, FINISHED_LENGTH_CAPPED, FINISHED_ABORTED, FINISHED_IGNORED, FINISHED_ERROR}"
  by (cases s) (simp_all add: is_finished_status_def)

lemma finished_has_reason: "is_finished_status s \<Longrightarrow> get_finished_reason_status s \<noteq> None"
  by (cases s) (simp_all add: is_finished_status_def)

lemma req_lt_irrefl: "\<not> req_lt a a"
  by (simp add: req_lt_def)

lemma req_lt_trans: "req_lt a b \<Longrightarrow> req_lt b c \<Longrightarrow> req_lt a c"
  by (auto simp: req_lt_def split: if_splits)

lemma req_lt_total: "py_id a \<noteq> py_id b \<Longrightarrow> req_lt a b \<or> req_lt b a"
  by (auto simp: req_lt_def)

end
