(* ===== verification/Block_Hashing.thy ===== *)
theory Block_Hashing
  imports Requests
begin

text \<open>
  Prefix-cache block hashing of \<^verbatim>\<open>vllm/v1/core/kv_cache_utils.py\<close> and the construction and growth of a
  request (\<^verbatim>\<open>vllm/v1/request.py\<close>) that use it. The hash function (\<^verbatim>\<open>vllm/utils/hashing.py\<close> on top of
  hashlib, pickle and cbor2) is a parameter \<open>fn\<close>; \<open>none\<close> is the module's NONE_HASH. The
  hashing loop is a \<open>partial_function\<close>: \<open>None\<close> means that it does not return, which happens
  for a block size that is not positive.
\<close>

section \<open>Extra keys\<close>

text \<open>The keys are an untagged Python tuple of strings and bytes.\<close>

datatype pykey = KStr string | KBytes bytes

type_synonym hash_input = "bytes \<times> int list \<times> pykey list option"
type_synonym 'a outcome = "'a result option"

definition need_extra_keys :: "Request \<Rightarrow> bool" where
  "need_extra_keys r \<longleftrightarrow> mm_features r \<noteq> [] \<or> lora_request r \<noteq> None \<or> cache_salt r \<noteq> None"

fun mm_keys_loop :: "MultiModalFeatureSpec list \<Rightarrow> int \<Rightarrow> int \<Rightarrow> int \<Rightarrow> (pykey list \<times> int) result" where
  "mm_keys_loop [] start_token_idx end_token_idx curr_mm_idx = Inr ([], curr_mm_idx)"
| "mm_keys_loop (f # fs) start_token_idx end_token_idx curr_mm_idx =
     (case mm_identifier f of
        None \<Rightarrow> Inl AssertionError
      | Some ident \<Rightarrow>
          (let off = pr_offset (mm_position f); len = pr_length (mm_position f) in
           if end_token_idx > off then
             (if start_token_idx > off + len
              then mm_keys_loop fs start_token_idx end_token_idx (curr_mm_idx + 1)
              else if end_token_idx \<ge> off + len
              then rbind (mm_keys_loop fs start_token_idx end_token_idx (curr_mm_idx + 1))
                     (\<lambda>(ks, i). Inr (KStr ident # ks, i))
              else Inr ([KStr ident], curr_mm_idx))
           else Inr ([], curr_mm_idx)))"

definition gen_mm_extra_hash_keys :: "Request \<Rightarrow> int \<Rightarrow> int \<Rightarrow> int \<Rightarrow> (pykey list \<times> int) result" where
  "gen_mm_extra_hash_keys r start_token_idx end_token_idx start_mm_idx =
     (let mms = mm_features r in
      if mms = [] then Inr ([], start_mm_idx)
      else
        let last_pos = mm_position (last mms) in
        if pr_offset last_pos + pr_length last_pos < start_token_idx then Inr ([], start_mm_idx)
        else py_assert (start_mm_idx < 0 \<longrightarrow> - start_mm_idx \<le> int (length mms))
          (let idx = (if start_mm_idx < 0 then int (length mms) + start_mm_idx else start_mm_idx)
           in mm_keys_loop (drop (nat idx) mms) start_token_idx end_token_idx idx))"

definition gen_lora_extra_hash_keys :: "Request \<Rightarrow> pykey list" where
  "gen_lora_extra_hash_keys r =
     (case lora_request r of None \<Rightarrow> [] | Some l \<Rightarrow> [KStr (lora_name l)])"

definition gen_prompt_embeds_extra_hash_keys :: "Request \<Rightarrow> int \<Rightarrow> int \<Rightarrow> pykey list" where
  "gen_prompt_embeds_extra_hash_keys r start_token_idx end_token_idx =
     (case prompt_embeds r of
        None \<Rightarrow> []
      | Some rows \<Rightarrow> [KBytes (concat (py_slice start_token_idx end_token_idx rows))])"

definition cache_salt_keys :: "Request \<Rightarrow> int \<Rightarrow> pykey list" where
  "cache_salt_keys r start_token_idx =
     (case cache_salt r of
        None \<Rightarrow> []
      | Some s \<Rightarrow> if start_token_idx = 0 \<and> s \<noteq> [] then [KStr s] else [])"

definition generate_block_hash_extra_keys ::
  "Request \<Rightarrow> int \<Rightarrow> int \<Rightarrow> int \<Rightarrow> (pykey list option \<times> int) result" where
  "generate_block_hash_extra_keys r start_token_idx end_token_idx start_mm_idx =
     rbind (gen_mm_extra_hash_keys r start_token_idx end_token_idx start_mm_idx)
       (\<lambda>(mm_extra_keys, new_start_mm_idx).
          let extra_keys = gen_lora_extra_hash_keys r @ mm_extra_keys @
                cache_salt_keys r start_token_idx @
                gen_prompt_embeds_extra_hash_keys r start_token_idx end_token_idx
          in Inr (if extra_keys = [] then None else Some extra_keys, new_start_mm_idx))"

section \<open>Hashing\<close>

definition hash_block_tokens ::
  "(hash_input \<Rightarrow> bytes) \<Rightarrow> bytes \<Rightarrow> bytes option \<Rightarrow> int list \<Rightarrow> pykey list option \<Rightarrow> bytes" where
  "hash_block_tokens fn none parent_block_hash curr_block_token_ids extra_keys =
     (let parent = (case parent_block_hash of None \<Rightarrow> none | Some h \<Rightarrow> if h = [] then none else h)
      in fn (parent, curr_block_token_ids, extra_keys))"

partial_function (option) hash_loop ::
  "(hash_input \<Rightarrow> bytes) \<Rightarrow> bytes \<Rightarrow> int \<Rightarrow> Request \<Rightarrow> int \<Rightarrow> int \<Rightarrow> bytes option \<Rightarrow> bytes list \<Rightarrow>
     bytes list result option" where
  "hash_loop fn none block_size r start_token_idx curr_mm_idx prev_block_hash_value new_block_hashes =
     (if start_token_idx + block_size > num_tokens r then Some (Inr new_block_hashes)
      else case generate_block_hash_extra_keys r start_token_idx (start_token_idx + block_size) curr_mm_idx of
             Inl e \<Rightarrow> Some (Inl e)
           | Inr ki \<Rightarrow>
               hash_loop fn none block_size r (start_token_idx + block_size) (snd ki)
                 (Some (hash_block_tokens fn none prev_block_hash_value
                    (py_slice start_token_idx (start_token_idx + block_size) (all_token_ids r)) (fst ki)))
                 (new_block_hashes @ [hash_block_tokens fn none prev_block_hash_value
                    (py_slice start_token_idx (start_token_idx + block_size) (all_token_ids r)) (fst ki)]))"

definition request_block_hasher ::
  "int \<Rightarrow> (hash_input \<Rightarrow> bytes) \<Rightarrow> bytes \<Rightarrow> Request \<Rightarrow> bytes list outcome" where
  "request_block_hasher block_size fn none r =
     (let start_token_idx = int (length (block_hashes r)) * block_size in
      if start_token_idx + block_size > num_tokens r then Some (Inr [])
      else hash_loop fn none block_size r start_token_idx
             (if start_token_idx > 0 then -1 else 0)
             (if block_hashes r = [] then None else Some (last (block_hashes r))) [])"

section \<open>Construction and growth of a request\<close>

record EngineCoreRequest =
  ecr_request_id :: string
  ecr_client_index :: int
  ecr_prompt_token_ids :: "int list option"
  ecr_prompt_embeds :: "bytes list option"
  ecr_mm_features :: "MultiModalFeatureSpec list option"
  ecr_sampling_params :: "SamplingParams option"
  ecr_pooling_params :: "PoolingParams option"
  ecr_eos_token_id :: "int option"
  ecr_arrival_time :: "rat option"
  ecr_lora_request :: "LoRARequest option"
  ecr_cache_salt :: "string option"
  ecr_priority :: int
  ecr_resumable :: bool

definition rehash :: "(Request \<Rightarrow> bytes list outcome) option \<Rightarrow> Request \<Rightarrow> Request outcome" where
  "rehash block_hasher r =
     (case block_hasher of
        None \<Rightarrow> Some (Inr r)
      | Some hasher \<Rightarrow>
          map_option (\<lambda>res. rbind res (\<lambda>hs. Inr (r\<lparr>block_hashes := block_hashes r @ hs\<rparr>))) (hasher r))"

text \<open>\<^verbatim>\<open>max_tokens\<close>, initial status and KV transfer parameters, by the kind of request.\<close>

definition request_kind :: "EngineCoreRequest \<Rightarrow> (int \<times> RequestStatus \<times> string option) result" where
  "request_kind a =
     (case ecr_pooling_params a of
        Some _ \<Rightarrow> Inr (1, WAITING, None)
      | None \<Rightarrow>
          (case ecr_sampling_params a of
             None \<Rightarrow> Inl ValueError
           | Some sp \<Rightarrow>
               (case sp_max_tokens sp of
                  None \<Rightarrow> Inl AssertionError
                | Some m \<Rightarrow>
                    Inr (m,
                      if structured_output_from_sampling_params (Some sp) \<noteq> None
                      then WAITING_FOR_FSM else WAITING,
                      Option.bind (sp_extra_args sp) (\<lambda>d. map_of d ''kv_transfer_params'')))))"

definition Request_init ::
  "nat \<Rightarrow> rat \<Rightarrow> EngineCoreRequest \<Rightarrow> (Request \<Rightarrow> bytes list outcome) option \<Rightarrow> Request outcome" where
  "Request_init pyid now a block_hasher =
     (case request_kind a of
        Inl e \<Rightarrow> Some (Inl e)
      | Inr (m, st, kvp) \<Rightarrow>
          (case length_from_prompt_token_ids_or_embeds (ecr_prompt_token_ids a) (ecr_prompt_embeds a) of
             Inl e \<Rightarrow> Some (Inl e)
           | Inr n \<Rightarrow>
               rehash block_hasher
                 \<lparr>py_id = pyid, request_id = ecr_request_id a, client_index = ecr_client_index a,
                  priority = ecr_priority a, sampling_params = ecr_sampling_params a,
                  pooling_params = ecr_pooling_params a, eos_token_id = ecr_eos_token_id a,
                  lora_request = ecr_lora_request a,
                  structured_output_request = structured_output_from_sampling_params (ecr_sampling_params a),
                  arrival_time = (case ecr_arrival_time a of None \<Rightarrow> now | Some t \<Rightarrow> t),
                  status = st, req_events = [], stop_reason = None, kv_transfer_params = kvp,
                  max_tokens = m, prompt_token_ids = ecr_prompt_token_ids a,
                  prompt_embeds = ecr_prompt_embeds a, num_prompt_tokens = n, output_token_ids = [],
                  all_token_ids = (case ecr_prompt_token_ids a of
                                     Some t \<Rightarrow> t | None \<Rightarrow> replicate (nat n) 0),
                  num_output_placeholders = 0, discard_latest_async_tokens = False,
                  spec_token_ids = [], num_computed_tokens = 0, cache_salt = ecr_cache_salt a,
                  mm_features = (case ecr_mm_features a of None \<Rightarrow> [] | Some l \<Rightarrow> l),
                  num_cached_tokens = -1, num_nans_in_logits = 0, num_preemptions = 0,
                  num_external_computed_tokens = 0, block_hashes = [],
                  skip_reading_prefix_cache =
                    get_skip_reading_prefix_cache (ecr_sampling_params a) (ecr_pooling_params a),
                  resumable = ecr_resumable a, streaming_queue = None\<rparr>))"

definition append_output_token_ids ::
  "(Request \<Rightarrow> bytes list outcome) option \<Rightarrow> int list \<Rightarrow> Request \<Rightarrow> Request outcome" where
  "append_output_token_ids block_hasher token_ids r =
     rehash block_hasher
       (r\<lparr>output_token_ids := output_token_ids r @ token_ids,
          all_token_ids := all_token_ids r @ token_ids\<rparr>)"

section \<open>Reference definition of the hash chain\<close>

text \<open>
  For a request without multi-modal inputs the extra keys of a block depend on its position
  only, and the hash of block \<open>i\<close> is the \<open>i\<close>-th element of a chain over the token blocks.
\<close>

definition plain_keys :: "int \<Rightarrow> Request \<Rightarrow> nat \<Rightarrow> pykey list option" where
  "plain_keys bs r i =
     (let ks = gen_lora_extra_hash_keys r @ cache_salt_keys r (int i * bs) @
               gen_prompt_embeds_extra_hash_keys r (int i * bs) (int i * bs + bs)
      in if ks = [] then None else Some ks)"

definition token_block :: "int \<Rightarrow> Request \<Rightarrow> nat \<Rightarrow> int list" where
  "token_block bs r i = py_slice (int i * bs) (int i * bs + bs) (all_token_ids r)"

fun hash_chain :: "(hash_input \<Rightarrow> bytes) \<Rightarrow> bytes \<Rightarrow> int \<Rightarrow> Request \<Rightarrow> nat \<Rightarrow> bytes" where
  "hash_chain fn none bs r 0 =
     hash_block_tokens fn none None (token_block bs r 0) (plain_keys bs r 0)"
| "hash_chain fn none bs r (Suc i) =
     hash_block_tokens fn none (Some (hash_chain fn none bs r i)) (token_block bs r (Suc i))
       (plain_keys bs r (Suc i))"

definition num_full_blocks :: "int \<Rightarrow> Request \<Rightarrow> nat" where
  "num_full_blocks bs r = nat (num_tokens r div bs)"

definition full_hashes :: "(hash_input \<Rightarrow> bytes) \<Rightarrow> bytes \<Rightarrow> int \<Rightarrow> Request \<Rightarrow> bytes list" where
  "full_hashes fn none bs r = map (hash_chain fn none bs r) [0..<num_full_blocks bs r]"

definition chain_input :: "(hash_input \<Rightarrow> bytes) \<Rightarrow> bytes \<Rightarrow> int \<Rightarrow> Request \<Rightarrow> nat \<Rightarrow> hash_input" where
  "chain_input fn none bs r i =
     (case i of
        0 \<Rightarrow> none
      | Suc j \<Rightarrow> (if hash_chain fn none bs r j = [] then none else hash_chain fn none bs r j),
      token_block bs r i, plain_keys bs r i)"

definition chain_inputs :: "(hash_input \<Rightarrow> bytes) \<Rightarrow> bytes \<Rightarrow> int \<Rightarrow> Request \<Rightarrow> hash_input set" where
  "chain_inputs fn none bs r = chain_input fn none bs r ` {..<num_full_blocks bs r}"

definition chain_prev :: "(hash_input \<Rightarrow> bytes) \<Rightarrow> bytes \<Rightarrow> int \<Rightarrow> Request \<Rightarrow> nat \<Rightarrow> bytes option" where
  "chain_prev fn none bs r i = (case i of 0 \<Rightarrow> None | Suc j \<Rightarrow> Some (hash_chain fn none bs r j))"

section \<open>The loop computes the chain\<close>

lemma extra_keys_plain:
  "mm_features r = [] \<Longrightarrow>
     generate_block_hash_extra_keys r (int i * bs) (int i * bs + bs) idx = Inr (plain_keys bs r i, idx)"
  by (simp add: generate_block_hash_extra_keys_def gen_mm_extra_hash_keys_def plain_keys_def Let_def)

lemma block_fits_iff:
  "0 < bs \<Longrightarrow> int i * bs + bs \<le> num_tokens r \<longleftrightarrow> i < num_full_blocks bs r"
proof -
  assume bs: "0 < bs"
  have "int i * bs + bs \<le> num_tokens r \<longleftrightarrow> (int i + 1) * bs \<le> num_tokens r"
    by (simp add: algebra_simps)
  also have "\<dots> \<longleftrightarrow> int i + 1 \<le> num_tokens r div bs"
    using le_div_iff_mult_le[OF bs] by simp
  also have "\<dots> \<longleftrightarrow> i < num_full_blocks bs r" by (simp add: num_full_blocks_def) linarith
  finally show ?thesis .
qed

lemma hash_chain_unfold:
  "hash_chain fn none bs r i =
     hash_block_tokens fn none (chain_prev fn none bs r i) (token_block bs r i) (plain_keys bs r i)"
  by (cases i) (simp_all add: chain_prev_def)

lemma hash_loop_chain:
  assumes "mm_features r = []" "0 < bs"
  shows "hash_loop fn none bs r (int i * bs) idx (chain_prev fn none bs r i) acc =
    Some (Inr (acc @ map (hash_chain fn none bs r) [i..<num_full_blocks bs r]))"
proof (induction "num_full_blocks bs r - i" arbitrary: i acc)
  case 0
  then have "\<not> int i * bs + bs \<le> num_tokens r" using block_fits_iff[OF assms(2)] by simp
  then show ?case using "0" by (subst hash_loop.simps) simp
next
  case (Suc k)
  then have lt: "i < num_full_blocks bs r" by simp
  then have fits: "\<not> num_tokens r < int i * bs + bs" using block_fits_iff[OF assms(2), of i r] by simp
  let ?h = "hash_chain fn none bs r i"
  have h: "hash_block_tokens fn none (chain_prev fn none bs r i)
      (py_slice (int i * bs) (int i * bs + bs) (all_token_ids r)) (plain_keys bs r i) = ?h"
    by (simp add: hash_chain_unfold token_block_def)
  have next_idx: "int i * bs + bs = int (Suc i) * bs" by (simp add: algebra_simps)
  have "hash_loop fn none bs r (int i * bs) idx (chain_prev fn none bs r i) acc =
      hash_loop fn none bs r (int i * bs + bs) idx (Some ?h) (acc @ [?h])"
    using fits by (subst hash_loop.simps) (simp add: extra_keys_plain[OF assms(1)] h)
  also have "\<dots> = hash_loop fn none bs r (int (Suc i) * bs) idx (chain_prev fn none bs r (Suc i)) (acc @ [?h])"
    by (simp only: next_idx) (simp add: chain_prev_def)
  also have "\<dots> = Some (Inr ((acc @ [?h]) @ map (hash_chain fn none bs r) [Suc i..<num_full_blocks bs r]))"
    using Suc.hyps(1)[of "Suc i" "acc @ [?h]"] Suc.hyps(2) by simp
  finally show ?case using lt by (simp add: upt_conv_Cons)
qed

lemma length_full_hashes [simp]: "length (full_hashes fn none bs r) = num_full_blocks bs r"
  by (simp add: full_hashes_def)

lemma request_block_hasher_chain:
  assumes "mm_features r = []" "0 < bs" "block_hashes r = map (hash_chain fn none bs r) [0..<k]"
    "k \<le> num_full_blocks bs r"
  shows "request_block_hasher bs fn none r =
    Some (Inr (map (hash_chain fn none bs r) [k..<num_full_blocks bs r]))"
proof (cases "k < num_full_blocks bs r")
  case True
  have "(if block_hashes r = [] then None else Some (last (block_hashes r))) = chain_prev fn none bs r k"
    using assms(3) by (cases k) (simp_all add: chain_prev_def)
  then show ?thesis
    using hash_loop_chain[OF assms(1,2), of fn none k _ "[]"] block_fits_iff[OF assms(2), of k r] True
    by (simp add: request_block_hasher_def assms(3) Let_def)
next
  case False
  then have "\<not> int k * bs + bs \<le> num_tokens r" using block_fits_iff[OF assms(2)] by simp
  then show ?thesis using False by (simp add: request_block_hasher_def assms(3) Let_def)
qed

lemma plain_keys_tokens [simp]:
  "plain_keys bs (r\<lparr>output_token_ids := o1, all_token_ids := a1\<rparr>) i = plain_keys bs r i"
  by (simp add: plain_keys_def gen_lora_extra_hash_keys_def cache_salt_keys_def
      gen_prompt_embeds_extra_hash_keys_def)

lemma token_block_append:
  assumes "0 < bs" "i < num_full_blocks bs r"
  shows "token_block bs (r\<lparr>output_token_ids := o1, all_token_ids := all_token_ids r @ ts\<rparr>) i = token_block bs r i"
proof -
  have "int i * bs + bs \<le> num_tokens r" using block_fits_iff[OF assms(1)] assms(2) by simp
  moreover have "\<not> int i * bs < 0" "\<not> int i * bs + bs < 0"
    using assms(1) by (simp_all add: not_less add_nonneg_nonneg)
  ultimately show ?thesis
    by (simp add: token_block_def py_slice_def slice_pos_def num_tokens_def nat_le_iff)
qed

lemma hash_chain_append:
  assumes "0 < bs" "i < num_full_blocks bs r"
  shows "hash_chain fn none bs (r\<lparr>output_token_ids := o1, all_token_ids := all_token_ids r @ ts\<rparr>) i =
    hash_chain fn none bs r i"
  using assms(2) by (induction i) (simp_all add: token_block_append[OF assms(1)])

lemma num_full_blocks_append:
  "0 < bs \<Longrightarrow> num_full_blocks bs r \<le> num_full_blocks bs (r\<lparr>output_token_ids := o1, all_token_ids := all_token_ids r @ ts\<rparr>)"
  by (simp add: num_full_blocks_def num_tokens_def nat_mono zdiv_mono1)

lemma rehash_full:
  assumes "mm_features r = []" "0 < bs" "block_hashes r = map (hash_chain fn none bs r) [0..<k]"
    "k \<le> num_full_blocks bs r"
  shows "rehash (Some (request_block_hasher bs fn none)) r =
    Some (Inr (r\<lparr>block_hashes := full_hashes fn none bs r\<rparr>))"
proof -
  have "[0..<k] @ [k..<num_full_blocks bs r] = [0..<num_full_blocks bs r]"
    using assms(4) by (metis le_add_diff_inverse upt_add_eq_append zero_le)
  then show ?thesis
    by (simp add: rehash_def request_block_hasher_chain[OF assms] full_hashes_def)
      (simp add: assms(3) flip: map_append)
qed

lemma hash_chain_block_hashes [simp]:
  "hash_chain fn none bs (r\<lparr>block_hashes := hs\<rparr>) i = hash_chain fn none bs r i"
  "num_full_blocks bs (r\<lparr>block_hashes := hs\<rparr>) = num_full_blocks bs r"
proof -
  show "num_full_blocks bs (r\<lparr>block_hashes := hs\<rparr>) = num_full_blocks bs r"
    by (simp add: num_full_blocks_def num_tokens_def)
  show "hash_chain fn none bs (r\<lparr>block_hashes := hs\<rparr>) i = hash_chain fn none bs r i"
    by (induction i) (simp_all add: token_block_def plain_keys_def gen_lora_extra_hash_keys_def
        cache_salt_keys_def gen_prompt_embeds_extra_hash_keys_def)
qed

lemma full_hashes_block_hashes [simp]:
  "full_hashes fn none bs (r\<lparr>block_hashes := hs\<rparr>) = full_hashes fn none bs r"
  by (simp add: full_hashes_def)

lemma rehash_fresh:
  assumes "mm_features r = []" "0 < bs" "block_hashes r = []"
  shows "rehash (Some (request_block_hasher bs fn none)) r = Some (Inr (r\<lparr>block_hashes := full_hashes fn none bs r\<rparr>))"
  using rehash_full[OF assms(1,2), of fn none 0] assms(3) by simp

lemma append_hashed:
  assumes "mm_features r = []" "0 < bs" "block_hashes r = full_hashes fn none bs r"
    "r' = r\<lparr>output_token_ids := output_token_ids r @ ts, all_token_ids := all_token_ids r @ ts\<rparr>"
  shows "append_output_token_ids (Some (request_block_hasher bs fn none)) ts r = Some (Inr (r'\<lparr>block_hashes := full_hashes fn none bs r'\<rparr>))"
proof -
  have "block_hashes r' = map (hash_chain fn none bs r') [0..<num_full_blocks bs r]"
    using assms(2-4) by (simp add: full_hashes_def hash_chain_append)
  then show ?thesis using rehash_full[OF _ assms(2), of r'] num_full_blocks_append[OF assms(2)] assms(1,4)
    by (simp add: append_output_token_ids_def)
qed

text \<open>
  C36 (Request.append_output_token_ids with get_request_block_hasher): for a request without multi-modal
  inputs and a positive block size the hasher returns, and incremental hashing of appended tokens
  gives exactly the hash chain that hashing the whole token sequence from scratch gives; the tokens
  are appended to both token lists.
\<close>

theorem incremental_hashing_exact:
  assumes "mm_features r = []" "0 < bs" "block_hashes r = full_hashes fn none bs r"
  shows "\<exists>r'. append_output_token_ids (Some (request_block_hasher bs fn none)) ts r = Some (Inr r') \<and>
    block_hashes r' = full_hashes fn none bs r' \<and>
    all_token_ids r' = all_token_ids r @ ts \<and> output_token_ids r' = output_token_ids r @ ts \<and>
    rehash (Some (request_block_hasher bs fn none)) (r'\<lparr>block_hashes := []\<rparr>) = Some (Inr r')"
proof -
  let ?r = "r\<lparr>output_token_ids := output_token_ids r @ ts, all_token_ids := all_token_ids r @ ts\<rparr>"
  note append_hashed[OF assms refl, of ts]
  moreover have "rehash (Some (request_block_hasher bs fn none)) (?r\<lparr>block_hashes := []\<rparr>) =
      Some (Inr (?r\<lparr>block_hashes := full_hashes fn none bs ?r\<rparr>))"
    using rehash_fresh[of "?r\<lparr>block_hashes := []\<rparr>"] assms(1,2) by simp
  ultimately show ?thesis by simp
qed

section \<open>Equal hashes mean equal prefixes\<close>

lemma hash_chain_input: "hash_chain fn none bs r i = fn (chain_input fn none bs r i)"
  by (cases i) (simp_all add: hash_block_tokens_def chain_input_def Let_def)

lemma hash_chain_inj:
  assumes inj: "inj_on fn (chain_inputs fn none bs r1 \<union> chain_inputs fn none bs r2)"
    and out: "none \<notin> fn ` (chain_inputs fn none bs r1 \<union> chain_inputs fn none bs r2)"
      "[] \<notin> fn ` (chain_inputs fn none bs r1 \<union> chain_inputs fn none bs r2)"
    and "i < num_full_blocks bs r1" "j < num_full_blocks bs r2"
    and "hash_chain fn none bs r1 i = hash_chain fn none bs r2 j"
  shows "i = j \<and> (\<forall>k \<le> i. token_block bs r1 k = token_block bs r2 k \<and> plain_keys bs r1 k = plain_keys bs r2 k)"
  using assms(4-6)
proof (induction i arbitrary: j)
  have h1: "hash_chain fn none bs r1 k \<notin> {none, []}" if "k < num_full_blocks bs r1" for k
  proof -
    have "hash_chain fn none bs r1 k \<in> fn ` (chain_inputs fn none bs r1 \<union> chain_inputs fn none bs r2)"
      unfolding hash_chain_input chain_inputs_def using that by blast
    then show ?thesis using out by auto
  qed
  have h2: "hash_chain fn none bs r2 k \<notin> {none, []}" if "k < num_full_blocks bs r2" for k
  proof -
    have "hash_chain fn none bs r2 k \<in> fn ` (chain_inputs fn none bs r1 \<union> chain_inputs fn none bs r2)"
      unfolding hash_chain_input chain_inputs_def using that by blast
    then show ?thesis using out by auto
  qed
  have inp: "chain_input fn none bs r1 i = chain_input fn none bs r2 j"
    if "hash_chain fn none bs r1 i = hash_chain fn none bs r2 j"
      "i < num_full_blocks bs r1" "j < num_full_blocks bs r2" for i j
    by (rule inj_onD[OF inj]) (use that in \<open>auto simp: chain_inputs_def hash_chain_input\<close>)
  {
    case 0
    show ?case
    proof (cases j)
      case 0
      then show ?thesis using inp[OF "0.prems"(3,1,2)] by (simp add: chain_input_def)
    next
      case (Suc j')
      then show ?thesis using inp[OF "0.prems"(3,1,2)] h2[of j'] "0.prems"(2) by (simp add: chain_input_def)
    qed
  next
    case (Suc i)
    have hi: "hash_chain fn none bs r1 i \<notin> {none, []}" using h1 Suc.prems(1) by simp
    note eq = inp[OF Suc.prems(3,1,2)]
    show ?case
    proof (cases j)
      case 0
      then show ?thesis using eq hi by (simp add: chain_input_def)
    next
      case j: (Suc j')
      have "hash_chain fn none bs r1 i = hash_chain fn none bs r2 j'"
        "token_block bs r1 (Suc i) = token_block bs r2 j" "plain_keys bs r1 (Suc i) = plain_keys bs r2 j"
        using eq hi h2[of j'] Suc.prems(2) j by (auto simp: chain_input_def)
      then show ?thesis using Suc.IH[of j'] Suc.prems(1,2) j by (auto simp: le_Suc_eq)
    qed
  }
qed

lemma take_blocks:
  assumes "0 < bs" "i < num_full_blocks bs r"
  shows "take (nat ((int i + 1) * bs)) (all_token_ids r) = concat (map (token_block bs r) [0..<Suc i])"
  using assms(2)
proof (induction i)
  case 0
  then show ?case using assms(1) by (simp add: token_block_def py_slice_def slice_pos_def)
next
  case (Suc i)
  let ?n = "nat ((int i + 1) * bs)"
  have n: "int ?n = (int i + 1) * bs" using assms(1) by simp
  have m: "nat ((int (Suc i) + 1) * bs) = ?n + nat bs"
    using assms(1) by (simp add: nat_add_distrib flip: nat_add_distrib) (simp add: algebra_simps nat_add_distrib)
  have "\<not> int (Suc i) * bs < 0" "\<not> int (Suc i) * bs + bs < 0" "nat (int (Suc i) * bs) = ?n"
    "nat (int (Suc i) * bs + bs) = ?n + nat bs"
    using assms(1) m by (simp_all add: not_less add_nonneg_nonneg algebra_simps)
  then have "token_block bs r (Suc i) = drop ?n (take (?n + nat bs) (all_token_ids r))"
    by (simp add: token_block_def py_slice_def slice_pos_def del: of_nat_Suc)
  moreover have "take (?n + nat bs) (all_token_ids r) =
      take ?n (all_token_ids r) @ drop ?n (take (?n + nat bs) (all_token_ids r))"
    by (metis append_take_drop_id take_take min.absorb1 le_add1)
  ultimately show ?case using Suc by (simp add: m del: of_nat_Suc)
qed

lemma same_blocks_same_prefix:
  assumes "\<forall>k\<le>i. token_block bs r1 k = token_block bs r2 k" "0 < bs"
    "i < num_full_blocks bs r1" "i < num_full_blocks bs r2"
  shows "take (nat ((int i + 1) * bs)) (all_token_ids r1) = take (nat ((int i + 1) * bs)) (all_token_ids r2)"
proof -
  have "map (token_block bs r1) [0..<Suc i] = map (token_block bs r2) [0..<Suc i]"
    using assms(1) by simp
  then show ?thesis using assms(2-4) by (simp only: take_blocks)
qed

text \<open>
  C35 (kv_cache_utils.hash_block_tokens and get_request_block_hasher): block hashes identify prefixes. If
  the hash function is collision-free on the inputs that hashing two requests (without multi-modal
  inputs) feeds it, and never returns the NONE_HASH seed or an empty hash there, then two equal
  block hashes stand at the same block index, the requests agree on every token up to the end of
  that block, and on the extra keys (LoRA name, cache salt, prompt embeddings) of every block up to it.
\<close>

theorem equal_hashes_equal_prefix:
  assumes "mm_features r1 = []" "mm_features r2 = []" "block_hashes r1 = []" "block_hashes r2 = []" "0 < bs"
    and "request_block_hasher bs fn none r1 = Some (Inr hs1)" "request_block_hasher bs fn none r2 = Some (Inr hs2)"
    and "inj_on fn (chain_inputs fn none bs r1 \<union> chain_inputs fn none bs r2)"
    and "none \<notin> fn ` (chain_inputs fn none bs r1 \<union> chain_inputs fn none bs r2)"
    and "[] \<notin> fn ` (chain_inputs fn none bs r1 \<union> chain_inputs fn none bs r2)"
    and "i < length hs1" "j < length hs2" "hs1 ! i = hs2 ! j"
  shows "i = j \<and>
    take (nat ((int i + 1) * bs)) (all_token_ids r1) = take (nat ((int i + 1) * bs)) (all_token_ids r2) \<and>
    (\<forall>k \<le> i. plain_keys bs r1 k = plain_keys bs r2 k)"
proof -
  have hs: "hs1 = map (hash_chain fn none bs r1) [0..<num_full_blocks bs r1]"
    "hs2 = map (hash_chain fn none bs r2) [0..<num_full_blocks bs r2]"
    using request_block_hasher_chain[of r1 bs fn none 0] request_block_hasher_chain[of r2 bs fn none 0] assms
    by simp_all
  then have lt: "i < num_full_blocks bs r1" "j < num_full_blocks bs r2" using assms(11,12) by simp_all
  have "hash_chain fn none bs r1 i = hash_chain fn none bs r2 j" using hs lt assms(13) by simp
  note inj = hash_chain_inj[OF assms(8,9,10) lt this]
  then show ?thesis using same_blocks_same_prefix[of i bs r1 r2] assms(5) lt by auto
qed

section \<open>Concrete requests\<close>

definition blank_params :: SamplingParams where
  "blank_params = \<lparr>sp_max_tokens = Some 16, sp_min_tokens = 0, sp_ignore_eos = False,
     sp_stop_token_ids = None, sp_skip_reading_prefix_cache = None, sp_structured_outputs = None,
     sp_extra_args = None\<rparr>"

definition engine_request :: "string \<Rightarrow> int list \<Rightarrow> MultiModalFeatureSpec list \<Rightarrow> EngineCoreRequest" where
  "engine_request rid toks mms = \<lparr>ecr_request_id = rid, ecr_client_index = 0,
     ecr_prompt_token_ids = Some toks, ecr_prompt_embeds = None, ecr_mm_features = Some mms,
     ecr_sampling_params = Some blank_params, ecr_pooling_params = None, ecr_eos_token_id = None,
     ecr_arrival_time = Some 0, ecr_lora_request = None, ecr_cache_salt = None, ecr_priority = 0,
     ecr_resumable = False\<rparr>"

definition example_request :: "string \<Rightarrow> int list \<Rightarrow> MultiModalFeatureSpec list \<Rightarrow> Request" where
  "example_request rid toks mms =
     (case Request_init 0 0 (engine_request rid toks mms) None of
        Some (Inr r) \<Rightarrow> r)"

definition mm_item :: "string \<Rightarrow> int \<Rightarrow> int \<Rightarrow> MultiModalFeatureSpec" where
  "mm_item ident off len = \<lparr>mm_modality = ''image'', mm_identifier = Some ident,
     mm_position = \<lparr>pr_offset = off, pr_length = len, pr_is_embed = None\<rparr>\<rparr>"

lemma example_request_fields [simp]:
  "all_token_ids (example_request rid toks mms) = toks" "mm_features (example_request rid toks mms) = mms"
  "output_token_ids (example_request rid toks mms) = []" "block_hashes (example_request rid toks mms) = []"
  "lora_request (example_request rid toks mms) = None" "cache_salt (example_request rid toks mms) = None"
  "prompt_embeds (example_request rid toks mms) = None" "request_id (example_request rid toks mms) = rid"
  "num_computed_tokens (example_request rid toks mms) = 0"
  by (simp_all add: example_request_def Request_init_def engine_request_def request_kind_def blank_params_def
      structured_output_from_sampling_params_def length_from_prompt_token_ids_or_embeds_def rehash_def)

text \<open>A toy hash: the prefix byte and the tokens of the block.\<close>

definition toy_hash :: "hash_input \<Rightarrow> bytes" where
  "toy_hash x = 7 # map word_of_int (fst (snd x))"

lemma example_num_full_blocks [simp]:
  "num_full_blocks bs (example_request rid toks mms) = nat (int (length toks) div bs)"
  by (simp add: num_full_blocks_def num_tokens_def)

lemma example_blocks:
  "token_block 1 (example_request rid [a, b] mms) 0 = [a]"
  "token_block 1 (example_request rid [a, b] mms) (Suc 0) = [b]"
  "plain_keys 1 (example_request rid [a, b] mms) k = None"
  by (simp_all add: token_block_def py_slice_def slice_pos_def plain_keys_def gen_lora_extra_hash_keys_def
      cache_salt_keys_def gen_prompt_embeds_extra_hash_keys_def)

lemma example_chain_inputs:
  "chain_inputs toy_hash [] 1 (example_request rid [a, b] []) =
     {([], [a], None), ([7, word_of_int a], [b], None)}"
  by (simp add: chain_inputs_def lessThan_Suc numeral_2_eq_2 chain_input_def example_blocks
      hash_block_tokens_def toy_hash_def insert_commute)

theorem incremental_hashing_exact_witness:
  "mm_features (example_request ''r'' [] []) = [] \<and>
   (\<exists>r'. append_output_token_ids (Some (request_block_hasher 2 toy_hash [])) [4, 5, 6] (example_request ''r'' [] []) =
      Some (Inr r') \<and> block_hashes r' = full_hashes toy_hash [] 2 r' \<and>
    all_token_ids r' = [4, 5, 6] \<and> output_token_ids r' = [4, 5, 6] \<and>
    rehash (Some (request_block_hasher 2 toy_hash [])) (r'\<lparr>block_hashes := []\<rparr>) = Some (Inr r'))"
  using incremental_hashing_exact[of "example_request ''r'' [] []" 2 toy_hash "[]" "[4, 5, 6]"]
  by (simp add: full_hashes_def)

theorem equal_hashes_equal_prefix_witness:
  "request_block_hasher 1 toy_hash [] (example_request ''a'' [1, 2] []) = Some (Inr [[7, 1], [7, 2]]) \<and>
   request_block_hasher 1 toy_hash [] (example_request ''b'' [1, 3] []) = Some (Inr [[7, 1], [7, 3]]) \<and>
   take 1 (all_token_ids (example_request ''a'' [1, 2] [])) = take 1 (all_token_ids (example_request ''b'' [1, 3] []))"
proof -
  let ?a = "example_request ''a'' [1, 2] []" and ?b = "example_request ''b'' [1, 3] []"
  have a: "request_block_hasher 1 toy_hash [] ?a = Some (Inr [[7, 1], [7, 2]])"
    and b: "request_block_hasher 1 toy_hash [] ?b = Some (Inr [[7, 1], [7, 3]])"
    using request_block_hasher_chain[of ?a 1 toy_hash "[]" 0] request_block_hasher_chain[of ?b 1 toy_hash "[]" 0]
    by (simp_all add: upt_rec hash_block_tokens_def toy_hash_def example_blocks)
  have "inj_on toy_hash (chain_inputs toy_hash [] 1 ?a \<union> chain_inputs toy_hash [] 1 ?b)"
    by (simp add: example_chain_inputs toy_hash_def inj_on_def)
  from equal_hashes_equal_prefix[OF _ _ _ _ _ a b this, of 0 0] a b show ?thesis
    by (simp add: toy_hash_def image_iff)
qed

section \<open>Multi-modal inputs\<close>

text \<open>
  Items of two requests that differ in their first image only: the block of tokens 4 to 7 holds both
  images, and the prompt ends inside it.
\<close>

abbreviation mm_pair :: "string \<Rightarrow> MultiModalFeatureSpec list" where
  "mm_pair ident \<equiv> [mm_item ident 4 1, mm_item ''z'' 5 1]"

lemma mm_pair_keys:
  "generate_block_hash_extra_keys (example_request rid toks (mm_pair ident)) 0 4 0 = Inr (None, 0)"
  "generate_block_hash_extra_keys (example_request rid toks (mm_pair ident)) 4 8 0 =
     Inr (Some [KStr ident, KStr ''z''], 2)"
  "generate_block_hash_extra_keys (r\<lparr>block_hashes := hs\<rparr>) s e i = generate_block_hash_extra_keys r s e i"
  "generate_block_hash_extra_keys (r\<lparr>output_token_ids := o1, all_token_ids := a1\<rparr>) s e i =
     generate_block_hash_extra_keys r s e i"
  "generate_block_hash_extra_keys (example_request rid toks (mm_pair ident)) 4 8 (-1) =
     Inr (Some [KStr ''z''], 2)"
  by (simp_all add: generate_block_hash_extra_keys_def gen_mm_extra_hash_keys_def gen_lora_extra_hash_keys_def
      cache_salt_keys_def gen_prompt_embeds_extra_hash_keys_def mm_item_def Let_def)

lemma mm_pair_first_block:
  "rehash (Some (request_block_hasher 4 fn none)) (example_request rid [1, 2, 3, 4, 5, 6, 7] (mm_pair ident)) =
     Some (Inr ((example_request rid [1, 2, 3, 4, 5, 6, 7] (mm_pair ident))
       \<lparr>block_hashes := [fn (none, [1, 2, 3, 4], None)]\<rparr>))"
  by (simp add: rehash_def request_block_hasher_def hash_loop.simps num_tokens_def mm_pair_keys
      hash_block_tokens_def py_slice_def slice_pos_def)

lemma Request_init_example:
  "Request_init 0 0 (engine_request rid toks mms) h = rehash h (example_request rid toks mms)"
  by (simp add: example_request_def Request_init_def engine_request_def request_kind_def blank_params_def
      structured_output_from_sampling_params_def length_from_prompt_token_ids_or_embeds_def rehash_def)

text \<open>Two requests that differ in their multi-modal items, the last one apart, and in nothing that is hashed besides.\<close>

definition same_but_earlier_items :: "Request \<Rightarrow> Request \<Rightarrow> bool" where
  "same_but_earlier_items r1 r2 \<longleftrightarrow> mm_features r1 \<noteq> [] \<and> mm_features r2 \<noteq> [] \<and> length (mm_features r1) = length (mm_features r2) \<and>
     last (mm_features r1) = last (mm_features r2) \<and> mm_identifier (last (mm_features r1)) \<noteq> None \<and> all_token_ids r1 = all_token_ids r2 \<and>
     lora_request r1 = lora_request r2 \<and> cache_salt r1 = cache_salt r2 \<and> prompt_embeds r1 = prompt_embeds r2"

lemma tail_keys:
  assumes s: "same_but_earlier_items r1 r2" and i: "i = -1 \<or> int (length (mm_features r1)) - 1 \<le> i"
  shows "\<exists>ks i'. generate_block_hash_extra_keys r1 a e i = Inr (ks, i') \<and> generate_block_hash_extra_keys r2 a e i = Inr (ks, i') \<and>
    (i' = -1 \<or> int (length (mm_features r1)) - 1 \<le> i')"
proof -
  define f where "f = last (mm_features r1)"
  obtain as where as: "mm_features r1 = as @ [f]" using s unfolding f_def same_but_earlier_items_def by (metis append_butlast_last_id)
  obtain bs where bs: "mm_features r2 = bs @ [f]" using s unfolding f_def same_but_earlier_items_def by (metis append_butlast_last_id)
  have len: "length bs = length as" using s by (simp add: same_but_earlier_items_def as bs)
  obtain ident where ident: "mm_identifier f = Some ident" using s by (auto simp: same_but_earlier_items_def f_def)
  have same: "gen_lora_extra_hash_keys r2 = gen_lora_extra_hash_keys r1" "cache_salt_keys r2 a = cache_salt_keys r1 a"
    "gen_prompt_embeds_extra_hash_keys r2 a e = gen_prompt_embeds_extra_hash_keys r1 a e"
    using s by (simp_all add: same_but_earlier_items_def gen_lora_extra_hash_keys_def cache_salt_keys_def gen_prompt_embeds_extra_hash_keys_def)
  have loop: "\<exists>ks i'. mm_keys_loop fs a e k = Inr (ks, i') \<and> k \<le> i'" if "fs = [f] \<or> fs = []" for fs k
    using that ident by (auto simp: Let_def)
  have "\<exists>ks i'. gen_mm_extra_hash_keys r1 a e i = Inr (ks, i') \<and> gen_mm_extra_hash_keys r2 a e i = Inr (ks, i') \<and> (i' = -1 \<or> int (length as) \<le> i')"
  proof (cases "pr_offset (mm_position f) + pr_length (mm_position f) < a")
    case True
    then show ?thesis using i by (simp add: gen_mm_extra_hash_keys_def as bs)
  next
    case False
    let ?k = "if i < 0 then int (length as) else i"
    have k: "int (length as) \<le> ?k" "i < 0 \<Longrightarrow> i = -1" using i as by auto
    have d: "drop (nat ?k) (as @ [f]) = drop (nat ?k) (bs @ [f])" "drop (nat ?k) (as @ [f]) = [f] \<or> drop (nat ?k) (as @ [f]) = []"
      using k(1) len by (auto simp: drop_Cons' split: if_splits)
    have "gen_mm_extra_hash_keys r1 a e i = mm_keys_loop (drop (nat ?k) (as @ [f])) a e ?k"
      "gen_mm_extra_hash_keys r2 a e i = mm_keys_loop (drop (nat ?k) (as @ [f])) a e ?k"
      using False k(2) len d(1) by (auto simp: gen_mm_extra_hash_keys_def as bs Let_def)
    then show ?thesis using loop[OF d(2), of ?k] k(1) by force
  qed
  then show ?thesis by (auto simp: generate_block_hash_extra_keys_def same as Let_def)
qed

lemma tail_hash_loop:
  assumes s: "same_but_earlier_items r1 r2" and i: "i = -1 \<or> int (length (mm_features r1)) - 1 \<le> i" and bs: "0 < bs"
  shows "\<exists>hs. hash_loop fn none bs r1 a i prev acc = Some (Inr hs) \<and> hash_loop fn none bs r2 a i prev acc = Some (Inr hs) \<and>
    int (length hs) = int (length acc) + max 0 ((num_tokens r1 - a) div bs)"
  using i
proof (induction "nat (num_tokens r1 - a)" arbitrary: a i prev acc rule: less_induct)
  case less
  have t: "num_tokens r2 = num_tokens r1" "all_token_ids r2 = all_token_ids r1" using s by (simp_all add: same_but_earlier_items_def num_tokens_def)
  show ?case
  proof (cases "a + bs > num_tokens r1")
    case True
    then have "(num_tokens r1 - a) div bs \<le> 0" using bs by (smt (verit) div_pos_pos_trivial pos_imp_zdiv_nonneg_iff)
    then show ?thesis using True t(1) by (simp add: hash_loop.simps)
  next
    case False
    obtain ks i' where k: "generate_block_hash_extra_keys r1 a (a + bs) i = Inr (ks, i')" "generate_block_hash_extra_keys r2 a (a + bs) i = Inr (ks, i')"
      "i' = -1 \<or> int (length (mm_features r1)) - 1 \<le> i'" using tail_keys[OF s less.prems] by blast
    let ?h = "hash_block_tokens fn none prev (py_slice a (a + bs) (all_token_ids r1)) ks"
    have "nat (num_tokens r1 - (a + bs)) < nat (num_tokens r1 - a)" using False bs by simp
    from less.hyps[OF this k(3), of "Some ?h" "acc @ [?h]"] obtain hs where hs: "hash_loop fn none bs r1 (a + bs) i' (Some ?h) (acc @ [?h]) = Some (Inr hs)"
      "hash_loop fn none bs r2 (a + bs) i' (Some ?h) (acc @ [?h]) = Some (Inr hs)"
      "int (length hs) = int (length (acc @ [?h])) + max 0 ((num_tokens r1 - (a + bs)) div bs)" by blast
    have "num_tokens r1 - a = (num_tokens r1 - (a + bs)) + bs" by simp
    then have "(num_tokens r1 - a) div bs = (num_tokens r1 - (a + bs)) div bs + 1" using bs by (simp only: div_add_self2)
    moreover have "0 \<le> (num_tokens r1 - (a + bs)) div bs" using False bs by (simp add: pos_imp_zdiv_nonneg_iff)
    ultimately have "int (length hs) = int (length acc) + max 0 ((num_tokens r1 - a) div bs)" using hs(3) by simp
    then show ?thesis using hs(1,2) k(1,2) False t by (subst (1 2) hash_loop.simps) simp
  qed
qed

text \<open>
  C39 (get_request_block_hasher, finding): when a block is hashed after the first ones (because generated tokens complete the last prompt
  block),
  the hasher restarts at the last multi-modal item (index -1) and leaves out the identifiers of
  the earlier items, of that block too. So two requests with equal tokens, equally many items and the same last item, whose hashes agree so far, get
  the same hashes for all blocks that are completed later, for every hash function and whatever their earlier items are.
\<close>

theorem mm_incremental_hash_collision:
  assumes "same_but_earlier_items r1 r2" "block_hashes r1 = block_hashes r2" "block_hashes r1 \<noteq> []" "0 < bs"
    "int (length (block_hashes r1)) * bs \<le> num_tokens r1"
  shows "\<exists>r1' r2'. append_output_token_ids (Some (request_block_hasher bs fn none)) ts r1 = Some (Inr r1') \<and>
    append_output_token_ids (Some (request_block_hasher bs fn none)) ts r2 = Some (Inr r2') \<and>
    length (block_hashes r1') = num_full_blocks bs r1' \<and> block_hashes r1' = block_hashes r2' \<and>
    mm_features r1' = mm_features r1 \<and> mm_features r2' = mm_features r2"
proof -
  let ?r1 = "r1\<lparr>output_token_ids := output_token_ids r1 @ ts, all_token_ids := all_token_ids r1 @ ts\<rparr>"
  let ?r2 = "r2\<lparr>output_token_ids := output_token_ids r2 @ ts, all_token_ids := all_token_ids r2 @ ts\<rparr>"
  let ?a = "int (length (block_hashes r1)) * bs"
  have s: "same_but_earlier_items ?r1 ?r2" using assms(1) by (auto simp: same_but_earlier_items_def)
  have a: "0 < ?a" using assms(3,4) by simp
  obtain hs where hs: "hash_loop fn none bs ?r1 ?a (-1) (Some (last (block_hashes r1))) [] = Some (Inr hs)"
    "hash_loop fn none bs ?r2 ?a (-1) (Some (last (block_hashes r1))) [] = Some (Inr hs)"
    "int (length hs) = max 0 ((num_tokens ?r1 - ?a) div bs)"
    using tail_hash_loop[OF s _ assms(4), of "-1" fn none ?a "Some (last (block_hashes r1))" "[]"] by auto
  have t: "num_tokens ?r2 = num_tokens ?r1" using assms(1) by (simp add: same_but_earlier_items_def num_tokens_def)
  have h: "request_block_hasher bs fn none ?r1 = Some (Inr hs)" "request_block_hasher bs fn none ?r2 = Some (Inr hs)"
    using hs t a assms(2,3) by (auto simp: request_block_hasher_def Let_def hash_loop.simps)
  have "?a \<le> num_tokens ?r1" using assms(5) by (simp add: num_tokens_def)
  then have "0 \<le> (num_tokens ?r1 - ?a) div bs" using assms(4) by (simp add: pos_imp_zdiv_nonneg_iff)
  moreover have "(num_tokens ?r1 - ?a) div bs = num_tokens ?r1 div bs - int (length (block_hashes r1))"
    using assms(4) div_mult_self1[of bs "num_tokens ?r1" "- int (length (block_hashes r1))"] by simp
  ultimately have "int (length (block_hashes r1)) + int (length hs) = num_tokens ?r1 div bs"
    using hs(3) by linarith
  then have "length (block_hashes r1 @ hs) = num_full_blocks bs ?r1" by (simp add: num_full_blocks_def)
  then show ?thesis using h assms(2) by (simp add: append_output_token_ids_def rehash_def num_full_blocks_def num_tokens_def)
qed

text \<open>
  Two prompts of seven tokens that differ in the first of the two images of their second block: the eighth token gives both the same hash for that
  block, although hashing the eight tokens from scratch uses different keys.
\<close>

theorem mm_incremental_hash_collision_witness:
  "\<exists>ra rb ra' rb'.
     Request_init 0 0 (engine_request ''a'' [1, 2, 3, 4, 5, 6, 7] (mm_pair ''cat''))
       (Some (request_block_hasher 4 toy_hash [])) = Some (Inr ra) \<and>
     Request_init 0 0 (engine_request ''b'' [1, 2, 3, 4, 5, 6, 7] (mm_pair ''dog''))
       (Some (request_block_hasher 4 toy_hash [])) = Some (Inr rb) \<and>
     append_output_token_ids (Some (request_block_hasher 4 toy_hash [])) [8] ra = Some (Inr ra') \<and>
     append_output_token_ids (Some (request_block_hasher 4 toy_hash [])) [8] rb = Some (Inr rb') \<and>
     block_hashes ra' = block_hashes rb' \<and> generate_block_hash_extra_keys ra 4 8 0 \<noteq> generate_block_hash_extra_keys rb 4 8 0"
proof -
  let ?ra = "(example_request ''a'' [1, 2, 3, 4, 5, 6, 7] (mm_pair ''cat''))\<lparr>block_hashes := [toy_hash ([], [1, 2, 3, 4], None)]\<rparr>"
  let ?rb = "(example_request ''b'' [1, 2, 3, 4, 5, 6, 7] (mm_pair ''dog''))\<lparr>block_hashes := [toy_hash ([], [1, 2, 3, 4], None)]\<rparr>"
  have "same_but_earlier_items ?ra ?rb" by (simp add: same_but_earlier_items_def mm_item_def)
  from mm_incremental_hash_collision[OF this, of 4 toy_hash "[]" "[8]"]
  obtain ra' rb' where "append_output_token_ids (Some (request_block_hasher 4 toy_hash [])) [8] ?ra = Some (Inr ra')"
    "append_output_token_ids (Some (request_block_hasher 4 toy_hash [])) [8] ?rb = Some (Inr rb')" "block_hashes ra' = block_hashes rb'"
    by (auto simp: num_tokens_def)
  moreover have "generate_block_hash_extra_keys ?ra 4 8 0 \<noteq> generate_block_hash_extra_keys ?rb 4 8 0" by (simp add: mm_pair_keys)
  ultimately show ?thesis unfolding Request_init_example mm_pair_first_block by blast
qed

text \<open>
  A finding on \<^verbatim>\<open>generate_block_hash_extra_keys\<close>: the extra keys are an untagged tuple, so a request for
  the LoRA adapter named \<open>s\<close> and a request for the base model with the cache salt \<open>s\<close> have the
  same extra keys for their first block, hence (with the same tokens) the same first block hash for
  every hash function.
\<close>

theorem lora_salt_key_collision:
  assumes "s \<noteq> []" "mm_features r = []" "prompt_embeds r = None"
  shows "generate_block_hash_extra_keys (r\<lparr>lora_request := Some \<lparr>lora_name = s, lora_int_id = n\<rparr>, cache_salt := None\<rparr>) 0 bs 0 =
    generate_block_hash_extra_keys (r\<lparr>lora_request := None, cache_salt := Some s\<rparr>) 0 bs 0"
  using assms by (simp add: generate_block_hash_extra_keys_def gen_mm_extra_hash_keys_def
      gen_lora_extra_hash_keys_def cache_salt_keys_def gen_prompt_embeds_extra_hash_keys_def Let_def)

theorem lora_salt_key_collision_witness:
  "generate_block_hash_extra_keys ((example_request ''r'' [1, 2] [])\<lparr>lora_request := Some \<lparr>lora_name = ''x'', lora_int_id = 1\<rparr>, cache_salt := None\<rparr>) 0 2 0 =
    generate_block_hash_extra_keys ((example_request ''r'' [1, 2] [])\<lparr>lora_request := None, cache_salt := Some ''x''\<rparr>) 0 2 0"
  by (rule lora_salt_key_collision) simp_all

end
