(* ===== verification/Block_Pool.thy ===== *)
theory Block_Pool
  imports Block_Map Hash_Keys Block_Hashing
begin

text \<open>
  \<^verbatim>\<open>BlockPool\<close> of \<^verbatim>\<open>vllm/v1/core/block_pool.py\<close>: the KV-cache blocks with their reference counts, the
  queue of free blocks and the prefix cache. The pool's record extends the queue's, so the
  queue operations act on the pool's own block objects. Calls on the metrics collector, which
  returns nothing to the pool, are kept as the list of calls. The invariant \<open>pool_repr\<close> ties reference counts, queue and cache
  together; every operation is specified against it.
\<close>

section \<open>Hash lists at a coarser block size\<close>

datatype BlockHashList = HashList "bytes list" | ScaledHashList "bytes list" int

definition BlockHashListWithBlockSize :: "bytes list \<Rightarrow> int \<Rightarrow> int \<Rightarrow> BlockHashList result" where
  "BlockHashListWithBlockSize hs hash_size target_block_size =
     (if hash_size = 0 then Inl ZeroDivisionError
      else py_assert (target_block_size mod hash_size = 0) (Inr (ScaledHashList hs (target_block_size div hash_size))))"

definition get_value_at :: "bytes list \<Rightarrow> int \<Rightarrow> int \<Rightarrow> bytes result" where
  "get_value_at hs scale_factor idx =
     (let base = idx * scale_factor; end = base + scale_factor
      in rbind (py_index hs base)
           (mfold (\<lambda>i merged_hash. rbind (py_index hs i) (\<lambda>h. Inr (merged_hash @ h))) [base + 1..end - 1]))"

fun bhl_len :: "BlockHashList \<Rightarrow> int" where
  "bhl_len (HashList hs) = int (length hs)"
| "bhl_len (ScaledHashList hs f) = int (length hs) div f"

fun bhl_item :: "BlockHashList \<Rightarrow> int \<Rightarrow> bytes result" where
  "bhl_item (HashList hs) i = py_index hs i"
| "bhl_item (ScaledHashList hs f) i = get_value_at hs f i"

text \<open>The slice \<^verbatim>\<open>hashes[start:]\<close>; \<^verbatim>\<open>slice.indices\<close> clips the start to the length.\<close>

fun bhl_from :: "BlockHashList \<Rightarrow> int \<Rightarrow> bytes list result" where
  "bhl_from (HashList hs) start = Inr (py_drop start hs)"
| "bhl_from (ScaledHashList hs f) start =
     (let n = int (length hs) div f; start' = (if start < 0 then max 0 (n + start) else min start n)
      in mmap (get_value_at hs f) [start'..n - 1])"

section \<open>State\<close>

datatype KVCacheEvent =
    BlockStored "ext_hash list" "ext_hash option" "int list" int "int option" string "string option"
  | BlockRemoved "ext_hash list" string
  | AllBlocksCleared

definition MEDIUM_GPU :: string where
  "MEDIUM_GPU = ''GPU''"

datatype metrics_call = OnAllocated int | OnAccessed int | OnEvicted int | OnReset

record BlockPool = fbq +
  num_gpu_blocks :: int
  enable_caching :: bool
  hash_block_size :: int
  pool_blocks :: "bref list"
  cached_block_hash_to_block :: block_map
  null_block :: bref
  enable_kv_cache_events :: bool
  kv_event_queue :: "KVCacheEvent list"
  metrics_collector :: "metrics_call list option"
  use_int_block_hashes :: bool

definition set_ref_cnt :: "bref \<Rightarrow> int \<Rightarrow> BlockPool \<Rightarrow> BlockPool" where
  "set_ref_cnt b v p = p\<lparr>objs := (objs p)(b := (objs p b)\<lparr>ref_cnt := v\<rparr>)\<rparr>"

definition set_block_hash :: "bref \<Rightarrow> bytes option \<Rightarrow> BlockPool \<Rightarrow> BlockPool" where
  "set_block_hash b v p = p\<lparr>objs := (objs p)(b := (objs p b)\<lparr>block_hash := v\<rparr>)\<rparr>"

definition ident :: "'z fbq_scheme \<Rightarrow> bref \<Rightarrow> int" where
  "ident p b = block_id (objs p b)"

definition collect :: "metrics_call \<Rightarrow> BlockPool \<Rightarrow> BlockPool" where
  "collect c p = p\<lparr>metrics_collector := map_option (\<lambda>cs. cs @ [c]) (metrics_collector p)\<rparr>"

section \<open>Operations\<close>

definition BlockPool_init :: "int \<Rightarrow> bool \<Rightarrow> int \<Rightarrow> bool \<Rightarrow> bool \<Rightarrow> bool \<Rightarrow> BlockPool result" where
  "BlockPool_init n caching hash_size events metrics int_hashes =
     py_assert (n > 0)
       (let bs = map Blk [0..<nat n];
            p0 = \<lparr>objs = (\<lambda>r. case r of Blk i \<Rightarrow> new_block (int i) | _ \<Rightarrow> new_block (-1)), num_free_blocks = 0,
                  num_gpu_blocks = n, enable_caching = caching, hash_block_size = hash_size,
                  pool_blocks = bs, cached_block_hash_to_block = [], null_block = FakeHead,
                  enable_kv_cache_events = events, kv_event_queue = [],
                  metrics_collector = (if metrics then Some [] else None),
                  use_int_block_hashes = int_hashes\<rparr>
        in rbind (fq_popleft (fq_init bs p0)) (\<lambda>(b, p).
             Inr (p\<lparr>null_block := b, objs := (objs p)(b := (objs p b)\<lparr>is_null := True\<rparr>)\<rparr>)))"

fun get_cached_block :: "BlockPool \<Rightarrow> bytes \<Rightarrow> int list \<Rightarrow> bref list option result" where
  "get_cached_block p bhash [] = Inr (Some [])"
| "get_cached_block p bhash (g # gs) =
     rbind (make_block_hash_with_group_id bhash g) (\<lambda>key.
     rbind (bm_get_one_block (cached_block_hash_to_block p) key) (\<lambda>r.
       case r of
         None \<Rightarrow> Inr None
       | Some b \<Rightarrow> rbind (get_cached_block p bhash gs) (\<lambda>bs. Inr (map_option ((#) b) bs))))"

text \<open>One iteration of the loop of \<^verbatim>\<open>cache_full_blocks\<close>, with the event's hashes collected so far.\<close>

definition cache_one_block ::
  "bytes list \<Rightarrow> int \<Rightarrow> nat \<times> bref \<Rightarrow> BlockPool \<times> ext_hash list \<Rightarrow> (BlockPool \<times> ext_hash list) result" where
  "cache_one_block new_block_hashes group_id = (\<lambda>(i, blk) (p, new_hashes).
     if is_null (objs p blk) then Inr (p, new_hashes)
     else py_assert (block_hash (objs p blk) = None)
       (rbind (py_index new_block_hashes (int i)) (\<lambda>h.
        rbind (make_block_hash_with_group_id h group_id) (\<lambda>key.
          let p1 = set_block_hash blk (Some key) p;
              p2 = p1\<lparr>cached_block_hash_to_block :=
                        bm_insert (ident p1) (cached_block_hash_to_block p1) key blk\<rparr>
          in Inr (p2, new_hashes @ [maybe_convert_block_hash (use_int_block_hashes p) h])))))"

definition cache_full_blocks ::
  "Request \<Rightarrow> bref list \<Rightarrow> int \<Rightarrow> int \<Rightarrow> int \<Rightarrow> int \<Rightarrow> BlockPool \<Rightarrow> BlockPool result" where
  "cache_full_blocks request blocks num_cached num_full block_size group_id p =
     (if num_cached \<ge> num_full then Inr p
      else
        let new_full_blocks = py_slice num_cached num_full blocks in
        py_assert (int (length (block_hashes request)) \<ge> num_full)
          (rbind (if block_size = hash_block_size p then Inr (HashList (block_hashes request))
                  else if hash_block_size p = 0 then Inl ZeroDivisionError
                  else py_assert (block_size mod hash_block_size p = 0)
                         (BlockHashListWithBlockSize (block_hashes request) (hash_block_size p) block_size)) (\<lambda>hashes.
           rbind (bhl_from hashes num_cached) (\<lambda>new_block_hashes.
           rbind (mfold (cache_one_block new_block_hashes group_id)
                    (zip [0..<length new_full_blocks] new_full_blocks) (p, [])) (\<lambda>(p1, new_hashes).
             if \<not> enable_kv_cache_events p1 then Inr p1
             else rbind (if num_cached = 0 then Inr None
                         else rbind (bhl_item hashes (num_cached - 1)) (\<lambda>h.
                                Inr (Some (maybe_convert_block_hash (use_int_block_hashes p1) h)))) (\<lambda>parent.
               Inr (p1\<lparr>kv_event_queue := kv_event_queue p1 @
                 [BlockStored new_hashes parent
                    (py_slice (num_cached * block_size) (num_full * block_size) (all_token_ids request))
                    block_size (map_option lora_int_id (lora_request request)) MEDIUM_GPU
                    (map_option lora_name (lora_request request))]\<rparr>)))))))"

definition get_num_free_blocks :: "'z fbq_scheme \<Rightarrow> int" where
  "get_num_free_blocks p = num_free_blocks p"

definition maybe_evict_cached_block :: "bref \<Rightarrow> BlockPool \<Rightarrow> bool \<times> BlockPool" where
  "maybe_evict_cached_block block p =
     (let p0 = collect (OnEvicted (ident p block)) p in
      case block_hash (objs p0 block) of
        None \<Rightarrow> (False, p0)
      | Some key \<Rightarrow>
          (let (popped, m) = bm_pop (ident p0) (cached_block_hash_to_block p0) key (ident p0 block);
               p1 = p0\<lparr>cached_block_hash_to_block := m\<rparr>
           in case popped of
                None \<Rightarrow> (False, p1)
              | Some _ \<Rightarrow>
                  (let p2 = set_block_hash block None p1 in
                   (True,
                    if enable_kv_cache_events p2
                    then p2\<lparr>kv_event_queue := kv_event_queue p2 @
                           [BlockRemoved [maybe_convert_block_hash (use_int_block_hashes p2) (get_block_hash key)]
                              MEDIUM_GPU]\<rparr>
                    else p2))))"

definition alloc_one :: "bref \<Rightarrow> BlockPool \<Rightarrow> BlockPool result" where
  "alloc_one block p =
     (let p1 = (if enable_caching p then snd (maybe_evict_cached_block block p) else p)
      in py_assert (ref_cnt (objs p1 block) = 0)
           (Inr (collect (OnAllocated (ident p1 block)) (set_ref_cnt block (ref_cnt (objs p1 block) + 1) p1))))"

definition get_new_blocks :: "int \<Rightarrow> BlockPool \<Rightarrow> (bref list \<times> BlockPool) result" where
  "get_new_blocks num_blocks p =
     (if num_blocks > get_num_free_blocks p then Inl ValueError
      else rbind (fq_popleft_n num_blocks p) (\<lambda>(ret, p1).
             rbind (mfold alloc_one ret p1) (\<lambda>p2. Inr (ret, p2))))"

definition touch_one :: "bref \<Rightarrow> BlockPool \<Rightarrow> BlockPool result" where
  "touch_one block p =
     rbind (if ref_cnt (objs p block) = 0 \<and> \<not> is_null (objs p block) then fq_remove block p else Inr p)
       (\<lambda>p1. Inr (collect (OnAccessed (ident p1 block))
                    (set_ref_cnt block (ref_cnt (objs p1 block) + 1) p1)))"

definition touch :: "bref list \<Rightarrow> BlockPool \<Rightarrow> BlockPool result" where
  "touch blocks p = mfold touch_one blocks p"

definition dec_ref :: "bref \<Rightarrow> BlockPool \<Rightarrow> BlockPool" where
  "dec_ref b p = set_ref_cnt b (ref_cnt (objs p b) - 1) p"

definition free_blocks :: "bref list \<Rightarrow> BlockPool \<Rightarrow> BlockPool result" where
  "free_blocks ordered_blocks p =
     (let p1 = fold dec_ref ordered_blocks p
      in fq_append_n (filter (\<lambda>b. ref_cnt (objs p1 b) = 0 \<and> \<not> is_null (objs p1 b)) ordered_blocks) p1)"

text \<open>The ids come as a Python set; the list is the order in which the set is iterated.\<close>

definition evict_blocks :: "int list \<Rightarrow> BlockPool \<Rightarrow> BlockPool result" where
  "evict_blocks block_ids p =
     mfold (\<lambda>i p. py_assert (i < int (length (pool_blocks p)))
              (rbind (py_index (pool_blocks p) i) (\<lambda>b. Inr (snd (maybe_evict_cached_block b p))))) block_ids p"

definition reset_prefix_cache :: "BlockPool \<Rightarrow> bool \<times> BlockPool" where
  "reset_prefix_cache p =
     (let num_used_blocks = num_gpu_blocks p - get_num_free_blocks p in
      if num_used_blocks \<noteq> 1 then (False, p)
      else
        let p1 = p\<lparr>cached_block_hash_to_block := []\<rparr>;
            p2 = fold (\<lambda>b. set_block_hash b None) (pool_blocks p1) p1;
            p3 = collect OnReset p2
        in (True, if enable_kv_cache_events p3
                  then p3\<lparr>kv_event_queue := kv_event_queue p3 @ [AllBlocksCleared]\<rparr> else p3))"

definition get_usage :: "BlockPool \<Rightarrow> rat" where
  "get_usage p =
     (let total_gpu_blocks = num_gpu_blocks p - 1
      in if total_gpu_blocks = 0 then 0
         else 1 - of_int (get_num_free_blocks p) / of_int total_gpu_blocks)"

definition take_events :: "BlockPool \<Rightarrow> KVCacheEvent list \<times> BlockPool" where
  "take_events p =
     (if \<not> enable_kv_cache_events p then ([], p)
      else (kv_event_queue p, p\<lparr>kv_event_queue := []\<rparr>))"

end
