(* ===== verification/KV_Managers.thy ===== *)
theory KV_Managers
  imports KV_Specs Block_Pool
begin

text \<open>
  \<^verbatim>\<open>vllm/v1/core/single_type_kv_cache_manager.py\<close>: one manager per KV-cache group, which keeps the block
  table of every request. The class hierarchy is a field \<open>mgr_class\<close>; an operation that a
  subclass overrides dispatches on it. The shared block pool is passed and returned. A lookup
  in the \<^verbatim>\<open>defaultdict\<close> of block tables inserts an empty table (\<open>dd_list\<close>), as in Python.
\<close>

section \<open>State\<close>

datatype manager_class =
    FullAttentionManager | SlidingWindowManager | ChunkedLocalAttentionManager
  | MambaManager | CrossAttentionManager | SinkFullAttentionManager

record SingleTypeKVCacheManager =
  mgr_class :: manager_class
  block_size :: int
  kv_cache_spec :: KVCacheSpec
  mgr_enable_caching :: bool
  req_to_blocks :: "(string, bref list) dict"
  num_cached_block :: "(string, int) dict"
  kv_cache_group_id :: int
  mgr_null_block :: bref
  sliding_window :: int
  attention_chunk_size :: int
  mgr_mamba_cache_mode :: string
  num_speculative_blocks :: int
  last_state_block_idx :: "(string, int) dict"
  allocated_block_reqs :: "string list"
  sink_blocks :: "bref list"

fun spec_manager_map :: "KVCacheSpec \<Rightarrow> manager_class result" where
  "spec_manager_map (FullAttentionSpec a f) = Inr FullAttentionManager"
| "spec_manager_map (MLAAttentionSpec a f c) = Inr FullAttentionManager"
| "spec_manager_map (SlidingWindowSpec a w) = Inr SlidingWindowManager"
| "spec_manager_map (ChunkedLocalAttentionSpec a c) = Inr ChunkedLocalAttentionManager"
| "spec_manager_map (MambaSpec m) = Inr MambaManager"
| "spec_manager_map (CrossAttentionSpec a) = Inr CrossAttentionManager"
| "spec_manager_map (SinkFullAttentionSpec a f s) = Inr SinkFullAttentionManager"
| "spec_manager_map _ = Inl KeyError"

definition stm_base_init ::
  "manager_class \<Rightarrow> KVCacheSpec \<Rightarrow> BlockPool \<Rightarrow> bool \<Rightarrow> int \<Rightarrow> int \<Rightarrow> int \<Rightarrow> SingleTypeKVCacheManager" where
  "stm_base_init cls spec p caching group_id dcp pcp =
     \<lparr>mgr_class = cls,
      block_size = (if dcp * pcp > 1 then spec_block_size spec * (dcp * pcp) else spec_block_size spec),
      kv_cache_spec = spec, mgr_enable_caching = caching, req_to_blocks = [], num_cached_block = [],
      kv_cache_group_id = group_id, mgr_null_block = null_block p,
      sliding_window = (case spec of SlidingWindowSpec _ w \<Rightarrow> w | _ \<Rightarrow> 0),
      attention_chunk_size = (case spec of ChunkedLocalAttentionSpec _ c \<Rightarrow> c | _ \<Rightarrow> 0),
      mgr_mamba_cache_mode = (case spec of MambaSpec m \<Rightarrow> m_mamba_cache_mode m | _ \<Rightarrow> ''''),
      num_speculative_blocks = (case spec of MambaSpec m \<Rightarrow> m_num_speculative_blocks m | _ \<Rightarrow> 0),
      last_state_block_idx = [], allocated_block_reqs = [], sink_blocks = []\<rparr>"

text \<open>The attention-sink manager also takes its blocks out of the free queue for good.\<close>

definition sink_init ::
  "SingleTypeKVCacheManager \<Rightarrow> int option \<Rightarrow> BlockPool \<Rightarrow> (SingleTypeKVCacheManager \<times> BlockPool) result" where
  "sink_init m sink_len p =
     (case sink_len of
        None \<Rightarrow> Inl AssertionError
      | Some n \<Rightarrow>
          py_assert (n > 0 \<and> n mod block_size m = 0)
            (rbind (fq_popleft_n (n div block_size m) p) (\<lambda>(bs, p'). Inr (m\<lparr>sink_blocks := bs\<rparr>, p'))))"

definition get_manager_for_kv_cache_spec ::
  "KVCacheSpec \<Rightarrow> BlockPool \<Rightarrow> bool \<Rightarrow> int \<Rightarrow> int \<Rightarrow> int \<Rightarrow> (SingleTypeKVCacheManager \<times> BlockPool) result" where
  "get_manager_for_kv_cache_spec spec p caching group_id dcp pcp =
     rbind (spec_manager_map spec) (\<lambda>cls.
       let m = stm_base_init cls spec p caching group_id dcp pcp
       in case spec of SinkFullAttentionSpec _ _ sink_len \<Rightarrow> sink_init m sink_len p | _ \<Rightarrow> Inr (m, p))"

definition dd_list :: "string \<Rightarrow> (string, bref list) dict \<Rightarrow> bref list" where
  "dd_list rid d = (case map_of d rid of None \<Rightarrow> [] | Some bs \<Rightarrow> bs)"

definition set_req_blocks :: "string \<Rightarrow> bref list \<Rightarrow> SingleTypeKVCacheManager \<Rightarrow> SingleTypeKVCacheManager" where
  "set_req_blocks rid bs m = m\<lparr>req_to_blocks := AList.update rid bs (req_to_blocks m)\<rparr>"

section \<open>Counting and allocating\<close>

definition get_num_skipped_tokens :: "SingleTypeKVCacheManager \<Rightarrow> int \<Rightarrow> int" where
  "get_num_skipped_tokens m n_computed =
     (case mgr_class m of
        SlidingWindowManager \<Rightarrow> max 0 (n_computed - sliding_window m + 1)
      | ChunkedLocalAttentionManager \<Rightarrow>
          n_computed div attention_chunk_size m * attention_chunk_size m
      | MambaManager \<Rightarrow> n_computed - 1
      | _ \<Rightarrow> 0)"

definition get_num_evictable_blocks :: "BlockPool \<Rightarrow> bref list \<Rightarrow> int" where
  "get_num_evictable_blocks p blocks =
     int (length (filter (\<lambda>b. ref_cnt (objs p b) = 0 \<and> \<not> is_null (objs p b)) blocks))"

definition base_num_blocks_to_allocate ::
  "SingleTypeKVCacheManager \<Rightarrow> BlockPool \<Rightarrow> string \<Rightarrow> int \<Rightarrow> bref list \<Rightarrow> int \<Rightarrow> int result" where
  "base_num_blocks_to_allocate m p rid n_tokens new_computed_blocks total_computed_tokens =
     (let num_required_blocks = cdiv n_tokens (block_size m);
          num_req_blocks = int (length (dd_list rid (req_to_blocks m)))
      in if map_of (num_cached_block m) rid \<noteq> None
         then py_assert (new_computed_blocks = []) (Inr (max (num_required_blocks - num_req_blocks) 0))
         else
           let num_skipped_tokens = get_num_skipped_tokens m total_computed_tokens;
               num_local_computed_blocks = int (length new_computed_blocks) + num_req_blocks;
               num_skipped_blocks = num_skipped_tokens div block_size m;
               num_new_blocks = max (num_required_blocks - max num_skipped_blocks num_local_computed_blocks) 0;
               num_skipped_new_computed_blocks = max 0 (num_skipped_blocks - num_req_blocks);
               num_evictable_blocks =
                 get_num_evictable_blocks p (py_drop num_skipped_new_computed_blocks new_computed_blocks)
           in Inr (num_new_blocks + num_evictable_blocks))"

definition mamba_num_blocks_to_allocate ::
  "SingleTypeKVCacheManager \<Rightarrow> BlockPool \<Rightarrow> string \<Rightarrow> int \<Rightarrow> bref list \<Rightarrow> int \<Rightarrow> int \<Rightarrow>
   (int \<times> SingleTypeKVCacheManager) result" where
  "mamba_num_blocks_to_allocate m p rid n_tokens new_computed_blocks total_computed_tokens num_tokens_main_model =
     (if mgr_mamba_cache_mode m \<noteq> ''align''
      then rbind (base_num_blocks_to_allocate m p rid
                    (if num_speculative_blocks m > 0
                     then n_tokens + spec_block_size (kv_cache_spec m) * num_speculative_blocks m
                     else n_tokens) new_computed_blocks total_computed_tokens)
             (\<lambda>n. Inr (n, m))
      else
        let num_required_blocks = cdiv num_tokens_main_model (block_size m) + num_speculative_blocks m;
            req_blocks = dd_list rid (req_to_blocks m);
            num_new_blocks0 = num_required_blocks - int (length new_computed_blocks) - int (length req_blocks);
            num_new_blocks =
              (if num_new_blocks0 > 0
               then (if rid \<in> set (allocated_block_reqs m) then 1 else 1 + num_speculative_blocks m)
               else num_new_blocks0)
        in Inr (num_new_blocks + get_num_evictable_blocks p new_computed_blocks,
                set_req_blocks rid req_blocks m))"

definition stm_num_blocks_to_allocate ::
  "SingleTypeKVCacheManager \<Rightarrow> BlockPool \<Rightarrow> string \<Rightarrow> int \<Rightarrow> bref list \<Rightarrow> int \<Rightarrow> int \<Rightarrow>
   (int \<times> SingleTypeKVCacheManager) result" where
  "stm_num_blocks_to_allocate m p rid n_tokens new_computed_blocks total_computed_tokens num_tokens_main_model =
     (if mgr_class m = MambaManager
      then mamba_num_blocks_to_allocate m p rid n_tokens new_computed_blocks total_computed_tokens num_tokens_main_model
      else rbind (base_num_blocks_to_allocate m p rid n_tokens new_computed_blocks total_computed_tokens)
             (\<lambda>n. Inr (n, m)))"

definition base_allocate_new_computed_blocks ::
  "SingleTypeKVCacheManager \<Rightarrow> BlockPool \<Rightarrow> string \<Rightarrow> bref list \<Rightarrow> int \<Rightarrow> int \<Rightarrow>
   (SingleTypeKVCacheManager \<times> BlockPool) result" where
  "base_allocate_new_computed_blocks m p rid new_computed_blocks num_local num_external =
     (if map_of (num_cached_block m) rid \<noteq> None
      then py_assert (new_computed_blocks = []) (Inr (m, p))
      else
        let req_blocks = dd_list rid (req_to_blocks m) in
        py_assert (length req_blocks = 0)
          (let num_total = num_local + num_external;
               num_skipped_tokens = get_num_skipped_tokens m num_total;
               num_skipped_blocks = num_skipped_tokens div block_size m;
               computed = (if num_skipped_blocks > 0 then py_drop num_skipped_blocks new_computed_blocks
                           else new_computed_blocks);
               external = (if num_skipped_blocks > 0 then min (num_total - num_skipped_tokens) num_external
                           else num_external)
           in rbind (if mgr_enable_caching m then touch computed p else py_assert (computed = []) (Inr p)) (\<lambda>p1.
              let req_blocks1 = req_blocks @ replicate (nat num_skipped_blocks) (mgr_null_block m) @ computed;
                  m1 = (set_req_blocks rid req_blocks1 m)
                         \<lparr>num_cached_block := AList.update rid (int (length req_blocks1)) (num_cached_block m)\<rparr>
              in if external > 0
                 then rbind (get_new_blocks (cdiv num_total (block_size m) - int (length req_blocks1)) p1) (\<lambda>(bs, p2).
                        Inr (set_req_blocks rid (req_blocks1 @ bs) m1, p2))
                 else Inr (m1, p1))))"

definition stm_allocate_new_computed_blocks ::
  "SingleTypeKVCacheManager \<Rightarrow> BlockPool \<Rightarrow> string \<Rightarrow> bref list \<Rightarrow> int \<Rightarrow> int \<Rightarrow>
   (SingleTypeKVCacheManager \<times> BlockPool) result" where
  "stm_allocate_new_computed_blocks m p rid new_computed_blocks num_local num_external =
     (if mgr_class m = CrossAttentionManager then py_assert (new_computed_blocks = []) (Inr (m, p))
      else base_allocate_new_computed_blocks m p rid new_computed_blocks num_local num_external)"

definition base_allocate_new_blocks ::
  "SingleTypeKVCacheManager \<Rightarrow> BlockPool \<Rightarrow> string \<Rightarrow> int \<Rightarrow>
   (bref list \<times> SingleTypeKVCacheManager \<times> BlockPool) result" where
  "base_allocate_new_blocks m p rid n_tokens =
     (let req_blocks = dd_list rid (req_to_blocks m);
          num_new_blocks = cdiv n_tokens (block_size m) - int (length req_blocks)
      in if num_new_blocks \<le> 0 then Inr ([], set_req_blocks rid req_blocks m, p)
         else rbind (get_new_blocks num_new_blocks p) (\<lambda>(bs, p'). Inr (bs, set_req_blocks rid (req_blocks @ bs) m, p')))"

text \<open>Item assignment \<^verbatim>\<open>xs[i] = v\<close>, with negative indices from the end.\<close>

definition py_set :: "'a list \<Rightarrow> int \<Rightarrow> 'a \<Rightarrow> 'a list result" where
  "py_set xs i v =
     (if 0 \<le> i \<and> nat i < length xs then Inr (xs[nat i := v])
      else if i < 0 \<and> nat (- i) \<le> length xs then Inr (xs[length xs - nat (- i) := v])
      else Inl IndexError)"

text \<open>Mamba in mode \<^verbatim>\<open>align\<close>: move the previous speculative blocks to the end of the table.\<close>

fun reuse_loop :: "bref \<Rightarrow> int \<Rightarrow> int list \<Rightarrow> bref list \<Rightarrow> bref list result" where
  "reuse_loop null num_skipped [] bs = Inr bs"
| "reuse_loop null num_skipped (i # is) bs =
     (if i < num_skipped
      then rbind (py_index bs i) (\<lambda>b. rbind (py_set (bs @ [b]) i null) (reuse_loop null num_skipped is))
      else Inr bs)"

definition mamba_allocate_new_blocks ::
  "SingleTypeKVCacheManager \<Rightarrow> BlockPool \<Rightarrow> string \<Rightarrow> int \<Rightarrow> int \<Rightarrow>
   (bref list \<times> SingleTypeKVCacheManager \<times> BlockPool) result" where
  "mamba_allocate_new_blocks m p rid n_tokens num_tokens_main_model =
     (if mgr_mamba_cache_mode m \<noteq> ''align''
      then base_allocate_new_blocks m p rid
             (if num_speculative_blocks m > 0 then n_tokens + block_size m * num_speculative_blocks m else n_tokens)
      else
        let spec = num_speculative_blocks m;
            req_blocks = dd_list rid (req_to_blocks m);
            m0 = set_req_blocks rid req_blocks m;
            num_required_blocks = cdiv num_tokens_main_model (block_size m) + spec;
            prev_block_len = int (length req_blocks)
        in if num_required_blocks = prev_block_len then Inr ([], m0, p)
           else py_assert (num_required_blocks > prev_block_len)
             (let blocks_allocated = rid \<in> set (allocated_block_reqs m);
                  m1 = (if blocks_allocated
                        then m0\<lparr>last_state_block_idx :=
                               AList.update rid (prev_block_len - 1 - spec) (last_state_block_idx m0)\<rparr>
                        else if prev_block_len > 0
                        then m0\<lparr>last_state_block_idx := AList.update rid (prev_block_len - 1) (last_state_block_idx m0)\<rparr>
                        else m0);
                  num_skipped_blocks = num_required_blocks - spec - 1;
                  padded = req_blocks @ replicate (nat (num_skipped_blocks - prev_block_len)) (mgr_null_block m)
              in rbind (if blocks_allocated
                        then reuse_loop (mgr_null_block m) num_skipped_blocks
                               [prev_block_len - spec..prev_block_len - 1] padded
                        else Inr padded) (\<lambda>moved.
                 let num_new_blocks = num_required_blocks - int (length moved) in
                 py_assert (if blocks_allocated then num_new_blocks \<le> 1 else num_new_blocks \<le> spec + 1)
                   (rbind (get_new_blocks num_new_blocks p) (\<lambda>(bs, p').
                      let all_blocks = moved @ bs;
                          m2 = (set_req_blocks rid all_blocks m1)
                                 \<lparr>allocated_block_reqs := List.insert rid (allocated_block_reqs m1)\<rparr>
                      in Inr (py_drop prev_block_len all_blocks, m2, p'))))))"

definition stm_allocate_new_blocks ::
  "SingleTypeKVCacheManager \<Rightarrow> BlockPool \<Rightarrow> string \<Rightarrow> int \<Rightarrow> int \<Rightarrow>
   (bref list \<times> SingleTypeKVCacheManager \<times> BlockPool) result" where
  "stm_allocate_new_blocks m p rid n_tokens num_tokens_main_model =
     (if mgr_class m = MambaManager then mamba_allocate_new_blocks m p rid n_tokens num_tokens_main_model
      else base_allocate_new_blocks m p rid n_tokens)"

section \<open>Caching and freeing\<close>

definition stm_cache_blocks ::
  "SingleTypeKVCacheManager \<Rightarrow> BlockPool \<Rightarrow> Request \<Rightarrow> int \<Rightarrow> (SingleTypeKVCacheManager \<times> BlockPool) result" where
  "stm_cache_blocks m p request n_tokens =
     (if mgr_class m = CrossAttentionManager then Inl ValueError
      else
        let rid = request_id request;
            num_cached_blocks = (case map_of (num_cached_block m) rid of None \<Rightarrow> 0 | Some n \<Rightarrow> n);
            num_full_blocks = n_tokens div block_size m
        in if num_cached_blocks \<ge> num_full_blocks then Inr (m, p)
           else
             let blocks = dd_list rid (req_to_blocks m)
             in rbind (cache_full_blocks request blocks num_cached_blocks num_full_blocks (block_size m)
                         (kv_cache_group_id m) p) (\<lambda>p'.
                  Inr ((set_req_blocks rid blocks m)
                         \<lparr>num_cached_block := AList.update rid num_full_blocks (num_cached_block m)\<rparr>, p')))"

definition stm_free ::
  "SingleTypeKVCacheManager \<Rightarrow> BlockPool \<Rightarrow> string \<Rightarrow> (SingleTypeKVCacheManager \<times> BlockPool) result" where
  "stm_free m p rid =
     (let m0 = (if mgr_class m = MambaManager \<and> mgr_mamba_cache_mode m = ''align''
                then m\<lparr>allocated_block_reqs := filter (\<lambda>r. r \<noteq> rid) (allocated_block_reqs m),
                       last_state_block_idx := AList.delete rid (last_state_block_idx m)\<rparr>
                else m);
          req_blocks = dd_list rid (req_to_blocks m0)
      in rbind (free_blocks (rev req_blocks) p) (\<lambda>p'.
           Inr (m0\<lparr>req_to_blocks := AList.delete rid (req_to_blocks m0),
                   num_cached_block := AList.delete rid (num_cached_block m0)\<rparr>, p')))"

text \<open>The loop of \<^verbatim>\<open>remove_skipped_blocks\<close>, from index \<open>k - 1\<close> down to 0: blocks removed and the new table.\<close>

fun skip_loop :: "bref \<Rightarrow> nat \<Rightarrow> bref list \<Rightarrow> bref list \<times> bref list" where
  "skip_loop null 0 blocks = ([], blocks)"
| "skip_loop null (Suc i) blocks =
     (if blocks ! i = null then ([], blocks)
      else let (removed, blocks') = skip_loop null i (blocks[i := null]) in (blocks ! i # removed, blocks'))"

definition base_remove_skipped_blocks ::
  "SingleTypeKVCacheManager \<Rightarrow> BlockPool \<Rightarrow> string \<Rightarrow> int \<Rightarrow> (SingleTypeKVCacheManager \<times> BlockPool) result" where
  "base_remove_skipped_blocks m p rid total_computed_tokens =
     (let num_skipped_tokens = get_num_skipped_tokens m total_computed_tokens in
      if num_skipped_tokens \<le> 0 then Inr (m, p)
      else
        let blocks = dd_list rid (req_to_blocks m);
            num_skipped_blocks = min (num_skipped_tokens div block_size m) (int (length blocks));
            (removed, blocks') = skip_loop (mgr_null_block m) (nat num_skipped_blocks) blocks
        in rbind (free_blocks removed p) (\<lambda>p'. Inr (set_req_blocks rid blocks' m, p')))"

definition mamba_remove_last_state ::
  "SingleTypeKVCacheManager \<Rightarrow> BlockPool \<Rightarrow> string \<Rightarrow> int \<Rightarrow> (SingleTypeKVCacheManager \<times> BlockPool) result" where
  "mamba_remove_last_state m p rid n_computed =
     (case map_of (last_state_block_idx m) rid of
        None \<Rightarrow> Inr (m, p)
      | Some idx \<Rightarrow>
          if idx < cdiv n_computed (block_size m) - 1
          then (let blocks = dd_list rid (req_to_blocks m); m0 = set_req_blocks rid blocks m in
                rbind (py_index blocks idx) (\<lambda>b.
                  if b \<noteq> mgr_null_block m
                  then rbind (free_blocks [b] p) (\<lambda>p'.
                       rbind (py_set blocks idx (mgr_null_block m)) (\<lambda>blocks'. Inr (set_req_blocks rid blocks' m0, p')))
                  else Inr (m0, p)))
          else Inr (m, p))"

definition stm_remove_skipped_blocks ::
  "SingleTypeKVCacheManager \<Rightarrow> BlockPool \<Rightarrow> string \<Rightarrow> int \<Rightarrow> (SingleTypeKVCacheManager \<times> BlockPool) result" where
  "stm_remove_skipped_blocks m p rid total_computed_tokens =
     rbind (base_remove_skipped_blocks m p rid total_computed_tokens) (\<lambda>(m1, p1).
       if mgr_class m = MambaManager \<and> mgr_mamba_cache_mode m = ''align''
       then mamba_remove_last_state m1 p1 rid total_computed_tokens
       else Inr (m1, p1))"

definition stm_num_common_prefix_blocks ::
  "SingleTypeKVCacheManager \<Rightarrow> BlockPool \<Rightarrow> string \<Rightarrow> int \<times> SingleTypeKVCacheManager" where
  "stm_num_common_prefix_blocks m p rid =
     (if mgr_class m \<in> {FullAttentionManager, SinkFullAttentionManager}
      then let blocks = dd_list rid (req_to_blocks m); m' = set_req_blocks rid blocks m
           in (int (length (takeWhile (\<lambda>b. ref_cnt (objs p b) = int (length (req_to_blocks m'))) blocks)), m')
      else (0, m))"

section \<open>Prefix-cache hits\<close>

definition append_each :: "bref list list \<Rightarrow> bref list \<Rightarrow> bref list list" where
  "append_each computed cached = map2 (\<lambda>c b. c @ [b]) computed cached"

function pop_to_alignment :: "int \<Rightarrow> int \<Rightarrow> bref list list \<Rightarrow> bref list list" where
  "pop_to_alignment bsize alignment [] = []"
| "pop_to_alignment bsize alignment (c # cs) =
     (if bsize \<noteq> alignment \<and> int (length c) * bsize mod alignment \<noteq> 0
      then pop_to_alignment bsize alignment (map butlast (c # cs)) else c # cs)"
  by pat_completeness auto
termination
proof (relation "measure (\<lambda>(b, a, cs). length (hd cs))", goal_cases)
  case (2 bsize alignment c cs)
  then show ?case by (cases c) auto
qed simp

text \<open>Full attention: left to right until the first miss.\<close>

fun full_hit_loop :: "BlockPool \<Rightarrow> BlockHashList \<Rightarrow> int list \<Rightarrow> int list \<Rightarrow> bref list list \<Rightarrow> bref list list result" where
  "full_hit_loop p hashes gids [] computed = Inr computed"
| "full_hit_loop p hashes gids (i # is) computed =
     rbind (bhl_item hashes i) (\<lambda>h.
     rbind (get_cached_block p h gids) (\<lambda>r.
       case r of
         Some (b # bs) \<Rightarrow> full_hit_loop p hashes gids is (append_each computed (b # bs))
       | _ \<Rightarrow> Inr computed))"

definition full_find_longest_cache_hit ::
  "BlockHashList \<Rightarrow> int \<Rightarrow> int list \<Rightarrow> BlockPool \<Rightarrow> KVCacheSpec \<Rightarrow> bool \<Rightarrow> int \<Rightarrow> int \<Rightarrow> int \<Rightarrow> bref list list result" where
  "full_find_longest_cache_hit hashes max_length gids p spec use_eagle alignment dcp pcp =
     py_assert (is_full_attention spec \<or> (case spec of ChunkedLocalAttentionSpec _ _ \<Rightarrow> True | _ \<Rightarrow> False))
       (let bsize = (if dcp * pcp > 1 then spec_block_size spec * (dcp * pcp) else spec_block_size spec);
            max_num_blocks = max_length div bsize
        in if max_num_blocks < 0 then Inl ValueError
           else rbind (full_hit_loop p hashes gids [0..min max_num_blocks (bhl_len hashes) - 1]
                         (replicate (length gids) [])) (\<lambda>computed.
                rbind (py_index computed 0) (\<lambda>c0.
                  Inr (pop_to_alignment bsize alignment
                         (if use_eagle \<and> c0 \<noteq> [] then map butlast computed else computed)))))"

text \<open>Sliding window: right to left until enough contiguous hits; \<open>k\<close> is the number of positions left.\<close>

fun sliding_loop ::
  "BlockPool \<Rightarrow> BlockHashList \<Rightarrow> int list \<Rightarrow> int \<Rightarrow> int \<Rightarrow> int \<Rightarrow> nat \<Rightarrow> bref list list \<Rightarrow> nat \<Rightarrow>
   (bref list list \<times> nat \<times> bool) result" where
  "sliding_loop p hashes gids needed bsize alignment 0 computed contiguous = Inr (computed, contiguous, False)"
| "sliding_loop p hashes gids needed bsize alignment (Suc i) computed contiguous =
     rbind (bhl_item hashes (int i)) (\<lambda>h.
     rbind (get_cached_block p h gids) (\<lambda>r.
       case r of
         Some (b # bs) \<Rightarrow>
           if contiguous = 0 \<and> bsize \<noteq> alignment \<and> (int i + 1) * bsize mod alignment \<noteq> 0
           then sliding_loop p hashes gids needed bsize alignment i computed contiguous
           else
             let computed' = map2 (\<lambda>c x. c[i := x]) computed (b # bs)
             in if int (contiguous + 1) \<ge> needed
                then Inr (map (take (i + (contiguous + 1))) computed', contiguous + 1, True)
                else sliding_loop p hashes gids needed bsize alignment i computed' (contiguous + 1)
       | _ \<Rightarrow> sliding_loop p hashes gids needed bsize alignment i computed 0))"

definition sliding_find_longest_cache_hit ::
  "BlockHashList \<Rightarrow> int \<Rightarrow> int list \<Rightarrow> BlockPool \<Rightarrow> KVCacheSpec \<Rightarrow> bool \<Rightarrow> int \<Rightarrow> int \<Rightarrow> int \<Rightarrow> bref list list result" where
  "sliding_find_longest_cache_hit hashes max_length gids p spec use_eagle alignment dcp pcp =
     (case spec of
        SlidingWindowSpec a window \<Rightarrow>
          py_assert (dcp = 1 \<and> pcp = 1)
            (let bsize = a_block_size a;
                 needed = cdiv (window - 1) bsize + (if use_eagle then 1 else 0);
                 max_num_blocks = nat (max_length div bsize)
             in rbind (sliding_loop p hashes gids needed bsize alignment max_num_blocks
                         (replicate (length gids) (replicate max_num_blocks (null_block p))) 0)
                  (\<lambda>(computed, contiguous, match_found).
                     let computed1 = (if match_found then computed
                                      else pop_to_alignment bsize alignment (map (take contiguous) computed))
                     in rbind (py_index computed1 0) (\<lambda>c0.
                          if use_eagle \<and> c0 \<noteq> []
                          then py_assert (bsize = alignment) (Inr (map butlast computed1))
                          else Inr computed1)))
      | _ \<Rightarrow> Inl AssertionError)"

definition chunked_find_longest_cache_hit ::
  "BlockHashList \<Rightarrow> int \<Rightarrow> int list \<Rightarrow> BlockPool \<Rightarrow> KVCacheSpec \<Rightarrow> bool \<Rightarrow> int \<Rightarrow> int \<Rightarrow> int \<Rightarrow> bref list list result" where
  "chunked_find_longest_cache_hit hashes max_length gids p spec use_eagle alignment dcp pcp =
     (case spec of
        ChunkedLocalAttentionSpec a chunk \<Rightarrow>
          py_assert (\<not> use_eagle \<and> dcp = 1 \<and> pcp = 1 \<and> a_block_size a = alignment)
            (let max_num_blocks = max_length div a_block_size a;
                 local_start = (if max_length > 0 then max_length div chunk * chunk else 0);
                 start_block = local_start div a_block_size a
             in full_hit_loop p hashes gids [start_block..max_num_blocks - 1]
                  (replicate (length gids) (replicate (nat start_block) (null_block p))))
      | _ \<Rightarrow> Inl AssertionError)"

text \<open>Mamba: the rightmost aligned hit, with null blocks before it.\<close>

fun mamba_loop ::
  "BlockPool \<Rightarrow> BlockHashList \<Rightarrow> int list \<Rightarrow> int \<Rightarrow> int \<Rightarrow> nat \<Rightarrow> bref list list result" where
  "mamba_loop p hashes gids bsize alignment 0 = Inr (replicate (length gids) [])"
| "mamba_loop p hashes gids bsize alignment (Suc i) =
     rbind (bhl_item hashes (int i)) (\<lambda>h.
     rbind (get_cached_block p h gids) (\<lambda>r.
       case r of
         Some (b # bs) \<Rightarrow>
           if bsize \<noteq> alignment \<and> (int i + 1) * bsize mod alignment \<noteq> 0
           then mamba_loop p hashes gids bsize alignment i
           else Inr (map (\<lambda>x. replicate i (null_block p) @ [x]) (b # bs))
       | _ \<Rightarrow> mamba_loop p hashes gids bsize alignment i))"

definition mamba_find_longest_cache_hit ::
  "BlockHashList \<Rightarrow> int \<Rightarrow> int list \<Rightarrow> BlockPool \<Rightarrow> KVCacheSpec \<Rightarrow> bool \<Rightarrow> int \<Rightarrow> int \<Rightarrow> int \<Rightarrow> bref list list result" where
  "mamba_find_longest_cache_hit hashes max_length gids p spec use_eagle alignment dcp pcp =
     (case spec of
        MambaSpec ms \<Rightarrow>
          py_assert (dcp = 1 \<and> pcp = 1)
            (mamba_loop p hashes gids (m_block_size ms) alignment (nat (max_length div m_block_size ms)))
      | _ \<Rightarrow> Inl AssertionError)"

definition stm_find_longest_cache_hit ::
  "manager_class \<Rightarrow> BlockHashList \<Rightarrow> int \<Rightarrow> int list \<Rightarrow> BlockPool \<Rightarrow> KVCacheSpec \<Rightarrow> bool \<Rightarrow> int \<Rightarrow> int \<Rightarrow> int \<Rightarrow>
   bref list list result" where
  "stm_find_longest_cache_hit cls =
     (case cls of
        FullAttentionManager \<Rightarrow> full_find_longest_cache_hit
      | SinkFullAttentionManager \<Rightarrow> full_find_longest_cache_hit
      | SlidingWindowManager \<Rightarrow> sliding_find_longest_cache_hit
      | ChunkedLocalAttentionManager \<Rightarrow> chunked_find_longest_cache_hit
      | MambaManager \<Rightarrow> mamba_find_longest_cache_hit
      | CrossAttentionManager \<Rightarrow> (\<lambda>hashes max_length gids p spec use_eagle alignment dcp pcp.
          (case spec of CrossAttentionSpec _ \<Rightarrow> Inl NotImplementedError | _ \<Rightarrow> Inl AssertionError)))"

end
