(* ===== verification/KV_Coordinator.thy ===== *)
theory KV_Coordinator
  imports KV_Managers
begin

text \<open>
  \<^verbatim>\<open>vllm/v1/core/kv_cache_coordinator.py\<close>: the block pool and one manager per KV-cache group. The three
  coordinator classes are the field \<open>c_kind\<close>. Every operation runs over the managers in order
  and threads the pool through them (\<open>each_manager\<close>); the hybrid cache-hit search is a loop that
  may in principle not end, so it returns an option.
\<close>

section \<open>State and construction\<close>

datatype coordinator_kind = NoPrefixCacheCoordinator | UnitaryCoordinator | HybridCoordinator

record KVCacheCoordinator =
  c_kind :: coordinator_kind
  c_kv_cache_config :: KVCacheConfig
  c_max_model_len :: int
  c_enable_caching :: bool
  c_block_pool :: BlockPool
  c_use_eagle :: bool
  single_type_managers :: "SingleTypeKVCacheManager list"
  c_block_size :: int
  dcp_world_size :: int
  pcp_world_size :: int
  c_hash_block_size :: int
  attention_groups :: "(KVCacheSpec \<times> int list \<times> manager_class) list"
  lcm_block_size :: int

fun each_manager ::
  "(nat \<Rightarrow> SingleTypeKVCacheManager \<Rightarrow> BlockPool \<Rightarrow> ('a \<times> SingleTypeKVCacheManager \<times> BlockPool) result) \<Rightarrow>
   nat \<Rightarrow> SingleTypeKVCacheManager list \<Rightarrow> BlockPool \<Rightarrow>
   ('a list \<times> SingleTypeKVCacheManager list \<times> BlockPool) result" where
  "each_manager f i [] p = Inr ([], [], p)"
| "each_manager f i (m # ms) p =
     rbind (f i m p) (\<lambda>(a, m', p').
     rbind (each_manager f (Suc i) ms p') (\<lambda>(as, ms', p''). Inr (a # as, m' # ms', p'')))"

definition on_managers ::
  "(nat \<Rightarrow> SingleTypeKVCacheManager \<Rightarrow> BlockPool \<Rightarrow> ('a \<times> SingleTypeKVCacheManager \<times> BlockPool) result) \<Rightarrow>
   KVCacheCoordinator \<Rightarrow> ('a list \<times> KVCacheCoordinator) result" where
  "on_managers f c =
     rbind (each_manager f 0 (single_type_managers c) (c_block_pool c)) (\<lambda>(as, ms, p).
       Inr (as, c\<lparr>single_type_managers := ms, c_block_pool := p\<rparr>))"

fun init_managers ::
  "bool \<Rightarrow> int \<Rightarrow> int \<Rightarrow> int \<Rightarrow> KVCacheGroupSpec list \<Rightarrow> BlockPool \<Rightarrow>
   (SingleTypeKVCacheManager list \<times> BlockPool) result" where
  "init_managers caching dcp pcp i [] p = Inr ([], p)"
| "init_managers caching dcp pcp i (g # gs) p =
     rbind (get_manager_for_kv_cache_spec (g_kv_cache_spec g) p caching i dcp pcp) (\<lambda>(m, p1).
     rbind (init_managers caching dcp pcp (i + 1) gs p1) (\<lambda>(ms, p2). Inr (m # ms, p2)))"

definition coordinator_base_init ::
  "coordinator_kind \<Rightarrow> KVCacheConfig \<Rightarrow> int \<Rightarrow> bool \<Rightarrow> bool \<Rightarrow> bool \<Rightarrow> int \<Rightarrow> int \<Rightarrow> int \<Rightarrow> bool \<Rightarrow> bool \<Rightarrow>
   KVCacheCoordinator result" where
  "coordinator_base_init kind cfg max_len use_eagle caching events dcp pcp hash_size metrics int_hashes =
     rbind (BlockPool_init (num_blocks cfg) caching hash_size events metrics int_hashes) (\<lambda>p.
     rbind (init_managers caching dcp pcp 0 (kv_cache_groups cfg) p) (\<lambda>(ms, p1).
       Inr \<lparr>c_kind = kind, c_kv_cache_config = cfg, c_max_model_len = max_len, c_enable_caching = caching,
            c_block_pool = p1, c_use_eagle = use_eagle, single_type_managers = ms, c_block_size = 0,
            dcp_world_size = dcp, pcp_world_size = pcp, c_hash_block_size = hash_size,
            attention_groups = [], lcm_block_size = 0\<rparr>))"

definition unitary_init :: "KVCacheCoordinator \<Rightarrow> KVCacheCoordinator result" where
  "unitary_init c =
     (case kv_cache_groups (c_kv_cache_config c) of
        [] \<Rightarrow> Inl IndexError
      | g # gs \<Rightarrow>
          (let b0 = spec_block_size (g_kv_cache_spec g);
               b1 = (if dcp_world_size c > 1 then b0 * dcp_world_size c else b0);
               b2 = (if pcp_world_size c > 1 then b1 * pcp_world_size c else b1)
           in py_assert (\<not> c_enable_caching c \<or> c_hash_block_size c = b2)
                (py_assert (gs = []) (Inr (c\<lparr>c_block_size := b2\<rparr>)))))"

text \<open>Insert group \<open>i\<close> into the list of groups by equal format.\<close>

fun add_attention_group ::
  "KVCacheSpec \<Rightarrow> int \<Rightarrow> manager_class \<Rightarrow> (KVCacheSpec \<times> int list \<times> manager_class) list \<Rightarrow>
   (KVCacheSpec \<times> int list \<times> manager_class) list result" where
  "add_attention_group spec i cls [] = Inr [(spec, [i], cls)]"
| "add_attention_group spec i cls ((s, is, cl) # gs) =
     (if s = spec then py_assert (cls = cl) (Inr ((s, is @ [i], cl) # gs))
      else rbind (add_attention_group spec i cls gs) (\<lambda>gs'. Inr ((s, is, cl) # gs')))"

definition verify_and_split_kv_cache_groups :: "KVCacheCoordinator \<Rightarrow> KVCacheCoordinator result" where
  "verify_and_split_kv_cache_groups c =
     rbind (mfold (\<lambda>(i, g) groups.
              rbind (py_index (single_type_managers c) i) (\<lambda>m.
                add_attention_group (g_kv_cache_spec g) i (mgr_class m) groups))
            (zip [0..int (length (kv_cache_groups (c_kv_cache_config c))) - 1] (kv_cache_groups (c_kv_cache_config c)))
            []) (\<lambda>groups.
       py_assert (length groups > 1)
         (Inr (c\<lparr>attention_groups := filter (\<lambda>(s, _, _). is_full_attention s) groups @
                                     filter (\<lambda>(s, _, _). \<not> is_full_attention s) groups,
                 lcm_block_size := foldr lcm (map (\<lambda>(s, _, _). spec_block_size s) groups) 1\<rparr>)))"

definition hybrid_init :: "KVCacheCoordinator \<Rightarrow> KVCacheCoordinator result" where
  "hybrid_init c =
     (if c_hash_block_size c = 0 \<and> kv_cache_groups (c_kv_cache_config c) \<noteq> [] then Inl ZeroDivisionError
      else py_assert (\<forall>g \<in> set (kv_cache_groups (c_kv_cache_config c)).
                        spec_block_size (g_kv_cache_spec g) mod c_hash_block_size c = 0)
             (py_assert (dcp_world_size c = 1 \<and> pcp_world_size c = 1) (verify_and_split_kv_cache_groups c)))"

definition get_kv_cache_coordinator ::
  "KVCacheConfig \<Rightarrow> int \<Rightarrow> bool \<Rightarrow> bool \<Rightarrow> bool \<Rightarrow> int \<Rightarrow> int \<Rightarrow> int \<Rightarrow> bool \<Rightarrow> bool \<Rightarrow> KVCacheCoordinator result" where
  "get_kv_cache_coordinator cfg max_len use_eagle caching events dcp pcp hash_size metrics int_hashes =
     (if \<not> caching
      then coordinator_base_init NoPrefixCacheCoordinator cfg max_len use_eagle False events dcp pcp hash_size metrics int_hashes
      else if length (kv_cache_groups cfg) = 1
      then rbind (coordinator_base_init UnitaryCoordinator cfg max_len use_eagle caching events dcp pcp hash_size metrics int_hashes)
             unitary_init
      else rbind (coordinator_base_init HybridCoordinator cfg max_len use_eagle caching events dcp pcp hash_size metrics int_hashes)
             hybrid_init)"

section \<open>Operations\<close>

definition coord_num_blocks_to_allocate ::
  "KVCacheCoordinator \<Rightarrow> string \<Rightarrow> int \<Rightarrow> bref list list \<Rightarrow> int \<Rightarrow> int \<Rightarrow> int \<Rightarrow> (int \<times> KVCacheCoordinator) result" where
  "coord_num_blocks_to_allocate c rid n_tokens new_computed_blocks num_encoder_tokens total_computed_tokens num_tokens_main_model =
     rbind (on_managers (\<lambda>i m p.
              rbind (if mgr_class m = CrossAttentionManager
                     then stm_num_blocks_to_allocate m p rid num_encoder_tokens [] 0 num_encoder_tokens
                     else rbind (py_index new_computed_blocks (int i)) (\<lambda>bs.
                            stm_num_blocks_to_allocate m p rid n_tokens bs total_computed_tokens num_tokens_main_model))
                (\<lambda>(n, m'). Inr (n, m', p))) c) (\<lambda>(ns, c'). Inr (sum_list ns, c'))"

definition coord_allocate_new_computed_blocks ::
  "KVCacheCoordinator \<Rightarrow> string \<Rightarrow> bref list list \<Rightarrow> int \<Rightarrow> int \<Rightarrow> KVCacheCoordinator result" where
  "coord_allocate_new_computed_blocks c rid new_computed_blocks num_local num_external =
     rbind (on_managers (\<lambda>i m p.
              rbind (py_index new_computed_blocks (int i)) (\<lambda>bs.
              rbind (stm_allocate_new_computed_blocks m p rid bs num_local num_external) (\<lambda>(m', p'). Inr ((), m', p')))) c)
       (\<lambda>(_, c'). Inr c')"

definition coord_allocate_new_blocks ::
  "KVCacheCoordinator \<Rightarrow> string \<Rightarrow> int \<Rightarrow> int \<Rightarrow> int \<Rightarrow> (bref list list \<times> KVCacheCoordinator) result" where
  "coord_allocate_new_blocks c rid n_tokens num_tokens_main_model num_encoder_tokens =
     on_managers (\<lambda>i m p.
       stm_allocate_new_blocks m p rid
         (if mgr_class m = CrossAttentionManager then num_encoder_tokens else n_tokens) num_tokens_main_model) c"

definition coord_cache_blocks :: "KVCacheCoordinator \<Rightarrow> Request \<Rightarrow> int \<Rightarrow> KVCacheCoordinator result" where
  "coord_cache_blocks c request n_computed =
     rbind (on_managers (\<lambda>i m p. rbind (stm_cache_blocks m p request n_computed) (\<lambda>(m', p'). Inr ((), m', p'))) c)
       (\<lambda>(_, c'). Inr c')"

definition coord_free :: "KVCacheCoordinator \<Rightarrow> string \<Rightarrow> KVCacheCoordinator result" where
  "coord_free c rid =
     rbind (on_managers (\<lambda>i m p. rbind (stm_free m p rid) (\<lambda>(m', p'). Inr ((), m', p'))) c) (\<lambda>(_, c'). Inr c')"

definition coord_remove_skipped_blocks :: "KVCacheCoordinator \<Rightarrow> string \<Rightarrow> int \<Rightarrow> KVCacheCoordinator result" where
  "coord_remove_skipped_blocks c rid total_computed_tokens =
     rbind (on_managers (\<lambda>i m p.
              rbind (stm_remove_skipped_blocks m p rid total_computed_tokens) (\<lambda>(m', p'). Inr ((), m', p'))) c)
       (\<lambda>(_, c'). Inr c')"

definition coord_num_common_prefix_blocks ::
  "KVCacheCoordinator \<Rightarrow> string \<Rightarrow> (int list \<times> KVCacheCoordinator) result" where
  "coord_num_common_prefix_blocks c rid =
     (if c_kind c = NoPrefixCacheCoordinator then Inr (replicate (length (single_type_managers c)) 0, c)
      else on_managers (\<lambda>i m p. let (n, m') = stm_num_common_prefix_blocks m p rid in Inr (n, m', p)) c)"

definition coord_get_blocks :: "KVCacheCoordinator \<Rightarrow> string \<Rightarrow> bref list list" where
  "coord_get_blocks c rid = map (\<lambda>m. dd_list rid (req_to_blocks m)) (single_type_managers c)"

section \<open>Cache-hit search\<close>

definition unitary_find_longest_cache_hit ::
  "KVCacheCoordinator \<Rightarrow> bytes list \<Rightarrow> int \<Rightarrow> (bref list list \<times> int) result" where
  "unitary_find_longest_cache_hit c hashes max_cache_hit_length =
     rbind (py_index (single_type_managers c) 0) (\<lambda>m.
     rbind (py_index (kv_cache_groups (c_kv_cache_config c)) 0) (\<lambda>g.
     rbind (stm_find_longest_cache_hit (mgr_class m) (HashList hashes) max_cache_hit_length [0] (c_block_pool c)
              (g_kv_cache_spec g) (c_use_eagle c) (c_block_size c) (dcp_world_size c) (pcp_world_size c)) (\<lambda>hit_blocks.
     rbind (py_index hit_blocks 0) (\<lambda>b0. Inr (hit_blocks, int (length b0) * c_block_size c)))))"

definition hybrid_block_hashes :: "KVCacheCoordinator \<Rightarrow> bytes list \<Rightarrow> KVCacheSpec \<Rightarrow> BlockHashList result" where
  "hybrid_block_hashes c hashes spec =
     (if spec_block_size spec = c_hash_block_size c then Inr (HashList hashes)
      else BlockHashListWithBlockSize hashes (c_hash_block_size c) (spec_block_size spec))"

text \<open>One attention group of one round: the candidate length and the hits found so far.\<close>

definition hybrid_group ::
  "KVCacheCoordinator \<Rightarrow> bytes list \<Rightarrow> KVCacheSpec \<times> int list \<times> manager_class \<Rightarrow>
   int \<times> bref list option list \<Rightarrow> (int \<times> bref list option list) result" where
  "hybrid_group c hashes = (\<lambda>(spec, group_ids, cls) (curr_len, hits).
     rbind (py_index group_ids 0) (\<lambda>g0.
     rbind (py_index hits g0) (\<lambda>known.
       if is_full_attention spec \<and> known \<noteq> None
       then Inr (curr_len div spec_block_size spec * spec_block_size spec, hits)
       else
         rbind (hybrid_block_hashes c hashes spec) (\<lambda>hl.
         rbind (stm_find_longest_cache_hit cls hl curr_len group_ids (c_block_pool c) spec (c_use_eagle c)
                  (lcm_block_size c) 1 1) (\<lambda>hit_blocks.
         rbind (py_index hit_blocks 0) (\<lambda>b0.
           Inr (int (length b0) * spec_block_size spec,
                fold (\<lambda>(g, bs) hs. hs[nat g := Some bs]) (zip group_ids hit_blocks) hits)))))))"

definition is_simple_hybrid :: "KVCacheCoordinator \<Rightarrow> bool" where
  "is_simple_hybrid c =
     (case attention_groups c of [(s, _, _), _] \<Rightarrow> is_full_attention s | _ \<Rightarrow> False)"

partial_function (option) hybrid_loop ::
  "KVCacheCoordinator \<Rightarrow> bytes list \<Rightarrow> int \<Rightarrow> bref list option list \<Rightarrow> (int \<times> bref list option list) result option" where
  "hybrid_loop c hashes hit_length hits =
     (case mfold (hybrid_group c hashes) (attention_groups c) (hit_length, hits) of
        Inl e \<Rightarrow> Some (Inl e)
      | Inr (curr_len, hits') \<Rightarrow>
          if curr_len \<ge> hit_length then Some (Inr (hit_length, hits'))
          else if is_simple_hybrid c then Some (Inr (curr_len, hits'))
          else hybrid_loop c hashes curr_len hits')"

declare hybrid_loop.simps [code]

definition hybrid_truncate ::
  "KVCacheCoordinator \<Rightarrow> int \<Rightarrow> bref list option list \<Rightarrow> bref list option list" where
  "hybrid_truncate c hit_length hits =
     (case attention_groups c of
        [] \<Rightarrow> hits
      | (spec, group_ids, _) # _ \<Rightarrow>
          if is_full_attention spec
          then fold (\<lambda>g hs. hs[nat g := map_option (py_take (hit_length div spec_block_size spec)) (hs ! nat g)]) group_ids hits
          else hits)"

definition hybrid_find_longest_cache_hit ::
  "KVCacheCoordinator \<Rightarrow> bytes list \<Rightarrow> int \<Rightarrow> (bref list list \<times> int) result option" where
  "hybrid_find_longest_cache_hit c hashes max_cache_hit_length =
     map_option (\<lambda>r. rbind r (\<lambda>(hit_length, hits).
         Inr (map (\<lambda>b. case b of None \<Rightarrow> [] | Some bs \<Rightarrow> bs) (hybrid_truncate c hit_length hits), hit_length)))
       (hybrid_loop c hashes max_cache_hit_length
          (replicate (length (kv_cache_groups (c_kv_cache_config c))) None))"

definition coord_find_longest_cache_hit ::
  "KVCacheCoordinator \<Rightarrow> bytes list \<Rightarrow> int \<Rightarrow> (bref list list \<times> int) result option" where
  "coord_find_longest_cache_hit c hashes max_cache_hit_length =
     (case c_kind c of
        NoPrefixCacheCoordinator \<Rightarrow> Some (Inr (replicate (length (single_type_managers c)) [], 0))
      | UnitaryCoordinator \<Rightarrow> Some (unitary_find_longest_cache_hit c hashes max_cache_hit_length)
      | HybridCoordinator \<Rightarrow> hybrid_find_longest_cache_hit c hashes max_cache_hit_length)"

end
