(* ===== verification/KV_Cache_Manager.thy ===== *)
theory KV_Cache_Manager
  imports KV_Coordinator
begin

text \<open>
  \<^verbatim>\<open>vllm/v1/core/kv_cache_manager.py\<close>: the interface of the scheduler to the KV cache. The code tests by
  identity whether a result is the manager's pre-built empty object, so that object is a
  constructor of its own (\<open>EmptyKVCacheBlocks\<close>).
\<close>

section \<open>State\<close>

datatype KVCacheBlocks = EmptyKVCacheBlocks | KVCacheBlocks "bref list list"

record PrefixCacheStats =
  st_reset :: bool
  st_requests :: int
  st_queries :: int
  st_hits :: int
  preempted_requests :: int
  preempted_queries :: int
  preempted_hits :: int

definition new_prefix_cache_stats :: PrefixCacheStats where
  "new_prefix_cache_stats = \<lparr>st_reset = False, st_requests = 0, st_queries = 0, st_hits = 0,
     preempted_requests = 0, preempted_queries = 0, preempted_hits = 0\<rparr>"

definition stats_record :: "int \<Rightarrow> int \<Rightarrow> bool \<Rightarrow> PrefixCacheStats \<Rightarrow> PrefixCacheStats" where
  "stats_record n_tokens num_hits preempted s =
     (if preempted
      then s\<lparr>preempted_requests := preempted_requests s + 1, preempted_queries := preempted_queries s + n_tokens,
             preempted_hits := preempted_hits s + num_hits\<rparr>
      else s\<lparr>st_requests := st_requests s + 1, st_queries := st_queries s + n_tokens, st_hits := st_hits s + num_hits\<rparr>)"

record KVCacheManager =
  kvm_max_model_len :: int
  kvm_enable_caching :: bool
  kvm_use_eagle :: bool
  log_stats :: bool
  prefix_cache_stats :: "PrefixCacheStats option"
  coordinator :: KVCacheCoordinator
  num_kv_cache_groups :: nat

definition KVCacheManager_init ::
  "KVCacheConfig \<Rightarrow> int \<Rightarrow> int \<Rightarrow> bool \<Rightarrow> bool \<Rightarrow> bool \<Rightarrow> bool \<Rightarrow> int \<Rightarrow> int \<Rightarrow> bool \<Rightarrow> bool \<Rightarrow> KVCacheManager result" where
  "KVCacheManager_init cfg max_len hash_size caching use_eagle logging events dcp pcp metrics int_hashes =
     rbind (get_kv_cache_coordinator cfg max_len use_eagle caching events dcp pcp hash_size metrics int_hashes) (\<lambda>c.
       Inr \<lparr>kvm_max_model_len = max_len, kvm_enable_caching = caching, kvm_use_eagle = use_eagle,
            log_stats = logging, prefix_cache_stats = (if logging then Some new_prefix_cache_stats else None),
            coordinator = c, num_kv_cache_groups = length (kv_cache_groups cfg)\<rparr>)"

section \<open>Block lists\<close>

definition blocks_of :: "KVCacheManager \<Rightarrow> KVCacheBlocks \<Rightarrow> bref list list" where
  "blocks_of k b = (case b of EmptyKVCacheBlocks \<Rightarrow> replicate (num_kv_cache_groups k) [] | KVCacheBlocks bs \<Rightarrow> bs)"

definition create_kv_cache_blocks :: "bref list list \<Rightarrow> KVCacheBlocks" where
  "create_kv_cache_blocks blocks = (if \<exists>g \<in> set blocks. g \<noteq> [] then KVCacheBlocks blocks else EmptyKVCacheBlocks)"

definition kv_blocks_add :: "KVCacheManager \<Rightarrow> KVCacheBlocks \<Rightarrow> KVCacheBlocks \<Rightarrow> KVCacheBlocks" where
  "kv_blocks_add k a b = KVCacheBlocks (map2 (@) (blocks_of k a) (blocks_of k b))"

definition kv_get_block_ids :: "KVCacheManager \<Rightarrow> bool \<Rightarrow> KVCacheBlocks \<Rightarrow> int list list option" where
  "kv_get_block_ids k allow_none b =
     (if allow_none \<and> (\<forall>g \<in> set (blocks_of k b). g = []) then None
      else Some (map (map (ident (c_block_pool (coordinator k)))) (blocks_of k b)))"

definition get_unhashed_block_ids :: "KVCacheManager \<Rightarrow> KVCacheBlocks \<Rightarrow> int list result" where
  "get_unhashed_block_ids k b =
     (case blocks_of k b of
        [g] \<Rightarrow> (let p = c_block_pool (coordinator k)
                in Inr (map (ident p) (filter (\<lambda>x. block_hash (objs p x) = None) g)))
      | _ \<Rightarrow> Inl AssertionError)"

definition kv_new_empty :: "KVCacheManager \<Rightarrow> KVCacheBlocks \<Rightarrow> KVCacheBlocks" where
  "kv_new_empty k b = KVCacheBlocks (replicate (length (blocks_of k b)) [])"

section \<open>Operations\<close>

definition kvm_usage :: "KVCacheManager \<Rightarrow> rat" where
  "kvm_usage k = get_usage (c_block_pool (coordinator k))"

definition make_prefix_cache_stats :: "KVCacheManager \<Rightarrow> PrefixCacheStats option \<times> KVCacheManager" where
  "make_prefix_cache_stats k =
     (if \<not> log_stats k then (None, k)
      else (prefix_cache_stats k, k\<lparr>prefix_cache_stats := Some new_prefix_cache_stats\<rparr>))"

definition get_computed_blocks ::
  "KVCacheManager \<Rightarrow> Request \<Rightarrow> ((KVCacheBlocks \<times> int) \<times> KVCacheManager) result option" where
  "get_computed_blocks k request =
     (if \<not> kvm_enable_caching k \<or> skip_reading_prefix_cache request then Some (Inr ((EmptyKVCacheBlocks, 0), k))
      else
        map_option (\<lambda>r. rbind r (\<lambda>(computed, n).
            if log_stats k
            then (case prefix_cache_stats k of
                    None \<Rightarrow> Inl AssertionError
                  | Some s \<Rightarrow> Inr ((create_kv_cache_blocks computed, n),
                      k\<lparr>prefix_cache_stats := Some (stats_record (num_tokens request) n (num_preemptions request > 0) s)\<rparr>))
            else Inr ((create_kv_cache_blocks computed, n), k)))
          (coord_find_longest_cache_hit (coordinator k) (block_hashes request) (num_tokens request - 1)))"

definition allocate_slots ::
  "KVCacheManager \<Rightarrow> Request \<Rightarrow> int \<Rightarrow> int \<Rightarrow> KVCacheBlocks option \<Rightarrow> int \<Rightarrow> int \<Rightarrow> bool \<Rightarrow> int \<Rightarrow>
   (KVCacheBlocks option \<times> KVCacheManager) result" where
  "allocate_slots k request num_new_tokens num_new_computed_tokens new_computed_blocks num_lookahead_tokens
       num_external delay_cache_blocks num_encoder_tokens =
     (if num_new_tokens = 0 \<and> num_external = 0 then Inl ValueError
      else
        let rid = request_id request;
            given = (case new_computed_blocks of None \<Rightarrow> EmptyKVCacheBlocks | Some b \<Rightarrow> b);
            block_list = blocks_of k given;
            num_local = num_computed_tokens request + num_new_computed_tokens;
            total_computed_tokens = min (num_local + num_external) (kvm_max_model_len k);
            num_tokens_main_model = total_computed_tokens + num_new_tokens;
            num_tokens_need_slot = min (num_tokens_main_model + num_lookahead_tokens) (kvm_max_model_len k)
        in
        rbind (coord_remove_skipped_blocks (coordinator k) rid total_computed_tokens) (\<lambda>c1.
        rbind (coord_num_blocks_to_allocate c1 rid num_tokens_need_slot block_list num_encoder_tokens
                 (num_local + num_external) num_tokens_main_model) (\<lambda>(num_blocks_to_allocate, c2).
          if num_blocks_to_allocate > get_num_free_blocks (c_block_pool c2)
          then Inr (None, k\<lparr>coordinator := c2\<rparr>)
          else
            rbind (if given \<noteq> EmptyKVCacheBlocks \<or> num_external > 0
                   then coord_allocate_new_computed_blocks c2 rid block_list num_local num_external
                   else Inr c2) (\<lambda>c3.
            rbind (coord_allocate_new_blocks c3 rid num_tokens_need_slot num_tokens_main_model num_encoder_tokens)
              (\<lambda>(new_blocks, c4).
                if \<not> kvm_enable_caching k \<or> delay_cache_blocks
                then Inr (Some (create_kv_cache_blocks new_blocks), k\<lparr>coordinator := c4\<rparr>)
                else
                  rbind (coord_cache_blocks c4 request
                           (min (total_computed_tokens + num_new_tokens) (num_tokens request))) (\<lambda>c5.
                    Inr (Some (create_kv_cache_blocks new_blocks), k\<lparr>coordinator := c5\<rparr>)))))))"

definition kvm_free :: "KVCacheManager \<Rightarrow> Request \<Rightarrow> KVCacheManager result" where
  "kvm_free k request =
     rbind (coord_free (coordinator k) (request_id request)) (\<lambda>c. Inr (k\<lparr>coordinator := c\<rparr>))"

definition kvm_remove_skipped_blocks :: "KVCacheManager \<Rightarrow> string \<Rightarrow> int \<Rightarrow> KVCacheManager result" where
  "kvm_remove_skipped_blocks k rid total_computed_tokens =
     rbind (coord_remove_skipped_blocks (coordinator k) rid total_computed_tokens) (\<lambda>c. Inr (k\<lparr>coordinator := c\<rparr>))"

definition on_pool :: "(BlockPool \<Rightarrow> BlockPool) \<Rightarrow> KVCacheManager \<Rightarrow> KVCacheManager" where
  "on_pool f k = k\<lparr>coordinator := (coordinator k)\<lparr>c_block_pool := f (c_block_pool (coordinator k))\<rparr>\<rparr>"

definition kvm_evict_blocks :: "KVCacheManager \<Rightarrow> int list \<Rightarrow> KVCacheManager result" where
  "kvm_evict_blocks k block_ids =
     rbind (evict_blocks block_ids (c_block_pool (coordinator k))) (\<lambda>p. Inr (on_pool (\<lambda>_. p) k))"

definition kvm_reset_prefix_cache :: "KVCacheManager \<Rightarrow> (bool \<times> KVCacheManager) result" where
  "kvm_reset_prefix_cache k =
     (let (ok, p) = reset_prefix_cache (c_block_pool (coordinator k)); k1 = on_pool (\<lambda>_. p) k
      in if \<not> ok then Inr (False, k1)
         else if log_stats k1
         then (case prefix_cache_stats k1 of
                 None \<Rightarrow> Inl AssertionError
               | Some s \<Rightarrow> Inr (True, k1\<lparr>prefix_cache_stats := Some (s\<lparr>st_reset := True\<rparr>)\<rparr>))
         else Inr (True, k1))"

definition kvm_num_common_prefix_blocks :: "KVCacheManager \<Rightarrow> string \<Rightarrow> (int list \<times> KVCacheManager) result" where
  "kvm_num_common_prefix_blocks k rid =
     rbind (coord_num_common_prefix_blocks (coordinator k) rid) (\<lambda>(ns, c). Inr (ns, k\<lparr>coordinator := c\<rparr>))"

definition kvm_take_events :: "KVCacheManager \<Rightarrow> KVCacheEvent list \<times> KVCacheManager" where
  "kvm_take_events k = (let (es, p) = take_events (c_block_pool (coordinator k)) in (es, on_pool (\<lambda>_. p) k))"

definition kvm_get_blocks :: "KVCacheManager \<Rightarrow> string \<Rightarrow> KVCacheBlocks" where
  "kvm_get_blocks k rid = create_kv_cache_blocks (coord_get_blocks (coordinator k) rid)"

definition kvm_get_block_ids :: "KVCacheManager \<Rightarrow> string \<Rightarrow> int list list" where
  "kvm_get_block_ids k rid =
     map (map (ident (c_block_pool (coordinator k)))) (blocks_of k (kvm_get_blocks k rid))"

definition kvm_cache_blocks :: "KVCacheManager \<Rightarrow> Request \<Rightarrow> int \<Rightarrow> KVCacheManager result" where
  "kvm_cache_blocks k request n_computed =
     (if kvm_enable_caching k
      then rbind (coord_cache_blocks (coordinator k) request n_computed) (\<lambda>c. Inr (k\<lparr>coordinator := c\<rparr>))
      else Inr k)"

end
