(* ===== verification/Block_Pool_Correct.thy ===== *)
theory Block_Pool_Correct
  imports Block_Pool
begin

text \<open>
  Correctness of the block pool. \<open>pool_ok p F\<close> says that the blocks with reference count 0 are
  exactly \<open>F\<close> and that the prefix cache and the blocks' own hashes agree; \<open>pool_repr p xs\<close> that
  these are the blocks of the free queue, in the order \<open>xs\<close>. The lemmas give the effect of
  every operation on that view, through the contracts of the queue and of the hash map.
\<close>

section \<open>The invariant\<close>

definition usable :: "BlockPool \<Rightarrow> bref set" where
  "usable p = Blk ` {0<..<nat (num_gpu_blocks p)}"

definition index_ok :: "BlockPool \<Rightarrow> bool" where
  "index_ok p \<longleftrightarrow> bm_ok (ident p) (cached_block_hash_to_block p) \<and>
     (\<forall>key. bm_blocks (cached_block_hash_to_block p) key = {b. block_hash (objs p b) = Some key}) \<and>
     (\<forall>b key. block_hash (objs p b) = Some key \<longrightarrow> b \<in> usable p)"

definition pool_ok :: "BlockPool \<Rightarrow> bref set \<Rightarrow> bool" where
  "pool_ok p F \<longleftrightarrow> num_gpu_blocks p > 0 \<and> pool_blocks p = map Blk [0..<nat (num_gpu_blocks p)] \<and>
     null_block p = Blk 0 \<and> (\<forall>i. block_id (objs p (Blk i)) = int i) \<and>
     (\<forall>i. is_null (objs p (Blk i)) \<longleftrightarrow> i = 0) \<and> F \<subseteq> usable p \<and>
     (\<forall>b \<in> usable p. ref_cnt (objs p b) \<ge> 0 \<and> (ref_cnt (objs p b) = 0 \<longleftrightarrow> b \<in> F)) \<and> index_ok p"

definition pool_repr :: "BlockPool \<Rightarrow> bref list \<Rightarrow> bool" where
  "pool_repr p xs \<longleftrightarrow> fq_repr p xs \<and> pool_ok p (set xs)"

definition pool_config :: "BlockPool \<Rightarrow> int \<times> bool \<times> int \<times> bref list \<times> bref \<times> bool \<times> bool" where
  "pool_config p = (num_gpu_blocks p, enable_caching p, hash_block_size p, pool_blocks p, null_block p,
     enable_kv_cache_events p, use_int_block_hashes p)"

section \<open>Field updates\<close>

lemma more_config:
  assumes "fbq.more p' = fbq.more (p :: BlockPool)"
  shows "pool_config p' = pool_config p" "cached_block_hash_to_block p' = cached_block_hash_to_block p"
    "kv_event_queue p' = kv_event_queue p" "metrics_collector p' = metrics_collector p"
  using assms by (cases p; cases p'; simp add: pool_config_def)+

lemma pool_config_updates [simp]:
  "pool_config (p\<lparr>objs := h\<rparr>) = pool_config p"
  "pool_config (p\<lparr>cached_block_hash_to_block := m\<rparr>) = pool_config p"
  "pool_config (p\<lparr>kv_event_queue := es\<rparr>) = pool_config p"
  "pool_config (p\<lparr>metrics_collector := cs\<rparr>) = pool_config p"
  "pool_config (set_ref_cnt b v p) = pool_config p"
  "pool_config (set_block_hash b k p) = pool_config p"
  "pool_config (collect c p) = pool_config p"
  by (simp_all add: pool_config_def set_ref_cnt_def set_block_hash_def collect_def)

lemma config_fields:
  assumes "pool_config p' = pool_config p"
  shows "num_gpu_blocks p' = num_gpu_blocks p" "enable_caching p' = enable_caching p"
    "hash_block_size p' = hash_block_size p" "pool_blocks p' = pool_blocks p" "null_block p' = null_block p"
    "enable_kv_cache_events p' = enable_kv_cache_events p"
    "use_int_block_hashes p' = use_int_block_hashes p" "usable p' = usable p"
  using assms by (simp_all add: pool_config_def usable_def)

lemma objs_updates [simp]:
  "objs (set_ref_cnt b v p) = (objs p)(b := (objs p b)\<lparr>ref_cnt := v\<rparr>)"
  "objs (set_block_hash b k p) = (objs p)(b := (objs p b)\<lparr>block_hash := k\<rparr>)"
  "objs (collect c p) = objs p"
  by (simp_all add: set_ref_cnt_def set_block_hash_def collect_def)

lemma cache_updates [simp]:
  "cached_block_hash_to_block (set_ref_cnt b v p) = cached_block_hash_to_block p"
  "cached_block_hash_to_block (set_block_hash b k p) = cached_block_hash_to_block p"
  "cached_block_hash_to_block (collect c p) = cached_block_hash_to_block p"
  by (simp_all add: set_ref_cnt_def set_block_hash_def collect_def)

lemma fq_repr_updates [simp]:
  "fq_repr (set_ref_cnt b v p) xs = fq_repr p xs"
  "fq_repr (set_block_hash b k p) xs = fq_repr p xs"
  "fq_repr (collect c p) xs = fq_repr p xs"
  "fq_repr (p\<lparr>cached_block_hash_to_block := m\<rparr>) xs = fq_repr p xs"
  "fq_repr (p\<lparr>kv_event_queue := es\<rparr>) xs = fq_repr p xs"
  using links_ok_cong[of "(objs p)(b := (objs p b)\<lparr>ref_cnt := v\<rparr>)" "objs p" xs]
    links_ok_cong[of "(objs p)(b := (objs p b)\<lparr>block_hash := k\<rparr>)" "objs p" xs]
  by (simp_all add: fq_repr_def set_ref_cnt_def set_block_hash_def collect_def)

text \<open>The invariant reads only the payload of the blocks, the configuration and the cache.\<close>

lemma payload_fields:
  assumes "payload h' x = payload h x"
  shows "block_id (h' x) = block_id (h x)" "ref_cnt (h' x) = ref_cnt (h x)"
    "block_hash (h' x) = block_hash (h x)" "is_null (h' x) = is_null (h x)"
  using assms by (simp_all add: payload_def)

lemma index_ok_cong:
  assumes "\<And>b. block_id (objs p' b) = block_id (objs p b)" "\<And>b. block_hash (objs p' b) = block_hash (objs p b)"
    "pool_config p' = pool_config p" "cached_block_hash_to_block p' = cached_block_hash_to_block p"
  shows "index_ok p' = index_ok p"
proof -
  have "ident p' = ident p" using assms(1) by (simp add: ident_def fun_eq_iff)
  then show ?thesis using assms config_fields(8)[OF assms(3)] by (simp add: index_ok_def)
qed

lemma pool_ok_cong:
  assumes "payload (objs p') = payload (objs p)" "pool_config p' = pool_config p"
    "cached_block_hash_to_block p' = cached_block_hash_to_block p"
  shows "pool_ok p' F = pool_ok p F"
proof -
  note pf = payload_fields[OF fun_cong[OF assms(1)]]
  show ?thesis
    unfolding pool_ok_def index_ok_cong[OF pf(1,3) assms(2,3)] pf config_fields[OF assms(2)] ..
qed

lemma pool_ok_frame:
  assumes "(payload (objs p'), fbq.more p') = (payload (objs p), fbq.more (p :: BlockPool))"
  shows "pool_ok p' F = pool_ok p F"
  using assms by (intro pool_ok_cong more_config) auto

lemma pool_ok_collect [simp]: "pool_ok (collect c p) F = pool_ok p F"
  by (rule pool_ok_cong) simp_all

lemma pool_ok_events [simp]: "pool_ok (p\<lparr>kv_event_queue := es\<rparr>) F = pool_ok p F"
  by (rule pool_ok_cong) simp_all

lemma null_not_usable [simp]: "Blk 0 \<notin> usable p"
  by (auto simp: usable_def)

lemma blocks_cases:
  assumes "pool_ok p F" "b \<in> set (pool_blocks p)"
  shows "b = Blk 0 \<or> b \<in> usable p"
  using assms by (auto simp: pool_ok_def usable_def image_iff)

lemma usable_blocks: "pool_ok p F \<Longrightarrow> set (pool_blocks p) = insert (Blk 0) (usable p)"
  by (auto simp: pool_ok_def usable_def image_iff)

lemma is_null_iff:
  assumes "pool_ok p F" "b \<in> set (pool_blocks p)"
  shows "is_null (objs p b) \<longleftrightarrow> b = Blk 0"
  using assms by (auto simp: pool_ok_def)

lemma pool_ok_set_ref:
  assumes "pool_ok p F" "b \<in> usable p" "v \<ge> 0"
  shows "pool_ok (set_ref_cnt b v p) (if v = 0 then insert b F else F - {b})"
proof -
  have "index_ok (set_ref_cnt b v p) = index_ok p" by (rule index_ok_cong) simp_all
  moreover have "usable (set_ref_cnt b v p) = usable p" by (rule config_fields) simp
  ultimately show ?thesis
    using assms config_fields[of "set_ref_cnt b v p" p] by (auto simp: pool_ok_def)
qed

lemma pool_ok_set_ref_null:
  assumes "pool_ok p F"
  shows "pool_ok (set_ref_cnt (Blk 0) v p) F"
proof -
  have "index_ok (set_ref_cnt (Blk 0) v p) = index_ok p" by (rule index_ok_cong) simp_all
  moreover have "usable (set_ref_cnt (Blk 0) v p) = usable p" by (rule config_fields) simp
  moreover have "b \<noteq> Blk 0" if "b \<in> usable p" for b using that by auto
  ultimately show ?thesis
    using assms config_fields[of "set_ref_cnt (Blk 0) v p" p] by (auto simp: pool_ok_def)
qed

lemma ident_inj: "pool_ok p F \<Longrightarrow> inj_on (ident p) (range Blk)"
  by (auto simp: pool_ok_def ident_def inj_on_def)

lemma cached_Blk: "pool_ok p F \<Longrightarrow> bm_blocks (cached_block_hash_to_block p) key \<subseteq> range Blk"
  by (auto simp: pool_ok_def index_ok_def usable_def)

section \<open>Eviction\<close>

lemma pool_ok_set_hash:
  assumes "pool_ok p F" "b \<in> usable p \<or> k = None" "bm_ok (ident p) m"
    and "\<And>key. bm_blocks m key = {x. block_hash (objs (set_block_hash b k p) x) = Some key}"
  shows "pool_ok ((set_block_hash b k p)\<lparr>cached_block_hash_to_block := m\<rparr>) F"
proof -
  let ?p = "(set_block_hash b k p)\<lparr>cached_block_hash_to_block := m\<rparr>"
  have c: "pool_config ?p = pool_config p" by simp
  have "ident ?p = ident p" by (simp add: ident_def fun_eq_iff)
  then have "index_ok ?p"
    using assms config_fields(8)[OF c] by (auto simp: index_ok_def pool_ok_def split: if_splits)
  then show ?thesis using assms(1) config_fields[OF c] by (auto simp: pool_ok_def)
qed

lemma ident_updates [simp]:
  "ident (set_ref_cnt b v p) = ident p" "ident (set_block_hash b k p) = ident p" "ident (collect c p) = ident p"
  "ident (p\<lparr>cached_block_hash_to_block := m\<rparr>) = ident p"
  by (auto simp: ident_def fun_eq_iff)

lemma maybe_evict_hit:
  assumes "block_hash (objs p b) = Some k"
    and "fst (bm_pop (ident p) (cached_block_hash_to_block p) k (ident p b)) = Some b'"
  shows "\<exists>es. maybe_evict_cached_block b p =
    (True, (set_block_hash b None ((collect (OnEvicted (ident p b)) p)\<lparr>cached_block_hash_to_block :=
       snd (bm_pop (ident p) (cached_block_hash_to_block p) k (ident p b))\<rparr>))\<lparr>kv_event_queue := es\<rparr>)"
    (is "\<exists>es. _ = (True, ?p2\<lparr>kv_event_queue := es\<rparr>)")
proof -
  have id: "?p2 = ?p2\<lparr>kv_event_queue := kv_event_queue ?p2\<rparr>" by simp
  have "maybe_evict_cached_block b p = (True, if enable_kv_cache_events ?p2
    then ?p2\<lparr>kv_event_queue := kv_event_queue ?p2 @
           [BlockRemoved [maybe_convert_block_hash (use_int_block_hashes ?p2) (get_block_hash k)] MEDIUM_GPU]\<rparr>
    else ?p2)"
    using assms by (simp only: maybe_evict_cached_block_def ident_updates objs_updates cache_updates Let_def split_beta
        option.case)
  then show ?thesis using id by (cases "enable_kv_cache_events ?p2") (simp only: if_True if_False, blast)+
qed

lemma maybe_evict_spec:
  fixes b :: bref
  assumes ok: "pool_ok p F"
  defines "p' \<equiv> snd (maybe_evict_cached_block b p)"
  shows "pool_ok p' F" and "objs p' = (objs p)(b := (objs p b)\<lparr>block_hash := None\<rparr>)"
    and "pool_config p' = pool_config p" and "fq_repr p' xs = fq_repr p xs"
    and "fst (maybe_evict_cached_block b p) \<longleftrightarrow> block_hash (objs p b) \<noteq> None"
    and "bm_blocks (cached_block_hash_to_block p') key = bm_blocks (cached_block_hash_to_block p) key - {b}"
proof -
  let ?m = "cached_block_hash_to_block p"
  have bm: "bm_ok (ident p) ?m" "bm_blocks ?m k = {b. block_hash (objs p b) = Some k}" for k
    using ok by (simp_all add: pool_ok_def index_ok_def)
  have "pool_ok p' F \<and> objs p' = (objs p)(b := (objs p b)\<lparr>block_hash := None\<rparr>) \<and>
    pool_config p' = pool_config p \<and> fq_repr p' xs = fq_repr p xs \<and>
    (fst (maybe_evict_cached_block b p) \<longleftrightarrow> block_hash (objs p b) \<noteq> None) \<and>
    bm_blocks (cached_block_hash_to_block p') key = bm_blocks ?m key - {b}"
  proof (cases "block_hash (objs p b)")
    case None
    then have "maybe_evict_cached_block b p = (False, collect (OnEvicted (ident p b)) p)"
      by (simp add: maybe_evict_cached_block_def)
    moreover have "(objs p b)\<lparr>block_hash := None\<rparr> = objs p b" using None by simp
    ultimately show ?thesis using ok None bm(2) by (auto simp: p'_def fun_upd_idem)
  next
    case (Some k)
    have inj: "inj_on (ident p) (bm_blocks ?m k)"
      by (rule inj_on_subset[OF ident_inj[OF ok] cached_Blk[OF ok]])
    have b: "b \<in> bm_blocks ?m k" using bm(2) Some by simp
    let ?q = "bm_pop (ident p) ?m k (ident p b)" and ?p0 = "collect (OnEvicted (ident p b)) p"
    have pop: "fst ?q = Some b" using bm.pop_mem[OF bm(1) inj b] .
    have blocks: "bm_blocks (snd ?q) key = bm_blocks ?m key - {b}" for key
      using bm.pop_mem_blocks[OF bm(1) inj b, of key] bm(2) Some by auto
    let ?p1 = "?p0\<lparr>cached_block_hash_to_block := snd ?q\<rparr>"
    let ?p2 = "set_block_hash b None ?p1"
    obtain es where ev: "maybe_evict_cached_block b p = (True, ?p2\<lparr>kv_event_queue := es\<rparr>)"
      using maybe_evict_hit[OF Some pop] by blast
    have "?p2 = (set_block_hash b None ?p0)\<lparr>cached_block_hash_to_block := snd ?q\<rparr>"
      by (simp add: set_block_hash_def)
    moreover have "pool_ok ((set_block_hash b None ?p0)\<lparr>cached_block_hash_to_block := snd ?q\<rparr>) F"
    proof (rule pool_ok_set_hash)
      show "bm_ok (ident ?p0) (snd ?q)" using bm.pop_ok[OF bm(1)] by simp
    qed (use ok blocks bm(2) in auto)
    ultimately show ?thesis using ev blocks Some by (simp add: p'_def)
  qed
  then show "pool_ok p' F" and "objs p' = (objs p)(b := (objs p b)\<lparr>block_hash := None\<rparr>)"
    and "pool_config p' = pool_config p" and "fq_repr p' xs = fq_repr p xs"
    and "fst (maybe_evict_cached_block b p) \<longleftrightarrow> block_hash (objs p b) \<noteq> None"
    and "bm_blocks (cached_block_hash_to_block p') key = bm_blocks (cached_block_hash_to_block p) key - {b}"
    by blast+
qed

section \<open>Allocation\<close>

definition alloc_block :: "bool \<Rightarrow> KVCacheBlock \<Rightarrow> KVCacheBlock" where
  "alloc_block caching b = b\<lparr>block_hash := if caching then None else block_hash b, ref_cnt := 1\<rparr>"

lemma alloc_one_spec:
  assumes ok: "pool_ok p F" and b: "b \<in> F"
  shows "\<exists>p'. alloc_one b p = Inr p' \<and> pool_ok p' (F - {b}) \<and> pool_config p' = pool_config p \<and>
    fq_repr p' xs = fq_repr p xs \<and> objs p' = (objs p)(b := alloc_block (enable_caching p) (objs p b)) \<and>
    (\<forall>key. bm_blocks (cached_block_hash_to_block p') key =
       bm_blocks (cached_block_hash_to_block p) key - (if enable_caching p then {b} else {}))"
proof -
  let ?p1 = "if enable_caching p then snd (maybe_evict_cached_block b p) else p"
  note ev = maybe_evict_spec[OF ok, of b]
  have p1: "pool_ok ?p1 F" "pool_config ?p1 = pool_config p" "fq_repr ?p1 xs = fq_repr p xs"
    "objs ?p1 = (objs p)(b := (objs p b)\<lparr>block_hash := if enable_caching p then None else block_hash (objs p b)\<rparr>)"
    "\<And>key. bm_blocks (cached_block_hash_to_block ?p1) key =
       bm_blocks (cached_block_hash_to_block p) key - (if enable_caching p then {b} else {})"
    using ok ev by auto
  have u: "b \<in> usable ?p1" and r0: "ref_cnt (objs ?p1 b) = 0"
    using p1(1) b by (auto simp: pool_ok_def)
  let ?p2 = "set_ref_cnt b 1 ?p1"
  have "alloc_one b p = Inr (collect (OnAllocated (ident ?p1 b)) ?p2)"
    using r0 by (simp add: alloc_one_def Let_def del: fun_upd_apply)
  moreover have "pool_ok ?p2 (F - {b})" using pool_ok_set_ref[OF p1(1) u, of 1] by simp
  moreover have "objs ?p2 = (objs p)(b := alloc_block (enable_caching p) (objs p b))"
    by (simp add: p1(4) alloc_block_def)
  ultimately show ?thesis using p1 by (auto simp del: fun_upd_apply)
qed

lemma alloc_loop_spec:
  assumes "pool_ok p (F \<union> set bs)" "distinct bs" "F \<inter> set bs = {}" "fq_repr p xs"
  shows "\<exists>p'. mfold alloc_one bs p = Inr p' \<and> pool_ok p' F \<and> fq_repr p' xs \<and> pool_config p' = pool_config p \<and>
    objs p' = (\<lambda>b. if b \<in> set bs then alloc_block (enable_caching p) (objs p b) else objs p b) \<and>
    (\<forall>key. bm_blocks (cached_block_hash_to_block p') key =
       bm_blocks (cached_block_hash_to_block p) key - (if enable_caching p then set bs else {}))"
  using assms
proof (induction bs arbitrary: p)
  case Nil
  then show ?case by auto
next
  case (Cons b bs)
  from alloc_one_spec[OF Cons.prems(1), of b xs] obtain p1 where p1: "alloc_one b p = Inr p1"
    "pool_ok p1 (F \<union> set (b # bs) - {b})" "pool_config p1 = pool_config p" "fq_repr p1 xs = fq_repr p xs"
    "objs p1 = (objs p)(b := alloc_block (enable_caching p) (objs p b))"
    "\<And>key. bm_blocks (cached_block_hash_to_block p1) key =
       bm_blocks (cached_block_hash_to_block p) key - (if enable_caching p then {b} else {})" by auto
  have "F \<union> set (b # bs) - {b} = F \<union> set bs" using Cons.prems(2,3) by auto
  then obtain p2 where p2: "mfold alloc_one bs p1 = Inr p2" "pool_ok p2 F" "fq_repr p2 xs"
    "pool_config p2 = pool_config p1"
    "objs p2 = (\<lambda>b. if b \<in> set bs then alloc_block (enable_caching p1) (objs p1 b) else objs p1 b)"
    "\<And>key. bm_blocks (cached_block_hash_to_block p2) key =
       bm_blocks (cached_block_hash_to_block p1) key - (if enable_caching p1 then set bs else {})"
    using Cons.IH[of p1] Cons.prems p1 by auto
  have c: "enable_caching p1 = enable_caching p" by (rule config_fields[OF p1(3)])
  have "objs p2 = (\<lambda>x. if x \<in> set (b # bs) then alloc_block (enable_caching p) (objs p x) else objs p x)"
    unfolding p2(5) p1(5) c using Cons.prems(2) by auto
  moreover have "bm_blocks (cached_block_hash_to_block p2) key =
       bm_blocks (cached_block_hash_to_block p) key - (if enable_caching p then set (b # bs) else {})" for key
    unfolding p2(6) p1(6) c by auto
  ultimately show ?case using p1(1,3) p2(1-4) by auto
qed

lemma get_new_blocks_spec:
  assumes rep: "pool_repr p xs" and n: "0 \<le> n" "n \<le> int (length xs)"
  shows "\<exists>p'. get_new_blocks n p = Inr (take (nat n) xs, p') \<and> pool_repr p' (drop (nat n) xs) \<and>
    pool_config p' = pool_config p \<and>
    (\<forall>b. b \<notin> set (take (nat n) xs) \<longrightarrow> payload (objs p') b = payload (objs p) b) \<and>
    (\<forall>b. b \<in> set (take (nat n) xs) \<longrightarrow> ref_cnt (objs p' b) = 1 \<and>
       block_hash (objs p' b) = (if enable_caching p then None else block_hash (objs p b))) \<and>
    (\<forall>key. bm_blocks (cached_block_hash_to_block p') key = bm_blocks (cached_block_hash_to_block p) key -
       (if enable_caching p then set (take (nat n) xs) else {}))"
proof -
  have f: "fq_repr p xs" and ok: "pool_ok p (set xs)" using rep by (simp_all add: pool_repr_def)
  let ?bs = "take (nat n) xs" and ?xs = "drop (nat n) xs"
  obtain p1 where p1: "fq_popleft_n n p = Inr (?bs, p1)" "fq_repr p1 ?xs"
    "(payload (objs p1), fbq.more p1) = (payload (objs p), fbq.more p)"
    using fq.pop_n_spec[OF f n] by blast
  have d: "distinct xs" by (rule fq.repr_distinct[OF f])
  have "set xs = set ?xs \<union> set ?bs" using set_append[of ?bs ?xs] by (auto simp: append_take_drop_id)
  then have ok1: "pool_ok p1 (set ?xs \<union> set ?bs)" using ok pool_ok_frame[OF p1(3)] by simp
  have "set ?xs \<inter> set ?bs = {}" using d by (metis append_take_drop_id distinct_append inf_commute)
  from alloc_loop_spec[OF ok1 _ this p1(2)] d obtain p2 where p2: "mfold alloc_one ?bs p1 = Inr p2"
    "pool_ok p2 (set ?xs)" "fq_repr p2 ?xs" "pool_config p2 = pool_config p1"
    "objs p2 = (\<lambda>b. if b \<in> set ?bs then alloc_block (enable_caching p1) (objs p1 b) else objs p1 b)"
    "\<And>key. bm_blocks (cached_block_hash_to_block p2) key =
       bm_blocks (cached_block_hash_to_block p1) key - (if enable_caching p1 then set ?bs else {})"
    by auto
  have c: "pool_config p1 = pool_config p" "cached_block_hash_to_block p1 = cached_block_hash_to_block p"
    using more_config[of p1 p] p1(3) by auto
  have pf: "payload (objs p1) b = payload (objs p) b" for b using p1(3) by simp
  have "get_new_blocks n p = Inr (?bs, p2)"
    using p1(1) p2(1) n f by (simp add: get_new_blocks_def get_num_free_blocks_def fq_repr_def)
  moreover have "pool_repr p2 ?xs" using p2(2,3) by (simp add: pool_repr_def)
  moreover have "payload (objs p2) b = payload (objs p) b" if "b \<notin> set ?bs" for b
    using that pf[of b] by (simp add: p2(5) payload_def)
  moreover have "ref_cnt (objs p2 b) = 1 \<and>
    block_hash (objs p2 b) = (if enable_caching p then None else block_hash (objs p b))" if "b \<in> set ?bs" for b
    using that payload_fields(3)[OF pf[of b]] config_fields(2)[OF c(1)] by (simp add: p2(5) alloc_block_def)
  ultimately show ?thesis using p2(4,6) c config_fields(2)[OF c(1)] by auto
qed

lemma get_new_blocks_too_many:
  assumes "pool_repr p xs" "n > int (length xs)"
  shows "get_new_blocks n p = Inl ValueError"
  using assms by (simp add: get_new_blocks_def get_num_free_blocks_def pool_repr_def fq_repr_def)

section \<open>Reference counting\<close>

text \<open>What touching and freeing leave alone: everything but reference counts and links.\<close>

definition refs_only :: "BlockPool \<Rightarrow> BlockPool \<Rightarrow> bool" where
  "refs_only p p' \<longleftrightarrow> pool_config p' = pool_config p \<and>
     cached_block_hash_to_block p' = cached_block_hash_to_block p \<and>
     kv_event_queue p' = kv_event_queue p \<and>
     (\<forall>b. block_id (objs p' b) = block_id (objs p b) \<and> block_hash (objs p' b) = block_hash (objs p b) \<and>
        is_null (objs p' b) = is_null (objs p b))"

lemma refs_only_refl [simp]: "refs_only p p"
  by (simp add: refs_only_def)

lemma refs_only_trans: "refs_only p q \<Longrightarrow> refs_only q r \<Longrightarrow> refs_only p r"
  by (simp add: refs_only_def)

lemma refs_only_set_ref [simp]: "refs_only p (set_ref_cnt b v p)" "refs_only p (collect c p)"
  by (auto simp: refs_only_def) (simp_all add: set_ref_cnt_def collect_def)

lemma refs_only_config: "refs_only p p' \<Longrightarrow> pool_config p' = pool_config p"
  by (simp add: refs_only_def)

lemma refs_only_frame:
  assumes "(payload (objs p'), fbq.more p') = (payload (objs p), fbq.more (p :: BlockPool))"
  shows "refs_only p p'"
proof -
  have "payload (objs p') = payload (objs p)" "fbq.more p' = fbq.more p" using assms by auto
  then show ?thesis using more_config[of p' p] by (auto simp: refs_only_def fun_eq_iff payload_def)
qed

lemma touch_one_spec:
  assumes rep: "pool_repr p xs" and b: "b \<in> set (pool_blocks p)"
  shows "\<exists>p'. touch_one b p = Inr p' \<and> pool_repr p' (filter (\<lambda>x. x \<noteq> b) xs) \<and> refs_only p p' \<and>
    (\<forall>x. ref_cnt (objs p' x) = ref_cnt (objs p x) + (if x = b then 1 else 0))"
proof -
  have f: "fq_repr p xs" and ok: "pool_ok p (set xs)" using rep by (simp_all add: pool_repr_def)
  have xs: "set xs \<subseteq> usable p" using ok by (simp add: pool_ok_def)
  have "\<exists>p1. (if ref_cnt (objs p b) = 0 \<and> \<not> is_null (objs p b) then fq_remove b p else Inr p) = Inr p1 \<and>
    fq_repr p1 (filter (\<lambda>x. x \<noteq> b) xs) \<and> (payload (objs p1), fbq.more p1) = (payload (objs p), fbq.more p)"
  proof (cases "b \<in> set xs")
    case True
    then have "ref_cnt (objs p b) = 0" "\<not> is_null (objs p b)"
      using ok xs is_null_iff[OF ok b] by (auto simp: pool_ok_def)
    then show ?thesis using fq.rem_mem[OF f True] by simp
  next
    case False
    then have "\<not> (ref_cnt (objs p b) = 0 \<and> \<not> is_null (objs p b))"
      using blocks_cases[OF ok b] is_null_iff[OF ok b] ok by (auto simp: pool_ok_def)
    moreover have "filter (\<lambda>x. x \<noteq> b) xs = xs" using False by (auto simp: filter_id_conv)
    ultimately show ?thesis using f by (simp only: if_False) auto
  qed
  then obtain p1 where p1: "(if ref_cnt (objs p b) = 0 \<and> \<not> is_null (objs p b) then fq_remove b p else Inr p) = Inr p1"
    "fq_repr p1 (filter (\<lambda>x. x \<noteq> b) xs)" "(payload (objs p1), fbq.more p1) = (payload (objs p), fbq.more p)" by blast
  have rc: "ref_cnt (objs p1 x) = ref_cnt (objs p x)" for x using p1(3) by (simp add: payload_def fun_eq_iff)
  let ?p2 = "set_ref_cnt b (ref_cnt (objs p1 b) + 1) p1"
  have "refs_only p ?p2" using refs_only_frame[OF p1(3)] refs_only_set_ref refs_only_trans by blast
  then have ro: "refs_only p (collect c ?p2)" for c using refs_only_set_ref refs_only_trans by blast
  have ok1: "pool_ok p1 (set xs)" using ok pool_ok_frame[OF p1(3)] by simp
  have u: "usable p1 = usable p" by (rule config_fields(8)[OF refs_only_config[OF refs_only_frame[OF p1(3)]]])
  have "pool_ok ?p2 (set (filter (\<lambda>x. x \<noteq> b) xs))"
  proof (cases "b = Blk 0")
    case True
    then have "filter (\<lambda>x. x \<noteq> b) xs = xs" using xs by (auto simp: filter_id_conv)
    then show ?thesis using pool_ok_set_ref_null[OF ok1] True by simp
  next
    case False
    then have "b \<in> usable p" using blocks_cases[OF ok b] by simp
    moreover have "ref_cnt (objs p1 b) \<ge> 0" using ok \<open>b \<in> usable p\<close> rc[of b] by (auto simp: pool_ok_def)
    ultimately have "pool_ok ?p2 (set xs - {b})" using pool_ok_set_ref[OF ok1, of b "ref_cnt (objs p1 b) + 1"] u by simp
    moreover have "set (filter (\<lambda>x. x \<noteq> b) xs) = set xs - {b}" by auto
    ultimately show ?thesis by simp
  qed
  then have "pool_repr (collect c ?p2) (filter (\<lambda>x. x \<noteq> b) xs)" for c using p1(2) by (simp add: pool_repr_def)
  moreover have "touch_one b p = Inr (collect (OnAccessed (ident p1 b)) ?p2)"
    using p1(1) by (simp add: touch_one_def del: if_split_asm)
  ultimately show ?thesis using ro rc by simp
qed

lemma touch_spec:
  assumes "pool_repr p xs" "set bs \<subseteq> set (pool_blocks p)"
  shows "\<exists>p'. touch bs p = Inr p' \<and> pool_repr p' (filter (\<lambda>x. x \<notin> set bs) xs) \<and> refs_only p p' \<and>
    (\<forall>x. ref_cnt (objs p' x) = ref_cnt (objs p x) + int (count_list bs x))"
  using assms
proof (induction bs arbitrary: p xs)
  case Nil
  then show ?case by (simp add: touch_def)
next
  case (Cons b bs)
  from touch_one_spec[OF Cons.prems(1), of b] Cons.prems(2) obtain p1 where p1: "touch_one b p = Inr p1"
    "pool_repr p1 (filter (\<lambda>x. x \<noteq> b) xs)" "refs_only p p1"
    "\<And>x. ref_cnt (objs p1 x) = ref_cnt (objs p x) + (if x = b then 1 else 0)" by auto
  have "pool_blocks p1 = pool_blocks p" by (rule config_fields(4)[OF refs_only_config[OF p1(3)]])
  then obtain p2 where p2: "touch bs p1 = Inr p2"
    "pool_repr p2 (filter (\<lambda>x. x \<notin> set bs) (filter (\<lambda>x. x \<noteq> b) xs))" "refs_only p1 p2"
    "\<And>x. ref_cnt (objs p2 x) = ref_cnt (objs p1 x) + int (count_list bs x)"
    using Cons.IH[OF p1(2)] Cons.prems(2) by auto
  have "filter (\<lambda>x. x \<notin> set bs) (filter (\<lambda>x. x \<noteq> b) xs) = filter (\<lambda>x. x \<notin> set (b # bs)) xs"
    unfolding filter_filter by (rule filter_cong) auto
  moreover have "ref_cnt (objs p2 x) = ref_cnt (objs p x) + int (count_list (b # bs) x)" for x
    using p1(4)[of x] p2(4)[of x] by simp
  ultimately show ?case using p1(1) p2(1,2) refs_only_trans[OF p1(3) p2(3)] by (simp add: touch_def)
qed

lemma dec_ref_fold:
  "refs_only p (fold dec_ref bs p) \<and>
   (\<forall>x. ref_cnt (objs (fold dec_ref bs p) x) = ref_cnt (objs p x) - int (count_list bs x)) \<and>
   (\<forall>xs. fq_repr (fold dec_ref bs p) xs = fq_repr p xs)"
proof (induction bs arbitrary: p)
  case (Cons b bs)
  have "refs_only p (dec_ref b p)" by (simp add: dec_ref_def)
  then show ?case using Cons[of "dec_ref b p"] refs_only_trans by (fastforce simp: dec_ref_def)
qed simp

lemma pool_ok_refs:
  assumes "pool_ok p F" "refs_only p p'" "F' \<subseteq> usable p"
    and "\<And>b. b \<in> usable p \<Longrightarrow> ref_cnt (objs p' b) \<ge> 0 \<and> (ref_cnt (objs p' b) = 0 \<longleftrightarrow> b \<in> F')"
  shows "pool_ok p' F'"
proof -
  have c: "pool_config p' = pool_config p" using assms(2) by (simp add: refs_only_def)
  have "index_ok p' = index_ok p" using assms(2) by (intro index_ok_cong) (simp_all add: refs_only_def)
  then show ?thesis using assms config_fields[OF c] by (auto simp: pool_ok_def refs_only_def)
qed

lemma count_list_filter_distinct:
  "distinct (filter P xs) \<Longrightarrow> P x \<Longrightarrow> count_list xs x = (if x \<in> set xs then 1 else 0)"
  by (induction xs) (auto split: if_splits)

lemma free_blocks_spec:
  assumes rep: "pool_repr p xs" and bs: "set bs \<subseteq> set (pool_blocks p)"
    and d: "distinct (filter (\<lambda>b. b \<noteq> null_block p) bs)"
    and ref: "\<And>b. b \<in> set bs \<Longrightarrow> b \<noteq> null_block p \<Longrightarrow> ref_cnt (objs p b) > 0"
  shows "\<exists>p'. free_blocks bs p = Inr p' \<and>
    pool_repr p' (xs @ filter (\<lambda>b. b \<noteq> null_block p \<and> ref_cnt (objs p b) = 1) bs) \<and> refs_only p p' \<and>
    (\<forall>x. ref_cnt (objs p' x) = ref_cnt (objs p x) - int (count_list bs x))"
proof -
  have f: "fq_repr p xs" and ok: "pool_ok p (set xs)" using rep by (simp_all add: pool_repr_def)
  have null: "null_block p = Blk 0" using ok by (simp add: pool_ok_def)
  let ?p1 = "fold dec_ref bs p" and ?ys = "filter (\<lambda>b. b \<noteq> null_block p \<and> ref_cnt (objs p b) = 1) bs"
  have ro: "refs_only p ?p1" and rc: "\<And>x. ref_cnt (objs ?p1 x) = ref_cnt (objs p x) - int (count_list bs x)"
    and f1: "fq_repr ?p1 xs" using dec_ref_fold[of p bs] f by auto
  have cnt: "count_list bs x = (if x \<in> set bs then 1 else 0)" if "x \<noteq> Blk 0" for x
    using count_list_filter_distinct[of "\<lambda>b. b \<noteq> null_block p" bs x] d that null by simp
  have fr: "filter (\<lambda>b. ref_cnt (objs ?p1 b) = 0 \<and> \<not> is_null (objs ?p1 b)) bs = ?ys"
  proof (rule filter_cong[OF refl])
    fix b assume b: "b \<in> set bs"
    have n: "is_null (objs ?p1 b) \<longleftrightarrow> b = Blk 0" using is_null_iff[OF ok] bs b ro by (auto simp: refs_only_def)
    then show "(ref_cnt (objs ?p1 b) = 0 \<and> \<not> is_null (objs ?p1 b)) = (b \<noteq> null_block p \<and> ref_cnt (objs p b) = 1)"
      using rc[of b] cnt[of b] b null by auto
  qed
  have us: "b \<in> usable p" if "b \<in> set bs" "b \<noteq> Blk 0" for b
    using blocks_cases[OF ok] bs that by blast
  have dj: "set ?ys \<inter> set xs = {}" and ysu: "set ?ys \<subseteq> usable p"
    using us ok null by (fastforce simp: pool_ok_def)+
  have dy: "distinct ?ys" using distinct_filter[OF d, of "\<lambda>b. ref_cnt (objs p b) = 1"] by (simp add: conj_commute)
  have valid: "b \<in> range Blk" if "b \<in> set ?ys" for b using ysu that by (auto simp: usable_def)
  obtain p2 where p2: "fq_append_n ?ys ?p1 = Inr p2" "fq_repr p2 (xs @ ?ys)"
    "(payload (objs p2), fbq.more p2) = (payload (objs ?p1), fbq.more ?p1)"
    using fq.app_n_spec[OF f1 dy valid dj] by blast
  have rc2: "ref_cnt (objs p2 x) = ref_cnt (objs ?p1 x)" for x using p2(3) by (simp add: payload_def fun_eq_iff)
  have ro2: "refs_only p p2" by (rule refs_only_trans[OF ro refs_only_frame[OF p2(3)]])
  have "pool_ok p2 (set (xs @ ?ys))"
  proof (rule pool_ok_refs[OF ok ro2])
    show "set (xs @ ?ys) \<subseteq> usable p" using ysu ok by (simp add: pool_ok_def)
    fix b assume b: "b \<in> usable p"
    then have nb: "b \<noteq> Blk 0" by auto
    have "ref_cnt (objs p b) \<ge> 0" "ref_cnt (objs p b) = 0 \<longleftrightarrow> b \<in> set xs" using ok b by (auto simp: pool_ok_def)
    then show "ref_cnt (objs p2 b) \<ge> 0 \<and> (ref_cnt (objs p2 b) = 0 \<longleftrightarrow> b \<in> set (xs @ ?ys))"
      using rc2[of b] rc[of b] cnt[OF nb] nb null ref[of b] by auto
  qed
  then show ?thesis using p2(1,2) fr ro2 rc2 rc by (simp add: free_blocks_def Let_def pool_repr_def)
qed

section \<open>Lookup, caching and reset\<close>

definition group_key :: "bytes \<Rightarrow> int \<Rightarrow> bytes" where
  "group_key h g = h @ be_bytes 4 (nat g)"

definition valid_group :: "int \<Rightarrow> bool" where
  "valid_group g \<longleftrightarrow> 0 \<le> g \<and> g < 256 ^ 4"

lemma make_key: "valid_group g \<Longrightarrow> make_block_hash_with_group_id h g = Inr (group_key h g)"
  by (simp add: make_block_hash_with_group_id_def to_bytes_def group_key_def valid_group_def)

lemma get_one_pool:
  assumes "pool_ok p F"
  shows "\<exists>r. bm_get_one_block (cached_block_hash_to_block p) key = Inr r \<and>
    (case r of None \<Rightarrow> \<forall>b. block_hash (objs p b) \<noteq> Some key
     | Some b \<Rightarrow> b \<in> usable p \<and> block_hash (objs p b) = Some key)"
proof -
  have ix: "index_ok p" using assms by (simp add: pool_ok_def)
  then have "bm_ok (ident p) (cached_block_hash_to_block p)" by (simp add: index_ok_def)
  from bm.get_one_spec[OF this, of key] show ?thesis using ix by (auto simp: index_ok_def split: option.splits)
qed

lemma get_cached_block_spec:
  assumes "pool_ok p F" "\<forall>g \<in> set gs. valid_group g"
  shows "\<exists>r. get_cached_block p h gs = Inr r \<and>
    (case r of
       None \<Rightarrow> \<exists>g \<in> set gs. \<forall>b. block_hash (objs p b) \<noteq> Some (group_key h g)
     | Some bs \<Rightarrow> list_all2 (\<lambda>g b. b \<in> usable p \<and> block_hash (objs p b) = Some (group_key h g)) gs bs)"
  using assms(2)
proof (induction gs)
  case (Cons g gs)
  then obtain r where r: "get_cached_block p h gs = Inr r"
    "case r of None \<Rightarrow> \<exists>g \<in> set gs. \<forall>b. block_hash (objs p b) \<noteq> Some (group_key h g)
     | Some bs \<Rightarrow> list_all2 (\<lambda>g b. b \<in> usable p \<and> block_hash (objs p b) = Some (group_key h g)) gs bs" by auto
  have k: "make_block_hash_with_group_id h g = Inr (group_key h g)" using Cons.prems make_key by simp
  obtain o1 where o1: "bm_get_one_block (cached_block_hash_to_block p) (group_key h g) = Inr o1"
    "case o1 of None \<Rightarrow> \<forall>b. block_hash (objs p b) \<noteq> Some (group_key h g)
     | Some b \<Rightarrow> b \<in> usable p \<and> block_hash (objs p b) = Some (group_key h g)"
    using get_one_pool[OF assms(1), of "group_key h g"] by blast
  show ?case using r o1 k by (cases o1; cases r) auto
qed simp

lemma evict_blocks_spec:
  assumes "pool_repr p xs" "\<forall>i \<in> set ids. 0 \<le> i \<and> i < num_gpu_blocks p"
  shows "\<exists>p'. evict_blocks ids p = Inr p' \<and> pool_repr p' xs \<and> pool_config p' = pool_config p \<and>
    objs p' = (\<lambda>b. if b \<in> Blk ` nat ` set ids then (objs p b)\<lparr>block_hash := None\<rparr> else objs p b)"
  using assms
proof (induction ids arbitrary: p)
  case Nil
  then show ?case by (simp add: evict_blocks_def)
next
  case (Cons i ids)
  have ok: "pool_ok p (set xs)" using Cons.prems(1) by (simp add: pool_repr_def)
  have pb: "pool_blocks p = map Blk [0..<nat (num_gpu_blocks p)]" using ok by (simp add: pool_ok_def)
  have i: "0 \<le> i" "i < num_gpu_blocks p" using Cons.prems(2) by auto
  then have idx: "py_index (pool_blocks p) i = Inr (Blk (nat i))" "i < int (length (pool_blocks p))"
    by (simp_all add: pb py_index_def Let_def)
  let ?p1 = "snd (maybe_evict_cached_block (Blk (nat i)) p)"
  note ev = maybe_evict_spec[OF ok, of "Blk (nat i)"]
  have "pool_repr ?p1 xs" using ev Cons.prems(1) by (simp add: pool_repr_def)
  moreover have "num_gpu_blocks ?p1 = num_gpu_blocks p" by (rule config_fields(1)[OF ev(3)])
  ultimately obtain p2 where p2: "evict_blocks ids ?p1 = Inr p2" "pool_repr p2 xs" "pool_config p2 = pool_config ?p1"
    "objs p2 = (\<lambda>b. if b \<in> Blk ` nat ` set ids then (objs ?p1 b)\<lparr>block_hash := None\<rparr> else objs ?p1 b)"
    using Cons.IH[of ?p1] Cons.prems(2) by auto
  have "evict_blocks (i # ids) p = evict_blocks ids ?p1" by (simp add: evict_blocks_def idx)
  moreover have "objs p2 = (\<lambda>b. if b \<in> Blk ` nat ` set (i # ids) then (objs p b)\<lparr>block_hash := None\<rparr> else objs p b)"
    unfolding p2(4) ev(2) by (auto simp: fun_eq_iff)
  ultimately show ?case using p2(1,2,3) ev(3) by metis
qed

lemma cache_one_step:
  assumes ok: "pool_ok p F" and b: "b \<in> usable p" and none: "block_hash (objs p b) = None"
  shows "pool_ok ((set_block_hash b (Some key) p)\<lparr>cached_block_hash_to_block :=
           bm_insert (ident p) (cached_block_hash_to_block p) key b\<rparr>) F"
proof (rule pool_ok_set_hash[OF ok])
  let ?m = "cached_block_hash_to_block p"
  have bm: "bm_ok (ident p) ?m" "\<And>k. bm_blocks ?m k = {b. block_hash (objs p b) = Some k}"
    using ok by (simp_all add: pool_ok_def index_ok_def)
  show "bm_ok (ident p) (bm_insert (ident p) ?m key b)" by (rule bm.ins_ok[OF bm(1)])
  have "insert b (bm_blocks ?m key) \<subseteq> range Blk" using cached_Blk[OF ok] b by (auto simp: usable_def)
  then have "inj_on (ident p) (insert b (bm_blocks ?m key))" by (rule inj_on_subset[OF ident_inj[OF ok]])
  from bm.ins_blocks[OF bm(1) this] none
  show "bm_blocks (bm_insert (ident p) ?m key b) k = {x. block_hash (objs (set_block_hash b (Some key) p) x) = Some k}" for k
    by (auto simp: bm(2))
qed (use b in simp)

lemma cache_loop_spec:
  assumes "pool_ok p F" "fq_repr p xs" "snd ` set ps \<subseteq> set (pool_blocks p)" "valid_group g"
    "distinct (filter (\<lambda>b. b \<noteq> Blk 0) (map snd ps))"
    "\<forall>(i, b) \<in> set ps. (b \<noteq> Blk 0 \<longrightarrow> block_hash (objs p b) = None) \<and> py_index hs (int i) = Inr (hf i)"
  shows "\<exists>p' es'. mfold (cache_one_block hs g) ps (p, es) = Inr (p', es') \<and>
    pool_ok p' F \<and> fq_repr p' xs \<and> pool_config p' = pool_config p \<and> kv_event_queue p' = kv_event_queue p \<and>
    (\<forall>b. ref_cnt (objs p' b) = ref_cnt (objs p b)) \<and>
    (\<forall>(i, b) \<in> set ps. b \<noteq> Blk 0 \<longrightarrow> block_hash (objs p' b) = Some (group_key (hf i) g)) \<and>
    (\<forall>b. b \<notin> snd ` set ps \<longrightarrow> objs p' b = objs p b) \<and>
    es' = es @ map (\<lambda>(i, b). maybe_convert_block_hash (use_int_block_hashes p) (hf i)) (filter (\<lambda>(i, b). b \<noteq> Blk 0) ps)"
  using assms
proof (induction ps arbitrary: p es)
  case Nil
  then show ?case by simp
next
  case (Cons ib ps)
  obtain i b where ib: "ib = (i, b)" by (cases ib)
  have bp: "b \<in> set (pool_blocks p)" using Cons.prems(3) ib by auto
  note n = is_null_iff[OF Cons.prems(1) bp]
  show ?case
  proof (cases "b = Blk 0")
    case True
    then have "mfold (cache_one_block hs g) (ib # ps) (p, es) = mfold (cache_one_block hs g) ps (p, es)"
      using n by (simp add: ib cache_one_block_def)
    moreover have "distinct (filter (\<lambda>b. b \<noteq> Blk 0) (map snd ps))" using Cons.prems(5) True ib by simp
    ultimately show ?thesis using Cons.IH[of p es] Cons.prems True ib by fastforce
  next
    case False
    let ?key = "group_key (hf i) g"
    let ?p1 = "(set_block_hash b (Some ?key) p)\<lparr>cached_block_hash_to_block :=
           bm_insert (ident p) (cached_block_hash_to_block p) ?key b\<rparr>"
    let ?es = "es @ [maybe_convert_block_hash (use_int_block_hashes p) (hf i)]"
    have u: "b \<in> usable p" using blocks_cases[OF Cons.prems(1) bp] False by simp
    have h0: "block_hash (objs p b) = None" "py_index hs (int i) = Inr (hf i)" using Cons.prems(6) ib False by auto
    have ok1: "pool_ok ?p1 F" by (rule cache_one_step[OF Cons.prems(1) u h0(1)])
    have st: "cache_one_block hs g ib (p, es) = Inr (?p1, ?es)"
      using n False h0 make_key[OF Cons.prems(4)] by (simp add: ib cache_one_block_def Let_def)
    have nb: "b \<notin> snd ` set ps" using Cons.prems(5) False ib by auto
    have "\<forall>(j, c) \<in> set ps. (c \<noteq> Blk 0 \<longrightarrow> block_hash (objs ?p1 c) = None) \<and> py_index hs (int j) = Inr (hf j)"
      using Cons.prems(6) nb by (auto simp: image_iff)
    moreover have "pool_blocks ?p1 = pool_blocks p" "use_int_block_hashes ?p1 = use_int_block_hashes p"
      by (rule config_fields(4), simp) (rule config_fields(7), simp)
    moreover have "distinct (filter (\<lambda>b. b \<noteq> Blk 0) (map snd ps))" using Cons.prems(5) ib by (simp split: if_splits)
    moreover have "fq_repr ?p1 xs" using Cons.prems(2) by simp
    ultimately obtain p2 es2 where p2: "mfold (cache_one_block hs g) ps (?p1, ?es) = Inr (p2, es2)"
      "pool_ok p2 F" "fq_repr p2 xs" "pool_config p2 = pool_config ?p1" "kv_event_queue p2 = kv_event_queue ?p1"
      "\<forall>b. ref_cnt (objs p2 b) = ref_cnt (objs ?p1 b)"
      "\<forall>(i, b) \<in> set ps. b \<noteq> Blk 0 \<longrightarrow> block_hash (objs p2 b) = Some (group_key (hf i) g)"
      "\<forall>b. b \<notin> snd ` set ps \<longrightarrow> objs p2 b = objs ?p1 b"
      "es2 = ?es @ map (\<lambda>(i, b). maybe_convert_block_hash (use_int_block_hashes p) (hf i)) (filter (\<lambda>(i, b). b \<noteq> Blk 0) ps)"
      using Cons.IH[of ?p1 ?es, OF ok1] Cons.prems(3,4) by auto
    have "block_hash (objs p2 b) = Some ?key" using p2(8) nb by simp
    moreover have "kv_event_queue ?p1 = kv_event_queue p" by (simp add: set_block_hash_def)
    moreover have "ref_cnt (objs p2 x) = ref_cnt (objs p x)" for x using p2(6) by simp
    moreover have "\<forall>x. x \<notin> snd ` set (ib # ps) \<longrightarrow> objs p2 x = objs p x" using p2(8) ib by simp
    ultimately show ?thesis using p2(1-5,7,9) st ib False by auto
  qed
qed

text \<open>The hash of block \<open>i\<close> when a block spans \<open>f\<close> hashed chunks: the concatenation of its chunks' hashes.\<close>

definition scaled_hash :: "bytes list \<Rightarrow> int \<Rightarrow> int \<Rightarrow> bytes" where
  "scaled_hash hs f i = concat (take (nat f) (drop (nat (i * f)) hs))"

lemma upto_Cons: "a \<le> b \<Longrightarrow> [a..b] = a # [a + 1..b]"
  by (simp add: upto.simps)

lemma merge_loop:
  assumes "0 \<le> b" "b + int k \<le> int (length hs)"
  shows "mfold (\<lambda>i acc. rbind (py_index hs i) (\<lambda>h. Inr (acc @ h))) [b..b + int k - 1] acc =
    Inr (acc @ concat (take k (drop (nat b) hs)))"
  using assms
proof (induction k arbitrary: b acc)
  case (Suc k)
  have "py_index hs b = Inr (hs ! nat b)" using Suc.prems by (simp add: py_index_def Let_def)
  moreover have "[b..b + int (Suc k) - 1] = b # [b + 1..(b + 1) + int k - 1]"
    using upto_Cons[of b "b + int (Suc k) - 1"] by (simp add: algebra_simps)
  moreover have "take (Suc k) (drop (nat b) hs) = hs ! nat b # take k (drop (nat (b + 1)) hs)"
  proof -
    have "nat b < length hs" using Suc.prems by simp
    moreover have "nat (b + 1) = Suc (nat b)" using Suc.prems by simp
    ultimately show ?thesis by (simp add: Cons_nth_drop_Suc[symmetric])
  qed
  moreover have "b + 1 + int k \<le> int (length hs)" using Suc.prems by simp
  ultimately show ?case using Suc.IH[of "b + 1"] Suc.prems by simp
qed simp

lemma get_value_at_spec:
  assumes "0 < f" "0 \<le> i" "(i + 1) * f \<le> int (length hs)"
  shows "get_value_at hs f i = Inr (scaled_hash hs f i)"
proof -
  let ?b = "i * f"
  have b: "0 \<le> ?b" "?b + f \<le> int (length hs)" using assms by (simp_all add: algebra_simps)
  then have ix: "nat ?b < length hs" using assms(1) by linarith
  have "py_index hs ?b = Inr (hs ! nat ?b)" using b ix by (simp add: py_index_def Let_def)
  moreover have "mfold (\<lambda>i acc. rbind (py_index hs i) (\<lambda>h. Inr (acc @ h))) [?b + 1..?b + f - 1] (hs ! nat ?b) =
    Inr (hs ! nat ?b @ concat (take (nat f - 1) (drop (nat (?b + 1)) hs)))"
  proof -
    have "?b + 1 + int (nat f - 1) - 1 = ?b + f - 1" "?b + 1 + int (nat f - 1) \<le> int (length hs)" using assms(1) b by auto
    then show ?thesis using merge_loop[of "?b + 1" "nat f - 1" hs "hs ! nat ?b"] b(1) by simp
  qed
  moreover have "take (nat f) (drop (nat ?b) hs) = hs ! nat ?b # take (nat f - 1) (drop (nat (?b + 1)) hs)"
  proof -
    have "nat (?b + 1) = Suc (nat ?b)" "nat f = Suc (nat f - 1)" using b assms(1) by auto
    then show ?thesis using ix by (metis Cons_nth_drop_Suc take_Suc_Cons)
  qed
  ultimately show ?thesis by (simp add: get_value_at_def Let_def scaled_hash_def)
qed

lemma scaled_hash_1:
  assumes "0 \<le> i" "i < int (length hs)"
  shows "scaled_hash hs 1 i = hs ! nat i"
proof -
  have "drop (nat i) hs = hs ! nat i # drop (Suc (nat i)) hs" using assms by (intro Cons_nth_drop_Suc[symmetric]) simp
  then show ?thesis by (simp add: scaled_hash_def)
qed

lemma py_index_nat: "j < length xs \<Longrightarrow> py_index xs (int j) = Inr (xs ! j)"
  by (simp add: py_index_def Let_def)

lemma bhl_from_spec:
  assumes "0 < f" "0 \<le> nc" "hl = (if f = 1 then HashList hs else ScaledHashList hs f)"
  shows "\<exists>new. bhl_from hl nc = Inr new \<and>
    (\<forall>j. (nc + int j + 1) * f \<le> int (length hs) \<longrightarrow> py_index new (int j) = Inr (scaled_hash hs f (nc + int j)))"
proof (cases "f = 1")
  case True
  have "py_index (py_drop nc hs) (int j) = Inr (scaled_hash hs f (nc + int j))"
    if "(nc + int j + 1) * f \<le> int (length hs)" for j
  proof -
    have "nc + int j < int (length hs)" using that True by simp
    moreover have "nat nc + j = nat (nc + int j)" using assms(2) by simp
    moreover have "j < length (drop (nat nc) hs)" using calculation assms(2) by simp
    ultimately show ?thesis
      using True assms(2) py_index_nat[of j "drop (nat nc) hs"] by (simp add: scaled_hash_1 py_drop_def slice_pos_def)
  qed
  then show ?thesis using True assms(3) by simp
next
  case False
  define n where "n = int (length hs) div f"
  have le: "(i + 1) * f \<le> int (length hs) \<longleftrightarrow> i < n" for i
    using le_div_iff_mult_le[OF assms(1), of "i + 1" "int (length hs)"] by (auto simp: n_def)
  let ?s = "min nc n"
  have n0: "0 \<le> n" using assms(1) by (simp add: n_def pos_imp_zdiv_nonneg_iff)
  have "get_value_at hs f i = Inr (scaled_hash hs f i)" if "i \<in> set [?s..n - 1]" for i
    using get_value_at_spec[OF assms(1)] le[of i] that assms(2) n0 by auto
  then have m: "mmap (get_value_at hs f) [?s..n - 1] = Inr (map (scaled_hash hs f) [?s..n - 1])" by (rule mmap_map)
  have "py_index (map (scaled_hash hs f) [?s..n - 1]) (int j) = Inr (scaled_hash hs f (nc + int j))"
    if "(nc + int j + 1) * f \<le> int (length hs)" for j
  proof -
    have "nc + int j < n" using that le by simp
    then have "?s = nc" "j < length [?s..n - 1]" by auto
    then show ?thesis using py_index_nat[of j "map (scaled_hash hs f) [?s..n - 1]"] nth_upto[of nc j "n - 1"] \<open>nc + int j < n\<close>
      by simp
  qed
  then show ?thesis using False assms(2,3) m by (simp add: n_def Let_def)
qed

lemma enumerate_slice:
  assumes "0 \<le> nc" "nc \<le> nf" "nf \<le> int (length blocks)"
  defines "new \<equiv> py_slice nc nf blocks"
  shows "length new = nat (nf - nc)" "\<And>j. j < nat (nf - nc) \<Longrightarrow> new ! j = blocks ! (nat nc + j)"
    "set (zip [0..<length new] new) = (\<lambda>j. (j, blocks ! (nat nc + j))) ` {0..<nat (nf - nc)}"
    "map snd (zip [0..<length new] new) = new"
proof -
  have eq: "new = drop (nat nc) (take (nat nf) blocks)" using assms(1,2) by (simp add: new_def py_slice_def slice_pos_def)
  show l: "length new = nat (nf - nc)" using assms(1-3) by (simp add: eq nat_diff_distrib')
  show n: "new ! j = blocks ! (nat nc + j)" if "j < nat (nf - nc)" for j
    using that assms(1-3) by (simp add: eq)
  show "map snd (zip [0..<length new] new) = new" by simp
  show "set (zip [0..<length new] new) = (\<lambda>j. (j, blocks ! (nat nc + j))) ` {0..<nat (nf - nc)}"
  proof -
    have "zip [0..<length new] new = map (\<lambda>j. (j, new ! j)) [0..<length new]" by (rule nth_equalityI) simp_all
    then have "set (zip [0..<length new] new) = (\<lambda>j. (j, new ! j)) ` {0..<length new}" by (simp only: set_map set_upt)
    also have "\<dots> = (\<lambda>j. (j, blocks ! (nat nc + j))) ` {0..<nat (nf - nc)}"
      unfolding l by (rule image_cong) (simp_all add: n)
    finally show ?thesis .
  qed
qed

lemma cache_full_blocks_spec:
  assumes rep: "pool_repr p xs" and nc: "0 \<le> nc" "nc < nf" "nf \<le> int (length blocks)"
    and new: "set (py_slice nc nf blocks) \<subseteq> set (pool_blocks p)"
      "distinct (filter (\<lambda>b. b \<noteq> null_block p) (py_slice nc nf blocks))"
      "\<forall>b \<in> set (py_slice nc nf blocks). b \<noteq> null_block p \<longrightarrow> block_hash (objs p b) = None"
    and g: "valid_group g" and f: "0 < hash_block_size p" "block_size = f * hash_block_size p" "0 < f"
    and hl: "nf * f \<le> int (length (block_hashes request))"
  shows "\<exists>p'. cache_full_blocks request blocks nc nf block_size g p = Inr p' \<and> pool_repr p' xs \<and>
    pool_config p' = pool_config p \<and> (\<forall>b. ref_cnt (objs p' b) = ref_cnt (objs p b)) \<and>
    (\<forall>i. nc \<le> i \<and> i < nf \<and> blocks ! nat i \<noteq> null_block p \<longrightarrow>
       block_hash (objs p' (blocks ! nat i)) = Some (group_key (scaled_hash (block_hashes request) f i) g)) \<and>
    (\<forall>b. b \<notin> set (py_slice nc nf blocks) \<longrightarrow> objs p' b = objs p b)"
proof -
  let ?hs = "block_hashes request" and ?new = "py_slice nc nf blocks"
  let ?ps = "zip [0..<length ?new] ?new"
  have fq: "fq_repr p xs" and ok: "pool_ok p (set xs)" using rep by (simp_all add: pool_repr_def)
  have null: "null_block p = Blk 0" using ok by (simp add: pool_ok_def)
  note en = enumerate_slice[OF nc(1) less_imp_le[OF nc(2)] nc(3)]
  define hashes where "hashes = (if f = 1 then HashList ?hs else ScaledHashList ?hs f)"
  obtain nh where nh: "bhl_from hashes nc = Inr nh"
    "\<And>j. (nc + int j + 1) * f \<le> int (length ?hs) \<Longrightarrow> py_index nh (int j) = Inr (scaled_hash ?hs f (nc + int j))"
    using bhl_from_spec[OF f(3) nc(1) hashes_def] by blast
  have fit: "(nc + int j + 1) * f \<le> int (length ?hs)" if "j < nat (nf - nc)" for j
  proof -
    have "(nc + int j + 1) * f \<le> nf * f" using that f(3) nc by (intro mult_right_mono) auto
    then show ?thesis using hl by linarith
  qed
  have m1: "snd ` set ?ps \<subseteq> set (pool_blocks p)" using new(1) en(4) by (metis list.set_map)
  have m2: "distinct (filter (\<lambda>b. b \<noteq> Blk 0) (map snd ?ps))" using new(2) null by simp
  have m3: "\<forall>(i, b) \<in> set ?ps. (b \<noteq> Blk 0 \<longrightarrow> block_hash (objs p b) = None) \<and>
      py_index nh (int i) = Inr (scaled_hash ?hs f (nc + int i))"
    using nh(2) fit new(3) null en(1) by (auto dest: set_zip_rightD set_zip_leftD)
  obtain p1 es where p1: "mfold (cache_one_block nh g) ?ps (p, []) = Inr (p1, es)" "pool_ok p1 (set xs)"
    "fq_repr p1 xs" "pool_config p1 = pool_config p" "\<forall>b. ref_cnt (objs p1 b) = ref_cnt (objs p b)"
    "\<forall>(i, b) \<in> set ?ps. b \<noteq> Blk 0 \<longrightarrow> block_hash (objs p1 b) = Some (group_key (scaled_hash ?hs f (nc + int i)) g)"
    "\<forall>b. b \<notin> snd ` set ?ps \<longrightarrow> objs p1 b = objs p b"
    using cache_loop_spec[OF ok fq m1 g m2 m3, of "[]"] by blast
  have hb: "hash_block_size p \<noteq> 0" "block_size mod hash_block_size p = 0" "block_size div hash_block_size p = f"
    "block_size = hash_block_size p \<longleftrightarrow> f = 1"
    using f by (auto simp: mult_cancel_right1)
  have "nf \<le> nf * f" using f(3) nc by (simp add: mult_le_cancel_left1)
  then have len: "nf \<le> int (length ?hs)" using hl by linarith
  have par: "\<exists>par. (if nc = 0 then Inr None else rbind (bhl_item hashes (nc - 1)) (\<lambda>h.
                      Inr (Some (maybe_convert_block_hash (use_int_block_hashes p1) h)))) = (Inr par :: _ result)"
  proof (cases "nc = 0")
    case False
    have "nc * f \<le> nf * f" using f(3) nc by simp
    then have "(nc - 1 + 1) * f \<le> int (length ?hs)" using hl by simp
    then have "\<exists>h. bhl_item hashes (nc - 1) = Inr h"
      using False nc get_value_at_spec[OF f(3), of "nc - 1" ?hs] by (auto simp: hashes_def py_index_def Let_def)
    then show ?thesis using False by auto
  qed simp
  have sel: "(if block_size = hash_block_size p then Inr (HashList ?hs)
              else if hash_block_size p = 0 then Inl ZeroDivisionError
              else py_assert (block_size mod hash_block_size p = 0)
                     (BlockHashListWithBlockSize ?hs (hash_block_size p) block_size)) = Inr hashes"
    using hb by (simp add: hashes_def BlockHashListWithBlockSize_def)
  obtain evs where "cache_full_blocks request blocks nc nf block_size g p = Inr (p1\<lparr>kv_event_queue := evs\<rparr>)"
  proof (cases "enable_kv_cache_events p1")
    case True
    then show ?thesis using that par nc(2) len sel nh(1) p1(1) by (auto simp: cache_full_blocks_def Let_def)
  next
    case False
    then have "cache_full_blocks request blocks nc nf block_size g p = Inr (p1\<lparr>kv_event_queue := kv_event_queue p1\<rparr>)"
      using nc(2) len sel nh(1) p1(1) by (simp add: cache_full_blocks_def Let_def)
    then show ?thesis by (rule that)
  qed
  moreover have "block_hash (objs p1 (blocks ! nat i)) = Some (group_key (scaled_hash ?hs f i) g)"
    if i: "nc \<le> i" "i < nf" "blocks ! nat i \<noteq> null_block p" for i
  proof -
    have "(nat (i - nc), blocks ! nat i) \<in> set ?ps"
      unfolding en(3) using i nc(1) by (auto simp: image_iff intro!: bexI[of _ "nat (i - nc)"] arg_cong[where f = "(!) blocks"])
    then show ?thesis using p1(6) i null nc(1) by fastforce
  qed
  moreover have "snd ` set ?ps = set ?new" using en(4) by (metis list.set_map)
  ultimately show ?thesis using p1(2-5,7) by (auto simp: pool_repr_def)
qed

lemma card_usable: "pool_ok p F \<Longrightarrow> int (card (usable p)) = num_gpu_blocks p - 1"
proof -
  assume "pool_ok p F"
  then have "num_gpu_blocks p > 0" by (simp add: pool_ok_def)
  moreover have "card (usable p) = card {0<..<nat (num_gpu_blocks p)}"
    unfolding usable_def by (rule card_image) (simp add: inj_on_def)
  ultimately show ?thesis by simp
qed

lemma num_free_card:
  assumes "pool_repr p xs"
  shows "get_num_free_blocks p = int (card {b \<in> usable p. ref_cnt (objs p b) = 0})"
proof -
  have f: "fq_repr p xs" and ok: "pool_ok p (set xs)" using assms by (simp_all add: pool_repr_def)
  have "{b \<in> usable p. ref_cnt (objs p b) = 0} = set xs" using ok by (auto simp: pool_ok_def)
  then show ?thesis using fq.repr_num[OF f] fq.repr_distinct[OF f]
    by (simp add: get_num_free_blocks_def distinct_card)
qed

lemma reset_hashes_objs:
  "objs (fold (\<lambda>b. set_block_hash b None) bs p) = (\<lambda>b. if b \<in> set bs then (objs p b)\<lparr>block_hash := None\<rparr> else objs p b) \<and>
   pool_config (fold (\<lambda>b. set_block_hash b None) bs p) = pool_config p \<and>
   cached_block_hash_to_block (fold (\<lambda>b. set_block_hash b None) bs p) = cached_block_hash_to_block p \<and>
   fq_repr (fold (\<lambda>b. set_block_hash b None) bs p) xs = fq_repr p xs"
  by (induction bs arbitrary: p) (auto simp: fun_eq_iff)

lemma reset_prefix_cache_spec:
  assumes rep: "pool_repr p xs"
  shows "fst (reset_prefix_cache p) \<longleftrightarrow> (\<forall>b \<in> usable p. ref_cnt (objs p b) = 0)"
    and "\<not> fst (reset_prefix_cache p) \<Longrightarrow> snd (reset_prefix_cache p) = p"
    and "fst (reset_prefix_cache p) \<Longrightarrow> pool_repr (snd (reset_prefix_cache p)) xs \<and>
      pool_config (snd (reset_prefix_cache p)) = pool_config p \<and>
      (\<forall>b. block_hash (objs (snd (reset_prefix_cache p)) b) = None) \<and>
      (\<forall>b. ref_cnt (objs (snd (reset_prefix_cache p)) b) = ref_cnt (objs p b))"
proof -
  have f: "fq_repr p xs" and ok: "pool_ok p (set xs)" using rep by (simp_all add: pool_repr_def)
  let ?F = "{b \<in> usable p. ref_cnt (objs p b) = 0}"
  have fst_eq: "fst (reset_prefix_cache p) \<longleftrightarrow> num_gpu_blocks p - get_num_free_blocks p = 1"
    by (simp add: reset_prefix_cache_def Let_def)
  have fin: "finite (usable p)" by (simp add: usable_def)
  have "num_gpu_blocks p - get_num_free_blocks p = 1 \<longleftrightarrow> card ?F = card (usable p)"
    using num_free_card[OF rep] card_usable[OF ok] by auto
  also have "\<dots> \<longleftrightarrow> ?F = usable p" using card_subset_eq[OF fin, of ?F] by auto
  finally show "fst (reset_prefix_cache p) \<longleftrightarrow> (\<forall>b \<in> usable p. ref_cnt (objs p b) = 0)" using fst_eq by auto
  show "\<not> fst (reset_prefix_cache p) \<Longrightarrow> snd (reset_prefix_cache p) = p"
    by (simp add: reset_prefix_cache_def Let_def split: if_splits)
  let ?p1 = "p\<lparr>cached_block_hash_to_block := []\<rparr>"
  let ?p2 = "fold (\<lambda>b. set_block_hash b None) (pool_blocks ?p1) ?p1"
  note rh = reset_hashes_objs[of "pool_blocks ?p1" ?p1 xs]
  have pb: "set (pool_blocks p) = insert (Blk 0) (usable p)" by (rule usable_blocks[OF ok])
  have nohash: "block_hash (objs ?p2 b) = None" for b
  proof (cases "b \<in> set (pool_blocks p)")
    case False
    then have "block_hash (objs p b) = None" using ok pb by (cases "block_hash (objs p b)") (auto simp: pool_ok_def index_ok_def)
    then show ?thesis using rh by simp
  qed (use rh in simp)
  have c: "pool_config ?p2 = pool_config p" using rh by simp
  have "ident ?p2 = ident p" using rh by (auto simp: ident_def fun_eq_iff)
  then have "index_ok ?p2"
    using nohash rh by (simp add: index_ok_def bm_ok_def bm_blocks_def)
  moreover have same: "ref_cnt (objs ?p2 b) = ref_cnt (objs p b)" "block_id (objs ?p2 b) = block_id (objs p b)"
    "is_null (objs ?p2 b) = is_null (objs p b)" for b using rh by simp_all
  ultimately have "pool_ok ?p2 (set xs)" using ok unfolding pool_ok_def same config_fields[OF c] by simp
  moreover have "fq_repr ?p2 xs" using rh f by simp
  moreover have "snd (reset_prefix_cache p) = collect OnReset ?p2 \<or>
    (\<exists>es. snd (reset_prefix_cache p) = (collect OnReset ?p2)\<lparr>kv_event_queue := es\<rparr>)" if "fst (reset_prefix_cache p)"
    using that fst_eq by (auto simp: reset_prefix_cache_def Let_def)
  ultimately show "fst (reset_prefix_cache p) \<Longrightarrow> pool_repr (snd (reset_prefix_cache p)) xs \<and>
      pool_config (snd (reset_prefix_cache p)) = pool_config p \<and>
      (\<forall>b. block_hash (objs (snd (reset_prefix_cache p)) b) = None) \<and>
      (\<forall>b. ref_cnt (objs (snd (reset_prefix_cache p)) b) = ref_cnt (objs p b))"
    using nohash same c by (auto simp: pool_repr_def)
qed

lemma init_pool_ok:
  assumes "0 < n" "fq_repr p xs" "set xs = Blk ` {0<..<nat n}" "num_gpu_blocks p = n"
    "pool_blocks p = map Blk [0..<nat n]" "cached_block_hash_to_block p = []"
    "\<And>i. payload (objs p) (Blk i) = (int i, 0, None, False)"
    "\<And>b. block_hash (objs p b) = None"
  shows "pool_repr (p\<lparr>null_block := Blk 0, objs := (objs p)(Blk 0 := (objs p (Blk 0))\<lparr>is_null := True\<rparr>)\<rparr>) xs"
    (is "pool_repr ?p xs")
proof -
  have u: "usable ?p = set xs" using assms(3,4) by (simp add: usable_def)
  have "index_ok ?p" using assms(6,8) by (auto simp: index_ok_def bm_ok_def bm_blocks_def)
  moreover have "fq_repr ?p xs"
    using assms(2) links_ok_cong[of "(objs p)(Blk 0 := (objs p (Blk 0))\<lparr>is_null := True\<rparr>)" "objs p" xs]
    by (simp add: fq_repr_def)
  moreover have "block_id (objs ?p (Blk i)) = int i" "is_null (objs ?p (Blk i)) \<longleftrightarrow> i = 0"
    "ref_cnt (objs ?p (Blk i)) = 0" for i
    using assms(7)[of i] by (auto simp: payload_def)
  moreover from this(3) have "\<forall>b \<in> set xs. ref_cnt (objs ?p b) = 0" unfolding assms(3) by blast
  ultimately show ?thesis using assms(1,4,5) u by (simp add: pool_repr_def pool_ok_def del: fun_upd_apply)
qed

lemma BlockPool_init_spec:
  assumes "0 < n"
  shows "\<exists>p. BlockPool_init n caching hsize events metrics ints = Inr p \<and> pool_repr p (map Blk [1..<nat n]) \<and>
    num_gpu_blocks p = n \<and> enable_caching p = caching \<and> hash_block_size p = hsize \<and>
    (\<forall>b. block_hash (objs p b) = None)"
proof -
  let ?bs = "map Blk [0..<nat n]"
  define p0 :: BlockPool where "p0 = \<lparr>objs = (\<lambda>r. case r of Blk i \<Rightarrow> new_block (int i) | _ \<Rightarrow> new_block (-1)), num_free_blocks = 0,
                  num_gpu_blocks = n, enable_caching = caching, hash_block_size = hsize,
                  pool_blocks = ?bs, cached_block_hash_to_block = [], null_block = FakeHead,
                  enable_kv_cache_events = events, kv_event_queue = [],
                  metrics_collector = (if metrics then Some [] else None),
                  use_int_block_hashes = ints\<rparr>"
  let ?p1 = "fq_init ?bs p0"
  have pre: "distinct ?bs" "set ?bs \<subseteq> range Blk" "?bs \<noteq> []" "\<And>i. unlinked (objs p0) (Blk i)"
    using assms by (auto simp: distinct_map inj_on_def p0_def unlinked_def new_block_def)
  have hd: "?bs = Blk 0 # map Blk [1..<nat n]" using assms by (simp add: upt_conv_Cons)
  have f1: "fq_repr ?p1 (Blk 0 # map Blk [1..<nat n])" "fbq.more ?p1 = fbq.more p0"
    using fq_init_repr[OF pre] hd by auto
  obtain p2 where p2: "fq_popleft ?p1 = Inr (Blk 0, p2)" "fq_repr p2 (map Blk [1..<nat n])"
    "payload (objs p2) = payload (objs ?p1)" "fbq.more p2 = fbq.more ?p1"
    using fq_popleft_spec[OF f1(1)] by blast
  have more: "fbq.more p2 = fbq.more p0" using p2(4) f1(2) by simp
  note cf = more_config[OF more] config_fields[OF more_config(1)[OF more]]
  have pl: "payload (objs p2) (Blk i) = (int i, 0, None, False)" for i
    unfolding p2(3) fq_init_objs(6)[OF pre] by (simp add: payload_def p0_def new_block_def)
  have nh: "block_hash (objs p2 b) = None" for b
  proof (cases b)
    case (Blk i)
    then show ?thesis using pl[of i] by (simp add: payload_def)
  next
    case FakeHead
    then show ?thesis using payload_fields(3)[OF fun_cong[OF p2(3)], of b] fq_init_objs(3)[OF pre] by (simp add: new_block_def)
  next
    case FakeTail
    then show ?thesis using payload_fields(3)[OF fun_cong[OF p2(3)], of b] fq_init_objs(4)[OF pre] by (simp add: new_block_def)
  qed
  have "set (map Blk [1..<nat n]) = Blk ` {0<..<nat n}" by (auto simp: image_iff)
  from init_pool_ok[OF assms p2(2) this _ _ _ pl nh] cf
  have "pool_repr (p2\<lparr>null_block := Blk 0, objs := (objs p2)(Blk 0 := (objs p2 (Blk 0))\<lparr>is_null := True\<rparr>)\<rparr>) (map Blk [1..<nat n])"
    by (simp add: p0_def)
  moreover have "BlockPool_init n caching hsize events metrics ints =
    Inr (p2\<lparr>null_block := Blk 0, objs := (objs p2)(Blk 0 := (objs p2 (Blk 0))\<lparr>is_null := True\<rparr>)\<rparr>)"
    using p2(1) assms by (simp add: BlockPool_init_def p0_def)
  ultimately show ?thesis using cf nh by (simp add: p0_def)
qed

section \<open>Reachable pools\<close>

lemma set_py_slice: "set (py_slice a b xs) \<subseteq> set xs"
  by (auto simp: py_slice_def dest: in_set_dropD in_set_takeD)

lemma cache_one_keeps:
  assumes "cache_one_block hs g (i, b) (p, es) = Inr (p', es')" "pool_repr p xs" "b \<in> set (pool_blocks p)"
  shows "pool_repr p' xs \<and> pool_config p' = pool_config p \<and> (\<forall>x. ref_cnt (objs p' x) = ref_cnt (objs p x))"
proof (cases "b = Blk 0")
  case True
  then have "is_null (objs p b)" using is_null_iff assms(2,3) by (auto simp: pool_repr_def)
  then show ?thesis using assms(1,2) by (simp add: cache_one_block_def)
next
  case False
  have ok: "pool_ok p (set xs)" and f: "fq_repr p xs" using assms(2) by (simp_all add: pool_repr_def)
  have u: "b \<in> usable p" using blocks_cases[OF ok assms(3)] False by simp
  have "\<not> is_null (objs p b)" using is_null_iff[OF ok assms(3)] False by simp
  with assms(1) obtain key where none: "block_hash (objs p b) = None" and p': "p' = (set_block_hash b (Some key) p)\<lparr>cached_block_hash_to_block :=
      bm_insert (ident p) (cached_block_hash_to_block p) key b\<rparr>"
    by (auto simp: cache_one_block_def rbind_Inr_iff Let_def)
  then show ?thesis using cache_one_step[OF ok u none, of key] f by (simp add: pool_repr_def)
qed

lemma cache_full_blocks_keeps:
  assumes run: "cache_full_blocks request blocks nc nf block_size g p = Inr p'" and rep: "pool_repr p xs"
    and bs: "set blocks \<subseteq> set (pool_blocks p)"
  shows "pool_repr p' xs \<and> pool_config p' = pool_config p \<and> (\<forall>x. ref_cnt (objs p' x) = ref_cnt (objs p x))"
proof (cases "nc \<ge> nf")
  case True
  then show ?thesis using run rep by (simp add: cache_full_blocks_def)
next
  case False
  let ?new = "py_slice nc nf blocks"
  from run False obtain nh q es where m: "mfold (cache_one_block nh g) (zip [0..<length ?new] ?new) (p, []) = Inr (q, es)"
    and p': "p' = q \<or> (\<exists>evs. p' = q\<lparr>kv_event_queue := evs\<rparr>)"
    unfolding cache_full_blocks_def Let_def
    by (auto simp: rbind_Inr_iff simp del: mfold.simps split: if_splits prod.splits)
  let ?I = "\<lambda>(q, es). pool_repr q xs \<and> pool_config q = pool_config p \<and> (\<forall>x. ref_cnt (objs q x) = ref_cnt (objs p x))"
  have "?I (q, es)"
  proof (rule mfold_Inr_inv[where I = ?I, OF m])
    fix ib s s' assume ib: "ib \<in> set (zip [0..<length ?new] ?new)" and I: "?I s" and st: "cache_one_block nh g ib s = Inr s'"
    obtain i b where "ib = (i, b)" by (cases ib)
    moreover obtain q1 e1 where "s = (q1, e1)" by (cases s)
    moreover obtain q2 e2 where "s' = (q2, e2)" by (cases s')
    moreover have "b \<in> set (pool_blocks p)" using ib calculation(1) set_py_slice bs by (fastforce dest: set_zip_rightD)
    ultimately show "?I s'" using cache_one_keeps[of nh g i b q1 e1 q2 e2 xs] I st config_fields(4)[of q1 p] by auto
  qed (use rep in simp)
  then show ?thesis using p' by (auto simp: pool_repr_def)
qed

lemma evict_blocks_keeps:
  assumes "evict_blocks ids p = Inr p'" "pool_repr p xs"
  shows "pool_repr p' xs \<and> pool_config p' = pool_config p \<and> (\<forall>x. ref_cnt (objs p' x) = ref_cnt (objs p x))"
proof (rule mfold_Inr_inv[where I = "\<lambda>q. pool_repr q xs \<and> pool_config q = pool_config p \<and>
    (\<forall>x. ref_cnt (objs q x) = ref_cnt (objs p x))", OF assms(1)[unfolded evict_blocks_def]])
  fix i q q' assume q: "pool_repr q xs \<and> pool_config q = pool_config p \<and> (\<forall>x. ref_cnt (objs q x) = ref_cnt (objs p x))"
    and st: "py_assert (i < int (length (pool_blocks q)))
     (rbind (py_index (pool_blocks q) i) (\<lambda>b. Inr (snd (maybe_evict_cached_block b q)))) = Inr q'"
  then obtain b where "q' = snd (maybe_evict_cached_block b q)" by (auto simp: rbind_Inr_iff)
  then show "pool_repr q' xs \<and> pool_config q' = pool_config p \<and> (\<forall>x. ref_cnt (objs q' x) = ref_cnt (objs p x))"
    using maybe_evict_spec(1-4)[of q "set xs" b] q by (simp add: pool_repr_def)
qed (use assms(2) in simp)

text \<open>
  The pools that any sequence of calls can produce. A caller may free a block only while it
  holds a reference, once per reference it gives back in a call; everything else is unrestricted.
\<close>

inductive pool_reachable :: "BlockPool \<Rightarrow> bool" where
  init: "BlockPool_init n caching hsize events metrics ints = Inr p \<Longrightarrow> pool_reachable p"
| alloc: "\<lbrakk>pool_reachable p; 0 \<le> n; get_new_blocks n p = Inr (bs, p')\<rbrakk> \<Longrightarrow> pool_reachable p'"
| touch: "\<lbrakk>pool_reachable p; set bs \<subseteq> set (pool_blocks p); touch bs p = Inr p'\<rbrakk> \<Longrightarrow> pool_reachable p'"
| free: "\<lbrakk>pool_reachable p; set bs \<subseteq> set (pool_blocks p); distinct (filter (\<lambda>b. b \<noteq> null_block p) bs);
    \<forall>b \<in> set bs. b \<noteq> null_block p \<longrightarrow> ref_cnt (objs p b) > 0; free_blocks bs p = Inr p'\<rbrakk> \<Longrightarrow> pool_reachable p'"
| cache: "\<lbrakk>pool_reachable p; set blocks \<subseteq> set (pool_blocks p);
    cache_full_blocks request blocks nc nf block_size g p = Inr p'\<rbrakk> \<Longrightarrow> pool_reachable p'"
| evict: "\<lbrakk>pool_reachable p; evict_blocks ids p = Inr p'\<rbrakk> \<Longrightarrow> pool_reachable p'"
| reset: "pool_reachable p \<Longrightarrow> pool_reachable (snd (reset_prefix_cache p))"
| events: "pool_reachable p \<Longrightarrow> pool_reachable (snd (take_events p))"

lemma reachable_repr: "pool_reachable p \<Longrightarrow> \<exists>xs. pool_repr p xs"
proof (induction rule: pool_reachable.induct)
  case (init n caching hsize events metrics ints p)
  then have "0 < n" unfolding BlockPool_init_def py_assert_Inr_iff by blast
  from BlockPool_init_spec[OF this, of caching hsize events metrics ints] init show ?case by auto
next
  case (alloc p n bs p')
  then obtain xs where xs: "pool_repr p xs" by blast
  show ?case
  proof (cases "n \<le> int (length xs)")
    case True
    then show ?thesis using get_new_blocks_spec[OF xs alloc.hyps(2)] alloc.hyps(3) by auto
  next
    case False
    then show ?thesis using get_new_blocks_too_many[OF xs] alloc.hyps(3) by simp
  qed
next
  case (touch p bs p')
  then obtain xs where "pool_repr p xs" by blast
  from touch_spec[OF this touch.hyps(2)] touch.hyps(3) show ?case by auto
next
  case (free p bs p')
  then obtain xs where "pool_repr p xs" by blast
  from free_blocks_spec[OF this free.hyps(2,3)] free.hyps(4,5) show ?case by auto
next
  case (cache p blocks request nc nf block_size g p')
  then show ?case using cache_full_blocks_keeps by blast
next
  case (evict p ids p')
  then show ?case using evict_blocks_keeps by blast
next
  case (reset p)
  then obtain xs where "pool_repr p xs" by blast
  then show ?case using reset_prefix_cache_spec[of p xs] by (cases "fst (reset_prefix_cache p)") auto
next
  case (events p)
  then show ?case by (auto simp: take_events_def pool_repr_def)
qed

end
