(* ===== verification/KV_Ownership.thy ===== *)
theory KV_Ownership
  imports KV_Cache_Manager Block_Pool_Correct
begin

text \<open>
  The ownership invariant of the KV cache: the reference count of every block is the number of
  its occurrences in the block tables of all requests in all groups. The locale
  \<open>table_operation\<close> is the contract of one manager's operation (it keeps the invariant, whatever
  the other groups hold); from it follows the same for the coordinator's run over all
  managers. The interpretations discharge the contract for the operations of the managers.
\<close>

section \<open>References held by block tables\<close>

definition table_refs :: "(string, bref list) dict \<Rightarrow> bref \<Rightarrow> int" where
  "table_refs d b = sum_list (map (\<lambda>(r, bs). int (count_list bs b)) d)"

definition manager_refs :: "SingleTypeKVCacheManager list \<Rightarrow> bref \<Rightarrow> int" where
  "manager_refs ms b = sum_list (map (\<lambda>m. table_refs (req_to_blocks m) b) ms)"

definition table_ok :: "bref list \<Rightarrow> bref list \<Rightarrow> bool" where
  "table_ok blocks bs \<longleftrightarrow> set bs \<subseteq> set blocks \<and> distinct (filter (\<lambda>b. b \<noteq> Blk 0) bs)"

text \<open>
  Well-formed managers: block tables over the pool's blocks, no block twice in a table, positive
  sizes, and for Mamba's aligned mode at least the speculative blocks in an allocated table.
\<close>

definition manager_ok :: "bref list \<Rightarrow> SingleTypeKVCacheManager \<Rightarrow> bool" where
  "manager_ok blocks m \<longleftrightarrow> distinct (map fst (req_to_blocks m)) \<and>
     (\<forall>rid. table_ok blocks (dd_list rid (req_to_blocks m))) \<and>
     mgr_null_block m = Blk 0 \<and> Blk 0 \<in> set blocks \<and> block_size m > 0 \<and>
     (mgr_class m = SlidingWindowManager \<longrightarrow> sliding_window m > 0) \<and>
     (mgr_class m = ChunkedLocalAttentionManager \<longrightarrow> attention_chunk_size m > 0) \<and>
     num_speculative_blocks m \<ge> 0 \<and>
     (\<not> (mgr_class m = MambaManager \<and> mgr_mamba_cache_mode m = ''align'') \<longrightarrow> allocated_block_reqs m = []) \<and>
     (\<forall>rid \<in> set (allocated_block_reqs m). num_speculative_blocks m \<le> int (length (dd_list rid (req_to_blocks m))))"

definition refs_match :: "BlockPool \<Rightarrow> (bref \<Rightarrow> int) \<Rightarrow> bool" where
  "refs_match p R \<longleftrightarrow> (\<exists>xs. pool_repr p xs) \<and> (\<forall>b \<in> usable p. ref_cnt (objs p b) = R b)"

definition kv_ok :: "BlockPool \<Rightarrow> SingleTypeKVCacheManager list \<Rightarrow> (bref \<Rightarrow> int) \<Rightarrow> bool" where
  "kv_ok p ms R \<longleftrightarrow> (\<forall>m \<in> set ms. manager_ok (pool_blocks p) m) \<and> refs_match p (\<lambda>b. manager_refs ms b + R b)"

lemma count_list_nonneg_table: "table_refs d b \<ge> 0"
  by (induction d) (auto simp: table_refs_def)

lemma manager_refs_nonneg: "manager_refs ms b \<ge> 0"
  by (induction ms) (auto simp: manager_refs_def count_list_nonneg_table)

lemma manager_refs_Cons [simp]: "manager_refs (m # ms) b = table_refs (req_to_blocks m) b + manager_refs ms b"
  by (simp add: manager_refs_def)

lemma manager_refs_Nil [simp]: "manager_refs [] b = 0"
  by (simp add: manager_refs_def)

lemma dd_list_update [simp]: "dd_list r (AList.update rid bs d) = (if r = rid then bs else dd_list r d)"
  by (simp add: dd_list_def map_of_update)

lemma dd_list_delete [simp]: "dd_list r (AList.delete rid d) = (if r = rid then [] else dd_list r d)"
  by (simp add: dd_list_def map_of_delete)

lemma table_refs_split:
  assumes "distinct (map fst d)"
  shows "table_refs d b = int (count_list (dd_list rid d) b) + table_refs (AList.delete rid d) b"
  using assms
proof (induction d)
  case Nil
  then show ?case by (simp add: table_refs_def dd_list_def)
next
  case (Cons a d)
  obtain r bs where a: "a = (r, bs)" by (cases a)
  show ?case
  proof (cases "r = rid")
    case True
    then have "rid \<notin> fst ` set d" using Cons.prems a by auto
    then have "AList.delete rid d = d" by (simp add: AList.delete_idem AList.delete_id)
    with True a show ?thesis by (simp add: table_refs_def dd_list_def)
  next
    case False
    with Cons a show ?thesis by (simp add: table_refs_def dd_list_def)
  qed
qed

lemma table_refs_update:
  assumes "distinct (map fst d)"
  shows "table_refs (AList.update rid bs d) b =
    table_refs d b - int (count_list (dd_list rid d) b) + int (count_list bs b)"
proof -
  have "distinct (map fst (AList.update rid bs d))" using assms by (rule AList.distinct_update)
  then show ?thesis
    using table_refs_split[OF assms, of b rid] table_refs_split[of "AList.update rid bs d" b rid]
    by (simp add: AList.delete_update_same)
qed

lemma table_refs_delete:
  assumes "distinct (map fst d)"
  shows "table_refs (AList.delete rid d) b = table_refs d b - int (count_list (dd_list rid d) b)"
  using table_refs_split[OF assms, of b rid] by simp

lemma table_le_refs:
  assumes "manager_ok blocks m"
  shows "int (count_list (dd_list rid (req_to_blocks m)) b) \<le> table_refs (req_to_blocks m) b"
proof -
  have "distinct (map fst (req_to_blocks m))" using assms by (simp add: manager_ok_def)
  then show ?thesis
    using table_refs_split[of "req_to_blocks m" b rid] count_list_nonneg_table[of "AList.delete rid (req_to_blocks m)" b]
    by simp
qed

lemma set_req_blocks_simps [simp]:
  "req_to_blocks (set_req_blocks rid bs m) = AList.update rid bs (req_to_blocks m)"
  "mgr_class (set_req_blocks rid bs m) = mgr_class m" "block_size (set_req_blocks rid bs m) = block_size m"
  "num_cached_block (set_req_blocks rid bs m) = num_cached_block m"
  "mgr_null_block (set_req_blocks rid bs m) = mgr_null_block m"
  "sliding_window (set_req_blocks rid bs m) = sliding_window m"
  "attention_chunk_size (set_req_blocks rid bs m) = attention_chunk_size m"
  "num_speculative_blocks (set_req_blocks rid bs m) = num_speculative_blocks m"
  "allocated_block_reqs (set_req_blocks rid bs m) = allocated_block_reqs m"
  "mgr_mamba_cache_mode (set_req_blocks rid bs m) = mgr_mamba_cache_mode m"
  "mgr_enable_caching (set_req_blocks rid bs m) = mgr_enable_caching m"
  "kv_cache_group_id (set_req_blocks rid bs m) = kv_cache_group_id m"
  "last_state_block_idx (set_req_blocks rid bs m) = last_state_block_idx m"
  by (simp_all add: set_req_blocks_def)

lemma manager_ok_set_req:
  assumes "manager_ok blocks m" "table_ok blocks bs"
    "rid \<in> set (allocated_block_reqs m) \<Longrightarrow> length bs \<ge> length (dd_list rid (req_to_blocks m))"
  shows "manager_ok blocks (set_req_blocks rid bs m)"
  using assms by (fastforce simp: manager_ok_def AList.distinct_update)

lemma kv_ok_config:
  assumes "pool_config p' = pool_config p"
  shows "(\<forall>m \<in> set ms. manager_ok (pool_blocks p') m) = (\<forall>m \<in> set ms. manager_ok (pool_blocks p) m)"
  using config_fields(4)[OF assms] by simp

lemma count_distinct: "distinct bs \<Longrightarrow> count_list bs b = (if b \<in> set bs then 1 else 0)"
  by (induction bs) auto

section \<open>Pool operations in terms of references\<close>

lemma pool_ok_refD:
  "pool_ok p F \<Longrightarrow> b \<in> usable p \<Longrightarrow> ref_cnt (objs p b) = 0 \<longleftrightarrow> b \<in> F"
  "pool_ok p F \<Longrightarrow> b \<in> usable p \<Longrightarrow> 0 \<le> ref_cnt (objs p b)"
  "pool_ok p F \<Longrightarrow> F \<subseteq> usable p" "pool_ok p F \<Longrightarrow> null_block p = Blk 0"
  by (simp_all add: pool_ok_def)

lemma refs_match_free_list: "refs_match p R \<Longrightarrow> \<exists>xs. pool_repr p xs \<and> (\<forall>b \<in> usable p. ref_cnt (objs p b) = R b)"
  by (auto simp: refs_match_def)

lemma refs_match_cong: "refs_match p R \<Longrightarrow> (\<And>b. b \<in> usable p \<Longrightarrow> R b = R' b) \<Longrightarrow> refs_match p R'"
  by (auto simp: refs_match_def)

lemma refs_match_alloc:
  assumes "refs_match p R" "0 \<le> n" "get_new_blocks n p = Inr (bs, p')"
  shows "refs_match p' (\<lambda>b. R b + int (count_list bs b))" "pool_config p' = pool_config p"
    "distinct bs" "set bs \<subseteq> usable p" "\<And>b. b \<in> set bs \<Longrightarrow> R b = 0" "int (length bs) = n"
    "n \<le> get_num_free_blocks p" "get_num_free_blocks p' = get_num_free_blocks p - n"
proof -
  obtain xs where xs: "pool_repr p xs" "\<And>b. b \<in> usable p \<Longrightarrow> ref_cnt (objs p b) = R b"
    using refs_match_free_list[OF assms(1)] by blast
  have f: "fq_repr p xs" and ok: "pool_ok p (set xs)" using xs(1) by (simp_all add: pool_repr_def)
  have n: "n \<le> int (length xs)" using get_new_blocks_too_many[OF xs(1), of n] assms(3) by (cases "n \<le> int (length xs)") auto
  have sp: "bs = take (nat n) xs" "pool_repr p' (drop (nat n) xs)" "pool_config p' = pool_config p"
    "\<And>b. b \<notin> set bs \<Longrightarrow> payload (objs p') b = payload (objs p) b" "\<And>b. b \<in> set bs \<Longrightarrow> ref_cnt (objs p' b) = 1"
    using get_new_blocks_spec[OF xs(1) assms(2) n] assms(3) by auto
  have d: "distinct bs" using fq.repr_distinct[OF f] sp(1) by simp
  have sub: "set bs \<subseteq> set xs" using sp(1) set_take_subset by fast
  have us: "set bs \<subseteq> usable p" using sub ok by (auto simp: pool_ok_def)
  have R0: "R b = 0" if "b \<in> set bs" for b
    using that sub us pool_ok_refD(1)[OF ok, of b] xs(2)[of b] by auto
  have "ref_cnt (objs p' b) = R b + int (count_list bs b)" if "b \<in> usable p" for b
  proof (cases "b \<in> set bs")
    case True
    then show ?thesis using sp(5) R0 d by (simp add: count_distinct)
  next
    case False
    then show ?thesis using payload_fields(2)[OF sp(4)] xs(2)[OF that] by (simp add: count_list_0_iff)
  qed
  then show "refs_match p' (\<lambda>b. R b + int (count_list bs b))"
    using sp(2) config_fields(8)[OF sp(3)] by (auto simp: refs_match_def)
  show "pool_config p' = pool_config p" "distinct bs" "set bs \<subseteq> usable p" "\<And>b. b \<in> set bs \<Longrightarrow> R b = 0"
    "int (length bs) = n" using sp(1,3) d us R0 n assms(2) by auto
  have "num_free_blocks p' = int (length (drop (nat n) xs))" using sp(2) by (simp add: pool_repr_def fq_repr_def)
  then show "n \<le> get_num_free_blocks p" "get_num_free_blocks p' = get_num_free_blocks p - n"
    using n assms(2) f by (auto simp: get_num_free_blocks_def fq_repr_def)
qed

lemma refs_match_touch:
  assumes "refs_match p R" "set bs \<subseteq> set (pool_blocks p)"
  shows "\<exists>p'. touch bs p = Inr p' \<and> refs_match p' (\<lambda>b. R b + int (count_list bs b)) \<and> pool_config p' = pool_config p \<and>
    get_num_free_blocks p' \<ge> get_num_free_blocks p - get_num_evictable_blocks p bs"
proof -
  obtain xs where xs: "pool_repr p xs" "\<And>b. b \<in> usable p \<Longrightarrow> ref_cnt (objs p b) = R b"
    using refs_match_free_list[OF assms(1)] by blast
  have f: "fq_repr p xs" and ok: "pool_ok p (set xs)" using xs(1) by (simp_all add: pool_repr_def)
  obtain p' where p': "touch bs p = Inr p'" "pool_repr p' (filter (\<lambda>x. x \<notin> set bs) xs)" "refs_only p p'"
    "\<And>x. ref_cnt (objs p' x) = ref_cnt (objs p x) + int (count_list bs x)"
    using touch_spec[OF xs(1) assms(2)] by blast
  have c: "pool_config p' = pool_config p" by (rule refs_only_config[OF p'(3)])
  have "refs_match p' (\<lambda>b. R b + int (count_list bs b))"
    using p'(2,4) xs(2) config_fields(8)[OF c] by (auto simp: refs_match_def)
  moreover have "length (filter (\<lambda>x. x \<in> set bs) xs) \<le> length (filter (\<lambda>b. ref_cnt (objs p b) = 0 \<and> \<not> is_null (objs p b)) bs)"
  proof -
    have sub: "set (filter (\<lambda>x. x \<in> set bs) xs) \<subseteq> set (filter (\<lambda>b. ref_cnt (objs p b) = 0 \<and> \<not> is_null (objs p b)) bs)"
    proof
      fix x assume "x \<in> set (filter (\<lambda>x. x \<in> set bs) xs)"
      then have x: "x \<in> set xs" "x \<in> set bs" by auto
      then have "x \<in> usable p" using pool_ok_refD(3)[OF ok] by auto
      then have "ref_cnt (objs p x) = 0" "x \<noteq> Blk 0" using x pool_ok_refD(1)[OF ok] by auto
      moreover have "\<not> is_null (objs p x)" using is_null_iff[OF ok, of x] x assms(2) calculation(2) by auto
      ultimately show "x \<in> set (filter (\<lambda>b. ref_cnt (objs p b) = 0 \<and> \<not> is_null (objs p b)) bs)" using x by simp
    qed
    have "length (filter (\<lambda>x. x \<in> set bs) xs) = card (set (filter (\<lambda>x. x \<in> set bs) xs))"
      using fq.repr_distinct[OF f] by (simp add: distinct_card del: set_filter)
    also have "\<dots> \<le> card (set (filter (\<lambda>b. ref_cnt (objs p b) = 0 \<and> \<not> is_null (objs p b)) bs))"
      by (rule card_mono[OF _ sub]) simp
    also have "\<dots> \<le> length (filter (\<lambda>b. ref_cnt (objs p b) = 0 \<and> \<not> is_null (objs p b)) bs)" by (rule card_length)
    finally show ?thesis .
  qed
  then have "get_num_free_blocks p' \<ge> get_num_free_blocks p - get_num_evictable_blocks p bs"
    using f p'(2) sum_length_filter_compl[of "\<lambda>x. x \<in> set bs" xs]
    by (simp add: get_num_free_blocks_def get_num_evictable_blocks_def pool_repr_def fq_repr_def)
  ultimately show ?thesis using p'(1) c by blast
qed

lemma refs_match_free:
  assumes "refs_match p R" "table_ok (pool_blocks p) bs" "\<And>b. b \<in> set bs \<Longrightarrow> b \<noteq> Blk 0 \<Longrightarrow> R b > 0"
  shows "\<exists>p'. free_blocks bs p = Inr p' \<and> refs_match p' (\<lambda>b. R b - int (count_list bs b)) \<and>
    pool_config p' = pool_config p \<and> get_num_free_blocks p' \<ge> get_num_free_blocks p"
proof -
  obtain xs where xs: "pool_repr p xs" "\<And>b. b \<in> usable p \<Longrightarrow> ref_cnt (objs p b) = R b"
    using refs_match_free_list[OF assms(1)] by blast
  have f: "fq_repr p xs" and ok: "pool_ok p (set xs)" using xs(1) by (simp_all add: pool_repr_def)
  have null: "null_block p = Blk 0" by (rule pool_ok_refD(4)[OF ok])
  have bs: "set bs \<subseteq> set (pool_blocks p)" "distinct (filter (\<lambda>b. b \<noteq> null_block p) bs)"
    using assms(2) null by (simp_all add: table_ok_def)
  have pos: "0 < ref_cnt (objs p b)" if "b \<in> set bs" "b \<noteq> null_block p" for b
    using that blocks_cases[OF ok, of b] bs(1) null xs(2)[of b] assms(3)[of b] by auto
  obtain p' where p': "free_blocks bs p = Inr p'"
    "pool_repr p' (xs @ filter (\<lambda>b. b \<noteq> null_block p \<and> ref_cnt (objs p b) = 1) bs)" "refs_only p p'"
    "\<And>x. ref_cnt (objs p' x) = ref_cnt (objs p x) - int (count_list bs x)"
    using free_blocks_spec[OF xs(1) bs pos] by blast
  have c: "pool_config p' = pool_config p" by (rule refs_only_config[OF p'(3)])
  have "refs_match p' (\<lambda>b. R b - int (count_list bs b))"
    using p'(2,4) xs(2) config_fields(8)[OF c] by (auto simp: refs_match_def)
  moreover have "get_num_free_blocks p' \<ge> get_num_free_blocks p"
    using f p'(2) by (simp add: get_num_free_blocks_def pool_repr_def fq_repr_def)
  ultimately show ?thesis using p'(1) c by blast
qed

lemma refs_match_cache:
  assumes "refs_match p R" "cache_full_blocks request blocks nc nf bsize g p = Inr p'" "set blocks \<subseteq> set (pool_blocks p)"
  shows "refs_match p' R \<and> pool_config p' = pool_config p"
proof -
  obtain xs where xs: "pool_repr p xs" "\<And>b. b \<in> usable p \<Longrightarrow> ref_cnt (objs p b) = R b"
    using refs_match_free_list[OF assms(1)] by blast
  have k: "pool_repr p' xs" "pool_config p' = pool_config p" "\<And>x. ref_cnt (objs p' x) = ref_cnt (objs p x)"
    using cache_full_blocks_keeps[OF assms(2) xs(1) assms(3)] by auto
  then show ?thesis using xs(2) config_fields(8)[OF k(2)] by (auto simp: refs_match_def)
qed

section \<open>The contract of a manager's operation\<close>

text \<open>\<open>R\<close> stands for the references of everybody else; \<open>pre\<close> is what the caller owes.\<close>

locale table_operation =
  fixes step :: "nat \<Rightarrow> SingleTypeKVCacheManager \<Rightarrow> BlockPool \<Rightarrow> ('a \<times> SingleTypeKVCacheManager \<times> BlockPool) result"
    and pre :: "nat \<Rightarrow> bref list \<Rightarrow> SingleTypeKVCacheManager \<Rightarrow> bool"
  assumes keeps: "\<lbrakk>step i m p = Inr (a, m', p'); pre i (pool_blocks p) m; manager_ok (pool_blocks p) m; \<And>b. 0 \<le> R b;
      refs_match p (\<lambda>b. table_refs (req_to_blocks m) b + R b)\<rbrakk> \<Longrightarrow>
    manager_ok (pool_blocks p) m' \<and> refs_match p' (\<lambda>b. table_refs (req_to_blocks m') b + R b) \<and>
    pool_config p' = pool_config p \<and> block_size m' = block_size m"
begin

lemma each_keeps:
  assumes "each_manager step i ms p = Inr (as, ms', p')" "kv_ok p ms R" "\<And>b. 0 \<le> R b"
    "\<And>j. j < length ms \<Longrightarrow> pre (i + j) (pool_blocks p) (ms ! j)"
  shows "kv_ok p' ms' R \<and> pool_config p' = pool_config p \<and> map block_size ms' = map block_size ms"
  using assms
proof (induction ms arbitrary: i p as ms' p' R)
  case Nil
  then show ?case by simp
next
  case (Cons m ms)
  from Cons.prems(1) obtain a m1 p1 as1 ms1 where st: "step i m p = Inr (a, m1, p1)"
    "each_manager step (Suc i) ms p1 = Inr (as1, ms1, p')" "ms' = m1 # ms1"
    by (auto simp: rbind_Inr_iff)
  have ok: "manager_ok (pool_blocks p) m" "\<forall>x \<in> set ms. manager_ok (pool_blocks p) x"
    "refs_match p (\<lambda>b. table_refs (req_to_blocks m) b + (manager_refs ms b + R b))"
    using Cons.prems(2) by (auto simp: kv_ok_def add.assoc)
  have "0 \<le> manager_refs ms b + R b" for b using manager_refs_nonneg[of ms b] Cons.prems(3)[of b] by simp
  moreover have "pre i (pool_blocks p) m" using Cons.prems(4)[of 0] by simp
  ultimately have k: "manager_ok (pool_blocks p) m1"
    "refs_match p1 (\<lambda>b. table_refs (req_to_blocks m1) b + (manager_refs ms b + R b))" "pool_config p1 = pool_config p"
    "block_size m1 = block_size m"
    using keeps[OF st(1) _ ok(1) _ ok(3)] by auto
  have pb: "pool_blocks p1 = pool_blocks p" by (rule config_fields(4)[OF k(3)])
  let ?R = "\<lambda>b. table_refs (req_to_blocks m1) b + R b"
  have "kv_ok p1 ms ?R" using k(2) ok(2) pb by (auto simp: kv_ok_def algebra_simps)
  moreover have "0 \<le> ?R b" for b using count_list_nonneg_table[of "req_to_blocks m1" b] Cons.prems(3)[of b] by simp
  moreover have "pre (Suc i + j) (pool_blocks p1) (ms ! j)" if "j < length ms" for j
    using Cons.prems(4)[of "Suc j"] that pb by simp
  ultimately have r: "kv_ok p' ms1 ?R" "pool_config p' = pool_config p1" "map block_size ms1 = map block_size ms"
    using Cons.IH[OF st(2)] by auto
  have "pool_blocks p' = pool_blocks p" using config_fields(4)[OF r(2)] pb by simp
  then show ?case using r k(1,3,4) st(3) by (auto simp: kv_ok_def algebra_simps)
qed

lemma on_managers_keeps:
  assumes "on_managers step c = Inr (as, c')" "kv_ok (c_block_pool c) (single_type_managers c) (\<lambda>_. 0)"
    "\<And>j. j < length (single_type_managers c) \<Longrightarrow> pre j (pool_blocks (c_block_pool c)) (single_type_managers c ! j)"
  shows "kv_ok (c_block_pool c') (single_type_managers c') (\<lambda>_. 0) \<and>
    pool_config (c_block_pool c') = pool_config (c_block_pool c) \<and>
    map block_size (single_type_managers c') = map block_size (single_type_managers c)"
proof -
  obtain ms p where "each_manager step 0 (single_type_managers c) (c_block_pool c) = Inr (as, ms, p)"
    "c' = c\<lparr>single_type_managers := ms, c_block_pool := p\<rparr>"
    using assms(1) by (auto simp: on_managers_def rbind_Inr_iff)
  then show ?thesis using each_keeps[of 0 "single_type_managers c" "c_block_pool c" as ms p "\<lambda>_. 0"] assms(2,3) by simp
qed

end

section \<open>Block tables\<close>

lemma distinct_filter_count: "distinct (filter P xs) \<longleftrightarrow> (\<forall>x. P x \<longrightarrow> count_list xs x \<le> 1)"
proof (induction xs)
  case (Cons a xs)
  have "(\<forall>x. P x \<longrightarrow> count_list (a # xs) x \<le> 1) \<longleftrightarrow>
    (\<forall>x. P x \<longrightarrow> count_list xs x \<le> 1) \<and> (P a \<longrightarrow> a \<notin> set xs)" (is "?l \<longleftrightarrow> ?r")
  proof
    assume l: ?l
    have "count_list xs x \<le> 1" if "P x" for x using l[rule_format, OF that] by (simp split: if_splits)
    moreover have "count_list xs a = 0" if "P a" using l[rule_format, OF that] by simp
    ultimately show ?r by (simp add: count_list_0_iff)
  next
    assume r: ?r
    have "count_list (a # xs) x \<le> 1" if "P x" for x
      using r that by (cases "x = a") (auto simp: count_list_0_iff)
    then show ?l by blast
  qed
  then show ?case using Cons by auto
qed simp

lemma table_ok_count:
  "table_ok blocks bs \<longleftrightarrow> set bs \<subseteq> set blocks \<and> (\<forall>b. b \<noteq> Blk 0 \<longrightarrow> count_list bs b \<le> 1)"
  by (simp add: table_ok_def distinct_filter_count)

lemma count_list_update:
  "i < length xs \<Longrightarrow> int (count_list (xs[i := v]) b) =
     int (count_list xs b) - (if xs ! i = b then 1 else 0) + (if v = b then 1 else 0)"
proof (induction xs arbitrary: i)
  case (Cons x xs)
  show ?case
  proof (cases i)
    case (Suc j)
    then show ?thesis using Cons.IH[of j] Cons.prems by (cases "xs ! j = b"; cases "v = b"; simp)
  qed simp
qed simp

lemma count_list_replicate: "count_list (replicate n x) b = (if x = b then n else 0)"
  by (induction n) auto

lemma skip_loop_spec:
  assumes "skip_loop null k blocks = (removed, blocks')" "k \<le> length blocks"
  shows "length blocks' = length blocks \<and> null \<notin> set removed \<and> set removed \<subseteq> set blocks \<and>
    set blocks' \<subseteq> insert null (set blocks) \<and>
    (\<forall>b. b \<noteq> null \<longrightarrow> count_list blocks' b + count_list removed b = count_list blocks b) \<and>
    (\<forall>j. k \<le> j \<longrightarrow> j < length blocks \<longrightarrow> blocks' ! j = blocks ! j)"
  using assms
proof (induction k arbitrary: blocks removed blocks')
  case 0
  then show ?case by auto
next
  case (Suc i)
  show ?case
  proof (cases "blocks ! i = null")
    case True
    then show ?thesis using Suc.prems by auto
  next
    case False
    obtain r bs' where sl: "skip_loop null i (blocks[i := null]) = (r, bs')" by fastforce
    have eq: "removed = blocks ! i # r" "blocks' = bs'" using Suc.prems(1) False sl by auto
    have i: "i < length blocks" using Suc.prems(2) by simp
    have ih: "length bs' = length blocks" "null \<notin> set r" "set r \<subseteq> set (blocks[i := null])"
      "set bs' \<subseteq> insert null (set (blocks[i := null]))"
      "\<And>b. b \<noteq> null \<Longrightarrow> count_list bs' b + count_list r b = count_list (blocks[i := null]) b"
      "\<And>j. i \<le> j \<Longrightarrow> j < length blocks \<Longrightarrow> bs' ! j = blocks[i := null] ! j"
      using Suc.IH[OF sl] i by auto
    have upd: "set (blocks[i := null]) \<subseteq> insert null (set blocks)" by (rule set_update_subset_insert)
    have "count_list bs' b + count_list (blocks ! i # r) b = count_list blocks b" if "b \<noteq> null" for b
      using ih(5)[OF that] count_list_update[OF i, of null b] that by auto
    moreover have "set r \<subseteq> set blocks" using ih(2,3) upd by blast
    moreover have "bs' ! j = blocks ! j" if "Suc i \<le> j" "j < length blocks" for j using ih(6)[of j] that by simp
    ultimately show ?thesis using eq ih(1,2,4) upd i False nth_mem[OF i] by auto
  qed
qed

lemma reuse_loop_spec:
  assumes "reuse_loop null sk is bs = Inr bs'" "\<forall>i \<in> set is. 0 \<le> i \<and> i < int (length bs)"
  shows "set bs' \<subseteq> insert null (set bs) \<and> length bs \<le> length bs' \<and>
    (\<forall>b. b \<noteq> null \<longrightarrow> count_list bs' b = count_list bs b)"
  using assms
proof (induction "is" arbitrary: bs)
  case Nil
  then show ?case by auto
next
  case (Cons i "is")
  show ?case
  proof (cases "i < sk")
    case False
    then show ?thesis using Cons.prems(1) by auto
  next
    case True
    have i: "nat i < length bs" "0 \<le> i" using Cons.prems(2) by auto
    let ?bs = "(bs @ [bs ! nat i])[nat i := null]"
    have st: "reuse_loop null sk is ?bs = Inr bs'"
      using Cons.prems(1) True i by (simp add: py_index_def py_set_def)
    have ih: "set bs' \<subseteq> insert null (set ?bs)" "length ?bs \<le> length bs'" "\<And>b. b \<noteq> null \<Longrightarrow> count_list bs' b = count_list ?bs b"
      using Cons.IH[OF st] Cons.prems(2) by fastforce+
    have "set ?bs \<subseteq> insert null (set bs)"
      using set_update_subset_insert[of "bs @ [bs ! nat i]" "nat i" null] nth_mem[OF i(1)] by auto
    moreover have "count_list ?bs b = count_list bs b" if "b \<noteq> null" for b
      using count_list_update[of "nat i" "bs @ [bs ! nat i]" null b] i(1) that
      by (cases "bs ! nat i = b") (simp_all add: nth_append)
    ultimately show ?thesis using ih by auto
  qed
qed

section \<open>The managers' operations keep ownership\<close>

lemma keeps_table_append:
  assumes ok: "manager_ok (pool_blocks p) m" and R: "\<And>b. 0 \<le> R b"
    and bs: "table_ok (pool_blocks p) bs" "\<And>b. b \<in> set bs \<Longrightarrow> b \<noteq> Blk 0 \<Longrightarrow> table_refs (req_to_blocks m) b + R b = 0"
  shows "manager_ok (pool_blocks p) (set_req_blocks rid (dd_list rid (req_to_blocks m) @ bs) m)"
proof (rule manager_ok_set_req[OF ok])
  let ?old = "dd_list rid (req_to_blocks m)"
  have old: "table_ok (pool_blocks p) ?old" using ok by (simp add: manager_ok_def)
  have "count_list ?old b = 0" if "b \<in> set bs" "b \<noteq> Blk 0" for b
    using table_le_refs[OF ok, of rid b] bs(2)[OF that] R[of b] by simp
  then have "count_list (?old @ bs) b \<le> 1" if "b \<noteq> Blk 0" for b
    using old bs(1) that by (cases "b \<in> set bs") (auto simp: table_ok_count count_list_0_iff)
  then show "table_ok (pool_blocks p) (?old @ bs)" using old bs(1) by (auto simp: table_ok_count)
qed simp

lemma base_allocate_new_blocks_keeps:
  assumes run: "base_allocate_new_blocks m p rid n = Inr (bs, m', p')" and ok: "manager_ok (pool_blocks p) m"
    and R: "\<And>b. 0 \<le> R b" and refs: "refs_match p (\<lambda>b. table_refs (req_to_blocks m) b + R b)"
  shows "manager_ok (pool_blocks p) m' \<and> refs_match p' (\<lambda>b. table_refs (req_to_blocks m') b + R b) \<and>
    pool_config p' = pool_config p \<and> block_size m' = block_size m"
proof -
  let ?old = "dd_list rid (req_to_blocks m)" and ?k = "cdiv n (block_size m) - int (length (dd_list rid (req_to_blocks m)))"
  have d: "distinct (map fst (req_to_blocks m))" using ok by (simp add: manager_ok_def)
  show ?thesis
  proof (cases "?k \<le> 0")
    case True
    then have "m' = set_req_blocks rid ?old m" "p' = p" using run by (auto simp: base_allocate_new_blocks_def Let_def)
    then show ?thesis using keeps_table_append[where R = R, OF ok R, of "[]"] refs d
      by (auto simp: table_ok_def table_refs_update intro: refs_match_cong)
  next
    case False
    then obtain nb where nb: "get_new_blocks ?k p = Inr (nb, p')" "m' = set_req_blocks rid (?old @ nb) m"
      using run by (auto simp: base_allocate_new_blocks_def Let_def rbind_Inr_iff)
    have k0: "0 \<le> ?k" using False by simp
    note al = refs_match_alloc[OF refs k0 nb(1)]
    have "set (pool_blocks p) = insert (Blk 0) (usable p)"
      using refs by (auto simp: refs_match_def pool_repr_def dest: usable_blocks)
    then have "table_ok (pool_blocks p) nb" using al(3,4) by (auto simp: table_ok_def)
    then have "manager_ok (pool_blocks p) m'" using keeps_table_append[where R = R, OF ok R, of nb] al(5) nb(2) by simp
    moreover have "refs_match p' (\<lambda>b. table_refs (req_to_blocks m') b + R b)"
      by (rule refs_match_cong[OF al(1)]) (simp add: nb(2) table_refs_update[OF d])
    ultimately show ?thesis using al(2) nb(2) by simp
  qed
qed

lemma pool_blocks_usable: "refs_match p R \<Longrightarrow> set (pool_blocks p) = insert (Blk 0) (usable p)"
  by (auto simp: refs_match_def pool_repr_def dest: usable_blocks)

lemma manager_okD:
  assumes "manager_ok blocks m"
  shows "distinct (map fst (req_to_blocks m))" "table_ok blocks (dd_list rid (req_to_blocks m))"
    "mgr_null_block m = Blk 0" "Blk 0 \<in> set blocks" "block_size m > 0" "num_speculative_blocks m \<ge> 0"
    "rid \<in> set (allocated_block_reqs m) \<Longrightarrow> num_speculative_blocks m \<le> int (length (dd_list rid (req_to_blocks m)))"
  using assms by (simp_all add: manager_ok_def)

lemma takeWhile_upto_length: "length (takeWhile (\<lambda>i. i < sk) [a..b]) \<le> nat (sk - a)"
proof (induction a b rule: upto.induct)
  case (1 a b)
  show ?case
  proof (cases "a \<le> b \<and> a < sk")
    case True
    then have "takeWhile (\<lambda>i. i < sk) [a..b] = a # takeWhile (\<lambda>i. i < sk) [a + 1..b]"
      by (subst upto.simps) simp
    moreover have "Suc (nat (sk - (a + 1))) = nat (sk - a)" using True by linarith
    ultimately show ?thesis using 1 True by (metis Suc_le_mono length_Cons)
  next
    case False
    then have "takeWhile (\<lambda>i. i < sk) [a..b] = []" by (subst upto.simps) auto
    then show ?thesis by simp
  qed
qed

lemma reuse_loop_length:
  "reuse_loop null sk is bs = Inr bs' \<Longrightarrow> length bs' = length bs + length (takeWhile (\<lambda>i. i < sk) is)"
proof (induction "is" arbitrary: bs)
  case (Cons i "is")
  show ?case
  proof (cases "i < sk")
    case True
    then obtain b bs1 where st: "py_set (bs @ [b]) i null = Inr bs1" "reuse_loop null sk is bs1 = Inr bs'"
      using Cons.prems by (auto simp: rbind_Inr_iff)
    have "length bs1 = Suc (length bs)" using st(1) by (auto simp: py_set_def split: if_splits)
    then show ?thesis using Cons.IH[OF st(2)] True by simp
  qed (use Cons.prems in simp)
qed simp

text \<open>The table after padding and moving the speculative blocks, in Mamba's aligned mode.\<close>

lemma mamba_moved_spec:
  fixes prev req sk spec :: int
  assumes moved: "(if alloc then reuse_loop (Blk 0) sk [prev - spec..prev - 1] padded else Inr padded) = (Inr moved :: bref list result)"
    and padded: "padded = old @ replicate (nat (sk - prev)) (Blk 0)" and prev: "prev = int (length old)"
    and sk: "sk = req - spec - 1" "req > prev" and spec: "0 \<le> spec" "alloc \<longrightarrow> spec \<le> prev"
    and old: "table_ok blocks old" "Blk 0 \<in> set blocks"
  shows "table_ok blocks moved" "int (length moved) < req" "\<And>b. b \<noteq> Blk 0 \<Longrightarrow> count_list moved b = count_list old b"
proof -
  have pc: "count_list padded b = count_list old b" if "b \<noteq> Blk 0" for b
    using that by (simp add: padded count_list_replicate)
  have ps: "set padded \<subseteq> insert (Blk 0) (set old)" by (auto simp: padded)
  have lp: "int (length padded) = max prev sk" by (simp add: padded prev)
  have "set moved \<subseteq> insert (Blk 0) (set padded) \<and> (\<forall>b. b \<noteq> Blk 0 \<longrightarrow> count_list moved b = count_list padded b) \<and>
    int (length moved) < req"
  proof (cases alloc)
    case True
    then have rl: "reuse_loop (Blk 0) sk [prev - spec..prev - 1] padded = Inr moved" using moved by simp
    have ix: "\<forall>i \<in> set [prev - spec..prev - 1]. 0 \<le> i \<and> i < int (length padded)" using lp spec(2) True by auto
    have "length (takeWhile (\<lambda>i. i < sk) [prev - spec..prev - 1]) \<le> nat (sk - (prev - spec))"
      by (rule takeWhile_upto_length)
    moreover have "length (takeWhile (\<lambda>i. i < sk) [prev - spec..prev - 1]) \<le> nat spec"
      using length_takeWhile_le[of "\<lambda>i. i < sk" "[prev - spec..prev - 1]"] by simp
    ultimately have "int (length moved) < req"
      using reuse_loop_length[OF rl] lp sk spec(1) by linarith
    then show ?thesis using reuse_loop_spec[OF rl ix] by blast
  next
    case False
    then show ?thesis using moved lp sk spec(1) by auto
  qed
  then show "table_ok blocks moved" "int (length moved) < req" "\<And>b. b \<noteq> Blk 0 \<Longrightarrow> count_list moved b = count_list old b"
    using pc ps old by (auto simp: table_ok_count)
qed

lemma manager_ok_fields:
  assumes "manager_ok blocks m" "req_to_blocks m' = req_to_blocks m" "mgr_class m' = mgr_class m"
    "block_size m' = block_size m" "mgr_null_block m' = mgr_null_block m" "sliding_window m' = sliding_window m"
    "attention_chunk_size m' = attention_chunk_size m" "num_speculative_blocks m' = num_speculative_blocks m"
    "mgr_mamba_cache_mode m' = mgr_mamba_cache_mode m" "allocated_block_reqs m' = allocated_block_reqs m"
  shows "manager_ok blocks m'"
  using assms by (simp add: manager_ok_def)

lemma mamba_aligned_keeps:
  assumes run: "mamba_allocate_new_blocks m p rid n main = Inr (bs, m', p')" and ok: "manager_ok (pool_blocks p) m"
    and cls: "mgr_class m = MambaManager" "mgr_mamba_cache_mode m = ''align''" and main: "0 \<le> main"
    and R: "\<And>b. 0 \<le> R b" and refs: "refs_match p (\<lambda>b. table_refs (req_to_blocks m) b + R b)"
  shows "manager_ok (pool_blocks p) m' \<and> refs_match p' (\<lambda>b. table_refs (req_to_blocks m') b + R b) \<and>
    pool_config p' = pool_config p \<and> block_size m' = block_size m"
proof -
  let ?old = "dd_list rid (req_to_blocks m)" and ?spec = "num_speculative_blocks m"
  let ?prev = "int (length ?old)" and ?req = "cdiv main (block_size m) + num_speculative_blocks m"
  let ?alloc = "rid \<in> set (allocated_block_reqs m)"
  note d = manager_okD(1)[OF ok]
  have null: "mgr_null_block m = Blk 0" by (rule manager_okD(3)[OF ok])
  have spec_req: "?spec \<le> ?req" using cdiv_nonneg[OF manager_okD(5)[OF ok] main] by simp
  show ?thesis
  proof (cases "?req = ?prev")
    case True
    then have "m' = set_req_blocks rid ?old m" "p' = p" using run cls by (auto simp: mamba_allocate_new_blocks_def Let_def)
    then show ?thesis using keeps_table_append[where R = R, OF ok R, of "[]"] refs d
      by (auto simp: table_ok_def table_refs_update intro: refs_match_cong)
  next
    case False
    define sk where "sk = ?req - ?spec - 1"
    define padded where "padded = ?old @ replicate (nat (sk - ?prev)) (Blk 0)"
    from run cls False null obtain moved nb where gt: "?req > ?prev" and
      mv: "(if ?alloc then reuse_loop (Blk 0) sk [?prev - ?spec..?prev - 1] padded else Inr padded) = Inr moved"
      and nb: "get_new_blocks (?req - int (length moved)) p = Inr (nb, p')"
      and m': "req_to_blocks m' = AList.update rid (moved @ nb) (AList.update rid ?old (req_to_blocks m))"
        "mgr_class m' = mgr_class m" "block_size m' = block_size m" "mgr_null_block m' = mgr_null_block m"
        "sliding_window m' = sliding_window m" "attention_chunk_size m' = attention_chunk_size m"
        "num_speculative_blocks m' = num_speculative_blocks m" "mgr_mamba_cache_mode m' = mgr_mamba_cache_mode m"
        "allocated_block_reqs m' = List.insert rid (allocated_block_reqs m)"
      unfolding mamba_allocate_new_blocks_def Let_def sk_def padded_def
      by (auto simp: rbind_Inr_iff simp del: reuse_loop.simps split: prod.splits if_splits)
    have sp: "0 \<le> ?spec" "?alloc \<longrightarrow> ?spec \<le> ?prev" using manager_okD(6,7)[OF ok] by auto
    note ms = mamba_moved_spec[OF mv padded_def refl sk_def gt sp manager_okD(2,4)[OF ok]]
    have k0: "0 \<le> ?req - int (length moved)" using ms(2) by simp
    note al = refs_match_alloc[OF refs k0 nb]
    have "count_list (moved @ nb) b \<le> 1" if b: "b \<noteq> Blk 0" for b
    proof (cases "b \<in> set nb")
      case True
      have "count_list ?old b = 0"
        using al(5)[OF True] table_le_refs[OF ok, of rid b] R[of b] by simp
      then show ?thesis using ms(3)[OF b] count_distinct[OF al(3), of b] by simp
    next
      case False
      then show ?thesis using ms(1) b by (simp add: table_ok_count count_list_0_iff)
    qed
    then have t: "table_ok (pool_blocks p) (moved @ nb)"
      using ms(1) al(4) pool_blocks_usable[OF refs] by (auto simp: table_ok_count)
    have len: "int (length (moved @ nb)) = ?req" using al(6) by simp
    have "manager_ok (pool_blocks p) m'"
      using ok t len spec_req cls unfolding manager_ok_def m'
      by (auto simp: AList.distinct_update)
    moreover have "distinct (map fst (AList.update rid ?old (req_to_blocks m)))" using d by (rule AList.distinct_update)
    then have tr: "table_refs (req_to_blocks m') b =
        table_refs (req_to_blocks m) b - int (count_list ?old b) + int (count_list (moved @ nb) b)" for b
      by (simp add: m'(1) table_refs_update d)
    have "refs_match p' (\<lambda>b. table_refs (req_to_blocks m') b + R b)"
    proof (rule refs_match_cong[OF al(1)])
      fix b assume "b \<in> usable p'"
      then have "b \<noteq> Blk 0" by auto
      then show "table_refs (req_to_blocks m) b + R b + int (count_list nb b) = table_refs (req_to_blocks m') b + R b"
        using ms(3)[of b] by (simp add: tr)
    qed
    ultimately show ?thesis using al(2) m'(3) by simp
  qed
qed

interpretation alloc_new: table_operation
  "\<lambda>i m p. stm_allocate_new_blocks m p rid (if mgr_class m = CrossAttentionManager then n_enc else n) main"
  "\<lambda>i blocks m. 0 \<le> main" for rid n_enc n main
proof (unfold_locales, goal_cases)
  case (1 i m p a m' p' R)
  show ?case
  proof (cases "mgr_class m = MambaManager \<and> mgr_mamba_cache_mode m = ''align''")
    case True
    then show ?thesis using mamba_aligned_keeps[of m p rid n main a m' p' R] 1
      by (simp add: stm_allocate_new_blocks_def)
  next
    case False
    then obtain k where "base_allocate_new_blocks m p rid k = Inr (a, m', p')"
      using 1(1) by (auto simp: stm_allocate_new_blocks_def mamba_allocate_new_blocks_def split: if_splits)
    then show ?thesis using base_allocate_new_blocks_keeps 1(3-5) by blast
  qed
qed

lemma keeps_table_replace:
  assumes ok: "manager_ok blocks m" and t: "table_ok blocks t"
    and len: "rid \<in> set (allocated_block_reqs m) \<Longrightarrow> length (dd_list rid (req_to_blocks m)) \<le> length t"
    and refs: "refs_match p' (\<lambda>b. table_refs (req_to_blocks m) b + R b - int (count_list (dd_list rid (req_to_blocks m)) b)
                 + int (count_list t b))"
  shows "manager_ok blocks (set_req_blocks rid t m) \<and>
    refs_match p' (\<lambda>b. table_refs (req_to_blocks (set_req_blocks rid t m)) b + R b)"
proof
  show "manager_ok blocks (set_req_blocks rid t m)" by (rule manager_ok_set_req[OF ok t len])
  show "refs_match p' (\<lambda>b. table_refs (req_to_blocks (set_req_blocks rid t m)) b + R b)"
    by (rule refs_match_cong[OF refs]) (simp add: table_refs_update[OF manager_okD(1)[OF ok]])
qed

lemma table_member_refs:
  assumes "manager_ok blocks m" "b \<in> set (dd_list rid (req_to_blocks m))" "0 \<le> R b"
  shows "0 < table_refs (req_to_blocks m) b + R b"
proof -
  have "count_list (dd_list rid (req_to_blocks m)) b \<noteq> 0" using assms(2) by (simp add: count_list_0_iff)
  then show ?thesis using table_le_refs[OF assms(1), of rid b] assms(3) by linarith
qed

lemma base_remove_skipped_total:
  assumes ok: "manager_ok (pool_blocks p) m" and R: "\<And>b. 0 \<le> R b"
    and refs: "refs_match p (\<lambda>b. table_refs (req_to_blocks m) b + R b)"
  shows "\<exists>m' p'. base_remove_skipped_blocks m p rid n = Inr (m', p') \<and> manager_ok (pool_blocks p) m' \<and>
    refs_match p' (\<lambda>b. table_refs (req_to_blocks m') b + R b) \<and> pool_config p' = pool_config p \<and> block_size m' = block_size m \<and>
    get_num_free_blocks p' \<ge> get_num_free_blocks p \<and>
    (m' = m \<or> (\<exists>t. m' = set_req_blocks rid t m \<and> length t = length (dd_list rid (req_to_blocks m))))"
proof (cases "get_num_skipped_tokens m n \<le> 0")
  case True
  then show ?thesis using ok refs by (simp add: base_remove_skipped_blocks_def)
next
  case False
  let ?old = "dd_list rid (req_to_blocks m)"
  let ?k = "nat (min (get_num_skipped_tokens m n div block_size m) (int (length ?old)))"
  have null: "mgr_null_block m = Blk 0" by (rule manager_okD(3)[OF ok])
  obtain removed t where sl: "skip_loop (Blk 0) ?k ?old = (removed, t)" by fastforce
  have sp: "length t = length ?old" "Blk 0 \<notin> set removed" "set removed \<subseteq> set ?old" "set t \<subseteq> insert (Blk 0) (set ?old)"
    "\<And>b. b \<noteq> Blk 0 \<Longrightarrow> count_list t b + count_list removed b = count_list ?old b"
    using skip_loop_spec[OF sl] by auto
  have old: "table_ok (pool_blocks p) ?old" "Blk 0 \<in> set (pool_blocks p)" using manager_okD[OF ok] by auto
  have "count_list removed b \<le> 1" "count_list t b \<le> 1" if "b \<noteq> Blk 0" for b
    using sp(5)[OF that] old(1) that by (auto simp: table_ok_count dest!: spec[of _ b])
  then have rt: "table_ok (pool_blocks p) removed" and tt: "table_ok (pool_blocks p) t"
    using sp(3,4) old by (auto simp: table_ok_count)
  have pos: "0 < table_refs (req_to_blocks m) b + R b" if "b \<in> set removed" for b
    using table_member_refs[where R = R, OF ok _ R] sp(3) that by blast
  obtain p' where p': "free_blocks removed p = Inr p'"
    "refs_match p' (\<lambda>b. table_refs (req_to_blocks m) b + R b - int (count_list removed b))"
    "pool_config p' = pool_config p" "get_num_free_blocks p' \<ge> get_num_free_blocks p"
    using refs_match_free[OF refs rt pos] by blast
  have run: "base_remove_skipped_blocks m p rid n = Inr (set_req_blocks rid t m, p')"
    using False sl p'(1) null by (simp add: base_remove_skipped_blocks_def Let_def)
  have "refs_match p' (\<lambda>b. table_refs (req_to_blocks m) b + R b - int (count_list ?old b) + int (count_list t b))"
  proof (rule refs_match_cong[OF p'(2)])
    fix b assume "b \<in> usable p'"
    then have "b \<noteq> Blk 0" by auto
    from sp(5)[OF this] show "table_refs (req_to_blocks m) b + R b - int (count_list removed b) =
      table_refs (req_to_blocks m) b + R b - int (count_list ?old b) + int (count_list t b)" by simp
  qed
  from keeps_table_replace[OF ok tt _ this] sp(1) show ?thesis using run p'(3,4) by auto
qed

lemma py_index_set:
  assumes "py_index xs i = Inr b" "py_set xs i v = Inr t"
  shows "\<exists>j < length xs. xs ! j = b \<and> t = xs[j := v]"
proof (cases "0 \<le> i")
  case True
  then show ?thesis using assms by (intro exI[of _ "nat i"]) (auto simp: py_index_def py_set_def split: if_splits)
next
  case False
  then have "nat (- i) > 0" by simp
  then show ?thesis using assms False
    by (intro exI[of _ "length xs - nat (- i)"]) (auto simp: py_index_def py_set_def split: if_splits)
qed

lemma mamba_remove_last_state_cases:
  assumes run: "mamba_remove_last_state m p rid n = Inr (m', p')"
  obtains (same) "m' = m" "p' = p" | (null) "m' = set_req_blocks rid (dd_list rid (req_to_blocks m)) m" "p' = p"
    | (removed) idx b t where "py_index (dd_list rid (req_to_blocks m)) idx = Inr b" "b \<noteq> mgr_null_block m"
      "free_blocks [b] p = Inr p'" "py_set (dd_list rid (req_to_blocks m)) idx (mgr_null_block m) = Inr t"
      "m' = set_req_blocks rid t (set_req_blocks rid (dd_list rid (req_to_blocks m)) m)"
proof (cases "map_of (last_state_block_idx m) rid")
  case None
  then show thesis using run same by (simp add: mamba_remove_last_state_def)
next
  case (Some idx)
  show thesis
  proof (cases "idx < cdiv n (block_size m) - 1")
    case True
    with run Some obtain b where b: "py_index (dd_list rid (req_to_blocks m)) idx = Inr b"
      by (auto simp: mamba_remove_last_state_def Let_def rbind_Inr_iff)
    show thesis
    proof (cases "b = mgr_null_block m")
      case True
      with run Some b \<open>idx < _\<close> show thesis using null by (simp add: mamba_remove_last_state_def Let_def)
    next
      case False
      with run Some b \<open>idx < _\<close> obtain t where "free_blocks [b] p = Inr p'"
        "py_set (dd_list rid (req_to_blocks m)) idx (mgr_null_block m) = Inr t"
        "m' = set_req_blocks rid t (set_req_blocks rid (dd_list rid (req_to_blocks m)) m)"
        by (auto simp: mamba_remove_last_state_def Let_def rbind_Inr_iff)
      with b False show thesis by (rule removed)
    qed
  next
    case False
    with run Some show thesis using same by (simp add: mamba_remove_last_state_def)
  qed
qed

lemma mamba_remove_last_state_keeps:
  assumes run: "mamba_remove_last_state m p rid n = Inr (m', p')" and ok: "manager_ok (pool_blocks p) m"
    and R: "\<And>b. 0 \<le> R b" and refs: "refs_match p (\<lambda>b. table_refs (req_to_blocks m) b + R b)"
  shows "manager_ok (pool_blocks p) m' \<and> refs_match p' (\<lambda>b. table_refs (req_to_blocks m') b + R b) \<and>
    pool_config p' = pool_config p \<and> block_size m' = block_size m"
proof -
  let ?old = "dd_list rid (req_to_blocks m)"
  note d = manager_okD(1)[OF ok]
  have null: "mgr_null_block m = Blk 0" by (rule manager_okD(3)[OF ok])
  have same: "manager_ok (pool_blocks p) (set_req_blocks rid ?old m) \<and>
    refs_match p (\<lambda>b. table_refs (req_to_blocks (set_req_blocks rid ?old m)) b + R b)"
    by (rule keeps_table_replace[OF ok manager_okD(2)[OF ok]]) (use refs in simp_all)
  from run show ?thesis
  proof (cases rule: mamba_remove_last_state_cases)
    case same
    then show ?thesis using ok refs by simp
  next
    case null
    then show ?thesis using same by simp
  next
    case (removed idx b t)
    note 3 = removed[unfolded null]
    let ?m0 = "set_req_blocks rid ?old m"
    obtain j where j: "j < length ?old" "?old ! j = b" "t = ?old[j := Blk 0]"
      using py_index_set[OF 3(1,4)] by blast
    have bm: "b \<in> set ?old" using j nth_mem by blast
    have b1: "table_ok (pool_blocks p) [b]" using manager_okD(2)[OF ok, of rid] bm by (auto simp: table_ok_def)
    have "0 < table_refs (req_to_blocks m) b + R b" by (rule table_member_refs[OF ok bm R])
    then obtain p1 where p1: "free_blocks [b] p = Inr p1"
      "refs_match p1 (\<lambda>x. table_refs (req_to_blocks m) x + R x - int (count_list [b] x))" "pool_config p1 = pool_config p"
      using refs_match_free[OF refs b1] by auto
    have pp: "p1 = p'" using p1(1) 3(3) by simp
    have ct: "int (count_list t x) = int (count_list ?old x) - (if b = x then 1 else 0) + (if Blk 0 = x then 1 else 0)" for x
      using count_list_update[OF j(1), of "Blk 0" x] j(2,3) by simp
    have "count_list t x \<le> 1" if "x \<noteq> Blk 0" for x
      using ct[of x] manager_okD(2)[OF ok, of rid] that by (auto simp: table_ok_count dest!: spec[of _ x] split: if_splits)
    moreover have "set t \<subseteq> insert (Blk 0) (set ?old)" unfolding j(3) by (rule set_update_subset_insert)
    ultimately have tt: "table_ok (pool_blocks p) t"
      using manager_okD(2,4)[OF ok] by (auto simp: table_ok_count)
    have "refs_match p' (\<lambda>x. table_refs (req_to_blocks ?m0) x + R x - int (count_list (dd_list rid (req_to_blocks ?m0)) x)
                 + int (count_list t x))"
    proof (rule refs_match_cong[OF p1(2)[unfolded pp]])
      fix x assume "x \<in> usable p'"
      then have "x \<noteq> Blk 0" by auto
      then show "table_refs (req_to_blocks m) x + R x - int (count_list [b] x) =
        table_refs (req_to_blocks ?m0) x + R x - int (count_list (dd_list rid (req_to_blocks ?m0)) x) + int (count_list t x)"
        using ct[of x] by (simp add: table_refs_update[OF d])
    qed
    from keeps_table_replace[OF conjunct1[OF same] tt _ this] show ?thesis
      using p1(3) pp 3(5) j(3) by simp
  qed
qed

interpretation remove_skipped: table_operation
  "\<lambda>i m p. rbind (stm_remove_skipped_blocks m p rid n) (\<lambda>(m', p'). Inr ((), m', p'))"
  "\<lambda>i blocks m. True" for rid n
proof (unfold_locales, goal_cases)
  case (1 i m p a m' p' R)
  obtain m1 p1 where m1: "base_remove_skipped_blocks m p rid n = Inr (m1, p1)" "manager_ok (pool_blocks p) m1"
    "refs_match p1 (\<lambda>b. table_refs (req_to_blocks m1) b + R b)" "pool_config p1 = pool_config p" "block_size m1 = block_size m"
    using base_remove_skipped_total[of p m R rid n] 1(3-5) by blast
  have pb: "pool_blocks p1 = pool_blocks p" by (rule config_fields(4)[OF m1(4)])
  show ?case
  proof (cases "mgr_class m = MambaManager \<and> mgr_mamba_cache_mode m = ''align''")
    case True
    then have "mamba_remove_last_state m1 p1 rid n = Inr (m', p')"
      using 1(1) m1(1) by (auto simp: stm_remove_skipped_blocks_def rbind_Inr_iff)
    from mamba_remove_last_state_keeps[OF this _ 1(4) m1(3)] show ?thesis using m1(2,4,5) pb by simp
  next
    case False
    then show ?thesis using 1(1) m1 by (auto simp: stm_remove_skipped_blocks_def rbind_Inr_iff)
  qed
qed

lemma stm_free_total:
  assumes ok: "manager_ok (pool_blocks p) m" and R: "\<And>b. 0 \<le> R b"
    and refs: "refs_match p (\<lambda>b. table_refs (req_to_blocks m) b + R b)"
  shows "\<exists>m' p'. stm_free m p rid = Inr (m', p') \<and> manager_ok (pool_blocks p) m' \<and>
    refs_match p' (\<lambda>b. table_refs (req_to_blocks m') b + R b) \<and> pool_config p' = pool_config p \<and> block_size m' = block_size m \<and>
    req_to_blocks m' = AList.delete rid (req_to_blocks m) \<and> get_num_free_blocks p' \<ge> get_num_free_blocks p"
proof -
  let ?old = "dd_list rid (req_to_blocks m)"
  note d = manager_okD(1)[OF ok]
  have t: "table_ok (pool_blocks p) (rev ?old)"
    using manager_okD(2)[OF ok, of rid] by (simp add: table_ok_def rev_filter[symmetric])
  have pos: "0 < table_refs (req_to_blocks m) b + R b" if "b \<in> set (rev ?old)" for b
    using table_member_refs[where R = R, OF ok _ R] that by simp
  obtain p' where p': "free_blocks (rev ?old) p = Inr p'"
    "refs_match p' (\<lambda>b. table_refs (req_to_blocks m) b + R b - int (count_list (rev ?old) b))"
    "pool_config p' = pool_config p" "get_num_free_blocks p' \<ge> get_num_free_blocks p"
    using refs_match_free[OF refs t pos] by blast
  let ?m0 = "if mgr_class m = MambaManager \<and> mgr_mamba_cache_mode m = ''align''
                then m\<lparr>allocated_block_reqs := filter (\<lambda>r. r \<noteq> rid) (allocated_block_reqs m),
                       last_state_block_idx := AList.delete rid (last_state_block_idx m)\<rparr>
                else m"
  let ?m' = "?m0\<lparr>req_to_blocks := AList.delete rid (req_to_blocks ?m0), num_cached_block := AList.delete rid (num_cached_block ?m0)\<rparr>"
  have run: "stm_free m p rid = Inr (?m', p')" using p'(1) by (simp add: stm_free_def Let_def)
  have "manager_ok (pool_blocks p) ?m'"
    using ok by (auto simp: manager_ok_def AList.distinct_delete table_ok_def)
  moreover have "refs_match p' (\<lambda>b. table_refs (req_to_blocks ?m') b + R b)"
    by (rule refs_match_cong[OF p'(2)]) (simp add: table_refs_delete[OF d])
  moreover have "block_size ?m' = block_size m" "req_to_blocks ?m' = AList.delete rid (req_to_blocks m)" by simp_all
  ultimately show ?thesis using run p'(3,4) by blast
qed

interpretation free_tables: table_operation
  "\<lambda>i m p. rbind (stm_free m p rid) (\<lambda>(m', p'). Inr ((), m', p'))" "\<lambda>i blocks m. True" for rid
proof (unfold_locales, goal_cases)
  case (1 i m p a m' p' R)
  then show ?case using stm_free_total[of p m R rid] by (auto simp: rbind_Inr_iff)
qed

interpretation cache_tables: table_operation
  "\<lambda>i m p. rbind (stm_cache_blocks m p request n) (\<lambda>(m', p'). Inr ((), m', p'))" "\<lambda>i blocks m. True" for request n
proof (unfold_locales, goal_cases)
  case (1 i m p a m' p' R)
  let ?rid = "request_id request"
  let ?old = "dd_list ?rid (req_to_blocks m)"
  note ok = 1(3)
  let ?nc = "case map_of (num_cached_block m) ?rid of None \<Rightarrow> 0 | Some n \<Rightarrow> n" and ?k = "n div block_size m"
  have cls: "mgr_class m \<noteq> CrossAttentionManager" using 1(1) by (auto simp: stm_cache_blocks_def)
  show ?case
  proof (cases "?nc \<ge> ?k")
    case True
    then show ?thesis using 1 cls by (simp add: stm_cache_blocks_def Let_def)
  next
    case False
    then have 2: "cache_full_blocks request ?old ?nc ?k (block_size m) (kv_cache_group_id m) p = Inr p'"
      "m' = (set_req_blocks ?rid ?old m)\<lparr>num_cached_block := AList.update ?rid ?k (num_cached_block m)\<rparr>"
      using 1(1) cls by (auto simp: stm_cache_blocks_def Let_def rbind_Inr_iff simp del: not_le)
    have "set ?old \<subseteq> set (pool_blocks p)" using manager_okD(2)[OF ok, of ?rid] by (simp add: table_ok_def)
    from refs_match_cache[OF 1(5) 2(1) this]
    have c: "refs_match p' (\<lambda>b. table_refs (req_to_blocks m) b + R b)" "pool_config p' = pool_config p" by auto
    have "manager_ok (pool_blocks p) (set_req_blocks ?rid ?old m) \<and>
      refs_match p' (\<lambda>b. table_refs (req_to_blocks (set_req_blocks ?rid ?old m)) b + R b)"
      by (rule keeps_table_replace[OF ok manager_okD(2)[OF ok]]) (use c(1) in simp_all)
    then show ?thesis using c(2) 2(2) manager_ok_fields[of "pool_blocks p" "set_req_blocks ?rid ?old m" m'] by simp
  qed
qed

lemma skipped_le:
  assumes "manager_ok blocks m" "0 \<le> n"
  shows "get_num_skipped_tokens m n \<le> n"
proof -
  have "n div c * c \<le> n" if "0 < c" for c :: int using le_div_iff_mult_le[OF that, of "n div c" n] by simp
  then show ?thesis using assms by (auto simp: manager_ok_def get_num_skipped_tokens_def split: manager_class.splits)
qed

lemma skipped_blocks_le:
  assumes "manager_ok blocks m" "0 \<le> n"
  shows "get_num_skipped_tokens m n div block_size m \<le> cdiv n (block_size m)"
proof -
  have b: "0 < block_size m" by (rule manager_okD(5)[OF assms(1)])
  have "get_num_skipped_tokens m n div block_size m \<le> n div block_size m"
    using zdiv_mono1[OF skipped_le[OF assms] b] .
  then show ?thesis using div_le_cdiv[OF b, of n] by simp
qed

text \<open>The hit blocks that stay after dropping those outside the window, and the table they start.\<close>

definition kept_hits :: "SingleTypeKVCacheManager \<Rightarrow> bref list \<Rightarrow> int \<Rightarrow> bref list" where
  "kept_hits m new tot =
     (let k = get_num_skipped_tokens m tot div block_size m in if k > 0 then py_drop k new else new)"

definition hit_table :: "SingleTypeKVCacheManager \<Rightarrow> bref list \<Rightarrow> int \<Rightarrow> bref list" where
  "hit_table m new tot =
     replicate (nat (get_num_skipped_tokens m tot div block_size m)) (mgr_null_block m) @ kept_hits m new tot"

lemma kept_hits_eq: "kept_hits m new tot = drop (nat (get_num_skipped_tokens m tot div block_size m)) new"
  by (simp add: kept_hits_def Let_def py_drop_def slice_pos_def)

lemma hit_table_length:
  "length (hit_table m new tot) = max (nat (get_num_skipped_tokens m tot div block_size m)) (length new)"
  by (simp add: hit_table_def kept_hits_eq)

lemma hit_table_count:
  assumes "manager_ok blocks m" "b \<noteq> Blk 0"
  shows "count_list (hit_table m new tot) b = count_list (kept_hits m new tot) b"
  using assms manager_okD(3)[OF assms(1)] by (simp add: hit_table_def count_list_replicate)

lemma hit_table_ok:
  assumes ok: "manager_ok blocks m" and "table_ok blocks new"
  shows "table_ok blocks (hit_table m new tot)" "table_ok blocks (kept_hits m new tot)"
proof -
  have d: "distinct (filter (\<lambda>b. b \<noteq> Blk 0) (kept_hits m new tot))"
    using assms(2) unfolding table_ok_def kept_hits_eq
    by (metis append_take_drop_id distinct_append filter_append)
  moreover have "set (kept_hits m new tot) \<subseteq> set blocks"
    using assms(2) set_drop_subset unfolding table_ok_def kept_hits_eq by fast
  ultimately show k: "table_ok blocks (kept_hits m new tot)" by (simp add: table_ok_def)
  then show "table_ok blocks (hit_table m new tot)"
    using manager_okD(3,4)[OF ok] by (auto simp: hit_table_def table_ok_def)
qed

lemma base_allocate_new_computed_cases:
  assumes run: "base_allocate_new_computed_blocks m p rid new loc ext = Inr (m', p')"
    and fresh: "map_of (num_cached_block m) rid = None"
  obtains p1 where "dd_list rid (req_to_blocks m) = []"
    "(if mgr_enable_caching m then touch (kept_hits m new (loc + ext)) p
      else py_assert (kept_hits m new (loc + ext) = []) (Inr p)) = Inr p1"
    "(\<exists>t. m' = (set_req_blocks rid (hit_table m new (loc + ext)) m)\<lparr>num_cached_block := t\<rparr> \<and> p' = p1) \<or>
     (\<exists>t bs. get_new_blocks (cdiv (loc + ext) (block_size m) - int (length (hit_table m new (loc + ext)))) p1 = Inr (bs, p') \<and>
        m' = set_req_blocks rid (hit_table m new (loc + ext) @ bs)
               ((set_req_blocks rid (hit_table m new (loc + ext)) m)\<lparr>num_cached_block := t\<rparr>))"
proof -
  let ?ht = "hit_table m new (loc + ext)"
  let ?ext = "if get_num_skipped_tokens m (loc + ext) div block_size m > 0
              then min (loc + ext - get_num_skipped_tokens m (loc + ext)) ext else ext"
  let ?m1 = "(set_req_blocks rid ?ht m)\<lparr>num_cached_block := AList.update rid (int (length ?ht)) (num_cached_block m)\<rparr>"
  have e: "dd_list rid (req_to_blocks m) = []"
    using run fresh by (auto simp: base_allocate_new_computed_blocks_def Let_def)
  have eq: "base_allocate_new_computed_blocks m p rid new loc ext =
    rbind (if mgr_enable_caching m then touch (kept_hits m new (loc + ext)) p
           else py_assert (kept_hits m new (loc + ext) = []) (Inr p)) (\<lambda>p1.
      if ?ext > 0
      then rbind (get_new_blocks (cdiv (loc + ext) (block_size m) - int (length ?ht)) p1) (\<lambda>(bs, p2).
             Inr (set_req_blocks rid (?ht @ bs) ?m1, p2))
      else Inr (?m1, p1))"
    by (simp only: base_allocate_new_computed_blocks_def Let_def hit_table_def kept_hits_def e fresh append_Nil
        list.size(3) py_assert_simps simp_thms if_False)
  obtain p1 where p1: "(if mgr_enable_caching m then touch (kept_hits m new (loc + ext)) p
           else py_assert (kept_hits m new (loc + ext) = []) (Inr p)) = Inr p1"
    "(if ?ext > 0 then rbind (get_new_blocks (cdiv (loc + ext) (block_size m) - int (length ?ht)) p1) (\<lambda>(bs, p2).
             Inr (set_req_blocks rid (?ht @ bs) ?m1, p2)) else Inr (?m1, p1)) = Inr (m', p')"
    using run unfolding eq rbind_Inr_iff by blast
  show thesis
  proof (cases "?ext > 0")
    case True
    then show thesis using that[OF e p1(1)] p1(2) by (auto simp: rbind_Inr_iff split: prod.splits)
  next
    case False
    then show thesis using that[OF e p1(1)] p1(2) by auto
  qed
qed

lemma kept_hits_touch:
  assumes ok: "manager_ok (pool_blocks p) m" and refs: "refs_match p R" and new: "table_ok (pool_blocks p) new"
    and run: "(if mgr_enable_caching m then touch (kept_hits m new tot) p
               else py_assert (kept_hits m new tot = []) (Inr p)) = Inr p1"
  shows "refs_match p1 (\<lambda>b. R b + int (count_list (kept_hits m new tot) b)) \<and> pool_config p1 = pool_config p \<and>
    get_num_free_blocks p1 \<ge> get_num_free_blocks p - get_num_evictable_blocks p (kept_hits m new tot)"
proof (cases "mgr_enable_caching m")
  case True
  have "set (kept_hits m new tot) \<subseteq> set (pool_blocks p)" using hit_table_ok(2)[OF ok new] by (simp add: table_ok_def)
  from refs_match_touch[OF refs this] show ?thesis using True run by auto
next
  case False
  then show ?thesis using run refs by (auto simp: get_num_evictable_blocks_def)
qed

lemma allocate_new_computed_keeps:
  assumes run: "base_allocate_new_computed_blocks m p rid new loc ext = Inr (m', p')" and ok: "manager_ok (pool_blocks p) m"
    and new: "table_ok (pool_blocks p) new" and sz: "0 \<le> loc" "0 \<le> ext" "int (length new) * block_size m \<le> loc"
    and R: "\<And>b. 0 \<le> R b" and refs: "refs_match p (\<lambda>b. table_refs (req_to_blocks m) b + R b)"
  shows "manager_ok (pool_blocks p) m' \<and> refs_match p' (\<lambda>b. table_refs (req_to_blocks m') b + R b) \<and>
    pool_config p' = pool_config p \<and> block_size m' = block_size m"
proof (cases "map_of (num_cached_block m) rid")
  case (Some k)
  then show ?thesis using run ok refs by (simp add: base_allocate_new_computed_blocks_def)
next
  case None
  let ?ht = "hit_table m new (loc + ext)" and ?kept = "kept_hits m new (loc + ext)"
  obtain p1 where c: "dd_list rid (req_to_blocks m) = []"
    "(if mgr_enable_caching m then touch ?kept p else py_assert (?kept = []) (Inr p)) = Inr p1"
    "(\<exists>t. m' = (set_req_blocks rid ?ht m)\<lparr>num_cached_block := t\<rparr> \<and> p' = p1) \<or>
     (\<exists>t bs. get_new_blocks (cdiv (loc + ext) (block_size m) - int (length ?ht)) p1 = Inr (bs, p') \<and>
        m' = set_req_blocks rid (?ht @ bs) ((set_req_blocks rid ?ht m)\<lparr>num_cached_block := t\<rparr>))"
    using base_allocate_new_computed_cases[OF run None] by blast
  have t1: "refs_match p1 (\<lambda>b. table_refs (req_to_blocks m) b + R b + int (count_list ?kept b))" "pool_config p1 = pool_config p"
    using kept_hits_touch[OF ok refs new c(2)] by auto
  have pb: "pool_blocks p1 = pool_blocks p" by (rule config_fields(4)[OF t1(2)])
  have ht: "table_ok (pool_blocks p) ?ht" by (rule hit_table_ok(1)[OF ok new])
  have "refs_match p1 (\<lambda>b. table_refs (req_to_blocks m) b + R b - int (count_list (dd_list rid (req_to_blocks m)) b)
           + int (count_list ?ht b))"
  proof (rule refs_match_cong[OF t1(1)])
    fix b assume "b \<in> usable p1"
    then have "b \<noteq> Blk 0" by auto
    then show "table_refs (req_to_blocks m) b + R b + int (count_list ?kept b) = table_refs (req_to_blocks m) b + R b -
       int (count_list (dd_list rid (req_to_blocks m)) b) + int (count_list ?ht b)"
      using hit_table_count[OF ok] by (simp add: c(1))
  qed
  from keeps_table_replace[OF ok ht _ this] c(1)
  have k1: "manager_ok (pool_blocks p) (set_req_blocks rid ?ht m)"
    "refs_match p1 (\<lambda>b. table_refs (req_to_blocks (set_req_blocks rid ?ht m)) b + R b)" by auto
  let ?m1 = "\<lambda>t. (set_req_blocks rid ?ht m)\<lparr>num_cached_block := t\<rparr>"
  have k2: "manager_ok (pool_blocks p) (?m1 t)" for t by (rule manager_ok_fields[OF k1(1)]) simp_all
  from c(3) show ?thesis
  proof (elim disjE exE conjE)
    fix t assume "m' = ?m1 t" "p' = p1"
    then show ?thesis using k2 k1(2) t1(2) by simp
  next
    fix t bs assume gn: "get_new_blocks (cdiv (loc + ext) (block_size m) - int (length ?ht)) p1 = Inr (bs, p')"
      and m': "m' = set_req_blocks rid (?ht @ bs) (?m1 t)"
    have "int (length new) \<le> cdiv (loc + ext) (block_size m)"
      using cdiv_mono[OF manager_okD(5)[OF ok], of "int (length new) * block_size m" "loc + ext"] sz manager_okD(5)[OF ok] by simp
    then have "0 \<le> cdiv (loc + ext) (block_size m) - int (length ?ht)"
      using skipped_blocks_le[OF ok, of "loc + ext"] sz cdiv_nonneg[OF manager_okD(5)[OF ok], of "loc + ext"]
      by (simp add: hit_table_length)
    note al = refs_match_alloc[OF k1(2) this gn]
    have bs: "table_ok (pool_blocks p1) bs"
      using al(3,4) pool_blocks_usable[OF k1(2)] by (auto simp: table_ok_def)
    have "manager_ok (pool_blocks p1) m'"
      unfolding m' using keeps_table_append[where R = R, of p1 "?m1 t" bs rid] k2 pb R bs al(5) by simp
    moreover have "refs_match p' (\<lambda>b. table_refs (req_to_blocks m') b + R b)"
      by (intro refs_match_cong[OF al(1)]) (simp add: m' table_refs_update[OF manager_okD(1)[OF ok]])
    ultimately show ?thesis using al(2) t1(2) pb m' by simp
  qed
qed

definition hits_ok :: "int \<Rightarrow> int \<Rightarrow> bref list list \<Rightarrow> nat \<Rightarrow> bref list \<Rightarrow> SingleTypeKVCacheManager \<Rightarrow> bool" where
  "hits_ok loc ext new i blocks m \<longleftrightarrow> i < length new \<and> table_ok blocks (new ! i) \<and> 0 \<le> loc \<and> 0 \<le> ext \<and>
     int (length (new ! i)) * block_size m \<le> loc"

interpretation alloc_computed: table_operation
  "\<lambda>i m p. rbind (py_index new (int i)) (\<lambda>bs.
     rbind (stm_allocate_new_computed_blocks m p rid bs loc ext) (\<lambda>(m', p'). Inr ((), m', p')))"
  "hits_ok loc ext new" for new rid loc ext
proof (unfold_locales, goal_cases)
  case (1 i m p a m' p' R)
  then have run: "stm_allocate_new_computed_blocks m p rid (new ! i) loc ext = Inr (m', p')"
    by (auto simp: hits_ok_def py_index_nat rbind_Inr_iff)
  show ?case
  proof (cases "mgr_class m = CrossAttentionManager")
    case True
    then show ?thesis using run 1 by (simp add: stm_allocate_new_computed_blocks_def)
  next
    case False
    then have "base_allocate_new_computed_blocks m p rid (new ! i) loc ext = Inr (m', p')"
      using run by (simp add: stm_allocate_new_computed_blocks_def)
    from allocate_new_computed_keeps[OF this 1(3) _ _ _ _ 1(4,5)] 1(2) show ?thesis by (simp add: hits_ok_def)
  qed
qed

lemma num_blocks_keeps:
  assumes "stm_num_blocks_to_allocate m p rid n new tot main = Inr (k, m')"
  shows "m' = m \<or> m' = set_req_blocks rid (dd_list rid (req_to_blocks m)) m"
  using assms
  by (auto simp: stm_num_blocks_to_allocate_def mamba_num_blocks_to_allocate_def Let_def rbind_Inr_iff split: if_splits)

interpretation count_needed: table_operation
  "\<lambda>i m p. rbind (if mgr_class m = CrossAttentionManager then stm_num_blocks_to_allocate m p rid n_enc [] 0 n_enc
                  else rbind (py_index new (int i)) (\<lambda>bs. stm_num_blocks_to_allocate m p rid n bs tot main))
             (\<lambda>(k, m'). Inr (k, m', p))"
  "\<lambda>i blocks m. True" for rid n_enc new n tot main
proof (unfold_locales, goal_cases)
  case (1 i m p a m' p' R)
  then have m': "m' = m \<or> m' = set_req_blocks rid (dd_list rid (req_to_blocks m)) m" "p' = p"
    by (auto simp: rbind_Inr_iff split: if_splits dest: num_blocks_keeps)
  have "manager_ok (pool_blocks p) (set_req_blocks rid (dd_list rid (req_to_blocks m)) m) \<and>
    refs_match p (\<lambda>b. table_refs (req_to_blocks (set_req_blocks rid (dd_list rid (req_to_blocks m)) m)) b + R b)"
    by (rule keeps_table_replace[OF 1(3) manager_okD(2)[OF 1(3)]]) (use 1(5) in simp_all)
  then show ?case using m' 1 by auto
qed

end
