(* ===== verification/Pool_Properties.thy ===== *)
theory Pool_Properties
  imports Block_Pool_Correct
begin

text \<open>
  The properties of the block pool, stated for every pool that calls can produce
  (\<open>pool_reachable\<close>) and over what the code itself can observe: the traversal of the free
  queue, the reference counts, the hashes and the lookups.
\<close>

section \<open>From observations to the invariant\<close>

lemma reachable_free_list:
  assumes "pool_reachable p" "fq_get_all_free_blocks p = Some (Inr xs)"
  shows "pool_repr p xs"
proof -
  obtain ys where ys: "pool_repr p ys" using reachable_repr[OF assms(1)] by blast
  then have "fq_get_all_free_blocks p = Some (Inr ys)"
    by (intro fq_get_all_free_blocks_repr) (simp add: pool_repr_def)
  then show ?thesis using ys assms(2) by simp
qed

lemma repr_free_list: "pool_repr p xs \<Longrightarrow> fq_get_all_free_blocks p = Some (Inr xs)"
  by (intro fq_get_all_free_blocks_repr) (simp add: pool_repr_def)

text \<open>Four blocks, caching on, hashes at block size 2.\<close>

definition example_pool :: BlockPool where
  "example_pool = projr (BlockPool_init 4 True 2 False False False)"

lemma example_pool_init:
  "BlockPool_init 4 True 2 False False False = Inr example_pool"
  "pool_repr example_pool [Blk 1, Blk 2, Blk 3]" "num_gpu_blocks example_pool = 4"
  "enable_caching example_pool" "hash_block_size example_pool = 2" "block_hash (objs example_pool b) = None"
proof -
  obtain p where p: "BlockPool_init 4 True 2 False False False = Inr p" "pool_repr p (map Blk [1..<nat 4])"
    "num_gpu_blocks p = 4" "enable_caching p" "hash_block_size p = 2" "\<forall>b. block_hash (objs p b) = None"
    using BlockPool_init_spec[of 4 True 2 False False False] by auto
  moreover have "example_pool = p" using p(1) by (simp add: example_pool_def)
  moreover have "[1..<nat 4] = [1, 2, 3]" by (simp add: upt_rec)
  ultimately show "BlockPool_init 4 True 2 False False False = Inr example_pool"
    "pool_repr example_pool [Blk 1, Blk 2, Blk 3]" "num_gpu_blocks example_pool = 4"
    "enable_caching example_pool" "hash_block_size example_pool = 2" "block_hash (objs example_pool b) = None" by auto
qed

lemma example_pool_facts:
  "pool_reachable example_pool" "fq_get_all_free_blocks example_pool = Some (Inr [Blk 1, Blk 2, Blk 3])"
  "pool_blocks example_pool = [Blk 0, Blk 1, Blk 2, Blk 3]" "null_block example_pool = Blk 0"
  "usable example_pool = {Blk 1, Blk 2, Blk 3}"
proof -
  have "{0<..<4} = {1, 2, 3 :: nat}" by auto
  then show "usable example_pool = {Blk 1, Blk 2, Blk 3}" by (simp add: usable_def example_pool_init(3))
  show "pool_reachable example_pool" using example_pool_init(1) by (rule pool_reachable.init)
  show "fq_get_all_free_blocks example_pool = Some (Inr [Blk 1, Blk 2, Blk 3])"
    by (rule repr_free_list[OF example_pool_init(2)])
  have "pool_ok example_pool {Blk 1, Blk 2, Blk 3}" using example_pool_init(2) by (simp add: pool_repr_def)
  moreover have "[0..<nat 4] = [0, 1, 2, 3]" by (simp add: upt_rec)
  ultimately show "pool_blocks example_pool = [Blk 0, Blk 1, Blk 2, Blk 3]" "null_block example_pool = Blk 0"
    using example_pool_init(3) by (simp_all add: pool_ok_def)
qed

section \<open>Properties\<close>

text \<open>
  C21 (safety): in every reachable pool the free queue is a well-formed doubly linked list whose
  traversal ends; it holds, without repetition, exactly the non-null blocks nobody references;
  its counter is its length, reference counts are never negative, and the prefix cache maps a
  key to a block exactly when that block carries the key. So a block is never both free and in
  use, never twice free, and never found under a stale hash.
\<close>

theorem pool_safety:
  assumes "pool_reachable p"
  shows "\<exists>xs. fq_get_all_free_blocks p = Some (Inr xs) \<and> distinct xs \<and>
    get_num_free_blocks p = int (length xs) \<and> null_block p \<notin> set xs \<and>
    set xs = {b \<in> set (pool_blocks p). b \<noteq> null_block p \<and> ref_cnt (objs p b) = 0} \<and>
    (\<forall>b \<in> set (pool_blocks p). b \<noteq> null_block p \<longrightarrow> 0 \<le> ref_cnt (objs p b)) \<and>
    (\<forall>key. bm_blocks (cached_block_hash_to_block p) key = {b. block_hash (objs p b) = Some key}) \<and>
    block_hash (objs p (null_block p)) = None"
proof -
  obtain xs where xs: "pool_repr p xs" using reachable_repr[OF assms] by blast
  then have ok: "pool_ok p (set xs)" and f: "fq_repr p xs" by (simp_all add: pool_repr_def)
  have null: "null_block p = Blk 0" and ix: "index_ok p" and sub: "set xs \<subseteq> usable p"
    and rc: "\<forall>b \<in> usable p. ref_cnt (objs p b) \<ge> 0 \<and> (ref_cnt (objs p b) = 0 \<longleftrightarrow> b \<in> set xs)"
    using ok by (simp_all add: pool_ok_def)
  have pb: "set (pool_blocks p) = insert (Blk 0) (usable p)" by (rule usable_blocks[OF ok])
  have "block_hash (objs p (Blk 0)) = None"
    using ix null_not_usable by (cases "block_hash (objs p (Blk 0))") (auto simp: index_ok_def)
  moreover have "set xs = {b \<in> set (pool_blocks p). b \<noteq> null_block p \<and> ref_cnt (objs p b) = 0}"
    using sub rc pb null null_not_usable[of p] by auto
  moreover have "Blk 0 \<notin> set xs" using sub by auto
  ultimately show ?thesis
    using repr_free_list[OF xs] fq.repr_distinct[OF f] fq.repr_num[OF f] null ix rc pb
    by (auto simp: get_num_free_blocks_def index_ok_def)
qed

theorem pool_safety_witness:
  "\<exists>xs. fq_get_all_free_blocks example_pool = Some (Inr xs) \<and> distinct xs \<and> length xs = 3"
  using pool_safety[OF example_pool_facts(1)] example_pool_facts(2) by auto

text \<open>
  C22 (functional): allocation. Asking for at most the number of free blocks never raises: it
  returns the blocks at the front of the free queue, each with reference count 1 and, with
  caching on, without hash and out of the prefix cache; no other block changes and the rest of
  the queue keeps its order. Asking for more raises \<^verbatim>\<open>ValueError\<close>.
\<close>

theorem get_new_blocks_correct:
  assumes "pool_reachable p" "fq_get_all_free_blocks p = Some (Inr xs)" "0 \<le> n"
  shows "if n \<le> int (length xs)
    then \<exists>p'. get_new_blocks n p = Inr (take (nat n) xs, p') \<and>
      fq_get_all_free_blocks p' = Some (Inr (drop (nat n) xs)) \<and> pool_reachable p' \<and>
      (\<forall>b \<in> set (take (nat n) xs). ref_cnt (objs p' b) = 1 \<and>
         (enable_caching p \<longrightarrow> block_hash (objs p' b) = None \<and>
            (\<forall>key. b \<notin> bm_blocks (cached_block_hash_to_block p') key))) \<and>
      (\<forall>b. b \<notin> set (take (nat n) xs) \<longrightarrow> ref_cnt (objs p' b) = ref_cnt (objs p b) \<and>
         block_hash (objs p' b) = block_hash (objs p b))
    else get_new_blocks n p = Inl ValueError"
proof -
  have rep: "pool_repr p xs" by (rule reachable_free_list[OF assms(1,2)])
  show ?thesis
  proof (cases "n \<le> int (length xs)")
    case True
    obtain p' where p': "get_new_blocks n p = Inr (take (nat n) xs, p')" "pool_repr p' (drop (nat n) xs)"
      "\<And>b. b \<notin> set (take (nat n) xs) \<Longrightarrow> payload (objs p') b = payload (objs p) b"
      "\<And>b. b \<in> set (take (nat n) xs) \<Longrightarrow> ref_cnt (objs p' b) = 1 \<and>
         block_hash (objs p' b) = (if enable_caching p then None else block_hash (objs p b))"
      "\<And>key. bm_blocks (cached_block_hash_to_block p') key = bm_blocks (cached_block_hash_to_block p) key -
         (if enable_caching p then set (take (nat n) xs) else {})"
      using get_new_blocks_spec[OF rep assms(3) True] by blast
    moreover have "pool_reachable p'" using pool_reachable.alloc[OF assms(1,3) p'(1)] .
    ultimately show ?thesis
      using True repr_free_list[OF p'(2)] payload_fields(2,3)[OF p'(3)] by auto
  next
    case False
    then show ?thesis using get_new_blocks_too_many[OF rep] by simp
  qed
qed

theorem get_new_blocks_correct_witness:
  "(\<exists>p'. get_new_blocks 2 example_pool = Inr ([Blk 1, Blk 2], p') \<and>
      fq_get_all_free_blocks p' = Some (Inr [Blk 3])) \<and> get_new_blocks 4 example_pool = Inl ValueError"
  using get_new_blocks_correct[OF example_pool_facts(1,2), of 2]
    get_new_blocks_correct[OF example_pool_facts(1,2), of 4] by auto

text \<open>
  A prefix-cache hit takes its blocks out of the eviction order. Touching blocks
  of the pool never raises, adds to each the number of times it is listed, removes exactly them
  from the free queue (the order of the others is kept) and leaves every hash and the cache alone.
\<close>

theorem touch_correct:
  assumes "pool_reachable p" "fq_get_all_free_blocks p = Some (Inr xs)" "set bs \<subseteq> set (pool_blocks p)"
  shows "\<exists>p'. touch bs p = Inr p' \<and> pool_reachable p' \<and>
    fq_get_all_free_blocks p' = Some (Inr (filter (\<lambda>b. b \<notin> set bs) xs)) \<and>
    (\<forall>b. ref_cnt (objs p' b) = ref_cnt (objs p b) + int (count_list bs b) \<and>
         block_hash (objs p' b) = block_hash (objs p b)) \<and>
    cached_block_hash_to_block p' = cached_block_hash_to_block p"
proof -
  obtain p' where p': "touch bs p = Inr p'" "pool_repr p' (filter (\<lambda>x. x \<notin> set bs) xs)" "refs_only p p'"
    "\<And>x. ref_cnt (objs p' x) = ref_cnt (objs p x) + int (count_list bs x)"
    using touch_spec[OF reachable_free_list[OF assms(1,2)] assms(3)] by blast
  show ?thesis
    using p' repr_free_list[OF p'(2)] pool_reachable.touch[OF assms(1,3) p'(1)] by (auto simp: refs_only_def)
qed

theorem touch_correct_witness:
  "\<exists>p'. touch [Blk 2, Blk 0, Blk 2] example_pool = Inr p' \<and> fq_get_all_free_blocks p' = Some (Inr [Blk 1, Blk 3])"
  using touch_correct[OF example_pool_facts(1,2), of "[Blk 2, Blk 0, Blk 2]"] example_pool_facts(3) by auto

text \<open>
  C23 (functional): giving references back. Freeing blocks, each listed once and referenced
  (null blocks may appear anywhere), never raises; it lowers the reference counts by one and
  appends to the free queue, in the order given, exactly the blocks whose last reference this
  was, so the first block of the list is evicted first. Hashes and cache stay: a freed block
  can still be hit.
\<close>

theorem free_blocks_correct:
  assumes "pool_reachable p" "fq_get_all_free_blocks p = Some (Inr xs)" "set bs \<subseteq> set (pool_blocks p)"
    "distinct (filter (\<lambda>b. b \<noteq> null_block p) bs)"
    "\<And>b. b \<in> set bs \<Longrightarrow> b \<noteq> null_block p \<Longrightarrow> 0 < ref_cnt (objs p b)"
  shows "\<exists>p'. free_blocks bs p = Inr p' \<and> pool_reachable p' \<and>
    fq_get_all_free_blocks p' = Some (Inr (xs @ filter (\<lambda>b. b \<noteq> null_block p \<and> ref_cnt (objs p b) = 1) bs)) \<and>
    (\<forall>b. ref_cnt (objs p' b) = ref_cnt (objs p b) - int (count_list bs b) \<and>
         block_hash (objs p' b) = block_hash (objs p b)) \<and>
    cached_block_hash_to_block p' = cached_block_hash_to_block p"
proof -
  obtain p' where p': "free_blocks bs p = Inr p'"
    "pool_repr p' (xs @ filter (\<lambda>b. b \<noteq> null_block p \<and> ref_cnt (objs p b) = 1) bs)" "refs_only p p'"
    "\<And>x. ref_cnt (objs p' x) = ref_cnt (objs p x) - int (count_list bs x)"
    using free_blocks_spec[OF reachable_free_list[OF assms(1,2)] assms(3,4)] assms(5) by blast
  have "pool_reachable p'" using pool_reachable.free[OF assms(1,3,4) _ p'(1)] assms(5) by blast
  then show ?thesis using p' repr_free_list[OF p'(2)] by (auto simp: refs_only_def)
qed

theorem free_blocks_correct_witness:
  "\<exists>p1 p2. get_new_blocks 2 example_pool = Inr ([Blk 1, Blk 2], p1) \<and>
     free_blocks [Blk 2, Blk 0, Blk 1] p1 = Inr p2 \<and>
     fq_get_all_free_blocks p2 = Some (Inr [Blk 3, Blk 2, Blk 1])"
proof -
  obtain p1 where p1: "get_new_blocks 2 example_pool = Inr ([Blk 1, Blk 2], p1)" "pool_repr p1 [Blk 3]"
    "pool_config p1 = pool_config example_pool" "\<And>b. b \<in> set [Blk 1, Blk 2] \<Longrightarrow> ref_cnt (objs p1 b) = 1"
    using get_new_blocks_spec[OF example_pool_init(2), of 2] by auto
  have r: "pool_reachable p1" by (rule pool_reachable.alloc[OF example_pool_facts(1) _ p1(1)]) simp
  have c: "pool_blocks p1 = [Blk 0, Blk 1, Blk 2, Blk 3]" "null_block p1 = Blk 0"
    using config_fields(4,5)[OF p1(3)] example_pool_facts(3,4) by simp_all
  have sub: "set [Blk 2, Blk 0, Blk 1] \<subseteq> set (pool_blocks p1)" using c by simp
  have d: "distinct (filter (\<lambda>b. b \<noteq> null_block p1) [Blk 2, Blk 0, Blk 1])" using c by simp
  have one: "ref_cnt (objs p1 (Blk 1)) = 1" "ref_cnt (objs p1 (Blk 2)) = 1" using p1(4) by simp_all
  then have pos: "0 < ref_cnt (objs p1 b)" if "b \<in> set [Blk 2, Blk 0, Blk 1]" "b \<noteq> null_block p1" for b
    using that c by auto
  have "filter (\<lambda>b. b \<noteq> null_block p1 \<and> ref_cnt (objs p1 b) = 1) [Blk 2, Blk 0, Blk 1] = [Blk 2, Blk 1]"
    using one c by simp
  then show ?thesis using free_blocks_correct[OF r repr_free_list[OF p1(2)] sub d pos] p1(1) by auto
qed

text \<open>
  C24 (roundtrip): what is cached is found. After caching the full blocks \<open>nc..<nf\<close> of a request
  (block size a multiple \<open>f\<close> of the hash block size) a lookup of the hash of any of them that is not a
  null block succeeds, and whatever block it returns is a pool block carrying exactly that hash
  and group. No reference count and no free-queue entry changes.
\<close>

theorem cache_lookup_roundtrip:
  assumes "pool_reachable p" "fq_get_all_free_blocks p = Some (Inr xs)"
    and "0 \<le> nc" "nc < nf" "nf \<le> int (length blocks)"
    and "set blocks \<subseteq> set (pool_blocks p)"
      "distinct (filter (\<lambda>b. b \<noteq> null_block p) (py_slice nc nf blocks))"
      "\<And>b. b \<in> set (py_slice nc nf blocks) \<Longrightarrow> b \<noteq> null_block p \<Longrightarrow> block_hash (objs p b) = None"
    and "0 \<le> g" "g < 2 ^ 32" "0 < hash_block_size p" "0 < f" "block_size = f * hash_block_size p"
      "nf * f \<le> int (length (block_hashes request))"
  shows "\<exists>p'. cache_full_blocks request blocks nc nf block_size g p = Inr p' \<and> pool_reachable p' \<and>
    fq_get_all_free_blocks p' = Some (Inr xs) \<and> (\<forall>b. ref_cnt (objs p' b) = ref_cnt (objs p b)) \<and>
    (\<forall>i. nc \<le> i \<and> i < nf \<and> blocks ! nat i \<noteq> null_block p \<longrightarrow>
       (\<exists>b. get_cached_block p' (scaled_hash (block_hashes request) f i) [g] = Inr (Some [b]) \<and>
          b \<in> set (pool_blocks p) \<and>
          block_hash (objs p' b) = Some (group_key (scaled_hash (block_hashes request) f i) g)))"
proof -
  have rep: "pool_repr p xs" by (rule reachable_free_list[OF assms(1,2)])
  have vg: "valid_group g" using assms(9,10) by (simp add: valid_group_def)
  have new: "set (py_slice nc nf blocks) \<subseteq> set (pool_blocks p)" by (rule subset_trans[OF set_py_slice assms(6)])
  obtain p' where p': "cache_full_blocks request blocks nc nf block_size g p = Inr p'" "pool_repr p' xs"
    "pool_config p' = pool_config p" "\<And>b. ref_cnt (objs p' b) = ref_cnt (objs p b)"
    "\<And>i. nc \<le> i \<Longrightarrow> i < nf \<Longrightarrow> blocks ! nat i \<noteq> null_block p \<Longrightarrow>
       block_hash (objs p' (blocks ! nat i)) = Some (group_key (scaled_hash (block_hashes request) f i) g)"
    using cache_full_blocks_spec[OF rep assms(3-5) new assms(7) _ vg assms(11,13,12,14)] assms(8) by blast
  have ok: "pool_ok p' (set xs)" using p'(2) by (simp add: pool_repr_def)
  have "\<exists>b. get_cached_block p' h [g] = Inr (Some [b]) \<and> b \<in> set (pool_blocks p) \<and>
      block_hash (objs p' b) = Some (group_key h g)"
    if "block_hash (objs p' b0) = Some (group_key h g)" for h b0
  proof -
    obtain r where r: "get_cached_block p' h [g] = Inr r"
      "case r of None \<Rightarrow> \<exists>g \<in> set [g]. \<forall>b. block_hash (objs p' b) \<noteq> Some (group_key h g)
       | Some bs \<Rightarrow> list_all2 (\<lambda>g b. b \<in> usable p' \<and> block_hash (objs p' b) = Some (group_key h g)) [g] bs"
      using get_cached_block_spec[OF ok, of "[g]" h] vg by auto
    have pb: "usable p' \<subseteq> set (pool_blocks p)" using usable_blocks[OF ok] config_fields(4)[OF p'(3)] by auto
    from r(2) that obtain bs where bs: "r = Some bs"
      "list_all2 (\<lambda>g b. b \<in> usable p' \<and> block_hash (objs p' b) = Some (group_key h g)) [g] bs"
      by (cases r) auto
    then obtain b where "bs = [b]" "b \<in> usable p'" "block_hash (objs p' b) = Some (group_key h g)"
      by (cases bs) auto
    then show ?thesis using r(1) bs(1) pb by blast
  qed
  then show ?thesis
    using p'(1,4,5) repr_free_list[OF p'(2)] pool_reachable.cache[OF assms(1,6) p'(1)] by blast
qed

theorem cache_lookup_roundtrip_witness:
  "\<exists>p'. cache_full_blocks ((example_request ''r'' [5] [])\<lparr>block_hashes := [[1], [2], [3], [4]]\<rparr>) [Blk 1, Blk 2] 0 2 4 0 example_pool = Inr p' \<and>
     (\<exists>b. get_cached_block p' [3, 4] [0] = Inr (Some [b]) \<and> block_hash (objs p' b) = Some [3, 4, 0, 0, 0, 0])"
proof -
  let ?r = "(example_request ''r'' [5] [])\<lparr>block_hashes := [[1], [2], [3], [4]]\<rparr>"
  have "\<exists>p'. cache_full_blocks ?r [Blk 1, Blk 2] 0 2 4 0 example_pool = Inr p' \<and> pool_reachable p' \<and>
    fq_get_all_free_blocks p' = Some (Inr [Blk 1, Blk 2, Blk 3]) \<and>
    (\<forall>b. ref_cnt (objs p' b) = ref_cnt (objs example_pool b)) \<and>
    (\<forall>i. 0 \<le> i \<and> i < 2 \<and> [Blk 1, Blk 2] ! nat i \<noteq> null_block example_pool \<longrightarrow>
       (\<exists>b. get_cached_block p' (scaled_hash (block_hashes ?r) 2 i) [0] = Inr (Some [b]) \<and>
          b \<in> set (pool_blocks example_pool) \<and>
          block_hash (objs p' b) = Some (group_key (scaled_hash (block_hashes ?r) 2 i) 0)))"
    by (rule cache_lookup_roundtrip[OF example_pool_facts(1,2)])
      (auto simp: example_pool_facts example_pool_init py_slice_def slice_pos_def)
  then obtain p' where p': "cache_full_blocks ?r [Blk 1, Blk 2] 0 2 4 0 example_pool = Inr p'"
    "\<And>i. 0 \<le> i \<and> i < 2 \<and> [Blk 1, Blk 2] ! nat i \<noteq> null_block example_pool \<Longrightarrow>
       \<exists>b. get_cached_block p' (scaled_hash (block_hashes ?r) 2 i) [0] = Inr (Some [b]) \<and>
          block_hash (objs p' b) = Some (group_key (scaled_hash (block_hashes ?r) 2 i) 0)" by blast
  have h: "scaled_hash (block_hashes ?r) 2 1 = [3, 4]" by (simp add: scaled_hash_def numeral_eq_Suc)
  have "be_bytes (Suc (Suc (Suc (Suc 0)))) 0 = [0, 0, 0, 0]" by simp
  then have g: "group_key [3, 4] 0 = [3, 4, 0, 0, 0, 0]" unfolding group_key_def by (simp add: eval_nat_numeral(2,3) del: be_bytes.simps)
  have "(0 :: int) \<le> 1 \<and> (1 :: int) < 2 \<and> [Blk 1, Blk 2] ! nat 1 \<noteq> null_block example_pool"
    by (simp add: example_pool_facts(4))
  from p'(2)[OF this] show ?thesis using p'(1) unfolding h g by blast
qed

text \<open>
  The prefix cache is reset exactly when no request holds a block. Then no block
  keeps a hash and no lookup in any group hits; otherwise the pool is unchanged. Reference counts
  and the free queue are never affected.
\<close>

theorem reset_prefix_cache_correct:
  assumes "pool_reachable p"
  shows "(fst (reset_prefix_cache p) \<longleftrightarrow> (\<forall>b \<in> set (pool_blocks p). b \<noteq> null_block p \<longrightarrow> ref_cnt (objs p b) = 0)) \<and>
    fq_get_all_free_blocks (snd (reset_prefix_cache p)) = fq_get_all_free_blocks p \<and>
    (if fst (reset_prefix_cache p)
     then (\<forall>b. block_hash (objs (snd (reset_prefix_cache p)) b) = None) \<and>
          (\<forall>h g. 0 \<le> g \<and> g < 2 ^ 32 \<longrightarrow> get_cached_block (snd (reset_prefix_cache p)) h [g] = Inr None)
     else snd (reset_prefix_cache p) = p)"
proof (intro conjI)
  obtain xs where xs: "pool_repr p xs" using reachable_repr[OF assms] by blast
  then have ok: "pool_ok p (set xs)" by (simp add: pool_repr_def)
  note rs = reset_prefix_cache_spec[OF xs]
  have "(\<forall>b \<in> usable p. ref_cnt (objs p b) = 0) \<longleftrightarrow>
      (\<forall>b \<in> set (pool_blocks p). b \<noteq> null_block p \<longrightarrow> ref_cnt (objs p b) = 0)"
    using usable_blocks[OF ok] null_not_usable[of p] ok by (auto simp: pool_ok_def)
  then show "fst (reset_prefix_cache p) \<longleftrightarrow> (\<forall>b \<in> set (pool_blocks p). b \<noteq> null_block p \<longrightarrow> ref_cnt (objs p b) = 0)"
    using rs(1) by blast
  show "fq_get_all_free_blocks (snd (reset_prefix_cache p)) = fq_get_all_free_blocks p"
    using rs(2,3) repr_free_list xs by (cases "fst (reset_prefix_cache p)") auto
  have "get_cached_block (snd (reset_prefix_cache p)) h [g] = Inr None"
    if "fst (reset_prefix_cache p)" "0 \<le> g \<and> g < 2 ^ 32" for h g
  proof -
    have "pool_ok (snd (reset_prefix_cache p)) (set xs)" using rs(3)[OF that(1)] by (simp add: pool_repr_def)
    from get_cached_block_spec[OF this, of "[g]" h] show ?thesis
      using that(2) rs(3)[OF that(1)] by (auto simp: valid_group_def list_all2_Cons1 split: option.splits)
  qed
  then show "if fst (reset_prefix_cache p)
     then (\<forall>b. block_hash (objs (snd (reset_prefix_cache p)) b) = None) \<and>
              (\<forall>h g. 0 \<le> g \<and> g < 2 ^ 32 \<longrightarrow> get_cached_block (snd (reset_prefix_cache p)) h [g] = Inr None)
         else snd (reset_prefix_cache p) = p"
    using rs(2,3) by auto
qed

theorem reset_prefix_cache_correct_witness:
  "fst (reset_prefix_cache example_pool) \<and> get_cached_block (snd (reset_prefix_cache example_pool)) [7] [0] = Inr None"
proof -
  have "fst (reset_prefix_cache example_pool)"
    using reset_prefix_cache_spec(1)[OF example_pool_init(2)] example_pool_init(2) example_pool_facts(5)
    by (simp add: pool_repr_def pool_ok_def)
  then show ?thesis using reset_prefix_cache_correct[OF example_pool_facts(1)] by (simp del: get_cached_block.simps)
qed

end
