(* ===== verification/KV_Invariant.thy ===== *)
theory KV_Invariant
  imports KV_Ownership Pool_Properties
begin

text \<open>
  The KV-cache manager as a whole: the states that any sequence of calls can produce and the
  ownership invariant on them. The manager's operations are compositions of the coordinator's
  runs over the groups, so each case is the fact of the corresponding interpretation.
\<close>

section \<open>Construction\<close>

fun spec_ok :: "KVCacheSpec \<Rightarrow> bool" where
  "spec_ok (SlidingWindowSpec a w) \<longleftrightarrow> a_block_size a > 0 \<and> w > 0"
| "spec_ok (ChunkedLocalAttentionSpec a c) \<longleftrightarrow> a_block_size a > 0 \<and> c > 0"
| "spec_ok (MambaSpec m) \<longleftrightarrow> m_block_size m > 0 \<and> m_num_speculative_blocks m \<ge> 0"
| "spec_ok (SinkFullAttentionSpec a f s) \<longleftrightarrow> False"
| "spec_ok s \<longleftrightarrow> spec_block_size s > 0"

definition kvm_ok :: "KVCacheManager \<Rightarrow> bool" where
  "kvm_ok k \<longleftrightarrow> kv_ok (c_block_pool (coordinator k)) (single_type_managers (coordinator k)) (\<lambda>_. 0)"

lemma get_manager_ok:
  assumes "get_manager_for_kv_cache_spec spec p caching g dcp pcp = Inr (m, p')" "spec_ok spec" "1 \<le> dcp" "1 \<le> pcp"
    "null_block p = Blk 0" "Blk 0 \<in> set blocks"
  shows "p' = p \<and> manager_ok blocks m \<and> req_to_blocks m = []"
proof -
  have "0 < dcp * pcp" using assms(3,4) by simp
  then have "spec_block_size spec > 0 \<Longrightarrow> spec_block_size spec * (dcp * pcp) > 0" by simp
  then show ?thesis using assms
    by (cases spec) (auto simp: get_manager_for_kv_cache_spec_def stm_base_init_def manager_ok_def dd_list_def
        table_ok_def Let_def)
qed

lemma init_managers_ok:
  assumes "init_managers caching dcp pcp i gs p = Inr (ms, p')" "\<forall>g \<in> set gs. spec_ok (g_kv_cache_spec g)"
    "1 \<le> dcp" "1 \<le> pcp" "null_block p = Blk 0" "Blk 0 \<in> set blocks"
  shows "p' = p \<and> (\<forall>m \<in> set ms. manager_ok blocks m) \<and> (\<forall>b. manager_refs ms b = 0)"
  using assms
proof (induction gs arbitrary: i p ms p')
  case Nil
  then show ?case by simp
next
  case (Cons g gs)
  from Cons.prems(1) obtain m p1 ms1 where st: "get_manager_for_kv_cache_spec (g_kv_cache_spec g) p caching i dcp pcp = Inr (m, p1)"
    "init_managers caching dcp pcp (i + 1) gs p1 = Inr (ms1, p')" "ms = m # ms1"
    by (auto simp: rbind_Inr_iff)
  have m: "p1 = p" "manager_ok blocks m" "req_to_blocks m = []"
    using get_manager_ok[OF st(1)] Cons.prems(2-6) by auto
  have "p' = p1 \<and> (\<forall>m \<in> set ms1. manager_ok blocks m) \<and> (\<forall>b. manager_refs ms1 b = 0)"
    using Cons.IH[OF st(2)] Cons.prems(2-6) m(1) by simp
  then show ?case using m st(3) by (simp add: table_refs_def)
qed

lemma coordinator_base_ok:
  assumes "coordinator_base_init kind cfg max_len eagle caching events dcp pcp hsize metrics ints = Inr c"
    "\<forall>g \<in> set (kv_cache_groups cfg). spec_ok (g_kv_cache_spec g)" "1 \<le> dcp" "1 \<le> pcp"
  shows "kv_ok (c_block_pool c) (single_type_managers c) (\<lambda>_. 0)"
proof -
  obtain p ms p1 where st: "BlockPool_init (num_blocks cfg) caching hsize events metrics ints = Inr p"
    "init_managers caching dcp pcp 0 (kv_cache_groups cfg) p = Inr (ms, p1)"
    "c_block_pool c = p1" "single_type_managers c = ms"
    using assms(1) by (auto simp: coordinator_base_init_def rbind_Inr_iff)
  have n: "0 < num_blocks cfg" using st(1) unfolding BlockPool_init_def py_assert_Inr_iff by blast
  obtain rep: "pool_repr p (map Blk [1..<nat (num_blocks cfg)])" and ng: "num_gpu_blocks p = num_blocks cfg"
    using BlockPool_init_spec[OF n, of caching hsize events metrics ints] st(1) by auto
  then have ok: "pool_ok p (set (map Blk [1..<nat (num_blocks cfg)]))" by (simp add: pool_repr_def)
  have b0: "Blk 0 \<in> set (pool_blocks p)" using usable_blocks[OF ok] by simp
  have "p1 = p \<and> (\<forall>m \<in> set ms. manager_ok (pool_blocks p) m) \<and> (\<forall>b. manager_refs ms b = 0)"
    by (rule init_managers_ok[OF st(2) assms(2-4) pool_ok_refD(4)[OF ok] b0])
  moreover have "usable p \<subseteq> set (map Blk [1..<nat (num_blocks cfg)])" using ng by (auto simp: usable_def)
  then have "ref_cnt (objs p b) = 0" if "b \<in> usable p" for b using that pool_ok_refD(1)[OF ok] by blast
  ultimately show ?thesis using rep st(3,4) by (auto simp: kv_ok_def refs_match_def)
qed

lemma kvm_init_ok:
  assumes "KVCacheManager_init cfg max_len hsize caching eagle logging events dcp pcp metrics ints = Inr k"
    "\<forall>g \<in> set (kv_cache_groups cfg). spec_ok (g_kv_cache_spec g)" "1 \<le> dcp" "1 \<le> pcp"
  shows "kvm_ok k"
proof -
  obtain c where c: "get_kv_cache_coordinator cfg max_len eagle caching events dcp pcp hsize metrics ints = Inr c" "coordinator k = c"
    using assms(1) by (auto simp: KVCacheManager_init_def rbind_Inr_iff)
  have un: "c_block_pool c' = c_block_pool c \<and> single_type_managers c' = single_type_managers c" if "unitary_init c = Inr c'" for c c'
    using that by (auto simp: unitary_init_def Let_def split: list.splits)
  have hy: "c_block_pool c' = c_block_pool c \<and> single_type_managers c' = single_type_managers c" if "hybrid_init c = Inr c'" for c c'
    using that by (auto simp: hybrid_init_def verify_and_split_kv_cache_groups_def rbind_Inr_iff split: if_splits)
  obtain kind c0 where "coordinator_base_init kind cfg max_len eagle (if caching then caching else False) events dcp pcp hsize metrics ints = Inr c0"
    "c_block_pool c = c_block_pool c0" "single_type_managers c = single_type_managers c0"
    using c(1) un hy by (auto simp: get_kv_cache_coordinator_def rbind_Inr_iff split: if_splits)
  then show ?thesis using coordinator_base_ok[OF _ assms(2-4)] c(2) by (simp add: kvm_ok_def)
qed

section \<open>Operations\<close>

definition hits_for :: "KVCacheManager \<Rightarrow> int \<Rightarrow> int \<Rightarrow> KVCacheBlocks \<Rightarrow> bool" where
  "hits_for k loc ext given \<longleftrightarrow>
     (let c = coordinator k in \<forall>j < length (single_type_managers c).
        hits_ok loc ext (blocks_of k given) j (pool_blocks (c_block_pool c)) (single_type_managers c ! j))"

lemma hits_ok_block_size: "hits_ok loc ext new j blocks m \<Longrightarrow> block_size m' = block_size m \<Longrightarrow> hits_ok loc ext new j blocks m'"
  by (simp add: hits_ok_def)

abbreviation coord_ok :: "KVCacheCoordinator \<Rightarrow> bool" where
  "coord_ok c \<equiv> kv_ok (c_block_pool c) (single_type_managers c) (\<lambda>_. 0)"

lemma coord_keeps:
  "\<lbrakk>coord_remove_skipped_blocks c rid n = Inr c'; coord_ok c\<rbrakk> \<Longrightarrow> coord_ok c' \<and>
     pool_config (c_block_pool c') = pool_config (c_block_pool c) \<and>
     map block_size (single_type_managers c') = map block_size (single_type_managers c)"
  "\<lbrakk>coord_num_blocks_to_allocate c rid n new enc tot main = Inr (need, c'); coord_ok c\<rbrakk> \<Longrightarrow> coord_ok c' \<and>
     pool_config (c_block_pool c') = pool_config (c_block_pool c) \<and>
     map block_size (single_type_managers c') = map block_size (single_type_managers c)"
  "\<lbrakk>coord_allocate_new_blocks c rid n main enc = Inr (bss, c'); coord_ok c; 0 \<le> main\<rbrakk> \<Longrightarrow> coord_ok c' \<and>
     pool_config (c_block_pool c') = pool_config (c_block_pool c)"
  "\<lbrakk>coord_free c rid = Inr c'; coord_ok c\<rbrakk> \<Longrightarrow> coord_ok c'"
  "\<lbrakk>coord_cache_blocks c request n = Inr c'; coord_ok c\<rbrakk> \<Longrightarrow> coord_ok c'"
  "\<lbrakk>coord_allocate_new_computed_blocks c rid new loc ext = Inr c'; coord_ok c;
    \<And>j. j < length (single_type_managers c) \<Longrightarrow>
      hits_ok loc ext new j (pool_blocks (c_block_pool c)) (single_type_managers c ! j)\<rbrakk> \<Longrightarrow> coord_ok c'"
  by (auto simp: coord_remove_skipped_blocks_def coord_num_blocks_to_allocate_def coord_allocate_new_blocks_def
      coord_free_def coord_cache_blocks_def coord_allocate_new_computed_blocks_def rbind_Inr_iff
      dest!: remove_skipped.on_managers_keeps count_needed.on_managers_keeps alloc_new.on_managers_keeps
        free_tables.on_managers_keeps cache_tables.on_managers_keeps alloc_computed.on_managers_keeps)

lemma allocate_slots_cases:
  assumes "allocate_slots k request new newc given look ext delay enc = Inr (r, k')"
  defines "given' \<equiv> (case given of None \<Rightarrow> EmptyKVCacheBlocks | Some b \<Rightarrow> b)"
    and "loc \<equiv> num_computed_tokens request + newc"
  defines "tot \<equiv> min (loc + ext) (kvm_max_model_len k)"
  defines "main \<equiv> tot + new"
  defines "slots \<equiv> min (main + look) (kvm_max_model_len k)"
  obtains c1 c2 need where "coord_remove_skipped_blocks (coordinator k) (request_id request) tot = Inr c1"
    "coord_num_blocks_to_allocate c1 (request_id request) slots (blocks_of k given') enc (loc + ext) main = Inr (need, c2)"
    "(need > get_num_free_blocks (c_block_pool c2) \<and> r = None \<and> k' = k\<lparr>coordinator := c2\<rparr>) \<or>
     (\<exists>c3 bss c4. (c3 = c2 \<or> coord_allocate_new_computed_blocks c2 (request_id request) (blocks_of k given') loc ext = Inr c3) \<and>
        coord_allocate_new_blocks c3 (request_id request) slots main enc = Inr (bss, c4) \<and>
        r = Some (create_kv_cache_blocks bss) \<and>
        (k' = k\<lparr>coordinator := c4\<rparr> \<or>
         (\<exists>n c5. coord_cache_blocks c4 request n = Inr c5 \<and> k' = k\<lparr>coordinator := c5\<rparr>)))"
proof -
  have nz: "\<not> (new = 0 \<and> ext = 0)" using assms(1) by (auto simp: allocate_slots_def)
  note run = assms(1)[unfolded allocate_slots_def Let_def if_not_P[OF nz],
      folded given'_def loc_def, folded tot_def, folded main_def, folded slots_def]
  obtain c1 where c1: "coord_remove_skipped_blocks (coordinator k) (request_id request) tot = Inr c1"
    using run by (auto simp: rbind_Inr_iff)
  obtain need c2 where c2: "coord_num_blocks_to_allocate c1 (request_id request) slots (blocks_of k given') enc (loc + ext) main = Inr (need, c2)"
    using run c1 by (auto simp: rbind_Inr_iff)
  show thesis
  proof (cases "need > get_num_free_blocks (c_block_pool c2)")
    case True
    then show thesis using that[OF c1 c2] run c1 c2 by simp
  next
    case False
    let ?step3 = "if given' \<noteq> EmptyKVCacheBlocks \<or> ext > 0
       then coord_allocate_new_computed_blocks c2 (request_id request) (blocks_of k given') loc ext else Inr c2"
    obtain c3 where c3: "?step3 = Inr c3" using run c1 c2 False by (auto simp: rbind_Inr_iff)
    obtain bss c4 where c4: "coord_allocate_new_blocks c3 (request_id request) slots main enc = Inr (bss, c4)"
      using run c1 c2 False c3 by (auto simp: rbind_Inr_iff)
    have run': "(if \<not> kvm_enable_caching k \<or> delay then Inr (Some (create_kv_cache_blocks bss), k\<lparr>coordinator := c4\<rparr>)
      else rbind (coord_cache_blocks c4 request (min main (num_tokens request))) (\<lambda>c5.
             Inr (Some (create_kv_cache_blocks bss), k\<lparr>coordinator := c5\<rparr>))) = Inr (r, k')"
      using run c1 c2 False c3 c4 by simp
    have "r = Some (create_kv_cache_blocks bss) \<and> (k' = k\<lparr>coordinator := c4\<rparr> \<or>
         (\<exists>n c5. coord_cache_blocks c4 request n = Inr c5 \<and> k' = k\<lparr>coordinator := c5\<rparr>))"
      using run' by (auto simp: rbind_Inr_iff split: if_splits)
    moreover have "c3 = c2 \<or> coord_allocate_new_computed_blocks c2 (request_id request) (blocks_of k given') loc ext = Inr c3"
      using c3 by (auto split: if_splits)
    ultimately show thesis using that[OF c1 c2] c4 by blast
  qed
qed

text \<open>What the scheduler owes when it asks for slots: token counts, and hits from the cache search.\<close>

definition slots_request_ok :: "KVCacheManager \<Rightarrow> Request \<Rightarrow> int \<Rightarrow> int \<Rightarrow> KVCacheBlocks option \<Rightarrow> int \<Rightarrow> bool" where
  "slots_request_ok k request new newc given ext \<longleftrightarrow>
     0 \<le> new \<and> 0 \<le> ext \<and> 0 \<le> num_computed_tokens request + newc \<and> 0 \<le> kvm_max_model_len k \<and>
     hits_for k (num_computed_tokens request + newc) ext (case given of None \<Rightarrow> EmptyKVCacheBlocks | Some b \<Rightarrow> b)"

lemma allocate_slots_keeps:
  assumes run: "allocate_slots k request new newc given look ext delay enc = Inr (r, k')" and ok: "kvm_ok k"
    and req: "slots_request_ok k request new newc given ext"
  shows "kvm_ok k'"
proof -
  let ?given = "case given of None \<Rightarrow> EmptyKVCacheBlocks | Some b \<Rightarrow> b"
  let ?loc = "num_computed_tokens request + newc"
  let ?main = "min (?loc + ext) (kvm_max_model_len k) + new"
  have main: "0 \<le> ?main" using req by (simp add: slots_request_ok_def)
  from run show ?thesis
  proof (cases rule: allocate_slots_cases)
    case (1 c1 c2 need)
    have c0: "coord_ok (coordinator k)" using ok by (simp add: kvm_ok_def)
    note k1 = coord_keeps(1)[OF 1(1) c0]
    note k2 = coord_keeps(2)[OF 1(2) conjunct1[OF k1]]
    have sz: "map block_size (single_type_managers c2) = map block_size (single_type_managers (coordinator k))"
      and cf: "pool_config (c_block_pool c2) = pool_config (c_block_pool (coordinator k))" using k1 k2 by auto
    have hits: "hits_ok ?loc ext (blocks_of k ?given) j (pool_blocks (c_block_pool c2)) (single_type_managers c2 ! j)"
      if j: "j < length (single_type_managers c2)" for j
    proof -
      have l: "j < length (single_type_managers (coordinator k))" using j map_eq_imp_length_eq[OF sz] by simp
      then have "hits_ok ?loc ext (blocks_of k ?given) j (pool_blocks (c_block_pool (coordinator k))) (single_type_managers (coordinator k) ! j)"
        using req by (simp add: slots_request_ok_def hits_for_def Let_def)
      moreover have "block_size (single_type_managers c2 ! j) = block_size (single_type_managers (coordinator k) ! j)"
        using arg_cong[OF sz, of "\<lambda>xs. xs ! j"] j l by simp
      ultimately show ?thesis using hits_ok_block_size config_fields(4)[OF cf] by metis
    qed
    from 1(3) consider (none) "k' = k\<lparr>coordinator := c2\<rparr>"
      | (some) c3 bss c4 where "c3 = c2 \<or> coord_allocate_new_computed_blocks c2 (request_id request) (blocks_of k ?given) ?loc ext = Inr c3"
        "coord_allocate_new_blocks c3 (request_id request) (min (?main + look) (kvm_max_model_len k)) ?main enc = Inr (bss, c4)"
        "k' = k\<lparr>coordinator := c4\<rparr> \<or> (\<exists>n c5. coord_cache_blocks c4 request n = Inr c5 \<and> k' = k\<lparr>coordinator := c5\<rparr>)"
      by blast
    then show ?thesis
    proof cases
      case none
      then show ?thesis using k2 by (simp add: kvm_ok_def)
    next
      case some
      note c3 = some(1) and c4 = some(2) and fin = some(3)
      have o3: "coord_ok c3" using c3 coord_keeps(6)[OF _ _ hits] k2 by blast
      have o4: "coord_ok c4" using coord_keeps(3)[OF c4 o3 main] by blast
      then show ?thesis using fin coord_keeps(5)[OF _ o4] by (auto simp: kvm_ok_def)
    qed
  qed
qed

lemma pool_change_ok:
  assumes "kvm_ok k" "\<And>xs. pool_repr (c_block_pool (coordinator k)) xs \<Longrightarrow> pool_repr p xs"
    "pool_config p = pool_config (c_block_pool (coordinator k))"
    "\<And>b. ref_cnt (objs p b) = ref_cnt (objs (c_block_pool (coordinator k)) b)"
  shows "kvm_ok (on_pool (\<lambda>_. p) k)"
  using assms(1,2,4) config_fields(4,8)[OF assms(3)] by (auto simp: kvm_ok_def kv_ok_def refs_match_def on_pool_def)

interpretation common_prefix: table_operation
  "\<lambda>i m p. let (n, m') = stm_num_common_prefix_blocks m p rid in Inr (n, m', p)" "\<lambda>i blocks m. True" for rid
proof (unfold_locales, goal_cases)
  case (1 i m p a m' p' R)
  then have m': "m' = m \<or> m' = set_req_blocks rid (dd_list rid (req_to_blocks m)) m" "p' = p"
    by (auto simp: stm_num_common_prefix_blocks_def Let_def split: if_splits)
  have "manager_ok (pool_blocks p) (set_req_blocks rid (dd_list rid (req_to_blocks m)) m) \<and>
    refs_match p (\<lambda>b. table_refs (req_to_blocks (set_req_blocks rid (dd_list rid (req_to_blocks m)) m)) b + R b)"
    by (rule keeps_table_replace[OF 1(3) manager_okD(2)[OF 1(3)]]) (use 1(5) in simp_all)
  then show ?case using m' 1 by auto
qed

lemma common_prefix_keeps:
  "\<lbrakk>coord_num_common_prefix_blocks c rid = Inr (ns, c'); coord_ok c\<rbrakk> \<Longrightarrow> coord_ok c'"
  using common_prefix.on_managers_keeps[of rid c ns c'] by (auto simp: coord_num_common_prefix_blocks_def split: if_splits)

section \<open>Reachable managers\<close>

inductive kvm_reachable :: "KVCacheManager \<Rightarrow> bool" where
  init: "\<lbrakk>KVCacheManager_init cfg max_len hsize caching eagle logging events dcp pcp metrics ints = Inr k;
    \<forall>g \<in> set (kv_cache_groups cfg). spec_ok (g_kv_cache_spec g); 1 \<le> dcp; 1 \<le> pcp\<rbrakk> \<Longrightarrow> kvm_reachable k"
| slots: "\<lbrakk>kvm_reachable k; slots_request_ok k request new newc given ext;
    allocate_slots k request new newc given look ext delay enc = Inr (r, k')\<rbrakk> \<Longrightarrow> kvm_reachable k'"
| free: "\<lbrakk>kvm_reachable k; kvm_free k request = Inr k'\<rbrakk> \<Longrightarrow> kvm_reachable k'"
| skip: "\<lbrakk>kvm_reachable k; kvm_remove_skipped_blocks k rid n = Inr k'\<rbrakk> \<Longrightarrow> kvm_reachable k'"
| cache: "\<lbrakk>kvm_reachable k; kvm_cache_blocks k request n = Inr k'\<rbrakk> \<Longrightarrow> kvm_reachable k'"
| evict: "\<lbrakk>kvm_reachable k; kvm_evict_blocks k ids = Inr k'\<rbrakk> \<Longrightarrow> kvm_reachable k'"
| reset: "\<lbrakk>kvm_reachable k; kvm_reset_prefix_cache k = Inr (b, k')\<rbrakk> \<Longrightarrow> kvm_reachable k'"
| common: "\<lbrakk>kvm_reachable k; kvm_num_common_prefix_blocks k rid = Inr (ns, k')\<rbrakk> \<Longrightarrow> kvm_reachable k'"
| events: "kvm_reachable k \<Longrightarrow> kvm_reachable (snd (kvm_take_events k))"
| lookup: "\<lbrakk>kvm_reachable k; get_computed_blocks k request = Some (Inr (r, k'))\<rbrakk> \<Longrightarrow> kvm_reachable k'"
| stats: "kvm_reachable k \<Longrightarrow> kvm_reachable (snd (make_prefix_cache_stats k))"

lemma kvm_ok_coordinator: "kvm_ok k \<Longrightarrow> coordinator k' = coordinator k \<Longrightarrow> kvm_ok k'"
  by (simp add: kvm_ok_def)

lemma reset_keeps:
  assumes "kvm_reset_prefix_cache k = Inr (b, k')" "kvm_ok k"
  shows "kvm_ok k'"
proof -
  let ?p = "c_block_pool (coordinator k)"
  obtain xs where xs: "pool_repr ?p xs" using assms(2) by (auto simp: kvm_ok_def kv_ok_def refs_match_def)
  note rs = reset_prefix_cache_spec[OF xs]
  have "kvm_ok (on_pool (\<lambda>_. snd (reset_prefix_cache ?p)) k)"
  proof (cases "fst (reset_prefix_cache ?p)")
    case True
    have "ys = xs" if "pool_repr ?p ys" for ys
      using repr_free_list[OF that] repr_free_list[OF xs] by simp
    then show ?thesis using rs(3)[OF True] by (intro pool_change_ok[OF assms(2)]) auto
  next
    case False
    then show ?thesis using rs(2) by (intro pool_change_ok[OF assms(2)]) auto
  qed
  then show ?thesis using assms(1)
    by (auto simp: kvm_reset_prefix_cache_def Let_def split_beta split: if_splits option.splits intro: kvm_ok_coordinator)
qed

lemma take_events_keeps:
  assumes "kvm_ok k"
  shows "kvm_ok (snd (kvm_take_events k))"
proof -
  let ?p = "c_block_pool (coordinator k)"
  have "kvm_ok (on_pool (\<lambda>_. snd (take_events ?p)) k)"
    by (rule pool_change_ok[OF assms]) (auto simp: take_events_def pool_repr_def)
  then show ?thesis by (simp add: kvm_take_events_def split_beta)
qed

lemma reachable_kvm_ok: "kvm_reachable k \<Longrightarrow> kvm_ok k"
proof (induction rule: kvm_reachable.induct)
  case (init cfg max_len hsize caching eagle logging events dcp pcp metrics ints k)
  then show ?case by (intro kvm_init_ok)
next
  case (slots k request new newc given ext look delay enc r k')
  show ?case by (rule allocate_slots_keeps[OF slots.hyps(3) slots.IH slots.hyps(2)])
next
  case (free k request k')
  then show ?case using coord_keeps(4) by (auto simp: kvm_free_def kvm_ok_def rbind_Inr_iff)
next
  case (skip k rid n k')
  then show ?case using coord_keeps(1) by (auto simp: kvm_remove_skipped_blocks_def kvm_ok_def rbind_Inr_iff)
next
  case (cache k request n k')
  then show ?case using coord_keeps(5) by (auto simp: kvm_cache_blocks_def kvm_ok_def rbind_Inr_iff split: if_splits)
next
  case (evict k ids k')
  then obtain p where p: "evict_blocks ids (c_block_pool (coordinator k)) = Inr p" "k' = on_pool (\<lambda>_. p) k"
    by (auto simp: kvm_evict_blocks_def rbind_Inr_iff)
  obtain xs where xs: "pool_repr (c_block_pool (coordinator k)) xs"
    using evict.IH by (auto simp: kvm_ok_def kv_ok_def refs_match_def)
  show ?case unfolding p(2)
    by (rule pool_change_ok[OF evict.IH]) (use evict_blocks_keeps[OF p(1)] evict_blocks_keeps[OF p(1) xs] in auto)
next
  case (reset k b k')
  then show ?case using reset_keeps by blast
next
  case (common k rid ns k')
  then show ?case using common_prefix_keeps by (auto simp: kvm_num_common_prefix_blocks_def kvm_ok_def rbind_Inr_iff)
next
  case (events k)
  then show ?case by (intro take_events_keeps)
next
  case (lookup k request r k')
  then show ?case
    by (auto simp: get_computed_blocks_def rbind_Inr_iff split: if_splits option.splits intro: kvm_ok_coordinator)
next
  case (stats k)
  then show ?case by (auto simp: make_prefix_cache_stats_def intro: kvm_ok_coordinator)
qed

lemma dd_list_mem_keys: "b \<in> set (dd_list rid d) \<Longrightarrow> \<exists>bs. (rid, bs) \<in> set d \<and> b \<in> set bs"
  by (cases "map_of d rid") (auto simp: dd_list_def dest: map_of_SomeD)

lemma table_refs_pos: "table_refs d b \<noteq> 0 \<Longrightarrow> distinct (map fst d) \<Longrightarrow> \<exists>rid. b \<in> set (dd_list rid d)"
proof (induction d)
  case (Cons a d)
  obtain r bs where a: "a = (r, bs)" by (cases a)
  show ?case
  proof (cases "b \<in> set bs")
    case True
    then show ?thesis using a by (auto simp: dd_list_def intro!: exI[of _ r])
  next
    case False
    then have "table_refs d b \<noteq> 0" using Cons.prems(1) a by (simp add: table_refs_def count_list_0_iff)
    then obtain rid where rid: "b \<in> set (dd_list rid d)" using Cons.IH Cons.prems(2) by auto
    have "rid \<in> fst ` set d" using dd_list_mem_keys[OF rid] by force
    then have "rid \<noteq> r" using Cons.prems(2) a by auto
    then show ?thesis using rid a by (auto simp: dd_list_def intro!: exI[of _ rid])
  qed
qed (simp add: table_refs_def)

lemma manager_refs_zero_iff:
  assumes "\<forall>m \<in> set ms. manager_ok blocks m"
  shows "manager_refs ms b = 0 \<longleftrightarrow> (\<forall>m \<in> set ms. \<forall>rid. b \<notin> set (dd_list rid (req_to_blocks m)))"
  using assms
proof (induction ms)
  case (Cons m ms)
  have ok: "manager_ok blocks m" using Cons.prems by simp
  have "table_refs (req_to_blocks m) b = 0 \<longleftrightarrow> (\<forall>rid. b \<notin> set (dd_list rid (req_to_blocks m)))"
    using table_refs_pos[OF _ manager_okD(1)[OF ok], of b] table_member_refs[OF ok, of b _ "\<lambda>_. 0"] by fastforce
  moreover have "manager_refs (m # ms) b = 0 \<longleftrightarrow> table_refs (req_to_blocks m) b = 0 \<and> manager_refs ms b = 0"
    using count_list_nonneg_table[of "req_to_blocks m" b] manager_refs_nonneg[of ms b] by auto
  ultimately show ?case using Cons by auto
qed simp

section \<open>An example\<close>

definition example_spec :: KVCacheSpec where
  "example_spec = FullAttentionSpec
     \<lparr>a_block_size = 2, num_kv_heads = 1, head_size = 8, dtype = ''half'', page_size_padded = None\<rparr>
     \<lparr>head_size_v = 8, fa_sliding_window = None, fa_attention_chunk_size = None\<rparr>"

definition example_config :: KVCacheConfig where
  "example_config = \<lparr>num_blocks = 4, kv_cache_tensors = [],
     kv_cache_groups = [\<lparr>layer_names = [''attn''], g_kv_cache_spec = example_spec\<rparr>]\<rparr>"

definition example_kvm :: KVCacheManager where
  "example_kvm = projr (KVCacheManager_init example_config 100 2 True False False False 1 1 False False)"

definition example_manager :: SingleTypeKVCacheManager where
  "example_manager = stm_base_init FullAttentionManager example_spec example_pool True 0 1 1"

lemma example_kvm_init:
  "KVCacheManager_init example_config 100 2 True False False False 1 1 False False = Inr example_kvm"
  "single_type_managers (coordinator example_kvm) = [example_manager]"
  "c_block_pool (coordinator example_kvm) = example_pool" "kvm_max_model_len example_kvm = 100"
  "num_kv_cache_groups example_kvm = 1" "kvm_enable_caching example_kvm"
  by (simp_all add: example_kvm_def KVCacheManager_init_def get_kv_cache_coordinator_def coordinator_base_init_def
      example_config_def example_pool_init(1) get_manager_for_kv_cache_spec_def example_spec_def unitary_init_def
      example_manager_def)

lemma example_kvm_reachable: "kvm_reachable example_kvm"
  by (rule kvm_reachable.init[OF example_kvm_init(1)]) (simp_all add: example_config_def example_spec_def)

end
