(* ===== verification/KV_Properties.thy ===== *)
theory KV_Properties
  imports KV_Invariant
begin

text \<open>
  Properties of the KV-cache manager: who owns a block, what freeing a request does, and what
  an attention-sink group does to the prefix cache. The locale \<open>safe_table_operation\<close> extends
  the contract of a manager's operation by the promise to return.
\<close>

section \<open>Operations that never raise\<close>

locale safe_table_operation = table_operation +
  assumes returns: "\<lbrakk>pre i (pool_blocks p) m; manager_ok (pool_blocks p) m; \<And>b. 0 \<le> R b;
      refs_match p (\<lambda>b. table_refs (req_to_blocks m) b + R b)\<rbrakk> \<Longrightarrow> \<exists>a m' p'. step i m p = Inr (a, m', p')"
begin

lemma each_returns:
  assumes "kv_ok p ms R" "\<And>b. 0 \<le> R b" "\<And>j. j < length ms \<Longrightarrow> pre (i + j) (pool_blocks p) (ms ! j)"
  shows "\<exists>as ms' p'. each_manager step i ms p = Inr (as, ms', p')"
  using assms
proof (induction ms arbitrary: i p R)
  case (Cons m ms)
  have ok: "manager_ok (pool_blocks p) m" "\<forall>x \<in> set ms. manager_ok (pool_blocks p) x"
    "refs_match p (\<lambda>b. table_refs (req_to_blocks m) b + (manager_refs ms b + R b))"
    using Cons.prems(1) by (auto simp: kv_ok_def add.assoc)
  have R: "0 \<le> manager_refs ms b + R b" for b using manager_refs_nonneg[of ms b] Cons.prems(2)[of b] by simp
  have pr: "pre i (pool_blocks p) m" using Cons.prems(3)[of 0] by simp
  obtain a m1 p1 where st: "step i m p = Inr (a, m1, p1)" using returns[OF pr ok(1) R ok(3)] by blast
  have k: "refs_match p1 (\<lambda>b. table_refs (req_to_blocks m1) b + (manager_refs ms b + R b))" "pool_config p1 = pool_config p"
    using keeps[OF st pr ok(1) R ok(3)] by auto
  have pb: "pool_blocks p1 = pool_blocks p" by (rule config_fields(4)[OF k(2)])
  have "kv_ok p1 ms (\<lambda>b. table_refs (req_to_blocks m1) b + R b)" using k(1) ok(2) pb by (auto simp: kv_ok_def algebra_simps)
  moreover have "0 \<le> table_refs (req_to_blocks m1) b + R b" for b
    using count_list_nonneg_table[of "req_to_blocks m1" b] Cons.prems(2)[of b] by simp
  moreover have "pre (Suc i + j) (pool_blocks p1) (ms ! j)" if "j < length ms" for j using Cons.prems(3)[of "Suc j"] that pb by simp
  ultimately obtain as ms' p' where "each_manager step (Suc i) ms p1 = Inr (as, ms', p')" using Cons.IH by blast
  then show ?case using st by simp
qed simp

lemma on_managers_returns:
  assumes "kv_ok (c_block_pool c) (single_type_managers c) (\<lambda>_. 0)"
    "\<And>j. j < length (single_type_managers c) \<Longrightarrow> pre j (pool_blocks (c_block_pool c)) (single_type_managers c ! j)"
  shows "\<exists>as c'. on_managers step c = Inr (as, c')"
  using each_returns[of "c_block_pool c" "single_type_managers c" "\<lambda>_. 0" 0] assms by (fastforce simp: on_managers_def)

end

lemma each_manager_rel:
  assumes "each_manager step i ms p = Inr (as, ms', p')"
    and "\<And>i m p a m' p'. step i m p = Inr (a, m', p') \<Longrightarrow> P m m'"
  shows "list_all2 P ms ms'"
  using assms(1)
proof (induction ms arbitrary: i p as ms')
  case (Cons m ms)
  then show ?case using assms(2) by (fastforce simp: rbind_Inr_iff)
qed simp

interpretation safe_free: safe_table_operation
  "\<lambda>i m p. rbind (stm_free m p rid) (\<lambda>(m', p'). Inr ((), m', p'))" "\<lambda>i blocks m. True" for rid
proof (unfold_locales, goal_cases)
  case (1 i p m R)
  then show ?case using stm_free_total[of p m R rid] by auto
qed

lemma stm_free_tables: "stm_free m p rid = Inr (m', p') \<Longrightarrow> req_to_blocks m' = AList.delete rid (req_to_blocks m)"
  by (auto simp: stm_free_def Let_def rbind_Inr_iff)

text \<open>
  Freeing a request group by group: the blocks in the order in which they are given back, and what
  this does to counts and queue. A block that several groups hold goes at its last occurrence.
\<close>

definition given_back :: "SingleTypeKVCacheManager list \<Rightarrow> string \<Rightarrow> bref list" where
  "given_back ms rid = concat (map (\<lambda>m. rev (dd_list rid (req_to_blocks m))) ms)"

lemma given_back_Cons: "given_back (m # ms) rid = rev (dd_list rid (req_to_blocks m)) @ given_back ms rid"
  by (simp add: given_back_def)

lemma count_list_rev: "count_list (rev xs) x = count_list xs x"
  by (induction xs) simp_all

lemma given_back_refs:
  "\<forall>m \<in> set ms. manager_ok blocks m \<Longrightarrow> int (count_list (given_back ms rid) b) \<le> manager_refs ms b"
proof (induction ms)
  case (Cons m ms)
  then show ?case using table_le_refs[of blocks m rid b] by (simp add: given_back_Cons count_list_rev)
qed (simp add: given_back_def)

lemma given_back_blocks:
  "\<lbrakk>\<forall>m \<in> set ms. manager_ok blocks m; b \<in> set (given_back ms rid)\<rbrakk> \<Longrightarrow> b \<in> set blocks"
  using manager_okD(2) by (fastforce simp: given_back_def table_ok_def)

lemma remdups_append_last: "remdups (xs @ ys) = filter (\<lambda>x. x \<notin> set ys) (remdups xs) @ remdups ys"
  by (induction xs) auto

lemma appended_split:
  assumes "distinct (filter P bs)" "\<And>b. b \<in> set bs \<Longrightarrow> P b \<Longrightarrow> f b \<ge> count_list bs b + count_list s b" "\<And>b. g b = f b - count_list bs b"
  shows "filter (\<lambda>b. P b \<and> f b = count_list (bs @ s) b) (remdups (bs @ s)) =
    filter (\<lambda>b. P b \<and> f b = Suc 0) bs @ filter (\<lambda>b. P b \<and> g b = count_list s b) (remdups s)"
proof -
  have c: "count_list bs b = Suc 0" if "b \<in> set bs" "P b" for b
    using assms(1) that by (induction bs) (auto simp: count_list_0_iff split: if_splits)
  have "filter (\<lambda>b. P b \<and> f b = count_list (bs @ s) b \<and> b \<notin> set s) (remdups bs) = remdups (filter (\<lambda>b. P b \<and> f b = Suc 0) bs)"
    unfolding remdups_filter[symmetric]
  proof (rule arg_cong[of _ _ remdups], rule filter_cong[OF refl])
    fix b assume b: "b \<in> set bs"
    show "(P b \<and> f b = count_list (bs @ s) b \<and> b \<notin> set s) = (P b \<and> f b = Suc 0)"
    proof (cases "P b")
      case True
      have "b \<in> set s \<Longrightarrow> 0 < count_list s b" using count_list_0_iff[of s b] by auto
      moreover have "b \<notin> set s \<Longrightarrow> count_list s b = 0" by (simp add: count_list_0_iff)
      ultimately show ?thesis using assms(2)[OF b True] c[OF b True] True by auto
    qed simp
  qed
  moreover have "distinct (filter (\<lambda>b. P b \<and> f b = Suc 0) bs)"
    using distinct_filter[OF assms(1), of "\<lambda>b. f b = Suc 0"] by (simp add: conj_commute)
  moreover have "filter (\<lambda>b. P b \<and> f b = count_list (bs @ s) b) (remdups s) = filter (\<lambda>b. P b \<and> g b = count_list s b) (remdups s)"
  proof (rule filter_cong[OF refl])
    fix b assume "b \<in> set (remdups s)"
    then have "0 < count_list s b" using count_list_0_iff[of s b] by auto
    then show "(P b \<and> f b = count_list (bs @ s) b) = (P b \<and> g b = count_list s b)" by (auto simp: assms(3))
  qed
  ultimately show ?thesis by (simp add: remdups_append_last filter_filter conj_ac distinct_remdups_id)
qed

lemma nat_count: "b \<in> set s \<Longrightarrow> nat x = count_list s b \<longleftrightarrow> x = int (count_list s b)"
  using count_list_0_iff[of s b] by auto

lemma free_one_effect:
  assumes run: "stm_free m p rid = Inr (m', p')" and ok: "manager_ok (pool_blocks p) m"
    and refs: "refs_match p (\<lambda>b. table_refs (req_to_blocks m) b + R b)" "\<And>b. 0 \<le> R b" and xs: "pool_repr p xs"
  shows "pool_repr p' (xs @ filter (\<lambda>b. b \<noteq> null_block p \<and> ref_cnt (objs p b) = 1) (rev (dd_list rid (req_to_blocks m)))) \<and>
    refs_only p p' \<and> (\<forall>b. ref_cnt (objs p' b) = ref_cnt (objs p b) - int (count_list (dd_list rid (req_to_blocks m)) b))"
proof -
  let ?old = "dd_list rid (req_to_blocks m)"
  have pok: "pool_ok p (set xs)" using xs by (simp add: pool_repr_def)
  have null: "null_block p = Blk 0" by (rule pool_ok_refD(4)[OF pok])
  have t: "table_ok (pool_blocks p) (rev ?old)"
    using manager_okD(2)[OF ok, of rid] by (simp add: table_ok_def rev_filter[symmetric])
  have rc: "ref_cnt (objs p b) = table_refs (req_to_blocks m) b + R b" if "b \<in> usable p" for b
    using refs(1) that by (auto simp: refs_match_def)
  have pos: "0 < ref_cnt (objs p b)" if "b \<in> set (rev ?old)" "b \<noteq> null_block p" for b
  proof -
    have "b \<in> usable p" using t that blocks_cases[OF pok, of b] null by (auto simp: table_ok_def)
    then show ?thesis using rc table_member_refs[where R = R, OF ok _ refs(2), of b rid] that by simp
  qed
  have run': "free_blocks (rev ?old) p = Inr p'" using run by (cases "mgr_class m = MambaManager \<and> mgr_mamba_cache_mode m = ''align''") (auto simp: stm_free_def Let_def rbind_Inr_iff)
  show ?thesis
    using free_blocks_spec[OF xs _ _ pos, where bs = "rev ?old"] t null run' by (auto simp: table_ok_def count_list_rev)
qed

lemma each_free_effect:
  assumes "each_manager step i ms p = Inr (as, ms', p')" "kv_ok p ms R" "\<And>b. 0 \<le> R b" "pool_repr p xs"
    and step: "\<And>i m p a m' p'. step i m p = Inr (a, m', p') \<Longrightarrow> stm_free m p rid = Inr (m', p')"
  shows "pool_repr p' (xs @ filter (\<lambda>b. b \<noteq> null_block p \<and> ref_cnt (objs p b) = int (count_list (given_back ms rid) b)) (remdups (given_back ms rid))) \<and>
    refs_only p p' \<and> (\<forall>b. ref_cnt (objs p' b) = ref_cnt (objs p b) - int (count_list (given_back ms rid) b))"
  using assms(1-4)
proof (induction ms arbitrary: i p as ms' R xs)
  case Nil
  then show ?case by (simp add: given_back_def refs_only_def)
next
  case (Cons m ms)
  from Cons.prems(1) obtain m1 p1 as1 ms1 where st: "stm_free m p rid = Inr (m1, p1)"
    "each_manager step (Suc i) ms p1 = Inr (as1, ms1, p')"
    using step by (fastforce simp: rbind_Inr_iff)
  have ok: "manager_ok (pool_blocks p) m" "\<forall>x \<in> set ms. manager_ok (pool_blocks p) x"
    and refs: "refs_match p (\<lambda>b. table_refs (req_to_blocks m) b + (manager_refs ms b + R b))"
    using Cons.prems(2) by (auto simp: kv_ok_def add.assoc)
  have R: "0 \<le> manager_refs ms b + R b" for b using manager_refs_nonneg[of ms b] Cons.prems(3)[of b] by simp
  let ?bs = "rev (dd_list rid (req_to_blocks m))" and ?s = "given_back ms rid" and ?r = "\<lambda>p b. ref_cnt (objs p b)"
  have e: "pool_repr p1 (xs @ filter (\<lambda>b. b \<noteq> null_block p \<and> ?r p b = 1) ?bs)" "refs_only p p1"
    "\<And>b. ?r p1 b = ?r p b - int (count_list ?bs b)"
    using free_one_effect[OF st(1) ok(1) refs R Cons.prems(4)] by (auto simp: count_list_rev)
  have c: "pool_config p1 = pool_config p" by (rule refs_only_config[OF e(2)])
  have pb: "pool_blocks p1 = pool_blocks p" "null_block p1 = null_block p" by (rule config_fields(4)[OF c], rule config_fields(5)[OF c])
  obtain m2 where k: "refs_match p1 (\<lambda>b. table_refs (req_to_blocks m1) b + (manager_refs ms b + R b))"
    using stm_free_total[OF ok(1) R refs, of rid] st(1) by auto
  have "kv_ok p1 ms (\<lambda>b. table_refs (req_to_blocks m1) b + R b)" using k ok(2) pb by (auto simp: kv_ok_def algebra_simps)
  moreover have "0 \<le> table_refs (req_to_blocks m1) b + R b" for b
    using count_list_nonneg_table[of "req_to_blocks m1" b] Cons.prems(3)[of b] by simp
  ultimately have IH: "pool_repr p' ((xs @ filter (\<lambda>b. b \<noteq> null_block p \<and> ?r p b = 1) ?bs) @
      filter (\<lambda>b. b \<noteq> null_block p \<and> ?r p1 b = int (count_list ?s b)) (remdups ?s))" "refs_only p1 p'"
    "\<And>b. ?r p' b = ?r p1 b - int (count_list ?s b)"
    using Cons.IH[OF st(2) _ _ e(1)] pb by auto
  have pok: "pool_ok p (set xs)" using Cons.prems(4) by (simp add: pool_repr_def)
  have null: "null_block p = Blk 0" by (rule pool_ok_refD(4)[OF pok])
  have ge: "int (count_list ?bs b) + int (count_list ?s b) \<le> ?r p b" if "b \<in> set ?bs" "b \<noteq> null_block p" for b
  proof -
    have "b \<in> set (pool_blocks p)" using manager_okD(2)[OF ok(1), of rid] that(1) by (auto simp: table_ok_def)
    then have "b \<in> usable p" using that(2) blocks_cases[OF pok, of b] null by auto
    then have "?r p b = table_refs (req_to_blocks m) b + (manager_refs ms b + R b)" using refs by (auto simp: refs_match_def)
    then show ?thesis
      using table_le_refs[OF ok(1), of rid b] given_back_refs[OF ok(2), of rid b] Cons.prems(3)[of b] by (simp add: count_list_rev)
  qed
  have "distinct (filter (\<lambda>b. b \<noteq> null_block p) ?bs)"
    using manager_okD(2)[OF ok(1), of rid] null by (simp add: table_ok_def rev_filter[symmetric])
  from appended_split[where f = "\<lambda>b. nat (?r p b)" and g = "\<lambda>b. nat (?r p1 b)" and s = ?s, OF this]
  have split: "filter (\<lambda>b. b \<noteq> null_block p \<and> nat (?r p b) = count_list (?bs @ ?s) b) (remdups (?bs @ ?s)) =
      filter (\<lambda>b. b \<noteq> null_block p \<and> nat (?r p b) = Suc 0) ?bs @
      filter (\<lambda>b. b \<noteq> null_block p \<and> nat (?r p1 b) = count_list ?s b) (remdups ?s)"
    using ge e(3) by fastforce
  have conv: "filter (\<lambda>b. b \<noteq> null_block p \<and> nat (?r q b) = count_list s b) (remdups s) =
      filter (\<lambda>b. b \<noteq> null_block p \<and> ?r q b = int (count_list s b)) (remdups s)" for q s
    by (rule filter_cong[OF refl]) (simp add: nat_count)
  have one: "nat x = Suc 0 \<longleftrightarrow> x = 1" for x by auto
  have "filter (\<lambda>b. b \<noteq> null_block p \<and> ?r p b = int (count_list (?bs @ ?s) b)) (remdups (?bs @ ?s)) =
      filter (\<lambda>b. b \<noteq> null_block p \<and> ?r p b = 1) ?bs @ filter (\<lambda>b. b \<noteq> null_block p \<and> ?r p1 b = int (count_list ?s b)) (remdups ?s)"
    using split unfolding conv one .
  then show ?case using IH refs_only_trans[OF e(2) IH(2)] e(3) by (simp add: given_back_Cons)
qed

section \<open>Properties\<close>

text \<open>
  C7 (invariant): block ownership. After any sequence of calls, the reference count of every
  non-null block is the number of its occurrences in the block tables of all requests and
  groups; the free queue holds exactly the blocks in no table; a table never holds a block
  twice. So no block leaks, and no block of a live request can be handed out or evicted.
\<close>

theorem block_tables_own_references:
  assumes "kvm_reachable k"
  defines "p \<equiv> c_block_pool (coordinator k)" and "ms \<equiv> single_type_managers (coordinator k)"
  shows "(\<forall>b \<in> set (pool_blocks p). b \<noteq> null_block p \<longrightarrow>
      ref_cnt (objs p b) = sum_list (map (\<lambda>m. sum_list (map (\<lambda>(rid, bs). int (count_list bs b)) (req_to_blocks m))) ms)) \<and>
    (\<exists>xs. fq_get_all_free_blocks p = Some (Inr xs) \<and> distinct xs \<and>
       set xs = {b \<in> set (pool_blocks p). b \<noteq> null_block p \<and> (\<forall>m \<in> set ms. \<forall>rid. b \<notin> set (dd_list rid (req_to_blocks m)))}) \<and>
    (\<forall>m \<in> set ms. \<forall>rid. set (dd_list rid (req_to_blocks m)) \<subseteq> set (pool_blocks p) \<and>
       distinct (filter (\<lambda>b. b \<noteq> null_block p) (dd_list rid (req_to_blocks m))))"
proof -
  have "kv_ok p ms (\<lambda>_. 0)" using reachable_kvm_ok[OF assms(1)] by (simp add: kvm_ok_def p_def ms_def)
  then have mok: "\<forall>m \<in> set ms. manager_ok (pool_blocks p) m" and refs: "refs_match p (manager_refs ms)"
    by (simp_all add: kv_ok_def)
  obtain xs where xs: "pool_repr p xs" and rc: "\<And>b. b \<in> usable p \<Longrightarrow> ref_cnt (objs p b) = manager_refs ms b"
    using refs by (auto simp: refs_match_def)
  then have ok: "pool_ok p (set xs)" and f: "fq_repr p xs" by (simp_all add: pool_repr_def)
  have null: "null_block p = Blk 0" by (rule pool_ok_refD(4)[OF ok])
  have us: "b \<in> usable p \<longleftrightarrow> b \<in> set (pool_blocks p) \<and> b \<noteq> null_block p" for b
    using usable_blocks[OF ok] null null_not_usable[of p] by auto
  have "b \<in> set xs \<longleftrightarrow> b \<in> usable p \<and> manager_refs ms b = 0" for b
    using pool_ok_refD[OF ok] rc by auto
  then have "set xs = {b \<in> set (pool_blocks p). b \<noteq> null_block p \<and> (\<forall>m \<in> set ms. \<forall>rid. b \<notin> set (dd_list rid (req_to_blocks m)))}"
    unfolding manager_refs_zero_iff[OF mok] us by auto
  moreover have "\<forall>m \<in> set ms. \<forall>rid. table_ok (pool_blocks p) (dd_list rid (req_to_blocks m))"
    using mok by (simp add: manager_ok_def)
  ultimately show ?thesis
    using repr_free_list[OF xs] fq.repr_distinct[OF f] rc us null
    by (auto simp: table_ok_def manager_refs_def table_refs_def)
qed

theorem block_tables_own_references_witness:
  "\<exists>xs. fq_get_all_free_blocks (c_block_pool (coordinator example_kvm)) = Some (Inr xs) \<and> distinct xs \<and> Blk 3 \<in> set xs"
  using block_tables_own_references[OF example_kvm_reachable]
  by (auto simp: example_kvm_init example_manager_def stm_base_init_def dd_list_def example_pool_facts)

text \<open>
  C8 (functional): freeing a request never raises, whatever its state (also before anything was
  allocated). The reference count of every block goes down by the number of entries that the request has
  for it; the blocks whose count is 0 now, and no others, are appended to the free queue, group by
  group and the tail of a table first (a block of several groups at its last occurrence), with their
  hashes kept; afterwards the request has no block in any group and every other table is unchanged.
\<close>

theorem free_request_correct:
  fixes request :: Request
  assumes "kvm_reachable k"
  defines "p \<equiv> c_block_pool (coordinator k)" and "ms \<equiv> single_type_managers (coordinator k)"
  defines "freed \<equiv> concat (map (\<lambda>m. rev (dd_list (request_id request) (req_to_blocks m))) ms)"
  shows "\<exists>k' xs. kvm_free k request = Inr k' \<and> kvm_reachable k' \<and> fq_get_all_free_blocks p = Some (Inr xs) \<and>
    (let p' = c_block_pool (coordinator k') in
       (\<forall>b. ref_cnt (objs p' b) = ref_cnt (objs p b) - int (count_list freed b) \<and> block_hash (objs p' b) = block_hash (objs p b)) \<and>
       fq_get_all_free_blocks p' = Some (Inr (xs @ filter (\<lambda>b. b \<noteq> null_block p \<and> ref_cnt (objs p' b) = 0) (remdups freed)))) \<and>
    coord_get_blocks (coordinator k') (request_id request) = map (\<lambda>_. []) ms \<and>
    (\<forall>rid. rid \<noteq> request_id request \<longrightarrow> coord_get_blocks (coordinator k') rid = coord_get_blocks (coordinator k) rid)"
proof -
  let ?rid = "request_id request" and ?c = "coordinator k"
  let ?step = "\<lambda>i m p. rbind (stm_free m p ?rid) (\<lambda>(m', p'). Inr ((), m', p'))"
  have ok: "kv_ok p ms (\<lambda>_. 0)" using reachable_kvm_ok[OF assms(1)] by (simp add: kvm_ok_def p_def ms_def)
  then obtain as c' where c': "on_managers ?step ?c = Inr (as, c')"
    using safe_free.on_managers_returns[of ?c ?rid] by (auto simp: p_def ms_def)
  then have run: "kvm_free k request = Inr (k\<lparr>coordinator := c'\<rparr>)" by (simp add: kvm_free_def coord_free_def)
  obtain ms' p' where e: "each_manager ?step 0 ms p = Inr (as, ms', p')" "single_type_managers c' = ms'" "c_block_pool c' = p'"
    using c' by (auto simp: on_managers_def rbind_Inr_iff p_def ms_def)
  have rel: "list_all2 (\<lambda>m m'. req_to_blocks m' = AList.delete ?rid (req_to_blocks m)) ms ms'"
    by (rule each_manager_rel[OF e(1)]) (auto simp: rbind_Inr_iff stm_free_tables)
  have tables: "map (\<lambda>m. dd_list rid (req_to_blocks m)) ms' = map (\<lambda>m. if rid = ?rid then [] else dd_list rid (req_to_blocks m)) ms" for rid
    using rel by (induction rule: list_all2_induct) auto
  obtain xs where xs: "pool_repr p xs" using ok by (auto simp: kv_ok_def refs_match_def)
  have freed: "given_back ms ?rid = freed" by (simp add: given_back_def freed_def)
  have "stm_free m q ?rid = Inr (m', q')" if "?step i m q = Inr (a, m', q')" for i m q a m' q'
    using that by (auto simp: rbind_Inr_iff)
  from each_free_effect[OF e(1) ok _ xs this] have pool: "pool_repr p' (xs @ filter (\<lambda>b. b \<noteq> null_block p \<and>
      ref_cnt (objs p b) = int (count_list freed b)) (remdups freed))" "refs_only p p'"
    "\<And>b. ref_cnt (objs p' b) = ref_cnt (objs p b) - int (count_list freed b)" unfolding freed by auto
  have "fq_get_all_free_blocks p' = Some (Inr (xs @ filter (\<lambda>b. b \<noteq> null_block p \<and> ref_cnt (objs p' b) = 0) (remdups freed)))"
    using repr_free_list[OF pool(1)] by (simp add: pool(3))
  moreover have "\<forall>b. block_hash (objs p' b) = block_hash (objs p b)" using pool(2) by (simp add: refs_only_def)
  ultimately show ?thesis
    using run kvm_reachable.free[OF assms(1) run] e(2,3) repr_free_list[OF xs] pool(3) tables
    by (intro exI[of _ "k\<lparr>coordinator := c'\<rparr>"] exI[of _ xs]) (auto simp: coord_get_blocks_def ms_def Let_def)
qed

text \<open>A request of three tokens holds two of the three blocks; they come back with the tail first.\<close>

definition example_held :: "KVCacheManager result" where
  "example_held = rbind (KVCacheManager_init example_config 100 2 True False False False 1 1 False False) (\<lambda>k.
     rbind (allocate_slots k (example_request ''r'' [5, 6, 7] []) 3 0 None 0 0 True 0) (\<lambda>(_, k'). Inr k'))"

lemma example_held_facts:
  obtains k where "example_held = Inr k" "map (\<lambda>m. dd_list ''r'' (req_to_blocks m)) (single_type_managers (coordinator k)) = [[Blk 1, Blk 2]]"
    "num_gpu_blocks (c_block_pool (coordinator k)) = 4" "null_block (c_block_pool (coordinator k)) = Blk 0"
    "map (\<lambda>i. ref_cnt (objs (c_block_pool (coordinator k)) (Blk i))) [1, 2, 3] = [1, 1, 0]"
proof -
  have "case example_held of Inl e \<Rightarrow> False | Inr k \<Rightarrow>
      map (\<lambda>m. dd_list ''r'' (req_to_blocks m)) (single_type_managers (coordinator k)) = [[Blk 1, Blk 2]] \<and>
      num_gpu_blocks (c_block_pool (coordinator k)) = 4 \<and> null_block (c_block_pool (coordinator k)) = Blk 0 \<and>
      map (\<lambda>i. ref_cnt (objs (c_block_pool (coordinator k)) (Blk i))) [1, 2, 3] = [1, 1, 0]"
    by code_simp
  then show thesis using that by (auto split: sum.splits)
qed

lemma example_held_reachable:
  assumes "example_held = Inr k"
  shows "kvm_reachable k"
proof -
  obtain r where r: "allocate_slots example_kvm (example_request ''r'' [5, 6, 7] []) 3 0 None 0 0 True 0 = Inr (r, k)"
    using assms by (auto simp: example_held_def example_kvm_init(1) rbind_Inr_iff)
  have "num_computed_tokens (example_request ''r'' [5, 6, 7] []) = 0" by code_simp
  then have "slots_request_ok example_kvm (example_request ''r'' [5, 6, 7] []) 3 0 None 0"
    by (simp add: slots_request_ok_def hits_for_def example_kvm_init hits_ok_def blocks_of_def table_ok_def)
  then show ?thesis by (rule kvm_reachable.slots[OF example_kvm_reachable _ r])
qed

theorem free_request_correct_witness:
  "\<exists>k k'. example_held = Inr k \<and> kvm_free k (example_request ''r'' [5, 6, 7] []) = Inr k' \<and>
     fq_get_all_free_blocks (c_block_pool (coordinator k')) = Some (Inr [Blk 3, Blk 2, Blk 1]) \<and>
     coord_get_blocks (coordinator k') ''r'' = [[]]"
proof -
  obtain k where k: "example_held = Inr k" "map (\<lambda>m. dd_list ''r'' (req_to_blocks m)) (single_type_managers (coordinator k)) = [[Blk 1, Blk 2]]"
    "num_gpu_blocks (c_block_pool (coordinator k)) = 4" "null_block (c_block_pool (coordinator k)) = Blk 0"
    "map (\<lambda>i. ref_cnt (objs (c_block_pool (coordinator k)) (Blk i))) [1, 2, 3] = [1, 1, 0]"
    by (rule example_held_facts)
  have r: "kvm_reachable k" by (rule example_held_reachable[OF k(1)])
  obtain xs where xs: "pool_repr (c_block_pool (coordinator k)) xs"
    using reachable_kvm_ok[OF r] by (auto simp: kvm_ok_def kv_ok_def refs_match_def)
  have "usable (c_block_pool (coordinator k)) = Blk ` {1, 2, 3}" by (auto simp: usable_def k(3))
  moreover have "set xs = {b \<in> usable (c_block_pool (coordinator k)). ref_cnt (objs (c_block_pool (coordinator k)) b) = 0}"
    using xs pool_ok_refD(1-3)[of "c_block_pool (coordinator k)" "set xs"] by (auto simp: pool_repr_def)
  moreover have "{b \<in> Blk ` {1, 2, 3}. ref_cnt (objs (c_block_pool (coordinator k)) b) = 0} = {Blk 3}" using k(5) by auto
  ultimately have "set xs = {Blk 3}" by metis
  then have "xs = [Blk 3]" using xs fq.repr_distinct[of "c_block_pool (coordinator k)" xs]
    by (cases xs; cases "tl xs") (auto simp: pool_repr_def)
  then have free: "fq_get_all_free_blocks (c_block_pool (coordinator k)) = Some (Inr [Blk 3])" using repr_free_list[OF xs] by simp
  have rid: "request_id (example_request ''r'' [5, 6, 7] []) = ''r''" by code_simp
  obtain m where m: "single_type_managers (coordinator k) = [m]" "dd_list ''r'' (req_to_blocks m) = [Blk 1, Blk 2]" using k(2) by auto
  from free_request_correct[OF r, of "example_request ''r'' [5, 6, 7] []"] k m free show ?thesis
    by (auto simp: rid Let_def)
qed

text \<open>
  An attention-sink group takes its blocks out of the free queue without a reference. From
  then on the pool counts them as used although their reference count is 0, so with no request
  holding a block the prefix cache still refuses to be reset.
\<close>

theorem sink_blocks_prevent_reset:
  assumes "pool_reachable p" "0 < block_size m" "sink_init m sink_len p = Inr (m', p')"
  shows "sink_blocks m' \<noteq> [] \<and> (\<forall>b \<in> set (sink_blocks m'). ref_cnt (objs p' b) = 0) \<and>
    (\<exists>xs. fq_get_all_free_blocks p' = Some (Inr xs) \<and> set (sink_blocks m') \<inter> set xs = {}) \<and> \<not> fst (reset_prefix_cache p')"
proof -
  obtain xs where xs: "pool_repr p xs" using reachable_repr[OF assms(1)] by blast
  then have f: "fq_repr p xs" and ok: "pool_ok p (set xs)" by (simp_all add: pool_repr_def)
  obtain n where n: "0 < n" "n mod block_size m = 0" "fq_popleft_n (n div block_size m) p = Inr (sink_blocks m', p')"
    using assms(3) by (auto simp: sink_init_def rbind_Inr_iff split: option.splits)
  let ?k = "n div block_size m"
  have k: "0 < ?k" using n(1,2) assms(2) by (metis dvd_eq_mod_eq_0 dvd_mult_div_cancel zero_less_mult_pos)
  have le: "?k \<le> int (length xs)" using fq_popleft_n_too_many[OF f, of ?k] n(3) by (cases "?k \<le> int (length xs)") auto
  have r: "sink_blocks m' = take (nat ?k) xs" "fq_repr p' (drop (nat ?k) xs)" "payload (objs p') = payload (objs p)" "fbq.more p' = fbq.more p"
    using fq.pop_n_spec[OF f _ le] k n(3) by auto
  have "ref_cnt (objs p' b) = 0" if "b \<in> set (sink_blocks m')" for b
  proof -
    have "b \<in> set xs" using that r(1) by (auto dest: in_set_takeD)
    then have "ref_cnt (objs p b) = 0" using pool_ok_refD(1)[OF ok] pool_ok_refD(3)[OF ok] by auto
    then show ?thesis using payload_fields(2)[of "objs p'" b "objs p"] r(3) by simp
  qed
  moreover have "num_gpu_blocks p' = num_gpu_blocks p" using r(4) more_config[of p' p] by (simp add: pool_config_def)
  moreover have "num_free_blocks p' = int (length xs) - ?k" "num_free_blocks p = int (length xs)"
    using fq.repr_num[OF r(2)] fq.repr_num[OF f] k le by simp_all
  moreover have "int (length xs) \<le> num_gpu_blocks p - 1"
    using card_usable[OF ok] card_mono[OF _ pool_ok_refD(3)[OF ok]] fq.repr_distinct[OF f] by (simp add: distinct_card usable_def)
  moreover have "set (take (nat ?k) xs) \<inter> set (drop (nat ?k) xs) = {}"
    using fq.repr_distinct[OF f] by (metis append_take_drop_id distinct_append)
  ultimately show ?thesis using r(1) k le fq_get_all_free_blocks_repr[OF r(2)]
    by (auto simp: reset_prefix_cache_def get_num_free_blocks_def)
qed

theorem sink_blocks_prevent_reset_witness:
  "case sink_init example_manager (Some 2) example_pool of
     Inl e \<Rightarrow> False
   | Inr (m', p') \<Rightarrow> sink_blocks m' = [Blk 1] \<and> \<not> fst (reset_prefix_cache p')"
proof -
  let ?r = "sink_init example_manager (Some 2) example_pool"
  have e: "block_size example_manager = 2"
    by (simp add: example_manager_def stm_base_init_def example_spec_def)
  have r: "\<not> isl ?r" "map_sum id (\<lambda>(m', p'). sink_blocks m') ?r = Inr [Blk 1]"
    unfolding example_manager_def example_pool_def example_spec_def by code_simp+
  obtain m' p' where mp: "?r = Inr (m', p')" using r(1) by (cases ?r) auto
  from sink_blocks_prevent_reset[OF example_pool_facts(1) _ mp] e have "\<not> fst (reset_prefix_cache p')" by simp
  then show ?thesis using mp r(2) by simp
qed

end
