(* ===== verification/KV_Hits.thy ===== *)
theory KV_Hits
  imports KV_Managers Block_Pool_Correct
begin

text \<open>
  Prefix-cache hits of one attention type. \<open>hit_at\<close> is the lookup of one block position in all
  groups, and \<open>longest_hit\<close> the largest acceptable length up to a bound. The right-to-left and
  left-to-right scans of the code are shown to return exactly the longest length at which the
  layer's attention can resume: every position (full attention), the last positions of the
  window (sliding window), the last position (Mamba).
\<close>

section \<open>Reference definitions\<close>

fun longest_hit :: "(nat \<Rightarrow> bool) \<Rightarrow> nat \<Rightarrow> nat" where
  "longest_hit good 0 = 0"
| "longest_hit good (Suc n) = (if good (Suc n) then Suc n else longest_hit good n)"

definition hit_at :: "BlockPool \<Rightarrow> BlockHashList \<Rightarrow> int list \<Rightarrow> nat \<Rightarrow> bref list option" where
  "hit_at p hashes gids i =
     (case rbind (bhl_item hashes (int i)) (\<lambda>h. get_cached_block p h gids) of
        Inr (Some (b # bs)) \<Rightarrow> Some (b # bs) | _ \<Rightarrow> None)"

definition aligned_at :: "int \<Rightarrow> int \<Rightarrow> nat \<Rightarrow> bool" where
  "aligned_at bsize alignment L \<longleftrightarrow> bsize = alignment \<or> int L * bsize mod alignment = 0"

text \<open>A length is resumable for a window of \<open>need\<close> blocks.\<close>

definition window_hit :: "BlockPool \<Rightarrow> BlockHashList \<Rightarrow> int list \<Rightarrow> nat \<Rightarrow> int \<Rightarrow> int \<Rightarrow> nat \<Rightarrow> bool" where
  "window_hit p hashes gids need bsize alignment L \<longleftrightarrow>
     aligned_at bsize alignment L \<and> (\<forall>k \<in> {L - need..<L}. hit_at p hashes gids k \<noteq> None)"

definition window_blocks :: "BlockPool \<Rightarrow> BlockHashList \<Rightarrow> int list \<Rightarrow> nat \<Rightarrow> nat \<Rightarrow> bref list list" where
  "window_blocks p hashes gids need L =
     map (\<lambda>g. map (\<lambda>k. if L - need \<le> k then the (hit_at p hashes gids k) ! g else null_block p) [0..<L])
       [0..<length gids]"

text \<open>Lookups of the first \<open>n\<close> positions return.\<close>

definition lookups_ok :: "BlockPool \<Rightarrow> BlockHashList \<Rightarrow> int list \<Rightarrow> nat \<Rightarrow> bool" where
  "lookups_ok p hashes gids n \<longleftrightarrow> gids \<noteq> [] \<and>
     (\<forall>i < n. \<exists>h r. bhl_item hashes (int i) = Inr h \<and> get_cached_block p h gids = Inr r \<and>
        (\<forall>bs. r = Some bs \<longrightarrow> length bs = length gids))"

section \<open>The longest acceptable length\<close>

lemma longest_hit_le: "longest_hit good n \<le> n"
  by (induction n) auto

lemma longest_hit_good: "good 0 \<Longrightarrow> good (longest_hit good n)"
  by (induction n) auto

lemma longest_hit_max: "\<lbrakk>longest_hit good n < k; k \<le> n\<rbrakk> \<Longrightarrow> \<not> good k"
  by (induction n) (auto simp: le_Suc_eq split: if_splits)

lemma longest_hit_self: "good n \<Longrightarrow> longest_hit good n = n"
  by (cases n) auto

lemma longest_hit_skip: "(\<And>k. \<lbrakk>i < k; k \<le> i + d\<rbrakk> \<Longrightarrow> \<not> good k) \<Longrightarrow> longest_hit good (i + d) = longest_hit good i"
  by (induction d) auto

lemma longest_hit_eqI:
  "\<lbrakk>good L \<or> L = 0; L \<le> n; \<And>k. \<lbrakk>L < k; k \<le> n\<rbrakk> \<Longrightarrow> \<not> good k\<rbrakk> \<Longrightarrow> longest_hit good n = L"
  using longest_hit_skip[of L "n - L" good] longest_hit_self[of good L] by fastforce

lemma aligned_at_0 [simp]: "aligned_at bsize alignment 0"
  by (simp add: aligned_at_def)

section \<open>Lookups\<close>

lemma lookups_okD:
  assumes "lookups_ok p hashes gids n" "i < n"
  obtains h r where "bhl_item hashes (int i) = Inr h" "get_cached_block p h gids = Inr r"
    "(case r of Some (b # bs) \<Rightarrow> hit_at p hashes gids i = Some (b # bs) \<and> Suc (length bs) = length gids
      | _ \<Rightarrow> hit_at p hashes gids i = None)"
proof -
  obtain h r where hr: "bhl_item hashes (int i) = Inr h" "get_cached_block p h gids = Inr r"
    "\<forall>bs. r = Some bs \<longrightarrow> length bs = length gids" using assms by (auto simp: lookups_ok_def)
  moreover have "case r of Some (b # bs) \<Rightarrow> hit_at p hashes gids i = Some (b # bs) \<and> Suc (length bs) = length gids
      | _ \<Rightarrow> hit_at p hashes gids i = None"
    using hr by (auto simp: hit_at_def split: option.splits list.splits)
  ultimately show ?thesis using that by blast
qed

lemma hit_at_length: "\<lbrakk>lookups_ok p hashes gids n; i < n; hit_at p hashes gids i = Some bs\<rbrakk> \<Longrightarrow> length bs = length gids"
  by (erule (1) lookups_okD) (auto split: option.splits list.splits)

lemma bhl_item_ok:
  assumes "hashes = HashList hs \<or> (\<exists>f > 0. hashes = ScaledHashList hs f)" "int i < bhl_len hashes"
  shows "\<exists>h. bhl_item hashes (int i) = Inr h"
  using assms(1)
proof (elim disjE exE conjE)
  assume "hashes = HashList hs"
  then show ?thesis using assms(2) py_index_nat[of i hs] by auto
next
  fix f assume f: "0 < f" "hashes = ScaledHashList hs f"
  then have "(int i + 1) * f \<le> int (length hs)" using assms(2) le_div_iff_mult_le[of f "int i + 1" "int (length hs)"] by auto
  then show ?thesis using get_value_at_spec[of f "int i" hs] f by auto
qed

lemma lookups_okI:
  assumes "pool_ok p F" "\<forall>g \<in> set gids. valid_group g" "gids \<noteq> []" "int n \<le> bhl_len hashes"
    "hashes = HashList hs \<or> (\<exists>f > 0. hashes = ScaledHashList hs f)"
  shows "lookups_ok p hashes gids n"
  unfolding lookups_ok_def
proof (intro conjI allI impI)
  fix i assume "i < n"
  then obtain h where h: "bhl_item hashes (int i) = Inr h" using bhl_item_ok[OF assms(5)] assms(4) by fastforce
  moreover obtain r where r: "get_cached_block p h gids = Inr r"
    "case r of None \<Rightarrow> \<exists>g \<in> set gids. \<forall>b. block_hash (objs p b) \<noteq> Some (group_key h g)
     | Some bs \<Rightarrow> list_all2 (\<lambda>g b. b \<in> usable p \<and> block_hash (objs p b) = Some (group_key h g)) gids bs"
    using get_cached_block_spec[OF assms(1,2), of h] by blast
  moreover have "\<forall>bs. r = Some bs \<longrightarrow> length bs = length gids" using r(2) by (auto dest: list_all2_lengthD[symmetric])
  ultimately show "\<exists>h r. bhl_item hashes (int i) = Inr h \<and> get_cached_block p h gids = Inr r \<and>
        (\<forall>bs. r = Some bs \<longrightarrow> length bs = length gids)" by blast
qed (rule assms(3))

text \<open>What a hit and a miss mean for the blocks of the pool.\<close>

lemma hit_at_spec:
  assumes "pool_ok p F" "\<forall>g \<in> set gids. valid_group g" "gids \<noteq> []" "bhl_item hashes (int i) = Inr h"
  shows "case hit_at p hashes gids i of
      None \<Rightarrow> \<exists>g \<in> set gids. \<forall>b. block_hash (objs p b) \<noteq> Some (group_key h g)
    | Some bs \<Rightarrow> list_all2 (\<lambda>g b. b \<in> usable p \<and> block_hash (objs p b) = Some (group_key h g)) gids bs"
proof -
  obtain r where r: "get_cached_block p h gids = Inr r"
    "case r of None \<Rightarrow> \<exists>g \<in> set gids. \<forall>b. block_hash (objs p b) \<noteq> Some (group_key h g)
     | Some bs \<Rightarrow> list_all2 (\<lambda>g b. b \<in> usable p \<and> block_hash (objs p b) = Some (group_key h g)) gids bs"
    using get_cached_block_spec[OF assms(1,2), of h] by blast
  show ?thesis using r assms(3,4) by (auto simp: hit_at_def split: option.splits list.splits)
qed

section \<open>Sliding window and Mamba: right to left\<close>

text \<open>
  State of the scan with \<open>i\<close> positions left and a run of \<open>c\<close> hits behind it: the run is stored in
  every group's list, everything before it is still null, and its end is aligned.
\<close>

definition scan_state ::
  "BlockPool \<Rightarrow> BlockHashList \<Rightarrow> int list \<Rightarrow> nat \<Rightarrow> int \<Rightarrow> int \<Rightarrow> nat \<Rightarrow> nat \<Rightarrow> nat \<Rightarrow> bref list list \<Rightarrow> bool" where
  "scan_state p hashes gids need bsize alignment n i c computed \<longleftrightarrow>
     i + c \<le> n \<and> c < need \<and> aligned_at bsize alignment (if c = 0 then 0 else i + c) \<and>
     (\<forall>k \<in> {i..<i + c}. hit_at p hashes gids k \<noteq> None) \<and> length computed = length gids \<and>
     (\<forall>g < length gids. length (computed ! g) = n \<and> (\<forall>k < i. computed ! g ! k = null_block p) \<and>
        (\<forall>k \<in> {i..<i + c}. computed ! g ! k = the (hit_at p hashes gids k) ! g))"

lemma scan_state_hit:
  assumes st: "scan_state p hashes gids need bsize alignment n (Suc i) c computed"
    and hit: "hit_at p hashes gids i = Some bs" "length bs = length gids" "c = 0 \<longrightarrow> aligned_at bsize alignment (Suc i)"
    and new: "computed' = map2 (\<lambda>l x. l[i := x]) computed bs"
  shows "Suc c < need \<Longrightarrow> scan_state p hashes gids need bsize alignment n i (Suc c) computed'"
    "Suc c = need \<Longrightarrow> map (take (i + Suc c)) computed' = window_blocks p hashes gids need (i + Suc c)"
proof -
  have len: "length computed' = length gids" "length computed = length gids" using st hit(2) by (simp_all add: new scan_state_def)
  have nth: "computed' ! g = (computed ! g)[i := bs ! g]" if "g < length gids" for g
    using that st hit(2) by (simp add: new scan_state_def)
  have old: "length (computed ! g) = n" "\<And>k. k < i \<Longrightarrow> computed ! g ! k = null_block p"
    "\<And>k. k \<in> {Suc i..<Suc i + c} \<Longrightarrow> computed ! g ! k = the (hit_at p hashes gids k) ! g" if "g < length gids" for g
    using st that by (auto simp: scan_state_def)
  have i: "i < n" "i + Suc c \<le> n" using st by (auto simp: scan_state_def)
  have run: "computed' ! g ! k = the (hit_at p hashes gids k) ! g" if "g < length gids" "k \<in> {i..<i + Suc c}" for g k
    using that nth[OF that(1)] old[OF that(1)] hit(1) i by (cases "k = i") auto
  have null: "computed' ! g ! k = null_block p" if "g < length gids" "k < i" for g k
    using that nth[OF that(1)] old[OF that(1)] by simp
  show "scan_state p hashes gids need bsize alignment n i (Suc c) computed'" if "Suc c < need"
    unfolding scan_state_def
  proof (intro conjI ballI allI impI)
    show "hit_at p hashes gids k \<noteq> None" if "k \<in> {i..<i + Suc c}" for k
      using that hit(1) st by (cases "k = i") (auto simp: scan_state_def)
    show "aligned_at bsize alignment (if Suc c = 0 then 0 else i + Suc c)"
      using st hit(3) by (cases "c = 0") (auto simp: scan_state_def)
  qed (use that i len null run nth old in auto)
  show "map (take (i + Suc c)) computed' = window_blocks p hashes gids need (i + Suc c)" if "Suc c = need"
  proof (rule nth_equalityI)
    fix g assume "g < length (map (take (i + Suc c)) computed')"
    then have g: "g < length gids" by (simp add: len)
    have "take (i + Suc c) (computed' ! g) =
      map (\<lambda>k. if i + Suc c - need \<le> k then the (hit_at p hashes gids k) ! g else null_block p) [0..<i + Suc c]"
    proof (rule nth_equalityI)
      show "length (take (i + Suc c) (computed' ! g)) =
        length (map (\<lambda>k. if i + Suc c - need \<le> k then the (hit_at p hashes gids k) ! g else null_block p) [0..<i + Suc c])"
        using nth[OF g] old(1)[OF g] i by simp
    qed (use that null[OF g] run[OF g] in auto)
    then show "map (take (i + Suc c)) computed' ! g = window_blocks p hashes gids need (i + Suc c) ! g"
      using g by (simp add: window_blocks_def len del: upt_Suc)
  qed (simp add: window_blocks_def len)
qed

lemma scan_state_skip:
  assumes "scan_state p hashes gids need bsize alignment n (Suc i) c computed"
  shows "scan_state p hashes gids need bsize alignment n i 0 computed"
  using assms by (auto simp: scan_state_def)

lemma scan_state_end:
  assumes st: "scan_state p hashes gids need bsize alignment n 0 c computed"
  shows "map (take c) computed = window_blocks p hashes gids need c"
    "longest_hit (window_hit p hashes gids need bsize alignment) c = c"
proof -
  show "map (take c) computed = window_blocks p hashes gids need c"
  proof (rule nth_equalityI)
    fix g assume "g < length (map (take c) computed)"
    then have g: "g < length gids" using st by (simp add: scan_state_def)
    then have "take c (computed ! g) = map (\<lambda>k. if c - need \<le> k then the (hit_at p hashes gids k) ! g else null_block p) [0..<c]"
      using st by (intro nth_equalityI) (auto simp: scan_state_def)
    then show "map (take c) computed ! g = window_blocks p hashes gids need c ! g"
      using g st by (simp add: window_blocks_def scan_state_def)
  qed (use st in \<open>simp add: window_blocks_def scan_state_def\<close>)
  show "longest_hit (window_hit p hashes gids need bsize alignment) c = c"
    using st by (intro longest_hit_self) (auto simp: window_hit_def scan_state_def split: if_splits)
qed

lemma window_miss:
  "\<lbrakk>hit_at p hashes gids i = None; i < k; k \<le> i + need\<rbrakk> \<Longrightarrow> \<not> window_hit p hashes gids need bsize alignment k"
  by (auto simp: window_hit_def intro!: bexI[of _ i])

lemma sliding_loop_spec:
  assumes "lookups_ok p hashes gids n" "need = nat (max 1 needed)"
    "scan_state p hashes gids need bsize alignment n i c computed"
  shows "\<exists>computed' c' found. sliding_loop p hashes gids needed bsize alignment i computed c = Inr (computed', c', found) \<and>
    (let L = longest_hit (window_hit p hashes gids need bsize alignment) (i + c) in
       (if found then computed' else map (take c') computed') = window_blocks p hashes gids need L \<and> (\<not> found \<longrightarrow> c' = L))"
  using assms(3)
proof (induction i arbitrary: c computed)
  case 0
  then show ?case using scan_state_end[OF 0] by (auto simp: Let_def)
next
  case (Suc i)
  let ?good = "window_hit p hashes gids need bsize alignment"
  have i: "i < n" "c < need" using Suc.prems by (auto simp: scan_state_def)
  obtain h r where hr: "bhl_item hashes (int i) = Inr h" "get_cached_block p h gids = Inr r"
    "(case r of Some (b # bs) \<Rightarrow> hit_at p hashes gids i = Some (b # bs) \<and> Suc (length bs) = length gids
      | _ \<Rightarrow> hit_at p hashes gids i = None)" by (rule lookups_okD[OF assms(1) i(1)])
  show ?case
  proof (cases "hit_at p hashes gids i")
    case None
    then have run: "sliding_loop p hashes gids needed bsize alignment (Suc i) computed c =
      sliding_loop p hashes gids needed bsize alignment i computed 0" using hr by (auto split: option.splits list.splits)
    have "longest_hit ?good (Suc i + c) = longest_hit ?good i"
      using longest_hit_skip[of i "Suc c" ?good] window_miss[OF None] i by simp
    then show ?thesis unfolding run using Suc.IH[OF scan_state_skip[OF Suc.prems]] by simp
  next
    case (Some bs)
    then obtain b bs' where bs: "bs = b # bs'" "r = Some bs" "length bs = length gids"
      using hr(3) by (auto split: option.splits list.splits)
    let ?new = "map2 (\<lambda>l x. l[i := x]) computed bs"
    show ?thesis
    proof (cases "c = 0 \<and> \<not> aligned_at bsize alignment (Suc i)")
      case True
      then have run: "sliding_loop p hashes gids needed bsize alignment (Suc i) computed c =
        sliding_loop p hashes gids needed bsize alignment i computed 0"
        using hr bs by (simp add: aligned_at_def add.commute)
      have "\<not> ?good (Suc i)" using True by (simp add: window_hit_def)
      then show ?thesis unfolding run using Suc.IH[OF scan_state_skip[OF Suc.prems]] True by simp
    next
      case False
      then have al: "c = 0 \<longrightarrow> aligned_at bsize alignment (Suc i)" by blast
      note hit = scan_state_hit[OF Suc.prems Some bs(3) al refl]
      have run: "sliding_loop p hashes gids needed bsize alignment (Suc i) computed c =
        (if needed \<le> int (Suc c) then Inr (map (take (i + Suc c)) ?new, Suc c, True)
         else sliding_loop p hashes gids needed bsize alignment i ?new (Suc c))"
        using hr bs False by (auto simp: aligned_at_def Let_def add.commute)
      show ?thesis
      proof (cases "needed \<le> int (Suc c)")
        case True
        then have need: "Suc c = need" using i(2) assms(2) by auto
        have "hit_at p hashes gids k \<noteq> None" if "k \<in> {Suc i + c - need..<Suc i + c}" for k
          using that Suc.prems Some need by (cases "k = i") (auto simp: scan_state_def)
        then have "?good (Suc i + c)" using Suc.prems al by (auto simp: window_hit_def scan_state_def split: if_splits)
        then have L: "longest_hit ?good (Suc i + c) = i + Suc c" by (subst longest_hit_self) simp_all
        show ?thesis unfolding run L using True hit(2)[OF need] by auto
      next
        case False
        then have "Suc c < need" using assms(2) by auto
        then show ?thesis unfolding run using False Suc.IH[OF hit(1)] by simp
      qed
    qed
  qed
qed

lemma pop_to_alignment_window:
  "pop_to_alignment bsize alignment (window_blocks p hashes gids need L) =
     (if aligned_at bsize alignment L \<or> gids = [] then window_blocks p hashes gids need L
      else pop_to_alignment bsize alignment (map butlast (window_blocks p hashes gids need L)))"
  by (cases gids) (auto simp: window_blocks_def aligned_at_def upt_conv_Cons simp del: upt_Suc)

lemma window_blocks_butlast:
  "0 < need \<Longrightarrow> map butlast (window_blocks p hashes gids need L) = window_blocks p hashes gids (need - 1) (L - 1)"
  by (cases L) (auto simp: window_blocks_def map_butlast[symmetric])

lemma window_blocks_hd: "gids \<noteq> [] \<Longrightarrow> \<exists>c cs. window_blocks p hashes gids need L = c # cs \<and> length c = L"
  by (cases gids) (auto simp: window_blocks_def upt_conv_Cons simp del: upt_Suc)

lemma window_blocks_index:
  assumes "gids \<noteq> []"
  shows "\<exists>c0. py_index (window_blocks p hashes gids need L) 0 = Inr c0 \<and> length c0 = L"
  using window_blocks_hd[OF assms, of p hashes need L] py_index_nat[of 0 "window_blocks p hashes gids need L"] by fastforce

lemma scan_state_start:
  "0 < need \<Longrightarrow> scan_state p hashes gids need bsize alignment n n 0 (replicate (length gids) (replicate n (null_block p)))"
  by (simp add: scan_state_def)

text \<open>The window in blocks, one more with EAGLE because the last block is dropped.\<close>

definition window_need :: "int \<Rightarrow> int \<Rightarrow> bool \<Rightarrow> nat" where
  "window_need window bsize use_eagle = nat (max 1 (cdiv (window - 1) bsize + (if use_eagle then 1 else 0)))"

lemma sliding_find_cases:
  fixes window :: int and use_eagle :: bool and alignment :: int
  assumes ok: "lookups_ok p hashes gids (nat (max_length div bsize))" and bsize: "bsize = a_block_size a"
  defines "need \<equiv> window_need window bsize use_eagle"
  defines "L \<equiv> longest_hit (window_hit p hashes gids need bsize alignment) (nat (max_length div bsize))"
  shows "sliding_find_longest_cache_hit hashes max_length gids p (SlidingWindowSpec a window) use_eagle alignment 1 1 =
    (if use_eagle \<and> L \<noteq> 0 \<and> bsize \<noteq> alignment then Inl AssertionError
     else Inr (if use_eagle then map butlast (window_blocks p hashes gids need L) else window_blocks p hashes gids need L))"
proof -
  let ?n = "nat (max_length div bsize)" and ?needed = "cdiv (window - 1) bsize + (if use_eagle then 1 else 0)"
  have g: "gids \<noteq> []" using ok by (simp add: lookups_ok_def)
  have L: "aligned_at bsize alignment L"
    using longest_hit_good[of "window_hit p hashes gids need bsize alignment" ?n] by (simp add: L_def window_hit_def)
  have need: "need = nat (max 1 ?needed)" by (simp add: need_def window_need_def)
  have pos: "0 < need" unfolding need by (simp add: less_max_iff_disj)
  obtain comp c found where run: "sliding_loop p hashes gids ?needed bsize alignment ?n
      (replicate (length gids) (replicate ?n (null_block p))) 0 = Inr (comp, c, found)"
    "(if found then comp else map (take c) comp) = window_blocks p hashes gids need L"
    using sliding_loop_spec[OF ok need scan_state_start[OF pos], of bsize alignment]
    by (auto simp: Let_def L_def)
  have fin: "(if found then comp else pop_to_alignment bsize alignment (map (take c) comp)) = window_blocks p hashes gids need L"
    using run(2) L pop_to_alignment_window[of bsize alignment p hashes gids need L] by (auto split: if_splits)
  obtain c0 where c0: "py_index (window_blocks p hashes gids need L) 0 = Inr c0" "length c0 = L"
    using window_blocks_index[OF g] by blast
  have "map butlast (window_blocks p hashes gids need L) = window_blocks p hashes gids need L" if "L = 0"
    using that by (simp add: window_blocks_def)
  then show ?thesis using run(1) fin c0
    by (auto simp: sliding_find_longest_cache_hit_def Let_def bsize[symmetric] simp del: sliding_loop.simps pop_to_alignment.simps)
qed

lemma sliding_find_spec:
  fixes window :: int
  assumes "lookups_ok p hashes gids (nat (max_length div bsize))" "bsize = a_block_size a" "use_eagle \<longrightarrow> bsize = alignment"
  defines "need \<equiv> window_need window bsize use_eagle"
  defines "L \<equiv> longest_hit (window_hit p hashes gids need bsize alignment) (nat (max_length div bsize))"
  shows "sliding_find_longest_cache_hit hashes max_length gids p (SlidingWindowSpec a window) use_eagle alignment 1 1 =
    Inr (if use_eagle then map butlast (window_blocks p hashes gids need L) else window_blocks p hashes gids need L)"
  using sliding_find_cases[OF assms(1,2), of window use_eagle alignment] assms(3) by (auto simp: L_def need_def)

lemma mamba_loop_spec:
  assumes "lookups_ok p hashes gids n" "i \<le> n"
  shows "mamba_loop p hashes gids bsize alignment i =
    Inr (window_blocks p hashes gids 1 (longest_hit (window_hit p hashes gids 1 bsize alignment) i))"
  using assms(2)
proof (induction i)
  case 0
  then show ?case by (simp add: window_blocks_def map_replicate_const)
next
  case (Suc i)
  let ?good = "window_hit p hashes gids 1 bsize alignment"
  obtain h r where hr: "bhl_item hashes (int i) = Inr h" "get_cached_block p h gids = Inr r"
    "(case r of Some (b # bs) \<Rightarrow> hit_at p hashes gids i = Some (b # bs) \<and> Suc (length bs) = length gids
      | _ \<Rightarrow> hit_at p hashes gids i = None)" using lookups_okD[OF assms(1), of i] Suc.prems by auto
  show ?case
  proof (cases "hit_at p hashes gids i \<noteq> None \<and> aligned_at bsize alignment (Suc i)")
    case True
    then obtain b bs where bs: "r = Some (b # bs)" "hit_at p hashes gids i = Some (b # bs)" "Suc (length bs) = length gids"
      using hr(3) by (auto split: option.splits list.splits)
    have good: "?good (Suc i)" using True by (simp add: window_hit_def)
    have "map (\<lambda>x. replicate i (null_block p) @ [x]) (b # bs) = window_blocks p hashes gids 1 (Suc i)"
    proof (rule nth_equalityI)
      fix g assume "g < length (map (\<lambda>x. replicate i (null_block p) @ [x]) (b # bs))"
      then have g: "g < length (b # bs)" by simp
      have "replicate i (null_block p) @ [(b # bs) ! g] =
        map (\<lambda>k. if Suc i - 1 \<le> k then the (hit_at p hashes gids k) ! g else null_block p) [0..<Suc i]"
        using bs(2) by (intro nth_equalityI) (auto simp: nth_append less_Suc_eq simp del: upt_Suc)
      then show "map (\<lambda>x. replicate i (null_block p) @ [x]) (b # bs) ! g = window_blocks p hashes gids 1 (Suc i) ! g"
        unfolding nth_map[OF g] using g bs(3) by (simp add: window_blocks_def del: upt_Suc)
    qed (use bs(3) in \<open>simp add: window_blocks_def\<close>)
    then show ?thesis using hr(1,2) bs(1) True good by (auto simp: aligned_at_def add.commute)
  next
    case False
    then have "\<not> ?good (Suc i)" by (auto simp: window_hit_def)
    moreover have "mamba_loop p hashes gids bsize alignment (Suc i) = mamba_loop p hashes gids bsize alignment i"
      using hr False by (auto simp: aligned_at_def add.commute split: option.splits list.splits)
    ultimately show ?thesis using Suc by simp
  qed
qed

lemma mamba_find_spec:
  assumes "lookups_ok p hashes gids (nat (max_length div bsize))" "bsize = m_block_size ms"
  shows "mamba_find_longest_cache_hit hashes max_length gids p (MambaSpec ms) use_eagle alignment 1 1 =
    Inr (window_blocks p hashes gids 1
           (longest_hit (window_hit p hashes gids 1 bsize alignment) (nat (max_length div bsize))))"
  using mamba_loop_spec[OF assms(1) order_refl, of bsize alignment] assms(2)
  by (simp add: mamba_find_longest_cache_hit_def del: mamba_loop.simps)

section \<open>Full attention and chunked local attention: left to right\<close>

text \<open>The number of consecutive hits from position \<open>s\<close> on, and the scan's result.\<close>

definition run_length :: "BlockPool \<Rightarrow> BlockHashList \<Rightarrow> int list \<Rightarrow> nat \<Rightarrow> nat \<Rightarrow> nat" where
  "run_length p hashes gids s n = length (takeWhile (\<lambda>k. hit_at p hashes gids k \<noteq> None) [s..<n])"

lemma full_hit_loop_spec:
  assumes "lookups_ok p hashes gids n" "length computed = length gids"
  shows "full_hit_loop p hashes gids [int s..int n - 1] computed =
    Inr (map (\<lambda>g. computed ! g @ map (\<lambda>k. the (hit_at p hashes gids k) ! g) [s..<s + run_length p hashes gids s n])
           [0..<length gids])"
  using assms(2)
proof (induction "n - s" arbitrary: s computed)
  case 0
  then show ?case by (simp add: run_length_def map_nth flip: 0(2))
next
  case (Suc d)
  then have s: "s < n" by simp
  then have up: "[int s..int n - 1] = int s # [int (Suc s)..int n - 1]" "[s..<n] = s # [Suc s..<n]"
    by (simp_all add: upto_Cons upt_conv_Cons add.commute)
  obtain h r where hr: "bhl_item hashes (int s) = Inr h" "get_cached_block p h gids = Inr r"
    "(case r of Some (b # bs) \<Rightarrow> hit_at p hashes gids s = Some (b # bs) \<and> Suc (length bs) = length gids
      | _ \<Rightarrow> hit_at p hashes gids s = None)" by (rule lookups_okD[OF assms(1) s])
  show ?case
  proof (cases "hit_at p hashes gids s")
    case None
    then have "full_hit_loop p hashes gids [int s..int n - 1] computed = Inr computed"
      unfolding up using hr by (auto split: option.splits list.splits)
    moreover have "run_length p hashes gids s n = 0" using None by (simp add: run_length_def up)
    ultimately show ?thesis by (simp add: map_nth flip: Suc.prems)
  next
    case (Some bs)
    let ?c = "append_each computed bs" and ?r = "run_length p hashes gids (Suc s) n"
    have bs: "length bs = length gids" using hit_at_length[OF assms(1) s Some] .
    have run: "full_hit_loop p hashes gids [int s..int n - 1] computed = full_hit_loop p hashes gids [int (Suc s)..int n - 1] ?c"
      unfolding up using hr Some by (auto split: option.splits list.splits)
    have r: "run_length p hashes gids s n = Suc ?r" using Some by (simp add: run_length_def up)
    have "[s..<s + Suc ?r] = s # [Suc s..<Suc s + ?r]" by (simp add: upt_conv_Cons)
    moreover have "?c ! g = computed ! g @ [bs ! g]" if "g < length gids" for g
      using that bs Suc.prems by (simp add: append_each_def)
    moreover have "length ?c = length gids" "d = n - Suc s" using bs Suc by (simp_all add: append_each_def)
    ultimately show ?thesis unfolding run r using Suc.hyps(1)[of "Suc s" ?c] Some by simp
  qed
qed

lemma run_length_longest:
  "run_length p hashes gids 0 n = longest_hit (\<lambda>L. \<forall>k < L. hit_at p hashes gids k \<noteq> None) n"
proof (rule longest_hit_eqI[symmetric])
  let ?P = "\<lambda>k. hit_at p hashes gids k \<noteq> None"
  let ?r = "run_length p hashes gids 0 n"
  have tw: "takeWhile ?P [0..<n] = take ?r [0..<n]" unfolding run_length_def by (rule takeWhile_eq_take)
  have le: "?r \<le> n" using length_takeWhile_le[of ?P "[0..<n]"] by (simp add: run_length_def)
  then show "?r \<le> n" .
  have "?P k" if "k < ?r" for k
  proof -
    have "takeWhile ?P [0..<n] ! k = k" unfolding tw using that le by simp
    moreover have "takeWhile ?P [0..<n] ! k \<in> set (takeWhile ?P [0..<n])" using that by (intro nth_mem) (simp add: run_length_def)
    ultimately show ?thesis using set_takeWhileD[of k ?P "[0..<n]"] by auto
  qed
  then show "(\<forall>k < ?r. ?P k) \<or> ?r = 0" by blast
  show "\<not> (\<forall>k' < k. ?P k')" if "?r < k" "k \<le> n" for k
  proof -
    have "\<not> ?P ([0..<n] ! ?r)" unfolding run_length_def
      by (rule nth_length_takeWhile) (use that in \<open>simp add: run_length_def\<close>)
    then show ?thesis using that by auto
  qed
qed

lemma pop_to_alignment_spec:
  assumes "gids \<noteq> []"
  shows "pop_to_alignment bsize alignment (window_blocks p hashes gids L L) =
    (let L' = longest_hit (aligned_at bsize alignment) L in window_blocks p hashes gids L' L')"
proof (induction L)
  case 0
  then show ?case using pop_to_alignment_window[of bsize alignment p hashes gids 0 0] by simp
next
  case (Suc L)
  then show ?case using pop_to_alignment_window[of bsize alignment p hashes gids "Suc L" "Suc L"] assms
    window_blocks_butlast[of "Suc L" p hashes gids "Suc L"] by (auto simp: Let_def)
qed

lemma full_find_spec:
  fixes use_eagle :: bool and alignment :: int
  assumes ok: "lookups_ok p hashes gids (nat (min (max_length div bsize) (bhl_len hashes)))" and spec: "is_full_attention spec"
    and bsize: "bsize = (if dcp * pcp > 1 then spec_block_size spec * (dcp * pcp) else spec_block_size spec)"
    and len: "0 \<le> max_length div bsize" "0 \<le> bhl_len hashes"
  defines "n \<equiv> longest_hit (\<lambda>L. \<forall>k < L. hit_at p hashes gids k \<noteq> None) (nat (min (max_length div bsize) (bhl_len hashes)))"
  defines "L \<equiv> longest_hit (aligned_at bsize alignment) (if use_eagle then n - 1 else n)"
  shows "full_find_longest_cache_hit hashes max_length gids p spec use_eagle alignment dcp pcp =
    Inr (window_blocks p hashes gids L L)"
proof -
  let ?N = "nat (min (max_length div bsize) (bhl_len hashes))"
  have g: "gids \<noteq> []" using ok by (simp add: lookups_ok_def)
  have "[0..min (max_length div bsize) (bhl_len hashes) - 1] = [int 0..int ?N - 1]" using len by simp
  then have run: "full_hit_loop p hashes gids [0..min (max_length div bsize) (bhl_len hashes) - 1] (replicate (length gids) []) =
    Inr (window_blocks p hashes gids n n)"
    using full_hit_loop_spec[OF ok, of "replicate (length gids) []" 0]
    by (simp add: run_length_longest n_def window_blocks_def del: full_hit_loop.simps cong: map_cong)
  obtain c0 where c0: "py_index (window_blocks p hashes gids n n) 0 = Inr c0" "length c0 = n"
    using window_blocks_index[OF g] by blast
  have drop: "(if use_eagle \<and> c0 \<noteq> [] then map butlast (window_blocks p hashes gids n n) else window_blocks p hashes gids n n) =
    window_blocks p hashes gids (if use_eagle then n - 1 else n) (if use_eagle then n - 1 else n)"
    using window_blocks_butlast[of n p hashes gids n] c0(2) by auto
  show ?thesis
    using run c0(1) drop pop_to_alignment_spec[OF g, of bsize alignment p hashes] spec len(1)
    by (simp add: full_find_longest_cache_hit_def Let_def bsize[symmetric] L_def del: full_hit_loop.simps pop_to_alignment.simps)
qed

section \<open>What a hit guarantees\<close>

text \<open>
  The lists found for the groups \<open>gids\<close>: all of length \<open>L\<close>; the last \<open>need\<close> positions hold blocks
  cached under that position's hash and the group's id, the earlier ones the null block.
\<close>

definition resumable :: "BlockPool \<Rightarrow> BlockHashList \<Rightarrow> int list \<Rightarrow> nat \<Rightarrow> nat \<Rightarrow> bref list list \<Rightarrow> bool" where
  "resumable p hashes gids need L blocks \<longleftrightarrow> length blocks = length gids \<and>
     (\<forall>g < length gids. length (blocks ! g) = L \<and>
        (\<forall>k < L. if L \<le> k + need
                 then (\<exists>h. bhl_item hashes (int k) = Inr h \<and>
                           block_hash (objs p (blocks ! g ! k)) = Some (group_key h (gids ! g)))
                 else blocks ! g ! k = null_block p))"

lemma window_blocks_resumable:
  assumes ok: "pool_ok p F" "\<forall>g \<in> set gids. valid_group g" "lookups_ok p hashes gids n" "L \<le> n"
    and hits: "\<forall>k \<in> {L - need..<L}. hit_at p hashes gids k \<noteq> None"
  shows "resumable p hashes gids need L (window_blocks p hashes gids need L)"
  unfolding resumable_def
proof (intro conjI allI impI)
  fix g k assume g: "g < length gids" and k: "k < L"
  obtain h where h: "bhl_item hashes (int k) = Inr h" using lookups_okD[OF ok(3), of k] ok(4) k by auto
  have g0: "gids \<noteq> []" using g by auto
  show "if L \<le> k + need
        then \<exists>h. bhl_item hashes (int k) = Inr h \<and>
                 block_hash (objs p (window_blocks p hashes gids need L ! g ! k)) = Some (group_key h (gids ! g))
        else window_blocks p hashes gids need L ! g ! k = null_block p"
  proof (cases "L \<le> k + need")
    case True
    then obtain bs where bs: "hit_at p hashes gids k = Some bs" using hits k by fastforce
    then have "block_hash (objs p (bs ! g)) = Some (group_key h (gids ! g))"
      using hit_at_spec[OF ok(1,2) g0 h] g by (auto simp: list_all2_conv_all_nth)
    then show ?thesis using True g k bs h by (auto simp: window_blocks_def)
  qed (use g k in \<open>auto simp: window_blocks_def\<close>)
qed (simp_all add: window_blocks_def)

text \<open>Dropping blocks at the end of a run of hits leaves a run of hits.\<close>

lemma resumable_take:
  assumes "resumable p hashes gids L L blocks" "m \<le> L"
  shows "resumable p hashes gids m m (map (take m) blocks)"
  using assms by (auto simp: resumable_def)

lemma bhl_len_nonneg: "hashes = HashList hs \<or> (\<exists>f > 0. hashes = ScaledHashList hs f) \<Longrightarrow> 0 \<le> bhl_len hashes"
  by (auto simp: pos_imp_zdiv_nonneg_iff)

end
