(* ===== verification/KV_Hybrid.thy ===== *)
theory KV_Hybrid
  imports KV_Hits KV_Coordinator "HOL-Library.Multiset"
begin

text \<open>
  The hit search of the hybrid coordinator, which narrows one candidate length over several
  attention types until all of them can resume there. Shown here: the loop always ends; without
  EAGLE the result is resumable for every type at once, and the longest such length; with EAGLE and more than one round the
  candidate shrinks in every round.
\<close>

section \<open>Well-formed attention groups\<close>

text \<open>The blocks before the hit that a layer of this format has to find cached.\<close>

fun need_of :: "KVCacheSpec \<Rightarrow> nat \<Rightarrow> nat" where
  "need_of (SlidingWindowSpec a w) L = window_need w (a_block_size a) False"
| "need_of (MambaSpec m) L = 1"
| "need_of s L = L"

fun searchable :: "KVCacheSpec \<Rightarrow> bool" where
  "searchable (SlidingWindowSpec a w) = True"
| "searchable (MambaSpec m) = True"
| "searchable s = is_full_attention s"

definition group_ok :: "KVCacheCoordinator \<Rightarrow> KVCacheSpec \<times> int list \<times> manager_class \<Rightarrow> bool" where
  "group_ok c = (\<lambda>(spec, gids, cls). gids \<noteq> [] \<and> distinct gids \<and>
     (\<forall>g \<in> set gids. valid_group g \<and> g < int (length (kv_cache_groups (c_kv_cache_config c)))) \<and>
     searchable spec \<and> spec_manager_map spec = Inr cls \<and> 0 < spec_block_size spec \<and>
     c_hash_block_size c dvd spec_block_size spec \<and> spec_block_size spec dvd lcm_block_size c)"

text \<open>Formats are searchable and no KV-cache group belongs to two attention groups.\<close>

definition groups_ok :: "KVCacheCoordinator \<Rightarrow> (KVCacheSpec \<times> int list \<times> manager_class) list \<Rightarrow> bool" where
  "groups_ok c gs \<longleftrightarrow> (\<forall>G \<in> set gs. group_ok c G) \<and> distinct (concat (map (\<lambda>G. fst (snd G)) gs))"

text \<open>Enough hashes for every full block below \<open>n\<close> tokens.\<close>

definition hashes_cover :: "KVCacheCoordinator \<Rightarrow> bytes list \<Rightarrow> int \<Rightarrow> bool" where
  "hashes_cover c hashes n \<longleftrightarrow> n < (int (length hashes) + 1) * c_hash_block_size c"

section \<open>Termination\<close>

lemma hybrid_group_nonneg:
  assumes "hybrid_group c hashes (spec, gids, cls) (n, hits) = Inr (n', hits')" "0 \<le> n" "0 \<le> spec_block_size spec"
  shows "0 \<le> n'"
  using assms
  by (auto simp: hybrid_group_def rbind_Inr_iff split: if_splits intro!: mult_nonneg_nonneg)
    (metis div_by_0 mult_zero_right order.order_iff_strict pos_imp_zdiv_nonneg_iff)

lemma hybrid_round_nonneg:
  assumes "mfold (hybrid_group c hashes) gs (n, hits) = Inr (n', hits')"
    "\<forall>(spec, gids, cls) \<in> set gs. 0 < spec_block_size spec" "0 \<le> n"
  shows "0 \<le> n'"
  using assms
proof (induction gs arbitrary: n hits)
  case (Cons G gs)
  obtain n1 hits1 where 1: "hybrid_group c hashes G (n, hits) = Inr (n1, hits1)"
    "mfold (hybrid_group c hashes) gs (n1, hits1) = Inr (n', hits')" using Cons.prems(1) by (auto split: sum.splits)
  have "0 \<le> n1" using hybrid_group_nonneg 1(1) Cons.prems(2,3) by (cases G) fastforce
  then show ?case using Cons.IH[OF 1(2)] Cons.prems(2) by auto
qed simp

lemma hybrid_loop_returns:
  assumes "\<forall>(spec, gids, cls) \<in> set (attention_groups c). 0 < spec_block_size spec" "0 \<le> n"
  shows "\<exists>r. hybrid_loop c hashes n hits = Some r"
  using assms(2)
proof (induction "nat n" arbitrary: n hits rule: less_induct)
  case less
  show ?case
  proof (cases "mfold (hybrid_group c hashes) (attention_groups c) (n, hits)")
    case (Inl e)
    then show ?thesis by (simp add: hybrid_loop.simps)
  next
    case (Inr r)
    obtain n' hits' where r: "r = (n', hits')" by (cases r)
    have "0 \<le> n'" using hybrid_round_nonneg[of c hashes _ n hits n' hits'] Inr r assms(1) less.prems by blast
    then have "n' < n \<Longrightarrow> \<exists>r. hybrid_loop c hashes n' hits' = Some r" using less.hyps[of n' hits'] by simp
    then show ?thesis using Inr r by (subst hybrid_loop.simps) auto
  qed
qed

section \<open>One attention group\<close>

text \<open>The lists found for a group, with its own view of the hashes.\<close>

definition found ::
  "KVCacheCoordinator \<Rightarrow> bytes list \<Rightarrow> KVCacheSpec \<Rightarrow> int list \<Rightarrow> nat \<Rightarrow> bref list list \<Rightarrow> bool" where
  "found c hashes spec gids L blocks \<longleftrightarrow>
     (\<exists>hl. hybrid_block_hashes c hashes spec = Inr hl \<and> resumable (c_block_pool c) hl gids (need_of spec L) L blocks)"

lemma group_hashes:
  assumes "group_ok c (spec, gids, cls)" "0 < c_hash_block_size c" "hashes_cover c hashes n" "0 \<le> n"
  shows "\<exists>hl. hybrid_block_hashes c hashes spec = Inr hl \<and> n div spec_block_size spec \<le> bhl_len hl \<and>
    (hl = HashList hashes \<or> (\<exists>f > 0. hl = ScaledHashList hashes f))"
proof -
  let ?b = "spec_block_size spec" and ?h = "c_hash_block_size c"
  obtain f where f: "?b = ?h * f" using assms(1) by (auto simp: group_ok_def elim: dvdE)
  have pos: "0 < ?b" "0 < f" using assms(1,2) f by (auto simp: group_ok_def zero_less_mult_iff)
  have "n div ?b * ?b \<le> n" using le_div_iff_mult_le[OF pos(1), of "n div ?b" n] by simp
  then have "(n div ?b * f) * ?h < (int (length hashes) + 1) * ?h"
    using assms(3) unfolding hashes_cover_def by (simp only: f mult.assoc mult.commute[of f])
  then have "n div ?b * f \<le> int (length hashes)" using assms(2) by simp
  then have len: "n div ?b \<le> int (length hashes) div f" using le_div_iff_mult_le[OF pos(2)] by blast
  show ?thesis
  proof (cases "?b = ?h")
    case True
    then have "f = 1" using f assms(2) by simp
    then show ?thesis using True len by (simp add: hybrid_block_hashes_def)
  next
    case False
    then show ?thesis using f assms(2) pos len by (simp add: hybrid_block_hashes_def BlockHashListWithBlockSize_def)
  qed
qed

lemma aligned_dvd: "aligned_at b l L \<Longrightarrow> b dvd l \<Longrightarrow> l dvd int L * b"
  by (auto simp: aligned_at_def)

text \<open>What every search of a group has at hand: its hashes, lookups that return, the bound in blocks.\<close>

lemma group_setup:
  assumes grp: "group_ok c (spec, gids, cls)" and c: "0 < c_hash_block_size c" "hashes_cover c hashes n" "0 \<le> n"
    and pool: "pool_ok (c_block_pool c) F"
  obtains hl where "hybrid_block_hashes c hashes spec = Inr hl" "0 \<le> n div spec_block_size spec" "n div spec_block_size spec \<le> bhl_len hl"
    "lookups_ok (c_block_pool c) hl gids (nat (n div spec_block_size spec))"
    "\<forall>L \<le> nat (n div spec_block_size spec). int L * spec_block_size spec \<le> n"
proof -
  let ?b = "spec_block_size spec"
  obtain hl where hl: "hybrid_block_hashes c hashes spec = Inr hl" "n div ?b \<le> bhl_len hl"
    "hl = HashList hashes \<or> (\<exists>f > 0. hl = ScaledHashList hashes f)" using group_hashes[OF grp c] by blast
  have g: "gids \<noteq> []" "\<forall>g \<in> set gids. valid_group g" "0 < ?b" using grp by (auto simp: group_ok_def)
  have N: "0 \<le> n div ?b" using c(3) g(3) by (simp add: pos_imp_zdiv_nonneg_iff)
  have "lookups_ok (c_block_pool c) hl gids (nat (n div ?b))" by (rule lookups_okI[OF pool g(2,1) _ hl(3)]) (use N hl(2) in auto)
  moreover have "int L * ?b \<le> n" if "L \<le> nat (n div ?b)" for L
    using that N le_div_iff_mult_le[OF g(3), of "int L" n] by (simp add: le_nat_iff)
  ultimately show ?thesis using that hl(1,2) N by blast
qed

lemma group_find_full:
  assumes "is_full_attention spec" and grp: "group_ok c (spec, gids, cls)"
    and c: "0 < c_hash_block_size c" "hashes_cover c hashes n" "0 \<le> n" and pool: "pool_ok (c_block_pool c) F"
  shows "\<exists>hl B L. hybrid_block_hashes c hashes spec = Inr hl \<and>
    stm_find_longest_cache_hit cls hl n gids (c_block_pool c) spec False (lcm_block_size c) 1 1 = Inr B \<and>
    found c hashes spec gids L B \<and> int L * spec_block_size spec \<le> n \<and> lcm_block_size c dvd int L * spec_block_size spec"
proof -
  let ?p = "c_block_pool c" and ?b = "spec_block_size spec" and ?l = "lcm_block_size c"
  obtain hl where hl: "hybrid_block_hashes c hashes spec = Inr hl" "0 \<le> n div ?b" "n div ?b \<le> bhl_len hl"
    "lookups_ok ?p hl gids (nat (n div ?b))" "\<forall>L \<le> nat (n div ?b). int L * ?b \<le> n"
    by (rule group_setup[OF grp c pool])
  have g: "\<forall>g \<in> set gids. valid_group g" "?b dvd ?l" "spec_manager_map spec = Inr cls" using grp by (auto simp: group_ok_def)
  let ?all = "\<lambda>L. \<forall>k < L. hit_at ?p hl gids k \<noteq> None"
  define m where "m = longest_hit ?all (nat (n div ?b))"
  define L where "L = longest_hit (aligned_at ?b ?l) m"
  have min: "min (n div ?b) (bhl_len hl) = n div ?b" using hl(3) by simp
  have m: "?all m" "m \<le> nat (n div ?b)" using longest_hit_good[of ?all] longest_hit_le[of ?all] by (simp_all add: m_def)
  have L: "aligned_at ?b ?l L" "L \<le> m" using longest_hit_good[of "aligned_at ?b ?l"] longest_hit_le by (simp_all add: L_def)
  have "full_find_longest_cache_hit hl n gids ?p spec False ?l 1 1 = Inr (window_blocks ?p hl gids L L)"
    using full_find_spec[of ?p hl gids n ?b spec 1 1 False ?l] hl(2,3,4) assms(1) min by (simp add: L_def m_def)
  moreover have "resumable ?p hl gids L L (window_blocks ?p hl gids L L)"
    by (rule window_blocks_resumable[OF pool g(1) hl(4)]) (use L m in auto)
  moreover have "need_of spec L = L" "cls = FullAttentionManager \<or> cls = SinkFullAttentionManager"
    using assms(1) g(3) by (cases spec; simp)+
  moreover have "int L * ?b \<le> n" "?l dvd int L * ?b" using hl(5) L m aligned_dvd[OF _ g(2)] by simp_all
  ultimately show ?thesis using hl(1) unfolding stm_find_longest_cache_hit_def found_def by (metis manager_class.simps(31,36))
qed

lemma group_find_window:
  assumes "\<not> is_full_attention spec" and grp: "group_ok c (spec, gids, cls)"
    and c: "0 < c_hash_block_size c" "hashes_cover c hashes n" "0 \<le> n" and pool: "pool_ok (c_block_pool c) F"
  shows "\<exists>hl B L. hybrid_block_hashes c hashes spec = Inr hl \<and>
    stm_find_longest_cache_hit cls hl n gids (c_block_pool c) spec False (lcm_block_size c) 1 1 = Inr B \<and>
    found c hashes spec gids L B \<and> int L * spec_block_size spec \<le> n \<and> lcm_block_size c dvd int L * spec_block_size spec"
proof -
  let ?p = "c_block_pool c" and ?b = "spec_block_size spec" and ?l = "lcm_block_size c" and ?need = "need_of spec 0"
  obtain hl where hl: "hybrid_block_hashes c hashes spec = Inr hl" "0 \<le> n div ?b" "n div ?b \<le> bhl_len hl"
    "lookups_ok ?p hl gids (nat (n div ?b))" "\<forall>L \<le> nat (n div ?b). int L * ?b \<le> n"
    by (rule group_setup[OF grp c pool])
  have g: "\<forall>g \<in> set gids. valid_group g" "?b dvd ?l" "spec_manager_map spec = Inr cls" "searchable spec"
    using grp by (auto simp: group_ok_def)
  let ?good = "window_hit ?p hl gids ?need ?b ?l"
  define L where "L = longest_hit ?good (nat (n div ?b))"
  have L: "?good L" "L \<le> nat (n div ?b)"
    using longest_hit_good[of ?good] longest_hit_le[of ?good] by (simp_all add: L_def window_hit_def)
  have need: "need_of spec L = ?need" using assms(1) g(4) by (cases spec) auto
  have "found c hashes spec gids L (window_blocks ?p hl gids ?need L)" "int L * ?b \<le> n" "?l dvd int L * ?b"
    using hl(1) hl(5) L(2) window_blocks_resumable[OF pool g(1) hl(4) L(2), of ?need] L(1) aligned_dvd[OF _ g(2)] need
    by (auto simp: found_def window_hit_def)
  moreover have "stm_find_longest_cache_hit cls hl n gids ?p spec False ?l 1 1 = Inr (window_blocks ?p hl gids ?need L)"
    using assms(1) g(3,4) sliding_find_spec[OF _ refl, of ?p hl gids n _ False ?l] mamba_find_spec[of ?p hl gids n ?b _ False ?l] hl(4)
    by (cases spec) (auto simp: stm_find_longest_cache_hit_def L_def)
  ultimately show ?thesis using hl(1) by blast
qed

lemmas group_find = group_find_full group_find_window

section \<open>One round and the loop, without EAGLE\<close>

text \<open>
  The hits recorded for a group, of a length between \<open>lo\<close> and \<open>hi\<close> (full attention is searched
  only once, so only its lower bound is kept).
\<close>

definition group_state ::
  "KVCacheCoordinator \<Rightarrow> bytes list \<Rightarrow> bref list option list \<Rightarrow> int \<Rightarrow> int \<Rightarrow> KVCacheSpec \<times> int list \<times> manager_class \<Rightarrow> bool" where
  "group_state c hashes hits lo hi = (\<lambda>(spec, gids, cls). \<exists>L B. found c hashes spec gids L B \<and>
     map (\<lambda>g. hits ! nat g) gids = map Some B \<and> lo \<le> int L * spec_block_size spec \<and>
     (\<not> is_full_attention spec \<longrightarrow> int L * spec_block_size spec \<le> hi))"

definition group_start ::
  "KVCacheCoordinator \<Rightarrow> bytes list \<Rightarrow> bref list option list \<Rightarrow> int \<Rightarrow> KVCacheSpec \<times> int list \<times> manager_class \<Rightarrow> bool" where
  "group_start c hashes hits n G \<longleftrightarrow> is_full_attention (fst G) \<longrightarrow>
     hits ! nat (hd (fst (snd G))) = None \<or> group_state c hashes hits n n G"

lemma group_state_mono:
  "\<lbrakk>group_state c hashes hits lo hi G; lo' \<le> lo; hi \<le> hi'\<rbrakk> \<Longrightarrow> group_state c hashes hits lo' hi' G"
  by (fastforce simp: group_state_def split: prod.splits)

lemma group_state_full: "is_full_attention (fst G) \<Longrightarrow> group_state c hashes hits lo hi G = group_state c hashes hits lo hi' G"
  by (simp add: group_state_def split_beta)

lemma group_state_cong:
  "\<forall>g \<in> set (fst (snd G)). hits' ! nat g = hits ! nat g \<Longrightarrow> group_state c hashes hits' lo hi G = group_state c hashes hits lo hi G"
  by (simp add: group_state_def split_beta cong: map_cong)

lemma group_start_frame:
  assumes frame: "\<forall>g \<in> set (fst (snd H)). hits' ! nat g = hits ! nat g" and H: "fst (snd H) \<noteq> []"
    and "n' \<le> n" "group_start c hashes hits n H"
  shows "group_start c hashes hits' n' H"
proof -
  have "hits' ! nat (hd (fst (snd H))) = hits ! nat (hd (fst (snd H)))" using frame H by simp
  then show ?thesis using assms(4) group_state_cong[OF frame] group_state_mono[OF _ assms(3), of c hashes hits n H n]
    group_state_full[of H c hashes hits n' n' n] by (auto simp: group_start_def)
qed

lemma fold_hits:
  assumes "distinct gids" "length B = length gids" "\<forall>g \<in> set gids. 0 \<le> g \<and> g < int (length hits)"
  shows "map (\<lambda>g. fold (\<lambda>(g, bs) hs. hs[nat g := Some bs]) (zip gids B) hits ! nat g) gids = map Some B"
    "length (fold (\<lambda>(g, bs) hs. hs[nat g := Some bs]) (zip gids B) hits) = length hits"
    "\<And>i. i \<notin> nat ` set gids \<Longrightarrow> fold (\<lambda>(g, bs) hs. hs[nat g := Some bs]) (zip gids B) hits ! i = hits ! i"
  using assms
proof (induction gids B arbitrary: hits rule: list_induct2')
  case (4 g gids b B)
  {
    case (1 hits)
    let ?h = "hits[nat g := Some b]"
    have pre: "distinct gids" "length B = length gids" "\<forall>g \<in> set gids. 0 \<le> g \<and> g < int (length ?h)" using 1 by auto
    have "nat g \<notin> nat ` set gids" using 1(1,3) by (auto simp: eq_nat_nat_iff)
    then show ?case using "4.IH"(1)[OF pre] "4.IH"(3)[OF _ pre] 1 by (auto simp: nat_less_iff)
  next
    case (2 hits)
    then show ?case using "4.IH"(2)[of "hits[nat g := Some b]"] by simp
  next
    case (3 i hits)
    then show ?case using "4.IH"(3)[of i "hits[nat g := Some b]"] by simp
  }
qed auto

lemma hybrid_group_step:
  assumes hok: "0 < c_hash_block_size c" "group_ok c (spec, gids, cls)" "\<not> c_use_eagle c"
    and n: "hashes_cover c hashes n" "0 \<le> n" and pool: "pool_ok (c_block_pool c) F"
    and hits: "length hits = length (kv_cache_groups (c_kv_cache_config c))" "group_start c hashes hits n (spec, gids, cls)"
  shows "\<exists>n' hits'. hybrid_group c hashes (spec, gids, cls) (n, hits) = Inr (n', hits') \<and> 0 \<le> n' \<and> n' \<le> n \<and>
    spec_block_size spec dvd n' \<and> length hits' = length hits \<and> (\<forall>i. i \<notin> nat ` set gids \<longrightarrow> hits' ! i = hits ! i) \<and>
    group_state c hashes hits' n' n' (spec, gids, cls) \<and> (\<not> is_full_attention spec \<longrightarrow> lcm_block_size c dvd n')"
proof -
  let ?b = "spec_block_size spec"
  have g: "gids \<noteq> []" "distinct gids" "\<forall>g \<in> set gids. 0 \<le> g \<and> g < int (length hits)" "0 < ?b"
    using hok(2) hits(1) by (auto simp: group_ok_def valid_group_def)
  have g0: "py_index gids 0 = Inr (hd gids)" using g(1) py_index_nat[of 0 gids] by (simp add: hd_conv_nth)
  have h0: "py_index hits (hd gids) = Inr (hits ! nat (hd gids))"
    using g(1,3) py_index_nat[of "nat (hd gids)" hits] by (cases gids) auto
  show ?thesis
  proof (cases "is_full_attention spec \<and> hits ! nat (hd gids) \<noteq> None")
    case True
    let ?n = "n div ?b * ?b"
    have st: "group_state c hashes hits n n (spec, gids, cls)" using hits(2) True by (simp add: group_start_def)
    have le: "?n \<le> n" "0 \<le> ?n" using le_div_iff_mult_le[OF g(4), of "n div ?b" n] n(2) g(4) by (simp_all add: pos_imp_zdiv_nonneg_iff)
    have "group_state c hashes hits ?n ?n (spec, gids, cls)"
      using group_state_mono[OF st le(1), of n] group_state_full[of "(spec, gids, cls)" c hashes hits ?n ?n n] True by simp
    then show ?thesis using True g0 h0 le by (simp add: hybrid_group_def)
  next
    case False
    obtain hl B L where f: "hybrid_block_hashes c hashes spec = Inr hl"
      "stm_find_longest_cache_hit cls hl n gids (c_block_pool c) spec False (lcm_block_size c) 1 1 = Inr B"
      "found c hashes spec gids L B" "int L * ?b \<le> n" "lcm_block_size c dvd int L * ?b"
      using group_find[OF _ hok(2,1) n pool] by blast
    let ?hits = "fold (\<lambda>(g, bs) hs. hs[nat g := Some bs]) (zip gids B) hits"
    have B: "length B = length gids" "length (B ! 0) = L" using f(3) g(1) by (auto simp: found_def resumable_def)
    then have "py_index B 0 = Inr (B ! 0)" using g(1) py_index_nat[of 0 B] by (cases B) auto
    note B = B this
    have "hybrid_group c hashes (spec, gids, cls) (n, hits) = Inr (int L * ?b, ?hits)"
      using False g0 h0 f(1,2) B hok(3) by (auto simp: hybrid_group_def)
    moreover have "group_state c hashes ?hits (int L * ?b) (int L * ?b) (spec, gids, cls)"
      using f(3) fold_hits(1)[OF g(2) B(1) g(3)] by (auto simp: group_state_def)
    moreover have "0 \<le> int L * ?b" using g(4) by simp
    ultimately show ?thesis using fold_hits(2,3)[OF g(2) B(1) g(3)] f(4,5) by auto
  qed
qed

lemma hybrid_round:
  assumes c: "0 < c_hash_block_size c" "\<not> c_use_eagle c" "pool_ok (c_block_pool c) F"
    and gs: "groups_ok c gs" and n: "hashes_cover c hashes n" "0 \<le> n"
    and hits: "length hits = length (kv_cache_groups (c_kv_cache_config c))" "\<forall>G \<in> set gs. group_start c hashes hits n G"
  shows "\<exists>n' hits'. mfold (hybrid_group c hashes) gs (n, hits) = Inr (n', hits') \<and> 0 \<le> n' \<and> n' \<le> n \<and>
    length hits' = length hits \<and> (\<forall>i. i \<notin> nat ` set (concat (map (\<lambda>G. fst (snd G)) gs)) \<longrightarrow> hits' ! i = hits ! i) \<and>
    (\<forall>G \<in> set gs. group_state c hashes hits' n' n G \<and> (n' = n \<longrightarrow> spec_block_size (fst G) dvd n)) \<and>
    (gs \<noteq> [] \<and> \<not> is_full_attention (fst (last gs)) \<longrightarrow> group_state c hashes hits' n' n' (last gs) \<and> lcm_block_size c dvd n')"
  using gs n hits
proof (induction gs arbitrary: n hits)
  case (Cons G gs)
  obtain spec gids cls where G: "G = (spec, gids, cls)" by (cases G)
  have Gok: "group_ok c (spec, gids, cls)" and rest: "groups_ok c gs"
    and disj: "set gids \<inter> set (concat (map (\<lambda>G. fst (snd G)) gs)) = {}"
    using Cons.prems(1) G by (auto simp: groups_ok_def)
  have pos: "\<forall>G \<in> set (G # gs). \<forall>g \<in> set (fst (snd G)). 0 \<le> g"
    using Cons.prems(1) by (auto simp: groups_ok_def group_ok_def valid_group_def split: prod.splits)
  have sep: "nat ` set gids \<inter> nat ` set (concat (map (\<lambda>G. fst (snd G)) gs)) = {}"
    using disj pos G by (fastforce simp: eq_nat_nat_iff)
  obtain n1 hits1 where s: "hybrid_group c hashes G (n, hits) = Inr (n1, hits1)" "0 \<le> n1" "n1 \<le> n" "spec_block_size spec dvd n1"
    "length hits1 = length hits" "\<forall>i. i \<notin> nat ` set gids \<longrightarrow> hits1 ! i = hits ! i" "group_state c hashes hits1 n1 n1 G"
    "\<not> is_full_attention spec \<longrightarrow> lcm_block_size c dvd n1"
    using hybrid_group_step[OF c(1) Gok c(2) Cons.prems(2,3) c(3) Cons.prems(4)] Cons.prems(5) G by auto
  have frame: "\<forall>g \<in> set (fst (snd H)). hits1 ! nat g = hits ! nat g" if "H \<in> set gs" for H
    using that s(6) sep by (force simp: disjoint_iff)
  have "group_start c hashes hits1 n1 H" if "H \<in> set gs" for H
    using group_start_frame[OF frame[OF that] _ s(3), of c hashes] rest Cons.prems(5) that
    by (cases H) (force simp: groups_ok_def group_ok_def)
  moreover have "hashes_cover c hashes n1" using Cons.prems(2) s(3) by (simp add: hashes_cover_def)
  ultimately obtain n' hits' where r: "mfold (hybrid_group c hashes) gs (n1, hits1) = Inr (n', hits')" "0 \<le> n'" "n' \<le> n1"
    "length hits' = length hits1" "\<forall>i. i \<notin> nat ` set (concat (map (\<lambda>G. fst (snd G)) gs)) \<longrightarrow> hits' ! i = hits1 ! i"
    "\<forall>G \<in> set gs. group_state c hashes hits' n' n1 G \<and> (n' = n1 \<longrightarrow> spec_block_size (fst G) dvd n1)"
    "gs \<noteq> [] \<and> \<not> is_full_attention (fst (last gs)) \<longrightarrow> group_state c hashes hits' n' n' (last gs) \<and> lcm_block_size c dvd n'"
    using Cons.IH[OF rest, of n1 hits1] s(2,5) Cons.prems(4) by auto
  have "group_state c hashes hits' n1 n1 G"
    using s(7) group_state_cong[of G hits' hits1 c hashes n1 n1] r(5) sep G by (force simp: disjoint_iff)
  then have "group_state c hashes hits' n' n G" "gs = [] \<Longrightarrow> group_state c hashes hits' n' n' G"
    using group_state_mono[of c hashes hits' n1 n1 G n' n] r(1,3) s(3) by auto
  moreover have "gs = [] \<Longrightarrow> n' = n1" using r(1) by simp
  moreover have "\<forall>i. i \<notin> nat ` set (concat (map (\<lambda>G. fst (snd G)) (G # gs))) \<longrightarrow> hits' ! i = hits ! i"
    using s(6) r(5) G by (auto simp: image_Un)
  ultimately show ?case using s(1-5,8) r G group_state_mono[of c hashes hits' n' n1 _ n' n] by (auto split: if_splits)
qed simp

text \<open>At the end: every group resumes at the common length; only full attention may hold more blocks.\<close>

lemma hybrid_loop_sound:
  assumes c: "0 < c_hash_block_size c" "\<not> c_use_eagle c" "pool_ok (c_block_pool c) F"
    and gs: "groups_ok c (attention_groups c)" "\<forall>G \<in> set (tl (attention_groups c)). \<not> is_full_attention (fst G)"
    and n: "hashes_cover c hashes n" "0 \<le> n" and hits: "length hits = length (kv_cache_groups (c_kv_cache_config c))"
      "\<forall>G \<in> set (attention_groups c). group_start c hashes hits n G"
  shows "\<exists>m hits'. hybrid_loop c hashes n hits = Some (Inr (m, hits')) \<and> 0 \<le> m \<and> m \<le> n \<and> length hits' = length hits \<and>
    (\<forall>G \<in> set (attention_groups c). group_state c hashes hits' m m G \<and> spec_block_size (fst G) dvd m)"
  using n hits
proof (induction "nat n" arbitrary: n hits rule: less_induct)
  case less
  let ?gs = "attention_groups c"
  obtain n' hits' where r: "mfold (hybrid_group c hashes) ?gs (n, hits) = Inr (n', hits')" "0 \<le> n'" "n' \<le> n"
    "length hits' = length hits" "\<forall>G \<in> set ?gs. group_state c hashes hits' n' n G \<and> (n' = n \<longrightarrow> spec_block_size (fst G) dvd n)"
    "?gs \<noteq> [] \<and> \<not> is_full_attention (fst (last ?gs)) \<longrightarrow> group_state c hashes hits' n' n' (last ?gs) \<and> lcm_block_size c dvd n'"
    using hybrid_round[OF c gs(1) less.prems] by blast
  consider (stable) "n' = n" | (simple) "n' < n" "is_simple_hybrid c" | (again) "n' < n" "\<not> is_simple_hybrid c" using r(3) by linarith
  then show ?case
  proof cases
    case stable
    then show ?thesis using r by (subst hybrid_loop.simps) auto
  next
    case simple
    then obtain G1 G2 where G: "?gs = [G1, G2]" "is_full_attention (fst G1)"
      by (auto simp: is_simple_hybrid_def split: list.splits)
    then have "\<not> is_full_attention (fst (last ?gs))" using gs(2) by simp
    then have l: "group_state c hashes hits' n' n' G2" "lcm_block_size c dvd n'" using r(6) G by auto
    moreover have "group_state c hashes hits' n' n' G1" using r(5) G group_state_full[of G1 c hashes hits' n' n' n] by simp
    moreover have "spec_block_size (fst G) dvd n'" if "G \<in> set ?gs" for G
      using gs(1) that l(2) by (cases G) (force simp: groups_ok_def group_ok_def intro: dvd_trans)
    ultimately show ?thesis using r simple G by (subst hybrid_loop.simps) auto
  next
    case again
    have "group_start c hashes hits' n' G" if "G \<in> set ?gs" for G
      using r(5) that group_state_full[of G c hashes hits' n' n' n] by (auto simp: group_start_def)
    moreover have "hashes_cover c hashes n'" using less.prems(1) r(3) by (simp add: hashes_cover_def)
    ultimately show ?thesis using less.hyps[of n' hits'] again r less.prems(3) by (subst hybrid_loop.simps) auto
  qed
qed

lemma fold_truncate:
  assumes "distinct gids" "\<forall>g \<in> set gids. 0 \<le> g \<and> g < int (length hits)"
  shows "fold (\<lambda>g hs. hs[nat g := f (hs ! nat g)]) gids hits ! i = (if i \<in> nat ` set gids then f (hits ! i) else hits ! i)"
    "length (fold (\<lambda>g hs. hs[nat g := f (hs ! nat g)]) gids hits) = length hits"
  using assms
proof (induction gids arbitrary: hits)
  case (Cons g gids)
  {
    case (1 hits)
    have "nat g \<notin> nat ` set gids" "nat g < length hits" using 1 by (auto simp: eq_nat_nat_iff)
    then show ?case using Cons.IH(1)[of "hits[nat g := f (hits ! nat g)]"] 1 by (cases "i = nat g") auto
  next
    case (2 hits)
    then show ?case using Cons.IH(2)[of "hits[nat g := f (hits ! nat g)]"] by simp
  }
qed simp_all

text \<open>A group's lists in the returned tuple, and what is guaranteed of them.\<close>

definition group_resumes ::
  "KVCacheCoordinator \<Rightarrow> bytes list \<Rightarrow> bref list list \<Rightarrow> int \<Rightarrow> KVCacheSpec \<times> int list \<times> manager_class \<Rightarrow> bool" where
  "group_resumes c hashes blocks m = (\<lambda>(spec, gids, cls). spec_block_size spec dvd m \<and>
     found c hashes spec gids (nat (m div spec_block_size spec)) (map (\<lambda>g. blocks ! nat g) gids))"

lemma found_take:
  assumes "found c hashes spec gids L B" "is_full_attention spec" "k \<le> L"
  shows "found c hashes spec gids k (map (take k) B)"
proof -
  have "need_of spec n = n" for n using assms(2) by (cases spec) auto
  then show ?thesis using assms resumable_take[of _ _ gids L B k] by (auto simp: found_def)
qed

lemma group_state_resumes:
  assumes st: "group_state c hashes hits m m (spec, gids, cls)" and ok: "group_ok c (spec, gids, cls)"
    and m: "spec_block_size spec dvd m" "0 \<le> m" and len: "length blocks = length hits" "\<forall>g \<in> set gids. g < int (length hits)"
    and blocks: "\<forall>g \<in> set gids. blocks ! nat g = (case hits ! nat g of None \<Rightarrow> [] | Some bs \<Rightarrow>
      if is_full_attention spec then take (nat (m div spec_block_size spec)) bs else bs)"
  shows "group_resumes c hashes blocks m (spec, gids, cls)"
proof -
  let ?b = "spec_block_size spec" and ?k = "nat (m div spec_block_size spec)"
  obtain L B where LB: "found c hashes spec gids L B" "map (\<lambda>g. hits ! nat g) gids = map Some B" "m \<le> int L * ?b"
    "\<not> is_full_attention spec \<longrightarrow> int L * ?b \<le> m" using st by (auto simp: group_state_def)
  have b: "0 < ?b" using ok by (simp add: group_ok_def)
  have k: "int ?k * ?b = m" using m b by (simp add: pos_imp_zdiv_nonneg_iff)
  have kL: "?k \<le> L" "\<not> is_full_attention spec \<Longrightarrow> L = ?k" using LB(3,4) k b by (smt (verit) mult_le_cancel_right of_nat_le_iff of_nat_eq_iff)+
  have nth: "hits ! nat (gids ! j) = Some (B ! j)" if "j < length gids" for j
    using that arg_cong[OF LB(2), of "\<lambda>xs. xs ! j"] arg_cong[OF LB(2), of length] by simp
  have "map (\<lambda>g. blocks ! nat g) gids = (if is_full_attention spec then map (take ?k) B else B)"
    using nth blocks arg_cong[OF LB(2), of length] by (intro nth_equalityI) auto
  then show ?thesis using LB(1) kL found_take[OF LB(1) _ kL(1)] m(1) by (auto simp: group_resumes_def)
qed

lemma truncate_nth:
  assumes gs: "groups_ok c (attention_groups c)" and hits: "length hits = length (kv_cache_groups (c_kv_cache_config c))" "0 \<le> m"
    and tl: "\<forall>G \<in> set (tl (attention_groups c)). \<not> is_full_attention (fst G)" and G: "(spec, gids, cls) \<in> set (attention_groups c)"
  shows "length (hybrid_truncate c m hits) = length hits \<and> (\<forall>g \<in> set gids. hybrid_truncate c m hits ! nat g =
    (if is_full_attention spec then map_option (take (nat (m div spec_block_size spec))) (hits ! nat g) else hits ! nat g))"
proof -
  obtain s0 g0 c0 rest where G0: "attention_groups c = (s0, g0, c0) # rest" using G by (cases "attention_groups c") auto
  have g0: "distinct g0" "\<forall>g \<in> set g0. 0 \<le> g \<and> g < int (length hits)" "0 < spec_block_size s0"
    using gs G0 hits(1) by (auto simp: groups_ok_def group_ok_def valid_group_def)
  have take: "(py_take (m div spec_block_size s0) :: bref list \<Rightarrow> bref list) = take (nat (m div spec_block_size s0))"
    using hits(2) g0(3) by (intro ext) (simp add: py_take_def slice_pos_def pos_imp_zdiv_neg_iff not_less[symmetric])
  have other: "nat g \<notin> nat ` set g0" if "(spec, gids, cls) \<in> set rest" "g \<in> set gids" for g
  proof -
    have "set g0 \<inter> set (concat (map (\<lambda>G. fst (snd G)) rest)) = {}" using gs G0 by (auto simp: groups_ok_def)
    moreover have "g \<in> set (concat (map (\<lambda>G. fst (snd G)) rest))" using that by force
    moreover have "group_ok c (spec, gids, cls)" using gs G by (simp add: groups_ok_def)
    then have "0 \<le> g" using that(2) by (simp add: group_ok_def valid_group_def)
    ultimately have "0 \<le> g" "g \<notin> set g0" by blast+
    then show ?thesis using g0(2) by (auto simp: eq_nat_nat_iff)
  qed
  show ?thesis
  proof (cases "(spec, gids, cls) = (s0, g0, c0)")
    case True
    then show ?thesis using G0 fold_truncate[OF g0(1,2)] take by (simp add: hybrid_truncate_def)
  next
    case False
    then have "(spec, gids, cls) \<in> set rest" using G G0 by auto
    moreover from this have "\<not> is_full_attention spec" using tl G0 by auto
    ultimately show ?thesis using G0 fold_truncate[OF g0(1,2)] other by (auto simp: hybrid_truncate_def)
  qed
qed

lemma hybrid_find_sound:
  assumes c: "0 < c_hash_block_size c" "\<not> c_use_eagle c" "pool_ok (c_block_pool c) F"
    and gs: "groups_ok c (attention_groups c)" "\<forall>G \<in> set (tl (attention_groups c)). \<not> is_full_attention (fst G)"
    and n: "hashes_cover c hashes n" "0 \<le> n"
  shows "\<exists>blocks m. hybrid_find_longest_cache_hit c hashes n = Some (Inr (blocks, m)) \<and> 0 \<le> m \<and> m \<le> n \<and>
    (\<forall>G \<in> set (attention_groups c). group_resumes c hashes blocks m G)"
proof -
  let ?gs = "attention_groups c" and ?N = "length (kv_cache_groups (c_kv_cache_config c))"
  have ids: "\<forall>g \<in> set gids. 0 \<le> g \<and> g < int ?N" "distinct gids" "gids \<noteq> []" if "(spec, gids, cls) \<in> set ?gs" for spec gids cls
    using gs(1) that by (force simp: groups_ok_def group_ok_def valid_group_def)+
  have "group_start c hashes (replicate ?N None) n G" if "G \<in> set ?gs" for G
  proof -
    obtain spec gids cls where G: "G = (spec, gids, cls)" by (cases G)
    then have "hd gids \<in> set gids" using ids(3) that by simp
    then have "0 \<le> hd gids \<and> hd gids < int ?N" using ids(1) that G by blast
    then show ?thesis using G by (auto simp: group_start_def nat_less_iff)
  qed
  then obtain m hits where r: "hybrid_loop c hashes n (replicate ?N None) = Some (Inr (m, hits))" "0 \<le> m" "m \<le> n" "length hits = ?N"
    "\<forall>G \<in> set ?gs. group_state c hashes hits m m G \<and> spec_block_size (fst G) dvd m"
    using hybrid_loop_sound[OF c gs n] by (metis length_replicate)
  let ?t = "hybrid_truncate c m hits"
  define blocks where "blocks = map (\<lambda>b. case b of None \<Rightarrow> [] | Some bs \<Rightarrow> bs) ?t"
  have t: "length ?t = ?N \<and> (\<forall>g \<in> set gids. ?t ! nat g =
      (if is_full_attention spec then map_option (take (nat (m div spec_block_size spec))) (hits ! nat g) else hits ! nat g))"
    if G: "(spec, gids, cls) \<in> set ?gs" for spec gids cls
    using truncate_nth[OF gs(1) r(4,2) gs(2) G] r(4) by simp
  have "group_resumes c hashes blocks m (spec, gids, cls)" if G: "(spec, gids, cls) \<in> set ?gs" for spec gids cls
  proof (rule group_state_resumes)
    show "group_state c hashes hits m m (spec, gids, cls)" "spec_block_size spec dvd m" using r(5) G by force+
    show "group_ok c (spec, gids, cls)" using gs(1) G by (simp add: groups_ok_def)
    show "length blocks = length hits" "\<forall>g \<in> set gids. g < int (length hits)" using t[OF G] ids[OF G] r(4) by (simp_all add: blocks_def)
    show "\<forall>g \<in> set gids. blocks ! nat g = (case hits ! nat g of None \<Rightarrow> [] | Some bs \<Rightarrow>
      if is_full_attention spec then take (nat (m div spec_block_size spec)) bs else bs)"
      using t[OF G] ids[OF G] by (auto simp: blocks_def nat_less_iff split: option.splits)
  qed (rule r(2))
  then show ?thesis using r(1-3) by (auto simp: hybrid_find_longest_cache_hit_def blocks_def)
qed

section \<open>Rounds with EAGLE\<close>

text \<open>No search returns more than it was asked for, and a sliding window with EAGLE always less.\<close>

lemma full_find_window:
  assumes "lookups_ok p hl gids (nat (n div b))" "is_full_attention spec" "b = spec_block_size spec" "0 \<le> n div b" "n div b \<le> bhl_len hl"
    "full_find_longest_cache_hit hl n gids p spec e l 1 1 = Inr B"
  shows "\<exists>L. B = window_blocks p hl gids L L \<and> L \<le> nat (n div b)"
proof -
  define m where "m = longest_hit (\<lambda>L. \<forall>k < L. hit_at p hl gids k \<noteq> None) (nat (n div b))"
  define L where "L = longest_hit (aligned_at b l) (if e then m - 1 else m)"
  have "min (n div b) (bhl_len hl) = n div b" using assms(5) by simp
  then have "B = window_blocks p hl gids L L"
    using full_find_spec[of p hl gids n b spec 1 1 e l] assms by (simp add: L_def m_def)
  moreover have "m \<le> nat (n div b)" "L \<le> (if e then m - 1 else m)" by (simp_all only: m_def L_def longest_hit_le)
  ultimately show ?thesis by (auto split: if_splits)
qed

lemma sliding_find_window:
  assumes "lookups_ok p hl gids (nat (n div b))" "b = a_block_size a"
    "sliding_find_longest_cache_hit hl n gids p (SlidingWindowSpec a w) e l 1 1 = Inr B"
  shows "\<exists>need L. B = window_blocks p hl gids need L \<and> L \<le> nat (n div b) \<and> (e \<longrightarrow> L = 0 \<or> L < nat (n div b))"
proof -
  define need where "need = window_need w b e"
  define L where "L = longest_hit (window_hit p hl gids need b l) (nat (n div b))"
  have pos: "0 < need" by (simp add: need_def window_need_def less_max_iff_disj)
  have "B = (if e then map butlast (window_blocks p hl gids need L) else window_blocks p hl gids need L)"
    using sliding_find_cases[OF assms(1,2), of w e l] assms(3) by (auto simp: L_def need_def split: if_splits)
  then have "B = window_blocks p hl gids (if e then need - 1 else need) (if e then L - 1 else L)"
    using window_blocks_butlast[OF pos] by simp
  moreover have "L \<le> nat (n div b)" by (simp add: L_def longest_hit_le)
  ultimately show ?thesis 
    by (intro exI[of _ "if e then need - 1 else need"] exI[of _ "if e then L - 1 else L"]) (auto split: if_splits)
qed

lemma group_search_le:
  assumes ok: "group_ok c (spec, gids, cls)" and n: "0 < c_hash_block_size c" "hashes_cover c hashes n" "0 \<le> n"
    and pool: "pool_ok (c_block_pool c) F" and hl: "hybrid_block_hashes c hashes spec = Inr hl"
    and run: "stm_find_longest_cache_hit cls hl n gids (c_block_pool c) spec e (lcm_block_size c) 1 1 = Inr B"
  shows "\<exists>L. py_index B 0 = Inr (B ! 0) \<and> length (B ! 0) = L \<and> int L * spec_block_size spec \<le> n \<and>
    (e \<and> (\<exists>a w. spec = SlidingWindowSpec a w) \<and> 0 < n \<longrightarrow> int L * spec_block_size spec < n)"
proof -
  let ?b = "spec_block_size spec" and ?p = "c_block_pool c" and ?l = "lcm_block_size c"
  have N: "0 \<le> n div ?b" "n div ?b \<le> bhl_len hl" "lookups_ok ?p hl gids (nat (n div ?b))" "\<forall>L \<le> nat (n div ?b). int L * ?b \<le> n"
    using group_setup[OF ok n pool] hl by (metis sum.inject(2))+
  have g: "0 < ?b" "searchable spec" "spec_manager_map spec = Inr cls" "gids \<noteq> []" using ok by (auto simp: group_ok_def)
  have ix: "py_index (window_blocks ?p hl gids need L) 0 = Inr (window_blocks ?p hl gids need L ! 0)"
    "length (window_blocks ?p hl gids need L ! 0) = L" for need L
    using window_blocks_hd[OF g(4), of ?p hl need L] py_index_nat[of 0 "window_blocks ?p hl gids need L"] by auto
  have "\<exists>need L. B = window_blocks ?p hl gids need L \<and> L \<le> nat (n div ?b) \<and>
    (e \<and> (\<exists>a w. spec = SlidingWindowSpec a w) \<longrightarrow> L = 0 \<or> L < nat (n div ?b))"
  proof (cases "is_full_attention spec")
    case True
    then have "full_find_longest_cache_hit hl n gids ?p spec e ?l 1 1 = Inr B"
      using run g(3) by (cases spec) (auto simp: stm_find_longest_cache_hit_def)
    then obtain L where "B = window_blocks ?p hl gids L L" "L \<le> nat (n div ?b)"
      using full_find_window[OF N(3) True refl N(1,2)] by blast
    moreover have "\<not> (\<exists>a w. spec = SlidingWindowSpec a w)" using True by auto
    ultimately show ?thesis by blast
  next
    case False
    then consider (sliding) a w where "spec = SlidingWindowSpec a w" | (mamba) ms where "spec = MambaSpec ms"
      using g(2) by (cases spec) auto
    then show ?thesis
    proof cases
      case sliding
      then show ?thesis using sliding_find_window[OF N(3), of a w e ?l B] run g(3)
        by (auto simp: stm_find_longest_cache_hit_def)
    next
      case mamba
      then show ?thesis using run g(3) mamba_find_spec[OF N(3), of ms e ?l] longest_hit_le
        by (auto simp: stm_find_longest_cache_hit_def)
    qed
  qed
  then obtain need L where L: "B = window_blocks ?p hl gids need L" "L \<le> nat (n div ?b)"
    "e \<and> (\<exists>a w. spec = SlidingWindowSpec a w) \<longrightarrow> L = 0 \<or> L < nat (n div ?b)" by blast
  then have "Suc L \<le> nat (n div ?b) \<Longrightarrow> int L * ?b < n" using N(4)[rule_format, of "Suc L"] g(1) by (simp add: algebra_simps)
  then show ?thesis using L ix N(4) by auto
qed

lemma hybrid_group_le:
  assumes ok: "group_ok c (spec, gids, cls)" and n: "0 < c_hash_block_size c" "hashes_cover c hashes n" "0 \<le> n"
    and pool: "pool_ok (c_block_pool c) F" and run: "hybrid_group c hashes (spec, gids, cls) (n, hits) = Inr (n', hits')"
  shows "0 \<le> n'" "n' \<le> n" "\<lbrakk>c_use_eagle c; spec = SlidingWindowSpec a w; 0 < n\<rbrakk> \<Longrightarrow> n' < n"
proof -
  let ?b = "spec_block_size spec"
  have b: "0 < ?b" using ok by (simp add: group_ok_def)
  have le: "n div ?b * ?b \<le> n" using le_div_iff_mult_le[OF b, of "n div ?b" n] by simp
  have "0 \<le> n' \<and> n' \<le> n \<and> (c_use_eagle c \<and> (\<exists>a w. spec = SlidingWindowSpec a w) \<and> 0 < n \<longrightarrow> n' < n)"
    using run b le n(3) group_search_le[OF ok n pool]
    by (fastforce simp: hybrid_group_def rbind_Inr_iff pos_imp_zdiv_nonneg_iff split: if_splits)
  then show "0 \<le> n'" "n' \<le> n" "\<lbrakk>c_use_eagle c; spec = SlidingWindowSpec a w; 0 < n\<rbrakk> \<Longrightarrow> n' < n" by blast+
qed

lemma hybrid_round_le:
  assumes c: "0 < c_hash_block_size c" "pool_ok (c_block_pool c) F" and gs: "\<forall>G \<in> set gs. group_ok c G"
    and n: "hashes_cover c hashes n" "0 \<le> n" and run: "mfold (hybrid_group c hashes) gs (n, hits) = Inr (n', hits')"
  shows "0 \<le> n' \<and> n' \<le> n \<and> (c_use_eagle c \<and> (\<exists>a w. SlidingWindowSpec a w \<in> fst ` set gs) \<and> 0 < n \<longrightarrow> n' < n)"
  using gs n run
proof (induction gs arbitrary: n hits)
  case (Cons G gs)
  obtain n1 hits1 where 1: "hybrid_group c hashes G (n, hits) = Inr (n1, hits1)"
    "mfold (hybrid_group c hashes) gs (n1, hits1) = Inr (n', hits')" using Cons.prems(4) by (auto split: sum.splits)
  obtain spec gids cls where G: "G = (spec, gids, cls)" by (cases G)
  have ok: "group_ok c (spec, gids, cls)" using Cons.prems(1) G by simp
  note step = hybrid_group_le[OF ok c(1) Cons.prems(2,3) c(2) 1(1)[unfolded G]]
  have "hashes_cover c hashes n1" using Cons.prems(2) step(2) by (simp add: hashes_cover_def)
  then have IH: "0 \<le> n' \<and> n' \<le> n1 \<and> (c_use_eagle c \<and> (\<exists>a w. SlidingWindowSpec a w \<in> fst ` set gs) \<and> 0 < n1 \<longrightarrow> n' < n1)"
    using Cons.IH[OF _ _ step(1) 1(2)] Cons.prems(1) by simp
  show ?case
  proof (cases "n1 < n")
    case True
    then show ?thesis using IH by auto
  next
    case False
    then have "n1 = n" using step(2) by simp
    then show ?thesis using IH step(3) G by auto
  qed
qed simp

text \<open>So only an empty hit can be stable.\<close>

lemma eagle_loop_zero:
  assumes c: "0 < c_hash_block_size c" "pool_ok (c_block_pool c) F" "c_use_eagle c" "\<not> is_simple_hybrid c"
    and gs: "\<forall>G \<in> set (attention_groups c). group_ok c G" "SlidingWindowSpec a w \<in> fst ` set (attention_groups c)"
    and n: "hashes_cover c hashes n" "0 \<le> n" and run: "hybrid_loop c hashes n hits = Some (Inr (m, hits'))"
  shows "m = 0"
  using n run
proof (induction "nat n" arbitrary: n hits rule: less_induct)
  case less
  obtain n1 hits1 where 1: "mfold (hybrid_group c hashes) (attention_groups c) (n, hits) = Inr (n1, hits1)"
    using less.prems(3) by (subst (asm) hybrid_loop.simps) (auto split: sum.splits)
  have le: "0 \<le> n1" "n1 \<le> n" "0 < n \<Longrightarrow> n1 < n" using hybrid_round_le[OF c(1,2) gs(1) less.prems(1,2) 1] c(3) gs(2) by auto
  show ?case
  proof (cases "n1 < n")
    case True
    then have "hybrid_loop c hashes n1 hits1 = Some (Inr (m, hits'))"
      using less.prems(3) 1 c(4) by (subst (asm) hybrid_loop.simps) simp
    moreover have "hashes_cover c hashes n1" using less.prems(1) le(2) by (simp add: hashes_cover_def)
    ultimately show ?thesis using less.hyps[of n1 hits1] True le by simp
  next
    case False
    then have "n = 0" using le(3) less.prems(2) by linarith
    moreover have "m = n" using False less.prems(3) 1 by (auto simp: hybrid_loop.simps)
    ultimately show ?thesis by simp
  qed
qed

section \<open>No longer hit, without EAGLE\<close>

text \<open>The attention of a group could resume at length \<open>m\<close>: the blocks that it needs before \<open>m\<close> are cached.\<close>

definition can_resume :: "KVCacheCoordinator \<Rightarrow> bytes list \<Rightarrow> int \<Rightarrow> KVCacheSpec \<times> int list \<times> manager_class \<Rightarrow> bool" where
  "can_resume c hashes m = (\<lambda>(spec, gids, cls). spec_block_size spec dvd m \<and>
     (\<exists>hl. hybrid_block_hashes c hashes spec = Inr hl \<and>
       (let L = nat (m div spec_block_size spec) in \<forall>k \<in> {L - need_of spec L..<L}. hit_at (c_block_pool c) hl gids k \<noteq> None)))"

lemma longest_hit_ge: "\<lbrakk>good k; k \<le> n\<rbrakk> \<Longrightarrow> k \<le> longest_hit good n"
  using longest_hit_max not_le_imp_less by blast

lemma group_search_max:
  assumes ok: "group_ok c (spec, gids, cls)" and n: "0 < c_hash_block_size c" "hashes_cover c hashes n" "0 \<le> n"
    and pool: "pool_ok (c_block_pool c) F" and hl: "hybrid_block_hashes c hashes spec = Inr hl"
    and run: "stm_find_longest_cache_hit cls hl n gids (c_block_pool c) spec False (lcm_block_size c) 1 1 = Inr B"
    and m: "can_resume c hashes m (spec, gids, cls)" "lcm_block_size c dvd m" "0 \<le> m" "m \<le> n"
  shows "m \<le> int (length (B ! 0)) * spec_block_size spec"
proof -
  let ?b = "spec_block_size spec" and ?p = "c_block_pool c" and ?l = "lcm_block_size c"
  define k where "k = nat (m div ?b)"
  have N: "0 \<le> n div ?b" "n div ?b \<le> bhl_len hl" "lookups_ok ?p hl gids (nat (n div ?b))"
    using group_setup[OF ok n pool] hl by (metis sum.inject(2))+
  have g: "0 < ?b" "searchable spec" "spec_manager_map spec = Inr cls" "gids \<noteq> []" using ok by (auto simp: group_ok_def)
  have k: "int k * ?b = m" "k \<le> nat (n div ?b)" "\<forall>j \<in> {k - need_of spec k..<k}. hit_at ?p hl gids j \<noteq> None"
    using m hl g(1) zdiv_mono1[OF m(4) g(1)] by (auto simp: can_resume_def k_def Let_def pos_imp_zdiv_nonneg_iff)
  have al: "aligned_at ?b ?l k" using k(1) m(2) by (simp add: aligned_at_def dvd_eq_mod_eq_0)
  have len: "length (window_blocks ?p hl gids need L ! 0) = L" for need L using window_blocks_hd[OF g(4), of ?p hl need L] by auto
  have "\<exists>need L. B = window_blocks ?p hl gids need L \<and> k \<le> L"
  proof (cases "is_full_attention spec")
    case True
    let ?all = "\<lambda>L. \<forall>k < L. hit_at ?p hl gids k \<noteq> None"
    have "full_find_longest_cache_hit hl n gids ?p spec False ?l 1 1 = Inr B"
      using run g(3) True by (cases spec) (auto simp: stm_find_longest_cache_hit_def)
    moreover have "min (n div ?b) (bhl_len hl) = n div ?b" using N(2) by simp
    ultimately have "B = window_blocks ?p hl gids (longest_hit (aligned_at ?b ?l) (longest_hit ?all (nat (n div ?b))))
        (longest_hit (aligned_at ?b ?l) (longest_hit ?all (nat (n div ?b))))"
      using full_find_spec[of ?p hl gids n ?b spec 1 1 False ?l] N True by simp
    moreover have "need_of spec k = k" using True by (cases spec) auto
    then have "?all k" using k(3) by simp
    then have "k \<le> longest_hit (aligned_at ?b ?l) (longest_hit ?all (nat (n div ?b)))"
      using k(2) al by (intro longest_hit_ge) auto
    ultimately show ?thesis by blast
  next
    case False
    let ?good = "window_hit ?p hl gids (need_of spec 0) ?b ?l"
    have "B = window_blocks ?p hl gids (need_of spec 0) (longest_hit ?good (nat (n div ?b)))"
      using run False g(2,3) sliding_find_spec[OF _ refl, of ?p hl gids n _ False ?l] mamba_find_spec[of ?p hl gids n ?b _ False ?l] N(3)
      by (cases spec) (auto simp: stm_find_longest_cache_hit_def)
    moreover have "need_of spec k = need_of spec 0" using False g(2) by (cases spec) auto
    then have "?good k" using k(3) al by (simp add: window_hit_def)
    ultimately show ?thesis using longest_hit_ge[of ?good, OF _ k(2)] by blast
  qed
  then show ?thesis using len k(1) g(1) by (auto simp flip: k(1))
qed

lemma hybrid_group_max:
  assumes c: "0 < c_hash_block_size c" "\<not> c_use_eagle c" "pool_ok (c_block_pool c) F" and ok: "group_ok c (spec, gids, cls)"
    and n: "hashes_cover c hashes n" "0 \<le> n" and run: "hybrid_group c hashes (spec, gids, cls) (n, hits) = Inr (n', hits')"
    and m: "can_resume c hashes m (spec, gids, cls)" "lcm_block_size c dvd m" "0 \<le> m" "m \<le> n"
  shows "m \<le> n'"
proof -
  have b: "0 < spec_block_size spec" using ok by (simp add: group_ok_def)
  have "m div spec_block_size spec * spec_block_size spec \<le> n div spec_block_size spec * spec_block_size spec"
    using zdiv_mono1[OF m(4) b] b by simp
  moreover have "m div spec_block_size spec * spec_block_size spec = m" using m(1) by (simp add: can_resume_def)
  ultimately show ?thesis using run c(2) group_search_max[OF ok c(1) n c(3) _ _ m] group_search_le[OF ok c(1) n c(3)]
    by (fastforce simp: hybrid_group_def rbind_Inr_iff split: if_splits)
qed

lemma hybrid_round_max:
  assumes c: "0 < c_hash_block_size c" "\<not> c_use_eagle c" "pool_ok (c_block_pool c) F" and gs: "\<forall>G \<in> set gs. group_ok c G"
    and n: "hashes_cover c hashes n" "0 \<le> n" and run: "mfold (hybrid_group c hashes) gs (n, hits) = Inr (n', hits')"
    and m: "\<forall>G \<in> set gs. can_resume c hashes m G" "lcm_block_size c dvd m" "0 \<le> m" "m \<le> n"
  shows "m \<le> n'"
  using gs n run m(1,4)
proof (induction gs arbitrary: n hits)
  case (Cons G gs)
  obtain n1 hits1 where 1: "hybrid_group c hashes G (n, hits) = Inr (n1, hits1)"
    "mfold (hybrid_group c hashes) gs (n1, hits1) = Inr (n', hits')" using Cons.prems(4) by (auto split: sum.splits)
  obtain spec gids cls where G: "G = (spec, gids, cls)" by (cases G)
  have ok: "group_ok c (spec, gids, cls)" using Cons.prems(1) G by simp
  note le = hybrid_group_le(1,2)[OF ok c(1) Cons.prems(2,3) c(3) 1(1)[unfolded G]]
  have "m \<le> n1" by (rule hybrid_group_max[OF c ok Cons.prems(2,3) 1(1)[unfolded G] _ m(2,3) Cons.prems(6)]) (use Cons.prems(5) G in simp)
  moreover have "hashes_cover c hashes n1" using Cons.prems(2) le(2) by (simp add: hashes_cover_def)
  ultimately show ?case using Cons.IH[OF _ _ le(1) 1(2)] Cons.prems(1,5) by simp
qed simp

lemma hybrid_loop_max:
  assumes c: "0 < c_hash_block_size c" "\<not> c_use_eagle c" "pool_ok (c_block_pool c) F" and gs: "\<forall>G \<in> set (attention_groups c). group_ok c G"
    and m: "\<forall>G \<in> set (attention_groups c). can_resume c hashes m G" "lcm_block_size c dvd m" "0 \<le> m"
    and n: "hashes_cover c hashes n" "0 \<le> n" "m \<le> n" and run: "hybrid_loop c hashes n hits = Some (Inr (r, hits'))"
  shows "m \<le> r"
  using n run
proof (induction "nat n" arbitrary: n hits rule: less_induct)
  case less
  obtain n1 hits1 where 1: "mfold (hybrid_group c hashes) (attention_groups c) (n, hits) = Inr (n1, hits1)"
    using less.prems(4) by (subst (asm) hybrid_loop.simps) (auto split: sum.splits)
  have le: "0 \<le> n1" "n1 \<le> n" using hybrid_round_le[OF c(1,3) gs less.prems(1,2) 1] by auto
  have m1: "m \<le> n1" by (rule hybrid_round_max[OF c gs less.prems(1,2) 1 m less.prems(3)])
  show ?case
  proof (cases "n1 < n \<and> \<not> is_simple_hybrid c")
    case True
    then have "hybrid_loop c hashes n1 hits1 = Some (Inr (r, hits'))"
      using less.prems(4) 1 by (subst (asm) hybrid_loop.simps) simp
    moreover have "hashes_cover c hashes n1" using less.prems(1) le(2) by (simp add: hashes_cover_def)
    ultimately show ?thesis using less.hyps[of n1 hits1] True le m1 by simp
  next
    case False
    then have "r = n \<or> r = n1" using less.prems(4) 1 by (subst (asm) hybrid_loop.simps) (auto split: if_splits)
    then show ?thesis using m1 less.prems(3) by auto
  qed
qed

section \<open>The constructor splits the groups correctly\<close>

text \<open>Attention groups over the KV-cache groups with index below \<open>k\<close>, all with a format of \<open>S\<close>.\<close>

definition split_ok :: "KVCacheSpec set \<Rightarrow> int \<Rightarrow> (KVCacheSpec \<times> int list \<times> manager_class) list \<Rightarrow> bool" where
  "split_ok S k gs \<longleftrightarrow> distinct (concat (map (\<lambda>G. fst (snd G)) gs)) \<and>
     (\<forall>(s, is, cls) \<in> set gs. is \<noteq> [] \<and> s \<in> S \<and> spec_manager_map s = Inr cls \<and> (\<forall>j \<in> set is. 0 \<le> j \<and> j < k))"

lemma split_ok_mono: "split_ok S k gs \<Longrightarrow> k \<le> k' \<Longrightarrow> split_ok S k' gs"
  by (fastforce simp: split_ok_def)

lemma split_ok_Cons:
  "split_ok S k ((s, is, cls) # gs) \<longleftrightarrow> split_ok S k gs \<and> distinct is \<and> is \<noteq> [] \<and> s \<in> S \<and> spec_manager_map s = Inr cls \<and>
     (\<forall>j \<in> set is. 0 \<le> j \<and> j < k) \<and> set is \<inter> set (concat (map (\<lambda>G. fst (snd G)) gs)) = {}"
  unfolding split_ok_def by auto

lemma split_ok_ids: "split_ok S k gs \<Longrightarrow> j \<in> set (concat (map (\<lambda>G. fst (snd G)) gs)) \<Longrightarrow> j < k"
  by (fastforce simp: split_ok_def)

lemma add_attention_group_spec:
  assumes "add_attention_group spec i cls gs = Inr gs'" "spec \<in> S" "spec_manager_map spec = Inr cls" "split_ok S i gs" "0 \<le> i"
  shows "split_ok S (i + 1) gs' \<and>
    set (concat (map (\<lambda>G. fst (snd G)) gs')) = insert i (set (concat (map (\<lambda>G. fst (snd G)) gs)))"
  using assms
proof (induction spec i cls gs arbitrary: gs' rule: add_attention_group.induct)
  case (1 spec i cls)
  then show ?case by (auto simp: split_ok_def)
next
  case (2 spec i cls s "is" cl gs)
  have gs: "split_ok S i gs" "i \<notin> set is" "i \<notin> set (concat (map (\<lambda>G. fst (snd G)) gs))" "split_ok S (i + 1) ((s, is, cl) # gs)"
    using "2.prems"(4) split_ok_ids[of S i gs i] split_ok_mono[of S i "(s, is, cl) # gs" "i + 1"] by (auto simp: split_ok_Cons)
  show ?case
  proof (cases "s = spec")
    case True
    then have "gs' = (s, is @ [i], cl) # gs" using "2.prems"(1) by simp
    then show ?thesis using gs "2.prems"(5) by (auto simp: split_ok_Cons)
  next
    case False
    then obtain gs1 where g1: "add_attention_group spec i cls gs = Inr gs1" "gs' = (s, is, cl) # gs1"
      using "2.prems"(1) by (auto simp: rbind_Inr_iff)
    have "split_ok S (i + 1) gs1 \<and> set (concat (map (\<lambda>G. fst (snd G)) gs1)) = insert i (set (concat (map (\<lambda>G. fst (snd G)) gs)))"
      using "2.IH"[OF False g1(1)] "2.prems" gs(1) by simp
    then show ?thesis using g1(2) gs(2,4) by (simp add: split_ok_Cons Int_insert_right)
  qed
qed

lemma split_groups_spec:
  assumes "mfold (\<lambda>(i, g) groups. rbind (py_index ms i) (\<lambda>m. add_attention_group (g_kv_cache_spec g) i (mgr_class m) groups))
      (zip [k..k + int (length gs) - 1] gs) acc = Inr acc'"
    "split_ok S k acc" "0 \<le> k" "\<forall>g \<in> set gs. g_kv_cache_spec g \<in> S"
    "\<forall>j < length gs. \<exists>m. py_index ms (k + int j) = Inr m \<and> spec_manager_map (g_kv_cache_spec (gs ! j)) = Inr (mgr_class m)"
  shows "split_ok S (k + int (length gs)) acc'"
  using assms
proof (induction gs arbitrary: k acc)
  case (Cons g gs)
  have up: "[k..k + int (length (g # gs)) - 1] = k # [k + 1..(k + 1) + int (length gs) - 1]" by (simp add: upto_Cons)
  obtain m where m: "py_index ms k = Inr m" "spec_manager_map (g_kv_cache_spec g) = Inr (mgr_class m)"
    using Cons.prems(5)[rule_format, of 0] by auto
  obtain acc1 where a: "add_attention_group (g_kv_cache_spec g) k (mgr_class m) acc = Inr acc1"
    "mfold (\<lambda>(i, g) groups. rbind (py_index ms i) (\<lambda>m. add_attention_group (g_kv_cache_spec g) i (mgr_class m) groups))
      (zip [k + 1..(k + 1) + int (length gs) - 1] gs) acc1 = Inr acc'"
    using Cons.prems(1) m(1) unfolding up by (auto split: sum.splits)
  have "split_ok S (k + 1) acc1" using add_attention_group_spec[OF a(1) _ m(2) Cons.prems(2,3)] Cons.prems(4) by simp
  moreover have "\<exists>m. py_index ms (k + 1 + int j) = Inr m \<and> spec_manager_map (g_kv_cache_spec (gs ! j)) = Inr (mgr_class m)"
    if "j < length gs" for j using Cons.prems(5)[rule_format, of "Suc j"] that by (simp add: add.assoc)
  ultimately have "split_ok S (k + 1 + int (length gs)) acc'" using Cons.IH[OF a(2)] Cons.prems(3,4) by simp
  then show ?case by (simp add: algebra_simps)
qed simp

lemma dvd_foldr_lcm: "x \<in> set xs \<Longrightarrow> x dvd foldr lcm xs 1" for x :: int
  by (induction xs) (auto intro: dvd_trans)

lemma distinct_concat_partition:
  assumes "distinct (concat (map f gs))"
  shows "distinct (concat (map f (filter P gs @ filter (\<lambda>x. \<not> P x) gs)))"
proof -
  have "mset (concat (map f (filter P gs @ filter (\<lambda>x. \<not> P x) gs))) = mset (concat (map f gs))"
    by (induction gs) auto
  then show ?thesis using assms mset_eq_imp_distinct_iff by blast
qed

lemma init_managers_classes:
  assumes "init_managers caching dcp pcp i gs p = Inr (ms, p')"
  shows "length ms = length gs \<and> (\<forall>j < length gs. spec_manager_map (g_kv_cache_spec (gs ! j)) = Inr (mgr_class (ms ! j)))"
  using assms
proof (induction gs arbitrary: i p ms)
  case (Cons g gs)
  obtain m p1 ms1 where 1: "get_manager_for_kv_cache_spec (g_kv_cache_spec g) p caching i dcp pcp = Inr (m, p1)"
    "init_managers caching dcp pcp (i + 1) gs p1 = Inr (ms1, p')" "ms = m # ms1" using Cons.prems by (auto simp: rbind_Inr_iff)
  have "spec_manager_map (g_kv_cache_spec g) = Inr (mgr_class m)"
    using 1(1) by (cases "g_kv_cache_spec g")
      (auto simp: get_manager_for_kv_cache_spec_def Let_def stm_base_init_def sink_init_def rbind_Inr_iff split: option.splits)
  then show ?case using Cons.IH[OF 1(2)] 1(3) by (auto simp: nth_Cons split: nat.splits)
qed simp

lemma group_ok_of_split:
  assumes "split_ok S k gs" "(spec, gids, cls) \<in> set gs" "k \<le> 256 ^ 4" "k = int (length (kv_cache_groups (c_kv_cache_config c)))"
    "\<forall>s \<in> S. searchable s \<and> 0 < spec_block_size s \<and> c_hash_block_size c dvd spec_block_size s"
    "lcm_block_size c = foldr lcm (map (\<lambda>(s, _, _). spec_block_size s) gs) 1"
  shows "group_ok c (spec, gids, cls)"
proof -
  obtain as bs where "gs = as @ (spec, gids, cls) # bs" using split_list[OF assms(2)] by blast
  then have "distinct gids" using assms(1) by (simp add: split_ok_def)
  moreover have j: "gids \<noteq> []" "spec \<in> S" "spec_manager_map spec = Inr cls" "\<forall>j \<in> set gids. 0 \<le> j \<and> j < k"
    using assms(1,2) by (auto simp: split_ok_def)
  moreover have "\<forall>j \<in> set gids. valid_group j" unfolding valid_group_def using j(4) assms(3) by (auto intro: less_le_trans)
  moreover have "spec_block_size spec dvd lcm_block_size c"
    unfolding assms(6) by (rule dvd_foldr_lcm) (use assms(2) in force)
  ultimately show ?thesis using assms(4,5) by (simp add: group_ok_def)
qed

lemma hybrid_coordinator_ok:
  assumes run: "get_kv_cache_coordinator cfg max_len eagle True events dcp pcp hsize metrics ints = Inr c"
    and many: "length (kv_cache_groups cfg) \<noteq> 1" "int (length (kv_cache_groups cfg)) \<le> 256 ^ 4" and h: "0 < hsize"
    and specs: "\<forall>g \<in> set (kv_cache_groups cfg). searchable (g_kv_cache_spec g) \<and> 0 < spec_block_size (g_kv_cache_spec g)"
  shows "c_kind c = HybridCoordinator \<and> c_use_eagle c = eagle \<and> c_hash_block_size c = hsize \<and> groups_ok c (attention_groups c)"
proof -
  obtain c0 where c0: "coordinator_base_init HybridCoordinator cfg max_len eagle True events dcp pcp hsize metrics ints = Inr c0"
    "hybrid_init c0 = Inr c" using run many by (auto simp: get_kv_cache_coordinator_def rbind_Inr_iff)
  obtain p ms p1 where b: "init_managers True dcp pcp 0 (kv_cache_groups cfg) p = Inr (ms, p1)" "single_type_managers c0 = ms"
    "c_kv_cache_config c0 = cfg" "c_hash_block_size c0 = hsize" "c_kind c0 = HybridCoordinator" "c_use_eagle c0 = eagle"
    using c0(1) by (auto simp: coordinator_base_init_def rbind_Inr_iff)
  let ?S = "g_kv_cache_spec ` set (kv_cache_groups cfg)" and ?n = "int (length (kv_cache_groups cfg))"
  obtain gs where g: "mfold (\<lambda>(i, g) groups. rbind (py_index ms i) (\<lambda>m. add_attention_group (g_kv_cache_spec g) i (mgr_class m) groups))
      (zip [0..0 + ?n - 1] (kv_cache_groups cfg)) [] = Inr gs"
    "c = c0\<lparr>attention_groups := filter (\<lambda>(s, _, _). is_full_attention s) gs @ filter (\<lambda>(s, _, _). \<not> is_full_attention s) gs,
            lcm_block_size := foldr lcm (map (\<lambda>(s, _, _). spec_block_size s) gs) 1\<rparr>"
    "\<forall>s \<in> ?S. hsize dvd spec_block_size s"
    using c0(2) b(2-4) h by (auto simp: hybrid_init_def verify_and_split_kv_cache_groups_def rbind_Inr_iff dvd_eq_mod_eq_0 split: if_splits)
  have cls: "\<exists>m. py_index ms (0 + int j) = Inr m \<and> spec_manager_map (g_kv_cache_spec (kv_cache_groups cfg ! j)) = Inr (mgr_class m)"
    if "j < length (kv_cache_groups cfg)" for j
    using init_managers_classes[OF b(1)] that py_index_nat[of j ms] by auto
  have sp: "split_ok ?S ?n gs" using split_groups_spec[OF g(1), of ?S] cls by (simp add: split_ok_def)
  have "group_ok c (s, is, cl)" if "(s, is, cl) \<in> set gs" for s "is" cl
    by (rule group_ok_of_split[OF sp that many(2)]) (use g(2,3) b(3,4) specs in auto)
  moreover have "set (attention_groups c) = set gs" using g(2) by auto
  moreover have ag: "attention_groups c = filter (\<lambda>G. is_full_attention (fst G)) gs @ filter (\<lambda>G. \<not> is_full_attention (fst G)) gs"
    by (simp add: g(2) case_prod_beta')
  have "distinct (concat (map (\<lambda>G. fst (snd G)) (attention_groups c)))"
    unfolding ag by (rule distinct_concat_partition) (use sp in \<open>simp add: split_ok_def\<close>)
  ultimately show ?thesis using g(2) b by (auto simp: groups_ok_def)
qed

end
