(* ===== verification/Hit_Properties.thy ===== *)
theory Hit_Properties
  imports KV_Hybrid Pool_Properties
begin

text \<open>
  The properties of the prefix-cache hit search of one attention type, for every reachable
  pool: what is returned may be reused, and nothing longer could have been.
\<close>

section \<open>A pool with two cached blocks\<close>

definition example_cached_pool :: BlockPool where
  "example_cached_pool =
     projr (cache_full_blocks ((example_request ''r'' [5] [])\<lparr>block_hashes := [[1], [2], [3]]\<rparr>) [Blk 1, Blk 2] 0 2 2 0 example_pool)"

lemma example_cached_run:
  "cache_full_blocks ((example_request ''r'' [5] [])\<lparr>block_hashes := [[1], [2], [3]]\<rparr>) [Blk 1, Blk 2] 0 2 2 0 example_pool =
     Inr example_cached_pool" (is "?r = _")
proof -
  have "\<not> isl ?r" unfolding example_pool_def by code_simp
  then show ?thesis by (simp add: example_cached_pool_def)
qed

lemma example_cached_facts:
  "pool_reachable example_cached_pool" "null_block example_cached_pool = Blk 0"
  "get_cached_block example_cached_pool [1] [0] = Inr (Some [Blk 1])"
  "get_cached_block example_cached_pool [2] [0] = Inr (Some [Blk 2])"
  "get_cached_block example_cached_pool [3] [0] = Inr None"
proof -
  show "pool_reachable example_cached_pool"
    by (rule pool_reachable.cache[OF example_pool_facts(1) _ example_cached_run]) (simp add: example_pool_facts)
qed (unfold example_cached_pool_def example_pool_def, code_simp+)

section \<open>Properties\<close>

text \<open>
  C27 (functional): full attention. The search never raises; every position of the hit holds, for
  each group, a block cached under exactly that position's hash; the hit is aligned, at most
  the allowed length, and maximal: a longer aligned hit (plus the block that EAGLE gives up)
  would contain a position that some group has not cached or reach beyond the bound.
\<close>

theorem full_hit_longest_prefix:
  assumes "pool_reachable p" "gids \<noteq> []" "\<forall>g \<in> set gids. valid_group g" "is_full_attention spec" "0 \<le> max_length"
    "hashes = HashList hs \<or> (\<exists>f > 0. hashes = ScaledHashList hs f)"
    "bsize = (if dcp * pcp > 1 then spec_block_size spec * (dcp * pcp) else spec_block_size spec)" "0 < bsize"
  shows "\<exists>blocks L. full_find_longest_cache_hit hashes max_length gids p spec use_eagle alignment dcp pcp = Inr blocks \<and>
    resumable p hashes gids L L blocks \<and> int L * bsize \<le> max_length \<and> aligned_at bsize alignment L \<and>
    (\<forall>L'. L < L' \<and> aligned_at bsize alignment L' \<and>
       int (L' + of_bool use_eagle) \<le> min (max_length div bsize) (bhl_len hashes) \<longrightarrow>
       (\<exists>k < L' + of_bool use_eagle. hit_at p hashes gids k = None))"
proof -
  let ?N = "nat (min (max_length div bsize) (bhl_len hashes))" and ?all = "\<lambda>L. \<forall>k < L. hit_at p hashes gids k \<noteq> None"
  define n where "n = longest_hit ?all ?N"
  define m where "m = (if use_eagle then n - 1 else n)"
  define L where "L = longest_hit (aligned_at bsize alignment) m"
  obtain F where ok: "pool_ok p F" using reachable_repr[OF assms(1)] by (auto simp: pool_repr_def)
  have nonneg: "0 \<le> max_length div bsize" "0 \<le> bhl_len hashes"
    using assms(5,8) bhl_len_nonneg[OF assms(6)] by (simp_all add: pos_imp_zdiv_nonneg_iff)
  have look: "lookups_ok p hashes gids ?N" by (rule lookups_okI[OF ok assms(3,2) _ assms(6)]) (use nonneg in auto)
  have run: "full_find_longest_cache_hit hashes max_length gids p spec use_eagle alignment dcp pcp = Inr (window_blocks p hashes gids L L)"
    unfolding L_def m_def n_def by (rule full_find_spec[OF look assms(4,7) nonneg])
  have n: "?all n" "n \<le> ?N" using longest_hit_good[of ?all ?N] longest_hit_le[of ?all ?N] by (simp_all add: n_def)
  have L: "L \<le> m" "m \<le> n" "aligned_at bsize alignment L"
    using longest_hit_le[of _ m] longest_hit_good[of "aligned_at bsize alignment" m] by (simp_all add: L_def m_def)
  have "int L \<le> max_length div bsize" using L n nonneg by linarith
  then have fits: "int L * bsize \<le> max_length" using le_div_iff_mult_le[OF assms(8)] by simp
  have res: "resumable p hashes gids L L (window_blocks p hashes gids L L)"
    by (rule window_blocks_resumable[OF ok assms(3) look]) (use L n in auto)
  have "\<exists>k < L' + of_bool use_eagle. hit_at p hashes gids k = None"
    if "L < L'" "aligned_at bsize alignment L'" "int (L' + of_bool use_eagle) \<le> min (max_length div bsize) (bhl_len hashes)" for L'
  proof (rule ccontr)
    assume "\<not> (\<exists>k < L' + of_bool use_eagle. hit_at p hashes gids k = None)"
    then have "L' + of_bool use_eagle \<le> n"
      using longest_hit_max[of ?all ?N "L' + of_bool use_eagle"] that(3) by (force simp: n_def not_le[symmetric])
    then have "L' \<le> m" by (auto simp: m_def)
    then show False using longest_hit_max[of "aligned_at bsize alignment" m L'] that(1,2) by (simp add: L_def)
  qed
  then show ?thesis using run res fits L(3) by blast
qed

theorem full_hit_longest_prefix_witness:
  "\<exists>blocks L. full_find_longest_cache_hit (HashList [[1], [2], [3]]) 7 [0] example_cached_pool
      (FullAttentionSpec \<lparr>a_block_size = 2, num_kv_heads = 1, head_size = 1, dtype = ''f'', page_size_padded = None\<rparr>
         \<lparr>head_size_v = 1, fa_sliding_window = None, fa_attention_chunk_size = None\<rparr>) False 2 1 1 = Inr blocks \<and>
     resumable example_cached_pool (HashList [[1], [2], [3]]) [0] L L blocks \<and> 2 \<le> L"
proof -
  let ?h = "HashList [[1], [2], [3]]"
  have hit: "hit_at example_cached_pool ?h [0] 0 \<noteq> None" "hit_at example_cached_pool ?h [0] 1 \<noteq> None"
    using example_cached_facts(3,4) by (simp_all add: hit_at_def py_index_def Let_def del: get_cached_block.simps)
  let ?s = "FullAttentionSpec \<lparr>a_block_size = 2, num_kv_heads = 1, head_size = 1, dtype = ''f'', page_size_padded = None\<rparr>
         \<lparr>head_size_v = 1, fa_sliding_window = None, fa_attention_chunk_size = None\<rparr>"
  obtain blocks L where r: "full_find_longest_cache_hit ?h 7 [0] example_cached_pool ?s False 2 1 1 = Inr blocks"
    "resumable example_cached_pool ?h [0] L L blocks"
    "\<forall>L'. L < L' \<and> aligned_at 2 2 L' \<and> int (L' + of_bool False) \<le> min (7 div 2) (bhl_len ?h) \<longrightarrow>
       (\<exists>k < L' + of_bool False. hit_at example_cached_pool ?h [0] k = None)"
    using full_hit_longest_prefix[OF example_cached_facts(1), of "[0]" ?s 7 ?h "[[1], [2], [3]]" 2 1 1 False 2]
    by (auto simp: valid_group_def)
  have "\<not> L < 2"
  proof
    assume "L < 2"
    then obtain k where "k < 2" "hit_at example_cached_pool ?h [0] k = None"
      using r(3)[rule_format, of 2] by (auto simp: aligned_at_def)
    then show False using hit by (auto simp: less_2_cases_iff)
  qed
  then have "2 \<le> L" by simp
  then show ?thesis using r by blast
qed

text \<open>Enough blocks for the window cover every token of the window.\<close>

lemma resumable_window_tokens:
  assumes res: "resumable p hashes gids need L blocks" and b: "0 < b" "cdiv (window - 1) b \<le> int need"
    and t: "int L * b - window < t" "0 \<le> t" "t < int L * b" and g: "g < length gids"
  shows "\<exists>h. bhl_item hashes (t div b) = Inr h \<and> block_hash (objs p (blocks ! g ! nat (t div b))) = Some (group_key h (gids ! g))"
proof -
  let ?k = "nat (t div b)"
  have k: "int ?k = t div b" using t(2) b(1) by (simp add: pos_imp_zdiv_nonneg_iff)
  have lt: "t div b < int L" using t(3) le_div_iff_mult_le[OF b(1), of "int L" t] by linarith
  have "int L * b - (window - 1) \<le> t" using t(1) by simp
  also have "\<dots> < (t div b + 1) * b" using b(1) le_div_iff_mult_le[OF b(1), of "t div b + 1" t] by (simp add: not_le[symmetric])
  finally have "(int L - (t div b + 1)) * b < window - 1" by (simp add: algebra_simps)
  then have "int L - (t div b + 1) < cdiv (window - 1) b"
    using cdiv_le_iff[OF b(1), of "window - 1" "int L - (t div b + 1)"] by (simp add: not_le[symmetric])
  then have "int L \<le> int ?k + int need" using b(2) k by linarith
  then have "L \<le> ?k + need" by linarith
  then show ?thesis using res g lt k unfolding resumable_def by (metis (full_types) of_nat_less_iff)
qed

text \<open>
  C26 (functional): sliding window. The search never raises; every token of the attention window
  before the hit's end lies in a block cached for each group under that position's hash, so
  attention can resume there; positions before the window hold the null block. The hit is
  aligned, within the bound and maximal: at every longer aligned length (plus the block that
  EAGLE gives up) some block of the window is missing.
\<close>

theorem sliding_hit_longest_window:
  assumes "pool_reachable p" "gids \<noteq> []" "\<forall>g \<in> set gids. valid_group g" "0 \<le> max_length" "0 < a_block_size a" "0 < window"
    "hashes = HashList hs \<or> (\<exists>f > 0. hashes = ScaledHashList hs f)" "max_length div a_block_size a \<le> bhl_len hashes"
    "use_eagle \<longrightarrow> a_block_size a = alignment"
  shows "\<exists>blocks L. sliding_find_longest_cache_hit hashes max_length gids p (SlidingWindowSpec a window) use_eagle alignment 1 1 = Inr blocks \<and>
    resumable p hashes gids (window_need window (a_block_size a) use_eagle - of_bool use_eagle) L blocks \<and>
    int L * a_block_size a \<le> max_length \<and> aligned_at (a_block_size a) alignment L \<and>
    (\<forall>t g. int L * a_block_size a - window < t \<and> 0 \<le> t \<and> t < int L * a_block_size a \<and> g < length gids \<longrightarrow>
       (\<exists>h. bhl_item hashes (t div a_block_size a) = Inr h \<and>
            block_hash (objs p (blocks ! g ! nat (t div a_block_size a))) = Some (group_key h (gids ! g)))) \<and>
    (\<forall>L'. L < L' \<and> aligned_at (a_block_size a) alignment L' \<and> int (L' + of_bool use_eagle) \<le> max_length div a_block_size a \<longrightarrow>
       (\<exists>k. L' + of_bool use_eagle \<le> k + window_need window (a_block_size a) use_eagle \<and>
            k < L' + of_bool use_eagle \<and> hit_at p hashes gids k = None))"
proof -
  let ?b = "a_block_size a" and ?N = "nat (max_length div a_block_size a)"
  define need where "need = window_need window ?b use_eagle"
  let ?good = "window_hit p hashes gids need ?b alignment"
  define M where "M = longest_hit ?good ?N"
  define e where "e = (of_bool use_eagle :: nat)"
  define L where "L = M - e"
  obtain F where ok: "pool_ok p F" using reachable_repr[OF assms(1)] by (auto simp: pool_repr_def)
  have nonneg: "0 \<le> max_length div ?b" using assms(4,5) by (simp add: pos_imp_zdiv_nonneg_iff)
  have look: "lookups_ok p hashes gids ?N" by (rule lookups_okI[OF ok assms(3,2) _ assms(7)]) (use nonneg assms(8) in auto)
  have need: "0 < need" "int need = max 1 (cdiv (window - 1) ?b + int e)"
    by (simp_all add: need_def window_need_def e_def less_max_iff_disj le_max_iff_disj)
  have run: "sliding_find_longest_cache_hit hashes max_length gids p (SlidingWindowSpec a window) use_eagle alignment 1 1 =
    Inr (window_blocks p hashes gids (need - e) L)"
    using sliding_find_spec[OF look refl assms(9), of window] window_blocks_butlast[OF need(1), of p hashes gids M]
    by (cases use_eagle) (simp_all add: need_def M_def L_def e_def)
  have M: "?good M" "M \<le> ?N" using longest_hit_good[of ?good ?N] longest_hit_le[of ?good ?N] by (simp_all add: M_def window_hit_def)
  have e: "e + (need - e) = need" using need(1) by (simp add: e_def)
  have res: "resumable p hashes gids (need - e) L (window_blocks p hashes gids (need - e) L)"
    by (rule window_blocks_resumable[OF ok assms(3) look]) (use M e in \<open>auto simp: L_def window_hit_def\<close>)
  have al: "aligned_at ?b alignment L" using M(1) assms(9) by (auto simp: L_def e_def window_hit_def aligned_at_def)
  have "int L \<le> max_length div ?b" using M(2) nonneg by (simp add: L_def le_nat_iff)
  then have fits: "int L * ?b \<le> max_length" using le_div_iff_mult_le[OF assms(5)] by simp
  have "int e + int (need - e) = int need" using e by (metis of_nat_add)
  then have "cdiv (window - 1) ?b \<le> int (need - e)" using need(2) by linarith
  note tok = resumable_window_tokens[OF res assms(5) this]
  have max: "\<exists>k. L' + e \<le> k + need \<and> k < L' + e \<and> hit_at p hashes gids k = None"
    if "L < L'" "aligned_at ?b alignment L'" "int (L' + e) \<le> max_length div ?b" for L'
  proof -
    have "\<not> ?good (L' + e)" using longest_hit_max[of ?good ?N "L' + e"] that by (auto simp: M_def L_def le_nat_iff)
    moreover have "aligned_at ?b alignment (L' + e)" using that(2) assms(9) by (auto simp: aligned_at_def e_def)
    ultimately show ?thesis by (force simp: window_hit_def)
  qed
  show ?thesis unfolding need_def[symmetric] e_def[symmetric] using run res fits al tok max by blast
qed

theorem sliding_hit_longest_window_witness:
  "\<exists>blocks L. sliding_find_longest_cache_hit (HashList [[3], [2], [3]]) 6 [0] example_cached_pool
      (SlidingWindowSpec \<lparr>a_block_size = 2, num_kv_heads = 1, head_size = 1, dtype = ''f'', page_size_padded = None\<rparr> 3) False 2 1 1 =
        Inr blocks \<and> 2 \<le> L \<and> (\<exists>h. block_hash (objs example_cached_pool (blocks ! 0 ! (L - 1))) = Some h)"
proof -
  let ?h = "HashList [[3], [2], [3]]" and ?a = "\<lparr>a_block_size = 2, num_kv_heads = 1, head_size = 1, dtype = ''f'', page_size_padded = None\<rparr>"
  have hit: "hit_at example_cached_pool ?h [0] 1 \<noteq> None"
    using example_cached_facts(4) by (simp add: hit_at_def py_index_def Let_def del: get_cached_block.simps)
  have need: "window_need 3 2 False = 1" by (simp add: window_need_def cdiv_def)
  obtain blocks L where r: "sliding_find_longest_cache_hit ?h 6 [0] example_cached_pool (SlidingWindowSpec ?a 3) False 2 1 1 = Inr blocks"
    "resumable example_cached_pool ?h [0] 1 L blocks"
    "\<forall>L'. L < L' \<and> aligned_at 2 2 L' \<and> int (L' + of_bool False) \<le> 6 div 2 \<longrightarrow>
       (\<exists>k. L' + of_bool False \<le> k + 1 \<and> k < L' + of_bool False \<and> hit_at example_cached_pool ?h [0] k = None)"
    using sliding_hit_longest_window[OF example_cached_facts(1), of "[0]" 6 ?a 3 ?h "[[3], [2], [3]]" False 2]
    by (auto simp: valid_group_def need)
  have "\<not> L < 2"
  proof
    assume "L < 2"
    then obtain k where "2 \<le> k + 1" "k < 2" "hit_at example_cached_pool ?h [0] k = None"
      using r(3)[rule_format, of 2] by (auto simp: aligned_at_def)
    then have "k = 1" "hit_at example_cached_pool ?h [0] k = None" by auto
    then show False using hit by simp
  qed
  then have "2 \<le> L" by simp
  moreover have "\<exists>h. block_hash (objs example_cached_pool (blocks ! 0 ! (L - 1))) = Some h"
    using r(2) \<open>2 \<le> L\<close> unfolding resumable_def by (auto dest!: spec[of _ 0] spec[of _ "L - 1"] split: if_splits)
  ultimately show ?thesis using r(1) by blast
qed

section \<open>Several attention types\<close>

text \<open>
  C28 (termination): the hybrid search, which repeats rounds over the attention types while the
  candidate length shrinks, returns after finitely many rounds whatever the cache holds.
\<close>

theorem hybrid_search_terminates:
  assumes "\<forall>(spec, gids, cls) \<in> set (attention_groups c). 0 < spec_block_size spec" "0 \<le> n"
  shows "\<exists>r. hybrid_find_longest_cache_hit c hashes n = Some r"
  using hybrid_loop_returns[OF assms] by (auto simp: hybrid_find_longest_cache_hit_def)

definition example_attention :: "int \<Rightarrow> AttentionSpec" where
  "example_attention b = \<lparr>a_block_size = b, num_kv_heads = 1, head_size = 1, dtype = ''f'', page_size_padded = None\<rparr>"

definition example_hybrid_config :: "KVCacheSpec list \<Rightarrow> KVCacheConfig" where
  "example_hybrid_config specs = \<lparr>num_blocks = 4, kv_cache_tensors = [],
     kv_cache_groups = map (\<lambda>s. \<lparr>layer_names = [], g_kv_cache_spec = s\<rparr>) specs\<rparr>"

definition example_specs :: "KVCacheSpec list" where
  "example_specs = [FullAttentionSpec (example_attention 2) \<lparr>head_size_v = 1, fa_sliding_window = None, fa_attention_chunk_size = None\<rparr>,
     SlidingWindowSpec (example_attention 2) 3, SlidingWindowSpec (example_attention 2) 5]"

definition example_hybrid :: "bool \<Rightarrow> KVCacheCoordinator" where
  "example_hybrid eagle = projr (get_kv_cache_coordinator (example_hybrid_config example_specs) 100 eagle True False 1 1 2 False False)"

lemma example_hybrid_run:
  "get_kv_cache_coordinator (example_hybrid_config example_specs) 100 eagle True False 1 1 2 False False = Inr (example_hybrid eagle)"
  "attention_groups (example_hybrid eagle) = [(example_specs ! 0, [0], FullAttentionManager),
     (example_specs ! 1, [1], SlidingWindowManager), (example_specs ! 2, [2], SlidingWindowManager)]"
proof -
  have "\<not> isl (get_kv_cache_coordinator (example_hybrid_config example_specs) 100 eagle True False 1 1 2 False False)"
    by (cases eagle; code_simp)
  then show "get_kv_cache_coordinator (example_hybrid_config example_specs) 100 eagle True False 1 1 2 False False = Inr (example_hybrid eagle)"
    by (simp add: example_hybrid_def)
  show "attention_groups (example_hybrid eagle) = [(example_specs ! 0, [0], FullAttentionManager),
     (example_specs ! 1, [1], SlidingWindowManager), (example_specs ! 2, [2], SlidingWindowManager)]"
    by (cases eagle; code_simp)
qed

theorem hybrid_search_terminates_witness:
  "\<exists>r. hybrid_find_longest_cache_hit (example_hybrid True) [[1], [2]] 5 = Some r"
  using hybrid_search_terminates[of "example_hybrid True" 5 "[[1], [2]]"]
  by (simp add: example_hybrid_run(2) example_specs_def example_attention_def)

text \<open>A pool of seven blocks in which each of the three groups of \<open>example_specs\<close> has its two blocks cached.\<close>

definition cache_for_group :: "bytes list \<Rightarrow> int \<Rightarrow> bref list \<Rightarrow> BlockPool \<Rightarrow> BlockPool result" where
  "cache_for_group hashes g blocks p =
     cache_full_blocks ((example_request ''r'' [5] [])\<lparr>block_hashes := hashes\<rparr>) blocks 0 (int (length blocks)) 2 g p"

definition three_cached :: "BlockPool result" where
  "three_cached = rbind (BlockPool_init 7 True 2 False False False) (\<lambda>p. rbind (cache_for_group [[1], [2]] 0 [Blk 1, Blk 2] p)
     (\<lambda>p. rbind (cache_for_group [[1], [2]] 1 [Blk 3, Blk 4] p) (\<lambda>p. cache_for_group [[1], [2]] 2 [Blk 5, Blk 6] p)))"

definition example_three_pool :: BlockPool where
  "example_three_pool = projr three_cached"

lemma example_three_run: "three_cached = Inr example_three_pool"
proof -
  have "\<not> isl three_cached" by code_simp
  then show ?thesis by (simp add: example_three_pool_def)
qed

lemma example_three_reachable: "pool_reachable example_three_pool"
proof -
  obtain p0 p1 p2 where p: "BlockPool_init 7 True 2 False False False = Inr p0" "cache_for_group [[1], [2]] 0 [Blk 1, Blk 2] p0 = Inr p1"
    "cache_for_group [[1], [2]] 1 [Blk 3, Blk 4] p1 = Inr p2" "cache_for_group [[1], [2]] 2 [Blk 5, Blk 6] p2 = Inr example_three_pool"
    using example_three_run by (auto simp: three_cached_def rbind_Inr_iff)
  have b: "pool_blocks p0 = map Blk [0..<7]" using BlockPool_init_spec[of 7 True 2 False False False] p(1) by (auto simp: pool_repr_def pool_ok_def)
  have r0: "pool_reachable p0" using p(1) by (rule pool_reachable.init)
  have keep: "pool_reachable p' \<and> pool_blocks p' = pool_blocks p"
    if r: "pool_reachable p" and run: "cache_for_group hs g bs p = Inr p'" and sub: "set bs \<subseteq> set (pool_blocks p)" for p p' hs g bs
  proof -
    obtain xs where "pool_repr p xs" using reachable_repr[OF r] by blast
    then have "pool_blocks p' = pool_blocks p" using cache_full_blocks_keeps[OF run[unfolded cache_for_group_def] _ sub] config_fields(4) by blast
    then show ?thesis using pool_reachable.cache[OF r sub run[unfolded cache_for_group_def]] by simp
  qed
  from keep[OF r0 p(2)] b have r1: "pool_reachable p1" "pool_blocks p1 = map Blk [0..<7]" by auto
  from keep[OF r1(1) p(3)] r1(2) have r2: "pool_reachable p2" "pool_blocks p2 = map Blk [0..<7]" by auto
  from keep[OF r2(1) p(4)] r2(2) show ?thesis by auto
qed

text \<open>
  C25 (functional): with several attention types (any number of sliding windows and Mamba groups, at most
  one full-attention format) and without EAGLE, the search returns one length for all of them,
  a multiple of each block size and within the bound, together with, for every group, a list of
  exactly that length that lets the group's attention resume there: all blocks cached for full
  attention, the window's blocks for a sliding window, the last state for Mamba. The length is the greatest: no
  longer one within the bound that is a multiple of the common block size lets every group resume.
\<close>

theorem hybrid_hit_resumable:
  assumes run: "get_kv_cache_coordinator cfg max_len False True events dcp pcp hsize metrics ints = Inr c0"
    and cfg: "length (kv_cache_groups cfg) \<noteq> 1" "int (length (kv_cache_groups cfg)) \<le> 256 ^ 4" "0 < hsize"
      "\<forall>g \<in> set (kv_cache_groups cfg). searchable (g_kv_cache_spec g) \<and> 0 < spec_block_size (g_kv_cache_spec g)"
      "\<forall>G \<in> set (tl (attention_groups c0)). \<not> is_full_attention (fst G)"
    and c: "c = c0\<lparr>c_block_pool := p, single_type_managers := ms\<rparr>" "pool_reachable p"
    and n: "n < (int (length hashes) + 1) * hsize" "0 \<le> n"
  shows "\<exists>blocks m. coord_find_longest_cache_hit c hashes n = Some (Inr (blocks, m)) \<and> 0 \<le> m \<and> m \<le> n \<and>
    (\<forall>G \<in> set (attention_groups c). group_resumes c hashes blocks m G) \<and>
    (\<forall>m'. m < m' \<and> m' \<le> n \<and> lcm_block_size c dvd m' \<longrightarrow> (\<exists>G \<in> set (attention_groups c). \<not> can_resume c hashes m' G))"
proof -
  have c0: "c_kind c0 = HybridCoordinator" "\<not> c_use_eagle c0" "c_hash_block_size c0 = hsize" "groups_ok c0 (attention_groups c0)"
    using hybrid_coordinator_ok[OF run cfg(1-4)] by simp_all
  obtain F where F: "pool_ok p F" using reachable_repr[OF c(2)] by (auto simp: pool_repr_def)
  have gs: "groups_ok c (attention_groups c)" using c0(4) by (simp add: c(1) groups_ok_def group_ok_def)
  have cc: "0 < c_hash_block_size c" "\<not> c_use_eagle c" "pool_ok (c_block_pool c) F" "hashes_cover c hashes n"
    "\<forall>G \<in> set (tl (attention_groups c)). \<not> is_full_attention (fst G)"
    using c0 cfg(3,5) n(1) F by (simp_all add: c(1) hashes_cover_def)
  obtain blocks m where r: "hybrid_find_longest_cache_hit c hashes n = Some (Inr (blocks, m))" "0 \<le> m" "m \<le> n"
    "\<forall>G \<in> set (attention_groups c). group_resumes c hashes blocks m G"
    using hybrid_find_sound[OF cc(1-3) gs cc(5,4) n(2)] by blast
  obtain hits where l: "hybrid_loop c hashes n (replicate (length (kv_cache_groups (c_kv_cache_config c))) None) = Some (Inr (m, hits))"
    using r(1) by (auto simp: hybrid_find_longest_cache_hit_def rbind_Inr_iff)
  have "\<forall>G \<in> set (attention_groups c). group_ok c G" using gs by (simp add: groups_ok_def)
  from hybrid_loop_max[OF cc(1-3) this _ _ _ cc(4) n(2) _ l] r(2)
  have "\<exists>G \<in> set (attention_groups c). \<not> can_resume c hashes m' G" if "m < m'" "m' \<le> n" "lcm_block_size c dvd m'" for m'
    using that by (smt (verit))
  moreover have "coord_find_longest_cache_hit c hashes n = hybrid_find_longest_cache_hit c hashes n"
    using c0(1) by (simp add: c(1) coord_find_longest_cache_hit_def)
  ultimately show ?thesis using r by metis
qed

theorem hybrid_hit_resumable_witness:
  "let c = (example_hybrid False)\<lparr>c_block_pool := example_three_pool, single_type_managers := []\<rparr> in
   \<exists>blocks m. coord_find_longest_cache_hit c [[1], [2]] 5 = Some (Inr (blocks, m)) \<and> m = 4 \<and>
     (\<forall>G \<in> set (attention_groups c). group_resumes c [[1], [2]] blocks m G)"
proof -
  let ?c = "(example_hybrid False)\<lparr>c_block_pool := example_three_pool, single_type_managers := []\<rparr>"
  have "\<exists>blocks m. coord_find_longest_cache_hit ?c [[1], [2]] 5 = Some (Inr (blocks, m)) \<and> 0 \<le> m \<and> m \<le> 5 \<and>
      (\<forall>G \<in> set (attention_groups ?c). group_resumes ?c [[1], [2]] blocks m G) \<and>
      (\<forall>m'. m < m' \<and> m' \<le> 5 \<and> lcm_block_size ?c dvd m' \<longrightarrow> (\<exists>G \<in> set (attention_groups ?c). \<not> can_resume ?c [[1], [2]] m' G))"
    by (rule hybrid_hit_resumable[OF example_hybrid_run(1) _ _ _ _ _ refl example_three_reachable])
      (auto simp: example_hybrid_config_def example_specs_def example_hybrid_run(2) example_attention_def)
  moreover have "case coord_find_longest_cache_hit ?c [[1], [2]] 5 of Some (Inr (_, m)) \<Rightarrow> m = 4 | _ \<Rightarrow> False"
    unfolding example_three_pool_def by code_simp
  ultimately show ?thesis by (auto simp: Let_def)
qed

text \<open>
  C40 (error): with EAGLE, a search over attention types that include a sliding window and are not the special case of
  full attention and one other type can only return length 0, whatever is cached: the window's search gives up one block in every round, so a
  round never confirms a positive candidate and the loop runs down to nothing.
\<close>

theorem hybrid_eagle_never_hits:
  assumes run: "get_kv_cache_coordinator cfg max_len True True events dcp pcp hsize metrics ints = Inr c0"
    and cfg: "length (kv_cache_groups cfg) \<noteq> 1" "int (length (kv_cache_groups cfg)) \<le> 256 ^ 4" "0 < hsize"
      "\<forall>g \<in> set (kv_cache_groups cfg). searchable (g_kv_cache_spec g) \<and> 0 < spec_block_size (g_kv_cache_spec g)"
      "SlidingWindowSpec a w \<in> fst ` set (attention_groups c0)" "\<not> is_simple_hybrid c0"
    and c: "c = c0\<lparr>c_block_pool := p, single_type_managers := ms\<rparr>" "pool_reachable p"
    and n: "n < (int (length hashes) + 1) * hsize" "0 \<le> n"
    and hit: "coord_find_longest_cache_hit c hashes n = Some (Inr (blocks, m))"
  shows "m = 0"
proof -
  have c0: "c_kind c0 = HybridCoordinator" "c_use_eagle c0" "c_hash_block_size c0 = hsize" "groups_ok c0 (attention_groups c0)"
    using hybrid_coordinator_ok[OF run cfg(1-4)] by simp_all
  obtain F where F: "pool_ok p F" using reachable_repr[OF c(2)] by (auto simp: pool_repr_def)
  have ok: "\<forall>G \<in> set (attention_groups c). group_ok c G" using c0(4) by (auto simp: c(1) groups_ok_def group_ok_def)
  have simple: "\<not> is_simple_hybrid c" using cfg(6) by (simp add: c(1) is_simple_hybrid_def)
  obtain hits where "hybrid_loop c hashes n (replicate (length (kv_cache_groups (c_kv_cache_config c))) None) = Some (Inr (m, hits))"
    using hit c0(1) by (auto simp: c(1) coord_find_longest_cache_hit_def hybrid_find_longest_cache_hit_def rbind_Inr_iff)
  then show ?thesis
    using eagle_loop_zero[OF _ _ _ simple ok, of F a w hashes n] F c0 cfg(3,5) n by (auto simp: c(1) hashes_cover_def)
qed

theorem hybrid_eagle_never_hits_witness:
  "\<exists>blocks. coord_find_longest_cache_hit ((example_hybrid True)\<lparr>c_block_pool := example_three_pool, single_type_managers := []\<rparr>)
     [[1], [2]] 5 = Some (Inr (blocks, 0))"
proof -
  let ?c = "(example_hybrid True)\<lparr>c_block_pool := example_three_pool, single_type_managers := []\<rparr>"
  have "case coord_find_longest_cache_hit ?c [[1], [2]] 5 of Some (Inr _) \<Rightarrow> True | _ \<Rightarrow> False"
    unfolding example_three_pool_def by code_simp
  then obtain blocks m where r: "coord_find_longest_cache_hit ?c [[1], [2]] 5 = Some (Inr (blocks, m))"
    by (auto split: option.splits sum.splits)
  have "m = 0"
    by (rule hybrid_eagle_never_hits[OF example_hybrid_run(1) _ _ _ _ _ _ refl example_three_reachable _ _ r])
      (auto simp: example_hybrid_config_def example_specs_def example_hybrid_run(2) example_attention_def is_simple_hybrid_def)
  then show ?thesis using r by blast
qed

text \<open>
  Only the first full-attention format is cut to the common length. With two of them
  and a sliding window, a pool of seven blocks in which both formats have two blocks cached and
  the window one, the search returns length 2 (one block) but two blocks for the second format.
\<close>

definition two_full_specs :: "KVCacheSpec list" where
  "two_full_specs =
     (let f = \<lparr>head_size_v = 1, fa_sliding_window = None, fa_attention_chunk_size = None\<rparr>
      in [FullAttentionSpec (example_attention 2) f, FullAttentionSpec ((example_attention 2)\<lparr>num_kv_heads := 2\<rparr>) f,
          SlidingWindowSpec (example_attention 2) 3])"

definition two_full_search :: "(bref list list \<times> int) result option" where
  "two_full_search =
     (case rbind (get_kv_cache_coordinator ((example_hybrid_config two_full_specs)\<lparr>num_blocks := 7\<rparr>) 100 False True False 1 1 2 False False)
             (\<lambda>c. rbind (cache_for_group [[1], [2]] 0 [Blk 1, Blk 2] (c_block_pool c))
             (\<lambda>p. rbind (cache_for_group [[1], [2]] 1 [Blk 3, Blk 4] p)
             (\<lambda>p. rbind (cache_for_group [[1], [2]] 2 [Blk 5] p)
             (\<lambda>p. Inr (c\<lparr>c_block_pool := p\<rparr>))))) of
        Inl e \<Rightarrow> Some (Inl e)
      | Inr c \<Rightarrow> coord_find_longest_cache_hit c [[1], [2]] 5)"

theorem second_full_group_not_truncated:
  "two_full_search = Some (Inr ([[Blk 1], [Blk 3, Blk 4], [Blk 5]], 2))"
  by code_simp

end
