(* ===== verification/KV_Caching.thy ===== *)
theory KV_Caching
  imports KV_Properties
begin

text \<open>
  The last step of \<^verbatim>\<open>allocate_slots\<close>: entering the full blocks of a request into the prefix cache. The
  code asserts that such a block has no hash yet. It does when the entries of the request's tables
  beyond the cached ones are private to the request (\<open>uncached_private\<close>): without a hash and referenced once. The
  locale \<open>calm_operation\<close> collects the operations that keep this, and the caching step is shown
  to return and to keep it.
\<close>

section \<open>Uncached blocks\<close>

text \<open>Attention layers other than Mamba and cross attention share the code of the base class.\<close>

definition attention_manager :: "SingleTypeKVCacheManager \<Rightarrow> bool" where
  "attention_manager m \<longleftrightarrow> mgr_class m \<in> {FullAttentionManager, SlidingWindowManager, ChunkedLocalAttentionManager, SinkFullAttentionManager}"

definition ncached :: "string \<Rightarrow> SingleTypeKVCacheManager \<Rightarrow> int" where
  "ncached rid m = (case map_of (num_cached_block m) rid of None \<Rightarrow> 0 | Some n \<Rightarrow> n)"

definition uncached_private :: "string \<Rightarrow> BlockPool \<Rightarrow> SingleTypeKVCacheManager \<Rightarrow> bool" where
  "uncached_private rid p m \<longleftrightarrow> 0 \<le> ncached rid m \<and>
     (\<forall>b \<in> set (drop (nat (ncached rid m)) (dd_list rid (req_to_blocks m))).
        b \<noteq> null_block p \<longrightarrow> block_hash (objs p b) = None \<and> ref_cnt (objs p b) \<le> 1)"

text \<open>No block gets a hash, and none gets a second reference.\<close>

definition calm :: "BlockPool \<Rightarrow> BlockPool \<Rightarrow> bool" where
  "calm p p' \<longleftrightarrow> pool_config p' = pool_config p \<and>
     (\<forall>b. ref_cnt (objs p' b) \<le> max 1 (ref_cnt (objs p b)) \<and> (block_hash (objs p b) = None \<longrightarrow> block_hash (objs p' b) = None))"

lemma calm_refl [simp]: "calm p p"
  by (simp add: calm_def)

lemma calm_trans: "\<lbrakk>calm p q; calm q r\<rbrakk> \<Longrightarrow> calm p r"
proof -
  assume p: "calm p q" and q: "calm q r"
  have "ref_cnt (objs r b) \<le> max 1 (ref_cnt (objs p b))" for b
  proof -
    have "ref_cnt (objs r b) \<le> max 1 (ref_cnt (objs q b))" using q unfolding calm_def by blast
    moreover have "ref_cnt (objs q b) \<le> max 1 (ref_cnt (objs p b))" using p unfolding calm_def by blast
    ultimately show ?thesis by linarith
  qed
  then show "calm p r" using p q unfolding calm_def by simp
qed

lemma private_calm: "\<lbrakk>uncached_private rid p m; calm p p'\<rbrakk> \<Longrightarrow> uncached_private rid p' m"
proof -
  assume r: "uncached_private rid p m" and c: "calm p p'"
  have null: "null_block p' = null_block p" using c config_fields(5)[of p' p] by (simp add: calm_def)
  have "block_hash (objs p' b) = None \<and> ref_cnt (objs p' b) \<le> 1" if "block_hash (objs p b) = None" "ref_cnt (objs p b) \<le> 1" for b
    using c that unfolding calm_def by (metis max.absorb1)
  then show "uncached_private rid p' m" using r unfolding uncached_private_def null by blast
qed

locale calm_operation = table_operation +
  fixes rid :: string
  assumes calm: "\<lbrakk>step i m p = Inr (a, m', p'); pre i (pool_blocks p) m; manager_ok (pool_blocks p) m; \<And>b. 0 \<le> R b;
      refs_match p (\<lambda>b. table_refs (req_to_blocks m) b + R b); enable_caching p\<rbrakk> \<Longrightarrow>
    calm p p' \<and> (uncached_private rid p m \<longrightarrow> uncached_private rid p' m')"
begin

lemma each_calm:
  assumes "each_manager step i ms p = Inr (as, ms', p')" "kv_ok p ms R" "\<And>b. 0 \<le> R b"
    "\<And>j. j < length ms \<Longrightarrow> pre (i + j) (pool_blocks p) (ms ! j)" "enable_caching p"
  shows "calm p p' \<and> ((\<forall>m \<in> set ms. uncached_private rid p m) \<longrightarrow> (\<forall>m \<in> set ms'. uncached_private rid p' m))"
  using assms
proof (induction ms arbitrary: i p as ms' p' R)
  case Nil
  then show ?case by simp
next
  case (Cons m ms)
  from Cons.prems(1) obtain a m1 p1 as1 ms1 where st: "step i m p = Inr (a, m1, p1)"
    "each_manager step (Suc i) ms p1 = Inr (as1, ms1, p')" "ms' = m1 # ms1"
    by (auto simp: rbind_Inr_iff)
  have ok: "manager_ok (pool_blocks p) m" "\<forall>x \<in> set ms. manager_ok (pool_blocks p) x"
    "refs_match p (\<lambda>b. table_refs (req_to_blocks m) b + (manager_refs ms b + R b))"
    using Cons.prems(2) by (auto simp: kv_ok_def add.assoc)
  have R: "0 \<le> manager_refs ms b + R b" for b using manager_refs_nonneg[of ms b] Cons.prems(3)[of b] by simp
  have pr: "pre i (pool_blocks p) m" using Cons.prems(4)[of 0] by simp
  have c: "calm p p1" "uncached_private rid p m \<Longrightarrow> uncached_private rid p1 m1" using calm[OF st(1) pr ok(1) R ok(3) Cons.prems(5)] by auto
  have k: "refs_match p1 (\<lambda>b. table_refs (req_to_blocks m1) b + (manager_refs ms b + R b))" "pool_config p1 = pool_config p"
    using keeps[OF st(1) pr ok(1) R ok(3)] by auto
  have pb: "pool_blocks p1 = pool_blocks p" by (rule config_fields(4)[OF k(2)])
  have "kv_ok p1 ms (\<lambda>b. table_refs (req_to_blocks m1) b + R b)" using k(1) ok(2) pb by (auto simp: kv_ok_def algebra_simps)
  moreover have "0 \<le> table_refs (req_to_blocks m1) b + R b" for b
    using count_list_nonneg_table[of "req_to_blocks m1" b] Cons.prems(3)[of b] by simp
  moreover have "pre (Suc i + j) (pool_blocks p1) (ms ! j)" if "j < length ms" for j using Cons.prems(4)[of "Suc j"] that pb by simp
  moreover have "enable_caching p1" using Cons.prems(5) k(2) by (simp add: pool_config_def)
  ultimately have IH: "calm p1 p'" "\<forall>m \<in> set ms. uncached_private rid p1 m \<Longrightarrow> \<forall>m \<in> set ms1. uncached_private rid p' m"
    using Cons.IH[OF st(2)] by auto
  show ?case using c IH calm_trans[OF c(1) IH(1)] private_calm[OF _ c(1)] private_calm[OF _ IH(1)] st(3) by auto
qed

lemma on_managers_calm:
  assumes "on_managers step c = Inr (as, c')" "kv_ok (c_block_pool c) (single_type_managers c) (\<lambda>_. 0)"
    "\<And>j. j < length (single_type_managers c) \<Longrightarrow> pre j (pool_blocks (c_block_pool c)) (single_type_managers c ! j)"
    "enable_caching (c_block_pool c)" "\<forall>m \<in> set (single_type_managers c). uncached_private rid (c_block_pool c) m"
  shows "\<forall>m \<in> set (single_type_managers c'). uncached_private rid (c_block_pool c') m"
proof -
  obtain ms p where "each_manager step 0 (single_type_managers c) (c_block_pool c) = Inr (as, ms, p)"
    "c' = c\<lparr>single_type_managers := ms, c_block_pool := p\<rparr>"
    using assms(1) by (auto simp: on_managers_def rbind_Inr_iff)
  then show ?thesis using each_calm[of 0 "single_type_managers c" "c_block_pool c" as ms p "\<lambda>_. 0"] assms by simp
qed

end

section \<open>Releasing and allocating\<close>

lemma skip_loop_entry: "\<lbrakk>skip_loop null k bs = (removed, t); k \<le> length bs; j < length bs\<rbrakk> \<Longrightarrow> t ! j = null \<or> t ! j = bs ! j"
proof (induction null k bs arbitrary: removed t rule: skip_loop.induct)
  case (2 null i bs)
  show ?case
  proof (cases "bs ! i = null")
    case True
    then show ?thesis using 2 by (simp add: Let_def)
  next
    case False
    then obtain rem where "skip_loop null i (bs[i := null]) = (rem, t)" using 2(2) by (auto simp: Let_def split: prod.splits)
    with 2 False show ?thesis by (cases "j = i") force+
  qed
qed simp

lemma skip_calm:
  assumes run: "base_remove_skipped_blocks m p rid n = Inr (m', p')" and ok: "manager_ok (pool_blocks p) m" and R: "\<And>b. 0 \<le> R b"
    and refs: "refs_match p (\<lambda>b. table_refs (req_to_blocks m) b + R b)"
  shows "calm p p' \<and> (uncached_private rid p m \<longrightarrow> uncached_private rid p' m')"
proof (cases "get_num_skipped_tokens m n \<le> 0")
  case True
  then show ?thesis using run by (auto simp: base_remove_skipped_blocks_def)
next
  case False
  let ?old = "dd_list rid (req_to_blocks m)"
  let ?k = "nat (min (get_num_skipped_tokens m n div block_size m) (int (length ?old)))"
  have null: "mgr_null_block m = Blk 0" by (rule manager_okD(3)[OF ok])
  obtain removed t where sl: "skip_loop (Blk 0) ?k ?old = (removed, t)" by fastforce
  have r: "free_blocks removed p = Inr p'" "m' = set_req_blocks rid t m"
    using run False sl null by (auto simp: base_remove_skipped_blocks_def Let_def rbind_Inr_iff)
  obtain xs where xs: "pool_repr p xs" "\<And>b. b \<in> usable p \<Longrightarrow> ref_cnt (objs p b) = table_refs (req_to_blocks m) b + R b"
    using refs_match_free_list[OF refs] by blast
  have pok: "pool_ok p (set xs)" using xs(1) by (simp add: pool_repr_def)
  have n0: "null_block p = Blk 0" by (rule pool_ok_refD(4)[OF pok])
  have sp: "length t = length ?old" "Blk 0 \<notin> set removed" "set removed \<subseteq> set ?old"
    "\<And>b. b \<noteq> Blk 0 \<Longrightarrow> count_list t b + count_list removed b = count_list ?old b"
    using skip_loop_spec[OF sl] by auto
  have old: "set ?old \<subseteq> set (pool_blocks p)" "table_ok (pool_blocks p) ?old" using manager_okD(2)[OF ok, of rid] by (auto simp: table_ok_def)
  have "count_list removed b \<le> 1" if "b \<noteq> Blk 0" for b using sp(4)[OF that] old(2) that by (auto simp: table_ok_count dest!: spec[of _ b])
  then have rt: "table_ok (pool_blocks p) removed" using sp(3) old by (auto simp: table_ok_count)
  have pos: "0 < ref_cnt (objs p b)" if "b \<in> set removed" "b \<noteq> null_block p" for b
  proof -
    have b: "b \<in> set ?old" using sp(3) that(1) by auto
    then have "b \<in> usable p" using that(2) old(1) blocks_cases[OF pok, of b] n0 by auto
    then show ?thesis using xs(2) table_member_refs[where R = R, OF ok b R] by simp
  qed
  have f: "refs_only p p'" "\<And>x. ref_cnt (objs p' x) = ref_cnt (objs p x) - int (count_list removed x)"
    using free_blocks_spec[OF xs(1), of removed] pos rt n0 r(1) by (auto simp: table_ok_def)
  have c: "calm p p'" using f refs_only_config[OF f(1)] by (auto simp: calm_def refs_only_def)
  moreover have "uncached_private rid p m'" if re: "uncached_private rid p m"
  proof -
    have nc: "ncached rid m' = ncached rid m" by (simp add: r(2) ncached_def set_req_blocks_def)
    have "b = Blk 0 \<or> b \<in> set (drop j ?old)" if b: "b \<in> set (drop j t)" for j b
    proof -
      from b obtain i where "i < length (drop j t)" "b = drop j t ! i" by (metis in_set_conv_nth)
      then have i: "i < length t - j" "b = t ! (j + i)" by auto
      then have "t ! (j + i) = Blk 0 \<or> t ! (j + i) = ?old ! (j + i)" using skip_loop_entry[OF sl] sp(1) by simp
      moreover have "?old ! (j + i) \<in> set (drop j ?old)" using i(1) sp(1) by (auto simp: in_set_conv_nth intro!: exI[of _ i])
      ultimately show ?thesis using i(2) by auto
    qed
    then show ?thesis using re n0 unfolding uncached_private_def nc by (auto simp: r(2) set_req_blocks_def)
  qed
  ultimately show ?thesis using private_calm by blast
qed

interpretation calm_skip: calm_operation
  "\<lambda>i m p. rbind (stm_remove_skipped_blocks m p rid n) (\<lambda>(m', p'). Inr ((), m', p'))" "\<lambda>i blocks m. attention_manager m" rid for rid n
proof (unfold_locales, goal_cases)
  case (1 i m p a m' p' R)
  from remove_skipped.keeps[OF 1(1) _ 1(3-5)] show ?case by simp
next
  case (2 i m p a m' p' R)
  have "base_remove_skipped_blocks m p rid n = Inr (m', p')"
    using 2(1,2) by (auto simp: stm_remove_skipped_blocks_def attention_manager_def rbind_Inr_iff)
  from skip_calm[OF this 2(3) _ 2(5)] 2(4) show ?case by blast
qed

lemma alloc_calm:
  assumes run: "base_allocate_new_blocks m p rid n = Inr (bs, m', p')" and refs: "refs_match p R" and caching: "enable_caching p"
  shows "calm p p' \<and> (uncached_private rid p m \<longrightarrow> uncached_private rid p' m')"
proof (cases "cdiv n (block_size m) - int (length (dd_list rid (req_to_blocks m))) \<le> 0")
  case True
  then show ?thesis using run by (auto simp: base_allocate_new_blocks_def Let_def uncached_private_def ncached_def set_req_blocks_def)
next
  case False
  let ?old = "dd_list rid (req_to_blocks m)" and ?k = "cdiv n (block_size m) - int (length (dd_list rid (req_to_blocks m)))"
  have g: "get_new_blocks ?k p = Inr (bs, p')" "m' = set_req_blocks rid (?old @ bs) m"
    using run False by (auto simp: base_allocate_new_blocks_def Let_def rbind_Inr_iff)
  obtain xs where xs: "pool_repr p xs" using refs by (auto simp: refs_match_def)
  have k: "0 \<le> ?k" using False by simp
  have "?k \<le> int (length xs)" using get_new_blocks_too_many[OF xs, of ?k] g(1) by (cases "?k \<le> int (length xs)") auto
  from get_new_blocks_spec[OF xs k this] g(1) have sp: "pool_config p' = pool_config p"
    "\<And>b. b \<notin> set bs \<Longrightarrow> payload (objs p') b = payload (objs p) b"
    "\<And>b. b \<in> set bs \<Longrightarrow> ref_cnt (objs p' b) = 1 \<and> block_hash (objs p' b) = None"
    using caching by auto
  have pay: "ref_cnt (objs p' b) = ref_cnt (objs p b) \<and> block_hash (objs p' b) = block_hash (objs p b)" if "b \<notin> set bs" for b
    using sp(2)[OF that] by (simp add: payload_def)
  have "ref_cnt (objs p' b) \<le> max 1 (ref_cnt (objs p b)) \<and> (block_hash (objs p b) = None \<longrightarrow> block_hash (objs p' b) = None)" for b
    using pay[of b] sp(3)[of b] by (cases "b \<in> set bs") auto
  then have c: "calm p p'" using sp(1) by (simp add: calm_def)
  moreover have "uncached_private rid p' m'" if "uncached_private rid p' m"
    using that sp(3) by (auto simp: uncached_private_def ncached_def g(2) set_req_blocks_def dest: in_set_dropD)
  ultimately show ?thesis using private_calm by blast
qed

interpretation calm_alloc: calm_operation
  "\<lambda>i m p. stm_allocate_new_blocks m p rid (if mgr_class m = CrossAttentionManager then n_enc else n) main"
  "\<lambda>i blocks m. 0 \<le> main \<and> attention_manager m" rid for rid n_enc n main
proof (unfold_locales, goal_cases)
  case (1 i m p a m' p' R)
  from alloc_new.keeps[OF 1(1) _ 1(3-5)] 1(2) show ?case by simp
next
  case (2 i m p a m' p' R)
  have "base_allocate_new_blocks m p rid n = Inr (a, m', p')" using 2(1,2) by (auto simp: stm_allocate_new_blocks_def attention_manager_def)
  from alloc_calm[OF this 2(5,6)] show ?case .
qed

section \<open>Caching\<close>

text \<open>Block sizes are multiples of the hash block size, and group ids fit their four bytes.\<close>

definition cacheable :: "BlockPool \<Rightarrow> SingleTypeKVCacheManager \<Rightarrow> bool" where
  "cacheable p m \<longleftrightarrow> 0 < hash_block_size p \<and> hash_block_size p dvd block_size m \<and> 0 \<le> kv_cache_group_id m \<and> kv_cache_group_id m < 2 ^ 32"

lemma slice_in_range:
  assumes "0 \<le> i" "i \<le> j" "j \<le> int (length xs)"
  shows "py_slice i j xs = take (nat (j - i)) (drop (nat i) xs)"
  using assms by (simp add: py_slice_def slice_pos_def nat_diff_distrib drop_take)

lemma slice_drop_disjoint:
  assumes "distinct (filter P xs)" "b \<in> set (take (j - i) (drop i xs))" "i \<le> j" "P b"
  shows "b \<notin> set (drop j xs)"
proof
  assume d: "b \<in> set (drop j xs)"
  have "b \<in> set (drop i (take j xs))" using assms(2) by (simp add: drop_take)
  then have "b \<in> set (take j xs)" by (rule in_set_dropD)
  moreover have "distinct (filter P (take j xs) @ filter P (drop j xs))" using assms(1) by (metis append_take_drop_id filter_append)
  ultimately show False using d assms(4) by auto
qed

lemma cache_one:
  assumes ok: "manager_ok (pool_blocks p) m" and refs: "refs_match p (\<lambda>b. table_refs (req_to_blocks m) b + R b)" "\<And>b. 0 \<le> R b"
    and m: "attention_manager m" "uncached_private (request_id request) p m" "cacheable p m"
    and n: "n div block_size m \<le> int (length (dd_list (request_id request) (req_to_blocks m)))"
      "n div hash_block_size p \<le> int (length (block_hashes request))"
  defines "rid \<equiv> request_id request"
  shows "\<exists>m' p'. stm_cache_blocks m p request n = Inr (m', p') \<and> (\<forall>r. dd_list r (req_to_blocks m') = dd_list r (req_to_blocks m)) \<and>
    uncached_private rid p' m' \<and> pool_config p' = pool_config p \<and> (\<forall>b. ref_cnt (objs p' b) = ref_cnt (objs p b)) \<and>
    (\<forall>b. b \<notin> set (dd_list rid (req_to_blocks m)) \<longrightarrow> block_hash (objs p' b) = block_hash (objs p b))"
proof -
  let ?t = "dd_list rid (req_to_blocks m)" and ?nc = "ncached rid m" and ?nf = "n div block_size m"
  have cls: "mgr_class m \<noteq> CrossAttentionManager" using m(1) by (auto simp: attention_manager_def)
  show ?thesis
  proof (cases "?nc \<ge> ?nf")
    case True
    then show ?thesis using m(2) cls by (simp add: stm_cache_blocks_def Let_def ncached_def rid_def)
  next
    case False
    have nc: "0 \<le> ?nc" "?nc < ?nf" "?nf \<le> int (length ?t)" using m(2) False n(1) by (auto simp: uncached_private_def rid_def)
    obtain xs where xs: "pool_repr p xs" using refs(1) by (auto simp: refs_match_def)
    have null: "null_block p = Blk 0" using xs pool_ok_refD(4) by (auto simp: pool_repr_def)
    have sl: "py_slice ?nc ?nf ?t = take (nat ?nf - nat ?nc) (drop (nat ?nc) ?t)"
      using slice_in_range[of ?nc ?nf ?t] nc by (simp add: nat_diff_distrib)
    have t: "set ?t \<subseteq> set (pool_blocks p)" "distinct (filter (\<lambda>b. b \<noteq> null_block p) ?t)"
      using manager_okD(2)[OF ok, of rid] null by (auto simp: table_ok_def)
    have sub: "set (py_slice ?nc ?nf ?t) \<subseteq> set (drop (nat ?nc) ?t)" unfolding sl by (meson in_set_takeD subsetI)
    have new: "set (py_slice ?nc ?nf ?t) \<subseteq> set (pool_blocks p)" "distinct (filter (\<lambda>b. b \<noteq> null_block p) (py_slice ?nc ?nf ?t))"
      "\<forall>b \<in> set (py_slice ?nc ?nf ?t). b \<noteq> null_block p \<longrightarrow> block_hash (objs p b) = None"
    proof -
      show "set (py_slice ?nc ?nf ?t) \<subseteq> set (pool_blocks p)" using sub t(1) by (meson in_set_dropD subset_eq)
      have "\<exists>us vs. ?t = us @ py_slice ?nc ?nf ?t @ vs" unfolding sl by (metis append_take_drop_id append.assoc)
      then show "distinct (filter (\<lambda>b. b \<noteq> null_block p) (py_slice ?nc ?nf ?t))" using t(2) by (metis distinct_append filter_append)
      show "\<forall>b \<in> set (py_slice ?nc ?nf ?t). b \<noteq> null_block p \<longrightarrow> block_hash (objs p b) = None"
        using sub m(2) by (auto simp: uncached_private_def rid_def)
    qed
    obtain f where f: "block_size m = f * hash_block_size p" using m(3) by (metis cacheable_def dvd_def mult.commute)
    have h0: "0 < hash_block_size p" using m(3) by (simp add: cacheable_def)
    have f0: "0 < f" using f h0 manager_okD(5)[OF ok] by (simp add: zero_less_mult_iff)
    have "?nf * f * hash_block_size p \<le> n" using minus_mod_eq_div_mult[of n "block_size m"] pos_mod_sign[OF manager_okD(5)[OF ok], of n]
      unfolding mult.assoc f[symmetric] by linarith
    then have "?nf * f \<le> n div hash_block_size p" using h0 by (simp add: le_div_iff_mult_le)
    then have hl: "?nf * f \<le> int (length (block_hashes request))" using n(2) by linarith
    have vg: "valid_group (kv_cache_group_id m)" using m(3) by (simp add: cacheable_def valid_group_def)
    obtain p' where p': "cache_full_blocks request ?t ?nc ?nf (block_size m) (kv_cache_group_id m) p = Inr p'"
      "pool_config p' = pool_config p" "\<forall>b. ref_cnt (objs p' b) = ref_cnt (objs p b)"
      "\<forall>b. b \<notin> set (py_slice ?nc ?nf ?t) \<longrightarrow> objs p' b = objs p b"
      using cache_full_blocks_spec[OF xs nc new vg h0 f f0 hl] by blast
    define m' where "m' = (set_req_blocks rid ?t m)\<lparr>num_cached_block := AList.update rid ?nf (num_cached_block m)\<rparr>"
    have run: "stm_cache_blocks m p request n = Inr (m', p')"
      using p'(1) cls False by (simp add: stm_cache_blocks_def Let_def ncached_def rid_def m'_def)
    have nc': "ncached rid m' = ?nf" "dd_list r (req_to_blocks m') = dd_list r (req_to_blocks m)" for r
      by (simp_all add: m'_def ncached_def set_req_blocks_def map_of_update)
    have "block_hash (objs p' b) = None \<and> ref_cnt (objs p' b) \<le> 1" if b: "b \<in> set (drop (nat ?nf) ?t)" "b \<noteq> null_block p" for b
    proof -
      have "nat ?nc \<le> nat ?nf" using nc by simp
      from slice_drop_disjoint[OF t(2) _ this, of b] b have "b \<notin> set (py_slice ?nc ?nf ?t)" unfolding sl by blast
      moreover have "b \<in> set (drop (nat ?nc) ?t)" by (rule subsetD[OF set_drop_subset_set_drop[OF \<open>nat ?nc \<le> nat ?nf\<close>] b(1)])
      ultimately show ?thesis using p'(4) m(2) b(2) by (auto simp: uncached_private_def rid_def)
    qed
    then have "uncached_private rid p' m'" using nc config_fields(5)[OF p'(2)] by (simp add: uncached_private_def nc')
    moreover have "block_hash (objs p' b) = block_hash (objs p b)" if "b \<notin> set ?t" for b
      using p'(4) that sub by (metis in_set_dropD subset_iff)
    ultimately show ?thesis using run p'(2,3) nc'(2) by blast
  qed
qed

lemma each_cache:
  assumes "kv_ok p ms R" "\<And>b. 0 \<le> R b" and ms: "\<forall>m \<in> set ms. attention_manager m \<and> uncached_private (request_id request) p m \<and> cacheable p m \<and>
      n div block_size m \<le> int (length (dd_list (request_id request) (req_to_blocks m)))"
    and n: "n div hash_block_size p \<le> int (length (block_hashes request))"
  shows "\<exists>as ms' p'. each_manager (\<lambda>i m p. rbind (stm_cache_blocks m p request n) (\<lambda>(m', p'). Inr ((), m', p'))) i ms p = Inr (as, ms', p') \<and>
    list_all2 (\<lambda>m m'. \<forall>r. dd_list r (req_to_blocks m') = dd_list r (req_to_blocks m)) ms ms' \<and>
    (\<forall>m \<in> set ms'. uncached_private (request_id request) p' m) \<and> pool_config p' = pool_config p \<and>
    (\<forall>b. ref_cnt (objs p' b) = ref_cnt (objs p b)) \<and>
    (\<forall>b. (\<forall>m \<in> set ms. b \<notin> set (dd_list (request_id request) (req_to_blocks m))) \<longrightarrow> block_hash (objs p' b) = block_hash (objs p b))"
  using assms
proof (induction ms arbitrary: i p R)
  case Nil
  then show ?case by simp
next
  case (Cons m ms)
  let ?rid = "request_id request" and ?step = "\<lambda>i m p. rbind (stm_cache_blocks m p request n) (\<lambda>(m', p'). Inr ((), m', p'))"
  let ?t = "\<lambda>m. dd_list ?rid (req_to_blocks m)"
  have ok: "manager_ok (pool_blocks p) m" "\<forall>x \<in> set ms. manager_ok (pool_blocks p) x"
    and refs: "refs_match p (\<lambda>b. table_refs (req_to_blocks m) b + (manager_refs ms b + R b))"
    using Cons.prems(1) by (auto simp: kv_ok_def add.assoc)
  have R: "0 \<le> manager_refs ms b + R b" for b using manager_refs_nonneg[of ms b] Cons.prems(2)[of b] by simp
  obtain m1 p1 where st: "stm_cache_blocks m p request n = Inr (m1, p1)" "\<forall>r. dd_list r (req_to_blocks m1) = dd_list r (req_to_blocks m)"
    "uncached_private ?rid p1 m1" "pool_config p1 = pool_config p" "\<And>b. ref_cnt (objs p1 b) = ref_cnt (objs p b)"
    "\<And>b. b \<notin> set (?t m) \<Longrightarrow> block_hash (objs p1 b) = block_hash (objs p b)"
    using cache_one[OF ok(1) refs R, of request n] Cons.prems(3,4) by auto
  note cf = config_fields[OF st(4)]
  have "?step i m p = Inr ((), m1, p1)" by (simp add: st(1))
  from cache_tables.keeps[OF this _ ok(1) R refs]
  have k: "manager_ok (pool_blocks p) m1" "refs_match p1 (\<lambda>b. table_refs (req_to_blocks m1) b + (manager_refs ms b + R b))" by auto
  obtain xs where xs: "pool_repr p xs" "\<And>b. b \<in> usable p \<Longrightarrow> ref_cnt (objs p b) = table_refs (req_to_blocks m) b + (manager_refs ms b + R b)"
    using refs_match_free_list[OF refs] by blast
  have pok: "pool_ok p (set xs)" using xs(1) by (simp add: pool_repr_def)
  have null: "null_block p = Blk 0" by (rule pool_ok_refD(4)[OF pok])
  have alone: "b \<notin> set (?t x)" if b: "b \<in> set (?t m)" "b \<noteq> null_block p" "ref_cnt (objs p b) \<le> 1" and x: "x \<in> set ms" for b x
  proof
    assume bx: "b \<in> set (?t x)"
    have "b \<in> set (pool_blocks p)" using manager_okD(2)[OF ok(1), of ?rid] b(1) by (auto simp: table_ok_def)
    then have us: "b \<in> usable p" using b(2) blocks_cases[OF pok, of b] null by auto
    have "0 < table_refs (req_to_blocks m) b" using table_member_refs[OF ok(1) b(1), of "\<lambda>_. 0"] by simp
    moreover have "manager_refs ms b \<noteq> 0" using manager_refs_zero_iff[OF ok(2), of b] x bx by blast
    then have "0 < manager_refs ms b" using manager_refs_nonneg[of ms b] by simp
    ultimately show False using xs(2)[OF us] b(3) Cons.prems(2)[of b] by simp
  qed
  have ready1: "uncached_private ?rid p1 x" if x: "x \<in> set ms" for x
  proof -
    have r: "uncached_private ?rid p x" using Cons.prems(3) x by simp
    have "block_hash (objs p1 b) = None" if b: "b \<in> set (drop (nat (ncached ?rid x)) (?t x))" "b \<noteq> null_block p" for b
    proof -
      have "block_hash (objs p b) = None" "ref_cnt (objs p b) \<le> 1" using r b by (auto simp: uncached_private_def)
      moreover have "b \<notin> set (?t m)" using alone[OF _ b(2) calculation(2) x] b(1) by (auto dest: in_set_dropD)
      ultimately show ?thesis using st(6) by simp
    qed
    then show ?thesis using r unfolding uncached_private_def cf(5) st(5) by blast
  qed
  have "kv_ok p1 ms (\<lambda>b. table_refs (req_to_blocks m1) b + R b)" using k(2) ok(2) cf(4) by (auto simp: kv_ok_def algebra_simps)
  moreover have "0 \<le> table_refs (req_to_blocks m1) b + R b" for b
    using count_list_nonneg_table[of "req_to_blocks m1" b] Cons.prems(2)[of b] by simp
  moreover have "\<forall>x \<in> set ms. attention_manager x \<and> uncached_private ?rid p1 x \<and> cacheable p1 x \<and> n div block_size x \<le> int (length (?t x))"
    using Cons.prems(3) ready1 cf(3) by (simp add: cacheable_def)
  moreover have "n div hash_block_size p1 \<le> int (length (block_hashes request))" using Cons.prems(4) cf(3) by simp
  ultimately obtain as ms' p' where r: "each_manager ?step (Suc i) ms p1 = Inr (as, ms', p')"
    "list_all2 (\<lambda>m m'. \<forall>r. dd_list r (req_to_blocks m') = dd_list r (req_to_blocks m)) ms ms'"
    "\<forall>m \<in> set ms'. uncached_private ?rid p' m" "pool_config p' = pool_config p1" "\<And>b. ref_cnt (objs p' b) = ref_cnt (objs p1 b)"
    "\<And>b. \<forall>m \<in> set ms. b \<notin> set (?t m) \<Longrightarrow> block_hash (objs p' b) = block_hash (objs p1 b)"
    using Cons.IH[of p1 "\<lambda>b. table_refs (req_to_blocks m1) b + R b" "Suc i"] by blast
  have "uncached_private ?rid p' m1"
  proof -
    have "block_hash (objs p' b) = None" if b: "b \<in> set (drop (nat (ncached ?rid m1)) (?t m1))" "b \<noteq> null_block p" for b
    proof -
      have h: "block_hash (objs p1 b) = None" "ref_cnt (objs p b) \<le> 1" using st(3) b cf(5) by (auto simp: uncached_private_def st(5))
      have "b \<in> set (?t m)" using b(1) st(2) by (auto dest: in_set_dropD)
      then have "\<forall>x \<in> set ms. b \<notin> set (?t x)" using alone b(2) h(2) by blast
      then show ?thesis using r(6) h(1) by simp
    qed
    then show ?thesis using st(3) config_fields(5)[OF r(4)] unfolding uncached_private_def r(5) cf(5) by simp
  qed
  moreover have run: "each_manager ?step i (m # ms) p = Inr (() # as, m1 # ms', p')" using st(1) r(1) by simp
  ultimately show ?case using st(2,4-6) r(2-6)
    by (intro exI[of _ "() # as"] exI[of _ "m1 # ms'"] exI[of _ p'] conjI) (rule run, simp_all)
qed

text \<open>The caching step of a request whose tables reach the tokens to cache returns; tables and counts stay as they are.\<close>

lemma cache_stage:
  assumes "coord_ok c" "\<forall>m \<in> set (single_type_managers c). attention_manager m \<and> uncached_private (request_id request) (c_block_pool c) m \<and>
      cacheable (c_block_pool c) m \<and> n div block_size m \<le> int (length (dd_list (request_id request) (req_to_blocks m)))"
    "n div hash_block_size (c_block_pool c) \<le> int (length (block_hashes request))"
  shows "\<exists>c'. coord_cache_blocks c request n = Inr c' \<and> length (single_type_managers c') = length (single_type_managers c) \<and>
    (\<forall>j < length (single_type_managers c). \<forall>r. dd_list r (req_to_blocks (single_type_managers c' ! j)) = dd_list r (req_to_blocks (single_type_managers c ! j))) \<and>
    (\<forall>m \<in> set (single_type_managers c'). uncached_private (request_id request) (c_block_pool c') m)"
  using each_cache[OF assms(1) _ assms(2,3), of 0] by (fastforce simp: coord_cache_blocks_def on_managers_def list_all2_conv_all_nth)

end
