(* ===== verification/KV_Slots.thy ===== *)
theory KV_Slots
  imports KV_Caching
begin

text \<open>
  When \<^verbatim>\<open>allocate_slots\<close> grants blocks. The count made before anything is allocated must be enough for
  what the groups then take, one after the other, from the shared pool. The locale
  \<open>budget_operation\<close> extends the contract of a manager's operation by its cost in free blocks;
  inside it, a budget that covers all groups is shown to suffice for the whole run.
\<close>

section \<open>Operations with a price\<close>

fun run_cost :: "(nat \<Rightarrow> SingleTypeKVCacheManager \<Rightarrow> int) \<Rightarrow> nat \<Rightarrow> SingleTypeKVCacheManager list \<Rightarrow> int" where
  "run_cost f i [] = 0"
| "run_cost f i (m # ms) = f i m + run_cost f (Suc i) ms"

locale budget_operation = table_operation +
  fixes cost :: "nat \<Rightarrow> SingleTypeKVCacheManager \<Rightarrow> BlockPool \<Rightarrow> int"
    and post :: "nat \<Rightarrow> SingleTypeKVCacheManager \<Rightarrow> SingleTypeKVCacheManager \<Rightarrow> bool"
  assumes cost_nonneg: "0 \<le> cost i m p"
    and pays: "\<lbrakk>pre i (pool_blocks p) m; manager_ok (pool_blocks p) m; \<And>b. 0 \<le> R b;
      refs_match p (\<lambda>b. table_refs (req_to_blocks m) b + R b); cost i m p \<le> get_num_free_blocks p\<rbrakk> \<Longrightarrow>
      \<exists>a m' p'. step i m p = Inr (a, m', p') \<and> get_num_free_blocks p - cost i m p \<le> get_num_free_blocks p' \<and> post i m m' \<and>
        (\<forall>j m2. cost j m2 p' \<le> cost j m2 p)"
begin

lemma run_cost_mono: "\<forall>j m2. cost j m2 p' \<le> cost j m2 p \<Longrightarrow> run_cost (\<lambda>j m. cost j m p') i ms \<le> run_cost (\<lambda>j m. cost j m p) i ms"
  by (induction ms arbitrary: i) (auto intro: add_mono)

lemma run_cost_nonneg: "0 \<le> run_cost (\<lambda>j m. cost j m p) i ms"
  by (induction ms arbitrary: i) (auto simp: cost_nonneg)

lemma each_pays:
  assumes "kv_ok p ms R" "\<And>b. 0 \<le> R b" "\<And>j. j < length ms \<Longrightarrow> pre (i + j) (pool_blocks p) (ms ! j)"
    "run_cost (\<lambda>j m. cost j m p) i ms \<le> get_num_free_blocks p"
  shows "\<exists>as ms' p'. each_manager step i ms p = Inr (as, ms', p') \<and> length ms' = length ms \<and>
    get_num_free_blocks p - run_cost (\<lambda>j m. cost j m p) i ms \<le> get_num_free_blocks p' \<and> (\<forall>j < length ms. post (i + j) (ms ! j) (ms' ! j))"
  using assms
proof (induction ms arbitrary: i p R)
  case Nil
  then show ?case by simp
next
  case (Cons m ms)
  have ok: "manager_ok (pool_blocks p) m" "\<forall>x \<in> set ms. manager_ok (pool_blocks p) x"
    "refs_match p (\<lambda>b. table_refs (req_to_blocks m) b + (manager_refs ms b + R b))"
    using Cons.prems(1) by (auto simp: kv_ok_def add.assoc)
  have R: "0 \<le> manager_refs ms b + R b" for b using manager_refs_nonneg[of ms b] Cons.prems(2)[of b] by simp
  have pr: "pre i (pool_blocks p) m" using Cons.prems(3)[of 0] by simp
  have c: "cost i m p \<le> get_num_free_blocks p" using Cons.prems(4) run_cost_nonneg[of p "Suc i" ms] by simp
  obtain a m1 p1 where st: "step i m p = Inr (a, m1, p1)" "get_num_free_blocks p - cost i m p \<le> get_num_free_blocks p1"
    "post i m m1" "\<forall>j m2. cost j m2 p1 \<le> cost j m2 p" using pays[OF pr ok(1) R ok(3) c] by blast
  have k: "refs_match p1 (\<lambda>b. table_refs (req_to_blocks m1) b + (manager_refs ms b + R b))" "pool_config p1 = pool_config p"
    using keeps[OF st(1) pr ok(1) R ok(3)] by auto
  have pb: "pool_blocks p1 = pool_blocks p" by (rule config_fields(4)[OF k(2)])
  have "kv_ok p1 ms (\<lambda>b. table_refs (req_to_blocks m1) b + R b)" using k(1) ok(2) pb by (auto simp: kv_ok_def algebra_simps)
  moreover have "0 \<le> table_refs (req_to_blocks m1) b + R b" for b
    using count_list_nonneg_table[of "req_to_blocks m1" b] Cons.prems(2)[of b] by simp
  moreover have "pre (Suc i + j) (pool_blocks p1) (ms ! j)" if "j < length ms" for j using Cons.prems(3)[of "Suc j"] that pb by simp
  moreover have le: "run_cost (\<lambda>j m. cost j m p1) (Suc i) ms \<le> run_cost (\<lambda>j m. cost j m p) (Suc i) ms" by (rule run_cost_mono[OF st(4)])
  moreover have "run_cost (\<lambda>j m. cost j m p1) (Suc i) ms \<le> get_num_free_blocks p1" using Cons.prems(4) st(2) le by simp
  ultimately obtain as ms' p' where r: "each_manager step (Suc i) ms p1 = Inr (as, ms', p')" "length ms' = length ms"
    "get_num_free_blocks p1 - run_cost (\<lambda>j m. cost j m p1) (Suc i) ms \<le> get_num_free_blocks p'" "\<forall>j < length ms. post (Suc i + j) (ms ! j) (ms' ! j)"
    using Cons.IH by blast
  have "\<forall>j < length (m # ms). post (i + j) ((m # ms) ! j) ((m1 # ms') ! j)"
    using st(3) r(4) by (auto simp: nth_Cons less_Suc_eq_0_disj split: nat.splits)
  then show ?case using st r le by auto
qed

lemma on_managers_pays:
  assumes "kv_ok (c_block_pool c) (single_type_managers c) (\<lambda>_. 0)"
    "\<And>j. j < length (single_type_managers c) \<Longrightarrow> pre j (pool_blocks (c_block_pool c)) (single_type_managers c ! j)"
    "run_cost (\<lambda>j m. cost j m (c_block_pool c)) 0 (single_type_managers c) \<le> get_num_free_blocks (c_block_pool c)"
  shows "\<exists>as c'. on_managers step c = Inr (as, c') \<and> length (single_type_managers c') = length (single_type_managers c) \<and>
    get_num_free_blocks (c_block_pool c) - run_cost (\<lambda>j m. cost j m (c_block_pool c)) 0 (single_type_managers c) \<le> get_num_free_blocks (c_block_pool c') \<and>
    (\<forall>j < length (single_type_managers c). post j (single_type_managers c ! j) (single_type_managers c' ! j))"
  using each_pays[of "c_block_pool c" "single_type_managers c" "\<lambda>_. 0" 0] assms by (fastforce simp: on_managers_def)

end

section \<open>The operations of attention managers\<close>

definition blocks_missing :: "string \<Rightarrow> int \<Rightarrow> SingleTypeKVCacheManager \<Rightarrow> int" where
  "blocks_missing rid n m = max 0 (cdiv n (block_size m) - int (length (dd_list rid (req_to_blocks m))))"

lemma alloc_pays:
  assumes refs: "refs_match p R" and k: "blocks_missing rid n m \<le> get_num_free_blocks p"
  shows "\<exists>bs p'. base_allocate_new_blocks m p rid n = Inr (bs, set_req_blocks rid (dd_list rid (req_to_blocks m) @ bs) m, p') \<and>
    int (length bs) = blocks_missing rid n m \<and> get_num_free_blocks p' = get_num_free_blocks p - blocks_missing rid n m"
proof (cases "cdiv n (block_size m) - int (length (dd_list rid (req_to_blocks m))) \<le> 0")
  case True
  then show ?thesis by (simp add: base_allocate_new_blocks_def blocks_missing_def Let_def)
next
  case False
  let ?k = "cdiv n (block_size m) - int (length (dd_list rid (req_to_blocks m)))"
  obtain xs where xs: "pool_repr p xs" using refs by (auto simp: refs_match_def)
  then have "get_num_free_blocks p = int (length xs)" by (simp add: get_num_free_blocks_def pool_repr_def fq_repr_def)
  then obtain bs p' where g: "get_new_blocks ?k p = Inr (bs, p')"
    using get_new_blocks_spec[OF xs, of ?k] False k by (auto simp: blocks_missing_def)
  have "0 \<le> ?k" using False by simp
  from refs_match_alloc(6,8)[OF refs this g] show ?thesis
    using g False by (simp add: base_allocate_new_blocks_def blocks_missing_def Let_def)
qed

interpretation take_new: budget_operation
  "\<lambda>i m p. stm_allocate_new_blocks m p rid (if mgr_class m = CrossAttentionManager then n_enc else n) main"
  "\<lambda>i blocks m. 0 \<le> main \<and> attention_manager m" "\<lambda>i m p. blocks_missing rid n m"
  "\<lambda>i m m'. \<exists>bs. m' = set_req_blocks rid (dd_list rid (req_to_blocks m) @ bs) m \<and> int (length bs) = blocks_missing rid n m"
  for rid n_enc n main
proof (unfold_locales, goal_cases)
  case (1 i m p)
  then show ?case by (simp add: blocks_missing_def)
next
  case (2 i p m R)
  from alloc_pays[OF 2(4,5)] 2(1) show ?case by (auto simp: stm_allocate_new_blocks_def attention_manager_def)
qed

lemma evictable_touch:
  assumes "refs_match p R" "\<And>b. 0 \<le> R b" "set bs \<subseteq> set (pool_blocks p)" "touch bs p = Inr p'"
  shows "get_num_evictable_blocks p' hs \<le> get_num_evictable_blocks p hs"
proof -
  obtain xs where xs: "pool_repr p xs" "\<And>b. b \<in> usable p \<Longrightarrow> ref_cnt (objs p b) = R b"
    using refs_match_free_list[OF assms(1)] by blast
  have ok: "pool_ok p (set xs)" using xs(1) by (simp add: pool_repr_def)
  have t: "refs_only p p'" "\<And>x. ref_cnt (objs p' x) = ref_cnt (objs p x) + int (count_list bs x)"
    using touch_spec[OF xs(1) assms(3)] assms(4) by auto
  have null: "is_null (objs p' b) = is_null (objs p b)" for b using t(1) by (simp add: refs_only_def)
  have "ref_cnt (objs p b) = 0" if "ref_cnt (objs p' b) = 0" "\<not> is_null (objs p b)" for b
  proof (cases "b \<in> set bs")
    case True
    then have "b \<in> usable p" using assms(3) blocks_cases[OF ok, of b] is_null_iff[OF ok, of b] that(2) by auto
    then show ?thesis using t(2)[of b] that(1) xs(2)[of b] assms(2)[of b] by simp
  qed (use t(2)[of b] that(1) in \<open>simp add: count_list_0_iff\<close>)
  then have "length (filter (\<lambda>b. ref_cnt (objs p' b) = 0 \<and> \<not> is_null (objs p' b)) hs) \<le>
    length (filter (\<lambda>b. ref_cnt (objs p b) = 0 \<and> \<not> is_null (objs p b)) hs)"
    by (induction hs) (auto simp: null)
  then show ?thesis by (simp add: get_num_evictable_blocks_def)
qed

text \<open>Taking hits: a fresh request, hits that fill the computed tokens exactly, nothing external.\<close>

lemma take_hits_run:
  assumes fresh: "map_of (num_cached_block m) rid = None" "dd_list rid (req_to_blocks m) = []" "mgr_enable_caching m"
    and ok: "manager_ok (pool_blocks p) m" and refs: "refs_match p R" "\<And>b. 0 \<le> R b" and new: "table_ok (pool_blocks p) new"
  shows "\<exists>p'. base_allocate_new_computed_blocks m p rid new loc 0 =
      Inr ((set_req_blocks rid (hit_table m new loc) m)
             \<lparr>num_cached_block := AList.update rid (int (length (hit_table m new loc))) (num_cached_block m)\<rparr>, p') \<and>
    get_num_free_blocks p - get_num_evictable_blocks p (kept_hits m new loc) \<le> get_num_free_blocks p' \<and>
    (\<forall>hs. get_num_evictable_blocks p' hs \<le> get_num_evictable_blocks p hs)"
proof -
  have sub: "set (kept_hits m new loc) \<subseteq> set (pool_blocks p)" using hit_table_ok(2)[OF ok new] by (simp add: table_ok_def)
  obtain p' where p': "touch (kept_hits m new loc) p = Inr p'"
    "get_num_free_blocks p - get_num_evictable_blocks p (kept_hits m new loc) \<le> get_num_free_blocks p'"
    using refs_match_touch[OF refs(1) sub] by blast
  have "\<not> 0 < (if get_num_skipped_tokens m loc div block_size m > 0 then min (loc - get_num_skipped_tokens m loc) 0 else 0)" by simp
  then have "base_allocate_new_computed_blocks m p rid new loc 0 =
      Inr ((set_req_blocks rid (hit_table m new loc) m)
             \<lparr>num_cached_block := AList.update rid (int (length (hit_table m new loc))) (num_cached_block m)\<rparr>, p')"
    using fresh p'(1) by (simp add: base_allocate_new_computed_blocks_def Let_def hit_table_def kept_hits_def)
  then show ?thesis using p'(2) evictable_touch[OF refs(1,2) sub p'(1)] by blast
qed

definition fresh_manager :: "string \<Rightarrow> SingleTypeKVCacheManager \<Rightarrow> bool" where
  "fresh_manager rid m \<longleftrightarrow> attention_manager m \<and> map_of (num_cached_block m) rid = None \<and>
     dd_list rid (req_to_blocks m) = [] \<and> mgr_enable_caching m"

interpretation take_hits: budget_operation
  "\<lambda>i m p. rbind (py_index new (int i)) (\<lambda>bs.
     rbind (stm_allocate_new_computed_blocks m p rid bs loc 0) (\<lambda>(m', p'). Inr ((), m', p')))"
  "\<lambda>i blocks m. hits_ok loc 0 new i blocks m \<and> fresh_manager rid m"
  "\<lambda>i m p. if i < length new then get_num_evictable_blocks p (kept_hits m (new ! i) loc) else 0"
  "\<lambda>i m m'. m' = (set_req_blocks rid (hit_table m (new ! i) loc) m)
     \<lparr>num_cached_block := AList.update rid (int (length (hit_table m (new ! i) loc))) (num_cached_block m)\<rparr>"
  for new rid loc
proof (unfold_locales, goal_cases)
  case (1 i m p a m' p' R)
  from alloc_computed.keeps[OF 1(1) _ 1(3-5)] 1(2) show ?case by simp
next
  case (2 i m p)
  then show ?case by (simp add: get_num_evictable_blocks_def)
next
  case (3 i p m R)
  have i: "i < length new" "table_ok (pool_blocks p) (new ! i)" using 3(1) by (simp_all add: hits_ok_def)
  have f: "map_of (num_cached_block m) rid = None" "dd_list rid (req_to_blocks m) = []" "mgr_enable_caching m"
    "mgr_class m \<noteq> CrossAttentionManager" using 3(1) by (auto simp: fresh_manager_def attention_manager_def)
  have R: "0 \<le> table_refs (req_to_blocks m) b + R b" for b using count_list_nonneg_table[of "req_to_blocks m" b] 3(3)[of b] by simp
  from take_hits_run[OF f(1-3) 3(2,4) R i(2), of loc] show ?case
    using i(1) f(4) py_index_nat[OF i(1)] by (auto simp: stm_allocate_new_computed_blocks_def)
qed

section \<open>Counting\<close>

lemma skipped_nonneg:
  assumes "manager_ok blocks m" "attention_manager m" "0 \<le> n"
  shows "0 \<le> get_num_skipped_tokens m n"
  using assms by (auto simp: get_num_skipped_tokens_def attention_manager_def manager_ok_def pos_imp_zdiv_nonneg_iff)

lemma each_manager_pure:
  assumes "\<And>j. j < length ms \<Longrightarrow> step (i + j) (ms ! j) p = Inr (f (i + j) (ms ! j), ms ! j, p)"
  shows "\<exists>as. each_manager step i ms p = Inr (as, ms, p) \<and> sum_list as = run_cost f i ms"
  using assms
proof (induction ms arbitrary: i)
  case (Cons m ms)
  have "\<exists>as. each_manager step (Suc i) ms p = Inr (as, ms, p) \<and> sum_list as = run_cost f (Suc i) ms"
    by (rule Cons.IH) (use Cons.prems[of "Suc _"] in simp)
  then show ?case using Cons.prems[of 0] by auto
qed simp

text \<open>The price of a request: missing blocks, and hits that leave the free queue.\<close>

definition slot_cost :: "string \<Rightarrow> int \<Rightarrow> int \<Rightarrow> bref list list \<Rightarrow> BlockPool \<Rightarrow> nat \<Rightarrow> SingleTypeKVCacheManager \<Rightarrow> int" where
  "slot_cost rid n loc new p i m =
     max 0 (cdiv n (block_size m) - int (length (dd_list rid (req_to_blocks m))) - int (length (new ! i))) +
     get_num_evictable_blocks p (kept_hits m (new ! i) loc)"

text \<open>Table and hits together reach the computed tokens.\<close>

definition covers :: "string \<Rightarrow> int \<Rightarrow> bref list list \<Rightarrow> nat \<Rightarrow> SingleTypeKVCacheManager \<Rightarrow> bool" where
  "covers rid loc new i m \<longleftrightarrow> i < length new \<and>
     loc \<le> (int (length (dd_list rid (req_to_blocks m))) + int (length (new ! i))) * block_size m \<and>
     (new ! i = [] \<or> dd_list rid (req_to_blocks m) = [] \<and> map_of (num_cached_block m) rid = None)"

lemma covers_skip:
  assumes ok: "manager_ok blocks m" and m: "attention_manager m" "covers rid loc new i m" "0 \<le> loc"
  shows "get_num_skipped_tokens m loc div block_size m \<le> int (length (dd_list rid (req_to_blocks m))) + int (length (new ! i))"
    "0 \<le> get_num_skipped_tokens m loc div block_size m"
proof -
  have b: "0 < block_size m" by (rule manager_okD(5)[OF ok])
  have "get_num_skipped_tokens m loc \<le> (int (length (dd_list rid (req_to_blocks m))) + int (length (new ! i))) * block_size m"
    using skipped_le[OF ok m(3)] m(2) by (simp add: covers_def)
  then show "get_num_skipped_tokens m loc div block_size m \<le> int (length (dd_list rid (req_to_blocks m))) + int (length (new ! i))"
    using zdiv_mono1[of _ _ "block_size m"] b by fastforce
  show "0 \<le> get_num_skipped_tokens m loc div block_size m"
    using skipped_nonneg[OF ok m(1,3)] b by (simp add: pos_imp_zdiv_nonneg_iff)
qed

lemma count_slot_cost:
  assumes ok: "manager_ok blocks m" and m: "attention_manager m" "covers rid loc new i m" "0 \<le> loc"
  shows "base_num_blocks_to_allocate m p rid n (new ! i) loc = Inr (slot_cost rid n loc new p i m)"
proof -
  let ?len = "int (length (dd_list rid (req_to_blocks m)))" and ?hits = "int (length (new ! i))"
  let ?skip = "get_num_skipped_tokens m loc div block_size m"
  note skip = covers_skip(1)[OF ok m] and nonneg = covers_skip(2)[OF ok m]
  show ?thesis
  proof (cases "new ! i = []")
    case True
    then show ?thesis using skip
      by (simp add: base_num_blocks_to_allocate_def Let_def slot_cost_def kept_hits_eq get_num_evictable_blocks_def py_drop_def max.commute)
  next
    case False
    then have "dd_list rid (req_to_blocks m) = []" "map_of (num_cached_block m) rid = None" using m(2) by (auto simp: covers_def)
    moreover have "py_drop ?skip (new ! i) = kept_hits m (new ! i) loc" using nonneg by (simp add: kept_hits_eq py_drop_def slice_pos_def)
    ultimately show ?thesis using skip nonneg
      by (simp add: base_num_blocks_to_allocate_def Let_def slot_cost_def algebra_simps max_def)
  qed
qed

lemma run_cost_cong:
  assumes "length ms' = length ms" "\<And>j. j < length ms \<Longrightarrow> f (i + j) (ms ! j) = g (i + j) (ms' ! j)"
  shows "run_cost f i ms = run_cost g i ms'"
  using assms
proof (induction ms arbitrary: i ms')
  case (Cons m ms)
  obtain m' ms1 where ms': "ms' = m' # ms1" using Cons.prems(1) by (cases ms') auto
  have "run_cost f (Suc i) ms = run_cost g (Suc i) ms1"
    by (rule Cons.IH) (use Cons.prems(1) Cons.prems(2)[of "Suc _"] ms' in simp_all)
  then show ?case using Cons.prems(2)[of 0] ms' by simp
qed simp

lemma run_cost_ge0: "(\<And>j m. 0 \<le> f j m) \<Longrightarrow> 0 \<le> run_cost f i ms"
  by (induction ms arbitrary: i) (auto intro: add_nonneg_nonneg)

lemma run_cost_add: "run_cost (\<lambda>i m. f i m + g i m) i ms = run_cost f i ms + run_cost g i ms"
  by (induction ms arbitrary: i) simp_all

lemma each_manager_length: "each_manager step i ms p = Inr (as, ms', p') \<Longrightarrow> length ms' = length ms"
  by (induction ms arbitrary: i p as ms') (auto simp: rbind_Inr_iff)

section \<open>Releasing skipped blocks\<close>

interpretation safe_skip: safe_table_operation
  "\<lambda>i m p. rbind (stm_remove_skipped_blocks m p rid n) (\<lambda>(m', p'). Inr ((), m', p'))"
  "\<lambda>i blocks m. attention_manager m" for rid n
proof (unfold_locales, goal_cases)
  case (1 i p m R)
  then show ?case using base_remove_skipped_total[of p m R rid n]
    by (auto simp: stm_remove_skipped_blocks_def attention_manager_def)
qed

definition same_length :: "string \<Rightarrow> SingleTypeKVCacheManager \<Rightarrow> SingleTypeKVCacheManager \<Rightarrow> bool" where
  "same_length rid m m' \<longleftrightarrow> m' = m \<or> (\<exists>t. m' = set_req_blocks rid t m \<and> length t = length (dd_list rid (req_to_blocks m)))"

lemma remove_skipped_same_length:
  assumes "stm_remove_skipped_blocks m p rid n = Inr (m', p')" "attention_manager m"
  shows "same_length rid m m'"
proof -
  let ?old = "dd_list rid (req_to_blocks m)"
  let ?k = "nat (min (get_num_skipped_tokens m n div block_size m) (int (length ?old)))"
  obtain removed t where sl: "skip_loop (mgr_null_block m) ?k ?old = (removed, t)" by fastforce
  have "length (snd (skip_loop null k bs)) = length bs" for null k bs
    by (induction null k bs rule: skip_loop.induct) (auto simp: Let_def split_beta)
  from this[of "mgr_null_block m" ?k ?old] have "length t = length ?old" by (simp add: sl)
  then show ?thesis using assms sl
    by (auto simp: stm_remove_skipped_blocks_def attention_manager_def base_remove_skipped_blocks_def Let_def rbind_Inr_iff
        same_length_def split: if_splits)
qed

lemma same_length_facts:
  assumes "same_length rid m m'"
  shows "length (dd_list rid (req_to_blocks m')) = length (dd_list rid (req_to_blocks m))" "block_size m' = block_size m"
    "num_cached_block m' = num_cached_block m" "attention_manager m' = attention_manager m" "mgr_enable_caching m' = mgr_enable_caching m"
    "get_num_skipped_tokens m' n = get_num_skipped_tokens m n" "kv_cache_group_id m' = kv_cache_group_id m"
  using assms by (auto simp: same_length_def set_req_blocks_def attention_manager_def get_num_skipped_tokens_def split: manager_class.splits)

abbreviation all_private :: "string \<Rightarrow> KVCacheCoordinator \<Rightarrow> bool" where
  "all_private rid c \<equiv> \<forall>m \<in> set (single_type_managers c). uncached_private rid (c_block_pool c) m"

lemma skip_stage:
  assumes "coord_ok c" "\<forall>m \<in> set (single_type_managers c). attention_manager m"
  shows "\<exists>c1. coord_remove_skipped_blocks c rid n = Inr c1 \<and> coord_ok c1 \<and>
    pool_blocks (c_block_pool c1) = pool_blocks (c_block_pool c) \<and>
    list_all2 (same_length rid) (single_type_managers c) (single_type_managers c1) \<and>
    pool_config (c_block_pool c1) = pool_config (c_block_pool c) \<and> (enable_caching (c_block_pool c) \<and> all_private rid c \<longrightarrow> all_private rid c1)"
proof -
  let ?step = "\<lambda>i m p. rbind (stm_remove_skipped_blocks m p rid n) (\<lambda>(m', p'). Inr ((), m', p'))"
  obtain as c1 where run: "on_managers ?step c = Inr (as, c1)"
    using safe_skip.on_managers_returns[of c rid n] assms by auto
  then have c1: "coord_remove_skipped_blocks c rid n = Inr c1" by (simp add: coord_remove_skipped_blocks_def)
  obtain ms p where e: "each_manager ?step 0 (single_type_managers c) (c_block_pool c) = Inr (as, ms, p)" "single_type_managers c1 = ms"
    using run by (auto simp: on_managers_def rbind_Inr_iff)
  have "list_all2 (\<lambda>m m'. attention_manager m \<longrightarrow> same_length rid m m') (single_type_managers c) ms"
    by (rule each_manager_rel[OF e(1)]) (auto simp: rbind_Inr_iff remove_skipped_same_length)
  then have "list_all2 (same_length rid) (single_type_managers c) ms"
    using assms(2) by (auto simp: list_all2_conv_all_nth)
  moreover have "all_private rid c1" if "enable_caching (c_block_pool c)" "all_private rid c"
    using calm_skip.on_managers_calm[OF run assms(1) _ that] assms(2) by simp
  ultimately show ?thesis using c1 coord_keeps(1)[OF c1 assms(1)] config_fields(4)[of "c_block_pool c1" "c_block_pool c"] e(2) by auto
qed

section \<open>The whole request\<close>

lemma count_stage:
  assumes ok: "coord_ok c" and ms: "\<forall>m \<in> set (single_type_managers c). attention_manager m" "0 \<le> loc"
    and cov: "\<forall>j < length (single_type_managers c). covers rid loc new j (single_type_managers c ! j)"
  shows "coord_num_blocks_to_allocate c rid n new enc loc main =
    Inr (run_cost (slot_cost rid n loc new (c_block_pool c)) 0 (single_type_managers c), c)"
proof -
  let ?ms = "single_type_managers c" and ?p = "c_block_pool c"
  let ?step = "\<lambda>i m p. rbind (if mgr_class m = CrossAttentionManager then stm_num_blocks_to_allocate m p rid enc [] 0 enc
     else rbind (py_index new (int i)) (\<lambda>bs. stm_num_blocks_to_allocate m p rid n bs loc main)) (\<lambda>(n, m'). Inr (n, m', p))"
  have "?step (0 + j) (?ms ! j) ?p = Inr (slot_cost rid n loc new ?p (0 + j) (?ms ! j), ?ms ! j, ?p)" if j: "j < length ?ms" for j
  proof -
    have m: "attention_manager (?ms ! j)" "manager_ok (pool_blocks ?p) (?ms ! j)" using ms(1) ok j by (simp_all add: kv_ok_def)
    have "j < length new" using cov j by (simp add: covers_def)
    then show ?thesis using count_slot_cost[OF m(2,1) _ ms(2), of rid new j ?p n] cov j m(1) py_index_nat[of j new]
      by (auto simp: stm_num_blocks_to_allocate_def attention_manager_def)
  qed
  then obtain as where "each_manager ?step 0 ?ms ?p = Inr (as, ?ms, ?p)" "sum_list as = run_cost (slot_cost rid n loc new ?p) 0 ?ms"
    using each_manager_pure[of ?ms ?step 0 ?p "slot_cost rid n loc new ?p"] by blast
  then show ?thesis by (simp add: coord_num_blocks_to_allocate_def on_managers_def)
qed

definition same_kind :: "SingleTypeKVCacheManager \<Rightarrow> SingleTypeKVCacheManager \<Rightarrow> bool" where
  "same_kind m m' \<longleftrightarrow> block_size m' = block_size m \<and> kv_cache_group_id m' = kv_cache_group_id m \<and> attention_manager m' = attention_manager m"

lemma alloc_stage:
  assumes "coord_ok c" "\<forall>m \<in> set (single_type_managers c). attention_manager m" "0 \<le> main"
    "run_cost (\<lambda>j. blocks_missing rid n) 0 (single_type_managers c) \<le> get_num_free_blocks (c_block_pool c)"
  shows "\<exists>bss c'. coord_allocate_new_blocks c rid n main enc = Inr (bss, c') \<and> coord_ok c' \<and>
    pool_config (c_block_pool c') = pool_config (c_block_pool c) \<and> (enable_caching (c_block_pool c) \<and> all_private rid c \<longrightarrow> all_private rid c') \<and>
    list_all2 same_kind (single_type_managers c) (single_type_managers c') \<and>
    (\<forall>j < length (single_type_managers c). cdiv n (block_size (single_type_managers c ! j)) \<le>
       int (length (dd_list rid (req_to_blocks (single_type_managers c' ! j)))))"
proof -
  let ?ms = "single_type_managers c"
  obtain bss c' where r: "coord_allocate_new_blocks c rid n main enc = Inr (bss, c')" "length (single_type_managers c') = length ?ms"
    "\<forall>j < length ?ms. \<exists>bs. single_type_managers c' ! j = set_req_blocks rid (dd_list rid (req_to_blocks (?ms ! j)) @ bs) (?ms ! j) \<and>
       int (length bs) = blocks_missing rid n (?ms ! j)"
    using take_new.on_managers_pays[of c main rid n enc] assms by (auto simp: coord_allocate_new_blocks_def)
  have "cdiv n (block_size (?ms ! j)) \<le> int (length (dd_list rid (req_to_blocks (single_type_managers c' ! j))))" if "j < length ?ms" for j
    using r(3) that by (fastforce simp: blocks_missing_def set_req_blocks_def)
  moreover have "list_all2 same_kind ?ms (single_type_managers c')"
    using r(2,3) by (fastforce simp: list_all2_conv_all_nth same_kind_def set_req_blocks_def attention_manager_def)
  moreover have "all_private rid c'" if "enable_caching (c_block_pool c)" "all_private rid c"
    using calm_alloc.on_managers_calm[of rid enc n main c bss c'] r(1) assms that by (auto simp: coord_allocate_new_blocks_def)
  ultimately show ?thesis using r(1) coord_keeps(3)[OF r(1) assms(1,3)] by blast
qed

lemma hits_stage:
  assumes ok: "coord_ok c" and fresh: "\<forall>m \<in> set (single_type_managers c). fresh_manager rid m" and loc: "0 \<le> loc"
    and hits: "\<forall>j < length (single_type_managers c). hits_ok loc 0 new j (pool_blocks (c_block_pool c)) (single_type_managers c ! j)"
    and cov: "\<forall>j < length (single_type_managers c). covers rid loc new j (single_type_managers c ! j)"
    and price: "run_cost (slot_cost rid n loc new (c_block_pool c)) 0 (single_type_managers c) \<le> get_num_free_blocks (c_block_pool c)"
  shows "\<exists>c'. coord_allocate_new_computed_blocks c rid new loc 0 = Inr c' \<and> coord_ok c' \<and> all_private rid c' \<and>
    pool_config (c_block_pool c') = pool_config (c_block_pool c) \<and> list_all2 same_kind (single_type_managers c) (single_type_managers c') \<and>
    run_cost (\<lambda>j. blocks_missing rid n) 0 (single_type_managers c') \<le> get_num_free_blocks (c_block_pool c')"
proof -
  let ?ms = "single_type_managers c" and ?p = "c_block_pool c"
  let ?ev = "\<lambda>j m. if j < length new then get_num_evictable_blocks ?p (kept_hits m (new ! j) loc) else 0"
  let ?rest = "\<lambda>j m. max 0 (cdiv n (block_size m) - int (length (dd_list rid (req_to_blocks m))) - int (length (new ! j)))"
  have split: "run_cost (slot_cost rid n loc new ?p) 0 ?ms = run_cost ?rest 0 ?ms + run_cost ?ev 0 ?ms"
    unfolding run_cost_add[symmetric] by (rule run_cost_cong) (use cov in \<open>auto simp: slot_cost_def covers_def\<close>)
  have "0 \<le> run_cost ?rest 0 ?ms" by (rule run_cost_ge0) simp
  then have ev: "run_cost ?ev 0 ?ms \<le> get_num_free_blocks ?p" using price split by simp
  obtain as c' where r: "on_managers (\<lambda>i m p. rbind (py_index new (int i)) (\<lambda>bs.
      rbind (stm_allocate_new_computed_blocks m p rid bs loc 0) (\<lambda>(m', p'). Inr ((), m', p')))) c = Inr (as, c')"
    "length (single_type_managers c') = length ?ms" "get_num_free_blocks ?p - run_cost ?ev 0 ?ms \<le> get_num_free_blocks (c_block_pool c')"
    "\<forall>j < length ?ms. single_type_managers c' ! j = (set_req_blocks rid (hit_table (?ms ! j) (new ! j) loc) (?ms ! j))
       \<lparr>num_cached_block := AList.update rid (int (length (hit_table (?ms ! j) (new ! j) loc))) (num_cached_block (?ms ! j))\<rparr>"
    using take_hits.on_managers_pays[of c loc new rid] ok hits fresh ev by auto
  have run: "coord_allocate_new_computed_blocks c rid new loc 0 = Inr c'" using r(1) by (simp add: coord_allocate_new_computed_blocks_def)
  have ok': "coord_ok c'" "pool_config (c_block_pool c') = pool_config ?p"
    using alloc_computed.on_managers_keeps[OF r(1) ok] hits by auto
  have m': "same_kind (?ms ! j) (single_type_managers c' ! j) \<and> uncached_private rid (c_block_pool c') (single_type_managers c' ! j) \<and>
      blocks_missing rid n (single_type_managers c' ! j) = ?rest j (?ms ! j)" if j: "j < length ?ms" for j
  proof -
    note t = r(4)[rule_format, OF j]
    have f: "fresh_manager rid (?ms ! j)" "manager_ok (pool_blocks ?p) (?ms ! j)" using fresh ok j by (simp_all add: kv_ok_def)
    have "length (hit_table (?ms ! j) (new ! j) loc) = length (new ! j)"
      using covers_skip[OF f(2) _ cov[rule_format, OF j] loc] f(1) by (simp add: hit_table_length fresh_manager_def nat_le_iff)
    then show ?thesis using f(1)
      by (simp add: t blocks_missing_def fresh_manager_def attention_manager_def set_req_blocks_def same_kind_def uncached_private_def ncached_def map_of_update)
  qed
  have "run_cost (\<lambda>j. blocks_missing rid n) 0 (single_type_managers c') = run_cost ?rest 0 ?ms"
    by (rule run_cost_cong[symmetric]) (use r(2) m' in auto)
  moreover have "list_all2 same_kind ?ms (single_type_managers c')" "all_private rid c'"
    using m' r(2) by (auto simp: list_all2_conv_all_nth in_set_conv_nth)
  ultimately show ?thesis using run ok' r(3) price split by auto
qed

lemma slots_stage:
  assumes ok: "coord_ok c" and ms: "\<forall>m \<in> set (single_type_managers c). attention_manager m" "0 \<le> loc" "0 \<le> main"
    and cov: "\<forall>j < length (single_type_managers c). covers rid loc new j (single_type_managers c ! j)"
    and price: "run_cost (slot_cost rid n loc new (c_block_pool c)) 0 (single_type_managers c) \<le> get_num_free_blocks (c_block_pool c)"
    and kind: "\<not> hit \<and> (\<forall>j < length (single_type_managers c). new ! j = []) \<or>
      hit \<and> (\<forall>m \<in> set (single_type_managers c). fresh_manager rid m) \<and>
        (\<forall>j < length (single_type_managers c). hits_ok loc 0 new j (pool_blocks (c_block_pool c)) (single_type_managers c ! j))"
  shows "\<exists>bss c'. rbind (if hit then coord_allocate_new_computed_blocks c rid new loc 0 else Inr c)
      (\<lambda>c3. coord_allocate_new_blocks c3 rid n main enc) = Inr (bss, c') \<and> coord_ok c' \<and>
    pool_config (c_block_pool c') = pool_config (c_block_pool c) \<and> (enable_caching (c_block_pool c) \<and> all_private rid c \<longrightarrow> all_private rid c') \<and>
    list_all2 same_kind (single_type_managers c) (single_type_managers c') \<and>
    (\<forall>j < length (single_type_managers c). cdiv n (block_size (single_type_managers c ! j)) \<le>
       int (length (dd_list rid (req_to_blocks (single_type_managers c' ! j)))))"
  using kind
proof (elim disjE conjE)
  assume h: "\<not> hit" and nil: "\<forall>j < length (single_type_managers c). new ! j = []"
  have "run_cost (\<lambda>j. blocks_missing rid n) 0 (single_type_managers c) =
    run_cost (slot_cost rid n loc new (c_block_pool c)) 0 (single_type_managers c)"
    by (rule run_cost_cong) (use nil in \<open>auto simp: blocks_missing_def slot_cost_def kept_hits_eq get_num_evictable_blocks_def\<close>)
  then show ?thesis using alloc_stage[OF ok ms(1,3)] price h by auto
next
  assume h: hit and fresh: "\<forall>m \<in> set (single_type_managers c). fresh_manager rid m"
    and hits: "\<forall>j < length (single_type_managers c). hits_ok loc 0 new j (pool_blocks (c_block_pool c)) (single_type_managers c ! j)"
  obtain c3 where c3: "coord_allocate_new_computed_blocks c rid new loc 0 = Inr c3" "coord_ok c3"
    "list_all2 same_kind (single_type_managers c) (single_type_managers c3)"
    "run_cost (\<lambda>j. blocks_missing rid n) 0 (single_type_managers c3) \<le> get_num_free_blocks (c_block_pool c3)"
    "all_private rid c3" "pool_config (c_block_pool c3) = pool_config (c_block_pool c)"
    using hits_stage[OF ok fresh ms(2) hits cov price] by blast
  have kinds: "same_kind (single_type_managers c ! j) (single_type_managers c3 ! j)" if "j < length (single_type_managers c)" for j
    using c3(3) that by (simp add: list_all2_conv_all_nth)
  have "\<forall>m \<in> set (single_type_managers c3). attention_manager m"
    using c3(3) ms(1) by (metis in_set_conv_nth list_all2_conv_all_nth same_kind_def)
  from alloc_stage[OF c3(2) this ms(3) c3(4), of enc] obtain bss c' where
    c': "coord_allocate_new_blocks c3 rid n main enc = Inr (bss, c')" "coord_ok c'" "pool_config (c_block_pool c') = pool_config (c_block_pool c3)"
    "enable_caching (c_block_pool c3) \<and> all_private rid c3 \<longrightarrow> all_private rid c'" "list_all2 same_kind (single_type_managers c3) (single_type_managers c')"
    "\<forall>j < length (single_type_managers c3). cdiv n (block_size (single_type_managers c3 ! j)) \<le>
       int (length (dd_list rid (req_to_blocks (single_type_managers c' ! j))))" by blast
  have "list_all2 same_kind (single_type_managers c) (single_type_managers c')"
    using c3(3) c'(5) by (auto simp: list_all2_conv_all_nth same_kind_def)
  moreover have "\<forall>j < length (single_type_managers c). cdiv n (block_size (single_type_managers c ! j)) \<le>
       int (length (dd_list rid (req_to_blocks (single_type_managers c' ! j))))"
    using c'(6) kinds c3(3) by (auto simp: list_all2_conv_all_nth same_kind_def)
  ultimately show ?thesis using c' c3(1,5,6) h config_fields(2)[OF c3(6)] by auto
qed

section \<open>Number of groups\<close>

lemma on_managers_length: "on_managers step c = Inr (as, c') \<Longrightarrow> length (single_type_managers c') = length (single_type_managers c)"
  by (auto simp: on_managers_def rbind_Inr_iff dest: each_manager_length)

lemma coord_lengths:
  "coord_remove_skipped_blocks c rid n = Inr c' \<Longrightarrow> length (single_type_managers c') = length (single_type_managers c)"
  "coord_num_blocks_to_allocate c rid n new enc tot main = Inr (need, c') \<Longrightarrow> length (single_type_managers c') = length (single_type_managers c)"
  "coord_allocate_new_blocks c rid n main enc = Inr (bss, c') \<Longrightarrow> length (single_type_managers c') = length (single_type_managers c)"
  "coord_free c rid = Inr c' \<Longrightarrow> length (single_type_managers c') = length (single_type_managers c)"
  "coord_cache_blocks c request n = Inr c' \<Longrightarrow> length (single_type_managers c') = length (single_type_managers c)"
  "coord_allocate_new_computed_blocks c rid new loc ext = Inr c' \<Longrightarrow> length (single_type_managers c') = length (single_type_managers c)"
  "coord_num_common_prefix_blocks c rid = Inr (ns, c') \<Longrightarrow> length (single_type_managers c') = length (single_type_managers c)"
  by (auto simp: coord_remove_skipped_blocks_def coord_num_blocks_to_allocate_def coord_allocate_new_blocks_def coord_free_def
      coord_cache_blocks_def coord_allocate_new_computed_blocks_def coord_num_common_prefix_blocks_def rbind_Inr_iff
      dest: on_managers_length split: if_splits)

definition groups_match :: "KVCacheManager \<Rightarrow> bool" where
  "groups_match k \<longleftrightarrow> length (single_type_managers (coordinator k)) = num_kv_cache_groups k"

lemma init_groups_match:
  assumes "KVCacheManager_init cfg max_len hsize caching eagle logging events dcp pcp metrics ints = Inr k"
  shows "groups_match k"
proof -
  have im: "init_managers cach d pc i gs p = Inr (ms, p') \<Longrightarrow> length ms = length gs" for cach d pc i gs p ms p'
    by (induction gs arbitrary: i p ms) (auto simp: rbind_Inr_iff)
  have un: "single_type_managers c' = single_type_managers c" if "unitary_init c = Inr c'" for c c'
    using that by (auto simp: unitary_init_def Let_def split: list.splits)
  have hy: "single_type_managers c' = single_type_managers c" if "hybrid_init c = Inr c'" for c c'
    using that by (auto simp: hybrid_init_def verify_and_split_kv_cache_groups_def rbind_Inr_iff split: if_splits)
  show ?thesis using assms
    by (auto simp: KVCacheManager_init_def get_kv_cache_coordinator_def coordinator_base_init_def groups_match_def rbind_Inr_iff
        dest!: im un hy split: if_splits)
qed

lemma reachable_groups_match: "kvm_reachable k \<Longrightarrow> groups_match k"
proof (induction rule: kvm_reachable.induct)
  case (init cfg max_len hsize caching eagle logging events dcp pcp metrics ints k)
  show ?case by (rule init_groups_match[OF init(1)])
next
  case (slots k request new newc given ext look delay enc r k')
  from slots.hyps(3) show ?case
    by (cases rule: allocate_slots_cases) (use slots.IH in \<open>auto simp: groups_match_def dest!: coord_lengths\<close>)
next
  case (reset k b k')
  then show ?case by (auto simp: kvm_reset_prefix_cache_def Let_def groups_match_def on_pool_def split_beta split: if_splits option.splits)
next
  case (lookup k request r k')
  then show ?case by (auto simp: get_computed_blocks_def groups_match_def rbind_Inr_iff split: if_splits option.splits)
qed (auto simp: groups_match_def kvm_free_def kvm_remove_skipped_blocks_def kvm_cache_blocks_def kvm_evict_blocks_def on_pool_def
    kvm_num_common_prefix_blocks_def kvm_take_events_def make_prefix_cache_stats_def rbind_Inr_iff split_beta
    dest!: coord_lengths split: if_splits)

lemma fresh_after_skip:
  "\<lbrakk>list_all2 (same_length rid) ms ms'; \<forall>m \<in> set ms. fresh_manager rid m; m \<in> set ms'\<rbrakk> \<Longrightarrow> fresh_manager rid m"
proof -
  assume l: "list_all2 (same_length rid) ms ms'" and f: "\<forall>m \<in> set ms. fresh_manager rid m" and m: "m \<in> set ms'"
  obtain m0 where m0: "m0 \<in> set ms" "same_length rid m0 m" using l m by (metis in_set_conv_nth list_all2_conv_all_nth)
  have "dd_list rid (req_to_blocks m) = []" using same_length_facts(1)[OF m0(2)] f m0(1) by (simp add: fresh_manager_def)
  then show "fresh_manager rid m" using same_length_facts(3-5)[OF m0(2)] f m0(1) by (simp add: fresh_manager_def)
qed

lemma hits_after_skip:
  "\<lbrakk>list_all2 (same_length rid) ms ms'; j < length ms; hits_ok loc ext new j blocks (ms ! j)\<rbrakk> \<Longrightarrow> hits_ok loc ext new j blocks (ms' ! j)"
  using hits_ok_block_size same_length_facts(2) by (metis list_all2_conv_all_nth)

section \<open>Properties\<close>

text \<open>What the caching step needs of the manager and of the request.\<close>

definition caching_ok :: "KVCacheManager \<Rightarrow> Request \<Rightarrow> int \<Rightarrow> int \<Rightarrow> bool" where
  "caching_ok k request main look \<longleftrightarrow> (let p = c_block_pool (coordinator k) in
     enable_caching p \<and> (\<forall>m \<in> set (single_type_managers (coordinator k)). cacheable p m) \<and>
     main \<le> kvm_max_model_len k \<and> 0 \<le> look \<and> num_tokens request div hash_block_size p \<le> int (length (block_hashes request)))"

lemma full_blocks_le:
  assumes "0 < b" "n \<le> main" "main \<le> slots" "cdiv slots b \<le> int l"
  shows "n div b \<le> int l"
proof -
  have "n div b \<le> slots div b" using assms(1-3) by (intro zdiv_mono1) auto
  also have "\<dots> \<le> cdiv slots b"
  proof -
    have "slots div b * b \<le> slots" using minus_mod_eq_div_mult[of slots b] pos_mod_sign[OF assms(1), of slots] by linarith
    then have "slots div b * b \<le> cdiv slots b * b" using cdiv_ge[OF assms(1), of slots] by linarith
    then show ?thesis using assms(1) by simp
  qed
  finally show ?thesis using assms(4) by linarith
qed

lemma caching_stage:
  assumes ok: "coord_ok c4" and kind: "list_all2 same_kind ms (single_type_managers c4)" "\<forall>m \<in> set ms. attention_manager m"
    and cfg: "pool_config (c_block_pool c4) = pool_config p" and caching: "\<forall>m \<in> set ms. cacheable p m" "all_private (request_id request) c4"
    and len: "\<forall>j < length ms. cdiv slots (block_size (ms ! j)) \<le> int (length (dd_list (request_id request) (req_to_blocks (single_type_managers c4 ! j))))"
    and n: "main \<le> slots" "num_tokens request div hash_block_size p \<le> int (length (block_hashes request))"
      "\<forall>m \<in> set ms. 0 < block_size m"
  shows "\<exists>c5. coord_cache_blocks c4 request (min main (num_tokens request)) = Inr c5 \<and> all_private (request_id request) c5 \<and>
    length (single_type_managers c5) = length ms \<and>
    (\<forall>j < length ms. cdiv slots (block_size (ms ! j)) \<le> int (length (dd_list (request_id request) (req_to_blocks (single_type_managers c5 ! j)))))"
proof -
  let ?n = "min main (num_tokens request)" and ?ms4 = "single_type_managers c4"
  have l: "length ?ms4 = length ms" using kind(1) by (simp add: list_all2_conv_all_nth)
  have each: "attention_manager m \<and> uncached_private (request_id request) (c_block_pool c4) m \<and> cacheable (c_block_pool c4) m \<and>
      ?n div block_size m \<le> int (length (dd_list (request_id request) (req_to_blocks m)))" if m: "m \<in> set ?ms4" for m
  proof -
    obtain j where j: "j < length ms" "m = ?ms4 ! j" using m l by (metis in_set_conv_nth)
    then have s: "same_kind (ms ! j) m" using kind(1) by (simp add: list_all2_conv_all_nth)
    have "ms ! j \<in> set ms" using j(1) by simp
    then have f: "attention_manager (ms ! j)" "cacheable p (ms ! j)" "0 < block_size (ms ! j)" using kind(2) caching(1) n(3) by auto
    have "?n div block_size (ms ! j) \<le> int (length (dd_list (request_id request) (req_to_blocks m)))"
      by (rule full_blocks_le[OF f(3) _ n(1)]) (use len j in auto)
    then show ?thesis using s f caching(2) m config_fields(3)[OF cfg] by (auto simp: same_kind_def cacheable_def)
  qed
  have hashes: "?n div hash_block_size (c_block_pool c4) \<le> int (length (block_hashes request))" if "ms \<noteq> []"
  proof -
    have "0 < hash_block_size p" using caching(1) that by (cases ms) (auto simp: cacheable_def)
    then have "?n div hash_block_size p \<le> num_tokens request div hash_block_size p" by (intro zdiv_mono1) auto
    then show ?thesis using n(2) config_fields(3)[OF cfg] by simp
  qed
  show ?thesis
  proof (cases "ms = []")
    case True
    then have "?ms4 = []" using l by simp
    then show ?thesis using True by (simp add: coord_cache_blocks_def on_managers_def)
  next
    case False
    obtain c5 where c5: "coord_cache_blocks c4 request ?n = Inr c5" "length (single_type_managers c5) = length ?ms4"
      "\<forall>j < length ?ms4. \<forall>r. dd_list r (req_to_blocks (single_type_managers c5 ! j)) = dd_list r (req_to_blocks (?ms4 ! j))"
      "all_private (request_id request) c5"
      using cache_stage[OF ok _ hashes[OF False]] each by blast
    then show ?thesis using len l by auto
  qed
qed

lemma slots_decision:
  fixes new newc look enc :: int
  assumes k: "coord_ok (coordinator k)" "\<forall>m \<in> set (single_type_managers (coordinator k)). attention_manager m"
    and n: "0 < new" "0 \<le> loc" "loc \<le> kvm_max_model_len k" "loc = num_computed_tokens request + newc"
    and cache: "\<not> kvm_enable_caching k \<or> delay \<or> caching_ok k request (loc + new) look \<and> all_private (request_id request) (coordinator k)"
    and given: "given' = (case given of None \<Rightarrow> EmptyKVCacheBlocks | Some b \<Rightarrow> b)"
    and cov: "\<forall>j < length (single_type_managers (coordinator k)).
      covers (request_id request) loc (blocks_of k given') j (single_type_managers (coordinator k) ! j)"
    and kind: "given' = EmptyKVCacheBlocks \<and> (\<forall>j < length (single_type_managers (coordinator k)). blocks_of k given' ! j = []) \<or>
      given' \<noteq> EmptyKVCacheBlocks \<and> (\<forall>m \<in> set (single_type_managers (coordinator k)). fresh_manager (request_id request) m) \<and>
      hits_for k loc 0 given'"
  defines "slots \<equiv> min (loc + new + look) (kvm_max_model_len k)"
  defines "price \<equiv> \<lambda>c. run_cost (slot_cost (request_id request) slots loc (blocks_of k given') (c_block_pool c)) 0 (single_type_managers c)"
  shows "\<exists>c1. coord_remove_skipped_blocks (coordinator k) (request_id request) loc = Inr c1 \<and>
    list_all2 (same_length (request_id request)) (single_type_managers (coordinator k)) (single_type_managers c1) \<and>
    (if price c1 > get_num_free_blocks (c_block_pool c1)
     then allocate_slots k request new newc given look 0 delay enc = Inr (None, k\<lparr>coordinator := c1\<rparr>)
     else \<exists>bss c'. allocate_slots k request new newc given look 0 delay enc = Inr (Some (create_kv_cache_blocks bss), k\<lparr>coordinator := c'\<rparr>) \<and>
       length (single_type_managers c') = length (single_type_managers c1) \<and>
       (caching_ok k request (loc + new) look \<and> all_private (request_id request) (coordinator k) \<longrightarrow> all_private (request_id request) c') \<and>
       (\<forall>j < length (single_type_managers c1). cdiv slots (block_size (single_type_managers c1 ! j)) \<le>
          int (length (dd_list (request_id request) (req_to_blocks (single_type_managers c' ! j))))))"
proof -
  let ?rid = "request_id request" and ?c = "coordinator k" and ?hits = "blocks_of k given'"
  obtain c1 where c1: "coord_remove_skipped_blocks ?c ?rid loc = Inr c1" "coord_ok c1"
    "pool_blocks (c_block_pool c1) = pool_blocks (c_block_pool ?c)"
    "list_all2 (same_length ?rid) (single_type_managers ?c) (single_type_managers c1)"
    "pool_config (c_block_pool c1) = pool_config (c_block_pool ?c)"
    "enable_caching (c_block_pool ?c) \<and> all_private ?rid ?c \<longrightarrow> all_private ?rid c1" using skip_stage[OF k] by blast
  have nth: "length (single_type_managers c1) = length (single_type_managers ?c)"
    "\<And>j. j < length (single_type_managers ?c) \<Longrightarrow> same_length ?rid (single_type_managers ?c ! j) (single_type_managers c1 ! j)"
    using c1(4) by (simp_all add: list_all2_conv_all_nth)
  have am: "\<forall>m \<in> set (single_type_managers c1). attention_manager m"
    using k(2) nth same_length_facts(4) by (metis in_set_conv_nth)
  have cov1: "\<forall>j < length (single_type_managers c1). covers ?rid loc ?hits j (single_type_managers c1 ! j)"
    using cov nth same_length_facts(1-3)[OF nth(2)] by (auto simp: covers_def simp flip: length_0_conv)
  have count: "coord_num_blocks_to_allocate c1 ?rid slots ?hits enc loc (loc + new) = Inr (price c1, c1)"
    unfolding price_def by (rule count_stage[OF c1(2) am n(2) cov1])
  have eq: "min loc (kvm_max_model_len k) = loc" using n(3) by simp
  note run = allocate_slots_def[of k request new newc given look 0 delay enc, unfolded Let_def, folded n(4) given, unfolded add_0_right eq,
      folded slots_def]
  show ?thesis
  proof (cases "price c1 > get_num_free_blocks (c_block_pool c1)")
    case True
    then show ?thesis using c1(1,4) count n(1) by (intro exI[of _ c1]) (simp add: run)
  next
    case False
    have "\<exists>bss c'. rbind (if given' \<noteq> EmptyKVCacheBlocks then coord_allocate_new_computed_blocks c1 ?rid ?hits loc 0 else Inr c1)
        (\<lambda>c3. coord_allocate_new_blocks c3 ?rid slots (loc + new) enc) = Inr (bss, c') \<and> coord_ok c' \<and>
      pool_config (c_block_pool c') = pool_config (c_block_pool c1) \<and> (enable_caching (c_block_pool c1) \<and> all_private ?rid c1 \<longrightarrow> all_private ?rid c') \<and>
      list_all2 same_kind (single_type_managers c1) (single_type_managers c') \<and>
      (\<forall>j < length (single_type_managers c1). cdiv slots (block_size (single_type_managers c1 ! j)) \<le>
         int (length (dd_list ?rid (req_to_blocks (single_type_managers c' ! j)))))"
      by (rule slots_stage[OF c1(2) am n(2) _ cov1])
        (use False n(1,2) kind nth c1(3) fresh_after_skip[OF c1(4)] hits_after_skip[OF c1(4)] in \<open>auto simp: price_def hits_for_def Let_def\<close>)
    then obtain bss c4 where c4: "rbind (if given' \<noteq> EmptyKVCacheBlocks then coord_allocate_new_computed_blocks c1 ?rid ?hits loc 0 else Inr c1)
        (\<lambda>c3. coord_allocate_new_blocks c3 ?rid slots (loc + new) enc) = Inr (bss, c4)" "coord_ok c4"
      "pool_config (c_block_pool c4) = pool_config (c_block_pool c1)" "enable_caching (c_block_pool c1) \<and> all_private ?rid c1 \<longrightarrow> all_private ?rid c4"
      "list_all2 same_kind (single_type_managers c1) (single_type_managers c4)"
      "\<forall>j < length (single_type_managers c1). cdiv slots (block_size (single_type_managers c1 ! j)) \<le>
         int (length (dd_list ?rid (req_to_blocks (single_type_managers c4 ! j))))" by blast
    have rdy: "all_private ?rid c4" if "caching_ok k request (loc + new) look" "all_private ?rid ?c"
      using c4(4) c1(6) that config_fields(2)[OF c1(5)] by (simp add: caching_ok_def Let_def)
    have len4: "length (single_type_managers c4) = length (single_type_managers c1)" using c4(5) by (simp add: list_all2_conv_all_nth)
    have stored: "allocate_slots k request new newc given look 0 delay enc =
        (if \<not> kvm_enable_caching k \<or> delay then Inr (Some (create_kv_cache_blocks bss), k\<lparr>coordinator := c4\<rparr>)
         else rbind (coord_cache_blocks c4 request (min (loc + new) (num_tokens request))) (\<lambda>c5.
           Inr (Some (create_kv_cache_blocks bss), k\<lparr>coordinator := c5\<rparr>)))"
      using c1(1) count n(1) False c4(1) by (auto simp: run rbind_Inr_iff)
    show ?thesis
    proof (cases "\<not> kvm_enable_caching k \<or> delay")
      case True
      then show ?thesis using c1(1,4) False stored rdy len4 c4(6) by (intro exI[of _ c1]) auto
    next
      case cached: False
      then have cok: "caching_ok k request (loc + new) look" and uncached_private: "all_private ?rid ?c" using cache by auto
      have "\<forall>m \<in> set (single_type_managers c1). 0 < block_size m" using c1(2) manager_okD(5) by (auto simp: kv_ok_def)
      moreover have "cacheable (c_block_pool ?c) m" if m: "m \<in> set (single_type_managers c1)" for m
      proof -
        obtain j where j: "j < length (single_type_managers ?c)" "m = single_type_managers c1 ! j" using m nth(1) by (metis in_set_conv_nth)
        then have "cacheable (c_block_pool ?c) (single_type_managers ?c ! j)" using cok by (simp add: caching_ok_def Let_def)
        then show ?thesis using same_length_facts(2,7)[OF nth(2)[OF j(1)]] j(2) by (simp add: cacheable_def)
      qed
      moreover have "loc + new \<le> slots" using cok by (simp add: caching_ok_def Let_def slots_def)
      ultimately obtain c5 where "coord_cache_blocks c4 request (min (loc + new) (num_tokens request)) = Inr c5" "all_private ?rid c5"
        "length (single_type_managers c5) = length (single_type_managers c1)"
        "\<forall>j < length (single_type_managers c1). cdiv slots (block_size (single_type_managers c1 ! j)) \<le>
           int (length (dd_list ?rid (req_to_blocks (single_type_managers c5 ! j))))"
        using caching_stage[OF c4(2,5) am _ _ rdy[OF cok uncached_private] c4(6), of "c_block_pool ?c" "loc + new"] c4(3) c1(5) cok
        by (auto simp: caching_ok_def Let_def)
      then show ?thesis using c1(1,4) False stored cached by (intro exI[of _ c1]) auto
    qed
  qed
qed

lemma run_cost_sum: "run_cost (\<lambda>j. f) i ms = sum_list (map f ms)"
  by (induction ms arbitrary: i) simp_all

lemma running_slots:
  fixes new newc look enc :: int
  assumes k: "kvm_reachable k" "\<forall>m \<in> set (single_type_managers (coordinator k)). attention_manager m"
    and n: "0 < new" "0 \<le> loc" "loc \<le> kvm_max_model_len k" "loc = num_computed_tokens request + newc"
    and cache: "\<not> kvm_enable_caching k \<or> delay \<or> caching_ok k request (loc + new) look \<and> all_private (request_id request) (coordinator k)"
    and given: "given = None \<or> given = Some EmptyKVCacheBlocks"
    and table: "\<forall>m \<in> set (single_type_managers (coordinator k)).
      loc \<le> int (length (dd_list (request_id request) (req_to_blocks m))) * block_size m"
    and slots: "slots = min (loc + new + look) (kvm_max_model_len k)"
  shows "\<exists>c1. coord_remove_skipped_blocks (coordinator k) (request_id request) loc = Inr c1 \<and>
    (if sum_list (map (blocks_missing (request_id request) slots) (single_type_managers c1)) > get_num_free_blocks (c_block_pool c1)
     then allocate_slots k request new newc given look 0 delay enc = Inr (None, k\<lparr>coordinator := c1\<rparr>)
     else \<exists>bs k'. allocate_slots k request new newc given look 0 delay enc = Inr (Some bs, k') \<and> kvm_reachable k' \<and>
       (caching_ok k request (loc + new) look \<and> all_private (request_id request) (coordinator k) \<longrightarrow>
          all_private (request_id request) (coordinator k')) \<and>
       (\<forall>j < length (single_type_managers c1). cdiv slots (block_size (single_type_managers c1 ! j)) \<le>
          int (length (dd_list (request_id request) (req_to_blocks (single_type_managers (coordinator k') ! j))))))"
proof -
  let ?rid = "request_id request" and ?hits = "blocks_of k EmptyKVCacheBlocks"
  have len: "length (single_type_managers (coordinator k)) = num_kv_cache_groups k"
    using reachable_groups_match[OF k(1)] by (simp add: groups_match_def)
  have ok: "coord_ok (coordinator k)" using reachable_kvm_ok[OF k(1)] by (simp add: kvm_ok_def)
  have g: "EmptyKVCacheBlocks = (case given of None \<Rightarrow> EmptyKVCacheBlocks | Some b \<Rightarrow> b)" using given by auto
  have nil: "\<forall>j < length (single_type_managers (coordinator k)). ?hits ! j = []" using len by (simp add: blocks_of_def)
  have cov: "\<forall>j < length (single_type_managers (coordinator k)). covers ?rid loc ?hits j (single_type_managers (coordinator k) ! j)"
    using table nil len by (auto simp: covers_def blocks_of_def)
  have req: "slots_request_ok k request new newc given 0"
    using n nil len g[symmetric] by (auto simp: slots_request_ok_def hits_for_def Let_def hits_ok_def blocks_of_def table_ok_def)
  have price: "run_cost (slot_cost ?rid slots loc ?hits p) 0 ms = sum_list (map (blocks_missing ?rid slots) ms)"
    if "length ms = num_kv_cache_groups k" for p ms
    unfolding run_cost_sum[symmetric, where i = 0]
    by (rule run_cost_cong) (use that in \<open>auto simp: slot_cost_def blocks_missing_def kept_hits_eq get_num_evictable_blocks_def blocks_of_def\<close>)
  obtain c1 where c1: "coord_remove_skipped_blocks (coordinator k) ?rid loc = Inr c1" "length (single_type_managers c1) = num_kv_cache_groups k"
    "if run_cost (slot_cost ?rid slots loc ?hits (c_block_pool c1)) 0 (single_type_managers c1) > get_num_free_blocks (c_block_pool c1)
     then allocate_slots k request new newc given look 0 delay enc = Inr (None, k\<lparr>coordinator := c1\<rparr>)
     else \<exists>bss c'. allocate_slots k request new newc given look 0 delay enc = Inr (Some (create_kv_cache_blocks bss), k\<lparr>coordinator := c'\<rparr>) \<and>
       length (single_type_managers c') = length (single_type_managers c1) \<and>
       (caching_ok k request (loc + new) look \<and> all_private ?rid (coordinator k) \<longrightarrow> all_private ?rid c') \<and>
       (\<forall>j < length (single_type_managers c1). cdiv slots (block_size (single_type_managers c1 ! j)) \<le>
          int (length (dd_list ?rid (req_to_blocks (single_type_managers c' ! j)))))"
    using slots_decision[OF ok k(2) n cache g cov, of enc] nil len slots coord_lengths(1) by fastforce
  show ?thesis
    using c1 price[OF c1(2)] kvm_reachable.slots[OF k(1) req] by (fastforce split: if_splits)
qed

text \<open>
  C10 (functional): slots for a running request (decode step or next prefill chunk) of a model with
  attention layers only, without tokens from a connector, with prefix caching off, delayed or on. With
  caching on, what the code asserts is assumed of the request: its hashes cover its tokens, the block
  sizes are multiples of the hash block size, the tokens fit the model length, and its blocks that
  are not in the cache yet have no hash and no second reference; this last condition holds again afterwards.
  The call never raises. Blocks outside the attention window are released
  first; then, if the blocks missing over all groups exceed the free ones, the answer is
  \<^verbatim>\<open>None\<close> and nothing else has changed; otherwise every group's table afterwards holds enough blocks
  for all tokens including the lookahead, and the manager is reachable, so its references are exact.
\<close>

theorem allocate_slots_running:
  fixes new newc look enc :: int
  assumes k: "kvm_reachable k" "\<forall>m \<in> set (single_type_managers (coordinator k)). attention_manager m"
    and n: "0 < new" "0 \<le> loc" "loc \<le> kvm_max_model_len k" "loc = num_computed_tokens request + newc"
    and cache: "\<not> kvm_enable_caching k \<or> delay \<or> caching_ok k request (loc + new) look \<and> all_private (request_id request) (coordinator k)"
    and given: "given = None \<or> given = Some EmptyKVCacheBlocks"
    and table: "\<forall>m \<in> set (single_type_managers (coordinator k)).
      loc \<le> int (length (dd_list (request_id request) (req_to_blocks m))) * block_size m"
    and slots: "slots = min (loc + new + look) (kvm_max_model_len k)"
  shows "\<exists>c1. coord_remove_skipped_blocks (coordinator k) (request_id request) loc = Inr c1 \<and>
    (if sum_list (map (blocks_missing (request_id request) slots) (single_type_managers c1)) > get_num_free_blocks (c_block_pool c1)
     then allocate_slots k request new newc given look 0 delay enc = Inr (None, k\<lparr>coordinator := c1\<rparr>)
     else \<exists>bs k'. allocate_slots k request new newc given look 0 delay enc = Inr (Some bs, k') \<and> kvm_reachable k' \<and>
       (caching_ok k request (loc + new) look \<and> all_private (request_id request) (coordinator k) \<longrightarrow>
          all_private (request_id request) (coordinator k')) \<and>
       (\<forall>j < length (single_type_managers c1). cdiv slots (block_size (single_type_managers c1 ! j)) \<le>
          int (length (dd_list (request_id request) (req_to_blocks (single_type_managers (coordinator k') ! j))))))"
  using running_slots[OF assms] .

lemma example_skip: "coord_remove_skipped_blocks (coordinator example_kvm) rid n = Inr (coordinator example_kvm)"
  by (simp add: coord_remove_skipped_blocks_def on_managers_def example_kvm_init stm_remove_skipped_blocks_def
      base_remove_skipped_blocks_def get_num_skipped_tokens_def example_manager_def stm_base_init_def)

lemma example_slots_facts:
  "attention_manager example_manager" "block_size example_manager = 2" "req_to_blocks example_manager = []"
  "num_cached_block example_manager = []" "mgr_enable_caching example_manager"
  "num_computed_tokens (example_request ''r'' [5, 6, 7] []) = 0" "get_num_free_blocks example_pool = 3"
proof -
  show "num_computed_tokens (example_request ''r'' [5, 6, 7] []) = 0" by code_simp
  show "get_num_free_blocks example_pool = 3"
    using example_pool_init(2) by (simp add: get_num_free_blocks_def pool_repr_def fq_repr_def)
qed (simp_all add: attention_manager_def example_manager_def stm_base_init_def example_spec_def)

definition slots_request :: Request where
  "slots_request = (example_request ''r'' [5, 6, 7] [])\<lparr>block_hashes := [[1]]\<rparr>"

lemma slots_request_facts:
  "request_id slots_request = ''r''" "num_computed_tokens slots_request = 0" "num_tokens slots_request = 3" "block_hashes slots_request = [[1]]"
  by code_simp+

lemma example_caching_ok: "main \<le> 100 \<Longrightarrow> caching_ok example_kvm slots_request main 0"
proof -
  have "enable_caching example_pool" "hash_block_size example_pool = 2" "kv_cache_group_id example_manager = 0" by code_simp+
  then show "main \<le> 100 \<Longrightarrow> caching_ok example_kvm slots_request main 0"
    by (simp add: caching_ok_def Let_def cacheable_def example_kvm_init example_slots_facts slots_request_facts)
qed

lemma example_private: "uncached_private rid p example_manager"
  by (simp add: uncached_private_def ncached_def example_slots_facts dd_list_def)

text \<open>With prefix caching on: three tokens get two blocks, nine tokens are refused.\<close>

theorem allocate_slots_running_witness:
  "kvm_enable_caching example_kvm \<and>
   (\<exists>bs k'. allocate_slots example_kvm slots_request 3 0 None 0 0 False 0 = Inr (Some bs, k') \<and> kvm_reachable k' \<and>
      2 \<le> int (length (dd_list ''r'' (req_to_blocks (single_type_managers (coordinator k') ! 0))))) \<and>
   (\<exists>k'. allocate_slots example_kvm slots_request 9 0 None 0 0 False 0 = Inr (None, k'))"
proof -
  note facts = example_kvm_init example_slots_facts slots_request_facts example_skip blocks_missing_def dd_list_def cdiv_def
  have "\<exists>bs k'. allocate_slots example_kvm slots_request 3 0 None 0 0 False 0 = Inr (Some bs, k') \<and> kvm_reachable k' \<and>
      2 \<le> int (length (dd_list ''r'' (req_to_blocks (single_type_managers (coordinator k') ! 0))))"
    using allocate_slots_running[OF example_kvm_reachable, of 3 0 slots_request 0 False 0 None 3 0] example_caching_ok[of 3]
    by (auto simp: facts example_private)
  moreover have "\<exists>k'. allocate_slots example_kvm slots_request 9 0 None 0 0 False 0 = Inr (None, k')"
    using allocate_slots_running[OF example_kvm_reachable, of 9 0 slots_request 0 False 0 None 9 0] example_caching_ok[of 9]
    by (auto simp: facts example_private)
  ultimately show ?thesis by (simp add: example_kvm_init)
qed

text \<open>
  C9 (functional): slots for a new request with a prefix-cache hit, in a model with attention layers
  only, without tokens from a connector; its new full blocks are entered into the cache at once or
  later (\<open>delay\<close>). Hashes and sizes are as above. The call never raises. Each group's price is the blocks beyond its hit plus the hit blocks
  that have to leave the free queue; if the total exceeds the free blocks the request is
  refused, otherwise the count was sufficient: after all hits of all groups are taken, the
  remaining blocks are still there, every table is long enough, and the blocks not cached yet are private
  to the request, which is what later calls need.
\<close>

theorem allocate_slots_fresh:
  fixes new newc look enc :: int
  assumes k: "kvm_reachable k" "\<forall>m \<in> set (single_type_managers (coordinator k)). fresh_manager (request_id request) m"
    and n: "0 < new" "0 \<le> loc" "loc \<le> kvm_max_model_len k" "loc = num_computed_tokens request + newc"
    and cache: "\<not> kvm_enable_caching k \<or> delay \<or> caching_ok k request (loc + new) look"
    and req: "slots_request_ok k request new newc (Some (KVCacheBlocks hits)) 0"
    and full: "\<forall>j < length (single_type_managers (coordinator k)).
      loc \<le> int (length (hits ! j)) * block_size (single_type_managers (coordinator k) ! j)"
    and slots: "slots = min (loc + new + look) (kvm_max_model_len k)"
  shows "\<exists>c1. coord_remove_skipped_blocks (coordinator k) (request_id request) loc = Inr c1 \<and>
    (if run_cost (\<lambda>j m. max 0 (cdiv slots (block_size m) - int (length (hits ! j))) +
                         get_num_evictable_blocks (c_block_pool c1) (kept_hits m (hits ! j) loc)) 0 (single_type_managers c1) >
        get_num_free_blocks (c_block_pool c1)
     then allocate_slots k request new newc (Some (KVCacheBlocks hits)) look 0 delay enc = Inr (None, k\<lparr>coordinator := c1\<rparr>)
     else \<exists>bs k'. allocate_slots k request new newc (Some (KVCacheBlocks hits)) look 0 delay enc = Inr (Some bs, k') \<and> kvm_reachable k' \<and>
       (caching_ok k request (loc + new) look \<longrightarrow> all_private (request_id request) (coordinator k')) \<and>
       (\<forall>j < length (single_type_managers c1). cdiv slots (block_size (single_type_managers c1 ! j)) \<le>
          int (length (dd_list (request_id request) (req_to_blocks (single_type_managers (coordinator k') ! j))))))"
proof -
  let ?rid = "request_id request" and ?c = "coordinator k"
  have ok: "coord_ok ?c" using reachable_kvm_ok[OF k(1)] by (simp add: kvm_ok_def)
  have am: "\<forall>m \<in> set (single_type_managers ?c). attention_manager m" using k(2) by (simp add: fresh_manager_def)
  have rdy: "all_private ?rid ?c" using k(2) by (simp add: fresh_manager_def uncached_private_def ncached_def)
  have cache': "\<not> kvm_enable_caching k \<or> delay \<or> caching_ok k request (loc + new) look \<and> all_private ?rid ?c" using cache rdy by blast
  have g: "KVCacheBlocks hits = (case Some (KVCacheBlocks hits) of None \<Rightarrow> EmptyKVCacheBlocks | Some b \<Rightarrow> b)" by simp
  have hits: "hits_for k loc 0 (KVCacheBlocks hits)" using req n(4) by (simp add: slots_request_ok_def)
  have cov: "\<forall>j < length (single_type_managers ?c). covers ?rid loc (blocks_of k (KVCacheBlocks hits)) j (single_type_managers ?c ! j)"
    using hits full k(2) by (auto simp: covers_def hits_for_def Let_def hits_ok_def blocks_of_def fresh_manager_def)
  obtain c1 where c1: "coord_remove_skipped_blocks ?c ?rid loc = Inr c1"
    "list_all2 (same_length ?rid) (single_type_managers ?c) (single_type_managers c1)"
    "if run_cost (slot_cost ?rid slots loc hits (c_block_pool c1)) 0 (single_type_managers c1) > get_num_free_blocks (c_block_pool c1)
     then allocate_slots k request new newc (Some (KVCacheBlocks hits)) look 0 delay enc = Inr (None, k\<lparr>coordinator := c1\<rparr>)
     else \<exists>bss c'. allocate_slots k request new newc (Some (KVCacheBlocks hits)) look 0 delay enc =
         Inr (Some (create_kv_cache_blocks bss), k\<lparr>coordinator := c'\<rparr>) \<and>
       length (single_type_managers c') = length (single_type_managers c1) \<and>
       (caching_ok k request (loc + new) look \<longrightarrow> all_private ?rid c') \<and>
       (\<forall>j < length (single_type_managers c1). cdiv slots (block_size (single_type_managers c1 ! j)) \<le>
          int (length (dd_list ?rid (req_to_blocks (single_type_managers c' ! j)))))"
    using slots_decision[OF ok am n cache' g cov, of enc] hits k(2) slots unfolding eqTrueI[OF rdy] simp_thms(21) by (auto simp: blocks_of_def)
  have fresh: "dd_list ?rid (req_to_blocks m) = []" if "m \<in> set (single_type_managers c1)" for m
    using fresh_after_skip[OF c1(2) k(2) that] by (simp add: fresh_manager_def)
  have "run_cost (slot_cost ?rid slots loc hits (c_block_pool c1)) 0 (single_type_managers c1) =
    run_cost (\<lambda>j m. max 0 (cdiv slots (block_size m) - int (length (hits ! j))) +
       get_num_evictable_blocks (c_block_pool c1) (kept_hits m (hits ! j) loc)) 0 (single_type_managers c1)"
    by (rule run_cost_cong) (use fresh in \<open>auto simp: slot_cost_def\<close>)
  then show ?thesis using c1 kvm_reachable.slots[OF k(1) req] by (fastforce split: if_splits)
qed

theorem allocate_slots_fresh_witness:
  "\<exists>bs k'. allocate_slots example_kvm slots_request 1 2 (Some (KVCacheBlocks [[Blk 3]])) 0 0 False 0 = Inr (Some bs, k') \<and>
     kvm_reachable k' \<and> 2 \<le> int (length (dd_list ''r'' (req_to_blocks (single_type_managers (coordinator k') ! 0))))"
proof -
  have "slots_request_ok example_kvm slots_request 1 2 (Some (KVCacheBlocks [[Blk 3]])) 0"
    by (simp add: slots_request_ok_def hits_for_def Let_def hits_ok_def blocks_of_def table_ok_def example_kvm_init example_slots_facts
        slots_request_facts example_pool_facts)
  note run = allocate_slots_fresh[OF example_kvm_reachable _ _ _ _ _ _ this, of 2 False 0 3 0]
  have "length (kept_hits example_manager [Blk 3] 2) \<le> 1" by (simp add: kept_hits_eq)
  then have "length (filter P (kept_hits example_manager [Blk 3] 2)) \<le> 2" for P
    using length_filter_le[of P "kept_hits example_manager [Blk 3] 2"] by linarith
  then have "run_cost (\<lambda>j m. max 0 (cdiv 3 (block_size m) - int (length ([[Blk 3]] ! j))) +
      get_num_evictable_blocks example_pool (kept_hits m ([[Blk 3]] ! j) 2)) 0 [example_manager] \<le> 3"
    by (simp add: get_num_evictable_blocks_def cdiv_def example_slots_facts)
  moreover have "\<exists>c1. coord_remove_skipped_blocks (coordinator example_kvm) ''r'' 2 = Inr c1 \<and>
    (if run_cost (\<lambda>j m. max 0 (cdiv 3 (block_size m) - int (length ([[Blk 3]] ! j))) +
         get_num_evictable_blocks (c_block_pool c1) (kept_hits m ([[Blk 3]] ! j) 2)) 0 (single_type_managers c1) > get_num_free_blocks (c_block_pool c1)
     then allocate_slots example_kvm slots_request 1 2 (Some (KVCacheBlocks [[Blk 3]])) 0 0 False 0 = Inr (None, example_kvm\<lparr>coordinator := c1\<rparr>)
     else \<exists>bs k'. allocate_slots example_kvm slots_request 1 2 (Some (KVCacheBlocks [[Blk 3]])) 0 0 False 0 = Inr (Some bs, k') \<and> kvm_reachable k' \<and>
       (caching_ok example_kvm slots_request (2 + 1) 0 \<longrightarrow> all_private ''r'' (coordinator k')) \<and>
       (\<forall>j < length (single_type_managers c1). cdiv 3 (block_size (single_type_managers c1 ! j)) \<le>
          int (length (dd_list ''r'' (req_to_blocks (single_type_managers (coordinator k') ! j))))))"
    by (rule run[unfolded slots_request_facts(1)])
      (use example_caching_ok[of 3] in \<open>auto simp: example_kvm_init example_slots_facts slots_request_facts fresh_manager_def dd_list_def\<close>)
  ultimately show ?thesis by (auto simp: example_skip example_kvm_init example_slots_facts cdiv_def)
qed

text \<open>The release of skipped blocks only touches positions below the first token still attended to.\<close>

lemma skip_loop_keeps: "k \<le> i \<Longrightarrow> snd (skip_loop null k bs) ! i = bs ! i"
  by (induction null k bs rule: skip_loop.induct) (auto simp: Let_def split_beta)

lemma remove_skipped_window:
  assumes run: "stm_remove_skipped_blocks m p rid n = Inr (m', p')" and m: "attention_manager m" "0 < block_size m"
    and i: "get_num_skipped_tokens m n < (int i + 1) * block_size m"
  shows "dd_list rid (req_to_blocks m') ! i = dd_list rid (req_to_blocks m) ! i"
proof -
  let ?old = "dd_list rid (req_to_blocks m)"
  let ?k = "nat (min (get_num_skipped_tokens m n div block_size m) (int (length ?old)))"
  have "get_num_skipped_tokens m n div block_size m < int i + 1"
    using i le_div_iff_mult_le[OF m(2), of "int i + 1" "get_num_skipped_tokens m n"] by linarith
  then have "?k \<le> i" by simp
  moreover have "m' = m \<or> m' = set_req_blocks rid (snd (skip_loop (mgr_null_block m) ?k ?old)) m"
    using run m(1) by (auto simp: stm_remove_skipped_blocks_def attention_manager_def base_remove_skipped_blocks_def Let_def rbind_Inr_iff split_beta split: if_splits)
  ultimately show "dd_list rid (req_to_blocks m') ! i = ?old ! i" by (auto simp: set_req_blocks_def skip_loop_keeps)
qed

lemma remove_skipped_others:
  assumes "stm_remove_skipped_blocks m p rid n = Inr (m', p')" "attention_manager m" "r \<noteq> rid"
  shows "dd_list r (req_to_blocks m') = dd_list r (req_to_blocks m)"
  using remove_skipped_same_length[OF assms(1,2)] assms(3) by (auto simp: same_length_def set_req_blocks_def)

text \<open>The query at position \<open>q\<close> attends to the token at position \<open>t\<close>.\<close>

definition attends :: "SingleTypeKVCacheManager \<Rightarrow> int \<Rightarrow> int \<Rightarrow> bool" where
  "attends m q t \<longleftrightarrow> 0 \<le> t \<and> t \<le> q \<and>
     (case mgr_class m of
        SlidingWindowManager \<Rightarrow> q - sliding_window m < t
      | ChunkedLocalAttentionManager \<Rightarrow> q div attention_chunk_size m = t div attention_chunk_size m
      | _ \<Rightarrow> True)"

definition skip_window_ok :: "string \<Rightarrow> int \<Rightarrow> SingleTypeKVCacheManager \<Rightarrow> SingleTypeKVCacheManager \<Rightarrow> bool" where
  "skip_window_ok rid n m m' \<longleftrightarrow>
     (\<forall>r. r \<noteq> rid \<longrightarrow> dd_list r (req_to_blocks m') = dd_list r (req_to_blocks m)) \<and>
     length (dd_list rid (req_to_blocks m')) = length (dd_list rid (req_to_blocks m)) \<and>
     (\<forall>q t. n \<le> q \<and> attends m q t \<longrightarrow>
        dd_list rid (req_to_blocks m') ! nat (t div block_size m) = dd_list rid (req_to_blocks m) ! nat (t div block_size m))"

lemma attends_not_skipped:
  assumes "manager_ok blocks m" "attention_manager m" "n \<le> q" "attends m q t"
  shows "get_num_skipped_tokens m n \<le> t"
proof (cases "mgr_class m = ChunkedLocalAttentionManager")
  case True
  let ?c = "attention_chunk_size m"
  have c: "0 < ?c" using assms(1) True by (simp add: manager_ok_def)
  have "n div ?c \<le> t div ?c" using zdiv_mono1[OF assms(3) c] assms(4) True by (simp add: attends_def)
  then have "n div ?c * ?c \<le> t div ?c * ?c" using c by simp
  also have "\<dots> \<le> t" using le_div_iff_mult_le[OF c, of "t div ?c" t] by simp
  finally show ?thesis using True by (simp add: get_num_skipped_tokens_def)
qed (use assms in \<open>auto simp: get_num_skipped_tokens_def attends_def attention_manager_def\<close>)

lemma remove_skipped_window_ok:
  assumes run: "stm_remove_skipped_blocks m p rid n = Inr (m', p')" and m: "attention_manager m" "manager_ok blocks m"
  shows "skip_window_ok rid n m m'"
proof -
  have b: "0 < block_size m" by (rule manager_okD(5)[OF m(2)])
  have "get_num_skipped_tokens m n < (int (nat (t div block_size m)) + 1) * block_size m" if "n \<le> q" "attends m q t" for q t
  proof -
    have "t < (t div block_size m + 1) * block_size m" using le_div_iff_mult_le[OF b, of "t div block_size m + 1" t] by linarith
    moreover have "int (nat (t div block_size m)) = t div block_size m" using that(2) b by (simp add: attends_def pos_imp_zdiv_nonneg_iff)
    ultimately show ?thesis using attends_not_skipped[OF m(2,1) that] by simp
  qed
  note keep = remove_skipped_window[OF run m(1) b this]
  show ?thesis using keep remove_skipped_others[OF run m(1)] same_length_facts(1)[OF remove_skipped_same_length[OF run m(1)]]
    by (auto simp: skip_window_ok_def)
qed

text \<open>
  C11 (safety): releasing blocks that attention no longer needs. With \<open>n\<close> computed tokens the call never
  raises; the table entry of every token that a query at position \<open>n\<close> or later attends to (the
  last \<open>w\<close> tokens for a sliding window of size \<open>w\<close>, the query's chunk for chunked attention, all
  tokens for full attention) stays in place, and so does every table of other requests.
\<close>

theorem skipped_blocks_outside_window:
  assumes k: "kvm_reachable k" "\<forall>m \<in> set (single_type_managers (coordinator k)). attention_manager m"
  shows "\<exists>k'. kvm_remove_skipped_blocks k rid n = Inr k' \<and> kvm_reachable k' \<and>
    (\<forall>j < length (single_type_managers (coordinator k)).
       skip_window_ok rid n (single_type_managers (coordinator k) ! j) (single_type_managers (coordinator k') ! j))"
proof -
  let ?c = "coordinator k" and ?step = "\<lambda>i m p. rbind (stm_remove_skipped_blocks m p rid n) (\<lambda>(m', p'). Inr ((), m', p'))"
  have ok: "coord_ok ?c" using reachable_kvm_ok[OF k(1)] by (simp add: kvm_ok_def)
  obtain c1 where c1: "coord_remove_skipped_blocks ?c rid n = Inr c1" using skip_stage[OF ok k(2)] by blast
  then have run: "kvm_remove_skipped_blocks k rid n = Inr (k\<lparr>coordinator := c1\<rparr>)" by (simp add: kvm_remove_skipped_blocks_def)
  obtain as ms p where e: "each_manager ?step 0 (single_type_managers ?c) (c_block_pool ?c) = Inr (as, ms, p)" "single_type_managers c1 = ms"
    using c1 by (auto simp: coord_remove_skipped_blocks_def on_managers_def rbind_Inr_iff)
  have "list_all2 (\<lambda>m m'. \<exists>p p'. stm_remove_skipped_blocks m p rid n = Inr (m', p')) (single_type_managers ?c) ms"
    by (rule each_manager_rel[OF e(1)]) (auto simp: rbind_Inr_iff)
  then have step: "\<exists>p p'. stm_remove_skipped_blocks (single_type_managers ?c ! j) p rid n = Inr (single_type_managers c1 ! j, p')"
    if "j < length (single_type_managers ?c)" for j using that e(2) by (simp add: list_all2_conv_all_nth)
  have "skip_window_ok rid n (single_type_managers ?c ! j) (single_type_managers c1 ! j)" if j: "j < length (single_type_managers ?c)" for j
  proof -
    obtain p p' where s: "stm_remove_skipped_blocks (single_type_managers ?c ! j) p rid n = Inr (single_type_managers c1 ! j, p')"
      using step[OF j] by blast
    have "attention_manager (single_type_managers ?c ! j)" "manager_ok (pool_blocks (c_block_pool ?c)) (single_type_managers ?c ! j)"
      using k(2) ok j by (simp_all add: kv_ok_def)
    then show ?thesis by (rule remove_skipped_window_ok[OF s])
  qed
  then show ?thesis using run kvm_reachable.skip[OF k(1) run] by (auto simp: skip_window_ok_def)
qed

theorem skipped_blocks_outside_window_witness:
  "\<exists>k'. kvm_remove_skipped_blocks example_kvm ''r'' 7 = Inr k' \<and> kvm_reachable k'"
  using skipped_blocks_outside_window[OF example_kvm_reachable, of "''r''" 7] by (auto simp: example_kvm_init example_slots_facts)

end
