(* ===== verification/Heapq.thy ===== *)
theory Heapq
  imports Prelude "HOL-Library.Multiset"
begin

text \<open>
  Python's \<^verbatim>\<open>heapq\<close> on lists, in the form of its reference implementation: the comparison \<open>lt\<close> is the
  \<^verbatim>\<open>__lt__\<close> of the elements and is the only comparison used. Indices are natural numbers because the
  algorithms only form non-negative ones. The second half proves that the four operations keep
  the multiset and the heap order for every strict weak order.
\<close>

section \<open>The operations\<close>

text \<open>\<^verbatim>\<open>_siftdown\<close> moves the item towards \<open>startpos\<close> while it is smaller than its parent.\<close>

function siftdown_loop :: "('a \<Rightarrow> 'a \<Rightarrow> bool) \<Rightarrow> 'a \<Rightarrow> nat \<Rightarrow> 'a list \<Rightarrow> nat \<Rightarrow> 'a list" where
  "siftdown_loop lt newitem startpos heap pos =
     (if startpos < pos then
        let parentpos = (pos - 1) div 2; parent = heap ! parentpos
        in if lt newitem parent then siftdown_loop lt newitem startpos (heap[pos := parent]) parentpos
           else heap[pos := newitem]
      else heap[pos := newitem])"
  by auto
termination by (relation "measure (\<lambda>(lt, x, s, h, p). p)") auto

declare siftdown_loop.simps [simp del]

definition siftdown :: "('a \<Rightarrow> 'a \<Rightarrow> bool) \<Rightarrow> 'a list \<Rightarrow> nat \<Rightarrow> nat \<Rightarrow> 'a list" where
  "siftdown lt heap startpos pos = siftdown_loop lt (heap ! pos) startpos heap pos"

text \<open>\<^verbatim>\<open>_siftup\<close> bubbles the smaller child up until a leaf is hit, then sifts the item back down.\<close>

function siftup_loop :: "('a \<Rightarrow> 'a \<Rightarrow> bool) \<Rightarrow> 'a list \<Rightarrow> nat \<Rightarrow> 'a list \<times> nat" where
  "siftup_loop lt heap pos =
     (if 2 * pos + 1 < length heap then
        let childpos = 2 * pos + 1; rightpos = childpos + 1;
            childpos = (if rightpos < length heap \<and> \<not> lt (heap ! childpos) (heap ! rightpos) then rightpos else childpos)
        in siftup_loop lt (heap[pos := heap ! childpos]) childpos
      else (heap, pos))"
  by auto
termination by (relation "measure (\<lambda>(lt, h, p). length h - p)") (auto simp: Let_def split: if_splits)

declare siftup_loop.simps [simp del]

definition siftup :: "('a \<Rightarrow> 'a \<Rightarrow> bool) \<Rightarrow> nat \<Rightarrow> 'a list \<Rightarrow> 'a list" where
  "siftup lt pos heap =
     (let newitem = heap ! pos; (h, p) = siftup_loop lt heap pos
      in siftdown lt (h[p := newitem]) pos p)"

definition heappush :: "('a \<Rightarrow> 'a \<Rightarrow> bool) \<Rightarrow> 'a list \<Rightarrow> 'a \<Rightarrow> 'a list" where
  "heappush lt heap item = siftdown lt (heap @ [item]) 0 (length heap)"

definition heappop :: "('a \<Rightarrow> 'a \<Rightarrow> bool) \<Rightarrow> 'a list \<Rightarrow> ('a \<times> 'a list) result" where
  "heappop lt heap =
     (if heap = [] then Inl IndexError
      else let lastelt = last heap; rest = butlast heap
           in if rest = [] then Inr (lastelt, rest)
              else Inr (rest ! 0, siftup lt 0 (rest[0 := lastelt])))"

definition heapify :: "('a \<Rightarrow> 'a \<Rightarrow> bool) \<Rightarrow> 'a list \<Rightarrow> 'a list" where
  "heapify lt heap = fold (siftup lt) (rev [0..<length heap div 2]) heap"

section \<open>Heap order\<close>

definition parent :: "nat \<Rightarrow> nat" where
  "parent i = (i - 1) div 2"

lemma parent_less: "0 < i \<Longrightarrow> parent i < i"
  by (simp add: parent_def)

lemma parent_children [simp]: "parent (2 * p + 1) = p" "parent (2 * p + 2) = p" "parent (Suc (2 * p)) = p" "parent (Suc (Suc (2 * p))) = p"
  by (simp_all add: parent_def)

lemma child_cases: "0 < i \<Longrightarrow> i = 2 * parent i + 1 \<or> i = 2 * parent i + 2"
  unfolding parent_def by presburger

text \<open>Every edge whose parent is at position \<open>s\<close> or later is in order.\<close>

definition heap_from :: "('a \<Rightarrow> 'a \<Rightarrow> bool) \<Rightarrow> nat \<Rightarrow> 'a list \<Rightarrow> bool" where
  "heap_from lt s h \<longleftrightarrow> (\<forall>i < length h. 0 < i \<longrightarrow> s \<le> parent i \<longrightarrow> \<not> lt (h ! i) (h ! parent i))"

abbreviation is_heap :: "('a \<Rightarrow> 'a \<Rightarrow> bool) \<Rightarrow> 'a list \<Rightarrow> bool" where
  "is_heap lt h \<equiv> heap_from lt 0 h"

text \<open>The same with a hole at \<open>pos\<close>: edges at the hole are left out, but they may be short-cut.\<close>

definition heap_hole :: "('a \<Rightarrow> 'a \<Rightarrow> bool) \<Rightarrow> nat \<Rightarrow> nat \<Rightarrow> 'a list \<Rightarrow> bool" where
  "heap_hole lt s pos h \<longleftrightarrow> pos < length h \<and> (pos = s \<or> 0 < pos \<and> s \<le> parent pos) \<and>
     (\<forall>i < length h. 0 < i \<longrightarrow> s \<le> parent i \<longrightarrow> i \<noteq> pos \<longrightarrow>
        (if parent i = pos then pos = s \<or> \<not> lt (h ! i) (h ! parent pos)
         else \<not> lt (h ! i) (h ! parent i)))"

text \<open>Positions below \<open>s\<close> in the tree.\<close>

inductive descends :: "nat \<Rightarrow> nat \<Rightarrow> bool" for s where
  descends_self: "descends s s"
| descends_left: "descends s p \<Longrightarrow> descends s (2 * p + 1)"
| descends_right: "descends s p \<Longrightarrow> descends s (2 * p + 2)"

lemma descends_le: "descends s p \<Longrightarrow> s \<le> p"
  by (induction rule: descends.induct) auto

lemma descends_parent: "descends s p \<Longrightarrow> p \<noteq> s \<Longrightarrow> descends s (parent p)"
  by (cases rule: descends.cases) auto

lemma descends_child: "descends s (parent i) \<Longrightarrow> 0 < i \<Longrightarrow> descends s i"
  using child_cases[of i] descends_left[of s "parent i"] descends_right[of s "parent i"] by metis

lemma descends_root: "descends 0 p"
proof (induction p rule: less_induct)
  case (less p)
  show ?case
  proof (cases "p = 0")
    case False
    then have "descends 0 (parent p)" by (intro less parent_less) simp
    then show ?thesis by (rule descends_child) (use False in simp)
  qed (simp add: descends_self)
qed

section \<open>Correctness for strict weak orders\<close>

locale strict_weak_order =
  fixes lt :: "'a \<Rightarrow> 'a \<Rightarrow> bool"
  assumes irrefl: "\<not> lt a a"
    and neg_trans: "\<lbrakk>\<not> lt a b; \<not> lt b c\<rbrakk> \<Longrightarrow> \<not> lt a c"
    and asym: "lt a b \<Longrightarrow> \<not> lt b a"
begin

lemma heap_fill:
  assumes "heap_hole lt s pos h" "\<forall>i < length h. 0 < i \<longrightarrow> parent i = pos \<longrightarrow> \<not> lt (h ! i) x"
    "pos = s \<or> \<not> lt x (h ! parent pos)"
  shows "heap_from lt s (h[pos := x])"
  unfolding heap_from_def
proof (intro allI impI)
  fix i assume i: "i < length (h[pos := x])" "0 < i" "s \<le> parent i"
  have p: "parent i < i" by (rule parent_less[OF i(2)])
  show "\<not> lt (h[pos := x] ! i) (h[pos := x] ! parent i)"
  proof (cases "i = pos")
    case True
    then show ?thesis using assms(3) i p by auto
  next
    case False
    then show ?thesis using assms(1,2) i p by (cases "parent i = pos") (auto simp: heap_hole_def)
  qed
qed

text \<open>Moving the parent into the hole moves the hole up.\<close>

lemma hole_up:
  assumes "heap_hole lt s pos h" "pos \<noteq> s" "descends s pos"
    and pp: "pp = parent pos"
  shows "heap_hole lt s pp (h[pos := h ! pp])"
proof -
  have pos: "pos < length h" "0 < pos" "s \<le> pp" using assms by (auto simp: heap_hole_def)
  have "pp < pos" using parent_less[OF pos(2)] pp by simp
  have par: "pp = s \<or> 0 < pp \<and> s \<le> parent pp"
    using descends_parent[OF assms(3,2)] descends_parent[of s pp] descends_le[of s "parent pp"] pp
    by (metis bot_nat_0.not_eq_extremum descends_le le_zero_eq)
  have edge: "\<not> lt (h ! i) (h ! parent i)"
    if "i < length h" "0 < i" "s \<le> parent i" "i \<noteq> pos" "parent i \<noteq> pos" for i
    using assms(1) that by (auto simp: heap_hole_def)
  have short: "\<not> lt (h ! i) (h ! pp)" if "i < length h" "0 < i" "parent i = pos" for i
    using assms(1,2) that pos pp \<open>pp < pos\<close> by (auto simp: heap_hole_def)
  have up: "\<not> lt (h ! pp) (h ! parent pp)" if "pp \<noteq> s"
    using edge[of pp] par that pos \<open>pp < pos\<close> parent_less[of pp] by auto
  show ?thesis
    unfolding heap_hole_def
  proof (intro conjI allI impI)
    show "pp < length (h[pos := h ! pp])" using pos \<open>pp < pos\<close> by simp
    show "pp = s \<or> 0 < pp \<and> s \<le> parent pp" by (rule par)
    fix i assume i: "i < length (h[pos := h ! pp])" "0 < i" "s \<le> parent i" "i \<noteq> pp"
    have lt: "parent i < i" "parent pp \<le> pp" using i(2) parent_less[of i] parent_less[of pp] by (auto simp: parent_def)
    show "if parent i = pp then pp = s \<or> \<not> lt (h[pos := h ! pp] ! i) (h[pos := h ! pp] ! parent pp)
          else \<not> lt (h[pos := h ! pp] ! i) (h[pos := h ! pp] ! parent i)"
    proof (cases "parent i = pp")
      case True
      have "\<not> lt (h ! i) (h ! parent pp)" if "pp \<noteq> s" "i \<noteq> pos"
        using edge[of i] up[OF that(1)] neg_trans True i that(2) \<open>pp < pos\<close> by auto
      then show ?thesis using True up pos \<open>pp < pos\<close> lt by (cases "i = pos") auto
    next
      case False
      then show ?thesis using edge[of i] short[of i] i pp pos \<open>pp < pos\<close> lt by (auto simp: nth_list_update split: if_splits)
    qed
  qed
qed

lemma siftdown_loop_spec:
  assumes "heap_hole lt s pos h" "descends s pos"
    "\<forall>i < length h. 0 < i \<longrightarrow> parent i = pos \<longrightarrow> \<not> lt (h ! i) x"
  shows "heap_from lt s (siftdown_loop lt x s h pos) \<and> mset (siftdown_loop lt x s h pos) = mset (h[pos := x])"
  using assms
proof (induction pos arbitrary: h rule: less_induct)
  case (less pos h)
  let ?pp = "parent pos"
  have le: "s \<le> pos" "pos < length h" using descends_le[OF less.prems(2)] less.prems(1) by (auto simp: heap_hole_def)
  show ?case
  proof (cases "s < pos \<and> lt x (h ! ?pp)")
    case False
    then have "siftdown_loop lt x s h pos = h[pos := x]" by (simp add: siftdown_loop.simps[of lt x s h pos] Let_def parent_def)
    then show ?thesis using heap_fill[OF less.prems(1,3)] False le by auto
  next
    case True
    let ?h = "h[pos := h ! ?pp]"
    have pos: "?pp < pos" "pos \<noteq> s" using True parent_less[of pos] by auto
    have 1: "heap_hole lt s ?pp ?h" by (rule hole_up[OF less.prems(1) pos(2) less.prems(2) refl])
    have 2: "\<forall>i < length ?h. 0 < i \<longrightarrow> parent i = ?pp \<longrightarrow> \<not> lt (?h ! i) x"
    proof (intro allI impI)
      fix i assume i: "i < length ?h" "0 < i" "parent i = ?pp"
      have "\<not> lt (h ! ?pp) x" using True asym by blast
      moreover have "\<not> lt (h ! i) (h ! ?pp)" if "i \<noteq> pos"
      proof -
        have "s \<le> ?pp" using less.prems(1) pos by (auto simp: heap_hole_def)
        moreover have "parent i \<noteq> pos" using i(3) pos by simp
        ultimately show ?thesis using less.prems(1) that i by (auto simp: heap_hole_def)
      qed
      ultimately show "\<not> lt (?h ! i) x" using neg_trans le by (cases "i = pos") auto
    qed
    have "siftdown_loop lt x s h pos = siftdown_loop lt x s ?h ?pp"
      using True by (simp add: siftdown_loop.simps[of lt x s h pos] Let_def parent_def)
    moreover have "mset (?h[?pp := x]) = mset (h[pos := x])"
      using mset_swap[of ?pp "h[pos := x]" pos] pos le by simp
    ultimately show ?thesis using less.IH[OF pos(1) 1 descends_parent[OF less.prems(2) pos(2)] 2] by simp
  qed
qed

lemma siftdown_spec:
  assumes "heap_hole lt s pos h" "descends s pos" "\<forall>i < length h. 0 < i \<longrightarrow> parent i = pos \<longrightarrow> \<not> lt (h ! i) (h ! pos)"
  shows "heap_from lt s (siftdown lt h s pos)" "mset (siftdown lt h s pos) = mset h"
  using siftdown_loop_spec[OF assms] by (simp_all add: siftdown_def)

text \<open>Moving the smaller child into the hole moves the hole down.\<close>

lemma hole_down:
  assumes h: "heap_hole lt s pos h" and c: "c < length h" "0 < c" "parent c = pos" "s \<le> pos"
    and min: "\<forall>i < length h. 0 < i \<longrightarrow> parent i = pos \<longrightarrow> \<not> lt (h ! i) (h ! c)"
  shows "heap_hole lt s c (h[pos := h ! c])"
proof -
  have pos: "pos < length h" "pos = s \<or> 0 < pos \<and> s \<le> parent pos" "pos < c" using h c parent_less[of c] by (auto simp: heap_hole_def)
  have edge: "\<not> lt (h ! i) (h ! parent i)" if "i < length h" "0 < i" "s \<le> parent i" "i \<noteq> pos" "parent i \<noteq> pos" for i
    using h that by (auto simp: heap_hole_def)
  show ?thesis
    unfolding heap_hole_def
  proof (intro conjI allI impI)
    show "c < length (h[pos := h ! c])" "c = s \<or> 0 < c \<and> s \<le> parent c" using c by auto
    fix i assume i: "i < length (h[pos := h ! c])" "0 < i" "s \<le> parent i" "i \<noteq> c"
    note p = parent_less[OF i(2)]
    show "if parent i = c then c = s \<or> \<not> lt (h[pos := h ! c] ! i) (h[pos := h ! c] ! parent c)
          else \<not> lt (h[pos := h ! c] ! i) (h[pos := h ! c] ! parent i)"
    proof (cases "i = pos")
      case True
      then have "pos \<noteq> s" using i p by auto
      then have "\<not> lt (h ! c) (h ! parent pos)" using h c pos(3) by (auto simp: heap_hole_def)
      then show ?thesis using True pos p c by auto
    next
      case False
      then show ?thesis using edge[of i] min i pos p c by (cases "parent i = pos") auto
    qed
  qed
qed

lemma siftup_loop_spec:
  assumes "heap_hole lt s pos h" "descends s pos"
  shows "case siftup_loop lt h pos of (h', p) \<Rightarrow> heap_hole lt s p h' \<and> descends s p \<and> length h \<le> 2 * p + 1 \<and>
    mset (h'[p := x]) = mset (h[pos := x])"
  using assms
proof (induction "length h - pos" arbitrary: h pos rule: less_induct)
  case (less h pos)
  show ?case
  proof (cases "2 * pos + 1 < length h")
    case False
    then have "siftup_loop lt h pos = (h, pos)" by (simp add: siftup_loop.simps[of lt h pos])
    then show ?thesis using less.prems False by simp
  next
    case True
    let ?l = "2 * pos + 1" let ?r = "?l + 1"
    define c where "c = (if ?r < length h \<and> \<not> lt (h ! ?l) (h ! ?r) then ?r else ?l)"
    have c: "c < length h" "0 < c" "parent c = pos" "pos < c" using True by (auto simp: c_def)
    have step: "siftup_loop lt h pos = siftup_loop lt (h[pos := h ! c]) c"
      using True by (simp add: siftup_loop.simps[of lt h pos] c_def Let_def)
    have "\<forall>i < length h. 0 < i \<longrightarrow> parent i = pos \<longrightarrow> \<not> lt (h ! i) (h ! c)"
    proof (intro allI impI)
      fix i assume i: "i < length h" "0 < i" "parent i = pos"
      then have "i = ?l \<or> i = ?r" using child_cases[OF i(2)] by simp
      then show "\<not> lt (h ! i) (h ! c)" using i(1) irrefl asym by (elim disjE) (simp_all add: c_def)
    qed
    then have hole: "heap_hole lt s c (h[pos := h ! c])"
      by (rule hole_down[OF less.prems(1) c(1-3) descends_le[OF less.prems(2)]])
    have d: "descends s c" by (rule descends_child) (use c less.prems in auto)
    have "mset (h[pos := h ! c, c := x]) = mset (h[pos := x])"
      using mset_swap[of c "h[pos := x]" pos] c by simp
    moreover have "length (h[pos := h ! c]) - c < length h - pos" using c by simp
    ultimately show ?thesis using less.hyps[OF _ hole d] by (simp add: step split: prod.splits)
  qed
qed

lemma siftup_spec:
  assumes "heap_from lt (Suc s) h" "s < length h"
  shows "heap_from lt s (siftup lt s h)" "mset (siftup lt s h) = mset h"
proof -
  obtain h' p where r: "siftup_loop lt h s = (h', p)" by fastforce
  have hole: "heap_hole lt s s h" using assms by (auto simp: heap_hole_def heap_from_def Suc_le_eq)
  from siftup_loop_spec[OF this descends_self, of "h ! s"] r
  have r': "heap_hole lt s p h'" "descends s p" "length h \<le> 2 * p + 1" "mset (h'[p := h ! s]) = mset h" by auto
  have len: "length h' = length h" using r'(4) by (metis length_list_update size_mset)
  have p: "p < length h'" using r'(1) by (simp add: heap_hole_def)
  have leaf: "parent i \<noteq> p" if "i < length h'" "0 < i" for i
    using child_cases[OF that(2)] that(1) r'(3) len by auto
  have "heap_hole lt s p (h'[p := h ! s])"
    using r'(1) leaf leaf[symmetric] by (auto simp: heap_hole_def nth_list_update)
  then have "heap_from lt s (siftdown lt (h'[p := h ! s]) s p)" "mset (siftdown lt (h'[p := h ! s]) s p) = mset (h'[p := h ! s])"
    by (intro siftdown_spec r'(2); use leaf in auto)+
  then show "heap_from lt s (siftup lt s h)" "mset (siftup lt s h) = mset h"
    using r'(4) by (simp_all add: siftup_def r)
qed

lemma heappush_spec:
  assumes "is_heap lt h"
  shows "is_heap lt (heappush lt h x)" "mset (heappush lt h x) = add_mset x (mset h)"
proof -
  have no_child: "parent i \<noteq> length h" if "i < length (h @ [x])" "0 < i" for i using parent_less[OF that(2)] that(1) by simp
  have "heap_hole lt 0 (length h) (h @ [x])"
    unfolding heap_hole_def
  proof (intro conjI allI impI)
    fix i assume i: "i < length (h @ [x])" "0 < i" "i \<noteq> length h"
    then show "if parent i = length h then length h = 0 \<or> \<not> lt ((h @ [x]) ! i) ((h @ [x]) ! parent (length h))
      else \<not> lt ((h @ [x]) ! i) ((h @ [x]) ! parent i)"
      using no_child[of i] assms parent_less[of i] by (auto simp: heap_from_def nth_append)
  qed auto
  from siftdown_spec[OF this descends_root] no_child
  show "is_heap lt (heappush lt h x)" "mset (heappush lt h x) = add_mset x (mset h)"
    by (simp_all add: heappush_def)
qed

lemma heap_root_min: "is_heap lt h \<Longrightarrow> i < length h \<Longrightarrow> \<not> lt (h ! i) (h ! 0)"
proof (induction i rule: less_induct)
  case (less i)
  show ?case
  proof (cases "i = 0")
    case False
    then have "\<not> lt (h ! parent i) (h ! 0)" "\<not> lt (h ! i) (h ! parent i)"
      using less parent_less[of i] by (auto simp: heap_from_def)
    then show ?thesis using neg_trans by blast
  qed (simp add: irrefl)
qed

lemma heappop_spec:
  assumes "is_heap lt h" "h \<noteq> []"
  shows "\<exists>h'. heappop lt h = Inr (h ! 0, h') \<and> is_heap lt h' \<and> mset h = add_mset (h ! 0) (mset h')"
proof (cases "butlast h = []")
  case True
  then have "h = [last h]" using assms(2) by (metis append_butlast_last_id append_Nil)
  then obtain a where "h = [a]" by blast
  then show ?thesis by (auto simp: heappop_def heap_from_def)
next
  case False
  let ?b = "butlast h" let ?h = "?b[0 := last h]"
  have h: "h = ?b @ [last h]" using assms(2) by simp
  have "heap_from lt (Suc 0) ?h"
    unfolding heap_from_def
  proof (intro allI impI)
    fix i assume i: "i < length ?h" "0 < i" "Suc 0 \<le> parent i"
    then show "\<not> lt (?h ! i) (?h ! parent i)"
      using assms(1) parent_less[OF i(2)] by (auto simp: heap_from_def nth_butlast)
  qed
  then have s: "is_heap lt (siftup lt 0 ?h)" "mset (siftup lt 0 ?h) = mset ?h" using False by (auto intro: siftup_spec)
  have "mset h = add_mset (?b ! 0) (mset ?h)"
  proof -
    have "mset h = add_mset (last h) (mset ?b)" by (subst h) simp
    also have "\<dots> = add_mset (?b ! 0) (mset ?h)" using False by (cases ?b) auto
    finally show ?thesis .
  qed
  moreover have "?b ! 0 = h ! 0" using False nth_butlast[of 0 h] length_greater_0_conv[of ?b] by blast
  ultimately show ?thesis using s False assms(2) by (simp add: heappop_def Let_def)
qed

lemma heapify_spec: "is_heap lt (heapify lt h)" "mset (heapify lt h) = mset h"
proof -
  have "heap_from lt 0 (fold (siftup lt) (rev [0..<n]) g) \<and> mset (fold (siftup lt) (rev [0..<n]) g) = mset g"
    if "heap_from lt n g" "n \<le> length g" for n g
    using that
  proof (induction n arbitrary: g)
    case (Suc n)
    then have s: "heap_from lt n (siftup lt n g)" "mset (siftup lt n g) = mset g" by (auto intro: siftup_spec)
    then have "length (siftup lt n g) = length g" by (metis size_mset)
    with Suc.IH[OF s(1)] Suc.prems s(2) show ?case by simp
  qed simp
  moreover have "heap_from lt (length h div 2) h"
    unfolding heap_from_def parent_def by auto
  ultimately show "is_heap lt (heapify lt h)" "mset (heapify lt h) = mset h" by (simp_all add: heapify_def)
qed

end

end
