(* ===== verification/Request_Queue.thy ===== *)
theory Request_Queue
  imports Heapq Block_Hashing "HOL-Library.Sublist"
begin

text \<open>
  The waiting queues of \<^verbatim>\<open>vllm/v1/core/sched/request_queue.py\<close>: a deque for the first-come-first-served
  policy and a \<^verbatim>\<open>heapq\<close> list for the priority policy. A queue holds references; \<open>obj\<close> is the object a
  reference points to, which \<^verbatim>\<open>Request.__lt__\<close> reads, and equality of requests is identity of
  references, as in Python. The service order \<open>rq_iter\<close> (the iterator of the class) is the
  abstraction to lists in which the correctness of every operation is stated.
\<close>

section \<open>Queues\<close>

datatype SchedulingPolicy = FCFS | PRIORITY

definition SchedulingPolicy_of :: "string \<Rightarrow> SchedulingPolicy result" where
  "SchedulingPolicy_of s =
     (if s = ''fcfs'' then Inr FCFS else if s = ''priority'' then Inr PRIORITY else Inl ValueError)"

datatype 'r RequestQueue = FCFSRequestQueue "'r list" | PriorityRequestQueue "'r list"

fun create_request_queue :: "SchedulingPolicy \<Rightarrow> 'r RequestQueue" where
  "create_request_queue PRIORITY = PriorityRequestQueue []"
| "create_request_queue FCFS = FCFSRequestQueue []"

definition obj_lt :: "('r \<Rightarrow> Request) \<Rightarrow> 'r \<Rightarrow> 'r \<Rightarrow> bool" where
  "obj_lt obj a b = req_lt (obj a) (obj b)"

subsection \<open>The deque\<close>

definition fcfs_add_request :: "'r list \<Rightarrow> 'r \<Rightarrow> 'r list" where
  [simp]: "fcfs_add_request q r = q @ [r]"

definition fcfs_pop_request :: "'r list \<Rightarrow> ('r \<times> 'r list) result" where
  [simp]: "fcfs_pop_request q = (case q of [] \<Rightarrow> Inl IndexError | r # q' \<Rightarrow> Inr (r, q'))"

definition fcfs_peek_request :: "'r list \<Rightarrow> 'r result" where
  [simp]: "fcfs_peek_request q = (if q = [] then Inl IndexError else Inr (q ! 0))"

definition fcfs_prepend_request :: "'r list \<Rightarrow> 'r \<Rightarrow> 'r list" where
  [simp]: "fcfs_prepend_request q r = r # q"

text \<open>\<^verbatim>\<open>extendleft\<close> prepends the elements one by one; \<^verbatim>\<open>deque.remove\<close> deletes the first occurrence and raises without one.\<close>

definition fcfs_prepend_requests :: "'r list \<Rightarrow> 'r list \<Rightarrow> 'r list" where
  [simp]: "fcfs_prepend_requests q rs = rev rs @ q"

definition fcfs_remove_request :: "'r list \<Rightarrow> 'r \<Rightarrow> 'r list result" where
  [simp]: "fcfs_remove_request q r = (if r \<in> set q then Inr (remove1 r q) else Inl ValueError)"

definition fcfs_remove_requests :: "'r list \<Rightarrow> 'r list \<Rightarrow> 'r list" where
  [simp]: "fcfs_remove_requests q rs = filter (\<lambda>r. r \<notin> set rs) q"

subsection \<open>The heap\<close>

definition prio_add_request :: "('r \<Rightarrow> Request) \<Rightarrow> 'r list \<Rightarrow> 'r \<Rightarrow> 'r list" where
  [simp]: "prio_add_request obj h r = heappush (obj_lt obj) h r"

definition prio_pop_request :: "('r \<Rightarrow> Request) \<Rightarrow> 'r list \<Rightarrow> ('r \<times> 'r list) result" where
  [simp]: "prio_pop_request obj h = (if h = [] then Inl IndexError else heappop (obj_lt obj) h)"

definition prio_peek_request :: "'r list \<Rightarrow> 'r result" where
  [simp]: "prio_peek_request h = (if h = [] then Inl IndexError else Inr (h ! 0))"

definition prio_prepend_request :: "('r \<Rightarrow> Request) \<Rightarrow> 'r list \<Rightarrow> 'r \<Rightarrow> 'r list" where
  [simp]: "prio_prepend_request obj h r = prio_add_request obj h r"

definition prio_prepend_requests :: "('r \<Rightarrow> Request) \<Rightarrow> 'r list \<Rightarrow> 'r list \<Rightarrow> 'r list" where
  [simp]: "prio_prepend_requests obj h rs = fold (\<lambda>r h. prio_add_request obj h r) rs h"

definition prio_remove_request :: "('r \<Rightarrow> Request) \<Rightarrow> 'r list \<Rightarrow> 'r \<Rightarrow> 'r list result" where
  [simp]: "prio_remove_request obj h r =
     (if r \<in> set h then Inr (heapify (obj_lt obj) (remove1 r h)) else Inl ValueError)"

definition prio_remove_requests :: "('r \<Rightarrow> Request) \<Rightarrow> 'r list \<Rightarrow> 'r list \<Rightarrow> 'r list" where
  [simp]: "prio_remove_requests obj h rs = heapify (obj_lt obj) (filter (\<lambda>r. r \<notin> set rs) h)"

text \<open>Iterating a priority queue pops from a copy of the heap until it is empty.\<close>

lemma length_siftdown_loop [simp]: "length (siftdown_loop lt x s h p) = length h"
proof (induction lt x s h p rule: siftdown_loop.induct)
  case (1 lt x s h p)
  then show ?case by (subst siftdown_loop.simps) (simp add: Let_def)
qed

lemma length_siftup_loop: "length (fst (siftup_loop lt h p)) = length h"
proof (induction lt h p rule: siftup_loop.induct)
  case (1 lt h p)
  then show ?case by (subst siftup_loop.simps) (auto simp: Let_def)
qed

lemma length_siftup [simp]: "length (siftup lt p h) = length h"
  using length_siftup_loop[of lt h p] by (auto simp: siftup_def siftdown_def Let_def split: prod.splits)

lemma heappop_shorter: "heappop lt h = Inr (r, h') \<Longrightarrow> length h' < length h"
  by (auto simp: heappop_def Let_def split: if_splits)

function heap_drain :: "('r \<Rightarrow> 'r \<Rightarrow> bool) \<Rightarrow> 'r list \<Rightarrow> 'r list" where
  "heap_drain lt h = (case heappop lt h of Inl e \<Rightarrow> [] | Inr (r, h') \<Rightarrow> r # heap_drain lt h')"
  by auto
termination by (relation "measure (\<lambda>(lt, h). length h)") (auto dest: heappop_shorter)

declare heap_drain.simps [simp del, code]

definition prio_iter :: "('r \<Rightarrow> Request) \<Rightarrow> 'r list \<Rightarrow> 'r list" where
  [simp]: "prio_iter obj h = heap_drain (obj_lt obj) h"

subsection \<open>Either queue\<close>

fun rq_add_request :: "('r \<Rightarrow> Request) \<Rightarrow> 'r RequestQueue \<Rightarrow> 'r \<Rightarrow> 'r RequestQueue" where
  "rq_add_request obj (FCFSRequestQueue q) r = FCFSRequestQueue (fcfs_add_request q r)"
| "rq_add_request obj (PriorityRequestQueue h) r = PriorityRequestQueue (prio_add_request obj h r)"

fun rq_pop_request :: "('r \<Rightarrow> Request) \<Rightarrow> 'r RequestQueue \<Rightarrow> ('r \<times> 'r RequestQueue) result" where
  "rq_pop_request obj (FCFSRequestQueue q) = rbind (fcfs_pop_request q) (\<lambda>(r, q'). Inr (r, FCFSRequestQueue q'))"
| "rq_pop_request obj (PriorityRequestQueue h) = rbind (prio_pop_request obj h) (\<lambda>(r, h'). Inr (r, PriorityRequestQueue h'))"

fun rq_peek_request :: "'r RequestQueue \<Rightarrow> 'r result" where
  "rq_peek_request (FCFSRequestQueue q) = fcfs_peek_request q"
| "rq_peek_request (PriorityRequestQueue h) = prio_peek_request h"

fun rq_prepend_request :: "('r \<Rightarrow> Request) \<Rightarrow> 'r RequestQueue \<Rightarrow> 'r \<Rightarrow> 'r RequestQueue" where
  "rq_prepend_request obj (FCFSRequestQueue q) r = FCFSRequestQueue (fcfs_prepend_request q r)"
| "rq_prepend_request obj (PriorityRequestQueue h) r = PriorityRequestQueue (prio_prepend_request obj h r)"

fun rq_iter :: "('r \<Rightarrow> Request) \<Rightarrow> 'r RequestQueue \<Rightarrow> 'r list" where
  "rq_iter obj (FCFSRequestQueue q) = q"
| "rq_iter obj (PriorityRequestQueue h) = prio_iter obj h"

fun rq_prepend_requests :: "('r \<Rightarrow> Request) \<Rightarrow> 'r RequestQueue \<Rightarrow> 'r RequestQueue \<Rightarrow> 'r RequestQueue" where
  "rq_prepend_requests obj (FCFSRequestQueue q) requests = FCFSRequestQueue (fcfs_prepend_requests q (rq_iter obj requests))"
| "rq_prepend_requests obj (PriorityRequestQueue h) requests =
     PriorityRequestQueue (prio_prepend_requests obj h (rq_iter obj requests))"

fun rq_remove_request :: "('r \<Rightarrow> Request) \<Rightarrow> 'r RequestQueue \<Rightarrow> 'r \<Rightarrow> 'r RequestQueue result" where
  "rq_remove_request obj (FCFSRequestQueue q) r = rbind (fcfs_remove_request q r) (\<lambda>q'. Inr (FCFSRequestQueue q'))"
| "rq_remove_request obj (PriorityRequestQueue h) r = rbind (prio_remove_request obj h r) (\<lambda>h'. Inr (PriorityRequestQueue h'))"

fun rq_remove_requests :: "('r \<Rightarrow> Request) \<Rightarrow> 'r RequestQueue \<Rightarrow> 'r list \<Rightarrow> 'r RequestQueue" where
  "rq_remove_requests obj (FCFSRequestQueue q) rs = FCFSRequestQueue (fcfs_remove_requests q rs)"
| "rq_remove_requests obj (PriorityRequestQueue h) rs = PriorityRequestQueue (prio_remove_requests obj h rs)"

fun rq_len :: "'r RequestQueue \<Rightarrow> int" where
  "rq_len (FCFSRequestQueue q) = int (length q)"
| "rq_len (PriorityRequestQueue h) = int (length h)"

definition rq_bool :: "'r RequestQueue \<Rightarrow> bool" where
  "rq_bool q \<longleftrightarrow> rq_len q > 0"

lemma rq_iter_priority: "rq_iter obj (PriorityRequestQueue h) = heap_drain (obj_lt obj) h"
  by simp

section \<open>The comparison of requests\<close>

interpretation lt_order: strict_weak_order "obj_lt obj" for obj
proof
  show "\<not> obj_lt obj a a" for a by (simp add: obj_lt_def req_lt_irrefl)
  show "\<not> obj_lt obj a c" if "\<not> obj_lt obj a b" "\<not> obj_lt obj b c" for a b c
    using that by (auto simp: obj_lt_def req_lt_def split: if_splits)
  show "\<not> obj_lt obj b a" if "obj_lt obj a b" for a b
    using that req_lt_trans req_lt_irrefl by (auto simp: obj_lt_def)
qed

lemma obj_lt_trans: "obj_lt obj a b \<Longrightarrow> obj_lt obj b c \<Longrightarrow> obj_lt obj a c"
  using req_lt_trans by (auto simp: obj_lt_def)

lemma obj_lt_total: "py_id (obj a) \<noteq> py_id (obj b) \<Longrightarrow> obj_lt obj a b \<or> obj_lt obj b a"
  using req_lt_total by (auto simp: obj_lt_def)

text \<open>Strictly sorted lists are determined by their elements.\<close>

lemma sorted_lt_unique:
  assumes "sorted_wrt (obj_lt obj) xs" "sorted_wrt (obj_lt obj) ys" "set xs = set ys"
  shows "xs = ys"
  using assms
proof (induction xs arbitrary: ys)
  case (Cons x xs)
  then obtain y zs where ys: "ys = y # zs" by (cases ys) auto
  have "x = y"
  proof (rule ccontr)
    assume "x \<noteq> y"
    then have "x \<in> set zs" "y \<in> set xs" using Cons.prems(3) ys by auto
    then show False using Cons.prems(1,2) lt_order.asym[of obj x y] ys by auto
  qed
  moreover have "x \<notin> set xs" "y \<notin> set zs" using Cons.prems(1,2) lt_order.irrefl[of obj] by (auto simp: ys)
  moreover from calculation have "set xs = set zs" using Cons.prems(3) ys by auto
  ultimately show ?case using Cons.IH[of zs] Cons.prems by (auto simp: ys)
qed simp

section \<open>The service order\<close>

text \<open>The references a queue stores, and its invariant: requests are distinct objects, and a heap is one.\<close>

fun rq_elems :: "'r RequestQueue \<Rightarrow> 'r list" where
  "rq_elems (FCFSRequestQueue q) = q"
| "rq_elems (PriorityRequestQueue h) = h"

fun rq_policy :: "'r RequestQueue \<Rightarrow> SchedulingPolicy" where
  "rq_policy (FCFSRequestQueue q) = FCFS"
| "rq_policy (PriorityRequestQueue h) = PRIORITY"

definition queue_inv :: "('r \<Rightarrow> Request) \<Rightarrow> 'r RequestQueue \<Rightarrow> bool" where
  "queue_inv obj q \<longleftrightarrow> distinct (map (\<lambda>r. py_id (obj r)) (rq_elems q)) \<and>
     (case q of FCFSRequestQueue _ \<Rightarrow> True | PriorityRequestQueue h \<Rightarrow> is_heap (obj_lt obj) h)"

text \<open>What each operation does to the service order: the abstract queue.\<close>

fun insert_by :: "('r \<Rightarrow> 'r \<Rightarrow> bool) \<Rightarrow> 'r \<Rightarrow> 'r list \<Rightarrow> 'r list" where
  "insert_by lt r [] = [r]"
| "insert_by lt r (x # xs) = (if lt x r then x # insert_by lt r xs else r # x # xs)"

fun spec_add :: "('r \<Rightarrow> Request) \<Rightarrow> SchedulingPolicy \<Rightarrow> 'r \<Rightarrow> 'r list \<Rightarrow> 'r list" where
  "spec_add obj FCFS r xs = xs @ [r]"
| "spec_add obj PRIORITY r xs = insert_by (obj_lt obj) r xs"

fun spec_prepend :: "('r \<Rightarrow> Request) \<Rightarrow> SchedulingPolicy \<Rightarrow> 'r \<Rightarrow> 'r list \<Rightarrow> 'r list" where
  "spec_prepend obj FCFS r xs = r # xs"
| "spec_prepend obj PRIORITY r xs = insert_by (obj_lt obj) r xs"

lemma heap_drain_spec:
  assumes "is_heap (obj_lt obj) h"
  shows "mset (heap_drain (obj_lt obj) h) = mset h \<and> sorted_wrt (\<lambda>a b. \<not> obj_lt obj b a) (heap_drain (obj_lt obj) h)"
  using assms
proof (induction h rule: measure_induct_rule[of length])
  case (less h)
  show ?case
  proof (cases "h = []")
    case False
    obtain h' where h': "heappop (obj_lt obj) h = Inr (h ! 0, h')" "is_heap (obj_lt obj) h'" "mset h = add_mset (h ! 0) (mset h')"
      using lt_order.heappop_spec[OF less.prems False] by blast
    have IH: "mset (heap_drain (obj_lt obj) h') = mset h'" "sorted_wrt (\<lambda>a b. \<not> obj_lt obj b a) (heap_drain (obj_lt obj) h')"
      using less.IH[OF heappop_shorter[OF h'(1)] h'(2)] by auto
    have "\<not> obj_lt obj b (h ! 0)" if "b \<in> set h" for b
      using that lt_order.heap_root_min[OF less.prems] by (auto simp: in_set_conv_nth)
    moreover have "set (heap_drain (obj_lt obj) h') \<subseteq> set h" using IH(1) h'(3) by (metis set_mset_add_mset_insert set_mset_mset subset_insertI)
    ultimately show ?thesis using IH h'(3) by (subst (1 2) heap_drain.simps) (auto simp: h'(1))
  qed (simp add: heap_drain.simps[of _ "[]"] heappop_def)
qed

lemma mset_rq_iter: "queue_inv obj q \<Longrightarrow> mset (rq_iter obj q) = mset (rq_elems q)"
  using heap_drain_spec by (cases q) (auto simp: queue_inv_def)

lemma set_rq_iter: "queue_inv obj q \<Longrightarrow> set (rq_iter obj q) = set (rq_elems q)"
  using mset_rq_iter by (metis set_mset_mset)

lemma distinct_rq_iter: "queue_inv obj q \<Longrightarrow> distinct (map (\<lambda>r. py_id (obj r)) (rq_iter obj q))"
proof -
  assume q: "queue_inv obj q"
  then have "mset (map (\<lambda>r. py_id (obj r)) (rq_iter obj q)) = mset (map (\<lambda>r. py_id (obj r)) (rq_elems q))"
    using mset_rq_iter by (metis mset_map)
  then show ?thesis using q by (metis mset_eq_imp_distinct_iff queue_inv_def)
qed

lemma distinct_map_sorted_wrt: "distinct (map f xs) \<longleftrightarrow> sorted_wrt (\<lambda>a b. f a \<noteq> f b) xs"
  by (induction xs) force+

text \<open>The iteration of a priority queue is strictly sorted, hence determined by the elements.\<close>

lemma priority_iter_sorted:
  assumes "queue_inv obj (PriorityRequestQueue h)"
  shows "sorted_wrt (obj_lt obj) (heap_drain (obj_lt obj) h)"
proof -
  let ?xs = "heap_drain (obj_lt obj) h"
  have "sorted_wrt (\<lambda>a b. \<not> obj_lt obj b a) ?xs" using assms heap_drain_spec by (auto simp: queue_inv_def)
  moreover have "sorted_wrt (\<lambda>a b. py_id (obj a) \<noteq> py_id (obj b)) ?xs"
    using distinct_rq_iter[OF assms] by (simp add: distinct_map_sorted_wrt)
  ultimately show ?thesis using obj_lt_total[of obj] unfolding sorted_wrt_iff_nth_less by meson
qed

lemma insert_by_sorted:
  assumes "sorted_wrt (obj_lt obj) xs" "\<forall>x \<in> set xs. py_id (obj x) \<noteq> py_id (obj r)"
  shows "sorted_wrt (obj_lt obj) (insert_by (obj_lt obj) r xs)" "set (insert_by (obj_lt obj) r xs) = insert r (set xs)"
proof -
  show s: "set (insert_by (obj_lt obj) r xs) = insert r (set xs)" for xs by (induction xs) auto
  show "sorted_wrt (obj_lt obj) (insert_by (obj_lt obj) r xs)"
    using assms
  proof (induction xs)
    case (Cons x xs)
    then show ?case using obj_lt_total[of obj x r] obj_lt_trans[of obj r x] by (auto simp: s)
  qed simp
qed

lemma priority_iter_unique:
  assumes "queue_inv obj (PriorityRequestQueue h)" "sorted_wrt (obj_lt obj) xs" "set xs = set h"
  shows "heap_drain (obj_lt obj) h = xs"
  using sorted_lt_unique[OF priority_iter_sorted[OF assms(1)] assms(2)] set_rq_iter[OF assms(1)] assms(3) by simp

section \<open>The interface and its implementation\<close>

text \<open>
  What a scheduler may rely on, whatever the policy: the service order is a list; popping takes
  its head; adding and prepending insert one element and removing deletes elements, and none of
  them reorders the others.
\<close>

locale request_queue =
  fixes inv :: "'q \<Rightarrow> bool" and order :: "'q \<Rightarrow> 'r list" and ident :: "'r \<Rightarrow> nat"
    and add :: "'q \<Rightarrow> 'r \<Rightarrow> 'q" and prepend :: "'q \<Rightarrow> 'r \<Rightarrow> 'q"
    and pop :: "'q \<Rightarrow> ('r \<times> 'q) result" and peek :: "'q \<Rightarrow> 'r result"
    and remove_many :: "'q \<Rightarrow> 'r list \<Rightarrow> 'q"
  assumes order_distinct: "inv q \<Longrightarrow> distinct (map ident (order q))"
    and pop_order: "inv q \<Longrightarrow> (case order q of [] \<Rightarrow> pop q = Inl IndexError \<and> peek q = Inl IndexError
        | r # rs \<Rightarrow> peek q = Inr r \<and> (\<exists>q'. pop q = Inr (r, q') \<and> order q' = rs \<and> inv q'))"
    and add_order: "\<lbrakk>inv q; ident r \<notin> ident ` set (order q)\<rbrakk> \<Longrightarrow>
        inv (add q r) \<and> r \<in> set (order (add q r)) \<and> removeAll r (order (add q r)) = order q"
    and prepend_order: "\<lbrakk>inv q; ident r \<notin> ident ` set (order q)\<rbrakk> \<Longrightarrow>
        inv (prepend q r) \<and> r \<in> set (order (prepend q r)) \<and> removeAll r (order (prepend q r)) = order q"
    and remove_order: "inv q \<Longrightarrow> inv (remove_many q rs) \<and> order (remove_many q rs) = filter (\<lambda>r. r \<notin> set rs) (order q)"
begin

lemma distinct_order: "inv q \<Longrightarrow> distinct (order q)"
  using order_distinct distinct_map by blast

lemma set_add: "\<lbrakk>inv q; ident r \<notin> ident ` set (order q)\<rbrakk> \<Longrightarrow> set (order (add q r)) = insert r (set (order q))"
  using add_order[of q r] by (metis insert_Diff set_removeAll)

lemma set_prepend: "\<lbrakk>inv q; ident r \<notin> ident ` set (order q)\<rbrakk> \<Longrightarrow> set (order (prepend q r)) = insert r (set (order q))"
  using prepend_order[of q r] by (metis insert_Diff set_removeAll)

lemma pop_some: "\<lbrakk>inv q; pop q = Inr (r, q')\<rbrakk> \<Longrightarrow> order q = r # order q' \<and> inv q' \<and> r \<notin> set (order q')"
  using pop_order[of q] distinct_order[of q] by (auto split: list.splits)

lemma peek_some: "\<lbrakk>inv q; peek q = Inr r\<rbrakk> \<Longrightarrow> \<exists>q'. pop q = Inr (r, q')"
  using pop_order[of q] by (auto split: list.splits)

text \<open>Popping \<open>n\<close> times serves the first \<open>n\<close> requests of the order, so a request at position \<open>n\<close> is next.\<close>

lemma pops_serve_order:
  "inv q \<Longrightarrow> n \<le> length (order q) \<Longrightarrow>
     \<exists>q'. ((\<lambda>s. rbind s (\<lambda>(rs, q). rbind (pop q) (\<lambda>(r, q). Inr (rs @ [r], q)))) ^^ n) (Inr ([], q)) = Inr (take n (order q), q') \<and>
       order q' = drop n (order q) \<and> inv q'"
proof (induction n)
  case (Suc n)
  then obtain q1 where q1: "((\<lambda>s. rbind s (\<lambda>(rs, q). rbind (pop q) (\<lambda>(r, q). Inr (rs @ [r], q)))) ^^ n) (Inr ([], q)) = Inr (take n (order q), q1)"
    "order q1 = drop n (order q)" "inv q1" by auto
  have d: "drop n (order q) = order q ! n # drop (Suc n) (order q)" using Suc.prems(2) by (simp add: Cons_nth_drop_Suc)
  obtain q2 where "pop q1 = Inr (order q ! n, q2)" "order q2 = drop (Suc n) (order q)" "inv q2"
    using pop_order[OF q1(3)] q1(2) d by auto
  then show ?case using q1(1) Suc.prems(2) by (auto simp: take_Suc_conv_app_nth)
qed simp

end

lemma queue_inv_priority_update:
  assumes "is_heap (obj_lt obj) h'" "mset (map (\<lambda>r. py_id (obj r)) h') = mset (map (\<lambda>r. py_id (obj r)) xs)"
    "distinct (map (\<lambda>r. py_id (obj r)) xs)"
  shows "queue_inv obj (PriorityRequestQueue h')"
  using assms mset_eq_imp_distinct_iff[OF assms(2)] by (simp add: queue_inv_def)

lemma add_request_inv:
  assumes "queue_inv obj q" "py_id (obj r) \<notin> (\<lambda>r. py_id (obj r)) ` set (rq_elems q)"
  shows "queue_inv obj (rq_add_request obj q r)" "rq_iter obj (rq_add_request obj q r) = spec_add obj (rq_policy q) r (rq_iter obj q)"
proof -
  have "queue_inv obj (rq_add_request obj q r) \<and> rq_iter obj (rq_add_request obj q r) = spec_add obj (rq_policy q) r (rq_iter obj q)"
  proof (cases q)
    case (FCFSRequestQueue xs)
    then show ?thesis using assms by (auto simp: queue_inv_def)
  next
    case (PriorityRequestQueue h)
    have heap: "is_heap (obj_lt obj) h" using assms(1) by (simp add: PriorityRequestQueue queue_inv_def)
    note p = lt_order.heappush_spec[OF heap, of r]
    have inv: "queue_inv obj (PriorityRequestQueue (heappush (obj_lt obj) h r))"
      by (rule queue_inv_priority_update[of _ _ "r # h"]) (use p assms in \<open>auto simp: PriorityRequestQueue queue_inv_def\<close>)
    have q: "queue_inv obj (PriorityRequestQueue h)" using assms(1) PriorityRequestQueue by simp
    have "heap_drain (obj_lt obj) (heappush (obj_lt obj) h r) = insert_by (obj_lt obj) r (heap_drain (obj_lt obj) h)"
    proof (rule priority_iter_unique[OF inv])
      have "\<forall>x \<in> set (heap_drain (obj_lt obj) h). py_id (obj x) \<noteq> py_id (obj r)"
        using set_rq_iter[OF q] assms(2) PriorityRequestQueue by (metis imageI rq_elems.simps(2) rq_iter_priority)
      note ins = insert_by_sorted[OF priority_iter_sorted[OF q] this]
      show "sorted_wrt (obj_lt obj) (insert_by (obj_lt obj) r (heap_drain (obj_lt obj) h))" by (rule ins)
      show "set (insert_by (obj_lt obj) r (heap_drain (obj_lt obj) h)) = set (heappush (obj_lt obj) h r)"
        using ins(2) set_rq_iter[OF q] p(2) by (metis rq_elems.simps(2) rq_iter_priority set_mset_add_mset_insert set_mset_mset)
    qed
    then show ?thesis using inv PriorityRequestQueue by simp
  qed
  then show "queue_inv obj (rq_add_request obj q r)" "rq_iter obj (rq_add_request obj q r) = spec_add obj (rq_policy q) r (rq_iter obj q)" by auto
qed

lemma prepend_request_inv:
  assumes "queue_inv obj q" "py_id (obj r) \<notin> (\<lambda>r. py_id (obj r)) ` set (rq_elems q)"
  shows "queue_inv obj (rq_prepend_request obj q r)" "rq_iter obj (rq_prepend_request obj q r) = spec_prepend obj (rq_policy q) r (rq_iter obj q)"
proof -
  have "queue_inv obj (rq_prepend_request obj q r) \<and> rq_iter obj (rq_prepend_request obj q r) = spec_prepend obj (rq_policy q) r (rq_iter obj q)"
  proof (cases q)
    case (FCFSRequestQueue xs)
    then show ?thesis using assms by (simp add: queue_inv_def)
  next
    case (PriorityRequestQueue h)
    then show ?thesis using add_request_inv[OF assms] by simp
  qed
  then show "queue_inv obj (rq_prepend_request obj q r)" "rq_iter obj (rq_prepend_request obj q r) = spec_prepend obj (rq_policy q) r (rq_iter obj q)" by auto
qed

lemma pop_request_inv:
  assumes "queue_inv obj q"
  shows "case rq_iter obj q of [] \<Rightarrow> rq_pop_request obj q = Inl IndexError \<and> rq_peek_request q = Inl IndexError
    | r # rs \<Rightarrow> rq_peek_request q = Inr r \<and>
        (\<exists>q'. rq_pop_request obj q = Inr (r, q') \<and> rq_iter obj q' = rs \<and> rq_policy q' = rq_policy q \<and> queue_inv obj q')"
proof (cases q)
  case (FCFSRequestQueue xs)
  then show ?thesis using assms by (auto simp: queue_inv_def split: list.splits)
next
  case (PriorityRequestQueue h)
  show ?thesis
  proof (cases "h = []")
    case True
    then show ?thesis using PriorityRequestQueue by (simp add: heap_drain.simps[of _ "[]"] heappop_def)
  next
    case False
    have heap: "is_heap (obj_lt obj) h" using assms by (simp add: PriorityRequestQueue queue_inv_def)
    obtain h' where h': "heappop (obj_lt obj) h = Inr (h ! 0, h')" "is_heap (obj_lt obj) h'" "mset h = add_mset (h ! 0) (mset h')"
      using lt_order.heappop_spec[OF heap False] by blast
    have d: "heap_drain (obj_lt obj) h = h ! 0 # heap_drain (obj_lt obj) h'" by (subst heap_drain.simps) (simp add: h'(1))
    have "mset (map (\<lambda>r. py_id (obj r)) h) = mset (map (\<lambda>r. py_id (obj r)) (h ! 0 # h'))" using h'(3) by (metis mset.simps(2) mset_map)
    then have "distinct (map (\<lambda>r. py_id (obj r)) (h ! 0 # h'))"
      using assms PriorityRequestQueue by (metis mset_eq_imp_distinct_iff queue_inv_def rq_elems.simps(2))
    then have "queue_inv obj (PriorityRequestQueue h')" using h'(2) by (simp add: queue_inv_def)
    then show ?thesis using d h' False PriorityRequestQueue by simp
  qed
qed

lemma remove_requests_inv:
  assumes "queue_inv obj q"
  shows "queue_inv obj (rq_remove_requests obj q rs)"
    "rq_iter obj (rq_remove_requests obj q rs) = filter (\<lambda>r. r \<notin> set rs) (rq_iter obj q)"
proof -
  have "queue_inv obj (rq_remove_requests obj q rs) \<and>
    rq_iter obj (rq_remove_requests obj q rs) = filter (\<lambda>r. r \<notin> set rs) (rq_iter obj q)"
  proof (cases q)
    case (FCFSRequestQueue xs)
    then show ?thesis using assms by (auto simp: queue_inv_def distinct_map_filter)
  next
    case (PriorityRequestQueue h)
    let ?f = "filter (\<lambda>r. r \<notin> set rs) h" let ?h = "heapify (obj_lt obj) ?f"
    have m: "mset ?h = mset ?f" by (rule lt_order.heapify_spec)
    have inv: "queue_inv obj (PriorityRequestQueue ?h)"
      by (rule queue_inv_priority_update[of _ _ ?f])
        (use lt_order.heapify_spec[of obj ?f] assms PriorityRequestQueue in \<open>auto simp: queue_inv_def distinct_map_filter\<close>)
    have "heap_drain (obj_lt obj) ?h = filter (\<lambda>r. r \<notin> set rs) (heap_drain (obj_lt obj) h)"
    proof (rule priority_iter_unique[OF inv])
      show "sorted_wrt (obj_lt obj) (filter (\<lambda>r. r \<notin> set rs) (heap_drain (obj_lt obj) h))"
        using priority_iter_sorted assms PriorityRequestQueue by (intro sorted_wrt_filter) simp
      show "set (filter (\<lambda>r. r \<notin> set rs) (heap_drain (obj_lt obj) h)) = set ?h"
        using set_rq_iter[OF assms] PriorityRequestQueue mset_eq_setD[OF m] by simp
    qed
    then show ?thesis using inv PriorityRequestQueue by simp
  qed
  then show "queue_inv obj (rq_remove_requests obj q rs)"
    "rq_iter obj (rq_remove_requests obj q rs) = filter (\<lambda>r. r \<notin> set rs) (rq_iter obj q)" by auto
qed

lemma removeAll_insert_by: "r \<notin> set xs \<Longrightarrow> removeAll r (insert_by lt r xs) = xs"
  by (induction xs) (auto simp: removeAll_id)

lemma set_insert_by: "set (insert_by lt r xs) = insert r (set xs)"
  by (induction xs) auto

interpretation rq: request_queue "queue_inv obj" "rq_iter obj" "\<lambda>r. py_id (obj r)" "rq_add_request obj" "rq_prepend_request obj"
  "rq_pop_request obj" rq_peek_request "rq_remove_requests obj" for obj
proof (unfold_locales, goal_cases)
  case (1 q)
  then show ?case by (rule distinct_rq_iter)
next
  case (2 q)
  from pop_request_inv[OF this] show ?case by (auto split: list.splits)
next
  case (3 q r)
  then have new: "py_id (obj r) \<notin> (\<lambda>r. py_id (obj r)) ` set (rq_elems q)" "r \<notin> set (rq_iter obj q)" by (auto simp: set_rq_iter)
  then show ?case using add_request_inv[OF 3(1) new(1)]
    by (cases "rq_policy q") (auto simp: removeAll_insert_by set_insert_by removeAll_id)
next
  case (4 q r)
  then have new: "py_id (obj r) \<notin> (\<lambda>r. py_id (obj r)) ` set (rq_elems q)" "r \<notin> set (rq_iter obj q)" by (auto simp: set_rq_iter)
  then show ?case using prepend_request_inv[OF 4(1) new(1)]
    by (cases "rq_policy q") (auto simp: removeAll_insert_by set_insert_by removeAll_id)
next
  case (5 q rs)
  then show ?case using remove_requests_inv by auto
qed

lemma rq_policy_keeps [simp]:
  "rq_policy (rq_add_request obj q r) = rq_policy q" "rq_policy (rq_prepend_request obj q r) = rq_policy q"
  "rq_policy (rq_remove_requests obj q rs) = rq_policy q" "rq_policy (create_request_queue p) = p"
  by (cases q; simp)+ (cases p; simp)

lemma create_queue_inv [simp]: "queue_inv obj (create_request_queue p)" "rq_iter obj (create_request_queue p) = []"
  by (cases p; simp add: queue_inv_def heap_from_def heap_drain.simps[of _ "[]"] heappop_def)+

lemma rq_len_iter: "queue_inv obj q \<Longrightarrow> rq_len q = int (length (rq_iter obj q))"
  using mset_rq_iter[of obj q] by (cases q) (auto dest: mset_eq_length)

section \<open>Putting skipped requests back\<close>

text \<open>Adding several requests to a priority queue at once.\<close>

lemma fold_add_priority:
  assumes "queue_inv obj (PriorityRequestQueue h)" "distinct (map (\<lambda>r. py_id (obj r)) rs)"
    "\<forall>r \<in> set rs. py_id (obj r) \<notin> (\<lambda>r. py_id (obj r)) ` set h"
  shows "queue_inv obj (PriorityRequestQueue (prio_prepend_requests obj h rs)) \<and> set (prio_prepend_requests obj h rs) = set h \<union> set rs"
  using assms
proof (induction rs arbitrary: h)
  case (Cons r rs)
  have heap: "is_heap (obj_lt obj) h" using Cons.prems(1) by (simp add: queue_inv_def)
  let ?h = "heappush (obj_lt obj) h r"
  have "set ?h = insert r (set h)" using lt_order.heappush_spec(2)[OF heap, of r] by (metis set_mset_add_mset_insert set_mset_mset)
  moreover have "queue_inv obj (PriorityRequestQueue ?h)"
    using add_request_inv(1)[OF Cons.prems(1), of r] Cons.prems(3) by simp
  moreover have "\<forall>x \<in> set rs. py_id (obj x) \<noteq> py_id (obj r)" using Cons.prems(2) unfolding distinct_map_sorted_wrt by auto
  ultimately show ?case using Cons.IH[of ?h] Cons.prems(2,3) by auto
qed simp

lemma fold_prepend_fcfs: "fold (\<lambda>r q. rq_prepend_request obj q r) rs (FCFSRequestQueue xs) = FCFSRequestQueue (rev rs @ xs)"
  by (induction rs arbitrary: xs) auto

lemma fold_prepend_priority:
  "fold (\<lambda>r q. rq_prepend_request obj q r) rs (PriorityRequestQueue h) = PriorityRequestQueue (prio_prepend_requests obj h rs)"
  by (induction rs arbitrary: h) auto

lemma subseq_sorted_append:
  "subseq zs xs \<Longrightarrow> sorted_wrt P (xs @ ys) \<Longrightarrow> sorted_wrt P (zs @ ys) \<and> set zs \<subseteq> set xs"
  by (induction rule: list_emb.induct) (auto simp: sorted_wrt_append)

text \<open>
  A scheduling pass that skips requests does not change who is served first. After
  the requests \<open>xs\<close> were popped, those of them that are skipped (\<open>zs\<close>) are prepended one by one to a
  fresh queue, which is finally prepended to the waiting queue. For both policies the service
  order is then the skipped requests in their old order, followed by the rest. For the deque
  the two reversals cancel; for the heap the priorities decide.
\<close>

theorem skipped_requests_keep_order:
  assumes q: "queue_inv obj q" "rq_iter obj q = xs @ ys"
    and q': "queue_inv obj q'" "rq_policy q' = rq_policy q" "rq_iter obj q' = ys"
    and zs: "subseq zs xs"
    and skipped: "skipped = fold (\<lambda>r s. rq_prepend_request obj s r) zs (create_request_queue (rq_policy q))"
  shows "rq_iter obj (rq_prepend_requests obj q' skipped) = zs @ ys \<and> queue_inv obj (rq_prepend_requests obj q' skipped)"
proof -
  have "sorted_wrt (\<lambda>a b. py_id (obj a) \<noteq> py_id (obj b)) (xs @ ys)"
    using distinct_rq_iter[OF q(1)] q(2) by (simp only: distinct_map_sorted_wrt)
  from subseq_sorted_append[OF zs this] have dist: "distinct (map (\<lambda>r. py_id (obj r)) (zs @ ys))"
    by (simp only: distinct_map_sorted_wrt)
  show ?thesis
  proof (cases q)
    case (FCFSRequestQueue l)
    then obtain l' where l': "q' = FCFSRequestQueue l'" using q'(2) by (cases q') auto
    show ?thesis using dist q'(3) skipped FCFSRequestQueue l' by (simp add: fold_prepend_fcfs queue_inv_def)
  next
    case (PriorityRequestQueue h)
    then obtain h' where h': "q' = PriorityRequestQueue h'" using q'(2) by (cases q') auto
    have sorted: "sorted_wrt (obj_lt obj) (zs @ ys)"
      using subseq_sorted_append[OF zs, of "obj_lt obj" ys] priority_iter_sorted[of obj h] q PriorityRequestQueue by auto
    have dz: "distinct (map (\<lambda>r. py_id (obj r)) zs)" using dist by simp
    have empty: "queue_inv obj (PriorityRequestQueue [])" using create_queue_inv(1)[of obj PRIORITY] by simp
    from fold_add_priority[OF this dz] obtain g where g: "skipped = PriorityRequestQueue g" "queue_inv obj (PriorityRequestQueue g)" "set g = set zs"
      using skipped PriorityRequestQueue by (auto simp: fold_prepend_priority)
    have z: "heap_drain (obj_lt obj) g = zs" by (rule priority_iter_unique[OF g(2)]) (use sorted g(3) in \<open>auto simp: sorted_wrt_append\<close>)
    have "\<forall>r \<in> set zs. py_id (obj r) \<notin> (\<lambda>r. py_id (obj r)) ` set h'"
      using set_rq_iter[OF q'(1)] q'(3) h' dist by auto
    with fold_add_priority[OF q'(1)[unfolded h'] dz] obtain k where
      k: "rq_prepend_requests obj q' skipped = PriorityRequestQueue k" "queue_inv obj (PriorityRequestQueue k)" "set k = set h' \<union> set zs"
      using h' g(1) z by auto
    have "heap_drain (obj_lt obj) k = zs @ ys"
      by (rule priority_iter_unique[OF k(2) sorted]) (use k(3) set_rq_iter[OF q'(1)] q'(3) h' in auto)
    then show ?thesis using k by simp
  qed
qed

text \<open>Three requests of which the last to arrive is the most urgent.\<close>

definition example_obj :: "nat \<Rightarrow> Request" where
  "example_obj n = (example_request ''r'' [5] [])\<lparr>py_id := n, priority := - int n\<rparr>"

lemma example_obj_fields [simp]: "py_id (example_obj n) = n" "obj_lt example_obj a b \<longleftrightarrow> b < a"
  by (auto simp: example_obj_def obj_lt_def req_lt_def)

lemma example_queue_inv:
  "queue_inv example_obj (PriorityRequestQueue [3, 1, 2])" "queue_inv example_obj (PriorityRequestQueue [2, 1])"
  by (auto simp: queue_inv_def heap_from_def parent_def less_Suc_eq numeral_3_eq_3)

lemma example_queue_iter:
  "rq_iter example_obj (PriorityRequestQueue [3, 1, 2]) = [3, 2, 1]" "rq_iter example_obj (PriorityRequestQueue [2, 1]) = [2, 1]"
proof -
  show "rq_iter example_obj (PriorityRequestQueue [3, 1, 2]) = [3, 2, 1]"
    using priority_iter_unique[OF example_queue_inv(1), of "[3, 2, 1]"] by auto
  show "rq_iter example_obj (PriorityRequestQueue [2, 1]) = [2, 1]"
    using priority_iter_unique[OF example_queue_inv(2), of "[2, 1]"] by auto
qed

theorem skipped_requests_keep_order_witness:
  "rq_iter example_obj (rq_prepend_requests example_obj (PriorityRequestQueue [2, 1])
     (rq_prepend_request example_obj (PriorityRequestQueue []) 3)) = [3, 2, 1]"
  using skipped_requests_keep_order[OF example_queue_inv(1) _ example_queue_inv(2), of "[3]" "[2, 1]" "[3]"]
  by (simp only: example_queue_iter) simp

text \<open>
  C31 (refinement): both queue classes implement the abstract queue that is a list in service order. The
  iterator yields every stored request once, for the priority policy strictly ordered by
  \<^verbatim>\<open>Request.__lt__\<close>; \<^verbatim>\<open>peek\<close> and \<^verbatim>\<open>pop\<close> serve the head or raise on an empty queue; adding appends or inserts by
  priority, prepending conses or inserts by priority, removing filters; all keep the invariant.
\<close>

theorem request_queue_refines_order:
  assumes inv: "queue_inv obj q"
  shows "mset (rq_iter obj q) = mset (rq_elems q) \<and> (rq_policy q = PRIORITY \<longrightarrow> sorted_wrt (obj_lt obj) (rq_iter obj q)) \<and>
    (case rq_iter obj q of
       [] \<Rightarrow> rq_pop_request obj q = Inl IndexError \<and> rq_peek_request q = Inl IndexError
     | r # rs \<Rightarrow> rq_peek_request q = Inr r \<and>
         (\<exists>q'. rq_pop_request obj q = Inr (r, q') \<and> rq_iter obj q' = rs \<and> rq_policy q' = rq_policy q \<and> queue_inv obj q')) \<and>
    (\<forall>r. py_id (obj r) \<notin> (\<lambda>r. py_id (obj r)) ` set (rq_iter obj q) \<longrightarrow>
       rq_iter obj (rq_add_request obj q r) = spec_add obj (rq_policy q) r (rq_iter obj q) \<and> queue_inv obj (rq_add_request obj q r) \<and>
       rq_iter obj (rq_prepend_request obj q r) = spec_prepend obj (rq_policy q) r (rq_iter obj q) \<and> queue_inv obj (rq_prepend_request obj q r)) \<and>
    (\<forall>rs. rq_iter obj (rq_remove_requests obj q rs) = filter (\<lambda>r. r \<notin> set rs) (rq_iter obj q) \<and> queue_inv obj (rq_remove_requests obj q rs)) \<and>
    (\<forall>r. rq_remove_request obj q r = (if r \<in> set (rq_iter obj q) then Inr (rq_remove_requests obj q [r]) else Inl ValueError)) \<and>
    rq_len q = int (length (rq_iter obj q))"
proof (intro conjI allI)
  show "mset (rq_iter obj q) = mset (rq_elems q)" by (rule mset_rq_iter[OF inv])
  show "rq_policy q = PRIORITY \<longrightarrow> sorted_wrt (obj_lt obj) (rq_iter obj q)"
    using inv priority_iter_sorted by (cases q) auto
  fix r rs
  have "distinct (rq_elems q)" using inv by (auto simp: queue_inv_def distinct_map)
  then have "remove1 r (rq_elems q) = filter (\<lambda>x. x \<noteq> r) (rq_elems q)" by (simp add: distinct_remove1_removeAll removeAll_filter_not_eq) (metis (mono_tags))
  then show "rq_remove_request obj q r = (if r \<in> set (rq_iter obj q) then Inr (rq_remove_requests obj q [r]) else Inl ValueError)"
    using set_rq_iter[OF inv] by (cases q) auto
qed (use pop_request_inv[OF inv] add_request_inv[OF inv] prepend_request_inv[OF inv] remove_requests_inv[OF inv]
      rq_len_iter[OF inv] set_rq_iter[OF inv] in auto)

theorem request_queue_refines_order_witness:
  "rq_iter example_obj (rq_add_request example_obj (PriorityRequestQueue [3, 1, 2]) 5) = [5, 3, 2, 1] \<and>
   (\<exists>q'. rq_pop_request example_obj (PriorityRequestQueue [3, 1, 2]) = Inr (3, q') \<and> rq_iter example_obj q' = [2, 1])"
proof -
  note r = request_queue_refines_order[OF example_queue_inv(1), unfolded example_queue_iter]
  have "rq_iter example_obj (rq_add_request example_obj (PriorityRequestQueue [3, 1, 2]) 5) = [5, 3, 2, 1]" using r by simp
  moreover have "\<exists>q'. rq_pop_request example_obj (PriorityRequestQueue [3, 1, 2]) = Inr (3, q') \<and> rq_iter example_obj q' = [2, 1]"
    using r by (simp only: list.case) blast
  ultimately show ?thesis by blast
qed

end
