(* ===== verification/Encoder_Cache.thy ===== *)
theory Encoder_Cache
  imports Block_Hashing
begin

text \<open>
  The encoder cache bookkeeping of \<^verbatim>\<open>vllm/v1/core/encoder_cache_manager.py\<close>: which encoder outputs of
  multi-modal items are cached, which requests reference them, which may be reclaimed, and the
  two slot counters. The manager of encoder-decoder models has its own record. Python's
  iteration order of a set of input ids is the parameter \<open>set_order\<close> of the operations that iterate one.
\<close>

section \<open>The manager of multi-modal models\<close>

type_synonym mm_key = "string option"

record EncoderCacheManager =
  cache_size :: int
  num_free_slots :: int
  num_freeable_slots :: int
  ec_cached :: "(mm_key, string set) dict"
  freeable :: "(mm_key, int) dict"
  freed :: "mm_key list"

definition EncoderCacheManager_init :: "int \<Rightarrow> EncoderCacheManager" where
  "EncoderCacheManager_init capacity =
     \<lparr>cache_size = capacity, num_free_slots = capacity, num_freeable_slots = capacity, ec_cached = [], freeable = [], freed = []\<rparr>"

definition mm_hash :: "Request \<Rightarrow> nat \<Rightarrow> mm_key result" where
  "mm_hash r i = (if i < length (mm_features r) then Inr (mm_identifier (mm_features r ! i)) else Inl IndexError)"

definition check_and_update_cache :: "EncoderCacheManager \<Rightarrow> Request \<Rightarrow> nat \<Rightarrow> (bool \<times> EncoderCacheManager) result" where
  "check_and_update_cache m r i =
     rbind (mm_hash r i) (\<lambda>h.
       case map_of (ec_cached m) h of
         None \<Rightarrow> Inr (False, m)
       | Some refs \<Rightarrow>
           rbind (if refs = {} then rbind (dict_item (freeable m) h) (\<lambda>n.
                    Inr (m\<lparr>freeable := AList.delete h (freeable m), num_freeable_slots := num_freeable_slots m - n\<rparr>))
                  else Inr m) (\<lambda>m'.
             Inr (True, m'\<lparr>ec_cached := AList.update h (insert (request_id r) refs) (ec_cached m')\<rparr>)))"

text \<open>The eviction loop of \<^verbatim>\<open>can_allocate\<close>: \<^verbatim>\<open>popitem\<close> on the empty dictionary raises.\<close>

fun evict_loop :: "int \<Rightarrow> (mm_key, int) dict \<Rightarrow> int \<Rightarrow> (mm_key, string set) dict \<Rightarrow> mm_key list \<Rightarrow>
    ((mm_key, int) dict \<times> int \<times> (mm_key, string set) dict \<times> mm_key list) result" where
  "evict_loop num_embeds [] free_slots cached_dict freed_list =
     (if num_embeds > free_slots then Inl KeyError else Inr ([], free_slots, cached_dict, freed_list))"
| "evict_loop num_embeds ((h, n) # rest) free_slots cached_dict freed_list =
     (if num_embeds > free_slots then
        (case map_of cached_dict h of
           None \<Rightarrow> Inl KeyError
         | Some _ \<Rightarrow> evict_loop num_embeds rest (free_slots + n) (AList.delete h cached_dict) (freed_list @ [h]))
      else Inr ((h, n) # rest, free_slots, cached_dict, freed_list))"

definition can_allocate :: "EncoderCacheManager \<Rightarrow> Request \<Rightarrow> nat \<Rightarrow> int \<Rightarrow> int \<Rightarrow> (bool \<times> EncoderCacheManager) result" where
  "can_allocate m r i encoder_compute_budget num_embeds_to_schedule =
     rbind (get_num_encoder_embeds r i) (\<lambda>n.
       if n > encoder_compute_budget then Inr (False, m)
       else
         let num_embeds = n + num_embeds_to_schedule
         in if num_embeds \<le> num_free_slots m then Inr (True, m)
            else if num_embeds > num_freeable_slots m then Inr (False, m)
            else rbind (evict_loop num_embeds (freeable m) (num_free_slots m) (ec_cached m) (freed m))
              (\<lambda>(fr, free_slots, cached_dict, freed_list).
                Inr (True, m\<lparr>freeable := fr, num_free_slots := free_slots, ec_cached := cached_dict, freed := freed_list\<rparr>)))"

definition ecm_allocate :: "EncoderCacheManager \<Rightarrow> Request \<Rightarrow> nat \<Rightarrow> EncoderCacheManager result" where
  "ecm_allocate m r i =
     rbind (mm_hash r i) (\<lambda>h.
       let cached1 = (case map_of (ec_cached m) h of None \<Rightarrow> AList.update h {} (ec_cached m) | Some _ \<Rightarrow> ec_cached m)
       in rbind (get_num_encoder_embeds r i) (\<lambda>n.
            py_assert (num_free_slots m \<ge> n)
              (py_assert (num_freeable_slots m \<ge> n)
                (rbind (dict_item cached1 h) (\<lambda>refs.
                  Inr (m\<lparr>ec_cached := AList.update h (insert (request_id r) refs) cached1,
                         num_free_slots := num_free_slots m - n, num_freeable_slots := num_freeable_slots m - n\<rparr>)))))) "

definition get_cached_input_ids :: "EncoderCacheManager \<Rightarrow> Request \<Rightarrow> nat list" where
  "get_cached_input_ids m r =
     filter (\<lambda>i. mm_identifier (mm_features r ! i) \<in> set (dict_keys (ec_cached m))) [0..<length (mm_features r)]"

definition free_encoder_input :: "Request \<Rightarrow> nat \<Rightarrow> EncoderCacheManager \<Rightarrow> EncoderCacheManager result" where
  "free_encoder_input r i m =
     rbind (mm_hash r i) (\<lambda>h.
       case map_of (ec_cached m) h of
         None \<Rightarrow> Inr m
       | Some refs \<Rightarrow>
           if refs = {} then Inr m
           else
             let refs' = refs - {request_id r}; m' = m\<lparr>ec_cached := AList.update h refs' (ec_cached m)\<rparr>
             in if refs' = {} then
                  rbind (get_num_encoder_embeds r i) (\<lambda>n.
                    Inr (m'\<lparr>freeable := AList.update h n (freeable m'), num_freeable_slots := num_freeable_slots m' + n\<rparr>))
                else Inr m')"

definition ecm_free :: "(nat list \<Rightarrow> nat list) \<Rightarrow> EncoderCacheManager \<Rightarrow> Request \<Rightarrow> EncoderCacheManager result" where
  "ecm_free set_order m r = mfold (free_encoder_input r) (set_order (get_cached_input_ids m r)) m"

definition get_freed_mm_hashes :: "EncoderCacheManager \<Rightarrow> mm_key list \<times> EncoderCacheManager" where
  "get_freed_mm_hashes m = (freed m, m\<lparr>freed := []\<rparr>)"

section \<open>The manager of encoder-decoder models\<close>

record EncoderDecoderCacheManager =
  ed_cache_size :: int
  ed_num_free_slots :: int
  ed_allocated :: "mm_key list"
  ed_to_free :: "mm_key list"

definition EncoderDecoderCacheManager_init :: "int \<Rightarrow> EncoderDecoderCacheManager" where
  "EncoderDecoderCacheManager_init capacity =
     \<lparr>ed_cache_size = capacity, ed_num_free_slots = capacity, ed_allocated = [], ed_to_free = []\<rparr>"

definition ed_can_allocate :: "EncoderDecoderCacheManager \<Rightarrow> Request \<Rightarrow> nat \<Rightarrow> int \<Rightarrow> int \<Rightarrow> bool result" where
  "ed_can_allocate m r i encoder_compute_budget num_embeds_to_schedule =
     rbind (get_num_encoder_embeds r i) (\<lambda>n.
       Inr (if n > encoder_compute_budget then False else n + num_embeds_to_schedule \<le> ed_num_free_slots m))"

definition ed_allocate :: "EncoderDecoderCacheManager \<Rightarrow> Request \<Rightarrow> nat \<Rightarrow> EncoderDecoderCacheManager result" where
  "ed_allocate m r i =
     rbind (get_num_encoder_embeds r i) (\<lambda>n. rbind (mm_hash r i) (\<lambda>h.
       Inr (m\<lparr>ed_num_free_slots := ed_num_free_slots m - n, ed_allocated := ed_allocated m @ [h]\<rparr>)))"

definition ed_free_encoder_input :: "Request \<Rightarrow> nat \<Rightarrow> EncoderDecoderCacheManager \<Rightarrow> EncoderDecoderCacheManager result" where
  "ed_free_encoder_input r i m =
     rbind (get_num_encoder_embeds r i) (\<lambda>n. Inr (m\<lparr>ed_num_free_slots := ed_num_free_slots m + n\<rparr>))"

definition ed_free :: "EncoderDecoderCacheManager \<Rightarrow> Request \<Rightarrow> EncoderDecoderCacheManager result" where
  "ed_free m r = mfold (ed_free_encoder_input r) [0..<length (mm_features r)] m"

definition ed_get_cached_input_ids :: "Request \<Rightarrow> nat list" where
  "ed_get_cached_input_ids r = [0..<length (mm_features r)]"

definition ed_get_freed_mm_hashes :: "EncoderDecoderCacheManager \<Rightarrow> mm_key list \<times> EncoderDecoderCacheManager" where
  "ed_get_freed_mm_hashes m = (ed_to_free m, m\<lparr>ed_to_free := ed_allocated m, ed_allocated := []\<rparr>)"

section \<open>The manager a scheduler holds\<close>

datatype encoder_manager = MMCache EncoderCacheManager | EncDecCache EncoderDecoderCacheManager

fun em_check_and_update_cache :: "encoder_manager \<Rightarrow> Request \<Rightarrow> nat \<Rightarrow> (bool \<times> encoder_manager) result" where
  "em_check_and_update_cache (MMCache m) r i = rbind (check_and_update_cache m r i) (\<lambda>(b, m'). Inr (b, MMCache m'))"
| "em_check_and_update_cache (EncDecCache m) r i = Inr (False, EncDecCache m)"

fun em_can_allocate :: "encoder_manager \<Rightarrow> Request \<Rightarrow> nat \<Rightarrow> int \<Rightarrow> int \<Rightarrow> (bool \<times> encoder_manager) result" where
  "em_can_allocate (MMCache m) r i budget planned = rbind (can_allocate m r i budget planned) (\<lambda>(b, m'). Inr (b, MMCache m'))"
| "em_can_allocate (EncDecCache m) r i budget planned = rbind (ed_can_allocate m r i budget planned) (\<lambda>b. Inr (b, EncDecCache m))"

fun em_allocate :: "Request \<Rightarrow> nat \<Rightarrow> encoder_manager \<Rightarrow> encoder_manager result" where
  "em_allocate r i (MMCache m) = rbind (ecm_allocate m r i) (\<lambda>m'. Inr (MMCache m'))"
| "em_allocate r i (EncDecCache m) = rbind (ed_allocate m r i) (\<lambda>m'. Inr (EncDecCache m'))"

fun em_get_cached_input_ids :: "encoder_manager \<Rightarrow> Request \<Rightarrow> nat list" where
  "em_get_cached_input_ids (MMCache m) r = get_cached_input_ids m r"
| "em_get_cached_input_ids (EncDecCache m) r = ed_get_cached_input_ids r"

fun em_free_encoder_input :: "Request \<Rightarrow> nat \<Rightarrow> encoder_manager \<Rightarrow> encoder_manager result" where
  "em_free_encoder_input r i (MMCache m) = rbind (free_encoder_input r i m) (\<lambda>m'. Inr (MMCache m'))"
| "em_free_encoder_input r i (EncDecCache m) = rbind (ed_free_encoder_input r i m) (\<lambda>m'. Inr (EncDecCache m'))"

fun em_free :: "(nat list \<Rightarrow> nat list) \<Rightarrow> Request \<Rightarrow> encoder_manager \<Rightarrow> encoder_manager result" where
  "em_free set_order r (MMCache m) = rbind (ecm_free set_order m r) (\<lambda>m'. Inr (MMCache m'))"
| "em_free set_order r (EncDecCache m) = rbind (ed_free m r) (\<lambda>m'. Inr (EncDecCache m'))"

fun em_get_freed_mm_hashes :: "encoder_manager \<Rightarrow> mm_key list \<times> encoder_manager" where
  "em_get_freed_mm_hashes (MMCache m) = (let (hs, m') = get_freed_mm_hashes m in (hs, MMCache m'))"
| "em_get_freed_mm_hashes (EncDecCache m) = (let (hs, m') = ed_get_freed_mm_hashes m in (hs, EncDecCache m'))"

section \<open>Budgets\<close>

text \<open>
  \<^verbatim>\<open>compute_encoder_budget\<close>: the registry's answers are the arguments (\<open>None\<close> when the model takes no
  multi-modal input).
\<close>

definition compute_mm_encoder_budget :: "bool \<Rightarrow> int \<Rightarrow> int \<Rightarrow> int \<Rightarrow> (string, int) dict \<Rightarrow> (int \<times> int) result" where
  "compute_mm_encoder_budget disable_chunked_mm_input max_num_batched_tokens max_num_encoder_input_tokens
     encoder_cache_size max_tokens_by_modality =
     (if max_tokens_by_modality = [] then Inr (0, 0)
      else
        let max_tokens_per_mm_item = Max (set (dict_values max_tokens_by_modality))
        in if disable_chunked_mm_input \<and> max_tokens_per_mm_item > max_num_batched_tokens then Inl ValueError
           else Inr (max max_num_encoder_input_tokens max_tokens_per_mm_item, max encoder_cache_size max_tokens_per_mm_item))"

definition compute_text_encoder_budget :: "int \<times> int" where
  "compute_text_encoder_budget = (0, 0)"

definition compute_encoder_budget :: "bool \<Rightarrow> int \<Rightarrow> int \<Rightarrow> int \<Rightarrow> (string, int) dict option \<Rightarrow> (int \<times> int) result" where
  "compute_encoder_budget disable_chunked_mm_input max_num_batched_tokens max_num_encoder_input_tokens
     encoder_cache_size modalities =
     (case modalities of
        Some per_modality \<Rightarrow> compute_mm_encoder_budget disable_chunked_mm_input max_num_batched_tokens
          max_num_encoder_input_tokens encoder_cache_size per_modality
      | None \<Rightarrow> Inr compute_text_encoder_budget)"

section \<open>Slot accounting\<close>

text \<open>
  The identifier of an item determines its encoder output, so all requests agree on its size
  \<open>sz\<close>. The invariant: an entry is reclaimable exactly when no request references it; free slots
  are what the cached entries leave of the cache, and the second counter adds the reclaimable ones.
\<close>

definition sized :: "(mm_key \<Rightarrow> int) \<Rightarrow> Request \<Rightarrow> bool" where
  "sized sz r \<longleftrightarrow> (\<forall>i < length (mm_features r).
     get_num_embeds (mm_position (mm_features r ! i)) = Inr (sz (mm_identifier (mm_features r ! i))))"

definition ecm_inv :: "(mm_key \<Rightarrow> int) \<Rightarrow> EncoderCacheManager \<Rightarrow> bool" where
  "ecm_inv sz m \<longleftrightarrow> distinct (map fst (ec_cached m)) \<and> distinct (map fst (freeable m)) \<and>
     (\<forall>h n. map_of (freeable m) h = Some n \<longleftrightarrow> map_of (ec_cached m) h = Some {} \<and> n = sz h) \<and>
     num_free_slots m = cache_size m - sum_list (map sz (map fst (ec_cached m))) \<and>
     num_freeable_slots m = num_free_slots m + sum_list (map sz (map fst (freeable m))) \<and>
     0 \<le> num_free_slots m \<and> (\<forall>h. 0 \<le> sz h)"

lemma sized_embeds: "sized sz r \<Longrightarrow> i < length (mm_features r) \<Longrightarrow> get_num_encoder_embeds r i = Inr (sz (mm_identifier (mm_features r ! i)))"
  by (simp add: sized_def get_num_encoder_embeds_def)

lemma keys_update: "map fst (AList.update k v d) = (if k \<in> set (map fst d) then map fst d else map fst d @ [k])"
  by (induction d) auto

lemma sum_delete:
  "distinct (map fst d) \<Longrightarrow> map_of d k = Some v \<Longrightarrow>
     sum_list (map f (map fst (AList.delete k d))) = sum_list (map f (map fst d)) - f k" for f :: "'k \<Rightarrow> int"
proof (induction d)
  case (Cons a d)
  show ?case
  proof (cases "fst a = k")
    case True
    then have "k \<notin> fst ` set d" using Cons.prems(1) by auto
    then show ?thesis using True by (simp add: AList.delete_idem)
  next
    case False
    then show ?thesis using Cons by simp
  qed
qed simp

lemma map_of_key: "map_of d k = Some v \<Longrightarrow> k \<in> set (map fst d)"
  by (metis domI dom_map_of_conv_image_fst image_set)

lemma not_key: "map_of d k = None \<Longrightarrow> k \<notin> set (map fst d)"
  by (simp add: map_of_eq_None_iff)

text \<open>The eviction loop frees entries from the front until the request fits.\<close>

lemma evict_loop_spec:
  assumes "distinct (map fst fr)" "distinct (map fst c)"
    "\<forall>h n. map_of fr h = Some n \<longrightarrow> map_of c h = Some {} \<and> n = sz h" "\<forall>h. 0 \<le> sz h"
    "need \<le> free + sum_list (map sz (map fst fr))"
  shows "\<exists>k. k \<le> length fr \<and>
    evict_loop need fr free c fd = Inr (drop k fr, free + sum_list (map sz (map fst (take k fr))),
      filter (\<lambda>e. fst e \<notin> fst ` set (take k fr)) c, fd @ map fst (take k fr)) \<and>
    need \<le> free + sum_list (map sz (map fst (take k fr))) \<and>
    (0 < k \<longrightarrow> free + sum_list (map sz (map fst (take (k - 1) fr))) < need)"
  using assms
proof (induction fr arbitrary: free c fd)
  case Nil
  then show ?case by simp
next
  case (Cons e fr)
  obtain h n where e: "e = (h, n)" by (cases e)
  show ?case
  proof (cases "need > free")
    case False
    then show ?thesis by (intro exI[of _ 0]) (simp add: e)
  next
    case True
    have h: "map_of c h = Some {}" "n = sz h" using Cons.prems(3) e by auto
    have keys: "h \<notin> fst ` set fr" using Cons.prems(1) e by auto
    have fr: "\<forall>h' n. map_of fr h' = Some n \<longrightarrow> map_of (AList.delete h c) h' = Some {} \<and> n = sz h'"
    proof (intro allI impI)
      fix h' n' assume n': "map_of fr h' = Some n'"
      then have "h' \<noteq> h" using keys by (metis map_of_eq_None_iff option.distinct(1))
      then show "map_of (AList.delete h c) h' = Some {} \<and> n' = sz h'" using Cons.prems(3)[rule_format, of h' n'] n' e by (simp add: map_of_delete)
    qed
    have dc: "distinct (map fst (AList.delete h c))" using Cons.prems(2) by (simp add: map_fst_delete)
    have df: "distinct (map fst fr)" using Cons.prems(1) by simp
    have "need \<le> (free + n) + sum_list (map sz (map fst fr))" using Cons.prems(5) h(2) e by simp
    from Cons.IH[OF df dc fr Cons.prems(4) this, of "fd @ [h]"] obtain k where k: "k \<le> length fr"
      "evict_loop need fr (free + n) (AList.delete h c) (fd @ [h]) = Inr (drop k fr, free + n + sum_list (map sz (map fst (take k fr))),
        filter (\<lambda>e. fst e \<notin> fst ` set (take k fr)) (AList.delete h c), (fd @ [h]) @ map fst (take k fr))"
      "need \<le> free + n + sum_list (map sz (map fst (take k fr)))"
      "0 < k \<longrightarrow> free + n + sum_list (map sz (map fst (take (k - 1) fr))) < need"
      by blast
    have "filter (\<lambda>e. fst e \<notin> fst ` set (take k fr)) (AList.delete h c) = filter (\<lambda>x. fst x \<notin> fst ` set (take (Suc k) (e # fr))) c"
      by (auto simp: AList.delete_eq e intro!: filter_cong)
    moreover have "0 < k \<Longrightarrow> take k (e # fr) = e # take (k - 1) fr" by (cases k) simp_all
    ultimately show ?thesis using True k h by (intro exI[of _ "Suc k"]) (cases "k = 0", simp_all add: e)
  qed
qed

lemma sum_nonneg_keys: "\<forall>h. 0 \<le> sz h \<Longrightarrow> 0 \<le> sum_list (map sz hs)" for sz :: "'k \<Rightarrow> int"
  by (induction hs) auto

lemma distinct_update: "distinct (map fst d) \<Longrightarrow> distinct (map fst (AList.update k v d))"
  by (simp add: keys_update)

lemma check_and_update_spec:
  assumes inv: "ecm_inv sz m" and i: "i < length (mm_features r)" and h: "h = mm_identifier (mm_features r ! i)"
  shows "\<exists>m'. check_and_update_cache m r i = Inr (map_of (ec_cached m) h \<noteq> None, m') \<and> ecm_inv sz m' \<and>
    cache_size m' = cache_size m \<and> num_free_slots m' = num_free_slots m \<and> freed m' = freed m \<and>
    map_of (ec_cached m') = (case map_of (ec_cached m) h of None \<Rightarrow> map_of (ec_cached m)
       | Some refs \<Rightarrow> (map_of (ec_cached m))(h \<mapsto> insert (request_id r) refs))"
proof (cases "map_of (ec_cached m) h")
  case None
  then show ?thesis using assms by (simp add: check_and_update_cache_def mm_hash_def)
next
  case (Some refs)
  note d = inv[unfolded ecm_inv_def]
  have h': "h \<in> set (map fst (ec_cached m))" by (rule map_of_key[OF Some])
  let ?c = "AList.update h (insert (request_id r) refs) (ec_cached m)"
  have c: "map_of ?c = (map_of (ec_cached m))(h \<mapsto> insert (request_id r) refs)" by (simp add: update_conv')
  show ?thesis
  proof (cases "refs = {}")
    case True
    then have f: "map_of (freeable m) h = Some (sz h)" using d Some by simp
    let ?m = "m\<lparr>freeable := AList.delete h (freeable m), num_freeable_slots := num_freeable_slots m - sz h, ec_cached := ?c\<rparr>"
    have "check_and_update_cache m r i = Inr (True, ?m)"
      using assms Some True f by (simp add: check_and_update_cache_def mm_hash_def dict_item_def)
    moreover have "ecm_inv sz ?m"
      using d h' sum_delete[of "freeable m" h "sz h" sz] f
      by (auto simp: ecm_inv_def keys_update map_fst_delete map_of_delete map_of_update)
    ultimately show ?thesis using Some c by simp
  next
    case False
    let ?m = "m\<lparr>ec_cached := ?c\<rparr>"
    have "check_and_update_cache m r i = Inr (True, ?m)"
      using assms Some False by (simp add: check_and_update_cache_def mm_hash_def)
    moreover have "ecm_inv sz ?m"
      using d h' False Some by (simp add: ecm_inv_def keys_update map_of_update del: map_of_eq_Some_iff)
    ultimately show ?thesis using Some c by simp
  qed
qed

text \<open>
  \<^verbatim>\<open>can_allocate\<close> decides by the budget and the reclaimable capacity; when it says yes the slots
  are free, and only unreferenced entries, oldest first, were given up for them.
\<close>

definition evicted_prefix :: "int \<Rightarrow> EncoderCacheManager \<Rightarrow> EncoderCacheManager \<Rightarrow> bool" where
  "evicted_prefix need m m' \<longleftrightarrow> (\<exists>k \<le> length (freeable m).
     freeable m' = drop k (freeable m) \<and> freed m' = freed m @ map fst (take k (freeable m)) \<and>
     (0 < k \<longrightarrow> num_free_slots m + sum_list (map snd (take (k - 1) (freeable m))) < need) \<and>
     map_of (ec_cached m') = (\<lambda>h. if h \<in> fst ` set (take k (freeable m)) then None else map_of (ec_cached m) h))"

lemma freeable_sizes: "ecm_inv sz m \<Longrightarrow> map snd (take k (freeable m)) = map sz (map fst (take k (freeable m)))"
  by (auto simp: ecm_inv_def dest!: in_set_takeD)

lemma filter_keys_map_of: "map_of (filter (\<lambda>e. fst e \<notin> A) d) = (\<lambda>h. if h \<in> A then None else map_of d h)"
  by (induction d) auto

lemma sum_filter_keys:
  fixes f :: "'k \<Rightarrow> int"
  assumes "distinct (map fst d)" "distinct ks" "set ks \<subseteq> set (map fst d)"
  shows "sum_list (map f (map fst (filter (\<lambda>e. fst e \<notin> set ks) d))) = sum_list (map f (map fst d)) - sum_list (map f ks)"
proof -
  have "map fst (filter (\<lambda>e. fst e \<notin> set ks) d) = filter (\<lambda>k. k \<notin> set ks) (map fst d)" by (simp add: filter_map o_def)
  moreover have "sum_list (map f (filter (\<lambda>k. k \<notin> set ks) (map fst d))) = sum f (set (map fst d) - set ks)"
    using assms(1) by (subst sum_list_distinct_conv_sum_set) (auto intro!: arg_cong[of _ _ "sum f"])
  moreover have "sum f (set (map fst d) - set ks) = sum f (set (map fst d)) - sum f (set ks)"
    using assms(3) by (intro sum_diff) auto
  ultimately show ?thesis using assms(1,2) by (simp only: sum_list_distinct_conv_sum_set)
qed

lemma evicted_inv:
  assumes inv: "ecm_inv sz m" and k: "k \<le> length (freeable m)"
    and m': "freeable m' = drop k (freeable m)" "num_free_slots m' = num_free_slots m + sum_list (map sz (map fst (take k (freeable m))))"
      "ec_cached m' = filter (\<lambda>e. fst e \<notin> fst ` set (take k (freeable m))) (ec_cached m)"
      "cache_size m' = cache_size m" "num_freeable_slots m' = num_freeable_slots m"
  shows "ecm_inv sz m'"
proof -
  note d = inv[unfolded ecm_inv_def]
  let ?t = "take k (freeable m)" and ?d = "drop k (freeable m)"
  have fr: "freeable m = ?t @ ?d" by simp
  have dist: "distinct (map fst ?t)" "distinct (map fst ?d)" "fst ` set ?t \<inter> fst ` set ?d = {}"
    using d by (metis append_take_drop_id distinct_append map_append set_map)+
  have keys: "set (map fst ?t) \<subseteq> set (map fst (ec_cached m))"
  proof
    fix h assume "h \<in> set (map fst ?t)"
    then have "h \<in> fst ` set (freeable m)" by (auto dest: in_set_takeD)
    then obtain n where "map_of (freeable m) h = Some n" by (metis map_of_eq_None_iff not_None_eq)
    then show "h \<in> set (map fst (ec_cached m))" using d map_of_key by metis
  qed
  have sums: "sum_list (map sz (map fst (ec_cached m'))) = sum_list (map sz (map fst (ec_cached m))) - sum_list (map sz (map fst ?t))"
    using sum_filter_keys[of "ec_cached m" "map fst ?t" sz] d dist(1) keys m'(3) by simp
  have "sum_list (map sz (map fst (freeable m))) = sum_list (map sz (map fst ?t)) + sum_list (map sz (map fst ?d))"
    by (metis append_take_drop_id map_append sum_list_append)
  moreover have "map_of ?d h = (if h \<in> fst ` set ?t then None else map_of (freeable m) h)" for h
  proof (cases "h \<in> fst ` set ?t")
    case True
    then have "h \<notin> fst ` set ?d" using dist(3) by blast
    then show ?thesis using True by (simp add: map_of_eq_None_iff)
  next
    case False
    then have "map_of ?t h = None" by (simp add: map_of_eq_None_iff)
    then have "map_of (?t @ ?d) h = map_of ?d h" by (simp only: map_of_append map_add_def) simp
    then show ?thesis using False by simp
  qed
  moreover have "distinct (map fst (ec_cached m'))" using d m'(3) by (simp add: distinct_map_filter)
  ultimately show ?thesis
    using d m' sums dist(2) sum_nonneg_keys[of sz "map fst ?t"] by (simp add: ecm_inv_def filter_keys_map_of)
qed

lemma can_allocate_spec:
  assumes inv: "ecm_inv sz m" and s: "sized sz r" and i: "i < length (mm_features r)" and h: "h = mm_identifier (mm_features r ! i)"
  shows "\<exists>m'. can_allocate m r i budget planned = Inr (sz h \<le> budget \<and> sz h + planned \<le> num_freeable_slots m, m') \<and>
    ecm_inv sz m' \<and> cache_size m' = cache_size m \<and> evicted_prefix (sz h + planned) m m' \<and>
    (sz h \<le> budget \<and> sz h + planned \<le> num_freeable_slots m \<longrightarrow> sz h + planned \<le> num_free_slots m') \<and>
    num_free_slots m \<le> num_free_slots m'"
proof -
  note d = inv[unfolded ecm_inv_def]
  let ?need = "sz h + planned"
  have e: "get_num_encoder_embeds r i = Inr (sz h)" using sized_embeds[OF s i] h by simp
  have le: "num_free_slots m \<le> num_freeable_slots m" using d sum_nonneg_keys[of sz "map fst (freeable m)"] by simp
  have id: "evicted_prefix ?need m m" by (auto simp: evicted_prefix_def intro!: exI[of _ 0])
  show ?thesis
  proof (cases "sz h \<le> budget \<and> num_free_slots m < ?need \<and> ?need \<le> num_freeable_slots m")
    case False
    then show ?thesis using e id inv le by (auto simp: can_allocate_def Let_def)
  next
    case True
    have "?need \<le> num_free_slots m + sum_list (map sz (map fst (freeable m)))" using True d by simp
    then obtain k where k: "k \<le> length (freeable m)"
      "evict_loop ?need (freeable m) (num_free_slots m) (ec_cached m) (freed m) =
        Inr (drop k (freeable m), num_free_slots m + sum_list (map sz (map fst (take k (freeable m)))),
          filter (\<lambda>e. fst e \<notin> fst ` set (take k (freeable m))) (ec_cached m), freed m @ map fst (take k (freeable m)))"
      "?need \<le> num_free_slots m + sum_list (map sz (map fst (take k (freeable m))))"
      "0 < k \<longrightarrow> num_free_slots m + sum_list (map sz (map fst (take (k - 1) (freeable m)))) < ?need"
      using evict_loop_spec[of "freeable m" "ec_cached m" sz ?need "num_free_slots m" "freed m"] d by blast
    let ?m = "m\<lparr>freeable := drop k (freeable m), num_free_slots := num_free_slots m + sum_list (map sz (map fst (take k (freeable m)))),
      ec_cached := filter (\<lambda>e. fst e \<notin> fst ` set (take k (freeable m))) (ec_cached m), freed := freed m @ map fst (take k (freeable m))\<rparr>"
    have run: "can_allocate m r i budget planned = Inr (True, ?m)" using e True k(2) by (simp add: can_allocate_def Let_def)
    have "ecm_inv sz ?m" by (rule evicted_inv[OF inv k(1)]) simp_all
    moreover have "evicted_prefix ?need m ?m"
      unfolding evicted_prefix_def freeable_sizes[OF inv] using k by (intro exI[of _ k]) (simp add: filter_keys_map_of)
    ultimately show ?thesis using run True k(3) by auto
  qed
qed

lemma map_of_snoc: "map_of d k = None \<Longrightarrow> map_of (d @ [(k, v)]) = (map_of d)(k \<mapsto> v)"
  by (auto simp: map_add_def fun_eq_iff split: option.splits)

lemma update_snoc: "map_of d k = None \<Longrightarrow> AList.update k v (d @ [(k, u)]) = d @ [(k, v)]"
  by (induction d) (auto split: if_splits)

lemma allocate_spec:
  assumes inv: "ecm_inv sz m" and s: "sized sz r" and i: "i < length (mm_features r)" and h: "h = mm_identifier (mm_features r ! i)"
    and new: "map_of (ec_cached m) h = None" and fits: "sz h \<le> num_free_slots m"
  shows "\<exists>m'. ecm_allocate m r i = Inr m' \<and> ecm_inv sz m' \<and> cache_size m' = cache_size m \<and>
    num_free_slots m' = num_free_slots m - sz h \<and> map_of (ec_cached m') = (map_of (ec_cached m))(h \<mapsto> {request_id r})"
proof -
  note d = inv[unfolded ecm_inv_def]
  have e: "get_num_encoder_embeds r i = Inr (sz h)" using sized_embeds[OF s i] h by simp
  have le: "num_free_slots m \<le> num_freeable_slots m" using d sum_nonneg_keys[of sz "map fst (freeable m)"] by simp
  have upd: "AList.update h {request_id r} (ec_cached m @ [(h, {})]) = ec_cached m @ [(h, {request_id r})]"
    by (rule update_snoc[OF new])
  let ?m = "m\<lparr>ec_cached := ec_cached m @ [(h, {request_id r})], num_free_slots := num_free_slots m - sz h,
    num_freeable_slots := num_freeable_slots m - sz h\<rparr>"
  have "ecm_allocate m r i = Inr ?m"
    using e new fits le i upd by (simp add: ecm_allocate_def mm_hash_def update_new dict_item_def map_add_def flip: h)
  moreover have "ecm_inv sz ?m"
    using d fits not_key[OF new] new by (auto simp: ecm_inv_def map_of_snoc[OF new] simp del: map_of_eq_Some_iff map_of_append)
  ultimately show ?thesis using map_of_snoc[OF new] by simp
qed

lemma free_encoder_input_spec:
  assumes inv: "ecm_inv sz m" and s: "sized sz r" and i: "i < length (mm_features r)" and h: "h = mm_identifier (mm_features r ! i)"
  shows "\<exists>m'. free_encoder_input r i m = Inr m' \<and> ecm_inv sz m' \<and> cache_size m' = cache_size m \<and>
    num_free_slots m' = num_free_slots m \<and> freed m' = freed m \<and>
    map_of (ec_cached m') = (case map_of (ec_cached m) h of None \<Rightarrow> map_of (ec_cached m)
       | Some refs \<Rightarrow> (map_of (ec_cached m))(h \<mapsto> refs - {request_id r}))"
proof (cases "map_of (ec_cached m) h = None \<or> map_of (ec_cached m) h = Some {}")
  case True
  then have "free_encoder_input r i m = Inr m" using i h by (auto simp: free_encoder_input_def mm_hash_def)
  then show ?thesis using True inv by (auto simp: fun_upd_idem)
next
  case False
  then obtain refs where refs: "map_of (ec_cached m) h = Some refs" "refs \<noteq> {}" by auto
  note d = inv[unfolded ecm_inv_def]
  have e: "get_num_encoder_embeds r i = Inr (sz h)" using sized_embeds[OF s i] h by simp
  have keys: "h \<in> set (map fst (ec_cached m))" by (rule map_of_key[OF refs(1)])
  let ?c = "AList.update h (refs - {request_id r}) (ec_cached m)"
  have c: "map_of ?c = (map_of (ec_cached m))(h \<mapsto> refs - {request_id r})" by (simp add: update_conv')
  show ?thesis
  proof (cases "refs - {request_id r} = {}")
    case True
    have fr: "map_of (freeable m) h = None" using d refs by (metis not_None_eq option.inject)
    let ?m = "m\<lparr>ec_cached := ?c, freeable := freeable m @ [(h, sz h)], num_freeable_slots := num_freeable_slots m + sz h\<rparr>"
    have "free_encoder_input r i m = Inr ?m"
      using e refs True i update_new[OF fr, of "sz h"] by (simp add: free_encoder_input_def mm_hash_def flip: h)
    moreover have "ecm_inv sz ?m"
      using d keys refs fr not_key[OF fr] True
      by (auto simp: ecm_inv_def keys_update map_of_update map_of_snoc[OF fr] simp del: map_of_eq_Some_iff map_of_append)
    ultimately show ?thesis using refs c by simp
  next
    case False
    have "free_encoder_input r i m = Inr (m\<lparr>ec_cached := ?c\<rparr>)"
      using e refs False i by (simp add: free_encoder_input_def mm_hash_def flip: h)
    moreover have "ecm_inv sz (m\<lparr>ec_cached := ?c\<rparr>)"
      using d keys refs False by (simp add: ecm_inv_def keys_update map_of_update del: map_of_eq_Some_iff)
    ultimately show ?thesis using refs c by simp
  qed
qed

end
