(* ===== verification/Encoder_Schedule.thy ===== *)
theory Encoder_Schedule
  imports Encoder_Cache
begin

text \<open>
  Which encoder inputs a scheduling step runs: \<^verbatim>\<open>Scheduler._try_schedule_encoder_inputs\<close> and
  \<^verbatim>\<open>Scheduler._free_encoder_inputs\<close> over the encoder cache, with the placeholder arithmetic of
  \<^verbatim>\<open>PlaceholderRange\<close>. The remote encoder cache is a parameter: \<open>None\<close> without a connector, otherwise
  its test for an item.
\<close>

section \<open>Embeddings of a placeholder range\<close>

definition embeds_cumsum :: "PlaceholderRange \<Rightarrow> int list option" where
  "embeds_cumsum pr = map_option (\<lambda>m. map (\<lambda>k. int (length (filter (\<lambda>b. b) (take (Suc k) m)))) [0..<length m]) (pr_is_embed pr)"

definition get_embeds_indices_in_range :: "PlaceholderRange \<Rightarrow> int \<Rightarrow> int \<Rightarrow> (int \<times> int) result" where
  "get_embeds_indices_in_range pr start_idx end_idx =
     (case embeds_cumsum pr of
        None \<Rightarrow> Inr (start_idx, end_idx)
      | Some c \<Rightarrow>
          rbind (if start_idx > 0 then py_index c (start_idx - 1) else Inr 0) (\<lambda>a.
          rbind (py_index c (end_idx - 1)) (\<lambda>b. Inr (a, b))))"

section \<open>Planning\<close>

record enc_config =
  is_encoder_decoder :: bool
  disable_chunked_mm_input :: bool
  ec_has_cache_item :: "(mm_key \<Rightarrow> bool) option"

text \<open>The local variables of the loop.\<close>

record enc_plan =
  encoder_inputs_to_schedule :: "nat list"
  plan_new_tokens :: int
  plan_budget :: int
  external_load_encoder_input :: "nat list"
  mm_hashes_to_schedule :: "mm_key set"
  num_embeds_to_schedule :: int
  plan_manager :: encoder_manager

text \<open>
  The loop over the items; the first argument list are the indices still to visit. A \<^verbatim>\<open>break\<close> returns
  the plan, a \<^verbatim>\<open>continue\<close> recurses.
\<close>

fun try_encoder_loop :: "enc_config \<Rightarrow> Request \<Rightarrow> int \<Rightarrow> int \<Rightarrow> nat list \<Rightarrow> enc_plan \<Rightarrow> enc_plan result" where
  "try_encoder_loop cfg r nc shift [] p = Inr p"
| "try_encoder_loop cfg r nc shift (i # is) p =
     (let pos = mm_position (mm_features r ! i); start_pos = pr_offset pos; num_encoder_tokens = pr_length pos;
          item_identifier = mm_identifier (mm_features r ! i)
      in rbind (get_num_embeds pos) (\<lambda>num_encoder_embeds.
        if start_pos \<ge> nc + plan_new_tokens p + shift then Inr p
        else if is_encoder_decoder cfg \<and> nc > 0 then py_assert (start_pos = 0) (try_encoder_loop cfg r nc shift is p)
        else if start_pos + num_encoder_tokens \<le> nc then try_encoder_loop cfg r nc shift is p
        else rbind (if is_encoder_decoder cfg then Inr (False, plan_manager p)
                    else if item_identifier \<in> mm_hashes_to_schedule p then Inr (True, plan_manager p)
                    else em_check_and_update_cache (plan_manager p) r i) (\<lambda>(skip, m1).
          let p = p\<lparr>plan_manager := m1\<rparr>
          in if skip then try_encoder_loop cfg r nc shift is p
             else if disable_chunked_mm_input cfg \<and> nc < start_pos \<and> nc + plan_new_tokens p < start_pos + num_encoder_tokens
             then Inr (p\<lparr>plan_new_tokens := start_pos - nc\<rparr>)
             else rbind (em_can_allocate m1 r i (plan_budget p) (num_embeds_to_schedule p)) (\<lambda>(ok, m2).
               let p = p\<lparr>plan_manager := m2\<rparr>
               in if \<not> ok then
                    Inr (p\<lparr>plan_new_tokens := (if nc + shift < start_pos then start_pos - (nc + shift) else 0)\<rparr>)
                  else
                    let start_idx_rel = max 0 (nc - start_pos);
                        end_idx_rel = min num_encoder_tokens (nc + plan_new_tokens p - start_pos)
                    in rbind (get_embeds_indices_in_range pos start_idx_rel end_idx_rel) (\<lambda>(curr_start, curr_end).
                      if curr_end - curr_start = 0 then try_encoder_loop cfg r nc shift is p
                      else if (case ec_has_cache_item cfg of None \<Rightarrow> False | Some has \<Rightarrow> has item_identifier)
                      then try_encoder_loop cfg r nc shift is
                        (p\<lparr>mm_hashes_to_schedule := insert item_identifier (mm_hashes_to_schedule p),
                           external_load_encoder_input := external_load_encoder_input p @ [i],
                           num_embeds_to_schedule := num_embeds_to_schedule p + num_encoder_embeds\<rparr>)
                      else try_encoder_loop cfg r nc shift is
                        (p\<lparr>num_embeds_to_schedule := num_embeds_to_schedule p + num_encoder_embeds,
                           plan_budget := plan_budget p - num_encoder_embeds,
                           mm_hashes_to_schedule := insert item_identifier (mm_hashes_to_schedule p),
                           encoder_inputs_to_schedule := encoder_inputs_to_schedule p @ [i]\<rparr>))))))"

definition has_encoder_inputs :: "Request \<Rightarrow> bool" where
  "has_encoder_inputs r \<longleftrightarrow> num_encoder_inputs r > 0"

definition try_schedule_encoder_inputs ::
  "enc_config \<Rightarrow> encoder_manager \<Rightarrow> Request \<Rightarrow> int \<Rightarrow> int \<Rightarrow> int \<Rightarrow> int \<Rightarrow>
     ((nat list \<times> int \<times> int \<times> nat list) \<times> encoder_manager) result" where
  "try_schedule_encoder_inputs cfg m r nc num_new_tokens encoder_compute_budget shift_computed_tokens =
     (if num_new_tokens = 0 \<or> \<not> has_encoder_inputs r then Inr (([], num_new_tokens, encoder_compute_budget, []), m)
      else
        rbind (try_encoder_loop cfg r nc shift_computed_tokens [0..<length (mm_features r)]
                 \<lparr>encoder_inputs_to_schedule = [], plan_new_tokens = num_new_tokens, plan_budget = encoder_compute_budget,
                  external_load_encoder_input = [], mm_hashes_to_schedule = {}, num_embeds_to_schedule = 0, plan_manager = m\<rparr>)
          (\<lambda>p. Inr ((encoder_inputs_to_schedule p, plan_new_tokens p, plan_budget p, external_load_encoder_input p), plan_manager p)))"

section \<open>Releasing inputs that were consumed\<close>

definition free_encoder_inputs ::
  "enc_config \<Rightarrow> (nat list \<Rightarrow> nat list) \<Rightarrow> Request \<Rightarrow> encoder_manager \<Rightarrow> encoder_manager result" where
  "free_encoder_inputs cfg set_order r m =
     (let ids = em_get_cached_input_ids m r
      in if ids = [] then Inr m
         else mfold (\<lambda>i m.
           let pos = mm_position (mm_features r ! i)
           in if is_encoder_decoder cfg \<and> num_computed_tokens r > 0 then em_free_encoder_input r i m
              else if pr_offset pos + pr_length pos \<le> num_computed_tokens r then em_free_encoder_input r i m
              else Inr m) (set_order ids) m)"

section \<open>What a step needs\<close>

text \<open>Well-formed items: prompt positions in order, masks as long as the placeholder.\<close>

definition items_ok :: "Request \<Rightarrow> bool" where
  "items_ok r \<longleftrightarrow> sorted_wrt (\<lambda>f g. pr_offset (mm_position f) \<le> pr_offset (mm_position g)) (mm_features r) \<and>
     (\<forall>f \<in> set (mm_features r). 0 < pr_length (mm_position f) \<and>
        (case pr_is_embed (mm_position f) of None \<Rightarrow> True | Some m \<Rightarrow> int (length m) = pr_length (mm_position f)))"

text \<open>Prompt position \<open>t\<close> is filled with an embedding of the item.\<close>

definition embed_at :: "PlaceholderRange \<Rightarrow> int \<Rightarrow> bool" where
  "embed_at pr t \<longleftrightarrow> pr_offset pr \<le> t \<and> t < pr_offset pr + pr_length pr \<and>
     (case pr_is_embed pr of None \<Rightarrow> True | Some m \<Rightarrow> m ! nat (t - pr_offset pr))"

text \<open>A step that computes \<open>n\<close> tokens from position \<open>nc\<close> reads an embedding of item \<open>i\<close>.\<close>

definition needed :: "Request \<Rightarrow> int \<Rightarrow> int \<Rightarrow> nat \<Rightarrow> bool" where
  "needed r nc n i \<longleftrightarrow> (\<exists>t. nc \<le> t \<and> t < nc + n \<and> embed_at (mm_position (mm_features r ! i)) t)"

abbreviation item_key :: "Request \<Rightarrow> nat \<Rightarrow> mm_key" where
  "item_key r i \<equiv> mm_identifier (mm_features r ! i)"

lemma needed_mono: "needed r nc n i \<Longrightarrow> n \<le> n' \<Longrightarrow> needed r nc n' i"
  by (force simp: needed_def)

lemma not_needed_later:
  assumes "items_ok r" "k \<le> i" "i < length (mm_features r)" "nc + n \<le> pr_offset (mm_position (mm_features r ! k))"
  shows "\<not> needed r nc n i"
proof -
  have "pr_offset (mm_position (mm_features r ! k)) \<le> pr_offset (mm_position (mm_features r ! i))"
    using assms(1-3) by (cases "k = i") (auto simp: items_ok_def sorted_wrt_iff_nth_less)
  then show ?thesis using assms(4) by (auto simp: needed_def embed_at_def)
qed

lemma count_take_mono_zero:
  assumes "s \<le> e" "length (filter (\<lambda>b. b) (take e m)) = length (filter (\<lambda>b. b) (take s m))" "s \<le> j" "j < e" "j < length m"
  shows "\<not> m ! j"
proof -
  have t: "take e m = take s m @ take (e - s) (drop s m)" using assms(1) by (metis le_add_diff_inverse take_add)
  then have "filter (\<lambda>b. b) (take (e - s) (drop s m)) = []" using assms(2) by simp
  moreover have "m ! j \<in> set (take (e - s) (drop s m))"
    using assms(3-5) by (auto simp: in_set_conv_nth intro!: exI[of _ "j - s"])
  ultimately show ?thesis by (auto simp: filter_empty_conv)
qed

text \<open>The range test of the loop: it never raises, and an empty answer means nothing is read.\<close>

lemma embeds_range:
  assumes "case pr_is_embed pr of None \<Rightarrow> True | Some m \<Rightarrow> int (length m) = pr_length pr" "0 < pr_length pr" "0 \<le> s" "s \<le> e" "e \<le> pr_length pr"
  shows "\<exists>a b. get_embeds_indices_in_range pr s e = Inr (a, b) \<and>
    (b - a = 0 \<longrightarrow> (\<forall>t. s \<le> t - pr_offset pr \<and> t - pr_offset pr < e \<longrightarrow> \<not> embed_at pr t))"
proof (cases "pr_is_embed pr")
  case None
  then show ?thesis by (auto simp: get_embeds_indices_in_range_def embeds_cumsum_def)
next
  case (Some m)
  let ?c = "map (\<lambda>k. int (length (filter (\<lambda>b. b) (take (Suc k) m)))) [0..<length m]"
  have len: "int (length m) = pr_length pr" using assms(1) Some by simp
  have idx: "py_index ?c (x - 1) = Inr (int (length (filter (\<lambda>b. b) (take (nat x) m))))" if "0 < x" "x \<le> pr_length pr" for x
  proof -
    have "nat (x - 1) < length m" "Suc (nat (x - 1)) = nat x" using that len by linarith+
    then show ?thesis using that by (simp add: py_index_def)
  qed
  show ?thesis
  proof (cases "e = 0")
    case True
    have "py_index ?c (- 1) = Inr (?c ! (length m - 1))" using assms(2) len by (auto simp: py_index_def)
    then show ?thesis using True assms(3,4) Some by (auto simp: get_embeds_indices_in_range_def embeds_cumsum_def)
  next
    case False
    let ?a = "int (length (filter (\<lambda>b. b) (take (nat s) m)))" and ?b = "int (length (filter (\<lambda>b. b) (take (nat e) m)))"
    have "get_embeds_indices_in_range pr s e = Inr (?a, ?b)"
      using idx[of s] idx[of e] False assms Some by (simp add: get_embeds_indices_in_range_def embeds_cumsum_def)
    moreover have "\<not> embed_at pr t" if "?b - ?a = 0" "s \<le> t - pr_offset pr" "t - pr_offset pr < e" for t
      using count_take_mono_zero[of "nat s" "nat e" m "nat (t - pr_offset pr)"] that assms(3-5) len Some
      by (auto simp: embed_at_def)
    ultimately show ?thesis by blast
  qed
qed

section \<open>The plan\<close>

definition plan_ok :: "(mm_key \<Rightarrow> int) \<Rightarrow> int \<Rightarrow> Request \<Rightarrow> enc_plan \<Rightarrow> EncoderCacheManager \<Rightarrow> bool" where
  "plan_ok sz c r p m \<longleftrightarrow> plan_manager p = MMCache m \<and> ecm_inv sz m \<and> cache_size m = c \<and>
     (let is = encoder_inputs_to_schedule p @ external_load_encoder_input p in
        (\<forall>i \<in> set is. i < length (mm_features r)) \<and> (\<forall>h \<in> mm_hashes_to_schedule p. map_of (ec_cached m) h = None) \<and>
        distinct (map (item_key r) is) \<and> mm_hashes_to_schedule p = item_key r ` set is \<and>
        num_embeds_to_schedule p = sum_list (map (\<lambda>i. sz (item_key r i)) is) \<and> num_embeds_to_schedule p \<le> num_free_slots m)"

definition covered :: "Request \<Rightarrow> enc_plan \<Rightarrow> EncoderCacheManager \<Rightarrow> nat \<Rightarrow> bool" where
  "covered r p m i \<longleftrightarrow> item_key r i \<in> mm_hashes_to_schedule p \<or> (\<exists>refs. map_of (ec_cached m) (item_key r i) = Some refs \<and> request_id r \<in> refs)"

lemma plan_ok_check:
  assumes p: "plan_ok sz c r p m" and i: "i < length (mm_features r)" "item_key r i \<notin> mm_hashes_to_schedule p"
  shows "\<exists>m' b. em_check_and_update_cache (plan_manager p) r i = Inr (b, MMCache m') \<and> plan_ok sz c r (p\<lparr>plan_manager := MMCache m'\<rparr>) m' \<and>
    (\<forall>j. covered r p m j \<longrightarrow> covered r (p\<lparr>plan_manager := MMCache m'\<rparr>) m' j) \<and>
    (if b then covered r (p\<lparr>plan_manager := MMCache m'\<rparr>) m' i else map_of (ec_cached m') (item_key r i) = None)"
proof -
  have inv: "ecm_inv sz m" using p by (simp add: plan_ok_def)
  obtain m' where m': "check_and_update_cache m r i = Inr (map_of (ec_cached m) (item_key r i) \<noteq> None, m')" "ecm_inv sz m' \<and> cache_size m' = cache_size m"
    "num_free_slots m' = num_free_slots m"
    "map_of (ec_cached m') = (case map_of (ec_cached m) (item_key r i) of None \<Rightarrow> map_of (ec_cached m)
       | Some refs \<Rightarrow> (map_of (ec_cached m))(item_key r i \<mapsto> insert (request_id r) refs))"
    using check_and_update_spec[OF inv i(1) refl] by blast
  have "map_of (ec_cached m') h = None" if "h \<in> mm_hashes_to_schedule p" for h
    using that p i(2) m'(4) by (cases "h = item_key r i") (simp_all add: plan_ok_def Let_def split: option.splits)
  then have "plan_ok sz c r (p\<lparr>plan_manager := MMCache m'\<rparr>) m'"
    using p m'(2,3) by (simp add: plan_ok_def Let_def)
  moreover have "\<forall>j. covered r p m j \<longrightarrow> covered r (p\<lparr>plan_manager := MMCache m'\<rparr>) m' j"
    using m'(4) by (auto simp: covered_def split: option.splits)
  moreover have "if map_of (ec_cached m) (item_key r i) \<noteq> None then covered r (p\<lparr>plan_manager := MMCache m'\<rparr>) m' i
      else map_of (ec_cached m') (item_key r i) = None"
    using m'(4) by (auto simp: covered_def split: option.splits)
  moreover have "em_check_and_update_cache (plan_manager p) r i = Inr (map_of (ec_cached m) (item_key r i) \<noteq> None, MMCache m')"
    using p m'(1) by (simp add: plan_ok_def)
  ultimately show ?thesis by blast
qed

lemma plan_ok_can_allocate:
  assumes p: "plan_ok sz c r p m" and s: "sized sz r" and i: "i < length (mm_features r)"
  shows "\<exists>m' b. em_can_allocate (plan_manager p) r i (plan_budget p) (num_embeds_to_schedule p) = Inr (b, MMCache m') \<and>
    plan_ok sz c r (p\<lparr>plan_manager := MMCache m'\<rparr>) m' \<and>
    (\<forall>j. covered r p m j \<longrightarrow> covered r (p\<lparr>plan_manager := MMCache m'\<rparr>) m' j) \<and>
    (\<forall>h. map_of (ec_cached m) h = None \<longrightarrow> map_of (ec_cached m') h = None) \<and>
    (b \<longrightarrow> sz (item_key r i) \<le> plan_budget p \<and> sz (item_key r i) + num_embeds_to_schedule p \<le> num_free_slots m')"
proof -
  have inv: "ecm_inv sz m" using p by (simp add: plan_ok_def)
  let ?b = "sz (item_key r i) \<le> plan_budget p \<and> sz (item_key r i) + num_embeds_to_schedule p \<le> num_freeable_slots m"
  obtain m' where m': "can_allocate m r i (plan_budget p) (num_embeds_to_schedule p) = Inr (?b, m')" "ecm_inv sz m' \<and> cache_size m' = cache_size m"
    "evicted_prefix (sz (item_key r i) + num_embeds_to_schedule p) m m'"
    "?b \<longrightarrow> sz (item_key r i) + num_embeds_to_schedule p \<le> num_free_slots m'" "num_free_slots m \<le> num_free_slots m'"
    using can_allocate_spec[OF inv s i refl, of "plan_budget p" "num_embeds_to_schedule p"] by blast
  obtain K where K: "map_of (ec_cached m') = (\<lambda>h. if h \<in> K then None else map_of (ec_cached m) h)" "K \<subseteq> fst ` set (freeable m)"
    using m'(3) by (auto simp: evicted_prefix_def dest: in_set_takeD)
  have "map_of (ec_cached m) h = Some {}" if "h \<in> K" for h
    using that K(2) inv by (metis ecm_inv_def map_of_eq_None_iff option.exhaust subsetD)
  then have keep: "map_of (ec_cached m') h = Some refs" if "map_of (ec_cached m) h = Some refs" "x \<in> refs" for h refs x
    using that K(1) by fastforce
  have "plan_ok sz c r (p\<lparr>plan_manager := MMCache m'\<rparr>) m'"
    using p m'(2,5) K(1) by (auto simp: plan_ok_def Let_def)
  moreover have "\<forall>j. covered r p m j \<longrightarrow> covered r (p\<lparr>plan_manager := MMCache m'\<rparr>) m' j"
    using keep by (auto simp: covered_def)
  moreover have "em_can_allocate (plan_manager p) r i (plan_budget p) (num_embeds_to_schedule p) = Inr (?b, MMCache m')"
    using p m'(1) by (simp add: plan_ok_def)
  ultimately show ?thesis using m'(4) K(1) by (intro exI[of _ m'] exI[of _ ?b]) auto
qed

lemma plan_ok_add:
  assumes p: "plan_ok sz c r p m" and i: "i < length (mm_features r)" "item_key r i \<notin> mm_hashes_to_schedule p"
    and new: "map_of (ec_cached m) (item_key r i) = None" and fits: "sz (item_key r i) + num_embeds_to_schedule p \<le> num_free_slots m"
    and p': "mm_hashes_to_schedule p' = insert (item_key r i) (mm_hashes_to_schedule p)"
      "num_embeds_to_schedule p' = num_embeds_to_schedule p + sz (item_key r i)" "plan_manager p' = plan_manager p"
      "encoder_inputs_to_schedule p' = encoder_inputs_to_schedule p @ [i] \<and> external_load_encoder_input p' = external_load_encoder_input p \<or>
       encoder_inputs_to_schedule p' = encoder_inputs_to_schedule p \<and> external_load_encoder_input p' = external_load_encoder_input p @ [i]"
  shows "plan_ok sz c r p' m" "covered r p' m i" "covered r p m j \<Longrightarrow> covered r p' m j"
proof -
  have *: "item_key r i \<notin> item_key r ` set (encoder_inputs_to_schedule p @ external_load_encoder_input p)"
    using i(2) p by (simp add: plan_ok_def Let_def)
  from p'(4) show "plan_ok sz c r p' m"
  proof
    assume "encoder_inputs_to_schedule p' = encoder_inputs_to_schedule p @ [i] \<and> external_load_encoder_input p' = external_load_encoder_input p"
    then show ?thesis using * p i new fits p'(1-3) by (simp add: plan_ok_def Let_def) blast
  next
    assume "encoder_inputs_to_schedule p' = encoder_inputs_to_schedule p \<and> external_load_encoder_input p' = external_load_encoder_input p @ [i]"
    then show ?thesis using * p i new fits p'(1-3) by (simp add: plan_ok_def Let_def) blast
  qed
qed (use p' in \<open>auto simp: covered_def\<close>)

text \<open>The tokens end just before item \<open>i\<close>, which the \<open>n\<close> tokens asked for would have reached.\<close>

definition cut_before :: "Request \<Rightarrow> int \<Rightarrow> int \<Rightarrow> int \<Rightarrow> int \<Rightarrow> nat \<Rightarrow> bool" where
  "cut_before r nc shift n n' i \<longleftrightarrow> (let pos = mm_position (mm_features r ! i) in
     pr_offset pos < nc + n + shift \<and> nc < pr_offset pos + pr_length pos \<and> n' \<in> {max 0 (pr_offset pos - nc), max 0 (pr_offset pos - (nc + shift))})"

text \<open>What the loop promises from item \<open>k\<close> on, when the items before it are taken care of.\<close>

definition plan_result :: "(mm_key \<Rightarrow> int) \<Rightarrow> int \<Rightarrow> Request \<Rightarrow> int \<Rightarrow> int \<Rightarrow> enc_plan \<Rightarrow> enc_plan result \<Rightarrow> bool" where
  "plan_result sz c r nc shift p res \<longleftrightarrow> (\<exists>p' m'. res = Inr p' \<and> plan_ok sz c r p' m' \<and> 0 \<le> plan_new_tokens p' \<and> plan_new_tokens p' \<le> plan_new_tokens p \<and>
     0 \<le> plan_budget p' \<and>
     plan_budget p' + sum_list (map (\<lambda>i. sz (item_key r i)) (encoder_inputs_to_schedule p')) =
       plan_budget p + sum_list (map (\<lambda>i. sz (item_key r i)) (encoder_inputs_to_schedule p)) \<and>
     (\<forall>i < length (mm_features r). needed r nc (plan_new_tokens p') i \<longrightarrow> covered r p' m' i) \<and>
     (plan_new_tokens p' = plan_new_tokens p \<or> (\<exists>i < length (mm_features r). item_key r i \<notin> mm_hashes_to_schedule p' \<and>
        map_of (ec_cached m') (item_key r i) = None \<and> cut_before r nc shift (plan_new_tokens p) (plan_new_tokens p') i)))"

lemma plan_result_break:
  assumes "plan_ok sz c r p' m'" "0 \<le> plan_new_tokens p'" "plan_new_tokens p' \<le> plan_new_tokens p" "0 \<le> plan_budget p"
    "plan_budget p' = plan_budget p" "encoder_inputs_to_schedule p' = encoder_inputs_to_schedule p"
    "items_ok r" "\<forall>i < k. needed r nc (plan_new_tokens p) i \<longrightarrow> covered r p' m' i"
    "plan_new_tokens p' = 0 \<or> nc + plan_new_tokens p' \<le> pr_offset (mm_position (mm_features r ! k))"
    "plan_new_tokens p' = plan_new_tokens p \<or> k < length (mm_features r) \<and> item_key r k \<notin> mm_hashes_to_schedule p' \<and>
       map_of (ec_cached m') (item_key r k) = None \<and> cut_before r nc shift (plan_new_tokens p) (plan_new_tokens p') k"
  shows "plan_result sz c r nc shift p (Inr p')"
proof -
  have "covered r p' m' i" if "i < length (mm_features r)" "needed r nc (plan_new_tokens p') i" for i
  proof (cases "i < k")
    case True
    then show ?thesis using assms(8) needed_mono[OF that(2) assms(3)] by blast
  next
    case False
    then have "plan_new_tokens p' = 0" using assms(7,9) that not_needed_later[of r k i nc "plan_new_tokens p'"] by auto
    then show ?thesis using that(2) by (auto simp: needed_def)
  qed
  then show ?thesis using assms by (auto simp: plan_result_def)
qed

lemma plan_result_trans:
  assumes "plan_result sz c r nc shift p2 res" "plan_new_tokens p2 = plan_new_tokens p"
    "plan_budget p2 + sum_list (map (\<lambda>i. sz (item_key r i)) (encoder_inputs_to_schedule p2)) =
       plan_budget p + sum_list (map (\<lambda>i. sz (item_key r i)) (encoder_inputs_to_schedule p))"
  shows "plan_result sz c r nc shift p res"
  using assms by (auto simp: plan_result_def)

lemma less_Suc_covered:
  "\<forall>i < k. needed r nc n i \<longrightarrow> covered r p m i \<Longrightarrow> needed r nc n k \<longrightarrow> covered r p m k \<Longrightarrow>
     \<forall>i < Suc k. needed r nc n i \<longrightarrow> covered r p m i"
  by (simp add: less_Suc_eq)

text \<open>The part of an iteration after the cache was asked in vain.\<close>

definition try_encoder_rest :: "enc_config \<Rightarrow> Request \<Rightarrow> int \<Rightarrow> int \<Rightarrow> nat \<Rightarrow> nat list \<Rightarrow> enc_plan \<Rightarrow> enc_plan result" where
  "try_encoder_rest cfg r nc shift i is p =
     (let pos = mm_position (mm_features r ! i) in
      rbind (get_num_embeds pos) (\<lambda>num_encoder_embeds.
      if disable_chunked_mm_input cfg \<and> nc < pr_offset pos \<and> nc + plan_new_tokens p < pr_offset pos + pr_length pos
      then Inr (p\<lparr>plan_new_tokens := pr_offset pos - nc\<rparr>)
      else rbind (em_can_allocate (plan_manager p) r i (plan_budget p) (num_embeds_to_schedule p)) (\<lambda>(ok, m2).
        let p = p\<lparr>plan_manager := m2\<rparr>
        in if \<not> ok then
             Inr (p\<lparr>plan_new_tokens := (if nc + shift < pr_offset pos then pr_offset pos - (nc + shift) else 0)\<rparr>)
           else
             let start_idx_rel = max 0 (nc - pr_offset pos);
                 end_idx_rel = min (pr_length pos) (nc + plan_new_tokens p - pr_offset pos)
             in rbind (get_embeds_indices_in_range pos start_idx_rel end_idx_rel)
             (\<lambda>(curr_start, curr_end).
               if curr_end - curr_start = 0 then try_encoder_loop cfg r nc shift is p
               else if (case ec_has_cache_item cfg of None \<Rightarrow> False | Some has \<Rightarrow> has (item_key r i))
               then try_encoder_loop cfg r nc shift is
                 (p\<lparr>mm_hashes_to_schedule := insert (item_key r i) (mm_hashes_to_schedule p),
                    external_load_encoder_input := external_load_encoder_input p @ [i],
                    num_embeds_to_schedule := num_embeds_to_schedule p + num_encoder_embeds\<rparr>)
               else try_encoder_loop cfg r nc shift is
                 (p\<lparr>num_embeds_to_schedule := num_embeds_to_schedule p + num_encoder_embeds,
                    plan_budget := plan_budget p - num_encoder_embeds,
                    mm_hashes_to_schedule := insert (item_key r i) (mm_hashes_to_schedule p),
                    encoder_inputs_to_schedule := encoder_inputs_to_schedule p @ [i]\<rparr>)))))"

lemma try_encoder_rest_result:
  assumes s: "sized sz r" and r: "items_ok r" and shift: "0 \<le> shift" "shift \<le> 1"
    and k: "k < length (mm_features r)" and p: "plan_ok sz c r p m" "0 \<le> plan_new_tokens p" "0 \<le> plan_budget p"
    and done_before: "\<forall>i < k. needed r nc (plan_new_tokens p) i \<longrightarrow> covered r p m i"
    and new: "item_key r k \<notin> mm_hashes_to_schedule p" "map_of (ec_cached m) (item_key r k) = None"
    and pos: "pr_offset (mm_position (mm_features r ! k)) < nc + plan_new_tokens p + shift"
      "nc < pr_offset (mm_position (mm_features r ! k)) + pr_length (mm_position (mm_features r ! k))"
    and IH: "\<And>p m. \<lbrakk>plan_ok sz c r p m; 0 \<le> plan_new_tokens p; 0 \<le> plan_budget p;
      \<forall>i < Suc k. needed r nc (plan_new_tokens p) i \<longrightarrow> covered r p m i\<rbrakk> \<Longrightarrow> plan_result sz c r nc shift p (try_encoder_loop cfg r nc shift is p)"
  shows "plan_result sz c r nc shift p (try_encoder_rest cfg r nc shift k is p)"
proof -
  let ?pos = "mm_position (mm_features r ! k)" and ?h = "item_key r k"
  let ?s = "max 0 (nc - pr_offset ?pos)" and ?e = "min (pr_length ?pos) (nc + plan_new_tokens p - pr_offset ?pos)"
  have e: "get_num_embeds ?pos = Inr (sz ?h)" using s k by (simp add: sized_def)
  have item: "0 < pr_length ?pos" "case pr_is_embed ?pos of None \<Rightarrow> True | Some m \<Rightarrow> int (length m) = pr_length ?pos"
    using r nth_mem[OF k] by (auto simp: items_ok_def)
  obtain m2 b where m2: "em_can_allocate (plan_manager p) r k (plan_budget p) (num_embeds_to_schedule p) = Inr (b, MMCache m2)"
    "plan_ok sz c r (p\<lparr>plan_manager := MMCache m2\<rparr>) m2" "\<forall>j. covered r p m j \<longrightarrow> covered r (p\<lparr>plan_manager := MMCache m2\<rparr>) m2 j"
    "map_of (ec_cached m2) ?h = None" "b \<Longrightarrow> sz ?h \<le> plan_budget p \<and> sz ?h + num_embeds_to_schedule p \<le> num_free_slots m2"
    using plan_ok_can_allocate[OF p(1) s k] new(2) by blast
  define p2 where "p2 = p\<lparr>plan_manager := MMCache m2\<rparr>"
  have p2: "plan_ok sz c r p2 m2" "plan_new_tokens p2 = plan_new_tokens p" "plan_budget p2 = plan_budget p" "mm_hashes_to_schedule p2 = mm_hashes_to_schedule p"
    "encoder_inputs_to_schedule p2 = encoder_inputs_to_schedule p" "num_embeds_to_schedule p2 = num_embeds_to_schedule p"
    using m2(2) by (simp_all add: p2_def)
  have done2: "\<forall>i < k. needed r nc (plan_new_tokens p) i \<longrightarrow> covered r p2 m2 i" using done_before m2(3) p2_def by blast
  have upd: "plan_ok sz c r (q\<lparr>plan_new_tokens := n\<rparr>) m' = plan_ok sz c r q m'" "covered r (q\<lparr>plan_new_tokens := n\<rparr>) m' j = covered r q m' j" for q n m' j
    by (simp_all add: plan_ok_def covered_def)
  consider (chunk) "disable_chunked_mm_input cfg" "nc < pr_offset ?pos" "nc + plan_new_tokens p < pr_offset ?pos + pr_length ?pos"
    | (full) "\<not> (disable_chunked_mm_input cfg \<and> nc < pr_offset ?pos \<and> nc + plan_new_tokens p < pr_offset ?pos + pr_length ?pos)" "\<not> b"
    | (fits) "\<not> (disable_chunked_mm_input cfg \<and> nc < pr_offset ?pos \<and> nc + plan_new_tokens p < pr_offset ?pos + pr_length ?pos)" b
    by blast
  then show ?thesis
  proof cases
    case chunk
    let ?q = "p\<lparr>plan_new_tokens := pr_offset ?pos - nc\<rparr>"
    have "plan_result sz c r nc shift p (Inr ?q)"
      by (rule plan_result_break[of sz c r ?q m p k nc]) (use p r chunk pos shift done_before k new in \<open>simp_all add: upd cut_before_def Let_def\<close>)
    then show ?thesis using chunk e by (simp add: try_encoder_rest_def Let_def)
  next
    case full
    let ?q = "p2\<lparr>plan_new_tokens := (if nc + shift < pr_offset ?pos then pr_offset ?pos - (nc + shift) else 0)\<rparr>"
    have "plan_result sz c r nc shift p (Inr ?q)"
      by (rule plan_result_break[of sz c r ?q m2 p k nc]) (use p p2 r pos shift done2 k new(1) m2(4) in \<open>simp_all add: upd cut_before_def Let_def\<close>)
    then show ?thesis using full e m2(1) by (auto simp: try_encoder_rest_def Let_def p2_def)
  next
    case fits
    have "0 \<le> ?s" "?s \<le> ?e" "?e \<le> pr_length ?pos" using pos shift p(2) item(1) by linarith+
    from embeds_range[OF item(2,1) this] obtain x y where xy: "get_embeds_indices_in_range ?pos ?s ?e = Inr (x, y)"
      "y - x = 0 \<Longrightarrow> \<forall>t. ?s \<le> t - pr_offset ?pos \<and> t - pr_offset ?pos < ?e \<longrightarrow> \<not> embed_at ?pos t"
      by blast
    have skip: "\<not> needed r nc (plan_new_tokens p) k" if "y - x = 0"
      using xy(2)[OF that] by (auto simp: needed_def embed_at_def max_def min_def split: if_splits)
    define ext where "ext = (case ec_has_cache_item cfg of None \<Rightarrow> False | Some has \<Rightarrow> has ?h)"
    let ?a = "p2\<lparr>mm_hashes_to_schedule := insert ?h (mm_hashes_to_schedule p2), external_load_encoder_input := external_load_encoder_input p2 @ [k],
      num_embeds_to_schedule := num_embeds_to_schedule p2 + sz ?h\<rparr>"
    let ?b = "p2\<lparr>num_embeds_to_schedule := num_embeds_to_schedule p2 + sz ?h, plan_budget := plan_budget p2 - sz ?h,
      mm_hashes_to_schedule := insert ?h (mm_hashes_to_schedule p2), encoder_inputs_to_schedule := encoder_inputs_to_schedule p2 @ [k]\<rparr>"
    define q where "q = (if y - x = 0 then p2 else if ext then ?a else ?b)"
    have run: "try_encoder_rest cfg r nc shift k is p = try_encoder_loop cfg r nc shift is q"
      using fits e m2(1) xy(1) by (auto simp: try_encoder_rest_def Let_def p2_def q_def ext_def)
    have add: "plan_ok sz c r q m2" "covered r q m2 k" "\<And>j. covered r p2 m2 j \<Longrightarrow> covered r q m2 j" if "y - x \<noteq> 0"
      by (rule plan_ok_add[OF p2(1) k _ m2(4), of q]; use that new(1) p2 m2(5)[OF fits(2)] in \<open>simp add: q_def\<close>)+
    have q: "plan_ok sz c r q m2" "\<forall>i < Suc k. needed r nc (plan_new_tokens p) i \<longrightarrow> covered r q m2 i"
      using add p2(1) done2 skip by (cases "y - x = 0"; simp add: less_Suc_eq q_def)+
    have "plan_result sz c r nc shift q (try_encoder_loop cfg r nc shift is q)"
      by (rule IH[OF q(1)]) (use q(2) p p2 m2(5)[OF fits(2)] in \<open>auto simp: q_def\<close>)
    moreover have "plan_budget q + sum_list (map (\<lambda>i. sz (item_key r i)) (encoder_inputs_to_schedule q)) =
       plan_budget p + sum_list (map (\<lambda>i. sz (item_key r i)) (encoder_inputs_to_schedule p))" "plan_new_tokens q = plan_new_tokens p"
      using p2 by (simp_all add: q_def)
    ultimately show ?thesis using plan_result_trans[of sz c r nc shift q _ p] run by simp
  qed
qed

lemma try_encoder_step:
  assumes cfg: "\<not> is_encoder_decoder cfg" and s: "sized sz r" and r: "items_ok r" and shift: "0 \<le> shift" "shift \<le> 1"
    and k: "k < length (mm_features r)" and p: "plan_ok sz c r p m" "0 \<le> plan_new_tokens p" "0 \<le> plan_budget p"
    and done_before: "\<forall>i < k. needed r nc (plan_new_tokens p) i \<longrightarrow> covered r p m i"
    and IH: "\<And>p m. \<lbrakk>plan_ok sz c r p m; 0 \<le> plan_new_tokens p; 0 \<le> plan_budget p;
      \<forall>i < Suc k. needed r nc (plan_new_tokens p) i \<longrightarrow> covered r p m i\<rbrakk> \<Longrightarrow> plan_result sz c r nc shift p (try_encoder_loop cfg r nc shift is p)"
  shows "plan_result sz c r nc shift p (try_encoder_loop cfg r nc shift (k # is) p)"
proof -
  let ?pos = "mm_position (mm_features r ! k)" and ?h = "item_key r k"
  have e: "get_num_embeds ?pos = Inr (sz ?h)" using s k by (simp add: sized_def)
  have item: "0 < pr_length ?pos" "case pr_is_embed ?pos of None \<Rightarrow> True | Some m \<Rightarrow> int (length m) = pr_length ?pos"
    using r nth_mem[OF k] by (auto simp: items_ok_def)
  have mgr: "plan_manager p = MMCache m" using p(1) by (simp add: plan_ok_def)
  consider "pr_offset ?pos \<ge> nc + plan_new_tokens p + shift"
    | "pr_offset ?pos < nc + plan_new_tokens p + shift" "pr_offset ?pos + pr_length ?pos \<le> nc"
    | "pr_offset ?pos < nc + plan_new_tokens p + shift" "nc < pr_offset ?pos + pr_length ?pos" "?h \<in> mm_hashes_to_schedule p"
    | "pr_offset ?pos < nc + plan_new_tokens p + shift" "nc < pr_offset ?pos + pr_length ?pos" "?h \<notin> mm_hashes_to_schedule p"
    by linarith
  then show ?thesis
  proof cases
    case 1
    then show ?thesis using plan_result_break[OF p(1,2) _ p(3) _ _ r done_before] shift e cfg by (simp add: Let_def)
  next
    case 2
    then have "\<not> needed r nc (plan_new_tokens p) k" by (auto simp: needed_def embed_at_def)
    then show ?thesis using IH[OF p less_Suc_covered[OF done_before]] 2 e cfg by (simp add: Let_def)
  next
    case 3
    then have "covered r p m k" by (simp add: covered_def)
    moreover have "p\<lparr>plan_manager := plan_manager p\<rparr> = p" by simp
    ultimately show ?thesis using IH[OF p less_Suc_covered[OF done_before]] 3 e cfg by (simp add: Let_def)
  next
    case 4
    obtain m1 b where m1: "em_check_and_update_cache (MMCache m) r k = Inr (b, MMCache m1)"
      "plan_ok sz c r (p\<lparr>plan_manager := MMCache m1\<rparr>) m1" "\<forall>j. covered r p m j \<longrightarrow> covered r (p\<lparr>plan_manager := MMCache m1\<rparr>) m1 j"
      "if b then covered r (p\<lparr>plan_manager := MMCache m1\<rparr>) m1 k else map_of (ec_cached m1) ?h = None"
      using plan_ok_check[OF p(1) k 4(3)] mgr by metis
    define p1 where "p1 = p\<lparr>plan_manager := MMCache m1\<rparr>"
    have p1: "plan_ok sz c r p1 m1" "plan_new_tokens p1 = plan_new_tokens p" "plan_budget p1 = plan_budget p" "?h \<notin> mm_hashes_to_schedule p1"
      "encoder_inputs_to_schedule p1 = encoder_inputs_to_schedule p" "plan_manager p1 = MMCache m1"
      using m1(2) 4(3) by (simp_all add: p1_def)
    have done1: "\<forall>i < k. needed r nc (plan_new_tokens p) i \<longrightarrow> covered r p1 m1 i" using done_before m1(3) p1_def by blast
    have "plan_result sz c r nc shift p1 (if b then try_encoder_loop cfg r nc shift is p1 else try_encoder_rest cfg r nc shift k is p1)"
    proof (cases b)
      case True
      then show ?thesis using IH[OF p1(1) _ _ less_Suc_covered[of k r nc "plan_new_tokens p1" p1 m1]] m1(4) done1 p(2,3) p1 by (simp add: p1_def)
    next
      case False
      then show ?thesis
        using try_encoder_rest_result[OF s r shift k p1(1) _ _ _ p1(4) _ _ _ IH] p(2,3) p1 done1 4(1,2) m1(4) by simp
    qed
    moreover have "try_encoder_loop cfg r nc shift (k # is) p =
      (if b then try_encoder_loop cfg r nc shift is p1 else try_encoder_rest cfg r nc shift k is p1)"
      using 4 e cfg m1(1) mgr
      by (simp add: p1_def try_encoder_rest_def not_le Let_def[of "mm_position (mm_features r ! k)"] Let_def[of "pr_offset _"]
        Let_def[of "pr_length _"] Let_def[of "item_key r k"] Let_def[of "_\<lparr>plan_manager := _\<rparr>"]
        del: em_check_and_update_cache.simps em_can_allocate.simps)
    ultimately show ?thesis using plan_result_trans[of sz c r nc shift p1 _ p] p1 by simp
  qed
qed

lemma try_encoder_loop_result:
  assumes "\<not> is_encoder_decoder cfg" "sized sz r" "items_ok r" "0 \<le> shift" "shift \<le> 1"
    "plan_ok sz c r p m" "0 \<le> plan_new_tokens p" "0 \<le> plan_budget p"
    "\<forall>i < k. needed r nc (plan_new_tokens p) i \<longrightarrow> covered r p m i" "k \<le> length (mm_features r)"
  shows "plan_result sz c r nc shift p (try_encoder_loop cfg r nc shift [k..<length (mm_features r)] p)"
  using assms(6-)
proof (induction "length (mm_features r) - k" arbitrary: k p m)
  case 0
  then show ?case by (auto simp: plan_result_def)
next
  case (Suc d)
  then have k: "k < length (mm_features r)" by simp
  then have l: "[k..<length (mm_features r)] = k # [Suc k..<length (mm_features r)]" by (simp add: upt_conv_Cons)
  show ?case unfolding l
    by (rule try_encoder_step[OF assms(1-5) k Suc.prems(1-4)]) (rule Suc.hyps(1), use Suc.hyps(2) k in auto)
qed

text \<open>Everything planned can be allocated.\<close>

lemma allocate_plan:
  assumes "ecm_inv sz m" "sized sz r" "\<forall>i \<in> set is. i < length (mm_features r) \<and> map_of (ec_cached m) (item_key r i) = None"
    "distinct (map (item_key r) is)" "sum_list (map (\<lambda>i. sz (item_key r i)) is) \<le> num_free_slots m"
  shows "\<exists>m'. mfold (em_allocate r) is (MMCache m) = Inr (MMCache m') \<and> ecm_inv sz m' \<and> cache_size m' = cache_size m \<and>
    map_of (ec_cached m') = (\<lambda>h. if h \<in> item_key r ` set is then Some {request_id r} else map_of (ec_cached m) h)"
  using assms
proof (induction "is" arbitrary: m)
  case Nil
  then show ?case by simp
next
  case (Cons i is')
  have pos: "0 \<le> sum_list (map (\<lambda>i. sz (item_key r i)) is')" using Cons.prems(1) by (auto simp: ecm_inv_def intro!: sum_list_nonneg)
  obtain m1 where m1: "ecm_allocate m r i = Inr m1" "ecm_inv sz m1" "cache_size m1 = cache_size m"
    "num_free_slots m1 = num_free_slots m - sz (item_key r i)" "map_of (ec_cached m1) = (map_of (ec_cached m))(item_key r i \<mapsto> {request_id r})"
    using allocate_spec[OF Cons.prems(1,2) _ refl, of i] Cons.prems(3,5) pos by auto
  have nd: "item_key r i \<notin> item_key r ` set is'" using Cons.prems(4) by simp
  have new: "\<forall>j \<in> set is'. j < length (mm_features r) \<and> map_of (ec_cached m1) (item_key r j) = None"
  proof
    fix j assume "j \<in> set is'"
    then have "item_key r j \<noteq> item_key r i" using nd by (metis imageI)
    then show "j < length (mm_features r) \<and> map_of (ec_cached m1) (item_key r j) = None" using Cons.prems(3) m1(5) \<open>j \<in> set is'\<close> by simp
  qed
  obtain m' where "mfold (em_allocate r) is' (MMCache m1) = Inr (MMCache m')" "ecm_inv sz m'" "cache_size m' = cache_size m1"
    "map_of (ec_cached m') = (\<lambda>h. if h \<in> item_key r ` set is' then Some {request_id r} else map_of (ec_cached m1) h)"
    using Cons.IH[OF m1(2) Cons.prems(2)] new Cons.prems(4,5) m1(4) by auto
  then show ?case using m1 nd by (auto simp: fun_eq_iff)
qed


lemma encoder_plan_facts:
  assumes m: "ecm_inv sz m" and r: "sized sz r" "items_ok r" and cfg: "\<not> is_encoder_decoder cfg"
    and shift: "0 \<le> shift" "shift \<le> 1" and n: "0 \<le> n" "0 \<le> budget"
  shows "\<exists>inputs n' budget' ext m1 m2.
    try_schedule_encoder_inputs cfg (MMCache m) r nc n budget shift = Inr ((inputs, n', budget', ext), MMCache m1) \<and>
    0 \<le> n' \<and> n' \<le> n \<and> 0 \<le> budget' \<and> budget' + sum_list (map (\<lambda>i. sz (item_key r i)) inputs) = budget \<and>
    ecm_inv sz m1 \<and> mfold (em_allocate r) (inputs @ ext) (MMCache m1) = Inr (MMCache m2) \<and> ecm_inv sz m2 \<and> cache_size m1 = cache_size m \<and> cache_size m2 = cache_size m \<and>
    (\<forall>i < length (mm_features r). needed r nc n' i \<longrightarrow>
       (\<exists>refs. map_of (ec_cached m2) (item_key r i) = Some refs \<and> request_id r \<in> refs)) \<and>
    (n' = n \<or> (\<exists>i < length (mm_features r). map_of (ec_cached m2) (item_key r i) = None \<and> cut_before r nc shift n n' i))"
proof (cases "n = 0 \<or> \<not> has_encoder_inputs r")
  case True
  have "\<not> needed r nc n i" if "i < length (mm_features r)" for i
    using True that by (auto simp: needed_def has_encoder_inputs_def num_encoder_inputs_def)
  then show ?thesis using True m n by (simp add: try_schedule_encoder_inputs_def)
next
  case False
  let ?p = "\<lparr>encoder_inputs_to_schedule = [], plan_new_tokens = n, plan_budget = budget, external_load_encoder_input = [],
    mm_hashes_to_schedule = {}, num_embeds_to_schedule = 0, plan_manager = MMCache m\<rparr>"
  have "plan_ok sz (cache_size m) r ?p m" using m by (simp add: plan_ok_def ecm_inv_def)
  then have "plan_result sz (cache_size m) r nc shift ?p (try_encoder_loop cfg r nc shift [0..<length (mm_features r)] ?p)"
    by (rule try_encoder_loop_result[OF cfg r shift]) (use n in simp_all)
  then obtain p m1 where p: "try_encoder_loop cfg r nc shift [0..<length (mm_features r)] ?p = Inr p" "plan_ok sz (cache_size m) r p m1"
    "0 \<le> plan_new_tokens p" "plan_new_tokens p \<le> n" "0 \<le> plan_budget p"
    "plan_budget p + sum_list (map (\<lambda>i. sz (item_key r i)) (encoder_inputs_to_schedule p)) = budget"
    "\<forall>i < length (mm_features r). needed r nc (plan_new_tokens p) i \<longrightarrow> covered r p m1 i"
    "plan_new_tokens p = n \<or> (\<exists>i < length (mm_features r). item_key r i \<notin> mm_hashes_to_schedule p \<and> map_of (ec_cached m1) (item_key r i) = None \<and>
       cut_before r nc shift n (plan_new_tokens p) i)"
    by (auto simp: plan_result_def)
  let ?is = "encoder_inputs_to_schedule p @ external_load_encoder_input p"
  note ok = p(2)[unfolded plan_ok_def Let_def]
  obtain m2 where m2: "mfold (em_allocate r) ?is (MMCache m1) = Inr (MMCache m2)" "ecm_inv sz m2 \<and> cache_size m2 = cache_size m1"
    "map_of (ec_cached m2) = (\<lambda>h. if h \<in> item_key r ` set ?is then Some {request_id r} else map_of (ec_cached m1) h)"
    using allocate_plan[of sz m1 r ?is] ok r(1) by auto
  have "\<exists>refs. map_of (ec_cached m2) (item_key r i) = Some refs \<and> request_id r \<in> refs" if "covered r p m1 i" for i
    using that m2(3) ok by (auto simp: covered_def)
  moreover have "plan_new_tokens p = n \<or> (\<exists>i < length (mm_features r). map_of (ec_cached m2) (item_key r i) = None \<and> cut_before r nc shift n (plan_new_tokens p) i)"
    using p(8) m2(3) ok by (metis (mono_tags, lifting))
  ultimately show ?thesis
    using p False m2(1,2) ok by (simp add: try_schedule_encoder_inputs_def)
qed

section \<open>Properties\<close>

text \<open>
  C29 (functional): planning the encoder inputs of a step of a model that is not an encoder-decoder, from a cache that satisfies
  its invariant. The call never raises. The number of tokens it
  leaves is between 0 and what was asked for, and smaller only when it ends just before an item that is not available; the compute budget
  is charged exactly for the
  inputs to run and never overdrawn; afterwards all planned inputs can be allocated without an
  assertion failing; and then every item with an embedding at one of the positions that the model computes in the step
  is in the cache and held by the request. (The drafter of EAGLE, which reads one position further, is the subject of the next lemma.)
\<close>

theorem encoder_plan_correct:
  assumes m: "ecm_inv sz m" and r: "sized sz r" "items_ok r" and cfg: "\<not> is_encoder_decoder cfg"
    and shift: "0 \<le> shift" "shift \<le> 1" and n: "0 \<le> n" "0 \<le> budget"
  shows "\<exists>inputs n' budget' ext m1 m2.
    try_schedule_encoder_inputs cfg (MMCache m) r nc n budget shift = Inr ((inputs, n', budget', ext), MMCache m1) \<and>
    0 \<le> n' \<and> n' \<le> n \<and> 0 \<le> budget' \<and> budget' + sum_list (map (\<lambda>i. sz (item_key r i)) inputs) = budget \<and>
    mfold (em_allocate r) (inputs @ ext) (MMCache m1) = Inr (MMCache m2) \<and> ecm_inv sz m2 \<and>
    (\<forall>i < length (mm_features r). needed r nc n' i \<longrightarrow>
       (\<exists>refs. map_of (ec_cached m2) (item_key r i) = Some refs \<and> request_id r \<in> refs)) \<and>
    (n' = n \<or> (\<exists>i < length (mm_features r). map_of (ec_cached m2) (item_key r i) = None \<and> cut_before r nc shift n n' i))"
  using encoder_plan_facts[OF assms] by blast

definition example_item_request :: Request where
  "example_item_request = example_request ''r'' [1, 2, 3, 4, 5, 6] [mm_item ''x'' 1 2, mm_item ''y'' 3 2]"

definition example_enc_config :: enc_config where
  "example_enc_config = \<lparr>is_encoder_decoder = False, disable_chunked_mm_input = False, ec_has_cache_item = None\<rparr>"

lemma example_item_facts:
  "sized (\<lambda>h. 2) example_item_request" "items_ok example_item_request" "\<not> is_encoder_decoder example_enc_config"
  "ecm_inv (\<lambda>h. 2) (EncoderCacheManager_init 4)" "length (mm_features example_item_request) = 2"
  by (auto simp: sized_def items_ok_def example_item_request_def mm_item_def get_num_embeds_def example_enc_config_def
      ecm_inv_def EncoderCacheManager_init_def less_Suc_eq)

theorem encoder_plan_correct_witness:
  "\<exists>inputs n' budget' ext m1 m2.
    try_schedule_encoder_inputs example_enc_config (MMCache (EncoderCacheManager_init 4)) example_item_request 0 6 10 0 =
      Inr ((inputs, n', budget', ext), MMCache m1) \<and> n' = 6 \<and>
    mfold (em_allocate example_item_request) (inputs @ ext) (MMCache m1) = Inr (MMCache m2) \<and>
    (\<exists>refs. map_of (ec_cached m2) (item_key example_item_request 0) = Some refs \<and> request_id example_item_request \<in> refs)"
proof -
  from encoder_plan_correct[OF example_item_facts(4,1,2,3), of 0 6 10 0] obtain inputs n' budget' ext m1 m2 where p:
    "try_schedule_encoder_inputs example_enc_config (MMCache (EncoderCacheManager_init 4)) example_item_request 0 6 10 0 =
      Inr ((inputs, n', budget', ext), MMCache m1)"
    "mfold (em_allocate example_item_request) (inputs @ ext) (MMCache m1) = Inr (MMCache m2)"
    "needed example_item_request 0 n' 0 \<longrightarrow> (\<exists>refs. map_of (ec_cached m2) (item_key example_item_request 0) = Some refs \<and> request_id example_item_request \<in> refs)"
    using example_item_facts(5) by fastforce
  moreover have "case try_schedule_encoder_inputs example_enc_config (MMCache (EncoderCacheManager_init 4)) example_item_request 0 6 10 0 of
      Inr ((_, n', _), _) \<Rightarrow> n' = 6 | Inl _ \<Rightarrow> False" by code_simp
  moreover have "needed example_item_request 0 6 0"
    by (auto simp: needed_def embed_at_def example_item_request_def mm_item_def intro!: exI[of _ 2])
  ultimately show ?thesis by auto
qed

text \<open>
  With EAGLE (\<^verbatim>\<open>shift_computed_tokens = 1\<close>) the drafter reads the embeddings at the positions \<open>nc + 1, \<dots>, nc + n\<close>. The loop does go on to an item
  that starts at position \<open>nc + n\<close>, but the range of embeddings that it then tests ends before that position: the item is skipped,
  neither run nor loaded nor are the tokens cut, and the drafter's lookup in the encoder cache fails.
\<close>

definition example_drafter_request :: Request where
  "example_drafter_request = example_request ''r'' [1, 2, 3, 4, 5, 6] [mm_item ''x'' 2 2]"

lemma drafter_item_not_planned:
  "needed example_drafter_request 1 2 0 \<and>
   (\<exists>m. try_schedule_encoder_inputs example_enc_config (MMCache (EncoderCacheManager_init 4)) example_drafter_request 0 2 10 1 =
      Inr (([], 2, 10, []), MMCache m) \<and> ec_cached m = [])"
proof
  show "needed example_drafter_request 1 2 0"
    by (auto simp: needed_def embed_at_def example_drafter_request_def mm_item_def intro!: exI[of _ 2])
  have "try_schedule_encoder_inputs example_enc_config (MMCache (EncoderCacheManager_init 4)) example_drafter_request 0 2 10 1 =
      Inr (([], 2, 10, []), MMCache (EncoderCacheManager_init 4))" by code_simp
  then show "\<exists>m. try_schedule_encoder_inputs example_enc_config (MMCache (EncoderCacheManager_init 4)) example_drafter_request 0 2 10 1 =
      Inr (([], 2, 10, []), MMCache m) \<and> ec_cached m = []" by (simp add: EncoderCacheManager_init_def)
qed

section \<open>Reachable caches\<close>






text \<open>
  The manager of encoder-decoder models gives slots back that were never taken. Every step of a
  request that has computed a token releases all its encoder inputs again, so after \<open>k\<close> steps
  the free slots have grown by \<open>k\<close> times the request's embeddings, beyond the capacity.
\<close>

theorem encoder_decoder_slots_grow:
  assumes "is_encoder_decoder cfg" "num_computed_tokens r > 0" "sized sz r"
    "set_order (ed_get_cached_input_ids r) = ed_get_cached_input_ids r"
  shows "((\<lambda>s. rbind s (free_encoder_inputs cfg set_order r)) ^^ k) (Inr (EncDecCache m)) =
    Inr (EncDecCache (m\<lparr>ed_num_free_slots := ed_num_free_slots m + int k * sum_list (map (\<lambda>i. sz (item_key r i)) [0..<length (mm_features r)])\<rparr>))"
proof (induction k)
  case (Suc k)
  have fold: "mfold (\<lambda>i e. em_free_encoder_input r i e) is (EncDecCache m) =
      Inr (EncDecCache (m\<lparr>ed_num_free_slots := ed_num_free_slots m + sum_list (map (\<lambda>i. sz (item_key r i)) is)\<rparr>))"
    if "set is \<subseteq> {..<length (mm_features r)}" for m "is"
    using that
  proof (induction "is" arbitrary: m)
    case (Cons i "is")
    then show ?case using sized_embeds[OF assms(3)] by (simp add: ed_free_encoder_input_def add.assoc)
  qed simp
  have "free_encoder_inputs cfg set_order r (EncDecCache m) =
      Inr (EncDecCache (m\<lparr>ed_num_free_slots := ed_num_free_slots m + sum_list (map (\<lambda>i. sz (item_key r i)) [0..<length (mm_features r)])\<rparr>))" for m
    using fold[of "[0..<length (mm_features r)]" m] assms(1,2,4)
    by (auto simp: free_encoder_inputs_def Let_def ed_get_cached_input_ids_def atLeast0LessThan)
  then show ?case using Suc.IH by (simp add: algebra_simps)
qed simp

theorem encoder_decoder_slots_grow_witness:
  "case ((\<lambda>s. rbind s (free_encoder_inputs (example_enc_config\<lparr>is_encoder_decoder := True\<rparr>) id (example_item_request\<lparr>num_computed_tokens := 1\<rparr>))) ^^ 3)
      (Inr (EncDecCache (EncoderDecoderCacheManager_init 4))) of
     Inr (EncDecCache m) \<Rightarrow> ed_num_free_slots m > ed_cache_size m | _ \<Rightarrow> False"
proof -
  have "sized (\<lambda>h. 2) (example_item_request\<lparr>num_computed_tokens := 1\<rparr>)" using example_item_facts(1) by (simp add: sized_def)
  from encoder_decoder_slots_grow[OF _ _ this, of "example_enc_config\<lparr>is_encoder_decoder := True\<rparr>" id 3 "EncoderDecoderCacheManager_init 4"]
  show ?thesis using example_item_facts(5) by (simp add: EncoderDecoderCacheManager_init_def upt_conv_Cons numeral_2_eq_2)
qed

text \<open>
  The embeddings in an empty range at the start of an item with a mask are reported as all of
  them, because the cumulative sum is then read at index -1, the last entry; without a mask
  the answer is the empty range.
\<close>

theorem empty_embed_range_wraps:
  assumes "pr_is_embed pr = Some m" "m \<noteq> []"
  shows "get_embeds_indices_in_range pr 0 0 = Inr (0, int (length (filter (\<lambda>b. b) m))) \<and>
    get_embeds_indices_in_range (pr\<lparr>pr_is_embed := None\<rparr>) 0 0 = Inr (0, 0)"
proof -
  have "\<exists>n. length m = Suc n" using assms(2) by (cases m) auto
  then show ?thesis using assms by (auto simp: get_embeds_indices_in_range_def embeds_cumsum_def py_index_def nth_append)
qed

theorem empty_embed_range_wraps_witness:
  "get_embeds_indices_in_range \<lparr>pr_offset = 2, pr_length = 3, pr_is_embed = Some [True, False, True]\<rparr> 0 0 = Inr (0, 2)"
  using empty_embed_range_wraps[of "\<lparr>pr_offset = 2, pr_length = 3, pr_is_embed = Some [True, False, True]\<rparr>"] by simp

end
