(* ===== verification/KV_Config.thy ===== *)
theory KV_Config
  imports KV_Specs Complex_Main
begin

text \<open>
  Sizing the KV cache, from \<^verbatim>\<open>vllm/v1/core/kv_cache_utils.py\<close>: the memory check and the binary search for
  the longest model length that fits, the partition of the layers into groups, and the block
  count and tensors of every worker. \<^verbatim>\<open>dsize\<close> gives the byte sizes of torch element types, as in
  the theory of the formats. Log messages are left out. The in-place change of \<^verbatim>\<open>max_model_len\<close> during
  a search is undone by the code's \<^verbatim>\<open>finally\<close>, so the model passes the trial length in a copy.
\<close>

section \<open>Memory checks\<close>

definition check_memory :: "int \<Rightarrow> int result \<Rightarrow> (int \<Rightarrow> int result) \<Rightarrow> unit result" where
  "check_memory available_memory needed estimate =
     (if available_memory \<le> 0 then Inl ValueError
      else rbind needed (\<lambda>needed_memory.
        if needed_memory > available_memory then rbind (estimate available_memory) (\<lambda>_. Inl ValueError)
        else Inr ()))"

definition sum_max_memory :: "(dtype \<Rightarrow> int) \<Rightarrow> VllmConfig \<Rightarrow> KVCacheSpec list \<Rightarrow> int result" where
  "sum_max_memory dsize cfg specs = rbind (mmap (max_memory_usage_bytes dsize cfg) specs) (\<lambda>us. Inr (sum_list us))"

text \<open>The binary search both estimates share; \<open>fits\<close> is the closure that tries a length.\<close>

function search_loop :: "(int \<Rightarrow> bool result) \<Rightarrow> int \<Rightarrow> int \<Rightarrow> int \<Rightarrow> int result" where
  "search_loop fits left right result_so_far =
     (if left \<le> right then
        let mid = (left + right) div 2
        in case fits mid of
             Inl e \<Rightarrow> Inl e
           | Inr True \<Rightarrow> search_loop fits (mid + 1) right mid
           | Inr False \<Rightarrow> search_loop fits left (mid - 1) result_so_far
      else Inr result_so_far)"
  by auto
termination by (relation "measure (\<lambda>(f, l, r, x). nat (r + 1 - l))") auto

declare search_loop.simps [simp del]

definition search_max_len :: "(int \<Rightarrow> bool result) \<Rightarrow> int \<Rightarrow> int result" where
  "search_max_len fits original =
     rbind (fits 1) (\<lambda>ok. if \<not> ok then Inr 0 else search_loop fits 1 original 1)"

definition estimate_max_model_len :: "(dtype \<Rightarrow> int) \<Rightarrow> VllmConfig \<Rightarrow> (string, KVCacheSpec) dict \<Rightarrow> int \<Rightarrow> int result" where
  "estimate_max_model_len dsize cfg kv_cache_spec available_memory =
     search_max_len (\<lambda>n. rbind (sum_max_memory dsize (cfg\<lparr>max_model_len := n\<rparr>) (dict_values kv_cache_spec))
       (\<lambda>u. Inr (u \<le> available_memory))) (max_model_len cfg)"

definition check_enough_kv_cache_memory :: "(dtype \<Rightarrow> int) \<Rightarrow> VllmConfig \<Rightarrow> (string, KVCacheSpec) dict \<Rightarrow> int \<Rightarrow> unit result" where
  "check_enough_kv_cache_memory dsize cfg kv_cache_spec available_memory =
     (if kv_cache_spec = [] then Inr ()
      else check_memory available_memory (sum_max_memory dsize cfg (dict_values kv_cache_spec))
        (estimate_max_model_len dsize cfg kv_cache_spec))"

section \<open>Grouping the layers\<close>

definition create_kv_cache_group_specs :: "(string, KVCacheSpec) dict \<Rightarrow> string list list \<Rightarrow> KVCacheGroupSpec list result" where
  "create_kv_cache_group_specs kv_cache_spec grouped_layer_names =
     mmap (\<lambda>names.
       rbind (mmap (dict_item kv_cache_spec) names) (\<lambda>specs.
       rbind (spec_merge specs) (\<lambda>merged. Inr \<lparr>layer_names = names, g_kv_cache_spec = merged\<rparr>))) grouped_layer_names"

text \<open>Only an \<^verbatim>\<open>AssertionError\<close> of the merge is caught.\<close>

definition is_kv_cache_spec_uniform :: "(string, KVCacheSpec) dict \<Rightarrow> bool result" where
  "is_kv_cache_spec_uniform kv_cache_spec =
     (if kv_cache_spec = [] then Inr True
      else case spec_merge (dict_values kv_cache_spec) of
        Inr _ \<Rightarrow> Inr True
      | Inl e \<Rightarrow> if e = AssertionError then Inr False else Inl e)"

definition may_override_num_blocks :: "VllmConfig \<Rightarrow> int \<Rightarrow> int" where
  "may_override_num_blocks cfg n = (case num_gpu_blocks_override cfg of None \<Rightarrow> n | Some k \<Rightarrow> k)"

definition get_num_blocks :: "VllmConfig \<Rightarrow> int \<Rightarrow> int \<Rightarrow> int \<Rightarrow> int result" where
  "get_num_blocks cfg num_layers available_memory page_size =
     (if page_size = 0 \<or> num_layers = 0 then Inl ZeroDivisionError
      else Inr (may_override_num_blocks cfg (max (available_memory div page_size div num_layers) 0)))"

definition get_uniform_page_size :: "(dtype \<Rightarrow> int) \<Rightarrow> KVCacheSpec list \<Rightarrow> int result" where
  "get_uniform_page_size dsize specs =
     rbind (mmap (page_size_bytes dsize) specs) (\<lambda>ps. py_assert (length (remdups ps) = 1) (Inr (hd ps)))"

definition groups_uniform_spec :: "(string, KVCacheSpec) dict \<Rightarrow> KVCacheGroupSpec list result" where
  "groups_uniform_spec kv_cache_specs = create_kv_cache_group_specs kv_cache_specs [dict_keys kv_cache_specs]"

definition groups_uniform_type :: "int \<Rightarrow> (string, KVCacheSpec) dict \<Rightarrow> KVCacheGroupSpec list" where
  "groups_uniform_type b specs = [\<lparr>layer_names = dict_keys specs, g_kv_cache_spec = UniformTypeKVCacheSpecs b specs\<rparr>]"

definition is_kv_cache_page_size_uniform :: "(dtype \<Rightarrow> int) \<Rightarrow> (string, KVCacheSpec) dict \<Rightarrow> bool result" where
  "is_kv_cache_page_size_uniform dsize kv_cache_spec =
     rbind (mmap (page_size_bytes dsize) (dict_values kv_cache_spec)) (\<lambda>ps. Inr (length (remdups ps) = 1))"

definition unify_layer :: "(dtype \<Rightarrow> int) \<Rightarrow> int \<Rightarrow> string \<times> KVCacheSpec \<Rightarrow> (string \<times> KVCacheSpec) result" where
  "unify_layer dsize max_page_size layer =
     (case layer of (layer_name, layer_spec) \<Rightarrow>
        rbind (page_size_bytes dsize layer_spec) (\<lambda>layer_page_size.
          if layer_page_size = max_page_size then Inr (layer_name, layer_spec)
          else if layer_page_size = 0 then Inl ZeroDivisionError
          else if max_page_size mod layer_page_size \<noteq> 0 then Inl NotImplementedError
          else
            let ratio = max_page_size div layer_page_size;
                new_spec = copy_with_new_block_size (spec_block_size layer_spec * ratio) layer_spec
            in rbind (page_size_bytes dsize new_spec) (\<lambda>p.
                 py_assert (p = max_page_size) (Inr (layer_name, new_spec)))))"

definition unify_kv_cache_spec_page_size :: "(dtype \<Rightarrow> int) \<Rightarrow> (string, KVCacheSpec) dict \<Rightarrow> (string, KVCacheSpec) dict result" where
  "unify_kv_cache_spec_page_size dsize kv_cache_spec =
     rbind (mmap (page_size_bytes dsize) (dict_values kv_cache_spec)) (\<lambda>ps.
       if length (remdups ps) \<le> 1 then Inr kv_cache_spec
       else mmap (unify_layer dsize (Max (set ps))) kv_cache_spec)"

definition is_kv_cache_type_attention_free :: "(string, KVCacheSpec) dict \<Rightarrow> bool" where
  "is_kv_cache_type_attention_free kv_cache_spec \<longleftrightarrow> kv_cache_spec = []"

text \<open>Layers by format, in the order of first appearance: the \<^verbatim>\<open>defaultdict\<close> loop.\<close>

definition add_layer :: "string \<times> KVCacheSpec \<Rightarrow> (KVCacheSpec, string list) dict \<Rightarrow> (KVCacheSpec, string list) dict" where
  "add_layer layer d =
     (case layer of (layer_name, layer_spec) \<Rightarrow>
        AList.update layer_spec ((case map_of d layer_spec of None \<Rightarrow> [] | Some l \<Rightarrow> l) @ [layer_name]) d)"

definition same_type_layers :: "(string, KVCacheSpec) dict \<Rightarrow> (KVCacheSpec, string list) dict" where
  "same_type_layers kv_cache_spec = fold add_layer kv_cache_spec []"

text \<open>The extended slice \<^verbatim>\<open>xs[i::k]\<close> for \<open>0 < k\<close>.\<close>

definition py_stride :: "'a list \<Rightarrow> nat \<Rightarrow> nat \<Rightarrow> 'a list" where
  "py_stride xs i k = map (\<lambda>j. xs ! j) (filter (\<lambda>j. i \<le> j \<and> (j - i) mod k = 0) [0..<length xs])"

definition choose_group_size :: "nat list \<Rightarrow> nat" where
  "choose_group_size lens =
     (let min_num_layers = Min (set lens); max_num_layers = Max (set lens)
      in if 4 * max_num_layers < 5 * min_num_layers then max_num_layers else min_num_layers)"

definition split_layers :: "nat \<Rightarrow> string list \<Rightarrow> string list list" where
  "split_layers group_size layers =
     (let num_groups = nat (cdiv (int (length layers)) (int group_size))
      in map (\<lambda>i. py_stride layers i num_groups) [0..<num_groups])"

definition groups_uniform_page_size :: "(string, KVCacheSpec) dict \<Rightarrow> KVCacheGroupSpec list result" where
  "groups_uniform_page_size kv_cache_spec =
     (let layers = dict_values (same_type_layers kv_cache_spec)
      in if layers = [] then Inl ValueError
         else create_kv_cache_group_specs kv_cache_spec
           (concat (map (split_layers (choose_group_size (map length layers))) layers)))"

fun to_full_attention :: "KVCacheSpec \<Rightarrow> KVCacheSpec" where
  "to_full_attention (SlidingWindowSpec a w) =
     FullAttentionSpec a \<lparr>head_size_v = head_size a, fa_sliding_window = Some w, fa_attention_chunk_size = None\<rparr>"
| "to_full_attention (ChunkedLocalAttentionSpec a c) =
     FullAttentionSpec a \<lparr>head_size_v = head_size a, fa_sliding_window = None, fa_attention_chunk_size = Some c\<rparr>"
| "to_full_attention s = s"

definition specs_unified :: "(string, KVCacheSpec) dict \<Rightarrow> bool result" where
  "specs_unified kv_cache_spec =
     rbind (is_kv_cache_spec_uniform kv_cache_spec) (\<lambda>u. if u then Inr True else is_uniform_type kv_cache_spec)"

definition unify_hybrid_kv_cache_specs :: "(string, KVCacheSpec) dict \<Rightarrow> (string, KVCacheSpec) dict result" where
  "unify_hybrid_kv_cache_specs kv_cache_spec =
     rbind (specs_unified kv_cache_spec) (\<lambda>u.
       if u then Inr kv_cache_spec
       else
         let vs = set (dict_values kv_cache_spec);
             has_full_attention = (\<exists>s \<in> vs. is_full_attention s);
             has_sliding_window = (\<exists>s \<in> vs. case s of SlidingWindowSpec _ _ \<Rightarrow> True | _ \<Rightarrow> False);
             has_chunked_local_attention = (\<exists>s \<in> vs. case s of ChunkedLocalAttentionSpec _ _ \<Rightarrow> True | _ \<Rightarrow> False);
             new_spec = (if has_full_attention \<and> (has_sliding_window \<or> has_chunked_local_attention)
                         then map (\<lambda>(n, s). (n, to_full_attention s)) kv_cache_spec else kv_cache_spec)
         in rbind (specs_unified new_spec) (\<lambda>u'. if u' then Inr new_spec else Inl ValueError))"

text \<open>The groups, with the possibly converted formats.\<close>

definition get_kv_cache_groups ::
  "(dtype \<Rightarrow> int) \<Rightarrow> VllmConfig \<Rightarrow> (string, KVCacheSpec) dict \<Rightarrow> (KVCacheGroupSpec list \<times> (string, KVCacheSpec) dict) result" where
  "get_kv_cache_groups dsize cfg kv_cache_spec0 =
     rbind (if disable_hybrid_kv_cache_manager cfg then unify_hybrid_kv_cache_specs kv_cache_spec0 else Inr kv_cache_spec0) (\<lambda>kv_cache_spec.
     rbind (if is_kv_cache_type_attention_free kv_cache_spec then Inr []
            else rbind (is_kv_cache_spec_uniform kv_cache_spec) (\<lambda>u.
              if u then groups_uniform_spec kv_cache_spec
              else rbind (uniform_from_specs kv_cache_spec) (\<lambda>us.
                case us of
                  Some (UniformTypeKVCacheSpecs b specs) \<Rightarrow> Inr (groups_uniform_type b specs)
                | _ \<Rightarrow> rbind (unify_kv_cache_spec_page_size dsize kv_cache_spec) groups_uniform_page_size))) (\<lambda>groups.
     Inr (groups, kv_cache_spec)))"

section \<open>Block counts and tensors\<close>

definition get_kv_cache_config_from_groups ::
  "(dtype \<Rightarrow> int) \<Rightarrow> VllmConfig \<Rightarrow> KVCacheGroupSpec list \<Rightarrow> int \<Rightarrow> KVCacheConfig result" where
  "get_kv_cache_config_from_groups dsize cfg groups available_memory =
     (case groups of
        [] \<Rightarrow> Inr \<lparr>num_blocks = 1, kv_cache_tensors = [], kv_cache_groups = []\<rparr>
      | g0 # gs \<Rightarrow>
          (case (gs, g_kv_cache_spec g0) of
             ([], UniformTypeKVCacheSpecs b per_layer_specs) \<Rightarrow>
               rbind (page_size_bytes dsize (g_kv_cache_spec g0)) (\<lambda>page.
                 if page = 0 then Inl ZeroDivisionError
                 else
                   let n = may_override_num_blocks cfg (available_memory div page)
                   in rbind (mmap (\<lambda>layer_name.
                          rbind (dict_item per_layer_specs layer_name) (\<lambda>s.
                          rbind (page_size_bytes dsize s) (\<lambda>p.
                            Inr \<lparr>kt_size = p * n, shared_by = [layer_name]\<rparr>))) (layer_names g0)) (\<lambda>tensors.
                        Inr \<lparr>num_blocks = n, kv_cache_tensors = tensors, kv_cache_groups = groups\<rparr>))
           | _ \<Rightarrow>
               let group_size = Max (set (map (\<lambda>g. length (layer_names g)) groups))
               in rbind (get_uniform_page_size dsize (map g_kv_cache_spec groups)) (\<lambda>page_size.
                    py_assert (group_size > 0)
                      (rbind (get_num_blocks cfg (int group_size) available_memory page_size) (\<lambda>n.
                        Inr \<lparr>num_blocks = n,
                             kv_cache_tensors = map (\<lambda>i. \<lparr>kt_size = page_size * n,
                               shared_by = map (\<lambda>g. layer_names g ! i) (filter (\<lambda>g. i < length (layer_names g)) groups)\<rparr>) [0..<group_size],
                             kv_cache_groups = groups\<rparr>)))))"

definition max_memory_usage_bytes_from_groups :: "(dtype \<Rightarrow> int) \<Rightarrow> VllmConfig \<Rightarrow> KVCacheGroupSpec list \<Rightarrow> int result" where
  "max_memory_usage_bytes_from_groups dsize cfg groups =
     (case groups of
        [] \<Rightarrow> Inr 0
      | g0 # gs \<Rightarrow>
          (case (gs, g_kv_cache_spec g0) of
             ([], UniformTypeKVCacheSpecs b per_layer_specs) \<Rightarrow> sum_max_memory dsize cfg (dict_values per_layer_specs)
           | _ \<Rightarrow>
               let group_size = Max (set (map (\<lambda>g. length (layer_names g)) groups))
               in rbind (get_uniform_page_size dsize (map g_kv_cache_spec groups)) (\<lambda>page_size.
                  rbind (max_memory_usage_bytes dsize cfg (g_kv_cache_spec g0)) (\<lambda>u.
                    if page_size = 0 then Inl ZeroDivisionError
                    else Inr (int group_size * page_size * cdiv u page_size)))))"

definition estimate_max_model_len_from_groups :: "(dtype \<Rightarrow> int) \<Rightarrow> VllmConfig \<Rightarrow> KVCacheGroupSpec list \<Rightarrow> int \<Rightarrow> int result" where
  "estimate_max_model_len_from_groups dsize cfg groups available_memory =
     search_max_len (\<lambda>n. rbind (max_memory_usage_bytes_from_groups dsize (cfg\<lparr>max_model_len := n\<rparr>) groups)
       (\<lambda>u. Inr (u \<le> available_memory))) (max_model_len cfg)"

definition auto_fit_max_model_len :: "(dtype \<Rightarrow> int) \<Rightarrow> VllmConfig \<Rightarrow> KVCacheGroupSpec list \<Rightarrow> int list \<Rightarrow> VllmConfig result" where
  "auto_fit_max_model_len dsize cfg groups available_memory =
     (if groups = [] then Inr cfg
      else if available_memory = [] then Inl ValueError
      else rbind (estimate_max_model_len_from_groups dsize cfg groups (Min (set available_memory))) (\<lambda>auto_fit_max.
        if auto_fit_max \<le> 0 then Inl ValueError
        else if auto_fit_max \<ge> max_model_len cfg then Inr cfg
        else Inr (cfg\<lparr>max_model_len := auto_fit_max\<rparr>)))"

definition generate_scheduler_kv_cache_config :: "KVCacheConfig list \<Rightarrow> KVCacheConfig result" where
  "generate_scheduler_kv_cache_config configs =
     (case configs of
        [] \<Rightarrow> Inl IndexError
      | c0 # cs \<Rightarrow>
          py_assert (\<forall>c \<in> set cs. num_blocks c = num_blocks c0)
            (rbind (mmap (\<lambda>g. case g_kv_cache_spec g of
                       UniformTypeKVCacheSpecs b specs \<Rightarrow>
                         (case specs of [] \<Rightarrow> Inl StopIteration | (_, s) # _ \<Rightarrow> Inr (g\<lparr>g_kv_cache_spec := s\<rparr>))
                     | _ \<Rightarrow> Inr g) (kv_cache_groups c0)) (\<lambda>gs.
               Inr (c0\<lparr>kv_cache_groups := gs\<rparr>))))"

definition get_max_concurrency_for_kv_cache_config :: "(dtype \<Rightarrow> int) \<Rightarrow> VllmConfig \<Rightarrow> KVCacheConfig \<Rightarrow> rat result" where
  "get_max_concurrency_for_kv_cache_config dsize cfg c =
     (case kv_cache_groups c of
        [] \<Rightarrow> Inl ValueError
      | g0 # _ \<Rightarrow>
          let num_layer_per_group = int (Max (set (map (\<lambda>g. length (layer_names g)) (kv_cache_groups c))))
          in rbind (sum_max_memory dsize cfg (map g_kv_cache_spec (kv_cache_groups c))) (\<lambda>u.
             rbind (page_size_bytes dsize (g_kv_cache_spec g0)) (\<lambda>p.
               if p * num_layer_per_group = 0 then Inl ZeroDivisionError
               else
                 let num_block_per_request = cdiv (num_layer_per_group * u) (p * num_layer_per_group)
                 in if num_block_per_request = 0 then Inl ZeroDivisionError
                    else Inr (of_int (num_blocks c) / of_int num_block_per_request))))"

text \<open>The report logs the number of tokens and the concurrency; computing them may raise.\<close>

definition report_kv_cache_config :: "(dtype \<Rightarrow> int) \<Rightarrow> VllmConfig \<Rightarrow> KVCacheConfig \<Rightarrow> (int \<times> rat) result" where
  "report_kv_cache_config dsize cfg c =
     (if kv_cache_groups c = [] then Inl ValueError
      else
        let min_block_size = Min (set (map (\<lambda>g. spec_block_size (g_kv_cache_spec g)) (kv_cache_groups c)));
            tokens = num_blocks c div int (length (kv_cache_groups c)) * min_block_size;
            cp = prefill_context_parallel_size cfg * decode_context_parallel_size cfg;
            tokens = (if cp > 1 then tokens * cp else tokens)
        in rbind (get_max_concurrency_for_kv_cache_config dsize cfg c) (\<lambda>conc. Inr (tokens, conc)))"

definition merge_worker_spec ::
  "string \<times> KVCacheSpec \<Rightarrow> (string, KVCacheSpec) dict \<Rightarrow> (string, KVCacheSpec) dict result" where
  "merge_worker_spec layer merged =
     (case layer of (layer_name, layer_spec) \<Rightarrow>
        (case map_of merged layer_name of
           None \<Rightarrow> Inr (AList.update layer_name layer_spec merged)
         | Some s \<Rightarrow> py_assert (s = layer_spec) (Inr merged)))"

definition worker_groups :: "(string, KVCacheSpec) dict \<Rightarrow> KVCacheGroupSpec list \<Rightarrow> KVCacheGroupSpec list" where
  "worker_groups worker_spec groups =
     map (\<lambda>g. \<lparr>layer_names = filter (\<lambda>n. n \<in> set (dict_keys worker_spec)) (layer_names g), g_kv_cache_spec = g_kv_cache_spec g\<rparr>) groups"

definition shrink_config :: "(dtype \<Rightarrow> int) \<Rightarrow> VllmConfig \<Rightarrow> int \<Rightarrow> KVCacheConfig \<Rightarrow> KVCacheConfig result" where
  "shrink_config dsize cfg min_num_blocks c =
     rbind (mmap (\<lambda>t. if num_blocks c = 0 then Inl ZeroDivisionError
                      else py_assert (kt_size t mod num_blocks c = 0)
                        (Inr (t\<lparr>kt_size := kt_size t div num_blocks c * min_num_blocks\<rparr>))) (kv_cache_tensors c)) (\<lambda>ts.
       let c' = c\<lparr>num_blocks := min_num_blocks, kv_cache_tensors := ts\<rparr>
       in if kv_cache_groups c = [] then Inr c'
          else rbind (report_kv_cache_config dsize cfg c') (\<lambda>_. Inr c'))"

definition get_kv_cache_configs ::
  "(dtype \<Rightarrow> int) \<Rightarrow> VllmConfig \<Rightarrow> (string, KVCacheSpec) dict list \<Rightarrow> int list \<Rightarrow> (KVCacheConfig list \<times> VllmConfig) result" where
  "get_kv_cache_configs dsize cfg0 kv_cache_specs available_memory =
     rbind (mfold (\<lambda>worker. mfold merge_worker_spec worker) kv_cache_specs []) (\<lambda>merged.
     rbind (get_kv_cache_groups dsize cfg0 merged) (\<lambda>(groups, _).
     rbind (if original_max_model_len cfg0 = - 1 then auto_fit_max_model_len dsize cfg0 groups available_memory else Inr cfg0) (\<lambda>cfg.
     rbind (if groups = [] then Inr ()
            else if available_memory = [] then Inl ValueError
            else check_memory (Min (set available_memory)) (max_memory_usage_bytes_from_groups dsize cfg groups)
              (estimate_max_model_len_from_groups dsize cfg groups)) (\<lambda>_.
     rbind (mmap (\<lambda>(worker, mem).
              let gs = worker_groups worker groups
              in py_assert (sum_list (map (\<lambda>g. length (layer_names g)) gs) = length worker)
                   (get_kv_cache_config_from_groups dsize cfg gs mem)) (zip kv_cache_specs available_memory)) (\<lambda>configs.
       if configs = [] then Inl ValueError
       else rbind (mmap (shrink_config dsize cfg (Min (set (map num_blocks configs)))) configs) (\<lambda>cs. Inr (cs, cfg)))))))"

end
