(* ===== verification/Config_Properties.thy ===== *)
theory Config_Properties
  imports KV_Config "HOL-Library.Multiset"
begin

text \<open>
  Correctness of the sizing code: the binary search finds the longest model length that fits, the
  layers are partitioned into groups of one format each, the tensors fit into the memory they
  were computed for, and where the memory check falls short of what it promises.
\<close>

section \<open>Binary search\<close>

lemma search_loop_spec:
  assumes "\<And>n. lo \<le> n \<Longrightarrow> n \<le> hi \<Longrightarrow> fits n = Inr (P n)" "\<And>m n. \<lbrakk>lo \<le> m; m \<le> n; n \<le> hi; P n\<rbrakk> \<Longrightarrow> P m"
    "lo \<le> l" "r \<le> hi" "\<And>n. \<lbrakk>lo \<le> n; n < l; n \<le> hi\<rbrakk> \<Longrightarrow> P n" "\<And>n. r < n \<Longrightarrow> n \<le> hi \<Longrightarrow> \<not> P n" "x = l - 1 \<or> x = lo \<and> l = lo \<and> P lo \<and> lo \<le> hi" "l \<le> r + 1"
  shows "\<exists>y. search_loop fits l r x = Inr y \<and> l - 1 \<le> y \<and> y \<le> r \<and> (\<forall>n. lo \<le> n \<longrightarrow> n \<le> hi \<longrightarrow> (P n \<longleftrightarrow> n \<le> y))"
  using assms(3-)
proof (induction "nat (r + 1 - l)" arbitrary: l r x rule: less_induct)
  case less
  show ?case
  proof (cases "l \<le> r")
    case False
    then have "search_loop fits l r x = Inr x" by (simp add: search_loop.simps[of fits l r x])
    moreover have "r = l - 1" using False less.prems(6) by simp
    moreover have "x = l - 1" using less.prems(4)[of lo] less.prems(5) calculation(2) by auto
    moreover have "P n \<longleftrightarrow> n \<le> l - 1" if "lo \<le> n" "n \<le> hi" for n
      using less.prems(3,4)[of n] calculation(2) that by (cases "n < l") auto
    ultimately show ?thesis by auto
  next
    case True
    let ?m = "(l + r) div 2"
    have m: "l \<le> ?m" "?m \<le> r" using True by auto
    have fm: "fits ?m = Inr (P ?m)" using assms(1)[of ?m] m less.prems by simp
    show ?thesis
    proof (cases "P ?m")
      case True
      have "\<exists>y. search_loop fits (?m + 1) r ?m = Inr y \<and> ?m + 1 - 1 \<le> y \<and> y \<le> r \<and> (\<forall>n. lo \<le> n \<longrightarrow> n \<le> hi \<longrightarrow> (P n \<longleftrightarrow> n \<le> y))"
      proof (rule less.hyps)
        show "P n" if "lo \<le> n" "n < ?m + 1" "n \<le> hi" for n using assms(2)[of n ?m] that True m less.prems by simp
      qed (use m less.prems in auto)
      then show ?thesis using True fm m \<open>l \<le> r\<close> by (auto simp: search_loop.simps[of fits l r x] Let_def)
    next
      case False
      have "\<exists>y. search_loop fits l (?m - 1) x = Inr y \<and> l - 1 \<le> y \<and> y \<le> ?m - 1 \<and> (\<forall>n. lo \<le> n \<longrightarrow> n \<le> hi \<longrightarrow> (P n \<longleftrightarrow> n \<le> y))"
      proof (rule less.hyps)
        show "\<not> P n" if "?m - 1 < n" "n \<le> hi" for n using assms(2)[of ?m n] that False m less.prems by auto
      qed (use m less.prems in auto)
      then show ?thesis using False fm m \<open>l \<le> r\<close> by (auto simp: search_loop.simps[of fits l r x] Let_def)
    qed
  qed
qed

lemma search_max_len_spec:
  assumes "\<And>n. 1 \<le> n \<Longrightarrow> n \<le> hi \<Longrightarrow> fits n = Inr (P n)" "\<And>m n. \<lbrakk>1 \<le> m; m \<le> n; n \<le> hi; P n\<rbrakk> \<Longrightarrow> P m" "1 \<le> hi"
  shows "\<exists>y. search_max_len fits hi = Inr y \<and> 0 \<le> y \<and> y \<le> hi \<and> (\<forall>n. 1 \<le> n \<longrightarrow> n \<le> hi \<longrightarrow> (P n \<longleftrightarrow> n \<le> y))"
proof (cases "P 1")
  case False
  then have "\<not> P n" if "1 \<le> n" "n \<le> hi" for n using assms(2)[of 1 n] that by auto
  then show ?thesis using False assms(1)[of 1] assms(3) by (auto simp: search_max_len_def)
next
  case True
  have "search_max_len fits hi = search_loop fits 1 hi 1" using True assms(1)[of 1] assms(3) by (simp add: search_max_len_def)
  moreover have "\<exists>y. search_loop fits 1 hi 1 = Inr y \<and> 1 - 1 \<le> y \<and> y \<le> hi \<and> (\<forall>n. 1 \<le> n \<longrightarrow> n \<le> hi \<longrightarrow> (P n \<longleftrightarrow> n \<le> y))"
    by (rule search_loop_spec[of 1 hi fits P 1 hi 1]) (use assms True in auto)
  ultimately show ?thesis by simp
qed

section \<open>Memory grows with the model length\<close>

text \<open>
  Sane formats: positive block and page sizes; the sliding-window formula additionally asserts
  that the context is not split over devices.
\<close>

fun spec_sane :: "(dtype \<Rightarrow> int) \<Rightarrow> VllmConfig \<Rightarrow> KVCacheSpec \<Rightarrow> bool" where
  "spec_sane dsize cfg (UniformTypeKVCacheSpecs b ss) \<longleftrightarrow> ss \<noteq> [] \<and> (\<forall>(n, s) \<in> set ss. spec_sane dsize cfg s)"
| "spec_sane dsize cfg s \<longleftrightarrow> 0 < spec_block_size s \<and>
     (case page_size_bytes dsize s of Inl _ \<Rightarrow> False | Inr p \<Rightarrow> 0 < p) \<and>
     (case s of SlidingWindowSpec _ _ \<Rightarrow> decode_context_parallel_size cfg = 1 | _ \<Rightarrow> True)"

definition len_config :: "VllmConfig \<Rightarrow> int \<Rightarrow> VllmConfig" where
  "len_config cfg n = cfg\<lparr>max_model_len := n\<rparr>"

lemma full_len_mono: "m \<le> n \<Longrightarrow> full_max_model_len (len_config cfg m) \<le> full_max_model_len (len_config cfg n)"
  using cdiv_mono by (auto simp: full_max_model_len_def len_config_def Let_def)

lemma mmap_total: "(\<And>x. x \<in> set xs \<Longrightarrow> \<exists>y. f x = Inr y) \<Longrightarrow> \<exists>ys. mmap f xs = Inr ys"
proof (induction xs)
  case (Cons x xs)
  then obtain y ys where "f x = Inr y" "mmap f xs = Inr ys" by (metis list.set_intros)
  then show ?case by simp
qed simp

lemma page_sane: "spec_sane dsize cfg s \<Longrightarrow> \<exists>p. page_size_bytes dsize s = Inr p \<and> 0 < p"
proof (induction s)
  case (UniformTypeKVCacheSpecs b ss)
  have page: "\<exists>p. page_size_bytes dsize s = Inr p \<and> 0 < p" if "(n, s) \<in> set ss" for n s
    using UniformTypeKVCacheSpecs.IH[of "(n, s)" s] UniformTypeKVCacheSpecs.prems that by (auto simp: prod_set_simps)
  have "\<exists>ps. mmap (\<lambda>(n, s). page_size_bytes dsize s) ss = Inr ps"
    by (rule mmap_total) (use page in \<open>auto split: prod.splits\<close>)
  then obtain ps where ps: "mmap (\<lambda>(n, s). page_size_bytes dsize s) ss = Inr ps" by blast
  then have l: "list_all2 (\<lambda>x p. (case x of (n, s) \<Rightarrow> page_size_bytes dsize s) = Inr p) ss ps" by (simp only: mmap_Inr_iff)
  have "\<forall>p \<in> set ps. 0 < p"
  proof
    fix p assume "p \<in> set ps"
    then obtain n s where "(n, s) \<in> set ss" "page_size_bytes dsize s = Inr p"
      using l by (auto simp: list_all2_conv_all_nth in_set_conv_nth split: prod.splits) (metis nth_mem prod.collapse)
    then show "0 < p" using page by fastforce
  qed
  moreover have "ps \<noteq> []" using l UniformTypeKVCacheSpecs.prems by auto
  ultimately have "0 < sum_list ps" by (cases ps) (auto simp: add_pos_nonneg sum_list_nonneg less_imp_le)
  then show ?case using ps by simp
qed (auto split: sum.splits)

text \<open>The worst case of one layer is defined for every length and grows with it.\<close>

lemma max_memory_mono:
  assumes "spec_sane dsize cfg s" "m \<le> n"
  shows "\<exists>u v. max_memory_usage_bytes dsize (len_config cfg m) s = Inr u \<and> max_memory_usage_bytes dsize (len_config cfg n) s = Inr v \<and> u \<le> v"
  using assms(1)
proof (induction s)
  case (UniformTypeKVCacheSpecs b ss)
  let ?g = "\<lambda>k (n :: string, s). rbind (max_memory_usage_bytes dsize (len_config cfg k) s) (\<lambda>u. rbind (page_size_bytes dsize s) (\<lambda>p.
    if p = 0 then Inl ZeroDivisionError else Inr (cdiv u p)))"
  have item: "\<exists>u v. ?g m x = Inr u \<and> ?g n x = Inr v \<and> u \<le> v" if x: "x \<in> set ss" for x
  proof -
    obtain nm s where xs: "x = (nm, s)" by (cases x)
    have sane: "spec_sane dsize cfg s" using UniformTypeKVCacheSpecs.prems x xs by auto
    then obtain u v where "max_memory_usage_bytes dsize (len_config cfg m) s = Inr u" "max_memory_usage_bytes dsize (len_config cfg n) s = Inr v" "u \<le> v"
      using UniformTypeKVCacheSpecs.IH[OF x, of s] xs by (auto simp: prod_set_simps)
    moreover obtain p where "page_size_bytes dsize s = Inr p" "0 < p" using page_sane[OF sane] by blast
    ultimately show ?thesis using cdiv_mono[of p u v] xs by simp
  qed
  have "\<exists>us. mmap (?g m) ss = Inr us" "\<exists>vs. mmap (?g n) ss = Inr vs" by (rule mmap_total; use item in blast)+
  then obtain us vs where uv: "mmap (?g m) ss = Inr us" "mmap (?g n) ss = Inr vs" by blast
  have l: "list_all2 (\<lambda>x u. ?g m x = Inr u) ss us" "list_all2 (\<lambda>x v. ?g n x = Inr v) ss vs"
    using uv by (simp_all only: mmap_Inr_iff)
  have ne: "us \<noteq> []" "vs \<noteq> []" using l UniformTypeKVCacheSpecs.prems by auto
  have "Max (set us) \<le> Max (set vs)"
  proof -
    have "\<exists>v \<in> set vs. u \<le> v" if u: "u \<in> set us" for u
    proof -
      obtain i where i: "i < length us" "us ! i = u" using u by (auto simp: in_set_conv_nth)
      then have "?g m (ss ! i) = Inr u" "?g n (ss ! i) = Inr (vs ! i)" "ss ! i \<in> set ss" "i < length vs"
        using l by (auto simp: list_all2_conv_all_nth)
      then show ?thesis using item[of "ss ! i"] by (metis nth_mem sum.inject(2))
    qed
    then show ?thesis using ne by (meson List.finite_set Max.bounded_iff Max_ge_iff set_empty)
  qed
  moreover obtain p where "page_size_bytes dsize (UniformTypeKVCacheSpecs b ss) = Inr p" "0 < p"
    using page_sane[OF UniformTypeKVCacheSpecs.prems] by blast
  ultimately show ?case using uv ne by (simp add: pages_of_def mult_right_mono)
qed (use assms(2) full_len_mono[OF assms(2), of cfg] in \<open>auto simp: pages_of_def len_config_def intro!: mult_right_mono cdiv_mono split: sum.splits\<close>)

lemma sum_max_memory_mono:
  assumes "\<forall>s \<in> set ss. spec_sane dsize cfg s" "m \<le> n"
  shows "\<exists>u v. sum_max_memory dsize (len_config cfg m) ss = Inr u \<and> sum_max_memory dsize (len_config cfg n) ss = Inr v \<and> u \<le> v"
  using assms(1)
proof (induction ss)
  case (Cons s ss)
  then show ?case using max_memory_mono[of dsize cfg s, OF _ assms(2)]
    by (fastforce simp: sum_max_memory_def rbind_Inr_iff)
qed (simp add: sum_max_memory_def)

text \<open>Groups as the grouping code makes them: sane formats, one page size unless all layers form one group.\<close>

definition groups_sane :: "(dtype \<Rightarrow> int) \<Rightarrow> VllmConfig \<Rightarrow> KVCacheGroupSpec list \<Rightarrow> bool" where
  "groups_sane dsize cfg groups \<longleftrightarrow> groups \<noteq> [] \<and> (\<forall>g \<in> set groups. spec_sane dsize cfg (g_kv_cache_spec g)) \<and>
     (\<exists>p. get_uniform_page_size dsize (map g_kv_cache_spec groups) = Inr p)"

lemma uniform_page_pos:
  assumes "groups_sane dsize cfg groups" "get_uniform_page_size dsize (map g_kv_cache_spec groups) = Inr p"
  shows "0 < p"
proof -
  obtain g gs where g: "groups = g # gs" using assms(1) by (cases groups) (auto simp: groups_sane_def)
  then have "page_size_bytes dsize (g_kv_cache_spec g) = Inr p"
    using assms(2) by (auto simp: get_uniform_page_size_def rbind_Inr_iff)
  then show ?thesis using page_sane[of dsize cfg "g_kv_cache_spec g"] assms(1) g by (auto simp: groups_sane_def)
qed

lemma from_groups_mono:
  assumes "groups_sane dsize cfg groups" "m \<le> n"
  shows "\<exists>u v. max_memory_usage_bytes_from_groups dsize (len_config cfg m) groups = Inr u \<and>
    max_memory_usage_bytes_from_groups dsize (len_config cfg n) groups = Inr v \<and> u \<le> v"
proof -
  obtain g gs where g: "groups = g # gs" using assms(1) by (cases groups) (auto simp: groups_sane_def)
  have sane: "spec_sane dsize cfg (g_kv_cache_spec g)" using assms(1) g by (simp add: groups_sane_def)
  obtain p where p: "get_uniform_page_size dsize (map g_kv_cache_spec groups) = Inr p" "0 < p"
    using assms(1) uniform_page_pos by (auto simp: groups_sane_def)
  show ?thesis
  proof (cases "\<exists>b ss. gs = [] \<and> g_kv_cache_spec g = UniformTypeKVCacheSpecs b ss")
    case True
    then obtain b ss where u: "gs = []" "g_kv_cache_spec g = UniformTypeKVCacheSpecs b ss" by blast
    have "\<forall>s \<in> set (dict_values ss). spec_sane dsize cfg s" using sane u(2) by (auto simp: dict_values_def)
    then show ?thesis using sum_max_memory_mono[OF _ assms(2)] u g by (simp add: max_memory_usage_bytes_from_groups_def)
  next
    case False
    let ?k = "Max (set (map (\<lambda>g. length (layer_names g)) groups))"
    have run: "max_memory_usage_bytes_from_groups dsize c groups =
        rbind (max_memory_usage_bytes dsize c (g_kv_cache_spec g)) (\<lambda>u. Inr (int ?k * p * cdiv u p))" for c
      using p g False by (auto simp: max_memory_usage_bytes_from_groups_def Let_def split: list.splits KVCacheSpec.splits)
    obtain u v where "max_memory_usage_bytes dsize (len_config cfg m) (g_kv_cache_spec g) = Inr u"
      "max_memory_usage_bytes dsize (len_config cfg n) (g_kv_cache_spec g) = Inr v" "u \<le> v"
      using max_memory_mono[OF sane assms(2)] by blast
    then show ?thesis using cdiv_mono[OF p(2)] p(2) by (simp add: run mult_left_mono)
  qed
qed

section \<open>Properties\<close>

text \<open>
  C32 (functional): the automatic model length is the longest that fits. The binary search always ends, and
  its answer \<open>L\<close> separates the lengths from 1 to the configured maximum into those whose memory
  fits and those whose memory does not; auto-fit sets the model length to \<open>L\<close>, and raises exactly
  when not even one token fits.
\<close>

theorem auto_fit_longest:
  assumes sane: "groups_sane dsize cfg groups" and len: "1 \<le> max_model_len cfg" and mem: "mems \<noteq> []"
  shows "\<exists>L. estimate_max_model_len_from_groups dsize cfg groups (Min (set mems)) = Inr L \<and> 0 \<le> L \<and> L \<le> max_model_len cfg \<and>
    (\<forall>n. 1 \<le> n \<longrightarrow> n \<le> max_model_len cfg \<longrightarrow>
       ((\<exists>u. max_memory_usage_bytes_from_groups dsize (cfg\<lparr>max_model_len := n\<rparr>) groups = Inr u \<and> u \<le> Min (set mems)) \<longleftrightarrow> n \<le> L)) \<and>
    auto_fit_max_model_len dsize cfg groups mems = (if L = 0 then Inl ValueError else Inr (cfg\<lparr>max_model_len := L\<rparr>))"
proof -
  let ?mem = "Min (set mems)"
  let ?fits = "\<lambda>n. rbind (max_memory_usage_bytes_from_groups dsize (cfg\<lparr>max_model_len := n\<rparr>) groups) (\<lambda>u. Inr (u \<le> ?mem))"
  let ?P = "\<lambda>n. \<exists>u. max_memory_usage_bytes_from_groups dsize (cfg\<lparr>max_model_len := n\<rparr>) groups = Inr u \<and> u \<le> ?mem"
  have mono: "\<exists>u v. max_memory_usage_bytes_from_groups dsize (cfg\<lparr>max_model_len := m\<rparr>) groups = Inr u \<and>
      max_memory_usage_bytes_from_groups dsize (cfg\<lparr>max_model_len := n\<rparr>) groups = Inr v \<and> u \<le> v" if "m \<le> n" for m n
    using from_groups_mono[OF sane that] by (simp add: len_config_def)
  have "?fits n = Inr (?P n)" for n using mono[of n n] by auto
  moreover have "?P m" if "m \<le> n" "?P n" for m n using mono[OF that(1)] that(2) by auto
  ultimately obtain L where L: "search_max_len ?fits (max_model_len cfg) = Inr L" "0 \<le> L" "L \<le> max_model_len cfg"
    "\<forall>n. 1 \<le> n \<longrightarrow> n \<le> max_model_len cfg \<longrightarrow> (?P n \<longleftrightarrow> n \<le> L)"
    using search_max_len_spec[of "max_model_len cfg" ?fits ?P] len by blast
  have "groups \<noteq> []" using sane by (simp add: groups_sane_def)
  then show ?thesis using L mem by (intro exI[of _ L]) (auto simp: estimate_max_model_len_from_groups_def auto_fit_max_model_len_def)
qed

definition example_attn :: AttentionSpec where
  "example_attn = \<lparr>a_block_size = 16, num_kv_heads = 1, head_size = 1, dtype = ''f16'', page_size_padded = None\<rparr>"

definition example_full_spec :: KVCacheSpec where
  "example_full_spec = FullAttentionSpec example_attn \<lparr>head_size_v = 1, fa_sliding_window = None, fa_attention_chunk_size = None\<rparr>"

definition example_vllm_config :: VllmConfig where
  "example_vllm_config = \<lparr>max_model_len = 160, decode_context_parallel_size = 1, prefill_context_parallel_size = 1,
     max_num_batched_tokens = 80, max_num_encoder_input_tokens = 0, mamba_cache_mode = ''none'',
     num_gpu_blocks_override = None, disable_hybrid_kv_cache_manager = False, original_max_model_len = 160\<rparr>"

definition example_groups :: "KVCacheGroupSpec list" where
  "example_groups = [\<lparr>layer_names = [''full''], g_kv_cache_spec = example_full_spec\<rparr>,
     \<lparr>layer_names = [''sw''], g_kv_cache_spec = SlidingWindowSpec example_attn 80\<rparr>]"

lemma example_groups_sane: "groups_sane (\<lambda>d. 2) example_vllm_config example_groups"
  by (simp add: groups_sane_def example_groups_def example_full_spec_def example_attn_def padded_page_def full_real_page_size_def
      attn_real_page_size_def get_uniform_page_size_def example_vllm_config_def)

theorem auto_fit_longest_witness:
  "\<exists>L. estimate_max_model_len_from_groups (\<lambda>d. 2) example_vllm_config example_groups 640 = Inr L \<and> L \<le> 160"
  using auto_fit_longest[OF example_groups_sane, of "[640]"] by (auto simp: example_vllm_config_def)

lemma pages_fit: "0 \<le> mem \<Longrightarrow> 0 < p \<Longrightarrow> p * (mem div p) \<le> mem" for mem p :: int
  by (metis le_div_iff_mult_le mult.commute order_refl)

lemma general_pages_fit:
  assumes "0 \<le> mem" "0 < p" "0 < k"
  shows "int k * (p * max (mem div p div int k) 0) \<le> mem"
proof -
  have "0 \<le> mem div p div int k" using assms by (simp add: pos_imp_zdiv_nonneg_iff)
  then have "int k * (p * max (mem div p div int k) 0) = p * (int k * (mem div p div int k))" by (simp add: algebra_simps)
  also have "\<dots> \<le> p * (mem div p)" using assms pages_fit[of "mem div p" "int k"] by (simp add: pos_imp_zdiv_nonneg_iff)
  also have "\<dots> \<le> mem" by (rule pages_fit[OF assms(1,2)])
  finally show ?thesis .
qed

text \<open>Pages of the layers of a uniform-type group, and of a selection of them.\<close>

lemma uniform_pages:
  assumes page: "page_size_bytes dsize (UniformTypeKVCacheSpecs b ss) = Inr p"
    and pos: "\<forall>(n, s) \<in> set ss. \<exists>q. page_size_bytes dsize s = Inr q \<and> 0 < q"
    and ss: "distinct (map fst ss)" and ls: "distinct ls" "set ls \<subseteq> set (map fst ss)"
    and run: "mmap (\<lambda>l. rbind (dict_item ss l) (\<lambda>s. rbind (page_size_bytes dsize s) (\<lambda>q. Inr \<lparr>kt_size = q * n, shared_by = [l]\<rparr>))) ls = Inr ts"
    and n: "0 \<le> n"
  shows "sum_list (map kt_size ts) \<le> p * n \<and> map shared_by ts = map (\<lambda>l. [l]) ls \<and>
    (\<forall>i < length ls. \<exists>q. rbind (dict_item ss (ls ! i)) (page_size_bytes dsize) = Inr q \<and> kt_size (ts ! i) = q * n)"
proof -
  define w where "w l = projr (page_size_bytes dsize (the (map_of ss l)))" for l
  have "map (\<lambda>(n, s). page_size_bytes dsize s) ss = map (\<lambda>l. Inr (w l)) (map fst ss)"
  proof (rule nth_equalityI)
    fix i assume i: "i < length (map (\<lambda>(n, s). page_size_bytes dsize s) ss)"
    obtain nm s where x: "ss ! i = (nm, s)" by (cases "ss ! i")
    then have m: "(nm, s) \<in> set ss" using i by (metis length_map nth_mem)
    then have "map_of ss nm = Some s" using ss by simp
    then show "map (\<lambda>(n, s). page_size_bytes dsize s) ss ! i = map (\<lambda>l. Inr (w l)) (map fst ss) ! i"
      using pos m i x by (auto simp: w_def)
  qed simp
  then have "mmap (\<lambda>(n, s). page_size_bytes dsize s) ss = Inr (map w (map fst ss))"
    by (auto simp: mmap_Inr_iff list_all2_conv_all_nth list_eq_iff_nth_eq)
  then have p: "p = sum_list (map w (map fst ss))" using page by simp
  have w: "0 < w l" "page_size_bytes dsize (the (map_of ss l)) = Inr (w l)" "\<exists>s. map_of ss l = Some s" if l: "l \<in> set (map fst ss)" for l
  proof -
    obtain s where "map_of ss l = Some s" "(l, s) \<in> set ss" using l ss by auto
    then show "0 < w l" "page_size_bytes dsize (the (map_of ss l)) = Inr (w l)" "\<exists>s. map_of ss l = Some s" using pos by (auto simp: w_def)
  qed
  have ts: "ts = map (\<lambda>l. \<lparr>kt_size = w l * n, shared_by = [l]\<rparr>) ls"
  proof -
    have "mmap (\<lambda>l. rbind (dict_item ss l) (\<lambda>s. rbind (page_size_bytes dsize s) (\<lambda>q. Inr \<lparr>kt_size = q * n, shared_by = [l]\<rparr>))) ls =
      Inr (map (\<lambda>l. \<lparr>kt_size = w l * n, shared_by = [l]\<rparr>) ls)"
      by (rule mmap_map) (use w ls in \<open>force simp: dict_item_def\<close>)
    then show ?thesis using run by simp
  qed
  have "sum_list (map w ls) \<le> sum_list (map w (map fst ss))"
    using ss ls w(1) by (simp only: sum_list_distinct_conv_sum_set) (intro sum_mono2, auto intro: less_imp_le)
  then have "sum_list (map w ls) * n \<le> p * n" using n p by (simp add: mult_right_mono)
  moreover have "sum_list (map kt_size ts) = sum_list (map w ls) * n" by (simp add: ts o_def sum_list_mult_const)
  moreover have "\<exists>q. rbind (dict_item ss (ls ! i)) (page_size_bytes dsize) = Inr q \<and> kt_size (ts ! i) = q * n" if "i < length ls" for i
  proof -
    have "ls ! i \<in> set (map fst ss)" using that ls(2) by (meson nth_mem subsetD)
    from w(2,3)[OF this] that show ?thesis by (auto simp: ts dict_item_def)
  qed
  ultimately show ?thesis by (simp add: ts)
qed

text \<open>
  The page of a layer: in a model of one group of one attention type the page of the layer's own
  format, otherwise the page of its group's format. The tensors of a worker: the \<open>i\<close>-th tensor is
  shared by the \<open>i\<close>-th layers of the groups and holds one page of each of them per block.
\<close>

definition layer_page :: "(dtype \<Rightarrow> int) \<Rightarrow> KVCacheGroupSpec list \<Rightarrow> KVCacheGroupSpec \<Rightarrow> string \<Rightarrow> int result" where
  "layer_page dsize groups g l =
     (case (groups, g_kv_cache_spec g) of
        ([_], UniformTypeKVCacheSpecs _ per_layer_specs) \<Rightarrow> rbind (dict_item per_layer_specs l) (page_size_bytes dsize)
      | _ \<Rightarrow> page_size_bytes dsize (g_kv_cache_spec g))"

definition tensors_paged :: "(dtype \<Rightarrow> int) \<Rightarrow> KVCacheGroupSpec list \<Rightarrow> int \<Rightarrow> KVCacheTensor list \<Rightarrow> bool" where
  "tensors_paged dsize groups n ts \<longleftrightarrow>
     length ts = Max (set (map (\<lambda>g. length (layer_names g)) groups)) \<and>
     (\<forall>i < length ts. shared_by (ts ! i) = map (\<lambda>g. layer_names g ! i) (filter (\<lambda>g. i < length (layer_names g)) groups) \<and>
        (\<forall>g \<in> set groups. i < length (layer_names g) \<longrightarrow>
           (\<exists>page. layer_page dsize groups g (layer_names g ! i) = Inr page \<and> kt_size (ts ! i) = page * n)))"

lemma uniform_page_all:
  assumes "get_uniform_page_size dsize (map g_kv_cache_spec groups) = Inr p" "g \<in> set groups"
  shows "page_size_bytes dsize (g_kv_cache_spec g) = Inr p"
proof -
  from assms(1) obtain ps where ps: "mmap (page_size_bytes dsize) (map g_kv_cache_spec groups) = Inr ps" "length (remdups ps) = 1" "p = hd ps"
    by (auto simp: get_uniform_page_size_def rbind_Inr_iff)
  obtain x where "remdups ps = [x]" using ps(2) by (cases "remdups ps") auto
  then have "set ps = {x}" by (metis list.set(1,2) set_remdups)
  then have "\<forall>y \<in> set ps. y = p" using ps(3) by (cases ps) auto
  moreover obtain i where "i < length groups" "g = groups ! i" using assms(2) by (metis in_set_conv_nth)
  ultimately show ?thesis using ps(1) by (fastforce simp: mmap_Inr_iff list_all2_conv_all_nth)
qed

lemma uniform_tensors_fit:
  assumes sane: "groups_sane dsize cfg groups" and cfg: "num_gpu_blocks_override cfg = None" and mem: "0 \<le> mem"
    and names: "\<forall>g \<in> set groups. \<forall>b ss. g_kv_cache_spec g = UniformTypeKVCacheSpecs b ss \<longrightarrow>
      distinct (map fst ss) \<and> distinct (layer_names g) \<and> set (layer_names g) \<subseteq> set (map fst ss)"
    and run: "get_kv_cache_config_from_groups dsize cfg groups mem = Inr c"
    and g: "groups = g # gs" and u: "gs = []" "g_kv_cache_spec g = UniformTypeKVCacheSpecs b ss"
  shows "0 \<le> num_blocks c \<and> sum_list (map kt_size (kv_cache_tensors c)) \<le> mem \<and>
    tensors_paged dsize groups (num_blocks c) (kv_cache_tensors c)"
proof -
  have sp: "spec_sane dsize cfg (UniformTypeKVCacheSpecs b ss)" using sane u g by (auto simp: groups_sane_def)
  then obtain p where p: "page_size_bytes dsize (UniformTypeKVCacheSpecs b ss) = Inr p" "0 < p" using page_sane by blast
  let ?n = "mem div p"
  have n: "0 \<le> ?n" using mem p(2) by (simp add: pos_imp_zdiv_nonneg_iff)
  obtain ts where ts: "mmap (\<lambda>l. rbind (dict_item ss l) (\<lambda>s. rbind (page_size_bytes dsize s) (\<lambda>q. Inr \<lparr>kt_size = q * ?n, shared_by = [l]\<rparr>))) (layer_names g) = Inr ts"
    "num_blocks c = ?n" "kv_cache_tensors c = ts"
    using run g u p cfg by (auto simp: get_kv_cache_config_from_groups_def may_override_num_blocks_def Let_def rbind_Inr_iff)
  have "\<forall>(n, s) \<in> set ss. \<exists>q. page_size_bytes dsize s = Inr q \<and> 0 < q" using sp page_sane by fastforce
  from uniform_pages[OF p(1) this _ _ _ ts(1) n] names g u
  have u': "sum_list (map kt_size ts) \<le> p * ?n" "map shared_by ts = map (\<lambda>l. [l]) (layer_names g)"
    "\<forall>i < length (layer_names g). \<exists>q. rbind (dict_item ss (layer_names g ! i)) (page_size_bytes dsize) = Inr q \<and> kt_size (ts ! i) = q * ?n"
    by auto
  have l: "length ts = length (layer_names g)" by (rule map_eq_imp_length_eq[OF u'(2)])
  have "shared_by (ts ! i) = [layer_names g ! i]" if "i < length ts" for i
    using arg_cong[OF u'(2), of "\<lambda>xs. xs ! i"] that l by simp
  then have "tensors_paged dsize groups ?n ts" using u'(3) l by (simp add: tensors_paged_def g u layer_page_def)
  then show ?thesis using n ts(2,3) u'(1) pages_fit[OF mem p(2)] by auto
qed

text \<open>
  C33 (bounds): the tensors of a worker fit into its memory. When the block count is not overridden
  (\<^verbatim>\<open>num_gpu_blocks_override\<close> is None), the memory is not negative and the formats of the groups have
  positive pages, one size for all groups, then the block count is not negative, the tensors together
  take no more than the available memory, and the \<open>i\<close>-th tensor is shared by the \<open>i\<close>-th layers of all
  groups and its size is the page size of each of them times the number of blocks.
\<close>

theorem tensors_fit_memory:
  assumes sane: "groups_sane dsize cfg groups" and cfg: "num_gpu_blocks_override cfg = None" and mem: "0 \<le> mem"
    and names: "\<forall>g \<in> set groups. \<forall>b ss. g_kv_cache_spec g = UniformTypeKVCacheSpecs b ss \<longrightarrow>
      distinct (map fst ss) \<and> distinct (layer_names g) \<and> set (layer_names g) \<subseteq> set (map fst ss)"
    and run: "get_kv_cache_config_from_groups dsize cfg groups mem = Inr c"
  shows "0 \<le> num_blocks c \<and> sum_list (map kt_size (kv_cache_tensors c)) \<le> mem \<and>
    tensors_paged dsize groups (num_blocks c) (kv_cache_tensors c)"
proof -
  obtain g gs where g: "groups = g # gs" using sane by (cases groups) (auto simp: groups_sane_def)
  show ?thesis
  proof (cases "\<exists>b ss. gs = [] \<and> g_kv_cache_spec g = UniformTypeKVCacheSpecs b ss")
    case True
    then show ?thesis using uniform_tensors_fit[OF sane cfg mem names run g] by blast
  next
    case False
    let ?k = "Max (set (map (\<lambda>g. length (layer_names g)) groups))"
    obtain p where p: "get_uniform_page_size dsize (map g_kv_cache_spec groups) = Inr p" "0 < p"
      using sane uniform_page_pos by (auto simp: groups_sane_def)
    let ?n = "max (mem div p div int ?k) 0"
    have "py_assert (?k > 0) (rbind (get_num_blocks cfg (int ?k) mem p) (\<lambda>n.
        Inr \<lparr>num_blocks = n, kv_cache_tensors = map (\<lambda>i. \<lparr>kt_size = p * n,
          shared_by = map (\<lambda>g. layer_names g ! i) (filter (\<lambda>g. i < length (layer_names g)) groups)\<rparr>) [0..<?k], kv_cache_groups = groups\<rparr>)) = Inr c"
      using run False p(1) unfolding get_kv_cache_config_from_groups_def g
      by (cases gs; cases "g_kv_cache_spec g"; simp only: list.case prod.case KVCacheSpec.case Let_def rbind_simps) auto
    then have k: "0 < ?k" "num_blocks c = ?n" "kv_cache_tensors c = map (\<lambda>i. \<lparr>kt_size = p * ?n,
        shared_by = map (\<lambda>g. layer_names g ! i) (filter (\<lambda>g. i < length (layer_names g)) groups)\<rparr>) [0..<?k]"
      using p(2) cfg by (auto simp: get_num_blocks_def may_override_num_blocks_def simp del: list.map list.set Max_insert)
    have "map kt_size (kv_cache_tensors c) = replicate ?k (p * ?n)" by (simp add: k(3) o_def map_replicate_const del: list.map list.set Max_insert)
    then have "sum_list (map kt_size (kv_cache_tensors c)) = int ?k * (p * ?n)" by (simp add: sum_list_replicate)
    moreover have "layer_page dsize groups g' l = page_size_bytes dsize (g_kv_cache_spec g')" if "g' \<in> set groups" for g' l
      using False that g by (auto simp: layer_page_def split: list.splits KVCacheSpec.splits)
    then have "tensors_paged dsize groups ?n (kv_cache_tensors c)"
      using uniform_page_all[OF p(1)] unfolding tensors_paged_def k(3) by (simp del: list.map list.set Max_insert)
    ultimately show ?thesis using k(2) general_pages_fit[OF mem p(2) k(1)] by auto
  qed
qed

theorem tensors_fit_memory_witness:
  "case get_kv_cache_config_from_groups (\<lambda>d. 2) example_vllm_config example_groups 650 of
     Inl e \<Rightarrow> False | Inr c \<Rightarrow> num_blocks c = 10 \<and> sum_list (map kt_size (kv_cache_tensors c)) \<le> 650 \<and>
       shared_by (kv_cache_tensors c ! 0) = [''full'', ''sw'']"
proof -
  have run: "get_kv_cache_config_from_groups (\<lambda>d. 2) example_vllm_config example_groups 650 =
      Inr (projr (get_kv_cache_config_from_groups (\<lambda>d. 2) example_vllm_config example_groups 650))"
    "num_blocks (projr (get_kv_cache_config_from_groups (\<lambda>d. 2) example_vllm_config example_groups 650)) = 10"
    by code_simp+
  from tensors_fit_memory[OF example_groups_sane _ _ _ run(1)] run show ?thesis
    by (auto simp: example_vllm_config_def example_groups_def example_full_spec_def tensors_paged_def split: sum.splits)
qed

text \<open>
  The memory check of a hybrid model only counts the blocks of its first group. With one full
  and one sliding-window layer and memory for ten blocks the configuration is accepted for a
  model length of 160 tokens, although one such request needs ten blocks for the first group
  and eleven for the second; the concurrency computed for the same configuration is 10/21.
\<close>

theorem memory_check_ignores_other_groups:
  "case get_kv_cache_configs (\<lambda>d. 2) example_vllm_config
      [[(''full'', example_full_spec), (''sw'', SlidingWindowSpec example_attn 80)]] [640] of
     Inr (cs, cfg) \<Rightarrow> map num_blocks cs = [10] \<and> max_model_len cfg = 160 \<and>
       map (get_max_concurrency_for_kv_cache_config (\<lambda>d. 2) cfg) cs = [Inr (10 / 21)]
   | Inl e \<Rightarrow> False"
  by code_simp

section \<open>Partition of the layers\<close>

lemma mset_buckets:
  fixes f :: "'a \<Rightarrow> nat"
  assumes "\<forall>j \<in> set l. f j < k"
  shows "mset (concat (map (\<lambda>i. filter (\<lambda>j. f j = i) l) [0..<k])) = mset l"
  using assms
proof (induction l)
  case (Cons a l)
  have one: "mset (concat (map (\<lambda>i. if f a = i then [a] else []) is)) = (if f a \<in> set is then {#a#} else {#})" if "distinct is" for "is"
    using that by (induction "is") auto
  have app: "mset (concat (map (\<lambda>i. g i @ h i) is)) = mset (concat (map g is)) + mset (concat (map h is))" for g h :: "nat \<Rightarrow> 'a list" and "is"
    by (induction "is") auto
  have "(\<lambda>i. filter (\<lambda>j. f j = i) (a # l)) = (\<lambda>i. (if f a = i then [a] else []) @ filter (\<lambda>j. f j = i) l)" by auto
  then show ?case using Cons one[of "[0..<k]"] app by simp
qed (induction k, auto)

lemma stride_mod: "i < k \<Longrightarrow> (i \<le> j \<and> (j - i) mod k = 0) \<longleftrightarrow> j mod k = i" for i j k :: nat
proof
  assume i: "i < k" and j: "i \<le> j \<and> (j - i) mod k = 0"
  then obtain q where "j - i = k * q" by auto
  then have "j = i + k * q" using j by simp
  then show "j mod k = i" using i by simp
next
  assume "i < k" and j: "j mod k = i"
  then show "i \<le> j \<and> (j - i) mod k = 0" by (metis dvd_eq_mod_eq_0 dvd_minus_mod mod_less_eq_dividend)
qed

lemma py_stride_alt: "i < k \<Longrightarrow> py_stride xs i k = map (\<lambda>j. xs ! j) (filter (\<lambda>j. j mod k = i) [0..<length xs])"
  unfolding py_stride_def by (simp only: stride_mod)

lemma mset_strides: "0 < k \<Longrightarrow> mset (concat (map (\<lambda>i. py_stride xs i k) [0..<k])) = mset xs"
proof -
  assume k: "0 < k"
  have "concat (map (\<lambda>i. py_stride xs i k) [0..<k]) = map (\<lambda>j. xs ! j) (concat (map (\<lambda>i. filter (\<lambda>j. j mod k = i) [0..<length xs]) [0..<k]))"
    unfolding map_concat map_map o_def by (intro arg_cong[of _ _ concat] map_cong refl) (simp add: py_stride_alt)
  then have "mset (concat (map (\<lambda>i. py_stride xs i k) [0..<k])) = image_mset (\<lambda>j. xs ! j) (mset [0..<length xs])"
    using mset_buckets[of "[0..<length xs]" "\<lambda>j. j mod k" k] k by (simp only: mset_map) (simp add: mset_map)
  also have "\<dots> = mset xs" by (metis map_nth mset_map)
  finally show ?thesis .
qed

lemma length_stride:
  assumes "i < k" "length xs \<le> k * g"
  shows "length (py_stride xs i k) \<le> g"
proof -
  let ?A = "{j. j < length xs \<and> j mod k = i}"
  have "length (py_stride xs i k) = card ?A"
    using distinct_card[of "filter (\<lambda>j. j mod k = i) [0..<length xs]"] assms(1) by (simp add: py_stride_alt)
  also have "\<dots> \<le> card {..<g}"
  proof (rule card_inj_on_le[of "\<lambda>j. j div k"])
    show "inj_on (\<lambda>j. j div k) ?A" by (rule inj_onI) (metis (mono_tags, lifting) div_mult_mod_eq mem_Collect_eq)
    show "(\<lambda>j. j div k) ` ?A \<subseteq> {..<g}"
    proof
      fix q assume "q \<in> (\<lambda>j. j div k) ` ?A"
      then obtain j where "q = j div k" "j < k * g" using assms(2) by auto
      then show "q \<in> {..<g}" using assms(1) by (simp add: less_mult_imp_div_less mult.commute)
    qed
  qed simp
  finally show ?thesis by simp
qed

text \<open>Collecting the layers by format.\<close>

definition types_ok :: "(string, KVCacheSpec) dict \<Rightarrow> (KVCacheSpec, string list) dict \<Rightarrow> bool" where
  "types_ok kv d \<longleftrightarrow> distinct (map fst d) \<and> mset (concat (map snd d)) = mset (map fst kv) \<and>
     (\<forall>(s, ns) \<in> set d. ns \<noteq> [] \<and> (\<forall>n \<in> set ns. (n, s) \<in> set kv))"

lemma mset_concat_update:
  assumes "distinct (map fst d)"
  shows "mset (concat (map snd (AList.update k (v @ [x]) d))) =
    add_mset x (mset v + mset (concat (map snd d)) - mset (case map_of d k of None \<Rightarrow> [] | Some u \<Rightarrow> u))"
  using assms
proof (induction d)
  case (Cons a d)
  show ?case
  proof (cases "fst a = k")
    case True
    then show ?thesis by (cases a) simp
  next
    case False
    have "mset (case map_of d k of None \<Rightarrow> [] | Some u \<Rightarrow> u) \<subseteq># mset (concat (map snd d))"
    proof (cases "map_of d k")
      case (Some u)
      then obtain xs ys where "d = xs @ (k, u) # ys" by (meson map_of_SomeD split_list)
      then show ?thesis using Some by simp
    qed simp
    note sub = multiset_diff_union_assoc[OF this]
    have "mset v + (mset (snd a) + mset (concat (map snd d))) - mset (case map_of d k of None \<Rightarrow> [] | Some u \<Rightarrow> u) =
      mset (snd a) + (mset v + mset (concat (map snd d)) - mset (case map_of d k of None \<Rightarrow> [] | Some u \<Rightarrow> u))"
      using sub[of "mset v + mset (snd a)"] sub[of "mset v"] by (simp add: ac_simps)
    then show ?thesis using Cons False by (cases a) simp
  qed
qed simp

lemma add_layer_ok:
  assumes "types_ok kv d"
  shows "types_ok (kv @ [(n, s)]) (add_layer (n, s) d)"
proof -
  let ?l = "case map_of d s of None \<Rightarrow> [] | Some l \<Rightarrow> l"
  have d: "distinct (map fst d)" "mset (concat (map snd d)) = mset (map fst kv)"
    "\<And>s ns. (s, ns) \<in> set d \<Longrightarrow> ns \<noteq> [] \<and> (\<forall>n \<in> set ns. (n, s) \<in> set kv)" using assms by (auto simp: types_ok_def)
  have "mset (concat (map snd (AList.update s (?l @ [n]) d))) = add_mset n (mset (map fst kv))"
    using mset_concat_update[OF d(1), of s ?l n] d(2) by simp
  moreover have "ns \<noteq> [] \<and> (\<forall>m \<in> set ns. (m, t) \<in> set (kv @ [(n, s)]))" if "(t, ns) \<in> set (AList.update s (?l @ [n]) d)" for t ns
  proof -
    have "map_of (AList.update s (?l @ [n]) d) t = Some ns" using that d(1) by (simp add: AList.distinct_update)
    then show ?thesis using d(3)[of s "the (map_of d s)"] d(3)[of t ns] map_of_SomeD[of d]
      by (cases "t = s"; cases "map_of d s") (auto simp: map_of_update)
  qed
  then have "\<forall>(t, ns) \<in> set (AList.update s (?l @ [n]) d). ns \<noteq> [] \<and> (\<forall>m \<in> set ns. (m, t) \<in> set (kv @ [(n, s)]))" by blast
  ultimately show ?thesis using d(1) by (simp add: types_ok_def add_layer_def AList.distinct_update)
qed

lemma same_type_layers_ok: "types_ok kv (same_type_layers kv)"
proof -
  have "types_ok (pre @ kv) (fold add_layer kv d)" if "types_ok pre d" for pre d
    using that
  proof (induction kv arbitrary: pre d)
    case (Cons x kv)
    then show ?case using add_layer_ok[of pre d "fst x" "snd x"] Cons.IH[of "pre @ [x]"] by simp
  qed simp
  from this[of "[]" "[]"] show ?thesis by (simp add: types_ok_def same_type_layers_def)
qed

lemma split_layers_ok:
  assumes "layers \<noteq> []" "0 < g"
  shows "mset (concat (split_layers g layers)) = mset layers" "\<forall>l \<in> set (split_layers g layers). l \<noteq> [] \<and> length l \<le> g \<and> set l \<subseteq> set layers"
proof -
  define k where "k = nat (cdiv (int (length layers)) (int g))"
  have pos: "0 < int (length layers)" using assms(1) by simp
  have "int (length layers) \<le> cdiv (int (length layers)) (int g) * int g" using cdiv_ge assms(2) by simp
  then have ck: "0 < cdiv (int (length layers)) (int g)" using pos by (metis mult_nonpos_nonneg not_le of_nat_0_le_iff order_trans)
  then have ik: "int k = cdiv (int (length layers)) (int g)" by (simp add: k_def)
  have "int (length layers) \<le> int k * int g" unfolding ik by (rule cdiv_ge) (use assms(2) in simp)
  then have k: "0 < k" "length layers \<le> k * g" using ik ck by (simp, metis of_nat_le_iff of_nat_mult)
  have "cdiv (int (length layers)) (int g) \<le> int (length layers)"
    using assms(2) pos by (subst cdiv_le_iff) (simp_all add: mult_le_cancel_left1)
  then have kl: "k \<le> length layers" by (simp add: k_def)
  have sp: "split_layers g layers = map (\<lambda>i. py_stride layers i k) [0..<k]" by (simp add: split_layers_def k_def Let_def)
  show m: "mset (concat (split_layers g layers)) = mset layers" unfolding sp by (rule mset_strides[OF k(1)])
  show "\<forall>l \<in> set (split_layers g layers). l \<noteq> [] \<and> length l \<le> g \<and> set l \<subseteq> set layers"
  proof
    fix l assume l: "l \<in> set (split_layers g layers)"
    then obtain i where i: "i < k" "l = py_stride layers i k" by (auto simp: sp)
    have "i \<in> set (filter (\<lambda>j. j mod k = i) [0..<length layers])" using i kl by simp
    then have "l \<noteq> []" unfolding i(2) py_stride_alt[OF i(1)] by force
    moreover have "length l \<le> g" unfolding i(2) by (rule length_stride[OF i(1) k(2)])
    moreover have "set l \<subseteq> set layers" using l m by (metis UN_I set_concat set_mset_mset subsetI)
    ultimately show "l \<noteq> [] \<and> length l \<le> g \<and> set l \<subseteq> set layers" by blast
  qed
qed

lemma created_groups:
  assumes "create_kv_cache_group_specs kv names = Inr gs"
  shows "map layer_names gs = names"
  using assms by (induction names arbitrary: gs) (auto simp: create_kv_cache_group_specs_def rbind_Inr_iff)

text \<open>One format per group, groups of at most \<open>k\<close> layers.\<close>

definition one_format :: "(string, KVCacheSpec) dict \<Rightarrow> nat \<Rightarrow> string list \<Rightarrow> bool" where
  "one_format kv k names \<longleftrightarrow> names \<noteq> [] \<and> length names \<le> k \<and> (\<exists>s. \<forall>n \<in> set names. (n, s) \<in> set kv)"

text \<open>
  The group size: the least number of layers of a format, unless the largest number is less than
  1.25 times that, then the largest one.
\<close>

definition format_count :: "(string, KVCacheSpec) dict \<Rightarrow> KVCacheSpec \<Rightarrow> nat" where
  "format_count kv s = length (filter (\<lambda>p. snd p = s) kv)"

definition balanced_size :: "(string, KVCacheSpec) dict \<Rightarrow> nat" where
  "balanced_size kv =
     (let counts = format_count kv ` snd ` set kv in if 4 * Max counts < 5 * Min counts then Max counts else Min counts)"

lemma same_type_lookup:
  "map_of (same_type_layers kv) s = (if s \<in> snd ` set kv then Some (map fst (filter (\<lambda>p. snd p = s) kv)) else None)"
proof -
  have "map_of (fold add_layer kv d) s =
      (if s \<in> snd ` set kv then Some ((case map_of d s of None \<Rightarrow> [] | Some l \<Rightarrow> l) @ map fst (filter (\<lambda>p. snd p = s) kv)) else map_of d s)" for d
    by (induction kv arbitrary: d) (auto simp: add_layer_def map_of_update filter_empty_conv rev_image_eqI split: option.splits)
  from this[of "[]"] show ?thesis by (simp add: same_type_layers_def)
qed

lemma same_type_counts:
  fixes kv :: "(string, KVCacheSpec) dict"
  defines "d \<equiv> same_type_layers kv"
  shows "distinct (map fst d)" "fst ` set d = snd ` set kv" "(s, ns) \<in> set d \<Longrightarrow> length ns = format_count kv s"
proof -
  show k: "distinct (map fst d)" using same_type_layers_ok by (simp add: d_def types_ok_def)
  show "fst ` set d = snd ` set kv"
    using same_type_lookup[of kv] unfolding d_def by (metis (no_types) domIff dom_map_of_conv_image_fst option.distinct(1) set_eqI)
  show "length ns = format_count kv s" if "(s, ns) \<in> set d"
    using map_of_is_SomeI[OF k that] same_type_lookup[of kv s] by (auto simp: d_def format_count_def split: if_splits)
qed

lemma chosen_group_size: "choose_group_size (map length (dict_values (same_type_layers kv))) = balanced_size kv"
proof -
  have "set (map length (dict_values (same_type_layers kv))) = format_count kv ` fst ` set (same_type_layers kv)"
    using same_type_counts(3)[of _ _ kv] by (force simp: dict_values_def image_image intro!: image_cong)
  then show ?thesis by (simp add: choose_group_size_def balanced_size_def same_type_counts(2) Let_def)
qed

lemma number_of_groups:
  "length (concat (map (split_layers k) (dict_values (same_type_layers kv)))) =
     (\<Sum>s\<in>snd ` set kv. nat (cdiv (int (format_count kv s)) (int k)))"
proof -
  let ?d = "same_type_layers kv"
  have "length (concat (map (split_layers k) (dict_values ?d))) = sum_list (map (\<lambda>p. nat (cdiv (int (length (snd p))) (int k))) ?d)"
    by (simp add: length_concat dict_values_def split_layers_def Let_def o_def)
  also have "\<dots> = sum_list (map (\<lambda>s. nat (cdiv (int (format_count kv s)) (int k))) (map fst ?d))"
    using same_type_counts(3)[of _ _ kv] by (simp add: o_def) (metis (mono_tags, lifting) map_cong prod.collapse)
  finally show ?thesis using same_type_counts(1,2)[of kv] by (simp only: sum_list_distinct_conv_sum_set list.set_map)
qed

lemma groups_uniform_page_size_ok:
  assumes "groups_uniform_page_size kv = Inr gs"
  shows "mset (concat (map layer_names gs)) = mset (map fst kv) \<and> (\<forall>g \<in> set gs. one_format kv (balanced_size kv) (layer_names g)) \<and>
    length gs = (\<Sum>s\<in>snd ` set kv. nat (cdiv (int (format_count kv s)) (int (balanced_size kv))))"
proof -
  define d where "d = same_type_layers kv"
  define k where "k = balanced_size kv"
  have cs: "choose_group_size (map length (dict_values d)) = k" by (simp add: d_def k_def chosen_group_size)
  have ok: "types_ok kv d" using same_type_layers_ok by (simp add: d_def)
  have ne: "dict_values d \<noteq> []" and gs: "map layer_names gs = concat (map (split_layers k) (dict_values d))"
    using assms created_groups cs by (auto simp: groups_uniform_page_size_def Let_def d_def split: if_splits)
  have vals: "ns \<noteq> [] \<and> (\<exists>s. \<forall>n \<in> set ns. (n, s) \<in> set kv)" if ns: "ns \<in> set (dict_values d)" for ns
  proof -
    obtain s where "(s, ns) \<in> set d" using ns by (auto simp: dict_values_def)
    then show ?thesis using ok unfolding types_ok_def by fast
  qed
  have "\<forall>l \<in> set (map length (dict_values d)). 0 < l" using vals by auto
  then have k: "0 < k" using ne by (cases "dict_values d") (auto simp: cs[symmetric] choose_group_size_def Let_def Min_gr_iff Max_gr_iff)
  have "mset (concat (concat (map (split_layers k) ls))) = mset (concat ls)" if "\<forall>l \<in> set ls. l \<noteq> []" for ls
    using that split_layers_ok(1)[OF _ k] by (induction ls) auto
  then have "mset (concat (map layer_names gs)) = mset (concat (dict_values d))" using vals gs by simp
  moreover have "one_format kv k (layer_names g)" if "g \<in> set gs" for g
  proof -
    have "layer_names g \<in> set (concat (map (split_layers k) (dict_values d)))" using that gs by (metis image_eqI set_map)
    then obtain ns where ns: "ns \<in> set (dict_values d)" "layer_names g \<in> set (split_layers k ns)" by auto
    then show ?thesis using split_layers_ok(2)[OF _ k, of ns] vals[OF ns(1)] by (auto simp: one_format_def)
  qed
  moreover have "length gs = (\<Sum>s\<in>snd ` set kv. nat (cdiv (int (format_count kv s)) (int k)))"
    using arg_cong[OF gs, of length] number_of_groups[of k kv] by (simp add: d_def)
  ultimately show ?thesis using ok by (auto simp: types_ok_def dict_values_def k_def)
qed

lemma unify_page_keys: "unify_kv_cache_spec_page_size dsize kv = Inr kv' \<Longrightarrow> map fst kv' = map fst kv"
proof -
  have "mmap (unify_layer dsize p) kv = Inr kv' \<Longrightarrow> map fst kv' = map fst kv" for p kv kv'
    by (induction kv arbitrary: kv') (auto simp: rbind_Inr_iff unify_layer_def Let_def split: if_splits)
  then show "unify_kv_cache_spec_page_size dsize kv = Inr kv' \<Longrightarrow> map fst kv' = map fst kv"
    by (auto simp: unify_kv_cache_spec_page_size_def rbind_Inr_iff split: if_splits)
qed

lemma unify_hybrid_keys: "unify_hybrid_kv_cache_specs kv = Inr kv' \<Longrightarrow> map fst kv' = map fst kv"
  by (auto simp: unify_hybrid_kv_cache_specs_def rbind_Inr_iff Let_def o_def case_prod_unfold split: if_splits)

lemma uniform_from_specs_cases: "uniform_from_specs kv = Inr us \<Longrightarrow> us = None \<or> (\<exists>b. us = Some (UniformTypeKVCacheSpecs b kv))"
  by (cases kv) (auto simp: uniform_from_specs_def rbind_Inr_iff split: if_splits)

text \<open>The four ways of grouping.\<close>

lemma get_kv_cache_groups_cases:
  assumes run: "get_kv_cache_groups dsize cfg kv = Inr (gs, kv')"
  obtains (free) "kv' = []" "gs = []"
    | (spec) "kv' \<noteq> []" "groups_uniform_spec kv' = Inr gs"
    | (type) b where "kv' \<noteq> []" "gs = groups_uniform_type b kv'"
    | (page) kv2 where "unify_kv_cache_spec_page_size dsize kv' = Inr kv2" "groups_uniform_page_size kv2 = Inr gs"
proof (cases "kv' = []")
  case True
  then show thesis using free run by (auto simp: get_kv_cache_groups_def rbind_Inr_iff is_kv_cache_type_attention_free_def)
next
  case False
  obtain u where u: "is_kv_cache_spec_uniform kv' = Inr u"
    "(if u then groups_uniform_spec kv'
      else rbind (uniform_from_specs kv') (\<lambda>us. case us of
              Some (UniformTypeKVCacheSpecs b specs) \<Rightarrow> Inr (groups_uniform_type b specs)
            | _ \<Rightarrow> rbind (unify_kv_cache_spec_page_size dsize kv') groups_uniform_page_size)) = Inr gs"
    using run False by (auto simp: get_kv_cache_groups_def rbind_Inr_iff is_kv_cache_type_attention_free_def)
  show thesis
  proof (cases u)
    case True
    then show thesis using spec[OF False] u by simp
  next
    case notu: False
    then obtain us where us: "uniform_from_specs kv' = Inr us" using u(2) by (auto simp: rbind_Inr_iff)
    then show thesis using u(2) notu uniform_from_specs_cases[OF us] type[OF False] page by (auto simp: rbind_Inr_iff)
  qed
qed

text \<open>
  C34 (functional): grouping is a partition. Whatever path the code takes (one format, one attention type,
  hybrid with unified page sizes, hybrid manager disabled), every layer of the model is in exactly
  one group and no group is empty. With more than one group, after page-size unification the layers of
  a group have one format; no group has more layers than the least number of layers of a format (or
  the largest such number, when that is less than 1.25 times the least); and each format is split
  into as few groups as that size allows.
\<close>

theorem layers_partitioned:
  assumes run: "get_kv_cache_groups dsize cfg kv = Inr (gs, kv')"
  shows "mset (concat (map layer_names gs)) = mset (dict_keys kv) \<and> (\<forall>g \<in> set gs. layer_names g \<noteq> []) \<and>
    (1 < length gs \<longrightarrow> (\<exists>kv2. unify_kv_cache_spec_page_size dsize kv' = Inr kv2 \<and>
       (\<forall>g \<in> set gs. one_format kv2 (balanced_size kv2) (layer_names g)) \<and>
       length gs = (\<Sum>s\<in>snd ` set kv2. nat (cdiv (int (format_count kv2 s)) (int (balanced_size kv2))))))"
proof -
  have keys: "map fst kv' = map fst kv" using run unify_hybrid_keys by (auto simp: get_kv_cache_groups_def rbind_Inr_iff split: if_splits)
  from run show ?thesis
  proof (cases rule: get_kv_cache_groups_cases)
    case free
    then show ?thesis using keys by (simp add: dict_keys_def)
  next
    case spec
    then have "map layer_names gs = [map fst kv']" using created_groups by (simp add: groups_uniform_spec_def dict_keys_def)
    then have "length gs = 1" "concat (map layer_names gs) = map fst kv'" "\<forall>g \<in> set gs. layer_names g = map fst kv'"
      by (metis length_map length_Cons list.size(3) One_nat_def, simp, force)
    moreover have "kv \<noteq> []" using spec(1) keys by auto
    ultimately show ?thesis using keys by (simp add: dict_keys_def)
  next
    case type
    moreover have "kv \<noteq> []" using type(1) keys by auto
    ultimately show ?thesis using keys by (simp add: groups_uniform_type_def dict_keys_def)
  next
    case page
    then show ?thesis using groups_uniform_page_size_ok[OF page(2)] unify_page_keys[OF page(1)] keys
      by (auto simp: dict_keys_def one_format_def)
  qed
qed

theorem layers_partitioned_witness:
  "case get_kv_cache_groups (\<lambda>d. 2) example_vllm_config [(''full'', example_full_spec), (''sw'', SlidingWindowSpec example_attn 80)] of
     Inl e \<Rightarrow> False | Inr (gs, _) \<Rightarrow> length gs = 2 \<and> mset (concat (map layer_names gs)) = {#''full'', ''sw''#}"
proof -
  let ?r = "get_kv_cache_groups (\<lambda>d. 2) example_vllm_config [(''full'', example_full_spec), (''sw'', SlidingWindowSpec example_attn 80)]"
  have r: "map_sum id (\<lambda>(gs, _). length gs) ?r = Inr 2" by code_simp
  then obtain gs kv' where "?r = Inr (gs, kv')" by (cases ?r) auto
  with layers_partitioned[OF this] r show ?thesis by (simp add: dict_keys_def)
qed

end
