(* ===== verification/Sched_State.thy ===== *)
theory Sched_State
  imports KV_Cache_Manager Encoder_Schedule Request_Queue
begin

text \<open>
  The state of \<^verbatim>\<open>vllm/v1/core/sched/scheduler.py\<close> and the data it exchanges with the engine and the
  workers (\<^verbatim>\<open>core/sched/output.py\<close>, \<^verbatim>\<open>v1/outputs.py\<close>). Requests are objects shared by the request table, the
  queues and the caller: \<open>sch_objs\<close> is the store and a reference is the object's identity. A KV
  connector is a parameter: its state has an arbitrary type and its methods are the functions of
  \<open>kv_connector_ops\<close>. Sets that the code only tests for membership are sets; where it iterates a set
  the order is an argument. Times are arguments of the operations that read the clock.
\<close>

section \<open>Outcomes\<close>

text \<open>An operation may raise (\<open>Inl\<close>) or, where a loop is not known to end, not return (\<open>None\<close>).\<close>

definition obind :: "'a outcome \<Rightarrow> ('a \<Rightarrow> 'b outcome) \<Rightarrow> 'b outcome" where
  "obind m f = (case m of None \<Rightarrow> None | Some (Inl e) \<Rightarrow> Some (Inl e) | Some (Inr x) \<Rightarrow> f x)"

lemma obind_simps [simp]:
  "obind None f = None" "obind (Some (Inl e)) f = Some (Inl e)" "obind (Some (Inr x)) f = f x"
  by (simp_all add: obind_def)

lemma obind_Inr_iff: "obind m f = Some (Inr y) \<longleftrightarrow> (\<exists>x. m = Some (Inr x) \<and> f x = Some (Inr y))"
  by (auto simp: obind_def split: option.splits sum.splits)

fun omfold :: "('x \<Rightarrow> 's \<Rightarrow> 's outcome) \<Rightarrow> 'x list \<Rightarrow> 's \<Rightarrow> 's outcome" where
  "omfold f [] s = Some (Inr s)"
| "omfold f (x # xs) s = obind (f x s) (omfold f xs)"

definition dict_pop :: "('k, 'v) dict \<Rightarrow> 'k \<Rightarrow> ('v \<times> ('k, 'v) dict) result" where
  "dict_pop d k = (case map_of d k of None \<Rightarrow> Inl KeyError | Some v \<Rightarrow> Inr (v, AList.delete k d))"

section \<open>Messages to and from the workers\<close>

record NewRequestData =
  nrd_req_id :: string
  nrd_prompt_token_ids :: "int list option"
  nrd_mm_features :: "MultiModalFeatureSpec list"
  nrd_sampling_params :: "SamplingParams option"
  nrd_pooling_params :: "PoolingParams option"
  nrd_block_ids :: "int list list"
  nrd_num_computed_tokens :: int
  nrd_lora_request :: "LoRARequest option"
  nrd_prompt_embeds :: "bytes list option"
  nrd_prefill_token_ids :: "int list option"

definition NewRequestData_from_request :: "Request \<Rightarrow> int list list \<Rightarrow> int list option \<Rightarrow> NewRequestData" where
  "NewRequestData_from_request request block_ids prefill =
     \<lparr>nrd_req_id = request_id request, nrd_prompt_token_ids = prompt_token_ids request,
      nrd_mm_features = mm_features request, nrd_sampling_params = sampling_params request,
      nrd_pooling_params = pooling_params request, nrd_block_ids = block_ids,
      nrd_num_computed_tokens = num_computed_tokens request, nrd_lora_request = lora_request request,
      nrd_prompt_embeds = prompt_embeds request, nrd_prefill_token_ids = prefill\<rparr>"

record CachedRequestData =
  crd_req_ids :: "string list"
  crd_resumed_req_ids :: "string set"
  crd_new_token_ids :: "int list list"
  crd_all_token_ids :: "(string, int list) dict"
  crd_new_block_ids :: "int list list option list"
  crd_num_computed_tokens :: "int list"
  crd_num_output_tokens :: "int list"

definition CachedRequestData_make_empty :: CachedRequestData where
  "CachedRequestData_make_empty = \<lparr>crd_req_ids = [], crd_resumed_req_ids = {}, crd_new_token_ids = [],
     crd_all_token_ids = [], crd_new_block_ids = [], crd_num_computed_tokens = [], crd_num_output_tokens = []\<rparr>"

definition is_context_phase :: "CachedRequestData \<Rightarrow> string \<Rightarrow> bool" where
  "is_context_phase d req_id \<longleftrightarrow>
     map_of (rev (zip (crd_req_ids d) (crd_num_output_tokens d))) req_id = Some 0"

record SchedulerOutput =
  out_scheduled_new_reqs :: "NewRequestData list"
  out_scheduled_cached_reqs :: CachedRequestData
  out_num_scheduled_tokens :: "(string, int) dict"
  out_total_num_scheduled_tokens :: int
  out_scheduled_spec_decode_tokens :: "(string, int list) dict"
  out_scheduled_encoder_inputs :: "(string, nat list) dict"
  out_num_common_prefix_blocks :: "int list"
  out_finished_req_ids :: "string set"
  out_free_encoder_mm_hashes :: "mm_key list"
  out_preempted_req_ids :: "string set"
  out_has_structured_output_requests :: bool
  out_pending_structured_output_tokens :: bool
  out_num_invalid_spec_tokens :: "(string, int) dict option"

record KVConnectorOutput =
  finished_sending :: "string list"
  finished_recving :: "string list"
  invalid_block_ids :: "int set"

text \<open>A pooler output is the bytes of its tensor; of the prompt logprobs only their presence is read.\<close>

record ModelRunnerOutput =
  req_id_to_index :: "(string, int) dict"
  sampled_token_ids :: "int list list"
  prompt_logprobs_dict :: "(string, bool) dict"
  pooler_output :: "bytes option list"
  kv_connector_output :: "KVConnectorOutput option"
  mro_num_nans_in_logits :: "(string, int) dict"

section \<open>The scheduler\<close>

text \<open>
  What \<^verbatim>\<open>__init__\<close> computes once and never changes. \<open>sc_async\<close> selects the class (\<^verbatim>\<open>AsyncScheduler\<close> overrides two
  methods); \<open>set_order\<close> is the order in which Python iterates a set of input ids.
\<close>

record sched_config =
  policy :: SchedulingPolicy
  max_num_running_reqs :: int
  max_num_scheduled_tokens :: int
  sc_max_model_len :: int
  long_prefill_token_threshold :: int
  enable_chunked_prefill :: bool
  use_pp :: bool
  use_v2_model_runner :: bool
  sc_use_eagle :: bool
  num_spec_tokens :: int
  num_lookahead_tokens :: int
  need_mamba_block_aligned_split :: bool
  cache_block_size :: int
  sc_block_size :: int
  sc_encoder_budget :: int
  num_encoder_max_input_tokens :: int
  enc_cfg :: enc_config
  max_loras :: "int option"
  sc_log_stats :: bool
  recompute_kv_load_failures :: bool
  sc_num_groups :: nat
  sc_async :: bool
  set_order :: "nat list \<Rightarrow> nat list"
  block_hasher :: "(Request \<Rightarrow> bytes list outcome) option"

record 'c Scheduler =
  sch_objs :: "nat \<Rightarrow> Request"
  requests :: "(string, nat) dict"
  waiting :: "nat RequestQueue"
  running :: "nat list"
  finished_req_ids :: "string set"
  finished_req_ids_dict :: "(int, string set) dict option"
  prev_step_scheduled_req_ids :: "string set"
  num_waiting_for_streaming_input :: int
  finished_recving_kv_req_ids :: "string set"
  failed_recving_kv_req_ids :: "string set"
  kv_cache_manager :: KVCacheManager
  encoder_cache_manager :: encoder_manager
  connector :: "'c option"
  connector_prefix_cache_stats :: "PrefixCacheStats option"
  ec_updates :: "(nat \<times> nat) list"

text \<open>
  The methods of a KV connector that the scheduler calls. \<^verbatim>\<open>request_finished\<close> stands for both variants of the
  method; the opaque metadata of \<^verbatim>\<open>build_connector_meta\<close> goes to the workers and is not read here.
\<close>

record 'c kv_connector_ops =
  get_num_new_matched_tokens :: "'c \<Rightarrow> Request \<Rightarrow> int \<Rightarrow> (int option \<times> bool) \<times> 'c"
  update_state_after_alloc :: "'c \<Rightarrow> Request \<Rightarrow> KVCacheBlocks \<Rightarrow> int \<Rightarrow> 'c"
  build_connector_meta :: "'c \<Rightarrow> SchedulerOutput \<Rightarrow> 'c"
  supports_hma :: bool
  request_finished :: "'c \<Rightarrow> Request \<Rightarrow> int list list \<Rightarrow> (bool \<times> string option) \<times> 'c"
  update_connector_output :: "'c \<Rightarrow> KVConnectorOutput \<Rightarrow> 'c"
  connector_take_events :: "'c \<Rightarrow> KVCacheEvent list \<times> 'c"
  connector_reset_cache :: "'c \<Rightarrow> bool option \<times> 'c"

abbreviation obj :: "'c Scheduler \<Rightarrow> nat \<Rightarrow> Request" where
  "obj s x \<equiv> sch_objs s x"

definition upd_obj :: "nat \<Rightarrow> (Request \<Rightarrow> Request) \<Rightarrow> 'c Scheduler \<Rightarrow> 'c Scheduler" where
  "upd_obj x f s = s\<lparr>sch_objs := (sch_objs s)(x := f (sch_objs s x))\<rparr>"

section \<open>Construction\<close>

record SchedulerConfig =
  cfg_policy :: string
  max_num_seqs :: int
  cfg_long_prefill_token_threshold :: int
  cfg_enable_chunked_prefill :: bool
  cfg_disable_chunked_mm_input :: bool
  cfg_encoder_cache_size :: int
  pipeline_parallel_size :: int
  enable_prefix_caching :: bool
  cfg_block_size :: int
  cfg_num_gpu_blocks :: "int option"
  cfg_enable_kv_cache_events :: bool
  cfg_kv_cache_metrics :: bool
  cfg_use_int_hashes :: bool
  cfg_is_encoder_decoder :: bool
  cfg_encdec_max_encoder_len :: int
  cfg_mm_modalities :: "(string, int) dict option"
  cfg_max_loras :: "int option"
  cfg_speculative :: "(int \<times> bool \<times> bool) option"
  cfg_kv_load_failure_policy :: "string option"
  cfg_ec_has_cache_item :: "(mm_key \<Rightarrow> bool) option"
  cfg_use_v2_model_runner :: bool
  cfg_async_scheduling :: bool

definition is_mamba_spec :: "KVCacheSpec \<Rightarrow> bool" where
  "is_mamba_spec s = (case s of MambaSpec _ \<Rightarrow> True | _ \<Rightarrow> False)"

text \<open>
  \<^verbatim>\<open>speculative_config\<close> is \<open>(num_speculative_tokens, use_eagle(), uses_draft_model())\<close>; the connector is created
  by a factory and given by its initial state.
\<close>

definition Scheduler_init ::
  "VllmConfig \<Rightarrow> SchedulerConfig \<Rightarrow> KVCacheConfig \<Rightarrow> int \<Rightarrow> bool \<Rightarrow> bool \<Rightarrow> 'c option \<Rightarrow> (nat list \<Rightarrow> nat list) \<Rightarrow>
   (Request \<Rightarrow> bytes list outcome) option \<Rightarrow> (nat \<Rightarrow> Request) \<Rightarrow> (sched_config \<times> 'c Scheduler) result" where
  "Scheduler_init v sc kv bsize include_finished_set logging conn order hasher store =
     py_assert (Option.is_none conn \<or> \<not> cfg_is_encoder_decoder sc)
     (py_assert (case cfg_num_gpu_blocks sc of None \<Rightarrow> False | Some n \<Rightarrow> n > 0)
     (rbind (SchedulingPolicy_of (cfg_policy sc)) (\<lambda>pol.
      rbind (compute_encoder_budget (cfg_disable_chunked_mm_input sc) (max_num_batched_tokens v)
               (max_num_encoder_input_tokens v) (cfg_encoder_cache_size sc) (cfg_mm_modalities sc))
        (\<lambda>(encoder_compute_budget, encoder_cache_size).
      let (spec, eagle, draft) = (case cfg_speculative sc of None \<Rightarrow> (0, False, False) | Some t \<Rightarrow> t);
          has_mamba_layers = (\<exists>g \<in> set (kv_cache_groups kv). is_mamba_spec (g_kv_cache_spec g))
      in rbind (KVCacheManager_init kv (max_model_len v) bsize (enable_prefix_caching sc) eagle logging
                  (cfg_enable_kv_cache_events sc) (decode_context_parallel_size v) (prefill_context_parallel_size v)
                  (cfg_kv_cache_metrics sc) (cfg_use_int_hashes sc)) (\<lambda>k.
        Inr (\<lparr>policy = pol, max_num_running_reqs = max_num_seqs sc, max_num_scheduled_tokens = max_num_batched_tokens v,
              sc_max_model_len = max_model_len v, long_prefill_token_threshold = cfg_long_prefill_token_threshold sc,
              enable_chunked_prefill = cfg_enable_chunked_prefill sc, use_pp = (pipeline_parallel_size sc > 1),
              use_v2_model_runner = cfg_use_v2_model_runner sc, sc_use_eagle = eagle, num_spec_tokens = spec,
              num_lookahead_tokens = (if eagle \<or> draft then spec else 0),
              need_mamba_block_aligned_split = (has_mamba_layers \<and> mamba_cache_mode v = ''align''),
              cache_block_size = cfg_block_size sc, sc_block_size = bsize, sc_encoder_budget = encoder_compute_budget,
              num_encoder_max_input_tokens = cfg_encdec_max_encoder_len sc,
              enc_cfg = \<lparr>is_encoder_decoder = cfg_is_encoder_decoder sc,
                         disable_chunked_mm_input = cfg_disable_chunked_mm_input sc,
                         ec_has_cache_item = cfg_ec_has_cache_item sc\<rparr>,
              max_loras = cfg_max_loras sc, sc_log_stats = logging,
              recompute_kv_load_failures = (Option.is_none conn \<or> cfg_kv_load_failure_policy sc = Some ''recompute''),
              sc_num_groups = length (kv_cache_groups kv), sc_async = cfg_async_scheduling sc,
              set_order = order, block_hasher = hasher\<rparr>,
             \<lparr>sch_objs = store, requests = [], waiting = create_request_queue pol, running = [],
              finished_req_ids = {}, finished_req_ids_dict = (if include_finished_set then Some [] else None),
              prev_step_scheduled_req_ids = {}, num_waiting_for_streaming_input = 0,
              finished_recving_kv_req_ids = {}, failed_recving_kv_req_ids = {}, kv_cache_manager = k,
              encoder_cache_manager = (if cfg_is_encoder_decoder sc
                                       then EncDecCache (EncoderDecoderCacheManager_init encoder_cache_size)
                                       else MMCache (EncoderCacheManager_init encoder_cache_size)),
              connector = conn,
              connector_prefix_cache_stats = (if \<not> Option.is_none conn \<and> logging then Some new_prefix_cache_stats else None),
              ec_updates = []\<rparr>))))))"

end
