(* ===== verification/Sched_Step.thy ===== *)
theory Sched_Step
  imports Sched_State
begin

text \<open>
  \<^verbatim>\<open>Scheduler.schedule\<close>: one scheduling step. First every running request gets tokens within the budget,
  with preemption of running requests when the KV cache is full; then, if nothing was preempted,
  waiting requests are admitted; then the output for the workers is built and the computed-token
  counters advance. The local variables of the method are the record \<open>sched_pass\<close>.
\<close>

section \<open>Local variables\<close>

record sched_pass =
  scheduled_new_reqs :: "nat list"
  scheduled_resumed_reqs :: "nat list"
  scheduled_running_reqs :: "nat list"
  preempted_reqs :: "nat list"
  req_to_new_blocks :: "(string, KVCacheBlocks) dict"
  num_scheduled_tokens :: "(string, int) dict"
  token_budget :: int
  scheduled_encoder_inputs :: "(string, nat list) dict"
  encoder_compute_budget :: int
  scheduled_spec_decode_tokens :: "(string, int list) dict"
  req_index :: int
  scheduled_loras :: "int set"
  skipped_waiting_requests :: "nat RequestQueue"

definition new_pass :: "sched_config \<Rightarrow> sched_pass" where
  "new_pass cfg = \<lparr>scheduled_new_reqs = [], scheduled_resumed_reqs = [], scheduled_running_reqs = [], preempted_reqs = [],
     req_to_new_blocks = [], num_scheduled_tokens = [], token_budget = max_num_scheduled_tokens cfg,
     scheduled_encoder_inputs = [], encoder_compute_budget = sc_encoder_budget cfg, scheduled_spec_decode_tokens = [],
     req_index = 0, scheduled_loras = {}, skipped_waiting_requests = create_request_queue (policy cfg)\<rparr>"

section \<open>Tokens of a chunk\<close>

definition mamba_block_aligned_split :: "sched_config \<Rightarrow> Request \<Rightarrow> int \<Rightarrow> int \<Rightarrow> int \<Rightarrow> int result" where
  "mamba_block_aligned_split cfg r num_new_tokens num_local num_external =
     py_assert (num_external = 0)
      (if num_output_tokens r = 0 then
         (let bs = cache_block_size cfg in
          if bs = 0 then Inl ZeroDivisionError
          else
            let last0 = num_prompt_tokens r - num_prompt_tokens r mod bs;
                last_cache_position = (if sc_use_eagle cfg then max (last0 - bs) 0 else last0);
                nc = num_computed_tokens r + num_local + num_external;
                after_sched = nc + num_new_tokens
            in Inr (if after_sched < last_cache_position then num_new_tokens div bs * bs
                    else if nc < last_cache_position \<and> last_cache_position < after_sched
                    then last_cache_position - nc
                    else num_new_tokens))
       else Inr num_new_tokens)"

definition cap_long_prefill :: "sched_config \<Rightarrow> int \<Rightarrow> int" where
  "cap_long_prefill cfg n =
     (if 0 < long_prefill_token_threshold cfg \<and> long_prefill_token_threshold cfg < n
      then long_prefill_token_threshold cfg else n)"

text \<open>A running request is passed over while the output of its previous step is outstanding.\<close>

definition running_skip :: "sched_config \<Rightarrow> Request \<Rightarrow> bool" where
  "running_skip cfg r \<longleftrightarrow> num_output_placeholders r > 0 \<and>
     (use_pp cfg \<or> num_computed_tokens r + 2 - num_output_placeholders r \<ge> num_prompt_tokens r + max_tokens r)"

definition running_new_tokens :: "sched_config \<Rightarrow> int \<Rightarrow> Request \<Rightarrow> int" where
  "running_new_tokens cfg budget r =
     min (min (cap_long_prefill cfg (num_tokens_with_spec r + num_output_placeholders r - num_computed_tokens r)) budget)
         (sc_max_model_len cfg - 1 - num_computed_tokens r)"

text \<open>The encoder inputs of a chunk, for requests that have any.\<close>

definition plan_encoder ::
  "sched_config \<Rightarrow> Request \<Rightarrow> int \<Rightarrow> int \<Rightarrow> int \<Rightarrow> 'c Scheduler \<Rightarrow> ((nat list \<times> int \<times> int \<times> nat list) \<times> 'c Scheduler) result" where
  "plan_encoder cfg r nc n budget s =
     (if has_encoder_inputs r
      then rbind (try_schedule_encoder_inputs (enc_cfg cfg) (encoder_cache_manager s) r nc n budget
                    (if sc_use_eagle cfg then 1 else 0))
             (\<lambda>(plan, m). Inr (plan, s\<lparr>encoder_cache_manager := m\<rparr>))
      else Inr (([], n, budget, []), s))"

definition split_mamba :: "sched_config \<Rightarrow> Request \<Rightarrow> int \<Rightarrow> int \<Rightarrow> int \<Rightarrow> int result" where
  "split_mamba cfg r n num_local num_external =
     (if need_mamba_block_aligned_split cfg then mamba_block_aligned_split cfg r n num_local num_external else Inr n)"

section \<open>Preemption\<close>

definition log_event :: "sched_config \<Rightarrow> EngineCoreEventType \<Rightarrow> rat \<Rightarrow> Request \<Rightarrow> Request" where
  "log_event cfg ty ts r = (if sc_log_stats cfg then record_event ty (Some ts) ts r else r)"

definition preempt_request :: "sched_config \<Rightarrow> rat \<Rightarrow> nat \<Rightarrow> 'c Scheduler \<Rightarrow> 'c Scheduler result" where
  "preempt_request cfg timestamp x s =
     py_assert (status (obj s x) = RUNNING)
      (rbind (kvm_free (kv_cache_manager s) (obj s x)) (\<lambda>k.
       rbind (em_free (set_order cfg) (obj s x) (encoder_cache_manager s)) (\<lambda>m.
         let s1 = upd_obj x (\<lambda>r. log_event cfg EV_PREEMPTED timestamp
                    (r\<lparr>status := PREEMPTED, num_computed_tokens := 0, spec_token_ids := [],
                       num_preemptions := num_preemptions r + 1\<rparr>))
                  (s\<lparr>kv_cache_manager := k, encoder_cache_manager := m\<rparr>)
         in Inr (s1\<lparr>waiting := rq_prepend_request (sch_objs s1) (waiting s1) x\<rparr>))))"

text \<open>\<^verbatim>\<open>max(running, key=...)\<close>: the first of the requests with the largest priority value and arrival time.\<close>

definition key_less :: "Request \<Rightarrow> Request \<Rightarrow> bool" where
  "key_less a b \<longleftrightarrow> priority a < priority b \<or> (priority a = priority b \<and> arrival_time a < arrival_time b)"

definition max_by_key :: "(nat \<Rightarrow> Request) \<Rightarrow> nat list \<Rightarrow> nat result" where
  "max_by_key f xs =
     (case xs of [] \<Rightarrow> Inl ValueError | y # ys \<Rightarrow> Inr (foldl (\<lambda>b z. if key_less (f b) (f z) then z else b) y ys))"

text \<open>A victim that was scheduled earlier in the step loses its entries and gives its budget back.\<close>

definition unschedule :: "Request \<Rightarrow> nat \<Rightarrow> sched_pass \<Rightarrow> sched_pass result" where
  "unschedule r x p =
     (let rid = request_id r in
      rbind (dict_item (num_scheduled_tokens p) rid) (\<lambda>n.
      rbind (dict_pop (req_to_new_blocks p) rid) (\<lambda>(_, blocks).
      rbind (mmap (get_num_encoder_embeds r)
               (case map_of (scheduled_encoder_inputs p) rid of None \<Rightarrow> [] | Some ids \<Rightarrow> ids)) (\<lambda>embeds.
        Inr (p\<lparr>scheduled_running_reqs := remove1 x (scheduled_running_reqs p), token_budget := token_budget p + n,
               req_to_new_blocks := blocks, num_scheduled_tokens := AList.delete rid (num_scheduled_tokens p),
               scheduled_spec_decode_tokens := AList.delete rid (scheduled_spec_decode_tokens p),
               scheduled_encoder_inputs := AList.delete rid (scheduled_encoder_inputs p),
               encoder_compute_budget := encoder_compute_budget p + sum_list embeds,
               req_index := req_index p - 1\<rparr>)))))"

definition pick_victim :: "sched_config \<Rightarrow> 'c Scheduler \<times> sched_pass \<Rightarrow> (nat \<times> 'c Scheduler \<times> sched_pass) result" where
  "pick_victim cfg = (\<lambda>(s, p).
     case policy cfg of
       PRIORITY \<Rightarrow>
         rbind (max_by_key (sch_objs s) (running s)) (\<lambda>x.
           let s1 = s\<lparr>running := remove1 x (running s)\<rparr>
           in if x \<in> set (scheduled_running_reqs p)
              then rbind (unschedule (obj s x) x p) (\<lambda>p1. Inr (x, s1, p1))
              else Inr (x, s1, p))
     | FCFS \<Rightarrow>
         if running s = [] then Inl IndexError
         else Inr (last (running s), s\<lparr>running := butlast (running s)\<rparr>, p))"

definition preempt_one :: "sched_config \<Rightarrow> rat \<Rightarrow> 'c Scheduler \<times> sched_pass \<Rightarrow> (nat \<times> 'c Scheduler \<times> sched_pass) result" where
  "preempt_one cfg now sp =
     rbind (pick_victim cfg sp) (\<lambda>(x, s, p).
     rbind (preempt_request cfg now x s) (\<lambda>s1.
       Inr (x, s1, p\<lparr>preempted_reqs := preempted_reqs p @ [x]\<rparr>)))"

lemma preempt_request_running: "preempt_request cfg now x s = Inr s' \<Longrightarrow> running s' = running s"
  by (auto simp: preempt_request_def rbind_Inr_iff Let_def upd_obj_def)

lemma foldl_choose_in: "foldl (\<lambda>b z. if c b z then z else b) y ys \<in> set (y # ys)"
proof (induction ys arbitrary: y)
  case (Cons a ys)
  then show ?case using Cons[of a] Cons[of y] by auto
qed simp

lemma max_by_key_in: "max_by_key f xs = Inr x \<Longrightarrow> x \<in> set xs"
proof -
  assume x: "max_by_key f xs = Inr x"
  then obtain y ys where "xs = y # ys" by (auto simp: max_by_key_def split: list.splits)
  then show "x \<in> set xs" using x foldl_choose_in[of "\<lambda>b z. key_less (f b) (f z)" y ys] by (simp add: max_by_key_def)
qed

text \<open>The rest of the running list is as long as before minus the victim; a scheduled victim also moves the index.\<close>

lemma pick_victim_running:
  assumes "pick_victim cfg (s, p) = Inr (x, s', p')"
  shows "x \<in> set (running s)" "length (running s') < length (running s)"
    "int (length (running s')) - req_index p' \<le> int (length (running s)) - req_index p"
proof -
  show x: "x \<in> set (running s)"
    using assms by (auto simp: pick_victim_def rbind_Inr_iff Let_def split: SchedulingPolicy.splits if_splits dest: max_by_key_in)
  then have pos: "0 < length (running s)" by (rule length_pos_if_in_set)
  have len: "length (running s') = length (running s) - 1"
    using assms x by (auto simp: pick_victim_def rbind_Inr_iff Let_def length_remove1 split: SchedulingPolicy.splits if_splits)
  then show "length (running s') < length (running s)" using pos by simp
  have "req_index p' \<ge> req_index p - 1"
    using assms by (auto simp: pick_victim_def unschedule_def rbind_Inr_iff Let_def split: SchedulingPolicy.splits if_splits)
  then show "int (length (running s')) - req_index p' \<le> int (length (running s)) - req_index p" using len pos by linarith
qed

lemma preempt_one_shorter:
  assumes "preempt_one cfg now (s, p) = Inr (x, s', p')"
  shows "length (running s') < length (running s)" "x \<in> set (running s)"
    "int (length (running s')) - req_index p' \<le> int (length (running s)) - req_index p"
proof -
  obtain s1 p1 where v: "pick_victim cfg (s, p) = Inr (x, s1, p1)" "preempt_request cfg now x s1 = Inr s'"
    "p' = p1\<lparr>preempted_reqs := preempted_reqs p1 @ [x]\<rparr>"
    using assms by (auto simp: preempt_one_def rbind_Inr_iff)
  show "length (running s') < length (running s)" "x \<in> set (running s)"
    "int (length (running s')) - req_index p' \<le> int (length (running s)) - req_index p"
    using pick_victim_running[OF v(1)] preempt_request_running[OF v(2)] v(3) by simp_all
qed

text \<open>The loop that allocates slots for the request \<open>x\<close>, preempting until it succeeds or \<open>x\<close> itself is the victim.\<close>

function alloc_loop ::
  "sched_config \<Rightarrow> rat \<Rightarrow> nat \<Rightarrow> int \<Rightarrow> 'c Scheduler \<Rightarrow> sched_pass \<Rightarrow> (KVCacheBlocks option \<times> 'c Scheduler \<times> sched_pass) result" where
  "alloc_loop cfg now x n s p =
     (case allocate_slots (kv_cache_manager s) (obj s x) n 0 None (num_lookahead_tokens cfg) 0 False 0 of
        Inl e \<Rightarrow> Inl e
      | Inr (new_blocks, k) \<Rightarrow>
          let s1 = s\<lparr>kv_cache_manager := k\<rparr> in
          if new_blocks \<noteq> None then Inr (new_blocks, s1, p)
          else
            (case preempt_one cfg now (s1, p) of
               Inl e \<Rightarrow> Inl e
             | Inr (v, s2, p2) \<Rightarrow> if v = x then Inr (None, s2, p2) else alloc_loop cfg now x n s2 p2))"
  by pat_completeness auto
termination
  by (relation "measure (\<lambda>(cfg, now, x, n, s, p). length (running s))") (auto dest!: preempt_one_shorter(1))

declare alloc_loop.simps [simp del, code]

section \<open>Running requests\<close>

definition allocate_inputs :: "sched_config \<Rightarrow> nat \<Rightarrow> nat list \<Rightarrow> bool \<Rightarrow> 'c Scheduler \<Rightarrow> 'c Scheduler result" where
  "allocate_inputs cfg x ids external s =
     rbind (mfold (em_allocate (obj s x)) ids (encoder_cache_manager s)) (\<lambda>m.
       Inr (s\<lparr>encoder_cache_manager := m,
              ec_updates := ec_updates s @ (if external \<and> ec_has_cache_item (enc_cfg cfg) \<noteq> None
                                            then map (Pair x) ids else [])\<rparr>))"

definition take_inputs ::
  "sched_config \<Rightarrow> nat \<Rightarrow> nat list \<Rightarrow> nat list \<Rightarrow> int \<Rightarrow> 'c Scheduler \<times> sched_pass \<Rightarrow> ('c Scheduler \<times> sched_pass) result" where
  "take_inputs cfg x ids external new_budget = (\<lambda>(s, p).
     rbind (if ids = [] then Inr (s, p)
            else rbind (allocate_inputs cfg x ids False s) (\<lambda>s1.
                   Inr (s1, p\<lparr>scheduled_encoder_inputs := AList.update (request_id (obj s x)) ids (scheduled_encoder_inputs p),
                              encoder_compute_budget := new_budget\<rparr>))) (\<lambda>(s1, p1).
     rbind (allocate_inputs cfg x external True s1) (\<lambda>s2. Inr (s2, p1))))"

definition take_spec_tokens :: "nat \<Rightarrow> int \<Rightarrow> 'c Scheduler \<times> sched_pass \<Rightarrow> 'c Scheduler \<times> sched_pass" where
  "take_spec_tokens x n = (\<lambda>(s, p).
     let r = obj s x in
     if spec_token_ids r = [] then (s, p)
     else let k = n + num_computed_tokens r - num_tokens r - num_output_placeholders r
          in (upd_obj x (\<lambda>r. r\<lparr>spec_token_ids := []\<rparr>) s,
              if k > 0 then p\<lparr>scheduled_spec_decode_tokens :=
                                AList.update (request_id r) (py_take k (spec_token_ids r)) (scheduled_spec_decode_tokens p)\<rparr>
              else p))"

definition add_scheduled :: "string \<Rightarrow> KVCacheBlocks \<Rightarrow> int \<Rightarrow> sched_pass \<Rightarrow> sched_pass" where
  "add_scheduled rid blocks n p =
     p\<lparr>req_to_new_blocks := AList.update rid blocks (req_to_new_blocks p),
       num_scheduled_tokens := AList.update rid n (num_scheduled_tokens p), token_budget := token_budget p - n\<rparr>"

definition schedule_running ::
  "sched_config \<Rightarrow> nat \<Rightarrow> int \<Rightarrow> KVCacheBlocks \<Rightarrow> nat list \<Rightarrow> nat list \<Rightarrow> int \<Rightarrow> 'c Scheduler \<times> sched_pass \<Rightarrow>
   ('c Scheduler \<times> sched_pass) result" where
  "schedule_running cfg x n blocks ids external new_budget = (\<lambda>(s, p).
     let p1 = (add_scheduled (request_id (obj s x)) blocks n p)
                \<lparr>scheduled_running_reqs := scheduled_running_reqs p @ [x], req_index := req_index p + 1\<rparr>
     in take_inputs cfg x ids external new_budget (take_spec_tokens x n (s, p1)))"

text \<open>One iteration of the loop over the running requests; the flag is the \<^verbatim>\<open>break\<close>.\<close>

definition run_iter ::
  "sched_config \<Rightarrow> rat \<Rightarrow> 'c Scheduler \<times> sched_pass \<Rightarrow> (bool \<times> 'c Scheduler \<times> sched_pass) result" where
  "run_iter cfg now = (\<lambda>(s, p).
     rbind (py_index (running s) (req_index p)) (\<lambda>x.
     if running_skip cfg (obj s x) then Inr (False, s, p\<lparr>req_index := req_index p + 1\<rparr>)
     else
       rbind (plan_encoder cfg (obj s x) (num_computed_tokens (obj s x))
                (running_new_tokens cfg (token_budget p) (obj s x)) (encoder_compute_budget p) s)
         (\<lambda>((ids, n1, new_budget, external), s1).
       rbind (split_mamba cfg (obj s1 x) n1 0 0) (\<lambda>n.
         if n = 0 then Inr (False, s1, p\<lparr>req_index := req_index p + 1\<rparr>)
         else
           rbind (alloc_loop cfg now x n s1 p) (\<lambda>(new_blocks, s2, p2).
             case new_blocks of
               None \<Rightarrow> Inr (True, s2, p2)
             | Some blocks \<Rightarrow>
                 rbind (schedule_running cfg x n blocks ids external new_budget (s2, p2)) (\<lambda>sp3. Inr (False, sp3)))))))"

text \<open>Every iteration that goes on shortens the rest of the list, so the loop ends.\<close>

lemma alloc_loop_induct [consumes 1, case_names fits self preempt]:
  assumes "alloc_loop cfg now x n s p = Inr (b, s', p')"
    and "\<And>s p bs k. allocate_slots (kv_cache_manager s) (obj s x) n 0 None (num_lookahead_tokens cfg) 0 False 0 = Inr (Some bs, k) \<Longrightarrow>
      P s p (Some bs) (s\<lparr>kv_cache_manager := k\<rparr>) p"
    and "\<And>s p k s2 p2. allocate_slots (kv_cache_manager s) (obj s x) n 0 None (num_lookahead_tokens cfg) 0 False 0 = Inr (None, k) \<Longrightarrow>
      preempt_one cfg now (s\<lparr>kv_cache_manager := k\<rparr>, p) = Inr (x, s2, p2) \<Longrightarrow> P s p None s2 p2"
    and "\<And>s p k v s2 p2 b s' p'. allocate_slots (kv_cache_manager s) (obj s x) n 0 None (num_lookahead_tokens cfg) 0 False 0 = Inr (None, k) \<Longrightarrow>
      preempt_one cfg now (s\<lparr>kv_cache_manager := k\<rparr>, p) = Inr (v, s2, p2) \<Longrightarrow> v \<noteq> x \<Longrightarrow>
      P s2 p2 b s' p' \<Longrightarrow> P s p b s' p'"
  shows "P s p b s' p'"
  using assms(1)
proof (induction cfg\<equiv>cfg now\<equiv>now x\<equiv>x n\<equiv>n s p arbitrary: b s' p' rule: alloc_loop.induct)
  case (1 s p)
  let ?a = "allocate_slots (kv_cache_manager s) (obj s x) n 0 None (num_lookahead_tokens cfg) 0 False 0"
  obtain nb k where a: "?a = Inr (nb, k)" using "1.prems" by (subst (asm) alloc_loop.simps) (auto split: sum.splits)
  show ?case
  proof (cases nb)
    case None
    obtain v s2 p2 where v: "preempt_one cfg now (s\<lparr>kv_cache_manager := k\<rparr>, p) = Inr (v, s2, p2)"
      using "1.prems" a None by (subst (asm) alloc_loop.simps) (auto simp: Let_def split: sum.splits)
    show ?thesis
    proof (cases "v = x")
      case True
      then show ?thesis using "1.prems" a None v assms(3) by (subst (asm) alloc_loop.simps) auto
    next
      case False
      then have rest: "alloc_loop cfg now x n s2 p2 = Inr (b, s', p')"
        using "1.prems" a None v by (subst (asm) alloc_loop.simps) auto
      have "P s2 p2 b s' p'"
        using "1.hyps"[OF a refl refl _ v refl refl False rest] None by simp
      then show ?thesis using assms(4) a None v False by blast
    qed
  next
    case (Some bs)
    then show ?thesis using "1.prems" a assms(2) by (subst (asm) alloc_loop.simps) auto
  qed
qed

lemma alloc_loop_rest:
  assumes "alloc_loop cfg now x n s p = Inr (b, s', p')"
  shows "int (length (running s')) - req_index p' \<le> int (length (running s)) - req_index p"
  using assms
proof (induction rule: alloc_loop_induct)
  case (self s p k s2 p2)
  then show ?case using preempt_one_shorter(3)[OF self(2)] by simp
next
  case (preempt s p k v s2 p2 b s' p')
  then show ?case using preempt_one_shorter(3)[OF preempt(2)] by simp
qed simp

lemma take_inputs_frame:
  assumes "take_inputs cfg x ids external budget (s, p) = Inr (s', p')"
  shows "\<exists>m u e b. s' = s\<lparr>encoder_cache_manager := m, ec_updates := u\<rparr> \<and>
    p' = p\<lparr>scheduled_encoder_inputs := e, encoder_compute_budget := b\<rparr>"
proof -
  have alloc: "\<exists>m u. s2 = s1\<lparr>encoder_cache_manager := m, ec_updates := u\<rparr>"
    if "allocate_inputs cfg x is ext s1 = Inr s2" for "is" ext and s1 s2 :: "'a Scheduler"
    using that by (auto simp: allocate_inputs_def rbind_Inr_iff)
  obtain s1 p1 where 1: "(if ids = [] then Inr (s, p)
            else rbind (allocate_inputs cfg x ids False s) (\<lambda>s1.
                   Inr (s1, p\<lparr>scheduled_encoder_inputs := AList.update (request_id (obj s x)) ids (scheduled_encoder_inputs p),
                              encoder_compute_budget := budget\<rparr>))) = Inr (s1, p1)"
    "allocate_inputs cfg x external True s1 = Inr s'" "p' = p1"
    using assms by (auto simp: take_inputs_def rbind_Inr_iff)
  have "\<exists>m u e b. s1 = s\<lparr>encoder_cache_manager := m, ec_updates := u\<rparr> \<and>
    p1 = p\<lparr>scheduled_encoder_inputs := e, encoder_compute_budget := b\<rparr>"
  proof (cases "ids = []")
    case True
    then have "s1 = s\<lparr>encoder_cache_manager := encoder_cache_manager s, ec_updates := ec_updates s\<rparr> \<and>
      p1 = p\<lparr>scheduled_encoder_inputs := scheduled_encoder_inputs p, encoder_compute_budget := encoder_compute_budget p\<rparr>"
      using 1(1) by simp
    then show ?thesis by blast
  next
    case False
    then show ?thesis using 1(1) alloc by (auto simp: rbind_Inr_iff)
  qed
  then show ?thesis using alloc[OF 1(2)] 1(3) by (elim exE conjE) (simp, blast)
qed

lemma plan_encoder_frame:
  "plan_encoder cfg r nc n budget s = Inr (plan, s') \<Longrightarrow> \<exists>m. s' = s\<lparr>encoder_cache_manager := m\<rparr>"
proof (cases "has_encoder_inputs r")
  case False
  assume "plan_encoder cfg r nc n budget s = Inr (plan, s')"
  then have "s' = s\<lparr>encoder_cache_manager := encoder_cache_manager s\<rparr>" using False by (simp add: plan_encoder_def)
  then show ?thesis by blast
qed (auto simp: plan_encoder_def rbind_Inr_iff)

lemma take_spec_tokens_frame:
  "take_spec_tokens x n (s, p) = (s', p') \<Longrightarrow>
     running s' = running s \<and> waiting s' = waiting s \<and> requests s' = requests s \<and> kv_cache_manager s' = kv_cache_manager s \<and>
     (\<exists>d. p' = p\<lparr>scheduled_spec_decode_tokens := d\<rparr>) \<and>
     (\<exists>t. sch_objs s' = (sch_objs s)(x := (obj s x)\<lparr>spec_token_ids := t\<rparr>))"
proof (cases "spec_token_ids (obj s x) = []")
  case True
  assume "take_spec_tokens x n (s, p) = (s', p')"
  then have "s' = s" "p' = p" using True by (simp_all add: take_spec_tokens_def Let_def)
  moreover have "p = p\<lparr>scheduled_spec_decode_tokens := scheduled_spec_decode_tokens p\<rparr>"
    "sch_objs s = (sch_objs s)(x := (obj s x)\<lparr>spec_token_ids := spec_token_ids (obj s x)\<rparr>)" by simp_all
  ultimately show ?thesis by blast
next
  case False
  assume t: "take_spec_tokens x n (s, p) = (s', p')"
  then have s': "s' = upd_obj x (\<lambda>r. r\<lparr>spec_token_ids := []\<rparr>) s" using False by (simp add: take_spec_tokens_def Let_def)
  have "p = p\<lparr>scheduled_spec_decode_tokens := scheduled_spec_decode_tokens p\<rparr>" by simp
  moreover have "p' = p \<or> (\<exists>d. p' = p\<lparr>scheduled_spec_decode_tokens := d\<rparr>)"
    using t False by (auto simp: take_spec_tokens_def Let_def split: if_splits)
  ultimately have "\<exists>d. p' = p\<lparr>scheduled_spec_decode_tokens := d\<rparr>" by metis
  then show ?thesis unfolding s' by (auto simp: upd_obj_def)
qed

lemma schedule_running_frame:
  assumes "schedule_running cfg x n blocks ids external budget (s, p) = Inr (s', p')"
  shows "running s' = running s" "waiting s' = waiting s" "requests s' = requests s" "kv_cache_manager s' = kv_cache_manager s"
    "\<exists>t. sch_objs s' = (sch_objs s)(x := (obj s x)\<lparr>spec_token_ids := t\<rparr>)"
    "\<exists>e b d. p' = (add_scheduled (request_id (obj s x)) blocks n p)
       \<lparr>scheduled_running_reqs := scheduled_running_reqs p @ [x], req_index := req_index p + 1,
        scheduled_encoder_inputs := e, encoder_compute_budget := b, scheduled_spec_decode_tokens := d\<rparr>"
    "scheduled_spec_decode_tokens p' = (let r = obj s x; k = n + num_computed_tokens r - num_tokens r - num_output_placeholders r in
       if spec_token_ids r \<noteq> [] \<and> k > 0 then AList.update (request_id r) (py_take k (spec_token_ids r)) (scheduled_spec_decode_tokens p)
       else scheduled_spec_decode_tokens p)"
proof -
  let ?p = "(add_scheduled (request_id (obj s x)) blocks n p)
    \<lparr>scheduled_running_reqs := scheduled_running_reqs p @ [x], req_index := req_index p + 1\<rparr>"
  obtain s1 p1 where t: "take_spec_tokens x n (s, ?p) = (s1, p1)" by fastforce
  then have i: "take_inputs cfg x ids external budget (s1, p1) = Inr (s', p')"
    using assms by (simp add: schedule_running_def Let_def)
  note f = take_spec_tokens_frame[OF t] and g = take_inputs_frame[OF i]
  show "running s' = running s" "waiting s' = waiting s" "requests s' = requests s" "kv_cache_manager s' = kv_cache_manager s"
    "\<exists>t. sch_objs s' = (sch_objs s)(x := (obj s x)\<lparr>spec_token_ids := t\<rparr>)"
    using f g by auto
  obtain d where "p1 = ?p\<lparr>scheduled_spec_decode_tokens := d\<rparr>" using f by blast
  moreover obtain e b where "p' = p1\<lparr>scheduled_encoder_inputs := e, encoder_compute_budget := b\<rparr>" using g by blast
  ultimately have "p' = ?p\<lparr>scheduled_encoder_inputs := e, encoder_compute_budget := b, scheduled_spec_decode_tokens := d\<rparr>" by simp
  then show "\<exists>e b d. p' = (add_scheduled (request_id (obj s x)) blocks n p)
       \<lparr>scheduled_running_reqs := scheduled_running_reqs p @ [x], req_index := req_index p + 1,
        scheduled_encoder_inputs := e, encoder_compute_budget := b, scheduled_spec_decode_tokens := d\<rparr>" by auto
  have "scheduled_spec_decode_tokens p' = scheduled_spec_decode_tokens p1" using g by auto
  then show "scheduled_spec_decode_tokens p' = (let r = obj s x; k = n + num_computed_tokens r - num_tokens r - num_output_placeholders r in
       if spec_token_ids r \<noteq> [] \<and> k > 0 then AList.update (request_id r) (py_take k (spec_token_ids r)) (scheduled_spec_decode_tokens p)
       else scheduled_spec_decode_tokens p)"
    using t by (auto simp: take_spec_tokens_def add_scheduled_def Let_def split: if_splits)
qed

text \<open>The three ways an iteration ends.\<close>

lemma run_iter_cases [consumes 1, case_names skip blocked scheduled]:
  assumes "run_iter cfg now (s, p) = Inr (brk, s', p')"
  obtains m where "\<not> brk" "s' = s\<lparr>encoder_cache_manager := m\<rparr>" "p' = p\<lparr>req_index := req_index p + 1\<rparr>"
  | x n m where "brk" "py_index (running s) (req_index p) = Inr x" "n \<noteq> 0"
      "alloc_loop cfg now x n (s\<lparr>encoder_cache_manager := m\<rparr>) p = Inr (None, s', p')"
  | x n1 n m ids external budget blocks s2 p2 where "\<not> brk" "py_index (running s) (req_index p) = Inr x" "n \<noteq> 0"
      "plan_encoder cfg (obj s x) (num_computed_tokens (obj s x)) (running_new_tokens cfg (token_budget p) (obj s x))
         (encoder_compute_budget p) s = Inr ((ids, n1, budget, external), s\<lparr>encoder_cache_manager := m\<rparr>)"
      "split_mamba cfg (obj s x) n1 0 0 = Inr n"
      "alloc_loop cfg now x n (s\<lparr>encoder_cache_manager := m\<rparr>) p = Inr (Some blocks, s2, p2)"
      "schedule_running cfg x n blocks ids external budget (s2, p2) = Inr (s', p')"
proof -
  obtain x where x: "py_index (running s) (req_index p) = Inr x"
    using assms by (auto simp: run_iter_def rbind_Inr_iff)
  show thesis
  proof (cases "running_skip cfg (obj s x)")
    case True
    then show thesis using that(1)[of "encoder_cache_manager s"] assms x by (simp add: run_iter_def)
  next
    case False
    then obtain ids n1 budget external s1 n where a: "plan_encoder cfg (obj s x) (num_computed_tokens (obj s x))
        (running_new_tokens cfg (token_budget p) (obj s x)) (encoder_compute_budget p) s = Inr ((ids, n1, budget, external), s1)"
      "split_mamba cfg (obj s1 x) n1 0 0 = Inr n"
      "(if n = 0 then Inr (False, s1, p\<lparr>req_index := req_index p + 1\<rparr>)
         else rbind (alloc_loop cfg now x n s1 p) (\<lambda>(new_blocks, s2, p2).
             case new_blocks of
               None \<Rightarrow> Inr (True, s2, p2)
             | Some blocks \<Rightarrow>
                 rbind (schedule_running cfg x n blocks ids external budget (s2, p2)) (\<lambda>sp3. Inr (False, sp3)))) = Inr (brk, s', p')"
      using assms x by (auto simp: run_iter_def rbind_Inr_iff)
    obtain m where m: "s1 = s\<lparr>encoder_cache_manager := m\<rparr>" using plan_encoder_frame[OF a(1)] by blast
    have o: "obj s1 x = obj s x" using m by simp
    show thesis
    proof (cases "n = 0")
      case True
      then show thesis using that(1)[of m] a(3) m by simp
    next
      case False
      then obtain nb s2 p2 where l: "alloc_loop cfg now x n s1 p = Inr (nb, s2, p2)"
        "(case nb of None \<Rightarrow> Inr (True, s2, p2)
          | Some blocks \<Rightarrow> rbind (schedule_running cfg x n blocks ids external budget (s2, p2)) (\<lambda>sp3. Inr (False, sp3))) = Inr (brk, s', p')"
        using a(3) by (auto simp: rbind_Inr_iff)
      show thesis
      proof (cases nb)
        case None
        then show thesis using that(2)[of x n m] False l m x by simp
      next
        case (Some blocks)
        then show thesis
          using that(3)[of x n ids n1 budget external m blocks s2 p2] False l m x a(1,2) o by (auto simp: rbind_Inr_iff)
      qed
    qed
  qed
qed

lemma run_iter_progress:
  assumes "run_iter cfg now (s, p) = Inr (False, s', p')"
  shows "int (length (running s')) - req_index p' < int (length (running s)) - req_index p"
  using assms
proof (cases rule: run_iter_cases)
  case (scheduled x n1 n m ids external budget blocks s2 p2)
  obtain e b d where "p' = (add_scheduled (request_id (obj s2 x)) blocks n p2)
       \<lparr>scheduled_running_reqs := scheduled_running_reqs p2 @ [x], req_index := req_index p2 + 1,
        scheduled_encoder_inputs := e, encoder_compute_budget := b, scheduled_spec_decode_tokens := d\<rparr>"
    using schedule_running_frame(6)[OF scheduled(7)] by blast
  then show ?thesis using schedule_running_frame(1)[OF scheduled(7)] alloc_loop_rest[OF scheduled(6)] by simp
qed simp_all

function running_loop :: "sched_config \<Rightarrow> rat \<Rightarrow> 'c Scheduler \<times> sched_pass \<Rightarrow> ('c Scheduler \<times> sched_pass) result" where
  "running_loop cfg now (s, p) =
     (if req_index p < int (length (running s)) \<and> token_budget p > 0
      then (case run_iter cfg now (s, p) of
              Inl e \<Rightarrow> Inl e
            | Inr (brk, sp) \<Rightarrow> if brk then Inr sp else running_loop cfg now sp)
      else Inr (s, p))"
  by pat_completeness auto
termination
proof (relation "measure (\<lambda>(cfg, now, s, p). nat (int (length (running s)) - req_index p))", goal_cases)
  case (2 cfg now s p x brk sp)
  then show ?case using run_iter_progress[of cfg now s p "fst sp" "snd sp"] by (cases sp) auto
qed simp

declare running_loop.simps [simp del, code]

end
