(* ===== verification/Sched_Admit.thy ===== *)
theory Sched_Admit
  imports Sched_Step
begin

text \<open>
  The second half of \<^verbatim>\<open>Scheduler.schedule\<close>: admission of waiting requests, the output of the step and the
  update of the counters after it (\<^verbatim>\<open>_update_after_schedule\<close>, with the override of \<^verbatim>\<open>AsyncScheduler\<close>).
\<close>

section \<open>Requests that cannot be considered yet\<close>

definition the_single :: "'a list \<Rightarrow> 'a result" where
  "the_single xs = (case xs of [x] \<Rightarrow> Inr x | _ \<Rightarrow> Inl ValueError)"

definition update_waiting_for_remote_kv :: "sched_config \<Rightarrow> nat \<Rightarrow> 'c Scheduler \<Rightarrow> (bool \<times> 'c Scheduler) result" where
  "update_waiting_for_remote_kv cfg x s =
     (let r = obj s x; rid = request_id r; k = kv_cache_manager s in
      py_assert (\<not> Option.is_none (connector s))
       (if rid \<notin> finished_recving_kv_req_ids s then Inr (False, s)
        else
          rbind (if rid \<in> failed_recving_kv_req_ids s
                 then rbind (if num_computed_tokens r \<noteq> 0 then kvm_cache_blocks k r (num_computed_tokens r) else kvm_free k r)
                        (\<lambda>k1. Inr (s\<lparr>kv_cache_manager := k1,
                                     failed_recving_kv_req_ids := failed_recving_kv_req_ids s - {rid}\<rparr>))
                 else
                   rbind (the_single (kvm_get_block_ids k rid)) (\<lambda>block_ids.
                     let n0 = min (int (length block_ids) * sc_block_size cfg) (num_tokens r);
                         n = (if n0 = num_tokens r then n0 - 1 else n0)
                     in rbind (kvm_cache_blocks k r n) (\<lambda>k1.
                          Inr (upd_obj x (\<lambda>r. r\<lparr>num_computed_tokens := n\<rparr>) (s\<lparr>kv_cache_manager := k1\<rparr>)))))
            (\<lambda>s1. Inr (True, s1\<lparr>finished_recving_kv_req_ids := finished_recving_kv_req_ids s1 - {rid}\<rparr>))))"

text \<open>
  The checks at the head of the loop: waiting for remote KV, for a grammar (\<open>ready\<close> tells whether the
  compilation has finished), for streaming input, or for a LoRA slot. The answer is whether the request
  can be considered; otherwise it is skipped.
\<close>

definition set_status :: "RequestStatus \<Rightarrow> nat \<Rightarrow> 'c Scheduler \<Rightarrow> 'c Scheduler" where
  "set_status st x s = upd_obj x (\<lambda>r. r\<lparr>status := st\<rparr>) s"

definition check_remote_kv :: "sched_config \<Rightarrow> nat \<Rightarrow> 'c Scheduler \<Rightarrow> (bool \<times> 'c Scheduler) result" where
  "check_remote_kv cfg x s =
     (if status (obj s x) = WAITING_FOR_REMOTE_KVS
      then rbind (update_waiting_for_remote_kv cfg x s) (\<lambda>(is_ready, s1).
             Inr (is_ready, if is_ready
                            then set_status (if num_preemptions (obj s1 x) \<noteq> 0 then PREEMPTED else WAITING) x s1
                            else s1))
      else Inr (True, s))"

definition check_grammar :: "(Request \<Rightarrow> bool) \<Rightarrow> nat \<Rightarrow> 'c Scheduler \<Rightarrow> bool \<times> 'c Scheduler" where
  "check_grammar ready x s =
     (if status (obj s x) = WAITING_FOR_FSM
      then (if use_structured_output (obj s x) \<and> ready (obj s x) then (True, set_status WAITING x s) else (False, s))
      else (True, s))"

definition check_streaming :: "Request \<Rightarrow> bool result" where
  "check_streaming r =
     (if status r = WAITING_FOR_STREAMING_REQ
      then py_assert (streaming_queue r = None \<or> streaming_queue r = Some []) (Inr False)
      else Inr True)"

definition check_lora :: "sched_config \<Rightarrow> int set \<Rightarrow> Request \<Rightarrow> bool" where
  "check_lora cfg loras r =
     (case (max_loras cfg, lora_request r) of
        (Some m, Some l) \<Rightarrow> \<not> (int (card loras) = m \<and> lora_int_id l \<notin> loras)
      | _ \<Rightarrow> True)"

definition can_consider ::
  "sched_config \<Rightarrow> (Request \<Rightarrow> bool) \<Rightarrow> int set \<Rightarrow> nat \<Rightarrow> 'c Scheduler \<Rightarrow> (bool \<times> 'c Scheduler) result" where
  "can_consider cfg ready loras x s =
     rbind (check_remote_kv cfg x s) (\<lambda>(b1, s1).
       if \<not> b1 then Inr (False, s1)
       else let (b2, s2) = check_grammar ready x s1
            in if \<not> b2 then Inr (False, s2)
               else rbind (check_streaming (obj s2 x)) (\<lambda>b3. Inr (b3 \<and> check_lora cfg loras (obj s2 x), s2)))"

definition skip_waiting :: "nat \<Rightarrow> 'c Scheduler \<times> sched_pass \<Rightarrow> ('c Scheduler \<times> sched_pass) result" where
  "skip_waiting x = (\<lambda>(s, p).
     rbind (rq_pop_request (sch_objs s) (waiting s)) (\<lambda>(_, q).
       Inr (s\<lparr>waiting := q\<rparr>,
            p\<lparr>skipped_waiting_requests := rq_prepend_request (sch_objs s) (skipped_waiting_requests p) x\<rparr>)))"

section \<open>Tokens that are computed already and tokens to compute\<close>

text \<open>
  Cached tokens, local and external: blocks, number of local tokens, number of external tokens, whether
  the external ones are loaded asynchronously, and the total. \<open>None\<close>: the connector cannot tell yet.
\<close>

definition cached_tokens ::
  "'c kv_connector_ops \<Rightarrow> nat \<Rightarrow> 'c Scheduler \<Rightarrow> ((KVCacheBlocks \<times> int \<times> int \<times> bool \<times> int) option \<times> 'c Scheduler) outcome" where
  "cached_tokens ops x s =
     (if num_computed_tokens (obj s x) = 0 then
        obind (get_computed_blocks (kv_cache_manager s) (obj s x)) (\<lambda>((blocks, num_local), k).
          let s1 = s\<lparr>kv_cache_manager := k\<rparr> in
          case connector s1 of
            None \<Rightarrow> Some (Inr (Some (blocks, num_local, 0, False, num_local), s1))
          | Some c \<Rightarrow>
              (let ((ext_tokens, load_kv_async), c1) = get_num_new_matched_tokens ops c (obj s1 x) num_local;
                   s2 = s1\<lparr>connector := Some c1\<rparr>
               in case ext_tokens of
                    None \<Rightarrow> Some (Inr (None, s2))
                  | Some ext \<Rightarrow>
                      Some (Inr (Some (blocks, num_local, ext, load_kv_async, num_local + ext),
                                 upd_obj x (\<lambda>r. r\<lparr>num_external_computed_tokens := ext\<rparr>) s2))))
      else Some (Inr (Some (EmptyKVCacheBlocks, 0, 0, False, num_computed_tokens (obj s x)), s)))"

text \<open>The chunk of a waiting request with its encoder inputs; \<open>None\<close> is the \<^verbatim>\<open>break\<close> when nothing can be scheduled.\<close>

definition waiting_chunk ::
  "sched_config \<Rightarrow> nat \<Rightarrow> int \<Rightarrow> bool \<Rightarrow> int \<Rightarrow> 'c Scheduler \<Rightarrow> sched_pass \<Rightarrow>
   ((nat list \<times> int \<times> int \<times> nat list) option \<times> 'c Scheduler) result" where
  "waiting_chunk cfg x ext load_kv_async nc s p =
     (if load_kv_async then py_assert (ext > 0) (Inr (Some ([], 0, encoder_compute_budget p, []), s))
      else
        let n1 = cap_long_prefill cfg (num_tokens (obj s x) - nc)
        in if \<not> enable_chunked_prefill cfg \<and> n1 > token_budget p then Inr (None, s)
           else
             let n2 = min n1 (token_budget p)
             in py_assert (n2 > 0)
                 (rbind (plan_encoder cfg (obj s x) nc n2 (encoder_compute_budget p) s) (\<lambda>((ids, n3, budget, external), s1).
                    Inr (if has_encoder_inputs (obj s x) \<and> n3 = 0 then None else Some (ids, n3, budget, external), s1))))"

section \<open>Admission\<close>

text \<open>The state changes once the slots of a request are allocated; \<open>x\<close> is the popped request.\<close>

definition update_connector_prefix_cache_stats :: "Request \<Rightarrow> 'c Scheduler \<Rightarrow> 'c Scheduler" where
  "update_connector_prefix_cache_stats r s =
     s\<lparr>connector_prefix_cache_stats :=
         map_option (stats_record (num_tokens r) (num_external_computed_tokens r) (num_preemptions r > 0))
           (connector_prefix_cache_stats s)\<rparr>"

definition add_by_status :: "RequestStatus \<Rightarrow> nat \<Rightarrow> sched_pass \<Rightarrow> sched_pass result" where
  "add_by_status st x p =
     (if st = WAITING then Inr (p\<lparr>scheduled_new_reqs := scheduled_new_reqs p @ [x]\<rparr>)
      else if st = PREEMPTED then Inr (p\<lparr>scheduled_resumed_reqs := scheduled_resumed_reqs p @ [x]\<rparr>)
      else Inl RuntimeError)"

definition admit ::
  "sched_config \<Rightarrow> rat \<Rightarrow> nat \<Rightarrow> int \<Rightarrow> int \<Rightarrow> nat list \<Rightarrow> nat list \<Rightarrow> int \<Rightarrow> 'c Scheduler \<times> sched_pass \<Rightarrow>
   ('c Scheduler \<times> sched_pass) result" where
  "admit cfg now x n nc ids external new_budget = (\<lambda>(s, p).
     let s1 = update_connector_prefix_cache_stats (obj s x) s;
         s2 = upd_obj x (log_event cfg EV_SCHEDULED now) (s1\<lparr>running := running s1 @ [x]\<rparr>);
         r = obj s2 x
     in rbind (add_by_status (status r) x p) (\<lambda>p1.
        let p2 = p1\<lparr>scheduled_loras := (case (max_loras cfg, lora_request r) of
                                          (Some _, Some l) \<Rightarrow> insert (lora_int_id l) (scheduled_loras p1)
                                        | _ \<Rightarrow> scheduled_loras p1)\<rparr>;
            p3 = add_scheduled (request_id r) (kvm_get_blocks (kv_cache_manager s2) (request_id r)) n p2;
            s3 = upd_obj x (\<lambda>r. r\<lparr>status := RUNNING, num_computed_tokens := nc,
                                  num_cached_tokens := (if num_cached_tokens r < 0 then nc else num_cached_tokens r)\<rparr>) s2
        in take_inputs cfg x ids external new_budget (s3, p3)))"

definition connector_after_alloc :: "'c kv_connector_ops \<Rightarrow> nat \<Rightarrow> int \<Rightarrow> 'c Scheduler \<Rightarrow> 'c Scheduler" where
  "connector_after_alloc ops x ext s =
     s\<lparr>connector := map_option (\<lambda>c. update_state_after_alloc ops c (obj s x)
                       (kvm_get_blocks (kv_cache_manager s) (request_id (obj s x))) ext) (connector s)\<rparr>"

text \<open>After the allocation the head of the queue is popped and starts running, or waits for its remote KV.\<close>

definition place_waiting ::
  "sched_config \<Rightarrow> 'c kv_connector_ops \<Rightarrow> rat \<Rightarrow> nat \<Rightarrow> int \<Rightarrow> int \<Rightarrow> bool \<Rightarrow> int \<Rightarrow> nat list \<Rightarrow> nat list \<Rightarrow> int \<Rightarrow>
   'c Scheduler \<times> sched_pass \<Rightarrow> ('c Scheduler \<times> sched_pass) result" where
  "place_waiting cfg ops now x n ext load_kv_async nc ids external new_budget = (\<lambda>(s, p).
     let s1 = connector_after_alloc ops x ext s
     in rbind (rq_pop_request (sch_objs s1) (waiting s1)) (\<lambda>(y, q).
          let s2 = s1\<lparr>waiting := q\<rparr>
          in if load_kv_async
             then Inr (set_status WAITING_FOR_REMOTE_KVS y s2,
                       p\<lparr>skipped_waiting_requests := rq_prepend_request (sch_objs s2) (skipped_waiting_requests p) y\<rparr>)
             else admit cfg now y n nc ids external new_budget (s2, p)))"

definition waiting_slots ::
  "sched_config \<Rightarrow> nat \<Rightarrow> int \<Rightarrow> KVCacheBlocks \<Rightarrow> int \<Rightarrow> int \<Rightarrow> bool \<Rightarrow> 'c Scheduler \<Rightarrow> (KVCacheBlocks option \<times> KVCacheManager) result" where
  "waiting_slots cfg x n blocks num_local ext load_kv_async s =
     allocate_slots (kv_cache_manager s) (obj s x) n num_local (Some blocks)
       (if num_computed_tokens (obj s x) = 0 then 0 else num_lookahead_tokens cfg) ext load_kv_async
       (if is_encoder_decoder (enc_cfg cfg) \<and> has_encoder_inputs (obj s x) then num_encoder_max_input_tokens cfg else 0)"

text \<open>One iteration of the loop over the waiting requests; the flag is the \<^verbatim>\<open>break\<close>.\<close>

definition try_admit ::
  "sched_config \<Rightarrow> 'c kv_connector_ops \<Rightarrow> rat \<Rightarrow> nat \<Rightarrow> KVCacheBlocks \<Rightarrow> int \<Rightarrow> int \<Rightarrow> bool \<Rightarrow> int \<Rightarrow>
   'c Scheduler \<times> sched_pass \<Rightarrow> (bool \<times> 'c Scheduler \<times> sched_pass) result" where
  "try_admit cfg ops now x blocks num_local ext load_kv_async nc = (\<lambda>(s, p).
     rbind (waiting_chunk cfg x ext load_kv_async nc s p) (\<lambda>(chunk, s1).
     case chunk of
       None \<Rightarrow> Inr (True, s1, p)
     | Some (ids, n1, budget, external) \<Rightarrow>
         rbind (split_mamba cfg (obj s1 x) n1 num_local ext) (\<lambda>n.
         if need_mamba_block_aligned_split cfg \<and> n = 0 then Inr (True, s1, p)
         else
           rbind (waiting_slots cfg x n blocks num_local ext load_kv_async s1) (\<lambda>(new_blocks, k).
             let s2 = s1\<lparr>kv_cache_manager := k\<rparr> in
             if new_blocks = None
             then rbind (if has_encoder_inputs (obj s2 x)
                         then em_free (set_order cfg) (obj s2 x) (encoder_cache_manager s2)
                         else Inr (encoder_cache_manager s2)) (\<lambda>m.
                    Inr (True, s2\<lparr>encoder_cache_manager := m\<rparr>, p))
             else
               rbind (place_waiting cfg ops now x n ext load_kv_async nc ids external budget (s2, p)) (\<lambda>sp3.
                 Inr (False, sp3))))))"

definition wait_iter ::
  "sched_config \<Rightarrow> 'c kv_connector_ops \<Rightarrow> (Request \<Rightarrow> bool) \<Rightarrow> rat \<Rightarrow> 'c Scheduler \<times> sched_pass \<Rightarrow>
   (bool \<times> 'c Scheduler \<times> sched_pass) outcome" where
  "wait_iter cfg ops ready now = (\<lambda>(s, p).
     if int (length (running s)) = max_num_running_reqs cfg then Some (Inr (True, s, p))
     else
       obind (Some (rq_peek_request (waiting s))) (\<lambda>x.
       obind (Some (can_consider cfg ready (scheduled_loras p) x s)) (\<lambda>(ok, s1).
         if \<not> ok then Some (rbind (skip_waiting x (s1, p)) (\<lambda>sp. Inr (False, sp)))
         else
           obind (cached_tokens ops x s1) (\<lambda>(cached, s2).
             case cached of
               None \<Rightarrow> Some (rbind (skip_waiting x (s2, p)) (\<lambda>sp. Inr (False, sp)))
             | Some (blocks, num_local, ext, load_kv_async, nc) \<Rightarrow>
                 Some (try_admit cfg ops now x blocks num_local ext load_kv_async nc (s2, p))))))"

section \<open>The loop over the waiting requests\<close>

lemma rq_pop_shorter: "rq_pop_request f q = Inr (x, q') \<Longrightarrow> rq_len q' < rq_len q"
  by (cases q) (auto simp: rbind_Inr_iff split: list.splits if_splits dest: heappop_shorter)

lemma rq_len_nonneg: "0 \<le> rq_len q"
  by (cases q) auto

text \<open>
  What the steps before the admission leave alone: the queues, the table, and of every request what
  identifies and orders it; a status changes among those of a waiting request only.
\<close>

definition waitable :: "RequestStatus \<Rightarrow> bool" where
  "waitable st \<longleftrightarrow> \<not> is_finished_status st \<and> st \<noteq> RUNNING"

lemma waitable_simps [simp]:
  "waitable WAITING" "waitable WAITING_FOR_FSM" "waitable WAITING_FOR_REMOTE_KVS" "waitable WAITING_FOR_STREAMING_REQ"
  "waitable PREEMPTED" "\<not> waitable RUNNING" "waitable st \<Longrightarrow> \<not> is_finished_status st"
  by (simp_all add: waitable_def is_finished_status_def)

definition same_req :: "Request \<Rightarrow> Request \<Rightarrow> bool" where
  "same_req a b \<longleftrightarrow> py_id b = py_id a \<and> request_id b = request_id a \<and> priority b = priority a \<and> arrival_time b = arrival_time a \<and>
     (status b = status a \<or> (waitable (status a) \<and> waitable (status b)))"

definition same_queues :: "'c Scheduler \<Rightarrow> 'c Scheduler \<Rightarrow> bool" where
  "same_queues s s' \<longleftrightarrow> waiting s' = waiting s \<and> running s' = running s \<and> requests s' = requests s \<and>
     (\<forall>y. same_req (obj s y) (obj s' y))"

lemma same_req_refl [simp]: "same_req r r"
  by (simp add: same_req_def)

lemma same_queues_refl [simp]: "same_queues s s"
  by (simp add: same_queues_def)

lemma same_queues_trans: "same_queues s s' \<Longrightarrow> same_queues s' s'' \<Longrightarrow> same_queues s s''"
  unfolding same_queues_def same_req_def by metis

lemma same_queues_upd: "same_queues s s1 \<Longrightarrow> same_req (obj s1 x) (f (obj s1 x)) \<Longrightarrow> same_queues s (upd_obj x f s1)"
  by (rule same_queues_trans) (auto simp: same_queues_def upd_obj_def)

text \<open>The checks and lookups for a waiting request touch no other request, and not its tokens.\<close>

definition same_tokens :: "Request \<Rightarrow> Request \<Rightarrow> bool" where
  "same_tokens a b \<longleftrightarrow> all_token_ids b = all_token_ids a \<and> output_token_ids b = output_token_ids a \<and>
     num_output_placeholders b = num_output_placeholders a \<and> sampling_params b = sampling_params a \<and> resumable b = resumable a"

definition head_change :: "nat \<Rightarrow> 'c Scheduler \<Rightarrow> 'c Scheduler \<Rightarrow> bool" where
  "head_change x s s' \<longleftrightarrow> (\<forall>y. y \<noteq> x \<longrightarrow> obj s' y = obj s y) \<and> same_tokens (obj s x) (obj s' x)"

lemma head_change_refl [simp]: "head_change x s s"
  by (simp add: head_change_def same_tokens_def)

lemma head_change_trans: "head_change x s s' \<Longrightarrow> head_change x s' s'' \<Longrightarrow> head_change x s s''"
  by (auto simp: head_change_def same_tokens_def)

lemma head_change_frame [simp]:
  "head_change x s (s'\<lparr>kv_cache_manager := k\<rparr>) = head_change x s s'" "head_change x s (s'\<lparr>encoder_cache_manager := m\<rparr>) = head_change x s s'"
  by (simp_all add: head_change_def)

lemma update_waiting_head: "update_waiting_for_remote_kv cfg x s = Inr (b, s') \<Longrightarrow> head_change x s s'"
  by (auto simp: update_waiting_for_remote_kv_def Let_def rbind_Inr_iff head_change_def same_tokens_def upd_obj_def split: if_splits)

lemma set_status_head [simp]: "head_change x s (set_status st x s')  = head_change x s s'"
  by (auto simp: head_change_def set_status_def upd_obj_def same_tokens_def)

lemma can_consider_head:
  assumes c: "can_consider cfg ready loras x s = Inr (b, s')"
  shows "head_change x s s'"
proof -
  obtain b1 s1 where 1: "check_remote_kv cfg x s = Inr (b1, s1)" using c by (auto simp: can_consider_def rbind_Inr_iff)
  have "head_change x s s1" using 1 update_waiting_head by (fastforce simp: check_remote_kv_def rbind_Inr_iff split: if_splits)
  moreover have "s' = s1 \<or> s' = snd (check_grammar ready x s1)"
    using c 1 by (auto simp: can_consider_def rbind_Inr_iff split: if_splits prod.splits)
  ultimately show ?thesis by (auto simp: check_grammar_def split: if_splits)
qed

lemma update_waiting_same:
  "update_waiting_for_remote_kv cfg x s = Inr (b, s') \<Longrightarrow> same_queues s s'"
  by (auto simp: update_waiting_for_remote_kv_def Let_def rbind_Inr_iff same_queues_def same_req_def upd_obj_def split: if_splits)

lemma can_consider_same: "can_consider cfg ready loras x s = Inr (b, s') \<Longrightarrow> same_queues s s'"
proof -
  assume c: "can_consider cfg ready loras x s = Inr (b, s')"
  then obtain b1 s1 where 1: "check_remote_kv cfg x s = Inr (b1, s1)" by (auto simp: can_consider_def rbind_Inr_iff)
  have "same_queues s s1"
  proof (cases "status (obj s x) = WAITING_FOR_REMOTE_KVS")
    case True
    then obtain s0 where s0: "update_waiting_for_remote_kv cfg x s = Inr (b1, s0)"
      "s1 = (if b1 then set_status (if num_preemptions (obj s0 x) \<noteq> 0 then PREEMPTED else WAITING) x s0 else s0)"
      using 1 by (auto simp: check_remote_kv_def rbind_Inr_iff)
    have "same_req (obj s x) (obj s0 x)" using update_waiting_same[OF s0(1)] by (simp add: same_queues_def)
    then have "waitable (status (obj s0 x))" using True by (auto simp: same_req_def)
    then show ?thesis using update_waiting_same[OF s0(1)] s0(2)
      by (auto simp: set_status_def same_req_def intro!: same_queues_upd)
  qed (use 1 in \<open>simp add: check_remote_kv_def\<close>)
  moreover have "s' = s1 \<or> s' = snd (check_grammar ready x s1)"
    using c 1 by (auto simp: can_consider_def rbind_Inr_iff split: if_splits prod.splits)
  moreover have "same_queues s1 (snd (check_grammar ready x s1))"
    by (auto simp: check_grammar_def set_status_def same_req_def intro!: same_queues_upd)
  ultimately show ?thesis using same_queues_trans by blast
qed

lemma cached_tokens_same: "cached_tokens ops x s = Some (Inr (c, s')) \<Longrightarrow> same_queues s s' \<and> head_change x s s'"
proof (cases "num_computed_tokens (obj s x) = 0")
  case True
  assume c: "cached_tokens ops x s = Some (Inr (c, s'))"
  with True obtain blocks num_local k where g: "get_computed_blocks (kv_cache_manager s) (obj s x) = Some (Inr ((blocks, num_local), k))"
    by (auto simp: cached_tokens_def obind_Inr_iff)
  show ?thesis
  proof (cases "connector s")
    case None
    then show ?thesis using c True g by (auto simp: cached_tokens_def same_queues_def head_change_def same_tokens_def)
  next
    case (Some cn)
    obtain e l cn' where "get_num_new_matched_tokens ops cn (obj s x) num_local = ((e, l), cn')" by (metis surj_pair)
    then show ?thesis using c True g Some
      by (cases e) (auto simp: cached_tokens_def same_queues_def same_req_def head_change_def same_tokens_def upd_obj_def Let_def split: if_splits)
  qed
qed (auto simp: cached_tokens_def)

lemma waiting_chunk_frame:
  assumes "waiting_chunk cfg x ext la nc s p = Inr (c, s')"
  shows "\<exists>m. s' = s\<lparr>encoder_cache_manager := m\<rparr>"
proof -
  have "s = s\<lparr>encoder_cache_manager := encoder_cache_manager s\<rparr>" by simp
  moreover have "s' = s \<or> (\<exists>nc n b plan. plan_encoder cfg (obj s x) nc n b s = Inr (plan, s'))"
    using assms by (auto simp: waiting_chunk_def Let_def rbind_Inr_iff split: if_splits)
  ultimately show ?thesis using plan_encoder_frame by metis
qed

lemma admit_frame:
  assumes "admit cfg now x n nc ids external budget (s, p) = Inr (s', p')"
  shows "waiting s' = waiting s" "running s' = running s @ [x]" "requests s' = requests s" "kv_cache_manager s' = kv_cache_manager s"
    "sch_objs s' = (sch_objs s)(x := (log_event cfg EV_SCHEDULED now (obj s x))\<lparr>status := RUNNING, num_computed_tokens := nc,
       num_cached_tokens := (if num_cached_tokens (obj s x) < 0 then nc else num_cached_tokens (obj s x))\<rparr>)"
    "\<exists>p1 l e b. add_by_status (status (obj s x)) x p = Inr p1 \<and>
       p' = (add_scheduled (request_id (obj s x)) (kvm_get_blocks (kv_cache_manager s) (request_id (obj s x))) n (p1\<lparr>scheduled_loras := l\<rparr>))
              \<lparr>scheduled_encoder_inputs := e, encoder_compute_budget := b\<rparr>"
proof -
  let ?s2 = "upd_obj x (log_event cfg EV_SCHEDULED now)
    ((update_connector_prefix_cache_stats (obj s x) s)\<lparr>running := running s @ [x]\<rparr>)"
  let ?s3 = "upd_obj x (\<lambda>r. r\<lparr>status := RUNNING, num_computed_tokens := nc,
    num_cached_tokens := (if num_cached_tokens r < 0 then nc else num_cached_tokens r)\<rparr>) ?s2"
  have o: "obj ?s2 x = log_event cfg EV_SCHEDULED now (obj s x)" "running ?s3 = running s @ [x]"
    by (simp_all add: upd_obj_def update_connector_prefix_cache_stats_def)
  have st [simp]: "status (log_event cfg ev now r) = status r" "request_id (log_event cfg ev now r) = request_id r"
    "num_cached_tokens (log_event cfg ev now r) = num_cached_tokens r" for ev r
    by (simp_all add: log_event_def record_event_def)
  obtain p1 where p1: "add_by_status (status (obj s x)) x p = Inr p1"
    using assms o by (auto simp: admit_def Let_def rbind_Inr_iff update_connector_prefix_cache_stats_def)
  have k2: "kv_cache_manager ?s2 = kv_cache_manager s" by (simp add: upd_obj_def update_connector_prefix_cache_stats_def)
  have r2: "running (update_connector_prefix_cache_stats (obj s x) s) = running s"
    by (simp add: update_connector_prefix_cache_stats_def)
  have "\<exists>l. take_inputs cfg x ids external budget (?s3, add_scheduled (request_id (obj s x))
      (kvm_get_blocks (kv_cache_manager s) (request_id (obj s x))) n (p1\<lparr>scheduled_loras := l\<rparr>)) = Inr (s', p')"
    using assms p1 unfolding admit_def by (simp add: Let_def o(1) k2 r2) blast
  then obtain l where t: "take_inputs cfg x ids external budget (?s3, add_scheduled (request_id (obj s x))
      (kvm_get_blocks (kv_cache_manager s) (request_id (obj s x))) n (p1\<lparr>scheduled_loras := l\<rparr>)) = Inr (s', p')" ..
  from take_inputs_frame[OF t]
  show "waiting s' = waiting s" "running s' = running s @ [x]" "requests s' = requests s" "kv_cache_manager s' = kv_cache_manager s"
    "sch_objs s' = (sch_objs s)(x := (log_event cfg EV_SCHEDULED now (obj s x))\<lparr>status := RUNNING, num_computed_tokens := nc,
       num_cached_tokens := (if num_cached_tokens (obj s x) < 0 then nc else num_cached_tokens (obj s x))\<rparr>)"
    by (auto simp: upd_obj_def update_connector_prefix_cache_stats_def)
  show "\<exists>p1 l e b. add_by_status (status (obj s x)) x p = Inr p1 \<and>
       p' = (add_scheduled (request_id (obj s x)) (kvm_get_blocks (kv_cache_manager s) (request_id (obj s x))) n (p1\<lparr>scheduled_loras := l\<rparr>))
              \<lparr>scheduled_encoder_inputs := e, encoder_compute_budget := b\<rparr>"
    using take_inputs_frame[OF t] p1 by blast
qed

text \<open>The four ways an iteration ends.\<close>

lemma wait_iter_cases [consumes 1, case_names full skip break placed]:
  assumes "wait_iter cfg ops ready now (s, p) = Some (Inr (brk, s', p'))"
  obtains "brk" "s' = s" "p' = p" "int (length (running s)) = max_num_running_reqs cfg"
  | x s1 where "\<not> brk" "int (length (running s)) \<noteq> max_num_running_reqs cfg" "rq_peek_request (waiting s) = Inr x"
      "same_queues s s1" "skip_waiting x (s1, p) = Inr (s', p')" "head_change x s s1"
  | x where "brk" "rq_peek_request (waiting s) = Inr x" "same_queues s s'" "p' = p" "head_change x s s'"
  | x blocks num_local ext la nc s2 m ids n1 n budget external nb k where "\<not> brk"
      "int (length (running s)) \<noteq> max_num_running_reqs cfg" "rq_peek_request (waiting s) = Inr x"
      "same_queues s s2" "waiting_chunk cfg x ext la nc s2 p = Inr (Some (ids, n1, budget, external), s2\<lparr>encoder_cache_manager := m\<rparr>)"
      "split_mamba cfg (obj s2 x) n1 num_local ext = Inr n"
      "waiting_slots cfg x n blocks num_local ext la (s2\<lparr>encoder_cache_manager := m\<rparr>) = Inr (Some nb, k)"
      "place_waiting cfg ops now x n ext la nc ids external budget (s2\<lparr>encoder_cache_manager := m, kv_cache_manager := k\<rparr>, p) = Inr (s', p')"
      "\<not> (need_mamba_block_aligned_split cfg \<and> n = 0)" "head_change x s s2"
proof (cases "int (length (running s)) = max_num_running_reqs cfg")
  case True
  then show thesis using that(1) assms by (simp add: wait_iter_def)
next
  case nf: False
  obtain x ok s1 where x: "rq_peek_request (waiting s) = Inr x" "can_consider cfg ready (scheduled_loras p) x s = Inr (ok, s1)"
    using assms nf by (auto simp: wait_iter_def obind_Inr_iff)
  note 1 = can_consider_same[OF x(2)] and h1 = can_consider_head[OF x(2)]
  show thesis
  proof (cases ok)
    case False
    then show thesis using that(2)[OF _ nf x(1) 1 _ h1] assms x nf by (auto simp: wait_iter_def rbind_Inr_iff)
  next
    case True
    obtain c s2 where c: "cached_tokens ops x s1 = Some (Inr (c, s2))"
      using assms x nf True by (auto simp: wait_iter_def obind_Inr_iff)
    have 2: "same_queues s s2" using same_queues_trans[OF 1] cached_tokens_same[OF c] by blast
    have h2: "head_change x s s2" using head_change_trans[OF h1] cached_tokens_same[OF c] by blast
    show thesis
    proof (cases c)
      case None
      then show thesis using that(2)[OF _ nf x(1) 2 _ h2] assms x nf True c by (auto simp: wait_iter_def rbind_Inr_iff)
    next
      case (Some t)
      obtain blocks num_local ext la nc where t: "t = (blocks, num_local, ext, la, nc)" by (cases t)
      have ta: "try_admit cfg ops now x blocks num_local ext la nc (s2, p) = Inr (brk, s', p')"
        using assms x nf True c Some t by (simp add: wait_iter_def)
      then obtain ch s3 where ch: "waiting_chunk cfg x ext la nc s2 p = Inr (ch, s3)"
        by (auto simp: try_admit_def rbind_Inr_iff)
      obtain m where m: "s3 = s2\<lparr>encoder_cache_manager := m\<rparr>" using waiting_chunk_frame[OF ch] by blast
      have q3: "same_queues s (s2\<lparr>kv_cache_manager := k', encoder_cache_manager := m'\<rparr>)"
        "same_queues s (s2\<lparr>encoder_cache_manager := m'\<rparr>)" for m' k'
        using 2 by (simp_all add: same_queues_def)
      show thesis
      proof (cases ch)
        case None
        then show thesis using that(3)[OF _ x(1)] ta ch m q3 h2 by (auto simp: try_admit_def)
      next
        case (Some u)
        obtain ids n1 budget external where u: "u = (ids, n1, budget, external)" by (cases u)
        obtain n where n: "split_mamba cfg (obj s2 x) n1 num_local ext = Inr n"
          using ta ch Some u m by (auto simp: try_admit_def rbind_Inr_iff)
        show thesis
        proof (cases "need_mamba_block_aligned_split cfg \<and> n = 0")
          case True
          then show thesis using that(3)[OF _ x(1)] ta ch m q3 h2 Some u n by (auto simp: try_admit_def)
        next
          case False
          obtain nb k where nb: "waiting_slots cfg x n blocks num_local ext la s3 = Inr (nb, k)"
            using ta ch Some u m n False by (auto simp: try_admit_def rbind_Inr_iff)
          show thesis
          proof (cases nb)
            case None
            then show thesis using that(3)[OF _ x(1)] ta ch m q3 h2 Some u n False nb
              by (auto simp: try_admit_def rbind_Inr_iff Let_def split: if_splits)
          next
            case (Some b)
            then show thesis using h2 that(4)[OF _ nf x(1) 2, of ext la nc ids n1 budget external m num_local n blocks b k]
                ta ch m \<open>ch = Some u\<close> u n False nb
              by (auto simp: try_admit_def rbind_Inr_iff Let_def)
          qed
        qed
      qed
    qed
  qed
qed

lemma place_waiting_shorter:
  assumes "place_waiting cfg ops now x n ext la nc ids external budget (s, p) = Inr (s', p')"
  shows "rq_len (waiting s') < rq_len (waiting s)"
proof -
  let ?s1 = "connector_after_alloc ops x ext s"
  have w: "waiting ?s1 = waiting s" by (simp add: connector_after_alloc_def)
  obtain y q where q: "rq_pop_request (sch_objs ?s1) (waiting s) = Inr (y, q)"
    using assms by (auto simp: place_waiting_def Let_def rbind_Inr_iff w)
  have "waiting s' = q"
  proof (cases la)
    case True
    then show ?thesis using assms q w by (auto simp: place_waiting_def Let_def set_status_def upd_obj_def)
  next
    case False
    then have "admit cfg now y n nc ids external budget (?s1\<lparr>waiting := q\<rparr>, p) = Inr (s', p')"
      using assms q w by (simp add: place_waiting_def Let_def)
    from admit_frame(1)[OF this] show ?thesis by simp
  qed
  then show ?thesis using rq_pop_shorter[OF q] by simp
qed

lemma wait_iter_progress:
  assumes "wait_iter cfg ops ready now (s, p) = Some (Inr (False, s', p'))"
  shows "rq_len (waiting s') < rq_len (waiting s)"
  using assms
proof (cases rule: wait_iter_cases)
  case (skip x s1)
  then show ?thesis by (auto simp: skip_waiting_def rbind_Inr_iff same_queues_def dest: rq_pop_shorter)
next
  case (placed x blocks num_local ext la nc s2 m ids n1 n budget external nb k)
  then show ?thesis using place_waiting_shorter[OF placed(8)] by (simp add: same_queues_def)
qed simp_all

function waiting_loop ::
  "sched_config \<Rightarrow> 'c kv_connector_ops \<Rightarrow> (Request \<Rightarrow> bool) \<Rightarrow> rat \<Rightarrow> 'c Scheduler \<times> sched_pass \<Rightarrow> ('c Scheduler \<times> sched_pass) outcome" where
  "waiting_loop cfg ops ready now (s, p) =
     (if rq_bool (waiting s) \<and> token_budget p > 0
      then (case wait_iter cfg ops ready now (s, p) of
              None \<Rightarrow> None
            | Some (Inl e) \<Rightarrow> Some (Inl e)
            | Some (Inr (brk, sp)) \<Rightarrow> if brk then Some (Inr sp) else waiting_loop cfg ops ready now sp)
      else Some (Inr (s, p)))"
  by pat_completeness auto
termination
proof (relation "measure (\<lambda>(cfg, ops, ready, now, s, p). nat (rq_len (waiting s)))", goal_cases)
  case (2 cfg ops ready now s p x2 x2a brk sp)
  then show ?case using wait_iter_progress[of cfg ops ready now s p "fst sp" "snd sp"] rq_len_nonneg[of "waiting (fst sp)"]
    by (cases sp) auto
qed simp

declare waiting_loop.simps [simp del, code]

section \<open>The output of a step\<close>

text \<open>One request of \<^verbatim>\<open>_make_cached_request_data\<close>; the index tells running requests from resumed ones.\<close>

definition cached_request_step ::
  "sched_config \<Rightarrow> 'c Scheduler \<Rightarrow> sched_pass \<Rightarrow> nat \<times> nat \<Rightarrow> CachedRequestData \<Rightarrow> CachedRequestData result" where
  "cached_request_step cfg s p = (\<lambda>(idx, x) d.
     let r = obj s x; rid = request_id r; in_prev = (rid \<in> prev_step_scheduled_req_ids s) in
     rbind (if use_pp cfg
            then rbind (dict_item (num_scheduled_tokens p) rid) (\<lambda>n.
                   let k = n - (case map_of (scheduled_spec_decode_tokens p) rid of None \<Rightarrow> 0 | Some ts \<Rightarrow> int (length ts))
                   in Inr [py_slice (num_computed_tokens r) (num_computed_tokens r + k) (all_token_ids r)])
            else Inr []) (\<lambda>token_ids.
     py_assert (idx < length (scheduled_running_reqs p) \<or> \<not> in_prev)
      (rbind (dict_item (req_to_new_blocks p) rid) (\<lambda>blocks.
        Inr \<lparr>crd_req_ids = crd_req_ids d @ [rid],
             crd_resumed_req_ids = (if idx \<ge> length (scheduled_running_reqs p)
                                    then insert rid (crd_resumed_req_ids d) else crd_resumed_req_ids d),
             crd_new_token_ids = crd_new_token_ids d @ token_ids,
             crd_all_token_ids = (if in_prev then crd_all_token_ids d
                                  else AList.update rid (all_token_ids r) (crd_all_token_ids d)),
             crd_new_block_ids = crd_new_block_ids d @ [kv_get_block_ids (kv_cache_manager s) True blocks],
             crd_num_computed_tokens = crd_num_computed_tokens d @ [num_computed_tokens r],
             crd_num_output_tokens = crd_num_output_tokens d @ [num_output_tokens r + num_output_placeholders r]\<rparr>))))"

definition make_cached_request_data ::
  "sched_config \<Rightarrow> 'c Scheduler \<Rightarrow> sched_pass \<Rightarrow> nat list \<Rightarrow> CachedRequestData result" where
  "make_cached_request_data cfg s p resumed =
     (let xs = scheduled_running_reqs p @ resumed
      in mfold (cached_request_step cfg s p) (zip [0..<length xs] xs) CachedRequestData_make_empty)"

definition new_request_data :: "sched_config \<Rightarrow> 'c Scheduler \<Rightarrow> sched_pass \<Rightarrow> nat \<Rightarrow> NewRequestData result" where
  "new_request_data cfg s p x =
     (let r = obj s x in
      rbind (dict_item (req_to_new_blocks p) (request_id r)) (\<lambda>blocks.
        Inr (NewRequestData_from_request r
               (case kv_get_block_ids (kv_cache_manager s) False blocks of None \<Rightarrow> [] | Some ids \<Rightarrow> ids)
               (if use_v2_model_runner cfg then Some (all_token_ids r) else None))))"

text \<open>The assertions on the scheduling constraints.\<close>

definition constraints_ok :: "sched_config \<Rightarrow> 'c Scheduler \<Rightarrow> sched_pass \<Rightarrow> bool" where
  "constraints_ok cfg s p \<longleftrightarrow> sum_list (dict_values (num_scheduled_tokens p)) \<le> max_num_scheduled_tokens cfg \<and>
     token_budget p \<ge> 0 \<and> int (length (running s)) \<le> max_num_running_reqs cfg \<and>
     length (scheduled_new_reqs p) + length (scheduled_resumed_reqs p) + length (scheduled_running_reqs p) \<le> length (running s)"

definition running_loras :: "sched_config \<Rightarrow> 'c Scheduler \<Rightarrow> sched_pass \<Rightarrow> int set result" where
  "running_loras cfg s p =
     (case max_loras cfg of
        None \<Rightarrow> Inr {}
      | Some m \<Rightarrow>
          (let ls = set (filter (\<lambda>i. i > 0) (concat (map (\<lambda>x. case lora_request (obj s x) of None \<Rightarrow> [] | Some l \<Rightarrow> [lora_int_id l])
                      (scheduled_running_reqs p))))
           in py_assert (int (card ls) \<le> m) (Inr ls)))"

text \<open>Both passes, up to the assertions: which requests get how many tokens.\<close>

definition schedule_passes ::
  "sched_config \<Rightarrow> 'c kv_connector_ops \<Rightarrow> (Request \<Rightarrow> bool) \<Rightarrow> rat \<Rightarrow> 'c Scheduler \<Rightarrow> ('c Scheduler \<times> sched_pass) outcome" where
  "schedule_passes cfg ops ready now s =
     obind (Some (running_loop cfg now (s, new_pass cfg))) (\<lambda>(s1, p1).
     obind (Some (running_loras cfg s1 p1)) (\<lambda>loras.
     let p2 = p1\<lparr>scheduled_loras := loras\<rparr> in
     obind (if preempted_reqs p2 = [] then waiting_loop cfg ops ready now (s1, p2) else Some (Inr (s1, p2))) (\<lambda>(s3, p3).
       Some (Inr (if rq_bool (skipped_waiting_requests p3)
                  then s3\<lparr>waiting := rq_prepend_requests (sch_objs s3) (waiting s3) (skipped_waiting_requests p3)\<rparr>
                  else s3, p3)))))"

section \<open>After a step\<close>

definition advance_one :: "sched_config \<Rightarrow> string \<times> int \<Rightarrow> 'c Scheduler \<Rightarrow> 'c Scheduler result" where
  "advance_one cfg = (\<lambda>(rid, n) s.
     rbind (dict_item (requests s) rid) (\<lambda>x.
       let s1 = upd_obj x (\<lambda>r. r\<lparr>num_computed_tokens := num_computed_tokens r + n\<rparr>) s
       in if has_encoder_inputs (obj s1 x)
          then rbind (free_encoder_inputs (enc_cfg cfg) (set_order cfg) (obj s1 x) (encoder_cache_manager s1)) (\<lambda>m.
                 Inr (s1\<lparr>encoder_cache_manager := m\<rparr>))
          else Inr s1))"

definition base_update_after_schedule :: "sched_config \<Rightarrow> SchedulerOutput \<Rightarrow> 'c Scheduler \<Rightarrow> 'c Scheduler result" where
  "base_update_after_schedule cfg out s =
     rbind (mfold (advance_one cfg) (out_num_scheduled_tokens out) s) (\<lambda>s1. Inr (s1\<lparr>finished_req_ids := {}\<rparr>))"

text \<open>\<^verbatim>\<open>AsyncScheduler\<close>: placeholders for the tokens the step will sample.\<close>

definition async_advance_one ::
  "sched_config \<Rightarrow> (string, int list) dict \<Rightarrow> string \<Rightarrow> 'c Scheduler \<times> bool \<times> bool \<Rightarrow> ('c Scheduler \<times> bool \<times> bool) result" where
  "async_advance_one cfg spec_decode_tokens rid = (\<lambda>(s, has_structured, pending).
     rbind (dict_item (requests s) rid) (\<lambda>x.
       let r = obj s x;
           cur_num_spec_tokens = (case map_of spec_decode_tokens rid of None \<Rightarrow> 0 | Some ts \<Rightarrow> int (length ts))
       in Inr (if num_computed_tokens r = num_tokens r + num_output_placeholders r + cur_num_spec_tokens
               then upd_obj x (\<lambda>r. r\<lparr>num_output_placeholders := num_output_placeholders r + 1 + cur_num_spec_tokens,
                                     spec_token_ids := replicate (nat (num_spec_tokens cfg)) (-1)\<rparr>) s
               else s,
               has_structured \<or> use_structured_output r,
               pending \<or> (use_structured_output r \<and> num_output_placeholders r > 0))))"

definition update_after_schedule ::
  "sched_config \<Rightarrow> SchedulerOutput \<Rightarrow> 'c Scheduler \<Rightarrow> (SchedulerOutput \<times> 'c Scheduler) result" where
  "update_after_schedule cfg out s =
     rbind (base_update_after_schedule cfg out s) (\<lambda>s1.
       if \<not> sc_async cfg then Inr (out, s1)
       else rbind (mfold (async_advance_one cfg (out_scheduled_spec_decode_tokens out)) (dict_keys (out_num_scheduled_tokens out)) (s1, False, False))
              (\<lambda>(s2, has_structured, pending).
                Inr (out\<lparr>out_has_structured_output_requests := has_structured,
                         out_pending_structured_output_tokens := pending\<rparr>, s2)))"

section \<open>The whole step\<close>

definition build_output ::
  "sched_config \<Rightarrow> 'c Scheduler \<Rightarrow> sched_pass \<Rightarrow> (SchedulerOutput \<times> 'c Scheduler) result" where
  "build_output cfg s p =
     rbind (case running s of
              [] \<Rightarrow> Inr (replicate (sc_num_groups cfg) 0, s)
            | x # _ \<Rightarrow> rbind (kvm_num_common_prefix_blocks (kv_cache_manager s) (request_id (obj s x))) (\<lambda>(ns, k).
                        Inr (ns, s\<lparr>kv_cache_manager := k\<rparr>))) (\<lambda>(num_common_prefix_blocks, s1).
     let new_reqs = (if use_v2_model_runner cfg then scheduled_new_reqs p @ scheduled_resumed_reqs p else scheduled_new_reqs p);
         resumed = (if use_v2_model_runner cfg then [] else scheduled_resumed_reqs p)
     in rbind (mmap (new_request_data cfg s1 p) new_reqs) (\<lambda>new_reqs_data.
        rbind (make_cached_request_data cfg s1 p resumed) (\<lambda>cached_reqs_data.
        let (freed_hashes, m) = em_get_freed_mm_hashes (encoder_cache_manager s1)
        in Inr (\<lparr>out_scheduled_new_reqs = new_reqs_data, out_scheduled_cached_reqs = cached_reqs_data,
                 out_num_scheduled_tokens = num_scheduled_tokens p,
                 out_total_num_scheduled_tokens = sum_list (dict_values (num_scheduled_tokens p)),
                 out_scheduled_spec_decode_tokens = scheduled_spec_decode_tokens p,
                 out_scheduled_encoder_inputs = scheduled_encoder_inputs p,
                 out_num_common_prefix_blocks = num_common_prefix_blocks,
                 out_finished_req_ids = finished_req_ids s1, out_free_encoder_mm_hashes = freed_hashes,
                 out_preempted_req_ids = set (map (\<lambda>x. request_id (obj s1 x)) (preempted_reqs p)),
                 out_has_structured_output_requests = False, out_pending_structured_output_tokens = False,
                 out_num_invalid_spec_tokens = None\<rparr>,
                s1\<lparr>prev_step_scheduled_req_ids := set (dict_keys (num_scheduled_tokens p)), encoder_cache_manager := m\<rparr>))))"

definition schedule ::
  "sched_config \<Rightarrow> 'c kv_connector_ops \<Rightarrow> (Request \<Rightarrow> bool) \<Rightarrow> rat \<Rightarrow> 'c Scheduler \<Rightarrow> (SchedulerOutput \<times> 'c Scheduler) outcome" where
  "schedule cfg ops ready now s =
     obind (schedule_passes cfg ops ready now s) (\<lambda>(s1, p).
       Some (py_assert (constraints_ok cfg s1 p)
              (rbind (build_output cfg s1 p) (\<lambda>(out, s2).
               update_after_schedule cfg out
                 (s2\<lparr>connector := map_option (\<lambda>c. build_connector_meta ops c out) (connector s2)\<rparr>)))))"

end
