(* ===== verification/Sched_Update.thy ===== *)
theory Sched_Update
  imports Sched_Admit
begin

text \<open>
  The operations of \<^verbatim>\<open>scheduler.py\<close> between two steps: processing the output of the model
  (\<^verbatim>\<open>update_from_output\<close> with stop handling, streaming sessions, failed KV loads and statistics), adding,
  finishing and freeing requests, draft tokens and resetting the prefix cache.
\<close>

section \<open>Releasing a request\<close>

definition connector_finished ::
  "sched_config \<Rightarrow> 'c kv_connector_ops \<Rightarrow> nat \<Rightarrow> 'c Scheduler \<Rightarrow> ((bool \<times> string option) \<times> 'c Scheduler) result" where
  "connector_finished cfg ops x s =
     (case connector s of
        None \<Rightarrow> Inr ((False, None), s)
      | Some c \<Rightarrow>
          rbind (kvm_remove_skipped_blocks (kv_cache_manager s) (request_id (obj s x)) (num_tokens (obj s x))) (\<lambda>k.
            py_assert (supports_hma ops \<or> sc_num_groups cfg = 1)
             (let (res, c1) = request_finished ops c (obj s x) (kvm_get_block_ids k (request_id (obj s x)))
              in Inr (res, s\<lparr>kv_cache_manager := k, connector := Some c1\<rparr>))))"

definition sched_free_blocks :: "nat \<Rightarrow> 'c Scheduler \<Rightarrow> 'c Scheduler result" where
  "sched_free_blocks x s =
     py_assert (is_finished (obj s x))
      (rbind (kvm_free (kv_cache_manager s) (obj s x)) (\<lambda>k.
       rbind (dict_pop (requests s) (request_id (obj s x))) (\<lambda>(_, d).
         Inr (s\<lparr>kv_cache_manager := k, requests := d\<rparr>))))"

definition free_request :: "sched_config \<Rightarrow> 'c kv_connector_ops \<Rightarrow> nat \<Rightarrow> 'c Scheduler \<Rightarrow> (string option \<times> 'c Scheduler) result" where
  "free_request cfg ops x s =
     py_assert (is_finished (obj s x))
      (rbind (connector_finished cfg ops x s) (\<lambda>((delay_free_blocks, kv_xfer_params), s1).
       rbind (em_free (set_order cfg) (obj s1 x) (encoder_cache_manager s1)) (\<lambda>m.
         let r = obj s1 x; rid = request_id r;
             s2 = s1\<lparr>encoder_cache_manager := m, finished_req_ids := insert rid (finished_req_ids s1),
                     finished_req_ids_dict := map_option (\<lambda>d. AList.update (client_index r)
                       (insert rid (case map_of d (client_index r) of None \<Rightarrow> {} | Some ids \<Rightarrow> ids)) d) (finished_req_ids_dict s1)\<rparr>
         in rbind (if delay_free_blocks then Inr s2 else sched_free_blocks x s2) (\<lambda>s3. Inr (kv_xfer_params, s3)))))"

text \<open>First pass of \<^verbatim>\<open>finish_requests\<close>: valid requests, those to remove from the running list and from the queue.\<close>

definition collect_finished :: "'c Scheduler \<Rightarrow> string \<Rightarrow> nat list \<times> nat list \<times> nat list \<times> int \<Rightarrow> nat list \<times> nat list \<times> nat list \<times> int" where
  "collect_finished s rid = (\<lambda>(valid, run, wait, streaming).
     case map_of (requests s) rid of
       None \<Rightarrow> (valid, run, wait, streaming)
     | Some x \<Rightarrow>
         if is_finished (obj s x) then (valid, run, wait, streaming)
         else if status (obj s x) = RUNNING then (valid @ [x], run @ [x], wait, streaming)
         else (valid @ [x], run, wait @ [x],
               if status (obj s x) = WAITING_FOR_STREAMING_REQ then streaming - 1 else streaming))"

definition finish_requests ::
  "sched_config \<Rightarrow> 'c kv_connector_ops \<Rightarrow> string list \<Rightarrow> RequestStatus \<Rightarrow> 'c Scheduler \<Rightarrow> 'c Scheduler result" where
  "finish_requests cfg ops request_ids finished_status s =
     py_assert (is_finished_status finished_status)
      (let (valid, run, wait, streaming) =
             fold (collect_finished s) (remdups request_ids) ([], [], [], num_waiting_for_streaming_input s);
           s1 = s\<lparr>num_waiting_for_streaming_input := streaming,
                  running := (if run = [] then running s else remove_all (running s) (set run)),
                  waiting := (if wait = [] then waiting s else rq_remove_requests (sch_objs s) (waiting s) wait)\<rparr>
       in mfold (\<lambda>x s. rbind (free_request cfg ops x (set_status finished_status x s)) (\<lambda>(_, s'). Inr s')) valid s1)"

section \<open>Adding a request and streaming sessions\<close>

definition shift_feature :: "int \<Rightarrow> MultiModalFeatureSpec \<Rightarrow> MultiModalFeatureSpec" where
  "shift_feature base f = f\<lparr>mm_position := (mm_position f)\<lparr>pr_offset := pr_offset (mm_position f) + base\<rparr>\<rparr>"

text \<open>The request part of \<^verbatim>\<open>_update_request_as_session\<close>.\<close>

definition session_tokens :: "StreamingUpdate \<Rightarrow> Request \<Rightarrow> Request result" where
  "session_tokens u r =
     (case prompt_token_ids r of
        None \<Rightarrow> Inl AssertionError
      | Some prompt \<Rightarrow>
          (let kept = py_slice (num_prompt_tokens r) (num_computed_tokens r) (all_token_ids r);
               all1 = py_take (num_computed_tokens r) (all_token_ids r);
               new = (case su_prompt_token_ids u of None \<Rightarrow> [] | Some ts \<Rightarrow> ts);
               feats = (case su_mm_features u of None \<Rightarrow> [] | Some fs \<Rightarrow> map (shift_feature (int (length all1))) fs)
           in Inr (r\<lparr>all_token_ids := all1 @ new, output_token_ids := [],
                     prompt_token_ids := Some (prompt @ kept @ new), mm_features := mm_features r @ feats\<rparr>)))"

definition update_request_as_session :: "sched_config \<Rightarrow> rat \<Rightarrow> nat \<Rightarrow> StreamingUpdate \<Rightarrow> 'c Scheduler \<Rightarrow> 'c Scheduler outcome" where
  "update_request_as_session cfg now x u s =
     obind (Some (session_tokens u (obj s x))) (\<lambda>r1.
     obind (rehash (block_hasher cfg) r1) (\<lambda>r2.
       let streaming = (if status r2 = WAITING_FOR_STREAMING_REQ then num_waiting_for_streaming_input s - 1
                        else num_waiting_for_streaming_input s);
           r3 = r2\<lparr>num_prompt_tokens := (case prompt_token_ids r2 of None \<Rightarrow> 0 | Some ts \<Rightarrow> int (length ts)),
                   arrival_time := su_arrival_time u, sampling_params := su_sampling_params u, status := WAITING\<rparr>
       in Some (Inr (upd_obj x (\<lambda>_. log_event cfg EV_QUEUED now r3) (s\<lparr>num_waiting_for_streaming_input := streaming\<rparr>)))))"

text \<open>\<open>r\<close> is the new request object; its identity \<open>py_id r\<close> is the reference under which it is stored.\<close>

definition add_request :: "sched_config \<Rightarrow> 'c kv_connector_ops \<Rightarrow> rat \<Rightarrow> Request \<Rightarrow> 'c Scheduler \<Rightarrow> 'c Scheduler outcome" where
  "add_request cfg ops now r s =
     (case map_of (requests s) (request_id r) of
        Some x \<Rightarrow>
          (let u = StreamingUpdate_from_request r in
           if status (obj s x) \<noteq> WAITING_FOR_STREAMING_REQ
           then (case streaming_queue (obj s x) of
                   None \<Rightarrow> Some (Inl AssertionError)
                 | Some q \<Rightarrow> Some (Inr (upd_obj x (\<lambda>e. e\<lparr>streaming_queue := Some (q @ [u])\<rparr>) s)))
           else (case u of
                   Some upd \<Rightarrow> update_request_as_session cfg now x upd s
                 | None \<Rightarrow> Some (finish_requests cfg ops [request_id r] FINISHED_ABORTED s)))
      | None \<Rightarrow>
          (let x = py_id r;
               r1 = (if resumable r then r\<lparr>streaming_queue := Some []\<rparr> else r);
               s1 = s\<lparr>sch_objs := (sch_objs s)(x := r1)\<rparr>;
               s2 = s1\<lparr>waiting := rq_add_request (sch_objs s1) (waiting s1) x,
                       requests := AList.update (request_id r) x (requests s1)\<rparr>
           in Some (Inr (upd_obj x (log_event cfg EV_QUEUED now) s2))))"

text \<open>True if the stopped request is finished; a resumable one goes back to the waiting queue.\<close>

definition handle_stopped_request :: "sched_config \<Rightarrow> rat \<Rightarrow> nat \<Rightarrow> 'c Scheduler \<Rightarrow> (bool \<times> 'c Scheduler) outcome" where
  "handle_stopped_request cfg now x s =
     (if \<not> resumable (obj s x) then Some (Inr (True, s))
      else
        (case streaming_queue (obj s x) of
           Some (u # q) \<Rightarrow>
             (let s1 = upd_obj x (\<lambda>r. r\<lparr>streaming_queue := Some q\<rparr>) s in
              case u of
                None \<Rightarrow> Some (Inr (True, s1))
              | Some upd \<Rightarrow>
                  obind (update_request_as_session cfg now x upd s1) (\<lambda>s2.
                    Some (Inr (False, s2\<lparr>waiting := rq_add_request (sch_objs s2) (waiting s2) x\<rparr>))))
         | _ \<Rightarrow>
             (let s1 = (set_status WAITING_FOR_STREAMING_REQ x s)
                         \<lparr>num_waiting_for_streaming_input := num_waiting_for_streaming_input s + 1\<rparr>
              in Some (Inr (False, s1\<lparr>waiting := rq_add_request (sch_objs s1) (waiting s1) x\<rparr>)))))"

section \<open>Generated tokens\<close>

text \<open>Tokens are appended one by one; the first that stops the request cuts the rest.\<close>

fun append_tokens :: "sched_config \<Rightarrow> int list \<Rightarrow> Request \<Rightarrow> int list \<Rightarrow> (int list \<times> bool \<times> Request) outcome" where
  "append_tokens cfg [] r kept = Some (Inr (kept, False, r))"
| "append_tokens cfg (t # ts) r kept =
     obind (append_output_token_ids (block_hasher cfg) [t] r) (\<lambda>r1.
     obind (Some (check_stop r1 (sc_max_model_len cfg))) (\<lambda>(stopped, r2).
       if stopped then Some (Inr (kept @ [t], True, r2)) else append_tokens cfg ts r2 (kept @ [t])))"

definition base_update_request_with_output ::
  "sched_config \<Rightarrow> nat \<Rightarrow> int list \<Rightarrow> 'c Scheduler \<Rightarrow> ((int list \<times> bool) \<times> 'c Scheduler) outcome" where
  "base_update_request_with_output cfg x new_token_ids s =
     obind (append_tokens cfg new_token_ids (obj s x) []) (\<lambda>(kept, stopped, r).
       Some (Inr ((kept, stopped), upd_obj x (\<lambda>_. r) s)))"

definition update_request_with_output ::
  "sched_config \<Rightarrow> nat \<Rightarrow> int list \<Rightarrow> 'c Scheduler \<Rightarrow> ((int list \<times> bool) \<times> 'c Scheduler) outcome" where
  "update_request_with_output cfg x new_token_ids s =
     (if \<not> sc_async cfg then base_update_request_with_output cfg x new_token_ids s
      else if discard_latest_async_tokens (obj s x)
      then Some (Inr (([], False), upd_obj x (\<lambda>r. r\<lparr>discard_latest_async_tokens := False\<rparr>) s))
      else
        obind (base_update_request_with_output cfg x new_token_ids s) (\<lambda>((kept, stopped), s1).
          let s2 = upd_obj x (\<lambda>r. r\<lparr>num_output_placeholders := num_output_placeholders r - int (length kept)\<rparr>) s1
          in Some (py_assert (num_output_placeholders (obj s2 x) \<ge> 0)
               (rbind (if status (obj s x) = RUNNING
                       then kvm_cache_blocks (kv_cache_manager s2) (obj s2 x)
                              (num_computed_tokens (obj s2 x) - num_output_placeholders (obj s2 x))
                       else Inr (kv_cache_manager s2)) (\<lambda>k.
                  Inr ((kept, stopped), s2\<lparr>kv_cache_manager := k\<rparr>))))))"

section \<open>Statistics\<close>

record SpecDecodingStats =
  sd_num_spec_tokens :: int
  num_drafts :: int
  num_draft_tokens :: int
  num_accepted_tokens :: int
  num_accepted_tokens_per_pos :: "int list"

definition SpecDecodingStats_new :: "int \<Rightarrow> SpecDecodingStats" where
  "SpecDecodingStats_new n = \<lparr>sd_num_spec_tokens = n, num_drafts = 0, num_draft_tokens = 0, num_accepted_tokens = 0,
     num_accepted_tokens_per_pos = replicate (nat n) 0\<rparr>"

definition observe_draft :: "int \<Rightarrow> int \<Rightarrow> SpecDecodingStats \<Rightarrow> SpecDecodingStats result" where
  "observe_draft n_draft n_accepted st =
     py_assert (n_accepted \<le> sd_num_spec_tokens st)
      (Inr (st\<lparr>num_drafts := num_drafts st + 1, num_draft_tokens := num_draft_tokens st + n_draft,
               num_accepted_tokens := num_accepted_tokens st + n_accepted,
               num_accepted_tokens_per_pos :=
                 map (\<lambda>(i, c). if int i < n_accepted then c + 1 else c)
                   (zip [0..<length (num_accepted_tokens_per_pos st)] (num_accepted_tokens_per_pos st))\<rparr>))"

definition make_spec_decoding_stats ::
  "sched_config \<Rightarrow> SpecDecodingStats option \<Rightarrow> int \<Rightarrow> int \<Rightarrow> (string, int) dict option \<Rightarrow> string \<Rightarrow> SpecDecodingStats option result" where
  "make_spec_decoding_stats cfg stats n_draft n_accepted invalid rid =
     (if \<not> sc_log_stats cfg \<or> n_draft = 0 then Inr None
      else
        let st = (case stats of None \<Rightarrow> SpecDecodingStats_new (num_spec_tokens cfg) | Some st \<Rightarrow> st);
            n = (case Option.bind invalid (\<lambda>d. map_of d rid) of None \<Rightarrow> n_draft | Some i \<Rightarrow> n_draft - i)
        in rbind (observe_draft n n_accepted st) (\<lambda>st'. Inr (Some st')))"

record SchedulerStats =
  num_running_reqs :: int
  num_waiting_reqs :: int
  kv_cache_usage :: rat
  ss_prefix_cache_stats :: PrefixCacheStats
  ss_connector_prefix_cache_stats :: "PrefixCacheStats option"
  spec_decoding_stats :: "SpecDecodingStats option"

definition make_connector_prefix_cache_stats :: "'c Scheduler \<Rightarrow> PrefixCacheStats option \<times> 'c Scheduler" where
  "make_connector_prefix_cache_stats s =
     (case connector_prefix_cache_stats s of
        None \<Rightarrow> (None, s)
      | Some st \<Rightarrow> (Some st, s\<lparr>connector_prefix_cache_stats := Some new_prefix_cache_stats\<rparr>))"

definition make_stats ::
  "sched_config \<Rightarrow> SpecDecodingStats option \<Rightarrow> 'c Scheduler \<Rightarrow> (SchedulerStats option \<times> 'c Scheduler) result" where
  "make_stats cfg spec s =
     (if \<not> sc_log_stats cfg then Inr (None, s)
      else
        let (st, k) = make_prefix_cache_stats (kv_cache_manager s);
            (cst, s1) = make_connector_prefix_cache_stats (s\<lparr>kv_cache_manager := k\<rparr>)
        in case st of
             None \<Rightarrow> Inl AssertionError
           | Some st \<Rightarrow>
               Inr (Some \<lparr>num_running_reqs = int (length (running s1)), num_waiting_reqs = rq_len (waiting s1),
                          kv_cache_usage = kvm_usage (kv_cache_manager s1), ss_prefix_cache_stats = st,
                          ss_connector_prefix_cache_stats = cst, spec_decoding_stats = spec\<rparr>, s1))"

section \<open>Failed KV loads\<close>

text \<open>Local variables of \<^verbatim>\<open>_update_requests_with_invalid_blocks\<close>.\<close>

record invalid_scan =
  affected_req_ids :: "string list"
  total_affected_tokens :: int
  blocks_to_evict :: "int list"
  marked_invalid_block_ids :: "int set"

text \<open>
  The inner loop over the blocks of one request: the request, whether it is affected, whether it has marked
  a block, and the outer variables.
\<close>

definition scan_block ::
  "sched_config \<Rightarrow> int set \<Rightarrow> bool \<Rightarrow> int \<Rightarrow> int list \<Rightarrow> nat \<times> int \<Rightarrow> Request \<times> bool \<times> bool \<times> invalid_scan \<Rightarrow>
   Request \<times> bool \<times> bool \<times> invalid_scan" where
  "scan_block cfg invalid evict n_computed block_ids = (\<lambda>(idx, block_id) (r, is_affected, marked, v).
     if block_id \<notin> invalid then (r, is_affected, marked, v)
     else if block_id \<in> marked_invalid_block_ids v then (r, True, marked, v)
     else
       let v1 = v\<lparr>marked_invalid_block_ids := insert block_id (marked_invalid_block_ids v)\<rparr>
       in if marked then (r, True, True, v1)
          else
            let nc = int idx * sc_block_size cfg; num_affected_tokens = n_computed - nc
            in (r\<lparr>num_computed_tokens := nc,
                  num_external_computed_tokens := num_external_computed_tokens r - num_affected_tokens\<rparr>, True, True,
                v1\<lparr>total_affected_tokens := total_affected_tokens v1 + num_affected_tokens,
                   blocks_to_evict := blocks_to_evict v1 @ (if evict then drop idx block_ids else [])\<rparr>))"

definition scan_request ::
  "sched_config \<Rightarrow> int set \<Rightarrow> bool \<Rightarrow> nat \<Rightarrow> 'c Scheduler \<times> invalid_scan \<Rightarrow> ('c Scheduler \<times> invalid_scan) result" where
  "scan_request cfg invalid evict x = (\<lambda>(s, v).
     let r = obj s x; rid = request_id r in
     rbind (the_single (kvm_get_block_ids (kv_cache_manager s) rid)) (\<lambda>block_ids.
     if sc_block_size cfg = 0 then Inl ZeroDivisionError
     else
       let n_computed = (if status r = WAITING_FOR_REMOTE_KVS
                         then (if rid \<in> failed_recving_kv_req_ids s then num_computed_tokens r
                               else int (length block_ids) * sc_block_size cfg)
                         else num_cached_tokens r);
           n_blocks = (n_computed + sc_block_size cfg - 1) div sc_block_size cfg;
           (r1, is_affected, marked, v1) =
             fold (scan_block cfg invalid evict n_computed block_ids) (zip [0..<nat n_blocks] block_ids) (r, False, False, v);
           (r2, v2) =
             (if is_affected \<and> \<not> marked
              then (r1\<lparr>num_computed_tokens := num_cached_tokens r1\<rparr>,
                    v1\<lparr>total_affected_tokens := total_affected_tokens v1 + (num_computed_tokens r1 - num_cached_tokens r1)\<rparr>)
              else (r1, v1))
       in Inr (upd_obj x (\<lambda>_. r2) s,
               if is_affected then v2\<lparr>affected_req_ids := affected_req_ids v2 @ [rid]\<rparr> else v2)))"

definition update_requests_with_invalid_blocks ::
  "sched_config \<Rightarrow> nat list \<Rightarrow> int set \<Rightarrow> bool \<Rightarrow> 'c Scheduler \<Rightarrow> (invalid_scan \<times> 'c Scheduler) result" where
  "update_requests_with_invalid_blocks cfg xs invalid evict s =
     rbind (mfold (scan_request cfg invalid evict) xs
              (s, \<lparr>affected_req_ids = [], total_affected_tokens = 0, blocks_to_evict = [], marked_invalid_block_ids = {}\<rparr>))
       (\<lambda>(s1, v). Inr (v, s1))"

definition handle_invalid_blocks :: "sched_config \<Rightarrow> int set \<Rightarrow> 'c Scheduler \<Rightarrow> (string list \<times> 'c Scheduler) result" where
  "handle_invalid_blocks cfg invalid s =
     rbind (update_requests_with_invalid_blocks cfg
              (filter (\<lambda>x. status (obj s x) = WAITING_FOR_REMOTE_KVS) (rq_iter (sch_objs s) (waiting s))) invalid False s)
       (\<lambda>(va, s1).
     rbind (update_requests_with_invalid_blocks cfg (running s1) invalid True s1) (\<lambda>(vs, s2).
     if affected_req_ids va = [] \<and> affected_req_ids vs = [] then Inr ([], s2)
     else
       rbind (if blocks_to_evict vs \<noteq> [] \<and> \<not> recompute_kv_load_failures cfg
              then kvm_evict_blocks (kv_cache_manager s2) (remdups (blocks_to_evict vs))
              else Inr (kv_cache_manager s2)) (\<lambda>k.
         let s3 = s2\<lparr>kv_cache_manager := k\<rparr> in
         if \<not> recompute_kv_load_failures cfg then Inr (remdups (affected_req_ids va @ affected_req_ids vs), s3)
         else Inr (affected_req_ids vs,
                   s3\<lparr>failed_recving_kv_req_ids := failed_recving_kv_req_ids s3 \<union> set (affected_req_ids va)\<rparr>))))"

definition update_from_kv_xfer_finished ::
  "'c kv_connector_ops \<Rightarrow> KVConnectorOutput \<Rightarrow> 'c Scheduler \<Rightarrow> 'c Scheduler result" where
  "update_from_kv_xfer_finished ops out s =
     (let s1 = s\<lparr>connector := map_option (\<lambda>c. update_connector_output ops c out) (connector s),
                 finished_recving_kv_req_ids := finished_recving_kv_req_ids s \<union> set (finished_recving out)\<rparr>
      in mfold (\<lambda>rid s. case map_of (requests s) rid of
                           None \<Rightarrow> Inl AssertionError
                         | Some x \<Rightarrow> sched_free_blocks x s) (finished_sending out) s1)"

section \<open>The output of the model\<close>

record EngineCoreOutput =
  eco_request_id :: string
  eco_new_token_ids :: "int list"
  eco_finish_reason :: "FinishReason option"
  eco_pooling_output :: "bytes option"
  eco_stop_reason :: "int option"
  eco_events :: "(EngineCoreEventType \<times> rat) list option"
  eco_kv_transfer_params :: "string option"
  eco_num_cached_tokens :: int
  eco_num_nans_in_logits :: int

record EngineCoreOutputs =
  ecos_outputs :: "EngineCoreOutput list"
  ecos_finished_requests :: "string set option"
  ecos_scheduler_stats :: "SchedulerStats option"

text \<open>Local variables of \<^verbatim>\<open>update_from_output\<close>.\<close>

record update_acc =
  acc_outputs :: "(int, EngineCoreOutput list) dict"
  acc_spec_stats :: "SpecDecodingStats option"
  stopped_running_reqs :: "nat list"
  stopped_preempted_reqs :: "nat list"

definition add_output :: "int \<Rightarrow> EngineCoreOutput \<Rightarrow> (int, EngineCoreOutput list) dict \<Rightarrow> (int, EngineCoreOutput list) dict" where
  "add_output client o1 d = AList.update client ((case map_of d client of None \<Rightarrow> [] | Some l \<Rightarrow> l) @ [o1]) d"

text \<open>Rejected draft tokens are taken back from the counters.\<close>

definition reject_drafts ::
  "sched_config \<Rightarrow> SchedulerOutput \<Rightarrow> string \<Rightarrow> int list \<Rightarrow> int list \<Rightarrow> SpecDecodingStats option \<Rightarrow> Request \<Rightarrow>
   (SpecDecodingStats option \<times> Request) result" where
  "reject_drafts cfg out rid scheduled generated stats r =
     (if scheduled = [] \<or> generated = [] then Inr (stats, r)
      else
        let n_draft = int (length scheduled); n_accepted = int (length generated) - 1; n_rejected = n_draft - n_accepted;
            r1 = r\<lparr>num_computed_tokens := (if num_computed_tokens r > 0 then num_computed_tokens r - n_rejected else num_computed_tokens r),
                   num_output_placeholders := (if num_output_placeholders r > 0 then num_output_placeholders r - n_rejected
                                               else num_output_placeholders r)\<rparr>
        in rbind (make_spec_decoding_stats cfg stats n_draft n_accepted (out_num_invalid_spec_tokens out) rid) (\<lambda>st.
             Inr (st, r1)))"

text \<open>Stop handling: whether the request stopped, its new tokens and, when finished, the transfer parameters.\<close>

definition stop_request ::
  "sched_config \<Rightarrow> 'c kv_connector_ops \<Rightarrow> rat \<Rightarrow> nat \<Rightarrow> RequestStatus \<Rightarrow> 'c Scheduler \<times> update_acc \<Rightarrow>
   (string option \<times> 'c Scheduler \<times> update_acc) outcome" where
  "stop_request cfg ops now x status_before = (\<lambda>(s, acc).
     obind (handle_stopped_request cfg now x s) (\<lambda>(finished, s1).
     obind (Some (if finished then free_request cfg ops x s1 else Inr (None, s1))) (\<lambda>(params, s2).
       Some (Inr (params, s2,
         if status_before = RUNNING then acc\<lparr>stopped_running_reqs := stopped_running_reqs acc @ [x]\<rparr>
         else acc\<lparr>stopped_preempted_reqs := stopped_preempted_reqs acc @ [x]\<rparr>)))))"

text \<open>New tokens are appended; a pooling request stops as soon as there is output.\<close>

definition apply_output ::
  "sched_config \<Rightarrow> nat \<Rightarrow> int list \<Rightarrow> bytes option \<Rightarrow> 'c Scheduler \<Rightarrow> ((int list \<times> bool) \<times> 'c Scheduler) outcome" where
  "apply_output cfg x generated pooled s =
     (if generated \<noteq> [] then update_request_with_output cfg x generated s
      else if pooling_params (obj s x) \<noteq> None \<and> pooled \<noteq> None
      then Some (Inr (([], True), set_status FINISHED_STOPPED x s))
      else Some (Inr (([], False), s)))"

text \<open>The output for the client.\<close>

definition emit_output ::
  "ModelRunnerOutput \<Rightarrow> string \<Rightarrow> nat \<Rightarrow> int list \<Rightarrow> bool \<Rightarrow> FinishReason option \<Rightarrow> bytes option \<Rightarrow> string option \<Rightarrow>
   'c Scheduler \<times> update_acc \<Rightarrow> ('c Scheduler \<times> update_acc) result" where
  "emit_output mro rid x new_tokens stopped reason pooled params = (\<lambda>(s, acc).
     let s1 = upd_obj x (\<lambda>r. case map_of (mro_num_nans_in_logits mro) rid of
                               None \<Rightarrow> r | Some k \<Rightarrow> r\<lparr>num_nans_in_logits := k\<rparr>) s
     in if new_tokens \<noteq> [] \<or> pooled \<noteq> None \<or> params \<noteq> None \<or> stopped
        then let (evs, r) = take_req_events (obj s1 x)
             in Inr (upd_obj x (\<lambda>_. r) s1,
               acc\<lparr>acc_outputs := add_output (client_index r)
                 \<lparr>eco_request_id = rid, eco_new_token_ids = new_tokens, eco_finish_reason = reason,
                  eco_pooling_output = pooled, eco_stop_reason = stop_reason r, eco_events = evs,
                  eco_kv_transfer_params = params, eco_num_cached_tokens = num_cached_tokens r,
                  eco_num_nans_in_logits = num_nans_in_logits r\<rparr> (acc_outputs acc)\<rparr>)
        else py_assert (map_of (prompt_logprobs_dict mro) rid \<noteq> Some True) (Inr (s1, acc)))"

definition process_request ::
  "sched_config \<Rightarrow> 'c kv_connector_ops \<Rightarrow> rat \<Rightarrow> SchedulerOutput \<Rightarrow> ModelRunnerOutput \<Rightarrow> string \<Rightarrow> nat \<Rightarrow>
   'c Scheduler \<times> update_acc \<Rightarrow> ('c Scheduler \<times> update_acc) outcome" where
  "process_request cfg ops now out mro rid x = (\<lambda>(s, acc).
     obind (Some (dict_item (req_id_to_index mro) rid)) (\<lambda>idx.
     obind (Some (if sampled_token_ids mro = [] then Inr [] else py_index (sampled_token_ids mro) idx)) (\<lambda>generated.
     obind (Some (reject_drafts cfg out rid
                    (case map_of (out_scheduled_spec_decode_tokens out) rid of None \<Rightarrow> [] | Some ts \<Rightarrow> ts)
                    generated (acc_spec_stats acc) (obj s x))) (\<lambda>(st, r1).
     obind (Some (if pooler_output mro = [] then Inr None else py_index (pooler_output mro) idx)) (\<lambda>pooled.
     obind (apply_output cfg x generated pooled (upd_obj x (\<lambda>_. r1) s)) (\<lambda>((new_tokens, stopped), s1).
     obind (if stopped then stop_request cfg ops now x (status r1) (s1, acc\<lparr>acc_spec_stats := st\<rparr>)
            else Some (Inr (None, s1, acc\<lparr>acc_spec_stats := st\<rparr>))) (\<lambda>(params, s2, acc1).
       Some (emit_output mro rid x new_tokens stopped
               (if stopped then get_finished_reason (obj s1 x) else None) pooled params (s2, acc1)))))))))"

definition process_output ::
  "sched_config \<Rightarrow> 'c kv_connector_ops \<Rightarrow> rat \<Rightarrow> SchedulerOutput \<Rightarrow> ModelRunnerOutput \<Rightarrow> string list \<Rightarrow> string \<times> int \<Rightarrow>
   'c Scheduler \<times> update_acc \<Rightarrow> ('c Scheduler \<times> update_acc) outcome" where
  "process_output cfg ops now out mro failed = (\<lambda>(rid, n) (s, acc).
     if \<not> n > 0 then Some (Inl AssertionError)
     else if rid \<in> set failed then Some (Inr (s, acc))
     else
       (case map_of (requests s) rid of
          None \<Rightarrow> Some (Inr (s, acc))
        | Some x \<Rightarrow> process_request cfg ops now out mro rid x (s, acc)))"

text \<open>Requests whose load failed are finished with an error when the policy is not to recompute.\<close>

definition fail_loads ::
  "sched_config \<Rightarrow> 'c kv_connector_ops \<Rightarrow> string list \<Rightarrow> 'c Scheduler \<times> update_acc \<Rightarrow> ('c Scheduler \<times> update_acc) result" where
  "fail_loads cfg ops failed = (\<lambda>(s, acc).
     if failed = [] \<or> recompute_kv_load_failures cfg then Inr (s, acc)
     else
       rbind (mmap (dict_item (requests s)) failed) (\<lambda>xs.
       rbind (finish_requests cfg ops failed FINISHED_ERROR s) (\<lambda>s1.
         Inr (fold (\<lambda>x (s, acc).
                let (evs, r) = take_req_events (obj s x)
                in (upd_obj x (\<lambda>_. r) s,
                    acc\<lparr>acc_outputs := add_output (client_index r)
                      \<lparr>eco_request_id = request_id r, eco_new_token_ids = [], eco_finish_reason = get_finished_reason r,
                       eco_pooling_output = None, eco_stop_reason = None, eco_events = evs, eco_kv_transfer_params = None,
                       eco_num_cached_tokens = num_cached_tokens r, eco_num_nans_in_logits = 0\<rparr> (acc_outputs acc)\<rparr>))
              xs (s1, acc)))))"

text \<open>The dictionary of outputs per client, with the finished ids and the statistics.\<close>

definition engine_outputs ::
  "(int, EngineCoreOutput list) dict \<Rightarrow> (int, string set) dict option \<Rightarrow> SchedulerStats option \<Rightarrow> (int, EngineCoreOutputs) dict" where
  "engine_outputs outs finished stats =
     (let d0 = map (\<lambda>(c, l). (c, \<lparr>ecos_outputs = l, ecos_finished_requests = None, ecos_scheduler_stats = None\<rparr>)) outs;
          d1 = fold (\<lambda>(c, ids) d. AList.update c
                 (case map_of d c of
                    Some e \<Rightarrow> e\<lparr>ecos_finished_requests := Some ids\<rparr>
                  | None \<Rightarrow> \<lparr>ecos_outputs = [], ecos_finished_requests = Some ids, ecos_scheduler_stats = None\<rparr>) d)
               (case finished of None \<Rightarrow> [] | Some f \<Rightarrow> f) d0
      in case stats of
           None \<Rightarrow> d1
         | Some st \<Rightarrow>
             (case d1 of
                [] \<Rightarrow> [(0, \<lparr>ecos_outputs = [], ecos_finished_requests = None, ecos_scheduler_stats = Some st\<rparr>)]
              | (c, e) # d2 \<Rightarrow> (c, e\<lparr>ecos_scheduler_stats := Some st\<rparr>) # d2))"

text \<open>The KV events that go to the publisher are the second component of the result.\<close>

definition update_from_output ::
  "sched_config \<Rightarrow> 'c kv_connector_ops \<Rightarrow> rat \<Rightarrow> SchedulerOutput \<Rightarrow> ModelRunnerOutput \<Rightarrow> 'c Scheduler \<Rightarrow>
   (((int, EngineCoreOutputs) dict \<times> KVCacheEvent list) \<times> 'c Scheduler) outcome" where
  "update_from_output cfg ops now out mro s =
     obind (Some (case kv_connector_output mro of
                    Some kco \<Rightarrow> if invalid_block_ids kco \<noteq> {} then handle_invalid_blocks cfg (invalid_block_ids kco) s
                                else Inr ([], s)
                  | None \<Rightarrow> Inr ([], s))) (\<lambda>(failed, s0).
     obind (omfold (process_output cfg ops now out mro failed) (out_num_scheduled_tokens out)
              (s0, \<lparr>acc_outputs = [], acc_spec_stats = None, stopped_running_reqs = [], stopped_preempted_reqs = []\<rparr>))
       (\<lambda>(s1, acc).
     let s2 = s1\<lparr>running := (if stopped_running_reqs acc = [] then running s1
                             else remove_all (running s1) (set (stopped_running_reqs acc))),
                 waiting := (if stopped_preempted_reqs acc = [] then waiting s1
                             else rq_remove_requests (sch_objs s1) (waiting s1) (stopped_preempted_reqs acc))\<rparr> in
     obind (Some (fail_loads cfg ops failed (s2, acc))) (\<lambda>(s3, acc1).
     obind (Some (case kv_connector_output mro of None \<Rightarrow> Inr s3 | Some kco \<Rightarrow> update_from_kv_xfer_finished ops kco s3)) (\<lambda>s4.
     let (events, k) = kvm_take_events (kv_cache_manager s4);
         (conn_events, conn) = (case connector s4 of
                                  None \<Rightarrow> ([], None)
                                | Some c \<Rightarrow> (let (es, c1) = connector_take_events ops c in (es, Some c1)));
         s5 = s4\<lparr>kv_cache_manager := k, connector := conn\<rparr>
     in obind (Some (make_stats cfg (acc_spec_stats acc1) s5)) (\<lambda>(stats, s6).
          Some (Inr ((engine_outputs (acc_outputs acc1) (finished_req_ids_dict s6) stats, events @ conn_events),
                     s6\<lparr>finished_req_ids_dict := map_option (\<lambda>_. []) (finished_req_ids_dict s6)\<rparr>)))))))"

section \<open>Draft tokens\<close>

text \<open>\<open>advance\<close> and \<open>validate\<close> are the structured output manager and the grammar of a request.\<close>

definition set_draft_tokens ::
  "(Request \<Rightarrow> bool) \<Rightarrow> (Request \<Rightarrow> int list \<Rightarrow> int list) \<Rightarrow> string \<times> int list \<Rightarrow> 'c Scheduler \<Rightarrow> 'c Scheduler" where
  "set_draft_tokens advance validate = (\<lambda>(rid, tokens) s.
     case map_of (requests s) rid of
       None \<Rightarrow> s
     | Some x \<Rightarrow>
         if is_finished (obj s x) then s
         else upd_obj x (\<lambda>r. r\<lparr>spec_token_ids := (if advance r then validate r tokens else tokens)\<rparr>) s)"

definition update_draft_token_ids ::
  "(Request \<Rightarrow> bool) \<Rightarrow> (Request \<Rightarrow> int list \<Rightarrow> int list) \<Rightarrow> (string \<times> int list) list \<Rightarrow> 'c Scheduler \<Rightarrow> 'c Scheduler" where
  "update_draft_token_ids advance validate drafts s = fold (set_draft_tokens advance validate) drafts s"

definition pad_draft_tokens ::
  "'c Scheduler \<Rightarrow> (Request \<Rightarrow> bool) \<Rightarrow> (Request \<Rightarrow> int list \<Rightarrow> int list) \<Rightarrow> string \<times> int list \<Rightarrow>
   (string, int list) dict \<times> (string, int) dict \<Rightarrow> (string, int list) dict \<times> (string, int) dict" where
  "pad_draft_tokens s advance validate = (\<lambda>(rid, tokens) (sched, invalid).
     case map_of (requests s) rid of
       None \<Rightarrow> (sched, invalid)
     | Some x \<Rightarrow>
         if is_finished (obj s x) then (sched, invalid)
         else (case map_of sched rid of
                 None \<Rightarrow> (sched, invalid)
               | Some [] \<Rightarrow> (sched, invalid)
               | Some placeholders \<Rightarrow>
                   (let ts0 = take (length placeholders) tokens;
                        ts = (if advance (obj s x) then validate (obj s x) ts0 else ts0);
                        num_invalid = int (length placeholders) - int (length ts)
                    in if num_invalid = 0 then (AList.update rid ts sched, invalid)
                       else (AList.update rid (ts @ replicate (nat num_invalid) (-1)) sched,
                             AList.update rid num_invalid invalid))))"

definition update_draft_token_ids_in_output ::
  "'c Scheduler \<Rightarrow> (Request \<Rightarrow> bool) \<Rightarrow> (Request \<Rightarrow> int list \<Rightarrow> int list) \<Rightarrow> (string \<times> int list) list \<Rightarrow> SchedulerOutput \<Rightarrow> SchedulerOutput" where
  "update_draft_token_ids_in_output s advance validate drafts out =
     (let (sched, invalid) = fold (pad_draft_tokens s advance validate) drafts (out_scheduled_spec_decode_tokens out, [])
      in out\<lparr>out_scheduled_spec_decode_tokens := sched, out_num_invalid_spec_tokens := Some invalid\<rparr>)"

definition get_grammar_bitmask_ids :: "'c Scheduler \<Rightarrow> SchedulerOutput \<Rightarrow> string list option" where
  "get_grammar_bitmask_ids s out =
     (let ids = filter (\<lambda>rid. case map_of (requests s) rid of None \<Rightarrow> False | Some x \<Rightarrow> use_structured_output (obj s x))
                  (dict_keys (out_num_scheduled_tokens out))
      in if ids = [] then None else Some ids)"

section \<open>Resetting and counting\<close>

function preempt_all :: "sched_config \<Rightarrow> rat \<Rightarrow> 'c Scheduler \<Rightarrow> 'c Scheduler result" where
  "preempt_all cfg now s =
     (if running s = [] then Inr s
      else
        let x = last (running s)
        in case preempt_request cfg now x (s\<lparr>running := butlast (running s)\<rparr>) of
             Inl e \<Rightarrow> Inl e
           | Inr s1 \<Rightarrow> preempt_all cfg now
               (upd_obj x (\<lambda>r. r\<lparr>num_output_placeholders := 0, discard_latest_async_tokens := True\<rparr>) s1))"
  by pat_completeness auto
termination
  by (relation "measure (\<lambda>(cfg, now, s). length (running s))")
    (auto simp: upd_obj_def dest!: preempt_request_running)

declare preempt_all.simps [simp del, code]

definition reset_connector_cache :: "sched_config \<Rightarrow> 'c kv_connector_ops \<Rightarrow> 'c Scheduler \<Rightarrow> (bool \<times> 'c Scheduler) result" where
  "reset_connector_cache cfg ops s =
     (case connector s of
        None \<Rightarrow> Inr (False, s)
      | Some c \<Rightarrow>
          (let (res, c1) = connector_reset_cache ops c; s1 = s\<lparr>connector := Some c1\<rparr> in
           if res = Some False then Inr (False, s1)
           else if sc_log_stats cfg
           then (case connector_prefix_cache_stats s1 of
                   None \<Rightarrow> Inl AssertionError
                 | Some st \<Rightarrow> Inr (True, s1\<lparr>connector_prefix_cache_stats := Some (st\<lparr>st_reset := True\<rparr>)\<rparr>))
           else Inr (True, s1)))"

definition sched_reset_prefix_cache ::
  "sched_config \<Rightarrow> 'c kv_connector_ops \<Rightarrow> rat \<Rightarrow> bool \<Rightarrow> bool \<Rightarrow> 'c Scheduler \<Rightarrow> (bool \<times> 'c Scheduler) result" where
  "sched_reset_prefix_cache cfg ops now reset_running_requests reset_connector s =
     rbind (if reset_running_requests
            then rbind (preempt_all cfg now s) (\<lambda>s1. Inr (s1\<lparr>prev_step_scheduled_req_ids := {}\<rparr>))
            else Inr s) (\<lambda>s2.
     rbind (kvm_reset_prefix_cache (kv_cache_manager s2)) (\<lambda>(reset_successful, k).
       let s3 = s2\<lparr>kv_cache_manager := k\<rparr> in
       if reset_running_requests \<and> \<not> reset_successful then Inl RuntimeError
       else if reset_connector
       then rbind (reset_connector_cache cfg ops s3) (\<lambda>(b, s4). Inr (b \<and> reset_successful, s4))
       else Inr (reset_successful, s3)))"

definition get_request_counts :: "'c Scheduler \<Rightarrow> int \<times> int" where
  "get_request_counts s = (int (length (running s)), rq_len (waiting s))"

definition get_num_unfinished_requests :: "'c Scheduler \<Rightarrow> int" where
  "get_num_unfinished_requests s =
     rq_len (waiting s) - num_waiting_for_streaming_input s + int (length (running s))"

definition has_finished_requests :: "'c Scheduler \<Rightarrow> bool" where
  "has_finished_requests s \<longleftrightarrow> finished_req_ids s \<noteq> {}"

end
