(* ===== verification/Sched_Queues.thy ===== *)
theory Sched_Queues
  imports Sched_Update
begin

text \<open>
  Which requests the queues hold, whatever their order: the operations of \<^verbatim>\<open>heapq\<close> and of the two queue
  classes as operations on multisets. These laws need no heap order, so they also hold where the
  scheduler changes the key of a queued request.
\<close>

section \<open>Heap operations permute\<close>

lemma mset_siftdown_loop: "p < length h \<Longrightarrow> mset (siftdown_loop lt x s h p) = mset (h[p := x])"
proof (induction lt x s h p rule: siftdown_loop.induct)
  case (1 lt x s h p)
  let ?q = "(p - 1) div 2"
  show ?case
  proof (cases "s < p \<and> lt x (h ! ?q)")
    case True
    then have q: "?q < p" "?q < length h" using "1.prems" by auto
    have "mset (siftdown_loop lt x s (h[p := h ! ?q]) ?q) = mset (h[p := h ! ?q, ?q := x])"
      using "1.IH"[OF _ refl refl] True q by simp
    also have "\<dots> = mset (h[p := x])" using mset_swap[of ?q "h[p := x]" p] q "1.prems" by simp
    finally show ?thesis using True by (subst siftdown_loop.simps) (simp add: Let_def)
  next
    case False
    then show ?thesis by (subst siftdown_loop.simps) (auto simp: Let_def)
  qed
qed

lemma mset_siftdown: "p < length h \<Longrightarrow> mset (siftdown lt h s p) = mset h"
  by (simp add: siftdown_def mset_siftdown_loop)

lemma mset_siftup_loop:
  "siftup_loop lt h p = (h', p') \<Longrightarrow> p < length h \<Longrightarrow> p' < length h \<and> length h' = length h \<and> mset (h'[p' := x]) = mset (h[p := x])"
proof (induction lt h p arbitrary: h' p' rule: siftup_loop.induct)
  case (1 lt h p)
  let ?c = "if 2 * p + 1 + 1 < length h \<and> \<not> lt (h ! (2 * p + 1)) (h ! (2 * p + 1 + 1)) then 2 * p + 1 + 1 else 2 * p + 1"
  show ?case
  proof (cases "2 * p + 1 < length h")
    case True
    define c where "c = ?c"
    have c: "c < length h" "c \<noteq> p" using True by (auto simp: c_def)
    have l: "siftup_loop lt (h[p := h ! c]) c = (h', p')"
      using "1.prems"(1) True unfolding c_def by (subst (asm) siftup_loop.simps) (auto simp: Let_def split: if_splits)
    have "p' < length h \<and> length h' = length h \<and> mset (h'[p' := x]) = mset (h[p := h ! c, c := x])"
      using "1.IH"[OF True refl refl refl, folded c_def, OF l] c by simp
    moreover have "mset (h[p := h ! c, c := x]) = mset (h[p := x])"
      using mset_swap[of c "h[p := x]" p] c "1.prems"(2) by simp
    ultimately show ?thesis by simp
  next
    case False
    then show ?thesis using "1.prems" by (subst (asm) siftup_loop.simps) simp
  qed
qed

lemma mset_siftup: "p < length h \<Longrightarrow> mset (siftup lt p h) = mset h"
proof -
  assume p: "p < length h"
  obtain h' p' where l: "siftup_loop lt h p = (h', p')" by fastforce
  from mset_siftup_loop[OF l p, of "h ! p"] p show ?thesis by (simp add: siftup_def l mset_siftdown)
qed

lemma mset_heappush: "mset (heappush lt h x) = add_mset x (mset h)"
  by (simp add: heappush_def mset_siftdown)

lemma mset_heappop: "heappop lt h = Inr (x, h') \<Longrightarrow> mset h = add_mset x (mset h') \<and> x = h ! 0"
proof -
  assume p: "heappop lt h = Inr (x, h')"
  then have ne: "h \<noteq> []" by (auto simp: heappop_def)
  show ?thesis
  proof (cases "butlast h = []")
    case True
    then obtain a where "h = [a]" using ne by (metis append_butlast_last_id append_self_conv2)
    then show ?thesis using p by (simp add: heappop_def)
  next
    case False
    let ?b = "butlast h"
    have h: "h = ?b @ [last h]" using ne by simp
    have x: "x = ?b ! 0" "h' = siftup lt 0 (?b[0 := last h])" using p ne False by (auto simp: heappop_def Let_def)
    have "mset h' = mset (?b[0 := last h])" using x(2) False mset_siftup[of 0 "?b[0 := last h]"] by (simp add: length_greater_0_conv[symmetric] del: length_greater_0_conv)
    moreover have "add_mset (?b ! 0) (mset (?b[0 := last h])) = add_mset (last h) (mset ?b)"
      using False by (cases ?b) auto
    ultimately have "mset h = add_mset x (mset h')" using x(1) by (subst h) simp
    then show ?thesis using x(1) False by (metis h nth_append length_greater_0_conv)
  qed
qed

lemma mset_heapify: "mset (heapify lt h) = mset h"
proof -
  have "mset (fold (siftup lt) ns h) = mset h \<and> length (fold (siftup lt) ns h) = length h"
    if "\<forall>n \<in> set ns. n < length h" for ns and h :: "'a list"
    using that
  proof (induction ns arbitrary: h)
    case (Cons n ns)
    then show ?case using mset_siftup[of n h lt] by simp
  qed simp
  moreover have "\<forall>n \<in> set (rev [0..<length h div 2]). n < length h" by auto
  ultimately show ?thesis by (simp add: heapify_def)
qed

lemma mset_heap_drain: "mset (heap_drain lt h) = mset h"
proof (induction h rule: measure_induct_rule[of length])
  case (less h)
  show ?case
  proof (cases "heappop lt h")
    case (Inl e)
    then have "h = []" by (auto simp: heappop_def Let_def split: if_splits)
    then show ?thesis by (simp add: heap_drain.simps[of _ "[]"] heappop_def)
  next
    case (Inr a)
    obtain x h' where a: "a = (x, h')" by fastforce
    have "heap_drain lt h = x # heap_drain lt h'" using Inr a by (subst heap_drain.simps) simp
    then show ?thesis using less.IH[OF heappop_shorter, of lt x h'] mset_heappop[of lt h x h'] Inr a by simp
  qed
qed

section \<open>Queues as bags\<close>

text \<open>What the scheduler relies on when only membership counts.\<close>

locale request_bag =
  fixes bag :: "'q \<Rightarrow> 'r multiset" and add :: "'q \<Rightarrow> 'r \<Rightarrow> 'q" and prepend :: "'q \<Rightarrow> 'r \<Rightarrow> 'q"
    and pop :: "'q \<Rightarrow> ('r \<times> 'q) result" and peek :: "'q \<Rightarrow> 'r result"
    and remove_many :: "'q \<Rightarrow> 'r list \<Rightarrow> 'q" and prepend_many :: "'q \<Rightarrow> 'q \<Rightarrow> 'q"
  assumes bag_add: "bag (add q r) = add_mset r (bag q)"
    and bag_prepend: "bag (prepend q r) = add_mset r (bag q)"
    and bag_pop: "pop q = Inr (r, q') \<Longrightarrow> bag q = add_mset r (bag q') \<and> peek q = Inr r"
    and bag_remove: "bag (remove_many q rs) = filter_mset (\<lambda>r. r \<notin> set rs) (bag q)"
    and bag_prepend_many: "bag (prepend_many q q') = bag q + bag q'"
begin

lemma pop_head: "peek q = Inr r \<Longrightarrow> pop q = Inr (r', q') \<Longrightarrow> r' = r"
  using bag_pop by fastforce

lemma set_bag_remove: "set_mset (bag (remove_many q rs)) = set_mset (bag q) - set rs"
  by (auto simp: bag_remove)

lemma count_bag_remove: "count (bag (remove_many q rs)) r = (if r \<in> set rs then 0 else count (bag q) r)"
  by (simp add: bag_remove)

end

definition rq_bag :: "'r RequestQueue \<Rightarrow> 'r multiset" where
  "rq_bag q = mset (rq_elems q)"

lemma rq_bag_simps [simp]:
  "rq_bag (FCFSRequestQueue xs) = mset xs" "rq_bag (PriorityRequestQueue h) = mset h"
  by (simp_all add: rq_bag_def)

lemma mset_prio_prepend: "mset (fold (\<lambda>r h. heappush lt h r) rs h) = mset h + mset rs"
  by (induction rs arbitrary: h) (simp_all add: mset_heappush)

lemma mset_iter: "mset (rq_iter f q) = rq_bag q"
  by (cases q) (simp_all add: mset_heap_drain)

interpretation qb: request_bag rq_bag "rq_add_request f" "rq_prepend_request f" "rq_pop_request f" rq_peek_request
  "rq_remove_requests f" "rq_prepend_requests f" for f :: "'r \<Rightarrow> Request"
proof (unfold_locales, goal_cases)
  case (1 q r)
  then show ?case by (cases q) (simp_all add: mset_heappush)
next
  case (2 q r)
  then show ?case by (cases q) (simp_all add: mset_heappush)
next
  case (3 q r q')
  then show ?case
    by (cases q) (auto simp: rbind_Inr_iff split: list.splits if_splits dest: mset_heappop)
next
  case (4 q rs)
  then show ?case by (cases q) (simp_all add: mset_heapify)
next
  case (5 q q')
  then show ?case by (cases q) (simp_all add: mset_prio_prepend mset_iter add.commute)
qed

lemma rq_len_bag: "rq_len q = int (size (rq_bag q))"
  by (cases q) simp_all

lemma rq_bag_create [simp]: "rq_bag (create_request_queue p) = {#}"
  by (cases p) simp_all

end
