(* ===== verification/Sched_Invariant.thy ===== *)
theory Sched_Invariant
  imports Sched_Queues
begin

text \<open>
  Requests are neither lost nor duplicated by a scheduling step: each of its parts keeps the bag of
  queued requests, moves a request between the running list and the waiting queue together with its
  status, and leaves the request table alone.
\<close>

section \<open>The invariant\<close>

definition queued :: "'c Scheduler \<Rightarrow> nat multiset" where
  "queued s = mset (running s) + rq_bag (waiting s)"

text \<open>Every queued request is queued once, with a status that fits the queue it is in.\<close>

definition well_queued :: "'c Scheduler \<Rightarrow> nat multiset \<Rightarrow> bool" where
  "well_queued s extra \<longleftrightarrow> (\<forall>x. count (queued s + extra) x \<le> 1) \<and> (\<forall>x \<in> set (running s). status (obj s x) = RUNNING) \<and>
     (\<forall>x \<in># rq_bag (waiting s) + extra. waitable (status (obj s x)))"

definition same_ids :: "'c Scheduler \<Rightarrow> 'c Scheduler \<Rightarrow> bool" where
  "same_ids s s' \<longleftrightarrow> requests s' = requests s \<and> (\<forall>y. py_id (obj s' y) = py_id (obj s y) \<and> request_id (obj s' y) = request_id (obj s y))"

text \<open>The request table: keys are the request ids, entries their identities, and what is queued is listed.\<close>

definition requests_ok :: "'c Scheduler \<Rightarrow> bool" where
  "requests_ok s \<longleftrightarrow> distinct (map fst (requests s)) \<and>
     (\<forall>rid x. map_of (requests s) rid = Some x \<longrightarrow> request_id (obj s x) = rid \<and> py_id (obj s x) = x) \<and>
     (\<forall>x \<in># queued s. map_of (requests s) (request_id (obj s x)) = Some x)"

definition sched_ok :: "'c Scheduler \<Rightarrow> bool" where
  "sched_ok s \<longleftrightarrow> well_queued s {#} \<and> requests_ok s"

text \<open>The relation that every part of a step establishes between the states before and after it.\<close>

definition keeps :: "nat multiset \<Rightarrow> 'c Scheduler \<Rightarrow> nat multiset \<Rightarrow> 'c Scheduler \<Rightarrow> bool" where
  "keeps e s e' s' \<longleftrightarrow> queued s' + e' = queued s + e \<and> same_ids s s' \<and> (well_queued s e \<longrightarrow> well_queued s' e')"

lemma same_ids_refl [simp]: "same_ids s s"
  by (simp add: same_ids_def)

lemma same_ids_trans: "same_ids s s' \<Longrightarrow> same_ids s' s'' \<Longrightarrow> same_ids s s''"
  by (simp add: same_ids_def)

lemma keeps_refl [simp]: "keeps e s e s"
  by (simp add: keeps_def)

lemma keeps_trans [trans]: "keeps e s e' s' \<Longrightarrow> keeps e' s' e'' s'' \<Longrightarrow> keeps e s e'' s''"
  unfolding keeps_def using same_ids_trans by auto

lemma keeps_same_queues: "same_queues s s' \<Longrightarrow> keeps e s e s'"
  unfolding keeps_def queued_def same_ids_def well_queued_def same_queues_def same_req_def
  by (metis waitable_simps(6))

lemma same_queues_frame [simp]:
  "same_queues s (s\<lparr>encoder_cache_manager := m\<rparr>)" "same_queues s (s\<lparr>kv_cache_manager := k\<rparr>)" "same_queues s (s\<lparr>connector := c\<rparr>)"
  by (simp_all add: same_queues_def)

lemma keeps_frame [simp]: "keeps e s e (s\<lparr>encoder_cache_manager := m\<rparr>)" "keeps e s e (s\<lparr>kv_cache_manager := k\<rparr>)"
  by (rule keeps_same_queues, simp)+

lemma keeps_sched_ok: "keeps {#} s {#} s' \<Longrightarrow> sched_ok s \<Longrightarrow> sched_ok s'"
  by (auto simp: keeps_def sched_ok_def requests_ok_def same_ids_def)

section \<open>Preemption\<close>

lemma pick_victim_frame:
  assumes "pick_victim cfg (s, p) = Inr (x, s', p')"
  shows "s' = s\<lparr>running := running s'\<rparr>" "mset (running s) = add_mset x (mset (running s'))"
proof -
  have x: "x \<in> set (running s)" using pick_victim_running(1)[OF assms] .
  have "s' = s\<lparr>running := remove1 x (running s)\<rparr> \<or> (running s \<noteq> [] \<and> x = last (running s) \<and> s' = s\<lparr>running := butlast (running s)\<rparr>)"
    using assms by (auto simp: pick_victim_def rbind_Inr_iff Let_def split: SchedulingPolicy.splits if_splits)
  moreover have "mset (running s) = add_mset (last (running s)) (mset (butlast (running s)))" if "running s \<noteq> []"
    using arg_cong[OF append_butlast_last_id[OF that], of mset] by simp
  ultimately show "s' = s\<lparr>running := running s'\<rparr>" "mset (running s) = add_mset x (mset (running s'))"
    using x by (auto simp: mset_remove1)
qed

lemma preempt_request_frame:
  assumes "preempt_request cfg now x s = Inr s'"
  shows "rq_bag (waiting s') = add_mset x (rq_bag (waiting s))" "running s' = running s" "requests s' = requests s"
    "status (obj s x) = RUNNING"
    "\<exists>r. sch_objs s' = (sch_objs s)(x := r) \<and> status r = PREEMPTED \<and> py_id r = py_id (obj s x) \<and> request_id r = request_id (obj s x) \<and>
       num_computed_tokens r = 0 \<and> priority r = priority (obj s x) \<and> arrival_time r = arrival_time (obj s x) \<and> same_tokens (obj s x) r"
proof -
  obtain k m where km: "kvm_free (kv_cache_manager s) (obj s x) = Inr k" "em_free (set_order cfg) (obj s x) (encoder_cache_manager s) = Inr m"
    using assms by (auto simp: preempt_request_def rbind_Inr_iff)
  define s1 where "s1 = upd_obj x (\<lambda>r. log_event cfg EV_PREEMPTED now
      (r\<lparr>status := PREEMPTED, num_computed_tokens := 0, spec_token_ids := [], num_preemptions := num_preemptions r + 1\<rparr>))
    (s\<lparr>kv_cache_manager := k, encoder_cache_manager := m\<rparr>)"
  have s': "status (obj s x) = RUNNING" "s' = s1\<lparr>waiting := rq_prepend_request (sch_objs s1) (waiting s1) x\<rparr>"
    using assms km by (auto simp: preempt_request_def s1_def Let_def)
  show "rq_bag (waiting s') = add_mset x (rq_bag (waiting s))" "running s' = running s" "requests s' = requests s"
    "status (obj s x) = RUNNING"
    using s' qb.bag_prepend by (auto simp: s1_def upd_obj_def)
  show "\<exists>r. sch_objs s' = (sch_objs s)(x := r) \<and> status r = PREEMPTED \<and> py_id r = py_id (obj s x) \<and> request_id r = request_id (obj s x) \<and>
       num_computed_tokens r = 0 \<and> priority r = priority (obj s x) \<and> arrival_time r = arrival_time (obj s x) \<and> same_tokens (obj s x) r"
    using s'(2) by (intro exI[of _ "log_event cfg EV_PREEMPTED now ((obj s x)\<lparr>status := PREEMPTED, num_computed_tokens := 0,
        spec_token_ids := [], num_preemptions := num_preemptions (obj s x) + 1\<rparr>)"])
      (simp add: s1_def upd_obj_def log_event_def record_event_def same_tokens_def)
qed

text \<open>Moving a request from the running list to the waiting queue.\<close>

lemma keeps_move_to_waiting:
  assumes "mset (running s) = add_mset x (mset (running s'))" "rq_bag (waiting s') = add_mset x (rq_bag (waiting s))"
    "requests s' = requests s" "sch_objs s' = (sch_objs s)(x := r)" "waitable (status r)"
    "py_id r = py_id (obj s x)" "request_id r = request_id (obj s x)"
  shows "keeps e s e s'"
proof -
  have q: "queued s' = queued s" using assms(1,2) by (simp add: queued_def)
  have "same_ids s s'" using assms by (auto simp: same_ids_def)
  moreover have "well_queued s' e" if w: "well_queued s e"
  proof -
    have "count (queued s + e) x \<le> 1" using w by (auto simp: well_queued_def)
    then have notin: "x \<notin> set (running s')" using assms(1) by (auto simp: queued_def count_eq_zero_iff)
    have "set (running s') \<subseteq> set (running s)" using assms(1) by (metis set_mset_add_mset_insert set_mset_mset subset_insertI)
    then show ?thesis using w notin assms(2,4,5) by (auto simp: well_queued_def q)
  qed
  ultimately show ?thesis using q by (simp add: keeps_def)
qed

lemma preempt_one_keeps:
  assumes "preempt_one cfg now (s, p) = Inr (x, s', p')"
  shows "keeps e s e s'"
proof -
  obtain s1 p1 where v: "pick_victim cfg (s, p) = Inr (x, s1, p1)" "preempt_request cfg now x s1 = Inr s'"
    using assms by (auto simp: preempt_one_def rbind_Inr_iff)
  note f = pick_victim_frame[OF v(1)] and g = preempt_request_frame[OF v(2)]
  have s1: "waiting s1 = waiting s" "requests s1 = requests s" "sch_objs s1 = sch_objs s"
    by (subst f(1), simp)+
  obtain r where "sch_objs s' = (sch_objs s)(x := r)" "status r = PREEMPTED" "py_id r = py_id (obj s x)" "request_id r = request_id (obj s x)"
    using g(5) s1(3) by auto
  then show ?thesis using f(2) g(1-3) s1 by (intro keeps_move_to_waiting[where r = r]) simp_all
qed

lemma alloc_loop_keeps:
  assumes "alloc_loop cfg now x n s p = Inr (b, s', p')"
  shows "keeps e s e s'"
  using assms
proof (induction rule: alloc_loop_induct)
  case (self s p k s2 p2)
  then show ?case using preempt_one_keeps[OF self(2)] keeps_trans keeps_frame(2) by blast
next
  case (preempt s p k v s2 p2 b s' p')
  then show ?case using preempt_one_keeps[OF preempt(2)] keeps_trans keeps_frame(2) by blast
qed simp

section \<open>Running requests\<close>

lemma schedule_running_keeps:
  assumes "schedule_running cfg x n blocks ids external budget (s, p) = Inr (s', p')"
  shows "keeps e s e s'"
proof -
  note f = schedule_running_frame[OF assms]
  obtain t where t: "sch_objs s' = (sch_objs s)(x := (obj s x)\<lparr>spec_token_ids := t\<rparr>)" using f(5) by blast
  have "same_req (obj s y) (obj s' y)" for y by (simp add: t same_req_def)
  then show ?thesis using f by (intro keeps_same_queues) (simp add: same_queues_def)
qed

lemma run_iter_keeps:
  assumes "run_iter cfg now (s, p) = Inr (brk, s', p')"
  shows "keeps e s e s'"
  using assms
proof (cases rule: run_iter_cases)
  case (blocked x n m)
  then show ?thesis using alloc_loop_keeps[OF blocked(4)] keeps_trans keeps_frame(1) by blast
next
  case (scheduled x n1 n m ids external budget blocks s2 p2)
  then show ?thesis
    using alloc_loop_keeps[OF scheduled(6)] schedule_running_keeps[OF scheduled(7)] keeps_trans keeps_frame(1) by blast
qed simp

text \<open>Loop rules: what every iteration keeps holds when the loop returns.\<close>

lemma running_loop_inv:
  assumes "running_loop cfg now (s, p) = Inr (s', p')" "I s p"
    and step: "\<And>s p brk s1 p1. \<lbrakk>I s p; req_index p < int (length (running s)); token_budget p > 0;
      run_iter cfg now (s, p) = Inr (brk, s1, p1)\<rbrakk> \<Longrightarrow> I s1 p1"
  shows "I s' p'"
proof -
  have "running_loop cfg now sp = Inr sp' \<Longrightarrow> case sp of (s, p) \<Rightarrow> I s p \<Longrightarrow> case sp' of (s, p) \<Rightarrow> I s p" for sp sp'
  proof (induction cfg\<equiv>cfg now\<equiv>now sp arbitrary: sp' rule: running_loop.induct)
    case (1 s p)
    show ?case
    proof (cases "req_index p < int (length (running s)) \<and> token_budget p > 0")
      case g: True
      then obtain brk s1 p1 where i: "run_iter cfg now (s, p) = Inr (brk, s1, p1)"
        using "1.prems" by (subst (asm) running_loop.simps) (auto split: sum.splits)
      have I: "I s1 p1" using step[OF _ _ _ i] "1.prems"(2) g by simp
      show ?thesis
      proof (cases brk)
        case True
        then show ?thesis using "1.prems"(1) i g I by (subst (asm) running_loop.simps) auto
      next
        case False
        then have "running_loop cfg now (s1, p1) = Inr sp'"
          using "1.prems"(1) i g by (subst (asm) running_loop.simps) auto
        then show ?thesis using "1.hyps"[OF g i refl False] I by simp
      qed
    next
      case False
      then show ?thesis using "1.prems" by (subst (asm) running_loop.simps) auto
    qed
  qed
  from this[of "(s, p)" "(s', p')"] show ?thesis using assms(1,2) by simp
qed

lemma running_loop_keeps:
  assumes "running_loop cfg now (s, p) = Inr (s', p')"
  shows "keeps e s e s'"
  using assms by (rule running_loop_inv) (auto intro: keeps_trans run_iter_keeps)

section \<open>Waiting requests\<close>

lemma waiting_loop_inv:
  assumes "waiting_loop cfg ops ready now (s, p) = Some (Inr (s', p'))" "I s p"
    and step: "\<And>s p brk s1 p1. \<lbrakk>I s p; rq_bool (waiting s); token_budget p > 0;
      wait_iter cfg ops ready now (s, p) = Some (Inr (brk, s1, p1))\<rbrakk> \<Longrightarrow> I s1 p1"
  shows "I s' p'"
proof -
  have "waiting_loop cfg ops ready now sp = Some (Inr sp') \<Longrightarrow> case sp of (s, p) \<Rightarrow> I s p \<Longrightarrow> case sp' of (s, p) \<Rightarrow> I s p" for sp sp'
  proof (induction cfg\<equiv>cfg ops\<equiv>ops ready\<equiv>ready now\<equiv>now sp arbitrary: sp' rule: waiting_loop.induct)
    case (1 s p)
    show ?case
    proof (cases "rq_bool (waiting s) \<and> token_budget p > 0")
      case g: True
      then obtain brk s1 p1 where i: "wait_iter cfg ops ready now (s, p) = Some (Inr (brk, s1, p1))"
        using "1.prems" by (subst (asm) waiting_loop.simps) (auto split: option.splits sum.splits)
      have I: "I s1 p1" using step[OF _ _ _ i] "1.prems"(2) g by simp
      show ?thesis
      proof (cases brk)
        case True
        then show ?thesis using "1.prems"(1) i g I by (subst (asm) waiting_loop.simps) auto
      next
        case False
        then have "waiting_loop cfg ops ready now (s1, p1) = Some (Inr sp')"
          using "1.prems"(1) i g by (subst (asm) waiting_loop.simps) auto
        then show ?thesis using "1.hyps"[OF g i refl refl False] I by simp
      qed
    next
      case False
      then show ?thesis using "1.prems" by (subst (asm) waiting_loop.simps) auto
    qed
  qed
  from this[of "(s, p)" "(s', p')"] show ?thesis using assms(1,2) by simp
qed

lemma skip_waiting_keeps:
  assumes "skip_waiting x (s, p) = Inr (s', p')" "rq_peek_request (waiting s) = Inr x"
  shows "keeps (rq_bag (skipped_waiting_requests p)) s (rq_bag (skipped_waiting_requests p')) s'"
proof -
  obtain y q where q: "rq_pop_request (sch_objs s) (waiting s) = Inr (y, q)" "s' = s\<lparr>waiting := q\<rparr>"
    "p' = p\<lparr>skipped_waiting_requests := rq_prepend_request (sch_objs s) (skipped_waiting_requests p) x\<rparr>"
    using assms(1) by (auto simp: skip_waiting_def rbind_Inr_iff)
  have y: "y = x" using qb.pop_head[OF assms(2) q(1)] .
  have b: "rq_bag (waiting s) = add_mset x (rq_bag q)" using qb.bag_pop[OF q(1)] y by simp
  then show ?thesis using q(2,3) by (auto simp: keeps_def queued_def same_ids_def well_queued_def qb.bag_prepend)
qed

text \<open>Moving the head of the queue to the running list, or aside while its KV is loaded.\<close>

lemma keeps_move_to_running:
  assumes "rq_bag (waiting s) + e = add_mset x (rq_bag (waiting s') + e')" "mset (running s') = add_mset x (mset (running s))"
    "requests s' = requests s" "sch_objs s' = (sch_objs s)(x := r)" "status r = RUNNING"
    "py_id r = py_id (obj s x)" "request_id r = request_id (obj s x)"
  shows "keeps e s e' s'"
proof -
  have q: "queued s' + e' = queued s + e" using assms(1,2) by (simp add: queued_def add.assoc)
  have "same_ids s s'" using assms by (auto simp: same_ids_def)
  moreover have "well_queued s' e'" if w: "well_queued s e"
  proof -
    have "count (queued s + e) x \<le> 1" using w by (auto simp: well_queued_def)
    then have "count (mset (running s) + add_mset x (rq_bag (waiting s') + e')) x \<le> 1"
      using assms(1) by (simp add: queued_def add.assoc)
    then have notin: "x \<notin># rq_bag (waiting s') + e'" by (simp add: count_eq_zero_iff)
    have sub: "set_mset (rq_bag (waiting s') + e') \<subseteq> set_mset (rq_bag (waiting s) + e)" using assms(1) by auto
    have "waitable (status (obj s' y))" if "y \<in># rq_bag (waiting s') + e'" for y
      using that sub notin w assms(4) by (auto simp: well_queued_def)
    moreover have "set (running s') = insert x (set (running s))" using assms(2) by (metis set_mset_add_mset_insert set_mset_mset)
    ultimately show ?thesis using w assms(4,5) by (auto simp: well_queued_def q)
  qed
  ultimately show ?thesis using q by (simp add: keeps_def)
qed

lemma place_waiting_keeps:
  assumes "place_waiting cfg ops now x n ext la nc ids external budget (s, p) = Inr (s', p')" "rq_peek_request (waiting s) = Inr x"
  shows "keeps (rq_bag (skipped_waiting_requests p)) s (rq_bag (skipped_waiting_requests p')) s'"
proof -
  let ?s1 = "connector_after_alloc ops x ext s"
  have s1: "waiting ?s1 = waiting s" "running ?s1 = running s" "requests ?s1 = requests s" "sch_objs ?s1 = sch_objs s"
    by (simp_all add: connector_after_alloc_def)
  obtain y q where q: "rq_pop_request (sch_objs s) (waiting s) = Inr (y, q)"
    "(if la then Inr (set_status WAITING_FOR_REMOTE_KVS y (?s1\<lparr>waiting := q\<rparr>),
        p\<lparr>skipped_waiting_requests := rq_prepend_request (sch_objs (?s1\<lparr>waiting := q\<rparr>)) (skipped_waiting_requests p) y\<rparr>)
      else admit cfg now y n nc ids external budget (?s1\<lparr>waiting := q\<rparr>, p)) = Inr (s', p')"
    using assms(1) s1 by (auto simp: place_waiting_def Let_def rbind_Inr_iff)
  have y: "y = x" using qb.pop_head[OF assms(2) q(1)] .
  have b: "rq_bag (waiting s) = add_mset x (rq_bag q)" using qb.bag_pop[OF q(1)] y by simp
  show ?thesis
  proof (cases la)
    case True
    then show ?thesis using q(2) b y s1
      by (auto simp: keeps_def queued_def same_ids_def well_queued_def qb.bag_prepend set_status_def upd_obj_def)
  next
    case False
    then have a: "admit cfg now x n nc ids external budget (?s1\<lparr>waiting := q\<rparr>, p) = Inr (s', p')" using q(2) y by simp
    note f = admit_frame[OF a]
    have "skipped_waiting_requests p' = skipped_waiting_requests p"
      using f(6) by (auto simp: add_scheduled_def add_by_status_def split: if_splits)
    then show ?thesis using f(1-3,5) b s1
      by (intro keeps_move_to_running[where x = x and r = "obj s' x"]) (simp_all add: log_event_def record_event_def)
  qed
qed

lemma wait_iter_keeps:
  assumes "wait_iter cfg ops ready now (s, p) = Some (Inr (brk, s', p'))"
  shows "keeps (rq_bag (skipped_waiting_requests p)) s (rq_bag (skipped_waiting_requests p')) s'"
  using assms
proof (cases rule: wait_iter_cases)
  case (skip x s1)
  have "rq_peek_request (waiting s1) = Inr x" using skip(3,4) by (simp add: same_queues_def)
  then show ?thesis using skip_waiting_keeps[OF skip(5)] keeps_same_queues[OF skip(4)] keeps_trans by blast
next
  case (break x)
  then show ?thesis using keeps_same_queues by simp
next
  case (placed x blocks num_local ext la nc s2 m ids n1 n budget external nb k)
  let ?s3 = "s2\<lparr>encoder_cache_manager := m, kv_cache_manager := k\<rparr>"
  have "same_queues s ?s3" using placed(4) by (simp add: same_queues_def)
  moreover have "rq_peek_request (waiting ?s3) = Inr x" using placed(3,4) by (simp add: same_queues_def)
  ultimately show ?thesis using place_waiting_keeps[OF placed(8)] keeps_same_queues keeps_trans by blast
qed simp

lemma waiting_loop_keeps:
  assumes "waiting_loop cfg ops ready now (s, p) = Some (Inr (s', p'))"
  shows "keeps (rq_bag (skipped_waiting_requests p)) s (rq_bag (skipped_waiting_requests p')) s'"
  using assms by (rule waiting_loop_inv) (auto intro: keeps_trans wait_iter_keeps)

section \<open>The whole step\<close>

lemma schedule_passes_cases:
  assumes "schedule_passes cfg ops ready now s = Some (Inr (s', p'))"
  obtains s1 p1 loras s3 where "running_loop cfg now (s, new_pass cfg) = Inr (s1, p1)"
    "running_loras cfg s1 p1 = Inr loras"
    "(if preempted_reqs p1 = [] then waiting_loop cfg ops ready now (s1, p1\<lparr>scheduled_loras := loras\<rparr>)
      else Some (Inr (s1, p1\<lparr>scheduled_loras := loras\<rparr>))) = Some (Inr (s3, p'))"
    "s' = s3\<lparr>waiting := (if rq_bool (skipped_waiting_requests p')
       then rq_prepend_requests (sch_objs s3) (waiting s3) (skipped_waiting_requests p') else waiting s3)\<rparr>"
proof -
  obtain s1 p1 where 1: "running_loop cfg now (s, new_pass cfg) = Inr (s1, p1)"
    using assms by (auto simp: schedule_passes_def obind_Inr_iff)
  obtain loras where 2: "running_loras cfg s1 p1 = Inr loras" using assms 1 by (auto simp: schedule_passes_def obind_Inr_iff)
  let ?w = "if preempted_reqs p1 = [] then waiting_loop cfg ops ready now (s1, p1\<lparr>scheduled_loras := loras\<rparr>)
      else Some (Inr (s1, p1\<lparr>scheduled_loras := loras\<rparr>))"
  have "obind ?w (\<lambda>(s3, p3). Some (Inr (if rq_bool (skipped_waiting_requests p3)
      then s3\<lparr>waiting := rq_prepend_requests (sch_objs s3) (waiting s3) (skipped_waiting_requests p3)\<rparr> else s3, p3))) = Some (Inr (s', p'))"
    using assms 1 2 by (simp add: schedule_passes_def Let_def)
  then obtain s3 where 3: "(if preempted_reqs p1 = [] then waiting_loop cfg ops ready now (s1, p1\<lparr>scheduled_loras := loras\<rparr>)
      else Some (Inr (s1, p1\<lparr>scheduled_loras := loras\<rparr>))) = Some (Inr (s3, p'))"
    "s' = (if rq_bool (skipped_waiting_requests p')
       then s3\<lparr>waiting := rq_prepend_requests (sch_objs s3) (waiting s3) (skipped_waiting_requests p')\<rparr> else s3)"
    unfolding obind_Inr_iff by (elim exE conjE) (auto split: prod.splits)
  show thesis by (rule that[OF 1 2 3(1)]) (simp add: 3(2))
qed

text \<open>The running pass does not touch the variables of the waiting pass.\<close>

definition same_admissions :: "sched_pass \<Rightarrow> sched_pass \<Rightarrow> bool" where
  "same_admissions p p' \<longleftrightarrow> skipped_waiting_requests p' = skipped_waiting_requests p \<and>
     scheduled_new_reqs p' = scheduled_new_reqs p \<and> scheduled_resumed_reqs p' = scheduled_resumed_reqs p"

lemma preempt_one_admissions:
  assumes "preempt_one cfg now (s, p) = Inr (x, s', p')"
  shows "same_admissions p p'"
  using assms by (auto simp: preempt_one_def pick_victim_def unschedule_def rbind_Inr_iff Let_def same_admissions_def
      split: SchedulingPolicy.splits if_splits)

lemma alloc_loop_admissions:
  assumes "alloc_loop cfg now x n s p = Inr (b, s', p')"
  shows "same_admissions p p'"
  using assms
proof (induction rule: alloc_loop_induct)
  case (preempt s p k v s2 p2 b s' p')
  then show ?case using preempt_one_admissions[OF preempt(2)] by (simp add: same_admissions_def)
qed (auto simp: preempt_one_admissions, simp add: same_admissions_def)

lemma run_iter_admissions:
  assumes "run_iter cfg now (s, p) = Inr (brk, s', p')"
  shows "same_admissions p p'"
  using assms
proof (cases rule: run_iter_cases)
  case (scheduled x n1 n m ids external budget blocks s2 p2)
  then show ?thesis using alloc_loop_admissions[OF scheduled(6)] schedule_running_frame(6)[OF scheduled(7)]
    by (auto simp: same_admissions_def add_scheduled_def)
qed (auto dest: alloc_loop_admissions, simp add: same_admissions_def)

lemma running_loop_admissions:
  assumes "running_loop cfg now (s, p) = Inr (s', p')"
  shows "same_admissions p p'"
  using assms by (rule running_loop_inv) (auto dest: run_iter_admissions simp: same_admissions_def)

lemma put_back_keeps:
  "keeps (rq_bag w) s {#} (s\<lparr>waiting := (if rq_bool w then rq_prepend_requests (sch_objs s) (waiting s) w else waiting s)\<rparr>)"
proof (cases "rq_bool w")
  case True
  then show ?thesis by (auto simp: keeps_def queued_def same_ids_def well_queued_def qb.bag_prepend_many add_ac)
next
  case False
  then have "rq_bag w = {#}" by (simp add: rq_bool_def rq_len_bag)
  then show ?thesis using False by simp
qed

lemma schedule_passes_keeps:
  assumes "schedule_passes cfg ops ready now s = Some (Inr (s', p'))"
  shows "keeps {#} s {#} s'"
proof -
  obtain s1 p1 loras s3 where r: "running_loop cfg now (s, new_pass cfg) = Inr (s1, p1)"
    "(if preempted_reqs p1 = [] then waiting_loop cfg ops ready now (s1, p1\<lparr>scheduled_loras := loras\<rparr>)
      else Some (Inr (s1, p1\<lparr>scheduled_loras := loras\<rparr>))) = Some (Inr (s3, p'))"
    and s': "s' = s3\<lparr>waiting := (if rq_bool (skipped_waiting_requests p')
       then rq_prepend_requests (sch_objs s3) (waiting s3) (skipped_waiting_requests p') else waiting s3)\<rparr>"
    using assms by (rule schedule_passes_cases)
  have sk: "rq_bag (skipped_waiting_requests p1) = {#}"
    using running_loop_admissions[OF r(1)] by (simp add: same_admissions_def new_pass_def)
  have "keeps {#} s1 (rq_bag (skipped_waiting_requests p')) s3"
    using r(2) waiting_loop_keeps[of cfg ops ready now s1 "p1\<lparr>scheduled_loras := loras\<rparr>" s3 p'] sk by (auto split: if_splits)
  moreover have "keeps (rq_bag (skipped_waiting_requests p')) s3 {#} s'" unfolding s' by (rule put_back_keeps)
  ultimately show ?thesis using running_loop_keeps[OF r(1), of "{#}"] keeps_trans by blast
qed

end
