(* ===== verification/Sched_Reachable.thy ===== *)
theory Sched_Reachable
  imports Sched_Invariant
begin

text \<open>
  The scheduler between steps: every operation of \<^verbatim>\<open>scheduler.py\<close> keeps the invariant of the queues and
  the request table, so it holds in every state a scheduler can reach.
\<close>

section \<open>A scheduling step\<close>

lemma same_queues_sched_ok: "same_queues s s' \<Longrightarrow> sched_ok s \<Longrightarrow> sched_ok s'"
  using keeps_same_queues keeps_sched_ok by blast

lemma same_queues_mfold:
  assumes "\<And>x s s'. f x s = Inr s' \<Longrightarrow> same_queues s s'" "mfold f xs s = Inr s'"
  shows "same_queues s s'"
  using assms(2)
proof (induction xs arbitrary: s)
  case (Cons x xs)
  then obtain s1 where "f x s = Inr s1" "mfold f xs s1 = Inr s'" by (auto split: sum.splits)
  then show ?case using Cons.IH assms(1) same_queues_trans by blast
qed simp

lemma build_output_same:
  assumes "build_output cfg s p = Inr (out, s')"
  shows "same_queues s s'"
proof -
  obtain freed m where f: "em_get_freed_mm_hashes (encoder_cache_manager s) = (freed, m)" by fastforce
  show ?thesis
  proof (cases "running s")
    case Nil
    then show ?thesis using assms f by (simp add: build_output_def Let_def rbind_Inr_iff) (elim exE conjE, hypsubst, simp add: same_queues_def)
  next
    case (Cons x xs)
    obtain ns k where k: "kvm_num_common_prefix_blocks (kv_cache_manager s) (request_id (obj s x)) = Inr (ns, k)"
      using assms Cons by (auto simp: build_output_def rbind_Inr_iff)
    then show ?thesis using assms f Cons
      by (simp add: build_output_def Let_def rbind_Inr_iff) (elim exE conjE, hypsubst, simp add: same_queues_def)
  qed
qed

lemma advance_one_same: "advance_one cfg a s = Inr s' \<Longrightarrow> same_queues s s'"
proof -
  assume a: "advance_one cfg a s = Inr s'"
  obtain rid n where [simp]: "a = (rid, n)" by fastforce
  obtain x where x: "dict_item (requests s) rid = Inr x" using a by (auto simp: advance_one_def rbind_Inr_iff)
  let ?s1 = "upd_obj x (\<lambda>r. r\<lparr>num_computed_tokens := num_computed_tokens r + n\<rparr>) s"
  have "same_queues s ?s1" by (rule same_queues_upd) (simp_all add: same_req_def)
  moreover have "s' = ?s1 \<or> (\<exists>m. s' = ?s1\<lparr>encoder_cache_manager := m\<rparr>)"
    using a x by (simp add: advance_one_def Let_def rbind_Inr_iff split: if_splits) blast+
  ultimately show ?thesis by (auto simp: same_queues_def)
qed

lemma async_advance_one_same:
  assumes "async_advance_one cfg d rid (s, b, c) = Inr (s', b', c')"
  shows "same_queues s s'"
proof -
  obtain x where x: "dict_item (requests s) rid = Inr x" using assms by (auto simp: async_advance_one_def rbind_Inr_iff)
  let ?n = "case map_of d rid of None \<Rightarrow> 0 | Some ts \<Rightarrow> int (length ts)"
  let ?s1 = "upd_obj x (\<lambda>r. r\<lparr>num_output_placeholders := num_output_placeholders r + 1 + ?n,
    spec_token_ids := replicate (nat (num_spec_tokens cfg)) (-1)\<rparr>) s"
  have "s' = s \<or> s' = ?s1" using assms x by (simp add: async_advance_one_def Let_def split: if_splits)
  moreover have "same_queues s ?s1" by (rule same_queues_upd) (simp_all add: same_req_def)
  ultimately show ?thesis by (elim disjE) simp_all
qed

lemma async_advance_same:
  "mfold (async_advance_one cfg d) rids (s, b, c) = Inr (s', b', c') \<Longrightarrow> same_queues s s'"
proof (induction rids arbitrary: s b c)
  case (Cons rid rids)
  then obtain s1 b1 c1 where "async_advance_one cfg d rid (s, b, c) = Inr (s1, b1, c1)"
    "mfold (async_advance_one cfg d) rids (s1, b1, c1) = Inr (s', b', c')" by (auto split: sum.splits)
  then show ?case using Cons.IH async_advance_one_same same_queues_trans by blast
qed simp

lemma update_after_schedule_same:
  assumes "update_after_schedule cfg out s = Inr (out', s')"
  shows "same_queues s s'"
proof -
  obtain s1 where s1: "base_update_after_schedule cfg out s = Inr s1"
    using assms by (auto simp: update_after_schedule_def rbind_Inr_iff)
  obtain s0 where "mfold (advance_one cfg) (out_num_scheduled_tokens out) s = Inr s0" "s1 = s0\<lparr>finished_req_ids := {}\<rparr>"
    using s1 by (auto simp: base_update_after_schedule_def rbind_Inr_iff)
  then have 1: "same_queues s s1" using same_queues_mfold[OF advance_one_same] by (fastforce simp: same_queues_def)
  moreover have "same_queues s1 s'"
    using assms s1 by (auto simp: update_after_schedule_def rbind_Inr_iff split: if_splits dest: async_advance_same)
  ultimately show ?thesis by (rule same_queues_trans)
qed

lemma schedule_keeps:
  assumes "schedule cfg ops ready now s = Some (Inr (out, s'))"
  shows "keeps {#} s {#} s'"
proof -
  obtain s1 p where p: "schedule_passes cfg ops ready now s = Some (Inr (s1, p))"
    using assms by (auto simp: schedule_def obind_Inr_iff)
  obtain out1 s2 where b: "build_output cfg s1 p = Inr (out1, s2)"
    "update_after_schedule cfg out1 (s2\<lparr>connector := map_option (\<lambda>c. build_connector_meta ops c out1) (connector s2)\<rparr>) = Inr (out, s')"
    using assms p by (auto simp: schedule_def rbind_Inr_iff)
  have "same_queues s1 s'"
    using same_queues_trans[OF build_output_same[OF b(1)] same_queues_trans[OF _ update_after_schedule_same[OF b(2)]]]
    by simp
  then show ?thesis using schedule_passes_keeps[OF p] keeps_same_queues keeps_trans by blast
qed

section \<open>Single requests\<close>

text \<open>A request with the same identity; what a change of it may do to the state.\<close>

definition same_id :: "Request \<Rightarrow> Request \<Rightarrow> bool" where
  "same_id r r' \<longleftrightarrow> py_id r' = py_id r \<and> request_id r' = request_id r"

definition changes_only :: "nat \<Rightarrow> 'c Scheduler \<Rightarrow> 'c Scheduler \<Rightarrow> bool" where
  "changes_only x s s' \<longleftrightarrow> running s' = running s \<and> (\<forall>y. y \<noteq> x \<longrightarrow> obj s' y = obj s y) \<and> same_id (obj s x) (obj s' x)"

lemma changes_only_refl [simp]: "changes_only x s s"
  by (simp add: changes_only_def same_id_def)

lemma changes_only_trans: "changes_only x s s' \<Longrightarrow> changes_only x s' s'' \<Longrightarrow> changes_only x s s''"
  by (auto simp: changes_only_def same_id_def)

lemma changes_only_upd: "same_id (obj s x) (f (obj s x)) \<Longrightarrow> changes_only x s (upd_obj x f s)"
  by (simp add: changes_only_def upd_obj_def)

lemma rehash_frame: "rehash h r = Some (Inr r') \<Longrightarrow> \<exists>hs. r' = r\<lparr>block_hashes := hs\<rparr>"
proof (cases h)
  case None
  assume "rehash h r = Some (Inr r')"
  then have "r' = r\<lparr>block_hashes := block_hashes r\<rparr>" using None by (simp add: rehash_def)
  then show ?thesis by blast
qed (auto simp: rehash_def rbind_Inr_iff)

lemma check_stop_results:
  assumes "check_stop r n = Inr (stopped, r')"
  shows "(stopped, r') \<in> {(False, r), (True, r\<lparr>status := FINISHED_STOPPED\<rparr>), (True, r\<lparr>status := FINISHED_LENGTH_CAPPED\<rparr>)} \<or>
    (\<exists>t. stopped \<and> r' = r\<lparr>status := FINISHED_STOPPED, stop_reason := Some t\<rparr>)"
  using assms unfolding check_stop_def py_assert_Inr_iff
  by (cases "sampling_params r"; cases "py_index (output_token_ids r) (-1)") (simp_all split: if_splits, blast?)

lemma check_stop_frame: "check_stop r n = Inr (stopped, r') \<Longrightarrow> same_id r r' \<and> (if stopped then is_finished r' else r' = r)"
  by (drule check_stop_results) (elim disjE insertE exE, simp_all add: same_id_def is_finished_def is_finished_status_def)

lemma append_output_frame:
  assumes "append_output_token_ids h ts r = Some (Inr r')"
  shows "same_id r r' \<and> status r' = status r"
  using rehash_frame[OF assms[unfolded append_output_token_ids_def]] by (auto simp: same_id_def)

lemma append_tokens_frame:
  "append_tokens cfg ts r kept = Some (Inr (k, stopped, r')) \<Longrightarrow>
     same_id r r' \<and> (if stopped then is_finished r' else status r' = status r)"
proof (induction cfg ts r kept rule: append_tokens.induct)
  case (2 cfg t ts r kept)
  then obtain r1 st r2 where a: "append_output_token_ids (block_hasher cfg) [t] r = Some (Inr r1)"
    "check_stop r1 (sc_max_model_len cfg) = Inr (st, r2)"
    "(if st then Some (Inr (kept @ [t], True, r2)) else append_tokens cfg ts r2 (kept @ [t])) = Some (Inr (k, stopped, r'))"
    by (auto simp: obind_Inr_iff)
  then show ?case using append_output_frame[OF a(1)] check_stop_frame[OF a(2)] "2.IH"[of st r2]
    by (auto simp: same_id_def split: if_splits)
qed (auto simp: same_id_def)

text \<open>The operations on one request change nothing else; this is what they do to its status and to the waiting queue.\<close>

lemma update_request_with_output_frame:
  assumes "update_request_with_output cfg x ts s = Some (Inr ((kept, stopped), s'))"
  shows "changes_only x s s'" "waiting s' = waiting s" "requests s' = requests s"
    "if stopped then is_finished (obj s' x) else status (obj s' x) = status (obj s x)"
proof -
  have base: "changes_only x s s1 \<and> waiting s1 = waiting s \<and> requests s1 = requests s \<and>
      (if st then is_finished (obj s1 x) else status (obj s1 x) = status (obj s x))"
    if b: "base_update_request_with_output cfg x ts s = Some (Inr ((k, st), s1))" for k st s1
  proof -
    obtain r where r: "append_tokens cfg ts (obj s x) [] = Some (Inr (k, st, r))" "s1 = upd_obj x (\<lambda>_. r) s"
      using b by (auto simp: base_update_request_with_output_def obind_Inr_iff)
    then show ?thesis using append_tokens_frame[OF r(1)] by (auto simp: changes_only_def upd_obj_def)
  qed
  have "changes_only x s s' \<and> waiting s' = waiting s \<and> requests s' = requests s \<and>
      (if stopped then is_finished (obj s' x) else status (obj s' x) = status (obj s x))"
  proof (cases "sc_async cfg")
    case False
    then show ?thesis using base assms by (simp add: update_request_with_output_def)
  next
    case async: True
    show ?thesis
    proof (cases "discard_latest_async_tokens (obj s x)")
      case True
      then have "s' = upd_obj x (\<lambda>r. r\<lparr>discard_latest_async_tokens := False\<rparr>) s" "\<not> stopped"
        using assms async by (simp_all add: update_request_with_output_def)
      then show ?thesis by (simp add: changes_only_def upd_obj_def same_id_def)
    next
      case False
      obtain k st s1 where b: "base_update_request_with_output cfg x ts s = Some (Inr ((k, st), s1))"
        using assms async False by (auto simp: update_request_with_output_def obind_Inr_iff)
      let ?s2 = "upd_obj x (\<lambda>r. r\<lparr>num_output_placeholders := num_output_placeholders r - int (length k)\<rparr>) s1"
      obtain km where "s' = ?s2\<lparr>kv_cache_manager := km\<rparr>" "st = stopped"
        using assms async False b by (auto simp: update_request_with_output_def Let_def rbind_Inr_iff)
      then show ?thesis using base[OF b] by (simp add: changes_only_def upd_obj_def same_id_def is_finished_def split: if_splits)
    qed
  qed
  then show "changes_only x s s'" "waiting s' = waiting s" "requests s' = requests s"
    "if stopped then is_finished (obj s' x) else status (obj s' x) = status (obj s x)" by blast+
qed

lemma session_frame:
  assumes "update_request_as_session cfg now x u s = Some (Inr s')"
  shows "changes_only x s s'" "waiting s' = waiting s" "requests s' = requests s" "status (obj s' x) = WAITING"
proof -
  obtain r1 r2 where r: "session_tokens u (obj s x) = Inr r1" "rehash (block_hasher cfg) r1 = Some (Inr r2)"
    using assms by (auto simp: update_request_as_session_def obind_Inr_iff)
  define r3 where "r3 = r2\<lparr>num_prompt_tokens := (case prompt_token_ids r2 of None \<Rightarrow> 0 | Some ts \<Rightarrow> int (length ts)),
    arrival_time := su_arrival_time u, sampling_params := su_sampling_params u, status := WAITING\<rparr>"
  have "\<exists>n. s' = upd_obj x (\<lambda>_. log_event cfg EV_QUEUED now r3) (s\<lparr>num_waiting_for_streaming_input := n\<rparr>)"
    using assms r by (auto simp: update_request_as_session_def Let_def r3_def)
  then obtain n where s': "s' = upd_obj x (\<lambda>_. log_event cfg EV_QUEUED now r3) (s\<lparr>num_waiting_for_streaming_input := n\<rparr>)"
    "same_id r2 r3" "status r3 = WAITING" by (auto simp: r3_def same_id_def)
  obtain hs where "r2 = r1\<lparr>block_hashes := hs\<rparr>" using rehash_frame[OF r(2)] by blast
  moreover have "same_id (obj s x) r1"
    using r(1) by (auto simp: session_tokens_def Let_def same_id_def split: option.splits)
  ultimately have "same_id (obj s x) (log_event cfg EV_QUEUED now r3)" "status (log_event cfg EV_QUEUED now r3) = WAITING"
    using s'(2,3) by (simp_all add: same_id_def log_event_def record_event_def)
  then show "changes_only x s s'" "waiting s' = waiting s" "requests s' = requests s" "status (obj s' x) = WAITING"
    using s'(1) by (simp_all add: changes_only_def upd_obj_def)
qed

lemma handle_stopped_frame:
  assumes "handle_stopped_request cfg now x s = Some (Inr (finished, s'))"
  shows "changes_only x s s'" "requests s' = requests s"
    "if finished then rq_bag (waiting s') = rq_bag (waiting s) \<and> status (obj s' x) = status (obj s x)
     else rq_bag (waiting s') = add_mset x (rq_bag (waiting s)) \<and> waitable (status (obj s' x))"
proof -
  have "changes_only x s s' \<and> requests s' = requests s \<and>
    (if finished then rq_bag (waiting s') = rq_bag (waiting s) \<and> status (obj s' x) = status (obj s x)
     else rq_bag (waiting s') = add_mset x (rq_bag (waiting s)) \<and> waitable (status (obj s' x)))"
  proof (cases "resumable (obj s x)")
    case False
    then show ?thesis using assms by (simp add: handle_stopped_request_def)
  next
    case res: True
    show ?thesis
    proof (cases "\<exists>u q. streaming_queue (obj s x) = Some (u # q)")
      case True
      then obtain u q where q: "streaming_queue (obj s x) = Some (u # q)" by blast
      let ?s1 = "upd_obj x (\<lambda>r. r\<lparr>streaming_queue := Some q\<rparr>) s"
      have 1: "changes_only x s ?s1" by (rule changes_only_upd) (simp add: same_id_def)
      show ?thesis
      proof (cases u)
        case None
        then have "s' = ?s1" "finished" using assms res q by (simp_all add: handle_stopped_request_def Let_def)
        then show ?thesis using 1 by (simp add: upd_obj_def)
      next
        case (Some upd)
        then obtain s2 where s2: "update_request_as_session cfg now x upd ?s1 = Some (Inr s2)"
          "s' = s2\<lparr>waiting := rq_add_request (sch_objs s2) (waiting s2) x\<rparr>" "\<not> finished"
          using assms res q by (auto simp: handle_stopped_request_def Let_def obind_Inr_iff)
        have "changes_only x s s2" using changes_only_trans[OF 1 session_frame(1)[OF s2(1)]] .
        then show ?thesis using session_frame[OF s2(1)] s2(2,3) by (simp add: changes_only_def upd_obj_def qb.bag_add)
      qed
    next
      case False
      let ?s1 = "(set_status WAITING_FOR_STREAMING_REQ x s)\<lparr>num_waiting_for_streaming_input := num_waiting_for_streaming_input s + 1\<rparr>"
      have "s' = ?s1\<lparr>waiting := rq_add_request (sch_objs ?s1) (waiting ?s1) x\<rparr> \<and> \<not> finished"
        using assms res False by (auto simp: handle_stopped_request_def Let_def split: option.splits list.splits)
      then show ?thesis by (simp add: changes_only_def set_status_def upd_obj_def same_id_def qb.bag_add)
    qed
  qed
  then show "changes_only x s s'" "requests s' = requests s"
    "if finished then rq_bag (waiting s') = rq_bag (waiting s) \<and> status (obj s' x) = status (obj s x)
     else rq_bag (waiting s') = add_mset x (rq_bag (waiting s)) \<and> waitable (status (obj s' x))" by blast+
qed

text \<open>Freeing a request takes it out of the table, at once or when its blocks have been sent.\<close>

definition drops_entry :: "nat \<Rightarrow> 'c Scheduler \<Rightarrow> 'c Scheduler \<Rightarrow> bool" where
  "drops_entry x s s' \<longleftrightarrow> running s' = running s \<and> waiting s' = waiting s \<and> sch_objs s' = sch_objs s \<and> is_finished (obj s x) \<and>
     (requests s' = requests s \<or> requests s' = AList.delete (request_id (obj s x)) (requests s))"

lemma sched_free_blocks_drops: "sched_free_blocks x s = Inr s' \<Longrightarrow> drops_entry x s s'"
  by (auto simp: sched_free_blocks_def drops_entry_def rbind_Inr_iff dict_pop_def split: option.splits)

lemma free_request_drops:
  assumes "free_request cfg ops x s = Inr (params, s')"
  shows "drops_entry x s s'"
proof -
  obtain d ps s1 m where a: "is_finished (obj s x)" "connector_finished cfg ops x s = Inr ((d, ps), s1)"
    "em_free (set_order cfg) (obj s1 x) (encoder_cache_manager s1) = Inr m"
    using assms by (auto simp: free_request_def rbind_Inr_iff)
  have c: "running s1 = running s \<and> waiting s1 = waiting s \<and> sch_objs s1 = sch_objs s \<and> requests s1 = requests s"
  proof (cases "connector s")
    case None
    then show ?thesis using a(2) by (simp add: connector_finished_def)
  next
    case (Some cn)
    then obtain k res c1 where "s1 = s\<lparr>kv_cache_manager := k, connector := Some c1\<rparr>"
      using a(2) by (auto simp: connector_finished_def rbind_Inr_iff split: prod.splits)
        (metis surj_pair)
    then show ?thesis by simp
  qed
  obtain f g where "(if d then Inr (s1\<lparr>encoder_cache_manager := m, finished_req_ids := f, finished_req_ids_dict := g\<rparr>)
      else sched_free_blocks x (s1\<lparr>encoder_cache_manager := m, finished_req_ids := f, finished_req_ids_dict := g\<rparr>)) = Inr s'"
    using assms a by (auto simp: free_request_def Let_def rbind_Inr_iff)
  then show ?thesis using c a(1) sched_free_blocks_drops
    by (auto simp: drops_entry_def split: if_splits dest!: sched_free_blocks_drops)
qed

section \<open>The output of the model\<close>

text \<open>How processing one output changes the state: not at all, one request without its status, or a stop.\<close>

definition plain_change :: "nat \<Rightarrow> 'c Scheduler \<Rightarrow> 'c Scheduler \<Rightarrow> bool" where
  "plain_change x s s' \<longleftrightarrow> changes_only x s s' \<and> waiting s' = waiting s \<and> requests s' = requests s \<and>
     status (obj s' x) = status (obj s x)"

definition stop_change :: "nat \<Rightarrow> 'c Scheduler \<Rightarrow> 'c Scheduler \<Rightarrow> bool" where
  "stop_change x s s' \<longleftrightarrow> changes_only x s s' \<and>
     (rq_bag (waiting s') = rq_bag (waiting s) \<and>
        (requests s' = requests s \<or> requests s' = AList.delete (request_id (obj s x)) (requests s)) \<and> is_finished (obj s' x) \<or>
      rq_bag (waiting s') = add_mset x (rq_bag (waiting s)) \<and> requests s' = requests s \<and> waitable (status (obj s' x)))"

lemma plain_change_trans: "plain_change x s s' \<Longrightarrow> plain_change x s' s'' \<Longrightarrow> plain_change x s s''"
  by (auto simp: plain_change_def intro: changes_only_trans)

lemma plain_change_upd: "same_id (obj s x) (f (obj s x)) \<Longrightarrow> status (f (obj s x)) = status (obj s x) \<Longrightarrow> plain_change x s (upd_obj x f s)"
  by (simp add: plain_change_def changes_only_def upd_obj_def)

lemma stop_change_plain: "stop_change x s s' \<Longrightarrow> plain_change x s' s'' \<Longrightarrow> stop_change x s s''"
  by (auto simp: plain_change_def stop_change_def is_finished_def intro: changes_only_trans)

lemma plain_change_stop: "plain_change x s s' \<Longrightarrow> stop_change x s' s'' \<Longrightarrow> stop_change x s s''"
  by (auto simp: plain_change_def stop_change_def changes_only_def same_id_def)

lemma stop_request_frame:
  assumes "stop_request cfg ops now x st (s, acc) = Some (Inr (params, s', acc'))" "is_finished (obj s x)"
  shows "stop_change x s s'" "acc' = (if st = RUNNING then acc\<lparr>stopped_running_reqs := stopped_running_reqs acc @ [x]\<rparr>
         else acc\<lparr>stopped_preempted_reqs := stopped_preempted_reqs acc @ [x]\<rparr>)"
proof -
  obtain fin s1 where h: "handle_stopped_request cfg now x s = Some (Inr (fin, s1))"
    using assms(1) by (auto simp: stop_request_def obind_Inr_iff)
  have f: "(if fin then free_request cfg ops x s1 else Inr (None, s1)) = Inr (params, s')"
    and acc: "acc' = (if st = RUNNING then acc\<lparr>stopped_running_reqs := stopped_running_reqs acc @ [x]\<rparr>
         else acc\<lparr>stopped_preempted_reqs := stopped_preempted_reqs acc @ [x]\<rparr>)"
    using assms(1) h by (auto simp: stop_request_def obind_Inr_iff)
  show "acc' = (if st = RUNNING then acc\<lparr>stopped_running_reqs := stopped_running_reqs acc @ [x]\<rparr>
         else acc\<lparr>stopped_preempted_reqs := stopped_preempted_reqs acc @ [x]\<rparr>)" by (rule acc)
  note g = handle_stopped_frame[OF h]
  have rid: "request_id (obj s1 x) = request_id (obj s x)" using g(1) by (simp add: changes_only_def same_id_def)
  show "stop_change x s s'"
  proof (cases fin)
    case True
    then have "drops_entry x s1 s'" using f free_request_drops by auto
    then show ?thesis using g True rid assms(2) by (auto simp: stop_change_def drops_entry_def changes_only_def is_finished_def)
  next
    case False
    then show ?thesis using f g by (simp add: stop_change_def)
  qed
qed

lemma reject_drafts_frame: "reject_drafts cfg out rid sch gen st r = Inr (st', r') \<Longrightarrow> same_id r r' \<and> status r' = status r"
  by (auto simp: reject_drafts_def Let_def rbind_Inr_iff same_id_def split: if_splits)

lemma apply_output_frame:
  assumes "apply_output cfg x gen pooled s = Some (Inr ((new, stopped), s'))"
  shows "changes_only x s s'" "waiting s' = waiting s" "requests s' = requests s"
    "if stopped then is_finished (obj s' x) else status (obj s' x) = status (obj s x)"
proof -
  consider "update_request_with_output cfg x gen s = Some (Inr ((new, stopped), s'))"
    | "stopped" "s' = set_status FINISHED_STOPPED x s" | "\<not> stopped" "s' = s"
    using assms by (auto simp: apply_output_def split: if_splits)
  then have "changes_only x s s' \<and> waiting s' = waiting s \<and> requests s' = requests s \<and>
    (if stopped then is_finished (obj s' x) else status (obj s' x) = status (obj s x))"
  proof cases
    case 1
    then show ?thesis using update_request_with_output_frame[OF 1] by blast
  qed (simp_all add: set_status_def upd_obj_def changes_only_def same_id_def is_finished_def is_finished_status_def)
  then show "changes_only x s s'" "waiting s' = waiting s" "requests s' = requests s"
    "if stopped then is_finished (obj s' x) else status (obj s' x) = status (obj s x)" by blast+
qed

lemma emit_output_frame:
  assumes "emit_output mro rid x new stopped reason pooled params (s, acc) = Inr (s', acc')"
  shows "plain_change x s s' \<and> stopped_running_reqs acc' = stopped_running_reqs acc \<and> stopped_preempted_reqs acc' = stopped_preempted_reqs acc"
proof -
  let ?s1 = "upd_obj x (\<lambda>r. case map_of (mro_num_nans_in_logits mro) rid of None \<Rightarrow> r | Some k \<Rightarrow> r\<lparr>num_nans_in_logits := k\<rparr>) s"
  have 1: "plain_change x s ?s1" by (rule plain_change_upd) (simp_all add: same_id_def split: option.splits)
  obtain evs r where t: "take_req_events (obj ?s1 x) = (evs, r)" by fastforce
  then have "same_id (obj ?s1 x) r" "status r = status (obj ?s1 x)"
    by (auto simp: take_req_events_def same_id_def split: if_splits)
  then have 2: "plain_change x ?s1 (upd_obj x (\<lambda>_. r) ?s1)" by (intro plain_change_upd) simp_all
  have "(s' = ?s1 \<or> s' = upd_obj x (\<lambda>_. r) ?s1) \<and> stopped_running_reqs acc' = stopped_running_reqs acc \<and>
    stopped_preempted_reqs acc' = stopped_preempted_reqs acc"
    using assms t unfolding emit_output_def by (auto simp: Let_def split: if_splits)
  then show ?thesis using 1 plain_change_trans[OF 1 2] by auto
qed

lemma process_output_cases:
  assumes "process_output cfg ops now out mro failed (rid, n) (s, acc) = Some (Inr (s', acc'))"
  obtains "s' = s" "acc' = acc"
  | x where "map_of (requests s) rid = Some x" "plain_change x s s'"
      "stopped_running_reqs acc' = stopped_running_reqs acc" "stopped_preempted_reqs acc' = stopped_preempted_reqs acc"
  | x where "map_of (requests s) rid = Some x" "stop_change x s s'"
      "stopped_running_reqs acc' = (if status (obj s x) = RUNNING then stopped_running_reqs acc @ [x] else stopped_running_reqs acc)"
      "stopped_preempted_reqs acc' = (if status (obj s x) = RUNNING then stopped_preempted_reqs acc else stopped_preempted_reqs acc @ [x])"
proof (cases "rid \<in> set failed \<or> map_of (requests s) rid = None")
  case True
  then have "s' = s" "acc' = acc" using assms by (auto simp: process_output_def split: if_splits)
  then show thesis by (rule that(1))
next
  case False
  then obtain x where x: "map_of (requests s) rid = Some x" by blast
  have p: "process_request cfg ops now out mro rid x (s, acc) = Some (Inr (s', acc'))"
    using assms False x by (simp add: process_output_def split: if_splits)
  obtain idx gen st r1 pooled new stopped s1 params s2 acc1 where
    r: "reject_drafts cfg out rid (case map_of (out_scheduled_spec_decode_tokens out) rid of None \<Rightarrow> [] | Some ts \<Rightarrow> ts)
       gen (acc_spec_stats acc) (obj s x) = Inr (st, r1)"
    and u: "apply_output cfg x gen pooled (upd_obj x (\<lambda>_. r1) s) = Some (Inr ((new, stopped), s1))"
    and t: "(if stopped then stop_request cfg ops now x (status r1) (s1, acc\<lparr>acc_spec_stats := st\<rparr>)
            else Some (Inr (None, s1, acc\<lparr>acc_spec_stats := st\<rparr>))) = Some (Inr (params, s2, acc1))"
    and e: "emit_output mro rid x new stopped (if stopped then get_finished_reason (obj s1 x) else None) pooled params (s2, acc1) = Inr (s', acc')"
    using p unfolding process_request_def prod.case obind_Inr_iff by (auto simp: obind_Inr_iff)
  have r1: "same_id (obj s x) r1" "status r1 = status (obj s x)" using reject_drafts_frame[OF r] by auto
  have 1: "plain_change x s (upd_obj x (\<lambda>_. r1) s)" by (rule plain_change_upd) (use r1 in simp_all)
  have 3: "plain_change x s2 s'" "stopped_running_reqs acc' = stopped_running_reqs acc1" "stopped_preempted_reqs acc' = stopped_preempted_reqs acc1"
    using emit_output_frame[OF e] by auto
  show thesis
  proof (cases stopped)
    case True
    note f = apply_output_frame[OF u]
    have "changes_only x s s1" using 1 f(1) changes_only_trans by (auto simp: plain_change_def)
    then have "stop_change x s s2 \<and> acc1 = (if status r1 = RUNNING then acc\<lparr>acc_spec_stats := st, stopped_running_reqs := stopped_running_reqs acc @ [x]\<rparr>
         else acc\<lparr>acc_spec_stats := st, stopped_preempted_reqs := stopped_preempted_reqs acc @ [x]\<rparr>)"
      using stop_request_frame[of cfg ops now x "status r1" s1 "acc\<lparr>acc_spec_stats := st\<rparr>" params s2 acc1] t True f r1
      by (auto simp: stop_change_def upd_obj_def changes_only_def same_id_def)
    then show thesis using that(3)[OF x stop_change_plain[OF _ 3(1)]] 3 r1(2) by simp
  next
    case False
    then have "plain_change x s s2" using t plain_change_trans[OF 1] apply_output_frame[OF u] by (simp add: plain_change_def)
    then show thesis using that(2)[OF x plain_change_trans[OF _ 3(1)]] 3 t False by auto
  qed
qed

text \<open>
  While the outputs are processed, stopped requests are still in the queue they were in, and a stopped
  session is queued again already: the invariant up to the requests \<open>R\<close> and \<open>W\<close> that are removed at the end.
  \<open>seen\<close> are the ids processed so far.
\<close>

definition listed :: "'c Scheduler \<Rightarrow> nat \<Rightarrow> bool" where
  "listed s x \<longleftrightarrow> map_of (requests s) (request_id (obj s x)) = Some x"

definition entries_ok :: "'c Scheduler \<Rightarrow> bool" where
  "entries_ok s \<longleftrightarrow> distinct (map fst (requests s)) \<and>
     (\<forall>rid x. map_of (requests s) rid = Some x \<longrightarrow> request_id (obj s x) = rid \<and> py_id (obj s x) = x)"

lemma requests_ok_iff: "requests_ok s \<longleftrightarrow> entries_ok s \<and> (\<forall>x \<in># queued s. listed s x)"
  by (auto simp: requests_ok_def entries_ok_def listed_def)

definition upd_inv :: "'c Scheduler \<Rightarrow> string set \<Rightarrow> nat set \<Rightarrow> nat set \<Rightarrow> bool" where
  "upd_inv s seen R W \<longleftrightarrow> entries_ok s \<and> distinct (running s) \<and>
     (\<forall>x \<in> set (running s) - R. status (obj s x) = RUNNING \<and> x \<notin># rq_bag (waiting s) \<and> listed s x) \<and>
     (\<forall>x \<in># rq_bag (waiting s). x \<notin> W \<longrightarrow>
        count (rq_bag (waiting s)) x = 1 \<and> waitable (status (obj s x)) \<and> (x \<in> set (running s) \<longrightarrow> x \<in> R) \<and> listed s x) \<and>
     (\<forall>x \<in> R \<union> W. request_id (obj s x) \<in> seen)"

lemma count_le_distinct: "\<forall>x. count (mset xs + m) x \<le> 1 \<Longrightarrow> distinct xs \<and> (\<forall>x \<in># m. count m x = 1 \<and> x \<notin> set xs)"
proof -
  assume a: "\<forall>x. count (mset xs + m) x \<le> 1"
  have "distinct xs" unfolding distinct_count_atmost_1
  proof
    fix x
    have "x \<in> set xs \<Longrightarrow> 1 \<le> count (mset xs) x" by (simp add: Suc_le_eq)
    moreover have "count (mset xs) x \<le> 1" using spec[OF a, of x] by simp
    ultimately show "count (mset xs) x = (if x \<in> set xs then 1 else 0)" by (auto simp: count_eq_zero_iff intro: le_antisym)
  qed
  moreover have "count m x = 1 \<and> x \<notin> set xs" if "x \<in># m" for x
  proof -
    have "1 \<le> count m x" "x \<in> set xs \<Longrightarrow> 1 \<le> count (mset xs) x" using that by (simp_all add: Suc_le_eq)
    moreover have "count (mset xs) x + count m x \<le> 1" using spec[OF a, of x] by simp
    ultimately show ?thesis by linarith
  qed
  ultimately show ?thesis by blast
qed

lemma sched_ok_upd_inv: "sched_ok s \<Longrightarrow> upd_inv s {} {} {}"
proof -
  assume ok: "sched_ok s"
  then have "distinct (running s) \<and> (\<forall>x \<in># rq_bag (waiting s). count (rq_bag (waiting s)) x = 1 \<and> x \<notin> set (running s))"
    by (intro count_le_distinct) (simp add: sched_ok_def well_queued_def queued_def)
  then show ?thesis using ok unfolding upd_inv_def sched_ok_def requests_ok_iff well_queued_def queued_def by auto
qed

lemma remove_all_filter: "distinct xs \<Longrightarrow> remove_all xs R = filter (\<lambda>x. x \<notin> R) xs"
proof -
  assume d: "distinct xs"
  show ?thesis
  proof (cases "card R = 1")
    case True
    then obtain a where "R = {a}" by (auto simp: card_1_singleton_iff)
    then show ?thesis using d by (auto simp: remove_all_def distinct_remove1_removeAll removeAll_filter_not_eq intro: filter_cong)
  qed (auto simp: remove_all_def)
qed

lemma upd_inv_sched_ok:
  assumes "upd_inv s seen R W" "set (running s') = set (running s) - R" "distinct (running s')"
    "rq_bag (waiting s') = filter_mset (\<lambda>x. x \<notin> W) (rq_bag (waiting s))" "sch_objs s' = sch_objs s" "requests s' = requests s"
  shows "sched_ok s'"
proof -
  have "count (queued s') x \<le> 1" for x
  proof (cases "x \<in> set (running s')")
    case True
    then have "count (mset (running s')) x = 1" using assms(3) by (simp add: distinct_count_atmost_1)
    moreover have "x \<notin># rq_bag (waiting s)" using True assms(1,2) by (auto simp: upd_inv_def)
    ultimately show ?thesis using assms(4) by (simp add: queued_def count_eq_zero_iff)
  next
    case False
    then have "count (mset (running s')) x = 0" by (simp add: count_eq_zero_iff)
    moreover have "count (rq_bag (waiting s')) x \<le> 1"
      using assms(1,4) by (cases "x \<in># rq_bag (waiting s)") (auto simp: upd_inv_def not_in_iff)
    ultimately show ?thesis unfolding queued_def count_union by linarith
  qed
  moreover have "\<forall>x \<in> set (running s'). status (obj s' x) = RUNNING \<and> listed s' x"
    "\<forall>x \<in># rq_bag (waiting s'). waitable (status (obj s' x)) \<and> listed s' x"
    using assms(1,2,4-6) by (auto simp: upd_inv_def listed_def)
  moreover have "entries_ok s'" using assms(1,5,6) by (simp add: upd_inv_def entries_ok_def)
  ultimately show ?thesis by (auto simp: sched_ok_def requests_ok_iff well_queued_def queued_def)
qed

lemma entries_ok_change:
  assumes "entries_ok s" "changes_only x s s'"
    "requests s' = requests s \<or> requests s' = AList.delete rid (requests s)"
  shows "entries_ok s'"
proof -
  have "request_id (obj s' y) = request_id (obj s y) \<and> py_id (obj s' y) = py_id (obj s y)" for y
    using assms(2) by (cases "y = x") (auto simp: changes_only_def same_id_def)
  moreover have "map_of (requests s') r = Some y \<Longrightarrow> map_of (requests s) r = Some y" for r y
    using assms(3) by (auto simp: AList.delete_conv split: if_splits)
  moreover have "distinct (map fst (requests s'))" using assms(1,3) by (auto simp: entries_ok_def AList.distinct_delete)
  ultimately show ?thesis using assms(1) unfolding entries_ok_def by metis
qed

lemma upd_inv_plain:
  assumes "upd_inv s seen R W" "plain_change x s s'"
  shows "upd_inv s' (insert rid seen) R W"
proof -
  have c: "changes_only x s s'" using assms(2) by (simp add: plain_change_def)
  have o: "request_id (obj s' y) = request_id (obj s y)" "status (obj s' y) = status (obj s y)" for y
    using assms(2) by (cases "y = x"; auto simp: plain_change_def changes_only_def same_id_def)+
  show ?thesis using assms entries_ok_change[OF _ c] c
    by (simp add: upd_inv_def plain_change_def listed_def o changes_only_def)
qed

lemma upd_inv_stop:
  assumes "upd_inv s seen R W" "stop_change x s s'" "map_of (requests s) rid = Some x" "rid \<notin> seen"
  shows "upd_inv s' (insert rid seen) (if status (obj s x) = RUNNING then insert x R else R)
    (if status (obj s x) = RUNNING then W else insert x W)"
proof -
  have rid: "request_id (obj s x) = rid" using assms(1,3) by (auto simp: upd_inv_def entries_ok_def)
  have new: "x \<notin> R" "x \<notin> W" using assms(1,4) rid by (auto simp: upd_inv_def)
  have c: "changes_only x s s'" using assms(2) by (simp add: stop_change_def)
  have o: "request_id (obj s' y) = request_id (obj s y)" "y \<noteq> x \<Longrightarrow> status (obj s' y) = status (obj s y)" for y
    using c by (cases "y = x"; auto simp: changes_only_def same_id_def)+
  have e: "entries_ok s'" using assms(1,2) rid
    by (intro entries_ok_change[OF _ c, of rid]) (auto simp: upd_inv_def stop_change_def)
  have others: "listed s y \<Longrightarrow> y \<noteq> x \<Longrightarrow> listed s' y" for y
    using assms(2,3) rid o(1)[of y] by (auto simp: stop_change_def listed_def AList.delete_conv)
  have r: "running s' = running s" using c by (simp add: changes_only_def)
  show ?thesis
  proof (cases "status (obj s x) = RUNNING")
    case True
    then have xw: "x \<notin># rq_bag (waiting s)" using assms(1) new by (auto simp: upd_inv_def)
    have w: "rq_bag (waiting s') = rq_bag (waiting s) \<or>
        rq_bag (waiting s') = add_mset x (rq_bag (waiting s)) \<and> waitable (status (obj s' x)) \<and> listed s' x"
      using assms(2,3) rid o(1)[of x] by (auto simp: stop_change_def listed_def)
    have A: "status (obj s' y) = RUNNING \<and> y \<notin># rq_bag (waiting s') \<and> listed s' y" if "y \<in> set (running s') - insert x R" for y
      using that w assms(1) r o(2)[of y] others[of y] by (auto simp: upd_inv_def)
    have B: "count (rq_bag (waiting s')) y = 1 \<and> waitable (status (obj s' y)) \<and> (y \<in> set (running s') \<longrightarrow> y \<in> insert x R) \<and> listed s' y"
      if "y \<in># rq_bag (waiting s')" "y \<notin> W" for y
    proof (cases "y = x")
      case True
      then show ?thesis using w that xw by (auto simp: count_eq_zero_iff)
    next
      case False
      then have "y \<in># rq_bag (waiting s)" "count (rq_bag (waiting s')) y = count (rq_bag (waiting s)) y" using w that(1) by auto
      then show ?thesis using False assms(1) that(2) r o(2)[OF False] others[OF _ False] by (auto simp: upd_inv_def)
    qed
    have C: "\<forall>y \<in> insert x R \<union> W. request_id (obj s' y) \<in> insert rid seen" using assms(1) o(1) rid by (auto simp: upd_inv_def)
    have "distinct (running s')" using assms(1) r by (simp add: upd_inv_def)
    then show ?thesis unfolding upd_inv_def using True e A B C by simp
  next
    case False
    then have xr: "x \<notin> set (running s)" using assms(1) new by (auto simp: upd_inv_def)
    have w: "rq_bag (waiting s') = rq_bag (waiting s) \<or> rq_bag (waiting s') = add_mset x (rq_bag (waiting s))"
      using assms(2) by (auto simp: stop_change_def)
    have A: "status (obj s' y) = RUNNING \<and> y \<notin># rq_bag (waiting s') \<and> listed s' y" if "y \<in> set (running s') - R" for y
    proof -
      have "y \<noteq> x" using that r xr by auto
      then show ?thesis using that w assms(1) r o(2)[of y] others[of y] by (auto simp: upd_inv_def)
    qed
    have B: "count (rq_bag (waiting s')) y = 1 \<and> waitable (status (obj s' y)) \<and> (y \<in> set (running s') \<longrightarrow> y \<in> R) \<and> listed s' y"
      if "y \<in># rq_bag (waiting s')" "y \<notin> insert x W" for y
    proof -
      have "y \<noteq> x" "y \<in># rq_bag (waiting s)" "count (rq_bag (waiting s')) y = count (rq_bag (waiting s)) y" using w that by auto
      then show ?thesis using assms(1) that(2) r o(2)[of y] others[of y] by (auto simp: upd_inv_def)
    qed
    have C: "\<forall>y \<in> R \<union> insert x W. request_id (obj s' y) \<in> insert rid seen" using assms(1) o(1) rid by (auto simp: upd_inv_def)
    have "distinct (running s')" using assms(1) r by (simp add: upd_inv_def)
    then show ?thesis unfolding upd_inv_def using False e A B C by simp
  qed
qed

lemma process_output_upd_inv:
  assumes "process_output cfg ops now out mro failed (rid, n) (s, acc) = Some (Inr (s', acc'))"
    "upd_inv s seen (set (stopped_running_reqs acc)) (set (stopped_preempted_reqs acc))" "rid \<notin> seen"
  shows "upd_inv s' (insert rid seen) (set (stopped_running_reqs acc')) (set (stopped_preempted_reqs acc'))"
  using assms(1)
proof (cases rule: process_output_cases[consumes 1, case_names none plain stop])
  case none
  then show ?thesis using assms(2) by (auto simp: upd_inv_def)
next
  case (plain x)
  then show ?thesis using upd_inv_plain[OF assms(2) plain(2)] by simp
next
  case (stop x)
  then show ?thesis using upd_inv_stop[OF assms(2) stop(2,1) assms(3)] by (auto split: if_splits)
qed

lemma process_outputs_inv:
  assumes "omfold (process_output cfg ops now out mro failed) items (s, acc) = Some (Inr (s', acc'))"
    "upd_inv s seen (set (stopped_running_reqs acc)) (set (stopped_preempted_reqs acc))"
    "distinct (map fst items)" "set (map fst items) \<inter> seen = {}"
  shows "\<exists>seen'. upd_inv s' seen' (set (stopped_running_reqs acc')) (set (stopped_preempted_reqs acc'))"
  using assms
proof (induction items arbitrary: s acc seen)
  case (Cons it items)
  obtain rid n where it: "it = (rid, n)" by fastforce
  obtain s1 acc1 where 1: "process_output cfg ops now out mro failed (rid, n) (s, acc) = Some (Inr (s1, acc1))"
    "omfold (process_output cfg ops now out mro failed) items (s1, acc1) = Some (Inr (s', acc'))"
    using Cons.prems(1) it by (auto simp: obind_Inr_iff)
  have rid: "rid \<notin> seen" using Cons.prems(4) it by auto
  note process_output_upd_inv[OF 1(1) Cons.prems(2) rid]
  then show ?case using Cons.IH[OF 1(2)] Cons.prems(3,4) it by auto
qed auto

end
