(* ===== verification/Sched_Operations.thy ===== *)
theory Sched_Operations
  imports Sched_Reachable
begin

text \<open>
  The remaining operations of the scheduler keep its invariant: finishing requests, failed KV loads,
  finished transfers, new requests and streaming input, resetting the prefix cache. The states a
  scheduler can reach by any sequence of operations are \<open>sched_reachable\<close>.
\<close>

section \<open>Taking requests out of the table\<close>

lemma drop_entry_ok:
  assumes ok: "sched_ok s" and x: "x \<notin># queued s" "listed s x" and s0: "s0 = set_status st x s \<or> s0 = s" and d: "drops_entry x s0 s'"
  shows "sched_ok s'" "queued s' = queued s" "\<And>y. y \<noteq> x \<Longrightarrow> listed s y \<Longrightarrow> listed s' y" "\<And>y. y \<noteq> x \<Longrightarrow> obj s' y = obj s y"
proof -
  have o: "request_id (obj s' y) = request_id (obj s y)" "py_id (obj s' y) = py_id (obj s y)" "y \<noteq> x \<Longrightarrow> obj s' y = obj s y" for y
    using s0 d by (auto simp: drops_entry_def set_status_def upd_obj_def)
  have q: "running s' = running s" "waiting s' = waiting s" using s0 d by (auto simp: drops_entry_def set_status_def upd_obj_def)
  have t: "requests s' = requests s \<or> requests s' = AList.delete (request_id (obj s x)) (requests s)"
    using s0 d by (auto simp: drops_entry_def set_status_def upd_obj_def)
  show qq: "queued s' = queued s" using q by (simp add: queued_def)
  show other: "listed s' y" if "y \<noteq> x" "listed s y" for y
    using that x(2) t o(1)[of y] by (auto simp: listed_def AList.delete_conv)
  show "obj s' y = obj s y" if "y \<noteq> x" for y using that by (rule o(3))
  have c: "changes_only x s s'" using o q by (simp add: changes_only_def same_id_def)
  have "entries_ok s'" using ok t by (intro entries_ok_change[OF _ c]) (simp_all add: sched_ok_def requests_ok_iff)
  moreover have "y \<noteq> x" if "y \<in># queued s" for y using that x(1) by blast
  ultimately show "sched_ok s'" using ok qq q other o(3)
    by (simp add: sched_ok_def requests_ok_iff well_queued_def queued_def)
qed

lemma listed_distinct: "listed s x \<Longrightarrow> listed s y \<Longrightarrow> request_id (obj s x) = request_id (obj s y) \<Longrightarrow> x = y"
  by (simp add: listed_def)

section \<open>Finishing requests\<close>

text \<open>What the first pass of \<^verbatim>\<open>finish_requests\<close> collects.\<close>

lemma collect_finished_spec:
  assumes "fold (collect_finished s) rids ([], [], [], k) = (valid, run, wait, k')" "entries_ok s" "distinct rids"
  shows "set run = {x \<in> set valid. status (obj s x) = RUNNING}" "set wait = {x \<in> set valid. status (obj s x) \<noteq> RUNNING}"
    "\<forall>x \<in> set valid. listed s x \<and> request_id (obj s x) \<in> set rids" "distinct valid"
proof -
  have "set run = {x \<in> set valid. status (obj s x) = RUNNING} \<and> set wait = {x \<in> set valid. status (obj s x) \<noteq> RUNNING} \<and>
    (\<forall>x \<in> set valid. listed s x \<and> request_id (obj s x) \<in> set rids) \<and> distinct valid"
    using assms(1,3)
  proof (induction rids arbitrary: valid run wait k' rule: rev_induct)
    case (snoc rid rids)
    obtain v r w j where f: "fold (collect_finished s) rids ([], [], [], k) = (v, r, w, j)" by (cases "fold (collect_finished s) rids ([], [], [], k)")
    have c: "collect_finished s rid (v, r, w, j) = (valid, run, wait, k')" using snoc.prems(1) f by simp
    have IH: "set r = {x \<in> set v. status (obj s x) = RUNNING}" "set w = {x \<in> set v. status (obj s x) \<noteq> RUNNING}"
      "\<forall>x \<in> set v. listed s x \<and> request_id (obj s x) \<in> set rids" "distinct v" "rid \<notin> set rids"
      using snoc.IH[OF f] snoc.prems(2) by auto
    show ?case
    proof (cases "map_of (requests s) rid")
      case None
      then show ?thesis using c IH by (auto simp: collect_finished_def)
    next
      case (Some x)
      then have x: "request_id (obj s x) = rid" "listed s x" using assms(2) by (auto simp: entries_ok_def listed_def)
      then have "x \<notin> set v" using IH(3,5) by auto
      then show ?thesis using c IH x Some by (auto simp: collect_finished_def split: if_splits)
    qed
  qed simp
  then show "set run = {x \<in> set valid. status (obj s x) = RUNNING}" "set wait = {x \<in> set valid. status (obj s x) \<noteq> RUNNING}"
    "\<forall>x \<in> set valid. listed s x \<and> request_id (obj s x) \<in> set rids" "distinct valid" by blast+
qed

lemma free_all_ok:
  assumes "mfold (\<lambda>x s. rbind (free_request cfg ops x (set_status st x s)) (\<lambda>(_, s'). Inr s')) xs s = Inr s'"
    "sched_ok s" "\<forall>x \<in> set xs. listed s x \<and> x \<notin># queued s" "distinct xs"
  shows "sched_ok s' \<and> queued s' = queued s \<and> (\<forall>y \<in># queued s. obj s' y = obj s y)"
  using assms
proof (induction xs arbitrary: s)
  case (Cons x xs)
  obtain ps s1 where f: "free_request cfg ops x (set_status st x s) = Inr (ps, s1)"
    "mfold (\<lambda>x s. rbind (free_request cfg ops x (set_status st x s)) (\<lambda>(_, s'). Inr s')) xs s1 = Inr s'"
    using Cons.prems(1) by (auto simp: rbind_Inr_iff split: sum.splits)
  note d = drop_entry_ok[OF Cons.prems(2) _ _ disjI1[OF refl] free_request_drops[OF f(1)]]
  have d': "sched_ok s1" "queued s1 = queued s" "\<And>y. y \<noteq> x \<Longrightarrow> listed s y \<Longrightarrow> listed s1 y" "\<And>y. y \<noteq> x \<Longrightarrow> obj s1 y = obj s y"
    using d Cons.prems(3) by auto
  have rest: "obj s1 y = obj s y" if "y \<in># queued s" for y by (rule d'(4)) (use that Cons.prems(3) in auto)
  have "listed s1 y \<and> y \<notin># queued s1" if y: "y \<in> set xs" for y
  proof -
    have "y \<noteq> x" using y Cons.prems(4) by auto
    then show ?thesis using y Cons.prems(3) d'(2,3) by simp
  qed
  then show ?case using Cons.IH[OF f(2) d'(1)] Cons.prems(4) d'(2) rest by simp
qed simp

lemma sched_ok_unqueue:
  assumes "sched_ok s" "running s' = remove_all (running s) R" "rq_bag (waiting s') = filter_mset (\<lambda>x. x \<notin> W) (rq_bag (waiting s))"
    "sch_objs s' = sch_objs s" "requests s' = requests s"
  shows "sched_ok s'" "queued s' = filter_mset (\<lambda>x. x \<notin> R) (mset (running s)) + filter_mset (\<lambda>x. x \<notin> W) (rq_bag (waiting s))"
proof -
  have inv: "upd_inv s {} {} {}" using assms(1) by (rule sched_ok_upd_inv)
  then have d: "distinct (running s)" by (simp add: upd_inv_def)
  have r: "running s' = filter (\<lambda>x. x \<notin> R) (running s)" using assms(2) remove_all_filter[OF d] by simp
  then show q: "queued s' = filter_mset (\<lambda>x. x \<notin> R) (mset (running s)) + filter_mset (\<lambda>x. x \<notin> W) (rq_bag (waiting s))"
    using assms(3) by (simp add: queued_def)
  have "count (queued s') x \<le> count (queued s) x" for x unfolding q by (auto simp: queued_def)
  moreover have "count (queued s) x \<le> 1" for x using assms(1) by (auto simp: sched_ok_def well_queued_def)
  ultimately have "count (queued s') x \<le> 1" for x using le_trans by blast
  then show "sched_ok s'" using assms(1,3-5) r
    by (auto simp: sched_ok_def requests_ok_iff entries_ok_def listed_def well_queued_def queued_def)
qed

lemma finish_requests_ok:
  assumes "finish_requests cfg ops rids st s = Inr s'" "sched_ok s"
  shows "sched_ok s'" "\<forall>y \<in># queued s'. y \<in># queued s \<and> obj s' y = obj s y"
proof -
  obtain valid run wait k where f: "fold (collect_finished s) (remdups rids) ([], [], [], num_waiting_for_streaming_input s) = (valid, run, wait, k)"
    by (cases "fold (collect_finished s) (remdups rids) ([], [], [], num_waiting_for_streaming_input s)")
  define s1 where "s1 = s\<lparr>num_waiting_for_streaming_input := k,
    running := (if run = [] then running s else remove_all (running s) (set run)),
    waiting := (if wait = [] then waiting s else rq_remove_requests (sch_objs s) (waiting s) wait)\<rparr>"
  have m: "mfold (\<lambda>x s. rbind (free_request cfg ops x (set_status st x s)) (\<lambda>(_, s'). Inr s')) valid s1 = Inr s'"
    using assms(1) f by (simp add: finish_requests_def s1_def)
  have e: "entries_ok s" using assms(2) by (simp add: sched_ok_def requests_ok_iff)
  note c = collect_finished_spec[OF f e distinct_remdups]
  have s1: "running s1 = remove_all (running s) (set run)" "rq_bag (waiting s1) = filter_mset (\<lambda>x. x \<notin> set wait) (rq_bag (waiting s))"
    "sch_objs s1 = sch_objs s" "requests s1 = requests s"
    by (auto simp: s1_def remove_all_def qb.bag_remove)
  note u = sched_ok_unqueue[OF assms(2) s1]
  have "listed s1 x \<and> x \<notin># queued s1" if x: "x \<in> set valid" for x
  proof -
    have "x \<notin># filter_mset (\<lambda>x. x \<notin> set run) (mset (running s))" "x \<notin># filter_mset (\<lambda>x. x \<notin> set wait) (rq_bag (waiting s))"
      using x c(1,2) assms(2) by (auto simp: sched_ok_def well_queued_def)
    then show ?thesis using u(2) c(3) x s1(3,4) by (simp add: listed_def)
  qed
  then have fr: "sched_ok s' \<and> queued s' = queued s1 \<and> (\<forall>y \<in># queued s1. obj s' y = obj s1 y)" by (intro free_all_ok[OF m u(1) _ c(4)]) simp
  then show "sched_ok s'" by blast
  have "y \<in># queued s" if "y \<in># queued s1" for y using that unfolding u(2) by (auto simp: queued_def)
  then show "\<forall>y \<in># queued s'. y \<in># queued s \<and> obj s' y = obj s y" using fr s1(3) by simp
qed

section \<open>Failed and finished KV transfers\<close>

lemma scan_block_same: "scan_block cfg bad ev n ids ib (r, a, m, v) = (r', a', m', v') \<Longrightarrow> same_req r r'"
  by (auto simp: scan_block_def Let_def same_req_def split: if_splits prod.splits)

lemma scan_blocks_same: "fold (scan_block cfg bad ev n ids) ibs (r, a, m, v) = (r', a', m', v') \<Longrightarrow> same_req r r'"
proof (induction ibs arbitrary: r a m v)
  case (Cons ib ibs)
  obtain r1 a1 m1 v1 where 1: "scan_block cfg bad ev n ids ib (r, a, m, v) = (r1, a1, m1, v1)"
    by (cases "scan_block cfg bad ev n ids ib (r, a, m, v)")
  then show ?case using Cons.IH[of r1 a1 m1 v1] Cons.prems scan_block_same[OF 1] by (auto simp: same_req_def)
qed simp

lemma scan_request_same:
  assumes "scan_request cfg bad ev x (s, v) = Inr (s', v')"
  shows "same_queues s s'"
proof -
  obtain ids where ids: "the_single (kvm_get_block_ids (kv_cache_manager s) (request_id (obj s x))) = Inr ids" "sc_block_size cfg \<noteq> 0"
    using assms by (auto simp: scan_request_def Let_def rbind_Inr_iff split: if_splits)
  define n where "n = (if status (obj s x) = WAITING_FOR_REMOTE_KVS
      then (if request_id (obj s x) \<in> failed_recving_kv_req_ids s then num_computed_tokens (obj s x) else int (length ids) * sc_block_size cfg)
      else num_cached_tokens (obj s x))"
  define bs where "bs = zip [0..<nat ((n + sc_block_size cfg - 1) div sc_block_size cfg)] ids"
  obtain r1 a m v1 where f: "fold (scan_block cfg bad ev n ids) bs (obj s x, False, False, v) = (r1, a, m, v1)"
    by (cases "fold (scan_block cfg bad ev n ids) bs (obj s x, False, False, v)")
  have "s' = upd_obj x (\<lambda>_. if a \<and> \<not> m then r1\<lparr>num_computed_tokens := num_cached_tokens r1\<rparr> else r1) s"
    using assms ids f unfolding scan_request_def Let_def bs_def n_def by (simp split: if_splits)
  then show ?thesis using scan_blocks_same[OF f] by (auto simp: same_req_def intro!: same_queues_upd)
qed

lemma scan_requests_same: "mfold (scan_request cfg bad ev) xs (s, v) = Inr (s', v') \<Longrightarrow> same_queues s s'"
proof (induction xs arbitrary: s v)
  case (Cons x xs)
  then obtain s1 v1 where "scan_request cfg bad ev x (s, v) = Inr (s1, v1)" "mfold (scan_request cfg bad ev) xs (s1, v1) = Inr (s', v')"
    by (auto split: sum.splits)
  then show ?case using Cons.IH scan_request_same same_queues_trans by blast
qed simp

lemma handle_invalid_blocks_same:
  assumes "handle_invalid_blocks cfg bad s = Inr (failed, s')"
  shows "same_queues s s'"
proof -
  let ?w = "filter (\<lambda>x. status (obj s x) = WAITING_FOR_REMOTE_KVS) (rq_iter (sch_objs s) (waiting s))"
  obtain va s1 vs s2 where u: "update_requests_with_invalid_blocks cfg ?w bad False s = Inr (va, s1)"
    "update_requests_with_invalid_blocks cfg (running s1) bad True s1 = Inr (vs, s2)"
    using assms by (auto simp: handle_invalid_blocks_def rbind_Inr_iff)
  have scans: "same_queues s s2"
    using u scan_requests_same same_queues_trans unfolding update_requests_with_invalid_blocks_def rbind_Inr_iff by fastforce
  have "same_queues s2 s'"
    using assms u by (auto simp: handle_invalid_blocks_def Let_def rbind_Inr_iff same_queues_def split: if_splits)
  then show ?thesis using scans same_queues_trans by blast
qed

lemma take_events_same: "take_req_events r = (evs, r') \<Longrightarrow> same_req r r'"
  by (auto simp: take_req_events_def same_req_def split: if_splits)

lemma fail_outputs_same:
  assumes "\<And>x s acc s' acc'. f x (s, acc) = (s', acc') \<Longrightarrow> same_queues s s'" "fold f xs (s, acc) = (s', acc')"
  shows "same_queues s s'"
  using assms(2)
proof (induction xs arbitrary: s acc)
  case (Cons x xs)
  obtain s1 acc1 where 1: "f x (s, acc) = (s1, acc1)" by fastforce
  then show ?case using Cons.IH[of s1 acc1] Cons.prems assms(1)[OF 1] same_queues_trans by auto
qed simp

lemma fail_loads_cases:
  assumes "fail_loads cfg ops failed (s, acc) = Inr (s', acc')"
  obtains "s' = s" | s1 where "finish_requests cfg ops failed FINISHED_ERROR s = Inr s1" "same_queues s1 s'"
proof (cases "failed = [] \<or> recompute_kv_load_failures cfg")
  case True
  then show ?thesis using assms that(1) by (auto simp: fail_loads_def)
next
  case False
  obtain xs s1 where f: "finish_requests cfg ops failed FINISHED_ERROR s = Inr s1"
    "fold (\<lambda>x (s, acc). let (evs, r) = take_req_events (obj s x)
                in (upd_obj x (\<lambda>_. r) s,
                    acc\<lparr>acc_outputs := add_output (client_index r)
                      \<lparr>eco_request_id = request_id r, eco_new_token_ids = [], eco_finish_reason = get_finished_reason r,
                       eco_pooling_output = None, eco_stop_reason = None, eco_events = evs, eco_kv_transfer_params = None,
                       eco_num_cached_tokens = num_cached_tokens r, eco_num_nans_in_logits = 0\<rparr> (acc_outputs acc)\<rparr>))
       xs (s1, acc) = (s', acc')"
    using assms False by (auto simp: fail_loads_def rbind_Inr_iff)
  have "same_queues s1 s'"
    by (rule fail_outputs_same[OF _ f(2)])
      (auto simp: Let_def split: prod.splits intro!: same_queues_upd dest: take_events_same)
  then show ?thesis by (rule that(2)[OF f(1)])
qed

lemma fail_loads_ok: "fail_loads cfg ops failed (s, acc) = Inr (s', acc') \<Longrightarrow> sched_ok s \<Longrightarrow> sched_ok s'"
  by (erule fail_loads_cases) (blast intro: finish_requests_ok(1) same_queues_sched_ok)+

lemma free_sent_ok:
  "mfold (\<lambda>rid s. case map_of (requests s) rid of None \<Rightarrow> Inl AssertionError | Some x \<Rightarrow> sched_free_blocks x s) rids s = Inr s' \<Longrightarrow>
     sched_ok s \<Longrightarrow> sched_ok s'"
proof (induction rids arbitrary: s)
  case (Cons rid rids)
  then obtain x s1 where x: "map_of (requests s) rid = Some x" "sched_free_blocks x s = Inr s1"
    "mfold (\<lambda>rid s. case map_of (requests s) rid of None \<Rightarrow> Inl AssertionError | Some x \<Rightarrow> sched_free_blocks x s) rids s1 = Inr s'"
    by (auto split: sum.splits option.splits)
  have d: "drops_entry x s s1" by (rule sched_free_blocks_drops[OF x(2)])
  have l: "listed s x" using Cons.prems(2) x(1) by (auto simp: sched_ok_def requests_ok_def listed_def)
  have "x \<notin># queued s" using Cons.prems(2) d
    by (auto simp: sched_ok_def well_queued_def queued_def drops_entry_def is_finished_def is_finished_status_def waitable_def)
  then show ?case using Cons.IH[OF x(3)] drop_entry_ok(1)[OF Cons.prems(2) _ l disjI2[OF refl] d] by blast
qed simp

lemma kv_xfer_finished_ok: "update_from_kv_xfer_finished ops kco s = Inr s' \<Longrightarrow> sched_ok s \<Longrightarrow> sched_ok s'"
  unfolding update_from_kv_xfer_finished_def Let_def
  by (erule free_sent_ok) (erule same_queues_sched_ok[rotated], simp add: same_queues_def)

section \<open>Processing the output of the model\<close>

lemma make_stats_same: "make_stats cfg st s = Inr (stats, s') \<Longrightarrow> same_queues s s' \<and> sch_objs s' = sch_objs s"
  by (auto simp: make_stats_def make_connector_prefix_cache_stats_def same_queues_def Let_def split: if_splits option.splits prod.splits)

text \<open>The parts of \<^verbatim>\<open>update_from_output\<close>: the loop over the outputs, the removal of the stopped requests, the failed loads and the transfers.\<close>

definition no_outputs :: update_acc where
  "no_outputs = \<lparr>acc_outputs = [], acc_spec_stats = None, stopped_running_reqs = [], stopped_preempted_reqs = []\<rparr>"

lemma update_from_output_parts:
  assumes u: "update_from_output cfg ops now out mro s = Some (Inr (res, s'))"
  obtains failed s0 s1 acc s2 s3 acc1 s4 where "same_queues s s0"
    "omfold (process_output cfg ops now out mro failed) (out_num_scheduled_tokens out) (s0, no_outputs) = Some (Inr (s1, acc))"
    "running s2 = remove_all (running s1) (set (stopped_running_reqs acc))"
    "rq_bag (waiting s2) = filter_mset (\<lambda>x. x \<notin> set (stopped_preempted_reqs acc)) (rq_bag (waiting s1))"
    "sch_objs s2 = sch_objs s1" "requests s2 = requests s1" "fail_loads cfg ops failed (s2, acc) = Inr (s3, acc1)"
    "s4 = s3 \<or> (\<exists>kco. update_from_kv_xfer_finished ops kco s3 = Inr s4)" "same_queues s4 s'" "sch_objs s' = sch_objs s4"
    "kv_connector_output mro = None \<Longrightarrow> failed = [] \<and> s0 = s \<and> s4 = s3"
proof -
  obtain failed s0 s1 acc where a: "(case kv_connector_output mro of
      Some kco \<Rightarrow> if invalid_block_ids kco \<noteq> {} then handle_invalid_blocks cfg (invalid_block_ids kco) s else Inr ([], s)
    | None \<Rightarrow> Inr ([], s)) = Inr (failed, s0)"
    "omfold (process_output cfg ops now out mro failed) (out_num_scheduled_tokens out) (s0, no_outputs) = Some (Inr (s1, acc))"
    using u unfolding update_from_output_def no_outputs_def by (auto simp: obind_Inr_iff)
  define s2 where "s2 = s1\<lparr>running := (if stopped_running_reqs acc = [] then running s1 else remove_all (running s1) (set (stopped_running_reqs acc))),
    waiting := (if stopped_preempted_reqs acc = [] then waiting s1 else rq_remove_requests (sch_objs s1) (waiting s1) (stopped_preempted_reqs acc))\<rparr>"
  obtain s3 acc1 s4 where b: "fail_loads cfg ops failed (s2, acc) = Inr (s3, acc1)"
    "(case kv_connector_output mro of None \<Rightarrow> Inr s3 | Some kco \<Rightarrow> update_from_kv_xfer_finished ops kco s3) = Inr s4"
    using u a unfolding update_from_output_def s2_def no_outputs_def by (auto simp: obind_Inr_iff Let_def)
  obtain k cn stats s6 where c: "make_stats cfg (acc_spec_stats acc1) (s4\<lparr>kv_cache_manager := k, connector := cn\<rparr>) = Inr (stats, s6)"
    "s' = s6\<lparr>finished_req_ids_dict := map_option (\<lambda>_. []) (finished_req_ids_dict s6)\<rparr>"
    using u a b unfolding update_from_output_def s2_def no_outputs_def by (auto simp: obind_Inr_iff Let_def split: prod.splits)
  have "same_queues s s0" using a(1) by (auto split: option.splits if_splits dest: handle_invalid_blocks_same)
  moreover have "same_queues s4 s'" "sch_objs s' = sch_objs s4" using make_stats_same[OF c(1)] c(2) by (simp_all add: same_queues_def)
  moreover have "failed = [] \<and> s0 = s \<and> s4 = s3" if "kv_connector_output mro = None" using that a(1) b(2) by simp
  moreover have "s4 = s3 \<or> (\<exists>kco. update_from_kv_xfer_finished ops kco s3 = Inr s4)" using b(2) by (auto split: option.splits)
  moreover have "running s2 = remove_all (running s1) (set (stopped_running_reqs acc))"
    "rq_bag (waiting s2) = filter_mset (\<lambda>x. x \<notin> set (stopped_preempted_reqs acc)) (rq_bag (waiting s1))"
    by (auto simp: s2_def remove_all_def qb.bag_remove)
  ultimately show thesis using that[OF _ a(2) _ _ _ _ b(1)] by (simp add: s2_def)
qed

lemma update_from_output_ok:
  assumes u: "update_from_output cfg ops now out mro s = Some (Inr (res, s'))"
    and ok: "sched_ok s" and keys: "distinct (map fst (out_num_scheduled_tokens out))"
  shows "sched_ok s'"
  using u
proof (rule update_from_output_parts)
  fix failed s0 s1 acc s2 s3 acc1 s4
  assume a: "same_queues s s0"
    "omfold (process_output cfg ops now out mro failed) (out_num_scheduled_tokens out) (s0, no_outputs) = Some (Inr (s1, acc))"
    "running s2 = remove_all (running s1) (set (stopped_running_reqs acc))"
    "rq_bag (waiting s2) = filter_mset (\<lambda>x. x \<notin> set (stopped_preempted_reqs acc)) (rq_bag (waiting s1))"
    "sch_objs s2 = sch_objs s1" "requests s2 = requests s1" "fail_loads cfg ops failed (s2, acc) = Inr (s3, acc1)"
    "s4 = s3 \<or> (\<exists>kco. update_from_kv_xfer_finished ops kco s3 = Inr s4)" "same_queues s4 s'"
  have "upd_inv s0 {} (set (stopped_running_reqs no_outputs)) (set (stopped_preempted_reqs no_outputs))"
    using a(1) ok same_queues_sched_ok sched_ok_upd_inv by (force simp: no_outputs_def)
  then obtain seen where inv: "upd_inv s1 seen (set (stopped_running_reqs acc)) (set (stopped_preempted_reqs acc))"
    using process_outputs_inv[OF a(2) _ keys] by auto
  have "distinct (running s1)" using inv by (simp add: upd_inv_def)
  then have "sched_ok s2" using a(3-6) by (intro upd_inv_sched_ok[OF inv]) (auto simp: remove_all_filter)
  then have "sched_ok s3" using a(7) fail_loads_ok by blast
  then have "sched_ok s4" using a(8) kv_xfer_finished_ok by blast
  then show "sched_ok s'" using a(9) same_queues_sched_ok by blast
qed

section \<open>New requests and streaming input\<close>

text \<open>Replacing a request by one of the same identity and a status that fits its queue.\<close>

lemma sched_ok_replace:
  assumes "sched_ok s" "changes_only x s s'" "waiting s' = waiting s" "requests s' = requests s"
    "status (obj s' x) = status (obj s x) \<or> (waitable (status (obj s x)) \<and> waitable (status (obj s' x)))"
  shows "sched_ok s'"
proof -
  have "keeps {#} s {#} s'"
  proof -
    have "status (obj s' y) = status (obj s y) \<or> (waitable (status (obj s y)) \<and> waitable (status (obj s' y)))" for y
      using assms(2,5) by (cases "y = x") (auto simp: changes_only_def)
    moreover have "same_ids s s'" using assms(2,4) unfolding same_ids_def changes_only_def same_id_def by metis
    moreover have "queued s' = queued s" "running s' = running s" using assms(2,3) by (simp_all add: queued_def changes_only_def)
    ultimately show ?thesis using assms(3) unfolding keeps_def well_queued_def by (metis add.right_neutral waitable_simps(6))
  qed
  then show ?thesis using assms(1) keeps_sched_ok by blast
qed

lemma sched_ok_insert:
  assumes ok: "sched_ok s" and x: "x \<notin> snd ` set (requests s)" "map_of (requests s) (request_id r) = None" "py_id r = x" "waitable (status r)"
    and s': "sch_objs s' = (sch_objs s)(x := r)" "rq_bag (waiting s') = add_mset x (rq_bag (waiting s))" "running s' = running s"
      "requests s' = AList.update (request_id r) x (requests s)"
  shows "sched_ok s'"
proof -
  have l: "y \<noteq> x" if "map_of (requests s) rid = Some y" for rid y using that x(1) by (force dest: map_of_SomeD)
  have t: "entries_ok s" "\<forall>y \<in># queued s. listed s y" using ok by (simp_all add: sched_ok_def requests_ok_iff)
  have q: "queued s' = add_mset x (queued s)" using s'(2,3) by (simp add: queued_def)
  have new: "x \<notin># queued s" using t(2) l by (auto simp: listed_def)
  have "entries_ok s'" unfolding entries_ok_def
  proof (intro conjI allI impI)
    show "distinct (map fst (requests s'))" using t(1) s'(4) by (simp add: entries_ok_def AList.distinct_update)
    fix rid y assume y: "map_of (requests s') rid = Some y"
    then show "request_id (obj s' y) = rid" "py_id (obj s' y) = y"
      using t(1) s'(1,4) x(3) l by (auto simp: entries_ok_def AList.update_conv' split: if_splits)
  qed
  moreover have "listed s' y" if "y \<in># queued s'" for y
    using that q t(2) s'(1,4) x(2) l unfolding listed_def by (auto simp: AList.update_conv')
  moreover have "well_queued s' {#}"
  proof -
    have "count (queued s') y \<le> 1" for y
      using ok new unfolding q by (auto simp: sched_ok_def well_queued_def not_in_iff)
    moreover have "y \<noteq> x" if "y \<in> set (running s)" for y using that new by (auto simp: queued_def)
    ultimately show ?thesis using ok x(4) s'(1-3) by (auto simp: sched_ok_def well_queued_def)
  qed
  ultimately show ?thesis by (simp add: sched_ok_def requests_ok_iff)
qed

lemma add_request_ok:
  assumes a: "add_request cfg ops now r s = Some (Inr s')" and ok: "sched_ok s"
    and new: "py_id r \<notin> snd ` set (requests s)" "waitable (status r)"
  shows "sched_ok s'"
proof (cases "map_of (requests s) (request_id r)")
  case None
  let ?r = "if resumable r then r\<lparr>streaming_queue := Some []\<rparr> else r"
  let ?s1 = "s\<lparr>sch_objs := (sch_objs s)(py_id r := ?r)\<rparr>"
  let ?s2 = "?s1\<lparr>waiting := rq_add_request (sch_objs ?s1) (waiting ?s1) (py_id r), requests := AList.update (request_id r) (py_id r) (requests ?s1)\<rparr>"
  have "sched_ok ?s2" using new None
    by (intro sched_ok_insert[OF ok, where r = "?r" and x = "py_id r"]) (auto simp: qb.bag_add)
  moreover have "s' = upd_obj (py_id r) (log_event cfg EV_QUEUED now) ?s2" using a None by (simp add: add_request_def Let_def)
  moreover have "same_queues ?s2 (upd_obj (py_id r) (log_event cfg EV_QUEUED now) ?s2)"
    by (rule same_queues_upd) (simp_all add: same_req_def log_event_def record_event_def)
  ultimately show ?thesis using same_queues_sched_ok by blast
next
  case (Some x)
  show ?thesis
  proof (cases "status (obj s x) = WAITING_FOR_STREAMING_REQ")
    case False
    then obtain q where "s' = upd_obj x (\<lambda>e. e\<lparr>streaming_queue := Some q\<rparr>) s"
      using a Some by (auto simp: add_request_def Let_def split: option.splits)
    moreover have "same_queues s (upd_obj x (\<lambda>e. e\<lparr>streaming_queue := Some q\<rparr>) s)"
      by (rule same_queues_upd) (simp_all add: same_req_def)
    ultimately show ?thesis using ok same_queues_sched_ok by blast
  next
    case True
    show ?thesis
    proof (cases "StreamingUpdate_from_request r")
      case None
      then show ?thesis using a Some True ok finish_requests_ok(1) by (auto simp: add_request_def)
    next
      case (Some u)
      then have u: "update_request_as_session cfg now x u s = Some (Inr s')"
        using a True \<open>map_of (requests s) (request_id r) = Some x\<close> by (simp add: add_request_def)
      note f = session_frame[OF u]
      show ?thesis by (rule sched_ok_replace[OF ok f(1-3)]) (simp add: f(4) True)
    qed
  qed
qed

section \<open>Resetting the prefix cache\<close>

lemma preempt_all_keeps: "preempt_all cfg now s = Inr s' \<Longrightarrow> keeps e s e s'"
proof (induction cfg now s rule: preempt_all.induct)
  case (1 cfg now s)
  show ?case
  proof (cases "running s = []")
    case True
    then show ?thesis using "1.prems" by (simp add: preempt_all.simps)
  next
    case False
    let ?x = "last (running s)"
    obtain s1 where p: "preempt_request cfg now ?x (s\<lparr>running := butlast (running s)\<rparr>) = Inr s1"
      "preempt_all cfg now (upd_obj ?x (\<lambda>r. r\<lparr>num_output_placeholders := 0, discard_latest_async_tokens := True\<rparr>) s1) = Inr s'"
      using "1.prems" False by (subst (asm) preempt_all.simps) (auto simp: Let_def split: sum.splits)
    note g = preempt_request_frame[OF p(1)]
    have "mset (running s) = add_mset ?x (mset (butlast (running s)))"
      using arg_cong[OF append_butlast_last_id[OF False], of mset] by simp
    moreover obtain r where "sch_objs s1 = (sch_objs s)(?x := r)" "status r = PREEMPTED" "py_id r = py_id (obj s ?x)" "request_id r = request_id (obj s ?x)"
      using g(5) by auto
    ultimately have "keeps e s e s1" using g(1-3) by (intro keeps_move_to_waiting[where r = r]) simp_all
    moreover have "same_queues s1 (upd_obj ?x (\<lambda>r. r\<lparr>num_output_placeholders := 0, discard_latest_async_tokens := True\<rparr>) s1)"
      by (rule same_queues_upd) (simp_all add: same_req_def)
    ultimately show ?thesis using "1.IH"[OF False refl p(1)] p(2) keeps_same_queues keeps_trans by metis
  qed
qed

lemma reset_prefix_cache_ok:
  assumes "sched_reset_prefix_cache cfg ops now rr rc s = Inr (b, s')" "sched_ok s"
  shows "sched_ok s'"
proof -
  obtain s2 ok k where a: "(if rr then rbind (preempt_all cfg now s) (\<lambda>s1. Inr (s1\<lparr>prev_step_scheduled_req_ids := {}\<rparr>)) else Inr s) = Inr s2"
    "kvm_reset_prefix_cache (kv_cache_manager s2) = Inr (ok, k)"
    using assms(1) unfolding sched_reset_prefix_cache_def rbind_Inr_iff by auto
  have "sched_ok s2"
  proof (cases rr)
    case True
    then obtain s1 where s1: "preempt_all cfg now s = Inr s1" "s2 = s1\<lparr>prev_step_scheduled_req_ids := {}\<rparr>" using a(1) by (auto simp: rbind_Inr_iff)
    have "sched_ok s1" using preempt_all_keeps[OF s1(1)] assms(2) keeps_sched_ok by blast
    then show ?thesis unfolding s1(2) by (rule same_queues_sched_ok[rotated]) (simp add: same_queues_def)
  qed (use a(1) assms(2) in simp)
  moreover have "same_queues s2 s'"
    using assms(1) a by (auto simp: sched_reset_prefix_cache_def reset_connector_cache_def Let_def rbind_Inr_iff same_queues_def
        split: if_splits option.splits prod.splits)
  ultimately show ?thesis using same_queues_sched_ok by blast
qed

lemma update_draft_same: "same_queues s (update_draft_token_ids advance validate drafts s)"
  unfolding update_draft_token_ids_def
proof (induction drafts arbitrary: s)
  case (Cons d ds)
  have "same_queues s (set_draft_tokens advance validate d s)"
    by (auto simp: set_draft_tokens_def same_req_def split: prod.splits option.splits intro!: same_queues_upd)
  then show ?case using Cons.IH same_queues_trans by fastforce
qed simp

section \<open>Reachable schedulers\<close>

text \<open>
  The scheduler as a transition system: what the engine core may call, in any order, with any arguments
  that its callers can pass. A new request is an object that is not yet in the table; the token counts of an
  output are a dictionary.
\<close>

inductive sched_reachable :: "sched_config \<Rightarrow> 'c kv_connector_ops \<Rightarrow> 'c Scheduler \<Rightarrow> bool" for cfg ops where
  init: "Scheduler_init v sc kv bsize inc logging conn order hasher store = Inr (cfg, s) \<Longrightarrow> sched_reachable cfg ops s"
| schedule: "sched_reachable cfg ops s \<Longrightarrow> schedule cfg ops ready now s = Some (Inr (out, s')) \<Longrightarrow> sched_reachable cfg ops s'"
| result: "sched_reachable cfg ops s \<Longrightarrow> distinct (map fst (out_num_scheduled_tokens out)) \<Longrightarrow>
    update_from_output cfg ops now out mro s = Some (Inr (res, s')) \<Longrightarrow> sched_reachable cfg ops s'"
| add: "sched_reachable cfg ops s \<Longrightarrow> py_id r \<notin> snd ` set (requests s) \<Longrightarrow> waitable (status r) \<Longrightarrow>
    add_request cfg ops now r s = Some (Inr s') \<Longrightarrow> sched_reachable cfg ops s'"
| finish: "sched_reachable cfg ops s \<Longrightarrow> finish_requests cfg ops rids st s = Inr s' \<Longrightarrow> sched_reachable cfg ops s'"
| reset: "sched_reachable cfg ops s \<Longrightarrow> sched_reset_prefix_cache cfg ops now rr rc s = Inr (b, s') \<Longrightarrow> sched_reachable cfg ops s'"
| drafts: "sched_reachable cfg ops s \<Longrightarrow> sched_reachable cfg ops (update_draft_token_ids advance validate ds s)"

lemma init_empty:
  assumes "Scheduler_init v sc kv bsize inc logging conn order hasher store = Inr (cfg, s)"
  shows "requests s = []" "running s = []" "rq_bag (waiting s) = {#}"
proof -
  obtain sp eg dr where spec: "(case cfg_speculative sc of None \<Rightarrow> (0, False, False) | Some t \<Rightarrow> t) = (sp, eg, dr)"
    using prod_cases3 by blast
  have empty: "rq_bag (create_request_queue pol) = {#}" for pol :: SchedulingPolicy
    by (cases pol) simp_all
  have "requests s = [] \<and> running s = [] \<and> rq_bag (waiting s) = {#}"
    using assms unfolding Scheduler_init_def Let_def spec prod.case py_assert_Inr_iff rbind_Inr_iff
    by (elim exE conjE) (auto simp: rbind_Inr_iff empty)
  then show "requests s = []" "running s = []" "rq_bag (waiting s) = {#}" by blast+
qed

lemma init_ok: "Scheduler_init v sc kv bsize inc logging conn order hasher store = Inr (cfg, s) \<Longrightarrow> sched_ok s"
  by (frule init_empty(1), frule init_empty(2), drule init_empty(3)) (simp add: sched_ok_def well_queued_def requests_ok_def queued_def)

theorem sched_reachable_ok: "sched_reachable cfg ops s \<Longrightarrow> sched_ok s"
proof (induction rule: sched_reachable.induct)
  case (schedule s ready now out s')
  then show ?case using schedule_keeps keeps_sched_ok by blast
next
  case (drafts s advance validate ds)
  then show ?case using update_draft_same same_queues_sched_ok by blast
qed (blast intro: init_ok update_from_output_ok add_request_ok finish_requests_ok(1) reset_prefix_cache_ok)+

end
