(* ===== verification/Sched_Budget.thy ===== *)
theory Sched_Budget
  imports Sched_Operations
begin

text \<open>
  The scheduling constraints: in every step the tokens handed out are positive, belong to running
  requests, one entry per request, and together stay within the budget; the number of running requests stays within its
  limit. So the assertions after the two loops of \<^verbatim>\<open>schedule\<close> and the one at the head of the loop of
  \<^verbatim>\<open>update_from_output\<close> cannot fail.
\<close>

section \<open>Dictionaries and lists\<close>

lemma update_new_key: "k \<notin> fst ` set d \<Longrightarrow> AList.update k v d = d @ [(k, v)]"
  by (induction d) auto

lemma sum_values_delete:
  "distinct (map fst d) \<Longrightarrow> map_of d k = Some v \<Longrightarrow> sum_list (map snd (AList.delete k d)) + v = sum_list (map snd d)" for v :: int
proof (induction d)
  case (Cons a d)
  show ?case
  proof (cases "fst a = k")
    case True
    then have "k \<notin> fst ` set d" using Cons.prems(1) by auto
    then have "AList.delete k d = d" by (simp add: AList.delete_idem)
    then show ?thesis using True Cons.prems(2) by (simp add: AList.delete_eq) (auto simp: filter_id_conv)
  next
    case False
    then show ?thesis using Cons by (auto simp: AList.delete_eq)
  qed
qed simp

lemma take_remove1: "a \<in> set (take m xs) \<Longrightarrow> a \<noteq> v \<Longrightarrow> a \<in> set (take m (remove1 v xs))"
proof (induction xs arbitrary: m)
  case (Cons y ys)
  obtain k where m: "m = Suc k" using Cons.prems(1) by (cases m) auto
  show ?case
  proof (cases "y = v")
    case True
    then have "a \<in> set (take k ys)" using Cons.prems m by auto
    then show ?thesis using True m set_take_subset_set_take[of k m ys] by auto
  next
    case False
    then show ?thesis using Cons m by auto
  qed
qed simp

lemma take_remove1_before: "a \<in> set (take (Suc m) xs) \<Longrightarrow> a \<noteq> v \<Longrightarrow> v \<in> set (take (Suc m) xs) \<Longrightarrow> a \<in> set (take m (remove1 v xs))"
proof (induction xs arbitrary: m)
  case (Cons y ys)
  show ?case
  proof (cases "y = v")
    case True
    then show ?thesis using Cons.prems by auto
  next
    case False
    then obtain k where m: "m = Suc k" using Cons.prems by (cases m) auto
    then show ?thesis using Cons False by auto
  qed
qed simp

lemma set_remove1_keeps: "set xs - {v} \<subseteq> set (remove1 v xs)"
  by (induction xs) auto

lemma nth_not_in_take: "distinct xs \<Longrightarrow> i < length xs \<Longrightarrow> xs ! i \<notin> set (take i xs)"
  by (metis distinct_take id_take_nth_drop not_distinct_conv_prefix)

lemma butlast_remove1: "distinct xs \<Longrightarrow> xs \<noteq> [] \<Longrightarrow> butlast xs = remove1 (last xs) xs"
  by (induction xs) auto

section \<open>Chunk sizes\<close>

lemma encoder_rest_tokens:
  assumes "try_encoder_rest cfg r nc shift i is p = Inr p'" "0 \<le> shift" "shift \<le> 1" "0 \<le> plan_new_tokens p"
    "pr_offset (mm_position (mm_features r ! i)) < nc + plan_new_tokens p + shift"
  shows "(\<exists>q. plan_new_tokens q = plan_new_tokens p \<and> try_encoder_loop cfg r nc shift is q = Inr p') \<or>
    (0 \<le> plan_new_tokens p' \<and> plan_new_tokens p' \<le> plan_new_tokens p)"
proof -
  let ?pos = "mm_position (mm_features r ! i)"
  obtain e where e: "get_num_embeds ?pos = Inr e" using assms(1) by (auto simp: try_encoder_rest_def Let_def rbind_Inr_iff)
  show ?thesis
  proof (cases "disable_chunked_mm_input cfg \<and> nc < pr_offset ?pos \<and> nc + plan_new_tokens p < pr_offset ?pos + pr_length ?pos")
    case True
    then have "p' = p\<lparr>plan_new_tokens := pr_offset ?pos - nc\<rparr>" using assms(1) e by (simp add: try_encoder_rest_def Let_def)
    then show ?thesis using True assms by simp
  next
    case False
    obtain ok m2 where ok: "em_can_allocate (plan_manager p) r i (plan_budget p) (num_embeds_to_schedule p) = Inr (ok, m2)"
      using assms(1) e False by (auto simp: try_encoder_rest_def Let_def rbind_Inr_iff)
    let ?q = "p\<lparr>plan_manager := m2\<rparr>"
    show ?thesis
    proof (cases ok)
      case True
      then obtain a b where "get_embeds_indices_in_range ?pos (max 0 (nc - pr_offset ?pos)) (min (pr_length ?pos) (nc + plan_new_tokens p - pr_offset ?pos)) = Inr (a, b)"
        using assms(1) e False ok by (auto simp: try_encoder_rest_def Let_def rbind_Inr_iff)
      then have "\<exists>q. plan_new_tokens q = plan_new_tokens p \<and> try_encoder_loop cfg r nc shift is q = Inr p'"
        using assms(1) e False ok True
        by (cases "b - a = 0"; cases "case ec_has_cache_item cfg of None \<Rightarrow> False | Some has \<Rightarrow> has (item_key r i)")
          (fastforce simp: try_encoder_rest_def Let_def)+
      then show ?thesis ..
    next
      case not_ok: False
      then have "p' = ?q\<lparr>plan_new_tokens := (if nc + shift < pr_offset ?pos then pr_offset ?pos - (nc + shift) else 0)\<rparr>"
        using assms(1) e False ok by (simp add: try_encoder_rest_def Let_def)
      then show ?thesis using assms by simp
    qed
  qed
qed

lemma encoder_loop_tokens:
  "try_encoder_loop cfg r nc shift is p = Inr p' \<Longrightarrow> 0 \<le> shift \<Longrightarrow> shift \<le> 1 \<Longrightarrow> 0 \<le> plan_new_tokens p \<Longrightarrow>
     0 \<le> plan_new_tokens p' \<and> plan_new_tokens p' \<le> plan_new_tokens p"
proof (induction "is" arbitrary: p)
  case (Cons i "is")
  let ?pos = "mm_position (mm_features r ! i)" and ?n = "plan_new_tokens p"
  let ?rest = "\<exists>q. plan_new_tokens q = ?n \<and> try_encoder_loop cfg r nc shift is q = Inr p'"
  have "?rest \<or> (0 \<le> plan_new_tokens p' \<and> plan_new_tokens p' \<le> ?n)"
  proof -
    consider (past) "pr_offset ?pos \<ge> nc + ?n + shift" | (skip) "is_encoder_decoder cfg \<and> nc > 0 \<or> pr_offset ?pos + pr_length ?pos \<le> nc" "pr_offset ?pos < nc + ?n + shift"
      | (look) "\<not> (is_encoder_decoder cfg \<and> nc > 0)" "\<not> pr_offset ?pos + pr_length ?pos \<le> nc" "pr_offset ?pos < nc + ?n + shift"
      by linarith
    then show ?thesis
    proof cases
      case past
      then show ?thesis using Cons.prems by (auto simp: Let_def rbind_Inr_iff)
    next
      case skip
      then show ?thesis using Cons.prems by (auto simp: Let_def rbind_Inr_iff split: if_splits)
    next
      case look
      obtain b m1 where b: "(if is_encoder_decoder cfg then Inr (False, plan_manager p)
                    else if mm_identifier (mm_features r ! i) \<in> mm_hashes_to_schedule p then Inr (True, plan_manager p)
                    else em_check_and_update_cache (plan_manager p) r i) = Inr (b, m1)"
        using Cons.prems look by (auto simp: Let_def rbind_Inr_iff)
      define q where "q = p\<lparr>plan_manager := m1\<rparr>"
      have q: "plan_new_tokens q = ?n" by (simp add: q_def)
      show ?thesis
      proof (cases b)
        case True
        then have "try_encoder_loop cfg r nc shift is q = Inr p'" using Cons.prems look b by (auto simp: Let_def rbind_Inr_iff q_def)
        then show ?thesis using q by blast
      next
        case False
        obtain e where e: "get_num_embeds ?pos = Inr e" using Cons.prems(1) by (auto simp: Let_def rbind_Inr_iff)
        have "try_encoder_loop cfg r nc shift (i # is) p = try_encoder_rest cfg r nc shift i is q"
          using look b e False
          by (cases "is_encoder_decoder cfg") (simp_all add: q_def try_encoder_rest_def not_le Let_def[of "mm_position (mm_features r ! i)"] Let_def[of "pr_offset _"]
            Let_def[of "pr_length _"] Let_def[of "item_key r i"] Let_def[of "_\<lparr>plan_manager := _\<rparr>"]
            del: em_check_and_update_cache.simps em_can_allocate.simps)
        then have "try_encoder_rest cfg r nc shift i is q = Inr p'" using Cons.prems(1) by simp
        then show ?thesis using encoder_rest_tokens[of cfg r nc shift i "is" q p'] Cons.prems look q by auto
      qed
    qed
  qed
  then show ?case using Cons.IH[OF _ Cons.prems(2,3)] Cons.prems(4) by metis
qed simp

lemma plan_encoder_tokens:
  assumes "plan_encoder cfg r nc n budget s = Inr ((ids, n', budget', external), s')" "0 \<le> n"
  shows "0 \<le> n'" "n' \<le> n" "\<not> has_encoder_inputs r \<Longrightarrow> n' = n"
proof -
  have "0 \<le> n' \<and> n' \<le> n \<and> (\<not> has_encoder_inputs r \<longrightarrow> n' = n)"
    using assms encoder_loop_tokens[of "enc_cfg cfg" r nc "if sc_use_eagle cfg then 1 else 0"]
    by (fastforce simp: plan_encoder_def try_schedule_encoder_inputs_def rbind_Inr_iff split: if_splits)
  then show "0 \<le> n'" "n' \<le> n" "\<not> has_encoder_inputs r \<Longrightarrow> n' = n" by blast+
qed

lemma split_mamba_tokens:
  assumes "split_mamba cfg r n a b = Inr n'" "0 \<le> n" "need_mamba_block_aligned_split cfg \<Longrightarrow> 0 < cache_block_size cfg"
  shows "0 \<le> n' \<and> n' \<le> n \<and> (\<not> need_mamba_block_aligned_split cfg \<longrightarrow> n' = n)"
proof -
  have "n div cache_block_size cfg * cache_block_size cfg \<le> n" "0 \<le> n div cache_block_size cfg * cache_block_size cfg"
    if "0 < cache_block_size cfg"
    using that assms(2) by (simp_all add: pos_imp_zdiv_nonneg_iff minus_mod_eq_div_mult [symmetric] zmod_le_nonneg_dividend)
  then show ?thesis using assms
    by (auto simp: split_mamba_def mamba_block_aligned_split_def Let_def split: if_splits)
qed

text \<open>A running request that has not got ahead of its tokens or of the model length.\<close>

definition on_track :: "sched_config \<Rightarrow> Request \<Rightarrow> bool" where
  "on_track cfg r \<longleftrightarrow> num_computed_tokens r \<le> num_tokens_with_spec r + num_output_placeholders r \<and>
     num_computed_tokens r \<le> sc_max_model_len cfg - 1"

lemma running_new_tokens_bounds:
  "on_track cfg r \<Longrightarrow> 0 \<le> budget \<Longrightarrow> 0 \<le> running_new_tokens cfg budget r \<and> running_new_tokens cfg budget r \<le> budget"
  by (auto simp: on_track_def running_new_tokens_def cap_long_prefill_def)

section \<open>The invariant of a step\<close>

definition scheduled_reqs :: "sched_pass \<Rightarrow> nat list" where
  "scheduled_reqs p = scheduled_running_reqs p @ scheduled_new_reqs p @ scheduled_resumed_reqs p"

definition pass_ok :: "sched_config \<Rightarrow> 'c Scheduler \<Rightarrow> sched_pass \<Rightarrow> bool" where
  "pass_ok cfg s p \<longleftrightarrow> distinct (scheduled_reqs p) \<and> set (scheduled_reqs p) \<subseteq> set (running s) \<and>
     distinct (map fst (num_scheduled_tokens p)) \<and>
     fst ` set (num_scheduled_tokens p) = (\<lambda>x. request_id (obj s x)) ` set (scheduled_reqs p) \<and>
     (\<forall>v \<in> snd ` set (num_scheduled_tokens p). 0 < v) \<and>
     sum_list (map snd (num_scheduled_tokens p)) + token_budget p = max_num_scheduled_tokens cfg \<and> 0 \<le> token_budget p"

lemma pass_ok_locals [simp]:
  "pass_ok cfg s (p\<lparr>skipped_waiting_requests := w\<rparr>) = pass_ok cfg s p" "pass_ok cfg s (p\<lparr>scheduled_loras := l\<rparr>) = pass_ok cfg s p"
  by (simp_all add: pass_ok_def scheduled_reqs_def)

lemma pass_ok_frame: "running s' = running s \<Longrightarrow> (\<And>y. request_id (obj s' y) = request_id (obj s y)) \<Longrightarrow> pass_ok cfg s' p = pass_ok cfg s p"
  by (simp add: pass_ok_def)

lemma pass_ok_constraints:
  assumes "pass_ok cfg s p" "int (length (running s)) \<le> max_num_running_reqs cfg"
  shows "constraints_ok cfg s p"
proof -
  have "length (scheduled_reqs p) = card (set (scheduled_reqs p))" using assms(1) by (simp add: pass_ok_def distinct_card)
  also have "\<dots> \<le> card (set (running s))" using assms(1) by (intro card_mono) (auto simp: pass_ok_def)
  also have "\<dots> \<le> length (running s)" by (rule card_length)
  finally show ?thesis using assms by (auto simp: constraints_ok_def pass_ok_def dict_values_def scheduled_reqs_def)
qed

text \<open>A request gets its entry; a scheduled request loses it.\<close>

lemma pass_ok_add:
  assumes "pass_ok cfg s p" "x \<notin> set (scheduled_reqs p)" "x \<in> set (running s')" "set (scheduled_reqs p) \<subseteq> set (running s')"
    "inj_on (\<lambda>x. request_id (obj s x)) (insert x (set (scheduled_reqs p)))"
    "\<And>y. request_id (obj s' y) = request_id (obj s y)" "0 < n" "n \<le> token_budget p"
    "num_scheduled_tokens p' = AList.update (request_id (obj s x)) n (num_scheduled_tokens p)" "token_budget p' = token_budget p - n"
    "set (scheduled_reqs p') = insert x (set (scheduled_reqs p))" "distinct (scheduled_reqs p')"
  shows "pass_ok cfg s' p'"
proof -
  have "request_id (obj s x) \<notin> fst ` set (num_scheduled_tokens p)"
    using assms(1,2,5) by (auto simp: pass_ok_def inj_on_def)
  then have "num_scheduled_tokens p' = num_scheduled_tokens p @ [(request_id (obj s x), n)]"
    "request_id (obj s x) \<notin> set (map fst (num_scheduled_tokens p))" using assms(9) by (simp_all add: update_new_key)
  then show ?thesis using assms by (simp add: pass_ok_def)
qed

lemma pass_ok_drop:
  assumes "pass_ok cfg s p" "v \<in> set (scheduled_reqs p)" "map_of (num_scheduled_tokens p) (request_id (obj s v)) = Some n"
    "inj_on (\<lambda>x. request_id (obj s x)) (set (scheduled_reqs p))" "running s' = remove1 v (running s)"
    "\<And>y. request_id (obj s' y) = request_id (obj s y)"
    "num_scheduled_tokens p' = AList.delete (request_id (obj s v)) (num_scheduled_tokens p)" "token_budget p' = token_budget p + n"
    "scheduled_reqs p' = remove1 v (scheduled_reqs p)"
  shows "pass_ok cfg s' p'"
proof -
  have d: "distinct (map fst (num_scheduled_tokens p))" "distinct (scheduled_reqs p)" using assms(1) by (simp_all add: pass_ok_def)
  have set: "set (scheduled_reqs p') = set (scheduled_reqs p) - {v}" using assms(9) d(2) by simp
  have "fst ` set (num_scheduled_tokens p') = fst ` set (num_scheduled_tokens p) - {request_id (obj s v)}"
    using assms(7) by (force simp: AList.delete_eq)
  also have "\<dots> = (\<lambda>x. request_id (obj s' x)) ` set (scheduled_reqs p')"
    using assms(1,2,4,6) set by (auto simp: pass_ok_def inj_on_def)
  finally have keys: "fst ` set (num_scheduled_tokens p') = (\<lambda>x. request_id (obj s' x)) ` set (scheduled_reqs p')" .
  have sum: "sum_list (map snd (num_scheduled_tokens p')) + n = sum_list (map snd (num_scheduled_tokens p))"
    using sum_values_delete[OF d(1) assms(3)] assms(7) by simp
  have sub: "set (num_scheduled_tokens p') \<subseteq> set (num_scheduled_tokens p)" using assms(7) by (auto simp: AList.delete_eq)
  have "0 < n" using assms(1,3) by (force simp: pass_ok_def dest: map_of_SomeD)
  moreover have "set (scheduled_reqs p) - {v} \<subseteq> set (remove1 v (running s))"
    using assms(1) set_remove1_keeps[of "running s" v] by (auto simp: pass_ok_def)
  ultimately show ?thesis using assms(1,5,7,8) keys sum sub d set
    by (auto simp: pass_ok_def AList.distinct_delete assms(9))
qed

section \<open>The loop over the running requests\<close>

lemma queued_ids_inj:
  assumes "\<forall>x \<in># queued s + e. listed s x"
  shows "inj_on (\<lambda>x. request_id (obj s x)) (set_mset (queued s + e))"
proof (rule inj_onI)
  fix x y assume a: "x \<in># queued s + e" "y \<in># queued s + e" "request_id (obj s x) = request_id (obj s y)"
  then have "listed s x" "listed s y" using assms by auto
  then show "x = y" using a(3) by (rule listed_distinct)
qed

lemma sched_ok_running:
  assumes "sched_ok s"
  shows "distinct (running s)" "inj_on (\<lambda>x. request_id (obj s x)) (set (running s))"
proof -
  show "distinct (running s)" using sched_ok_upd_inv[OF assms] by (simp add: upd_inv_def)
  have "inj_on (\<lambda>x. request_id (obj s x)) (set_mset (queued s + {#}))"
    by (rule queued_ids_inj) (use assms in \<open>simp add: sched_ok_def requests_ok_iff\<close>)
  then show "inj_on (\<lambda>x. request_id (obj s x)) (set (running s))" by (rule inj_on_subset) (simp add: queued_def)
qed

text \<open>
  Between two iterations the scheduled requests stand before the index and the others are as they were;
  while slots are allocated for \<open>x\<close>, it stands at the index or, after preemptions before it, earlier.
\<close>

definition run_inv :: "sched_config \<Rightarrow> 'c Scheduler \<Rightarrow> sched_pass \<Rightarrow> bool" where
  "run_inv cfg s p \<longleftrightarrow> sched_ok s \<and> pass_ok cfg s p \<and> scheduled_new_reqs p = [] \<and> scheduled_resumed_reqs p = [] \<and> 0 \<le> req_index p \<and>
     set (scheduled_running_reqs p) \<subseteq> set (take (nat (req_index p)) (running s)) \<and>
     (\<forall>x \<in> set (running s) - set (scheduled_running_reqs p). on_track cfg (obj s x))"

definition alloc_inv :: "sched_config \<Rightarrow> nat \<Rightarrow> 'c Scheduler \<Rightarrow> sched_pass \<Rightarrow> bool" where
  "alloc_inv cfg x s p \<longleftrightarrow> run_inv cfg s p \<and> x \<notin> set (scheduled_running_reqs p) \<and>
     x \<in> set (take (Suc (nat (req_index p))) (running s)) \<and>
     (policy cfg = FCFS \<longrightarrow> nat (req_index p) < length (running s) \<and> running s ! nat (req_index p) = x)"

lemma preempt_one_spec:
  assumes p: "preempt_one cfg now (s, p) = Inr (v, s', p')" and d: "distinct (running s)"
  obtains "running s' = remove1 v (running s)" "\<And>y. y \<noteq> v \<Longrightarrow> obj s' y = obj s y" "\<And>y. request_id (obj s' y) = request_id (obj s y)"
    "policy cfg = FCFS \<Longrightarrow> v = last (running s)" "policy cfg = PRIORITY \<Longrightarrow> v \<notin> set (scheduled_running_reqs p)"
    "p' = p\<lparr>preempted_reqs := preempted_reqs p @ [v]\<rparr>" "v \<in> set (running s)" "same_tokens (obj s v) (obj s' v)"
  | n where "running s' = remove1 v (running s)" "\<And>y. y \<noteq> v \<Longrightarrow> obj s' y = obj s y" "\<And>y. request_id (obj s' y) = request_id (obj s y)"
    "policy cfg = PRIORITY" "v \<in> set (scheduled_running_reqs p)" "map_of (num_scheduled_tokens p) (request_id (obj s v)) = Some n"
    "scheduled_running_reqs p' = remove1 v (scheduled_running_reqs p)" "token_budget p' = token_budget p + n"
    "num_scheduled_tokens p' = AList.delete (request_id (obj s v)) (num_scheduled_tokens p)" "req_index p' = req_index p - 1"
    "scheduled_new_reqs p' = scheduled_new_reqs p" "scheduled_resumed_reqs p' = scheduled_resumed_reqs p" "v \<in> set (running s)"
    "same_tokens (obj s v) (obj s' v)" "scheduled_spec_decode_tokens p' = AList.delete (request_id (obj s v)) (scheduled_spec_decode_tokens p)"
proof -
  obtain s1 p1 where v: "pick_victim cfg (s, p) = Inr (v, s1, p1)" "preempt_request cfg now v s1 = Inr s'"
    "p' = p1\<lparr>preempted_reqs := preempted_reqs p1 @ [v]\<rparr>"
    using p by (auto simp: preempt_one_def rbind_Inr_iff)
  note in_run = pick_victim_running(1)[OF v(1)]
  have s1: "sch_objs s1 = sch_objs s" by (subst pick_victim_frame(1)[OF v(1)]) simp
  note g = preempt_request_frame[OF v(2)]
  obtain r where r: "sch_objs s' = (sch_objs s)(v := r)" "request_id r = request_id (obj s v)" "same_tokens (obj s v) r" using g(5) s1 by auto
  have o: "\<And>y. y \<noteq> v \<Longrightarrow> obj s' y = obj s y" "\<And>y. request_id (obj s' y) = request_id (obj s y)" and tok: "same_tokens (obj s v) (obj s' v)" using r by auto
  show thesis
  proof (cases "policy cfg")
    case PRIORITY
    have run: "running s' = remove1 v (running s)"
      using v(1) g(2) PRIORITY by (auto simp: pick_victim_def rbind_Inr_iff Let_def split: if_splits)
    show thesis
    proof (cases "v \<in> set (scheduled_running_reqs p)")
      case True
      then have "unschedule (obj s v) v p = Inr p1"
        using v(1) PRIORITY by (auto simp: pick_victim_def rbind_Inr_iff Let_def split: if_splits)
      then show thesis using that(2)[OF run o PRIORITY True _ _ _ _ _ _ _ in_run tok] v(3)
        by (auto simp: unschedule_def Let_def rbind_Inr_iff dict_item_def split: option.splits)
    next
      case False
      then have "p1 = p" using v(1) PRIORITY by (auto simp: pick_victim_def rbind_Inr_iff Let_def split: if_splits)
      then show thesis using that(1)[OF run o _ _ _ in_run tok] v(3) PRIORITY False by simp
    qed
  next
    case FCFS
    then have l: "v = last (running s)" "p1 = p" "running s' = butlast (running s)" "running s \<noteq> []"
      using v(1) g(2) by (auto simp: pick_victim_def split: if_splits)
    have "running s' = remove1 v (running s)" using l(1,3) butlast_remove1[OF d l(4)] by simp
    then show thesis using that(1)[OF _ o _ _ _ in_run tok] l v(3) FCFS by simp
  qed
qed

lemma run_inv_drop:
  assumes i: "run_inv cfg s p" and ok: "sched_ok s'"
    and s': "running s' = remove1 v (running s)" "\<And>y. y \<noteq> v \<Longrightarrow> obj s' y = obj s y" "\<And>y. request_id (obj s' y) = request_id (obj s y)"
    and v: "v \<notin> set (scheduled_running_reqs p)"
  shows "run_inv cfg s' (p\<lparr>preempted_reqs := pre\<rparr>)"
proof -
  have r: "set (scheduled_reqs p) = set (scheduled_running_reqs p)" using i by (simp add: run_inv_def scheduled_reqs_def)
  have "distinct (running s)" using i sched_ok_running by (auto simp: run_inv_def)
  then have other: "y \<noteq> v \<and> y \<in> set (running s)" if "y \<in> set (running s')" for y using that s'(1) by simp
  have "set (scheduled_running_reqs p) \<subseteq> set (running s')" using i r v s'(1) set_remove1_keeps[of "running s" v] by (auto simp: run_inv_def pass_ok_def)
  then have "pass_ok cfg s' (p\<lparr>preempted_reqs := pre\<rparr>)" using i r s'(3) by (auto simp: run_inv_def pass_ok_def scheduled_reqs_def)
  moreover have "set (scheduled_running_reqs p) \<subseteq> set (take (nat (req_index p)) (running s'))"
    using i v s'(1) take_remove1[of _ "nat (req_index p)" "running s" v] unfolding run_inv_def by (auto simp: subset_iff)
  moreover have "on_track cfg (obj s' y)" if "y \<in> set (running s') - set (scheduled_running_reqs p)" for y
    using that other[of y] s'(2) i by (auto simp: run_inv_def)
  ultimately show ?thesis using i ok by (auto simp: run_inv_def)
qed

lemma alloc_inv_preempt:
  assumes i: "alloc_inv cfg x s p" and p: "preempt_one cfg now (s, p) = Inr (v, s', p')"
  shows "run_inv cfg s' p'" "v \<noteq> x \<Longrightarrow> alloc_inv cfg x s' p'" "token_budget p \<le> token_budget p'"
proof -
  have r: "run_inv cfg s p" and x: "x \<notin> set (scheduled_running_reqs p)" "x \<in> set (take (Suc (nat (req_index p))) (running s))"
    and fcfs: "policy cfg = FCFS \<Longrightarrow> nat (req_index p) < length (running s) \<and> running s ! nat (req_index p) = x"
    using i by (simp_all add: alloc_inv_def)
  have ok: "sched_ok s" "sched_ok s'" using r preempt_one_keeps[OF p] keeps_sched_ok by (auto simp: run_inv_def)
  note d = sched_ok_running[OF ok(1)]
  let ?i = "nat (req_index p)"
  have last_nth: "last (running s) = running s ! (length (running s) - 1)" if "policy cfg = FCFS"
    using fcfs[OF that] by (metis last_conv_nth length_0_conv not_less_zero)
  have "run_inv cfg s' p' \<and> (v \<noteq> x \<longrightarrow> alloc_inv cfg x s' p') \<and> token_budget p \<le> token_budget p'"
    using p d(1)
  proof (cases rule: preempt_one_spec)
    case 1
    have "v \<notin> set (scheduled_running_reqs p)"
    proof (cases "policy cfg")
      case FCFS
      have "running s ! (length (running s) - 1) \<notin> set (take ?i (running s))"
        using fcfs[OF FCFS] d(1) by (auto simp: in_set_conv_nth nth_eq_iff_index_eq)
      moreover have "v = running s ! (length (running s) - 1)" using 1(4)[OF FCFS] last_nth[OF FCFS] by simp
      ultimately show ?thesis using r by (auto simp: run_inv_def)
    qed (use 1(5) in simp)
    then have inv: "run_inv cfg s' p'" using run_inv_drop[OF r ok(2) 1(1-3)] 1(6) by simp
    moreover have "alloc_inv cfg x s' p'" if "v \<noteq> x"
    proof -
      have "?i < length (running s') \<and> running s' ! ?i = x" if f: "policy cfg = FCFS"
      proof -
        have "?i \<noteq> length (running s) - 1" using fcfs[OF f] 1(4)[OF f] \<open>v \<noteq> x\<close> last_nth[OF f] by auto
        moreover have "running s \<noteq> []" using fcfs[OF f] by auto
        then have "running s' = butlast (running s)" using 1(1) 1(4)[OF f] butlast_remove1[OF d(1)] by simp
        ultimately show ?thesis using fcfs[OF f] by (auto simp: nth_butlast)
      qed
      moreover have "x \<in> set (take (Suc ?i) (running s'))" using take_remove1[OF x(2)] that 1(1) by auto
      ultimately show ?thesis using inv x(1) 1(6) by (simp add: alloc_inv_def)
    qed
    ultimately show ?thesis using 1(6) by simp
  next
    case (2 n)
    have sr: "scheduled_reqs p = scheduled_running_reqs p" "scheduled_reqs p' = scheduled_running_reqs p'"
      using r 2(11,12) by (simp_all add: run_inv_def scheduled_reqs_def)
    have po: "pass_ok cfg s p" and before: "set (scheduled_running_reqs p) \<subseteq> set (take ?i (running s))" using r by (simp_all add: run_inv_def)
    have "pass_ok cfg s' p'"
      by (rule pass_ok_drop[OF po _ 2(6) _ 2(1,3,9,8)]) (use 2(5,7) sr po d(2) in \<open>auto simp: pass_ok_def intro: inj_on_subset\<close>)
    have dist: "distinct (scheduled_running_reqs p)" using po sr by (simp add: pass_ok_def)
    obtain j where j: "?i = Suc j" using before 2(5) by (cases ?i) auto
    have idx: "nat (req_index p') = j" "0 \<le> req_index p'" using j 2(10) by auto
    have vin: "v \<in> set (take ?i (running s))" using before 2(5) by auto
    have "y \<in> set (take j (running s'))" if "y \<in> set (scheduled_running_reqs p')" for y
      using that dist before take_remove1_before[of y j "running s" v] vin j 2(1,7) by auto
    moreover have "on_track cfg (obj s' y)" if "y \<in> set (running s') - set (scheduled_running_reqs p')" for y
      using that r d(1) dist 2(1,2,7) by (auto simp: run_inv_def)
    moreover have "scheduled_new_reqs p' = []" "scheduled_resumed_reqs p' = []" using r 2(11,12) by (simp_all add: run_inv_def)
    ultimately have inv: "run_inv cfg s' p'" using ok(2) \<open>pass_ok cfg s' p'\<close> idx by (auto simp: run_inv_def)
    have "v \<in> set (take (Suc ?i) (running s))" using vin set_take_subset_set_take[of ?i "Suc ?i" "running s"] by auto
    then have "x \<in> set (take (Suc j) (running s'))" if "v \<noteq> x"
      using take_remove1_before[OF x(2)] that 2(1) j by auto
    moreover have "x \<notin> set (scheduled_running_reqs p')" using x(1) 2(7) by (auto dest: notin_set_remove1)
    moreover have "0 < n" using po 2(6) by (force simp: pass_ok_def dest: map_of_SomeD)
    ultimately show ?thesis using inv idx(1) 2(4,8) by (auto simp: alloc_inv_def)
  qed
  then show "run_inv cfg s' p'" "v \<noteq> x \<Longrightarrow> alloc_inv cfg x s' p'" "token_budget p \<le> token_budget p'" by blast+
qed

lemma run_inv_frame [simp]:
  "run_inv cfg (s\<lparr>kv_cache_manager := k\<rparr>) p \<longleftrightarrow> run_inv cfg s p" "run_inv cfg (s\<lparr>encoder_cache_manager := m\<rparr>) p \<longleftrightarrow> run_inv cfg s p"
  by (simp_all add: run_inv_def sched_ok_def requests_ok_def pass_ok_def well_queued_def queued_def)

lemma alloc_inv_frame [simp]:
  "alloc_inv cfg x (s\<lparr>kv_cache_manager := k\<rparr>) p \<longleftrightarrow> alloc_inv cfg x s p"
  by (simp add: alloc_inv_def)

lemma alloc_loop_inv:
  assumes "alloc_loop cfg now x n s p = Inr (b, s', p')" "alloc_inv cfg x s p"
  shows "if b = None then run_inv cfg s' p' else alloc_inv cfg x s' p' \<and> token_budget p \<le> token_budget p'"
  using assms
proof (induction rule: alloc_loop_induct)
  case (self s p k s2 p2)
  then show ?case using alloc_inv_preempt(1)[OF _ self(2), of x] by simp
next
  case (preempt s p k v s2 p2 b s' p')
  then show ?case using alloc_inv_preempt(2,3)[OF _ preempt(2), of x] by fastforce
qed simp

lemma schedule_running_inv:
  assumes a: "schedule_running cfg x n blocks ids external budget (s, p) = Inr (s', p')" and i: "alloc_inv cfg x s p"
    and n: "0 < n" "n \<le> token_budget p"
  shows "run_inv cfg s' p'"
proof -
  note f = schedule_running_frame[OF a]
  obtain t where t: "sch_objs s' = (sch_objs s)(x := (obj s x)\<lparr>spec_token_ids := t\<rparr>)" using f(5) by blast
  obtain e b d where p': "p' = (add_scheduled (request_id (obj s x)) blocks n p)
       \<lparr>scheduled_running_reqs := scheduled_running_reqs p @ [x], req_index := req_index p + 1,
        scheduled_encoder_inputs := e, encoder_compute_budget := b, scheduled_spec_decode_tokens := d\<rparr>" using f(6) by blast
  have r: "run_inv cfg s p" and x: "x \<notin> set (scheduled_running_reqs p)" "x \<in> set (take (Suc (nat (req_index p))) (running s))"
    using i by (simp_all add: alloc_inv_def)
  have ok: "sched_ok s" "sched_ok s'" using r schedule_running_keeps[OF a] keeps_sched_ok by (auto simp: run_inv_def)
  have xr: "x \<in> set (running s)" using x(2) by (rule in_set_takeD)
  have po: "pass_ok cfg s p" and sr: "scheduled_reqs p = scheduled_running_reqs p" "scheduled_reqs p' = scheduled_running_reqs p @ [x]"
    using r p' by (simp_all add: run_inv_def scheduled_reqs_def add_scheduled_def)
  have inj: "inj_on (\<lambda>x. request_id (obj s x)) (insert x (set (scheduled_reqs p)))"
    by (rule inj_on_subset[OF sched_ok_running(2)[OF ok(1)]]) (use po xr in \<open>auto simp: pass_ok_def\<close>)
  have "pass_ok cfg s' p'"
    by (rule pass_ok_add[OF po _ _ _ inj _ n]) (use po x sr xr p' f(1) t in \<open>auto simp: pass_ok_def add_scheduled_def\<close>)
  moreover have "set (scheduled_running_reqs p') \<subseteq> set (take (nat (req_index p')) (running s'))"
  proof -
    have "nat (req_index p') = Suc (nat (req_index p))" using r p' by (simp add: run_inv_def Suc_nat_eq_nat_zadd1 add.commute)
    then show ?thesis using r x p' f(1) set_take_subset_set_take[of "nat (req_index p)" "Suc (nat (req_index p))" "running s"]
      by (auto simp: run_inv_def)
  qed
  moreover have "\<forall>y \<in> set (running s') - set (scheduled_running_reqs p'). on_track cfg (obj s' y)"
    using r p' f(1) t by (auto simp: run_inv_def)
  ultimately show ?thesis using r ok(2) p' by (simp add: run_inv_def add_scheduled_def)
qed

lemma run_iter_start:
  assumes i: "run_inv cfg s p" and g: "req_index p < int (length (running s))" and x: "py_index (running s) (req_index p) = Inr x"
  shows "alloc_inv cfg x (s\<lparr>encoder_cache_manager := m\<rparr>) p \<and> on_track cfg (obj s x)"
proof -
  have idx: "0 \<le> req_index p" "nat (req_index p) < length (running s)" using i g by (auto simp: run_inv_def)
  have xi: "x = running s ! nat (req_index p)" using x idx by (simp add: py_index_def split: if_splits)
  have new: "x \<notin> set (scheduled_running_reqs p)"
    using i xi nth_not_in_take[OF sched_ok_running(1) idx(2)] by (auto simp: run_inv_def)
  moreover have "x \<in> set (take (Suc (nat (req_index p))) (running s))" using xi idx by (simp add: take_Suc_conv_app_nth)
  ultimately show ?thesis using i xi idx by (auto simp: alloc_inv_def run_inv_def[of cfg s])
qed

lemma run_iter_inv:
  assumes a: "run_iter cfg now (s, p) = Inr (brk, s', p')" and i: "run_inv cfg s p" and g: "req_index p < int (length (running s))"
    and mamba: "need_mamba_block_aligned_split cfg \<longrightarrow> 0 < cache_block_size cfg"
  shows "run_inv cfg s' p'"
proof -
  have idx: "0 \<le> req_index p" "nat (req_index p) < length (running s)" using i g by (auto simp: run_inv_def)
  note start = run_iter_start[OF i g]
  from a show ?thesis
  proof (cases rule: run_iter_cases)
    case (skip m)
    have "nat (req_index p + 1) = Suc (nat (req_index p))" using idx by simp
    then have "set (take (nat (req_index p)) (running s)) \<subseteq> set (take (nat (req_index p + 1)) (running s))"
      using set_take_subset_set_take[of "nat (req_index p)" "nat (req_index p + 1)" "running s"] by auto
    then show ?thesis using skip i by (auto simp: run_inv_def pass_ok_def scheduled_reqs_def sched_ok_def requests_ok_def well_queued_def queued_def)
  next
    case (blocked x n m)
    then show ?thesis using alloc_loop_inv[OF blocked(4)] start by simp
  next
    case (scheduled x n1 n m ids external budget blocks s2 p2)
    have b: "0 \<le> token_budget p" using i by (simp add: run_inv_def pass_ok_def)
    note st = start[OF scheduled(2)]
    have "0 \<le> n1 \<and> n1 \<le> token_budget p"
      using plan_encoder_tokens[OF scheduled(4)] running_new_tokens_bounds[OF _ b] st by fastforce
    then have n: "0 < n" "n \<le> token_budget p" using split_mamba_tokens[OF scheduled(5)] mamba scheduled(3) by force+
    have "alloc_inv cfg x s2 p2" "token_budget p \<le> token_budget p2" using alloc_loop_inv[OF scheduled(6)] st by auto
    then show ?thesis using schedule_running_inv[OF scheduled(7)] n by simp
  qed
qed

lemma alloc_loop_shorter:
  assumes "alloc_loop cfg now x n s p = Inr (b, s', p')"
  shows "length (running s') \<le> length (running s)"
  using assms
proof (induction rule: alloc_loop_induct)
  case (self s p k s2 p2)
  then show ?case using preempt_one_shorter(1)[OF self(2)] by simp
next
  case (preempt s p k v s2 p2 b s' p')
  then show ?case using preempt_one_shorter(1)[OF preempt(2)] by simp
qed simp

lemma run_iter_shorter:
  assumes "run_iter cfg now (s, p) = Inr (brk, s', p')"
  shows "length (running s') \<le> length (running s)"
  using assms
proof (cases rule: run_iter_cases)
  case (blocked x n m)
  then show ?thesis using alloc_loop_shorter[OF blocked(4)] by simp
next
  case (scheduled x n1 n m ids external budget blocks s2 p2)
  then show ?thesis using alloc_loop_shorter[OF scheduled(6)] schedule_running_frame(1)[OF scheduled(7)] by simp
qed simp

lemma new_pass_inv:
  assumes "sched_ok s" "\<forall>x \<in> set (running s). on_track cfg (obj s x)" "0 \<le> max_num_scheduled_tokens cfg"
  shows "run_inv cfg s (new_pass cfg)"
  using assms by (simp add: run_inv_def pass_ok_def new_pass_def scheduled_reqs_def)

lemma running_loop_run_inv:
  assumes "running_loop cfg now (s, new_pass cfg) = Inr (s', p')" "sched_ok s" "\<forall>x \<in> set (running s). on_track cfg (obj s x)"
    "0 \<le> max_num_scheduled_tokens cfg" "need_mamba_block_aligned_split cfg \<longrightarrow> 0 < cache_block_size cfg"
  shows "run_inv cfg s' p' \<and> length (running s') \<le> length (running s)"
  using assms(1)
proof (rule running_loop_inv)
  show "run_inv cfg s (new_pass cfg) \<and> length (running s) \<le> length (running s)" using new_pass_inv[OF assms(2-4)] by simp
next
  fix s1 :: "'a Scheduler" and p brk s2 p2
  assume i: "run_inv cfg s1 p \<and> length (running s1) \<le> length (running s)" "req_index p < int (length (running s1))"
    "run_iter cfg now (s1, p) = Inr (brk, s2, p2)"
  have "length (running s2) \<le> length (running s1)" using run_iter_shorter[OF i(3)] .
  then show "run_inv cfg s2 p2 \<and> length (running s2) \<le> length (running s)" using run_iter_inv[OF i(3) _ i(2) assms(5)] i(1) by simp
qed

section \<open>The loop over the waiting requests\<close>

definition wait_inv :: "sched_config \<Rightarrow> 'c Scheduler \<Rightarrow> sched_pass \<Rightarrow> bool" where
  "wait_inv cfg s p \<longleftrightarrow> (let e = rq_bag (skipped_waiting_requests p) in well_queued s e \<and> (\<forall>x \<in># queued s + e. listed s x)) \<and>
     pass_ok cfg s p \<and> int (length (running s)) \<le> max_num_running_reqs cfg"

lemma keeps_listed:
  assumes "keeps e s e' s'" "\<forall>x \<in># queued s + e. listed s x"
  shows "\<forall>x \<in># queued s' + e'. listed s' x"
  using assms by (simp add: keeps_def same_ids_def listed_def)

lemma waiting_chunk_tokens:
  assumes "waiting_chunk cfg x ext False nc s p = Inr (Some (ids, n, budget, external), s')"
  shows "0 < n" "n \<le> token_budget p"
proof -
  define n2 where "n2 = min (cap_long_prefill cfg (num_tokens (obj s x) - nc)) (token_budget p)"
  obtain n3 where a: "0 < n2" "plan_encoder cfg (obj s x) nc n2 (encoder_compute_budget p) s = Inr ((ids, n3, budget, external), s')"
    "\<not> (has_encoder_inputs (obj s x) \<and> n3 = 0)" "n = n3"
    using assms by (auto simp: waiting_chunk_def Let_def rbind_Inr_iff n2_def split: if_splits)
  have "0 \<le> n3" "n3 \<le> n2" "\<not> has_encoder_inputs (obj s x) \<Longrightarrow> n3 = n2" using plan_encoder_tokens[OF a(2)] a(1) by auto
  moreover have "n2 \<le> token_budget p" by (simp add: n2_def)
  ultimately show "0 < n" "n \<le> token_budget p" using a by (cases "has_encoder_inputs (obj s x)"; force)+
qed

lemma admit_pass_ok:
  assumes a: "admit cfg now x n nc ids external budget (s, p) = Inr (s', p')" and po: "pass_ok cfg s p"
    and x: "x \<notin> set (running s)" "inj_on (\<lambda>x. request_id (obj s x)) (insert x (set (running s)))" and n: "0 < n" "n \<le> token_budget p"
  shows "pass_ok cfg s' p'"
proof -
  note f = admit_frame[OF a]
  obtain p1 l e b where p': "add_by_status (status (obj s x)) x p = Inr p1"
    "p' = (add_scheduled (request_id (obj s x)) (kvm_get_blocks (kv_cache_manager s) (request_id (obj s x))) n (p1\<lparr>scheduled_loras := l\<rparr>))
            \<lparr>scheduled_encoder_inputs := e, encoder_compute_budget := b\<rparr>" using f(6) by blast
  have p1: "mset (scheduled_reqs p1) = add_mset x (mset (scheduled_reqs p))" "num_scheduled_tokens p1 = num_scheduled_tokens p" "token_budget p1 = token_budget p"
    using p'(1) by (auto simp: add_by_status_def scheduled_reqs_def split: if_splits)
  have sp: "mset (scheduled_reqs p') = add_mset x (mset (scheduled_reqs p))" using p1(1) p'(2) by (simp add: scheduled_reqs_def add_scheduled_def)
  have sub: "set (scheduled_reqs p) \<subseteq> set (running s)" using po by (simp add: pass_ok_def)
  have new: "x \<notin> set (scheduled_reqs p)" using sub x(1) by blast
  have set': "set (scheduled_reqs p') = insert x (set (scheduled_reqs p))" using arg_cong[OF sp, of set_mset] by simp
  have "distinct (x # scheduled_reqs p)" using po new by (simp add: pass_ok_def)
  then have dist: "distinct (scheduled_reqs p')" using sp by (metis mset.simps(2) mset_eq_imp_distinct_iff)
  have inj: "inj_on (\<lambda>x. request_id (obj s x)) (insert x (set (scheduled_reqs p)))"
    by (rule inj_on_subset[OF x(2)]) (use sub in auto)
  have ids: "request_id (obj s' y) = request_id (obj s y)" for y using f(5) by (simp add: log_event_def record_event_def)
  show ?thesis
    by (rule pass_ok_add[OF po new _ _ inj ids n _ _ set' dist]) (use f(2) sub p1 p'(2) in \<open>auto simp: add_scheduled_def\<close>)
qed

lemma skip_waiting_pass: "skip_waiting x (s, p) = Inr (s', p') \<Longrightarrow> pass_ok cfg s' p' = pass_ok cfg s p \<and> running s' = running s"
  by (auto simp: skip_waiting_def rbind_Inr_iff pass_ok_frame[of "s\<lparr>waiting := _\<rparr>" s])

lemma pass_ok_same: "same_queues s s' \<Longrightarrow> pass_ok cfg s' p = pass_ok cfg s p \<and> running s' = running s"
  by (simp add: pass_ok_def same_queues_def same_req_def)

lemma peek_in_bag: "rq_peek_request q = Inr x \<Longrightarrow> x \<in># rq_bag q"
  by (cases q) (auto split: if_splits)

lemma wait_inv_head:
  assumes i: "wait_inv cfg s p" and peek: "rq_peek_request (waiting s) = Inr x"
  shows "x \<notin> set (running s)" "inj_on (\<lambda>x. request_id (obj s x)) (insert x (set (running s)))"
proof -
  note xw = peek_in_bag[OF peek]
  have "count (queued s + rq_bag (skipped_waiting_requests p)) z \<le> 1" for z using i by (simp add: wait_inv_def well_queued_def Let_def)
  then have "\<forall>z. count (queued s) z \<le> 1" by (metis add_leD1 count_union)
  then show "x \<notin> set (running s)" using count_le_distinct[of "running s" "rq_bag (waiting s)"] xw by (auto simp: queued_def)
  have "inj_on (\<lambda>x. request_id (obj s x)) (set_mset (queued s + rq_bag (skipped_waiting_requests p)))"
    using i by (intro queued_ids_inj) (simp add: wait_inv_def Let_def)
  then show "inj_on (\<lambda>x. request_id (obj s x)) (insert x (set (running s)))"
    by (rule inj_on_subset) (use xw in \<open>auto simp: queued_def\<close>)
qed

lemma place_waiting_pass:
  assumes a: "place_waiting cfg ops now x n ext la nc ids external budget (s, p) = Inr (s', p')" and peek: "rq_peek_request (waiting s) = Inr x"
    and i: "wait_inv cfg s p" and n: "\<not> la \<Longrightarrow> 0 < n \<and> n \<le> token_budget p" and room: "int (length (running s)) \<noteq> max_num_running_reqs cfg"
  shows "pass_ok cfg s' p' \<and> int (length (running s')) \<le> max_num_running_reqs cfg"
proof -
  let ?s1 = "connector_after_alloc ops x ext s"
  have s1: "waiting ?s1 = waiting s" "running ?s1 = running s" "sch_objs ?s1 = sch_objs s" by (simp_all add: connector_after_alloc_def)
  obtain y q where q: "rq_pop_request (sch_objs s) (waiting s) = Inr (y, q)"
    "(if la then Inr (set_status WAITING_FOR_REMOTE_KVS y (?s1\<lparr>waiting := q\<rparr>),
        p\<lparr>skipped_waiting_requests := rq_prepend_request (sch_objs (?s1\<lparr>waiting := q\<rparr>)) (skipped_waiting_requests p) y\<rparr>)
      else admit cfg now y n nc ids external budget (?s1\<lparr>waiting := q\<rparr>, p)) = Inr (s', p')"
    using a s1 by (auto simp: place_waiting_def Let_def rbind_Inr_iff)
  have y: "y = x" using qb.pop_head[OF peek q(1)] .
  have po: "pass_ok cfg s p" and len: "int (length (running s)) \<le> max_num_running_reqs cfg" using i by (simp_all add: wait_inv_def)
  show ?thesis
  proof (cases la)
    case True
    then have s': "s' = set_status WAITING_FOR_REMOTE_KVS y (?s1\<lparr>waiting := q\<rparr>)"
      "\<exists>w. p' = p\<lparr>skipped_waiting_requests := w\<rparr>" using q(2) by auto
    then have "running s' = running s" "\<And>z. request_id (obj s' z) = request_id (obj s z)"
      using s1 by (simp_all add: set_status_def upd_obj_def)
    then show ?thesis using po len s'(2) pass_ok_frame[of s' s] by auto
  next
    case False
    then have ad: "admit cfg now x n nc ids external budget (?s1\<lparr>waiting := q\<rparr>, p) = Inr (s', p')" using q(2) y by simp
    have "pass_ok cfg s' p'" using admit_pass_ok[OF ad] po wait_inv_head[OF i peek] n False s1 by (simp add: pass_ok_def)
    then show ?thesis using admit_frame(2)[OF ad] s1 len room by simp
  qed
qed

lemma wait_inv_same:
  assumes i: "wait_inv cfg s p" and sq: "same_queues s s'"
  shows "wait_inv cfg s' p"
proof -
  let ?e = "rq_bag (skipped_waiting_requests p)"
  have "\<forall>x \<in># queued s' + ?e. listed s' x"
    by (rule keeps_listed[OF keeps_same_queues[OF sq]]) (use i in \<open>simp add: wait_inv_def Let_def\<close>)
  moreover have "well_queued s' ?e" using keeps_same_queues[OF sq, of ?e] i by (simp add: keeps_def wait_inv_def Let_def)
  ultimately show ?thesis using i pass_ok_same[OF sq] by (simp add: wait_inv_def)
qed

lemma wait_iter_inv:
  assumes a: "wait_iter cfg ops ready now (s, p) = Some (Inr (brk, s', p'))" and i: "wait_inv cfg s p"
    and mamba: "need_mamba_block_aligned_split cfg \<longrightarrow> 0 < cache_block_size cfg"
  shows "wait_inv cfg s' p'"
proof -
  have w: "let e = rq_bag (skipped_waiting_requests p') in well_queued s' e \<and> (\<forall>x \<in># queued s' + e. listed s' x)"
    using wait_iter_keeps[OF a] keeps_listed[OF wait_iter_keeps[OF a]] i unfolding wait_inv_def Let_def keeps_def by blast
  have "pass_ok cfg s' p' \<and> int (length (running s')) \<le> max_num_running_reqs cfg"
    using a
  proof (cases rule: wait_iter_cases)
    case full
    then show ?thesis using i by (simp add: wait_inv_def)
  next
    case (skip x s1)
    then show ?thesis using i skip_waiting_pass[OF skip(5)] pass_ok_same[OF skip(4)] by (auto simp: wait_inv_def)
  next
    case (break x)
    then show ?thesis using i pass_ok_same[OF break(3)] by (auto simp: wait_inv_def)
  next
    case (placed x blocks num_local ext la nc s2 m ids n1 n budget external nb k)
    let ?s = "s2\<lparr>encoder_cache_manager := m, kv_cache_manager := k\<rparr>"
    have sq: "same_queues s ?s" using placed(4) by (simp add: same_queues_def)
    have "wait_inv cfg ?s p" by (rule wait_inv_same[OF i sq])
    moreover have "0 < n \<and> n \<le> token_budget p" if "\<not> la"
      using waiting_chunk_tokens[of cfg x ext nc s2 p ids n1 budget external] placed(5) that split_mamba_tokens[OF placed(6)] mamba placed(9) by force
    moreover have "rq_peek_request (waiting ?s) = Inr x" "int (length (running ?s)) \<noteq> max_num_running_reqs cfg"
      using placed(2,3,4) by (auto simp: same_queues_def)
    ultimately show ?thesis using place_waiting_pass[OF placed(8)] by blast
  qed
  then show ?thesis using w by (simp add: wait_inv_def)
qed

section \<open>The whole step\<close>

definition step_ok :: "sched_config \<Rightarrow> 'c Scheduler \<Rightarrow> bool" where
  "step_ok cfg s \<longleftrightarrow> sched_ok s \<and> int (length (running s)) \<le> max_num_running_reqs cfg \<and> (\<forall>x \<in> set (running s). on_track cfg (obj s x)) \<and>
     0 \<le> max_num_scheduled_tokens cfg \<and> (need_mamba_block_aligned_split cfg \<longrightarrow> 0 < cache_block_size cfg)"

lemma schedule_passes_ok:
  assumes "schedule_passes cfg ops ready now s = Some (Inr (s', p'))" "step_ok cfg s"
  shows "pass_ok cfg s' p'" "int (length (running s')) \<le> max_num_running_reqs cfg"
proof -
  obtain s1 p1 loras s3 where r: "running_loop cfg now (s, new_pass cfg) = Inr (s1, p1)"
    "(if preempted_reqs p1 = [] then waiting_loop cfg ops ready now (s1, p1\<lparr>scheduled_loras := loras\<rparr>)
      else Some (Inr (s1, p1\<lparr>scheduled_loras := loras\<rparr>))) = Some (Inr (s3, p'))"
    and s': "s' = s3\<lparr>waiting := (if rq_bool (skipped_waiting_requests p')
       then rq_prepend_requests (sch_objs s3) (waiting s3) (skipped_waiting_requests p') else waiting s3)\<rparr>"
    using assms(1) by (rule schedule_passes_cases)
  have mamba: "need_mamba_block_aligned_split cfg \<longrightarrow> 0 < cache_block_size cfg" using assms(2) by (simp add: step_ok_def)
  have "run_inv cfg s1 p1 \<and> length (running s1) \<le> length (running s)"
    using running_loop_run_inv[OF r(1)] assms(2) by (simp add: step_ok_def)
  moreover have "rq_bag (skipped_waiting_requests p1) = {#}"
    using running_loop_admissions[OF r(1)] by (simp add: same_admissions_def new_pass_def)
  ultimately have w: "wait_inv cfg s1 (p1\<lparr>scheduled_loras := loras\<rparr>)"
    using assms(2) by (simp add: wait_inv_def run_inv_def step_ok_def sched_ok_def requests_ok_iff)
  have "wait_inv cfg s3 p'"
  proof (cases "preempted_reqs p1 = []")
    case True
    then have "waiting_loop cfg ops ready now (s1, p1\<lparr>scheduled_loras := loras\<rparr>) = Some (Inr (s3, p'))" using r(2) by simp
    then show ?thesis by (rule waiting_loop_inv[where I = "wait_inv cfg"]) (use w wait_iter_inv mamba in blast)+
  qed (use r(2) w in simp)
  then show "pass_ok cfg s' p'" "int (length (running s')) \<le> max_num_running_reqs cfg"
    using pass_ok_frame[of s' s3] s' by (simp_all add: wait_inv_def)
qed

lemma build_output_tokens:
  "build_output cfg s p = Inr (out, s') \<Longrightarrow> out_num_scheduled_tokens out = num_scheduled_tokens p \<and>
     out_total_num_scheduled_tokens out = sum_list (map snd (num_scheduled_tokens p))"
  by (cases "em_get_freed_mm_hashes (encoder_cache_manager s)")
    (auto simp: build_output_def Let_def rbind_Inr_iff dict_values_def split: list.splits)

lemma update_after_schedule_tokens:
  "update_after_schedule cfg out s = Inr (out', s') \<Longrightarrow> out_num_scheduled_tokens out' = out_num_scheduled_tokens out \<and>
     out_total_num_scheduled_tokens out' = out_total_num_scheduled_tokens out"
  by (auto simp: update_after_schedule_def rbind_Inr_iff split: if_splits)

end
