(* ===== verification/Sched_Progress.thy ===== *)
theory Sched_Progress
  imports Sched_Budget KV_Slots
begin

text \<open>
  Progress of the scheduler: with nothing running and only plain text requests waiting, a step returns
  and the request at the head of the queue starts to run as soon as the KV cache has the blocks for its first
  chunk. The allocation theorems of the KV cache manager and the invariants of the step are put together here.
\<close>

section \<open>Slots for a chunk from the start\<close>

definition attention_only :: "KVCacheManager \<Rightarrow> bool" where
  "attention_only k \<longleftrightarrow> (\<forall>m \<in> set (single_type_managers (coordinator k)). attention_manager m)"

lemma on_managers_attention:
  assumes "on_managers step c = Inr (as, c')" "\<And>i m p a m' p'. step i m p = Inr (a, m', p') \<Longrightarrow> attention_manager m \<Longrightarrow> attention_manager m'"
    "\<forall>m \<in> set (single_type_managers c). attention_manager m"
  shows "\<forall>m \<in> set (single_type_managers c'). attention_manager m"
proof -
  obtain ms p where e: "each_manager step 0 (single_type_managers c) (c_block_pool c) = Inr (as, ms, p)" "single_type_managers c' = ms"
    using assms(1) by (auto simp: on_managers_def rbind_Inr_iff)
  have "list_all2 (\<lambda>m m'. attention_manager m \<longrightarrow> attention_manager m') (single_type_managers c) ms"
    by (rule each_manager_rel[OF e(1)]) (use assms(2) in blast)
  then have "\<forall>m' \<in> set ms. \<exists>m \<in> set (single_type_managers c). attention_manager m \<longrightarrow> attention_manager m'"
    by (metis in_set_conv_nth list_all2_conv_all_nth)
  then show ?thesis using assms(3) e(2) by blast
qed

lemma stm_attention:
  "stm_remove_skipped_blocks m p rid n = Inr (m', p') \<Longrightarrow> attention_manager m \<Longrightarrow> attention_manager m'"
  "stm_num_blocks_to_allocate m p rid n bs tot main = Inr (k, m') \<Longrightarrow> attention_manager m \<Longrightarrow> attention_manager m'"
  "stm_allocate_new_blocks m p rid n main = Inr (bs', m', p') \<Longrightarrow> attention_manager m \<Longrightarrow> attention_manager m'"
  "stm_allocate_new_computed_blocks m p rid bs loc ext = Inr (m', p') \<Longrightarrow> attention_manager m \<Longrightarrow> attention_manager m'"
  "stm_cache_blocks m p request n = Inr (m', p') \<Longrightarrow> attention_manager m \<Longrightarrow> attention_manager m'"
proof -
  show "stm_remove_skipped_blocks m p rid n = Inr (m', p') \<Longrightarrow> attention_manager m \<Longrightarrow> attention_manager m'"
    using remove_skipped_same_length same_length_facts(4) by blast
qed (auto simp: stm_num_blocks_to_allocate_def stm_allocate_new_blocks_def base_allocate_new_blocks_def stm_cache_blocks_def
    stm_allocate_new_computed_blocks_def base_allocate_new_computed_blocks_def attention_manager_def Let_def rbind_Inr_iff split: if_splits)

lemma coord_attention:
  assumes "\<forall>m \<in> set (single_type_managers c). attention_manager m"
  shows "coord_remove_skipped_blocks c rid n = Inr c' \<Longrightarrow> \<forall>m \<in> set (single_type_managers c'). attention_manager m"
    "coord_num_blocks_to_allocate c rid n new enc tot main = Inr (need, c') \<Longrightarrow> \<forall>m \<in> set (single_type_managers c'). attention_manager m"
    "coord_allocate_new_blocks c rid n main enc = Inr (bss, c') \<Longrightarrow> \<forall>m \<in> set (single_type_managers c'). attention_manager m"
    "coord_cache_blocks c request n = Inr c' \<Longrightarrow> \<forall>m \<in> set (single_type_managers c'). attention_manager m"
    "coord_allocate_new_computed_blocks c rid new loc ext = Inr c' \<Longrightarrow> \<forall>m \<in> set (single_type_managers c'). attention_manager m"
proof -
  note on = on_managers_attention[OF _ _ assms]
  show "\<forall>m \<in> set (single_type_managers c'). attention_manager m" if a: "coord_remove_skipped_blocks c rid n = Inr c'"
    using a unfolding coord_remove_skipped_blocks_def rbind_Inr_iff
    by (elim exE conjE) (clarsimp, erule bspec[rotated], erule on, auto simp: rbind_Inr_iff dest: stm_attention(1))
  show "\<forall>m \<in> set (single_type_managers c'). attention_manager m" if a: "coord_num_blocks_to_allocate c rid n new enc tot main = Inr (need, c')"
    using a unfolding coord_num_blocks_to_allocate_def rbind_Inr_iff
    by (elim exE conjE) (clarsimp, erule bspec[rotated], erule on, auto simp: rbind_Inr_iff dest: stm_attention(2) split: if_splits)
  show "\<forall>m \<in> set (single_type_managers c'). attention_manager m" if a: "coord_allocate_new_blocks c rid n main enc = Inr (bss, c')"
    using a unfolding coord_allocate_new_blocks_def by (rule on) (rule stm_attention(3))
  show "\<forall>m \<in> set (single_type_managers c'). attention_manager m" if a: "coord_cache_blocks c request n = Inr c'"
    using a unfolding coord_cache_blocks_def rbind_Inr_iff
    by (elim exE conjE) (clarsimp, erule bspec[rotated], erule on, auto simp: rbind_Inr_iff dest: stm_attention(5))
  show "\<forall>m \<in> set (single_type_managers c'). attention_manager m" if a: "coord_allocate_new_computed_blocks c rid new loc ext = Inr c'"
    using a unfolding coord_allocate_new_computed_blocks_def rbind_Inr_iff
    by (elim exE conjE) (clarsimp, erule bspec[rotated], erule on, auto simp: rbind_Inr_iff dest: stm_attention(4))
qed

lemma allocate_slots_attention:
  assumes "allocate_slots k request new newc given look ext delay enc = Inr (r, k')" "attention_only k"
  shows "attention_only k'" "kvm_enable_caching k' = kvm_enable_caching k" "kvm_max_model_len k' = kvm_max_model_len k"
proof -
  have "attention_only k' \<and> kvm_enable_caching k' = kvm_enable_caching k \<and> kvm_max_model_len k' = kvm_max_model_len k"
    using assms(1)
  proof (cases rule: allocate_slots_cases)
    case (1 c1 c2 need)
    have c2: "\<forall>m \<in> set (single_type_managers c2). attention_manager m"
      using coord_attention(2)[OF coord_attention(1)[OF _ 1(1)] 1(2)] assms(2) by (simp add: attention_only_def)
    show ?thesis
    proof (cases r)
      case None
      then have "k' = k\<lparr>coordinator := c2\<rparr>" using 1(3) by blast
      then show ?thesis using c2 by (simp add: attention_only_def)
    next
      case (Some b)
      then obtain c3 bss c4 where c: "c3 = c2 \<or> coord_allocate_new_computed_blocks c2 (request_id request)
          (blocks_of k (case given of None \<Rightarrow> EmptyKVCacheBlocks | Some b \<Rightarrow> b)) (num_computed_tokens request + newc) ext = Inr c3"
        "coord_allocate_new_blocks c3 (request_id request)
          (min (min (num_computed_tokens request + newc + ext) (kvm_max_model_len k) + new + look) (kvm_max_model_len k))
          (min (num_computed_tokens request + newc + ext) (kvm_max_model_len k) + new) enc = Inr (bss, c4)"
        "k' = k\<lparr>coordinator := c4\<rparr> \<or> (\<exists>n c5. coord_cache_blocks c4 request n = Inr c5 \<and> k' = k\<lparr>coordinator := c5\<rparr>)"
        using 1(3) by blast
      have "\<forall>m \<in> set (single_type_managers c3). attention_manager m" using c(1) c2 coord_attention(5)[OF c2] by blast
      from coord_attention(3)[OF this c(2)] have "\<forall>m \<in> set (single_type_managers c4). attention_manager m" .
      then show ?thesis using c(3) coord_attention(4)[of c4] by (auto simp: attention_only_def)
    qed
  qed
  then show "attention_only k'" "kvm_enable_caching k' = kvm_enable_caching k" "kvm_max_model_len k' = kvm_max_model_len k" by blast+
qed

lemma skip_nothing:
  assumes "kvm_reachable k" "attention_only k"
  shows "coord_remove_skipped_blocks (coordinator k) rid 0 = Inr (coordinator k)"
proof -
  have ok: "\<forall>m \<in> set (single_type_managers (coordinator k)). manager_ok (pool_blocks (c_block_pool (coordinator k))) m"
    using reachable_kvm_ok[OF assms(1)] by (simp add: kvm_ok_def kv_ok_def)
  have "stm_remove_skipped_blocks m p rid 0 = Inr (m, p)" if m: "m \<in> set (single_type_managers (coordinator k))" for m p
  proof -
    have a: "attention_manager m" and "manager_ok (pool_blocks (c_block_pool (coordinator k))) m" using m assms(2) ok by (simp_all add: attention_only_def)
    then have "get_num_skipped_tokens m 0 \<le> 0" by (auto simp: attention_manager_def get_num_skipped_tokens_def manager_ok_def)
    then show ?thesis using a by (auto simp: stm_remove_skipped_blocks_def base_remove_skipped_blocks_def attention_manager_def)
  qed
  then have "each_manager (\<lambda>i m p. rbind (stm_remove_skipped_blocks m p rid 0) (\<lambda>(m', p'). Inr ((), m', p'))) i ms p =
      Inr (map (\<lambda>_. ()) ms, ms, p)" if "set ms \<subseteq> set (single_type_managers (coordinator k))" for i ms p
    using that by (induction ms arbitrary: i) auto
  then show ?thesis by (simp add: coord_remove_skipped_blocks_def on_managers_def)
qed

definition usable_cache :: "KVCacheManager \<Rightarrow> bool" where
  "usable_cache k \<longleftrightarrow> kvm_reachable k \<and> attention_only k \<and> \<not> kvm_enable_caching k \<and> 0 \<le> kvm_max_model_len k"

definition first_blocks :: "KVCacheManager \<Rightarrow> Request \<Rightarrow> int \<Rightarrow> int" where
  "first_blocks k r n = sum_list (map (blocks_missing (request_id r) (min n (kvm_max_model_len k))) (single_type_managers (coordinator k)))"

lemma first_slots:
  assumes k: "usable_cache k" and r: "num_computed_tokens r = 0" and n: "0 < n"
  obtains res k' where "allocate_slots k r n 0 (Some EmptyKVCacheBlocks) 0 0 False 0 = Inr (res, k')" "usable_cache k'"
    "first_blocks k r n \<le> get_num_free_blocks (c_block_pool (coordinator k)) \<Longrightarrow> res \<noteq> None"
proof -
  have k': "kvm_reachable k" "attention_only k" "\<not> kvm_enable_caching k" "0 \<le> kvm_max_model_len k" using k by (simp_all add: usable_cache_def)
  have am: "\<forall>m \<in> set (single_type_managers (coordinator k)). attention_manager m" using k'(2) by (simp add: attention_only_def)
  have bs: "\<forall>m \<in> set (single_type_managers (coordinator k)). 0 \<le> int (length (dd_list (request_id r) (req_to_blocks m))) * block_size m"
    using reachable_kvm_ok[OF k'(1)] by (auto simp: kvm_ok_def kv_ok_def manager_ok_def)
  let ?run = "allocate_slots k r n 0 (Some EmptyKVCacheBlocks) 0 0 False 0"
  have c: "if first_blocks k r n > get_num_free_blocks (c_block_pool (coordinator k)) then ?run = Inr (None, k\<lparr>coordinator := coordinator k\<rparr>)
      else \<exists>bs k'. ?run = Inr (Some bs, k') \<and> kvm_reachable k'"
    using running_slots[where request = r and newc = 0 and delay = False and given = "Some EmptyKVCacheBlocks" and look = 0 and enc = 0
        and slots = "min n (kvm_max_model_len k)", OF k'(1) am n _ k'(4) _ _ _ bs] r k'(3)
      skip_nothing[OF k'(1,2), of "request_id r"]
    by (auto simp: first_blocks_def split: if_splits)
  obtain res k2 where run: "?run = Inr (res, k2)" "kvm_reachable k2" "\<not> first_blocks k r n > get_num_free_blocks (c_block_pool (coordinator k)) \<longrightarrow> res \<noteq> None"
    using c k'(1) by (cases "first_blocks k r n > get_num_free_blocks (c_block_pool (coordinator k))") auto
  have "usable_cache k2" using allocate_slots_attention[OF run(1) k'(2)] run(2) k' by (simp add: usable_cache_def)
  then show thesis using that[OF run(1)] run(3) by fastforce
qed

section \<open>Plain requests\<close>

definition plain :: "Request \<Rightarrow> bool" where
  "plain r \<longleftrightarrow> status r = WAITING \<and> mm_features r = [] \<and> lora_request r = None \<and> num_computed_tokens r = 0 \<and> 0 < num_tokens r"

definition first_chunk :: "sched_config \<Rightarrow> int \<Rightarrow> Request \<Rightarrow> int" where
  "first_chunk cfg budget r = min (cap_long_prefill cfg (num_tokens r)) budget"

lemma plain_facts:
  assumes "plain r"
  shows "\<not> has_encoder_inputs r" "0 < budget \<Longrightarrow> 0 < first_chunk cfg budget r"
  using assms by (auto simp: plain_def has_encoder_inputs_def num_encoder_inputs_def first_chunk_def cap_long_prefill_def)

lemma admit_plain:
  assumes "plain (obj s x)"
  shows "\<exists>s' p'. admit cfg now x n nc [] [] b (s, p) = Inr (s', p')"
proof -
  have "status (log_event cfg EV_SCHEDULED now (obj s x)) = WAITING" using assms by (simp add: plain_def log_event_def record_event_def)
  then show ?thesis
    by (simp add: admit_def add_by_status_def take_inputs_def allocate_inputs_def Let_def upd_obj_def update_connector_prefix_cache_stats_def)
qed

lemma plain_wait_iter:
  assumes s: "connector s = None" "waiting s = FCFSRequestQueue (x # xs)" and x: "plain (obj s x)" and k: "usable_cache (kv_cache_manager s)"
    and p: "0 < token_budget p" and cfg: "\<not> need_mamba_block_aligned_split cfg" and room: "int (length (running s)) \<noteq> max_num_running_reqs cfg"
  defines "n \<equiv> first_chunk cfg (token_budget p) (obj s x)"
  shows "\<exists>brk s1 p1 k1. wait_iter cfg ops ready now (s, p) = Some (Inr (brk, s1, p1)) \<and> usable_cache k1 \<and>
    (if brk then s1 = s\<lparr>kv_cache_manager := k1\<rparr> \<and> p1 = p \<and>
       \<not> ((enable_chunked_prefill cfg \<or> cap_long_prefill cfg (num_tokens (obj s x)) \<le> token_budget p) \<and>
          first_blocks (kv_cache_manager s) (obj s x) n \<le> get_num_free_blocks (c_block_pool (coordinator (kv_cache_manager s))))
     else admit cfg now x n 0 [] [] (encoder_compute_budget p) (s\<lparr>kv_cache_manager := k1, waiting := FCFSRequestQueue xs\<rparr>, p) = Inr (s1, p1))"
proof -
  let ?r = "obj s x" and ?k = "kv_cache_manager s"
  have r: "status ?r = WAITING" "mm_features ?r = []" "lora_request ?r = None" "num_computed_tokens ?r = 0" using x by (simp_all add: plain_def)
  note enc = plain_facts(1)[OF x] and n0 = plain_facts(2)[OF x p, of cfg, folded n_def]
  have chk: "can_consider cfg ready (scheduled_loras p) x s = Inr (True, s)"
    using r by (auto simp: can_consider_def check_remote_kv_def check_grammar_def check_streaming_def check_lora_def split: option.splits)
  have cached: "cached_tokens ops x s = Some (Inr (Some (EmptyKVCacheBlocks, 0, 0, False, 0), s))"
    using r s k by (simp add: cached_tokens_def get_computed_blocks_def usable_cache_def Let_def)
  have it: "wait_iter cfg ops ready now (s, p) = Some (try_admit cfg ops now x EmptyKVCacheBlocks 0 0 False 0 (s, p))"
    using s room chk cached by (simp add: wait_iter_def)
  show ?thesis
  proof (cases "\<not> enable_chunked_prefill cfg \<and> cap_long_prefill cfg (num_tokens ?r) > token_budget p")
    case True
    then have "try_admit cfg ops now x EmptyKVCacheBlocks 0 0 False 0 (s, p) = Inr (True, s, p)"
      by (simp add: try_admit_def waiting_chunk_def Let_def)
    then show ?thesis using it k True by (intro exI[of _ True] exI[of _ s] exI[of _ p] exI[of _ ?k]) auto
  next
    case False
    then have chunk: "waiting_chunk cfg x 0 False 0 s p = Inr (Some ([], n, encoder_compute_budget p, []), s)"
      using n0 enc by (auto simp: waiting_chunk_def plan_encoder_def n_def first_chunk_def Let_def)
    obtain res k1 where a: "allocate_slots ?k ?r n 0 (Some EmptyKVCacheBlocks) 0 0 False 0 = Inr (res, k1)" "usable_cache k1"
      "first_blocks ?k ?r n \<le> get_num_free_blocks (c_block_pool (coordinator ?k)) \<Longrightarrow> res \<noteq> None"
      using first_slots[OF k r(4) n0] by blast
    have sl: "waiting_slots cfg x n EmptyKVCacheBlocks 0 0 False s = Inr (res, k1)" using a(1) r(4) enc by (simp add: waiting_slots_def)
    let ?s2 = "s\<lparr>kv_cache_manager := k1, waiting := FCFSRequestQueue xs\<rparr>"
    show ?thesis
    proof (cases res)
      case None
      then have "try_admit cfg ops now x EmptyKVCacheBlocks 0 0 False 0 (s, p) = Inr (True, s\<lparr>kv_cache_manager := k1\<rparr>, p)"
        using chunk cfg sl enc by (simp add: try_admit_def split_mamba_def Let_def)
      then show ?thesis using it a(2,3) None by (intro exI[of _ True] exI[of _ "s\<lparr>kv_cache_manager := k1\<rparr>"] exI[of _ p] exI[of _ k1]) auto
    next
      case (Some b)
      obtain s1 p1 where ad: "admit cfg now x n 0 [] [] (encoder_compute_budget p) (?s2, p) = Inr (s1, p1)"
        using admit_plain[of ?s2 x cfg now n 0 "encoder_compute_budget p" p] x by auto
      have "connector_after_alloc ops x 0 (s\<lparr>kv_cache_manager := k1\<rparr>) = s\<lparr>kv_cache_manager := k1\<rparr>"
        using s(1) by (simp add: connector_after_alloc_def)
      then have "try_admit cfg ops now x EmptyKVCacheBlocks 0 0 False 0 (s, p) = Inr (False, s1, p1)"
        using chunk cfg sl Some s(2) ad by (simp add: try_admit_def split_mamba_def Let_def place_waiting_def)
      then show ?thesis using it a(2) ad by (intro exI[of _ False] exI[of _ s1] exI[of _ p1] exI[of _ k1]) auto
    qed
  qed
qed

section \<open>The loop over plain requests\<close>

definition live_inv :: "'c Scheduler \<Rightarrow> sched_pass \<Rightarrow> bool" where
  "live_inv s p \<longleftrightarrow> connector s = None \<and> usable_cache (kv_cache_manager s) \<and> skipped_waiting_requests p = FCFSRequestQueue [] \<and>
     scheduled_running_reqs p = [] \<and> scheduled_resumed_reqs p = [] \<and>
     (\<exists>xs. waiting s = FCFSRequestQueue xs \<and> distinct xs \<and> (\<forall>y \<in> set xs. plain (obj s y)) \<and> set xs \<inter> set (scheduled_new_reqs p) = {} \<and>
        inj_on (\<lambda>y. request_id (obj s y)) (set xs \<union> set (scheduled_new_reqs p))) \<and>
     (\<forall>y \<in> set (scheduled_new_reqs p). y \<in> set (running s) \<and> mm_features (obj s y) = [] \<and> num_computed_tokens (obj s y) = 0 \<and>
        map_of (req_to_new_blocks p) (request_id (obj s y)) \<noteq> None)"

definition admitted :: "nat \<Rightarrow> int \<Rightarrow> 'c Scheduler \<Rightarrow> sched_pass \<Rightarrow> bool" where
  "admitted x n s p \<longleftrightarrow> x \<in> set (scheduled_new_reqs p) \<and> map_of (num_scheduled_tokens p) (request_id (obj s x)) = Some n"

lemma admit_connector: "admit cfg now x n nc ids external b (s, p) = Inr (s', p') \<Longrightarrow> connector s' = connector s"
  by (auto simp: admit_def Let_def rbind_Inr_iff upd_obj_def update_connector_prefix_cache_stats_def dest!: take_inputs_frame)

lemma live_admit:
  assumes i: "live_inv s p" and q: "waiting s = FCFSRequestQueue (x # xs)" and k: "usable_cache k1"
    and a: "admit cfg now x n 0 [] [] b (s\<lparr>kv_cache_manager := k1, waiting := FCFSRequestQueue xs\<rparr>, p) = Inr (s', p')"
  shows "live_inv s' p'" "admitted x n s' p'" "\<And>y m. admitted y m s p \<Longrightarrow> admitted y m s' p'"
proof -
  note f = admit_frame[OF a]
  have x: "plain (obj s x)" "distinct (x # xs)" "\<forall>y \<in> set xs. plain (obj s y)" "set (x # xs) \<inter> set (scheduled_new_reqs p) = {}"
    and inj: "inj_on (\<lambda>y. request_id (obj s y)) (set (x # xs) \<union> set (scheduled_new_reqs p))"
    using i q by (auto simp: live_inv_def)
  obtain l e c where p': "p' = (add_scheduled (request_id (obj s x)) (kvm_get_blocks k1 (request_id (obj s x))) n
      (p\<lparr>scheduled_new_reqs := scheduled_new_reqs p @ [x], scheduled_loras := l\<rparr>))\<lparr>scheduled_encoder_inputs := e, encoder_compute_budget := c\<rparr>"
    using f(6) x(1) by (auto simp: add_by_status_def plain_def)
  have o: "obj s' y = obj s y" if "y \<noteq> x" for y using f(5) that by simp
  have ox: "request_id (obj s' x) = request_id (obj s x)" "mm_features (obj s' x) = []" "num_computed_tokens (obj s' x) = 0"
    using f(5) x(1) by (simp_all add: plain_def log_event_def record_event_def)
  then have ids: "request_id (obj s' y) = request_id (obj s y)" for y using o by (cases "y = x") simp_all
  have new: "scheduled_new_reqs p' = scheduled_new_reqs p @ [x]" using p' by (simp add: add_scheduled_def)
  have blocks: "map_of (req_to_new_blocks p') r = (if r = request_id (obj s x) then Some (kvm_get_blocks k1 (request_id (obj s x))) else map_of (req_to_new_blocks p) r)"
    "map_of (num_scheduled_tokens p') r = (if r = request_id (obj s x) then Some n else map_of (num_scheduled_tokens p) r)" for r
    using p' by (simp_all add: add_scheduled_def AList.update_conv')
  have "connector s' = None" "kv_cache_manager s' = k1" "waiting s' = FCFSRequestQueue xs" "running s' = running s @ [x]"
    using i f admit_connector[OF a] by (simp_all add: live_inv_def)
  moreover have "\<forall>y \<in> set xs. plain (obj s' y)"
  proof
    fix y assume y: "y \<in> set xs"
    then have "y \<noteq> x" using x(2) by auto
    then show "plain (obj s' y)" using x(3) y o by simp
  qed
  moreover have "inj_on (\<lambda>y. request_id (obj s' y)) (set xs \<union> set (scheduled_new_reqs p'))"
    unfolding ids using inj_on_subset[OF inj] new by auto
  moreover have "set xs \<inter> set (scheduled_new_reqs p') = {}" "distinct xs" using x(2,4) new by auto
  moreover have "y \<in> set (running s @ [x]) \<and> mm_features (obj s' y) = [] \<and> num_computed_tokens (obj s' y) = 0 \<and>
        map_of (req_to_new_blocks p') (request_id (obj s' y)) \<noteq> None" if y: "y \<in> set (scheduled_new_reqs p')" for y
  proof (cases "y = x")
    case True
    then show ?thesis using ox blocks(1) by simp
  next
    case False
    then show ?thesis using y new i o[OF False] blocks(1) by (auto simp: live_inv_def)
  qed
  moreover have "skipped_waiting_requests p' = FCFSRequestQueue []" "scheduled_running_reqs p' = []" "scheduled_resumed_reqs p' = []"
    using i p' by (simp_all add: live_inv_def add_scheduled_def)
  ultimately show "live_inv s' p'" using k unfolding live_inv_def by simp
  show "admitted x n s' p'" using new blocks(2) ids by (simp add: admitted_def)
  show "admitted y m s' p'" if "admitted y m s p" for y m
  proof -
    have "y \<noteq> x" "y \<in> set (scheduled_new_reqs p)" using that x(4) by (auto simp: admitted_def)
    moreover have "request_id (obj s y) \<noteq> request_id (obj s x)" using inj_onD[OF inj, of y x] calculation by auto
    ultimately show ?thesis using that new blocks(2) ids by (simp add: admitted_def)
  qed
qed

lemma live_step:
  assumes i: "live_inv s p" and g: "rq_bool (waiting s)" "0 < token_budget p" and cfg: "\<not> need_mamba_block_aligned_split cfg"
  shows "\<exists>brk s1 p1. wait_iter cfg ops ready now (s, p) = Some (Inr (brk, s1, p1)) \<and> live_inv s1 p1 \<and>
    (\<forall>y m. admitted y m s p \<longrightarrow> admitted y m s1 p1)"
proof (cases "int (length (running s)) = max_num_running_reqs cfg")
  case True
  then have "wait_iter cfg ops ready now (s, p) = Some (Inr (True, s, p))" by (simp add: wait_iter_def)
  then show ?thesis using i by blast
next
  case False
  obtain x xs where q: "waiting s = FCFSRequestQueue (x # xs)" "plain (obj s x)"
    using i g(1) by (auto simp: live_inv_def neq_Nil_conv rq_bool_def)
  have s: "connector s = None" "usable_cache (kv_cache_manager s)" using i by (simp_all add: live_inv_def)
  obtain brk s1 p1 k1 where w: "wait_iter cfg ops ready now (s, p) = Some (Inr (brk, s1, p1))" "usable_cache k1"
    "if brk then s1 = s\<lparr>kv_cache_manager := k1\<rparr> \<and> p1 = p
     else admit cfg now x (first_chunk cfg (token_budget p) (obj s x)) 0 [] [] (encoder_compute_budget p)
       (s\<lparr>kv_cache_manager := k1, waiting := FCFSRequestQueue xs\<rparr>, p) = Inr (s1, p1)"
    using plain_wait_iter[OF s(1) q s(2) g(2) cfg False, of ops ready now] by (auto split: if_splits)
  show ?thesis
  proof (cases brk)
    case True
    then have "live_inv s1 p1" "\<forall>y m. admitted y m s p \<longrightarrow> admitted y m s1 p1" using w(2,3) i by (auto simp: live_inv_def admitted_def)
    then show ?thesis using w(1) by blast
  next
    case False
    then show ?thesis using live_admit[OF i q(1) w(2)] w(1,3) by auto
  qed
qed

lemma waiting_loop_live:
  assumes "live_inv s p" "\<not> need_mamba_block_aligned_split cfg"
  shows "\<exists>s' p'. waiting_loop cfg ops ready now (s, p) = Some (Inr (s', p')) \<and> live_inv s' p' \<and> (\<forall>y m. admitted y m s p \<longrightarrow> admitted y m s' p')"
  using assms
proof (induction "nat (rq_len (waiting s))" arbitrary: s p rule: less_induct)
  case less
  show ?case
  proof (cases "rq_bool (waiting s) \<and> 0 < token_budget p")
    case True
    obtain brk s1 p1 where w: "wait_iter cfg ops ready now (s, p) = Some (Inr (brk, s1, p1))" "live_inv s1 p1"
      "\<forall>y m. admitted y m s p \<longrightarrow> admitted y m s1 p1" using live_step[OF less.prems(1) _ _ less.prems(2)] True by blast
    show ?thesis
    proof (cases brk)
      case b: True
      then show ?thesis using w True by (subst waiting_loop.simps) auto
    next
      case False
      then have "nat (rq_len (waiting s1)) < nat (rq_len (waiting s))"
        using wait_iter_progress[of cfg ops ready now s p s1 p1] w(1) rq_len_nonneg[of "waiting s1"] by simp
      from less.hyps[OF this w(2) less.prems(2)] show ?thesis using w(1,3) True False by (subst waiting_loop.simps) auto
    qed
  next
    case False
    then show ?thesis using less.prems(1) by (subst waiting_loop.simps) auto
  qed
qed

section \<open>The rest of the step\<close>

lemma common_prefix_returns: "\<exists>ns k'. kvm_num_common_prefix_blocks k rid = Inr (ns, k')"
proof -
  let ?f = "\<lambda>i m p. let (n, m') = stm_num_common_prefix_blocks m p rid in Inr (n, m', p)"
  have "\<exists>r. each_manager ?f i ms p = Inr r" for i ms p
  proof (induction ms arbitrary: i)
    case (Cons m ms)
    then obtain r where "each_manager ?f (Suc i) ms p = Inr r" by blast
    then show ?case by (cases r) (simp add: split_beta Let_def)
  qed simp
  then obtain r where "each_manager ?f 0 (single_type_managers (coordinator k)) (c_block_pool (coordinator k)) = Inr r" by blast
  then show ?thesis by (cases r) (simp add: kvm_num_common_prefix_blocks_def coord_num_common_prefix_blocks_def on_managers_def)
qed

lemma mmap_returns: "(\<And>x. x \<in> set xs \<Longrightarrow> \<exists>y. f x = Inr y) \<Longrightarrow> \<exists>ys. mmap f xs = Inr ys"
proof (induction xs)
  case (Cons x xs)
  then obtain y ys where "f x = Inr y" "mmap f xs = Inr ys" by fastforce
  then show ?case by simp
qed simp

lemma build_output_returns:
  assumes "live_inv s p"
  obtains out s' where "build_output cfg s p = Inr (out, s')" "same_queues s s'" "sch_objs s' = sch_objs s"
    "out_num_scheduled_tokens out = num_scheduled_tokens p"
proof -
  have p: "scheduled_running_reqs p = []" "scheduled_resumed_reqs p = []" using assms by (simp_all add: live_inv_def)
  obtain ns s1 where h: "(case running s of [] \<Rightarrow> Inr (replicate (sc_num_groups cfg) 0, s)
      | x # _ \<Rightarrow> rbind (kvm_num_common_prefix_blocks (kv_cache_manager s) (request_id (obj s x))) (\<lambda>(ns, k). Inr (ns, s\<lparr>kv_cache_manager := k\<rparr>))) = Inr (ns, s1)"
    "sch_objs s1 = sch_objs s"
  proof (cases "running s")
    case Nil
    then show thesis using that[of "replicate (sc_num_groups cfg) 0" s] by simp
  next
    case (Cons x xs)
    obtain n2 k2 where k2: "kvm_num_common_prefix_blocks (kv_cache_manager s) (request_id (obj s x)) = Inr (n2, k2)"
      using common_prefix_returns by blast
    show thesis by (rule that[of n2 "s\<lparr>kv_cache_manager := k2\<rparr>"]) (use Cons k2 in auto)
  qed
  have "\<exists>d. new_request_data cfg s1 p y = Inr d" if "y \<in> set (scheduled_new_reqs p)" for y
    using assms that h(2) by (fastforce simp: live_inv_def new_request_data_def Let_def dict_item_def)
  then obtain ds where ds: "mmap (new_request_data cfg s1 p) (scheduled_new_reqs p) = Inr ds" using mmap_returns by blast
  obtain fr m where fr: "em_get_freed_mm_hashes (encoder_cache_manager s1) = (fr, m)" by fastforce
  have cached: "make_cached_request_data cfg s1 p [] = Inr CachedRequestData_make_empty" using p by (simp add: make_cached_request_data_def)
  obtain out s' where b: "build_output cfg s p = Inr (out, s')" "sch_objs s' = sch_objs s1"
    using h(1) ds fr cached p by (simp add: build_output_def Let_def)
  show thesis by (rule that[OF b(1) build_output_same[OF b(1)]]) (use b h(2) build_output_tokens[OF b(1)] in simp_all)
qed

lemma advance_returns:
  assumes "\<forall>(rid, n) \<in> set d. \<exists>x. map_of (requests s) rid = Some x \<and> request_id (obj s x) = rid \<and> mm_features (obj s x) = []" "distinct (map fst d)"
  shows "\<exists>s'. mfold (advance_one cfg) d s = Inr s' \<and> requests s' = requests s \<and> running s' = running s \<and>
    (\<forall>x. request_id (obj s' x) = request_id (obj s x) \<and> mm_features (obj s' x) = mm_features (obj s x)) \<and>
    (\<forall>rid n x. (rid, n) \<in> set d \<longrightarrow> map_of (requests s) rid = Some x \<longrightarrow> num_computed_tokens (obj s' x) = num_computed_tokens (obj s x) + n) \<and>
    (\<forall>x. request_id (obj s x) \<notin> fst ` set d \<longrightarrow> obj s' x = obj s x)"
  using assms
proof (induction d arbitrary: s)
  case (Cons a d)
  obtain rid n where a: "a = (rid, n)" by fastforce
  obtain x where x: "map_of (requests s) rid = Some x" "request_id (obj s x) = rid" "mm_features (obj s x) = []" using Cons.prems(1) a by auto
  let ?s1 = "upd_obj x (\<lambda>r. r\<lparr>num_computed_tokens := num_computed_tokens r + n\<rparr>) s"
  have one: "advance_one cfg (rid, n) s = Inr ?s1"
    using x by (simp add: advance_one_def dict_item_def Let_def upd_obj_def has_encoder_inputs_def num_encoder_inputs_def)
  have o: "request_id (obj ?s1 y) = request_id (obj s y)" "mm_features (obj ?s1 y) = mm_features (obj s y)" for y by (simp_all add: upd_obj_def)
  have rq: "requests ?s1 = requests s" "running ?s1 = running s" by (simp_all add: upd_obj_def)
  have "\<exists>s'. mfold (advance_one cfg) d ?s1 = Inr s' \<and> requests s' = requests ?s1 \<and> running s' = running ?s1 \<and>
    (\<forall>x. request_id (obj s' x) = request_id (obj ?s1 x) \<and> mm_features (obj s' x) = mm_features (obj ?s1 x)) \<and>
    (\<forall>rid n x. (rid, n) \<in> set d \<longrightarrow> map_of (requests ?s1) rid = Some x \<longrightarrow> num_computed_tokens (obj s' x) = num_computed_tokens (obj ?s1 x) + n) \<and>
    (\<forall>x. request_id (obj ?s1 x) \<notin> fst ` set d \<longrightarrow> obj s' x = obj ?s1 x)"
    by (rule Cons.IH) (use Cons.prems a o rq in auto)
  then obtain s' where s': "mfold (advance_one cfg) d ?s1 = Inr s'" "requests s' = requests s" "running s' = running s"
    "\<And>x. request_id (obj s' x) = request_id (obj s x) \<and> mm_features (obj s' x) = mm_features (obj s x)"
    "\<And>rid n x. (rid, n) \<in> set d \<Longrightarrow> map_of (requests s) rid = Some x \<Longrightarrow> num_computed_tokens (obj s' x) = num_computed_tokens (obj ?s1 x) + n"
    "\<And>x. request_id (obj s x) \<notin> fst ` set d \<Longrightarrow> obj s' x = obj ?s1 x" unfolding o rq by blast
  have new: "rid \<notin> fst ` set d" using Cons.prems(2) a by auto
  have "num_computed_tokens (obj s' y) = num_computed_tokens (obj s y) + m" if y: "(r, m) \<in> set (a # d)" "map_of (requests s) r = Some y" for r m y
  proof (cases "(r, m) = a")
    case True
    then show ?thesis using y a x s'(6)[of x] new by (auto simp: upd_obj_def)
  next
    case False
    then have d: "(r, m) \<in> set d" using y(1) by auto
    have "request_id (obj s y) = r" using Cons.prems(1) y by fastforce
    moreover have "r \<noteq> rid" using d new by force
    ultimately have "y \<noteq> x" using x(2) by auto
    then show ?thesis using s'(5)[OF d y(2)] by (simp add: upd_obj_def)
  qed
  moreover have "obj s' y = obj s y" if "request_id (obj s y) \<notin> fst ` set (a # d)" for y
    using that s'(6)[of y] x(2) a by (auto simp: upd_obj_def)
  ultimately show ?case using a one s'(1-4) by (intro exI[of _ s']) simp
qed simp

lemma async_returns:
  assumes "\<forall>rid \<in> set rids. map_of (requests s) rid \<noteq> None"
  shows "\<exists>s' b c. mfold (async_advance_one cfg d) rids (s, b0, c0) = Inr (s', b, c) \<and> (\<forall>x. num_computed_tokens (obj s' x) = num_computed_tokens (obj s x))"
  using assms
proof (induction rids arbitrary: s b0 c0)
  case (Cons rid rids)
  obtain x where x: "map_of (requests s) rid = Some x" using Cons.prems by auto
  obtain s1 b1 c1 where a: "async_advance_one cfg d rid (s, b0, c0) = Inr (s1, b1, c1)"
    "\<forall>y. num_computed_tokens (obj s1 y) = num_computed_tokens (obj s y)"
    using x by (auto simp: async_advance_one_def dict_item_def Let_def upd_obj_def)
  have "requests s1 = requests s" using async_advance_one_same[OF a(1)] by (simp add: same_queues_def)
  then have "\<forall>rid \<in> set rids. map_of (requests s1) rid \<noteq> None" using Cons.prems by simp
  from Cons.IH[OF this, of b1 c1] show ?case using a by (auto simp: split_beta)
qed simp

lemma update_after_schedule_returns:
  assumes k: "\<forall>(rid, n) \<in> set (out_num_scheduled_tokens out). \<exists>x. map_of (requests s) rid = Some x \<and> request_id (obj s x) = rid \<and> mm_features (obj s x) = []"
    and d: "distinct (map fst (out_num_scheduled_tokens out))"
  obtains out' s' where "update_after_schedule cfg out s = Inr (out', s')" "running s' = running s"
    "\<And>rid n x. (rid, n) \<in> set (out_num_scheduled_tokens out) \<Longrightarrow> map_of (requests s) rid = Some x \<Longrightarrow>
       num_computed_tokens (obj s' x) = num_computed_tokens (obj s x) + n"
proof -
  obtain s1 where s1: "mfold (advance_one cfg) (out_num_scheduled_tokens out) s = Inr s1" "requests s1 = requests s"
    "\<forall>rid n x. (rid, n) \<in> set (out_num_scheduled_tokens out) \<longrightarrow> map_of (requests s) rid = Some x \<longrightarrow>
       num_computed_tokens (obj s1 x) = num_computed_tokens (obj s x) + n"
    using advance_returns[OF k d, of cfg] by blast
  let ?s2 = "s1\<lparr>finished_req_ids := {}\<rparr>"
  have b: "base_update_after_schedule cfg out s = Inr ?s2" using s1(1) by (simp add: base_update_after_schedule_def)
  have keys: "\<forall>rid \<in> set (dict_keys (out_num_scheduled_tokens out)). map_of (requests ?s2) rid \<noteq> None" using k s1(2) by (fastforce simp: dict_keys_def)
  obtain s3 h c where a: "mfold (async_advance_one cfg (out_scheduled_spec_decode_tokens out)) (dict_keys (out_num_scheduled_tokens out)) (?s2, False, False) = Inr (s3, h, c)"
    "\<forall>x. num_computed_tokens (obj s3 x) = num_computed_tokens (obj ?s2 x)"
    using async_returns[OF keys] by blast
  obtain out' s' where u: "update_after_schedule cfg out s = Inr (out', s')" "s' = ?s2 \<or> s' = s3"
    using b a(1) by (cases "sc_async cfg") (auto simp: update_after_schedule_def)
  have "running s' = running s" using update_after_schedule_same[OF u(1)] by (simp add: same_queues_def)
  then show thesis using that[OF u(1)] u(2) s1(3) a(2) by fastforce
qed

definition ready_to_start :: "sched_config \<Rightarrow> nat list \<Rightarrow> 'c Scheduler \<Rightarrow> bool" where
  "ready_to_start cfg xs s \<longleftrightarrow> running s = [] \<and> connector s = None \<and> waiting s = FCFSRequestQueue xs \<and> (\<forall>y \<in> set xs. plain (obj s y)) \<and>
     usable_cache (kv_cache_manager s) \<and> policy cfg = FCFS \<and> \<not> need_mamba_block_aligned_split cfg \<and> 0 < max_num_scheduled_tokens cfg \<and>
     0 < max_num_running_reqs cfg \<and> (case max_loras cfg of None \<Rightarrow> True | Some m \<Rightarrow> 0 \<le> m)"

lemma start_live:
  assumes r: "ready_to_start cfg xs s" and ok: "sched_ok s"
  shows "live_inv s ((new_pass cfg)\<lparr>scheduled_loras := {}\<rparr>)" "running_loop cfg now (s, new_pass cfg) = Inr (s, new_pass cfg)"
    "running_loras cfg s (new_pass cfg) = Inr {}"
proof -
  have w: "mset (running s) + rq_bag (waiting s) = mset xs" using r by (simp add: ready_to_start_def)
  have "\<forall>y. count (mset xs) y \<le> 1" using ok w by (simp add: sched_ok_def well_queued_def queued_def)
  then have d: "distinct xs" using count_le_distinct[of xs "{#}"] by simp
  have "inj_on (\<lambda>y. request_id (obj s y)) (set_mset (queued s + {#}))"
    by (rule queued_ids_inj) (use ok in \<open>simp add: sched_ok_def requests_ok_iff\<close>)
  then have "inj_on (\<lambda>y. request_id (obj s y)) (set xs)" using w by (simp add: queued_def)
  then show "live_inv s ((new_pass cfg)\<lparr>scheduled_loras := {}\<rparr>)" using r d by (simp add: live_inv_def ready_to_start_def new_pass_def)
  show "running_loop cfg now (s, new_pass cfg) = Inr (s, new_pass cfg)"
    using r by (subst running_loop.simps) (simp add: ready_to_start_def new_pass_def)
  show "running_loras cfg s (new_pass cfg) = Inr {}"
    using r by (auto simp: running_loras_def ready_to_start_def new_pass_def split: option.splits)
qed

lemma start_passes:
  assumes r: "ready_to_start cfg (x # xs) s" and ok: "sched_ok s"
    and fits: "enable_chunked_prefill cfg \<or> cap_long_prefill cfg (num_tokens (obj s x)) \<le> max_num_scheduled_tokens cfg"
      "first_blocks (kv_cache_manager s) (obj s x) (first_chunk cfg (max_num_scheduled_tokens cfg) (obj s x)) \<le>
         get_num_free_blocks (c_block_pool (coordinator (kv_cache_manager s)))"
  obtains s' p' where "schedule_passes cfg ops ready now s = Some (Inr (s', p'))" "live_inv s' p'"
    "admitted x (first_chunk cfg (max_num_scheduled_tokens cfg) (obj s x)) s' p'"
proof -
  let ?p = "(new_pass cfg)\<lparr>scheduled_loras := {}\<rparr>" and ?n = "first_chunk cfg (max_num_scheduled_tokens cfg) (obj s x)"
  note live = start_live[OF r ok]
  have b: "token_budget ?p = max_num_scheduled_tokens cfg" by (simp add: new_pass_def)
  have s: "connector s = None" "waiting s = FCFSRequestQueue (x # xs)" "plain (obj s x)" "usable_cache (kv_cache_manager s)" "0 < token_budget ?p"
    "\<not> need_mamba_block_aligned_split cfg" "int (length (running s)) \<noteq> max_num_running_reqs cfg"
    using r b by (auto simp: ready_to_start_def)
  obtain s1 p1 k1 where it: "wait_iter cfg ops ready now (s, ?p) = Some (Inr (False, s1, p1))" "usable_cache k1"
    "admit cfg now x ?n 0 [] [] (encoder_compute_budget ?p) (s\<lparr>kv_cache_manager := k1, waiting := FCFSRequestQueue xs\<rparr>, ?p) = Inr (s1, p1)"
    using plain_wait_iter[OF s, of ops ready now] fits unfolding b by (auto split: if_splits)
  note ad = live_admit[OF live(1) s(2) it(2,3)]
  obtain s3 p3 where l: "waiting_loop cfg ops ready now (s1, p1) = Some (Inr (s3, p3))" "live_inv s3 p3" "admitted x ?n s3 p3"
    using waiting_loop_live[OF ad(1) s(6), of ops ready now] ad(2) by blast
  have "waiting_loop cfg ops ready now (s, ?p) = Some (Inr (s3, p3))"
    using it(1) l(1) s(2,5) by (subst waiting_loop.simps) (simp add: rq_bool_def)
  moreover have "skipped_waiting_requests p3 = FCFSRequestQueue []" using l(2) by (simp add: live_inv_def)
  ultimately have "schedule_passes cfg ops ready now s = Some (Inr (s3, p3))"
    using live(2)[of now] live(3) by (simp add: schedule_passes_def new_pass_def rq_bool_def)
  then show thesis using that l(2,3) by blast
qed

lemma start_schedule:
  assumes r: "ready_to_start cfg (x # xs) s" and ok: "sched_ok s"
    and fits: "enable_chunked_prefill cfg \<or> cap_long_prefill cfg (num_tokens (obj s x)) \<le> max_num_scheduled_tokens cfg"
      "first_blocks (kv_cache_manager s) (obj s x) (first_chunk cfg (max_num_scheduled_tokens cfg) (obj s x)) \<le>
         get_num_free_blocks (c_block_pool (coordinator (kv_cache_manager s)))"
  defines "n \<equiv> first_chunk cfg (max_num_scheduled_tokens cfg) (obj s x)"
  shows "\<exists>out s'. schedule cfg ops ready now s = Some (Inr (out, s')) \<and> x \<in> set (running s') \<and> status (obj s' x) = RUNNING \<and>
    map_of (out_num_scheduled_tokens out) (request_id (obj s x)) = Some n \<and> num_computed_tokens (obj s' x) = n \<and> 0 < n"
proof -
  obtain s1 p1 where p: "schedule_passes cfg ops ready now s = Some (Inr (s1, p1))" "live_inv s1 p1" "admitted x n s1 p1"
    using start_passes[OF r ok fits, of ops ready now] unfolding n_def by metis
  have step: "step_ok cfg s" using r ok by (simp add: step_ok_def ready_to_start_def)
  note po = schedule_passes_ok[OF p(1) step]
  have keep: "keeps {#} s {#} s1" by (rule schedule_passes_keeps[OF p(1)])
  have ok1: "sched_ok s1" using keep ok keeps_sched_ok by blast
  have ids: "request_id (obj s1 y) = request_id (obj s y)" for y using keep by (simp add: keeps_def same_ids_def)
  have new: "scheduled_reqs p1 = scheduled_new_reqs p1" using p(2) by (simp add: live_inv_def scheduled_reqs_def)
  obtain out s2 where b: "build_output cfg s1 p1 = Inr (out, s2)" "same_queues s1 s2" "sch_objs s2 = sch_objs s1"
    "out_num_scheduled_tokens out = num_scheduled_tokens p1" using build_output_returns[OF p(2)] by blast
  let ?s3 = "s2\<lparr>connector := map_option (\<lambda>c. build_connector_meta ops c out) (connector s2)\<rparr>"
  have rq: "requests ?s3 = requests s1" "running ?s3 = running s1" "sch_objs ?s3 = sch_objs s1" using b(2,3) by (simp_all add: same_queues_def)
  have listed: "\<exists>y \<in> set (scheduled_new_reqs p1). rid = request_id (obj s1 y) \<and> map_of (requests s1) rid = Some y"
    if rid: "rid \<in> fst ` set (num_scheduled_tokens p1)" for rid
  proof -
    obtain y where y: "y \<in> set (scheduled_new_reqs p1)" "rid = request_id (obj s1 y)" using rid po(1) new by (auto simp: pass_ok_def)
    then have "y \<in># queued s1" using po(1) new by (auto simp: pass_ok_def queued_def)
    then show ?thesis using y ok1 by (auto simp: sched_ok_def requests_ok_def)
  qed
  have k: "\<forall>(rid, m) \<in> set (out_num_scheduled_tokens out). \<exists>y. map_of (requests ?s3) rid = Some y \<and> request_id (obj ?s3 y) = rid \<and> mm_features (obj ?s3 y) = []"
    using listed p(2) unfolding b(4) rq by (force simp: live_inv_def)
  have d: "distinct (map fst (out_num_scheduled_tokens out))" using po(1) b(4) by (simp add: pass_ok_def)
  obtain out' s' where u: "update_after_schedule cfg out ?s3 = Inr (out', s')" "running s' = running s1"
    "\<And>rid m y. (rid, m) \<in> set (num_scheduled_tokens p1) \<Longrightarrow> map_of (requests s1) rid = Some y \<Longrightarrow> num_computed_tokens (obj s' y) = num_computed_tokens (obj s1 y) + m"
    using update_after_schedule_returns[OF k d, of cfg] unfolding b(4) rq by metis
  have run: "schedule cfg ops ready now s = Some (Inr (out', s'))"
    using p(1) pass_ok_constraints[OF po] b(1) u(1) by (simp add: schedule_def)
  have x: "x \<in> set (scheduled_new_reqs p1)" "map_of (num_scheduled_tokens p1) (request_id (obj s1 x)) = Some n" using p(3) by (simp_all add: admitted_def)
  have xr: "x \<in> set (running s1)" "num_computed_tokens (obj s1 x) = 0" using p(2) x(1) by (auto simp: live_inv_def)
  have "map_of (requests s1) (request_id (obj s1 x)) = Some x" using ok1 xr(1) by (auto simp: sched_ok_def requests_ok_def queued_def)
  then have "num_computed_tokens (obj s' x) = n" using u(3)[OF map_of_SomeD[OF x(2)]] xr(2) by simp
  moreover have "sched_ok s'" using schedule_keeps[OF run] ok keeps_sched_ok by blast
  then have "status (obj s' x) = RUNNING" using xr(1) u(2) by (simp add: sched_ok_def well_queued_def)
  moreover have "map_of (out_num_scheduled_tokens out') (request_id (obj s x)) = Some n"
    using update_after_schedule_tokens[OF u(1)] b(4) x(2) ids by simp
  moreover have "0 < n" using x(2) po(1) by (force simp: pass_ok_def dest: map_of_SomeD)
  ultimately show ?thesis using run u(2) xr(1) by auto
qed

end
