(* ===== verification/Sched_Properties.thy ===== *)
theory Sched_Properties
  imports Sched_Progress
begin

text \<open>
  The properties of the scheduler as a whole: what holds in every state it can reach, what every step hands to
  the workers, and that a waiting request is started.
\<close>

section \<open>The limit on running requests\<close>

lemma remove_all_shorter: "length (remove_all xs R) \<le> length xs"
  by (simp add: remove_all_def length_remove1)

lemma free_all_running:
  "mfold (\<lambda>x s. rbind (free_request cfg ops x (set_status st x s)) (\<lambda>(_, s'). Inr s')) xs s = Inr s' \<Longrightarrow> running s' = running s"
proof (induction xs arbitrary: s)
  case (Cons x xs)
  then obtain ps s1 where f: "free_request cfg ops x (set_status st x s) = Inr (ps, s1)"
    "mfold (\<lambda>x s. rbind (free_request cfg ops x (set_status st x s)) (\<lambda>(_, s'). Inr s')) xs s1 = Inr s'"
    by (auto simp: rbind_Inr_iff split: sum.splits)
  then show ?case using Cons.IH free_request_drops[OF f(1)] by (simp add: drops_entry_def set_status_def upd_obj_def)
qed simp

lemma finish_requests_running:
  assumes "finish_requests cfg ops rids st s = Inr s'"
  obtains R where "running s' = remove_all (running s) R"
proof -
  obtain valid run wait k where f: "fold (collect_finished s) (remdups rids) ([], [], [], num_waiting_for_streaming_input s) = (valid, run, wait, k)"
    by (cases "fold (collect_finished s) (remdups rids) ([], [], [], num_waiting_for_streaming_input s)")
  have "running s' = (if run = [] then running s else remove_all (running s) (set run))"
    using free_all_running[of cfg ops st valid _ s'] assms f by (fastforce simp: finish_requests_def)
  then have "running s' = remove_all (running s) (set run)" by (cases "run = []") (simp_all add: remove_all_def)
  then show thesis by (rule that)
qed

lemma finish_requests_shorter: "finish_requests cfg ops rids st s = Inr s' \<Longrightarrow> length (running s') \<le> length (running s)"
  by (erule finish_requests_running) (simp add: remove_all_shorter)

lemma process_outputs_running:
  "omfold (process_output cfg ops now out mro failed) items (s, acc) = Some (Inr (s', acc')) \<Longrightarrow> running s' = running s"
proof (induction items arbitrary: s acc)
  case (Cons it items)
  obtain rid n where it: "it = (rid, n)" by fastforce
  obtain s1 acc1 where 1: "process_output cfg ops now out mro failed (rid, n) (s, acc) = Some (Inr (s1, acc1))"
    "omfold (process_output cfg ops now out mro failed) items (s1, acc1) = Some (Inr (s', acc'))"
    using Cons.prems it by (auto simp: obind_Inr_iff)
  have "running s1 = running s"
    using 1(1) by (cases rule: process_output_cases[consumes 1, case_names none plain stop])
      (auto simp: plain_change_def stop_change_def changes_only_def)
  then show ?case using Cons.IH[OF 1(2)] by simp
qed simp

lemma fail_loads_shorter: "fail_loads cfg ops failed (s, acc) = Inr (s', acc') \<Longrightarrow> length (running s') \<le> length (running s)"
  by (erule fail_loads_cases) (auto simp: same_queues_def dest: finish_requests_shorter)

lemma kv_xfer_running: "update_from_kv_xfer_finished ops kco s = Inr s' \<Longrightarrow> running s' = running s"
proof -
  have "mfold (\<lambda>rid s. case map_of (requests s) rid of None \<Rightarrow> Inl AssertionError | Some x \<Rightarrow> sched_free_blocks x s) rids s = Inr s' \<Longrightarrow>
      running s' = running s" for rids and s :: "'a Scheduler"
  proof (induction rids arbitrary: s)
    case (Cons rid rids)
    then obtain x s1 where "sched_free_blocks x s = Inr s1"
      "mfold (\<lambda>rid s. case map_of (requests s) rid of None \<Rightarrow> Inl AssertionError | Some x \<Rightarrow> sched_free_blocks x s) rids s1 = Inr s'"
      by (auto split: sum.splits option.splits)
    then show ?case using Cons.IH sched_free_blocks_drops by (fastforce simp: drops_entry_def)
  qed simp
  then show "update_from_kv_xfer_finished ops kco s = Inr s' \<Longrightarrow> running s' = running s"
    by (fastforce simp: update_from_kv_xfer_finished_def Let_def)
qed

lemma update_from_output_shorter:
  assumes "update_from_output cfg ops now out mro s = Some (Inr (res, s'))"
  shows "length (running s') \<le> length (running s)"
  using assms
proof (rule update_from_output_parts)
  fix failed s0 s1 acc s2 s3 acc1 s4
  assume a: "same_queues s s0"
    "omfold (process_output cfg ops now out mro failed) (out_num_scheduled_tokens out) (s0, no_outputs) = Some (Inr (s1, acc))"
    "running s2 = remove_all (running s1) (set (stopped_running_reqs acc))" "fail_loads cfg ops failed (s2, acc) = Inr (s3, acc1)"
    "s4 = s3 \<or> (\<exists>kco. update_from_kv_xfer_finished ops kco s3 = Inr s4)" "same_queues s4 s'"
  have "running s1 = running s" using process_outputs_running[OF a(2)] a(1) by (simp add: same_queues_def)
  then have "length (running s2) \<le> length (running s)" using a(3) remove_all_shorter by simp
  moreover have "length (running s3) \<le> length (running s2)" using a(4) by (rule fail_loads_shorter)
  moreover have "running s' = running s3" using a(5,6) kv_xfer_running by (auto simp: same_queues_def)
  ultimately show "length (running s') \<le> length (running s)" by simp
qed

lemma add_request_shorter:
  assumes "add_request cfg ops now r s = Some (Inr s')"
  shows "length (running s') \<le> length (running s)"
  using assms
  by (auto simp: add_request_def Let_def upd_obj_def split: option.splits if_splits dest!: session_frame(1) finish_requests_shorter)
    (auto simp: changes_only_def)

lemma preempt_all_shorter: "preempt_all cfg now s = Inr s' \<Longrightarrow> running s' = []"
proof (induction cfg now s rule: preempt_all.induct)
  case (1 cfg now s)
  show ?case
  proof (cases "running s = []")
    case True
    then show ?thesis using "1.prems" by (simp add: preempt_all.simps)
  next
    case False
    let ?x = "last (running s)"
    obtain s1 where p: "preempt_request cfg now ?x (s\<lparr>running := butlast (running s)\<rparr>) = Inr s1"
      "preempt_all cfg now (upd_obj ?x (\<lambda>r. r\<lparr>num_output_placeholders := 0, discard_latest_async_tokens := True\<rparr>) s1) = Inr s'"
      using "1.prems" False by (subst (asm) preempt_all.simps) (auto simp: Let_def split: sum.splits)
    then show ?thesis using "1.IH"[OF False refl p(1)] by blast
  qed
qed

lemma reset_prefix_cache_shorter:
  assumes "sched_reset_prefix_cache cfg ops now rr rc s = Inr (b, s')"
  shows "length (running s') \<le> length (running s)"
proof -
  obtain s2 ok k where a: "(if rr then rbind (preempt_all cfg now s) (\<lambda>s1. Inr (s1\<lparr>prev_step_scheduled_req_ids := {}\<rparr>)) else Inr s) = Inr s2"
    "kvm_reset_prefix_cache (kv_cache_manager s2) = Inr (ok, k)"
    using assms(1) unfolding sched_reset_prefix_cache_def rbind_Inr_iff by auto
  have "running s2 = (if rr then [] else running s)" using a(1) preempt_all_shorter by (auto simp: rbind_Inr_iff split: if_splits)
  moreover have "running s' = running s2"
    using assms(1) a by (auto simp: sched_reset_prefix_cache_def reset_connector_cache_def Let_def rbind_Inr_iff
        split: if_splits option.splits prod.splits)
  ultimately show ?thesis by simp
qed

lemma schedule_limit:
  assumes "schedule cfg ops ready now s = Some (Inr (out, s'))"
  shows "int (length (running s')) \<le> max_num_running_reqs cfg"
proof -
  obtain s1 p out1 s2 where a: "constraints_ok cfg s1 p" "build_output cfg s1 p = Inr (out1, s2)"
    "update_after_schedule cfg out1 (s2\<lparr>connector := map_option (\<lambda>c. build_connector_meta ops c out1) (connector s2)\<rparr>) = Inr (out, s')"
    using assms by (auto simp: schedule_def obind_Inr_iff rbind_Inr_iff py_assert_Inr_iff)
  have "running s' = running s1" using build_output_same[OF a(2)] update_after_schedule_same[OF a(3)] by (simp add: same_queues_def)
  then show ?thesis using a(1) by (simp add: constraints_ok_def)
qed

lemma reachable_running_limit:
  "sched_reachable cfg ops s \<Longrightarrow> 0 \<le> max_num_running_reqs cfg \<Longrightarrow> int (length (running s)) \<le> max_num_running_reqs cfg"
proof (induction rule: sched_reachable.induct)
  case (drafts s advance validate ds)
  then show ?case using update_draft_same[of s advance validate ds] by (simp add: same_queues_def)
qed (fastforce dest: init_empty(2) schedule_limit update_from_output_shorter add_request_shorter finish_requests_shorter reset_prefix_cache_shorter)+

section \<open>The output of a step\<close>

lemma cached_request_step_spec:
  assumes "cached_request_step cfg s p (i, x) d = Inr d'"
  shows "crd_req_ids d' = crd_req_ids d @ [request_id (obj s x)]"
    "length (crd_new_block_ids d') = Suc (length (crd_new_block_ids d))"
    "length (crd_num_computed_tokens d') = Suc (length (crd_num_computed_tokens d))"
    "length (crd_num_output_tokens d') = Suc (length (crd_num_output_tokens d))"
    "length (crd_new_token_ids d') = (if use_pp cfg then Suc (length (crd_new_token_ids d)) else length (crd_new_token_ids d))"
    "crd_resumed_req_ids d' = (if i < length (scheduled_running_reqs p) then crd_resumed_req_ids d
       else insert (request_id (obj s x)) (crd_resumed_req_ids d))"
  using assms by (auto simp: cached_request_step_def Let_def rbind_Inr_iff py_assert_Inr_iff split: if_splits)

lemma cached_requests_spec:
  assumes "mfold (cached_request_step cfg s p) zs d = Inr d'"
  shows "crd_req_ids d' = crd_req_ids d @ map (\<lambda>(i, x). request_id (obj s x)) zs \<and>
    length (crd_new_block_ids d') = length (crd_new_block_ids d) + length zs \<and>
    length (crd_num_computed_tokens d') = length (crd_num_computed_tokens d) + length zs \<and>
    length (crd_num_output_tokens d') = length (crd_num_output_tokens d) + length zs \<and>
    length (crd_new_token_ids d') = length (crd_new_token_ids d) + (if use_pp cfg then length zs else 0) \<and>
    crd_resumed_req_ids d' = crd_resumed_req_ids d \<union> {request_id (obj s x) |i x. (i, x) \<in> set zs \<and> length (scheduled_running_reqs p) \<le> i}"
  using assms
proof (induction zs arbitrary: d)
  case (Cons z zs)
  obtain i x where z: "z = (i, x)" by fastforce
  obtain d1 where d1: "cached_request_step cfg s p (i, x) d = Inr d1" "mfold (cached_request_step cfg s p) zs d1 = Inr d'"
    using Cons.prems z by (auto split: sum.splits)
  note one = cached_request_step_spec[OF d1(1)]
  show ?case using Cons.IH[OF d1(2)] one z by (auto simp: not_less)
qed simp

lemma zip_tail: "{f x |i x. (i, x) \<in> set (zip [0..<length (xs @ ys)] (xs @ ys)) \<and> length xs \<le> i} = f ` set ys"
proof -
  let ?is = "[length xs..<length xs + length ys]"
  have z: "zip [0..<length (xs @ ys)] (xs @ ys) = zip [0..<length xs] xs @ zip ?is ys"
    using upt_add_eq_append[of 0 "length xs" "length ys"] by simp
  have s: "set ys = snd ` set (zip ?is ys)" by (simp flip: set_map)
  have "(i, x) \<in> set (zip ?is ys) \<Longrightarrow> length xs \<le> i" "(i, x) \<in> set (zip [0..<length xs] xs) \<Longrightarrow> i < length xs" for i x
    by (auto dest: set_zip_leftD)
  then have "{f x |i x. (i, x) \<in> set (zip [0..<length (xs @ ys)] (xs @ ys)) \<and> length xs \<le> i} = {f x |i x. (i, x) \<in> set (zip ?is ys)}"
    unfolding z by fastforce
  also have "\<dots> = f ` snd ` set (zip ?is ys)" by force
  finally show ?thesis using s by simp
qed

lemma build_output_spec:
  assumes "build_output cfg s p = Inr (out, s')"
  shows "map nrd_req_id (out_scheduled_new_reqs out) = map (\<lambda>x. request_id (obj s x))
      (if use_v2_model_runner cfg then scheduled_new_reqs p @ scheduled_resumed_reqs p else scheduled_new_reqs p)"
    "crd_req_ids (out_scheduled_cached_reqs out) = map (\<lambda>x. request_id (obj s x))
      (scheduled_running_reqs p @ (if use_v2_model_runner cfg then [] else scheduled_resumed_reqs p))"
    "crd_resumed_req_ids (out_scheduled_cached_reqs out) =
      (\<lambda>x. request_id (obj s x)) ` set (if use_v2_model_runner cfg then [] else scheduled_resumed_reqs p)"
    "length (crd_new_block_ids (out_scheduled_cached_reqs out)) = length (crd_req_ids (out_scheduled_cached_reqs out))"
    "length (crd_num_computed_tokens (out_scheduled_cached_reqs out)) = length (crd_req_ids (out_scheduled_cached_reqs out))"
    "length (crd_num_output_tokens (out_scheduled_cached_reqs out)) = length (crd_req_ids (out_scheduled_cached_reqs out))"
    "length (crd_new_token_ids (out_scheduled_cached_reqs out)) =
      (if use_pp cfg then length (crd_req_ids (out_scheduled_cached_reqs out)) else 0)"
proof -
  let ?new = "if use_v2_model_runner cfg then scheduled_new_reqs p @ scheduled_resumed_reqs p else scheduled_new_reqs p"
  let ?res = "if use_v2_model_runner cfg then [] else scheduled_resumed_reqs p"
  obtain ns s1 nd cd where a: "(case running s of [] \<Rightarrow> Inr (replicate (sc_num_groups cfg) 0, s)
      | x # _ \<Rightarrow> rbind (kvm_num_common_prefix_blocks (kv_cache_manager s) (request_id (obj s x))) (\<lambda>(ns, k). Inr (ns, s\<lparr>kv_cache_manager := k\<rparr>))) = Inr (ns, s1)"
    "mmap (new_request_data cfg s1 p) ?new = Inr nd" "make_cached_request_data cfg s1 p ?res = Inr cd"
    "out_scheduled_new_reqs out = nd" "out_scheduled_cached_reqs out = cd"
    using assms unfolding build_output_def Let_def[of "if use_v2_model_runner cfg then _ else _"] rbind_Inr_iff
    by (elim exE conjE) (auto simp: rbind_Inr_iff Let_def case_prod_unfold)
  have s1: "sch_objs s1 = sch_objs s" using a(1) by (auto simp: rbind_Inr_iff split: list.splits)
  have "list_all2 (\<lambda>x d. nrd_req_id d = request_id (obj s x)) ?new nd"
    using a(2) unfolding mmap_Inr_iff
    by (rule list_all2_mono) (auto simp: new_request_data_def Let_def rbind_Inr_iff NewRequestData_from_request_def s1)
  then show "map nrd_req_id (out_scheduled_new_reqs out) = map (\<lambda>x. request_id (obj s x)) ?new"
    unfolding a(4) list_all2_conv_all_nth by (intro nth_equalityI) auto
  let ?zs = "zip [0..<length (scheduled_running_reqs p @ ?res)] (scheduled_running_reqs p @ ?res)"
  have f: "mfold (cached_request_step cfg s1 p) ?zs CachedRequestData_make_empty = Inr cd" using a(3) by (simp add: make_cached_request_data_def)
  have z: "map (\<lambda>(i, x). request_id (obj s x)) ?zs = map (\<lambda>x. request_id (obj s x)) (scheduled_running_reqs p @ ?res)"
    by (rule nth_equalityI) (simp_all del: map_append)
  note c = cached_requests_spec[OF f, unfolded s1 z zip_tail, folded a(5)]
  show "crd_req_ids (out_scheduled_cached_reqs out) = map (\<lambda>x. request_id (obj s x)) (scheduled_running_reqs p @ ?res)"
    "crd_resumed_req_ids (out_scheduled_cached_reqs out) = (\<lambda>x. request_id (obj s x)) ` set ?res"
    "length (crd_new_block_ids (out_scheduled_cached_reqs out)) = length (crd_req_ids (out_scheduled_cached_reqs out))"
    "length (crd_num_computed_tokens (out_scheduled_cached_reqs out)) = length (crd_req_ids (out_scheduled_cached_reqs out))"
    "length (crd_num_output_tokens (out_scheduled_cached_reqs out)) = length (crd_req_ids (out_scheduled_cached_reqs out))"
    "length (crd_new_token_ids (out_scheduled_cached_reqs out)) = (if use_pp cfg then length (crd_req_ids (out_scheduled_cached_reqs out)) else 0)"
    using c by (simp_all add: CachedRequestData_make_empty_def)
qed

section \<open>What a step hands to the workers\<close>

definition one_entry_each :: "sched_config \<Rightarrow> 'c Scheduler \<Rightarrow> SchedulerOutput \<Rightarrow> bool" where
  "one_entry_each cfg s out \<longleftrightarrow> (let new = map nrd_req_id (out_scheduled_new_reqs out); cached = out_scheduled_cached_reqs out in
     distinct (new @ crd_req_ids cached) \<and> set (new @ crd_req_ids cached) = set (dict_keys (out_num_scheduled_tokens out)) \<and>
     distinct (dict_keys (out_num_scheduled_tokens out)) \<and> crd_resumed_req_ids cached \<subseteq> set (crd_req_ids cached) \<and>
     length (crd_new_block_ids cached) = length (crd_req_ids cached) \<and>
     length (crd_num_computed_tokens cached) = length (crd_req_ids cached) \<and>
     length (crd_num_output_tokens cached) = length (crd_req_ids cached) \<and>
     length (crd_new_token_ids cached) = (if use_pp cfg then length (crd_req_ids cached) else 0) \<and>
     (\<forall>rid \<in> set (dict_keys (out_num_scheduled_tokens out)). \<exists>x \<in> set (running s). map_of (requests s) rid = Some x \<and> status (obj s x) = RUNNING))"

lemma update_after_schedule_data:
  "update_after_schedule cfg out s = Inr (out', s') \<Longrightarrow> out_scheduled_new_reqs out' = out_scheduled_new_reqs out \<and>
     out_scheduled_cached_reqs out' = out_scheduled_cached_reqs out"
  by (auto simp: update_after_schedule_def rbind_Inr_iff split: if_splits)

lemma schedule_parts:
  fixes s s' :: "'c Scheduler"
  assumes "schedule cfg ops ready now s = Some (Inr (out, s'))" "step_ok cfg s"
  obtains s1 s2 :: "'c Scheduler" and p out1 where "pass_ok cfg s1 p" "build_output cfg s1 p = Inr (out1, s2)" "running s' = running s1"
    "\<And>x. request_id (obj s' x) = request_id (obj s1 x)" "sched_ok s1" "sched_ok s'"
    "out_num_scheduled_tokens out = num_scheduled_tokens p" "out_total_num_scheduled_tokens out = sum_list (map snd (num_scheduled_tokens p))"
    "out_scheduled_new_reqs out = out_scheduled_new_reqs out1" "out_scheduled_cached_reqs out = out_scheduled_cached_reqs out1"
proof -
  obtain s1 p out1 s2 where a: "schedule_passes cfg ops ready now s = Some (Inr (s1, p))" "build_output cfg s1 p = Inr (out1, s2)"
    "update_after_schedule cfg out1 (s2\<lparr>connector := map_option (\<lambda>c. build_connector_meta ops c out1) (connector s2)\<rparr>) = Inr (out, s')"
    using assms by (auto simp: schedule_def obind_Inr_iff rbind_Inr_iff py_assert_Inr_iff)
  have "same_queues s2 s'" using update_after_schedule_same[OF a(3)] by (simp add: same_queues_def)
  then have q: "same_queues s1 s'" using build_output_same[OF a(2)] same_queues_trans by blast
  have "sched_ok s1" using schedule_passes_keeps[OF a(1)] assms(2) keeps_sched_ok by (auto simp: step_ok_def)
  then show thesis
    using that[OF schedule_passes_ok(1)[OF a(1) assms(2)] a(2)] q same_queues_sched_ok[OF q] build_output_tokens[OF a(2)]
      update_after_schedule_tokens[OF a(3)] update_after_schedule_data[OF a(3)]
    by (simp add: same_queues_def same_req_def)
qed

lemma step_output_well_formed:
  fixes s s' :: "'c Scheduler"
  assumes "schedule cfg ops ready now s = Some (Inr (out, s'))" "step_ok cfg s"
  shows "one_entry_each cfg s' out"
proof -
  obtain s1 s2 :: "'c Scheduler" and p out1 where a: "pass_ok cfg s1 p" "build_output cfg s1 p = Inr (out1, s2)" "running s' = running s1"
    "\<And>x. request_id (obj s' x) = request_id (obj s1 x)" "sched_ok s1" "sched_ok s'" "out_num_scheduled_tokens out = num_scheduled_tokens p"
    "out_scheduled_new_reqs out = out_scheduled_new_reqs out1" "out_scheduled_cached_reqs out = out_scheduled_cached_reqs out1"
    by (rule schedule_parts[OF assms]) blast
  note b = build_output_spec[OF a(2), folded a(8,9)]
  let ?id = "\<lambda>x. request_id (obj s1 x)"
  let ?ids = "map nrd_req_id (out_scheduled_new_reqs out) @ crd_req_ids (out_scheduled_cached_reqs out)"
  have "inj_on ?id (set_mset (queued s1 + {#}))" by (rule queued_ids_inj) (use a(5) in \<open>simp add: sched_ok_def requests_ok_iff\<close>)
  then have inj: "inj_on ?id (set (scheduled_reqs p))" by (rule inj_on_subset) (use a(1) in \<open>auto simp: pass_ok_def queued_def\<close>)
  have m: "mset ?ids = mset (map ?id (scheduled_reqs p))" unfolding b by (simp add: scheduled_reqs_def)
  have "distinct (map ?id (scheduled_reqs p))" using a(1) inj by (simp add: pass_ok_def distinct_map)
  then have "distinct ?ids" using m mset_eq_imp_distinct_iff by blast
  moreover have "set ?ids = set (dict_keys (out_num_scheduled_tokens out))"
    using arg_cong[OF m, of set_mset] a(1,7) by (auto simp: pass_ok_def dict_keys_def)
  moreover have "distinct (dict_keys (out_num_scheduled_tokens out))" using a(1,7) by (simp add: pass_ok_def dict_keys_def)
  moreover have "\<exists>x \<in> set (running s'). map_of (requests s') rid = Some x \<and> status (obj s' x) = RUNNING"
    if rid: "rid \<in> set (dict_keys (out_num_scheduled_tokens out))" for rid
  proof -
    obtain x where x: "x \<in> set (running s')" "rid = request_id (obj s' x)" using rid a(1,3,4,7) by (auto simp: pass_ok_def dict_keys_def)
    then show ?thesis using a(6) by (auto simp: sched_ok_def well_queued_def requests_ok_def queued_def)
  qed
  ultimately show ?thesis using b(2-7) by (auto simp: one_entry_each_def Let_def)
qed

lemma step_within_budget:
  fixes s s' :: "'c Scheduler"
  assumes "step_ok cfg s"
  shows "schedule_passes cfg ops ready now s = Some (Inr (s1, p)) \<Longrightarrow> constraints_ok cfg s1 p"
    "schedule cfg ops ready now s = Some (Inr (out, s')) \<Longrightarrow>
      out_total_num_scheduled_tokens out = sum_list (dict_values (out_num_scheduled_tokens out)) \<and>
      out_total_num_scheduled_tokens out \<le> max_num_scheduled_tokens cfg \<and> (\<forall>n \<in> set (dict_values (out_num_scheduled_tokens out)). 0 < n)"
proof -
  show "constraints_ok cfg s1 p" if "schedule_passes cfg ops ready now s = Some (Inr (s1, p))"
    using schedule_passes_ok[OF that assms] by (rule pass_ok_constraints)
  assume a: "schedule cfg ops ready now s = Some (Inr (out, s'))"
  obtain s1 :: "'c Scheduler" and p where p: "pass_ok cfg s1 p" "out_num_scheduled_tokens out = num_scheduled_tokens p"
    "out_total_num_scheduled_tokens out = sum_list (map snd (num_scheduled_tokens p))" by (rule schedule_parts[OF a assms]) blast
  then show "out_total_num_scheduled_tokens out = sum_list (dict_values (out_num_scheduled_tokens out)) \<and>
      out_total_num_scheduled_tokens out \<le> max_num_scheduled_tokens cfg \<and> (\<forall>n \<in> set (dict_values (out_num_scheduled_tokens out)). 0 < n)"
    by (auto simp: pass_ok_def dict_values_def)
qed

section \<open>An example\<close>

text \<open>Four KV cache blocks of two tokens, no prefix caching, a budget of eight tokens a step.\<close>

definition example_vllm :: VllmConfig where
  "example_vllm = \<lparr>max_model_len = 100, decode_context_parallel_size = 1, prefill_context_parallel_size = 1, max_num_batched_tokens = 8,
     max_num_encoder_input_tokens = 8, mamba_cache_mode = ''none'', num_gpu_blocks_override = None, disable_hybrid_kv_cache_manager = False,
     original_max_model_len = 100\<rparr>"

definition example_sched_config :: SchedulerConfig where
  "example_sched_config = \<lparr>cfg_policy = ''fcfs'', max_num_seqs = 4, cfg_long_prefill_token_threshold = 0, cfg_enable_chunked_prefill = True,
     cfg_disable_chunked_mm_input = False, cfg_encoder_cache_size = 8, pipeline_parallel_size = 1, enable_prefix_caching = False,
     cfg_block_size = 2, cfg_num_gpu_blocks = Some 4, cfg_enable_kv_cache_events = False, cfg_kv_cache_metrics = False,
     cfg_use_int_hashes = False, cfg_is_encoder_decoder = False, cfg_encdec_max_encoder_len = 0, cfg_mm_modalities = None,
     cfg_max_loras = None, cfg_speculative = None, cfg_kv_load_failure_policy = None, cfg_ec_has_cache_item = None,
     cfg_use_v2_model_runner = False, cfg_async_scheduling = False\<rparr>"

definition example_ops :: "unit kv_connector_ops" where
  "example_ops = \<lparr>get_num_new_matched_tokens = \<lambda>c r n. ((Some 0, False), c), update_state_after_alloc = \<lambda>c r b n. c,
     build_connector_meta = \<lambda>c out. c, supports_hma = True, request_finished = \<lambda>c r ids. ((False, None), c),
     update_connector_output = \<lambda>c out. c, connector_take_events = \<lambda>c. ([], c), connector_reset_cache = \<lambda>c. (Some True, c)\<rparr>"

definition example_init :: "(sched_config \<times> unit Scheduler) result" where
  "example_init = Scheduler_init example_vllm example_sched_config example_config 2 False False None (\<lambda>xs. xs) None
     (\<lambda>_. example_request ''r'' [5, 6, 7] [])"

definition example_sched :: sched_config where "example_sched = fst (projr example_init)"

definition example_empty :: "unit Scheduler" where "example_empty = snd (projr example_init)"

definition example_waiting :: "unit Scheduler" where
  "example_waiting = projr (the (add_request example_sched example_ops 0 (example_request ''r'' [5, 6, 7] []) example_empty))"

definition plain_kvm :: KVCacheManager where
  "plain_kvm = projr (KVCacheManager_init example_config 100 2 False False False False 1 1 False False)"

lemma plain_kvm_init:
  "KVCacheManager_init example_config 100 2 False False False False 1 1 False False = Inr plain_kvm"
  "usable_cache plain_kvm" "get_num_free_blocks (c_block_pool (coordinator plain_kvm)) = 3" "first_blocks plain_kvm (example_request ''r'' [5, 6, 7] []) 3 = 2"
proof -
  obtain p where p: "BlockPool_init 4 False 2 False False False = Inr p" "pool_repr p (map Blk [1..<nat 4])"
    using BlockPool_init_spec[of 4 False 2 False False False] by auto
  have i: "KVCacheManager_init example_config 100 2 False False False False 1 1 False False = Inr plain_kvm"
    "single_type_managers (coordinator plain_kvm) = [stm_base_init FullAttentionManager example_spec p False 0 1 1]"
    "c_block_pool (coordinator plain_kvm) = p" "kvm_max_model_len plain_kvm = 100" "\<not> kvm_enable_caching plain_kvm"
    by (simp_all add: plain_kvm_def KVCacheManager_init_def get_kv_cache_coordinator_def coordinator_base_init_def
      example_config_def p(1) get_manager_for_kv_cache_spec_def example_spec_def)
  have r: "kvm_reachable plain_kvm"
    by (rule kvm_reachable.init[OF i(1)]) (simp_all add: example_config_def example_spec_def)
  show "KVCacheManager_init example_config 100 2 False False False False 1 1 False False = Inr plain_kvm" by (rule i(1))
  show "usable_cache plain_kvm" using i r by (simp add: usable_cache_def attention_only_def stm_base_init_def attention_manager_def)
  show "get_num_free_blocks (c_block_pool (coordinator plain_kvm)) = 3" using i(3) p(2) by (simp add: pool_repr_def fq_repr_def get_num_free_blocks_def)
  show "first_blocks plain_kvm (example_request ''r'' [5, 6, 7] []) 3 = 2"
    using i by (simp add: first_blocks_def stm_base_init_def blocks_missing_def example_spec_def cdiv_def dd_list_def)
qed

lemma example_empty_facts:
  "example_init = Inr (example_sched, example_empty)" "requests example_empty = []" "running example_empty = []" "connector example_empty = None"
  "kv_cache_manager example_empty = plain_kvm" "waiting example_empty = FCFSRequestQueue []"
  by (simp_all add: example_init_def example_sched_def example_empty_def Scheduler_init_def example_vllm_def example_sched_config_def
      SchedulingPolicy_of_def compute_encoder_budget_def compute_text_encoder_budget_def plain_kvm_init(1))

lemma example_sched_facts:
  "policy example_sched = FCFS" "\<not> need_mamba_block_aligned_split example_sched" "max_num_scheduled_tokens example_sched = 8"
  "max_num_running_reqs example_sched = 4" "max_loras example_sched = None" "enable_chunked_prefill example_sched"
  "long_prefill_token_threshold example_sched = 0" "\<not> sc_log_stats example_sched"
  by (simp_all add: example_init_def example_sched_def Scheduler_init_def example_vllm_def example_sched_config_def
      SchedulingPolicy_of_def compute_encoder_budget_def compute_text_encoder_budget_def plain_kvm_init(1))

lemma example_request_state [simp]:
  "py_id (example_request rid toks mms) = 0" "status (example_request rid toks mms) = WAITING" "\<not> resumable (example_request rid toks mms)"
  by (simp_all add: example_request_def Request_init_def engine_request_def request_kind_def blank_params_def
      structured_output_from_sampling_params_def length_from_prompt_token_ids_or_embeds_def rehash_def)

lemma example_waiting_facts:
  "add_request example_sched example_ops 0 (example_request ''r'' [5, 6, 7] []) example_empty = Some (Inr example_waiting)"
  "running example_waiting = []" "connector example_waiting = None" "kv_cache_manager example_waiting = plain_kvm"
  "waiting example_waiting = FCFSRequestQueue [0]" "obj example_waiting 0 = example_request ''r'' [5, 6, 7] []" "requests example_waiting = [(''r'', 0)]"
  by (simp_all add: example_waiting_def add_request_def example_empty_facts log_event_def example_sched_facts(8) upd_obj_def)

lemma example_waiting_reachable: "sched_reachable example_sched example_ops example_waiting"
proof -
  have "sched_reachable example_sched example_ops example_empty"
    by (rule sched_reachable.init[OF example_empty_facts(1)[unfolded example_init_def]])
  then show ?thesis by (rule sched_reachable.add) (use example_waiting_facts(1) in \<open>simp_all add: example_empty_facts\<close>)
qed

lemma example_ready: "ready_to_start example_sched [0] example_waiting" "sched_ok example_waiting" "step_ok example_sched example_waiting"
proof -
  show ok: "sched_ok example_waiting" using example_waiting_reachable by (rule sched_reachable_ok)
  show "ready_to_start example_sched [0] example_waiting"
    by (simp add: ready_to_start_def example_waiting_facts example_sched_facts plain_kvm_init plain_def num_tokens_def)
  show "step_ok example_sched example_waiting" using ok by (simp add: step_ok_def example_waiting_facts example_sched_facts)
qed

lemma example_chunk: "first_chunk example_sched 8 (example_request ''r'' [5, 6, 7] []) = 3"
  by (simp add: first_chunk_def cap_long_prefill_def example_sched_facts num_tokens_def)

lemma example_step: "\<exists>out s'. schedule example_sched example_ops (\<lambda>_. True) 0 example_waiting = Some (Inr (out, s')) \<and>
    map_of (out_num_scheduled_tokens out) ''r'' = Some 3"
  using start_schedule[OF example_ready(1,2), of example_ops "\<lambda>_. True" 0] example_chunk
  by (simp add: example_waiting_facts example_sched_facts plain_kvm_init) blast

section \<open>Properties\<close>

text \<open>
  C1 (invariant): in every state the scheduler can reach by initialisation, new requests, steps, model outputs,
  finished requests, cache resets and draft tokens, in any order, a request is in at most one place of the running list and the
  waiting queue; what is in the running list is RUNNING and what waits has a waiting status; every queued request is the
  entry of the request table under its own id, whose ids are distinct; and no more requests run than the limit allows.
\<close>

theorem reachable_queues_consistent:
  assumes "sched_reachable cfg ops s" "0 \<le> max_num_running_reqs cfg"
  shows "(\<forall>x. count (mset (running s) + rq_bag (waiting s)) x \<le> 1) \<and> (\<forall>x \<in> set (running s). status (obj s x) = RUNNING) \<and>
    (\<forall>x \<in># rq_bag (waiting s). waitable (status (obj s x))) \<and>
    (\<forall>x \<in># mset (running s) + rq_bag (waiting s). map_of (requests s) (request_id (obj s x)) = Some x) \<and>
    distinct (dict_keys (requests s)) \<and> int (length (running s)) \<le> max_num_running_reqs cfg"
  using sched_reachable_ok[OF assms(1)] reachable_running_limit[OF assms]
  by (simp add: sched_ok_def well_queued_def requests_ok_def queued_def dict_keys_def)

theorem reachable_queues_consistent_witness:
  "sched_reachable example_sched example_ops example_waiting \<and> 0 \<le> max_num_running_reqs example_sched \<and>
   count (mset (running example_waiting) + rq_bag (waiting example_waiting)) 0 = 1 \<and> waitable (status (obj example_waiting 0)) \<and>
   map_of (requests example_waiting) (request_id (obj example_waiting 0)) = Some 0"
  using reachable_queues_consistent[OF example_waiting_reachable] example_waiting_reachable
  by (simp add: example_waiting_facts example_sched_facts)

text \<open>
  C3 (bounds): with limits that are not negative, from a reachable state in which no running request has computed more tokens than it has (drafts and
  placeholders included) or than the model length allows, the assertions after the two loops of schedule hold whenever the
  loops return; and when schedule returns, every scheduled request gets a positive number of tokens, the total is their sum, and it is
  within the token budget.
\<close>

theorem schedule_within_budget:
  assumes "sched_reachable cfg ops s" "0 \<le> max_num_running_reqs cfg" "0 \<le> max_num_scheduled_tokens cfg"
    "need_mamba_block_aligned_split cfg \<Longrightarrow> 0 < cache_block_size cfg"
    "\<forall>x \<in> set (running s). num_computed_tokens (obj s x) \<le> num_tokens_with_spec (obj s x) + num_output_placeholders (obj s x) \<and>
       num_computed_tokens (obj s x) \<le> sc_max_model_len cfg - 1"
  shows "(\<forall>s1 p. schedule_passes cfg ops ready now s = Some (Inr (s1, p)) \<longrightarrow> constraints_ok cfg s1 p) \<and>
    (\<forall>out s'. schedule cfg ops ready now s = Some (Inr (out, s')) \<longrightarrow>
      out_total_num_scheduled_tokens out = sum_list (dict_values (out_num_scheduled_tokens out)) \<and>
      out_total_num_scheduled_tokens out \<le> max_num_scheduled_tokens cfg \<and> (\<forall>n \<in> set (dict_values (out_num_scheduled_tokens out)). 0 < n))"
proof -
  have "step_ok cfg s" using assms sched_reachable_ok[OF assms(1)] reachable_running_limit[OF assms(1,2)] by (simp add: step_ok_def on_track_def)
  then show ?thesis using step_within_budget by blast
qed

theorem schedule_within_budget_witness:
  "\<exists>out s'. schedule example_sched example_ops (\<lambda>_. True) 0 example_waiting = Some (Inr (out, s')) \<and>
     map_of (out_num_scheduled_tokens out) ''r'' = Some 3 \<and> out_total_num_scheduled_tokens out \<le> 8 \<and>
     out_total_num_scheduled_tokens out = sum_list (dict_values (out_num_scheduled_tokens out))"
proof -
  obtain out s' where "schedule example_sched example_ops (\<lambda>_. True) 0 example_waiting = Some (Inr (out, s'))"
    "map_of (out_num_scheduled_tokens out) ''r'' = Some 3"
    using example_step by blast
  then show ?thesis using schedule_within_budget[OF example_waiting_reachable, of "\<lambda>_. True" 0]
    by (auto simp: example_waiting_facts example_sched_facts)
qed

text \<open>
  C5 (type): from such a state, what schedule hands to the workers is well formed. The ids of the new requests and those of the
  cached requests are distinct and together are the keys of the token counts; the resumed ids are among the cached ones; the parallel
  lists of the cached requests have one entry for each of them, the list of new token ids only with pipeline parallelism;
  every id names a running request of the table.
\<close>

theorem schedule_output_well_formed:
  assumes "sched_reachable cfg ops s" "0 \<le> max_num_running_reqs cfg" "0 \<le> max_num_scheduled_tokens cfg"
    "need_mamba_block_aligned_split cfg \<Longrightarrow> 0 < cache_block_size cfg" "\<forall>x \<in> set (running s). on_track cfg (obj s x)"
    "schedule cfg ops ready now s = Some (Inr (out, s'))"
  shows "one_entry_each cfg s' out"
proof -
  have "step_ok cfg s" using assms(2-5) sched_reachable_ok[OF assms(1)] reachable_running_limit[OF assms(1,2)] by (simp add: step_ok_def)
  then show ?thesis using step_output_well_formed[OF assms(6)] by blast
qed

theorem schedule_output_well_formed_witness:
  "\<exists>out s'. schedule example_sched example_ops (\<lambda>_. True) 0 example_waiting = Some (Inr (out, s')) \<and>
     map_of (out_num_scheduled_tokens out) ''r'' = Some 3 \<and> one_entry_each example_sched s' out"
proof -
  obtain out s' where a: "schedule example_sched example_ops (\<lambda>_. True) 0 example_waiting = Some (Inr (out, s'))"
    "map_of (out_num_scheduled_tokens out) ''r'' = Some 3"
    using example_step by blast
  then show ?thesis using schedule_output_well_formed[OF example_waiting_reachable _ _ _ _ a(1)]
    by (auto simp: example_waiting_facts example_sched_facts)
qed

text \<open>
  C4 (liveness): a waiting request is started. With first-come-first-served scheduling, attention layers only, no KV connector, no prefix caching and
  no splitting aligned to Mamba blocks, nothing
  running, only text requests without LoRA that have not begun in the queue, chunked prefill on or the first chunk within the token budget, and
  enough free KV cache blocks for the first chunk of the
  request at the head, a step returns (no exception, no endless loop); that request then runs, the output grants it that chunk,
  which is not empty, and that many of its tokens count as computed.
\<close>

theorem waiting_request_starts:
  assumes "sched_reachable cfg ops s" "ready_to_start cfg (x # xs) s"
    "enable_chunked_prefill cfg \<or> cap_long_prefill cfg (num_tokens (obj s x)) \<le> max_num_scheduled_tokens cfg"
    "first_blocks (kv_cache_manager s) (obj s x) (first_chunk cfg (max_num_scheduled_tokens cfg) (obj s x)) \<le>
       get_num_free_blocks (c_block_pool (coordinator (kv_cache_manager s)))"
  shows "\<exists>out s'. schedule cfg ops ready now s = Some (Inr (out, s')) \<and> x \<in> set (running s') \<and> status (obj s' x) = RUNNING \<and>
    map_of (out_num_scheduled_tokens out) (request_id (obj s x)) = Some (first_chunk cfg (max_num_scheduled_tokens cfg) (obj s x)) \<and>
    num_computed_tokens (obj s' x) = first_chunk cfg (max_num_scheduled_tokens cfg) (obj s x) \<and>
    0 < first_chunk cfg (max_num_scheduled_tokens cfg) (obj s x)"
  by (rule start_schedule[OF assms(2) sched_reachable_ok[OF assms(1)] assms(3,4)])

theorem waiting_request_starts_witness:
  "\<exists>out s'. schedule example_sched example_ops (\<lambda>_. True) 0 example_waiting = Some (Inr (out, s')) \<and> 0 \<in> set (running s') \<and>
     map_of (out_num_scheduled_tokens out) ''r'' = Some 3 \<and> num_computed_tokens (obj s' 0) = 3"
  using waiting_request_starts[OF example_waiting_reachable example_ready(1), of "\<lambda>_. True" 0] example_chunk
  by (simp add: example_waiting_facts example_sched_facts plain_kvm_init) blast

end
