(* ===== verification/Sched_Tokens.thy ===== *)
theory Sched_Tokens
  imports Sched_Properties
begin

text \<open>
  Generated tokens: which of the tokens that the model returns are kept, when a request stops and with which status, and a
  request that can neither stop nor continue.
\<close>

section \<open>When a request stops\<close>

text \<open>
  The reference: the status that a request gets when its output is \<open>outs\<close>, from its parameters, the length of its
  prompt and the limits alone.
\<close>

definition stop_status :: "Request \<Rightarrow> SamplingParams \<Rightarrow> int \<Rightarrow> int list \<Rightarrow> RequestStatus option" where
  "stop_status r sp max_len outs =
     (if int (length outs) < sp_min_tokens sp then None
      else if (\<not> sp_ignore_eos sp \<and> Some (last outs) = eos_token_id r) \<or> last outs \<in> set (case sp_stop_token_ids sp of None \<Rightarrow> [] | Some l \<Rightarrow> l)
      then Some FINISHED_STOPPED
      else if num_tokens r - num_output_tokens r + int (length outs) \<ge> max_len \<or> int (length outs) \<ge> max_tokens r
      then Some FINISHED_LENGTH_CAPPED else None)"

lemma check_stop_status:
  assumes "pooling_params r = None" "sampling_params r = Some sp" "output_token_ids r \<noteq> []"
  shows "case stop_status r sp max_len (output_token_ids r) of
      None \<Rightarrow> check_stop r max_len = Inr (False, r)
    | Some st \<Rightarrow> \<exists>why. check_stop r max_len = Inr (True, r\<lparr>status := st, stop_reason := why\<rparr>)"
proof -
  have l: "py_index (output_token_ids r) (-1) = Inr (last (output_token_ids r))"
    using assms(3) by (simp add: py_index_def last_conv_nth Suc_le_eq)
  let ?outs = "output_token_ids r"
  have why: "\<exists>why. (Inr (True, r\<lparr>status := st\<rparr>) :: (bool \<times> Request) result) = Inr (True, r\<lparr>status := st, stop_reason := why\<rparr>)"
    "\<exists>why. (Inr (True, r\<lparr>status := st, stop_reason := w\<rparr>) :: (bool \<times> Request) result) = Inr (True, r\<lparr>status := st, stop_reason := why\<rparr>)" for st w
    by (rule exI[of _ "stop_reason r"], simp) (rule exI[of _ w], rule refl)
  let ?early = "int (length (output_token_ids r)) < sp_min_tokens sp"
    and ?eos = "\<not> sp_ignore_eos sp \<and> Some (last (output_token_ids r)) = eos_token_id r"
    and ?tok = "last (output_token_ids r) \<in> set (case sp_stop_token_ids sp of None \<Rightarrow> [] | Some l \<Rightarrow> l)"
    and ?long = "num_tokens r \<ge> max_len \<or> num_output_tokens r \<ge> max_tokens r"
  have c: "check_stop r max_len = (if ?early then Inr (False, r) else if ?eos then Inr (True, r\<lparr>status := FINISHED_STOPPED\<rparr>)
      else if ?tok then Inr (True, r\<lparr>status := FINISHED_STOPPED, stop_reason := Some (last (output_token_ids r))\<rparr>)
      else if ?long then Inr (True, r\<lparr>status := FINISHED_LENGTH_CAPPED\<rparr>) else Inr (False, r))"
    using assms(1,2) l by (simp add: check_stop_def num_output_tokens_def)
  have d: "stop_status r sp max_len (output_token_ids r) = (if ?early then None else if ?eos \<or> ?tok then Some FINISHED_STOPPED
      else if ?long then Some FINISHED_LENGTH_CAPPED else None)"
    unfolding stop_status_def num_output_tokens_def by (simp only: diff_add_cancel)
  show ?thesis unfolding c d by (cases ?early; cases ?eos; cases ?tok; cases ?long) (simp_all only: if_True if_False option.case simp_thms why)
qed

lemma full_hashes_cong:
  assumes "all_token_ids r' = all_token_ids r" "lora_request r' = lora_request r" "cache_salt r' = cache_salt r" "prompt_embeds r' = prompt_embeds r"
  shows "full_hashes fn none bs r' = full_hashes fn none bs r"
proof -
  have "num_full_blocks bs r' = num_full_blocks bs r" using assms(1) by (simp add: num_full_blocks_def num_tokens_def)
  moreover have "hash_chain fn none bs r' i = hash_chain fn none bs r i" for i
    by (induction i) (simp_all add: assms token_block_def plain_keys_def gen_lora_extra_hash_keys_def
        cache_salt_keys_def gen_prompt_embeds_extra_hash_keys_def)
  ultimately show ?thesis by (simp add: full_hashes_def)
qed

lemma full_hashes_update [simp]:
  "full_hashes fn none bs (r\<lparr>status := st, stop_reason := why\<rparr>) = full_hashes fn none bs r"
  "full_hashes fn none bs (r\<lparr>discard_latest_async_tokens := b\<rparr>) = full_hashes fn none bs r"
  "full_hashes fn none bs (r\<lparr>num_output_placeholders := n\<rparr>) = full_hashes fn none bs r"
  by (rule full_hashes_cong; simp)+

section \<open>Which tokens are kept\<close>

text \<open>A text request whose block hashes, of \<open>bs\<close> tokens each, are up to date; or a scheduler without hashing.\<close>

definition hashes_current :: "int \<Rightarrow> sched_config \<Rightarrow> Request \<Rightarrow> bool" where
  "hashes_current bs cfg r \<longleftrightarrow> block_hasher cfg = None \<or>
     (\<exists>fn none. block_hasher cfg = Some (request_block_hasher bs fn none) \<and> mm_features r = [] \<and> 0 < bs \<and> block_hashes r = full_hashes fn none bs r)"

lemma append_one:
  assumes "hashes_current bs cfg r"
  obtains h where "append_output_token_ids (block_hasher cfg) [t] r =
      Some (Inr (r\<lparr>output_token_ids := output_token_ids r @ [t], all_token_ids := all_token_ids r @ [t], block_hashes := h\<rparr>))"
    "hashes_current bs cfg (r\<lparr>output_token_ids := output_token_ids r @ [t], all_token_ids := all_token_ids r @ [t], block_hashes := h\<rparr>)"
proof (cases "block_hasher cfg")
  case None
  then show thesis using that[of "block_hashes r"] by (simp add: append_output_token_ids_def rehash_def hashes_current_def)
next
  case (Some h)
  then obtain fn none where h: "h = request_block_hasher bs fn none" "mm_features r = []" "0 < bs" "block_hashes r = full_hashes fn none bs r"
    using assms by (auto simp: hashes_current_def)
  let ?r = "r\<lparr>output_token_ids := output_token_ids r @ [t], all_token_ids := all_token_ids r @ [t]\<rparr>"
  show thesis
    by (rule that[of "full_hashes fn none bs ?r"]) (use append_hashed[OF h(2-4) refl, of "[t]"] Some h in \<open>auto simp: hashes_current_def\<close>)
qed

lemma stop_status_append:
  assumes "length (all_token_ids r') - length (output_token_ids r') = length (all_token_ids r) - length (output_token_ids r)"
    "length (output_token_ids r) \<le> length (all_token_ids r)" "length (output_token_ids r') \<le> length (all_token_ids r')"
    "eos_token_id r' = eos_token_id r" "max_tokens r' = max_tokens r"
  shows "stop_status r' sp L outs = stop_status r sp L outs"
proof -
  have "num_tokens r' - num_output_tokens r' = num_tokens r - num_output_tokens r"
    using assms(1-3) by (simp add: num_tokens_def num_output_tokens_def flip: of_nat_diff)
  then show ?thesis by (simp only: stop_status_def assms(4,5))
qed

lemma append_tokens_until_stop:
  assumes "hashes_current bs cfg r" "pooling_params r = None" "sampling_params r = Some sp" "length (output_token_ids r) \<le> length (all_token_ids r)"
  shows "\<exists>k stopped r'. append_tokens cfg ts r kept = Some (Inr (kept @ take k ts, stopped, r')) \<and> k \<le> length ts \<and>
    (\<forall>j. 0 < j \<and> j < k \<longrightarrow> stop_status r sp (sc_max_model_len cfg) (output_token_ids r @ take j ts) = None) \<and>
    (if stopped then 0 < k \<and> stop_status r sp (sc_max_model_len cfg) (output_token_ids r @ take k ts) = Some (status r')
     else k = length ts \<and> status r' = status r \<and> (0 < k \<longrightarrow> stop_status r sp (sc_max_model_len cfg) (output_token_ids r @ take k ts) = None)) \<and>
    output_token_ids r' = output_token_ids r @ take k ts \<and> all_token_ids r' = all_token_ids r @ take k ts \<and> hashes_current bs cfg r' \<and>
    num_computed_tokens r' = num_computed_tokens r \<and> num_output_placeholders r' = num_output_placeholders r \<and>
    request_id r' = request_id r \<and> discard_latest_async_tokens r' = discard_latest_async_tokens r"
  using assms
proof (induction ts arbitrary: r kept)
  case Nil
  then show ?case by (intro exI[of _ 0] exI[of _ False] exI[of _ r]) simp
next
  case (Cons t ts)
  let ?L = "sc_max_model_len cfg"
  obtain h where r1: "append_output_token_ids (block_hasher cfg) [t] r =
      Some (Inr (r\<lparr>output_token_ids := output_token_ids r @ [t], all_token_ids := all_token_ids r @ [t], block_hashes := h\<rparr>))"
    "hashes_current bs cfg (r\<lparr>output_token_ids := output_token_ids r @ [t], all_token_ids := all_token_ids r @ [t], block_hashes := h\<rparr>)"
    using append_one[OF Cons.prems(1)] .
  define r1 where "r1 = r\<lparr>output_token_ids := output_token_ids r @ [t], all_token_ids := all_token_ids r @ [t], block_hashes := h\<rparr>"
  have f: "pooling_params r1 = None" "sampling_params r1 = Some sp" "output_token_ids r1 = output_token_ids r @ [t]" "all_token_ids r1 = all_token_ids r @ [t]"
    "length (output_token_ids r1) \<le> length (all_token_ids r1)" "status r1 = status r" "num_computed_tokens r1 = num_computed_tokens r"
    "num_output_placeholders r1 = num_output_placeholders r" "request_id r1 = request_id r" "discard_latest_async_tokens r1 = discard_latest_async_tokens r"
    using Cons.prems by (simp_all add: r1_def)
  have st: "stop_status r1 sp ?L = stop_status r sp ?L"
    by (rule ext, rule stop_status_append) (use Cons.prems(4) in \<open>simp_all add: r1_def\<close>)
  note c = check_stop_status[OF f(1,2), of ?L, unfolded f(3) st]
  show ?case
  proof (cases "stop_status r sp ?L (output_token_ids r @ [t])")
    case None
    then have "check_stop r1 ?L = Inr (False, r1)" using c by simp
    then have "append_tokens cfg (t # ts) r kept = append_tokens cfg ts r1 (kept @ [t])" using r1(1) by (simp add: r1_def)
    moreover obtain k stopped r' where IH: "append_tokens cfg ts r1 (kept @ [t]) = Some (Inr ((kept @ [t]) @ take k ts, stopped, r'))" "k \<le> length ts"
      "\<forall>j. 0 < j \<and> j < k \<longrightarrow> stop_status r sp ?L (output_token_ids r1 @ take j ts) = None"
      "if stopped then 0 < k \<and> stop_status r sp ?L (output_token_ids r1 @ take k ts) = Some (status r')
       else k = length ts \<and> status r' = status r1 \<and> (0 < k \<longrightarrow> stop_status r sp ?L (output_token_ids r1 @ take k ts) = None)"
      "output_token_ids r' = output_token_ids r1 @ take k ts" "all_token_ids r' = all_token_ids r1 @ take k ts" "hashes_current bs cfg r'"
      "num_computed_tokens r' = num_computed_tokens r1" "num_output_placeholders r' = num_output_placeholders r1"
      "request_id r' = request_id r1" "discard_latest_async_tokens r' = discard_latest_async_tokens r1"
      using Cons.IH[of r1 "kept @ [t]"] r1(2) f unfolding st r1_def[symmetric] by blast
    moreover have "stop_status r sp ?L (output_token_ids r @ take j (t # ts)) = None" if "0 < j" "j < Suc k" for j
      using that IH(3) None f(3) by (cases j) (auto simp: less_Suc_eq_0_disj, cases "j = 1", auto)
    ultimately show ?thesis using f None by (intro exI[of _ "Suc k"] exI[of _ stopped] exI[of _ r']) (cases "k = 0"; auto split: if_splits)
  next
    case (Some x)
    then obtain why where w: "check_stop r1 ?L = Inr (True, r1\<lparr>status := x, stop_reason := why\<rparr>)" using c by auto
    then have "append_tokens cfg (t # ts) r kept = Some (Inr (kept @ [t], True, r1\<lparr>status := x, stop_reason := why\<rparr>))" using r1(1) by (simp add: r1_def)
    moreover have "hashes_current bs cfg (r1\<lparr>status := x, stop_reason := why\<rparr>)" using r1(2) unfolding r1_def hashes_current_def
      by auto
    ultimately show ?thesis using f Some by (intro exI[of _ 1] exI[of _ True] exI[of _ "r1\<lparr>status := x, stop_reason := why\<rparr>"]) auto
  qed
qed

text \<open>The first prefix of the new tokens with which the request stops.\<close>

definition first_stop :: "Request \<Rightarrow> SamplingParams \<Rightarrow> int \<Rightarrow> int list \<Rightarrow> nat option" where
  "first_stop r sp max_len ts = List.find (\<lambda>k. stop_status r sp max_len (output_token_ids r @ take k ts) \<noteq> None) [1..<Suc (length ts)]"

lemma first_stop_Some:
  assumes "0 < k" "k \<le> length ts" "stop_status r sp L (output_token_ids r @ take k ts) \<noteq> None"
    "\<forall>j. 0 < j \<and> j < k \<longrightarrow> stop_status r sp L (output_token_ids r @ take j ts) = None"
  shows "first_stop r sp L ts = Some k"
proof -
  have "[1..<Suc (length ts)] ! (k - 1) = k" "\<And>j. j < k - 1 \<Longrightarrow> [1..<Suc (length ts)] ! j = Suc j" using assms(1,2) by (auto simp del: upt_Suc)
  then show ?thesis unfolding first_stop_def find_Some_iff using assms by (intro exI[of _ "k - 1"]) (auto simp del: upt_Suc)
qed

lemma first_stop_None:
  assumes "\<forall>j. 0 < j \<and> j \<le> length ts \<longrightarrow> stop_status r sp L (output_token_ids r @ take j ts) = None"
  shows "first_stop r sp L ts = None"
  unfolding first_stop_def find_None_iff using assms by (auto simp del: upt_Suc)

definition kept_tokens :: "Request \<Rightarrow> SamplingParams \<Rightarrow> int \<Rightarrow> int list \<Rightarrow> int list" where
  "kept_tokens r sp max_len ts = (case first_stop r sp max_len ts of None \<Rightarrow> ts | Some k \<Rightarrow> take k ts)"

lemma append_tokens_kept:
  assumes "hashes_current bs cfg r" "pooling_params r = None" "sampling_params r = Some sp" "length (output_token_ids r) \<le> length (all_token_ids r)"
  shows "\<exists>r'. let stop = first_stop r sp (sc_max_model_len cfg) ts; kept = kept_tokens r sp (sc_max_model_len cfg) ts in
    append_tokens cfg ts r [] = Some (Inr (kept, stop \<noteq> None, r')) \<and>
    output_token_ids r' = output_token_ids r @ kept \<and> all_token_ids r' = all_token_ids r @ kept \<and>
    Some (status r') = (if stop = None then Some (status r) else stop_status r sp (sc_max_model_len cfg) (output_token_ids r @ kept)) \<and>
    hashes_current bs cfg r' \<and> num_computed_tokens r' = num_computed_tokens r \<and> num_output_placeholders r' = num_output_placeholders r \<and>
    request_id r' = request_id r \<and> discard_latest_async_tokens r' = discard_latest_async_tokens r"
proof -
  let ?L = "sc_max_model_len cfg"
  obtain k stopped r' where a: "append_tokens cfg ts r [] = Some (Inr (take k ts, stopped, r'))" "k \<le> length ts"
    "\<forall>j. 0 < j \<and> j < k \<longrightarrow> stop_status r sp ?L (output_token_ids r @ take j ts) = None"
    "if stopped then 0 < k \<and> stop_status r sp ?L (output_token_ids r @ take k ts) = Some (status r')
     else k = length ts \<and> status r' = status r \<and> (0 < k \<longrightarrow> stop_status r sp ?L (output_token_ids r @ take k ts) = None)"
    "output_token_ids r' = output_token_ids r @ take k ts" "all_token_ids r' = all_token_ids r @ take k ts" "hashes_current bs cfg r'"
    "num_computed_tokens r' = num_computed_tokens r" "num_output_placeholders r' = num_output_placeholders r"
    "request_id r' = request_id r" "discard_latest_async_tokens r' = discard_latest_async_tokens r"
    using append_tokens_until_stop[OF assms, of ts "[]"] by auto
  have stop: "first_stop r sp ?L ts = (if stopped then Some k else None)"
  proof (cases stopped)
    case True
    then show ?thesis using a(2-4) by (simp add: first_stop_Some)
  next
    case False
    have k: "k = length ts" "0 < k \<longrightarrow> stop_status r sp ?L (output_token_ids r @ take k ts) = None" using a(4) unfolding if_not_P[OF False] by blast+
    have "stop_status r sp ?L (output_token_ids r @ take j ts) = None" if "0 < j" "j \<le> length ts" for j
      using that k a(3) by (cases "j = k") (blast, metis order_le_imp_less_or_eq)
    then show ?thesis using False first_stop_None by simp
  qed
  have "kept_tokens r sp ?L ts = take k ts" using stop a(4) by (cases stopped) (simp_all add: kept_tokens_def)
  then show ?thesis unfolding Let_def by (intro exI[of _ r']) (use stop a in \<open>cases stopped; simp\<close>)
qed

text \<open>
  What the asynchronous scheduler needs to cache the blocks that new tokens complete: \<open>n\<close> placeholders for the new tokens, no more
  computed tokens than tokens and placeholders, and, for a running request with prefix caching on, hashes at the block size of the
  manager and block tables that reach the computed tokens.
\<close>

definition async_ready :: "int \<Rightarrow> sched_config \<Rightarrow> 'c Scheduler \<Rightarrow> nat \<Rightarrow> nat \<Rightarrow> bool" where
  "async_ready bs cfg s x n \<longleftrightarrow> (let r = obj s x; k = kv_cache_manager s; p = c_block_pool (coordinator k) in
     int n \<le> num_output_placeholders r \<and> num_computed_tokens r \<le> num_tokens r + num_output_placeholders r \<and>
     (status r = RUNNING \<and> kvm_enable_caching k \<longrightarrow> kvm_reachable k \<and> block_hasher cfg \<noteq> None \<and> hash_block_size p = bs \<and>
       (\<forall>m \<in> set (single_type_managers (coordinator k)). attention_manager m \<and> uncached_private (request_id r) p m \<and> cacheable p m \<and>
          num_computed_tokens r div block_size m \<le> int (length (dd_list (request_id r) (req_to_blocks m))))))"

lemma async_cache_returns:
  assumes "async_ready bs cfg s x n" "status (obj s x) = RUNNING" "hashes_current bs cfg r" "request_id r = request_id (obj s x)"
    "num_tokens r = num_tokens (obj s x) + int m" "m \<le> n"
  shows "\<exists>k. kvm_cache_blocks (kv_cache_manager s) r (num_computed_tokens (obj s x) - (num_output_placeholders (obj s x) - int m)) = Inr k"
proof (cases "kvm_enable_caching (kv_cache_manager s)")
  case True
  let ?k = "kv_cache_manager s" and ?n = "num_computed_tokens (obj s x) - (num_output_placeholders (obj s x) - int m)"
  let ?c = "coordinator ?k"
  have a: "int n \<le> num_output_placeholders (obj s x)" "num_computed_tokens (obj s x) \<le> num_tokens (obj s x) + num_output_placeholders (obj s x)"
    "kvm_reachable ?k" "block_hasher cfg \<noteq> None" "hash_block_size (c_block_pool ?c) = bs"
    "\<forall>m \<in> set (single_type_managers ?c). attention_manager m \<and> uncached_private (request_id r) (c_block_pool ?c) m \<and> cacheable (c_block_pool ?c) m \<and>
          num_computed_tokens (obj s x) div block_size m \<le> int (length (dd_list (request_id r) (req_to_blocks m)))"
    using assms(1,2,4) True by (simp_all add: async_ready_def Let_def)
  have le: "?n \<le> num_computed_tokens (obj s x)" "?n \<le> num_tokens r" using a(1,2) assms(5,6) by simp_all
  have ok: "coord_ok ?c" using reachable_kvm_ok[OF a(3)] by (simp add: kvm_ok_def)
  have b: "0 < bs" "length (block_hashes r) = nat (num_tokens r div bs)"
    using assms(3) a(4) by (auto simp: hashes_current_def num_full_blocks_def)
  have "?n div bs \<le> num_tokens r div bs" by (rule zdiv_mono1[OF le(2) b(1)])
  then have h: "?n div hash_block_size (c_block_pool ?c) \<le> int (length (block_hashes r))" using a(5) b(2) by simp
  have each: "\<forall>m \<in> set (single_type_managers ?c). attention_manager m \<and> uncached_private (request_id r) (c_block_pool ?c) m \<and> cacheable (c_block_pool ?c) m \<and>
          ?n div block_size m \<le> int (length (dd_list (request_id r) (req_to_blocks m)))"
  proof
    fix m assume m: "m \<in> set (single_type_managers ?c)"
    have pos: "0 < block_size m" using ok m by (simp add: kv_ok_def manager_ok_def)
    show "attention_manager m \<and> uncached_private (request_id r) (c_block_pool ?c) m \<and> cacheable (c_block_pool ?c) m \<and>
          ?n div block_size m \<le> int (length (dd_list (request_id r) (req_to_blocks m)))"
      using a(6) m zdiv_mono1[OF le(1) pos] by fastforce
  qed
  from cache_stage[OF ok each h] show ?thesis using True by (auto simp: kvm_cache_blocks_def)
qed (simp add: kvm_cache_blocks_def)

lemma update_with_kept:
  assumes a: "append_tokens cfg ts (obj s x) [] = Some (Inr (kept, stopped, r'))"
    and ready: "sc_async cfg \<and> \<not> discard_latest_async_tokens (obj s x) \<longrightarrow> async_ready bs cfg s x (length ts)"
    and r': "all_token_ids r' = all_token_ids (obj s x) @ kept" "hashes_current bs cfg r'" "num_computed_tokens r' = num_computed_tokens (obj s x)"
      "num_output_placeholders r' = num_output_placeholders (obj s x)" "request_id r' = request_id (obj s x)"
    and keep: "\<not> (sc_async cfg \<and> discard_latest_async_tokens (obj s x))" "length kept \<le> length ts"
  shows "\<exists>s' r''. update_request_with_output cfg x ts s = Some (Inr ((kept, stopped), s')) \<and> sch_objs s' = (sch_objs s)(x := r'') \<and>
      output_token_ids r'' = output_token_ids r' \<and> all_token_ids r'' = all_token_ids r' \<and> status r'' = status r' \<and> hashes_current bs cfg r'' \<and>
      num_output_placeholders r'' = num_output_placeholders r' - (if sc_async cfg then int (length kept) else 0) \<and>
      discard_latest_async_tokens r'' = discard_latest_async_tokens r'"
proof (cases "sc_async cfg")
  case False
  then show ?thesis using a r'(2) by (intro exI[of _ "upd_obj x (\<lambda>_. r') s"] exI[of _ r'])
    (simp add: update_request_with_output_def base_update_request_with_output_def upd_obj_def)
next
  case True
  let ?r = "r'\<lparr>num_output_placeholders := num_output_placeholders (obj s x) - int (length kept)\<rparr>" and ?k = "kv_cache_manager s"
  have ready: "async_ready bs cfg s x (length ts)" using ready keep(1) True by blast
  have room: "int (length kept) \<le> num_output_placeholders (obj s x)" using ready keep(2) unfolding async_ready_def Let_def by linarith
  have h: "hashes_current bs cfg ?r" using r'(2) by (simp add: hashes_current_def)
  obtain k' where k': "(if status (obj s x) = RUNNING
      then kvm_cache_blocks ?k ?r (num_computed_tokens (obj s x) - (num_output_placeholders (obj s x) - int (length kept))) else Inr ?k) = Inr k'"
    using async_cache_returns[OF ready _ h _ _ keep(2)] r'(1,5) by (fastforce simp: num_tokens_def)
  have "update_request_with_output cfg x ts s = Some (Inr ((kept, stopped), (upd_obj x (\<lambda>_. ?r) s)\<lparr>kv_cache_manager := k'\<rparr>))"
    using True keep(1) a r'(3,4) room k'
    by (cases "status (obj s x) = RUNNING") (simp_all add: update_request_with_output_def base_update_request_with_output_def upd_obj_def Let_def)
  then show ?thesis using h True r'(4) by (intro exI[of _ "(upd_obj x (\<lambda>_. ?r) s)\<lparr>kv_cache_manager := k'\<rparr>"] exI[of _ ?r]) (simp add: upd_obj_def)
qed

text \<open>
  C6 (_update_request_with_output, check_stop): the tokens generated for a request that is a text request or is not hashed. With either
  scheduler exactly those up to and including the first that stops the request are kept (all, when none does); they are appended to the
  request, the request is reported as stopped
  exactly when there is such a token, and its status is then the one that the stop rules give for the output so far: too few tokens for
  min_tokens never stop, an end-of-sequence or stop token stops, then the model length and max_tokens cap. The asynchronous
  scheduler moreover takes one placeholder off per kept token and caches the completed blocks; but when the request was preempted by a reset of
  the prefix cache it drops all of the tokens, once. The call returns and
  changes no other request.
\<close>

theorem generated_tokens_until_stop:
  assumes "hashes_current bs cfg (obj s x)" "pooling_params (obj s x) = None" "sampling_params (obj s x) = Some sp"
    "length (output_token_ids (obj s x)) \<le> length (all_token_ids (obj s x))"
    "sc_async cfg \<and> \<not> discard_latest_async_tokens (obj s x) \<longrightarrow> async_ready bs cfg s x (length ts)"
  shows "\<exists>s'. let drop_all = sc_async cfg \<and> discard_latest_async_tokens (obj s x);
      stop = (if drop_all then None else first_stop (obj s x) sp (sc_max_model_len cfg) ts);
      kept = (if drop_all then [] else case stop of None \<Rightarrow> ts | Some k \<Rightarrow> take k ts) in
    update_request_with_output cfg x ts s = Some (Inr ((kept, stop \<noteq> None), s')) \<and>
    output_token_ids (obj s' x) = output_token_ids (obj s x) @ kept \<and> all_token_ids (obj s' x) = all_token_ids (obj s x) @ kept \<and>
    Some (status (obj s' x)) = (if stop = None then Some (status (obj s x))
      else stop_status (obj s x) sp (sc_max_model_len cfg) (output_token_ids (obj s x) @ kept)) \<and>
    num_output_placeholders (obj s' x) = num_output_placeholders (obj s x) - (if sc_async cfg then int (length kept) else 0) \<and>
    (sc_async cfg \<longrightarrow> \<not> discard_latest_async_tokens (obj s' x)) \<and>
    hashes_current bs cfg (obj s' x) \<and> (\<forall>y. y \<noteq> x \<longrightarrow> obj s' y = obj s y)"
proof (cases "sc_async cfg \<and> discard_latest_async_tokens (obj s x)")
  case True
  have "hashes_current bs cfg ((obj s x)\<lparr>discard_latest_async_tokens := False\<rparr>)"
    using assms(1) unfolding hashes_current_def by auto
  then show ?thesis
    by (intro exI[of _ "upd_obj x (\<lambda>r. r\<lparr>discard_latest_async_tokens := False\<rparr>) s"]) (use True in \<open>simp add: update_request_with_output_def upd_obj_def\<close>)
next
  case keep: False
  define L kept stop where "L = sc_max_model_len cfg" and "kept = kept_tokens (obj s x) sp L ts" and "stop = first_stop (obj s x) sp L ts"
  obtain r' where a: "append_tokens cfg ts (obj s x) [] = Some (Inr (kept, stop \<noteq> None, r'))"
    "output_token_ids r' = output_token_ids (obj s x) @ kept" "all_token_ids r' = all_token_ids (obj s x) @ kept"
    "Some (status r') = (if stop = None then Some (status (obj s x)) else stop_status (obj s x) sp L (output_token_ids (obj s x) @ kept))"
    "hashes_current bs cfg r'" "num_computed_tokens r' = num_computed_tokens (obj s x)" "num_output_placeholders r' = num_output_placeholders (obj s x)"
    "request_id r' = request_id (obj s x)" "discard_latest_async_tokens r' = discard_latest_async_tokens (obj s x)"
    using append_tokens_kept[OF assms(1-4), of ts] unfolding Let_def L_def[symmetric] kept_def[symmetric] stop_def[symmetric] by blast
  have len: "length kept \<le> length ts" by (auto simp: kept_def kept_tokens_def split: option.splits)
  obtain s' r'' where "update_request_with_output cfg x ts s = Some (Inr ((kept, stop \<noteq> None), s'))" "sch_objs s' = (sch_objs s)(x := r'')"
      "output_token_ids r'' = output_token_ids r'" "all_token_ids r'' = all_token_ids r'" "status r'' = status r'" "hashes_current bs cfg r''"
      "num_output_placeholders r'' = num_output_placeholders r' - (if sc_async cfg then int (length kept) else 0)"
      "discard_latest_async_tokens r'' = discard_latest_async_tokens r'"
    using update_with_kept[OF a(1) assms(5) a(3,5-8) keep len] by blast
  moreover have "(case stop of None \<Rightarrow> ts | Some k \<Rightarrow> take k ts) = kept" by (simp add: kept_def stop_def kept_tokens_def)
  ultimately show ?thesis using keep a unfolding L_def[symmetric] stop_def[symmetric] Let_def by (intro exI[of _ s']) auto
qed

lemma example_request_params [simp]:
  "pooling_params (example_request rid toks mms) = None" "sampling_params (example_request rid toks mms) = Some blank_params"
  "max_tokens (example_request rid toks mms) = 16"
  by (simp_all add: example_request_def Request_init_def engine_request_def request_kind_def blank_params_def
      structured_output_from_sampling_params_def length_from_prompt_token_ids_or_embeds_def rehash_def)

lemma example_sched_more: "\<not> sc_async example_sched" "block_hasher example_sched = None" "sc_max_model_len example_sched = 100" "sc_num_groups example_sched = 1"
  by (simp_all add: example_init_def example_sched_def Scheduler_init_def example_vllm_def example_sched_config_def example_config_def
      SchedulingPolicy_of_def compute_encoder_budget_def compute_text_encoder_budget_def plain_kvm_init(1)[unfolded example_config_def])

text \<open>
  The end-of-sequence token 9 cuts what follows it: in the synchronous scheduler, and in the asynchronous one with prefix caching,
  where a request that a reset preempted keeps nothing.
\<close>

definition example_eos :: "unit Scheduler" where
  "example_eos = example_waiting\<lparr>sch_objs := (\<lambda>_. (example_request ''r'' [5, 6, 7] [])\<lparr>eos_token_id := Some 9\<rparr>)\<rparr>"

definition async_sched :: sched_config where
  "async_sched = example_sched\<lparr>sc_async := True, block_hasher := Some (request_block_hasher 2 (\<lambda>_. [1]) [0])\<rparr>"

definition example_async :: "bool \<Rightarrow> unit Scheduler" where
  "example_async discard = example_waiting\<lparr>kv_cache_manager := example_kvm,
     sch_objs := (\<lambda>_. (example_request ''r'' [5, 6, 7] [])\<lparr>eos_token_id := Some 9, block_hashes := [[1]], status := RUNNING, num_computed_tokens := 1,
       num_output_placeholders := 3, discard_latest_async_tokens := discard\<rparr>)\<rparr>"

lemma example_eos_stop:
  assumes "output_token_ids r = []" "num_tokens r = 3" "eos_token_id r = Some 9" "max_tokens r = 16"
  shows "first_stop r blank_params 100 [4, 9, 8] = Some 2" "stop_status r blank_params 100 [4, 9] = Some FINISHED_STOPPED"
  using assms by (simp_all add: first_stop_def stop_status_def blank_params_def upt_rec num_output_tokens_def)

lemma example_async_facts:
  "output_token_ids (obj (example_async d) 0) = []" "num_tokens (obj (example_async d) 0) = 3" "eos_token_id (obj (example_async d) 0) = Some 9"
  "max_tokens (obj (example_async d) 0) = 16" "pooling_params (obj (example_async d) 0) = None" "sampling_params (obj (example_async d) 0) = Some blank_params"
  "num_output_placeholders (obj (example_async d) 0) = 3" "discard_latest_async_tokens (obj (example_async d) 0) = d"
  by (simp_all add: example_async_def num_tokens_def)

lemma async_sched_facts: "sc_async async_sched" "sc_max_model_len async_sched = 100"
  by (simp_all add: async_sched_def example_sched_more)

lemma example_async_ready: "hashes_current 2 async_sched (obj (example_async d) 0)" "async_ready 2 async_sched (example_async d) 0 3"
proof -
  have "mm_features (example_request ''r'' [5, 6, 7] []) = []" "full_hashes (\<lambda>_. [1]) [0] 2 (example_request ''r'' [5, 6, 7] []) = [[1]]" by code_simp+
  moreover have "full_hashes (\<lambda>_. [1]) [0] 2 (obj (example_async d) 0) = full_hashes (\<lambda>_. [1]) [0] 2 (example_request ''r'' [5, 6, 7] [])"
    by (rule full_hashes_cong) (simp_all add: example_async_def)
  ultimately show "hashes_current 2 async_sched (obj (example_async d) 0)"
    unfolding hashes_current_def by (intro disjI2 exI[of _ "\<lambda>_. [1]"] exI[of _ "[0]"]) (simp add: example_async_def async_sched_def)
  have "cacheable example_pool example_manager" "hash_block_size example_pool = 2"
    using example_caching_ok[of 1] by (simp_all add: caching_ok_def Let_def example_kvm_init) code_simp
  then show "async_ready 2 async_sched (example_async d) 0 3" using example_kvm_reachable
    by (simp add: async_ready_def Let_def example_async_def async_sched_def example_kvm_init example_slots_facts example_private num_tokens_def dd_list_def)
qed

theorem generated_tokens_until_stop_witness:
  "(\<exists>s'. update_request_with_output example_sched 0 [4, 9, 8] example_eos = Some (Inr (([4, 9], True), s')) \<and>
     output_token_ids (obj s' 0) = [4, 9] \<and> status (obj s' 0) = FINISHED_STOPPED) \<and>
   (\<exists>s'. update_request_with_output async_sched 0 [4, 9, 8] (example_async False) = Some (Inr (([4, 9], True), s')) \<and>
     output_token_ids (obj s' 0) = [4, 9] \<and> status (obj s' 0) = FINISHED_STOPPED \<and> num_output_placeholders (obj s' 0) = 1) \<and>
   (\<exists>s'. update_request_with_output async_sched 0 [4, 9, 8] (example_async True) = Some (Inr (([], False), s')) \<and>
     output_token_ids (obj s' 0) = [] \<and> \<not> discard_latest_async_tokens (obj s' 0))"
proof (intro conjI)
  let ?r = "obj example_eos 0"
  have r: "pooling_params ?r = None" "sampling_params ?r = Some blank_params" "output_token_ids ?r = []" "hashes_current 2 example_sched ?r"
    "num_tokens ?r = 3" "eos_token_id ?r = Some 9" "max_tokens ?r = 16"
    by (simp_all add: example_eos_def hashes_current_def example_sched_more num_tokens_def)
  show "\<exists>s'. update_request_with_output example_sched 0 [4, 9, 8] example_eos = Some (Inr (([4, 9], True), s')) \<and>
     output_token_ids (obj s' 0) = [4, 9] \<and> status (obj s' 0) = FINISHED_STOPPED"
    using generated_tokens_until_stop[OF r(4,1,2), of "[4, 9, 8]"]
    by (simp add: example_sched_more example_eos_stop[OF r(3,5-7)] r(3) numeral_2_eq_2 Let_def) blast
  note a = example_async_facts[where d = False]
  show "\<exists>s'. update_request_with_output async_sched 0 [4, 9, 8] (example_async False) = Some (Inr (([4, 9], True), s')) \<and>
     output_token_ids (obj s' 0) = [4, 9] \<and> status (obj s' 0) = FINISHED_STOPPED \<and> num_output_placeholders (obj s' 0) = 1"
    using generated_tokens_until_stop[OF example_async_ready(1)[of False] a(5,6), of "[4, 9, 8]"] example_async_ready(2)[of False]
    by (simp add: a(1,7,8) async_sched_facts example_eos_stop[OF a(1-4)] numeral_3_eq_3 numeral_2_eq_2 Let_def) blast
  note a = example_async_facts[where d = True]
  show "\<exists>s'. update_request_with_output async_sched 0 [4, 9, 8] (example_async True) = Some (Inr (([], False), s')) \<and>
     output_token_ids (obj s' 0) = [] \<and> \<not> discard_latest_async_tokens (obj s' 0)"
    using generated_tokens_until_stop[OF example_async_ready(1)[of True] a(5,6), of "[4, 9, 8]"]
    by (simp add: a(1,7,8) async_sched_facts Let_def) blast
qed

section \<open>A request that can neither stop nor continue\<close>

definition stuck :: "sched_config \<Rightarrow> nat \<Rightarrow> 'c Scheduler \<Rightarrow> bool" where
  "stuck cfg x s \<longleftrightarrow> running s = [x] \<and> \<not> rq_bool (waiting s) \<and> mm_features (obj s x) = [] \<and>
     num_computed_tokens (obj s x) = sc_max_model_len cfg - 1 \<and> num_tokens (obj s x) \<ge> sc_max_model_len cfg \<and> num_output_placeholders (obj s x) = 0"

lemma stuck_run_iter:
  assumes "stuck cfg x s" "0 < max_num_scheduled_tokens cfg" "\<not> need_mamba_block_aligned_split cfg"
  shows "run_iter cfg now (s, new_pass cfg) = Inr (False, s, (new_pass cfg)\<lparr>req_index := 1\<rparr>)"
proof -
  have s: "running s = [x]" "mm_features (obj s x) = []" "num_computed_tokens (obj s x) = sc_max_model_len cfg - 1"
    "num_tokens (obj s x) \<ge> sc_max_model_len cfg" "num_output_placeholders (obj s x) = 0" using assms(1) by (simp_all add: stuck_def)
  have "running_new_tokens cfg (max_num_scheduled_tokens cfg) (obj s x) = 0"
    using s assms(2) by (auto simp: running_new_tokens_def cap_long_prefill_def num_tokens_with_spec_def num_tokens_def)
  then show ?thesis using s(1,2) assms(3)
    by (simp add: run_iter_def py_index_def new_pass_def plan_encoder_def has_encoder_inputs_def num_encoder_inputs_def split_mamba_def)
qed

lemma stuck_schedule:
  fixes s :: "'c Scheduler"
  assumes st: "stuck cfg x s" and cfg: "0 < max_num_scheduled_tokens cfg" "0 < max_num_running_reqs cfg" "\<not> need_mamba_block_aligned_split cfg"
    "case max_loras cfg of None \<Rightarrow> True | Some m \<Rightarrow> 0 \<le> m"
  shows "\<exists>out s'. schedule cfg ops ready now s = Some (Inr (out, s')) \<and> out_num_scheduled_tokens out = [] \<and> stuck cfg x s' \<and> obj s' x = obj s x"
proof -
  let ?p = "(new_pass cfg)\<lparr>req_index := 1\<rparr>"
  have s: "running s = [x]" "\<not> rq_bool (waiting s)" using st by (simp_all add: stuck_def)
  have loop: "running_loop cfg now (s, new_pass cfg) = Inr (s, ?p)"
    using stuck_run_iter[OF st cfg(1,3), of now] s(1) cfg(1)
    by (subst running_loop.simps, simp add: new_pass_def) (subst running_loop.simps, simp)
  have loras: "running_loras cfg s ?p = Inr {}" using cfg(4) by (auto simp: running_loras_def new_pass_def split: option.splits)
  have wait: "waiting_loop cfg ops ready now (s, ?p\<lparr>scheduled_loras := {}\<rparr>) = Some (Inr (s, ?p\<lparr>scheduled_loras := {}\<rparr>))"
    using s(2) by (subst waiting_loop.simps) simp
  have empty: "\<not> rq_bool (create_request_queue pol)" for pol by (cases pol) (simp_all add: rq_bool_def)
  have passes: "schedule_passes cfg ops ready now s = Some (Inr (s, ?p\<lparr>scheduled_loras := {}\<rparr>))"
  proof -
    have "preempted_reqs ?p = []" "\<not> rq_bool (skipped_waiting_requests ?p)" using empty[of "policy cfg"] by (simp_all add: new_pass_def)
    then show ?thesis using loop loras wait by (simp add: schedule_passes_def)
  qed
  have ok: "constraints_ok cfg s (?p\<lparr>scheduled_loras := {}\<rparr>)" using s(1) cfg(1,2) by (simp add: constraints_ok_def new_pass_def dict_values_def)
  obtain ns k where k: "kvm_num_common_prefix_blocks (kv_cache_manager s) (request_id (obj s x)) = Inr (ns, k)" using common_prefix_returns by blast
  obtain fr m where fr: "em_get_freed_mm_hashes (encoder_cache_manager s) = (fr, m)" by fastforce
  obtain out s1 where b: "build_output cfg s (?p\<lparr>scheduled_loras := {}\<rparr>) = Inr (out, s1)" "out_num_scheduled_tokens out = []"
    "s1 = s\<lparr>kv_cache_manager := k, prev_step_scheduled_req_ids := {}, encoder_cache_manager := m\<rparr>"
    using s(1) k fr by (simp add: build_output_def make_cached_request_data_def new_pass_def dict_keys_def)
  let ?s2 = "s1\<lparr>connector := map_option (\<lambda>c. build_connector_meta ops c out) (connector s1)\<rparr>"
  obtain out' where u: "update_after_schedule cfg out ?s2 = Inr (out', ?s2\<lparr>finished_req_ids := {}\<rparr>)" "out_num_scheduled_tokens out' = []"
    using b(2) by (cases "sc_async cfg") (simp_all add: update_after_schedule_def base_update_after_schedule_def dict_keys_def)
  have "schedule cfg ops ready now s = Some (Inr (out', ?s2\<lparr>finished_req_ids := {}\<rparr>))" using passes ok b(1) u(1) by (simp add: schedule_def)
  moreover have "stuck cfg x (?s2\<lparr>finished_req_ids := {}\<rparr>)" "obj (?s2\<lparr>finished_req_ids := {}\<rparr>) x = obj s x" using st b(3) by (simp_all add: stuck_def)
  ultimately show ?thesis using u(2) by blast
qed

lemma stuck_update:
  assumes "stuck cfg x s" "out_num_scheduled_tokens out = []" "kv_connector_output mro = None"
  shows "update_from_output cfg ops later out mro s = Some (Inr (res, s')) \<Longrightarrow> stuck cfg x s' \<and> obj s' x = obj s x"
    "\<not> sc_log_stats cfg \<Longrightarrow> \<exists>res s'. update_from_output cfg ops later out mro s = Some (Inr (res, s'))"
  using assms
  by (auto simp: update_from_output_def fail_loads_def make_stats_def make_prefix_cache_stats_def make_connector_prefix_cache_stats_def stuck_def
      rbind_Inr_iff Let_def split: prod.splits option.splits if_splits)

text \<open>Steps of the engine one after the other, without a transfer reported by a connector.\<close>

inductive engine_steps :: "sched_config \<Rightarrow> 'c kv_connector_ops \<Rightarrow> 'c Scheduler \<Rightarrow> SchedulerOutput list \<Rightarrow> 'c Scheduler \<Rightarrow> bool" for cfg ops where
  none: "engine_steps cfg ops s [] s"
| step: "engine_steps cfg ops s outs s1 \<Longrightarrow> schedule cfg ops ready now s1 = Some (Inr (out, s2)) \<Longrightarrow> kv_connector_output mro = None \<Longrightarrow>
    update_from_output cfg ops later out mro s2 = Some (Inr (res, s3)) \<Longrightarrow> engine_steps cfg ops s (outs @ [out]) s3"

lemma stuck_steps:
  assumes "engine_steps cfg ops s outs s'" "stuck cfg x s" "0 < max_num_scheduled_tokens cfg" "0 < max_num_running_reqs cfg"
    "\<not> need_mamba_block_aligned_split cfg" "case max_loras cfg of None \<Rightarrow> True | Some m \<Rightarrow> 0 \<le> m"
  shows "stuck cfg x s' \<and> obj s' x = obj s x \<and> (\<forall>out \<in> set outs. out_num_scheduled_tokens out = [])"
  using assms(1,2)
proof (induction rule: engine_steps.induct)
  case none
  then show ?case by simp
next
  case (step s outs s1 ready now out s2 mro later res s3)
  then have s1: "stuck cfg x s1" "obj s1 x = obj s x" by simp_all
  have s2: "out_num_scheduled_tokens out = []" "stuck cfg x s2" "obj s2 x = obj s1 x"
    using stuck_schedule[OF s1(1) assms(3-6), of ops ready now] step.hyps(2) by auto
  show ?case using stuck_update(1)[OF s2(2,1) step.hyps(3,4)] s1(2) s2(1,3) step.IH[OF step.prems] by simp
qed

text \<open>
  C38 (check_stop, schedule, update_from_output): min_tokens is tested before the model length, so a request that has reached the
  maximal model length with
  fewer output tokens than min_tokens does not stop; and as there is no room for another token, the loop over the running requests skips
  it: when it is the only running request and nothing waits, every number of engine steps leaves it running, unchanged, with
  nothing scheduled in any of them. (Only another call, such as an abort or a reset that preempts it, ends this.)
\<close>

theorem min_tokens_beyond_model_length:
  assumes "stuck cfg x s" "pooling_params (obj s x) = None" "sampling_params (obj s x) = Some sp" "num_output_tokens (obj s x) < sp_min_tokens sp"
    "0 < max_num_scheduled_tokens cfg" "0 < max_num_running_reqs cfg" "\<not> need_mamba_block_aligned_split cfg"
    "case max_loras cfg of None \<Rightarrow> True | Some m \<Rightarrow> 0 \<le> m" "engine_steps cfg ops s outs s'"
  shows "check_stop (obj s' x) (sc_max_model_len cfg) = Inr (False, obj s' x) \<and> (\<forall>out \<in> set outs. out_num_scheduled_tokens out = []) \<and>
    running s' = [x] \<and> obj s' x = obj s x \<and>
    (\<exists>out s''. schedule cfg ops ready now s' = Some (Inr (out, s'')) \<and> out_num_scheduled_tokens out = [])"
proof -
  have s': "stuck cfg x s'" "obj s' x = obj s x" "\<forall>out \<in> set outs. out_num_scheduled_tokens out = []"
    using stuck_steps[OF assms(9,1,5-8)] by simp_all
  show ?thesis using stuck_schedule[OF s'(1) assms(5-8), of ops ready now] assms(2-4) s' by (auto simp: check_stop_def stuck_def)
qed

definition example_stuck :: "unit Scheduler" where
  "example_stuck = example_waiting\<lparr>running := [0], waiting := FCFSRequestQueue [],
     sch_objs := (\<lambda>_. (example_request ''r'' (replicate 100 5) [])\<lparr>status := RUNNING, num_computed_tokens := 99, output_token_ids := replicate 97 5,
       sampling_params := Some (blank_params\<lparr>sp_min_tokens := 200\<rparr>)\<rparr>)\<rparr>"

lemma example_stuck_stuck: "stuck example_sched 0 example_stuck"
proof -
  have "num_output_placeholders (example_request ''r'' (replicate 100 5) []) = 0"
    by (simp add: example_request_def Request_init_def engine_request_def request_kind_def blank_params_def
      structured_output_from_sampling_params_def length_from_prompt_token_ids_or_embeds_def rehash_def)
  then show ?thesis by (simp add: stuck_def example_stuck_def rq_bool_def example_sched_more num_tokens_def)
qed

theorem min_tokens_beyond_model_length_witness:
  "num_tokens (obj example_stuck 0) = 100 \<and> sc_max_model_len example_sched = 100 \<and>
   (\<exists>outs s'. length outs = 1 \<and> engine_steps example_sched example_ops example_stuck outs s' \<and> (\<forall>out \<in> set outs. out_num_scheduled_tokens out = []) \<and>
     check_stop (obj s' 0) 100 = Inr (False, obj s' 0) \<and> running s' = [0] \<and> obj s' 0 = obj example_stuck 0)"
proof -
  let ?mro = "\<lparr>req_id_to_index = [], sampled_token_ids = [], prompt_logprobs_dict = [], pooler_output = [], kv_connector_output = None, mro_num_nans_in_logits = []\<rparr>"
  note cfg = example_sched_facts example_sched_more
  obtain out s1 where s1: "schedule example_sched example_ops (\<lambda>_. True) 0 example_stuck = Some (Inr (out, s1))" "out_num_scheduled_tokens out = []"
    "stuck example_sched 0 s1"
    using stuck_schedule[OF example_stuck_stuck, of example_ops "\<lambda>_. True" 0] by (auto simp: cfg)
  have mro: "kv_connector_output ?mro = None" by simp
  obtain res s2 where s2: "update_from_output example_sched example_ops 0 out ?mro s1 = Some (Inr (res, s2))"
    using stuck_update(2)[OF s1(3,2) mro, of example_ops 0] by (auto simp: cfg)
  have run: "engine_steps example_sched example_ops example_stuck ([] @ [out]) s2"
    by (rule engine_steps.step[OF engine_steps.none s1(1) mro s2])
  have params: "pooling_params (obj example_stuck 0) = None" "sampling_params (obj example_stuck 0) = Some (blank_params\<lparr>sp_min_tokens := 200\<rparr>)"
    "num_output_tokens (obj example_stuck 0) < 200" "num_tokens (obj example_stuck 0) = 100"
    by (simp_all add: example_stuck_def num_output_tokens_def num_tokens_def)
  from min_tokens_beyond_model_length[OF example_stuck_stuck params(1,2) _ _ _ _ _ run, where ready = "\<lambda>_. True" and now = 0] run params(3,4)
  show ?thesis by (intro conjI exI[of _ "[out]"] exI[of _ s2]) (auto simp: cfg)
qed

end
