(* ===== verification/Sched_Tracking.thy ===== *)
theory Sched_Tracking
  imports Sched_Tokens
begin

text \<open>
  Token accounting over a step: what \<^verbatim>\<open>schedule\<close> grants a request never goes beyond its tokens and its scheduled draft tokens,
  and a request with draft tokens is scheduled up to its last one.
\<close>

section \<open>Requests within the model length\<close>

text \<open>No placeholders, room for one more token, and min_tokens fits into the model length.\<close>

definition fits :: "sched_config \<Rightarrow> Request \<Rightarrow> bool" where
  "fits cfg r \<longleftrightarrow> num_output_placeholders r = 0 \<and> num_tokens r \<le> sc_max_model_len cfg - 1 \<and> \<not> resumable r \<and>
     (\<forall>sp. sampling_params r = Some sp \<longrightarrow> num_tokens r - num_output_tokens r + sp_min_tokens sp \<le> sc_max_model_len cfg)"

lemma same_tokens_fits: "same_tokens a b \<Longrightarrow> fits cfg b = fits cfg a"
  by (simp add: same_tokens_def fits_def num_tokens_def num_output_tokens_def)

definition num_drafts_of :: "(string, int list) dict \<Rightarrow> string \<Rightarrow> int" where
  "num_drafts_of d rid = (case map_of d rid of None \<Rightarrow> 0 | Some ts \<Rightarrow> int (length ts))"

text \<open>What a running request has, or will have after the step, computed: its tokens, and its drafts to the last one.\<close>

definition reaches :: "int \<Rightarrow> int \<Rightarrow> Request \<Rightarrow> bool" where
  "reaches k n r \<longleftrightarrow> num_computed_tokens r + n \<le> num_tokens r + k \<and> (0 < k \<longrightarrow> num_computed_tokens r + n = num_tokens r + k)"

definition granted :: "sched_pass \<Rightarrow> Request \<Rightarrow> bool" where
  "granted p r \<longleftrightarrow> reaches (num_drafts_of (scheduled_spec_decode_tokens p) (request_id r))
     (case map_of (num_scheduled_tokens p) (request_id r) of None \<Rightarrow> 0 | Some n \<Rightarrow> n) r"

definition tracked :: "sched_config \<Rightarrow> nat multiset \<Rightarrow> 'c Scheduler \<Rightarrow> sched_pass \<Rightarrow> bool" where
  "tracked cfg e s p \<longleftrightarrow> (\<forall>y \<in># queued s + e. fits cfg (obj s y)) \<and> (\<forall>y \<in> set (running s). granted p (obj s y)) \<and>
     fst ` set (scheduled_spec_decode_tokens p) \<subseteq> fst ` set (num_scheduled_tokens p)"

lemma tracked_frame [simp]:
  "tracked cfg e (s\<lparr>kv_cache_manager := k\<rparr>) p = tracked cfg e s p" "tracked cfg e (s\<lparr>encoder_cache_manager := m\<rparr>) p = tracked cfg e s p"
  by (simp_all add: tracked_def queued_def)

lemma keeps_fits:
  assumes "keeps e s e' s'" "\<And>y. same_tokens (obj s y) (obj s' y)" "\<forall>y \<in># queued s + e. fits cfg (obj s y)"
  shows "\<forall>y \<in># queued s' + e'. fits cfg (obj s' y)"
  using assms(1,3) same_tokens_fits[OF assms(2)] by (simp add: keeps_def)

lemma keys_delete: "fst ` set (AList.delete k d) = fst ` set d - {k}"
proof -
  have "set (map fst (AList.delete k d)) = set (map fst d) - {k}" by (simp only: AList.delete_keys set_removeAll)
  then show ?thesis by simp
qed

section \<open>Running requests\<close>

lemma preempt_tracked:
  assumes p: "preempt_one cfg now (s, p) = Inr (v, s', p')" and ok: "sched_ok s" and t: "tracked cfg e s p"
  shows "tracked cfg e s' p'" "sched_ok s'"
proof -
  note d = sched_ok_running[OF ok] and k = preempt_one_keeps[OF p]
  show "sched_ok s'" using k ok keeps_sched_ok by blast
  have run: "running s' = remove1 v (running s)" "\<And>y. y \<noteq> v \<Longrightarrow> obj s' y = obj s y" "same_tokens (obj s v) (obj s' v)" "v \<in> set (running s)"
    "\<And>y. y \<in> set (running s) \<Longrightarrow> y \<noteq> v \<Longrightarrow> granted p' (obj s y) = granted p (obj s y)"
    "fst ` set (scheduled_spec_decode_tokens p') \<subseteq> fst ` set (num_scheduled_tokens p')"
  proof -
    have "running s' = remove1 v (running s) \<and> (\<forall>y. y \<noteq> v \<longrightarrow> obj s' y = obj s y) \<and> same_tokens (obj s v) (obj s' v) \<and> v \<in> set (running s) \<and>
        (\<forall>y \<in> set (running s). y \<noteq> v \<longrightarrow> granted p' (obj s y) = granted p (obj s y)) \<and>
        fst ` set (scheduled_spec_decode_tokens p') \<subseteq> fst ` set (num_scheduled_tokens p')"
      using p d(1)
    proof (cases rule: preempt_one_spec)
      case 1
      then show ?thesis using t by (simp add: granted_def tracked_def)
    next
      case (2 n)
      have "request_id (obj s y) \<noteq> request_id (obj s v)" if "y \<in> set (running s)" "y \<noteq> v" for y
        using that d(2) 2(13) by (auto simp: inj_on_def)
      then have "\<forall>y \<in> set (running s). y \<noteq> v \<longrightarrow> granted p' (obj s y) = granted p (obj s y)"
        using 2(9,15) by (simp add: granted_def num_drafts_of_def AList.delete_conv')
      moreover have "fst ` set (scheduled_spec_decode_tokens p') \<subseteq> fst ` set (num_scheduled_tokens p')"
        using t 2(9,15) by (auto simp: tracked_def keys_delete)
      ultimately show ?thesis using 2 by blast
    qed
    then show "running s' = remove1 v (running s)" "\<And>y. y \<noteq> v \<Longrightarrow> obj s' y = obj s y" "same_tokens (obj s v) (obj s' v)" "v \<in> set (running s)"
      "\<And>y. y \<in> set (running s) \<Longrightarrow> y \<noteq> v \<Longrightarrow> granted p' (obj s y) = granted p (obj s y)"
      "fst ` set (scheduled_spec_decode_tokens p') \<subseteq> fst ` set (num_scheduled_tokens p')" by blast+
  qed
  have tok: "same_tokens (obj s y) (obj s' y)" for y using run(2,3) by (cases "y = v") (simp_all add: same_tokens_def)
  have "\<forall>y \<in># queued s' + e. fits cfg (obj s' y)" by (rule keeps_fits[OF k tok]) (use t in \<open>simp add: tracked_def\<close>)
  moreover have "granted p' (obj s' y)" if "y \<in> set (running s')" for y
  proof -
    have y: "y \<in> set (running s)" "y \<noteq> v" using that run(1) d(1) by auto
    then show ?thesis using run(2,5) t by (simp add: tracked_def)
  qed
  ultimately show "tracked cfg e s' p'" using run(6) by (simp add: tracked_def)
qed

lemma alloc_loop_tracked:
  assumes "alloc_loop cfg now x n s p = Inr (b, s', p')" "sched_ok s" "tracked cfg e s p"
  shows "tracked cfg e s' p' \<and> sched_ok s' \<and> (b \<noteq> None \<longrightarrow> obj s' x = obj s x)"
  using assms
proof (induction rule: alloc_loop_induct)
  case (fits s p bs k)
  then show ?case using same_queues_sched_ok[of s "s\<lparr>kv_cache_manager := k\<rparr>"] by (simp add: same_queues_def)
next
  case (self s p k s2 p2)
  have "sched_ok (s\<lparr>kv_cache_manager := k\<rparr>)" using self(3) same_queues_sched_ok[of s "s\<lparr>kv_cache_manager := k\<rparr>"] by (simp add: same_queues_def)
  then show ?case using preempt_tracked[OF self(2)] self(4) by simp
next
  case (preempt s p k v s2 p2 b s' p')
  have ok: "sched_ok (s\<lparr>kv_cache_manager := k\<rparr>)" using preempt(5) same_queues_sched_ok[of s "s\<lparr>kv_cache_manager := k\<rparr>"] by (simp add: same_queues_def)
  have "obj s2 x = obj s x" using preempt(2) sched_ok_running(1)[OF ok] by (cases rule: preempt_one_spec) (use preempt(3) in auto)
  then show ?case using preempt_tracked[OF preempt(2) ok] preempt(4,6) by simp
qed

lemma schedule_running_tracked:
  assumes a: "schedule_running cfg x n blocks ids external budget (s, p) = Inr (s', p')" and t: "tracked cfg e s p" and ok: "sched_ok s"
    and x: "x \<in> set (running s)" "request_id (obj s x) \<notin> fst ` set (num_scheduled_tokens p)"
    and n: "n \<le> num_tokens_with_spec (obj s x) - num_computed_tokens (obj s x)"
  shows "tracked cfg e s' p'"
proof -
  note f = schedule_running_frame[OF a] and inj = sched_ok_running(2)[OF ok]
  let ?r = "obj s x" let ?rid = "request_id ?r"
  obtain u where u: "sch_objs s' = (sch_objs s)(x := ?r\<lparr>spec_token_ids := u\<rparr>)" using f(5) by blast
  have p': "num_scheduled_tokens p' = AList.update ?rid n (num_scheduled_tokens p)" using f(6) by (auto simp: add_scheduled_def)
  have plc: "num_output_placeholders ?r = 0" using t x(1) by (simp add: tracked_def queued_def fits_def)
  define k where "k = n + num_computed_tokens ?r - num_tokens ?r"
  have k: "k \<le> int (length (spec_token_ids ?r))" using n by (simp add: k_def num_tokens_with_spec_def num_tokens_def)
  have d: "scheduled_spec_decode_tokens p' = (if spec_token_ids ?r \<noteq> [] \<and> 0 < k
      then AList.update ?rid (py_take k (spec_token_ids ?r)) (scheduled_spec_decode_tokens p) else scheduled_spec_decode_tokens p)"
    using f(7) plc by (simp add: Let_def k_def)
  have none: "map_of (scheduled_spec_decode_tokens p) ?rid = None" using t x(2) by (auto simp: tracked_def map_of_eq_None_iff)
  have kx: "num_drafts_of (scheduled_spec_decode_tokens p') ?rid = max 0 k"
    using k none by (auto simp: d num_drafts_of_def AList.update_conv' py_take_def slice_pos_def)
  have gx: "granted p' (obj s' x)"
    using kx by (auto simp: granted_def u p' AList.update_conv' reaches_def num_tokens_def k_def)
  have gy: "granted p' (obj s' y)" if y: "y \<in> set (running s)" "y \<noteq> x" for y
  proof -
    have "request_id (obj s y) \<noteq> ?rid" using y x(1) inj by (auto simp: inj_on_def)
    then have "num_drafts_of (scheduled_spec_decode_tokens p') (request_id (obj s y)) = num_drafts_of (scheduled_spec_decode_tokens p) (request_id (obj s y))"
      "map_of (num_scheduled_tokens p') (request_id (obj s y)) = map_of (num_scheduled_tokens p) (request_id (obj s y))"
      by (simp_all add: d p' num_drafts_of_def AList.update_conv')
    then show ?thesis using t y u by (simp add: tracked_def granted_def)
  qed
  have tok: "same_tokens (obj s y) (obj s' y)" for y using u by (simp add: same_tokens_def)
  have q: "queued s' = queued s" using f(1,2) by (simp add: queued_def)
  have "fst ` set (scheduled_spec_decode_tokens p') \<subseteq> fst ` set (num_scheduled_tokens p')"
    using t unfolding p' d tracked_def by (auto simp: AList.dom_update)
  moreover have "\<forall>y \<in> set (running s'). granted p' (obj s' y)" using gx gy f(1) by metis
  moreover have "\<forall>y \<in># queued s' + e. fits cfg (obj s' y)" using t q same_tokens_fits[OF tok] by (simp add: tracked_def)
  ultimately show ?thesis unfolding tracked_def by blast
qed

lemma running_new_tokens_within: "running_new_tokens cfg budget r \<le> num_tokens_with_spec r + num_output_placeholders r - num_computed_tokens r"
  by (auto simp: running_new_tokens_def cap_long_prefill_def)

lemma run_iter_tracked:
  assumes a: "run_iter cfg now (s, p) = Inr (brk, s', p')" and i: "run_inv cfg s p" and g: "req_index p < int (length (running s))"
    and mamba: "need_mamba_block_aligned_split cfg \<longrightarrow> 0 < cache_block_size cfg" and t: "tracked cfg e s p"
  shows "tracked cfg e s' p'"
  using a
proof (cases rule: run_iter_cases)
  case (skip m)
  then show ?thesis using t by (simp add: tracked_def queued_def granted_def)
next
  case (blocked x n m)
  have "sched_ok (s\<lparr>encoder_cache_manager := m\<rparr>)" using i same_queues_sched_ok[of s "s\<lparr>encoder_cache_manager := m\<rparr>"] by (simp add: run_inv_def same_queues_def)
  then show ?thesis using alloc_loop_tracked[OF blocked(4)] t by simp
next
  case (scheduled x n1 n m ids external budget blocks s2 p2)
  have ok: "sched_ok (s\<lparr>encoder_cache_manager := m\<rparr>)" using i same_queues_sched_ok[of s "s\<lparr>encoder_cache_manager := m\<rparr>"] by (simp add: run_inv_def same_queues_def)
  have al: "tracked cfg e s2 p2" "sched_ok s2" "obj s2 x = obj s x" using alloc_loop_tracked[OF scheduled(6) ok] t by auto
  have st: "alloc_inv cfg x (s\<lparr>encoder_cache_manager := m\<rparr>) p" "on_track cfg (obj s x)" using run_iter_start[OF i g scheduled(2)] by auto
  have ai: "alloc_inv cfg x s2 p2" using alloc_loop_inv[OF scheduled(6) st(1)] by simp
  have b: "0 \<le> token_budget p" using i by (simp add: run_inv_def pass_ok_def)
  have n1: "0 \<le> n1" "n1 \<le> running_new_tokens cfg (token_budget p) (obj s x)"
    using plan_encoder_tokens[OF scheduled(4)] running_new_tokens_bounds[OF st(2) b] by auto
  have x: "x \<in> set (running s)" "x \<in> set (running s2)" using st(1) ai by (auto simp: alloc_inv_def dest: in_set_takeD)
  have "num_output_placeholders (obj s x) = 0" using t x(1) by (simp add: tracked_def queued_def fits_def)
  then have n: "n \<le> num_tokens_with_spec (obj s2 x) - num_computed_tokens (obj s2 x)"
    using split_mamba_tokens[OF scheduled(5) n1(1)] mamba n1(2) running_new_tokens_within[of cfg "token_budget p" "obj s x"] al(3) by force
  have "request_id (obj s2 x) \<notin> fst ` set (num_scheduled_tokens p2)"
  proof -
    have "pass_ok cfg s2 p2" "scheduled_reqs p2 = scheduled_running_reqs p2" "x \<notin> set (scheduled_running_reqs p2)"
      using ai by (simp_all add: alloc_inv_def run_inv_def scheduled_reqs_def)
    then show ?thesis using x(2) sched_ok_running(2)[OF al(2)] by (auto simp: pass_ok_def inj_on_def)
  qed
  then show ?thesis using schedule_running_tracked[OF scheduled(7) al(1,2) x(2)] n by blast
qed

section \<open>Waiting requests\<close>

lemma waiting_chunk_within:
  assumes "waiting_chunk cfg x ext False nc s p = Inr (Some (ids, n, budget, external), s')"
  shows "0 \<le> n" "n \<le> num_tokens (obj s x) - nc"
proof -
  define n2 where "n2 = min (cap_long_prefill cfg (num_tokens (obj s x) - nc)) (token_budget p)"
  obtain n3 where a: "0 < n2" "plan_encoder cfg (obj s x) nc n2 (encoder_compute_budget p) s = Inr ((ids, n3, budget, external), s')" "n = n3"
    using assms by (auto simp: waiting_chunk_def Let_def rbind_Inr_iff n2_def split: if_splits)
  have "0 \<le> n3" "n3 \<le> n2" using plan_encoder_tokens[OF a(2)] a(1) by auto
  moreover have "n2 \<le> num_tokens (obj s x) - nc" by (auto simp: n2_def cap_long_prefill_def)
  ultimately show "0 \<le> n" "n \<le> num_tokens (obj s x) - nc" using a(3) by auto
qed

lemma admit_tracked:
  assumes a: "admit cfg now x n nc ids external budget (s, p) = Inr (s', p')" and g: "\<forall>y \<in> set (running s). granted p (obj s y)"
    and keys: "fst ` set (scheduled_spec_decode_tokens p) \<subseteq> fst ` set (num_scheduled_tokens p)" and po: "pass_ok cfg s p"
    and x: "x \<notin> set (running s)" "inj_on (\<lambda>x. request_id (obj s x)) (insert x (set (running s)))"
    and n: "nc + n \<le> num_tokens (obj s x)"
  shows "\<forall>y \<in> set (running s'). granted p' (obj s' y)" "fst ` set (scheduled_spec_decode_tokens p') \<subseteq> fst ` set (num_scheduled_tokens p')"
    "\<And>y. same_tokens (obj s y) (obj s' y)"
proof -
  note f = admit_frame[OF a]
  let ?rid = "request_id (obj s x)"
  have p': "num_scheduled_tokens p' = AList.update ?rid n (num_scheduled_tokens p)" "scheduled_spec_decode_tokens p' = scheduled_spec_decode_tokens p"
    using f(6) by (auto simp: add_scheduled_def add_by_status_def split: if_splits)
  have new: "?rid \<notin> fst ` set (num_scheduled_tokens p)"
    using po x by (auto simp: pass_ok_def inj_on_def)
  then have "map_of (scheduled_spec_decode_tokens p) ?rid = None" using keys by (auto simp: map_of_eq_None_iff)
  then have "num_drafts_of (scheduled_spec_decode_tokens p) ?rid = 0" by (simp add: num_drafts_of_def)
  then have gx: "granted p' (obj s' x)" using n f(5) p'
    by (simp add: granted_def reaches_def AList.update_conv' num_tokens_def log_event_def record_event_def)
  have "granted p' (obj s' y)" if y: "y \<in> set (running s)" for y
  proof -
    have "y \<noteq> x" "request_id (obj s y) \<noteq> ?rid" using y x by (auto simp: inj_on_def)
    then show ?thesis using g y f(5) p' by (simp add: granted_def AList.update_conv')
  qed
  then show "\<forall>y \<in> set (running s'). granted p' (obj s' y)" using gx f(2) by auto
  show "fst ` set (scheduled_spec_decode_tokens p') \<subseteq> fst ` set (num_scheduled_tokens p')" using keys p' by (auto simp: AList.dom_update)
  show "same_tokens (obj s y) (obj s' y)" for y using f(5) by (simp add: same_tokens_def log_event_def record_event_def)
qed

lemma tracked_head:
  assumes "tracked cfg e s p" "head_change x s s'" "running s' = running s" "x \<notin> set (running s)" "queued s' = queued s"
  shows "tracked cfg e s' p"
proof -
  have "fits cfg (obj s' y) = fits cfg (obj s y)" for y
    using assms(2) same_tokens_fits by (cases "y = x") (simp_all add: head_change_def)
  moreover have "obj s' y = obj s y" if "y \<in> set (running s)" for y using that assms(2,4) unfolding head_change_def by metis
  ultimately show ?thesis using assms(1,3,5) by (simp add: tracked_def)
qed

lemma place_waiting_tracked:
  assumes a: "place_waiting cfg ops now x n ext la nc ids external budget (s, p) = Inr (s', p')" and peek: "rq_peek_request (waiting s) = Inr x"
    and i: "wait_inv cfg s p" and t: "tracked cfg (rq_bag (skipped_waiting_requests p)) s p" and n: "\<not> la \<Longrightarrow> nc + n \<le> num_tokens (obj s x)"
    and k: "keeps (rq_bag (skipped_waiting_requests p)) s (rq_bag (skipped_waiting_requests p')) s'"
  shows "tracked cfg (rq_bag (skipped_waiting_requests p')) s' p'"
proof -
  let ?s1 = "connector_after_alloc ops x ext s"
  have s1: "waiting ?s1 = waiting s" "running ?s1 = running s" "sch_objs ?s1 = sch_objs s" by (simp_all add: connector_after_alloc_def)
  obtain y q where q: "rq_pop_request (sch_objs s) (waiting s) = Inr (y, q)"
    "(if la then Inr (set_status WAITING_FOR_REMOTE_KVS y (?s1\<lparr>waiting := q\<rparr>),
        p\<lparr>skipped_waiting_requests := rq_prepend_request (sch_objs (?s1\<lparr>waiting := q\<rparr>)) (skipped_waiting_requests p) y\<rparr>)
      else admit cfg now y n nc ids external budget (?s1\<lparr>waiting := q\<rparr>, p)) = Inr (s', p')"
    using a s1 by (auto simp: place_waiting_def Let_def rbind_Inr_iff)
  have y: "y = x" using qb.pop_head[OF peek q(1)] .
  have t3: "\<forall>y \<in># queued s + rq_bag (skipped_waiting_requests p). fits cfg (obj s y)" "\<forall>y \<in> set (running s). granted p (obj s y)"
    "fst ` set (scheduled_spec_decode_tokens p) \<subseteq> fst ` set (num_scheduled_tokens p)" using t by (simp_all add: tracked_def)
  have xw: "x \<notin> set (running s)" "inj_on (\<lambda>x. request_id (obj s x)) (insert x (set (running s)))" using wait_inv_head[OF i peek] by auto
  have r: "(\<forall>y \<in> set (running s'). granted p' (obj s' y)) \<and> fst ` set (scheduled_spec_decode_tokens p') \<subseteq> fst ` set (num_scheduled_tokens p') \<and>
      (\<forall>y. same_tokens (obj s y) (obj s' y))"
  proof (cases la)
    case True
    then obtain w where s': "s' = set_status WAITING_FOR_REMOTE_KVS x (?s1\<lparr>waiting := q\<rparr>)" "p' = p\<lparr>skipped_waiting_requests := w\<rparr>"
      using q(2) y by auto
    then have "running s' = running s" "\<forall>z. same_tokens (obj s z) (obj s' z)" and o: "\<And>z. z \<noteq> x \<Longrightarrow> obj s' z = obj s z"
      using s1 by (auto simp: set_status_def upd_obj_def same_tokens_def)
    moreover have "obj s' z = obj s z" if "z \<in> set (running s)" for z by (rule o) (use that xw(1) in auto)
    moreover have "granted p' r = granted p r" for r using s'(2) by (simp add: granted_def)
    ultimately show ?thesis using t3(2,3) unfolding s'(2) by simp
  next
    case False
    then have ad: "admit cfg now x n nc ids external budget (?s1\<lparr>waiting := q\<rparr>, p) = Inr (s', p')" using q(2) y by simp
    have po: "pass_ok cfg (?s1\<lparr>waiting := q\<rparr>) p" using i s1 by (simp add: wait_inv_def pass_ok_def)
    show ?thesis using admit_tracked[OF ad _ t3(3) po] t3(2) xw n False s1 by simp
  qed
  then have tok: "\<And>y. same_tokens (obj s y) (obj s' y)" by blast
  show ?thesis using keeps_fits[OF k tok t3(1)] r by (simp add: tracked_def)
qed

lemma wait_iter_tracked:
  assumes a: "wait_iter cfg ops ready now (s, p) = Some (Inr (brk, s', p'))" and i: "wait_inv cfg s p"
    and t: "tracked cfg (rq_bag (skipped_waiting_requests p)) s p" and mamba: "need_mamba_block_aligned_split cfg \<longrightarrow> 0 < cache_block_size cfg"
  shows "tracked cfg (rq_bag (skipped_waiting_requests p')) s' p'"
  using a
proof (cases rule: wait_iter_cases)
  case full
  then show ?thesis using t by simp
next
  case (skip x s1)
  have t1: "tracked cfg (rq_bag (skipped_waiting_requests p)) s1 p"
    by (rule tracked_head[OF t skip(6)]) (use skip(4) wait_inv_head(1)[OF i skip(3)] in \<open>simp_all add: same_queues_def queued_def\<close>)
  obtain y q where q: "rq_pop_request (sch_objs s1) (waiting s1) = Inr (y, q)" "s' = s1\<lparr>waiting := q\<rparr>"
    "p' = p\<lparr>skipped_waiting_requests := rq_prepend_request (sch_objs s1) (skipped_waiting_requests p) x\<rparr>"
    using skip(5) by (auto simp: skip_waiting_def rbind_Inr_iff)
  have k: "keeps (rq_bag (skipped_waiting_requests p)) s1 (rq_bag (skipped_waiting_requests p')) s'"
    using skip_waiting_keeps[OF skip(5)] skip(3,4) by (simp add: same_queues_def)
  have "\<forall>y \<in># queued s' + rq_bag (skipped_waiting_requests p'). fits cfg (obj s' y)"
    by (rule keeps_fits[OF k]) (use t1 q(2) in \<open>simp_all add: tracked_def same_tokens_def\<close>)
  then show ?thesis using t1 q(2,3) by (simp add: tracked_def granted_def)
next
  case (break x)
  show ?thesis unfolding break(4)
    by (rule tracked_head[OF t break(5)]) (use break(3) wait_inv_head(1)[OF i break(2)] in \<open>simp_all add: same_queues_def queued_def\<close>)
next
  case (placed x blocks num_local ext la nc s2 m ids n1 n budget external nb k)
  let ?s = "s2\<lparr>encoder_cache_manager := m, kv_cache_manager := k\<rparr>"
  have sq: "same_queues s ?s" using placed(4) by (simp add: same_queues_def)
  have i2: "wait_inv cfg ?s p" by (rule wait_inv_same[OF i sq])
  have t2: "tracked cfg (rq_bag (skipped_waiting_requests p)) s2 p"
    by (rule tracked_head[OF t placed(10)]) (use placed(4) wait_inv_head(1)[OF i placed(3)] in \<open>simp_all add: same_queues_def queued_def\<close>)
  have peek: "rq_peek_request (waiting ?s) = Inr x" using placed(3,4) by (simp add: same_queues_def)
  have n: "nc + n \<le> num_tokens (obj ?s x)" if "\<not> la"
    using waiting_chunk_within[of cfg x ext nc s2 p ids n1 budget external] placed(5) that split_mamba_tokens[OF placed(6)] mamba by force
  show ?thesis
    by (rule place_waiting_tracked[OF placed(8) peek i2 _ n place_waiting_keeps[OF placed(8) peek]]) (use t2 in simp_all)
qed

section \<open>The whole step\<close>

lemma schedule_passes_tracked:
  assumes a: "schedule_passes cfg ops ready now s = Some (Inr (s', p'))" and st: "step_ok cfg s" and f: "\<forall>y \<in># queued s. fits cfg (obj s y)"
    and c: "\<forall>y \<in> set (running s). num_computed_tokens (obj s y) \<le> num_tokens (obj s y)"
  shows "tracked cfg {#} s' p'"
proof -
  obtain s1 p1 loras s3 where r: "running_loop cfg now (s, new_pass cfg) = Inr (s1, p1)"
    "(if preempted_reqs p1 = [] then waiting_loop cfg ops ready now (s1, p1\<lparr>scheduled_loras := loras\<rparr>)
      else Some (Inr (s1, p1\<lparr>scheduled_loras := loras\<rparr>))) = Some (Inr (s3, p'))"
    and s': "s' = s3\<lparr>waiting := (if rq_bool (skipped_waiting_requests p')
       then rq_prepend_requests (sch_objs s3) (waiting s3) (skipped_waiting_requests p') else waiting s3)\<rparr>"
    using a by (rule schedule_passes_cases)
  have mamba: "need_mamba_block_aligned_split cfg \<longrightarrow> 0 < cache_block_size cfg" using st by (simp add: step_ok_def)
  have "run_inv cfg s1 p1 \<and> tracked cfg {#} s1 p1"
    using r(1)
  proof (rule running_loop_inv)
    have "tracked cfg {#} s (new_pass cfg)" using f c by (simp add: tracked_def granted_def reaches_def num_drafts_of_def new_pass_def)
    moreover have "run_inv cfg s (new_pass cfg)" by (rule new_pass_inv) (use st in \<open>simp_all add: step_ok_def\<close>)
    ultimately show "run_inv cfg s (new_pass cfg) \<and> tracked cfg {#} s (new_pass cfg)" by blast
  qed (use run_iter_inv run_iter_tracked mamba in blast)
  moreover have "int (length (running s1)) \<le> max_num_running_reqs cfg"
    using running_loop_run_inv[OF r(1)] st by (simp add: step_ok_def)
  moreover have "rq_bag (skipped_waiting_requests p1) = {#}"
    using running_loop_admissions[OF r(1)] by (simp add: same_admissions_def new_pass_def)
  ultimately have w: "wait_inv cfg s1 (p1\<lparr>scheduled_loras := loras\<rparr>) \<and>
      tracked cfg (rq_bag (skipped_waiting_requests (p1\<lparr>scheduled_loras := loras\<rparr>))) s1 (p1\<lparr>scheduled_loras := loras\<rparr>)"
    by (simp add: wait_inv_def run_inv_def sched_ok_def requests_ok_iff tracked_def granted_def)
  have "wait_inv cfg s3 p' \<and> tracked cfg (rq_bag (skipped_waiting_requests p')) s3 p'"
  proof (cases "preempted_reqs p1 = []")
    case True
    then have "waiting_loop cfg ops ready now (s1, p1\<lparr>scheduled_loras := loras\<rparr>) = Some (Inr (s3, p'))" using r(2) by simp
    then show ?thesis by (rule waiting_loop_inv) (use w wait_iter_inv wait_iter_tracked mamba in blast)+
  qed (use r(2) w in simp)
  then have t3: "tracked cfg (rq_bag (skipped_waiting_requests p')) s3 p'" by blast
  have "keeps (rq_bag (skipped_waiting_requests p')) s3 {#} s'" unfolding s' by (rule put_back_keeps)
  then have "\<forall>y \<in># queued s' + {#}. fits cfg (obj s' y)"
    by (rule keeps_fits) (use t3 s' in \<open>simp_all add: same_tokens_def tracked_def\<close>)
  then show ?thesis using t3 s' by (simp add: tracked_def)
qed

lemma advance_tokens:
  assumes "mfold (advance_one cfg) d s = Inr s'" "distinct (map fst d)" "entries_ok s"
  shows "\<forall>y. same_tokens (obj s y) (obj s' y) \<and> request_id (obj s' y) = request_id (obj s y) \<and> (listed s y \<longrightarrow>
    num_computed_tokens (obj s' y) = num_computed_tokens (obj s y) + (case map_of d (request_id (obj s y)) of None \<Rightarrow> 0 | Some n \<Rightarrow> n))"
  using assms
proof (induction d arbitrary: s)
  case (Cons a d)
  obtain rid n where a: "a = (rid, n)" by fastforce
  obtain s1 where s1: "advance_one cfg (rid, n) s = Inr s1" "mfold (advance_one cfg) d s1 = Inr s'" using Cons.prems(1) a by (auto split: sum.splits)
  obtain x m where x: "map_of (requests s) rid = Some x"
    "s1 = (upd_obj x (\<lambda>r. r\<lparr>num_computed_tokens := num_computed_tokens r + n\<rparr>) s)\<lparr>encoder_cache_manager := m\<rparr>"
    using s1(1) by (cases "map_of (requests s) rid")
      (auto simp: advance_one_def dict_item_def Let_def rbind_Inr_iff upd_obj_def split: if_splits intro: that[of _ "encoder_cache_manager s"])
  have o: "obj s1 y = (if y = x then (obj s x)\<lparr>num_computed_tokens := num_computed_tokens (obj s x) + n\<rparr> else obj s y)" for y
    using x(2) by (simp add: upd_obj_def)
  have rs: "requests s1 = requests s" using x(2) by (simp add: upd_obj_def)
  have e: "entries_ok s1" using Cons.prems(3) o rs by (simp add: entries_ok_def)
  have rid: "request_id (obj s x) = rid" "listed s x" using Cons.prems(3) x(1) by (auto simp: entries_ok_def listed_def)
  have IH: "\<forall>y. same_tokens (obj s1 y) (obj s' y) \<and> request_id (obj s' y) = request_id (obj s1 y) \<and> (listed s1 y \<longrightarrow>
    num_computed_tokens (obj s' y) = num_computed_tokens (obj s1 y) + (case map_of d (request_id (obj s1 y)) of None \<Rightarrow> 0 | Some n \<Rightarrow> n))"
    using Cons.IH[OF s1(2) _ e] Cons.prems(2) by simp
  have "map_of d rid = None" using Cons.prems(2) a by (simp add: map_of_eq_None_iff)
  moreover have "request_id (obj s y) \<noteq> rid" if "listed s y" "y \<noteq> x" for y using that rid listed_distinct by metis
  ultimately show ?case using IH a rid(1)
    by (auto simp: o same_tokens_def listed_def rs split: if_splits)
qed (simp add: same_tokens_def)

lemma build_output_objs:
  assumes "build_output cfg s p = Inr (out, s')"
  shows "sch_objs s' = sch_objs s" "out_scheduled_spec_decode_tokens out = scheduled_spec_decode_tokens p"
proof -
  obtain ns s1 where s1: "(case running s of [] \<Rightarrow> Inr (replicate (sc_num_groups cfg) 0, s)
      | x # _ \<Rightarrow> rbind (kvm_num_common_prefix_blocks (kv_cache_manager s) (request_id (obj s x))) (\<lambda>(ns, k). Inr (ns, s\<lparr>kv_cache_manager := k\<rparr>))) = Inr (ns, s1)"
    "sch_objs s' = sch_objs s1" "out_scheduled_spec_decode_tokens out = scheduled_spec_decode_tokens p"
    using assms unfolding build_output_def Let_def[of "if use_v2_model_runner cfg then _ else _"] rbind_Inr_iff
    by (elim exE conjE) (auto simp: rbind_Inr_iff Let_def case_prod_unfold)
  then show "sch_objs s' = sch_objs s" "out_scheduled_spec_decode_tokens out = scheduled_spec_decode_tokens p"
    by (auto simp: rbind_Inr_iff split: list.splits)
qed

text \<open>After a synchronous step, before the model runs.\<close>

definition computed_to :: "SchedulerOutput \<Rightarrow> Request \<Rightarrow> bool" where
  "computed_to out r \<longleftrightarrow> reaches (num_drafts_of (out_scheduled_spec_decode_tokens out) (request_id r)) 0 r"

lemma schedule_computed_to:
  fixes s s' :: "'c Scheduler"
  assumes a: "schedule cfg ops ready now s = Some (Inr (out, s'))" and sync: "\<not> sc_async cfg" and st: "step_ok cfg s"
    and f: "\<forall>y \<in># queued s. fits cfg (obj s y)" and c: "\<forall>y \<in> set (running s). num_computed_tokens (obj s y) \<le> num_tokens (obj s y)"
  shows "\<forall>y \<in># queued s'. fits cfg (obj s' y)" "\<forall>y \<in> set (running s'). computed_to out (obj s' y)"
    "fst ` set (out_scheduled_spec_decode_tokens out) \<subseteq> fst ` set (out_num_scheduled_tokens out)"
proof -
  obtain s1 :: "'c Scheduler" and p out1 s2 where b: "schedule_passes cfg ops ready now s = Some (Inr (s1, p))" "build_output cfg s1 p = Inr (out1, s2)"
    "update_after_schedule cfg out1 (s2\<lparr>connector := map_option (\<lambda>c. build_connector_meta ops c out1) (connector s2)\<rparr>) = Inr (out, s')"
    using a by (auto simp: schedule_def obind_Inr_iff rbind_Inr_iff py_assert_Inr_iff)
  let ?s2 = "s2\<lparr>connector := map_option (\<lambda>c. build_connector_meta ops c out1) (connector s2)\<rparr>"
  have t: "tracked cfg {#} s1 p" by (rule schedule_passes_tracked[OF b(1) st f c])
  have po: "pass_ok cfg s1 p" by (rule schedule_passes_ok(1)[OF b(1) st])
  have ok1: "sched_ok s1" using schedule_passes_keeps[OF b(1)] st keeps_sched_ok by (auto simp: step_ok_def)
  have q: "queued s2 = queued s1" "running s2 = running s1" "requests s2 = requests s1" using build_output_same[OF b(2)] by (simp_all add: same_queues_def queued_def)
  note o = build_output_objs[OF b(2)]
  have tok1: "out_num_scheduled_tokens out1 = num_scheduled_tokens p" using build_output_tokens[OF b(2)] by simp
  obtain s3 where s3: "mfold (advance_one cfg) (num_scheduled_tokens p) ?s2 = Inr s3" "out = out1" "s' = s3\<lparr>finished_req_ids := {}\<rparr>"
    using b(3) sync tok1
    by (cases "mfold (advance_one cfg) (num_scheduled_tokens p) ?s2") (simp_all add: update_after_schedule_def base_update_after_schedule_def)
  have e: "entries_ok ?s2" using ok1 q(3) o(1) by (simp add: sched_ok_def requests_ok_iff entries_ok_def)
  have d: "distinct (map fst (num_scheduled_tokens p))" using po by (simp add: pass_ok_def)
  note adv = advance_tokens[OF s3(1) d e]
  have q': "queued s' = queued s1" "running s' = running s1"
    using update_after_schedule_same[OF b(3)] q by (simp_all add: same_queues_def queued_def)
  have tok: "same_tokens (obj s1 y) (obj s' y)" for y using adv s3(3) o(1) by simp
  show "fst ` set (out_scheduled_spec_decode_tokens out) \<subseteq> fst ` set (out_num_scheduled_tokens out)" using t s3(2) tok1 o(2) by (simp add: tracked_def)
  show "\<forall>y \<in># queued s'. fits cfg (obj s' y)" using t same_tokens_fits[OF tok] q'(1) by (simp add: tracked_def)
  show "\<forall>y \<in> set (running s'). computed_to out (obj s' y)"
  proof
    fix y assume y: "y \<in> set (running s')"
    then have "listed s1 y" using ok1 q' by (auto simp: sched_ok_def requests_ok_iff queued_def)
    then have "num_computed_tokens (obj s' y) = num_computed_tokens (obj s1 y) +
        (case map_of (num_scheduled_tokens p) (request_id (obj s1 y)) of None \<Rightarrow> 0 | Some n \<Rightarrow> n)" "request_id (obj s' y) = request_id (obj s1 y)"
      using adv s3(3) o(1) q(3) by (simp_all add: listed_def)
    moreover have "granted p (obj s1 y)" using t y q'(2) by (simp add: tracked_def)
    ultimately show "computed_to out (obj s' y)" using tok[of y] o(2) s3(2)
      by (simp add: computed_to_def granted_def reaches_def same_tokens_def num_tokens_def)
  qed
qed

end
