(* ===== verification/Sched_Loop.thy ===== *)
theory Sched_Loop
  imports Sched_Tracking
begin

text \<open>
  The synchronous engine loop: a step is scheduled, the model runs, its output is processed. Every running request stays on track, so the
  assertions of \<^verbatim>\<open>schedule\<close> hold in every step of the loop.
\<close>

section \<open>Tokens that are kept\<close>

lemma append_output_tokens:
  "append_output_token_ids h [t] r = Some (Inr r') \<Longrightarrow>
     \<exists>hs. r' = r\<lparr>output_token_ids := output_token_ids r @ [t], all_token_ids := all_token_ids r @ [t], block_hashes := hs\<rparr>"
  unfolding append_output_token_ids_def by (drule rehash_frame) auto

lemma check_stop_goes_on:
  assumes "check_stop r L = Inr (False, r')"
  obtains sp where "sampling_params r = Some sp" "num_output_tokens r < sp_min_tokens sp \<or> num_tokens r < L"
  using assms unfolding check_stop_def py_assert_Inr_iff rbind_Inr_iff
  by (cases "sampling_params r") (auto simp: rbind_Inr_iff split: if_splits)

lemma check_stop_resumable: "check_stop r L = Inr (st, r') \<Longrightarrow> resumable r' = resumable r"
  by (drule check_stop_results) (elim disjE insertE exE, simp_all)

lemma append_tokens_resumable: "append_tokens cfg ts r kept = Some (Inr (k, st, r')) \<Longrightarrow> resumable r' = resumable r"
proof (induction cfg ts r kept rule: append_tokens.induct)
  case (2 cfg t ts r kept)
  then obtain r1 s2 r2 where a: "append_output_token_ids (block_hasher cfg) [t] r = Some (Inr r1)"
    "check_stop r1 (sc_max_model_len cfg) = Inr (s2, r2)"
    "(if s2 then Some (Inr (kept @ [t], True, r2)) else append_tokens cfg ts r2 (kept @ [t])) = Some (Inr (k, st, r'))"
    by (auto simp: obind_Inr_iff)
  have "resumable r1 = resumable r" using append_output_tokens[OF a(1)] by auto
  then show ?case using a "2.IH"[of s2 r2] check_stop_resumable[OF a(2)] by (cases s2) auto
qed simp

lemma append_tokens_all:
  assumes "append_tokens cfg ts r kept = Some (Inr (k, False, r'))"
  shows "all_token_ids r' = all_token_ids r @ ts \<and> output_token_ids r' = output_token_ids r @ ts \<and> num_computed_tokens r' = num_computed_tokens r \<and>
    num_output_placeholders r' = num_output_placeholders r \<and> sampling_params r' = sampling_params r \<and> resumable r' = resumable r \<and>
    (ts \<noteq> [] \<longrightarrow> (\<exists>sp. sampling_params r = Some sp \<and> (num_output_tokens r' < sp_min_tokens sp \<or> num_tokens r' < sc_max_model_len cfg)))"
  using assms
proof (induction cfg ts r kept rule: append_tokens.induct)
  case (2 cfg t ts r kept)
  then obtain r1 s2 r2 where a: "append_output_token_ids (block_hasher cfg) [t] r = Some (Inr r1)"
    "check_stop r1 (sc_max_model_len cfg) = Inr (s2, r2)"
    "(if s2 then Some (Inr (kept @ [t], True, r2)) else append_tokens cfg ts r2 (kept @ [t])) = Some (Inr (k, False, r'))"
    by (auto simp: obind_Inr_iff)
  have s2: "\<not> s2" using a(3) by (cases s2) auto
  have r2: "r2 = r1" using check_stop_frame[OF a(2)] s2 by simp
  obtain hs where r1: "r1 = r\<lparr>output_token_ids := output_token_ids r @ [t], all_token_ids := all_token_ids r @ [t], block_hashes := hs\<rparr>"
    using append_output_tokens[OF a(1)] by blast
  have rest: "append_tokens cfg ts r1 (kept @ [t]) = Some (Inr (k, False, r'))" using a(3) s2 r2 by simp
  obtain sp where sp: "sampling_params r1 = Some sp" "num_output_tokens r1 < sp_min_tokens sp \<or> num_tokens r1 < sc_max_model_len cfg"
    using check_stop_goes_on[of r1 "sc_max_model_len cfg" r2] a(2) s2 by auto

  show ?case
  proof (cases "ts = []")
    case True
    then have "r' = r1" using rest by simp
    then show ?thesis using True sp r1 by auto
  next
    case False
    then show ?thesis using "2.IH"[of s2 r2] rest s2 r2 r1 by simp
  qed
qed simp

section \<open>The output of one request\<close>

text \<open>What the workers promise: a request with scheduled draft tokens gets at least one token.\<close>

definition samples_drafted :: "SchedulerOutput \<Rightarrow> ModelRunnerOutput \<Rightarrow> bool" where
  "samples_drafted out mro \<longleftrightarrow> kv_connector_output mro = None \<and>
     (\<forall>(rid, drafts) \<in> set (out_scheduled_spec_decode_tokens out). drafts \<noteq> [] \<longrightarrow>
        (case map_of (req_id_to_index mro) rid of
           None \<Rightarrow> True
         | Some idx \<Rightarrow> sampled_token_ids mro \<noteq> [] \<and> py_index (sampled_token_ids mro) idx \<noteq> Inr []))"

definition settled :: "sched_config \<Rightarrow> Request \<Rightarrow> bool" where
  "settled cfg r \<longleftrightarrow> fits cfg r \<and> num_computed_tokens r \<le> num_tokens r"

lemma settled_same:
  "same_tokens a b \<Longrightarrow> num_computed_tokens b = num_computed_tokens a \<Longrightarrow> settled cfg b = settled cfg a"
  by (simp add: settled_def same_tokens_fits) (simp add: same_tokens_def num_tokens_def)

lemma reject_drafts_tokens:
  assumes "reject_drafts cfg out rid ds gen st r = Inr (st', r1)" "fits cfg r" "reaches (int (length ds)) 0 r" "ds \<noteq> [] \<longrightarrow> gen \<noteq> []"
  shows "all_token_ids r1 = all_token_ids r \<and> output_token_ids r1 = output_token_ids r \<and> sampling_params r1 = sampling_params r \<and>
    resumable r1 = resumable r \<and> num_output_placeholders r1 = 0 \<and> num_computed_tokens r1 \<le> num_tokens r + (if gen = [] then 0 else int (length gen) - 1)"
proof -
  have plc: "num_output_placeholders r = 0" using assms(2) by (simp add: fits_def)
  show ?thesis
  proof (cases "ds = [] \<or> gen = []")
    case True
    then have "r1 = r" "ds = []" using assms(1,4) by (auto simp: reject_drafts_def)
    moreover have "0 \<le> (if gen = [] then 0 else int (length gen) - 1)" by (cases gen) auto
    ultimately show ?thesis using assms(3) plc by (simp add: reaches_def)
  next
    case False
    then have n: "num_computed_tokens r = num_tokens r + int (length ds)" "0 < int (length ds)" using assms(3) by (simp_all add: reaches_def)
    have "r1 = r\<lparr>num_computed_tokens := (if num_computed_tokens r > 0 then num_computed_tokens r - (int (length ds) - (int (length gen) - 1)) else num_computed_tokens r),
        num_output_placeholders := 0\<rparr>"
      using assms(1) False plc by (auto simp: reject_drafts_def Let_def rbind_Inr_iff)
    moreover have "0 < num_computed_tokens r" using n unfolding num_tokens_def by linarith
    ultimately show ?thesis using n False by (simp add: num_tokens_def)
  qed
qed

lemma apply_output_settled:
  assumes a: "apply_output cfg x gen pooled s = Some (Inr ((new, False), s'))" and sync: "\<not> sc_async cfg"
    and f: "fits cfg r" and r: "all_token_ids (obj s x) = all_token_ids r" "output_token_ids (obj s x) = output_token_ids r"
      "sampling_params (obj s x) = sampling_params r" "resumable (obj s x) = resumable r" "num_output_placeholders (obj s x) = 0"
    and n: "num_computed_tokens (obj s x) \<le> num_tokens r + (if gen = [] then 0 else int (length gen) - 1)"
  shows "settled cfg (obj s' x)"
proof (cases "gen = []")
  case True
  then have "s' = s" using a by (auto simp: apply_output_def split: if_splits)
  then show ?thesis using f r n True by (simp add: settled_def fits_def num_tokens_def num_output_tokens_def)
next
  case False
  then obtain k r' where k: "append_tokens cfg gen (obj s x) [] = Some (Inr (k, False, r'))" "s' = upd_obj x (\<lambda>_. r') s"
    using a sync by (auto simp: apply_output_def update_request_with_output_def base_update_request_with_output_def obind_Inr_iff)
  note t = append_tokens_all[OF k(1)]
  obtain sp where sp: "sampling_params r = Some sp" "num_output_tokens r' < sp_min_tokens sp \<or> num_tokens r' < sc_max_model_len cfg"
    using t False r(3) by auto
  have len: "num_tokens r' = num_tokens r + int (length gen)" "num_output_tokens r' = num_output_tokens r + int (length gen)"
    using t r by (simp_all add: num_tokens_def num_output_tokens_def)
  have "num_tokens r - num_output_tokens r + sp_min_tokens sp \<le> sc_max_model_len cfg" using f sp(1) by (simp add: fits_def)
  then have "num_tokens r' \<le> sc_max_model_len cfg - 1" using sp(2) len by linarith
  moreover have "num_tokens r' - num_output_tokens r' = num_tokens r - num_output_tokens r" using len by simp
  ultimately have "fits cfg r'" using t r f by (auto simp: fits_def)
  moreover have "num_computed_tokens r' \<le> num_tokens r'" using t n False len(1) by simp
  ultimately show ?thesis using k(2) by (simp add: settled_def upd_obj_def)
qed

lemma apply_output_resumable:
  assumes "apply_output cfg x gen pooled s = Some (Inr (res, s'))" "\<not> sc_async cfg"
  shows "resumable (obj s' x) = resumable (obj s x)"
  using assms append_tokens_resumable
  by (fastforce simp: apply_output_def update_request_with_output_def base_update_request_with_output_def obind_Inr_iff set_status_def upd_obj_def split: if_splits)

lemma emit_output_tokens:
  assumes "emit_output mro rid x new stopped reason pooled params (s, acc) = Inr (s', acc')"
  shows "same_tokens (obj s x) (obj s' x) \<and> num_computed_tokens (obj s' x) = num_computed_tokens (obj s x) \<and> waiting s' = waiting s"
  using assms by (auto simp: emit_output_def Let_def upd_obj_def take_req_events_def same_tokens_def py_assert_Inr_iff split: if_splits option.splits)

lemma process_request_settled:
  assumes p: "process_request cfg ops now out mro rid x (s, acc) = Some (Inr (s', acc'))" and sync: "\<not> sc_async cfg"
    and f: "fits cfg (obj s x)" and c: "computed_to out (obj s x)" and rid: "request_id (obj s x) = rid" and w: "samples_drafted out mro"
  shows "waiting s' = waiting s" "x \<in> set (stopped_running_reqs acc') \<union> set (stopped_preempted_reqs acc') \<or> settled cfg (obj s' x)"
proof -
  define ds where "ds = (case map_of (out_scheduled_spec_decode_tokens out) rid of None \<Rightarrow> [] | Some ts \<Rightarrow> ts)"
  obtain idx gen st r1 pooled new stopped s1 params s2 acc1 where
    i: "dict_item (req_id_to_index mro) rid = Inr idx" "(if sampled_token_ids mro = [] then Inr [] else py_index (sampled_token_ids mro) idx) = Inr gen"
    and r: "reject_drafts cfg out rid ds gen (acc_spec_stats acc) (obj s x) = Inr (st, r1)"
    and u: "apply_output cfg x gen pooled (upd_obj x (\<lambda>_. r1) s) = Some (Inr ((new, stopped), s1))"
    and t: "(if stopped then stop_request cfg ops now x (status r1) (s1, acc\<lparr>acc_spec_stats := st\<rparr>)
            else Some (Inr (None, s1, acc\<lparr>acc_spec_stats := st\<rparr>))) = Some (Inr (params, s2, acc1))"
    and e: "emit_output mro rid x new stopped (if stopped then get_finished_reason (obj s1 x) else None) pooled params (s2, acc1) = Inr (s', acc')"
    using p unfolding process_request_def prod.case obind_Inr_iff ds_def by (auto simp: obind_Inr_iff)
  have "int (length ds) = num_drafts_of (out_scheduled_spec_decode_tokens out) rid" by (simp add: ds_def num_drafts_of_def split: option.splits)
  then have reach: "reaches (int (length ds)) 0 (obj s x)" using c rid by (simp add: computed_to_def)
  have gen: "ds \<noteq> [] \<longrightarrow> gen \<noteq> []"
  proof
    assume d: "ds \<noteq> []"
    then have "(rid, ds) \<in> set (out_scheduled_spec_decode_tokens out)" by (auto simp: ds_def split: option.splits dest: map_of_SomeD)
    then show "gen \<noteq> []" using d w i by (fastforce simp: samples_drafted_def dict_item_def split: option.splits if_splits)
  qed
  note rj = reject_drafts_tokens[OF r f reach gen]
  have res: "\<not> resumable (obj s1 x)" using apply_output_resumable[OF u sync] rj f by (simp add: fits_def upd_obj_def)
  note af = apply_output_frame[OF u] and em = emit_output_tokens[OF e] and ef = emit_output_frame[OF e]
  show "waiting s' = waiting s"
  proof (cases stopped)
    case True
    then obtain ps where "free_request cfg ops x s1 = Inr (ps, s2)" using t res by (auto simp: stop_request_def handle_stopped_request_def obind_Inr_iff)
    from free_request_drops[OF this] have "waiting s2 = waiting s1" by (simp add: drops_entry_def)
    then show ?thesis using af(2) em by (simp add: upd_obj_def)
  next
    case False
    then show ?thesis using t af(2) em by (simp add: upd_obj_def)
  qed
  show "x \<in> set (stopped_running_reqs acc') \<union> set (stopped_preempted_reqs acc') \<or> settled cfg (obj s' x)"
  proof (cases stopped)
    case True
    then have "is_finished (obj s1 x)" using af(4) by simp
    then have "acc1 = (if status r1 = RUNNING then acc\<lparr>acc_spec_stats := st, stopped_running_reqs := stopped_running_reqs acc @ [x]\<rparr>
         else acc\<lparr>acc_spec_stats := st, stopped_preempted_reqs := stopped_preempted_reqs acc @ [x]\<rparr>)"
      using stop_request_frame(2)[of cfg ops now x "status r1" s1 "acc\<lparr>acc_spec_stats := st\<rparr>" params s2 acc1] t True by simp
    then show ?thesis using ef by simp
  next
    case False
    then have u': "apply_output cfg x gen pooled (upd_obj x (\<lambda>_. r1) s) = Some (Inr ((new, False), s1))" using u by simp
    have "settled cfg (obj s1 x)" by (rule apply_output_settled[OF u' sync f]) (use rj in \<open>simp_all add: upd_obj_def\<close>)
    moreover have "s2 = s1" using t False by simp
    ultimately show ?thesis using settled_same em by blast
  qed
qed

section \<open>All outputs\<close>

definition outputs_inv :: "sched_config \<Rightarrow> SchedulerOutput \<Rightarrow> string set \<Rightarrow> 'c Scheduler \<Rightarrow> update_acc \<Rightarrow> bool" where
  "outputs_inv cfg out seen s acc \<longleftrightarrow> upd_inv s seen (set (stopped_running_reqs acc)) (set (stopped_preempted_reqs acc)) \<and> stopped_preempted_reqs acc = [] \<and>
     (\<forall>y \<in># rq_bag (waiting s). fits cfg (obj s y)) \<and>
     (\<forall>y \<in> set (running s) - set (stopped_running_reqs acc).
        if request_id (obj s y) \<in> seen then settled cfg (obj s y) else fits cfg (obj s y) \<and> computed_to out (obj s y))"

lemma process_output_inv:
  assumes p: "process_output cfg ops now out mro [] (rid, n) (s, acc) = Some (Inr (s', acc'))" and sync: "\<not> sc_async cfg"
    and i: "outputs_inv cfg out seen s acc" and w: "samples_drafted out mro" and rid: "rid \<notin> seen" and x: "x \<in> set (running s)" "request_id (obj s x) = rid"
  shows "outputs_inv cfg out (insert rid seen) s' acc'" "running s' = running s" "\<And>y. request_id (obj s' y) = request_id (obj s y)"
proof -
  let ?R = "set (stopped_running_reqs acc)" and ?W = "set (stopped_preempted_reqs acc)"
  have ui: "upd_inv s seen ?R ?W" and W: "stopped_preempted_reqs acc = []" using i unfolding outputs_inv_def by blast+
  have xR: "x \<notin> ?R" using ui rid x(2) by (auto simp: upd_inv_def)
  have xl: "listed s x" "status (obj s x) = RUNNING" "x \<notin># rq_bag (waiting s)" using ui x(1) xR by (auto simp: upd_inv_def)
  have "map_of (requests s) rid = Some x" using xl(1) x(2) by (simp add: listed_def)
  then have pr: "process_request cfg ops now out mro rid x (s, acc) = Some (Inr (s', acc'))" using p by (simp add: process_output_def split: if_splits)
  have fx: "fits cfg (obj s x)" "computed_to out (obj s x)" using i x xR rid by (auto simp: outputs_inv_def)
  note ps = process_request_settled[OF pr sync fx x(2) w]
  have ui': "upd_inv s' (insert rid seen) (set (stopped_running_reqs acc')) (set (stopped_preempted_reqs acc'))"
    by (rule process_output_upd_inv[OF p ui rid])
  have ch: "changes_only x s s' \<and> (stopped_running_reqs acc' = stopped_running_reqs acc \<or> stopped_running_reqs acc' = stopped_running_reqs acc @ [x]) \<and>
      stopped_preempted_reqs acc' = stopped_preempted_reqs acc"
    using p
  proof (cases rule: process_output_cases[consumes 1, case_names none plain stop])
    case none
    then show ?thesis by simp
  next
    case (plain y)
    then have "y = x" using xl(1) x(2) by (simp add: listed_def)
    then show ?thesis using plain by (simp add: plain_change_def)
  next
    case (stop y)
    then have "y = x" using xl(1) x(2) by (simp add: listed_def)
    then show ?thesis using stop xl(2) by (simp add: stop_change_def)
  qed
  show run: "running s' = running s" using ch by (simp add: changes_only_def)
  have o: "y \<noteq> x \<Longrightarrow> obj s' y = obj s y" for y using ch by (simp add: changes_only_def)
  show ids: "request_id (obj s' y) = request_id (obj s y)" for y using ch by (cases "y = x") (simp_all add: changes_only_def same_id_def)
  have wait: "\<forall>y \<in># rq_bag (waiting s'). fits cfg (obj s' y)"
  proof
    fix y assume y: "y \<in># rq_bag (waiting s')"
    then have "y \<noteq> x" "y \<in># rq_bag (waiting s)" using ps(1) xl(3) by auto
    then show "fits cfg (obj s' y)" using i o by (simp add: outputs_inv_def)
  qed
  have "if request_id (obj s' y) \<in> insert rid seen then settled cfg (obj s' y) else fits cfg (obj s' y) \<and> computed_to out (obj s' y)"
    if y: "y \<in> set (running s') - set (stopped_running_reqs acc')" for y
  proof (cases "y = x")
    case True
    then show ?thesis using ps(2) y ch W x(2) ids[of x] by auto
  next
    case False
    have yR: "y \<in> set (running s) - ?R" using y run ch by auto
    then have "listed s y" using ui by (auto simp: upd_inv_def)
    then have "request_id (obj s y) \<noteq> rid" using False xl(1) x(2) listed_distinct by metis
    then show ?thesis using i yR o[OF False] by (simp add: outputs_inv_def)
  qed
  then show "outputs_inv cfg out (insert rid seen) s' acc'" using ui' ch W wait by (simp add: outputs_inv_def)
qed

lemma process_outputs_settled:
  assumes "omfold (process_output cfg ops now out mro []) items (s, acc) = Some (Inr (s', acc'))" "\<not> sc_async cfg" "outputs_inv cfg out seen s acc"
    "samples_drafted out mro" "distinct (map fst items)" "set (map fst items) \<inter> seen = {}" "\<forall>rid \<in> set (map fst items). \<exists>x \<in> set (running s). request_id (obj s x) = rid"
  shows "outputs_inv cfg out (seen \<union> set (map fst items)) s' acc'"
  using assms
proof (induction items arbitrary: s acc seen)
  case (Cons it items)
  obtain rid n where it: "it = (rid, n)" by fastforce
  obtain s1 acc1 where 1: "process_output cfg ops now out mro [] (rid, n) (s, acc) = Some (Inr (s1, acc1))"
    "omfold (process_output cfg ops now out mro []) items (s1, acc1) = Some (Inr (s', acc'))"
    using Cons.prems(1) it by (auto simp: obind_Inr_iff)
  obtain x where x: "x \<in> set (running s)" "request_id (obj s x) = rid" using Cons.prems(7) it by auto
  have rid: "rid \<notin> seen" using Cons.prems(6) it by auto
  note one = process_output_inv[OF 1(1) Cons.prems(2,3,4) rid x]
  have "outputs_inv cfg out (insert rid seen \<union> set (map fst items)) s' acc'"
    by (rule Cons.IH[OF 1(2) Cons.prems(2) one(1) Cons.prems(4)]) (use Cons.prems(5-7) it one(2,3) in auto)
  then show ?case using it by (simp add: insert_commute)
qed simp

section \<open>The state between two steps\<close>

definition loop_ok :: "sched_config \<Rightarrow> 'c Scheduler \<Rightarrow> bool" where
  "loop_ok cfg s \<longleftrightarrow> sched_ok s \<and> (\<forall>y \<in># queued s. fits cfg (obj s y)) \<and>
     (\<forall>y \<in> set (running s). num_computed_tokens (obj s y) \<le> num_tokens (obj s y))"

lemma loop_ok_same:
  assumes "loop_ok cfg s" "same_queues s s'" "\<And>y. same_tokens (obj s y) (obj s' y)" "\<And>y. num_computed_tokens (obj s' y) = num_computed_tokens (obj s y)"
  shows "loop_ok cfg s'"
proof -
  have "num_tokens (obj s' y) = num_tokens (obj s y)" for y using assms(3) by (simp add: same_tokens_def num_tokens_def)
  then show ?thesis using assms(1,2,4) same_queues_sched_ok[OF assms(2)] same_tokens_fits[OF assms(3)]
    by (simp add: loop_ok_def same_queues_def queued_def)
qed

lemma loop_ok_on_track:
  assumes "loop_ok cfg s" "x \<in> set (running s)"
  shows "on_track cfg (obj s x)"
proof -
  have "fits cfg (obj s x)" "num_computed_tokens (obj s x) \<le> num_tokens (obj s x)" using assms by (simp_all add: loop_ok_def queued_def)
  then show ?thesis by (simp add: fits_def on_track_def num_tokens_with_spec_def num_tokens_def)
qed

lemma update_from_output_loop_ok:
  assumes u: "update_from_output cfg ops now out mro s = Some (Inr (res, s'))" and sync: "\<not> sc_async cfg" and w: "samples_drafted out mro"
    and ok: "sched_ok s" and f: "\<forall>y \<in># queued s. fits cfg (obj s y)" and c: "\<forall>y \<in> set (running s). computed_to out (obj s y)"
    and keys: "fst ` set (out_scheduled_spec_decode_tokens out) \<subseteq> fst ` set (out_num_scheduled_tokens out)"
      "distinct (map fst (out_num_scheduled_tokens out))"
      "\<forall>rid \<in> set (map fst (out_num_scheduled_tokens out)). \<exists>x \<in> set (running s). request_id (obj s x) = rid"
  shows "loop_ok cfg s'"
  using u
proof (rule update_from_output_parts)
  fix failed s0 s1 acc s2 s3 acc1 s4
  assume a: "omfold (process_output cfg ops now out mro failed) (out_num_scheduled_tokens out) (s0, no_outputs) = Some (Inr (s1, acc))"
    "running s2 = remove_all (running s1) (set (stopped_running_reqs acc))"
    "rq_bag (waiting s2) = filter_mset (\<lambda>x. x \<notin> set (stopped_preempted_reqs acc)) (rq_bag (waiting s1))"
    "sch_objs s2 = sch_objs s1" "requests s2 = requests s1" "fail_loads cfg ops failed (s2, acc) = Inr (s3, acc1)" "same_queues s4 s'" "sch_objs s' = sch_objs s4"
    "kv_connector_output mro = None \<Longrightarrow> failed = [] \<and> s0 = s \<and> s4 = s3"
  have kv: "failed = []" "s0 = s" "s4 = s3" using a(9) w by (simp_all add: samples_drafted_def)
  have s3: "s3 = s2" using a(6) kv(1) by (simp add: fail_loads_def)
  let ?keys = "set (map fst (out_num_scheduled_tokens out))"
  have "outputs_inv cfg out {} s no_outputs"
    using sched_ok_upd_inv[OF ok] f c by (simp add: outputs_inv_def no_outputs_def queued_def)
  then have i: "outputs_inv cfg out ?keys s1 acc"
    using process_outputs_settled[OF a(1)[unfolded kv] sync _ w keys(2)] keys(3) by force
  then have ui: "upd_inv s1 ?keys (set (stopped_running_reqs acc)) (set (stopped_preempted_reqs acc))" and W: "stopped_preempted_reqs acc = []"
    unfolding outputs_inv_def by blast+
  have d: "distinct (running s1)" using ui by (simp add: upd_inv_def)
  have r2: "set (running s2) = set (running s1) - set (stopped_running_reqs acc)" using a(2) d by (auto simp: remove_all_filter)
  have "sched_ok s'" using update_from_output_ok[OF u ok keys(2)] .
  moreover have "settled cfg (obj s1 y)" if y: "y \<in> set (running s2)" for y
  proof (cases "request_id (obj s1 y) \<in> ?keys")
    case True
    then show ?thesis using i y r2 by (simp add: outputs_inv_def)
  next
    case False
    then have "fits cfg (obj s1 y)" "computed_to out (obj s1 y)" using i y r2 by (auto simp: outputs_inv_def)
    moreover have "map_of (out_scheduled_spec_decode_tokens out) (request_id (obj s1 y)) = None" using False keys(1) by (auto simp: map_of_eq_None_iff)
    ultimately show ?thesis by (simp add: settled_def computed_to_def reaches_def num_drafts_of_def)
  qed
  moreover have "fits cfg (obj s1 y)" if "y \<in># rq_bag (waiting s2)" for y using that i a(3) by (simp add: outputs_inv_def)
  moreover have "running s' = running s2" "waiting s' = waiting s2" "sch_objs s' = sch_objs s1" using a(4,7,8) kv(3) s3 by (simp_all add: same_queues_def)
  ultimately show "loop_ok cfg s'" by (auto simp: loop_ok_def queued_def settled_def)
qed

lemma finish_requests_loop_ok:
  assumes "finish_requests cfg ops rids st s = Inr s'" "loop_ok cfg s"
  shows "loop_ok cfg s'"
proof -
  have ok: "sched_ok s" using assms(2) by (simp add: loop_ok_def)
  note f = finish_requests_ok[OF assms(1) ok]
  obtain R where R: "running s' = remove_all (running s) R" using finish_requests_running[OF assms(1)] .
  have "set (running s') \<subseteq> set (running s)" unfolding R by (auto simp: remove_all_def dest: notin_set_remove1)
  moreover have "obj s' y = obj s y" if "y \<in> set (running s')" for y using that f(2) by (simp add: queued_def)
  ultimately show ?thesis using assms(2) f by (auto simp: loop_ok_def)
qed

lemma preempt_all_fits:
  "preempt_all cfg now s = Inr s' \<Longrightarrow> \<forall>y \<in># queued s. fits cfg (obj s y) \<Longrightarrow> \<forall>y \<in># queued s'. fits cfg (obj s' y)"
proof (induction cfg now s rule: preempt_all.induct)
  case (1 cfg now s)
  show ?case
  proof (cases "running s = []")
    case True
    then show ?thesis using "1.prems" by (simp add: preempt_all.simps)
  next
    case False
    let ?x = "last (running s)"
    obtain s1 where p: "preempt_request cfg now ?x (s\<lparr>running := butlast (running s)\<rparr>) = Inr s1"
      "preempt_all cfg now (upd_obj ?x (\<lambda>r. r\<lparr>num_output_placeholders := 0, discard_latest_async_tokens := True\<rparr>) s1) = Inr s'"
      using "1.prems"(1) False by (subst (asm) preempt_all.simps) (auto simp: Let_def split: sum.splits)
    note g = preempt_request_frame[OF p(1)]
    obtain r where r: "sch_objs s1 = (sch_objs s)(?x := r)" "same_tokens (obj s ?x) r" using g(5) by auto
    have "mset (running s) = add_mset ?x (mset (butlast (running s)))"
      using arg_cong[OF append_butlast_last_id[OF False], of mset] by simp
    then have q: "queued s1 = queued s" using g(1,2) by (simp add: queued_def)
    have fx: "fits cfg (r\<lparr>num_output_placeholders := 0, discard_latest_async_tokens := True\<rparr>)"
    proof -
      have "fits cfg r" using "1.prems"(2) False same_tokens_fits[OF r(2)] by (simp add: queued_def)
      then show ?thesis by (simp add: fits_def num_tokens_def num_output_tokens_def)
    qed
    have "\<forall>y \<in># queued (upd_obj ?x (\<lambda>r. r\<lparr>num_output_placeholders := 0, discard_latest_async_tokens := True\<rparr>) s1).
        fits cfg (obj (upd_obj ?x (\<lambda>r. r\<lparr>num_output_placeholders := 0, discard_latest_async_tokens := True\<rparr>) s1) y)"
      using "1.prems"(2) q r(1) fx by (auto simp: upd_obj_def queued_def)
    then show ?thesis using "1.IH"[OF False refl p(1)] p(2) by blast
  qed
qed

lemma reset_prefix_cache_loop_ok:
  assumes "sched_reset_prefix_cache cfg ops now rr rc s = Inr (b, s')" "loop_ok cfg s"
  shows "loop_ok cfg s'"
proof -
  obtain s2 ok k where a: "(if rr then rbind (preempt_all cfg now s) (\<lambda>s1. Inr (s1\<lparr>prev_step_scheduled_req_ids := {}\<rparr>)) else Inr s) = Inr s2"
    "kvm_reset_prefix_cache (kv_cache_manager s2) = Inr (ok, k)"
    using assms(1) unfolding sched_reset_prefix_cache_def rbind_Inr_iff by auto
  have q: "running s' = running s2" "waiting s' = waiting s2" "sch_objs s' = sch_objs s2"
    using assms(1) a by (auto simp: sched_reset_prefix_cache_def reset_connector_cache_def Let_def rbind_Inr_iff
        split: if_splits option.splits prod.splits)
  have ok': "sched_ok s'" using reset_prefix_cache_ok[OF assms(1)] assms(2) by (simp add: loop_ok_def)
  show ?thesis
  proof (cases rr)
    case True
    then obtain s1 where s1: "preempt_all cfg now s = Inr s1" "s2 = s1\<lparr>prev_step_scheduled_req_ids := {}\<rparr>" using a(1) by (auto simp: rbind_Inr_iff)
    then show ?thesis using ok' q preempt_all_fits[OF s1(1)] preempt_all_shorter[OF s1(1)] assms(2) by (simp add: loop_ok_def queued_def)
  next
    case False
    then show ?thesis using ok' q a(1) assms(2) by (simp add: loop_ok_def queued_def)
  qed
qed

lemma add_request_loop_ok:
  assumes a: "add_request cfg ops now r s = Some (Inr s')" and l: "loop_ok cfg s" and new: "map_of (requests s) (request_id r) = None" "py_id r \<notin> snd ` set (requests s)"
    "waitable (status r)" "fits cfg r"
  shows "loop_ok cfg s'"
proof -
  have ok: "sched_ok s" using l by (simp add: loop_ok_def)
  have nr: "\<not> resumable r" using new(4) by (simp add: fits_def)
  have o: "sch_objs s' = (sch_objs s)(py_id r := log_event cfg EV_QUEUED now r)" "running s' = running s" "rq_bag (waiting s') = add_mset (py_id r) (rq_bag (waiting s))"
    using a new(1) nr by (auto simp: add_request_def Let_def upd_obj_def qb.bag_add)
  have "py_id r \<notin># queued s" using ok new(2) by (force simp: sched_ok_def requests_ok_def dest: map_of_SomeD)
  then have other: "y \<noteq> py_id r" if "y \<in># queued s" for y using that by blast
  have "fits cfg (log_event cfg EV_QUEUED now r)" using new(4) by (simp add: fits_def log_event_def record_event_def num_tokens_def num_output_tokens_def)
  then show ?thesis using add_request_ok[OF a ok new(2,3)] l o other by (auto simp: loop_ok_def queued_def)
qed

lemma update_draft_tokens:
  "same_tokens (obj s y) (obj (update_draft_token_ids advance validate ds s) y) \<and>
   num_computed_tokens (obj (update_draft_token_ids advance validate ds s) y) = num_computed_tokens (obj s y)"
  unfolding update_draft_token_ids_def
proof (induction ds arbitrary: s)
  case (Cons d ds)
  have "same_tokens (obj s y) (obj (set_draft_tokens advance validate d s) y) \<and>
      num_computed_tokens (obj (set_draft_tokens advance validate d s) y) = num_computed_tokens (obj s y)"
    by (auto simp: set_draft_tokens_def same_tokens_def upd_obj_def split: prod.splits option.splits)
  then show ?case using Cons.IH[of "set_draft_tokens advance validate d s"] by (simp add: same_tokens_def)
qed (simp add: same_tokens_def)

section \<open>The loop\<close>

text \<open>
  The synchronous engine core: requests arrive and are finished, draft tokens are set and the prefix cache is reset between steps; a step
  schedules, runs the model and processes its output.
\<close>

inductive loop_reachable :: "sched_config \<Rightarrow> 'c kv_connector_ops \<Rightarrow> 'c Scheduler \<Rightarrow> bool" for cfg ops where
  init: "Scheduler_init v sc kv bsize inc logging conn order hasher store = Inr (cfg, s) \<Longrightarrow> loop_reachable cfg ops s"
| step: "loop_reachable cfg ops s \<Longrightarrow> schedule cfg ops ready now s = Some (Inr (out, s1)) \<Longrightarrow> samples_drafted out mro \<Longrightarrow>
    update_from_output cfg ops later out mro s1 = Some (Inr (res, s2)) \<Longrightarrow> loop_reachable cfg ops s2"
| add: "loop_reachable cfg ops s \<Longrightarrow> map_of (requests s) (request_id r) = None \<Longrightarrow> py_id r \<notin> snd ` set (requests s) \<Longrightarrow> waitable (status r) \<Longrightarrow>
    fits cfg r \<Longrightarrow> add_request cfg ops now r s = Some (Inr s') \<Longrightarrow> loop_reachable cfg ops s'"
| finish: "loop_reachable cfg ops s \<Longrightarrow> finish_requests cfg ops rids st s = Inr s' \<Longrightarrow> loop_reachable cfg ops s'"
| reset: "loop_reachable cfg ops s \<Longrightarrow> sched_reset_prefix_cache cfg ops now rr rc s = Inr (b, s') \<Longrightarrow> loop_reachable cfg ops s'"
| drafts: "loop_reachable cfg ops s \<Longrightarrow> loop_reachable cfg ops (update_draft_token_ids advance validate ds s)"

definition sound_limits :: "sched_config \<Rightarrow> bool" where
  "sound_limits cfg \<longleftrightarrow> \<not> sc_async cfg \<and> 0 \<le> max_num_running_reqs cfg \<and> 0 \<le> max_num_scheduled_tokens cfg \<and>
     (need_mamba_block_aligned_split cfg \<longrightarrow> 0 < cache_block_size cfg)"

lemma loop_step_ok:
  assumes "sched_reachable cfg ops s" "loop_ok cfg s" "sound_limits cfg"
  shows "step_ok cfg s"
  using assms loop_ok_on_track[OF assms(2)] reachable_running_limit[OF assms(1)] by (simp add: step_ok_def loop_ok_def sound_limits_def)

lemma engine_step_loop_ok:
  assumes r: "sched_reachable cfg ops s" "loop_ok cfg s" and lim: "sound_limits cfg"
    and a: "schedule cfg ops ready now s = Some (Inr (out, s1))" "samples_drafted out mro" "update_from_output cfg ops later out mro s1 = Some (Inr (res, s2))"
  shows "sched_reachable cfg ops s2" "loop_ok cfg s2"
proof -
  have st: "step_ok cfg s" by (rule loop_step_ok[OF r lim])
  have sync: "\<not> sc_async cfg" using lim by (simp add: sound_limits_def)
  have f: "\<forall>y \<in># queued s. fits cfg (obj s y)" "\<forall>y \<in> set (running s). num_computed_tokens (obj s y) \<le> num_tokens (obj s y)"
    using r(2) by (simp_all add: loop_ok_def)
  note ct = schedule_computed_to[OF a(1) sync st f]
  have oe: "one_entry_each cfg s1 out" by (rule step_output_well_formed[OF a(1) st])
  then have keys: "distinct (map fst (out_num_scheduled_tokens out))" by (simp add: one_entry_each_def Let_def dict_keys_def)
  have r1: "sched_reachable cfg ops s1" by (rule sched_reachable.schedule[OF r(1) a(1)])
  show "sched_reachable cfg ops s2" by (rule sched_reachable.result[OF r1 keys a(3)])
  have ok1: "sched_ok s1" using r1 by (rule sched_reachable_ok)
  have "\<exists>x \<in> set (running s1). request_id (obj s1 x) = rid" if rid: "rid \<in> set (map fst (out_num_scheduled_tokens out))" for rid
  proof -
    have "rid \<in> set (dict_keys (out_num_scheduled_tokens out))" using rid by (simp add: dict_keys_def)
    then obtain x where "x \<in> set (running s1)" "map_of (requests s1) rid = Some x" using oe unfolding one_entry_each_def Let_def by blast
    then show ?thesis using ok1 unfolding sched_ok_def requests_ok_def by blast
  qed
  then show "loop_ok cfg s2" by (intro update_from_output_loop_ok[OF a(3) sync a(2) ok1 ct keys]) blast
qed

lemma loop_reachable_ok: "loop_reachable cfg ops s \<Longrightarrow> sound_limits cfg \<Longrightarrow> sched_reachable cfg ops s \<and> loop_ok cfg s"
proof (induction rule: loop_reachable.induct)
  case (init v sc kv bsize inc logging conn order hasher store s)
  have "queued s = {#}" using init_empty[OF init(1)] by (simp add: queued_def)
  then show ?case using init_ok[OF init(1)] sched_reachable.init[OF init(1)] by (auto simp: loop_ok_def queued_def)
next
  case (step s ready now out s1 mro later res s2)
  then show ?case using engine_step_loop_ok[of cfg ops s] by blast
next
  case (add s r now s')
  then show ?case using add_request_loop_ok[OF add(6)] sched_reachable.add[of cfg ops s r now s'] by blast
next
  case (finish s rids st s')
  then show ?case using finish_requests_loop_ok sched_reachable.finish by blast
next
  case (reset s now rr rc b s')
  then show ?case using reset_prefix_cache_loop_ok sched_reachable.reset by blast
next
  case (drafts s advance validate ds)
  then show ?case using loop_ok_same[OF _ update_draft_same] update_draft_tokens[of s] sched_reachable.drafts by blast
qed

text \<open>
  C2 (safety): in every state of the synchronous engine loop with limits that are not negative, in which the requests that are added are not
  streaming requests and fit into the model length together with their min_tokens, no connector reports transfers, and the workers return a
  token for every request with draft tokens, no running request has computed more tokens than it has, every queued request has room for
  another token, and in the next step the assertions of schedule on budget and limits hold.
\<close>

theorem engine_loop_on_track:
  assumes "loop_reachable cfg ops s" "sound_limits cfg"
  shows "(\<forall>x \<in> set (running s). num_computed_tokens (obj s x) \<le> num_tokens (obj s x)) \<and>
    (\<forall>x \<in># mset (running s) + rq_bag (waiting s). num_tokens (obj s x) \<le> sc_max_model_len cfg - 1) \<and>
    (\<forall>ready now s1 p. schedule_passes cfg ops ready now s = Some (Inr (s1, p)) \<longrightarrow> constraints_ok cfg s1 p)"
proof -
  have r: "sched_reachable cfg ops s" "loop_ok cfg s" using loop_reachable_ok[OF assms] by auto
  have "constraints_ok cfg s1 p" if "schedule_passes cfg ops ready now s = Some (Inr (s1, p))" for ready now s1 p
    by (rule step_within_budget(1)[OF loop_step_ok[OF r assms(2)] that])
  then show ?thesis using r(2) by (simp add: loop_ok_def queued_def fits_def)
qed

lemma example_loop: "loop_reachable example_sched example_ops example_waiting" "sound_limits example_sched"
proof -
  let ?r = "example_request ''r'' [5, 6, 7] []"
  have "num_output_placeholders ?r = 0" by (simp add: example_request_def Request_init_def engine_request_def request_kind_def blank_params_def
      structured_output_from_sampling_params_def length_from_prompt_token_ids_or_embeds_def rehash_def)
  then have f: "fits example_sched ?r" by (simp add: fits_def example_sched_more num_tokens_def num_output_tokens_def blank_params_def)
  have "loop_reachable example_sched example_ops example_empty"
    by (rule loop_reachable.init[OF example_empty_facts(1)[unfolded example_init_def]])
  then show "loop_reachable example_sched example_ops example_waiting"
    by (rule loop_reachable.add[OF _ _ _ _ f example_waiting_facts(1)]) (simp_all add: example_empty_facts)
  show "sound_limits example_sched" by (simp add: sound_limits_def example_sched_facts example_sched_more)
qed

theorem engine_loop_on_track_witness:
  "loop_reachable example_sched example_ops example_waiting \<and> 0 \<in># mset (running example_waiting) + rq_bag (waiting example_waiting) \<and>
   num_tokens (obj example_waiting 0) \<le> 99 \<and>
   (\<exists>s1 p. schedule_passes example_sched example_ops (\<lambda>_. True) 0 example_waiting = Some (Inr (s1, p)) \<and> constraints_ok example_sched s1 p)"
proof -
  obtain out s' where "schedule example_sched example_ops (\<lambda>_. True) 0 example_waiting = Some (Inr (out, s'))" using example_step by blast
  then obtain s1 p where "schedule_passes example_sched example_ops (\<lambda>_. True) 0 example_waiting = Some (Inr (s1, p))"
    by (auto simp: schedule_def obind_Inr_iff)
  then show ?thesis using engine_loop_on_track[OF example_loop] example_loop(1) by (auto simp: example_waiting_facts example_sched_more)
qed

end
