(* ===== verification/Offload_Backend.thy ===== *)
theory Offload_Backend
  imports Prelude "HOL-Library.Multiset"
begin

text \<open>
  Where offloaded KV blocks are kept: the status of an offloaded block, whose two fields are C
  integers, and the CPU backend that hands out block ids (\<^verbatim>\<open>v1/kv_offload/backend.py\<close>,
  \<^verbatim>\<open>backends/cpu.py\<close>, \<^verbatim>\<open>mediums.py\<close>, \<^verbatim>\<open>abstract.py\<close>). The locale \<open>offload_backend\<close> is the contract of
  the abstract class \<^verbatim>\<open>Backend\<close> that both offloading managers rely on: which blocks the manager
  owns, and how allocating and freeing change that.
\<close>

section \<open>Block status\<close>

text \<open>Assignment to a field of a \<^verbatim>\<open>ctypes\<close> structure keeps the low bits, without an overflow check.\<close>

definition c_int32 :: "int \<Rightarrow> int" where
  "c_int32 x = signed_take_bit 31 x"

definition c_int64 :: "int \<Rightarrow> int" where
  "c_int64 x = signed_take_bit 63 x"

record CPUBlockStatus =
  bs_ref_cnt :: int
  bs_block_id :: int

definition CPUBlockStatus_init :: "int \<Rightarrow> CPUBlockStatus" where
  "CPUBlockStatus_init bid = \<lparr>bs_ref_cnt = c_int32 (- 1), bs_block_id = c_int64 bid\<rparr>"

definition is_ready :: "CPUBlockStatus \<Rightarrow> bool" where
  "is_ready b \<longleftrightarrow> 0 \<le> bs_ref_cnt b"

definition add_ref_cnt :: "int \<Rightarrow> CPUBlockStatus \<Rightarrow> CPUBlockStatus" where
  "add_ref_cnt d b = b\<lparr>bs_ref_cnt := c_int32 (bs_ref_cnt b + d)\<rparr>"

section \<open>The CPU backend\<close>

definition GPU_medium :: string where
  "GPU_medium = ''GPU''"

definition CPU_medium :: string where
  "CPU_medium = ''CPU''"

record CPUBackend =
  cb_block_size :: int
  cb_medium :: string
  cb_num_blocks :: int
  cb_num_allocated_blocks :: int
  cb_allocated_blocks_free_list :: "int list"

definition CPUBackend_init :: "int \<Rightarrow> int \<Rightarrow> CPUBackend" where
  "CPUBackend_init block_size num_blocks =
     \<lparr>cb_block_size = block_size, cb_medium = CPU_medium, cb_num_blocks = num_blocks,
      cb_num_allocated_blocks = 0, cb_allocated_blocks_free_list = []\<rparr>"

definition cpu_get_num_free_blocks :: "CPUBackend \<Rightarrow> int" where
  "cpu_get_num_free_blocks b =
     int (length (cb_allocated_blocks_free_list b)) + cb_num_blocks b - cb_num_allocated_blocks b"

text \<open>The two loops of \<^verbatim>\<open>allocate_blocks\<close>: fresh ids first, then the end of the free list.\<close>

fun fresh_loop :: "nat \<Rightarrow> CPUBlockStatus list \<Rightarrow> CPUBackend \<Rightarrow> CPUBlockStatus list \<times> CPUBackend" where
  "fresh_loop 0 blocks b = (blocks, b)"
| "fresh_loop (Suc n) blocks b =
     fresh_loop n (blocks @ [CPUBlockStatus_init (cb_num_allocated_blocks b)])
       (b\<lparr>cb_num_allocated_blocks := cb_num_allocated_blocks b + 1\<rparr>)"

fun alloc_reuse_loop :: "nat \<Rightarrow> CPUBlockStatus list \<Rightarrow> CPUBackend \<Rightarrow> (CPUBlockStatus list \<times> CPUBackend) result" where
  "alloc_reuse_loop 0 blocks b = Inr (blocks, b)"
| "alloc_reuse_loop (Suc n) blocks b =
     (if cb_allocated_blocks_free_list b = [] then Inl IndexError
      else alloc_reuse_loop n (blocks @ [CPUBlockStatus_init (last (cb_allocated_blocks_free_list b))])
             (b\<lparr>cb_allocated_blocks_free_list := butlast (cb_allocated_blocks_free_list b)\<rparr>))"

definition cpu_allocate_blocks :: "CPUBackend \<Rightarrow> bytes list \<Rightarrow> (CPUBlockStatus list \<times> CPUBackend) result" where
  "cpu_allocate_blocks b block_hashes =
     (let num_fresh_blocks = min (int (length block_hashes)) (cb_num_blocks b - cb_num_allocated_blocks b);
          num_reused_blocks = int (length block_hashes) - num_fresh_blocks
      in py_assert (num_reused_blocks \<le> int (length (cb_allocated_blocks_free_list b)))
           (let (blocks, b') = fresh_loop (nat num_fresh_blocks) [] b
            in alloc_reuse_loop (nat num_reused_blocks) blocks b'))"

definition cpu_free :: "CPUBlockStatus \<Rightarrow> CPUBackend \<Rightarrow> CPUBackend" where
  "cpu_free block b =
     b\<lparr>cb_allocated_blocks_free_list := cb_allocated_blocks_free_list b @ [bs_block_id block]\<rparr>"

text \<open>A load/store specification: the medium and the block ids on it.\<close>

record LoadStoreSpec =
  ls_medium :: string
  ls_block_ids :: "int list"

text \<open>The ids are kept in a NumPy array of 64-bit integers, which refuses larger numbers.\<close>

definition int64_array :: "int list \<Rightarrow> int list result" where
  "int64_array ids = (if \<forall>i\<in>set ids. - (2 ^ 63) \<le> i \<and> i < 2 ^ 63 then Inr ids else Inl OverflowError)"

definition GPULoadStoreSpec :: "int list \<Rightarrow> LoadStoreSpec result" where
  "GPULoadStoreSpec ids =
     rbind (int64_array ids) (\<lambda>ids. Inr \<lparr>ls_medium = GPU_medium, ls_block_ids = ids\<rparr>)"

definition CPULoadStoreSpec :: "int list \<Rightarrow> LoadStoreSpec result" where
  "CPULoadStoreSpec ids =
     rbind (int64_array ids) (\<lambda>ids. Inr \<lparr>ls_medium = CPU_medium, ls_block_ids = ids\<rparr>)"

definition get_load_store_spec :: "CPUBlockStatus list \<Rightarrow> LoadStoreSpec result" where
  "get_load_store_spec blocks = CPULoadStoreSpec (map bs_block_id blocks)"

record PrepareStoreOutput =
  block_hashes_to_store :: "bytes list"
  store_spec :: LoadStoreSpec
  block_hashes_evicted :: "bytes list"

record OffloadingEvent =
  oe_block_hashes :: "bytes list"
  oe_block_size :: int
  oe_medium :: string
  oe_removed :: bool

section \<open>The contract of a backend\<close>

lemma c_int32_id: "\<lbrakk>- (2 ^ 31) \<le> x; x < 2 ^ 31\<rbrakk> \<Longrightarrow> c_int32 x = x"
  by (simp add: c_int32_def signed_take_bit_int_eq_self)

lemma c_int64_id: "\<lbrakk>- (2 ^ 63) \<le> x; x < 2 ^ 63\<rbrakk> \<Longrightarrow> c_int64 x = x"
  by (simp add: c_int64_def signed_take_bit_int_eq_self)

lemma c_int32_minus_one [simp]: "c_int32 (- 1) = - 1"
  by (simp add: c_int32_def)

lemma c_int32_range: "- (2 ^ 31) \<le> c_int32 x \<and> c_int32 x < 2 ^ 31"
  unfolding c_int32_def using signed_take_bit_int_greater_eq_minus_exp[of 31 x] signed_take_bit_int_less_exp[of 31 x] by simp

lemma status_init_simps [simp]:
  "bs_ref_cnt (CPUBlockStatus_init i) = - 1" "\<not> is_ready (CPUBlockStatus_init i)"
  by (simp_all add: CPUBlockStatus_init_def is_ready_def)

text \<open>
  \<open>owned b M\<close>: the backend \<open>b\<close> has handed out exactly the block ids \<open>M\<close>. A manager that frees
  what it evicts can allocate what it frees, and the ids it holds stay different.
\<close>

locale offload_backend =
  fixes num_free :: "'b \<Rightarrow> int"
    and alloc :: "'b \<Rightarrow> bytes list \<Rightarrow> (CPUBlockStatus list \<times> 'b) result"
    and release :: "CPUBlockStatus \<Rightarrow> 'b \<Rightarrow> 'b"
    and capacity :: "'b \<Rightarrow> int"
    and owned :: "'b \<Rightarrow> int multiset \<Rightarrow> bool"
  assumes num_free: "owned b M \<Longrightarrow> num_free b = capacity b - int (size M)"
    and owned_range: "\<lbrakk>owned b M; i \<in># M\<rbrakk> \<Longrightarrow> 0 \<le> i \<and> i < 2 ^ 63"
    and owned_once: "owned b M \<Longrightarrow> count M i \<le> 1"
    and alloc: "\<lbrakk>owned b M; int (length hs) \<le> num_free b\<rbrakk> \<Longrightarrow>
      \<exists>blocks b'. alloc b hs = Inr (blocks, b') \<and> length blocks = length hs \<and>
        (\<forall>x\<in>set blocks. bs_ref_cnt x = - 1) \<and> capacity b' = capacity b \<and>
        owned b' (M + mset (map bs_block_id blocks))"
    and release: "owned b (add_mset (bs_block_id x) M) \<Longrightarrow>
      owned (release x b) M \<and> capacity (release x b) = capacity b"
begin

lemma release_all:
  assumes "owned b (mset (map bs_block_id xs) + M)"
  shows "owned (fold release xs b) M \<and> capacity (fold release xs b) = capacity b"
  using assms
proof (induction xs arbitrary: b)
  case (Cons x xs)
  then have "owned (release x b) (mset (map bs_block_id xs) + M)" "capacity (release x b) = capacity b"
    using release[of b x "mset (map bs_block_id xs) + M"] by auto
  with Cons.IH[of "release x b"] show ?case by simp
qed simp

text \<open>Freeing as many blocks as are missing makes an allocation succeed.\<close>

lemma replace_blocks:
  assumes own: "owned b (mset (map bs_block_id xs) + M)"
    and room: "int (length hs) \<le> num_free b + int (length xs)"
  shows "\<exists>blocks b'. alloc (fold release xs b) hs = Inr (blocks, b') \<and> length blocks = length hs \<and>
           (\<forall>x\<in>set blocks. bs_ref_cnt x = - 1) \<and> capacity b' = capacity b \<and>
           owned b' (M + mset (map bs_block_id blocks))"
proof -
  have rel: "owned (fold release xs b) M" "capacity (fold release xs b) = capacity b"
    using release_all[OF own] by auto
  have "int (length hs) \<le> num_free (fold release xs b)"
    using room num_free[OF own] num_free[OF rel(1)] rel(2) by simp
  from alloc[OF rel(1) this] rel(2) show ?thesis by auto
qed

text \<open>The load/store specification of blocks that are owned can always be built.\<close>

lemma owned_spec:
  assumes "owned b M" "set (map bs_block_id xs) \<subseteq> set_mset M"
  shows "get_load_store_spec xs = Inr \<lparr>ls_medium = CPU_medium, ls_block_ids = map bs_block_id xs\<rparr>"
proof -
  have "- (2 ^ 63) \<le> i \<and> i < 2 ^ 63" if "i \<in> set (map bs_block_id xs)" for i
    using owned_range[OF assms(1), of i] assms(2) that by auto
  then show ?thesis by (simp add: get_load_store_spec_def CPULoadStoreSpec_def int64_array_def)
qed

lemma owned_distinct:
  assumes "owned b (mset xs + M)"
  shows "distinct xs \<and> set xs \<inter> set_mset M = {}"
proof -
  have c: "count (mset xs) i + count M i \<le> 1" for i
    using owned_once[OF assms, of i] by simp
  have one: "1 \<le> count (mset xs) i" if "i \<in> set xs" for i
    using that by (simp add: count_greater_eq_one_iff)
  have "count (mset xs) i = 1" if "i \<in> set xs" for i
    using c[of i] one[OF that] by linarith
  then have "distinct xs" by (simp add: distinct_count_atmost_1)
  moreover have "i \<notin># M" if "i \<in> set xs" for i
    unfolding not_in_iff using c[of i] one[OF that] by linarith
  ultimately show ?thesis by auto
qed

end

section \<open>The CPU backend keeps the contract\<close>

definition cpu_owned :: "CPUBackend \<Rightarrow> int multiset \<Rightarrow> bool" where
  "cpu_owned b M \<longleftrightarrow>
     0 \<le> cb_num_allocated_blocks b \<and> cb_num_allocated_blocks b \<le> cb_num_blocks b \<and> cb_num_blocks b \<le> 2 ^ 63 \<and>
     M + mset (cb_allocated_blocks_free_list b) = mset [0..cb_num_allocated_blocks b - 1]"

lemma cpu_owned_num_free: "cpu_owned b M \<Longrightarrow> cpu_get_num_free_blocks b = cb_num_blocks b - int (size M)"
proof -
  assume o: "cpu_owned b M"
  have "size M + length (cb_allocated_blocks_free_list b) = length [0..cb_num_allocated_blocks b - 1]"
    using o unfolding cpu_owned_def by (metis size_mset size_union)
  then have "int (size M) + int (length (cb_allocated_blocks_free_list b)) = cb_num_allocated_blocks b"
    using o by (simp add: cpu_owned_def flip: of_nat_add)
  then show ?thesis by (simp add: cpu_get_num_free_blocks_def)
qed

lemma fresh_loop_owned:
  assumes "cpu_owned b M" "int n \<le> cb_num_blocks b - cb_num_allocated_blocks b"
  shows "\<exists>new b'. fresh_loop n blocks b = (blocks @ new, b') \<and> length new = n \<and>
           (\<forall>x\<in>set new. bs_ref_cnt x = - 1) \<and> cb_num_blocks b' = cb_num_blocks b \<and>
           cb_allocated_blocks_free_list b' = cb_allocated_blocks_free_list b \<and>
           cpu_owned b' (M + mset (map bs_block_id new))"
  using assms
proof (induction n arbitrary: blocks b M)
  case (Suc n)
  let ?a = "cb_num_allocated_blocks b" and ?x = "CPUBlockStatus_init (cb_num_allocated_blocks b)"
  let ?b = "b\<lparr>cb_num_allocated_blocks := cb_num_allocated_blocks b + 1\<rparr>"
  have id: "bs_block_id ?x = ?a"
    using Suc.prems by (simp add: CPUBlockStatus_init_def cpu_owned_def c_int64_id)
  have "mset [0..?a] = add_mset ?a (mset [0..?a - 1])"
    using Suc.prems(1) by (simp add: cpu_owned_def upto_rec2[of 0 ?a])
  then have "cpu_owned ?b (add_mset ?a M)"
    using Suc.prems by (simp add: cpu_owned_def)
  from Suc.IH[OF this, of "blocks @ [?x]"] Suc.prems(2)
  obtain new b' where "fresh_loop n (blocks @ [?x]) ?b = ((blocks @ [?x]) @ new, b')" "length new = n"
    "\<forall>x\<in>set new. bs_ref_cnt x = - 1" "cb_num_blocks b' = cb_num_blocks b"
    "cb_allocated_blocks_free_list b' = cb_allocated_blocks_free_list b"
    "cpu_owned b' (add_mset ?a M + mset (map bs_block_id new))"
    by auto
  then show ?case using id by (intro exI[of _ "?x # new"] exI[of _ b']) simp
qed simp

lemma reuse_loop_owned:
  assumes "cpu_owned b M" "n \<le> length (cb_allocated_blocks_free_list b)"
  shows "\<exists>new b'. alloc_reuse_loop n blocks b = Inr (blocks @ new, b') \<and> length new = n \<and>
           (\<forall>x\<in>set new. bs_ref_cnt x = - 1) \<and> cb_num_blocks b' = cb_num_blocks b \<and>
           cpu_owned b' (M + mset (map bs_block_id new))"
  using assms
proof (induction n arbitrary: blocks b M)
  case (Suc n)
  let ?fl = "cb_allocated_blocks_free_list b" and ?b = "b\<lparr>cb_allocated_blocks_free_list := butlast (cb_allocated_blocks_free_list b)\<rparr>"
  let ?x = "CPUBlockStatus_init (last ?fl)"
  have ne: "?fl \<noteq> []" using Suc.prems(2) by auto
  have ms: "mset ?fl = add_mset (last ?fl) (mset (butlast ?fl))"
    using ne by (metis append_butlast_last_id mset.simps(1) mset.simps(2) mset_append union_mset_add_mset_right add.right_neutral)
  have "last ?fl \<in># mset [0..cb_num_allocated_blocks b - 1]"
    using Suc.prems(1) ms unfolding cpu_owned_def by (metis union_iff union_single_eq_member)
  then have id: "bs_block_id ?x = last ?fl"
    using Suc.prems(1) by (simp add: CPUBlockStatus_init_def cpu_owned_def c_int64_id)
  have "cpu_owned ?b (add_mset (last ?fl) M)"
    using Suc.prems(1) ms by (simp add: cpu_owned_def)
  moreover have "n \<le> length (cb_allocated_blocks_free_list ?b)" using Suc.prems(2) by simp
  ultimately obtain new b' where "alloc_reuse_loop n (blocks @ [?x]) ?b = Inr ((blocks @ [?x]) @ new, b')" "length new = n"
    "\<forall>x\<in>set new. bs_ref_cnt x = - 1" "cb_num_blocks b' = cb_num_blocks b"
    "cpu_owned b' (add_mset (last ?fl) M + mset (map bs_block_id new))"
    using Suc.IH[of ?b "add_mset (last ?fl) M" "blocks @ [?x]"] by auto
  then show ?case using ne id by (intro exI[of _ "?x # new"] exI[of _ b']) simp
qed simp

lemma cpu_alloc_owned:
  assumes own: "cpu_owned b M" and room: "int (length hs) \<le> cpu_get_num_free_blocks b"
  shows "\<exists>blocks b'. cpu_allocate_blocks b hs = Inr (blocks, b') \<and> length blocks = length hs \<and>
           (\<forall>x\<in>set blocks. bs_ref_cnt x = - 1) \<and> cb_num_blocks b' = cb_num_blocks b \<and>
           cpu_owned b' (M + mset (map bs_block_id blocks))"
proof -
  define f where "f = min (int (length hs)) (cb_num_blocks b - cb_num_allocated_blocks b)"
  define r where "r = int (length hs) - f"
  have f0: "0 \<le> f" using own by (simp add: f_def cpu_owned_def)
  have r0: "0 \<le> r" by (simp add: r_def f_def)
  have rl: "r \<le> int (length (cb_allocated_blocks_free_list b))"
    using room by (auto simp: r_def f_def cpu_get_num_free_blocks_def)
  obtain new b1 where 1: "fresh_loop (nat f) [] b = (new, b1)" "length new = nat f"
    "\<forall>x\<in>set new. bs_ref_cnt x = - 1" "cb_num_blocks b1 = cb_num_blocks b"
    "cb_allocated_blocks_free_list b1 = cb_allocated_blocks_free_list b"
    "cpu_owned b1 (M + mset (map bs_block_id new))"
    using fresh_loop_owned[OF own, of "nat f" "[]"] f0 by (auto simp: f_def)
  obtain old b2 where 2: "alloc_reuse_loop (nat r) new b1 = Inr (new @ old, b2)" "length old = nat r"
    "\<forall>x\<in>set old. bs_ref_cnt x = - 1" "cb_num_blocks b2 = cb_num_blocks b1"
    "cpu_owned b2 (M + mset (map bs_block_id new) + mset (map bs_block_id old))"
    using reuse_loop_owned[OF 1(6), of "nat r" new] rl 1(5) by (auto simp: nat_le_iff)
  have "cpu_allocate_blocks b hs = Inr (new @ old, b2)"
    using rl by (simp add: cpu_allocate_blocks_def f_def[symmetric] r_def[symmetric] 1(1) 2(1))
  moreover have "length (new @ old) = length hs" using 1(2) 2(2) f0 r0 by (simp add: r_def)
  ultimately show ?thesis using 1 2
    by (intro exI[of _ "new @ old"] exI[of _ b2]) (auto simp: add.assoc)
qed

interpretation cpu: offload_backend cpu_get_num_free_blocks cpu_allocate_blocks cpu_free cb_num_blocks cpu_owned
proof unfold_locales
  fix b M i assume "cpu_owned b M"
  then have "M + mset (cb_allocated_blocks_free_list b) = mset [0..cb_num_allocated_blocks b - 1]"
    by (simp add: cpu_owned_def)
  then have "count M i + count (mset (cb_allocated_blocks_free_list b)) i = count (mset [0..cb_num_allocated_blocks b - 1]) i"
    by (metis count_union)
  moreover have "count (mset [0..cb_num_allocated_blocks b - 1]) i \<le> 1"
    by (metis distinct_count_atmost_1 distinct_upto nle_le zero_le)
  ultimately show "count M i \<le> 1" by linarith
next
  fix b M i assume o: "cpu_owned b M" and "i \<in># M"
  then have "i \<in># mset [0..cb_num_allocated_blocks b - 1]"
    unfolding cpu_owned_def by (metis union_iff)
  then show "0 \<le> i \<and> i < 2 ^ 63" using o by (simp add: cpu_owned_def)
next
  fix b and x :: CPUBlockStatus and M assume "cpu_owned b (add_mset (bs_block_id x) M)"
  then show "cpu_owned (cpu_free x b) M \<and> cb_num_blocks (cpu_free x b) = cb_num_blocks b"
    by (simp add: cpu_owned_def cpu_free_def)
qed (erule cpu_owned_num_free, erule cpu_alloc_owned, assumption)

lemma cpu_init_owned: "\<lbrakk>0 \<le> n; n \<le> 2 ^ 63\<rbrakk> \<Longrightarrow> cpu_owned (CPUBackend_init bs n) {#}"
  by (simp add: cpu_owned_def CPUBackend_init_def)

end
