(* ===== verification/Offload_Store.thy ===== *)
theory Offload_Store
  imports Offload_Backend
begin

text \<open>
  What the two offloading managers share: the loop of a lookup, events, the insertion of new
  blocks, and the locale \<open>offload_store\<close> for the loops that pin, unpin and publish blocks, each
  block found and replaced in place. It is interpreted on both managers.
\<close>

section \<open>Shared operations\<close>

text \<open>The loop of \<^verbatim>\<open>lookup\<close>, over the way a manager finds a block.\<close>

fun hit_loop :: "(bytes \<Rightarrow> CPUBlockStatus option) \<Rightarrow> bytes list \<Rightarrow> int \<Rightarrow> int" where
  "hit_loop get [] hit_count = hit_count"
| "hit_loop get (h # hs) hit_count =
     (case get h of None \<Rightarrow> hit_count
      | Some block \<Rightarrow> if \<not> is_ready block then hit_count else hit_loop get hs (hit_count + 1))"

definition emit_event :: "CPUBackend \<Rightarrow> bytes list \<Rightarrow> bool \<Rightarrow> OffloadingEvent list option \<Rightarrow> OffloadingEvent list option" where
  "emit_event b hs removed events =
     (case events of None \<Rightarrow> None
      | Some es \<Rightarrow> if hs = [] then Some es
          else Some (es @ [\<lparr>oe_block_hashes = hs, oe_block_size = cb_block_size b, oe_medium = cb_medium b, oe_removed = removed\<rparr>]))"

definition insert_blocks :: "bytes list \<Rightarrow> CPUBlockStatus list \<Rightarrow> (bytes, CPUBlockStatus) dict \<Rightarrow> (bytes, CPUBlockStatus) dict" where
  "insert_blocks hs blocks d = fold (\<lambda>(h, b). AList.update h b) (zip hs blocks) d"

section \<open>Lookup counts the leading blocks that are ready\<close>

definition ready_in :: "(bytes \<Rightarrow> CPUBlockStatus option) \<Rightarrow> bytes \<Rightarrow> bool" where
  "ready_in get h = (case get h of None \<Rightarrow> False | Some b \<Rightarrow> is_ready b)"

lemma hit_loop_takeWhile: "hit_loop get hs n = n + int (length (takeWhile (ready_in get) hs))"
  by (induction hs arbitrary: n) (auto simp: ready_in_def split: option.splits)

section \<open>Lists of statuses as dictionaries\<close>

lemma insert_blocks_new:
  assumes "length hs = length bs" "distinct hs" "\<forall>h\<in>set hs. map_of d h = None"
  shows "insert_blocks hs bs d = d @ zip hs bs"
  using assms
proof (induction hs bs arbitrary: d rule: list_induct2)
  case (Cons h hs b bs)
  then have "insert_blocks hs bs (d @ [(h, b)]) = (d @ [(h, b)]) @ zip hs bs"
    by (intro Cons.IH) (auto simp: map_add_def)
  with Cons.prems show ?case by (simp add: insert_blocks_def update_new)
qed (simp add: insert_blocks_def)

lemma mset_split_keys:
  assumes "distinct (map fst d)" "distinct ks" "set ks \<subseteq> fst ` set d"
  shows "mset d = mset (map (\<lambda>k. (k, the (map_of d k))) ks) + mset (filter (\<lambda>p. fst p \<notin> set ks) d)"
proof -
  let ?f = "filter (\<lambda>p. fst p \<in> set ks) d" and ?g = "map (\<lambda>k. (k, the (map_of d k))) ks"
  have "distinct ?f" using assms(1) by (simp add: distinct_map)
  moreover have "distinct ?g" using assms(2) by (simp add: distinct_map inj_on_def)
  moreover have "set ?f = set ?g"
    using assms(1,3) by (auto simp: map_of_eq_Some_iff[OF assms(1)] image_iff)
  ultimately have "mset ?f = mset ?g" by (rule set_eq_iff_mset_eq_distinct[THEN iffD1])
  then show ?thesis using multiset_partition[of "mset d" "\<lambda>p. fst p \<in> set ks"] by (simp only: mset_filter)
qed

section \<open>Pinning, unpinning and publishing blocks\<close>

definition bump :: "int \<Rightarrow> CPUBlockStatus \<Rightarrow> CPUBlockStatus" where
  "bump n b = b\<lparr>bs_ref_cnt := bs_ref_cnt b + n\<rparr>"

definition publish :: "CPUBlockStatus \<Rightarrow> CPUBlockStatus" where
  "publish b = (if is_ready b then b else b\<lparr>bs_ref_cnt := 0\<rparr>)"

definition loadable :: "(bytes \<Rightarrow> CPUBlockStatus option) \<Rightarrow> bytes list \<Rightarrow> bool" where
  "loadable f hs \<longleftrightarrow> (\<forall>h\<in>set hs. \<exists>b. f h = Some b \<and> is_ready b \<and> bs_ref_cnt b + int (count_list hs h) < 2 ^ 31)"

definition unloadable :: "(bytes \<Rightarrow> CPUBlockStatus option) \<Rightarrow> bytes list \<Rightarrow> bool" where
  "unloadable f hs \<longleftrightarrow> (\<forall>h\<in>set hs. \<exists>b. f h = Some b \<and> int (count_list hs h) \<le> bs_ref_cnt b \<and> bs_ref_cnt b < 2 ^ 31)"

lemma count_list_distinct: "distinct hs \<Longrightarrow> count_list hs h = (if h \<in> set hs then 1 else 0)"
  by (induction hs) auto

lemma bump_simps [simp]:
  "bs_block_id (bump n b) = bs_block_id b" "bs_ref_cnt (bump n b) = bs_ref_cnt b + n"
  "bump m (bump n b) = bump (n + m) b" "bump 0 b = b"
  by (simp_all add: bump_def)

lemma add_ref_cnt_bump:
  "\<lbrakk>- (2 ^ 31) \<le> bs_ref_cnt b + d; bs_ref_cnt b + d < 2 ^ 31\<rbrakk> \<Longrightarrow> add_ref_cnt d b = bump d b"
  by (simp add: add_ref_cnt_def bump_def c_int32_id)

locale offload_store =
  fixes get :: "'s \<Rightarrow> bytes \<Rightarrow> CPUBlockStatus option"
    and put :: "bytes \<Rightarrow> CPUBlockStatus \<Rightarrow> 's \<Rightarrow> 's"
    and shape :: "'s \<Rightarrow> 'x"
    and miss :: py_error
    and load :: "bytes \<Rightarrow> CPUBlockStatus list \<times> 's \<Rightarrow> (CPUBlockStatus list \<times> 's) result"
    and unload :: "bytes \<Rightarrow> 's \<Rightarrow> 's result"
    and stored :: "bytes \<Rightarrow> bytes list \<times> 's \<Rightarrow> (bytes list \<times> 's) result"
  assumes get_put: "get s h \<noteq> None \<Longrightarrow> get (put h b s) = (get s)(h \<mapsto> b)"
    and shape_put: "\<lbrakk>get s h = Some b; bs_block_id b' = bs_block_id b\<rbrakk> \<Longrightarrow> shape (put h b' s) = shape s"
    and load: "load h (bs, s) = (case get s h of None \<Rightarrow> Inl miss | Some b \<Rightarrow>
      py_assert (is_ready b) (Inr (bs @ [add_ref_cnt 1 b], put h (add_ref_cnt 1 b) s)))"
    and unload: "unload h s = (case get s h of None \<Rightarrow> Inl miss | Some b \<Rightarrow>
      py_assert (0 < bs_ref_cnt b) (Inr (put h (add_ref_cnt (- 1) b) s)))"
    and stored: "get s h = Some b \<Longrightarrow> stored h (done, s) =
      Inr (if is_ready b then (done, s) else (done @ [h], put h (b\<lparr>bs_ref_cnt := 0\<rparr>) s))"
    and stored_unknown: "\<lbrakk>get s h = None; stored h (done, s) = Inr r\<rbrakk> \<Longrightarrow> r = (done, s)"
begin

text \<open>Whatever the statuses, none of the loops changes which blocks there are.\<close>

lemma load_shape: "mfold load hs (bs, s) = Inr (bs', s') \<Longrightarrow> shape s' = shape s"
proof (induction hs arbitrary: bs s)
  case (Cons h hs)
  then obtain b where b: "get s h = Some b" "mfold load hs (bs @ [add_ref_cnt 1 b], put h (add_ref_cnt 1 b) s) = Inr (bs', s')"
    by (auto simp: load py_assert_def split: option.splits if_splits)
  from Cons.IH[OF b(2)] b(1) show ?case by (simp add: shape_put add_ref_cnt_def)
qed simp

lemma load_ready: "\<lbrakk>mfold load hs (bs, s) = Inr r; distinct hs; h \<in> set hs\<rbrakk> \<Longrightarrow> ready_in (get s) h"
proof (induction hs arbitrary: bs s)
  case (Cons k hs)
  then obtain b where b: "get s k = Some b" "is_ready b" "mfold load hs (bs @ [add_ref_cnt 1 b], put k (add_ref_cnt 1 b) s) = Inr r"
    by (auto simp: load py_assert_def split: option.splits if_splits)
  show ?case
  proof (cases "h = k")
    case True
    then show ?thesis using b by (simp add: ready_in_def)
  next
    case False
    from Cons.IH[OF b(3)] Cons.prems(2,3) False show ?thesis using b(1) by (simp add: get_put ready_in_def)
  qed
qed simp

lemma unload_shape: "mfold unload hs s = Inr s' \<Longrightarrow> shape s' = shape s"
proof (induction hs arbitrary: s)
  case (Cons h hs)
  from Cons.prems obtain s1 where s1: "unload h s = Inr s1" "mfold unload hs s1 = Inr s'" by (auto split: sum.splits)
  from s1(1) have "shape s1 = shape s"
    by (auto simp: unload[of h s] py_assert_def add_ref_cnt_def shape_put split: option.splits if_splits)
  with Cons.IH[OF s1(2)] show ?case by simp
qed simp

lemma stored_shape: "mfold stored hs (done, s) = Inr (done', s') \<Longrightarrow> shape s' = shape s"
proof (induction hs arbitrary: "done" s)
  case (Cons h hs)
  from Cons.prems obtain d1 s1 where s1: "stored h (done, s) = Inr (d1, s1)" "mfold stored hs (d1, s1) = Inr (done', s')"
    by (auto split: sum.splits)
  have "shape s1 = shape s"
  proof (cases "get s h")
    case None
    from stored_unknown[OF this s1(1)] show ?thesis by simp
  next
    case (Some b)
    from stored[OF this] s1(1) show ?thesis using Some by (auto simp: shape_put split: if_splits)
  qed
  with Cons.IH[OF s1(2)] show ?case by simp
qed simp


lemma load_all:
  assumes "loadable (get s) hs"
  shows "\<exists>bs s'. mfold load hs (bs0, s) = Inr (bs0 @ bs, s') \<and> shape s' = shape s \<and>
           map bs_block_id bs = map (\<lambda>h. bs_block_id (the (get s h))) hs \<and>
           (\<forall>x. get s' x = map_option (bump (int (count_list hs x))) (get s x))"
  using assms
proof (induction hs arbitrary: bs0 s)
  case Nil
  then show ?case by (simp add: option.map_ident_strong)
next
  case (Cons h hs)
  then obtain b where b: "get s h = Some b" "is_ready b" "bs_ref_cnt b + 1 + int (count_list hs h) < 2 ^ 31"
    by (auto simp: loadable_def algebra_simps)
  let ?s = "put h (bump 1 b) s"
  have add: "add_ref_cnt 1 b = bump 1 b"
    using b(2,3) by (intro add_ref_cnt_bump) (auto simp: is_ready_def)
  have g: "get ?s = (get s)(h \<mapsto> bump 1 b)" using b(1) by (simp add: get_put)
  have "loadable (get ?s) hs"
    using Cons.prems b by (auto simp: loadable_def g is_ready_def)
  then obtain bs s' where IH: "mfold load hs (bs0 @ [bump 1 b], ?s) = Inr ((bs0 @ [bump 1 b]) @ bs, s')"
    "shape s' = shape ?s" "map bs_block_id bs = map (\<lambda>h. bs_block_id (the (get ?s h))) hs"
    "\<forall>x. get s' x = map_option (bump (int (count_list hs x))) (get ?s x)"
    using Cons.IH[of ?s "bs0 @ [bump 1 b]"] by blast
  have "map (\<lambda>h. bs_block_id (the (get ?s h))) hs = map (\<lambda>h. bs_block_id (the (get s h))) hs"
    using b(1) by (auto simp: g)
  moreover have "shape ?s = shape s" using b(1) by (simp add: shape_put)
  moreover have "get s' x = map_option (bump (int (count_list (h # hs) x))) (get s x)" for x
    using IH(4) b(1) by (simp add: g add.commute)
  ultimately show ?case
    using IH(1-3) b(1,2) by (intro exI[of _ "bump 1 b # bs"] exI[of _ s']) (simp add: load add)
qed

lemma unload_all:
  assumes "unloadable (get s) hs"
  shows "\<exists>s'. mfold unload hs s = Inr s' \<and> shape s' = shape s \<and>
           (\<forall>x. get s' x = map_option (bump (- int (count_list hs x))) (get s x))"
  using assms
proof (induction hs arbitrary: s)
  case Nil
  then show ?case by (simp add: option.map_ident_strong)
next
  case (Cons h hs)
  then obtain b where b: "get s h = Some b" "int (count_list hs h) + 1 \<le> bs_ref_cnt b" "bs_ref_cnt b < 2 ^ 31"
    by (auto simp: unloadable_def algebra_simps)
  let ?s = "put h (bump (- 1) b) s"
  have add: "add_ref_cnt (- 1) b = bump (- 1) b"
    using b(2,3) by (intro add_ref_cnt_bump) auto
  have g: "get ?s = (get s)(h \<mapsto> bump (- 1) b)" using b(1) by (simp add: get_put)
  have "unloadable (get ?s) hs"
    using Cons.prems b by (auto simp: unloadable_def g)
  then obtain s' where IH: "mfold unload hs ?s = Inr s'" "shape s' = shape ?s"
    "\<forall>x. get s' x = map_option (bump (- int (count_list hs x))) (get ?s x)"
    using Cons.IH[of ?s] by blast
  moreover have "shape ?s = shape s" using b(1) by (simp add: shape_put)
  moreover have "get s' x = map_option (bump (- int (count_list (h # hs) x))) (get s x)" for x
    using IH(3) b(1) by (simp add: g)
  moreover have "unload h s = Inr ?s" using b by (simp add: unload add)
  ultimately show ?case by auto
qed

lemma stored_all:
  assumes "\<forall>h\<in>set hs. get s h \<noteq> None"
  shows "\<exists>done s'. mfold stored hs (done0, s) = Inr (done, s') \<and> shape s' = shape s \<and>
           (\<forall>x. get s' x = (if x \<in> set hs then map_option publish (get s x) else get s x)) \<and>
           (distinct hs \<longrightarrow> done = done0 @ filter (\<lambda>h. \<not> ready_in (get s) h) hs)"
  using assms
proof (induction hs arbitrary: done0 s)
  case (Cons h hs)
  then obtain b where b: "get s h = Some b" by auto
  define s1 where "s1 = (if is_ready b then s else put h (b\<lparr>bs_ref_cnt := 0\<rparr>) s)"
  define d1 where "d1 = (if is_ready b then done0 else done0 @ [h])"
  have step: "stored h (done0, s) = Inr (d1, s1)" using stored[OF b] by (simp add: s1_def d1_def)
  have g: "get s1 = (get s)(h \<mapsto> publish b)" using b by (auto simp: s1_def publish_def get_put)
  have sh: "shape s1 = shape s" using b by (simp add: s1_def shape_put)
  have "\<forall>k\<in>set hs. get s1 k \<noteq> None" using Cons.prems by (simp add: g)
  then obtain d' s' where IH: "mfold stored hs (d1, s1) = Inr (d', s')" "shape s' = shape s1"
    "\<forall>x. get s' x = (if x \<in> set hs then map_option publish (get s1 x) else get s1 x)"
    "distinct hs \<longrightarrow> d' = d1 @ filter (\<lambda>h. \<not> ready_in (get s1) h) hs"
    using Cons.IH[of s1 d1] by blast
  have pp: "publish (publish x) = publish x" for x by (simp add: publish_def is_ready_def)
  have "get s' x = (if x \<in> set (h # hs) then map_option publish (get s x) else get s x)" for x
    using IH(3) b by (simp add: g pp)
  moreover have "d' = done0 @ filter (\<lambda>h. \<not> ready_in (get s) h) (h # hs)" if "distinct (h # hs)"
  proof -
    have "filter (\<lambda>k. \<not> ready_in (get s1) k) hs = filter (\<lambda>k. \<not> ready_in (get s) k) hs"
      using that by (intro filter_cong) (auto simp: g ready_in_def)
    with IH(4) that b show ?thesis by (simp add: d1_def ready_in_def)
  qed
  ultimately show ?case using step IH(1,2) sh by simp
qed simp

text \<open>A load that is prepared and completed leaves every status as it was.\<close>

lemma load_unload:
  assumes "loadable (get s) hs" "mfold load hs (bs0, s) = Inr (bs, s1)"
  shows "\<exists>s2. mfold unload hs s1 = Inr s2 \<and> get s2 = get s \<and> shape s2 = shape s"
proof -
  from load_all[OF assms(1), of bs0] assms(2)
  have s1: "shape s1 = shape s" "\<forall>x. get s1 x = map_option (bump (int (count_list hs x))) (get s x)"
    by auto
  have "unloadable (get s1) hs"
    using assms(1) by (auto simp: unloadable_def loadable_def s1 is_ready_def)
  from unload_all[OF this] s1 show ?thesis
    by (auto simp: option.map_comp o_def option.map_ident_strong fun_eq_iff)
qed

end

end
