(* ===== verification/Offload_LRU.thy ===== *)
theory Offload_LRU
  imports Offload_Store
begin

text \<open>
  The offloading manager that evicts by least recent use (\<^verbatim>\<open>v1/kv_offload/lru_manager.py\<close>). Its
  state is an ordered dictionary from block hashes to block statuses, the backend and the optional
  list of events.
\<close>

section \<open>The manager\<close>

record LRUOffloadingManager =
  lru_backend :: CPUBackend
  lru_blocks :: "(bytes, CPUBlockStatus) dict"
  lru_events :: "OffloadingEvent list option"

definition LRUOffloadingManager_init :: "CPUBackend \<Rightarrow> bool \<Rightarrow> LRUOffloadingManager" where
  "LRUOffloadingManager_init backend enable_events =
     \<lparr>lru_backend = backend, lru_blocks = [], lru_events = (if enable_events then Some [] else None)\<rparr>"

definition lru_lookup :: "LRUOffloadingManager \<Rightarrow> bytes list \<Rightarrow> int" where
  "lru_lookup m hs = hit_loop (map_of (lru_blocks m)) hs 0"

definition lru_load_one :: "bytes \<Rightarrow> CPUBlockStatus list \<times> LRUOffloadingManager \<Rightarrow> (CPUBlockStatus list \<times> LRUOffloadingManager) result" where
  "lru_load_one h = (\<lambda>(blocks, m). rbind (dict_item (lru_blocks m) h) (\<lambda>block.
     py_assert (is_ready block)
       (let block = add_ref_cnt 1 block
        in Inr (blocks @ [block], m\<lparr>lru_blocks := AList.update h block (lru_blocks m)\<rparr>))))"

definition lru_prepare_load :: "LRUOffloadingManager \<Rightarrow> bytes list \<Rightarrow> (LoadStoreSpec \<times> LRUOffloadingManager) result" where
  "lru_prepare_load m hs =
     rbind (mfold lru_load_one hs ([], m)) (\<lambda>(blocks, m).
     rbind (get_load_store_spec blocks) (\<lambda>spec. Inr (spec, m)))"

definition lru_touch_one :: "bytes \<Rightarrow> LRUOffloadingManager \<Rightarrow> LRUOffloadingManager result" where
  "lru_touch_one h m =
     (if map_of (lru_blocks m) h \<noteq> None
      then rbind (move_to_end h (lru_blocks m)) (\<lambda>d. Inr (m\<lparr>lru_blocks := d\<rparr>))
      else Inr m)"

definition lru_touch :: "LRUOffloadingManager \<Rightarrow> bytes list \<Rightarrow> LRUOffloadingManager result" where
  "lru_touch m hs = mfold lru_touch_one (rev hs) m"

definition lru_unload_one :: "bytes \<Rightarrow> LRUOffloadingManager \<Rightarrow> LRUOffloadingManager result" where
  "lru_unload_one h m = rbind (dict_item (lru_blocks m) h) (\<lambda>block.
     py_assert (0 < bs_ref_cnt block)
       (Inr (m\<lparr>lru_blocks := AList.update h (add_ref_cnt (- 1) block) (lru_blocks m)\<rparr>)))"

definition lru_complete_load :: "LRUOffloadingManager \<Rightarrow> bytes list \<Rightarrow> LRUOffloadingManager result" where
  "lru_complete_load m hs = mfold lru_unload_one hs m"

text \<open>
  The search for blocks to evict: a \<^verbatim>\<open>for\<close> loop over the dictionary in its order that is left by
  \<^verbatim>\<open>break\<close> once enough blocks are found; the \<^verbatim>\<open>else\<close> branch, \<^verbatim>\<open>return None\<close>, is taken otherwise.
\<close>

fun evict_scan :: "(bytes, CPUBlockStatus) dict \<Rightarrow> int \<Rightarrow> bytes list \<Rightarrow> bytes list option" where
  "evict_scan [] n to_evict = None"
| "evict_scan ((h, block) # d) n to_evict =
     (if bs_ref_cnt block = 0
      then if n - 1 = 0 then Some (to_evict @ [h]) else evict_scan d (n - 1) (to_evict @ [h])
      else evict_scan d n to_evict)"

definition lru_evict_one :: "bytes \<Rightarrow> LRUOffloadingManager \<Rightarrow> LRUOffloadingManager result" where
  "lru_evict_one h m = rbind (dict_item (lru_blocks m) h) (\<lambda>block.
     Inr (m\<lparr>lru_blocks := AList.delete h (lru_blocks m), lru_backend := cpu_free block (lru_backend m)\<rparr>))"

definition lru_prepare_store :: "LRUOffloadingManager \<Rightarrow> bytes list \<Rightarrow> (PrepareStoreOutput option \<times> LRUOffloadingManager) result" where
  "lru_prepare_store m hs =
     (let to_store = filter (\<lambda>h. map_of (lru_blocks m) h = None) hs;
          num_blocks_to_evict = int (length to_store) - cpu_get_num_free_blocks (lru_backend m)
      in case (if 0 < num_blocks_to_evict then evict_scan (lru_blocks m) num_blocks_to_evict [] else Some []) of
           None \<Rightarrow> Inr (None, m)
         | Some to_evict \<Rightarrow>
             rbind (mfold lru_evict_one to_evict m) (\<lambda>m.
             let m = m\<lparr>lru_events := emit_event (lru_backend m) to_evict True (lru_events m)\<rparr>
             in rbind (cpu_allocate_blocks (lru_backend m) to_store) (\<lambda>(blocks, backend).
             py_assert (length blocks = length to_store)
               (rbind (get_load_store_spec blocks) (\<lambda>spec.
                Inr (Some \<lparr>block_hashes_to_store = to_store, store_spec = spec, block_hashes_evicted = to_evict\<rparr>,
                     m\<lparr>lru_backend := backend, lru_blocks := insert_blocks to_store blocks (lru_blocks m)\<rparr>))))))"

definition lru_stored_one :: "bytes \<Rightarrow> bytes list \<times> LRUOffloadingManager \<Rightarrow> (bytes list \<times> LRUOffloadingManager) result" where
  "lru_stored_one h = (\<lambda>(stored, m). rbind (dict_item (lru_blocks m) h) (\<lambda>block.
     if \<not> is_ready block
     then Inr (stored @ [h], m\<lparr>lru_blocks := AList.update h (block\<lparr>bs_ref_cnt := 0\<rparr>) (lru_blocks m)\<rparr>)
     else Inr (stored, m)))"

definition lru_failed_one :: "bytes \<Rightarrow> LRUOffloadingManager \<Rightarrow> LRUOffloadingManager result" where
  "lru_failed_one h m = rbind (dict_item (lru_blocks m) h) (\<lambda>block.
     if \<not> is_ready block
     then Inr (m\<lparr>lru_backend := cpu_free block (lru_backend m), lru_blocks := AList.delete h (lru_blocks m)\<rparr>)
     else Inr m)"

definition lru_complete_store :: "LRUOffloadingManager \<Rightarrow> bytes list \<Rightarrow> bool \<Rightarrow> LRUOffloadingManager result" where
  "lru_complete_store m hs success =
     rbind (if success then mfold lru_stored_one hs ([], m)
            else rbind (mfold lru_failed_one hs m) (\<lambda>m. Inr ([], m))) (\<lambda>(stored, m).
     Inr (m\<lparr>lru_events := emit_event (lru_backend m) stored False (lru_events m)\<rparr>))"

definition lru_take_events :: "LRUOffloadingManager \<Rightarrow> OffloadingEvent list \<times> LRUOffloadingManager" where
  "lru_take_events m =
     (case lru_events m of None \<Rightarrow> ([], m) | Some es \<Rightarrow> (es, m\<lparr>lru_events := Some []\<rparr>))"

section \<open>Invariant and effect of the operations\<close>

definition lru_ids :: "LRUOffloadingManager \<Rightarrow> int multiset" where
  "lru_ids m = mset (map (bs_block_id \<circ> snd) (lru_blocks m))"

definition lru_ok :: "LRUOffloadingManager \<Rightarrow> bool" where
  "lru_ok m \<longleftrightarrow> distinct (map fst (lru_blocks m)) \<and> cpu_owned (lru_backend m) (lru_ids m)"

definition lru_get :: "LRUOffloadingManager \<Rightarrow> bytes \<Rightarrow> CPUBlockStatus option" where
  "lru_get m h = map_of (lru_blocks m) h"

definition lru_put :: "bytes \<Rightarrow> CPUBlockStatus \<Rightarrow> LRUOffloadingManager \<Rightarrow> LRUOffloadingManager" where
  "lru_put h b m = m\<lparr>lru_blocks := AList.update h b (lru_blocks m)\<rparr>"

definition lru_shape :: "LRUOffloadingManager \<Rightarrow> (bytes \<times> int) list \<times> CPUBackend \<times> OffloadingEvent list option" where
  "lru_shape m = (map (\<lambda>(h, b). (h, bs_block_id b)) (lru_blocks m), lru_backend m, lru_events m)"

lemma map_update_same:
  "\<lbrakk>map_of d h = Some b; f (h, b') = f (h, b); distinct (map fst d)\<rbrakk> \<Longrightarrow> map f (AList.update h b' d) = map f d"
  by (induction d) (auto split: if_splits)

lemma map_update_ids:
  "\<lbrakk>map_of d h = Some b; bs_block_id b' = bs_block_id b\<rbrakk> \<Longrightarrow>
     map (\<lambda>(h, b). (h, bs_block_id b)) (AList.update h b' d) = map (\<lambda>(h, b). (h, bs_block_id b)) d"
  by (induction d) (auto split: if_splits)

lemma lru_ok_shape: "lru_shape m = lru_shape m' \<Longrightarrow> lru_ok m = lru_ok m'"
proof -
  have *: "map fst (lru_blocks x) = map fst (fst (lru_shape x))"
    "map (bs_block_id \<circ> snd) (lru_blocks x) = map snd (fst (lru_shape x))"
    "lru_backend x = fst (snd (lru_shape x))" for x
    by (auto simp: lru_shape_def)
  show "lru_shape m = lru_shape m' \<Longrightarrow> lru_ok m = lru_ok m'"
    by (simp add: lru_ok_def lru_ids_def *)
qed

interpretation lru: offload_store lru_get lru_put lru_shape KeyError lru_load_one lru_unload_one lru_stored_one
  by unfold_locales
    (auto simp: lru_get_def lru_put_def lru_shape_def lru_load_one_def lru_unload_one_def lru_stored_one_def
      dict_item_def map_of_update map_update_ids Let_def fun_eq_iff split: option.splits)

lemma lru_events_ok [simp]: "lru_ok (m\<lparr>lru_events := e\<rparr>) = lru_ok m" "lru_get (m\<lparr>lru_events := e\<rparr>) = lru_get m"
  by (simp_all add: lru_ok_def lru_ids_def lru_get_def fun_eq_iff)

subsection \<open>Lookup and touch\<close>

lemma lru_lookup_eq: "lru_lookup m hs = int (length (takeWhile (ready_in (lru_get m)) hs))"
  by (simp add: lru_lookup_def hit_loop_takeWhile lru_get_def[abs_def])

lemma map_of_move_to_end: "map_of d h = Some b \<Longrightarrow> map_of (AList.delete h d @ [(h, b)]) = map_of d"
  by (auto simp: fun_eq_iff map_add_def map_of_delete split: option.splits)

lemma mset_move_to_end:
  assumes "distinct (map fst d)" "map_of d h = Some b"
  shows "mset (AList.delete h d @ [(h, b)]) = mset d"
proof -
  have "h \<in> fst ` set d" using assms(2) by (force dest: map_of_SomeD)
  then have "mset d = mset [(h, b)] + mset (filter (\<lambda>p. fst p \<noteq> h) d)"
    using mset_split_keys[OF assms(1), of "[h]"] assms(2) by simp
  moreover have "AList.delete h d = filter (\<lambda>p. fst p \<noteq> h) d"
    by (auto simp: AList.delete_eq split_def intro!: filter_cong)
  ultimately show ?thesis by simp
qed

text \<open>Touching never raises; it reorders the dictionary and changes no status.\<close>

lemma lru_touch_one_ok:
  assumes "lru_ok m"
  shows "\<exists>m'. lru_touch_one h m = Inr m' \<and> lru_ok m' \<and> lru_get m' = lru_get m \<and>
           lru_backend m' = lru_backend m \<and> lru_events m' = lru_events m"
proof (cases "map_of (lru_blocks m) h")
  case None
  with assms show ?thesis by (simp add: lru_touch_one_def)
next
  case (Some b)
  let ?d = "AList.delete h (lru_blocks m) @ [(h, b)]"
  have ms: "mset ?d = mset (lru_blocks m)"
    using assms Some by (intro mset_move_to_end) (auto simp: lru_ok_def)
  then have "mset (map fst ?d) = mset (map fst (lru_blocks m))" "mset (map (bs_block_id \<circ> snd) ?d) = lru_ids m"
    unfolding lru_ids_def by (metis mset_map)+
  moreover from this(1) have "distinct (map fst ?d)" using assms mset_eq_imp_distinct_iff unfolding lru_ok_def by metis
  ultimately have "lru_ok (m\<lparr>lru_blocks := ?d\<rparr>)"
    using assms unfolding lru_ok_def by (simp add: lru_ids_def)
  then show ?thesis
    using Some map_of_move_to_end[OF Some]
    by (simp add: lru_touch_one_def move_to_end_def lru_get_def fun_eq_iff)
qed

lemma lru_touch_ok:
  assumes "lru_ok m"
  shows "\<exists>m'. lru_touch m hs = Inr m' \<and> lru_ok m' \<and> lru_get m' = lru_get m \<and>
           lru_backend m' = lru_backend m \<and> lru_events m' = lru_events m"
  unfolding lru_touch_def
  by (rule mfold_rule[where I = "\<lambda>_ m'. lru_ok m' \<and> lru_get m' = lru_get m \<and>
           lru_backend m' = lru_backend m \<and> lru_events m' = lru_events m"])
    (use assms lru_touch_one_ok in \<open>auto, metis\<close>)

subsection \<open>Preparing a store\<close>

definition idle :: "(bytes, CPUBlockStatus) dict \<Rightarrow> bytes list" where
  "idle d = map fst (filter (\<lambda>p. bs_ref_cnt (snd p) = 0) d)"

lemma evict_scan_idle:
  "0 < n \<Longrightarrow> evict_scan d n acc =
     (if n \<le> int (length (idle d)) then Some (acc @ take (nat n) (idle d)) else None)"
proof (induction d n acc rule: evict_scan.induct)
  case (2 h b d n acc)
  have "nat n = Suc (nat (n - 1))" using 2(3) by simp
  with 2 show ?case by (auto simp: idle_def)
qed (simp add: idle_def)

lemma lru_evict_all:
  assumes "distinct ks" "set ks \<subseteq> fst ` set (lru_blocks m)"
  shows "mfold lru_evict_one ks m =
    Inr (m\<lparr>lru_blocks := filter (\<lambda>p. fst p \<notin> set ks) (lru_blocks m),
           lru_backend := fold cpu_free (map (\<lambda>k. the (map_of (lru_blocks m) k)) ks) (lru_backend m)\<rparr>)"
  using assms
proof (induction ks arbitrary: m)
  case (Cons k ks)
  from Cons.prems obtain b where b: "map_of (lru_blocks m) k = Some b"
    by (metis imageE insert_subset list.set(2) map_of_eq_None_iff not_None_eq image_eqI)
  let ?m = "m\<lparr>lru_blocks := AList.delete k (lru_blocks m), lru_backend := cpu_free b (lru_backend m)\<rparr>"
  have "set ks \<subseteq> fst ` set (lru_blocks ?m)"
    using Cons.prems arg_cong[OF map_fst_delete[of k "lru_blocks m"], of set] by auto
  moreover have "map (\<lambda>k. the (map_of (lru_blocks ?m) k)) ks = map (\<lambda>k. the (map_of (lru_blocks m) k)) ks"
    using Cons.prems(1) by (auto simp: map_of_delete)
  moreover have "filter (\<lambda>p. fst p \<notin> set ks) (lru_blocks ?m) = filter (\<lambda>p. fst p \<notin> set (k # ks)) (lru_blocks m)"
    by (auto simp: AList.delete_eq split_def intro!: filter_cong)
  ultimately show ?case
    using Cons.IH[of ?m] Cons.prems(1) b by (simp add: lru_evict_one_def dict_item_def del: map_eq_conv)
qed simp

text \<open>
  What a manager promises of a store that it prepares: of the hashes given, exactly those not yet
  known get a new block that is not ready; only blocks with no reader are evicted; every other
  status is kept.
\<close>

definition store_prepared :: "(bytes \<Rightarrow> CPUBlockStatus option) \<Rightarrow> bytes list \<Rightarrow> PrepareStoreOutput \<Rightarrow> (bytes \<Rightarrow> CPUBlockStatus option) \<Rightarrow> bool" where
  "store_prepared get hs out get' \<longleftrightarrow>
     block_hashes_to_store out = filter (\<lambda>h. get h = None) hs \<and>
     distinct (block_hashes_evicted out) \<and>
     (\<forall>h\<in>set (block_hashes_evicted out). \<exists>b. get h = Some b \<and> bs_ref_cnt b = 0) \<and>
     ls_medium (store_spec out) = CPU_medium \<and>
     length (ls_block_ids (store_spec out)) = length (block_hashes_to_store out) \<and>
     (\<forall>i<length (block_hashes_to_store out). get' (block_hashes_to_store out ! i) =
        Some \<lparr>bs_ref_cnt = - 1, bs_block_id = ls_block_ids (store_spec out) ! i\<rparr>) \<and>
     (\<forall>h. h \<notin> set (block_hashes_to_store out) \<longrightarrow>
        get' h = (if h \<in> set (block_hashes_evicted out) then None else get h))"

lemma idle_keys: "set (idle d) \<subseteq> fst ` set d"
  by (auto simp: idle_def)

lemma idle_ref_cnt: "\<lbrakk>distinct (map fst d); h \<in> set (idle d)\<rbrakk> \<Longrightarrow> \<exists>b. map_of d h = Some b \<and> bs_ref_cnt b = 0"
  by (force simp: idle_def)

lemma distinct_idle: "distinct (map fst d) \<Longrightarrow> distinct (idle d)"
  by (simp add: idle_def distinct_map_filter)

lemma map_of_filter_keys: "map_of (filter (\<lambda>p. fst p \<notin> A) d) h = (if h \<in> A then None else map_of d h)"
  by (induction d) auto

lemma emit_event_freed [simp]: "emit_event (fold cpu_free xs b) = emit_event b"
proof -
  have "cb_block_size (fold cpu_free xs b) = cb_block_size b \<and> cb_medium (fold cpu_free xs b) = cb_medium b"
    by (induction xs arbitrary: b) (auto simp: cpu_free_def)
  then show ?thesis by (intro ext) (simp add: emit_event_def split: option.splits)
qed

lemma lru_replace:
  assumes ok: "lru_ok m" and ks: "distinct ks" "set ks \<subseteq> fst ` set (lru_blocks m)"
    and room: "int (length new) \<le> cpu_get_num_free_blocks (lru_backend m) + int (length ks)"
  shows "\<exists>blocks b'. cpu_allocate_blocks (fold cpu_free (map (\<lambda>k. the (map_of (lru_blocks m) k)) ks) (lru_backend m)) new =
             Inr (blocks, b') \<and> length blocks = length new \<and> (\<forall>x\<in>set blocks. bs_ref_cnt x = - 1) \<and>
           cpu_owned b' (mset (map (bs_block_id \<circ> snd) (filter (\<lambda>p. fst p \<notin> set ks) (lru_blocks m)))
             + mset (map bs_block_id blocks))"
proof -
  let ?xs = "map (\<lambda>k. the (map_of (lru_blocks m) k)) ks" and ?r = "filter (\<lambda>p. fst p \<notin> set ks) (lru_blocks m)"
  have "mset (map (bs_block_id \<circ> snd) (lru_blocks m)) =
        mset (map bs_block_id ?xs) + mset (map (bs_block_id \<circ> snd) ?r)"
    using arg_cong[OF mset_split_keys[OF _ ks], of "image_mset (bs_block_id \<circ> snd)"] ok
    by (simp add: lru_ok_def multiset.map_comp o_def)
  then have "cpu_owned (lru_backend m) (mset (map bs_block_id ?xs) + mset (map (bs_block_id \<circ> snd) ?r))"
    using ok by (simp add: lru_ok_def lru_ids_def)
  from cpu.replace_blocks[OF this, of new] room show ?thesis by auto
qed

text \<open>The new statuses, and what the output says of them.\<close>

lemma store_prepared_append:
  assumes "length blocks = length new" "distinct new" "new = filter (\<lambda>h. get h = None) hs"
    and "\<forall>x\<in>set blocks. bs_ref_cnt x = - 1" "distinct ks"
    and "\<And>h. h \<in> set ks \<Longrightarrow> \<exists>b. get h = Some b \<and> bs_ref_cnt b = 0"
    and "\<And>h. get' h = (case map_of (zip new blocks) h of None \<Rightarrow> if h \<in> set ks then None else get h | Some b \<Rightarrow> Some b)"
  shows "store_prepared get hs \<lparr>block_hashes_to_store = new,
     store_spec = \<lparr>ls_medium = CPU_medium, ls_block_ids = map bs_block_id blocks\<rparr>, block_hashes_evicted = ks\<rparr> get'"
proof -
  have "get' (new ! i) = Some \<lparr>bs_ref_cnt = - 1, bs_block_id = map bs_block_id blocks ! i\<rparr>" if "i < length new" for i
    using that assms(1,2,4) by (simp add: assms(7) map_of_zip_nth)
  moreover have "get' h = (if h \<in> set ks then None else get h)" if "h \<notin> set new" for h
  proof -
    have "map_of (zip new blocks) h = None" using that by (auto simp: map_of_eq_None_iff dest: set_zip_leftD)
    then show ?thesis by (simp add: assms(7))
  qed
  ultimately show ?thesis using assms(1,5,6) unfolding store_prepared_def
    by (simp add: assms(3)[symmetric])
qed

lemma lru_prepare_store_run:
  assumes ok: "lru_ok m" and dist: "distinct hs"
    and new: "new = filter (\<lambda>h. lru_get m h = None) hs"
    and need: "need = int (length new) - cpu_get_num_free_blocks (lru_backend m)"
    and ks: "(if 0 < need then evict_scan (lru_blocks m) need [] else Some []) = Some ks"
      "distinct ks" "set ks \<subseteq> set (idle (lru_blocks m))" "need \<le> int (length ks)"
  shows "\<exists>out m'. lru_prepare_store m hs = Inr (Some out, m') \<and> lru_ok m' \<and>
           store_prepared (lru_get m) hs out (lru_get m') \<and> block_hashes_evicted out = ks \<and>
           map fst (lru_blocks m') = filter (\<lambda>h. h \<notin> set ks) (map fst (lru_blocks m)) @ new \<and>
           lru_events m' = emit_event (lru_backend m) ks True (lru_events m)"
proof -
  let ?d = "lru_blocks m" and ?r = "filter (\<lambda>p. fst p \<notin> set ks) (lru_blocks m)"
  have d: "distinct (map fst ?d)" using ok by (simp add: lru_ok_def)
  have sub: "set ks \<subseteq> fst ` set ?d" using ks(3) idle_keys by blast
  obtain blocks b' where al: "cpu_allocate_blocks (fold cpu_free (map (\<lambda>k. the (map_of ?d k)) ks) (lru_backend m)) new = Inr (blocks, b')"
    "length blocks = length new" "\<forall>x\<in>set blocks. bs_ref_cnt x = - 1"
    "cpu_owned b' (mset (map (bs_block_id \<circ> snd) ?r) + mset (map bs_block_id blocks))"
    using lru_replace[OF ok ks(2) sub, of new] ks(4) need by auto
  have new': "distinct new" "\<forall>h\<in>set new. map_of ?d h = None" using dist by (auto simp: new lru_get_def)
  have ins: "insert_blocks new blocks ?r = ?r @ zip new blocks"
    using new' al(2) by (intro insert_blocks_new) (auto simp: map_of_filter_keys)
  have spec: "get_load_store_spec blocks = Inr \<lparr>ls_medium = CPU_medium, ls_block_ids = map bs_block_id blocks\<rparr>"
    by (rule cpu.owned_spec[OF al(4)]) auto
  let ?out = "\<lparr>block_hashes_to_store = new, store_spec = \<lparr>ls_medium = CPU_medium, ls_block_ids = map bs_block_id blocks\<rparr>,
                block_hashes_evicted = ks\<rparr>"
  let ?m' = "m\<lparr>lru_blocks := ?r @ zip new blocks, lru_backend := b', lru_events := emit_event (lru_backend m) ks True (lru_events m)\<rparr>"
  have keys: "map fst (?r @ zip new blocks) = filter (\<lambda>h. h \<notin> set ks) (map fst ?d) @ new"
    using al(2) by (simp add: filter_map o_def)
  have run: "lru_prepare_store m hs = Inr (Some ?out, ?m')"
    unfolding lru_prepare_store_def Let_def new[unfolded lru_get_def, symmetric] need[symmetric] ks(1)
    by (simp add: lru_evict_all[OF ks(2) sub] al(1,2) ins spec)
  have "map (bs_block_id \<circ> snd) (zip new blocks) = map bs_block_id blocks"
    using al(2) by (simp flip: map_map)
  then have "lru_ids ?m' = mset (map (bs_block_id \<circ> snd) ?r) + mset (map bs_block_id blocks)"
    by (simp add: lru_ids_def del: mset_map map_map)
  moreover have "distinct (map fst (lru_blocks ?m'))"
  proof -
    have "distinct (filter (\<lambda>h. h \<notin> set ks) (map fst ?d) @ new)"
      using d new' by (auto simp: map_of_eq_None_iff)
    then have "distinct (map fst (?r @ zip new blocks))" unfolding keys .
    then show ?thesis by simp
  qed
  ultimately have okm: "lru_ok ?m'"
    using al(4) by (simp add: lru_ok_def del: map_append mset_map map_map)
  have "store_prepared (lru_get m) hs ?out (lru_get ?m')"
  proof (rule store_prepared_append[OF al(2) new'(1) new al(3) ks(2)])
    show "\<exists>b. lru_get m h = Some b \<and> bs_ref_cnt b = 0" if "h \<in> set ks" for h
      using idle_ref_cnt[OF d, of h] ks(3) that by (auto simp: lru_get_def)
  next
    have "map_of ?d h = None" if "map_of (zip new blocks) h = Some b" for h b
      using new'(2) map_of_SomeD[OF that] by (auto dest: set_zip_leftD)
    then show "lru_get ?m' h = (case map_of (zip new blocks) h of None \<Rightarrow> if h \<in> set ks then None else lru_get m h | Some b \<Rightarrow> Some b)" for h
      by (simp add: lru_get_def map_add_def map_of_filter_keys split: option.split)
  qed
  with run okm keys show ?thesis by (intro exI[of _ ?out] exI[of _ ?m']) simp
qed

theorem lru_prepare_store_cases:
  assumes ok: "lru_ok m" and dist: "distinct hs"
  defines "new \<equiv> filter (\<lambda>h. lru_get m h = None) hs"
  defines "need \<equiv> int (length new) - cpu_get_num_free_blocks (lru_backend m)"
  shows "if need \<le> int (length (idle (lru_blocks m)))
         then \<exists>out m'. lru_prepare_store m hs = Inr (Some out, m') \<and> lru_ok m' \<and>
                store_prepared (lru_get m) hs out (lru_get m') \<and>
                block_hashes_evicted out = take (nat need) (idle (lru_blocks m)) \<and>
                map fst (lru_blocks m') = filter (\<lambda>h. h \<notin> set (block_hashes_evicted out)) (map fst (lru_blocks m)) @ new \<and>
                lru_events m' = emit_event (lru_backend m) (block_hashes_evicted out) True (lru_events m)
         else lru_prepare_store m hs = Inr (None, m)"
proof (cases "need \<le> int (length (idle (lru_blocks m)))")
  case False
  then have "0 < need" by linarith
  with False show ?thesis
    by (simp add: lru_prepare_store_def evict_scan_idle need_def new_def lru_get_def)
next
  case True
  let ?ks = "take (nat need) (idle (lru_blocks m))"
  have "(if 0 < need then evict_scan (lru_blocks m) need [] else Some []) = Some ?ks"
    using True by (simp add: evict_scan_idle)
  moreover have "distinct ?ks" using distinct_idle ok by (simp add: lru_ok_def)
  moreover have "need \<le> int (length ?ks)" using True by simp
  ultimately have "\<exists>out m'. lru_prepare_store m hs = Inr (Some out, m') \<and> lru_ok m' \<and>
           store_prepared (lru_get m) hs out (lru_get m') \<and> block_hashes_evicted out = ?ks \<and>
           map fst (lru_blocks m') = filter (\<lambda>h. h \<notin> set ?ks) (map fst (lru_blocks m)) @ new \<and>
           lru_events m' = emit_event (lru_backend m) ?ks True (lru_events m)"
    by (intro lru_prepare_store_run[OF ok dist new_def[THEN meta_eq_to_obj_eq] need_def[THEN meta_eq_to_obj_eq]]) (auto dest: in_set_takeD)
  with True show ?thesis by auto
qed

subsection \<open>Loads and completed stores\<close>

lemma lru_get_id: "lru_get m h = Some b \<Longrightarrow> bs_block_id b \<in># lru_ids m"
  by (force simp: lru_get_def lru_ids_def dest: map_of_SomeD)

lemma lru_ids_shape: "lru_shape m = lru_shape m' \<Longrightarrow> lru_ids m = lru_ids m'"
proof -
  have *: "map (bs_block_id \<circ> snd) (lru_blocks x) = map snd (fst (lru_shape x))" for x
    by (auto simp: lru_shape_def)
  show "lru_shape m = lru_shape m' \<Longrightarrow> lru_ids m = lru_ids m'" unfolding lru_ids_def * by simp
qed

lemma lru_prepare_load_ok:
  assumes "lru_ok m" "loadable (lru_get m) hs"
  shows "\<exists>spec m'. lru_prepare_load m hs = Inr (spec, m') \<and> lru_ok m' \<and> ls_medium spec = CPU_medium \<and>
           ls_block_ids spec = map (\<lambda>h. bs_block_id (the (lru_get m h))) hs \<and>
           (\<forall>x. lru_get m' x = map_option (bump (int (count_list hs x))) (lru_get m x))"
proof -
  obtain bs m' where l: "mfold lru_load_one hs ([], m) = Inr (bs, m')" "lru_shape m' = lru_shape m"
    "map bs_block_id bs = map (\<lambda>h. bs_block_id (the (lru_get m h))) hs"
    "\<forall>x. lru_get m' x = map_option (bump (int (count_list hs x))) (lru_get m x)"
    using lru.load_all[OF assms(2), of "[]"] by auto
  have ok: "cpu_owned (lru_backend m) (lru_ids m)" using assms(1) by (simp add: lru_ok_def)
  have "set (map bs_block_id bs) \<subseteq> set_mset (lru_ids m)"
    using assms(2) lru_get_id by (fastforce simp: l(3) loadable_def)
  from cpu.owned_spec[OF ok this] l assms(1) lru_ok_shape[OF l(2)] show ?thesis
    by (simp add: lru_prepare_load_def)
qed

lemma lru_complete_load_ok:
  assumes "lru_ok m" "unloadable (lru_get m) hs"
  shows "\<exists>m'. lru_complete_load m hs = Inr m' \<and> lru_ok m' \<and>
           (\<forall>x. lru_get m' x = map_option (bump (- int (count_list hs x))) (lru_get m x))"
  using lru.unload_all[OF assms(2)] assms(1) lru_ok_shape unfolding lru_complete_load_def by metis

lemma lru_complete_store_ok:
  assumes "lru_ok m" "\<forall>h\<in>set hs. lru_get m h \<noteq> None"
  shows "\<exists>m'. lru_complete_store m hs True = Inr m' \<and> lru_ok m' \<and>
           (\<forall>x. lru_get m' x = (if x \<in> set hs then map_option publish (lru_get m x) else lru_get m x))"
proof -
  obtain d m' where l: "mfold lru_stored_one hs ([], m) = Inr (d, m')" "lru_shape m' = lru_shape m"
    "\<forall>x. lru_get m' x = (if x \<in> set hs then map_option publish (lru_get m x) else lru_get m x)"
    using lru.stored_all[OF assms(2), of "[]"] by auto
  then show ?thesis
    using assms(1) lru_ok_shape[OF l(2)] by (simp add: lru_complete_store_def)
qed

lemma lru_delete_ok:
  assumes "lru_ok m" "map_of (lru_blocks m) h = Some b"
  shows "lru_ok (m\<lparr>lru_backend := cpu_free b (lru_backend m), lru_blocks := AList.delete h (lru_blocks m)\<rparr>)"
proof -
  have d: "distinct (map fst (lru_blocks m))" using assms(1) by (simp add: lru_ok_def)
  have "lru_ids m = add_mset (bs_block_id b) (mset (map (bs_block_id \<circ> snd) (AList.delete h (lru_blocks m))))"
    using arg_cong[OF mset_move_to_end[OF d assms(2)], of "image_mset (bs_block_id \<circ> snd)"]
    by (simp add: lru_ids_def)
  with assms(1) d show ?thesis
    using cpu.release by (auto simp: lru_ok_def lru_ids_def map_fst_delete)
qed

text \<open>A failed store gives the blocks back that never became ready, and only those.\<close>

lemma lru_complete_store_failed:
  assumes "lru_ok m" "distinct hs" "\<forall>h\<in>set hs. lru_get m h \<noteq> None"
  shows "\<exists>m'. lru_complete_store m hs False = Inr m' \<and> lru_ok m' \<and> lru_events m' = lru_events m \<and>
           (\<forall>x. lru_get m' x = (if x \<in> set hs \<and> \<not> ready_in (lru_get m) x then None else lru_get m x))"
proof -
  have "\<exists>m'. mfold lru_failed_one hs m = Inr m' \<and> lru_ok m' \<and> lru_events m' = lru_events m \<and>
          (\<forall>x. lru_get m' x = (if x \<in> set hs \<and> \<not> ready_in (lru_get m) x then None else lru_get m x))"
    using assms
  proof (induction hs arbitrary: m)
    case (Cons h hs)
    then obtain b where b: "map_of (lru_blocks m) h = Some b" by (auto simp: lru_get_def)
    let ?m = "if is_ready b then m
      else m\<lparr>lru_backend := cpu_free b (lru_backend m), lru_blocks := AList.delete h (lru_blocks m)\<rparr>"
    have step: "lru_failed_one h m = Inr ?m" using b by (simp add: lru_failed_one_def dict_item_def)
    have get: "lru_get ?m x = (if x = h \<and> \<not> is_ready b then None else lru_get m x)" for x
      by (auto simp: lru_get_def map_of_delete)
    have ok: "lru_ok ?m" using lru_delete_ok[OF Cons.prems(1) b] Cons.prems(1) by simp
    have "\<forall>k\<in>set hs. lru_get ?m k \<noteq> None" using Cons.prems by (auto simp: get)
    then obtain m' where m': "mfold lru_failed_one hs ?m = Inr m'" "lru_ok m'" "lru_events m' = lru_events ?m"
      "\<forall>x. lru_get m' x = (if x \<in> set hs \<and> \<not> ready_in (lru_get ?m) x then None else lru_get ?m x)"
      using Cons.IH[OF ok] Cons.prems(2) by auto
    have "lru_get m' x = (if x \<in> set (h # hs) \<and> \<not> ready_in (lru_get m) x then None else lru_get m x)" for x
      using m'(4) b unfolding ready_in_def get lru_get_def[of m h, symmetric] by (auto split: option.split)
    moreover have "lru_events ?m = lru_events m" by simp
    ultimately show ?case using step m'(1-3) by (metis mfold.simps(2) sum.case(2))
  qed simp
  then show ?thesis by (auto simp: lru_complete_store_def emit_event_def split: option.splits)
qed

end
