(* ===== verification/Offload_ARC.thy ===== *)
theory Offload_ARC
  imports Complex_Main Offload_LRU
begin

text \<open>
  The offloading manager with adaptive replacement (\<^verbatim>\<open>v1/kv_offload/arc_manager.py\<close>): blocks seen
  once in \<open>arc_t1\<close>, blocks seen again in \<open>arc_t2\<close>, hashes of evicted blocks in the ghost lists
  \<open>arc_b1\<close> and \<open>arc_b2\<close>, and the adaptive target size of the first list. The target is a Python
  float: the result of each of its operations is the exact one rounded by \<open>rnd\<close>, a parameter of
  the operations (IEEE arithmetic rounds correctly; numbers of blocks below $2^{53}$ are exact).
\<close>

section \<open>The manager\<close>

record ARCOffloadingManager =
  arc_backend :: CPUBackend
  arc_target_t1_size :: rat
  arc_t1 :: "(bytes, CPUBlockStatus) dict"
  arc_t2 :: "(bytes, CPUBlockStatus) dict"
  arc_b1 :: "(bytes, unit) dict"
  arc_b2 :: "(bytes, unit) dict"
  arc_events :: "OffloadingEvent list option"
  arc_cache_capacity :: int

definition ARCOffloadingManager_init :: "CPUBackend \<Rightarrow> bool \<Rightarrow> ARCOffloadingManager" where
  "ARCOffloadingManager_init backend enable_events =
     \<lparr>arc_backend = backend, arc_target_t1_size = 0, arc_t1 = [], arc_t2 = [], arc_b1 = [], arc_b2 = [],
      arc_events = (if enable_events then Some [] else None),
      arc_cache_capacity = cpu_get_num_free_blocks backend\<rparr>"

text \<open>\<^verbatim>\<open>self.t1.get(h) or self.t2.get(h)\<close>: a structure is never false.\<close>

definition arc_get :: "ARCOffloadingManager \<Rightarrow> bytes \<Rightarrow> CPUBlockStatus option" where
  "arc_get m h = (case map_of (arc_t1 m) h of Some b \<Rightarrow> Some b | None \<Rightarrow> map_of (arc_t2 m) h)"

text \<open>A block found that way is changed in place, in the dictionary that holds it.\<close>

definition arc_put :: "bytes \<Rightarrow> CPUBlockStatus \<Rightarrow> ARCOffloadingManager \<Rightarrow> ARCOffloadingManager" where
  "arc_put h b m =
     (if map_of (arc_t1 m) h \<noteq> None then m\<lparr>arc_t1 := AList.update h b (arc_t1 m)\<rparr>
      else m\<lparr>arc_t2 := AList.update h b (arc_t2 m)\<rparr>)"

definition arc_lookup :: "ARCOffloadingManager \<Rightarrow> bytes list \<Rightarrow> int" where
  "arc_lookup m hs = hit_loop (arc_get m) hs 0"

definition arc_load_one :: "bytes \<Rightarrow> CPUBlockStatus list \<times> ARCOffloadingManager \<Rightarrow> (CPUBlockStatus list \<times> ARCOffloadingManager) result" where
  "arc_load_one h = (\<lambda>(blocks, m). case arc_get m h of None \<Rightarrow> Inl AssertionError
     | Some block \<Rightarrow> py_assert (is_ready block)
         (let block = add_ref_cnt 1 block in Inr (blocks @ [block], arc_put h block m)))"

definition arc_prepare_load :: "ARCOffloadingManager \<Rightarrow> bytes list \<Rightarrow> (LoadStoreSpec \<times> ARCOffloadingManager) result" where
  "arc_prepare_load m hs =
     rbind (mfold arc_load_one hs ([], m)) (\<lambda>(blocks, m).
     rbind (get_load_store_spec blocks) (\<lambda>spec. Inr (spec, m)))"

definition arc_touch_one :: "(rat \<Rightarrow> rat) \<Rightarrow> bytes \<Rightarrow> ARCOffloadingManager \<Rightarrow> ARCOffloadingManager result" where
  "arc_touch_one rnd h m =
     (case map_of (arc_t1 m) h of
        Some block \<Rightarrow>
          let m = m\<lparr>arc_t1 := AList.delete h (arc_t1 m)\<rparr>
          in if \<not> is_ready block
             then rbind (move_to_end h (arc_t1 m)) (\<lambda>d. Inr (m\<lparr>arc_t1 := d\<rparr>))
             else Inr (m\<lparr>arc_t2 := AList.update h block (arc_t2 m)\<rparr>)
      | None \<Rightarrow>
     if map_of (arc_t2 m) h \<noteq> None
     then rbind (move_to_end h (arc_t2 m)) (\<lambda>d. Inr (m\<lparr>arc_t2 := d\<rparr>))
     else if map_of (arc_b1 m) h \<noteq> None
     then let delta = max 1 (rnd (of_nat (length (arc_b2 m)) / of_nat (length (arc_b1 m))));
              m = m\<lparr>arc_target_t1_size := min (rnd (arc_target_t1_size m + delta)) (of_int (arc_cache_capacity m))\<rparr>
          in rbind (move_to_end h (arc_b1 m)) (\<lambda>d. Inr (m\<lparr>arc_b1 := d\<rparr>))
     else if map_of (arc_b2 m) h \<noteq> None
     then let delta = max 1 (rnd (of_nat (length (arc_b1 m)) / of_nat (length (arc_b2 m))));
              m = m\<lparr>arc_target_t1_size := max (rnd (arc_target_t1_size m - delta)) 0\<rparr>
          in rbind (move_to_end h (arc_b2 m)) (\<lambda>d. Inr (m\<lparr>arc_b2 := d\<rparr>))
     else Inr m)"

definition arc_touch :: "(rat \<Rightarrow> rat) \<Rightarrow> ARCOffloadingManager \<Rightarrow> bytes list \<Rightarrow> ARCOffloadingManager result" where
  "arc_touch rnd m hs = mfold (arc_touch_one rnd) (rev hs) m"

definition arc_unload_one :: "bytes \<Rightarrow> ARCOffloadingManager \<Rightarrow> ARCOffloadingManager result" where
  "arc_unload_one h m = (case arc_get m h of None \<Rightarrow> Inl AssertionError
     | Some block \<Rightarrow> py_assert (0 < bs_ref_cnt block) (Inr (arc_put h (add_ref_cnt (- 1) block) m)))"

definition arc_complete_load :: "ARCOffloadingManager \<Rightarrow> bytes list \<Rightarrow> ARCOffloadingManager result" where
  "arc_complete_load m hs = mfold arc_unload_one hs m"

text \<open>
  The choice of a block to evict: from the first list when it has reached its target, and from the
  second one when the first gives none. The two flags of the code, the list and its ghost list,
  are the boolean.
\<close>

definition first_idle :: "(bytes, CPUBlockStatus) dict \<Rightarrow> (bytes \<times> CPUBlockStatus) option" where
  "first_idle d = List.find (\<lambda>(h, block). bs_ref_cnt block = 0) d"

definition arc_choose :: "ARCOffloadingManager \<Rightarrow> (bool \<times> bytes \<times> CPUBlockStatus) option" where
  "arc_choose m =
     (case (if \<lfloor>arc_target_t1_size m\<rfloor> \<le> int (length (arc_t1 m)) then first_idle (arc_t1 m) else None) of
        Some (h, block) \<Rightarrow> Some (True, h, block)
      | None \<Rightarrow> (case first_idle (arc_t2 m) of Some (h, block) \<Rightarrow> Some (False, h, block) | None \<Rightarrow> None))"

definition arc_evict :: "bool \<Rightarrow> bytes \<Rightarrow> CPUBlockStatus \<Rightarrow> ARCOffloadingManager \<Rightarrow> ARCOffloadingManager" where
  "arc_evict from_t1 h block m =
     (let m = (if from_t1 then m\<lparr>arc_t1 := AList.delete h (arc_t1 m), arc_b1 := AList.update h () (arc_b1 m)\<rparr>
               else m\<lparr>arc_t2 := AList.delete h (arc_t2 m), arc_b2 := AList.update h () (arc_b2 m)\<rparr>)
      in m\<lparr>arc_backend := cpu_free block (arc_backend m)\<rparr>)"

text \<open>The eviction loop; \<^verbatim>\<open>return None\<close> leaves the state as the loop has changed it.\<close>

fun arc_evict_loop :: "nat \<Rightarrow> bytes list \<Rightarrow> ARCOffloadingManager \<Rightarrow> bytes list option \<times> ARCOffloadingManager" where
  "arc_evict_loop 0 to_evict m = (Some to_evict, m)"
| "arc_evict_loop (Suc n) to_evict m =
     (case arc_choose m of None \<Rightarrow> (None, m)
      | Some (from_t1, h, block) \<Rightarrow> arc_evict_loop n (to_evict @ [h]) (arc_evict from_t1 h block m))"

definition trim_ghost :: "int \<Rightarrow> (bytes, unit) dict \<Rightarrow> (bytes, unit) dict result" where
  "trim_ghost capacity b =
     mfold (\<lambda>_ b. rbind (popitem_first b) (\<lambda>(_, b). Inr b)) [0..<nat (int (length b) - capacity)] b"

definition arc_insert :: "bytes list \<Rightarrow> CPUBlockStatus list \<Rightarrow> ARCOffloadingManager \<Rightarrow> ARCOffloadingManager" where
  "arc_insert hs blocks m = fold (\<lambda>(h, block) m.
     m\<lparr>arc_t1 := AList.update h block (arc_t1 m), arc_b1 := AList.delete h (arc_b1 m),
       arc_b2 := AList.delete h (arc_b2 m)\<rparr>) (zip hs blocks) m"

definition arc_prepare_store :: "ARCOffloadingManager \<Rightarrow> bytes list \<Rightarrow> (PrepareStoreOutput option \<times> ARCOffloadingManager) result" where
  "arc_prepare_store m hs =
     (let to_store = filter (\<lambda>h. map_of (arc_t1 m) h = None \<and> map_of (arc_t2 m) h = None) hs
      in if to_store = []
         then rbind (get_load_store_spec []) (\<lambda>spec.
              Inr (Some \<lparr>block_hashes_to_store = [], store_spec = spec, block_hashes_evicted = []\<rparr>, m))
         else
           (case arc_evict_loop (nat (int (length to_store) - cpu_get_num_free_blocks (arc_backend m))) [] m of
              (None, m) \<Rightarrow> Inr (None, m)
            | (Some to_evict, m) \<Rightarrow>
                rbind (trim_ghost (arc_cache_capacity m) (arc_b1 m)) (\<lambda>b1.
                rbind (trim_ghost (arc_cache_capacity m) (arc_b2 m)) (\<lambda>b2.
                let m = m\<lparr>arc_b1 := b1, arc_b2 := b2,
                          arc_events := emit_event (arc_backend m) to_evict True (arc_events m)\<rparr>
                in rbind (cpu_allocate_blocks (arc_backend m) to_store) (\<lambda>(blocks, backend).
                py_assert (length blocks = length to_store)
                  (rbind (get_load_store_spec blocks) (\<lambda>spec.
                   Inr (Some \<lparr>block_hashes_to_store = to_store, store_spec = spec, block_hashes_evicted = to_evict\<rparr>,
                        arc_insert to_store blocks (m\<lparr>arc_backend := backend\<rparr>)))))))))"

definition arc_stored_one :: "bytes \<Rightarrow> bytes list \<times> ARCOffloadingManager \<Rightarrow> (bytes list \<times> ARCOffloadingManager) result" where
  "arc_stored_one h = (\<lambda>(stored, m). case arc_get m h of None \<Rightarrow> Inr (stored, m)
     | Some block \<Rightarrow> if \<not> is_ready block
         then Inr (stored @ [h], arc_put h (block\<lparr>bs_ref_cnt := 0\<rparr>) m)
         else Inr (stored, m))"

text \<open>A failed store pops the block whatever its state, and frees it when it was not ready.\<close>

definition arc_failed_one :: "bytes \<Rightarrow> ARCOffloadingManager \<Rightarrow> ARCOffloadingManager" where
  "arc_failed_one h m =
     (case (case map_of (arc_t1 m) h of
              Some block \<Rightarrow> (Some block, m\<lparr>arc_t1 := AList.delete h (arc_t1 m)\<rparr>)
            | None \<Rightarrow> (map_of (arc_t2 m) h, m\<lparr>arc_t2 := AList.delete h (arc_t2 m)\<rparr>)) of
        (Some block, m) \<Rightarrow> if \<not> is_ready block then m\<lparr>arc_backend := cpu_free block (arc_backend m)\<rparr> else m
      | (None, m) \<Rightarrow> m)"

definition arc_complete_store :: "ARCOffloadingManager \<Rightarrow> bytes list \<Rightarrow> bool \<Rightarrow> ARCOffloadingManager result" where
  "arc_complete_store m hs success =
     rbind (if success then mfold arc_stored_one hs ([], m) else Inr ([], fold arc_failed_one hs m))
       (\<lambda>(stored, m). Inr (m\<lparr>arc_events := emit_event (arc_backend m) stored False (arc_events m)\<rparr>))"

definition arc_take_events :: "ARCOffloadingManager \<Rightarrow> OffloadingEvent list \<times> ARCOffloadingManager" where
  "arc_take_events m =
     (case arc_events m of None \<Rightarrow> ([], m) | Some es \<Rightarrow> (es, m\<lparr>arc_events := Some []\<rparr>))"

section \<open>Invariant\<close>

definition arc_blocks :: "ARCOffloadingManager \<Rightarrow> (bytes, CPUBlockStatus) dict" where
  "arc_blocks m = arc_t1 m @ arc_t2 m"

definition arc_ids :: "ARCOffloadingManager \<Rightarrow> int multiset" where
  "arc_ids m = mset (map (bs_block_id \<circ> snd) (arc_blocks m))"

definition arc_ok :: "ARCOffloadingManager \<Rightarrow> bool" where
  "arc_ok m \<longleftrightarrow> distinct (map fst (arc_t1 m) @ map fst (arc_t2 m) @ map fst (arc_b1 m) @ map fst (arc_b2 m)) \<and>
     cpu_owned (arc_backend m) (arc_ids m) \<and> 0 \<le> arc_cache_capacity m"

definition arc_shape :: "ARCOffloadingManager \<Rightarrow> _" where
  "arc_shape m = (map (\<lambda>(h, b). (h, bs_block_id b)) (arc_t1 m), map (\<lambda>(h, b). (h, bs_block_id b)) (arc_t2 m),
     arc_b1 m, arc_b2 m, arc_backend m, arc_cache_capacity m, arc_target_t1_size m, arc_events m)"

lemma arc_get_blocks: "arc_get m = map_of (arc_blocks m)"
  by (auto simp: arc_get_def arc_blocks_def fun_eq_iff map_add_def split: option.splits)

lemma arc_get_frame [simp]:
  "arc_get (arc_b1_update f m) = arc_get m" "arc_get (arc_b2_update f m) = arc_get m"
  "arc_get (arc_target_t1_size_update g m) = arc_get m" "arc_get (arc_backend_update i m) = arc_get m"
  "arc_get (arc_events_update j m) = arc_get m"
  by (simp_all add: arc_get_blocks arc_blocks_def)

lemma arc_ok_shape: "arc_shape m = arc_shape m' \<Longrightarrow> arc_ok m = arc_ok m' \<and> arc_ids m = arc_ids m'"
proof -
  have *: "map fst (arc_t1 x) = map fst (fst (arc_shape x))" "map fst (arc_t2 x) = map fst (fst (snd (arc_shape x)))"
    "arc_ids x = mset (map snd (fst (arc_shape x)) @ map snd (fst (snd (arc_shape x))))"
    "arc_b1 x = fst (snd (snd (arc_shape x)))" "arc_b2 x = fst (snd (snd (snd (arc_shape x))))"
    "arc_backend x = fst (snd (snd (snd (snd (arc_shape x)))))"
    "arc_cache_capacity x = fst (snd (snd (snd (snd (snd (arc_shape x))))))" for x
    by (auto simp: arc_shape_def arc_ids_def arc_blocks_def o_def split_def)
  show "arc_shape m = arc_shape m' \<Longrightarrow> arc_ok m = arc_ok m' \<and> arc_ids m = arc_ids m'"
    unfolding arc_ok_def * by simp
qed

interpretation arc: offload_store arc_get arc_put arc_shape AssertionError arc_load_one arc_unload_one arc_stored_one
  by unfold_locales
    (auto simp: arc_get_def arc_put_def arc_shape_def arc_load_one_def arc_unload_one_def arc_stored_one_def
      map_of_update map_update_ids Let_def fun_eq_iff split: option.splits)

definition arc_keys :: "ARCOffloadingManager \<Rightarrow> bytes list" where
  "arc_keys m = map fst (arc_t1 m) @ map fst (arc_t2 m) @ map fst (arc_b1 m) @ map fst (arc_b2 m)"

lemma arc_ok_alt: "arc_ok m \<longleftrightarrow> distinct (arc_keys m) \<and> cpu_owned (arc_backend m) (arc_ids m) \<and> 0 \<le> arc_cache_capacity m"
  by (simp add: arc_ok_def arc_keys_def)

lemma arc_map_of_key: "map_of d h = Some b \<Longrightarrow> h \<in> fst ` set d"
  by (force dest: map_of_SomeD)

lemma arc_keysD:
  assumes "arc_ok m"
  shows "distinct (map fst (arc_t1 m))" "distinct (map fst (arc_t2 m))" "distinct (map fst (arc_b1 m))" "distinct (map fst (arc_b2 m))"
  using assms by (auto simp: arc_ok_def)

lemma arc_keys_disjoint:
  assumes "arc_ok m"
  shows "map_of (arc_t1 m) h = Some b \<Longrightarrow> map_of (arc_t2 m) h = None \<and> map_of (arc_b1 m) h = None \<and> map_of (arc_b2 m) h = None"
    "map_of (arc_t2 m) h = Some b \<Longrightarrow> map_of (arc_t1 m) h = None \<and> map_of (arc_b1 m) h = None \<and> map_of (arc_b2 m) h = None"
  using assms arc_map_of_key[of "arc_t1 m" h b] arc_map_of_key[of "arc_t2 m" h b]
  by (simp_all add: arc_ok_def map_of_eq_None_iff) blast+

text \<open>States with the same keys and the same blocks are equally well-formed.\<close>

lemma arc_ok_mset:
  assumes "arc_ok m" "mset (arc_keys m') = mset (arc_keys m)" "arc_ids m' = arc_ids m"
    "arc_backend m' = arc_backend m" "arc_cache_capacity m' = arc_cache_capacity m"
  shows "arc_ok m'"
proof -
  have "distinct (arc_keys m')" using assms(1,2) mset_eq_imp_distinct_iff unfolding arc_ok_alt by blast
  then show ?thesis using assms by (simp add: arc_ok_alt)
qed

lemma mset_keys_move:
  assumes "distinct (map fst d)" "map_of d h = Some b"
  shows "add_mset h (mset (map fst (AList.delete h d))) = mset (map fst d)"
    "add_mset (f (h, b)) (mset (map f (AList.delete h d))) = mset (map f d)"
  using arg_cong[OF mset_move_to_end[OF assms], of "image_mset fst"] arg_cong[OF mset_move_to_end[OF assms], of "image_mset f"]
  by simp_all

section \<open>Touch\<close>

lemma arc_touch_one_cases:
  assumes ok: "arc_ok m" and rd: "\<And>b. map_of (arc_t1 m) h = Some b \<Longrightarrow> is_ready b"
  shows "\<exists>m'. arc_touch_one rnd h m = Inr m' \<and> arc_ok m' \<and> arc_get m' = arc_get m \<and>
           arc_backend m' = arc_backend m \<and> arc_events m' = arc_events m \<and> arc_cache_capacity m' = arc_cache_capacity m"
proof -
  note d = arc_keysD[OF ok]
  consider (t1) b where "map_of (arc_t1 m) h = Some b"
    | (t2) b where "map_of (arc_t1 m) h = None" "map_of (arc_t2 m) h = Some b"
    | (b1) "map_of (arc_t1 m) h = None" "map_of (arc_t2 m) h = None" "map_of (arc_b1 m) h = Some ()"
    | (b2) "map_of (arc_t1 m) h = None" "map_of (arc_t2 m) h = None" "map_of (arc_b1 m) h = None" "map_of (arc_b2 m) h = Some ()"
    | (none) "map_of (arc_t1 m) h = None" "map_of (arc_t2 m) h = None" "map_of (arc_b1 m) h = None" "map_of (arc_b2 m) h = None"
    by (cases "map_of (arc_t1 m) h"; cases "map_of (arc_t2 m) h"; cases "map_of (arc_b1 m) h"; cases "map_of (arc_b2 m) h") auto
  then show ?thesis
  proof cases
    case (t1 b)
    let ?m = "m\<lparr>arc_t1 := AList.delete h (arc_t1 m), arc_t2 := arc_t2 m @ [(h, b)]\<rparr>"
    have "arc_touch_one rnd h m = Inr ?m"
      using t1 rd arc_keys_disjoint(1)[OF ok t1] by (simp add: arc_touch_one_def update_new)
    moreover have "arc_ok ?m"
      using mset_keys_move(1)[OF d(1) t1] mset_keys_move(2)[OF d(1) t1, of "bs_block_id \<circ> snd"]
      by (intro arc_ok_mset[OF ok]) (simp_all add: arc_keys_def arc_ids_def arc_blocks_def flip: add_mset_add_single union_mset_add_mset_left)
    moreover have "arc_get ?m = arc_get m"
      using t1 arc_keys_disjoint(1)[OF ok t1] by (auto simp: arc_get_def fun_eq_iff map_of_delete map_add_def split: option.splits)
    ultimately show ?thesis by simp
  next
    case (t2 b)
    let ?m = "m\<lparr>arc_t2 := AList.delete h (arc_t2 m) @ [(h, b)]\<rparr>"
    have "arc_touch_one rnd h m = Inr ?m" using t2 by (simp add: arc_touch_one_def move_to_end_def)
    moreover have "arc_ok ?m"
      using mset_keys_move(1)[OF d(2) t2(2)] mset_keys_move(2)[OF d(2) t2(2), of "bs_block_id \<circ> snd"]
      by (intro arc_ok_mset[OF ok]) (simp_all add: arc_keys_def arc_ids_def arc_blocks_def)
    moreover have "arc_get ?m = arc_get m"
      using map_of_move_to_end[OF t2(2)] by (intro ext) (simp add: arc_get_def del: map_of_append split: option.split)
    ultimately show ?thesis by simp
  next
    case b1
    have "\<exists>t. arc_touch_one rnd h m = Inr (m\<lparr>arc_target_t1_size := t, arc_b1 := AList.delete h (arc_b1 m) @ [(h, ())]\<rparr>)"
      using b1 by (simp add: arc_touch_one_def move_to_end_def Let_def) (rule exI, rule refl)
    then obtain t where "arc_touch_one rnd h m = Inr (m\<lparr>arc_target_t1_size := t, arc_b1 := AList.delete h (arc_b1 m) @ [(h, ())]\<rparr>)" (is "_ = Inr ?m") ..
    moreover have "arc_ok ?m"
      using mset_keys_move(1)[OF d(3) b1(3)]
      by (intro arc_ok_mset[OF ok]) (simp_all add: arc_keys_def arc_ids_def arc_blocks_def)
    ultimately show ?thesis by simp
  next
    case b2
    have "\<exists>t. arc_touch_one rnd h m = Inr (m\<lparr>arc_target_t1_size := t, arc_b2 := AList.delete h (arc_b2 m) @ [(h, ())]\<rparr>)"
      using b2 by (simp add: arc_touch_one_def move_to_end_def Let_def) (rule exI, rule refl)
    then obtain t where "arc_touch_one rnd h m = Inr (m\<lparr>arc_target_t1_size := t, arc_b2 := AList.delete h (arc_b2 m) @ [(h, ())]\<rparr>)" (is "_ = Inr ?m") ..
    moreover have "arc_ok ?m"
      using mset_keys_move(1)[OF d(4) b2(4)]
      by (intro arc_ok_mset[OF ok]) (simp_all add: arc_keys_def arc_ids_def arc_blocks_def)
    ultimately show ?thesis by simp
  next
    case none
    with ok show ?thesis by (simp add: arc_touch_one_def)
  qed
qed

lemma arc_touch_one_t1:
  assumes "arc_touch_one rnd h m = Inr m'" "map_of (arc_t1 m) k = Some b" "\<not> is_ready b"
  shows "h \<noteq> k \<and> map_of (arc_t1 m') k = Some b"
proof -
  have nr: "h \<noteq> k"
  proof
    assume "h = k"
    with assms(2,3) have "arc_touch_one rnd h m = Inl KeyError"
      by (simp add: arc_touch_one_def move_to_end_def map_of_delete)
    with assms(1) show False by simp
  qed
  then show ?thesis
    using assms(1,2) by (auto simp: arc_touch_one_def move_to_end_def Let_def map_of_delete split: option.splits if_splits)
qed

lemma arc_touch_one_error: "arc_touch_one rnd h m = Inl e \<Longrightarrow> e = KeyError"
  by (auto simp: arc_touch_one_def move_to_end_def Let_def split: option.splits if_splits)

text \<open>Touching a block of the first list that is not ready yet always raises.\<close>

lemma arc_touch_not_ready:
  assumes "k \<in> set hs" "map_of (arc_t1 m) k = Some b" "\<not> is_ready b"
  shows "arc_touch rnd m hs = Inl KeyError"
proof -
  have "mfold (arc_touch_one rnd) xs m = Inl KeyError" if "k \<in> set xs" for xs
    using that assms(2)
  proof (induction xs arbitrary: m)
    case (Cons x xs)
    show ?case
    proof (cases "arc_touch_one rnd x m")
      case (Inl e)
      then show ?thesis using arc_touch_one_error by simp
    next
      case (Inr m')
      with arc_touch_one_t1[OF Inr Cons.prems(2) assms(3)] Cons show ?thesis by auto
    qed
  qed simp
  then show ?thesis using assms(1) by (simp add: arc_touch_def)
qed

lemma arc_touch_ok:
  assumes "arc_ok m" "\<And>h b. \<lbrakk>h \<in> set hs; arc_get m h = Some b\<rbrakk> \<Longrightarrow> is_ready b"
  shows "\<exists>m'. arc_touch rnd m hs = Inr m' \<and> arc_ok m' \<and> arc_get m' = arc_get m \<and>
           arc_backend m' = arc_backend m \<and> arc_events m' = arc_events m \<and> arc_cache_capacity m' = arc_cache_capacity m"
  unfolding arc_touch_def
proof (rule mfold_rule[where I = "\<lambda>_ m'. arc_ok m' \<and> arc_get m' = arc_get m \<and> arc_backend m' = arc_backend m \<and>
      arc_events m' = arc_events m \<and> arc_cache_capacity m' = arc_cache_capacity m"])
  fix ys x n
  assume n: "arc_ok n \<and> arc_get n = arc_get m \<and> arc_backend n = arc_backend m \<and> arc_events n = arc_events m \<and>
      arc_cache_capacity n = arc_cache_capacity m"
    and "\<exists>zs. rev hs = ys @ x # zs"
  then have "x \<in> set hs" by (metis in_set_conv_decomp set_rev)
  moreover have "arc_get m x = Some b" if "map_of (arc_t1 n) x = Some b" for b
    using n that by (metis arc_get_def option.simps(5))
  ultimately have "is_ready b" if "map_of (arc_t1 n) x = Some b" for b
    using assms(2) that by blast
  from arc_touch_one_cases[of n x rnd, OF _ this] n
  show "\<exists>s'. arc_touch_one rnd x n = Inr s' \<and> arc_ok s' \<and> arc_get s' = arc_get m \<and> arc_backend s' = arc_backend m \<and>
      arc_events s' = arc_events m \<and> arc_cache_capacity s' = arc_cache_capacity m"
    by metis
qed (simp add: assms(1))

text \<open>The target size stays between zero and the capacity, whatever the rounding of floats.\<close>

definition rounding :: "(rat \<Rightarrow> rat) \<Rightarrow> int \<Rightarrow> bool" where
  "rounding rnd capacity \<longleftrightarrow> mono rnd \<and> rnd 0 = 0 \<and> rnd (of_int capacity) = of_int capacity"

lemma arc_touch_target:
  assumes "arc_touch rnd m hs = Inr m'" "rounding rnd (arc_cache_capacity m)"
    and "0 \<le> arc_target_t1_size m" "arc_target_t1_size m \<le> of_int (arc_cache_capacity m)"
  shows "0 \<le> arc_target_t1_size m' \<and> arc_target_t1_size m' \<le> of_int (arc_cache_capacity m') \<and>
    arc_cache_capacity m' = arc_cache_capacity m"
proof (rule mfold_Inr_inv[OF assms(1)[unfolded arc_touch_def], where I = "\<lambda>m'. 0 \<le> arc_target_t1_size m' \<and>
    arc_target_t1_size m' \<le> of_int (arc_cache_capacity m') \<and> arc_cache_capacity m' = arc_cache_capacity m"])
  fix x n n'
  assume n: "0 \<le> arc_target_t1_size n \<and> arc_target_t1_size n \<le> of_int (arc_cache_capacity n) \<and>
      arc_cache_capacity n = arc_cache_capacity m"
    and "arc_touch_one rnd x n = Inr n'"
  have r: "rnd a \<le> rnd b" if "a \<le> b" for a b using assms(2) that by (simp add: rounding_def monoD)
  have r0: "0 \<le> rnd a" if "0 \<le> a" for a using r[OF that] assms(2) by (simp add: rounding_def)
  have rc: "rnd a \<le> of_int (arc_cache_capacity m)" if "a \<le> of_int (arc_cache_capacity m)" for a
    using r[OF that] assms(2) by (simp add: rounding_def)
  let ?d = "\<lambda>x y. max 1 (rnd (of_nat (length x) / of_nat (length y)))"
  have "0 \<le> rnd (arc_target_t1_size n + ?d (arc_b2 n) (arc_b1 n))"
    using n by (intro r0) (simp add: add_nonneg_nonneg le_max_iff_disj)
  moreover have "rnd (arc_target_t1_size n - ?d (arc_b1 n) (arc_b2 n)) \<le> of_int (arc_cache_capacity m)"
    using n by (intro rc) (auto simp: max_def)
  ultimately show "0 \<le> arc_target_t1_size n' \<and> arc_target_t1_size n' \<le> of_int (arc_cache_capacity n') \<and>
      arc_cache_capacity n' = arc_cache_capacity m"
    using n \<open>arc_touch_one rnd x n = Inr n'\<close>
    by (auto simp: arc_touch_one_def move_to_end_def Let_def split: option.splits if_splits)
qed (use assms in auto)

section \<open>Eviction\<close>

lemma first_idle_Some:
  assumes "first_idle d = Some (h, b)" "distinct (map fst d)"
  shows "map_of d h = Some b \<and> bs_ref_cnt b = 0"
proof -
  from assms(1) have "(h, b) \<in> set d" "bs_ref_cnt b = 0"
    by (auto simp: first_idle_def find_Some_iff) (metis nth_mem)
  then show ?thesis using assms(2) by simp
qed

lemma arc_choose_Some:
  assumes "arc_choose m = Some (f, h, b)" "arc_ok m"
  shows "map_of (if f then arc_t1 m else arc_t2 m) h = Some b \<and> bs_ref_cnt b = 0 \<and> arc_get m h = Some b"
proof -
  have "first_idle (if f then arc_t1 m else arc_t2 m) = Some (h, b)"
    using assms(1) by (auto simp: arc_choose_def split: option.splits if_splits)
  moreover have "distinct (map fst (if f then arc_t1 m else arc_t2 m))"
    using arc_keysD[OF assms(2)] by simp
  ultimately have c: "map_of (if f then arc_t1 m else arc_t2 m) h = Some b" "bs_ref_cnt b = 0"
    using first_idle_Some by auto
  then have "arc_get m h = Some b"
    using arc_keys_disjoint(2)[OF assms(2), of h b] by (cases f) (simp_all add: arc_get_def)
  with c show ?thesis by simp
qed

lemma arc_evict_ok:
  assumes ok: "arc_ok m" and ch: "arc_choose m = Some (f, h, b)"
  shows "arc_ok (arc_evict f h b m)" "arc_get (arc_evict f h b m) = (arc_get m)(h := None)"
    "cpu_get_num_free_blocks (arc_backend (arc_evict f h b m)) = cpu_get_num_free_blocks (arc_backend m) + 1"
proof -
  let ?m = "arc_evict f h b m"
  note c = arc_choose_Some[OF ch ok] and d = arc_keysD[OF ok]
  have n: "map_of (arc_b1 m) h = None" "map_of (arc_b2 m) h = None" "f \<Longrightarrow> map_of (arc_t2 m) h = None" "\<not> f \<Longrightarrow> map_of (arc_t1 m) h = None"
    using c arc_keys_disjoint[OF ok, of h b] by (auto split: if_splits)
  have keys: "mset (arc_keys ?m) = mset (arc_keys m)"
    using c n mset_keys_move(1)[OF d(1), of h b] mset_keys_move(1)[OF d(2), of h b]
    by (cases f) (simp_all add: arc_evict_def arc_keys_def update_new)
  have ids: "add_mset (bs_block_id b) (arc_ids ?m) = arc_ids m"
    using c mset_keys_move(2)[OF d(1), of h b "bs_block_id \<circ> snd"] mset_keys_move(2)[OF d(2), of h b "bs_block_id \<circ> snd"]
    by (cases f) (simp_all add: arc_evict_def arc_ids_def arc_blocks_def)
  have be: "arc_backend ?m = cpu_free b (arc_backend m)" "arc_cache_capacity ?m = arc_cache_capacity m"
    by (simp_all add: arc_evict_def)
  have "distinct (arc_keys ?m)" using ok keys mset_eq_imp_distinct_iff unfolding arc_ok_alt by blast
  then show "arc_ok ?m" using ok cpu.release[of "arc_backend m" b "arc_ids ?m"] ids by (simp add: arc_ok_alt be)
  show "arc_get ?m = (arc_get m)(h := None)"
    using c n by (cases f) (auto simp: arc_evict_def arc_get_def fun_eq_iff map_of_delete split: option.splits)
  show "cpu_get_num_free_blocks (arc_backend ?m) = cpu_get_num_free_blocks (arc_backend m) + 1"
    by (simp add: be cpu_get_num_free_blocks_def cpu_free_def)
qed

lemma arc_evict_frame [simp]:
  "arc_cache_capacity (arc_evict f h b m) = arc_cache_capacity m" "arc_events (arc_evict f h b m) = arc_events m"
  "arc_target_t1_size (arc_evict f h b m) = arc_target_t1_size m"
  "emit_event (arc_backend (arc_evict f h b m)) = emit_event (arc_backend m)"
  using emit_event_freed[of "[b]" "arc_backend m"] by (simp_all add: arc_evict_def)

text \<open>What the eviction loop has removed when it ends, both ways: only blocks without a reader.\<close>

lemma arc_evict_loop_ok:
  assumes "arc_ok m" "arc_evict_loop n acc m = (r, m')"
  shows "\<exists>ks. (r = Some (acc @ ks) \<and> length ks = n \<or> r = None \<and> length ks < n) \<and> distinct ks \<and> arc_ok m' \<and>
           (\<forall>h\<in>set ks. \<exists>b. arc_get m h = Some b \<and> bs_ref_cnt b = 0) \<and>
           arc_get m' = (\<lambda>h. if h \<in> set ks then None else arc_get m h) \<and>
           cpu_get_num_free_blocks (arc_backend m') = cpu_get_num_free_blocks (arc_backend m) + int (length ks) \<and>
           arc_cache_capacity m' = arc_cache_capacity m \<and> arc_events m' = arc_events m \<and>
           arc_target_t1_size m' = arc_target_t1_size m \<and> emit_event (arc_backend m') = emit_event (arc_backend m)"
  using assms
proof (induction n arbitrary: acc m)
  case 0
  then show ?case by (intro exI[of _ "[]"]) auto
next
  case (Suc n)
  show ?case
  proof (cases "arc_choose m")
    case None
    with Suc.prems show ?thesis by (intro exI[of _ "[]"]) auto
  next
    case (Some c)
    obtain f h b where c: "c = (f, h, b)" by (cases c)
    let ?m = "arc_evict f h b m"
    note e = arc_evict_ok[OF Suc.prems(1) Some[unfolded c]] and ch = arc_choose_Some[OF Some[unfolded c] Suc.prems(1)]
    have run: "arc_evict_loop n (acc @ [h]) ?m = (r, m')" using Suc.prems(2) Some c by simp
    from Suc.IH[OF e(1) run] obtain ks where
      ks: "r = Some ((acc @ [h]) @ ks) \<and> length ks = n \<or> r = None \<and> length ks < n" "distinct ks" "arc_ok m'"
      "\<forall>x\<in>set ks. \<exists>b. arc_get ?m x = Some b \<and> bs_ref_cnt b = 0"
      "arc_get m' = (\<lambda>x. if x \<in> set ks then None else arc_get ?m x)"
      "cpu_get_num_free_blocks (arc_backend m') = cpu_get_num_free_blocks (arc_backend ?m) + int (length ks)"
      "arc_cache_capacity m' = arc_cache_capacity m" "arc_events m' = arc_events m"
      "arc_target_t1_size m' = arc_target_t1_size m" "emit_event (arc_backend m') = emit_event (arc_backend m)"
      by auto
    have "h \<notin> set ks" using ks(4) e(2) by auto
    moreover have "\<forall>x\<in>set ks. \<exists>b. arc_get m x = Some b \<and> bs_ref_cnt b = 0"
      using ks(4) by (auto simp: e(2) split: if_splits)
    moreover have "arc_get m' = (\<lambda>x. if x \<in> set (h # ks) then None else arc_get m x)"
      by (auto simp: ks(5) e(2))
    ultimately show ?thesis
      using ks(1-3,6-10) ch e(3) by (intro exI[of _ "h # ks"]) auto
  qed
qed

section \<open>Preparing a store\<close>

lemma trim_ghost_drop: "0 \<le> c \<Longrightarrow> trim_ghost c b = Inr (drop (nat (int (length b) - c)) b)"
proof -
  have "n \<le> length b \<Longrightarrow> mfold (\<lambda>_ b. rbind (popitem_first b) (\<lambda>(_, b). Inr b)) xs b = Inr (drop n b)"
    if "length xs = n" for xs :: "nat list" and n
    using that
  proof (induction xs arbitrary: n b)
    case (Cons x xs)
    then show ?case by (cases b) (auto simp: popitem_first_def)
  qed simp
  then show "0 \<le> c \<Longrightarrow> ?thesis" by (simp add: trim_ghost_def)
qed

lemma arc_insert_new:
  assumes "length hs = length bs" "distinct hs" "\<forall>h\<in>set hs. map_of (arc_t1 m) h = None"
  shows "arc_insert hs bs m = m\<lparr>arc_t1 := arc_t1 m @ zip hs bs,
     arc_b1 := filter (\<lambda>p. fst p \<notin> set hs) (arc_b1 m), arc_b2 := filter (\<lambda>p. fst p \<notin> set hs) (arc_b2 m)\<rparr>"
  using assms
proof (induction hs bs arbitrary: m rule: list_induct2)
  case (Cons h hs b bs)
  let ?m = "m\<lparr>arc_t1 := arc_t1 m @ [(h, b)], arc_b1 := AList.delete h (arc_b1 m), arc_b2 := AList.delete h (arc_b2 m)\<rparr>"
  have "filter (\<lambda>p. fst p \<notin> set hs) (AList.delete h d) = filter (\<lambda>p. fst p \<notin> set (h # hs)) d" for d :: "(bytes, unit) dict"
    by (auto simp: AList.delete_eq split_def intro!: filter_cong)
  moreover have "arc_insert hs bs ?m = ?m\<lparr>arc_t1 := arc_t1 ?m @ zip hs bs,
     arc_b1 := filter (\<lambda>p. fst p \<notin> set hs) (arc_b1 ?m), arc_b2 := filter (\<lambda>p. fst p \<notin> set hs) (arc_b2 ?m)\<rparr>"
    using Cons.prems by (intro Cons.IH) (auto simp: map_add_def)
  ultimately show ?case using Cons.prems by (simp add: arc_insert_def update_new)
qed (simp add: arc_insert_def)

lemma arc_prepare_store_nothing:
  assumes "filter (\<lambda>h. arc_get m h = None) hs = []"
  shows "\<exists>out. arc_prepare_store m hs = Inr (Some out, m) \<and> store_prepared (arc_get m) hs out (arc_get m)"
proof -
  have "filter (\<lambda>h. map_of (arc_t1 m) h = None \<and> map_of (arc_t2 m) h = None) hs = []"
    using assms by (auto simp: filter_empty_conv arc_get_def split: option.splits)
  then show ?thesis
    using assms by (auto simp: arc_prepare_store_def store_prepared_def get_load_store_spec_def CPULoadStoreSpec_def int64_array_def)
qed

lemma distinct_merge:
  "\<lbrakk>distinct (a @ b @ c @ d); distinct new; \<forall>h\<in>set new. h \<notin> set a \<and> h \<notin> set b; distinct g1; distinct g2;
    set g1 \<subseteq> set c - set new; set g2 \<subseteq> set d - set new\<rbrakk> \<Longrightarrow> distinct (a @ new @ b @ g1 @ g2)"
  by auto

lemma arc_insert_ok:
  assumes "arc_ok m" "length bs = length new" "distinct new" "\<forall>h\<in>set new. arc_get m h = None"
    and "cpu_owned b (arc_ids m + mset (map bs_block_id bs))"
    and m'_def: "m' = m\<lparr>arc_b1 := drop i (arc_b1 m), arc_b2 := drop j (arc_b2 m), arc_events := e, arc_backend := b\<rparr>"
  shows "arc_ok (arc_insert new bs m')"
    "arc_get (arc_insert new bs m') h = (case map_of (zip new bs) h of None \<Rightarrow> arc_get m h | Some x \<Rightarrow> Some x)"
    "map_of (arc_t1 (arc_insert new bs m')) h = (case map_of (arc_t1 m) h of None \<Rightarrow> map_of (zip new bs) h | Some x \<Rightarrow> Some x)"
proof -
  have t: "\<forall>h\<in>set new. map_of (arc_t1 m) h = None \<and> map_of (arc_t2 m) h = None"
    using assms(4) by (auto simp: arc_get_def split: option.splits)
  have ins: "arc_insert new bs m' = m'\<lparr>arc_t1 := arc_t1 m @ zip new bs,
      arc_b1 := filter (\<lambda>p. fst p \<notin> set new) (drop i (arc_b1 m)), arc_b2 := filter (\<lambda>p. fst p \<notin> set new) (drop j (arc_b2 m))\<rparr>"
    using arc_insert_new[of new bs m'] assms(2,3) t by (simp add: m'_def)
  define g1 where "g1 = map fst (filter (\<lambda>p. fst p \<notin> set new) (drop i (arc_b1 m)))"
  define g2 where "g2 = map fst (filter (\<lambda>p. fst p \<notin> set new) (drop j (arc_b2 m)))"
  have "distinct (map fst (filter P (drop n d)))" if "distinct (map fst d)" for P n and d :: "(bytes, unit) dict"
    using that by (simp add: distinct_map_filter drop_map[symmetric])
  then have g: "distinct g1" "distinct g2" "set g1 \<subseteq> fst ` set (arc_b1 m) - set new" "set g2 \<subseteq> fst ` set (arc_b2 m) - set new"
    using arc_keysD(3,4)[OF assms(1)] by (auto simp: g1_def g2_def dest: in_set_dropD)
  have "arc_keys (arc_insert new bs m') = map fst (arc_t1 m) @ new @ map fst (arc_t2 m) @ g1 @ g2"
    unfolding ins using assms(2) by (simp add: arc_keys_def m'_def g1_def g2_def)
  then have "distinct (arc_keys (arc_insert new bs m'))"
    using assms(1,3) t g
    by (simp only: arc_ok_def) (intro distinct_merge[where c = "map fst (arc_b1 m)" and d = "map fst (arc_b2 m)"]; auto simp: map_of_eq_None_iff)
  moreover have "map (bs_block_id \<circ> snd) (zip new bs) = map bs_block_id bs"
    using assms(2) by (simp flip: map_map)
  then have "arc_ids (arc_insert new bs m') = arc_ids m + mset (map bs_block_id bs)"
    unfolding ins by (simp add: arc_ids_def arc_blocks_def m'_def ac_simps del: map_map)
  ultimately show "arc_ok (arc_insert new bs m')"
    using assms(1,5) unfolding arc_ok_alt unfolding ins by (simp add: m'_def)
  have "map_of (arc_t1 m) h = None \<and> map_of (arc_t2 m) h = None" if "map_of (zip new bs) h = Some x" for h x
    using t map_of_SomeD[OF that] by (auto dest: set_zip_leftD)
  then show "arc_get (arc_insert new bs m') h = (case map_of (zip new bs) h of None \<Rightarrow> arc_get m h | Some x \<Rightarrow> Some x)"
    unfolding ins by (auto simp: arc_get_def m'_def map_add_def split: option.split)
  show "map_of (arc_t1 (arc_insert new bs m')) h = (case map_of (arc_t1 m) h of None \<Rightarrow> map_of (zip new bs) h | Some x \<Rightarrow> Some x)"
    by (simp add: ins map_add_def)
qed

theorem arc_prepare_store_ok:
  assumes ok: "arc_ok m" and dist: "distinct hs"
  shows "\<exists>r m'. arc_prepare_store m hs = Inr (r, m') \<and> arc_ok m' \<and>
           (case r of Some out \<Rightarrow> store_prepared (arc_get m) hs out (arc_get m') \<and>
              (\<forall>h\<in>set (block_hashes_to_store out). map_of (arc_t1 m') h = arc_get m' h)
            | None \<Rightarrow> \<forall>h. arc_get m' h = arc_get m h \<or>
                (arc_get m' h = None \<and> (\<exists>b. arc_get m h = Some b \<and> bs_ref_cnt b = 0)))"
proof (cases "filter (\<lambda>h. arc_get m h = None) hs = []")
  case True
  from arc_prepare_store_nothing[OF True] obtain out where
    "arc_prepare_store m hs = Inr (Some out, m)" "store_prepared (arc_get m) hs out (arc_get m)" by blast
  moreover from this(2) have "block_hashes_to_store out = []" using True by (simp add: store_prepared_def)
  ultimately show ?thesis using ok by (intro exI[of _ "Some out"] exI[of _ m]) simp
next
  case False
  let ?new = "filter (\<lambda>h. arc_get m h = None) hs"
  let ?need = "int (length ?new) - cpu_get_num_free_blocks (arc_backend m)"
  have new: "filter (\<lambda>h. map_of (arc_t1 m) h = None \<and> map_of (arc_t2 m) h = None) hs = ?new"
    by (auto simp: arc_get_def split: option.splits intro!: filter_cong)
  obtain r m1 where run: "arc_evict_loop (nat ?need) [] m = (r, m1)" by fastforce
  from arc_evict_loop_ok[OF ok run] obtain ks where
    ks: "r = Some ks \<and> length ks = nat ?need \<or> r = None" "distinct ks" "arc_ok m1"
      "\<forall>h\<in>set ks. \<exists>b. arc_get m h = Some b \<and> bs_ref_cnt b = 0"
      "arc_get m1 = (\<lambda>h. if h \<in> set ks then None else arc_get m h)"
      "cpu_get_num_free_blocks (arc_backend m1) = cpu_get_num_free_blocks (arc_backend m) + int (length ks)"
      "arc_cache_capacity m1 = arc_cache_capacity m"
    by auto
  show ?thesis
  proof (cases r)
    case None
    with False new run ks(3-5) show ?thesis by (simp add: arc_prepare_store_def Let_def)
  next
    case (Some ks')
    then have r: "r = Some ks" "length ks = nat ?need" using ks(1) by auto
    have own: "cpu_owned (arc_backend m1) (arc_ids m1)" "0 \<le> arc_cache_capacity m1" using ks(3) by (auto simp: arc_ok_def)
    have "int (length ?new) \<le> cpu_get_num_free_blocks (arc_backend m1)" using ks(6) r(2) by linarith
    then obtain bs b' where al: "cpu_allocate_blocks (arc_backend m1) ?new = Inr (bs, b')" "length bs = length ?new"
      "\<forall>x\<in>set bs. bs_ref_cnt x = - 1" "cpu_owned b' (arc_ids m1 + mset (map bs_block_id bs))"
      using cpu.alloc[OF own(1)] by blast
    have spec: "get_load_store_spec bs = Inr \<lparr>ls_medium = CPU_medium, ls_block_ids = map bs_block_id bs\<rparr>"
      by (rule cpu.owned_spec[OF al(4)]) auto
    let ?m = "m1\<lparr>arc_b1 := drop (nat (int (length (arc_b1 m1)) - arc_cache_capacity m1)) (arc_b1 m1),
      arc_b2 := drop (nat (int (length (arc_b2 m1)) - arc_cache_capacity m1)) (arc_b2 m1),
      arc_events := emit_event (arc_backend m1) ks True (arc_events m1), arc_backend := b'\<rparr>"
    let ?out = "\<lparr>block_hashes_to_store = ?new, store_spec = \<lparr>ls_medium = CPU_medium, ls_block_ids = map bs_block_id bs\<rparr>,
      block_hashes_evicted = ks\<rparr>"
    have "arc_prepare_store m hs = Inr (Some ?out, arc_insert ?new bs ?m)"
      using False unfolding arc_prepare_store_def Let_def new run r(1)
      by (simp add: trim_ghost_drop[OF own(2)] al(1,2) spec)
    moreover have ins: "arc_ok (arc_insert ?new bs ?m)"
      "arc_get (arc_insert ?new bs ?m) h = (case map_of (zip ?new bs) h of None \<Rightarrow> arc_get m1 h | Some x \<Rightarrow> Some x)"
      "map_of (arc_t1 (arc_insert ?new bs ?m)) h = (case map_of (arc_t1 m1) h of None \<Rightarrow> map_of (zip ?new bs) h | Some x \<Rightarrow> Some x)" for h
      using arc_insert_ok[OF ks(3) al(2) _ _ al(4) refl] dist by (auto simp: ks(5))
    moreover have "store_prepared (arc_get m) hs ?out (arc_get (arc_insert ?new bs ?m))"
      using ks(2,4) dist by (intro store_prepared_append[OF al(2) _ refl al(3)]) (auto simp: ins(2) ks(5) split: option.split)
    moreover have "map_of (arc_t1 (arc_insert ?new bs ?m)) h = arc_get (arc_insert ?new bs ?m) h" if "h \<in> set ?new" for h
    proof -
      have "arc_get m1 h = None" using that by (simp add: ks(5))
      then have "map_of (arc_t1 m1) h = None" by (auto simp: arc_get_def split: option.splits)
      with \<open>arc_get m1 h = None\<close> show ?thesis by (simp add: ins(2,3) split: option.split)
    qed
    ultimately show ?thesis by (intro exI[of _ "Some ?out"] exI[of _ "arc_insert ?new bs ?m"]) simp
  qed
qed

section \<open>Loads and completed stores\<close>

lemma arc_get_id: "arc_get m h = Some b \<Longrightarrow> bs_block_id b \<in># arc_ids m"
  by (force simp: arc_get_blocks arc_ids_def dest: map_of_SomeD)

lemma arc_prepare_load_ok:
  assumes "arc_ok m" "loadable (arc_get m) hs"
  shows "\<exists>spec m'. arc_prepare_load m hs = Inr (spec, m') \<and> arc_ok m' \<and> ls_medium spec = CPU_medium \<and>
           ls_block_ids spec = map (\<lambda>h. bs_block_id (the (arc_get m h))) hs \<and>
           (\<forall>x. arc_get m' x = map_option (bump (int (count_list hs x))) (arc_get m x))"
proof -
  obtain bs m' where l: "mfold arc_load_one hs ([], m) = Inr (bs, m')" "arc_shape m' = arc_shape m"
    "map bs_block_id bs = map (\<lambda>h. bs_block_id (the (arc_get m h))) hs"
    "\<forall>x. arc_get m' x = map_option (bump (int (count_list hs x))) (arc_get m x)"
    using arc.load_all[OF assms(2), of "[]"] by auto
  have ok: "cpu_owned (arc_backend m) (arc_ids m)" using assms(1) by (simp add: arc_ok_def)
  have "set (map bs_block_id bs) \<subseteq> set_mset (arc_ids m)"
    using assms(2) arc_get_id by (fastforce simp: l(3) loadable_def)
  from cpu.owned_spec[OF ok this] l assms(1) arc_ok_shape[OF l(2)] show ?thesis
    by (simp add: arc_prepare_load_def)
qed

lemma arc_complete_load_ok:
  assumes "arc_ok m" "unloadable (arc_get m) hs"
  shows "\<exists>m'. arc_complete_load m hs = Inr m' \<and> arc_ok m' \<and>
           (\<forall>x. arc_get m' x = map_option (bump (- int (count_list hs x))) (arc_get m x))"
  using arc.unload_all[OF assms(2)] assms(1) arc_ok_shape unfolding arc_complete_load_def by metis

lemma arc_complete_store_ok:
  assumes "arc_ok m" "\<forall>h\<in>set hs. arc_get m h \<noteq> None"
  shows "\<exists>m'. arc_complete_store m hs True = Inr m' \<and> arc_ok m' \<and>
           (\<forall>x. arc_get m' x = (if x \<in> set hs then map_option publish (arc_get m x) else arc_get m x))"
proof -
  obtain d m' where l: "mfold arc_stored_one hs ([], m) = Inr (d, m')" "arc_shape m' = arc_shape m"
    "\<forall>x. arc_get m' x = (if x \<in> set hs then map_option publish (arc_get m x) else arc_get m x)"
    using arc.stored_all[OF assms(2), of "[]"] by auto
  have "arc_ok m'" using assms(1) arc_ok_shape[OF l(2)] by simp
  then have "arc_ok (m'\<lparr>arc_events := e\<rparr>)" for e by (simp add: arc_ok_def arc_ids_def arc_blocks_def)
  with l show ?thesis by (simp add: arc_complete_store_def)
qed

text \<open>A failed store of blocks that are not ready removes them and gives their memory back.\<close>

lemma arc_failed_one_ok:
  assumes ok: "arc_ok m" and busy: "\<And>b. arc_get m h = Some b \<Longrightarrow> \<not> is_ready b"
  shows "arc_ok (arc_failed_one h m)" "arc_get (arc_failed_one h m) = (arc_get m)(h := None)"
proof -
  let ?m = "arc_failed_one h m"
  note d = arc_keysD[OF ok]
  have t: "arc_get m h = (case map_of (arc_t1 m) h of None \<Rightarrow> map_of (arc_t2 m) h | Some b \<Rightarrow> Some b)" by (simp add: arc_get_def)
  show "arc_get ?m = (arc_get m)(h := None)"
    using arc_keys_disjoint(1)[OF ok, of h]
    by (auto simp: arc_failed_one_def arc_get_def map_of_delete fun_eq_iff split: option.splits)
  show "arc_ok ?m"
  proof (cases "arc_get m h")
    case None
    then have n: "map_of (arc_t1 m) h = None" "map_of (arc_t2 m) h = None" by (auto simp: t split: option.splits)
    then have "?m = m\<lparr>arc_t2 := AList.delete h (arc_t2 m)\<rparr>" "h \<notin> fst ` set (arc_t2 m)"
      by (simp add: arc_failed_one_def, simp add: map_of_eq_None_iff)
    then show ?thesis using ok by (simp add: AList.delete_idem)
  next
    case (Some b)
    have m: "arc_backend ?m = cpu_free b (arc_backend m)" "arc_cache_capacity ?m = arc_cache_capacity m"
      using Some busy[OF Some] by (auto simp: t arc_failed_one_def split: option.splits)
    have ids: "add_mset (bs_block_id b) (arc_ids ?m) = arc_ids m"
      using Some busy[OF Some] mset_keys_move(2)[OF d(1), of h b "bs_block_id \<circ> snd"] mset_keys_move(2)[OF d(2), of h b "bs_block_id \<circ> snd"]
      by (auto simp: t arc_failed_one_def arc_ids_def arc_blocks_def split: option.splits)
    have "arc_keys ?m = (if map_of (arc_t1 m) h = None
        then map fst (arc_t1 m) @ map fst (AList.delete h (arc_t2 m)) @ map fst (arc_b1 m) @ map fst (arc_b2 m)
        else map fst (AList.delete h (arc_t1 m)) @ map fst (arc_t2 m) @ map fst (arc_b1 m) @ map fst (arc_b2 m))"
      using Some busy[OF Some] by (auto simp: t arc_failed_one_def arc_keys_def split: option.splits)
    moreover have "distinct (arc_keys m)" using ok by (simp add: arc_ok_alt)
    ultimately have "distinct (arc_keys ?m)"
      unfolding arc_keys_def by (simp add: map_fst_delete) (auto simp: AList.delete_eq)
    then show ?thesis using ok cpu.release[of "arc_backend m" b "arc_ids ?m"] ids by (simp add: arc_ok_alt m)
  qed
qed

lemma arc_failed_store_ok:
  assumes "arc_ok m" "\<forall>h\<in>set hs. \<forall>b. arc_get m h = Some b \<longrightarrow> \<not> is_ready b"
  shows "\<exists>m'. arc_complete_store m hs False = Inr m' \<and> arc_ok m' \<and> arc_get m' = (\<lambda>h. if h \<in> set hs then None else arc_get m h)"
proof -
  have "arc_ok (fold arc_failed_one hs m) \<and> arc_get (fold arc_failed_one hs m) = (\<lambda>h. if h \<in> set hs then None else arc_get m h)"
    using assms
  proof (induction hs arbitrary: m)
    case (Cons h hs)
    have "\<And>b. arc_get m h = Some b \<Longrightarrow> \<not> is_ready b" using Cons.prems(2) by simp
    note f = arc_failed_one_ok[OF Cons.prems(1) this]
    have "\<forall>k\<in>set hs. \<forall>b. arc_get (arc_failed_one h m) k = Some b \<longrightarrow> \<not> is_ready b" using Cons.prems(2) by (simp add: f(2))
    from Cons.IH[OF f(1) this] show ?case by (auto simp: f(2) fun_eq_iff)
  qed (simp add: fun_eq_iff)
  moreover have "arc_ok (x\<lparr>arc_events := e\<rparr>) = arc_ok x" "arc_get (x\<lparr>arc_events := e\<rparr>) = arc_get x" for x e
    by (simp_all add: arc_ok_def arc_ids_def arc_blocks_def arc_get_def fun_eq_iff)
  ultimately show ?thesis by (simp add: arc_complete_store_def)
qed

text \<open>
  A failed store removes blocks that had been stored, too, and does not give their memory back:
  the free blocks stay as they were although the block is gone.
\<close>

lemma arc_failed_store_leaks:
  assumes "arc_get m h = Some b" "is_ready b" "arc_ok m"
  shows "\<exists>m'. arc_complete_store m [h] False = Inr m' \<and> arc_get m' h = None \<and>
           cpu_get_num_free_blocks (arc_backend m') = cpu_get_num_free_blocks (arc_backend m) \<and> \<not> arc_ok m'"
proof -
  let ?m = "arc_failed_one h m"
  note d = arc_keysD[OF assms(3)]
  have f: "arc_get ?m h = None" "arc_backend ?m = arc_backend m"
    using assms(1,2) arc_keys_disjoint(1)[OF assms(3), of h b]
    by (auto simp: arc_failed_one_def arc_get_def map_of_delete split: option.splits)
  have ids: "add_mset (bs_block_id b) (arc_ids ?m) = arc_ids m"
    using assms(1,2) mset_keys_move(2)[OF d(1), of h b "bs_block_id \<circ> snd"] mset_keys_move(2)[OF d(2), of h b "bs_block_id \<circ> snd"]
    by (auto simp: arc_failed_one_def arc_get_def arc_ids_def arc_blocks_def split: option.splits)
  have "\<not> cpu_owned (arc_backend m) (arc_ids ?m)"
  proof
    assume "cpu_owned (arc_backend m) (arc_ids ?m)"
    from cpu.num_free[OF this] cpu.num_free[of "arc_backend m" "arc_ids m"] assms(3) show False
      by (simp add: arc_ok_def flip: ids)
  qed
  then have "\<not> arc_ok (?m\<lparr>arc_events := e\<rparr>)" for e
    by (simp add: arc_ok_def arc_ids_def arc_blocks_def f(2))
  then show ?thesis using f by (simp add: arc_complete_store_def)
qed

end
