(* ===== verification/Offload_Manager.thy ===== *)
theory Offload_Manager
  imports Offload_ARC KV_Specs
begin

text \<open>
  The offloading manager as its clients see it (\<^verbatim>\<open>v1/kv_offload/abstract.py\<close>): dispatch over the two
  implementations, the specification object that chooses and sizes one (\<^verbatim>\<open>v1/kv_offload/spec.py\<close>,
  \<^verbatim>\<open>cpu.py\<close>), and the contract of the interface as the locale \<open>offload_manager\<close>, interpreted on the
  dispatch functions.
\<close>

section \<open>Dispatch\<close>

datatype OffloadingManager = LRU LRUOffloadingManager | ARC ARCOffloadingManager

fun om_lookup :: "OffloadingManager \<Rightarrow> bytes list \<Rightarrow> int" where
  "om_lookup (LRU m) hs = lru_lookup m hs"
| "om_lookup (ARC m) hs = arc_lookup m hs"

fun om_prepare_load :: "OffloadingManager \<Rightarrow> bytes list \<Rightarrow> (LoadStoreSpec \<times> OffloadingManager) result" where
  "om_prepare_load (LRU m) hs = rbind (lru_prepare_load m hs) (\<lambda>(spec, m). Inr (spec, LRU m))"
| "om_prepare_load (ARC m) hs = rbind (arc_prepare_load m hs) (\<lambda>(spec, m). Inr (spec, ARC m))"

fun om_touch :: "(rat \<Rightarrow> rat) \<Rightarrow> OffloadingManager \<Rightarrow> bytes list \<Rightarrow> OffloadingManager result" where
  "om_touch rnd (LRU m) hs = rbind (lru_touch m hs) (\<lambda>m. Inr (LRU m))"
| "om_touch rnd (ARC m) hs = rbind (arc_touch rnd m hs) (\<lambda>m. Inr (ARC m))"

fun om_complete_load :: "OffloadingManager \<Rightarrow> bytes list \<Rightarrow> OffloadingManager result" where
  "om_complete_load (LRU m) hs = rbind (lru_complete_load m hs) (\<lambda>m. Inr (LRU m))"
| "om_complete_load (ARC m) hs = rbind (arc_complete_load m hs) (\<lambda>m. Inr (ARC m))"

fun om_prepare_store :: "OffloadingManager \<Rightarrow> bytes list \<Rightarrow> (PrepareStoreOutput option \<times> OffloadingManager) result" where
  "om_prepare_store (LRU m) hs = rbind (lru_prepare_store m hs) (\<lambda>(out, m). Inr (out, LRU m))"
| "om_prepare_store (ARC m) hs = rbind (arc_prepare_store m hs) (\<lambda>(out, m). Inr (out, ARC m))"

fun om_complete_store :: "OffloadingManager \<Rightarrow> bytes list \<Rightarrow> bool \<Rightarrow> OffloadingManager result" where
  "om_complete_store (LRU m) hs success = rbind (lru_complete_store m hs success) (\<lambda>m. Inr (LRU m))"
| "om_complete_store (ARC m) hs success = rbind (arc_complete_store m hs success) (\<lambda>m. Inr (ARC m))"

fun om_take_events :: "OffloadingManager \<Rightarrow> OffloadingEvent list \<times> OffloadingManager" where
  "om_take_events (LRU m) = (case lru_take_events m of (es, m) \<Rightarrow> (es, LRU m))"
| "om_take_events (ARC m) = (case arc_take_events m of (es, m) \<Rightarrow> (es, ARC m))"

section \<open>Choosing a manager\<close>

record CPUOffloadingSpec =
  os_gpu_block_size :: int
  os_offloaded_block_size :: int
  os_num_blocks :: int
  os_eviction_policy :: string

definition distinct_pages :: "(dtype \<Rightarrow> int) \<Rightarrow> KVCacheConfig \<Rightarrow> int list result" where
  "distinct_pages dsize kv_cache_config =
     rbind (mmap (\<lambda>g. page_size_bytes dsize (g_kv_cache_spec g)) (kv_cache_groups kv_cache_config)) (\<lambda>pages. Inr (remdups pages))"

definition CPUOffloadingSpec_init ::
  "(dtype \<Rightarrow> int) \<Rightarrow> int \<Rightarrow> int option \<Rightarrow> int option \<Rightarrow> string option \<Rightarrow> int \<Rightarrow> KVCacheConfig \<Rightarrow> CPUOffloadingSpec result" where
  "CPUOffloadingSpec_init dsize gpu_block_size block_size cpu_bytes_to_use eviction_policy world_size kv_cache_config =
     (let offloaded_block_size = (case block_size of None \<Rightarrow> gpu_block_size | Some b \<Rightarrow> b)
      in if gpu_block_size = 0 then Inl ZeroDivisionError
         else py_assert (offloaded_block_size mod gpu_block_size = 0)
           (case cpu_bytes_to_use of
              None \<Rightarrow> Inl PyException
            | Some n \<Rightarrow> if n = 0 then Inl PyException else
                rbind (distinct_pages dsize kv_cache_config) (\<lambda>pages.
                py_assert (length pages = 1)
                  (let page_size_bytes = hd pages;
                       kv_bytes_per_block = page_size_bytes * int (length (kv_cache_tensors kv_cache_config)) * world_size;
                       kv_bytes_per_offloaded_block = kv_bytes_per_block * (offloaded_block_size div gpu_block_size)
                   in Inr \<lparr>os_gpu_block_size = gpu_block_size, os_offloaded_block_size = offloaded_block_size,
                        os_num_blocks = (if 0 < kv_bytes_per_offloaded_block then n div kv_bytes_per_offloaded_block else 0),
                        os_eviction_policy = (case eviction_policy of None \<Rightarrow> ''lru'' | Some p \<Rightarrow> p)\<rparr>))))"

definition get_manager :: "bool \<Rightarrow> CPUOffloadingSpec \<Rightarrow> OffloadingManager result" where
  "get_manager enable_events spec =
     (let backend = CPUBackend_init (os_offloaded_block_size spec) (os_num_blocks spec)
      in if os_eviction_policy spec = ''lru'' then Inr (LRU (LRUOffloadingManager_init backend enable_events))
         else if os_eviction_policy spec = ''arc'' then Inr (ARC (ARCOffloadingManager_init backend enable_events))
         else Inl ValueError)"

section \<open>The contract\<close>

fun om_ok :: "OffloadingManager \<Rightarrow> bool" where
  "om_ok (LRU m) = lru_ok m"
| "om_ok (ARC m) = arc_ok m"

fun om_get :: "OffloadingManager \<Rightarrow> bytes \<Rightarrow> CPUBlockStatus option" where
  "om_get (LRU m) = lru_get m"
| "om_get (ARC m) = arc_get m"

text \<open>
  Which blocks may be touched: all, for the first manager; for the adaptive one, blocks that are
  ready.
\<close>

fun om_touchable :: "OffloadingManager \<Rightarrow> bytes list \<Rightarrow> bool" where
  "om_touchable (LRU m) hs = True"
| "om_touchable (ARC m) hs = (\<forall>h\<in>set hs. case arc_get m h of None \<Rightarrow> True | Some b \<Rightarrow> is_ready b)"

locale offload_manager =
  fixes ok :: "'m \<Rightarrow> bool"
    and get :: "'m \<Rightarrow> bytes \<Rightarrow> CPUBlockStatus option"
    and touchable :: "'m \<Rightarrow> bytes list \<Rightarrow> bool"
    and lookup :: "'m \<Rightarrow> bytes list \<Rightarrow> int"
    and prepare_load :: "'m \<Rightarrow> bytes list \<Rightarrow> (LoadStoreSpec \<times> 'm) result"
    and touch :: "(rat \<Rightarrow> rat) \<Rightarrow> 'm \<Rightarrow> bytes list \<Rightarrow> 'm result"
    and complete_load :: "'m \<Rightarrow> bytes list \<Rightarrow> 'm result"
    and prepare_store :: "'m \<Rightarrow> bytes list \<Rightarrow> (PrepareStoreOutput option \<times> 'm) result"
    and complete_store :: "'m \<Rightarrow> bytes list \<Rightarrow> bool \<Rightarrow> 'm result"
  assumes lookup: "lookup m hs = int (length (takeWhile (ready_in (get m)) hs))"
    and ids_differ: "\<lbrakk>ok m; get m h = Some b; get m k = Some b'; bs_block_id b = bs_block_id b'\<rbrakk> \<Longrightarrow> h = k"
    and touch: "\<lbrakk>ok m; touchable m hs\<rbrakk> \<Longrightarrow> \<exists>m'. touch rnd m hs = Inr m' \<and> ok m' \<and> get m' = get m"
    and prepare_load: "\<lbrakk>ok m; loadable (get m) hs\<rbrakk> \<Longrightarrow>
      \<exists>spec m'. prepare_load m hs = Inr (spec, m') \<and> ok m' \<and>
        ls_block_ids spec = map (\<lambda>h. bs_block_id (the (get m h))) hs \<and>
        (\<forall>x. get m' x = map_option (bump (int (count_list hs x))) (get m x))"
    and complete_load: "\<lbrakk>ok m; unloadable (get m) hs\<rbrakk> \<Longrightarrow>
      \<exists>m'. complete_load m hs = Inr m' \<and> ok m' \<and>
        (\<forall>x. get m' x = map_option (bump (- int (count_list hs x))) (get m x))"
    and prepare_store: "\<lbrakk>ok m; distinct hs\<rbrakk> \<Longrightarrow>
      \<exists>r m'. prepare_store m hs = Inr (r, m') \<and> ok m' \<and>
        (case r of Some out \<Rightarrow> store_prepared (get m) hs out (get m')
         | None \<Rightarrow> \<forall>h. get m' h = get m h \<or> get m' h = None \<and> (\<exists>b. get m h = Some b \<and> bs_ref_cnt b = 0))"
    and complete_store: "\<lbrakk>ok m; \<forall>h\<in>set hs. get m h \<noteq> None\<rbrakk> \<Longrightarrow>
      \<exists>m'. complete_store m hs True = Inr m' \<and> ok m' \<and>
        (\<forall>x. get m' x = (if x \<in> set hs then map_option publish (get m x) else get m x))"
begin

text \<open>A block that is being read or written survives the preparation of a store, in its place.\<close>

lemma busy_block_kept:
  assumes "ok m" "distinct hs" "prepare_store m hs = Inr (r, m')" "get m h = Some b" "bs_ref_cnt b \<noteq> 0"
  shows "get m' h = Some b"
proof -
  from prepare_store[OF assms(1,2)] assms(3)
  have c: "case r of Some out \<Rightarrow> store_prepared (get m) hs out (get m')
    | None \<Rightarrow> \<forall>h. get m' h = get m h \<or> get m' h = None \<and> (\<exists>b. get m h = Some b \<and> bs_ref_cnt b = 0)" by auto
  show ?thesis
  proof (cases r)
    case None
    then have "get m' h = get m h \<or> get m' h = None \<and> (\<exists>b. get m h = Some b \<and> bs_ref_cnt b = 0)" using c by simp
    with assms(4,5) show ?thesis by auto
  next
    case (Some out)
    then have sp: "store_prepared (get m) hs out (get m')" using c by simp
    then have "h \<notin> set (block_hashes_to_store out)" "h \<notin> set (block_hashes_evicted out)"
      using assms(4,5) by (auto simp: store_prepared_def)
    with sp assms(4) show ?thesis by (simp add: store_prepared_def)
  qed
qed

text \<open>Blocks that were stored are found by a lookup once the store is complete.\<close>

lemma stored_then_found:
  assumes "ok m" "distinct hs" "prepare_store m hs = Inr (Some out, m1)"
  defines "new \<equiv> block_hashes_to_store out"
  shows "\<exists>m2. complete_store m1 new True = Inr m2 \<and> ok m2 \<and> lookup m2 new = int (length new) \<and>
           (\<forall>i<length new. get m2 (new ! i) = Some \<lparr>bs_ref_cnt = 0, bs_block_id = ls_block_ids (store_spec out) ! i\<rparr>)"
proof -
  from prepare_store[OF assms(1,2)] assms(3) have ok: "ok m1" and sp: "store_prepared (get m) hs out (get m1)" by auto
  have g: "get m1 (new ! i) = Some \<lparr>bs_ref_cnt = - 1, bs_block_id = ls_block_ids (store_spec out) ! i\<rparr>" if "i < length new" for i
    using sp that unfolding store_prepared_def new_def by blast
  then have "\<forall>h\<in>set new. get m1 h \<noteq> None" by (metis in_set_conv_nth option.distinct(1))
  from complete_store[OF ok this] obtain m2 where m2: "complete_store m1 new True = Inr m2" "ok m2"
    "\<forall>x. get m2 x = (if x \<in> set new then map_option publish (get m1 x) else get m1 x)" by auto
  have "get m2 (new ! i) = Some \<lparr>bs_ref_cnt = 0, bs_block_id = ls_block_ids (store_spec out) ! i\<rparr>" if "i < length new" for i
    using m2(3) g[OF that] that by (simp add: publish_def is_ready_def)
  moreover from this have "ready_in (get m2) h" if "h \<in> set new" for h
    using that by (auto simp: in_set_conv_nth ready_in_def is_ready_def)
  then have "takeWhile (ready_in (get m2)) new = new" by (simp add: takeWhile_eq_all_conv)
  then have "lookup m2 new = int (length new)" by (simp only: lookup)
  ultimately show ?thesis using m2(1,2) by simp
qed

end

lemma distinct_ids:
  assumes "cpu_owned b (mset (map (bs_block_id \<circ> snd) d))" "map_of d h = Some x" "map_of d k = Some y"
    "bs_block_id x = bs_block_id y"
  shows "h = k"
proof -
  have "distinct (map (bs_block_id \<circ> snd) d)"
    using cpu.owned_distinct[of b "map (bs_block_id \<circ> snd) d" "{#}"] assms(1) by simp
  then have "inj_on (bs_block_id \<circ> snd) (set d)" by (simp add: distinct_map)
  from inj_onD[OF this, of "(h, x)" "(k, y)"] assms(2-4) show ?thesis by (auto dest: map_of_SomeD)
qed

lemma lru_ids_differ:
  "\<lbrakk>lru_ok m; lru_get m h = Some b; lru_get m k = Some b'; bs_block_id b = bs_block_id b'\<rbrakk> \<Longrightarrow> h = k"
  unfolding lru_ok_def lru_ids_def lru_get_def by (elim conjE, rule distinct_ids)

lemma arc_ids_differ:
  "\<lbrakk>arc_ok m; arc_get m h = Some b; arc_get m k = Some b'; bs_block_id b = bs_block_id b'\<rbrakk> \<Longrightarrow> h = k"
  unfolding arc_ok_def arc_ids_def arc_get_blocks by (elim conjE, rule distinct_ids)

lemma lru_store_contract:
  assumes "lru_ok m" "distinct hs"
  shows "\<exists>r m'. lru_prepare_store m hs = Inr (r, m') \<and> lru_ok m' \<and>
    (case r of Some out \<Rightarrow> store_prepared (lru_get m) hs out (lru_get m') | None \<Rightarrow> m' = m)"
  using lru_prepare_store_cases[OF assms] assms(1) by (auto split: if_splits)

interpretation om: offload_manager om_ok om_get om_touchable om_lookup om_prepare_load om_touch om_complete_load
  om_prepare_store om_complete_store
proof unfold_locales
  fix m hs
  show "om_lookup m hs = int (length (takeWhile (ready_in (om_get m)) hs))"
    by (cases m) (simp_all add: lru_lookup_eq arc_lookup_def hit_loop_takeWhile)
next
  fix m h b k b'
  assume "om_ok m" "om_get m h = Some b" "om_get m k = Some b'" "bs_block_id b = bs_block_id b'"
  then show "h = k"
    using lru_ids_differ arc_ids_differ by (cases m) simp_all
next
  fix m hs rnd assume "om_ok m" "om_touchable m hs"
  then show "\<exists>m'. om_touch rnd m hs = Inr m' \<and> om_ok m' \<and> om_get m' = om_get m"
    using lru_touch_ok[of _ hs] arc_touch_ok[of _ hs rnd] by (cases m) (fastforce split: option.splits)+
next
  fix m hs assume "om_ok m" "loadable (om_get m) hs"
  then show "\<exists>spec m'. om_prepare_load m hs = Inr (spec, m') \<and> om_ok m' \<and>
      ls_block_ids spec = map (\<lambda>h. bs_block_id (the (om_get m h))) hs \<and>
      (\<forall>x. om_get m' x = map_option (bump (int (count_list hs x))) (om_get m x))"
    using lru_prepare_load_ok[of _ hs] arc_prepare_load_ok[of _ hs] by (cases m) fastforce+
next
  fix m hs assume "om_ok m" "unloadable (om_get m) hs"
  then show "\<exists>m'. om_complete_load m hs = Inr m' \<and> om_ok m' \<and>
      (\<forall>x. om_get m' x = map_option (bump (- int (count_list hs x))) (om_get m x))"
    using lru_complete_load_ok[of _ hs] arc_complete_load_ok[of _ hs] by (cases m) fastforce+
next
  fix m and hs :: "bytes list" assume a: "om_ok m" "distinct hs"
  show "\<exists>r m'. om_prepare_store m hs = Inr (r, m') \<and> om_ok m' \<and>
      (case r of Some out \<Rightarrow> store_prepared (om_get m) hs out (om_get m')
       | None \<Rightarrow> \<forall>h. om_get m' h = om_get m h \<or> om_get m' h = None \<and> (\<exists>b. om_get m h = Some b \<and> bs_ref_cnt b = 0))"
  proof (cases m)
    case (LRU l)
    with lru_store_contract[of l hs] a obtain r l' where "lru_prepare_store l hs = Inr (r, l')" "lru_ok l'"
      "case r of Some out \<Rightarrow> store_prepared (lru_get l) hs out (lru_get l') | None \<Rightarrow> l' = l" by auto
    with LRU show ?thesis by (intro exI[of _ r] exI[of _ "LRU l'"]) (simp split: option.splits)
  next
    case (ARC l)
    with arc_prepare_store_ok[of l hs] a obtain r l' where "arc_prepare_store l hs = Inr (r, l')" "arc_ok l'"
      "case r of Some out \<Rightarrow> store_prepared (arc_get l) hs out (arc_get l') \<and>
          (\<forall>h\<in>set (block_hashes_to_store out). map_of (arc_t1 l') h = arc_get l' h)
        | None \<Rightarrow> \<forall>h. arc_get l' h = arc_get l h \<or>
            (arc_get l' h = None \<and> (\<exists>b. arc_get l h = Some b \<and> bs_ref_cnt b = 0))" by auto
    with ARC show ?thesis by (intro exI[of _ r] exI[of _ "ARC l'"]) (simp split: option.splits)
  qed
next
  fix m hs assume "om_ok m" "\<forall>h\<in>set hs. om_get m h \<noteq> None"
  then show "\<exists>m'. om_complete_store m hs True = Inr m' \<and> om_ok m' \<and>
      (\<forall>x. om_get m' x = (if x \<in> set hs then map_option publish (om_get m x) else om_get m x))"
    using lru_complete_store_ok[of _ hs] arc_complete_store_ok[of _ hs] by (cases m) fastforce+
qed

end
