(* ===== verification/Offload_Properties.thy ===== *)
theory Offload_Properties
  imports Offload_Manager
begin

text \<open>
  Properties of the offloading managers: the states that a manager can reach through its
  operations, how its blocks account for the memory of the backend, the eviction order, the round
  trip of a store, and where the adaptive manager does not do what it says.
\<close>

section \<open>Reachable managers\<close>

fun om_backend :: "OffloadingManager \<Rightarrow> CPUBackend" where
  "om_backend (LRU m) = lru_backend m"
| "om_backend (ARC m) = arc_backend m"

text \<open>
  A failed store is reported for blocks that were prepared to be stored. The first manager leaves
  other blocks alone, so that any report is allowed; the adaptive one must not be told of a block that
  is ready (\<open>arc_failed_store_leaks\<close>).
\<close>

fun om_failable :: "OffloadingManager \<Rightarrow> bytes list \<Rightarrow> bool" where
  "om_failable (LRU m) hs = True"
| "om_failable (ARC m) hs = (\<forall>h\<in>set hs. case arc_get m h of None \<Rightarrow> True | Some b \<Rightarrow> \<not> is_ready b)"

inductive offload_reachable :: "(rat \<Rightarrow> rat) \<Rightarrow> CPUOffloadingSpec \<Rightarrow> OffloadingManager \<Rightarrow> bool" for rnd spec where
  reach_init: "\<lbrakk>get_manager enable_events spec = Inr m; 0 \<le> os_num_blocks spec; os_num_blocks spec \<le> 2 ^ 53\<rbrakk>
    \<Longrightarrow> offload_reachable rnd spec m"
| reach_load: "\<lbrakk>offload_reachable rnd spec m; om_prepare_load m hs = Inr (ls, m')\<rbrakk> \<Longrightarrow> offload_reachable rnd spec m'"
| reach_loaded: "\<lbrakk>offload_reachable rnd spec m; om_complete_load m hs = Inr m'\<rbrakk> \<Longrightarrow> offload_reachable rnd spec m'"
| reach_touch: "\<lbrakk>offload_reachable rnd spec m; om_touch rnd m hs = Inr m'\<rbrakk> \<Longrightarrow> offload_reachable rnd spec m'"
| reach_store: "\<lbrakk>offload_reachable rnd spec m; distinct hs; om_prepare_store m hs = Inr (out, m')\<rbrakk>
    \<Longrightarrow> offload_reachable rnd spec m'"
| reach_stored: "\<lbrakk>offload_reachable rnd spec m; om_complete_store m hs True = Inr m'\<rbrakk> \<Longrightarrow> offload_reachable rnd spec m'"
| reach_failed: "\<lbrakk>offload_reachable rnd spec m; om_failable m hs; om_complete_store m hs False = Inr m'\<rbrakk>
    \<Longrightarrow> offload_reachable rnd spec m'"
| reach_events: "\<lbrakk>offload_reachable rnd spec m; om_take_events m = (es, m')\<rbrakk> \<Longrightarrow> offload_reachable rnd spec m'"

text \<open>The size of the backend never changes.\<close>

fun om_sized :: "int \<Rightarrow> OffloadingManager \<Rightarrow> bool" where
  "om_sized n (LRU m) \<longleftrightarrow> cb_num_blocks (lru_backend m) = n"
| "om_sized n (ARC m) \<longleftrightarrow> cb_num_blocks (arc_backend m) = n \<and> arc_cache_capacity m = n"

lemma fresh_loop_size: "cb_num_blocks (snd (fresh_loop n bs b)) = cb_num_blocks b"
  by (induction n bs b rule: fresh_loop.induct) simp_all

lemma reuse_loop_size: "alloc_reuse_loop n bs b = Inr (bs', b') \<Longrightarrow> cb_num_blocks b' = cb_num_blocks b"
  by (induction n bs b rule: alloc_reuse_loop.induct) (auto split: if_splits)

lemma allocate_size: "cpu_allocate_blocks b hs = Inr (bs, b') \<Longrightarrow> cb_num_blocks b' = cb_num_blocks b"
  using fresh_loop_size reuse_loop_size
  by (auto simp: cpu_allocate_blocks_def Let_def split: prod.splits) (metis snd_conv)

lemma cpu_free_size [simp]: "cb_num_blocks (cpu_free x b) = cb_num_blocks b"
  by (simp add: cpu_free_def)

lemma lru_prepare_store_size:
  assumes "lru_prepare_store m hs = Inr (r, m')"
  shows "cb_num_blocks (lru_backend m') = cb_num_blocks (lru_backend m)"
proof -
  have "cb_num_blocks (lru_backend x) = cb_num_blocks (lru_backend m)" if "mfold lru_evict_one ks m = Inr x" for ks x
    by (rule mfold_Inr_inv[OF that]) (auto simp: lru_evict_one_def rbind_Inr_iff)
  with assms show ?thesis
    by (auto simp: lru_prepare_store_def Let_def rbind_Inr_iff dest!: allocate_size split: option.splits)
qed

lemma arc_insert_frame [simp]:
  "arc_backend (arc_insert hs bs m) = arc_backend m" "arc_cache_capacity (arc_insert hs bs m) = arc_cache_capacity m"
  "arc_target_t1_size (arc_insert hs bs m) = arc_target_t1_size m"
proof -
  have "f (fold (\<lambda>(h, block) m. m\<lparr>arc_t1 := AList.update h block (arc_t1 m), arc_b1 := AList.delete h (arc_b1 m),
      arc_b2 := AList.delete h (arc_b2 m)\<rparr>) xs m) = f m"
    if "\<And>m x y z. f (m\<lparr>arc_t1 := x, arc_b1 := y, arc_b2 := z\<rparr>) = f m" for f :: "ARCOffloadingManager \<Rightarrow> 'x" and xs
    using that by (induction xs arbitrary: m) auto
  from this[of arc_backend] this[of arc_cache_capacity] this[of arc_target_t1_size]
  show "arc_backend (arc_insert hs bs m) = arc_backend m" "arc_cache_capacity (arc_insert hs bs m) = arc_cache_capacity m"
    "arc_target_t1_size (arc_insert hs bs m) = arc_target_t1_size m" unfolding arc_insert_def by simp_all
qed

lemma arc_evict_loop_size:
  "arc_evict_loop n acc m = (r, m') \<Longrightarrow> cb_num_blocks (arc_backend m') = cb_num_blocks (arc_backend m) \<and>
     arc_cache_capacity m' = arc_cache_capacity m \<and> arc_target_t1_size m' = arc_target_t1_size m"
proof (induction n acc m rule: arc_evict_loop.induct)
  case (2 n acc m)
  have "cb_num_blocks (arc_backend (arc_evict f h b m)) = cb_num_blocks (arc_backend m)" for f h b
    by (simp add: arc_evict_def)
  with 2 show ?case by (auto split: option.splits prod.splits)
qed simp

lemma arc_prepare_store_size:
  assumes "arc_prepare_store m hs = Inr (r, m')"
  shows "cb_num_blocks (arc_backend m') = cb_num_blocks (arc_backend m) \<and>
     arc_cache_capacity m' = arc_cache_capacity m \<and> arc_target_t1_size m' = arc_target_t1_size m"
  using assms
  by (auto simp: arc_prepare_store_def Let_def rbind_Inr_iff dest!: allocate_size arc_evict_loop_size
      split: option.splits prod.splits if_splits)

lemma arc_touch_backend: "arc_touch rnd m hs = Inr m' \<Longrightarrow> arc_backend m' = arc_backend m"
  unfolding arc_touch_def
  by (rule mfold_Inr_inv[where I = "\<lambda>m'. arc_backend m' = arc_backend m"])
    (auto simp: arc_touch_one_def move_to_end_def Let_def split: option.splits if_splits)

lemma arc_touch_Inr_ok:
  assumes "arc_touch rnd m hs = Inr m'" "arc_ok m"
  shows "arc_ok m' \<and> arc_get m' = arc_get m"
proof (rule mfold_Inr_inv[OF assms(1)[unfolded arc_touch_def], where I = "\<lambda>n. arc_ok n \<and> arc_get n = arc_get m"])
  fix x n n' assume n: "arc_ok n \<and> arc_get n = arc_get m" "arc_touch_one rnd x n = Inr n'"
  then have "is_ready b" if "map_of (arc_t1 n) x = Some b" for b
    using arc_touch_one_t1[OF n(2) that] by blast
  from arc_touch_one_cases[of n x rnd, OF _ this] n show "arc_ok n' \<and> arc_get n' = arc_get m" by auto
qed (use assms(2) in simp)

lemma om_touch_keeps:
  "\<lbrakk>om_ok m; om_touch rnd m hs = Inr m'\<rbrakk> \<Longrightarrow> om_ok m' \<and> om_get m' = om_get m"
  by (cases m) (auto simp: rbind_Inr_iff dest: arc_touch_Inr_ok lru_touch_ok[where hs = hs])

lemma om_init_ok:
  "\<lbrakk>get_manager ev spec = Inr m; 0 \<le> os_num_blocks spec; os_num_blocks spec \<le> 2 ^ 53\<rbrakk> \<Longrightarrow>
     om_ok m \<and> om_sized (os_num_blocks spec) m"
  using cpu_init_owned[of "os_num_blocks spec" "os_offloaded_block_size spec"]
  by (auto simp: get_manager_def Let_def LRUOffloadingManager_init_def ARCOffloadingManager_init_def lru_ok_def lru_ids_def
      arc_ok_def arc_ids_def arc_blocks_def CPUBackend_init_def cpu_get_num_free_blocks_def split: if_splits)

lemma om_shape_steps:
  "\<lbrakk>om_ok m; om_prepare_load m hs = Inr (ls, m')\<rbrakk> \<Longrightarrow> om_ok m'"
  "\<lbrakk>om_ok m; om_complete_load m hs = Inr m'\<rbrakk> \<Longrightarrow> om_ok m'"
  "\<lbrakk>om_ok m; om_complete_store m hs True = Inr m'\<rbrakk> \<Longrightarrow> om_ok m'"
  "\<lbrakk>om_ok m; om_take_events m = (es, m')\<rbrakk> \<Longrightarrow> om_ok m'"
proof -
  have ev: "arc_ok (x\<lparr>arc_events := e\<rparr>) = arc_ok x" for x e by (simp add: arc_ok_def arc_ids_def arc_blocks_def)
  show "\<lbrakk>om_ok m; om_prepare_load m hs = Inr (ls, m')\<rbrakk> \<Longrightarrow> om_ok m'"
    by (cases m) (auto simp: lru_prepare_load_def arc_prepare_load_def rbind_Inr_iff
        dest!: lru.load_shape lru_ok_shape arc.load_shape arc_ok_shape)
  show "\<lbrakk>om_ok m; om_complete_load m hs = Inr m'\<rbrakk> \<Longrightarrow> om_ok m'"
    by (cases m) (auto simp: lru_complete_load_def arc_complete_load_def rbind_Inr_iff
        dest!: lru.unload_shape lru_ok_shape arc.unload_shape arc_ok_shape)
  show "\<lbrakk>om_ok m; om_complete_store m hs True = Inr m'\<rbrakk> \<Longrightarrow> om_ok m'"
    by (cases m) (auto simp: lru_complete_store_def arc_complete_store_def rbind_Inr_iff ev
        dest!: lru.stored_shape lru_ok_shape arc.stored_shape arc_ok_shape)
  show "\<lbrakk>om_ok m; om_take_events m = (es, m')\<rbrakk> \<Longrightarrow> om_ok m'"
    by (cases m) (auto simp: lru_take_events_def arc_take_events_def ev split: option.splits)
qed

lemma lru_failed_store_ok:
  assumes "lru_complete_store m hs False = Inr m'" "lru_ok m"
  shows "lru_ok m' \<and> cb_num_blocks (lru_backend m') = cb_num_blocks (lru_backend m)"
proof -
  from assms(1) obtain m1 e where m1: "mfold lru_failed_one hs m = Inr m1" "m' = m1\<lparr>lru_events := e\<rparr>"
    by (auto simp: lru_complete_store_def rbind_Inr_iff)
  have "lru_ok m1 \<and> cb_num_blocks (lru_backend m1) = cb_num_blocks (lru_backend m)"
    by (rule mfold_Inr_inv[OF m1(1)])
      (use assms(2) in \<open>auto simp: lru_failed_one_def rbind_Inr_iff dict_item_def intro: lru_delete_ok split: if_splits option.splits\<close>)
  then show ?thesis by (simp add: m1(2) lru_ok_def lru_ids_def)
qed

lemma arc_failed_frame:
  "cb_num_blocks (arc_backend (fold arc_failed_one hs m)) = cb_num_blocks (arc_backend m) \<and>
   arc_cache_capacity (fold arc_failed_one hs m) = arc_cache_capacity m \<and>
   arc_target_t1_size (fold arc_failed_one hs m) = arc_target_t1_size m"
proof (induction hs arbitrary: m)
  case (Cons h hs)
  have "cb_num_blocks (arc_backend (arc_failed_one h m)) = cb_num_blocks (arc_backend m)"
    "arc_cache_capacity (arc_failed_one h m) = arc_cache_capacity m"
    "arc_target_t1_size (arc_failed_one h m) = arc_target_t1_size m"
    by (auto simp: arc_failed_one_def split: option.splits)
  then show ?case by (simp add: Cons.IH)
qed simp

lemma om_failed_steps:
  "\<lbrakk>om_ok m; om_failable m hs; om_complete_store m hs False = Inr m'\<rbrakk> \<Longrightarrow> om_ok m'"
  "\<lbrakk>om_sized n m; om_ok m; om_complete_store m hs False = Inr m'\<rbrakk> \<Longrightarrow> om_sized n m'"
proof -
  show "\<lbrakk>om_ok m; om_failable m hs; om_complete_store m hs False = Inr m'\<rbrakk> \<Longrightarrow> om_ok m'"
    using arc_failed_store_ok[of _ hs]
    by (cases m) (fastforce simp: rbind_Inr_iff dest: lru_failed_store_ok split: option.splits)+
  show "\<lbrakk>om_sized n m; om_ok m; om_complete_store m hs False = Inr m'\<rbrakk> \<Longrightarrow> om_sized n m'"
    by (cases m) (auto simp: rbind_Inr_iff arc_complete_store_def arc_failed_frame dest: lru_failed_store_ok)
qed

lemma om_store_touch_steps:
  "\<lbrakk>om_ok m; distinct hs; om_prepare_store m hs = Inr (out, m')\<rbrakk> \<Longrightarrow> om_ok m'"
  "\<lbrakk>om_ok m; om_touch rnd m hs = Inr m'\<rbrakk> \<Longrightarrow> om_ok m'"
proof -
  show "\<lbrakk>om_ok m; distinct hs; om_prepare_store m hs = Inr (out, m')\<rbrakk> \<Longrightarrow> om_ok m'"
    using om.prepare_store[of m hs] by auto
  show "\<lbrakk>om_ok m; om_touch rnd m hs = Inr m'\<rbrakk> \<Longrightarrow> om_ok m'"
    using om_touch_keeps by blast
qed

lemma shape_backend:
  "lru_shape l' = lru_shape l \<Longrightarrow> lru_backend l' = lru_backend l"
  "arc_shape m' = arc_shape m \<Longrightarrow> arc_backend m' = arc_backend m \<and> arc_cache_capacity m' = arc_cache_capacity m \<and>
     arc_target_t1_size m' = arc_target_t1_size m"
  by (auto simp: lru_shape_def arc_shape_def)

lemma arc_touch_capacity: "arc_touch rnd m hs = Inr m' \<Longrightarrow> arc_cache_capacity m' = arc_cache_capacity m"
  unfolding arc_touch_def
  by (rule mfold_Inr_inv[where I = "\<lambda>m'. arc_cache_capacity m' = arc_cache_capacity m"])
    (auto simp: arc_touch_one_def move_to_end_def Let_def split: option.splits if_splits)

lemma om_sized_steps:
  "\<lbrakk>om_sized n m; om_prepare_load m hs = Inr (ls, m')\<rbrakk> \<Longrightarrow> om_sized n m'"
  "\<lbrakk>om_sized n m; om_complete_load m hs = Inr m'\<rbrakk> \<Longrightarrow> om_sized n m'"
  "\<lbrakk>om_sized n m; om_complete_store m hs True = Inr m'\<rbrakk> \<Longrightarrow> om_sized n m'"
  "\<lbrakk>om_sized n m; om_take_events m = (es, m')\<rbrakk> \<Longrightarrow> om_sized n m'"
  "\<lbrakk>om_sized n m; om_prepare_store m hs = Inr (out, m')\<rbrakk> \<Longrightarrow> om_sized n m'"
  "\<lbrakk>om_sized n m; om_ok m; om_touch rnd m hs = Inr m'\<rbrakk> \<Longrightarrow> om_sized n m'"
proof -
  show "\<lbrakk>om_sized n m; om_prepare_load m hs = Inr (ls, m')\<rbrakk> \<Longrightarrow> om_sized n m'"
    by (cases m) (auto simp: lru_prepare_load_def arc_prepare_load_def rbind_Inr_iff
        dest!: lru.load_shape arc.load_shape shape_backend)
  show "\<lbrakk>om_sized n m; om_complete_load m hs = Inr m'\<rbrakk> \<Longrightarrow> om_sized n m'"
    by (cases m) (auto simp: lru_complete_load_def arc_complete_load_def rbind_Inr_iff
        dest!: lru.unload_shape arc.unload_shape shape_backend)
  show "\<lbrakk>om_sized n m; om_complete_store m hs True = Inr m'\<rbrakk> \<Longrightarrow> om_sized n m'"
    by (cases m) (auto simp: lru_complete_store_def arc_complete_store_def rbind_Inr_iff
        dest!: lru.stored_shape arc.stored_shape shape_backend)
  show "\<lbrakk>om_sized n m; om_take_events m = (es, m')\<rbrakk> \<Longrightarrow> om_sized n m'"
    by (cases m) (auto simp: lru_take_events_def arc_take_events_def split: option.splits)
  show "\<lbrakk>om_sized n m; om_prepare_store m hs = Inr (out, m')\<rbrakk> \<Longrightarrow> om_sized n m'"
    by (cases m) (auto simp: rbind_Inr_iff dest!: lru_prepare_store_size arc_prepare_store_size)
  show "\<lbrakk>om_sized n m; om_ok m; om_touch rnd m hs = Inr m'\<rbrakk> \<Longrightarrow> om_sized n m'"
    by (cases m) (auto simp: rbind_Inr_iff arc_touch_backend arc_touch_capacity dest: lru_touch_ok[where hs = hs])
qed

lemma offload_reachable_ok:
  "offload_reachable rnd spec m \<Longrightarrow> om_ok m \<and> om_sized (os_num_blocks spec) m"
proof (induction rule: offload_reachable.induct)
  case (reach_init enable_events m)
  then show ?case by (rule om_init_ok)
qed (blast intro: om_shape_steps om_store_touch_steps om_sized_steps om_failed_steps)+

lemma cpu_owned_lt: "\<lbrakk>cpu_owned b M; i \<in># M\<rbrakk> \<Longrightarrow> 0 \<le> i \<and> i < cb_num_blocks b"
proof -
  assume o: "cpu_owned b M" and "i \<in># M"
  then have "i \<in># mset [0..cb_num_allocated_blocks b - 1]" unfolding cpu_owned_def by (metis union_iff)
  then show ?thesis using o by (simp add: cpu_owned_def)
qed

text \<open>A manager with blocks \<open>d\<close> in a backend accounts for every block of the backend.\<close>

lemma accounted:
  assumes "cpu_owned b (mset (map (bs_block_id \<circ> snd) d))" "distinct (map fst d)"
  shows "(\<forall>h x. map_of d h = Some x \<longrightarrow> 0 \<le> bs_block_id x \<and> bs_block_id x < cb_num_blocks b) \<and>
    (\<forall>h k x y. map_of d h = Some x \<and> map_of d k = Some y \<and> h \<noteq> k \<longrightarrow> bs_block_id x \<noteq> bs_block_id y) \<and>
    cpu_get_num_free_blocks b = cb_num_blocks b - int (card (dom (map_of d)))"
proof -
  have "bs_block_id x \<in># mset (map (bs_block_id \<circ> snd) d)" if "map_of d h = Some x" for h x
    using map_of_SomeD[OF that] by force
  then have "\<forall>h x. map_of d h = Some x \<longrightarrow> 0 \<le> bs_block_id x \<and> bs_block_id x < cb_num_blocks b"
    using cpu_owned_lt[OF assms(1)] by blast
  moreover have "\<forall>h k x y. map_of d h = Some x \<and> map_of d k = Some y \<and> h \<noteq> k \<longrightarrow> bs_block_id x \<noteq> bs_block_id y"
    using distinct_ids[OF assms(1)] by blast
  moreover have "card (dom (map_of d)) = length d"
    using assms(2) by (metis distinct_card dom_map_of_conv_image_fst length_map list.set_map)
  then have "cpu_get_num_free_blocks b = cb_num_blocks b - int (card (dom (map_of d)))"
    using cpu.num_free[OF assms(1)] by simp
  ultimately show ?thesis by blast
qed

text \<open>
  C17 (invariant): in every state that an offloading manager reaches from its construction by its
  operations, stores that fail included (for the adaptive manager: of blocks that are not ready), each
  known block hash has a block id of its own within the backend, and the backend reports as free
  exactly the blocks that no hash holds: no block is lost and none is shared.
\<close>

theorem offloaded_blocks_accounted:
  assumes "offload_reachable rnd spec m"
  shows "(\<forall>h b. om_get m h = Some b \<longrightarrow> 0 \<le> bs_block_id b \<and> bs_block_id b < os_num_blocks spec) \<and>
    (\<forall>h k b b'. om_get m h = Some b \<and> om_get m k = Some b' \<and> h \<noteq> k \<longrightarrow> bs_block_id b \<noteq> bs_block_id b') \<and>
    cpu_get_num_free_blocks (om_backend m) = os_num_blocks spec - int (card (dom (om_get m)))"
proof -
  from offload_reachable_ok[OF assms] have ok: "om_ok m" "om_sized (os_num_blocks spec) m" by auto
  show ?thesis
  proof (cases m)
    case (LRU l)
    have g: "lru_get l = map_of (lru_blocks l)" by (simp add: lru_get_def fun_eq_iff)
    from ok LRU accounted[of "lru_backend l" "lru_blocks l"] show ?thesis by (simp add: lru_ok_def lru_ids_def g)
  next
    case (ARC l)
    have "distinct (map fst (arc_blocks l))" using ok ARC by (auto simp: arc_ok_def arc_blocks_def)
    from ok ARC accounted[OF _ this, of "arc_backend l"] show ?thesis by (simp add: arc_ok_def arc_ids_def arc_get_blocks)
  qed
qed

text \<open>The example: two blocks in the backend, one stored and being read, one being written.\<close>

definition ex_spec :: "string \<Rightarrow> CPUOffloadingSpec" where
  "ex_spec policy = \<lparr>os_gpu_block_size = 16, os_offloaded_block_size = 32, os_num_blocks = 2, os_eviction_policy = policy\<rparr>"

definition ex_run :: "string \<Rightarrow> OffloadingManager result" where
  "ex_run policy =
     rbind (get_manager True (ex_spec policy)) (\<lambda>m.
     rbind (om_prepare_store m [[1], [2]]) (\<lambda>(_, m).
     rbind (om_complete_store m [[1]] True) (\<lambda>m.
     rbind (om_prepare_load m [[1]]) (\<lambda>(_, m). Inr m))))"

lemma ex_run_reachable:
  assumes "ex_run p = Inr m"
  shows "offload_reachable rnd (ex_spec p) m"
proof -
  from assms obtain m0 o1 m1 m2 ls where
    r: "get_manager True (ex_spec p) = Inr m0" "om_prepare_store m0 [[1], [2]] = Inr (o1, m1)"
    "om_complete_store m1 [[1]] True = Inr m2" "om_prepare_load m2 [[1]] = Inr (ls, m)"
    by (auto simp: ex_run_def rbind_Inr_iff)
  have n: "0 \<le> os_num_blocks (ex_spec p)" "os_num_blocks (ex_spec p) \<le> 2 ^ 53" "distinct [[1], [2 :: 8 word]]"
    by (simp_all add: ex_spec_def)
  show ?thesis by (rule reach_load[OF reach_stored[OF reach_store[OF reach_init[OF r(1) n(1,2)] n(3) r(2)] r(3)] r(4)])
qed

definition ex_lru :: LRUOffloadingManager where
  "ex_lru = \<lparr>lru_backend = (CPUBackend_init 32 2)\<lparr>cb_num_allocated_blocks := 2\<rparr>,
     lru_blocks = [([1], \<lparr>bs_ref_cnt = 1, bs_block_id = 0\<rparr>), ([2], \<lparr>bs_ref_cnt = - 1, bs_block_id = 1\<rparr>)],
     lru_events = Some [\<lparr>oe_block_hashes = [[1]], oe_block_size = 32, oe_medium = CPU_medium, oe_removed = False\<rparr>]\<rparr>"

lemma ex_run_lru: "ex_run ''lru'' = Inr (LRU ex_lru)"
  by code_simp

theorem offloaded_blocks_accounted_witness:
  "\<exists>m. om_complete_store (LRU ex_lru) [[2]] False = Inr m \<and> offload_reachable id (ex_spec ''lru'') m \<and>
     om_get m [2] = None \<and> om_get m [1] \<noteq> None \<and> cpu_get_num_free_blocks (om_backend m) = 2 - int (card (dom (om_get m)))"
proof -
  have "case om_complete_store (LRU ex_lru) [[2]] False of Inl e \<Rightarrow> False
    | Inr m \<Rightarrow> om_get m [2] = None \<and> om_get m [1] \<noteq> None" by code_simp
  then obtain m where m: "om_complete_store (LRU ex_lru) [[2]] False = Inr m" "om_get m [2] = None" "om_get m [1] \<noteq> None"
    by (auto split: sum.splits)
  have r: "offload_reachable id (ex_spec ''lru'') m"
    by (rule reach_failed[OF ex_run_reachable[OF ex_run_lru] _ m(1)]) simp
  from offloaded_blocks_accounted[OF r] have "cpu_get_num_free_blocks (om_backend m) = 2 - int (card (dom (om_get m)))"
    by (simp add: ex_spec_def)
  with m r show ?thesis by blast
qed

section \<open>Eviction order\<close>

text \<open>
  C18 (functional): preparing a store in a reachable manager with least-recent-use eviction. Let
  \<open>need\<close> be the number of unknown hashes beyond the free blocks. When at least that many blocks have
  no reader, the first \<open>need\<close> of them in the order of use are evicted, exactly the unknown hashes get
  blocks that are not ready yet and go to the end of the order, and every other block is kept;
  otherwise the store is refused and nothing changes.
\<close>

theorem lru_evicts_least_recent:
  assumes "offload_reachable rnd spec (LRU m)" "distinct hs"
  shows "let new = filter (\<lambda>h. lru_get m h = None) hs;
             need = int (length new) - cpu_get_num_free_blocks (lru_backend m);
             victims = take (nat need) (idle (lru_blocks m))
         in if need \<le> int (length (idle (lru_blocks m)))
            then \<exists>out m'. lru_prepare_store m hs = Inr (Some out, m') \<and>
                   block_hashes_evicted out = victims \<and> block_hashes_to_store out = new \<and>
                   map fst (lru_blocks m') = filter (\<lambda>h. h \<notin> set victims) (map fst (lru_blocks m)) @ new \<and>
                   store_prepared (lru_get m) hs out (lru_get m') \<and>
                   lru_events m' = emit_event (lru_backend m) victims True (lru_events m)
            else lru_prepare_store m hs = Inr (None, m)"
proof -
  have ok: "lru_ok m" using offload_reachable_ok[OF assms(1)] by simp
  show ?thesis
  proof (cases "int (length (filter (\<lambda>h. lru_get m h = None) hs)) - cpu_get_num_free_blocks (lru_backend m)
      \<le> int (length (idle (lru_blocks m)))")
    case True
    with lru_prepare_store_cases[OF ok assms(2)] obtain out m' where
      o: "lru_prepare_store m hs = Inr (Some out, m')" "store_prepared (lru_get m) hs out (lru_get m')"
      "block_hashes_evicted out = take (nat (int (length (filter (\<lambda>h. lru_get m h = None) hs)) -
         cpu_get_num_free_blocks (lru_backend m))) (idle (lru_blocks m))"
      "map fst (lru_blocks m') = filter (\<lambda>h. h \<notin> set (block_hashes_evicted out)) (map fst (lru_blocks m)) @
         filter (\<lambda>h. lru_get m h = None) hs"
      "lru_events m' = emit_event (lru_backend m) (block_hashes_evicted out) True (lru_events m)"
      by auto
    have "block_hashes_to_store out = filter (\<lambda>h. lru_get m h = None) hs" using o(2) by (simp add: store_prepared_def)
    with o True show ?thesis unfolding Let_def by (simp only: if_True) metis
  next
    case False
    with lru_prepare_store_cases[OF ok assms(2)] show ?thesis unfolding Let_def by simp
  qed
qed

text \<open>
  In the example nothing can be evicted while the one stored block is being read; after the load it
  is the victim.
\<close>

theorem lru_evicts_least_recent_witness:
  "lru_prepare_store ex_lru [[1], [3]] = Inr (None, ex_lru) \<and>
   (\<exists>m out m'. om_complete_load (LRU ex_lru) [[1]] = Inr (LRU m) \<and> lru_prepare_store m [[3]] = Inr (Some out, m') \<and>
      block_hashes_evicted out = [[1]] \<and> map fst (lru_blocks m') = [[2], [3]])"
proof
  have "filter (\<lambda>h. lru_get ex_lru h = None) [[1], [3]] = [[3]]" "cpu_get_num_free_blocks (lru_backend ex_lru) = 0"
    "idle (lru_blocks ex_lru) = []"
    by code_simp+
  then show "lru_prepare_store ex_lru [[1], [3]] = Inr (None, ex_lru)"
    using lru_evicts_least_recent[OF ex_run_reachable[OF ex_run_lru, of id], of "[[1], [3]]"] by (simp add: Let_def)
  have "case om_complete_load (LRU ex_lru) [[1]] of Inr (LRU m) \<Rightarrow> lru_get m [3] = None \<and>
      cpu_get_num_free_blocks (lru_backend m) = 0 \<and> idle (lru_blocks m) = [[1]] \<and> map fst (lru_blocks m) = [[1], [2]] | _ \<Rightarrow> False"
    by code_simp
  then obtain m where m: "om_complete_load (LRU ex_lru) [[1]] = Inr (LRU m)" "lru_get m [3] = None"
    "cpu_get_num_free_blocks (lru_backend m) = 0" "idle (lru_blocks m) = [[1]]" "map fst (lru_blocks m) = [[1], [2]]"
    by (auto split: sum.splits OffloadingManager.splits)
  from lru_evicts_least_recent[OF reach_loaded[OF ex_run_reachable[OF ex_run_lru, of id] m(1)], of "[[3]]"]
  obtain out m' where "lru_prepare_store m [[3]] = Inr (Some out, m')" "block_hashes_evicted out = [[1]]"
    "map fst (lru_blocks m') = [[2], [3]]" by (auto simp: Let_def m)
  with m(1) show "\<exists>m out m'. om_complete_load (LRU ex_lru) [[1]] = Inr (LRU m) \<and> lru_prepare_store m [[3]] = Inr (Some out, m') \<and>
      block_hashes_evicted out = [[1]] \<and> map fst (lru_blocks m') = [[2], [3]]" by (intro exI conjI)
qed

section \<open>Round trip\<close>

text \<open>
  C19 (roundtrip): what a manager, either of the two, prepares to store and then completes is found
  by the next lookup, at the places that the store specification names; a load of these blocks
  reads from the same places.
\<close>

theorem stored_blocks_found:
  assumes "offload_reachable rnd spec m" "distinct hs" "om_prepare_store m hs = Inr (Some out, m1)"
  shows "\<exists>m2 ls m3. om_complete_store m1 (block_hashes_to_store out) True = Inr m2 \<and>
           om_lookup m2 (block_hashes_to_store out) = int (length (block_hashes_to_store out)) \<and>
           om_prepare_load m2 (block_hashes_to_store out) = Inr (ls, m3) \<and>
           ls_block_ids ls = ls_block_ids (store_spec out)"
proof -
  let ?new = "block_hashes_to_store out"
  have ok: "om_ok m" using offload_reachable_ok[OF assms(1)] by simp
  have sp: "store_prepared (om_get m) hs out (om_get m1)" using om.prepare_store[OF ok assms(2)] assms(3) by auto
  then have new: "distinct ?new" "length (ls_block_ids (store_spec out)) = length ?new"
    using assms(2) by (auto simp: store_prepared_def)
  obtain m2 where m2: "om_complete_store m1 ?new True = Inr m2" "om_ok m2" "om_lookup m2 ?new = int (length ?new)"
    and g: "\<forall>i<length ?new. om_get m2 (?new ! i) = Some \<lparr>bs_ref_cnt = 0, bs_block_id = ls_block_ids (store_spec out) ! i\<rparr>"
    using om.stored_then_found[OF ok assms(2,3)] by blast
  have "count_list ?new h = 1" if "h \<in> set ?new" for h using new(1) that by (simp add: count_list_distinct)
  then have "loadable (om_get m2) ?new"
    using g by (auto simp: loadable_def in_set_conv_nth is_ready_def)
  from om.prepare_load[OF m2(2) this] obtain ls m3 where
    l: "om_prepare_load m2 ?new = Inr (ls, m3)" "ls_block_ids ls = map (\<lambda>h. bs_block_id (the (om_get m2 h))) ?new" by blast
  have "ls_block_ids ls = ls_block_ids (store_spec out)"
    unfolding l(2) using g new(2) by (intro nth_equalityI) auto
  with m2(1,3) l(1) show ?thesis by blast
qed

theorem stored_blocks_found_witness:
  "\<exists>out m1 m2. get_manager True (ex_spec ''arc'') = Inr (ARC (ARCOffloadingManager_init (CPUBackend_init 32 2) True)) \<and>
     om_prepare_store (ARC (ARCOffloadingManager_init (CPUBackend_init 32 2) True)) [[1], [2]] = Inr (Some out, m1) \<and>
     block_hashes_to_store out = [[1], [2]] \<and>
     om_complete_store m1 [[1], [2]] True = Inr m2 \<and> om_lookup m2 [[1], [2]] = 2"
proof -
  let ?m = "ARC (ARCOffloadingManager_init (CPUBackend_init 32 2) True)"
  have m: "get_manager True (ex_spec ''arc'') = Inr ?m" by (simp add: get_manager_def ex_spec_def)
  have r: "offload_reachable id (ex_spec ''arc'') ?m" by (rule reach_init[OF m]) (simp_all add: ex_spec_def)
  have "(case om_prepare_store ?m [[1], [2]] of Inr (Some out, m1) \<Rightarrow> block_hashes_to_store out = [[1], [2]] | _ \<Rightarrow> False)"
    by code_simp
  then obtain out m1 where o: "om_prepare_store ?m [[1], [2]] = Inr (Some out, m1)" "block_hashes_to_store out = [[1], [2]]"
    by (auto split: sum.splits option.splits)
  from stored_blocks_found[OF r _ o(1)] m o show ?thesis by auto
qed

section \<open>The adaptive manager\<close>

text \<open>
  C20 (bounds): the target size of the adaptive manager stays between zero and the capacity in every
  reachable state, for every monotone rounding of floats that is exact on zero and on the capacity.
\<close>

theorem arc_target_bounded:
  assumes "offload_reachable rnd spec m" "rounding rnd (os_num_blocks spec)" "m = ARC a"
  shows "0 \<le> arc_target_t1_size a \<and> arc_target_t1_size a \<le> of_int (arc_cache_capacity a)"
  using assms(1,3)
proof (induction arbitrary: a rule: offload_reachable.induct)
  case (reach_init ev m)
  then show ?case
    by (auto simp: get_manager_def Let_def ARCOffloadingManager_init_def CPUBackend_init_def cpu_get_num_free_blocks_def split: if_splits)
next
  case (reach_load m hs ls m')
  then show ?case
    by (cases m) (auto simp: arc_prepare_load_def rbind_Inr_iff dest!: arc.load_shape shape_backend)
next
  case (reach_loaded m hs m')
  then show ?case
    by (cases m) (auto simp: arc_complete_load_def rbind_Inr_iff dest!: arc.unload_shape shape_backend)
next
  case (reach_touch m hs m')
  then obtain b where b: "m = ARC b" "arc_touch rnd b hs = Inr a" by (cases m) (auto simp: rbind_Inr_iff)
  have "arc_cache_capacity b = os_num_blocks spec" using offload_reachable_ok[OF reach_touch(1)] b(1) by simp
  then show ?case using arc_touch_target[OF b(2)] reach_touch.IH[OF b(1)] assms(2) by simp
next
  case (reach_store m hs out m')
  then show ?case by (cases m) (auto simp: rbind_Inr_iff dest!: arc_prepare_store_size)
next
  case (reach_stored m hs m')
  then show ?case
    by (cases m) (auto simp: arc_complete_store_def rbind_Inr_iff dest!: arc.stored_shape shape_backend)
next
  case (reach_failed m hs m')
  then show ?case by (cases m) (auto simp: arc_complete_store_def rbind_Inr_iff arc_failed_frame)
next
  case (reach_events m es m')
  then show ?case by (cases m) (auto simp: arc_take_events_def split: option.splits prod.splits)
qed

text \<open>
  The run that fills a cache of two blocks, evicts the first, asks for the evicted hash twice (each
  time a ghost hit raises the target), promotes the second block and starts to read it.
\<close>

definition arc_run :: "OffloadingManager result" where
  "arc_run =
     rbind (get_manager True (ex_spec ''arc'')) (\<lambda>m.
     rbind (om_prepare_store m [[1], [2]]) (\<lambda>(_, m).
     rbind (om_complete_store m [[1], [2]] True) (\<lambda>m.
     rbind (om_prepare_store m [[3]]) (\<lambda>(_, m).
     rbind (om_complete_store m [[3]] True) (\<lambda>m.
     rbind (om_touch id m [[1]]) (\<lambda>m.
     rbind (om_touch id m [[1]]) (\<lambda>m.
     rbind (om_touch id m [[2]]) (\<lambda>m.
     rbind (om_prepare_load m [[2]]) (\<lambda>(_, m). Inr m)))))))))"

definition ex_arc :: ARCOffloadingManager where
  "ex_arc = \<lparr>arc_backend = (CPUBackend_init 32 2)\<lparr>cb_num_allocated_blocks := 2\<rparr>, arc_target_t1_size = 2,
     arc_t1 = [([3], \<lparr>bs_ref_cnt = 0, bs_block_id = 0\<rparr>)], arc_t2 = [([2], \<lparr>bs_ref_cnt = 1, bs_block_id = 1\<rparr>)],
     arc_b1 = [([1], ())], arc_b2 = [],
     arc_events = Some [\<lparr>oe_block_hashes = [[1], [2]], oe_block_size = 32, oe_medium = CPU_medium, oe_removed = False\<rparr>,
       \<lparr>oe_block_hashes = [[1]], oe_block_size = 32, oe_medium = CPU_medium, oe_removed = True\<rparr>,
       \<lparr>oe_block_hashes = [[3]], oe_block_size = 32, oe_medium = CPU_medium, oe_removed = False\<rparr>],
     arc_cache_capacity = 2\<rparr>"

lemma arc_run_eq: "arc_run = Inr (ARC ex_arc)"
  by code_simp

lemma ex_arc_reachable: "offload_reachable id (ex_spec ''arc'') (ARC ex_arc)"
proof -
  from arc_run_eq obtain m0 o1 m1 m2 o2 m3 m4 m5 m6 m7 ls where
    r: "get_manager True (ex_spec ''arc'') = Inr m0" "om_prepare_store m0 [[1], [2]] = Inr (o1, m1)"
    "om_complete_store m1 [[1], [2]] True = Inr m2" "om_prepare_store m2 [[3]] = Inr (o2, m3)"
    "om_complete_store m3 [[3]] True = Inr m4" "om_touch id m4 [[1]] = Inr m5" "om_touch id m5 [[1]] = Inr m6"
    "om_touch id m6 [[2]] = Inr m7" "om_prepare_load m7 [[2]] = Inr (ls, ARC ex_arc)"
    by (auto simp: arc_run_def rbind_Inr_iff)
  have n: "0 \<le> os_num_blocks (ex_spec ''arc'')" "os_num_blocks (ex_spec ''arc'') \<le> 2 ^ 53" "distinct [[1], [2 :: 8 word]]"
    "distinct [[3 :: 8 word]]"
    by (simp_all add: ex_spec_def)
  note a = reach_stored[OF reach_store[OF reach_init[OF r(1) n(1,2)] n(3) r(2)] r(3)]
  show ?thesis
    by (rule reach_load[OF reach_touch[OF reach_touch[OF reach_touch[OF reach_stored[OF reach_store[OF a n(4) r(4)] r(5)] r(6)] r(7)] r(8)] r(9)])
qed

theorem arc_target_bounded_witness:
  "rounding id (os_num_blocks (ex_spec ''arc'')) \<and> arc_target_t1_size ex_arc \<le> of_int (arc_cache_capacity ex_arc)"
proof -
  have r: "rounding id (os_num_blocks (ex_spec ''arc''))" by (simp add: rounding_def mono_def)
  with arc_target_bounded[OF ex_arc_reachable r refl] show ?thesis by simp
qed

text \<open>
  The adaptive manager refuses a store although a block without a reader could be
  evicted. In the reachable state of the run above the first list is below its target, so that only
  the second one is searched, where the one block is being read: \<^verbatim>\<open>return None\<close>, whose comment says
  that the cache is full of blocks in use.
\<close>

theorem arc_refuses_with_idle_block:
  "offload_reachable id (ex_spec ''arc'') (ARC ex_arc) \<and>
   om_get (ARC ex_arc) [3] = Some \<lparr>bs_ref_cnt = 0, bs_block_id = 0\<rparr> \<and>
   om_prepare_store (ARC ex_arc) [[4]] = Inr (None, ARC ex_arc)"
proof (intro conjI ex_arc_reachable)
  show "om_get (ARC ex_arc) [3] = Some \<lparr>bs_ref_cnt = 0, bs_block_id = 0\<rparr>" by code_simp
  show "om_prepare_store (ARC ex_arc) [[4]] = Inr (None, ARC ex_arc)" by code_simp
qed

text \<open>Touching what has just been prepared to be stored raises.\<close>

lemma arc_store_then_touch:
  assumes "arc_ok m" "distinct hs" "om_prepare_store (ARC m) hs = Inr (Some out, m')"
    and "k \<in> set (block_hashes_to_store out)" "k \<in> set hs'"
  shows "om_touch rnd m' hs' = Inl KeyError"
proof -
  from assms(3) obtain a where a: "arc_prepare_store m hs = Inr (Some out, a)" "m' = ARC a" by (auto simp: rbind_Inr_iff)
  with arc_prepare_store_ok[OF assms(1,2)] have sp: "store_prepared (arc_get m) hs out (arc_get a)"
    "\<forall>h\<in>set (block_hashes_to_store out). map_of (arc_t1 a) h = arc_get a h" by auto
  from assms(4) obtain i where i: "i < length (block_hashes_to_store out)" "block_hashes_to_store out ! i = k"
    by (auto simp: in_set_conv_nth)
  have "arc_get a k = Some \<lparr>bs_ref_cnt = - 1, bs_block_id = ls_block_ids (store_spec out) ! i\<rparr>"
    using sp(1) i unfolding store_prepared_def by blast
  then have "map_of (arc_t1 a) k = Some \<lparr>bs_ref_cnt = - 1, bs_block_id = ls_block_ids (store_spec out) ! i\<rparr>"
    using sp(2) assms(4) by simp
  from arc_touch_not_ready[OF assms(5) this] show ?thesis by (simp add: a(2) is_ready_def)
qed

end
