(* ===== verification/Offload_Connector.thy ===== *)
theory Offload_Connector
  imports Offload_Properties Sched_State
begin

text \<open>
  The scheduler side of the offloading connector
  (\<^verbatim>\<open>distributed/kv_transfer/kv_connector/v1/offloading_connector.py\<close>, class
  \<^verbatim>\<open>OffloadingConnectorScheduler\<close>): how many tokens of a request are offloaded, which blocks are loaded
  and stored in a step, and the bookkeeping of transfers in flight. The connector keeps references
  to request objects; its operations read the objects from \<open>heap\<close>. The order in which Python iterates
  a set of hashes or of ids is a parameter (\<open>hord\<close>, \<open>sord\<close>).
\<close>

section \<open>State\<close>

type_synonym TransferSpec = "LoadStoreSpec \<times> LoadStoreSpec"

record OffloadingConnectorScheduler =
  oc_gpu_block_size :: int
  oc_offloaded_block_size :: int
  oc_block_size_factor :: int
  oc_manager :: OffloadingManager
  oc_requests :: "(string, nat) dict"
  oc_request_block_ids :: "(string, int list) dict"
  oc_reqs_to_load :: "(string, TransferSpec) dict"
  oc_next_stored_block_idx :: "(string, int) dict"
  oc_blocks_being_loaded :: "bytes set option"
  oc_reqs_being_stored :: "(string, bytes set) dict"
  oc_reqs_being_loaded :: "(string, bytes set) dict"

definition py_floordiv :: "int \<Rightarrow> int \<Rightarrow> int result" where
  "py_floordiv a b = (if b = 0 then Inl ZeroDivisionError else Inr (a div b))"

definition OffloadingConnectorScheduler_init :: "bool \<Rightarrow> bool \<Rightarrow> CPUOffloadingSpec \<Rightarrow> OffloadingConnectorScheduler result" where
  "OffloadingConnectorScheduler_init enable_events prefix_caching spec =
     rbind (py_floordiv (os_offloaded_block_size spec) (os_gpu_block_size spec)) (\<lambda>factor.
     rbind (get_manager enable_events spec) (\<lambda>manager.
     Inr \<lparr>oc_gpu_block_size = os_gpu_block_size spec, oc_offloaded_block_size = os_offloaded_block_size spec,
       oc_block_size_factor = factor, oc_manager = manager, oc_requests = [], oc_request_block_ids = [],
       oc_reqs_to_load = [], oc_next_stored_block_idx = [],
       oc_blocks_being_loaded = (if prefix_caching then Some {} else None),
       oc_reqs_being_stored = [], oc_reqs_being_loaded = []\<rparr>))"

text \<open>\<^verbatim>\<open>itertools.islice(xs, start, stop, step)\<close>.\<close>

definition islice :: "'a list \<Rightarrow> int \<Rightarrow> int option \<Rightarrow> int \<Rightarrow> 'a list result" where
  "islice xs start stop step =
     (if start < 0 \<or> (case stop of None \<Rightarrow> False | Some e \<Rightarrow> e < 0) \<or> step < 1 then Inl ValueError
      else Inr (map ((!) xs) (filter (\<lambda>i. nat start \<le> i \<and> (i - nat start) mod nat step = 0)
             [0..<(case stop of None \<Rightarrow> length xs | Some e \<Rightarrow> min (nat e) (length xs))])))"

text \<open>The hash of an offloaded block is the hash of its last GPU block. An end index of 0 is no end.\<close>

definition get_block_hashes :: "OffloadingConnectorScheduler \<Rightarrow> Request \<Rightarrow> int \<Rightarrow> int option \<Rightarrow> bytes list result" where
  "get_block_hashes c req start_idx end_idx =
     (let f = oc_block_size_factor c
      in islice (block_hashes req) (f * start_idx + f - 1)
           (case end_idx of None \<Rightarrow> None | Some e \<Rightarrow> if e = 0 then None else Some (f * e)) f)"

section \<open>Matching and loading\<close>

text \<open>The manager's lookup never asks to be repeated, so \<^verbatim>\<open>hits\<close> is always a number.\<close>

definition oc_get_num_new_matched_tokens ::
  "(rat \<Rightarrow> rat) \<Rightarrow> Request \<Rightarrow> int \<Rightarrow> OffloadingConnectorScheduler \<Rightarrow> ((int option \<times> bool) \<times> OffloadingConnectorScheduler) result" where
  "oc_get_num_new_matched_tokens rnd request nct c =
     (let size = oc_offloaded_block_size c in
      rbind (py_floordiv (num_tokens request) size) (\<lambda>num_blocks.
      rbind (py_floordiv (int (length (block_hashes request))) (oc_block_size_factor c)) (\<lambda>n.
      py_assert (n = num_blocks)
        (rbind (get_block_hashes c request 0 None) (\<lambda>hs.
         rbind (om_touch rnd (oc_manager c) hs) (\<lambda>m.
         let c = c\<lparr>oc_manager := m\<rparr>; full_block_tokens = size * num_blocks in
         if full_block_tokens - nct < size then Inr ((Some 0, False), c)
         else
           let start_block_idx = nct div size in
           rbind (get_block_hashes c request start_block_idx None) (\<lambda>hs.
           let hits = om_lookup m hs; num_hit_tokens = size * (start_block_idx + hits) - nct in
           if hits = 0 \<or> num_hit_tokens < size then Inr ((Some 0, False), c)
           else
             (case oc_blocks_being_loaded c of
                None \<Rightarrow> Inr ((Some num_hit_tokens, True), c)
              | Some being_loaded \<Rightarrow>
                  if being_loaded = {} then Inr ((Some num_hit_tokens, True), c)
                  else rbind (get_block_hashes c request start_block_idx (Some (start_block_idx + hits))) (\<lambda>hs.
                    if \<exists>h\<in>set hs. h \<in> being_loaded then Inr ((None, False), c)
                    else Inr ((Some num_hit_tokens, True), c))))))))))"

definition being :: "(string, bytes set) dict \<Rightarrow> string \<Rightarrow> bytes set" where
  "being d rid = (case map_of d rid of None \<Rightarrow> {} | Some S \<Rightarrow> S)"

definition oc_update_state_after_alloc ::
  "nat \<Rightarrow> Request \<Rightarrow> KVCacheBlock list list \<Rightarrow> int \<Rightarrow> OffloadingConnectorScheduler \<Rightarrow> OffloadingConnectorScheduler result" where
  "oc_update_state_after_alloc x request blocks num_external_tokens c =
     (let rid = request_id request;
          c = c\<lparr>oc_requests := AList.update rid x (oc_requests c),
                oc_request_block_ids := AList.update rid [] (oc_request_block_ids c)\<rparr>
      in if num_external_tokens = 0 then Inr c
         else rbind (py_index blocks 0) (\<lambda>group.
           let block_ids = map block_id group;
               num_computed_gpu_blocks = int (length (filter (\<lambda>b. block_hash b \<noteq> None) group));
               nct = num_computed_gpu_blocks * oc_gpu_block_size c;
               full_block_tokens = nct + num_external_tokens;
               num_pending_gpu_blocks = int (length block_ids) - num_computed_gpu_blocks
           in rbind (py_floordiv full_block_tokens (oc_offloaded_block_size c)) (\<lambda>num_blocks.
           py_assert (full_block_tokens mod oc_offloaded_block_size c = 0)
             (py_assert (num_external_tokens = num_pending_gpu_blocks * oc_gpu_block_size c)
               (let start_block_idx = nct div oc_offloaded_block_size c in
                rbind (py_floordiv (int (length (block_hashes request))) (oc_block_size_factor c)) (\<lambda>n.
                py_assert (num_blocks \<le> n)
                  (rbind (get_block_hashes c request start_block_idx (Some num_blocks)) (\<lambda>hs.
                   rbind (om_prepare_load (oc_manager c) hs) (\<lambda>(src_spec, m).
                   rbind (GPULoadStoreSpec (py_drop num_computed_gpu_blocks block_ids)) (\<lambda>dst_spec.
                   let being_loaded = being (oc_reqs_being_loaded c) rid \<union> set hs
                   in Inr (c\<lparr>oc_manager := m,
                             oc_reqs_to_load := AList.update rid (src_spec, dst_spec) (oc_reqs_to_load c),
                             oc_reqs_being_loaded := AList.update rid being_loaded (oc_reqs_being_loaded c),
                             oc_next_stored_block_idx := AList.update rid num_blocks (oc_next_stored_block_idx c),
                             oc_blocks_being_loaded := map_option (\<lambda>L. L \<union> being_loaded) (oc_blocks_being_loaded c)\<rparr>)))))))))))"

section \<open>Storing\<close>

text \<open>\<^verbatim>\<open>yield_req_data\<close>: request id, new block ids per group (or none), and whether it was preempted.\<close>

definition yield_req_data :: "SchedulerOutput \<Rightarrow> (string \<times> int list list option \<times> bool) list" where
  "yield_req_data out =
     map (\<lambda>r. (nrd_req_id r, Some (nrd_block_ids r), False)) (out_scheduled_new_reqs out) @
     (let cached = out_scheduled_cached_reqs out
      in map (\<lambda>(rid, ids). (rid, ids, rid \<in> crd_resumed_req_ids cached)) (zip (crd_req_ids cached) (crd_new_block_ids cached)))"

definition track_blocks :: "string \<Rightarrow> int list list option \<Rightarrow> bool \<Rightarrow> OffloadingConnectorScheduler \<Rightarrow> OffloadingConnectorScheduler result" where
  "track_blocks rid groups preempted c =
     (let c = (if preempted then c\<lparr>oc_request_block_ids := AList.update rid [] (oc_request_block_ids c)\<rparr> else c)
      in case groups of
           Some (new_block_ids # _) \<Rightarrow>
             rbind (dict_item (oc_request_block_ids c) rid) (\<lambda>ids.
             Inr (c\<lparr>oc_request_block_ids := AList.update rid (ids @ new_block_ids) (oc_request_block_ids c)\<rparr>))
         | _ \<Rightarrow> Inr c)"

text \<open>The GPU blocks behind the offloaded blocks to store.\<close>

definition source_block_ids :: "OffloadingConnectorScheduler \<Rightarrow> int list \<Rightarrow> int \<Rightarrow> bytes list \<Rightarrow> bytes set \<Rightarrow> int list result" where
  "source_block_ids c block_ids start_block_idx hs to_store =
     mmap (py_index block_ids)
       (concat (map (\<lambda>(idx, h). if h \<in> to_store
                       then map (\<lambda>i. (start_block_idx + int idx) * oc_block_size_factor c + i) [0..oc_block_size_factor c - 1]
                       else []) (enumerate 0 hs)))"

definition store_request ::
  "(rat \<Rightarrow> rat) \<Rightarrow> (nat \<Rightarrow> Request) \<Rightarrow> SchedulerOutput \<Rightarrow> string \<times> int list list option \<times> bool \<Rightarrow>
   (string, TransferSpec) dict \<times> OffloadingConnectorScheduler \<Rightarrow> ((string, TransferSpec) dict \<times> OffloadingConnectorScheduler) result" where
  "store_request rnd heap out = (\<lambda>(rid, groups, preempted) (reqs_to_store, c).
     rbind (track_blocks rid groups preempted c) (\<lambda>c.
     rbind (dict_item (oc_request_block_ids c) rid) (\<lambda>block_ids.
     rbind (dict_item (oc_requests c) rid) (\<lambda>x.
     rbind (dict_item (out_num_scheduled_tokens out) rid) (\<lambda>new_tokens.
     rbind (py_floordiv (num_computed_tokens (heap x) + new_tokens) (oc_offloaded_block_size c)) (\<lambda>num_blocks.
     let start_block_idx = (case map_of (oc_next_stored_block_idx c) rid of None \<Rightarrow> 0 | Some i \<Rightarrow> i) in
     if num_blocks - start_block_idx \<le> 0 then Inr (reqs_to_store, c)
     else
       rbind (get_block_hashes c (heap x) start_block_idx (Some num_blocks)) (\<lambda>new_block_hashes.
       rbind (om_prepare_store (oc_manager c) new_block_hashes) (\<lambda>(store_output, m).
       let c = c\<lparr>oc_manager := m\<rparr> in
       case store_output of
         None \<Rightarrow> Inr (reqs_to_store, c)
       | Some so \<Rightarrow>
           let c = c\<lparr>oc_next_stored_block_idx := AList.update rid num_blocks (oc_next_stored_block_idx c)\<rparr> in
           if block_hashes_to_store so = [] then Inr (reqs_to_store, c)
           else
             rbind (get_block_hashes c (heap x) 0 (Some num_blocks)) (\<lambda>hs.
             rbind (om_touch rnd (oc_manager c) hs) (\<lambda>m.
             let c = c\<lparr>oc_manager := m\<rparr> in
             rbind (source_block_ids c block_ids start_block_idx new_block_hashes (set (block_hashes_to_store so))) (\<lambda>src.
             rbind (GPULoadStoreSpec src) (\<lambda>src_spec.
             Inr (AList.update rid (src_spec, store_spec so) reqs_to_store,
                  c\<lparr>oc_reqs_being_stored := AList.update rid
                       (being (oc_reqs_being_stored c) rid \<union> set (block_hashes_to_store so)) (oc_reqs_being_stored c)\<rparr>)))))))))))))"

definition get_reqs_to_store ::
  "(rat \<Rightarrow> rat) \<Rightarrow> (nat \<Rightarrow> Request) \<Rightarrow> SchedulerOutput \<Rightarrow> OffloadingConnectorScheduler \<Rightarrow>
   ((string, TransferSpec) dict \<times> OffloadingConnectorScheduler) result" where
  "get_reqs_to_store rnd heap out c = mfold (store_request rnd heap out) (yield_req_data out) ([], c)"

definition complete_preempted :: "(bytes set \<Rightarrow> bytes list) \<Rightarrow> string \<Rightarrow> OffloadingConnectorScheduler \<Rightarrow> OffloadingConnectorScheduler result" where
  "complete_preempted hord rid c =
     (let hs = being (oc_reqs_being_stored c) rid
      in if hs = {} then Inr c
         else rbind (om_complete_store (oc_manager c) (hord hs) True) (\<lambda>m.
           Inr (c\<lparr>oc_manager := m, oc_reqs_being_stored := AList.update rid {} (oc_reqs_being_stored c)\<rparr>)))"

record OffloadingConnectorMetadata =
  ocm_reqs_to_load :: "(string, TransferSpec) dict"
  ocm_reqs_to_store :: "(string, TransferSpec) dict"

definition oc_build_connector_meta ::
  "(rat \<Rightarrow> rat) \<Rightarrow> (bytes set \<Rightarrow> bytes list) \<Rightarrow> (string set \<Rightarrow> string list) \<Rightarrow> (nat \<Rightarrow> Request) \<Rightarrow> SchedulerOutput \<Rightarrow>
   OffloadingConnectorScheduler \<Rightarrow> (OffloadingConnectorMetadata \<times> OffloadingConnectorScheduler) result" where
  "oc_build_connector_meta rnd hord sord heap out c =
     rbind (get_reqs_to_store rnd heap out c) (\<lambda>(reqs_to_store, c').
     rbind (mfold (complete_preempted hord) (sord (out_preempted_req_ids out)) (c'\<lparr>oc_reqs_to_load := []\<rparr>)) (\<lambda>c''.
     Inr (\<lparr>ocm_reqs_to_load = oc_reqs_to_load c', ocm_reqs_to_store = reqs_to_store\<rparr>, c'')))"

section \<open>Completion\<close>

definition finish_sending :: "(bytes set \<Rightarrow> bytes list) \<Rightarrow> string \<Rightarrow> OffloadingConnectorScheduler \<Rightarrow> OffloadingConnectorScheduler result" where
  "finish_sending hord rid c =
     (let hs = being (oc_reqs_being_stored c) rid;
          c = c\<lparr>oc_reqs_being_stored := AList.delete rid (oc_reqs_being_stored c)\<rparr>
      in if hs = {} then Inr c
         else rbind (om_complete_store (oc_manager c) (hord hs) True) (\<lambda>m. Inr (c\<lparr>oc_manager := m\<rparr>)))"

definition finish_recving :: "(bytes set \<Rightarrow> bytes list) \<Rightarrow> string \<Rightarrow> OffloadingConnectorScheduler \<Rightarrow> OffloadingConnectorScheduler result" where
  "finish_recving hord rid c =
     (let hs = being (oc_reqs_being_loaded c) rid;
          c = c\<lparr>oc_reqs_being_loaded := AList.delete rid (oc_reqs_being_loaded c)\<rparr>
      in if hs = {} then Inr c
         else
           let c = c\<lparr>oc_blocks_being_loaded := map_option (\<lambda>L. L - hs) (oc_blocks_being_loaded c)\<rparr>
           in rbind (om_complete_load (oc_manager c) (hord hs)) (\<lambda>m. Inr (c\<lparr>oc_manager := m\<rparr>)))"

definition oc_update_connector_output ::
  "(bytes set \<Rightarrow> bytes list) \<Rightarrow> KVConnectorOutput \<Rightarrow> OffloadingConnectorScheduler \<Rightarrow> OffloadingConnectorScheduler result" where
  "oc_update_connector_output hord out c =
     rbind (mfold (finish_sending hord) (finished_sending out) c) (\<lambda>c.
     mfold (finish_recving hord) (finished_recving out) c)"

definition oc_request_finished :: "Request \<Rightarrow> OffloadingConnectorScheduler \<Rightarrow> (bool \<times> string option) \<times> OffloadingConnectorScheduler" where
  "oc_request_finished request c =
     (let rid = request_id request
      in ((map_of (oc_reqs_being_stored c) rid \<noteq> None, None),
          c\<lparr>oc_requests := AList.delete rid (oc_requests c),
            oc_request_block_ids := AList.delete rid (oc_request_block_ids c),
            oc_next_stored_block_idx := AList.delete rid (oc_next_stored_block_idx c)\<rparr>))"

definition oc_event :: "OffloadingEvent \<Rightarrow> KVCacheEvent" where
  "oc_event e =
     (if oe_removed e then BlockRemoved (map HashBytes (oe_block_hashes e)) (oe_medium e)
      else BlockStored (map HashBytes (oe_block_hashes e)) None [] (oe_block_size e) None (oe_medium e) None)"

definition oc_take_events :: "OffloadingConnectorScheduler \<Rightarrow> KVCacheEvent list \<times> OffloadingConnectorScheduler" where
  "oc_take_events c =
     (let (es, m) = om_take_events (oc_manager c) in (map oc_event es, c\<lparr>oc_manager := m\<rparr>))"

end
