(* ===== verification/Offload_Layout.thy ===== *)
theory Offload_Layout
  imports Offload_Connector
begin

text \<open>
  The layout of the KV cache tensors as the offloading handlers see it
  (\<^verbatim>\<open>v1/kv_offload/worker/cpu_gpu.py\<close>, \<^verbatim>\<open>CpuGpuOffloadingHandlers\<close>): which dimension of a tensor holds
  the tokens of a block, and whether keys and values are separate. An attention backend is known by its
  shape and its stride order; those of FlashAttention are modelled. The attributes of a tensor are
  what the library reports.
\<close>

section \<open>Attention backends and tensors\<close>

text \<open>
  A backend without a stride order of its own raises \<^verbatim>\<open>NotImplementedError\<close> or, when it has no such
  method, \<^verbatim>\<open>AttributeError\<close> (\<^verbatim>\<open>v1/attention/backend.py\<close>); the parameters of the shape are the number of blocks, the block size,
  the number of heads and the head size.
\<close>

record AttentionBackend =
  get_kv_cache_shape :: "int \<Rightarrow> int \<Rightarrow> int \<Rightarrow> int \<Rightarrow> int list result"
  get_kv_cache_stride_order :: "bool \<Rightarrow> int list result"

definition flash_get_kv_cache_shape :: "int \<Rightarrow> int \<Rightarrow> int \<Rightarrow> int \<Rightarrow> int list result" where
  "flash_get_kv_cache_shape n_blocks b_size n_heads hd_size =
     (if b_size mod 16 \<noteq> 0 then Inl ValueError else Inr [2, n_blocks, b_size, n_heads, hd_size])"

definition flash_get_kv_cache_stride_order :: "string \<Rightarrow> bool \<Rightarrow> int list result" where
  "flash_get_kv_cache_stride_order cache_layout include_num_layers_dimension =
     (if cache_layout = ''NHD'' \<and> include_num_layers_dimension then Inr [2, 0, 1, 3, 4, 5]
      else if cache_layout = ''NHD'' then Inr [0, 1, 2, 3, 4]
      else if cache_layout = ''HND'' \<and> include_num_layers_dimension then Inr [2, 4, 0, 1, 3, 5]
      else if cache_layout = ''HND'' then Inr [0, 1, 3, 2, 4]
      else Inl ValueError)"

definition FlashAttentionBackend :: "string \<Rightarrow> AttentionBackend" where
  "FlashAttentionBackend cache_layout =
     \<lparr>get_kv_cache_shape = flash_get_kv_cache_shape, get_kv_cache_stride_order = flash_get_kv_cache_stride_order cache_layout\<rparr>"

record Tensor =
  t_data :: nat
  t_shape :: "int list"
  t_element_size :: int
  t_stride_0 :: int
  t_is_cuda :: bool

section \<open>Finding the block size of the kernels\<close>

text \<open>\<^verbatim>\<open>tuple.index\<close>: the position of the first occurrence.\<close>

fun tuple_index :: "int list \<Rightarrow> int \<Rightarrow> int result" where
  "tuple_index [] x = Inl ValueError"
| "tuple_index (y # ys) x = (if y = x then Inr 0 else rbind (tuple_index ys x) (\<lambda>i. Inr (i + 1)))"

text \<open>The test shape with an extra dimension for a cross-layer tensor, that there is one, and \<^verbatim>\<open>split_k_and_v\<close>.\<close>

definition classify_shape :: "int list \<Rightarrow> int list \<Rightarrow> (int list \<times> bool \<times> bool) result" where
  "classify_shape gpu_shape test_shape =
     (if length gpu_shape \<noteq> length test_shape
      then py_assert (length gpu_shape = length test_shape + 1) (Inr (80 # test_shape, True, False))
      else rbind (py_index test_shape 0) (\<lambda>t0.
        if t0 \<noteq> 1234
        then py_assert (t0 = 2) (rbind (py_index test_shape 1) (\<lambda>t1. py_assert (t1 = 1234)
               (rbind (py_index gpu_shape 0) (\<lambda>g0. py_assert (g0 = 2) (Inr (test_shape, False, True))))))
        else Inr (test_shape, False, False)))"

definition stride_order :: "AttentionBackend \<Rightarrow> bool \<Rightarrow> int list \<Rightarrow> int list result" where
  "stride_order attn_backend has_layers_dim gpu_shape =
     (case get_kv_cache_stride_order attn_backend has_layers_dim of
        Inl AttributeError \<Rightarrow> Inr (map int [0..<length gpu_shape])
      | Inl NotImplementedError \<Rightarrow> Inr (map int [0..<length gpu_shape])
      | Inl e \<Rightarrow> Inl e
      | Inr order \<Rightarrow> py_assert (length order = length gpu_shape) (Inr order))"

text \<open>The kernel block size found in one tensor, and \<^verbatim>\<open>split_k_and_v\<close>.\<close>

definition find_block_size :: "AttentionBackend \<Rightarrow> int list \<Rightarrow> (int \<times> bool) result" where
  "find_block_size attn_backend gpu_shape =
     rbind (get_kv_cache_shape attn_backend 1234 16 8 256) (\<lambda>test_shape.
     rbind (classify_shape gpu_shape test_shape) (\<lambda>(test_shape, has_layers_dim, split_k_and_v).
     rbind (stride_order attn_backend has_layers_dim gpu_shape) (\<lambda>kv_cache_stride_order.
     rbind (mmap (py_index test_shape) kv_cache_stride_order) (\<lambda>test_shape.
     rbind (tuple_index test_shape 16) (\<lambda>block_size_idx.
     rbind (py_index gpu_shape block_size_idx) (\<lambda>s. Inr (s, split_k_and_v)))))))"

definition parse_gpu_tensor ::
  "int \<Rightarrow> (string, AttentionBackend) dict \<Rightarrow> string \<times> Tensor \<Rightarrow> int option \<times> (Tensor \<times> bool) list \<Rightarrow>
   (int option \<times> (Tensor \<times> bool) list) result" where
  "parse_gpu_tensor gpu_block_size attn_backends = (\<lambda>(layer_name, gpu_tensor) (kernel_block_size, parsed_gpu_tensors).
     rbind (dict_item attn_backends layer_name) (\<lambda>attn_backend.
     rbind (find_block_size attn_backend (t_shape gpu_tensor)) (\<lambda>(kbs, split_k_and_v).
     let parsed_gpu_tensors = parsed_gpu_tensors @ [(gpu_tensor, split_k_and_v)]
     in case kernel_block_size of
          Some s \<Rightarrow> py_assert (s = kbs) (Inr (Some s, parsed_gpu_tensors))
        | None \<Rightarrow>
            if kbs = 0 then Inl ZeroDivisionError
            else py_assert (gpu_block_size mod kbs = 0) (Inr (Some kbs, parsed_gpu_tensors)))))"

definition parse_gpu_tensors ::
  "int \<Rightarrow> (string, Tensor) dict \<Rightarrow> (string, AttentionBackend) dict \<Rightarrow> (int \<times> (Tensor \<times> bool) list) result" where
  "parse_gpu_tensors gpu_block_size gpu_caches attn_backends =
     rbind (mfold (parse_gpu_tensor gpu_block_size attn_backends) gpu_caches (None, [])) (\<lambda>(kernel_block_size, parsed).
     case kernel_block_size of None \<Rightarrow> Inl AssertionError | Some s \<Rightarrow> Inr (s, parsed))"

section \<open>What is found\<close>

text \<open>The shape of a layer's tensor as the model runner registers it is the backend's logical shape; a
  cross-layer tensor is registered in its physical order, after the number of layers is prepended.\<close>

definition permuted :: "'a list \<Rightarrow> int list \<Rightarrow> 'a list" where
  "permuted xs order = map (\<lambda>i. xs ! nat i) order"

lemma py_index_Inr_in: "py_index xs i = Inr x \<Longrightarrow> x \<in> set xs"
  by (auto simp: py_index_def split: if_splits)

text \<open>The shapes that are parsed correctly: cross-layer tensors in both layouts, and layers' own tensors
  when tokens come before heads.\<close>

definition flash_registered_shape :: "string \<Rightarrow> int option \<Rightarrow> int \<Rightarrow> int \<Rightarrow> int \<Rightarrow> int \<Rightarrow> int list" where
  "flash_registered_shape cache_layout num_layers n_blocks b_size n_heads hd_size =
     (let shape = [2, n_blocks, b_size, n_heads, hd_size]
      in case num_layers of
           None \<Rightarrow> shape
         | Some n \<Rightarrow> permuted (n # shape) (if cache_layout = ''NHD'' then [2, 0, 1, 3, 4, 5] else [2, 4, 0, 1, 3, 5]))"

lemmas find_block_size_simps = find_block_size_def flash_get_kv_cache_shape_def flash_get_kv_cache_stride_order_def
  FlashAttentionBackend_def classify_shape_def stride_order_def py_index_def flash_registered_shape_def permuted_def

text \<open>
  The block size of the attention kernels is found in the tensors of FlashAttention
  caches, whether they are registered layer by layer with tokens before heads or as one tensor of
  all layers in either layout; keys and values are split only in the former.
\<close>

theorem kernel_block_size_found:
  assumes "cache_layout = ''NHD'' \<or> cache_layout = ''HND'' \<and> num_layers \<noteq> None"
  shows "find_block_size (FlashAttentionBackend cache_layout)
    (flash_registered_shape cache_layout num_layers n_blocks b_size n_heads hd_size) = Inr (b_size, num_layers = None)"
  using assms by (cases num_layers) (auto simp: find_block_size_simps eval_nat_numeral)

theorem kernel_block_size_found_witness:
  "find_block_size (FlashAttentionBackend ''HND'') (flash_registered_shape ''HND'' (Some 32) 1000 16 8 128) = Inr (16, False)"
  using kernel_block_size_found[of "''HND''" "Some 32" 1000 16 8 128] by simp

text \<open>
  With heads before tokens and a tensor for each layer, the position of the block size in
  the physical order is used in the logical shape: the number of heads is taken for the block size of
  the kernels.
\<close>

theorem kernel_block_size_is_heads:
  "find_block_size (FlashAttentionBackend ''HND'')
    (flash_registered_shape ''HND'' None n_blocks b_size n_heads hd_size) = Inr (n_heads, True)"
  by (simp add: find_block_size_simps eval_nat_numeral)

end
