(* ===== verification/Offload_Transfer.thy ===== *)
theory Offload_Transfer
  imports Offload_Layout
begin

text \<open>
  The data path of an offloading transfer (\<^verbatim>\<open>v1/kv_offload/worker/cpu_gpu.py\<close>): from the block ids of
  the two sides to the pairs of kernel blocks that are copied. Streams and events order the copies on
  the device and are not represented.
\<close>

section \<open>Expansion of block ids\<close>

text \<open>
  Assignment to a slice of a NumPy array: the lengths must agree, except that a single value may be
  assigned to an empty slice.
\<close>

definition slice_assign :: "nat \<Rightarrow> int list \<Rightarrow> int list \<Rightarrow> int list result" where
  "slice_assign idx vals output =
     (if idx + length vals \<le> length output then Inr (take idx output @ vals @ drop (idx + length vals) output)
      else if length vals = 1 then Inr output else Inl ValueError)"

definition expand_one :: "int \<Rightarrow> int \<Rightarrow> nat \<times> int \<Rightarrow> nat \<times> int list \<Rightarrow> (nat \<times> int list) result" where
  "expand_one f skip = (\<lambda>(i, block_id) (output_idx, output).
     let base_block_id = c_int64 (block_id * f);
         indices = (if i = 0 then [skip..f - 1] else [0..f - 1]);
         output_end_idx = output_idx + length indices
     in rbind (slice_assign output_idx (map (\<lambda>k. c_int64 (base_block_id + k)) indices) output) (\<lambda>output.
        Inr (output_end_idx, output)))"

definition expand_block_ids :: "int list \<Rightarrow> int \<Rightarrow> int list \<Rightarrow> int \<Rightarrow> int list result" where
  "expand_block_ids block_ids block_size_factor output skip_count =
     py_assert (skip_count < block_size_factor)
       (rbind (mfold (expand_one block_size_factor skip_count) (enumerate 0 block_ids) (0, output)) (\<lambda>(_, output). Inr output))"

section \<open>A transfer in one direction\<close>

text \<open>
  Streams and events are objects of the device library, known here by numbers;
  \<open>sd_num_streams\<close> and \<open>sd_num_events\<close> count those that have been created.
\<close>

record SingleDirectionOffloadingHandler =
  sd_src_tensors :: "Tensor list"
  sd_dst_tensors :: "Tensor list"
  sd_src_block_size_factor :: int
  sd_dst_block_size_factor :: int
  sd_block_size_in_bytes :: "int list"
  sd_gpu_to_cpu :: bool
  sd_transfer_events :: "(int, nat) dict"
  sd_transfers :: "(int \<times> nat \<times> nat) list"
  sd_stream_pool :: "nat list"
  sd_event_pool :: "nat list"
  sd_num_streams :: nat
  sd_num_events :: nat

definition SingleDirectionOffloadingHandler_init ::
  "Tensor list \<Rightarrow> Tensor list \<Rightarrow> int \<Rightarrow> int \<Rightarrow> SingleDirectionOffloadingHandler result" where
  "SingleDirectionOffloadingHandler_init src_tensors dst_tensors src_factor dst_factor =
     py_assert (length src_tensors = length dst_tensors)
       (let min_factor = min src_factor dst_factor
        in rbind (py_floordiv src_factor min_factor) (\<lambda>s. rbind (py_floordiv dst_factor min_factor) (\<lambda>d.
           py_assert (0 < length src_tensors)
             (Inr \<lparr>sd_src_tensors = src_tensors, sd_dst_tensors = dst_tensors,
                sd_src_block_size_factor = s, sd_dst_block_size_factor = d,
                sd_block_size_in_bytes = map (\<lambda>t. t_element_size t * t_stride_0 t * min_factor) src_tensors,
                sd_gpu_to_cpu = t_is_cuda (src_tensors ! 0), sd_transfer_events = [], sd_transfers = [],
                sd_stream_pool = [], sd_event_pool = [], sd_num_streams = 0, sd_num_events = 0\<rparr>))))"

text \<open>
  The two handlers between GPU and CPU. \<open>allocate\<close> stands for the tensor library: for a GPU tensor,
  whether keys and values are split and the number of CPU kernel blocks it gives the GPU tensors
  (one, or one for keys and one for values) and the CPU tensors allocated for them.
\<close>

definition CpuGpuOffloadingHandlers_init ::
  "(Tensor \<Rightarrow> bool \<Rightarrow> int \<Rightarrow> Tensor list \<times> Tensor list) \<Rightarrow> int \<Rightarrow> int \<Rightarrow> int \<Rightarrow> (string, Tensor) dict \<Rightarrow>
   (string, AttentionBackend) dict \<Rightarrow> (SingleDirectionOffloadingHandler \<times> SingleDirectionOffloadingHandler) result" where
  "CpuGpuOffloadingHandlers_init allocate gpu_block_size cpu_block_size num_cpu_blocks gpu_caches attn_backends =
     py_assert (gpu_caches \<noteq> [])
       (if gpu_block_size = 0 then Inl ZeroDivisionError
        else py_assert (cpu_block_size mod gpu_block_size = 0)
          (rbind (parse_gpu_tensors gpu_block_size gpu_caches attn_backends) (\<lambda>(kernel_block_size, parsed_gpu_tensors).
           let cpu_factor = cpu_block_size div kernel_block_size; gpu_factor = gpu_block_size div kernel_block_size;
               tensors = map (\<lambda>(t, split). allocate t split (num_cpu_blocks * cpu_factor)) parsed_gpu_tensors;
               gpu_tensors = concat (map fst tensors); cpu_tensors = concat (map snd tensors)
           in rbind (SingleDirectionOffloadingHandler_init gpu_tensors cpu_tensors gpu_factor cpu_factor) (\<lambda>gpu_to_cpu_handler.
              rbind (SingleDirectionOffloadingHandler_init cpu_tensors gpu_tensors cpu_factor gpu_factor) (\<lambda>cpu_to_gpu_handler.
              Inr (gpu_to_cpu_handler, cpu_to_gpu_handler))))))"

text \<open>The pairs of source and destination blocks; \<open>uninit\<close> is what an uninitialised array holds.\<close>

definition src_to_dst :: "(nat \<Rightarrow> int) \<Rightarrow> SingleDirectionOffloadingHandler \<Rightarrow> LoadStoreSpec \<Rightarrow> LoadStoreSpec \<Rightarrow> (int \<times> int) list result" where
  "src_to_dst uninit h src_spec dst_spec =
     (let src_blocks = ls_block_ids src_spec; dst_blocks = ls_block_ids dst_spec;
          src_sub_block_count = int (length src_blocks) * sd_src_block_size_factor h;
          dst_sub_block_count = int (length dst_blocks) * sd_dst_block_size_factor h;
          src_sub_blocks_to_skip = (- int (length dst_blocks)) mod sd_src_block_size_factor h
      in if sd_src_block_size_factor h = 0 then Inl ZeroDivisionError
         else py_assert (dst_sub_block_count = src_sub_block_count - src_sub_blocks_to_skip)
           (let output = map uninit [0..<nat dst_sub_block_count]
            in rbind (expand_block_ids src_blocks (sd_src_block_size_factor h) output src_sub_blocks_to_skip) (\<lambda>src.
               rbind (expand_block_ids dst_blocks (sd_dst_block_size_factor h) output 0) (\<lambda>dst.
               Inr (zip src dst)))))"

text \<open>
  \<^verbatim>\<open>swap_blocks\<close> is a custom operator of the device library (\<^verbatim>\<open>_custom_ops.py\<close>). A tensor's memory is the function from byte offsets to
  bytes, read as consecutive blocks of \<open>size\<close> bytes: the operator copies the source block of each pair of the mapping to its
  destination block and leaves the other bytes of the destination alone.
\<close>

definition copies_blocks :: "((int \<Rightarrow> 'a) \<Rightarrow> (int \<Rightarrow> 'a) \<Rightarrow> int \<Rightarrow> (int \<times> int) list \<Rightarrow> (int \<Rightarrow> 'a)) \<Rightarrow> bool" where
  "copies_blocks swap_blocks \<longleftrightarrow> (\<forall>src dst size mapping. 0 < size \<and> distinct (map snd mapping) \<longrightarrow>
     (\<forall>s d off. (s, d) \<in> set mapping \<and> 0 \<le> off \<and> off < size \<longrightarrow> swap_blocks src dst size mapping (d * size + off) = src (s * size + off)) \<and>
     (\<forall>a. a div size \<notin> snd ` set mapping \<longrightarrow> swap_blocks src dst size mapping a = dst a))"

section \<open>What is copied\<close>

text \<open>Block \<open>b\<close> of factor \<open>f\<close> stands for the blocks \<open>b * f\<close> up to \<open>b * f + f - 1\<close>.\<close>

definition sub_blocks :: "int \<Rightarrow> int list \<Rightarrow> int list" where
  "sub_blocks f ids = concat (map (\<lambda>b. map (\<lambda>k. b * f + k) [0..f - 1]) ids)"

definition addressable :: "int \<Rightarrow> int list \<Rightarrow> bool" where
  "addressable f ids \<longleftrightarrow> (\<forall>b\<in>set ids. 0 \<le> b \<and> b * f + f \<le> 2 ^ 63)"

lemma c_int64_sub:
  assumes "0 \<le> b" "b * f + f \<le> 2 ^ 63" "0 \<le> k" "k < f"
  shows "c_int64 (c_int64 (b * f) + k) = b * f + k"
proof -
  have n: "0 \<le> b * f" using assms by (intro mult_nonneg_nonneg) auto
  have "c_int64 (b * f) = b * f" by (rule c_int64_id) (use assms n in linarith)+
  moreover have "c_int64 (b * f + k) = b * f + k" by (rule c_int64_id) (use assms n in linarith)+
  ultimately show ?thesis by simp
qed

lemma slice_assign_exact: "slice_assign (length xs) vals (xs @ ys @ zs) = Inr (xs @ vals @ zs)" if "length ys = length vals"
  using that by (simp add: slice_assign_def)

lemma expand_tail:
  assumes "addressable f ids" "1 \<le> f" "length ys = length (sub_blocks f ids)" "0 < i"
  shows "mfold (expand_one f skip) (enumerate i ids) (length xs, xs @ ys) = Inr (length xs + length ys, xs @ sub_blocks f ids)"
  using assms
proof (induction ids arbitrary: i xs ys)
  case Nil
  then show ?case by (simp add: sub_blocks_def)
next
  case (Cons b ids)
  let ?v = "map (\<lambda>k. b * f + k) [0..f - 1]"
  define ys1 where "ys1 = take (nat f) ys"
  define ys2 where "ys2 = drop (nat f) ys"
  have sb: "sub_blocks f (b # ids) = ?v @ sub_blocks f ids" by (simp add: sub_blocks_def)
  have len: "length ?v = nat f" using Cons.prems(2) by simp
  have ys: "ys = ys1 @ ys2" "length ys1 = nat f" "length ys2 = length (sub_blocks f ids)"
    using Cons.prems(3) len unfolding sb by (auto simp: ys1_def ys2_def)
  have "map (\<lambda>k. c_int64 (c_int64 (b * f) + k)) [0..f - 1] = ?v"
    using Cons.prems(1) by (auto simp: addressable_def intro!: c_int64_sub)
  moreover have "slice_assign (length xs) ?v (xs @ ys) = Inr (xs @ ?v @ ys2)"
    unfolding ys(1) by (rule slice_assign_exact) (simp add: ys(2) len)
  ultimately have "expand_one f skip (i, b) (length xs, xs @ ys) = Inr (length (xs @ ?v), (xs @ ?v) @ ys2)"
    using Cons.prems(4) by (simp add: expand_one_def Let_def del: map_eq_conv)
  moreover have "mfold (expand_one f skip) (enumerate (Suc i) ids) (length (xs @ ?v), (xs @ ?v) @ ys2) =
      Inr (length (xs @ ?v) + length ys2, (xs @ ?v) @ sub_blocks f ids)"
    using Cons.prems(1,2) ys(3) by (intro Cons.IH) (auto simp: addressable_def)
  ultimately show ?case using ys by (simp add: sb)
qed

text \<open>The expansion, without its first \<open>skip\<close> blocks, fills an output of the right length.\<close>

lemma expand_block_ids_eq:
  assumes "addressable f ids" "0 \<le> skip" "skip < f" "int (length output) = int (length (sub_blocks f ids)) - skip" "ids \<noteq> [] \<or> skip = 0"
  shows "expand_block_ids ids f output skip = Inr (drop (nat skip) (sub_blocks f ids))"
proof (cases ids)
  case Nil
  moreover have "skip = 0" using assms(5) Nil by simp
  ultimately show ?thesis using assms(3,4) by (simp add: expand_block_ids_def sub_blocks_def)
next
  case (Cons b bs)
  let ?v = "map (\<lambda>k. b * f + k) [skip..f - 1]"
  have sb: "sub_blocks f ids = map (\<lambda>k. b * f + k) [0..f - 1] @ sub_blocks f bs" by (simp add: sub_blocks_def Cons)
  have "[0..f - 1] = [0..skip - 1] @ [skip..f - 1]" using assms(2,3) by (intro upto_split1) auto
  then have dr: "drop (nat skip) (sub_blocks f ids) = ?v @ sub_blocks f bs"
    using assms(2,3) by (simp add: sb)
  define o1 where "o1 = take (nat (f - skip)) output"
  define o2 where "o2 = drop (nat (f - skip)) output"
  have len: "length (sub_blocks f ids) = nat f + length (sub_blocks f bs)" using assms(2,3) by (simp add: sb)
  have o: "output = o1 @ o2" "length o1 = nat (f - skip)" "length o2 = length (sub_blocks f bs)"
    using assms(2-4) len by (auto simp: o1_def o2_def)
  have "map (\<lambda>k. c_int64 (c_int64 (b * f) + k)) [skip..f - 1] = ?v"
    using assms(1,2) by (auto simp: addressable_def Cons intro!: c_int64_sub)
  moreover have "slice_assign 0 ?v output = Inr (?v @ o2)"
    using slice_assign_exact[of o1 ?v "[]" o2] o by simp
  ultimately have "expand_one f skip (0, b) (0, output) = Inr (length ?v, ?v @ o2)"
    by (simp add: expand_one_def Let_def del: map_eq_conv)
  moreover have "mfold (expand_one f skip) (enumerate 1 bs) (length ?v, ?v @ o2) = Inr (length ?v + length o2, ?v @ sub_blocks f bs)"
    using assms(1-3) o(3) by (intro expand_tail) (auto simp: addressable_def Cons)
  ultimately show ?thesis using assms(3) by (simp add: expand_block_ids_def Cons dr[unfolded Cons])
qed

section \<open>Storing and loading again\<close>

lemma sub_blocks_one [simp]: "sub_blocks 1 ids = ids"
  by (induction ids) (auto simp: sub_blocks_def)

lemma length_sub_blocks: "length (sub_blocks f ids) = nat f * length ids"
  by (induction ids) (auto simp: sub_blocks_def)

lemma distinct_sub_blocks:
  assumes "distinct ids" "0 < f"
  shows "distinct (sub_blocks f ids)"
  using assms(1)
proof (induction ids)
  case (Cons b ids)
  have div: "x div f = b" if x: "x \<in> set (map (\<lambda>k. b * f + k) [0..f - 1])" for x b
  proof -
    from x obtain k where "x = b * f + k" "k \<in> {0..f - 1}" unfolding set_map set_upto by blast
    then show ?thesis by simp
  qed
  have "x div f \<in> set ids" if x: "x \<in> set (sub_blocks f ids)" for x
  proof -
    from x have "x \<in> (\<Union>c\<in>set ids. set (map (\<lambda>k. c * f + k) [0..f - 1]))"
      by (simp only: sub_blocks_def set_concat set_map image_image)
    then show ?thesis using div by blast
  qed
  with div[of _ b] have "set (map (\<lambda>k. b * f + k) [0..f - 1]) \<inter> set (sub_blocks f ids) = {}"
    using Cons.prems by fastforce
  moreover have "distinct (map (\<lambda>k. b * f + k) [0..f - 1])" by (simp add: distinct_map inj_on_def)
  moreover have "sub_blocks f (b # ids) = map (\<lambda>k. b * f + k) [0..f - 1] @ sub_blocks f ids" by (simp add: sub_blocks_def)
  ultimately show ?case using Cons by (simp only: distinct_append) simp
qed (simp add: sub_blocks_def)

text \<open>The kernel block size is an entry of a tensor's shape, and it divides the GPU block size.\<close>

definition positive_shapes :: "(string, Tensor) dict \<Rightarrow> bool" where
  "positive_shapes caches \<longleftrightarrow> (\<forall>t\<in>snd ` set caches. \<forall>n\<in>set (t_shape t). 0 < n)"

lemma find_block_size_pos:
  assumes "find_block_size ab shape = Inr (kbs, split)" "\<forall>n\<in>set shape. 0 < n"
  shows "0 < kbs"
  using assms py_index_Inr_in by (fastforce simp: find_block_size_def rbind_Inr_iff)

lemma parse_gpu_tensors_pos:
  assumes "parse_gpu_tensors gbs caches backends = Inr (kbs, parsed)" "positive_shapes caches"
  shows "0 < kbs \<and> kbs dvd gbs"
proof -
  from assms(1) have "mfold (parse_gpu_tensor gbs backends) caches (None, []) = Inr (Some kbs, parsed)"
    by (auto simp: parse_gpu_tensors_def rbind_Inr_iff split: option.splits)
  then have "(\<lambda>(k, _). \<forall>kbs. k = Some kbs \<longrightarrow> 0 < kbs \<and> kbs dvd gbs) (Some kbs, parsed)"
    by (rule mfold_Inr_inv) (use assms(2) find_block_size_pos in
        \<open>fastforce simp: parse_gpu_tensor_def positive_shapes_def rbind_Inr_iff Let_def split: option.splits if_splits\<close>)+
  then show ?thesis by simp
qed

lemma handler_factors:
  assumes "CpuGpuOffloadingHandlers_init allocate gbs cbs n caches backends = Inr (st, ld)"
    and "positive_shapes caches" "0 < gbs" "0 < cbs"
  shows "sd_src_block_size_factor st = 1 \<and> sd_dst_block_size_factor st = cbs div gbs \<and>
         sd_src_block_size_factor ld = cbs div gbs \<and> sd_dst_block_size_factor ld = 1 \<and> 0 < cbs div gbs"
proof -
  from assms(1) obtain kbs parsed gts cts where
    p: "parse_gpu_tensors gbs caches backends = Inr (kbs, parsed)" and dvd: "gbs dvd cbs" and
    h: "SingleDirectionOffloadingHandler_init gts cts (gbs div kbs) (cbs div kbs) = Inr st"
       "SingleDirectionOffloadingHandler_init cts gts (cbs div kbs) (gbs div kbs) = Inr ld"
    by (auto simp: CpuGpuOffloadingHandlers_init_def rbind_Inr_iff Let_def dvd_eq_mod_eq_0 split: if_splits)
  from parse_gpu_tensors_pos[OF p assms(2)] dvd obtain f g where
    fg: "cbs = gbs * f" "gbs = kbs * g" and "0 < kbs" by (auto elim!: dvdE)
  then have pos: "0 < g" "0 < f" using assms(3,4) by (auto intro: zero_less_mult_pos)
  have q: "cbs div gbs = f" "gbs div kbs = g" "cbs div kbs = g * f" using \<open>0 < kbs\<close> assms(3) by (auto simp: fg)
  have m: "min g (g * f) = g" "min (g * f) g = g" using pos by (auto simp: min_def)
  from h pos show ?thesis
    by (auto simp: q m SingleDirectionOffloadingHandler_init_def py_floordiv_def Let_def)
qed

lemma src_to_dst_eq:
  assumes "addressable fs (ls_block_ids src)" "addressable fd (ls_block_ids dst)" "0 < fs" "0 < fd"
    and h: "sd_src_block_size_factor h = fs" "sd_dst_block_size_factor h = fd"
    and skip: "skip = (- int (length (ls_block_ids dst))) mod fs"
      "int (length (ls_block_ids dst)) * fd = int (length (ls_block_ids src)) * fs - skip"
  shows "src_to_dst uninit h src dst =
    Inr (zip (drop (nat skip) (sub_blocks fs (ls_block_ids src))) (sub_blocks fd (ls_block_ids dst)))"
proof -
  let ?n = "int (length (ls_block_ids dst)) * fd"
  let ?o = "map uninit [0..<nat ?n]"
  have sk: "0 \<le> skip" "skip < fs" using assms(3) skip(1) by auto
  have n: "int (length ?o) = ?n" using assms(4) by simp
  have "0 \<le> ?n" using assms(4) by simp
  then have "ls_block_ids src \<noteq> [] \<or> skip = 0"
    using skip(2) sk(1) by (cases "ls_block_ids src = []") auto
  then have "expand_block_ids (ls_block_ids src) fs ?o skip = Inr (drop (nat skip) (sub_blocks fs (ls_block_ids src)))"
    using assms(1,3) sk skip(2) n by (intro expand_block_ids_eq) (auto simp: length_sub_blocks mult.commute)
  moreover have "expand_block_ids (ls_block_ids dst) fd ?o 0 = Inr (sub_blocks fd (ls_block_ids dst))"
    using expand_block_ids_eq[of fd "ls_block_ids dst" 0 ?o] assms(2,4) n by (simp add: length_sub_blocks mult.commute)
  ultimately show ?thesis
    using assms(3) skip(2) unfolding src_to_dst_def h Let_def skip(1)[symmetric] by simp
qed

text \<open>What the copy operator does with a list of destination blocks that differ.\<close>

lemma copies_zip:
  assumes "copies_blocks swap_blocks" "length xs = length ys" "distinct ys" "0 < sz"
  shows "i < length ys \<Longrightarrow> 0 \<le> off \<Longrightarrow> off < sz \<Longrightarrow> swap_blocks src dst sz (zip xs ys) (ys ! i * sz + off) = src (xs ! i * sz + off)"
    and "a div sz \<notin> set ys \<Longrightarrow> swap_blocks src dst sz (zip xs ys) a = dst a"
proof -
  have d: "distinct (map snd (zip xs ys))" using assms(2,3) by simp
  show "swap_blocks src dst sz (zip xs ys) (ys ! i * sz + off) = src (xs ! i * sz + off)" if "i < length ys" "0 \<le> off" "off < sz"
  proof -
    have "(xs ! i, ys ! i) \<in> set (zip xs ys)" using that assms(2) by (auto simp: set_zip)
    then show ?thesis using assms(1,4) d that unfolding copies_blocks_def by blast
  qed
  show "swap_blocks src dst sz (zip xs ys) a = dst a" if "a div sz \<notin> set ys"
  proof -
    have "a div sz \<notin> snd ` set (zip xs ys)" using that by (auto dest: set_zip_rightD)
    then show ?thesis using assms(1,4) d unfolding copies_blocks_def by blast
  qed
qed

section \<open>The bytes of a block\<close>

text \<open>
  A KV cache of FlashAttention: the tensor of one layer, with keys and values apart, or one tensor of \<open>n\<close> layers; kernel blocks, heads, head size
  and bytes per element. \<open>token_bytes\<close> is what one token takes of a kernel block, and a GPU block of \<open>gbs\<close> tokens takes \<open>gbs\<close>
  times as much, whatever the block size of the kernels is.
\<close>

record flash_cache =
  fc_layers :: "int option"
  fc_blocks :: int
  fc_heads :: int
  fc_head_size :: int
  fc_element_size :: int

definition token_bytes :: "flash_cache \<Rightarrow> int" where
  "token_bytes d = fc_element_size d * ((case fc_layers d of None \<Rightarrow> 1 | Some n \<Rightarrow> n * 2) * (fc_heads d * fc_head_size d))"

definition flash_registered :: "string \<Rightarrow> int \<Rightarrow> (string, AttentionBackend) dict \<Rightarrow> flash_cache \<Rightarrow> string \<times> Tensor \<Rightarrow> bool" where
  "flash_registered layout kbs backends d = (\<lambda>(name, t).
     (layout = ''NHD'' \<or> layout = ''HND'' \<and> fc_layers d \<noteq> None) \<and> map_of backends name = Some (FlashAttentionBackend layout) \<and>
     t_shape t = flash_registered_shape layout (fc_layers d) (fc_blocks d) kbs (fc_heads d) (fc_head_size d) \<and>
     t_element_size t = fc_element_size d \<and>
     0 < kbs \<and> 0 < fc_blocks d \<and> 0 < fc_heads d \<and> 0 < fc_head_size d \<and> 0 < fc_element_size d \<and> (case fc_layers d of None \<Rightarrow> True | Some n \<Rightarrow> 0 < n))"

text \<open>
  What the tensor library returns: \<^verbatim>\<open>unbind(0)\<close> of a tensor with keys and values gives two tensors, the CPU tensors have the shape of
  the GPU tensors but for the number of blocks, and all are contiguous, so the stride of the first dimension is the size of the rest.
\<close>

definition contiguous_tensors :: "(Tensor \<Rightarrow> bool \<Rightarrow> int \<Rightarrow> Tensor list \<times> Tensor list) \<Rightarrow> bool" where
  "contiguous_tensors allocate \<longleftrightarrow> (\<forall>t split n. case allocate t split n of (gpu, cpu) \<Rightarrow>
     length gpu = (if split then 2 else 1) \<and> length cpu = length gpu \<and>
     (\<forall>p \<in> set gpu \<union> set cpu. t_element_size p = t_element_size t \<and> t_stride_0 p = prod_list (drop (if split then 2 else 1) (t_shape t))))"

lemma parse_flash:
  assumes "list_all2 (flash_registered layout kbs backends) ds caches" "kbs0 = None \<or> kbs0 = Some kbs"
    "mfold (parse_gpu_tensor gbs backends) caches (kbs0, acc) = Inr (k, parsed)"
  shows "k = (if caches = [] then kbs0 else Some kbs) \<and> parsed = acc @ map2 (\<lambda>d c. (snd c, fc_layers d = None)) ds caches"
  using assms
proof (induction arbitrary: kbs0 acc rule: list_all2_induct)
  case (Cons d ds c caches)
  have f: "find_block_size (FlashAttentionBackend layout) (t_shape (snd c)) = Inr (kbs, fc_layers d = None)" "map_of backends (fst c) = Some (FlashAttentionBackend layout)"
    using Cons.hyps(1) kernel_block_size_found[of layout "fc_layers d"] by (auto simp: flash_registered_def split: prod.splits)
  have run: "mfold (parse_gpu_tensor gbs backends) caches (Some kbs, acc @ [(snd c, fc_layers d = None)]) = Inr (k, parsed)"
  proof (cases "parse_gpu_tensor gbs backends c (kbs0, acc)")
    case (Inr q)
    then have "q = (Some kbs, acc @ [(snd c, fc_layers d = None)])" using Cons.prems(1) f
      by (auto simp: parse_gpu_tensor_def dict_item_def Let_def split: prod.splits if_splits)
    then show ?thesis using Cons.prems(2) Inr by simp
  qed (use Cons.prems(2) in simp)
  show ?case using Cons.IH[OF _ run] by (auto split: if_splits)
qed simp

lemma part_bytes:
  assumes "flash_registered layout kbs backends d c" "contiguous_tensors allocate" "allocate (snd c) (fc_layers d = None) n = (gpu, cpu)"
  shows "length gpu = (if fc_layers d = None then 2 else 1)" "length cpu = length gpu"
    "\<forall>p \<in> set gpu \<union> set cpu. t_element_size p * t_stride_0 p = kbs * token_bytes d"
proof -
  have a: "length gpu = (if fc_layers d = None then 2 else 1)" "length cpu = length gpu"
    "\<forall>p \<in> set gpu \<union> set cpu. t_element_size p = t_element_size (snd c) \<and>
       t_stride_0 p = prod_list (drop (if fc_layers d = None then 2 else 1) (t_shape (snd c)))"
    using assms(2)[unfolded contiguous_tensors_def, THEN spec[of _ "snd c"], THEN spec[of _ "fc_layers d = None"], THEN spec[of _ n]] unfolding assms(3)
    by simp_all
  show "length gpu = (if fc_layers d = None then 2 else 1)" "length cpu = length gpu" by (fact a)+
  have "t_element_size (snd c) * prod_list (drop (if fc_layers d = None then 2 else 1) (t_shape (snd c))) = kbs * token_bytes d"
    using assms(1) by (cases "fc_layers d") (auto simp: flash_registered_def flash_registered_shape_def permuted_def token_bytes_def eval_nat_numeral split: prod.splits)
  then show "\<forall>p \<in> set gpu \<union> set cpu. t_element_size p * t_stride_0 p = kbs * token_bytes d" using a(3) by simp
qed

text \<open>The bytes per copied block, tensor by tensor: those of a GPU block.\<close>

definition gpu_block_bytes :: "int \<Rightarrow> flash_cache list \<Rightarrow> int list" where
  "gpu_block_bytes gbs ds = concat (map (\<lambda>d. replicate (if fc_layers d = None then 2 else 1) (gbs * token_bytes d)) ds)"

lemma tensor_bytes:
  assumes "list_all2 (flash_registered layout kbs backends) ds caches" "contiguous_tensors allocate"
  shows "let ts = map (\<lambda>(t, split). allocate t split n) (map2 (\<lambda>d c. (snd c, fc_layers d = None)) ds caches) in
    map (\<lambda>t. t_element_size t * t_stride_0 t) (concat (map fst ts)) = gpu_block_bytes kbs ds \<and>
    map (\<lambda>t. t_element_size t * t_stride_0 t) (concat (map snd ts)) = gpu_block_bytes kbs ds"
  using assms(1) unfolding Let_def
proof (induction rule: list_all2_induct)
  case (Cons d ds c caches)
  obtain gpu cpu where a: "allocate (snd c) (fc_layers d = None) n = (gpu, cpu)" by fastforce
  note b = part_bytes[OF Cons.hyps(1) assms(2) a]
  have "map (\<lambda>t. t_element_size t * t_stride_0 t) gpu = replicate (if fc_layers d = None then 2 else 1) (kbs * token_bytes d)"
    "map (\<lambda>t. t_element_size t * t_stride_0 t) cpu = replicate (if fc_layers d = None then 2 else 1) (kbs * token_bytes d)"
    using b by (simp_all add: list_eq_iff_nth_eq flip: b(1) del: map_replicate)
  then show ?case using Cons.IH a by (simp add: gpu_block_bytes_def)
qed (simp add: gpu_block_bytes_def)

lemma flash_positive: "list_all2 (flash_registered layout kbs backends) ds caches \<Longrightarrow> positive_shapes caches"
proof (induction rule: list_all2_induct)
  case (Cons d ds c caches)
  have "\<forall>n \<in> set (t_shape (snd c)). 0 < n" using Cons.hyps(1)
    by (cases "fc_layers d") (auto simp: flash_registered_def flash_registered_shape_def permuted_def eval_nat_numeral split: prod.splits)
  then show ?case using Cons.IH by (simp add: positive_shapes_def)
qed (simp add: positive_shapes_def)

lemma scaled_bytes: "map (\<lambda>b. b * g) (gpu_block_bytes kbs ds) = gpu_block_bytes (kbs * g) ds"
  by (induction ds) (simp_all add: gpu_block_bytes_def algebra_simps)

lemma handler_bytes:
  assumes h: "CpuGpuOffloadingHandlers_init allocate gbs cbs n caches backends = Inr (st, ld)"
    and reg: "list_all2 (flash_registered layout kbs backends) ds caches" "contiguous_tensors allocate" and pos: "0 < gbs" "0 < cbs"
  shows "sd_block_size_in_bytes st = gpu_block_bytes gbs ds \<and> sd_block_size_in_bytes ld = gpu_block_bytes gbs ds"
proof -
  from h obtain kbs' parsed where p: "parse_gpu_tensors gbs caches backends = Inr (kbs', parsed)" "caches \<noteq> []" and dvd: "gbs dvd cbs"
    by (auto simp: CpuGpuOffloadingHandlers_init_def rbind_Inr_iff dvd_eq_mod_eq_0 split: if_splits)
  then have k: "kbs' = kbs" "parsed = map2 (\<lambda>d c. (snd c, fc_layers d = None)) ds caches"
    using parse_flash[OF reg(1), of None gbs "[]"] by (fastforce simp: parse_gpu_tensors_def rbind_Inr_iff split: option.splits)+
  let ?ts = "map (\<lambda>(t, split). allocate t split (n * (cbs div kbs))) parsed"
  let ?gts = "concat (map fst ?ts)" and ?cts = "concat (map snd ?ts)"
  have s: "SingleDirectionOffloadingHandler_init ?gts ?cts (gbs div kbs) (cbs div kbs) = Inr st"
    "SingleDirectionOffloadingHandler_init ?cts ?gts (cbs div kbs) (gbs div kbs) = Inr ld"
    using h p k(1) dvd pos(1) by (auto simp: CpuGpuOffloadingHandlers_init_def rbind_Inr_iff Let_def dvd_eq_mod_eq_0 split: if_splits)
  from parse_gpu_tensors_pos[OF p(1) flash_positive[OF reg(1)]] obtain g where g: "gbs = kbs * g" "0 < kbs" by (auto simp: k(1) elim!: dvdE)
  have "gbs div kbs \<le> cbs div kbs" using dvd pos g(2) by (intro zdiv_mono1 zdvd_imp_le) auto
  then have m: "min (gbs div kbs) (cbs div kbs) = g" "min (cbs div kbs) (gbs div kbs) = g" using g by (simp_all add: min_def)
  have b: "map (\<lambda>t. t_element_size t * t_stride_0 t) ?gts = gpu_block_bytes kbs ds" "map (\<lambda>t. t_element_size t * t_stride_0 t) ?cts = gpu_block_bytes kbs ds"
    using tensor_bytes[OF reg, of "n * (cbs div kbs)"] unfolding k(2) Let_def by blast+
  have "sd_block_size_in_bytes st = map (\<lambda>b. b * g) (map (\<lambda>t. t_element_size t * t_stride_0 t) ?gts)"
    "sd_block_size_in_bytes ld = map (\<lambda>b. b * g) (map (\<lambda>t. t_element_size t * t_stride_0 t) ?cts)"
    using s by (auto simp: SingleDirectionOffloadingHandler_init_def rbind_Inr_iff Let_def m split: if_splits)
  then show ?thesis unfolding b scaled_bytes g(1) by simp
qed

lemma gpu_block_bytes_pos:
  assumes "list_all2 (flash_registered layout kbs backends) ds caches" "0 < gbs"
  shows "\<forall>b \<in> set (gpu_block_bytes gbs ds). 0 < b"
  using assms(1)
proof (induction rule: list_all2_induct)
  case (Cons d ds c caches)
  then show ?case using assms(2) by (auto simp: gpu_block_bytes_def flash_registered_def token_bytes_def split: prod.splits option.splits)
qed (simp add: gpu_block_bytes_def)

text \<open>
  C16 (roundtrip): KV caches of FlashAttention, registered layer by layer with tokens before heads or as one tensor of all layers in
  either layout. The GPU blocks \<open>G\<close> of offloaded blocks \<open>C\<close> are stored with the first handler, and the
  offloaded blocks are later loaded with the second one into GPU blocks \<open>D\<close>, all or all but the first
  few of the first offloaded block (which the GPU has in its own prefix cache). Both transfers are
  accepted; both handlers copy, in each tensor, blocks of the bytes that a GPU block's tokens take; so each
  block of \<open>D\<close> then holds, byte for byte, what the corresponding block of \<open>G\<close> held, and no byte of another GPU
  block is written.
\<close>

theorem offload_copy_roundtrip:
  assumes swap: "copies_blocks swap_blocks" and h: "CpuGpuOffloadingHandlers_init allocate gbs cbs n caches backends = Inr (st, ld)"
    and reg: "list_all2 (flash_registered layout kbs backends) ds caches" "contiguous_tensors allocate" and pos: "0 < gbs" "0 < cbs"
    and ids: "addressable 1 G" "addressable (cbs div gbs) C" "addressable 1 D" "distinct C" "distinct D"
    and len: "int (length G) = int (length C) * (cbs div gbs)" "length D \<le> length G" "int (length G - length D) < cbs div gbs"
  shows "\<exists>store load. src_to_dst uninit st \<lparr>ls_medium = GPU_medium, ls_block_ids = G\<rparr> \<lparr>ls_medium = CPU_medium, ls_block_ids = C\<rparr> = Inr store \<and>
    src_to_dst uninit ld \<lparr>ls_medium = CPU_medium, ls_block_ids = C\<rparr> \<lparr>ls_medium = GPU_medium, ls_block_ids = D\<rparr> = Inr load \<and>
    length (sd_block_size_in_bytes st) = length (gpu_block_bytes gbs ds) \<and> length (sd_block_size_in_bytes ld) = length (gpu_block_bytes gbs ds) \<and>
    (\<forall>i < length (gpu_block_bytes gbs ds). let bytes = gpu_block_bytes gbs ds ! i;
        loaded = swap_blocks (swap_blocks gpu cpu (sd_block_size_in_bytes st ! i) store) gpu' (sd_block_size_in_bytes ld ! i) load in
      (\<forall>k < length D. \<forall>off. 0 \<le> off \<and> off < bytes \<longrightarrow> loaded (D ! k * bytes + off) = gpu (G ! (k + (length G - length D)) * bytes + off)) \<and>
      (\<forall>a. a div bytes \<notin> set D \<longrightarrow> loaded a = gpu' a))"
proof -
  let ?f = "cbs div gbs" and ?s = "length G - length D"
  note hf = handler_factors[OF h flash_positive[OF reg(1)] pos] and hb = handler_bytes[OF h reg pos]
  let ?sub = "sub_blocks ?f C"
  have ls: "length ?sub = length G" using len(1) hf by (simp add: length_sub_blocks) (metis mult.commute nat_int nat_mult_distrib of_nat_0_le_iff)
  have skip: "(- int (length D)) mod ?f = int ?s"
  proof -
    have "- int (length D) = int ?s + (- int (length C)) * ?f" using len(1,2) by (simp add: of_nat_diff)
    then show ?thesis using len(3) by (simp only: mod_mult_self1) simp
  qed
  have eq: "int (length D) = int (length C) * ?f - int ?s" using len(1,2) by (simp add: of_nat_diff)
  define store where "store = zip G ?sub"
  define load where "load = zip (drop ?s ?sub) D"
  have store: "src_to_dst uninit st \<lparr>ls_medium = GPU_medium, ls_block_ids = G\<rparr> \<lparr>ls_medium = CPU_medium, ls_block_ids = C\<rparr> = Inr store"
    using src_to_dst_eq[of 1 "\<lparr>ls_medium = GPU_medium, ls_block_ids = G\<rparr>" ?f "\<lparr>ls_medium = CPU_medium, ls_block_ids = C\<rparr>" st 0 uninit]
      ids hf len(1) by (simp add: store_def)
  have load: "src_to_dst uninit ld \<lparr>ls_medium = CPU_medium, ls_block_ids = C\<rparr> \<lparr>ls_medium = GPU_medium, ls_block_ids = D\<rparr> = Inr load"
    using src_to_dst_eq[of ?f "\<lparr>ls_medium = CPU_medium, ls_block_ids = C\<rparr>" 1 "\<lparr>ls_medium = GPU_medium, ls_block_ids = D\<rparr>" ld "int ?s" uninit]
      ids(2,3) hf eq skip by (simp add: load_def del: of_nat_diff)
  have ds: "distinct ?sub" using distinct_sub_blocks[of C ?f] ids(4) hf by blast
  have dl: "length (drop ?s ?sub) = length D" using ls len(2) by simp
  have "(\<forall>k < length D. \<forall>off. 0 \<le> off \<and> off < b \<longrightarrow> swap_blocks (swap_blocks gpu cpu b store) gpu' b load (D ! k * b + off) = gpu (G ! (k + ?s) * b + off)) \<and>
      (\<forall>a. a div b \<notin> set D \<longrightarrow> swap_blocks (swap_blocks gpu cpu b store) gpu' b load a = gpu' a)" if "0 < b" for b
    using copies_zip[OF swap ls[symmetric] ds that, folded store_def] copies_zip[OF swap dl ids(5) that, folded load_def] ls len(2)
    by (auto simp: add.commute)
  then show ?thesis using store load hb gpu_block_bytes_pos[OF reg(1) pos(1)] nth_mem unfolding Let_def
    by (intro exI[of _ store] exI[of _ load]) simp
qed

text \<open>
  Two offloaded blocks of two GPU blocks each, a GPU block being two kernel blocks: the GPU blocks 4, 5, 6, 7 are stored; the last three
  of them are loaded into the GPU blocks 1, 2, 3.
\<close>

definition copy_in_order :: "(int \<Rightarrow> 'a) \<Rightarrow> (int \<Rightarrow> 'a) \<Rightarrow> int \<Rightarrow> (int \<times> int) list \<Rightarrow> (int \<Rightarrow> 'a)" where
  "copy_in_order src dst sz mapping = fold (\<lambda>(s, d) t a. if a div sz = d then src (s * sz + a mod sz) else t a) mapping dst"

lemma copy_in_order_copies: "copies_blocks copy_in_order"
proof -
  have "copy_in_order src dst sz m a = (case map_of (map prod.swap m) (a div sz) of Some s \<Rightarrow> src (s * sz + a mod sz) | None \<Rightarrow> dst a)"
    if "distinct (map snd m)" for src dst :: "int \<Rightarrow> 'a" and sz m a
    using that
  proof (induction m arbitrary: dst)
    case (Cons p m)
    then have "map_of (map prod.swap m) (snd p) = None" by (simp add: map_of_eq_None_iff image_image)
    with Cons show ?case by (cases p) (auto simp: copy_in_order_def split: option.split)
  qed (simp add: copy_in_order_def)
  moreover have "map_of (map prod.swap m) d = Some s" if "distinct (map snd m)" "(s, d) \<in> set m" for m :: "(int \<times> int) list" and s d
    using that by (intro map_of_is_SomeI) (force simp: comp_def)+
  moreover have "map_of (map prod.swap m) d = None" if "d \<notin> snd ` set m" for m :: "(int \<times> int) list" and d
    using that by (force simp: map_of_eq_None_iff)
  moreover have "(d * sz + off) div sz = d \<and> (d * sz + off) mod sz = off" if "0 \<le> off" "off < sz" for d off sz :: int
    using that by simp
  ultimately show ?thesis by (auto simp: copies_blocks_def)
qed

definition example_tensor :: "bool \<Rightarrow> Tensor" where
  "example_tensor cuda = \<lparr>t_data = 0, t_shape = [2, 100, 16, 8, 128], t_element_size = 2, t_stride_0 = 1638400, t_is_cuda = cuda\<rparr>"

definition example_cache :: flash_cache where
  "example_cache = \<lparr>fc_layers = None, fc_blocks = 100, fc_heads = 8, fc_head_size = 128, fc_element_size = 2\<rparr>"

definition example_allocate :: "Tensor \<Rightarrow> bool \<Rightarrow> int \<Rightarrow> Tensor list \<times> Tensor list" where
  "example_allocate t split n = (let part = t\<lparr>t_shape := drop (if split then 1 else 0) (t_shape t),
       t_stride_0 := prod_list (drop (if split then 2 else 1) (t_shape t))\<rparr>;
     cpu = part\<lparr>t_shape := (t_shape part)[0 := n], t_is_cuda := False\<rparr> in
     (replicate (if split then 2 else 1) part, replicate (if split then 2 else 1) cpu))"

lemma example_allocate_contiguous: "contiguous_tensors example_allocate"
  by (auto simp: contiguous_tensors_def example_allocate_def Let_def)

abbreviation example_handlers :: "(SingleDirectionOffloadingHandler \<times> SingleDirectionOffloadingHandler) result" where
  "example_handlers \<equiv> CpuGpuOffloadingHandlers_init example_allocate 32 64 10 [(''layer'', example_tensor True)] [(''layer'', FlashAttentionBackend ''NHD'')]"

lemma example_registered:
  "list_all2 (flash_registered ''NHD'' 16 [(''layer'', FlashAttentionBackend ''NHD'')]) [example_cache] [(''layer'', example_tensor True)]"
  by (simp add: flash_registered_def flash_registered_shape_def example_tensor_def example_cache_def)

lemma example_positive: "positive_shapes [(''layer'', example_tensor True)]"
  by (rule flash_positive[OF example_registered])

theorem offload_copy_roundtrip_witness:
  "\<exists>st ld store load. example_handlers = Inr (st, ld) \<and>
     src_to_dst (\<lambda>_. 0) st \<lparr>ls_medium = GPU_medium, ls_block_ids = [4, 5, 6, 7]\<rparr> \<lparr>ls_medium = CPU_medium, ls_block_ids = [3, 0]\<rparr> = Inr store \<and>
     src_to_dst (\<lambda>_. 0) ld \<lparr>ls_medium = CPU_medium, ls_block_ids = [3, 0]\<rparr> \<lparr>ls_medium = GPU_medium, ls_block_ids = [1, 2, 3]\<rparr> = Inr load \<and>
     (let loaded = copy_in_order (copy_in_order (\<lambda>a. a) (\<lambda>_. 0) (sd_block_size_in_bytes st ! 0) store) (\<lambda>_. 0) (sd_block_size_in_bytes ld ! 0) load
      in loaded (65536 + 7) = 5 * 65536 + 7 \<and> loaded (4 * 65536) = 0)"
proof -
  have "case example_handlers of Inl _ \<Rightarrow> False | Inr _ \<Rightarrow> True" by code_simp
  then obtain st ld where h: "example_handlers = Inr (st, ld)" by (auto split: sum.splits)
  have a: "addressable 1 [4, 5, 6, 7]" "addressable (64 div 32) [3, 0]" "addressable 1 [1, 2, 3]"
    by (simp_all add: addressable_def)
  have b: "gpu_block_bytes 32 [example_cache] = [65536, 65536]" by (simp add: gpu_block_bytes_def token_bytes_def example_cache_def numeral_2_eq_2)
  obtain store load where t: "src_to_dst (\<lambda>_. 0) st \<lparr>ls_medium = GPU_medium, ls_block_ids = [4, 5, 6, 7]\<rparr> \<lparr>ls_medium = CPU_medium, ls_block_ids = [3, 0]\<rparr> = Inr store"
    "src_to_dst (\<lambda>_. 0) ld \<lparr>ls_medium = CPU_medium, ls_block_ids = [3, 0]\<rparr> \<lparr>ls_medium = GPU_medium, ls_block_ids = [1, 2, 3]\<rparr> = Inr load"
    and i: "\<forall>i < length (gpu_block_bytes 32 [example_cache]). let bytes = gpu_block_bytes 32 [example_cache] ! i;
        loaded = copy_in_order (copy_in_order (\<lambda>a. a) (\<lambda>_. 0) (sd_block_size_in_bytes st ! i) store) (\<lambda>_. 0) (sd_block_size_in_bytes ld ! i) load in
      (\<forall>k < length [1, 2, 3 :: int]. \<forall>off. 0 \<le> off \<and> off < bytes \<longrightarrow>
         loaded ([1, 2, 3] ! k * bytes + off) = [4, 5, 6, 7] ! (k + (length [4, 5, 6, 7 :: int] - length [1, 2, 3 :: int])) * bytes + off) \<and>
      (\<forall>a. a div bytes \<notin> set [1, 2, 3] \<longrightarrow> loaded a = 0)"
    using offload_copy_roundtrip[OF copy_in_order_copies h example_registered example_allocate_contiguous _ _ a, of "\<lambda>_. 0" "\<lambda>a. a :: int" "\<lambda>_. 0" "\<lambda>_. 0"]
    by auto
  define loaded where "loaded = copy_in_order (copy_in_order (\<lambda>a. a) (\<lambda>_. 0) (sd_block_size_in_bytes st ! 0) store) (\<lambda>_. 0) (sd_block_size_in_bytes ld ! 0) load"
  have "\<forall>k < 3. \<forall>off. 0 \<le> off \<and> off < 65536 \<longrightarrow> loaded ([1, 2, 3] ! k * 65536 + off) = [4, 5, 6, 7] ! (k + 1) * 65536 + off"
    "\<forall>a. a div 65536 \<notin> {1, 2, 3} \<longrightarrow> loaded a = 0"
    using i[rule_format, of 0] by (simp_all add: b Let_def loaded_def)
  from this(1)[rule_format, of 0 7] this(2)[rule_format, of "4 * 65536"] show ?thesis using h t by (simp add: loaded_def)
qed

end
