(* ===== verification/Offload_Safety.thy ===== *)
theory Offload_Safety
  imports Offload_Connector
begin

text \<open>
  Safety of the offloading connector: in every reachable state the reference count of an offloaded
  block is the number of requests that are loading it, or -1 while one request is storing it; so the
  assertions of the manager hold when transfers complete. The invariant rests on the contract of the
  manager, by its interpretation \<open>om\<close>, and holds for both managers.
\<close>

section \<open>Transfers in flight\<close>

definition in_flight :: "(string, bytes set) dict \<Rightarrow> bytes \<Rightarrow> nat" where
  "in_flight d h = length (filter (\<lambda>p. h \<in> snd p) d)"

lemma in_flight_le: "in_flight d h \<le> length d"
  by (simp add: in_flight_def)

lemma in_flight_being: "h \<in> being d rid \<Longrightarrow> 0 < in_flight d h"
  by (force simp: being_def in_flight_def filter_empty_conv split: option.splits dest: map_of_SomeD)

lemma in_flight_delete:
  assumes "distinct (map fst d)"
  shows "in_flight (AList.delete rid d) h = in_flight d h - (if h \<in> being d rid then 1 else 0)"
  using assms
proof (induction d)
  case Nil
  then show ?case by (simp add: in_flight_def)
next
  case (Cons p d)
  show ?case
  proof (cases "fst p = rid")
    case True
    then have "map_of d rid = None" using Cons.prems by (auto simp: map_of_eq_None_iff)
    then have "AList.delete rid d = d" by (simp add: AList.delete_idem map_of_eq_None_iff)
    with True show ?thesis by (cases p) (auto simp: in_flight_def being_def AList.delete_eq)
  next
    case False
    then have "being (p # d) rid = being d rid" by (cases p) (simp add: being_def)
    moreover have "0 < in_flight d h" if "h \<in> being d rid" using that by (rule in_flight_being)
    ultimately show ?thesis using Cons False by (cases p) (auto simp: in_flight_def)
  qed
qed

lemma in_flight_update:
  assumes "being d rid = {}"
  shows "in_flight (AList.update rid S d) h = in_flight d h + (if h \<in> S then 1 else 0)"
  using assms by (induction d) (auto simp: in_flight_def being_def split: if_splits)

lemma in_flight_clear:
  assumes "distinct (map fst d)"
  shows "in_flight (AList.update rid {} d) h = in_flight d h - (if h \<in> being d rid then 1 else 0)"
  using assms
proof (induction d)
  case Nil
  then show ?case by (simp add: in_flight_def being_def)
next
  case (Cons p d)
  show ?case
  proof (cases "fst p = rid")
    case True
    then show ?thesis by (cases p) (auto simp: in_flight_def being_def)
  next
    case False
    then have "being (p # d) rid = being d rid" by (cases p) (simp add: being_def)
    moreover have "0 < in_flight d h" if "h \<in> being d rid" using that by (rule in_flight_being)
    ultimately show ?thesis using Cons False by (cases p) (auto simp: in_flight_def)
  qed
qed

lemma in_flight_add:
  assumes "distinct (map fst d)" "\<And>h. h \<in> S \<Longrightarrow> in_flight d h = 0"
  shows "in_flight (AList.update rid (being d rid \<union> S) d) h = in_flight d h + (if h \<in> S then 1 else 0)"
  using assms
proof (induction d)
  case Nil
  then show ?case by (simp add: in_flight_def being_def)
next
  case (Cons p d)
  have z: "h \<notin> snd p" "in_flight d h = 0" if "h \<in> S" for h
    using Cons.prems(2)[OF that] by (auto simp: in_flight_def split: if_splits)
  show ?case
  proof (cases "fst p = rid")
    case True
    then show ?thesis using z by (cases p) (auto simp: in_flight_def being_def)
  next
    case False
    then have "being (p # d) rid = being d rid" by (cases p) (simp add: being_def)
    then show ?thesis using Cons.IH Cons.prems(1) z False by (cases p) (auto simp: in_flight_def)
  qed
qed

definition finite_sets :: "(string, bytes set) dict \<Rightarrow> bool" where
  "finite_sets d \<longleftrightarrow> distinct (map fst d) \<and> (\<forall>p\<in>set d. finite (snd p))"

lemma finite_sets_being: "finite_sets d \<Longrightarrow> finite (being d rid)"
  by (auto simp: finite_sets_def being_def split: option.splits dest: map_of_SomeD)

lemma finite_sets_delete [simp]: "finite_sets d \<Longrightarrow> finite_sets (AList.delete rid d)"
  by (auto simp: finite_sets_def set_delete map_fst_delete)

lemma set_update_subset: "set (AList.update k v d) \<subseteq> insert (k, v) (set d)"
  by (induction d) auto

lemma length_update_le: "length (AList.update k v d) \<le> Suc (length d)"
  by (induction d) auto

lemma finite_sets_update [simp]: "\<lbrakk>finite_sets d; finite S\<rbrakk> \<Longrightarrow> finite_sets (AList.update rid S d)"
  unfolding finite_sets_def using set_update_subset[of rid S d] distinct_update[of d rid S] by auto

section \<open>The invariant\<close>

text \<open>The status of a block that \<open>s\<close> requests are storing and \<open>l\<close> requests are loading.\<close>

definition status_ok :: "CPUBlockStatus option \<Rightarrow> nat \<Rightarrow> nat \<Rightarrow> bool" where
  "status_ok g s l \<longleftrightarrow>
     (case g of None \<Rightarrow> s = 0 \<and> l = 0
      | Some b \<Rightarrow> if s = 0 then bs_ref_cnt b = int l else s = 1 \<and> bs_ref_cnt b = - 1 \<and> l = 0)"

definition oc_inv :: "OffloadingConnectorScheduler \<Rightarrow> bool" where
  "oc_inv c \<longleftrightarrow> om_ok (oc_manager c) \<and> finite_sets (oc_reqs_being_stored c) \<and> finite_sets (oc_reqs_being_loaded c) \<and>
     int (length (oc_reqs_being_loaded c)) < 2 ^ 31 \<and>
     (\<forall>h. status_ok (om_get (oc_manager c) h) (in_flight (oc_reqs_being_stored c) h) (in_flight (oc_reqs_being_loaded c) h))"

lemma oc_invD:
  assumes "oc_inv c"
  shows "om_ok (oc_manager c)" "finite_sets (oc_reqs_being_stored c)" "finite_sets (oc_reqs_being_loaded c)"
    "int (length (oc_reqs_being_loaded c)) < 2 ^ 31"
    "status_ok (om_get (oc_manager c) h) (in_flight (oc_reqs_being_stored c) h) (in_flight (oc_reqs_being_loaded c) h)"
  using assms unfolding oc_inv_def by blast+

lemma oc_invI:
  assumes "om_ok (oc_manager c)" "finite_sets (oc_reqs_being_stored c)" "finite_sets (oc_reqs_being_loaded c)"
    "int (length (oc_reqs_being_loaded c)) < 2 ^ 31"
    "\<And>h. status_ok (om_get (oc_manager c) h) (in_flight (oc_reqs_being_stored c) h) (in_flight (oc_reqs_being_loaded c) h)"
  shows "oc_inv c"
  using assms unfolding oc_inv_def by blast

definition hash_order :: "('a set \<Rightarrow> 'a list) \<Rightarrow> bool" where
  "hash_order hord \<longleftrightarrow> (\<forall>S. finite S \<longrightarrow> distinct (hord S) \<and> set (hord S) = S)"

section \<open>Completed transfers\<close>

lemma publish_inv:
  assumes inv: "oc_inv c" and m: "om_ok m" "\<forall>x. om_get m x = (if x \<in> S then map_option publish (om_get (oc_manager c) x) else om_get (oc_manager c) x)"
    and S: "\<And>h. h \<in> S \<Longrightarrow> 0 < in_flight (oc_reqs_being_stored c) h"
    and d: "finite_sets d" "\<And>h. in_flight d h = in_flight (oc_reqs_being_stored c) h - (if h \<in> S then 1 else 0)"
  shows "oc_inv (c\<lparr>oc_manager := m, oc_reqs_being_stored := d\<rparr>)"
proof (rule oc_invI; simp)
  note i = oc_invD[OF inv]
  show "om_ok m" "finite_sets d" "finite_sets (oc_reqs_being_loaded c)" using m(1) d(1) i(3) by auto
  show "length (oc_reqs_being_loaded c) < 2147483648" using i(4) by simp
  show "status_ok (om_get m h) (in_flight d h) (in_flight (oc_reqs_being_loaded c) h)" for h
    using i(5)[of h] S[of h] m(2)
    by (auto simp: status_ok_def d(2) publish_def is_ready_def split: option.splits if_splits)
qed

lemma complete_store_step:
  assumes inv: "oc_inv c" and o: "hash_order hord" and S_def: "S = being (oc_reqs_being_stored c) rid"
  shows "\<exists>m. om_complete_store (oc_manager c) (hord S) True = Inr m \<and> om_ok m \<and>
    (\<forall>x. om_get m x = (if x \<in> S then map_option publish (om_get (oc_manager c) x) else om_get (oc_manager c) x))"
proof -
  note i = oc_invD[OF inv]
  have fin: "set (hord S) = S" using o finite_sets_being[OF i(2)] by (simp add: hash_order_def S_def)
  have "om_get (oc_manager c) h \<noteq> None" if "h \<in> set (hord S)" for h
    using i(5)[of h] in_flight_being[of h "oc_reqs_being_stored c" rid] that[unfolded fin] by (auto simp: status_ok_def S_def split: option.splits)
  then have "\<forall>h\<in>set (hord S). om_get (oc_manager c) h \<noteq> None" by blast
  from om.complete_store[OF i(1) this] show ?thesis by (simp add: fin)
qed

lemma finish_sending_ok:
  assumes inv: "oc_inv c" and o: "hash_order hord"
  shows "\<exists>c'. finish_sending hord rid c = Inr c' \<and> oc_inv c'"
proof -
  note i = oc_invD[OF inv]
  let ?S = "being (oc_reqs_being_stored c) rid" and ?d = "AList.delete rid (oc_reqs_being_stored c)"
  have fl: "in_flight ?d h = in_flight (oc_reqs_being_stored c) h - (if h \<in> ?S then 1 else 0)" for h
    using i(2) by (intro in_flight_delete) (simp add: finite_sets_def)
  obtain m where m: "om_complete_store (oc_manager c) (hord ?S) True = Inr m" "om_ok m"
    "\<forall>x. om_get m x = (if x \<in> ?S then map_option publish (om_get (oc_manager c) x) else om_get (oc_manager c) x)"
    using complete_store_step[OF inv o refl, of rid] by blast
  show ?thesis
  proof (cases "?S = {}")
    case True
    then have "oc_inv (c\<lparr>oc_reqs_being_stored := ?d\<rparr>)"
      using publish_inv[OF inv i(1), of "{}" ?d] i(2) fl by simp
    with True show ?thesis by (simp add: finish_sending_def)
  next
    case False
    have "oc_inv (c\<lparr>oc_manager := m, oc_reqs_being_stored := ?d\<rparr>)"
      using i(2) fl in_flight_being by (intro publish_inv[OF inv m(2,3)]) auto
    moreover have "c\<lparr>oc_manager := m, oc_reqs_being_stored := ?d\<rparr> = c\<lparr>oc_reqs_being_stored := ?d, oc_manager := m\<rparr>" by simp
    ultimately show ?thesis using False m(1) by (simp add: finish_sending_def)
  qed
qed

lemma complete_preempted_ok:
  assumes inv: "oc_inv c" and o: "hash_order hord"
  shows "\<exists>c'. complete_preempted hord rid c = Inr c' \<and> oc_inv c'"
proof -
  note i = oc_invD[OF inv]
  let ?S = "being (oc_reqs_being_stored c) rid" and ?d = "AList.update rid {} (oc_reqs_being_stored c)"
  have fl: "in_flight ?d h = in_flight (oc_reqs_being_stored c) h - (if h \<in> ?S then 1 else 0)" for h
    using i(2) by (intro in_flight_clear) (simp add: finite_sets_def)
  obtain m where m: "om_complete_store (oc_manager c) (hord ?S) True = Inr m" "om_ok m"
    "\<forall>x. om_get m x = (if x \<in> ?S then map_option publish (om_get (oc_manager c) x) else om_get (oc_manager c) x)"
    using complete_store_step[OF inv o refl, of rid] by blast
  have "oc_inv (c\<lparr>oc_manager := m, oc_reqs_being_stored := ?d\<rparr>)"
    using i(2) fl in_flight_being by (intro publish_inv[OF inv m(2,3)]) auto
  with m(1) inv show ?thesis by (auto simp: complete_preempted_def Let_def)
qed

lemma finish_recving_ok:
  assumes inv: "oc_inv c" and o: "hash_order hord"
  shows "\<exists>c'. finish_recving hord rid c = Inr c' \<and> oc_inv c'"
proof -
  note i = oc_invD[OF inv]
  let ?S = "being (oc_reqs_being_loaded c) rid" and ?d = "AList.delete rid (oc_reqs_being_loaded c)"
  let ?c = "\<lambda>L m. c\<lparr>oc_reqs_being_loaded := ?d, oc_blocks_being_loaded := L, oc_manager := m\<rparr>"
  have fl: "in_flight ?d h = in_flight (oc_reqs_being_loaded c) h - (if h \<in> ?S then 1 else 0)" for h
    using i(3) by (intro in_flight_delete) (simp add: finite_sets_def)
  have ord: "distinct (hord ?S)" "set (hord ?S) = ?S" using o finite_sets_being[OF i(3)] by (auto simp: hash_order_def)
  have len: "length ?d \<le> length (oc_reqs_being_loaded c)" by (simp add: AList.delete_eq)
  have pos: "0 < in_flight (oc_reqs_being_loaded c) h" if "h \<in> ?S" for h using that by (rule in_flight_being)
  have "unloadable (om_get (oc_manager c)) (hord ?S)"
    unfolding unloadable_def
  proof
    fix h assume "h \<in> set (hord ?S)"
    then have h: "h \<in> ?S" by (simp add: ord)
    from i(5)[of h] pos[OF h] obtain b where b: "om_get (oc_manager c) h = Some b"
      "bs_ref_cnt b = int (in_flight (oc_reqs_being_loaded c) h)"
      by (auto simp: status_ok_def split: option.splits if_splits)
    with pos[OF h] in_flight_le[of "oc_reqs_being_loaded c" h] i(4) ord h
    show "\<exists>b. om_get (oc_manager c) h = Some b \<and> int (count_list (hord ?S) h) \<le> bs_ref_cnt b \<and> bs_ref_cnt b < 2 ^ 31"
      by (simp add: count_list_distinct)
  qed
  from om.complete_load[OF i(1) this] obtain m where m: "om_complete_load (oc_manager c) (hord ?S) = Inr m" "om_ok m"
    "\<forall>x. om_get m x = map_option (bump (- int (count_list (hord ?S) x))) (om_get (oc_manager c) x)" by blast
  have st: "status_ok (om_get m h) (in_flight (oc_reqs_being_stored c) h) (in_flight ?d h)" for h
    using i(5)[of h] pos[of h] ord
    by (auto simp: status_ok_def fl m(3) count_list_distinct split: option.splits if_splits)
  have "oc_inv (?c L m)" for L
    using m(2) i(2-4) st len by (intro oc_invI) (auto simp del: One_nat_def)
  moreover have "oc_inv (c\<lparr>oc_reqs_being_loaded := ?d\<rparr>)" if "?S = {}"
    using that i fl len by (intro oc_invI) auto
  ultimately show ?thesis using m(1) by (auto simp: finish_recving_def Let_def)
qed

text \<open>Completing transfers never raises, whatever the workers report.\<close>

lemma update_connector_output_ok:
  assumes "oc_inv c" "hash_order hord"
  shows "\<exists>c'. oc_update_connector_output hord out c = Inr c' \<and> oc_inv c'"
proof -
  obtain c1 where 1: "mfold (finish_sending hord) (finished_sending out) c = Inr c1" "oc_inv c1"
    using mfold_rule[where I = "\<lambda>_. oc_inv" and f = "finish_sending hord" and xs = "finished_sending out" and s = c]
      finish_sending_ok assms by blast
  obtain c2 where 2: "mfold (finish_recving hord) (finished_recving out) c1 = Inr c2" "oc_inv c2"
    using mfold_rule[where I = "\<lambda>_. oc_inv" and f = "finish_recving hord" and xs = "finished_recving out" and s = c1]
      finish_recving_ok assms(2) 1(2) by blast
  show ?thesis using 1(1) 2 by (simp add: oc_update_connector_output_def)
qed

lemma complete_preempted_all:
  assumes "oc_inv c" "hash_order hord"
  shows "\<exists>c'. mfold (complete_preempted hord) ids c = Inr c' \<and> oc_inv c'"
  using mfold_rule[where I = "\<lambda>_. oc_inv" and f = "complete_preempted hord" and xs = ids and s = c]
    complete_preempted_ok assms by blast

section \<open>New transfers\<close>

lemma islice_distinct: "\<lbrakk>islice xs a b s = Inr ys; distinct xs\<rbrakk> \<Longrightarrow> distinct ys"
  by (auto simp: islice_def distinct_map inj_on_def nth_eq_iff_index_eq split: if_splits option.splits)

lemma get_block_hashes_distinct: "\<lbrakk>get_block_hashes c req i j = Inr hs; distinct (block_hashes req)\<rbrakk> \<Longrightarrow> distinct hs"
  by (auto simp: get_block_hashes_def Let_def intro: islice_distinct)

text \<open>The hashes from any offloaded block on are among those from the first one on.\<close>

lemma get_block_hashes_subset:
  assumes "get_block_hashes c req i j = Inr hs" "get_block_hashes c req 0 j = Inr hs0"
  shows "set hs \<subseteq> set hs0"
proof -
  define f where "f = oc_block_size_factor c"
  have f: "1 \<le> f" "0 \<le> f * i + f - 1" using assms(1) by (auto simp: get_block_hashes_def islice_def Let_def f_def split: if_splits)
  have "0 \<le> i"
  proof (rule ccontr)
    assume "\<not> 0 \<le> i"
    then have "i \<le> - 1" by simp
    then have "f * i \<le> f * - 1" using f(1) by (intro mult_left_mono) auto
    with f(2) show False by simp
  qed
  then obtain I F where I: "i = int I" "f = int F" "1 \<le> F" using f(1) by (metis int_ops(2) nonneg_int_cases of_nat_le_iff order_trans zero_le_one)
  have n: "nat (f * i + f - 1) = F * I + (F - 1)" "nat (f - 1) = F - 1" "nat f = F"
  proof -
    have "f * i + f - 1 = int (F * I + (F - 1))" using I by (simp add: of_nat_diff)
    then show "nat (f * i + f - 1) = F * I + (F - 1)" by (simp only: nat_int)
  qed (use I in \<open>simp_all add: nat_diff_distrib\<close>)
  have "F - 1 \<le> k \<and> (k - (F - 1)) mod F = 0" if k: "F * I + (F - 1) \<le> k" "(k - (F * I + (F - 1))) mod F = 0" for k
  proof -
    have "k - (F - 1) = (k - (F * I + (F - 1))) + F * I" using k(1) by simp
    then have "(k - (F - 1)) mod F = 0" using k(2) by (metis mod_mult_self2)
    then show ?thesis using k(1) by simp
  qed
  then show ?thesis
    using assms by (auto simp: get_block_hashes_def islice_def Let_def f_def[symmetric] n split: if_splits)
qed

text \<open>A prepared store, before and after the new hashes are recorded.\<close>

lemma store_prepared_status:
  assumes inv: "oc_inv c" and sp: "store_prepared (om_get (oc_manager c)) hs so (om_get m)"
    and d: "\<And>h. in_flight d h = in_flight (oc_reqs_being_stored c) h + (if h \<in> set (block_hashes_to_store so) then 1 else 0)"
  shows "status_ok (om_get m h) (in_flight d h) (in_flight (oc_reqs_being_loaded c) h)"
proof (cases "h \<in> set (block_hashes_to_store so)")
  case True
  then obtain k where k: "k < length (block_hashes_to_store so)" "block_hashes_to_store so ! k = h"
    by (auto simp: in_set_conv_nth)
  have "om_get (oc_manager c) h = None" using True sp by (simp add: store_prepared_def)
  moreover have "om_get m h = Some \<lparr>bs_ref_cnt = - 1, bs_block_id = ls_block_ids (store_spec so) ! k\<rparr>"
    using sp k unfolding store_prepared_def by blast
  ultimately show ?thesis using oc_invD(5)[OF inv, of h] True by (simp add: status_ok_def d)
next
  case False
  then have g: "om_get m h = (if h \<in> set (block_hashes_evicted so) then None else om_get (oc_manager c) h)"
    using sp unfolding store_prepared_def by blast
  have "\<exists>b. om_get (oc_manager c) h = Some b \<and> bs_ref_cnt b = 0" if "h \<in> set (block_hashes_evicted so)"
    using sp that unfolding store_prepared_def by blast
  then show ?thesis using oc_invD(5)[OF inv, of h] False by (auto simp: status_ok_def d g split: option.splits if_splits)
qed

lemma refused_status:
  assumes inv: "oc_inv c" and r: "\<forall>h. om_get m h = om_get (oc_manager c) h \<or>
      om_get m h = None \<and> (\<exists>b. om_get (oc_manager c) h = Some b \<and> bs_ref_cnt b = 0)"
  shows "status_ok (om_get m h) (in_flight (oc_reqs_being_stored c) h) (in_flight (oc_reqs_being_loaded c) h)"
  using r[rule_format, of h] oc_invD(5)[OF inv, of h] by (auto simp: status_ok_def split: option.splits if_splits)

lemma oc_inv_frame:
  "oc_inv (oc_requests_update a c) = oc_inv c" "oc_inv (oc_request_block_ids_update b c) = oc_inv c"
  "oc_inv (oc_reqs_to_load_update e c) = oc_inv c" "oc_inv (oc_next_stored_block_idx_update g c) = oc_inv c"
  "oc_inv (oc_blocks_being_loaded_update i c) = oc_inv c"
  by (simp_all add: oc_inv_def)

lemma track_blocks_inv: "\<lbrakk>track_blocks rid groups pre c = Inr c'; oc_inv c\<rbrakk> \<Longrightarrow> oc_inv c'"
  by (auto simp: track_blocks_def Let_def rbind_Inr_iff oc_inv_frame split: option.splits list.splits if_splits)

text \<open>What storing the blocks of one request does, by the answer of the manager.\<close>

definition store_outcome :: "(rat \<Rightarrow> rat) \<Rightarrow> string \<Rightarrow> OffloadingConnectorScheduler \<Rightarrow> bytes list \<Rightarrow> PrepareStoreOutput option \<Rightarrow> OffloadingManager \<Rightarrow> OffloadingConnectorScheduler \<Rightarrow> bool" where
  "store_outcome rnd rid c1 hs r m c' \<longleftrightarrow>
     (case r of None \<Rightarrow> c' = c1\<lparr>oc_manager := m\<rparr>
      | Some so \<Rightarrow> \<exists>n. if block_hashes_to_store so = [] then c' = c1\<lparr>oc_manager := m, oc_next_stored_block_idx := n\<rparr>
           else \<exists>hs2 m2. set hs \<subseteq> set hs2 \<and> om_touch rnd m hs2 = Inr m2 \<and> c' = c1\<lparr>oc_next_stored_block_idx := n, oc_manager := m2,
             oc_reqs_being_stored := AList.update rid (being (oc_reqs_being_stored c1) rid \<union> set (block_hashes_to_store so))
               (oc_reqs_being_stored c1)\<rparr>)"

lemma get_block_hashes_frame:
  "get_block_hashes (oc_manager_update f c) = get_block_hashes c" "get_block_hashes (oc_next_stored_block_idx_update g c) = get_block_hashes c"
  by (simp_all add: get_block_hashes_def fun_eq_iff)

lemma store_request_cases:
  assumes "store_request rnd heap out (rid, groups, pre) (acc, c) = Inr (acc', c')"
  obtains (skip) "track_blocks rid groups pre c = Inr c'"
  | (store) c1 x i j hs r m where "track_blocks rid groups pre c = Inr c1" "get_block_hashes c1 (heap x) i j = Inr hs"
      "om_prepare_store (oc_manager c1) hs = Inr (r, m)"
      "store_outcome rnd rid c1 hs r m c'"
proof -
  from assms obtain c1 ids x tok nb where c1: "track_blocks rid groups pre c = Inr c1" "dict_item (oc_request_block_ids c1) rid = Inr ids"
    "dict_item (oc_requests c1) rid = Inr x" "dict_item (out_num_scheduled_tokens out) rid = Inr tok"
    "py_floordiv (num_computed_tokens (heap x) + tok) (oc_offloaded_block_size c1) = Inr nb"
    by (auto simp: store_request_def rbind_Inr_iff)
  define st where "st = (case map_of (oc_next_stored_block_idx c1) rid of None \<Rightarrow> 0 | Some i \<Rightarrow> i)"
  show thesis
  proof (cases "nb - st \<le> 0")
    case True
    with assms c1 show thesis by (intro skip) (simp add: store_request_def Let_def st_def[symmetric])
  next
    case False
    with assms c1 obtain hs r m where
      h: "get_block_hashes c1 (heap x) st (Some nb) = Inr hs" "om_prepare_store (oc_manager c1) hs = Inr (r, m)"
      by (auto simp: store_request_def rbind_Inr_iff Let_def st_def[symmetric])
    have sub: "get_block_hashes c1 (heap x) 0 (Some nb) = Inr hs0 \<Longrightarrow> set hs \<subseteq> set hs0" for hs0
      by (rule get_block_hashes_subset[OF h(1)])
    have "store_outcome rnd rid c1 hs r m c'"
      using assms c1 h False
      by (cases r) (auto simp: store_request_def store_outcome_def rbind_Inr_iff Let_def st_def[symmetric] get_block_hashes_frame dest!: sub split: if_splits)
    with c1(1) h show thesis by (rule store)
  qed
qed

lemma store_request_inv:
  assumes "store_request rnd heap out (rid, groups, pre) (acc, c) = Inr (acc', c')" "oc_inv c"
    and hashes: "\<And>x. distinct (block_hashes (heap x))"
  shows "oc_inv c'"
  using assms(1)
proof (cases rule: store_request_cases)
  case skip
  then show ?thesis using assms(2) by (rule track_blocks_inv)
next
  case (store c1 x i j hs r m)
  have inv: "oc_inv c1" by (rule track_blocks_inv[OF store(1) assms(2)])
  note v = oc_invD[OF inv]
  have dist: "distinct hs" by (rule get_block_hashes_distinct[OF store(2) hashes])
  from om.prepare_store[OF v(1) dist] store(3) have ok: "om_ok m" and
    r: "case r of Some so \<Rightarrow> store_prepared (om_get (oc_manager c1)) hs so (om_get m)
      | None \<Rightarrow> \<forall>h. om_get m h = om_get (oc_manager c1) h \<or> om_get m h = None \<and> (\<exists>b. om_get (oc_manager c1) h = Some b \<and> bs_ref_cnt b = 0)"
    by auto
  show ?thesis
  proof (cases r)
    case None
    then have "c' = c1\<lparr>oc_manager := m\<rparr>" using store(4) by (simp add: store_outcome_def)
    then show ?thesis using refused_status[OF inv, of m] r None ok v by (intro oc_invI) auto
  next
    case (Some so)
    then have sp: "store_prepared (om_get (oc_manager c1)) hs so (om_get m)" using r by simp
    let ?d = "AList.update rid (being (oc_reqs_being_stored c1) rid \<union> set (block_hashes_to_store so)) (oc_reqs_being_stored c1)"
    have z: "in_flight (oc_reqs_being_stored c1) h = 0" if "h \<in> set (block_hashes_to_store so)" for h
      using sp that v(5)[of h] by (auto simp: store_prepared_def status_ok_def)
    have fl: "in_flight ?d h = in_flight (oc_reqs_being_stored c1) h + (if h \<in> set (block_hashes_to_store so) then 1 else 0)" for h
      using v(2) z by (intro in_flight_add) (auto simp: finite_sets_def)
    show ?thesis
    proof (cases "block_hashes_to_store so = []")
      case True
      then obtain n where "c' = c1\<lparr>oc_manager := m, oc_next_stored_block_idx := n\<rparr>" using store(4) Some by (auto simp: store_outcome_def)
      then show ?thesis using store_prepared_status[OF inv sp, of "oc_reqs_being_stored c1"] True ok v by (intro oc_invI) auto
    next
      case False
      then obtain n hs2 m2 where "om_touch rnd m hs2 = Inr m2"
        and c': "c' = c1\<lparr>oc_next_stored_block_idx := n, oc_manager := m2, oc_reqs_being_stored := ?d\<rparr>"
        using store(4) Some by (auto simp: store_outcome_def)
      then have m2: "om_ok m2" "om_get m2 = om_get m" using om_touch_keeps[OF ok] by auto
      have "finite_sets ?d" using v(2) finite_sets_being[OF v(2)] by simp
      with m2 v store_prepared_status[OF inv sp fl] show ?thesis unfolding c' by (intro oc_invI) auto
    qed
  qed
qed

lemma om_prepare_load_ready:
  "\<lbrakk>om_prepare_load m hs = Inr (spec, m'); distinct hs; h \<in> set hs\<rbrakk> \<Longrightarrow> ready_in (om_get m) h"
  by (cases m) (auto simp: lru_prepare_load_def arc_prepare_load_def rbind_Inr_iff dest: lru.load_ready arc.load_ready)

lemma update_state_after_alloc_inv:
  assumes "oc_update_state_after_alloc x request blocks n c = Inr c'" "oc_inv c" "distinct (block_hashes request)"
    and idle: "being (oc_reqs_being_loaded c) (request_id request) = {}" "int (length (oc_reqs_being_loaded c)) + 1 < 2 ^ 31"
  shows "oc_inv c'"
proof (cases "n = 0")
  case True
  then show ?thesis using assms(1,2) by (auto simp: oc_update_state_after_alloc_def Let_def oc_inv_frame)
next
  case False
  let ?rid = "request_id request"
  from False assms(1) obtain hs spec m i j c1 L t nx where
    h: "get_block_hashes c1 request i j = Inr hs" "om_prepare_load (oc_manager c) hs = Inr (spec, m)"
    and c': "c' = c1\<lparr>oc_manager := m, oc_reqs_to_load := t,
       oc_reqs_being_loaded := AList.update ?rid (set hs) (oc_reqs_being_loaded c),
       oc_next_stored_block_idx := nx, oc_blocks_being_loaded := L\<rparr>"
    and c1: "oc_reqs_being_stored c1 = oc_reqs_being_stored c"
    by (auto simp: oc_update_state_after_alloc_def Let_def rbind_Inr_iff idle(1))
  note v = oc_invD[OF assms(2)]
  let ?d = "AList.update ?rid (set hs) (oc_reqs_being_loaded c)"
  have dist: "distinct hs" by (rule get_block_hashes_distinct[OF h(1) assms(3)])
  have rd: "ready_in (om_get (oc_manager c)) k" if "k \<in> set hs" for k by (rule om_prepare_load_ready[OF h(2) dist that])
  have "loadable (om_get (oc_manager c)) hs"
    unfolding loadable_def
  proof
    fix k assume k: "k \<in> set hs"
    from rd[OF k] obtain b where b: "om_get (oc_manager c) k = Some b" "is_ready b" by (auto simp: ready_in_def split: option.splits)
    with v(5)[of k] have "bs_ref_cnt b = int (in_flight (oc_reqs_being_loaded c) k)"
      by (auto simp: status_ok_def is_ready_def split: if_splits)
    with b in_flight_le[of "oc_reqs_being_loaded c" k] idle(2) k
    show "\<exists>b. om_get (oc_manager c) k = Some b \<and> is_ready b \<and> bs_ref_cnt b + int (count_list hs k) < 2 ^ 31"
      by (simp add: count_list_distinct[OF dist])
  qed
  from om.prepare_load[OF v(1) this] h(2) have m: "om_ok m"
    "\<forall>x. om_get m x = map_option (bump (int (count_list hs x))) (om_get (oc_manager c) x)" by auto
  have fl: "in_flight ?d k = in_flight (oc_reqs_being_loaded c) k + (if k \<in> set hs then 1 else 0)" for k
    by (rule in_flight_update[OF idle(1)])
  have "status_ok (om_get m k) (in_flight (oc_reqs_being_stored c) k) (in_flight ?d k)" for k
    using v(5)[of k] rd[of k]
    by (auto simp: status_ok_def fl m(2) count_list_distinct[OF dist] ready_in_def is_ready_def split: option.splits if_splits)
  moreover have "length ?d \<le> Suc (length (oc_reqs_being_loaded c))"
    by (rule length_update_le)
  ultimately show ?thesis unfolding c' using m(1) v(2,3) idle(2) c1 by (intro oc_invI) auto
qed

end
