(* ===== verification/Offload_Worker.thy ===== *)
theory Offload_Worker
  imports Offload_Transfer Offload_Safety
begin

text \<open>
  The worker side of offloading: the queue of transfers of a handler (\<^verbatim>\<open>v1/kv_offload/worker/cpu_gpu.py\<close>),
  the dispatch to handlers (\<^verbatim>\<open>v1/kv_offload/worker/worker.py\<close>) and the jobs of the connector
  (\<^verbatim>\<open>OffloadingConnectorWorker\<close> of \<^verbatim>\<open>distributed/kv_transfer/kv_connector/v1/offloading_connector.py\<close>).
  What is handed to the device is recorded as a list of commands; whether an event has completed is an
  answer of the device (\<open>query\<close>).
\<close>

section \<open>The transfers of a handler\<close>

text \<open>
  What a transfer does on the device: wait for the computation and for the previous transfer, copy the
  blocks of every tensor (source, destination, block size, mapping), record the event.
\<close>

record TransferCommand =
  tc_stream :: nat
  tc_wait_current_stream :: bool
  tc_wait_event :: "nat option"
  tc_swap_blocks :: "(Tensor \<times> Tensor \<times> int \<times> (int \<times> int) list) list"
  tc_record_event :: nat

text \<open>\<^verbatim>\<open>pool.pop() if pool else new()\<close>: the object, the rest of the pool, the objects created.\<close>

definition pop_or_new :: "nat list \<Rightarrow> nat \<Rightarrow> nat \<times> nat list \<times> nat" where
  "pop_or_new pool n = (if pool = [] then (n, [], n + 1) else (last pool, butlast pool, n))"

definition sd_transfer_async ::
  "(nat \<Rightarrow> int) \<Rightarrow> int \<Rightarrow> TransferSpec \<Rightarrow> SingleDirectionOffloadingHandler \<Rightarrow>
   (TransferCommand \<times> SingleDirectionOffloadingHandler) result" where
  "sd_transfer_async uninit job_id = (\<lambda>(src_spec, dst_spec) h.
     rbind (src_to_dst uninit h src_spec dst_spec) (\<lambda>mapping.
     let (stream, stream_pool, num_streams) = pop_or_new (sd_stream_pool h) (sd_num_streams h);
         (event, event_pool, num_events) = pop_or_new (sd_event_pool h) (sd_num_events h)
     in Inr (\<lparr>tc_stream = stream, tc_wait_current_stream = sd_gpu_to_cpu h,
              tc_wait_event = (if sd_transfers h = [] then None else Some (snd (snd (last (sd_transfers h))))),
              tc_swap_blocks = map (\<lambda>(s, d, b). (s, d, b, mapping)) (zip (sd_src_tensors h) (zip (sd_dst_tensors h) (sd_block_size_in_bytes h))),
              tc_record_event = event\<rparr>,
             h\<lparr>sd_stream_pool := stream_pool, sd_num_streams := num_streams, sd_event_pool := event_pool, sd_num_events := num_events,
               sd_transfer_events := AList.update job_id event (sd_transfer_events h),
               sd_transfers := sd_transfers h @ [(job_id, stream, event)]\<rparr>)))"

fun finished_loop ::
  "(nat \<Rightarrow> bool) \<Rightarrow> (int \<times> nat \<times> nat) list \<Rightarrow> (int \<times> bool) list \<Rightarrow> SingleDirectionOffloadingHandler \<Rightarrow>
   ((int \<times> bool) list \<times> SingleDirectionOffloadingHandler) result" where
  "finished_loop query [] results h = Inr (results, h\<lparr>sd_transfers := []\<rparr>)"
| "finished_loop query ((job_id, stream, event) # transfers) results h =
     (if query event
      then if map_of (sd_transfer_events h) job_id = None then Inl KeyError
           else finished_loop query transfers (results @ [(job_id, True)])
             (h\<lparr>sd_stream_pool := sd_stream_pool h @ [stream], sd_event_pool := sd_event_pool h @ [event],
                sd_transfer_events := AList.delete job_id (sd_transfer_events h)\<rparr>)
      else Inr (results, h\<lparr>sd_transfers := (job_id, stream, event) # transfers\<rparr>))"

definition sd_get_finished ::
  "(nat \<Rightarrow> bool) \<Rightarrow> SingleDirectionOffloadingHandler \<Rightarrow> ((int \<times> bool) list \<times> SingleDirectionOffloadingHandler) result" where
  "sd_get_finished query h = finished_loop query (sd_transfers h) [] h"

text \<open>The events that \<^verbatim>\<open>wait\<close> synchronises with.\<close>

definition sd_wait :: "int set \<Rightarrow> SingleDirectionOffloadingHandler \<Rightarrow> nat set" where
  "sd_wait job_ids h = (\<Union>j\<in>job_ids. case map_of (sd_transfer_events h) j of None \<Rightarrow> {} | Some event \<Rightarrow> {event})"

section \<open>Dispatch to handlers\<close>

text \<open>Handlers are objects at addresses; \<open>hord\<close> is the iteration order of the set of handlers.\<close>

record OffloadingWorker =
  ow_handlers :: "nat set"
  ow_transfer_type_to_handler :: "(string \<times> string, nat) dict"
  ow_heap :: "nat \<Rightarrow> SingleDirectionOffloadingHandler"
  ow_commands :: "(nat \<times> TransferCommand) list"

definition ow_register_handler :: "string \<Rightarrow> string \<Rightarrow> nat \<Rightarrow> OffloadingWorker \<Rightarrow> OffloadingWorker result" where
  "ow_register_handler src_medium dst_medium handler w =
     py_assert (map_of (ow_transfer_type_to_handler w) (src_medium, dst_medium) = None)
       (Inr (w\<lparr>ow_handlers := insert handler (ow_handlers w),
               ow_transfer_type_to_handler := AList.update (src_medium, dst_medium) handler (ow_transfer_type_to_handler w)\<rparr>))"

text \<open>An exception of the handler is logged and reported as failure.\<close>

definition ow_transfer_async :: "(nat \<Rightarrow> int) \<Rightarrow> int \<Rightarrow> TransferSpec \<Rightarrow> OffloadingWorker \<Rightarrow> (bool \<times> OffloadingWorker) result" where
  "ow_transfer_async uninit job_id spec w =
     (case map_of (ow_transfer_type_to_handler w) (ls_medium (fst spec), ls_medium (snd spec)) of
        None \<Rightarrow> Inl AssertionError
      | Some a \<Rightarrow>
          (case sd_transfer_async uninit job_id spec (ow_heap w a) of
             Inl _ \<Rightarrow> Inr (False, w)
           | Inr (command, h) \<Rightarrow>
               Inr (True, w\<lparr>ow_heap := (ow_heap w)(a := h), ow_commands := ow_commands w @ [(a, command)]\<rparr>)))"

definition collect_transfers ::
  "(nat \<Rightarrow> nat \<Rightarrow> bool) \<Rightarrow> nat \<Rightarrow> (int \<times> bool) list \<times> OffloadingWorker \<Rightarrow> ((int \<times> bool) list \<times> OffloadingWorker) result" where
  "collect_transfers query a = (\<lambda>(finished, w).
     rbind (sd_get_finished (query a) (ow_heap w a)) (\<lambda>(results, h).
     Inr (finished @ results, w\<lparr>ow_heap := (ow_heap w)(a := h)\<rparr>)))"

definition ow_get_finished ::
  "(nat set \<Rightarrow> nat list) \<Rightarrow> (nat \<Rightarrow> nat \<Rightarrow> bool) \<Rightarrow> OffloadingWorker \<Rightarrow> ((int \<times> bool) list \<times> OffloadingWorker) result" where
  "ow_get_finished hord query w = mfold (collect_transfers query) (hord (ow_handlers w)) ([], w)"

definition ow_wait :: "int set \<Rightarrow> OffloadingWorker \<Rightarrow> (nat \<times> nat) set" where
  "ow_wait job_ids w = (\<Union>a\<in>ow_handlers w. Pair a ` sd_wait job_ids (ow_heap w a))"

section \<open>The jobs of the connector\<close>

record OffloadingConnectorWorker =
  cw_handlers_created :: bool
  cw_worker :: OffloadingWorker
  cw_job_counter :: int
  cw_jobs :: "(int, string \<times> bool) dict"
  cw_load_job :: "(string, int) dict"
  cw_store_jobs :: "(string, int set) dict"
  cw_unsubmitted_store_jobs :: "(int \<times> TransferSpec) list"
  cw_finished_reqs_waiting_for_store :: "string set"

definition OffloadingConnectorWorker_init :: "(nat \<Rightarrow> SingleDirectionOffloadingHandler) \<Rightarrow> OffloadingConnectorWorker" where
  "OffloadingConnectorWorker_init heap =
     \<lparr>cw_handlers_created = False,
      cw_worker = \<lparr>ow_handlers = {}, ow_transfer_type_to_handler = [], ow_heap = heap, ow_commands = []\<rparr>,
      cw_job_counter = 0, cw_jobs = [], cw_load_job = [], cw_store_jobs = [], cw_unsubmitted_store_jobs = [],
      cw_finished_reqs_waiting_for_store = {}\<rparr>"

text \<open>\<^verbatim>\<open>get_handlers\<close> of the CPU specification creates the two handlers once, at the addresses 0 and 1.\<close>

definition get_handlers ::
  "(Tensor \<Rightarrow> bool \<Rightarrow> int \<Rightarrow> Tensor list \<times> Tensor list) \<Rightarrow> bool \<Rightarrow> CPUOffloadingSpec \<Rightarrow> (string, Tensor) dict \<Rightarrow>
   (string, AttentionBackend) dict \<Rightarrow> OffloadingConnectorWorker \<Rightarrow> OffloadingConnectorWorker result" where
  "get_handlers allocate is_cuda_alike spec kv_caches attn_backends c =
     (if cw_handlers_created c then Inr c
      else if \<not> is_cuda_alike then Inl PyException
      else rbind (CpuGpuOffloadingHandlers_init allocate (os_gpu_block_size spec) (os_offloaded_block_size spec) (os_num_blocks spec)
                    kv_caches attn_backends) (\<lambda>(gpu_to_cpu, cpu_to_gpu).
        Inr (c\<lparr>cw_handlers_created := True,
               cw_worker := (cw_worker c)\<lparr>ow_heap := (ow_heap (cw_worker c))(0 := gpu_to_cpu, 1 := cpu_to_gpu)\<rparr>\<rparr>)))"

definition cw_register_handlers ::
  "(Tensor \<Rightarrow> bool \<Rightarrow> int \<Rightarrow> Tensor list \<times> Tensor list) \<Rightarrow> bool \<Rightarrow> CPUOffloadingSpec \<Rightarrow> (string, Tensor) dict \<Rightarrow>
   (string, AttentionBackend) dict \<Rightarrow> OffloadingConnectorWorker \<Rightarrow> OffloadingConnectorWorker result" where
  "cw_register_handlers allocate is_cuda_alike spec kv_caches attn_backends c =
     rbind (get_handlers allocate is_cuda_alike spec kv_caches attn_backends c) (\<lambda>c.
     rbind (ow_register_handler GPU_medium CPU_medium 0 (cw_worker c)) (\<lambda>w.
     rbind (ow_register_handler CPU_medium GPU_medium 1 w) (\<lambda>w. Inr (c\<lparr>cw_worker := w\<rparr>))))"

definition submit_job :: "(nat \<Rightarrow> int) \<Rightarrow> int \<times> TransferSpec \<Rightarrow> OffloadingConnectorWorker \<Rightarrow> OffloadingConnectorWorker result" where
  "submit_job uninit = (\<lambda>(job_id, transfer_spec) c.
     rbind (ow_transfer_async uninit job_id transfer_spec (cw_worker c)) (\<lambda>(success, w).
     py_assert success (Inr (c\<lparr>cw_worker := w\<rparr>))))"

definition submit_stores :: "(nat \<Rightarrow> int) \<Rightarrow> OffloadingConnectorWorker \<Rightarrow> OffloadingConnectorWorker result" where
  "submit_stores uninit c =
     rbind (mfold (submit_job uninit) (cw_unsubmitted_store_jobs c) c) (\<lambda>c. Inr (c\<lparr>cw_unsubmitted_store_jobs := []\<rparr>))"

definition store_jobs_of :: "OffloadingConnectorWorker \<Rightarrow> string \<Rightarrow> int set" where
  "store_jobs_of c req_id = (case map_of (cw_store_jobs c) req_id of None \<Rightarrow> {} | Some job_ids \<Rightarrow> job_ids)"

text \<open>The events that the worker waits for, and the state after submitting the deferred stores.\<close>

definition cw_handle_preemptions ::
  "(nat \<Rightarrow> int) \<Rightarrow> string set \<Rightarrow> OffloadingConnectorWorker \<Rightarrow> ((nat \<times> nat) set \<times> OffloadingConnectorWorker) result" where
  "cw_handle_preemptions uninit preempted_req_ids c =
     rbind (submit_stores uninit c) (\<lambda>c.
     Inr (\<Union>req_id\<in>preempted_req_ids. ow_wait (store_jobs_of c req_id) (cw_worker c), c))"

definition start_load :: "(nat \<Rightarrow> int) \<Rightarrow> string \<times> TransferSpec \<Rightarrow> OffloadingConnectorWorker \<Rightarrow> OffloadingConnectorWorker result" where
  "start_load uninit = (\<lambda>(req_id, transfer_spec) c.
     let job_id = cw_job_counter c;
         c = c\<lparr>cw_job_counter := job_id + 1, cw_jobs := AList.update job_id (req_id, False) (cw_jobs c)\<rparr>
     in py_assert (map_of (cw_load_job c) req_id = None)
          (submit_job uninit (job_id, transfer_spec) (c\<lparr>cw_load_job := AList.update req_id job_id (cw_load_job c)\<rparr>)))"

definition cw_start_kv_transfers ::
  "(nat \<Rightarrow> int) \<Rightarrow> OffloadingConnectorMetadata \<Rightarrow> OffloadingConnectorWorker \<Rightarrow> OffloadingConnectorWorker result" where
  "cw_start_kv_transfers uninit metadata c =
     rbind (submit_stores uninit c) (\<lambda>c. mfold (start_load uninit) (ocm_reqs_to_load metadata) c)"

definition prepare_store :: "string \<times> TransferSpec \<Rightarrow> OffloadingConnectorWorker \<Rightarrow> OffloadingConnectorWorker" where
  "prepare_store = (\<lambda>(req_id, transfer_spec) c.
     let job_id = cw_job_counter c
     in c\<lparr>cw_job_counter := job_id + 1, cw_jobs := AList.update job_id (req_id, True) (cw_jobs c),
          cw_store_jobs := AList.update req_id (insert job_id (store_jobs_of c req_id)) (cw_store_jobs c),
          cw_unsubmitted_store_jobs := cw_unsubmitted_store_jobs c @ [(job_id, transfer_spec)]\<rparr>)"

definition cw_prepare_store_kv :: "OffloadingConnectorMetadata \<Rightarrow> OffloadingConnectorWorker \<Rightarrow> OffloadingConnectorWorker" where
  "cw_prepare_store_kv metadata c = fold prepare_store (ocm_reqs_to_store metadata) c"

definition finish_job ::
  "int \<times> bool \<Rightarrow> string set \<times> string set \<times> OffloadingConnectorWorker \<Rightarrow> (string set \<times> string set \<times> OffloadingConnectorWorker) result" where
  "finish_job = (\<lambda>(job_id, success) (sending, recving, c).
     py_assert success
       (rbind (dict_item (cw_jobs c) job_id) (\<lambda>(req_id, store).
        let c = c\<lparr>cw_jobs := AList.delete job_id (cw_jobs c)\<rparr>; req_jobs = store_jobs_of c req_id - {job_id} in
        if store
        then if job_id \<notin> store_jobs_of c req_id then Inl KeyError
             else
               let c = c\<lparr>cw_store_jobs := AList.update req_id req_jobs (cw_store_jobs c)\<rparr> in
               if req_jobs \<noteq> {} then Inr (sending, recving, c)
               else if req_id \<in> cw_finished_reqs_waiting_for_store c
               then Inr (insert req_id sending, recving,
                      c\<lparr>cw_finished_reqs_waiting_for_store := cw_finished_reqs_waiting_for_store c - {req_id},
                        cw_store_jobs := AList.delete req_id (cw_store_jobs c)\<rparr>)
               else Inr (sending, recving, c)
        else rbind (dict_item (cw_load_job c) req_id) (\<lambda>req_job.
          py_assert (job_id = req_job)
            (Inr (sending, insert req_id recving, c\<lparr>cw_load_job := AList.delete req_id (cw_load_job c)\<rparr>))))))"

definition finish_request :: "string \<Rightarrow> string set \<times> OffloadingConnectorWorker \<Rightarrow> string set \<times> OffloadingConnectorWorker" where
  "finish_request req_id = (\<lambda>(sending, c).
     case map_of (cw_store_jobs c) req_id of
       None \<Rightarrow> (sending, c)
     | Some pending_req_jobs \<Rightarrow>
         if pending_req_jobs \<noteq> {}
         then (sending, c\<lparr>cw_finished_reqs_waiting_for_store := insert req_id (cw_finished_reqs_waiting_for_store c)\<rparr>)
         else (insert req_id sending, c\<lparr>cw_store_jobs := AList.delete req_id (cw_store_jobs c)\<rparr>))"

definition cw_get_finished ::
  "(nat set \<Rightarrow> nat list) \<Rightarrow> (nat \<Rightarrow> nat \<Rightarrow> bool) \<Rightarrow> string list \<Rightarrow> OffloadingConnectorWorker \<Rightarrow>
   ((string set \<times> string set) \<times> OffloadingConnectorWorker) result" where
  "cw_get_finished hord query fin_req_ids c =
     rbind (ow_get_finished hord query (cw_worker c)) (\<lambda>(finished, w).
     rbind (mfold finish_job finished ({}, {}, c\<lparr>cw_worker := w\<rparr>)) (\<lambda>(sending, recving, c).
     let (sending, c) = fold finish_request fin_req_ids (sending, c) in Inr ((sending, recving), c)))"

end
