(* ===== verification/Offload_Jobs.thy ===== *)
theory Offload_Jobs
  imports Offload_Worker
begin

text \<open>
  The jobs of the worker: every job is in exactly one queue, the tables of the connector agree with the
  queues, and a handler's events tell its pending transfers apart. Collecting finished transfers
  therefore never fails and reports a request exactly when its last transfer has completed.
\<close>

section \<open>The queue of a handler\<close>

definition pending_jobs :: "SingleDirectionOffloadingHandler \<Rightarrow> int list" where
  "pending_jobs h = map fst (sd_transfers h)"

text \<open>The events in use and in the pool are distinct objects, and the table of events lists the queue.\<close>

definition handler_ok :: "SingleDirectionOffloadingHandler \<Rightarrow> bool" where
  "handler_ok h \<longleftrightarrow>
     distinct (pending_jobs h) \<and>
     (\<forall>j. map_of (sd_transfer_events h) j = map_of (map (\<lambda>(j, s, e). (j, e)) (sd_transfers h)) j) \<and>
     distinct (map (\<lambda>(j, s, e). e) (sd_transfers h) @ sd_event_pool h) \<and>
     (\<forall>e \<in> set (map (\<lambda>(j, s, e). e) (sd_transfers h) @ sd_event_pool h). e < sd_num_events h)"

lemma handler_init_ok:
  "SingleDirectionOffloadingHandler_init ss ds f g = Inr h \<Longrightarrow> handler_ok h \<and> pending_jobs h = []"
  by (auto simp: SingleDirectionOffloadingHandler_init_def rbind_Inr_iff Let_def handler_ok_def pending_jobs_def)

lemma pop_or_new_ok:
  assumes "pop_or_new pool n = (e, pool', n')" "distinct (es @ pool)" "\<forall>x\<in>set (es @ pool). x < n"
  shows "distinct ((es @ [e]) @ pool') \<and> (\<forall>x\<in>set ((es @ [e]) @ pool'). x < n')"
proof (cases pool rule: rev_cases)
  case Nil
  with assms show ?thesis by (auto simp: pop_or_new_def)
next
  case (snoc ys y)
  with assms show ?thesis by (auto simp: pop_or_new_def)
qed

lemma sd_transfer_async_ok:
  assumes "sd_transfer_async uninit j spec h = Inr (cmd, h')" "handler_ok h" "j \<notin> set (pending_jobs h)"
  shows "handler_ok h' \<and> pending_jobs h' = pending_jobs h @ [j]"
proof -
  obtain s d where spec: "spec = (s, d)" by (cases spec)
  obtain st sp ns where sp: "pop_or_new (sd_stream_pool h) (sd_num_streams h) = (st, sp, ns)" by (cases "pop_or_new (sd_stream_pool h) (sd_num_streams h)") auto
  obtain e ep ne where ep: "pop_or_new (sd_event_pool h) (sd_num_events h) = (e, ep, ne)" by (cases "pop_or_new (sd_event_pool h) (sd_num_events h)") auto
  have h': "h' = h\<lparr>sd_stream_pool := sp, sd_num_streams := ns, sd_event_pool := ep, sd_num_events := ne,
      sd_transfer_events := AList.update j e (sd_transfer_events h), sd_transfers := sd_transfers h @ [(j, st, e)]\<rparr>"
    using assms(1) by (auto simp: sd_transfer_async_def spec rbind_Inr_iff sp ep Let_def)
  have n: "map_of (map (\<lambda>(j, s, e). (j, e)) (sd_transfers h)) j = None"
    using assms(3) by (force simp: map_of_eq_None_iff pending_jobs_def)
  show ?thesis
    using assms(2,3) pop_or_new_ok[OF ep, of "map (\<lambda>(j, s, e). e) (sd_transfers h)"] n
    by (auto simp: h' handler_ok_def pending_jobs_def map_of_update map_add_def split: option.splits)
qed

text \<open>The finished transfers are a prefix of the queue.\<close>

definition done_jobs :: "(nat \<Rightarrow> bool) \<Rightarrow> SingleDirectionOffloadingHandler \<Rightarrow> int list" where
  "done_jobs query h = map fst (takeWhile (\<lambda>(j, s, e). query e) (sd_transfers h))"

lemma finished_loop_ok:
  assumes "handler_ok (h\<lparr>sd_transfers := ts\<rparr>)"
  shows "\<exists>h'. finished_loop query ts res h = Inr (res @ map (\<lambda>(j, s, e). (j, True)) (takeWhile (\<lambda>(j, s, e). query e) ts), h') \<and>
    handler_ok h' \<and> sd_transfers h' = dropWhile (\<lambda>(j, s, e). query e) ts"
  using assms
proof (induction query ts res h rule: finished_loop.induct)
  case (2 query j s e ts res h)
  let ?h = "h\<lparr>sd_stream_pool := sd_stream_pool h @ [s], sd_event_pool := sd_event_pool h @ [e],
                sd_transfer_events := AList.delete j (sd_transfer_events h)\<rparr>"
  have ev: "map_of (sd_transfer_events h) j = Some e" using "2.prems" by (simp add: handler_ok_def)
  have "j \<notin> fst ` set ts" using "2.prems" by (simp add: handler_ok_def pending_jobs_def)
  then have "map_of (map (\<lambda>(j, s, e). (j, e)) ts) j = None" by (force simp: map_of_eq_None_iff)
  then have "handler_ok (?h\<lparr>sd_transfers := ts\<rparr>)"
    using "2.prems" by (auto simp: handler_ok_def pending_jobs_def map_of_delete)
  with "2.IH" "2.prems" ev show ?case by (cases "query e") auto
qed auto

lemma sd_get_finished_ok:
  assumes "handler_ok h"
  shows "\<exists>h'. sd_get_finished query h = Inr (map (\<lambda>j. (j, True)) (done_jobs query h), h') \<and> handler_ok h' \<and>
    pending_jobs h = done_jobs query h @ pending_jobs h'"
proof -
  let ?q = "\<lambda>(j, s, e). query e"
  from finished_loop_ok[of "sd_transfers h" h query "[]"] assms obtain h' where
    h': "sd_get_finished query h = Inr (map (\<lambda>(j, s, e). (j, True)) (takeWhile ?q (sd_transfers h)), h')"
      "handler_ok h'" "sd_transfers h' = dropWhile ?q (sd_transfers h)" by (auto simp: sd_get_finished_def)
  have "map (\<lambda>(j, s, e). (j, True)) (takeWhile ?q (sd_transfers h)) = map (\<lambda>j. (j, True)) (done_jobs query h)"
    by (auto simp: done_jobs_def)
  moreover have "pending_jobs h = done_jobs query h @ pending_jobs h'"
    unfolding pending_jobs_def done_jobs_def h'(3) map_append[symmetric] by simp
  ultimately show ?thesis using h' by auto
qed

lemma sd_wait_pending:
  assumes "handler_ok h" "j \<in> set (pending_jobs h)" "j \<in> J"
  shows "\<exists>s e. (j, s, e) \<in> set (sd_transfers h) \<and> e \<in> sd_wait J h"
proof -
  obtain s e where m: "(j, s, e) \<in> set (sd_transfers h)" using assms(2) by (auto simp: pending_jobs_def)
  let ?t = "map (\<lambda>(j, s, e). (j, e)) (sd_transfers h)"
  have "map fst ?t = pending_jobs h" by (auto simp: pending_jobs_def)
  then have "distinct (map fst ?t)" using assms(1) by (simp only: handler_ok_def)
  moreover have "(j, e) \<in> set ?t" using m by force
  ultimately have "map_of ?t j = Some e" by (rule map_of_is_SomeI)
  then have "map_of (sd_transfer_events h) j = Some e" using assms(1) by (simp add: handler_ok_def)
  then have "e \<in> sd_wait J h" using assms(3) by (force simp: sd_wait_def)
  with m show ?thesis by blast
qed

section \<open>The invariant of the connector\<close>

abbreviation handler_at :: "OffloadingConnectorWorker \<Rightarrow> nat \<Rightarrow> SingleDirectionOffloadingHandler" where
  "handler_at c a \<equiv> ow_heap (cw_worker c) a"

text \<open>The jobs handed to the device or waiting to be: deferred stores, then the queues of the two handlers.\<close>

definition queued_jobs :: "OffloadingWorker \<Rightarrow> int list" where
  "queued_jobs w = pending_jobs (ow_heap w 0) @ pending_jobs (ow_heap w 1)"

definition unfinished :: "OffloadingConnectorWorker \<Rightarrow> int list" where
  "unfinished c = map fst (cw_unsubmitted_store_jobs c) @ queued_jobs (cw_worker c)"

definition worker_ok :: "OffloadingWorker \<Rightarrow> bool" where
  "worker_ok w \<longleftrightarrow> ow_handlers w = {0, 1} \<and> ran (map_of (ow_transfer_type_to_handler w)) \<subseteq> {0, 1} \<and>
     handler_ok (ow_heap w 0) \<and> handler_ok (ow_heap w 1)"

text \<open>The tables, with the jobs \<open>js\<close> taken from the queues and not yet processed.\<close>

definition tables_ok :: "int list \<Rightarrow> OffloadingConnectorWorker \<Rightarrow> bool" where
  "tables_ok js c \<longleftrightarrow>
     distinct (unfinished c @ js) \<and> (\<forall>j. j \<in> set (unfinished c @ js) \<longleftrightarrow> map_of (cw_jobs c) j \<noteq> None) \<and>
     (\<forall>j. map_of (cw_jobs c) j \<noteq> None \<longrightarrow> j < cw_job_counter c) \<and>
     (\<forall>j r. map_of (cw_jobs c) j = Some (r, True) \<longleftrightarrow> j \<in> store_jobs_of c r) \<and>
     (\<forall>j r. map_of (cw_jobs c) j = Some (r, False) \<longleftrightarrow> map_of (cw_load_job c) r = Some j) \<and>
     (\<forall>r \<in> cw_finished_reqs_waiting_for_store c. store_jobs_of c r \<noteq> {})"

lemma store_job_iff: "tables_ok js c \<Longrightarrow> j \<in> store_jobs_of c r \<longleftrightarrow> map_of (cw_jobs c) j = Some (r, True)"
  and load_job_iff: "tables_ok js c \<Longrightarrow> map_of (cw_load_job c) r = Some j \<longleftrightarrow> map_of (cw_jobs c) j = Some (r, False)"
  by (simp_all add: tables_ok_def)

definition cw_inv :: "OffloadingConnectorWorker \<Rightarrow> bool" where
  "cw_inv c \<longleftrightarrow> worker_ok (cw_worker c) \<and> tables_ok [] c"

lemma ow_transfer_async_ok:
  assumes "ow_transfer_async uninit j spec w = Inr (True, w')" "worker_ok w" "j \<notin> set (queued_jobs w)"
  shows "worker_ok w' \<and> (\<exists>xs ys. queued_jobs w = xs @ ys \<and> queued_jobs w' = xs @ j # ys)"
proof -
  from assms(1) obtain a cmd h where
    a: "map_of (ow_transfer_type_to_handler w) (ls_medium (fst spec), ls_medium (snd spec)) = Some a"
       "sd_transfer_async uninit j spec (ow_heap w a) = Inr (cmd, h)"
    and w': "w' = w\<lparr>ow_heap := (ow_heap w)(a := h), ow_commands := ow_commands w @ [(a, cmd)]\<rparr>"
    by (auto simp: ow_transfer_async_def split: option.splits sum.splits)
  have "a \<in> {0, 1}" using a(1) assms(2) by (auto simp: worker_ok_def ran_def)
  then have hok: "handler_ok (ow_heap w a)" "j \<notin> set (pending_jobs (ow_heap w a))"
    using assms(2,3) by (auto simp: worker_ok_def queued_jobs_def)
  note h = sd_transfer_async_ok[OF a(2) hok]
  then have "worker_ok w'" using assms(2) by (auto simp: worker_ok_def w')
  moreover have "\<exists>xs ys. queued_jobs w = xs @ ys \<and> queued_jobs w' = xs @ j # ys"
  proof (cases "a = 0")
    case True
    with h show ?thesis by (intro exI[of _ "pending_jobs (ow_heap w 0)"] exI[of _ "pending_jobs (ow_heap w 1)"]) (auto simp: queued_jobs_def w')
  next
    case False
    with h \<open>a \<in> {0, 1}\<close> show ?thesis by (intro exI[of _ "queued_jobs w"] exI[of _ "[]"]) (auto simp: queued_jobs_def w')
  qed
  ultimately show ?thesis by blast
qed

text \<open>Submitting a job moves it to a queue; the tables do not change.\<close>

lemma submit_job_ok:
  assumes "submit_job uninit (j, spec) c = Inr c'" "worker_ok (cw_worker c)" "j \<notin> set (queued_jobs (cw_worker c))"
  shows "worker_ok (cw_worker c') \<and> c' = c\<lparr>cw_worker := cw_worker c'\<rparr> \<and>
    (\<exists>xs ys. queued_jobs (cw_worker c) = xs @ ys \<and> queued_jobs (cw_worker c') = xs @ j # ys)"
proof -
  from assms(1) obtain w where w: "ow_transfer_async uninit j spec (cw_worker c) = Inr (True, w)" "c' = c\<lparr>cw_worker := w\<rparr>"
    by (auto simp: submit_job_def rbind_Inr_iff)
  from ow_transfer_async_ok[OF w(1) assms(2,3)] show ?thesis by (simp add: w(2))
qed

lemma submit_jobs_ok:
  assumes "mfold (submit_job uninit) js c = Inr c'" "worker_ok (cw_worker c)" "distinct (map fst js @ queued_jobs (cw_worker c))"
  shows "worker_ok (cw_worker c') \<and> c' = c\<lparr>cw_worker := cw_worker c'\<rparr> \<and>
    distinct (queued_jobs (cw_worker c')) \<and> set (queued_jobs (cw_worker c')) = set (map fst js @ queued_jobs (cw_worker c))"
  using assms
proof (induction js arbitrary: c)
  case (Cons p js)
  obtain j spec where p: "p = (j, spec)" by (cases p)
  from Cons.prems(1) obtain c1 where c1: "submit_job uninit (j, spec) c = Inr c1" "mfold (submit_job uninit) js c1 = Inr c'"
    by (auto simp: p split: sum.splits)
  from submit_job_ok[OF c1(1) Cons.prems(2)] Cons.prems(3) obtain xs ys where
    s: "worker_ok (cw_worker c1)" "c1 = c\<lparr>cw_worker := cw_worker c1\<rparr>" "queued_jobs (cw_worker c) = xs @ ys" "queued_jobs (cw_worker c1) = xs @ j # ys"
    by (auto simp: p)
  have "worker_ok (cw_worker c') \<and> c' = c1\<lparr>cw_worker := cw_worker c'\<rparr> \<and>
    distinct (queued_jobs (cw_worker c')) \<and> set (queued_jobs (cw_worker c')) = set (map fst js @ queued_jobs (cw_worker c1))"
    using Cons.prems(3) s by (intro Cons.IH c1(2)) (auto simp: p)
  moreover have "c1\<lparr>cw_worker := cw_worker c'\<rparr> = c\<lparr>cw_worker := cw_worker c'\<rparr>" by (subst s(2)) simp
  ultimately show ?case using s(3,4) by (auto simp: p)
qed auto

lemma submit_stores_ok:
  assumes "submit_stores uninit c = Inr c'" "cw_inv c"
  shows "cw_inv c' \<and> cw_unsubmitted_store_jobs c' = [] \<and> set (unfinished c') = set (unfinished c) \<and>
    cw_jobs c' = cw_jobs c \<and> cw_store_jobs c' = cw_store_jobs c"
proof -
  from assms(1) obtain c1 where c1: "mfold (submit_job uninit) (cw_unsubmitted_store_jobs c) c = Inr c1"
    and c': "c' = c1\<lparr>cw_unsubmitted_store_jobs := []\<rparr>" by (auto simp: submit_stores_def rbind_Inr_iff)
  have d: "distinct (map fst (cw_unsubmitted_store_jobs c) @ queued_jobs (cw_worker c))" "worker_ok (cw_worker c)"
    using assms(2) by (auto simp: cw_inv_def tables_ok_def unfinished_def)
  note s = submit_jobs_ok[OF c1 d(2,1)]
  obtain w where w: "c1 = c\<lparr>cw_worker := w\<rparr>" using s by blast
  have u: "set (unfinished c') = set (unfinished c)" "distinct (unfinished c')" using s by (auto simp: unfinished_def c' w)
  have "tables_ok [] c'" using assms(2) u
    by (simp add: cw_inv_def tables_ok_def) (simp add: c' w store_jobs_of_def)
  then show ?thesis using s u by (simp add: cw_inv_def c' w)
qed

section \<open>New jobs\<close>

lemma tables_new_job:
  assumes "tables_ok [] c" "set (unfinished c') = insert (cw_job_counter c) (set (unfinished c))" "distinct (unfinished c')"
    "cw_job_counter c' = cw_job_counter c + 1" "cw_jobs c' = AList.update (cw_job_counter c) (r, st) (cw_jobs c)"
    "\<And>r'. store_jobs_of c' r' = (if st \<and> r' = r then insert (cw_job_counter c) (store_jobs_of c r') else store_jobs_of c r')"
    "\<And>r'. map_of (cw_load_job c') r' = (if \<not> st \<and> r' = r then Some (cw_job_counter c) else map_of (cw_load_job c) r')"
    "st \<or> map_of (cw_load_job c) r = None"
    "cw_finished_reqs_waiting_for_store c' = cw_finished_reqs_waiting_for_store c"
  shows "tables_ok [] c'"
proof -
  let ?n = "cw_job_counter c"
  have t: "map_of (cw_jobs c) ?n = None" using assms(1) unfolding tables_ok_def by (metis less_irrefl)
  note sj = store_job_iff[OF assms(1)] and lj = load_job_iff[OF assms(1)]
  have nl: "map_of (cw_load_job c) r' \<noteq> Some ?n" for r' using t by (simp add: lj)
  have j: "map_of (cw_jobs c') j = (if j = ?n then Some (r, st) else map_of (cw_jobs c) j)" for j
    by (simp add: assms(5) map_of_update)
  have "(map_of (cw_jobs c') j = Some (r', True)) = (j \<in> store_jobs_of c' r')" for j r'
    using t by (auto simp: j assms(6) sj)
  moreover have "(map_of (cw_jobs c') j = Some (r', False)) = (map_of (cw_load_job c') r' = Some j)" for j r'
    using assms(8) nl by (auto simp: j assms(7) lj[symmetric])
  moreover have "\<forall>j. (j \<in> set (unfinished c' @ [])) = (map_of (cw_jobs c') j \<noteq> None)"
    using assms(1,2) by (auto simp: j tables_ok_def)
  moreover have "\<forall>j. map_of (cw_jobs c') j \<noteq> None \<longrightarrow> j < cw_job_counter c'"
    using assms(1) by (auto simp: j assms(4) tables_ok_def less_Suc_eq dest!: spec) 
  moreover have "\<forall>r'\<in>cw_finished_reqs_waiting_for_store c'. store_jobs_of c' r' \<noteq> {}"
    using assms(1) by (auto simp: assms(6,9) tables_ok_def)
  ultimately show ?thesis using assms(3) by (simp add: tables_ok_def)
qed

lemma counter_fresh: "cw_inv c \<Longrightarrow> cw_job_counter c \<notin> set (unfinished c)"
  by (auto simp: cw_inv_def tables_ok_def)

lemma start_load_ok:
  assumes "start_load uninit (r, spec) c = Inr c'" "cw_inv c"
  shows "cw_inv c'"
proof -
  let ?n = "cw_job_counter c"
  let ?c = "c\<lparr>cw_job_counter := ?n + 1, cw_jobs := AList.update ?n (r, False) (cw_jobs c), cw_load_job := AList.update r ?n (cw_load_job c)\<rparr>"
  from assms(1) have l: "map_of (cw_load_job c) r = None" and s: "submit_job uninit (?n, spec) ?c = Inr c'"
    by (auto simp: start_load_def Let_def)
  have f: "?n \<notin> set (queued_jobs (cw_worker ?c))" using counter_fresh[OF assms(2)] by (simp add: unfinished_def)
  from submit_job_ok[OF s _ f] assms(2) obtain xs ys w where
    w: "worker_ok (cw_worker c')" "c' = ?c\<lparr>cw_worker := w\<rparr>" "queued_jobs (cw_worker c) = xs @ ys" "queued_jobs w = xs @ ?n # ys"
    by (auto simp: cw_inv_def)
  have "tables_ok [] c'"
  proof (rule tables_new_job[where c = c and r = r and st = False])
    show "tables_ok [] c" using assms(2) by (simp add: cw_inv_def)
    show "set (unfinished c') = insert ?n (set (unfinished c))" by (auto simp: unfinished_def w)
    have "distinct (unfinished c)" using assms(2) by (simp add: cw_inv_def tables_ok_def)
    then show "distinct (unfinished c')" using counter_fresh[OF assms(2)] by (auto simp: unfinished_def w)
  qed (use l in \<open>auto simp: w map_of_update store_jobs_of_def\<close>)
  with w(1) show ?thesis by (simp add: cw_inv_def)
qed

lemma prepare_store_ok:
  assumes "cw_inv c"
  shows "cw_inv (prepare_store (r, spec) c)"
proof -
  let ?c = "prepare_store (r, spec) c"
  have "tables_ok [] ?c"
  proof (rule tables_new_job[where c = c and r = r and st = True])
    show "tables_ok [] c" using assms by (simp add: cw_inv_def)
    show "set (unfinished ?c) = insert (cw_job_counter c) (set (unfinished c))" by (auto simp: unfinished_def prepare_store_def Let_def)
    have "distinct (unfinished c)" using assms by (simp add: cw_inv_def tables_ok_def)
    then show "distinct (unfinished ?c)" using counter_fresh[OF assms] by (auto simp: unfinished_def prepare_store_def Let_def)
  qed (auto simp: prepare_store_def Let_def map_of_update store_jobs_of_def)
  then show ?thesis using assms by (simp add: cw_inv_def prepare_store_def Let_def)
qed

section \<open>Finished jobs\<close>

lemma two_elements:
  assumes "distinct xs" "set xs = {a, b}" "a \<noteq> b"
  shows "xs = [a, b] \<or> xs = [b, a]"
proof -
  have "length xs = 2" using assms distinct_card[of xs] by simp
  then obtain x y where "xs = [x, y]" by (cases xs; cases "tl xs") auto
  with assms show ?thesis by (auto simp: doubleton_eq_iff)
qed

lemma ow_get_finished_ok:
  assumes "worker_ok w" "hash_order hord"
  shows "\<exists>w' js. ow_get_finished hord query w = Inr (map (\<lambda>j. (j, True)) js, w') \<and> worker_ok w' \<and>
    mset (queued_jobs w) = mset (js @ queued_jobs w') \<and> set js = set (done_jobs (query 0) (ow_heap w 0) @ done_jobs (query 1) (ow_heap w 1))"
proof -
  define d where "d a = done_jobs (query a) (ow_heap w a)" for a
  from assms(1) sd_get_finished_ok[of "ow_heap w 0" "query 0"] sd_get_finished_ok[of "ow_heap w 1" "query 1"] obtain h0 h1 where
    h: "sd_get_finished (query 0) (ow_heap w 0) = Inr (map (\<lambda>j. (j, True)) (d 0), h0)" "handler_ok h0"
       "pending_jobs (ow_heap w 0) = d 0 @ pending_jobs h0"
       "sd_get_finished (query 1) (ow_heap w 1) = Inr (map (\<lambda>j. (j, True)) (d 1), h1)" "handler_ok h1"
       "pending_jobs (ow_heap w 1) = d 1 @ pending_jobs h1"
    by (auto simp: worker_ok_def d_def)
  have o: "distinct (hord {0, 1})" "set (hord {0, 1}) = {0, 1 :: nat}" 
    using assms(2)[unfolded hash_order_def, rule_format, of "{0, 1}"] by simp_all
  have "hord {0, 1} = [0, 1] \<or> hord {0, 1} = [1, 0 :: nat]" by (rule two_elements[OF o zero_neq_one])
  moreover have "ow_handlers w = {0, 1}" using assms(1) by (simp add: worker_ok_def)
  ultimately consider "hord (ow_handlers w) = [0, 1]" | "hord (ow_handlers w) = [1, 0]" by auto
  then have "\<exists>js. ow_get_finished hord query w = Inr (map (\<lambda>j. (j, True)) js, w\<lparr>ow_heap := (ow_heap w)(0 := h0, 1 := h1)\<rparr>) \<and>
      (js = d 0 @ d 1 \<or> js = d 1 @ d 0)"
  proof cases
    case 1
    with h show ?thesis by (intro exI[of _ "d 0 @ d 1"]) (simp add: ow_get_finished_def collect_transfers_def)
  next
    case 2
    with h show ?thesis
      by (intro exI[of _ "d 1 @ d 0"]) (simp add: ow_get_finished_def collect_transfers_def fun_upd_twist[of "Suc 0" 0])
  qed
  then obtain js where js: "ow_get_finished hord query w = Inr (map (\<lambda>j. (j, True)) js, w\<lparr>ow_heap := (ow_heap w)(0 := h0, 1 := h1)\<rparr>)"
    "js = d 0 @ d 1 \<or> js = d 1 @ d 0" by blast
  show ?thesis
  proof (intro exI conjI)
    show "worker_ok (w\<lparr>ow_heap := (ow_heap w)(0 := h0, 1 := h1)\<rparr>)" using assms(1) h by (simp add: worker_ok_def)
    show "mset (queued_jobs w) = mset (js @ queued_jobs (w\<lparr>ow_heap := (ow_heap w)(0 := h0, 1 := h1)\<rparr>))"
      using js(2) h(3,6) by (auto simp: queued_jobs_def)
  qed (use js d_def in auto)
qed

lemma tables_done_job:
  assumes "tables_ok (j # js) c" "map_of (cw_jobs c) j = Some (r, st)" "unfinished c' = unfinished c"
    "cw_job_counter c' = cw_job_counter c" "cw_jobs c' = AList.delete j (cw_jobs c)"
    "\<And>r'. store_jobs_of c' r' = store_jobs_of c r' - {j}"
    "\<And>r'. map_of (cw_load_job c') r' = (if \<not> st \<and> r' = r then None else map_of (cw_load_job c) r')"
    "\<And>r'. r' \<in> cw_finished_reqs_waiting_for_store c' \<Longrightarrow> r' \<in> cw_finished_reqs_waiting_for_store c \<and> store_jobs_of c r' \<noteq> {j}"
  shows "tables_ok js c'"
proof -
  note sj = store_job_iff[OF assms(1)] and lj = load_job_iff[OF assms(1)]
  have jb: "map_of (cw_jobs c') j' = (if j' = j then None else map_of (cw_jobs c) j')" for j'
    by (simp add: assms(5) map_of_delete)
  have "(map_of (cw_jobs c') j' = Some (r', True)) = (j' \<in> store_jobs_of c' r')" for j' r'
    by (auto simp: jb assms(6) sj)
  moreover have "(map_of (cw_jobs c') j' = Some (r', False)) = (map_of (cw_load_job c') r' = Some j')" for j' r'
    using assms(2) lj[of r j] lj[of r' j'] lj[of r' j] by (cases st) (auto simp: jb assms(7))
  moreover have "(j' \<in> set (unfinished c' @ js)) = (map_of (cw_jobs c') j' \<noteq> None)" for j'
    using assms(1) unfolding jb assms(3) tables_ok_def by auto
  moreover have "store_jobs_of c' r' \<noteq> {}" if "r' \<in> cw_finished_reqs_waiting_for_store c'" for r'
    using assms(1) assms(8)[OF that] by (auto simp: assms(6) tables_ok_def)
  moreover have "distinct (unfinished c' @ js)" using assms(1,3) by (simp add: tables_ok_def)
  moreover have "\<forall>j'. map_of (cw_jobs c') j' \<noteq> None \<longrightarrow> j' < cw_job_counter c'"
    using assms(1) by (auto simp: jb assms(4) tables_ok_def)
  ultimately show ?thesis by (simp add: tables_ok_def)
qed

text \<open>
  Processing finished jobs: it never fails; a request is reported as sent when it had finished
  generating earlier and has no job left, and as received when its load is gone.
\<close>

definition finish_step ::
  "string set \<times> string set \<times> OffloadingConnectorWorker \<Rightarrow> string set \<times> string set \<times> OffloadingConnectorWorker \<Rightarrow> bool" where
  "finish_step = (\<lambda>(S, R, c) (S', R', c').
    cw_worker c' = cw_worker c \<and> cw_unsubmitted_store_jobs c' = cw_unsubmitted_store_jobs c \<and>
    cw_finished_reqs_waiting_for_store c' \<subseteq> cw_finished_reqs_waiting_for_store c \<and>
    S' = S \<union> (cw_finished_reqs_waiting_for_store c - cw_finished_reqs_waiting_for_store c') \<and>
    (\<forall>r. map_of (cw_store_jobs c') r = None \<longleftrightarrow>
       map_of (cw_store_jobs c) r = None \<or> r \<in> cw_finished_reqs_waiting_for_store c - cw_finished_reqs_waiting_for_store c') \<and>
    (\<forall>r. map_of (cw_load_job c') r = map_of (cw_load_job c) r \<or> map_of (cw_load_job c') r = None) \<and>
    R' = R \<union> {r. map_of (cw_load_job c) r \<noteq> map_of (cw_load_job c') r})"

lemma finish_job_ok:
  assumes "tables_ok (j # js) c"
  shows "\<exists>S' R' c'. finish_job (j, True) (S, R, c) = Inr (S', R', c') \<and> tables_ok js c' \<and> finish_step (S, R, c) (S', R', c')"
proof -
  have "map_of (cw_jobs c) j \<noteq> None" using assms by (auto simp: tables_ok_def simp del: not_None_eq)
  then obtain r st where jr: "map_of (cw_jobs c) j = Some (r, st)" by auto
  let ?d = "c\<lparr>cw_jobs := AList.delete j (cw_jobs c)\<rparr>"
  have sj: "j \<in> store_jobs_of c r' \<longleftrightarrow> st \<and> r' = r"
    and lj: "map_of (cw_load_job c) r' = Some j \<longleftrightarrow> \<not> st \<and> r' = r" for r'
    using jr by (auto simp: store_job_iff[OF assms] load_job_iff[OF assms])
  note dn = tables_done_job[OF assms jr]
  show ?thesis
  proof (cases st)
    case False
    let ?c = "?d\<lparr>cw_load_job := AList.delete r (cw_load_job c)\<rparr>"
    have l: "map_of (cw_load_job c) r = Some j" using lj False by simp
    have "store_jobs_of ?c r' = store_jobs_of c r'" for r' by (simp add: store_jobs_of_def)
    moreover have nj: "j \<notin> store_jobs_of c r'" for r' using sj False by simp
    moreover have "store_jobs_of c r' \<noteq> {j}" for r' using nj[of r'] by blast
    ultimately have "tables_ok js ?c"
      using False by (intro dn) (auto simp: unfinished_def map_of_delete)
    moreover have "finish_job (j, True) (S, R, c) = Inr (S, insert r R, ?c)"
      using l jr False by (simp add: finish_job_def dict_item_def)
    moreover have "finish_step (S, R, c) (S, insert r R, ?c)" using l by (auto simp: finish_step_def map_of_delete)
    ultimately show ?thesis by blast
  next
    case True
    let ?s = "store_jobs_of c r - {j}" and ?W = "cw_finished_reqs_waiting_for_store c"
    let ?c = "?d\<lparr>cw_store_jobs := AList.update r ?s (cw_store_jobs c)\<rparr>"
    have j: "j \<in> store_jobs_of c r" using sj True by simp
    then have n: "map_of (cw_store_jobs c) r \<noteq> None" by (auto simp: store_jobs_of_def split: option.splits)
    have sd: "store_jobs_of ?d r = store_jobs_of c r" by (simp add: store_jobs_of_def)
    have upd: "store_jobs_of ?c r' = store_jobs_of c r' - {j}" for r'
      using sj[of r'] True by (simp add: store_jobs_of_def map_of_update split: option.splits)
    show ?thesis
    proof (cases "?s = {} \<and> r \<in> ?W")
      case c: True
      let ?e = "?c\<lparr>cw_finished_reqs_waiting_for_store := ?W - {r}, cw_store_jobs := AList.delete r (AList.update r ?s (cw_store_jobs c))\<rparr>"
      have "store_jobs_of ?e r' = store_jobs_of c r' - {j}" for r'
        using upd[of r'] c by (cases "r' = r") (auto simp: store_jobs_of_def map_of_update map_of_delete)
      then have "tables_ok js ?e" using True sj by (intro dn) (auto simp: unfinished_def)
      moreover have "finish_job (j, True) (S, R, c) = Inr (insert r S, R, ?e)"
        using jr True c j by (simp add: finish_job_def dict_item_def sd Let_def)
      moreover have "finish_step (S, R, c) (insert r S, R, ?e)"
        using c n by (auto simp: finish_step_def map_of_delete map_of_update)
      ultimately show ?thesis by blast
    next
      case c: False
      have "store_jobs_of c r' \<noteq> {j}" if "r' \<in> ?W" for r'
      proof
        assume "store_jobs_of c r' = {j}"
        moreover from this have "r' = r" using sj[of r'] by simp
        ultimately show False using c that by simp
      qed
      then have "tables_ok js ?c" using True upd by (intro dn) (auto simp: unfinished_def)
      moreover have "finish_job (j, True) (S, R, c) = Inr (S, R, ?c)"
        using jr True c j by (simp add: finish_job_def dict_item_def sd Let_def)
      moreover have "finish_step (S, R, c) (S, R, ?c)" using n by (auto simp: finish_step_def map_of_update)
      ultimately show ?thesis by blast
    qed
  qed
qed

lemma finish_stepD:
  assumes "finish_step (S, R, c) (S', R', c')"
  shows "cw_worker c' = cw_worker c" "cw_unsubmitted_store_jobs c' = cw_unsubmitted_store_jobs c"
    "cw_finished_reqs_waiting_for_store c' \<subseteq> cw_finished_reqs_waiting_for_store c"
    "S' = S \<union> (cw_finished_reqs_waiting_for_store c - cw_finished_reqs_waiting_for_store c')"
    "map_of (cw_store_jobs c') r = None \<longleftrightarrow>
       map_of (cw_store_jobs c) r = None \<or> r \<in> cw_finished_reqs_waiting_for_store c - cw_finished_reqs_waiting_for_store c'"
    "map_of (cw_load_job c') r = map_of (cw_load_job c) r \<or> map_of (cw_load_job c') r = None"
    "R' = R \<union> {r. map_of (cw_load_job c) r \<noteq> map_of (cw_load_job c') r}"
  using assms unfolding finish_step_def prod.case by simp_all

lemma finish_step_trans:
  assumes "finish_step (S, R, c) (S1, R1, c1)" "finish_step (S1, R1, c1) (S2, R2, c2)"
  shows "finish_step (S, R, c) (S2, R2, c2)"
proof -
  let ?W = cw_finished_reqs_waiting_for_store
  note a = finish_stepD[OF assms(1)] and b = finish_stepD[OF assms(2)]
  have R: "{r. map_of (cw_load_job c) r \<noteq> map_of (cw_load_job c1) r} \<union> {r. map_of (cw_load_job c1) r \<noteq> map_of (cw_load_job c2) r} =
      {r. map_of (cw_load_job c) r \<noteq> map_of (cw_load_job c2) r}" (is "?A \<union> ?B = ?C")
  proof (rule set_eqI)
    show "r \<in> ?A \<union> ?B \<longleftrightarrow> r \<in> ?C" for r using a(6)[of r] b(6)[of r] unfolding Un_iff mem_Collect_eq by metis
  qed
  have W: "(?W c - ?W c1) \<union> (?W c1 - ?W c2) = ?W c - ?W c2" "?W c2 \<subseteq> ?W c" using a(3) b(3) by auto
  have "S2 = S \<union> (?W c - ?W c2)" unfolding b(4) a(4) W(1)[symmetric] by (rule Un_assoc)
  moreover have "R2 = R \<union> ?C" unfolding b(7) a(7) R[symmetric] by (rule Un_assoc)
  moreover have "(map_of (cw_store_jobs c2) r = None) = (map_of (cw_store_jobs c) r = None \<or> r \<in> ?W c - ?W c2)" for r
    unfolding b(5) a(5) W(1)[symmetric] by blast
  moreover have "map_of (cw_load_job c2) r = map_of (cw_load_job c) r \<or> map_of (cw_load_job c2) r = None" for r
    using a(6)[of r] b(6)[of r] by metis
  ultimately show ?thesis using W(2) a(1,2) b(1,2) unfolding finish_step_def prod.case by (intro conjI allI) simp_all
qed

lemma finish_jobs_ok:
  assumes "tables_ok js c"
  shows "\<exists>S' R' c'. mfold finish_job (map (\<lambda>j. (j, True)) js) (S, R, c) = Inr (S', R', c') \<and> tables_ok [] c' \<and>
    finish_step (S, R, c) (S', R', c')"
  using assms
proof (induction js arbitrary: S R c)
  case Nil
  then show ?case by (simp add: finish_step_def)
next
  case (Cons j js)
  from finish_job_ok[OF Cons.prems, of S R] obtain S1 R1 c1 where
    s: "finish_job (j, True) (S, R, c) = Inr (S1, R1, c1)" "tables_ok js c1" "finish_step (S, R, c) (S1, R1, c1)" by blast
  with Cons.IH[OF s(2), of S1 R1] finish_step_trans[OF s(3)] show ?case by force
qed

text \<open>Requests that finish generating: reported at once if they have a table entry and no job left.\<close>

lemma finish_requests_reported:
  assumes "fold finish_request rs (S, c) = (S', c')" "tables_ok [] c"
  shows "tables_ok [] c' \<and> cw_worker c' = cw_worker c \<and> unfinished c' = unfinished c \<and> cw_jobs c' = cw_jobs c \<and>
    (\<forall>r. store_jobs_of c' r = store_jobs_of c r) \<and> cw_load_job c' = cw_load_job c \<and>
    S' = S \<union> {r \<in> set rs. map_of (cw_store_jobs c) r = Some {}}"
  using assms
proof (induction rs arbitrary: S c)
  case (Cons r rs)
  obtain S1 c1 where s: "finish_request r (S, c) = (S1, c1)" by (cases "finish_request r (S, c)")
  have st: "store_jobs_of c1 r' = store_jobs_of c r'" for r'
    using s by (auto simp: finish_request_def store_jobs_of_def map_of_delete split: option.splits if_splits)
  have fr: "cw_worker c1 = cw_worker c" "cw_unsubmitted_store_jobs c1 = cw_unsubmitted_store_jobs c" "cw_jobs c1 = cw_jobs c"
    "cw_load_job c1 = cw_load_job c" "cw_job_counter c1 = cw_job_counter c"
    using s by (auto simp: finish_request_def split: option.splits if_splits)
  have w: "\<forall>r'\<in>cw_finished_reqs_waiting_for_store c1. r' \<in> cw_finished_reqs_waiting_for_store c \<or> store_jobs_of c r' \<noteq> {}"
    using s by (auto simp: finish_request_def store_jobs_of_def split: option.splits if_splits)
  have t: "tables_ok [] c1" using Cons.prems(2) w by (auto simp: tables_ok_def unfinished_def st fr)
  have e: "map_of (cw_store_jobs c1) r' = Some {} \<or> r' \<in> S1 \<longleftrightarrow> map_of (cw_store_jobs c) r' = Some {} \<or> r' \<in> S" for r'
    using s by (auto simp: finish_request_def map_of_delete split: option.splits if_splits)
  have S1: "S1 = S \<union> {r' \<in> {r}. map_of (cw_store_jobs c) r' = Some {}}"
    using s by (auto simp: finish_request_def split: option.splits if_splits)
  have "S1 \<union> {r' \<in> set rs. map_of (cw_store_jobs c1) r' = Some {}} = S \<union> {r' \<in> set (r # rs). map_of (cw_store_jobs c) r' = Some {}}"
    using e S1 by auto
  moreover have "fold finish_request rs (S1, c1) = (S', c')" using Cons.prems(1) s by simp
  moreover have "unfinished c1 = unfinished c" by (simp add: unfinished_def fr)
  ultimately show ?case using Cons.IH[OF _ t, of S1] st fr by simp
qed simp

end
