(* ===== verification/Offload_Finished.thy ===== *)
theory Offload_Finished
  imports Offload_Jobs
begin

text \<open>
  What the worker side of the offloading connector reports: requests whose transfers have completed,
  and the transfers it waits for before the blocks of a preempted request are used again.
\<close>

section \<open>Collecting finished transfers\<close>

definition completed_jobs :: "(nat \<Rightarrow> nat \<Rightarrow> bool) \<Rightarrow> OffloadingConnectorWorker \<Rightarrow> int set" where
  "completed_jobs query c = set (done_jobs (query 0) (handler_at c 0)) \<union> set (done_jobs (query 1) (handler_at c 1))"

definition has_job :: "OffloadingConnectorWorker \<Rightarrow> string \<Rightarrow> bool \<Rightarrow> bool" where
  "has_job c r store \<longleftrightarrow> (\<exists>j\<in>set (unfinished c). map_of (cw_jobs c) j = Some (r, store))"

lemma has_job_iff: "tables_ok [] c \<Longrightarrow> has_job c r store \<longleftrightarrow> (\<exists>j. map_of (cw_jobs c) j = Some (r, store))"
  unfolding has_job_def tables_ok_def by (metis append_Nil2 option.distinct(1))

lemma has_job_store: "tables_ok [] c \<Longrightarrow> has_job c r True \<longleftrightarrow> store_jobs_of c r \<noteq> {}"
  by (auto simp: has_job_iff store_job_iff[symmetric])

lemma has_job_load: "tables_ok [] c \<Longrightarrow> has_job c r False \<longleftrightarrow> map_of (cw_load_job c) r \<noteq> None"
  by (simp add: has_job_iff load_job_iff[symmetric])

text \<open>Taking jobs off the queues leaves the tables as they are, with the jobs still to be processed.\<close>

lemma tables_ok_taken:
  assumes "cw_inv c" "mset (queued_jobs (cw_worker c)) = mset (js @ queued_jobs w)"
  shows "tables_ok js (c\<lparr>cw_worker := w\<rparr>) \<and>
    set (unfinished (c\<lparr>cw_worker := w\<rparr>)) = set (unfinished c) - set js"
proof -
  let ?c = "c\<lparr>cw_worker := w\<rparr>"
  have m: "mset (unfinished c) = mset (unfinished ?c @ js)" using assms(2) by (simp add: unfinished_def)
  have d: "distinct (unfinished ?c @ js)"
    using assms(1) mset_eq_imp_distinct_iff[OF m] by (simp add: cw_inv_def tables_ok_def)
  have s: "set (unfinished ?c @ js) = set (unfinished c)" by (rule mset_eq_setD[OF m[symmetric]])
  have "tables_ok js ?c"
    using assms(1) d unfolding cw_inv_def tables_ok_def s by (simp add: store_jobs_of_def)
  moreover have "set (unfinished ?c) = set (unfinished c) - set js" using s d by auto
  ultimately show ?thesis by blast
qed

lemma cw_get_finished_ok:
  assumes "cw_inv c" "hash_order hord"
  shows "\<exists>S R c'. cw_get_finished hord query fin c = Inr ((S, R), c') \<and> cw_inv c' \<and>
    set (unfinished c') = set (unfinished c) - completed_jobs query c \<and>
    (\<forall>r. r \<in> S \<longleftrightarrow> (r \<in> cw_finished_reqs_waiting_for_store c \<or> r \<in> set fin) \<and>
       map_of (cw_store_jobs c) r \<noteq> None \<and> \<not> has_job c' r True) \<and>
    (\<forall>r. r \<in> R \<longleftrightarrow> has_job c r False \<and> \<not> has_job c' r False)"
proof -
  from ow_get_finished_ok[OF _ assms(2), of "cw_worker c" query] assms(1) obtain w js where
    w: "ow_get_finished hord query (cw_worker c) = Inr (map (\<lambda>j. (j, True)) js, w)" "worker_ok w"
      "mset (queued_jobs (cw_worker c)) = mset (js @ queued_jobs w)" "set js = completed_jobs query c"
    by (auto simp: cw_inv_def completed_jobs_def)
  define c0 where "c0 = c\<lparr>cw_worker := w\<rparr>"
  have t0: "tables_ok js c0" "set (unfinished c0) = set (unfinished c) - completed_jobs query c"
    using tables_ok_taken[OF assms(1) w(3)] w(4) by (simp_all add: c0_def)
  from finish_jobs_ok[OF t0(1), of "{}" "{}"] obtain S1 R c1 where
    j: "mfold finish_job (map (\<lambda>j. (j, True)) js) ({}, {}, c0) = Inr (S1, R, c1)" "tables_ok [] c1" "finish_step ({}, {}, c0) (S1, R, c1)"
    by blast
  note fs = finish_stepD[OF j(3)]
  obtain S c' where r: "fold finish_request fin (S1, c1) = (S, c')" by (cases "fold finish_request fin (S1, c1)")
  note q = finish_requests_reported[OF r j(2)]
  have get: "cw_get_finished hord query fin c = Inr ((S, R), c')"
    using w(1) j(1) r by (simp add: cw_get_finished_def c0_def)
  have u: "unfinished c' = unfinished c0" 
  proof -
    have "unfinished c1 = unfinished c0" using fs(1,2) by (simp add: unfinished_def)
    then show ?thesis using q by simp
  qed
  have inv: "cw_inv c'" using q fs(1) w(2) by (simp add: cw_inv_def c0_def)
  have tc: "tables_ok [] c" "tables_ok [] c'" using assms(1) inv by (simp_all add: cw_inv_def)
  have sj: "has_job c' r True \<longleftrightarrow> store_jobs_of c1 r \<noteq> {}" for r using has_job_store[OF tc(2)] q by simp
  have W: "store_jobs_of c1 r \<noteq> {}" if "r \<in> cw_finished_reqs_waiting_for_store c1" for r
    using j(2) that by (simp add: tables_ok_def)
  have W0: "map_of (cw_store_jobs c) r \<noteq> None" if "r \<in> cw_finished_reqs_waiting_for_store c" for r
    using tc(1) that by (auto simp: tables_ok_def store_jobs_of_def)
  have S: "r \<in> S \<longleftrightarrow> (r \<in> cw_finished_reqs_waiting_for_store c \<or> r \<in> set fin) \<and> map_of (cw_store_jobs c) r \<noteq> None \<and> \<not> has_job c' r True" for r
  proof -
    have "r \<in> S \<longleftrightarrow> r \<in> cw_finished_reqs_waiting_for_store c - cw_finished_reqs_waiting_for_store c1 \<or>
        r \<in> set fin \<and> map_of (cw_store_jobs c1) r = Some {}" using q fs(4) by (auto simp: c0_def)
    with W[of r] W0[of r] fs(3) fs(5)[of r] show ?thesis
      by (auto simp: sj store_jobs_of_def c0_def split: option.splits)
  qed
  have R: "r \<in> R \<longleftrightarrow> has_job c r False \<and> \<not> has_job c' r False" for r
    using fs(6)[of r] fs(7) q by (auto simp: has_job_load[OF tc(1)] has_job_load[OF tc(2)] c0_def)
  have "set (unfinished c') = set (unfinished c) - completed_jobs query c" using u t0(2) by simp
  with get inv S R show ?thesis by blast
qed

section \<open>Reachable states\<close>

inductive cw_reachable :: "(nat set \<Rightarrow> nat list) \<Rightarrow> CPUOffloadingSpec \<Rightarrow> OffloadingConnectorWorker \<Rightarrow> bool"
  for hord spec where
  cw_registered: "cw_register_handlers allocate is_cuda_alike spec kv_caches attn_backends (OffloadingConnectorWorker_init heap) = Inr c \<Longrightarrow>
    positive_shapes kv_caches \<Longrightarrow> cw_reachable hord spec c"
| cw_preempted: "cw_reachable hord spec c \<Longrightarrow> cw_handle_preemptions uninit preempted c = Inr (events, c') \<Longrightarrow> cw_reachable hord spec c'"
| cw_started: "cw_reachable hord spec c \<Longrightarrow> cw_start_kv_transfers uninit metadata c = Inr c' \<Longrightarrow> cw_reachable hord spec c'"
| cw_prepared: "cw_reachable hord spec c \<Longrightarrow> cw_reachable hord spec (cw_prepare_store_kv metadata c)"
| cw_finished: "cw_reachable hord spec c \<Longrightarrow> cw_get_finished hord query fin c = Inr (r, c') \<Longrightarrow> cw_reachable hord spec c'"

lemma cw_registered_inv:
  assumes "cw_register_handlers allocate cuda spec caches backends (OffloadingConnectorWorker_init heap) = Inr c"
  shows "cw_inv c"
proof -
  from assms obtain st ld where h: "CpuGpuOffloadingHandlers_init allocate (os_gpu_block_size spec) (os_offloaded_block_size spec)
      (os_num_blocks spec) caches backends = Inr (st, ld)"
    and c: "c = (OffloadingConnectorWorker_init heap)\<lparr>cw_handlers_created := True,
       cw_worker := \<lparr>ow_handlers = {1, 0}, ow_transfer_type_to_handler = [((GPU_medium, CPU_medium), 0), ((CPU_medium, GPU_medium), 1)],
         ow_heap = heap(0 := st, 1 := ld), ow_commands = []\<rparr>\<rparr>"
    by (auto simp: cw_register_handlers_def get_handlers_def OffloadingConnectorWorker_init_def rbind_Inr_iff
        ow_register_handler_def GPU_medium_def CPU_medium_def split: if_splits)
  from h have ok: "handler_ok st \<and> pending_jobs st = []" "handler_ok ld \<and> pending_jobs ld = []"
    by (auto simp: CpuGpuOffloadingHandlers_init_def rbind_Inr_iff Let_def split: if_splits dest!: handler_init_ok)
  have "worker_ok (cw_worker c)" using ok by (auto simp: c worker_ok_def ran_def GPU_medium_def CPU_medium_def)
  moreover have "tables_ok [] c"
    using ok by (simp add: tables_ok_def unfinished_def queued_jobs_def c OffloadingConnectorWorker_init_def store_jobs_of_def)
  ultimately show ?thesis by (simp add: cw_inv_def)
qed

lemma cw_reachable_inv: "cw_reachable hord spec c \<Longrightarrow> hash_order hord \<Longrightarrow> cw_inv c"
proof (induction rule: cw_reachable.induct)
  case (cw_preempted c uninit preempted events c')
  then show ?case using submit_stores_ok by (auto simp: cw_handle_preemptions_def rbind_Inr_iff)
next
  case (cw_started c uninit metadata c')
  then obtain c1 where c1: "submit_stores uninit c = Inr c1" "mfold (start_load uninit) (ocm_reqs_to_load metadata) c1 = Inr c'"
    by (auto simp: cw_start_kv_transfers_def rbind_Inr_iff)
  have "cw_inv c1" using submit_stores_ok[OF c1(1)] cw_started by blast
  then show ?case by (rule mfold_Inr_inv[OF c1(2)]) (auto intro: start_load_ok)
next
  case (cw_prepared c metadata)
  have "cw_inv (fold prepare_store xs c)" if "cw_inv c" for xs c
    using that by (induction xs arbitrary: c) (auto intro: prepare_store_ok)
  with cw_prepared show ?case by (simp add: cw_prepare_store_kv_def)
next
  case (cw_finished c query fin r c')
  then show ?case using cw_get_finished_ok[of c hord query fin] by auto
qed (rule cw_registered_inv)

text \<open>
  C14 (functional): collecting finished transfers in any state the worker reaches does not fail and
  takes exactly the completed jobs off the queues. A request is reported as sent when it has finished
  generating (now or earlier), has stored something since it was last reported, and none of its
  stores is still deferred or in a queue; it is reported as received when its load has just completed.
\<close>

theorem transfers_reported_when_complete:
  assumes "cw_reachable hord spec c" "hash_order hord"
  shows "\<exists>sent received c'. cw_get_finished hord query fin c = Inr ((sent, received), c') \<and>
    set (unfinished c') = set (unfinished c) - completed_jobs query c \<and>
    (\<forall>r. r \<in> sent \<longleftrightarrow> (r \<in> cw_finished_reqs_waiting_for_store c \<or> r \<in> set fin) \<and>
       map_of (cw_store_jobs c) r \<noteq> None \<and> \<not> has_job c' r True) \<and>
    (\<forall>r. r \<in> received \<longleftrightarrow> has_job c r False \<and> \<not> has_job c' r False)"
  using cw_get_finished_ok[OF cw_reachable_inv[OF assms] assms(2)] by blast

text \<open>An example: one offloaded block of two GPU blocks is stored for the request \<^verbatim>\<open>r\<close>, which is preempted.\<close>

definition idle_handler :: SingleDirectionOffloadingHandler where
  "idle_handler = \<lparr>sd_src_tensors = [], sd_dst_tensors = [], sd_src_block_size_factor = 1, sd_dst_block_size_factor = 1,
     sd_block_size_in_bytes = [], sd_gpu_to_cpu = True, sd_transfer_events = [], sd_transfers = [], sd_stream_pool = [],
     sd_event_pool = [], sd_num_streams = 0, sd_num_events = 0\<rparr>"

definition cw_spec :: CPUOffloadingSpec where
  "cw_spec = \<lparr>os_gpu_block_size = 16, os_offloaded_block_size = 32, os_num_blocks = 10, os_eviction_policy = ''lru''\<rparr>"

definition cw_ready :: "OffloadingConnectorWorker result" where
  "cw_ready = cw_register_handlers (\<lambda>t split n. ([t, t], [example_tensor False, example_tensor False])) True cw_spec
     [(''layer'', example_tensor True)] [(''layer'', FlashAttentionBackend ''NHD'')] (OffloadingConnectorWorker_init (\<lambda>_. idle_handler))"

definition cw_metadata :: OffloadingConnectorMetadata where
  "cw_metadata = \<lparr>ocm_reqs_to_load = [],
     ocm_reqs_to_store = [(''r'', \<lparr>ls_medium = GPU_medium, ls_block_ids = [4, 5]\<rparr>, \<lparr>ls_medium = CPU_medium, ls_block_ids = [0]\<rparr>)]\<rparr>"

definition cw_preempt :: "((nat \<times> nat) set \<times> OffloadingConnectorWorker) result" where
  "cw_preempt = rbind cw_ready (\<lambda>c. cw_handle_preemptions (\<lambda>_. 0) {''r''} (cw_prepare_store_kv cw_metadata c))"

lemma cw_preempt_runs:
  obtains c events c' where "cw_reachable hord cw_spec c" "cw_handle_preemptions (\<lambda>_. 0) {''r''} c = Inr (events, c')"
    "cw_preempt = Inr (events, c')" "cw_reachable hord cw_spec c'"
proof -
  have "case cw_preempt of Inl _ \<Rightarrow> False | Inr _ \<Rightarrow> True" by code_simp
  then obtain c events c' where c: "cw_ready = Inr c"
    "cw_handle_preemptions (\<lambda>_. 0) {''r''} (cw_prepare_store_kv cw_metadata c) = Inr (events, c')" "cw_preempt = Inr (events, c')"
    by (auto simp: cw_preempt_def rbind_def split: sum.splits)
  have "cw_reachable hord cw_spec (cw_prepare_store_kv cw_metadata c)"
    by (rule cw_prepared[OF cw_registered[OF c(1)[unfolded cw_ready_def] example_positive]])
  from that[OF this c(2,3) cw_preempted[OF this c(2)]] show thesis .
qed

lemma nat_set_order: "hash_order (sorted_list_of_set :: nat set \<Rightarrow> nat list)"
  by (simp add: hash_order_def)

theorem transfers_reported_when_complete_witness:
  "\<exists>events c sent received c'. cw_preempt = Inr (events, c) \<and>
     cw_get_finished sorted_list_of_set (\<lambda>_ _. True) [''r''] c = Inr ((sent, received), c') \<and> ''r'' \<in> sent"
proof -
  obtain events c where c: "cw_preempt = Inr (events, c)" "cw_reachable sorted_list_of_set cw_spec c" by (rule cw_preempt_runs)
  have "case cw_preempt of Inl _ \<Rightarrow> False | Inr (_, c) \<Rightarrow>
      map_of (cw_store_jobs c) ''r'' \<noteq> None \<and> set (unfinished c) - completed_jobs (\<lambda>_ _. True) c = {}" by code_simp
  then have e: "map_of (cw_store_jobs c) ''r'' \<noteq> None" "set (unfinished c) - completed_jobs (\<lambda>_ _. True) c = {}"
    unfolding c(1) by simp_all
  from transfers_reported_when_complete[OF c(2) nat_set_order, of "\<lambda>_ _. True" "[''r'']"] obtain sent received c' where
    g: "cw_get_finished sorted_list_of_set (\<lambda>_ _. True) [''r''] c = Inr ((sent, received), c')"
    "set (unfinished c') = {}" "''r'' \<in> sent \<longleftrightarrow> \<not> has_job c' ''r'' True" using e by auto
  then have "''r'' \<in> sent" by (simp add: has_job_def)
  with c(1) g(1) show ?thesis by blast
qed

text \<open>
  C15 (safety): before the blocks of preempted requests are used again, the worker submits every
  deferred store and waits for the event of every store of those requests that is still in a queue;
  that event belongs to no other transfer of the handler.
\<close>

theorem preempted_stores_awaited:
  assumes "cw_reachable hord spec c" "hash_order hord" "cw_handle_preemptions uninit preempted c = Inr (events, c')"
    "r \<in> preempted" "j \<in> set (unfinished c')" "map_of (cw_jobs c') j = Some (r, True)"
  shows "cw_unsubmitted_store_jobs c' = [] \<and>
    (\<exists>a s e. (j, s, e) \<in> set (sd_transfers (handler_at c' a)) \<and> (a, e) \<in> events \<and>
       (\<forall>(j', s', e') \<in> set (sd_transfers (handler_at c' a)). e' = e \<longrightarrow> j' = j))"
proof -
  from assms(3) have s: "submit_stores uninit c = Inr c'"
    and ev: "events = (\<Union>r\<in>preempted. ow_wait (store_jobs_of c' r) (cw_worker c'))"
    by (auto simp: cw_handle_preemptions_def rbind_Inr_iff)
  note i = submit_stores_ok[OF s cw_reachable_inv[OF assms(1,2)]]
  then have t: "tables_ok [] c'" "worker_ok (cw_worker c')" by (simp_all add: cw_inv_def)
  have js: "j \<in> store_jobs_of c' r" using assms(6) by (simp add: store_job_iff[OF t(1)])
  from assms(5) i have "j \<in> set (queued_jobs (cw_worker c'))" by (simp add: unfinished_def)
  then obtain a where a: "a \<in> {0, 1}" "j \<in> set (pending_jobs (handler_at c' a))" by (auto simp: queued_jobs_def)
  have ok: "handler_ok (handler_at c' a)" "a \<in> ow_handlers (cw_worker c')" using t(2) a(1) by (auto simp: worker_ok_def)
  from sd_wait_pending[OF ok(1) a(2) js] obtain x e where
    x: "(j, x, e) \<in> set (sd_transfers (handler_at c' a))" "e \<in> sd_wait (store_jobs_of c' r) (handler_at c' a)" by blast
  have "(a, e) \<in> events" using x(2) ok(2) assms(4) by (auto simp: ev ow_wait_def)
  moreover have "distinct (map (\<lambda>(j, s, e). e) (sd_transfers (handler_at c' a)))" using ok(1) by (simp add: handler_ok_def)
  then have "\<forall>(j', s', e') \<in> set (sd_transfers (handler_at c' a)). e' = e \<longrightarrow> j' = j"
    using x(1) by (fastforce simp: distinct_map inj_on_def)
  ultimately show ?thesis using x(1) i by blast
qed

theorem preempted_stores_awaited_witness:
  "\<exists>events c a s e. cw_preempt = Inr (events, c) \<and> (0, s, e) \<in> set (sd_transfers (handler_at c a)) \<and> (a, e) \<in> events"
proof -
  obtain c0 events c where c: "cw_reachable sorted_list_of_set cw_spec c0"
    "cw_handle_preemptions (\<lambda>_. 0) {''r''} c0 = Inr (events, c)" "cw_preempt = Inr (events, c)" by (rule cw_preempt_runs)
  have "case cw_preempt of Inl _ \<Rightarrow> False | Inr (_, c) \<Rightarrow> 0 \<in> set (unfinished c) \<and> map_of (cw_jobs c) 0 = Some (''r'', True)" by code_simp
  then have "0 \<in> set (unfinished c)" "map_of (cw_jobs c) 0 = Some (''r'', True)" unfolding c(3) by simp_all
  from preempted_stores_awaited[OF c(1) nat_set_order c(2) _ this] c(3) show ?thesis by blast
qed

end
