(* ===== verification/Offload_Reachable.thy ===== *)
theory Offload_Reachable
  imports Offload_Safety
begin

text \<open>
  The states that the offloading connector reaches through the calls of the scheduler, and what holds
  in all of them.
\<close>

section \<open>Reachable connectors\<close>

text \<open>
  The scheduler allocates for a request that has no load in flight; fewer than $2^{31}$ requests load
  at a time; and the block hashes of a request differ, each being the hash of a longer prefix.
\<close>

inductive oc_reachable ::
  "(rat \<Rightarrow> rat) \<Rightarrow> (bytes set \<Rightarrow> bytes list) \<Rightarrow> (string set \<Rightarrow> string list) \<Rightarrow> CPUOffloadingSpec \<Rightarrow> OffloadingConnectorScheduler \<Rightarrow> bool"
  for rnd hord sord spec where
  oc_init: "\<lbrakk>OffloadingConnectorScheduler_init ev prefix_caching spec = Inr c; 0 \<le> os_num_blocks spec; os_num_blocks spec \<le> 2 ^ 53\<rbrakk>
    \<Longrightarrow> oc_reachable rnd hord sord spec c"
| oc_matched: "\<lbrakk>oc_reachable rnd hord sord spec c; oc_get_num_new_matched_tokens rnd request n c = Inr (r, c')\<rbrakk>
    \<Longrightarrow> oc_reachable rnd hord sord spec c'"
| oc_alloc: "\<lbrakk>oc_reachable rnd hord sord spec c; oc_update_state_after_alloc x request blocks n c = Inr c';
     distinct (block_hashes request); being (oc_reqs_being_loaded c) (request_id request) = {};
     int (length (oc_reqs_being_loaded c)) + 1 < 2 ^ 31\<rbrakk> \<Longrightarrow> oc_reachable rnd hord sord spec c'"
| oc_meta: "\<lbrakk>oc_reachable rnd hord sord spec c; oc_build_connector_meta rnd hord sord heap out c = Inr (meta, c');
     \<forall>x. distinct (block_hashes (heap x))\<rbrakk> \<Longrightarrow> oc_reachable rnd hord sord spec c'"
| oc_output: "\<lbrakk>oc_reachable rnd hord sord spec c; oc_update_connector_output hord kout c = Inr c'\<rbrakk>
    \<Longrightarrow> oc_reachable rnd hord sord spec c'"
| oc_finished: "\<lbrakk>oc_reachable rnd hord sord spec c; oc_request_finished request c = (r, c')\<rbrakk> \<Longrightarrow> oc_reachable rnd hord sord spec c'"
| oc_events: "\<lbrakk>oc_reachable rnd hord sord spec c; oc_take_events c = (es, c')\<rbrakk> \<Longrightarrow> oc_reachable rnd hord sord spec c'"

lemma matched_cases:
  assumes "oc_get_num_new_matched_tokens rnd request n c = Inr (r, c')"
  shows "\<exists>hs m. om_touch rnd (oc_manager c) hs = Inr m \<and> c' = c\<lparr>oc_manager := m\<rparr>"
  using assms
  by (auto simp: oc_get_num_new_matched_tokens_def Let_def rbind_Inr_iff split: if_splits option.splits)

lemma matched_inv: "\<lbrakk>oc_get_num_new_matched_tokens rnd request n c = Inr (r, c'); oc_inv c\<rbrakk> \<Longrightarrow> oc_inv c'"
  by (drule matched_cases) (auto simp: oc_inv_def dest: om_touch_keeps)

lemma build_meta_inv:
  assumes "oc_build_connector_meta rnd hord sord heap out c = Inr (meta, c')" "oc_inv c" "hash_order hord"
    "\<forall>x. distinct (block_hashes (heap x))"
  shows "oc_inv c'"
proof -
  from assms(1) obtain acc c1 where c1: "get_reqs_to_store rnd heap out c = Inr (acc, c1)"
    "mfold (complete_preempted hord) (sord (out_preempted_req_ids out)) (c1\<lparr>oc_reqs_to_load := []\<rparr>) = Inr c'"
    by (auto simp: oc_build_connector_meta_def rbind_Inr_iff)
  have "(\<lambda>(acc, c). oc_inv c) (acc, c1)"
    by (rule mfold_Inr_inv[OF c1(1)[unfolded get_reqs_to_store_def]])
      (use assms(2,4) store_request_inv in auto)
  then have "oc_inv (c1\<lparr>oc_reqs_to_load := []\<rparr>)" by (simp add: oc_inv_frame)
  from complete_preempted_all[OF this assms(3), of "sord (out_preempted_req_ids out)"] c1(2) show ?thesis by auto
qed

lemma take_events_get: "om_take_events m = (es, m') \<Longrightarrow> om_get m' = om_get m"
  by (cases m) (auto simp: lru_take_events_def arc_take_events_def split: option.splits)

lemma oc_reachable_inv:
  assumes "oc_reachable rnd hord sord spec c" "hash_order hord"
  shows "oc_inv c"
  using assms(1)
proof (induction rule: oc_reachable.induct)
  case (oc_init ev pc c)
  then obtain m where m: "get_manager ev spec = Inr m" "oc_manager c = m" "oc_reqs_being_stored c = []" "oc_reqs_being_loaded c = []"
    by (auto simp: OffloadingConnectorScheduler_init_def rbind_Inr_iff)
  have "om_get m h = None" for h
    using m(1) by (auto simp: get_manager_def Let_def LRUOffloadingManager_init_def ARCOffloadingManager_init_def
        lru_get_def arc_get_def split: if_splits)
  moreover have "om_ok m" using om_init_ok[OF m(1) oc_init(2,3)] by simp
  ultimately show ?case using m by (intro oc_invI) (auto simp: finite_sets_def in_flight_def status_ok_def)
next
  case (oc_output c kout c')
  then show ?case using update_connector_output_ok[OF oc_output.IH assms(2), of kout] by auto
next
  case (oc_finished c request r c')
  then show ?case by (auto simp: oc_request_finished_def Let_def oc_inv_frame)
next
  case (oc_events c es c')
  then obtain es' m where "om_take_events (oc_manager c) = (es', m)" "c' = c\<lparr>oc_manager := m\<rparr>"
    by (auto simp: oc_take_events_def split: prod.splits)
  moreover from this(1) have "om_ok m" "om_get m = om_get (oc_manager c)"
    using om_shape_steps(4)[OF oc_invD(1)[OF oc_events.IH]] take_events_get by auto
  ultimately show ?case using oc_events.IH by (simp add: oc_inv_def)
qed (blast intro: matched_inv update_state_after_alloc_inv build_meta_inv[OF _ _ assms(2)])+

section \<open>Reference counts\<close>

lemma in_flight_card:
  assumes "distinct (map fst d)"
  shows "in_flight d h = card {rid. h \<in> being d rid}"
proof -
  have "{rid. h \<in> being d rid} = fst ` set (filter (\<lambda>p. h \<in> snd p) d)"
  proof (rule set_eqI, rule iffI)
    fix r assume "r \<in> {rid. h \<in> being d rid}"
    then show "r \<in> fst ` set (filter (\<lambda>p. h \<in> snd p) d)"
      by (force simp: being_def split: option.splits dest: map_of_SomeD)
  next
    fix r assume "r \<in> fst ` set (filter (\<lambda>p. h \<in> snd p) d)"
    then obtain S where "(r, S) \<in> set d" "h \<in> S" by auto
    then show "r \<in> {rid. h \<in> being d rid}" using map_of_is_SomeI[OF assms] by (simp add: being_def)
  qed
  moreover have "distinct (map fst (filter (\<lambda>p. h \<in> snd p) d))" using assms by (simp add: distinct_map_filter)
  ultimately show ?thesis by (metis distinct_card in_flight_def length_map list.set_map)
qed

text \<open>
  C12 (safety): in every reachable state of the offloading connector, with either manager, a block that
  some request is storing is known, not ready, stored by that request alone and loaded by none; every
  other known block has as its reference count the number of requests that are loading it; and every
  block in flight is known. So the completions that the workers report are processed without an error,
  whatever they report.
\<close>

theorem offload_reference_counts:
  assumes "oc_reachable rnd hord sord spec c" "hash_order hord"
  shows "(\<forall>h rid. h \<in> being (oc_reqs_being_stored c) rid \<longrightarrow>
            (\<exists>b. om_get (oc_manager c) h = Some b \<and> bs_ref_cnt b = - 1) \<and>
            (\<forall>r. h \<in> being (oc_reqs_being_stored c) r \<longrightarrow> r = rid) \<and> (\<forall>r. h \<notin> being (oc_reqs_being_loaded c) r)) \<and>
         (\<forall>h b. om_get (oc_manager c) h = Some b \<and> (\<forall>r. h \<notin> being (oc_reqs_being_stored c) r) \<longrightarrow>
            bs_ref_cnt b = int (card {r. h \<in> being (oc_reqs_being_loaded c) r})) \<and>
         (\<forall>h r. h \<in> being (oc_reqs_being_loaded c) r \<longrightarrow> om_get (oc_manager c) h \<noteq> None) \<and>
         (\<forall>out. \<exists>c'. oc_update_connector_output hord out c = Inr c')"
proof -
  have inv: "oc_inv c" by (rule oc_reachable_inv[OF assms])
  note v = oc_invD[OF inv]
  have fin: "finite {r. h \<in> being d r}" if "finite_sets d" for h and d :: "(string, bytes set) dict"
    by (rule finite_subset[of _ "fst ` set d"]) (auto simp: being_def split: option.splits dest: map_of_SomeD intro: rev_image_eqI)
  have card: "in_flight d h = card {r. h \<in> being d r}" if "finite_sets d" for h and d :: "(string, bytes set) dict"
    using that by (intro in_flight_card) (simp add: finite_sets_def)
  have st: "status_ok (om_get (oc_manager c) h) (card {r. h \<in> being (oc_reqs_being_stored c) r}) (card {r. h \<in> being (oc_reqs_being_loaded c) r})" for h
    using v(5)[of h] by (simp add: card v(2,3))
  have z: "card {r. h \<in> being d r} = 0 \<longleftrightarrow> (\<forall>r. h \<notin> being d r)" if "finite_sets d" for h and d :: "(string, bytes set) dict"
    using fin[OF that] by auto
  have one: "r = r'" if "card {r. h \<in> being d r} = 1" "h \<in> being d r" "h \<in> being d r'" for h r r' and d :: "(string, bytes set) dict"
    using that by (metis (mono_tags, lifting) card_1_singletonE mem_Collect_eq singletonD)
  have 1: "(\<exists>b. om_get (oc_manager c) h = Some b \<and> bs_ref_cnt b = - 1) \<and>
      (\<forall>r. h \<in> being (oc_reqs_being_stored c) r \<longrightarrow> r = rid) \<and> (\<forall>r. h \<notin> being (oc_reqs_being_loaded c) r)"
    if h: "h \<in> being (oc_reqs_being_stored c) rid" for h rid
  proof -
    have "card {r. h \<in> being (oc_reqs_being_stored c) r} \<noteq> 0" using z[OF v(2)] h by blast
    with st[of h] have s: "card {r. h \<in> being (oc_reqs_being_stored c) r} = 1" "card {r. h \<in> being (oc_reqs_being_loaded c) r} = 0"
      "\<exists>b. om_get (oc_manager c) h = Some b \<and> bs_ref_cnt b = - 1"
      by (auto simp: status_ok_def split: option.splits)
    with one[OF s(1) _ h] z[OF v(3)] show ?thesis by blast
  qed
  have 2: "bs_ref_cnt b = int (card {r. h \<in> being (oc_reqs_being_loaded c) r})"
    if "om_get (oc_manager c) h = Some b" "\<forall>r. h \<notin> being (oc_reqs_being_stored c) r" for h b
    using st[of h] that by (simp add: status_ok_def)
  have 3: "om_get (oc_manager c) h \<noteq> None" if "h \<in> being (oc_reqs_being_loaded c) r" for h r
    using st[of h] z[OF v(3), of h] that by (auto simp: status_ok_def)
  have "\<exists>c'. oc_update_connector_output hord out c = Inr c'" for out
    using update_connector_output_ok[OF inv assms(2)] by blast
  with 1 2 3 show ?thesis by blast
qed

section \<open>An example\<close>

text \<open>One request of eight tokens; GPU blocks of two tokens, offloaded blocks of four.\<close>

definition oc_spec :: "string \<Rightarrow> CPUOffloadingSpec" where
  "oc_spec pol = \<lparr>os_gpu_block_size = 2, os_offloaded_block_size = 4, os_num_blocks = 2, os_eviction_policy = pol\<rparr>"

definition oc_request :: Request where
  "oc_request = (example_request ''r'' [1, 2, 3, 4, 5, 6, 7, 8] [])\<lparr>block_hashes := [[1], [2], [3], [4]]\<rparr>"

definition oc_out :: SchedulerOutput where
  "oc_out = \<lparr>out_scheduled_new_reqs = [NewRequestData_from_request oc_request [[10, 11, 12, 13]] None],
     out_scheduled_cached_reqs = CachedRequestData_make_empty, out_num_scheduled_tokens = [(''r'', 8)],
     out_total_num_scheduled_tokens = 8, out_scheduled_spec_decode_tokens = [], out_scheduled_encoder_inputs = [],
     out_num_common_prefix_blocks = [0], out_finished_req_ids = {}, out_free_encoder_mm_hashes = [],
     out_preempted_req_ids = {}, out_has_structured_output_requests = False, out_pending_structured_output_tokens = False,
     out_num_invalid_spec_tokens = None\<rparr>"

definition oc_scheduled :: "string \<Rightarrow> OffloadingConnectorScheduler result" where
  "oc_scheduled pol =
     rbind (OffloadingConnectorScheduler_init True True (oc_spec pol)) (oc_update_state_after_alloc 0 oc_request [[]] 0)"

definition oc_run :: "string \<Rightarrow> (OffloadingConnectorMetadata \<times> OffloadingConnectorScheduler) result" where
  "oc_run pol = rbind (oc_scheduled pol)
     (oc_build_connector_meta id sorted_list_of_set sorted_list_of_set (\<lambda>_. oc_request) oc_out)"

lemma oc_hashes: "distinct (block_hashes oc_request)"
  by (simp add: oc_request_def)

lemma oc_scheduled_reachable:
  assumes "oc_scheduled pol = Inr c"
  shows "oc_reachable rnd hord sord (oc_spec pol) c"
proof -
  from assms obtain c0 where c: "OffloadingConnectorScheduler_init True True (oc_spec pol) = Inr c0"
    "oc_update_state_after_alloc 0 oc_request [[]] 0 c0 = Inr c"
    by (auto simp: oc_scheduled_def rbind_Inr_iff)
  have b: "0 \<le> os_num_blocks (oc_spec pol)" "os_num_blocks (oc_spec pol) \<le> 2 ^ 53" by (simp_all add: oc_spec_def)
  have "oc_reqs_being_loaded c0 = []" using c(1) by (auto simp: OffloadingConnectorScheduler_init_def rbind_Inr_iff)
  then show ?thesis
    by (intro oc_alloc[OF oc_init[OF c(1) b] c(2) oc_hashes]) (simp_all add: being_def)
qed

lemma oc_run_lru: "\<exists>meta c. oc_run ''lru'' = Inr (meta, c) \<and> being (oc_reqs_being_stored c) ''r'' = {[2], [4]} \<and>
    ocm_reqs_to_store meta = [(''r'', \<lparr>ls_medium = GPU_medium, ls_block_ids = [10, 11, 12, 13]\<rparr>,
                                      \<lparr>ls_medium = CPU_medium, ls_block_ids = [0, 1]\<rparr>)]"
proof -
  have "case oc_run ''lru'' of Inl e \<Rightarrow> False | Inr (meta, c) \<Rightarrow> being (oc_reqs_being_stored c) ''r'' = {[2], [4]} \<and>
    ocm_reqs_to_store meta = [(''r'', \<lparr>ls_medium = GPU_medium, ls_block_ids = [10, 11, 12, 13]\<rparr>,
                                      \<lparr>ls_medium = CPU_medium, ls_block_ids = [0, 1]\<rparr>)]"
    by code_simp
  then show ?thesis by (auto split: sum.splits)
qed

lemma oc_run_reachable:
  assumes "oc_run pol = Inr (meta, c)"
  shows "oc_reachable id sorted_list_of_set sorted_list_of_set (oc_spec pol) c"
proof -
  from assms obtain c0 where c: "oc_scheduled pol = Inr c0"
    "oc_build_connector_meta id sorted_list_of_set sorted_list_of_set (\<lambda>_. oc_request) oc_out c0 = Inr (meta, c)"
    by (auto simp: oc_run_def rbind_Inr_iff)
  show ?thesis by (rule oc_meta[OF oc_scheduled_reachable[OF c(1)] c(2)]) (simp add: oc_hashes)
qed

lemma sorted_hash_order: "hash_order sorted_list_of_set"
  by (simp add: hash_order_def)

theorem offload_reference_counts_witness:
  "\<exists>c b. oc_reachable id sorted_list_of_set sorted_list_of_set (oc_spec ''lru'') c \<and>
     [2] \<in> being (oc_reqs_being_stored c) ''r'' \<and> om_get (oc_manager c) [2] = Some b \<and> bs_ref_cnt b = - 1"
proof -
  obtain meta c where c: "oc_run ''lru'' = Inr (meta, c)" "being (oc_reqs_being_stored c) ''r'' = {[2], [4]}"
    using oc_run_lru by blast
  have m: "[2] \<in> being (oc_reqs_being_stored c) ''r''" using c(2) by simp
  from offload_reference_counts[OF oc_run_reachable[OF c(1)] sorted_hash_order] m
  obtain b where "om_get (oc_manager c) [2] = Some b" "bs_ref_cnt b = - 1" by blast
  with oc_run_reachable[OF c(1)] m show ?thesis by blast
qed

section \<open>The connector with the adaptive manager\<close>

definition nothing_offloaded :: "int \<Rightarrow> OffloadingConnectorScheduler \<Rightarrow> bool" where
  "nothing_offloaded n c \<longleftrightarrow> (\<exists>a. oc_manager c = ARC a) \<and> om_ok (oc_manager c) \<and> om_sized n (oc_manager c) \<and> (\<forall>h. om_get (oc_manager c) h = None) \<and>
     (\<forall>r. being (oc_reqs_being_stored c) r = {}) \<and> (\<forall>r. being (oc_reqs_being_loaded c) r = {})"

lemma om_touch_class: "\<lbrakk>om_touch rnd (ARC a) hs = Inr m\<rbrakk> \<Longrightarrow> \<exists>b. m = ARC b"
  by (auto simp: rbind_Inr_iff)

lemma being_update: "being (AList.update k S d) r = (if r = k then S else being d r)"
  by (simp add: being_def map_of_update)

lemma being_delete: "being (AList.delete k d) r = (if r = k then {} else being d r)"
  by (simp add: being_def map_of_delete)

lemma nothing_offloaded_touch:
  "\<lbrakk>nothing_offloaded N c; om_touch rnd (oc_manager c) hs = Inr m\<rbrakk> \<Longrightarrow> nothing_offloaded N (c\<lparr>oc_manager := m\<rparr>)"
  using om_touch_keeps[of "oc_manager c" rnd hs m] om_sized_steps(6)[of N "oc_manager c" rnd hs m] om_touch_class[of rnd _ hs m]
  by (auto simp: nothing_offloaded_def)

lemma nothing_offloaded_frame:
  "nothing_offloaded N (oc_requests_update a c) = nothing_offloaded N c" "nothing_offloaded N (oc_request_block_ids_update b c) = nothing_offloaded N c"
  "nothing_offloaded N (oc_reqs_to_load_update e c) = nothing_offloaded N c" "nothing_offloaded N (oc_next_stored_block_idx_update g c) = nothing_offloaded N c"
  "nothing_offloaded N (oc_blocks_being_loaded_update i c) = nothing_offloaded N c"
  by (simp_all add: nothing_offloaded_def)

lemma nothing_offloaded_track: "\<lbrakk>track_blocks rid groups pre c = Inr c'; nothing_offloaded N c\<rbrakk> \<Longrightarrow> nothing_offloaded N c'"
  by (auto simp: track_blocks_def Let_def rbind_Inr_iff nothing_offloaded_frame split: option.splits list.splits if_splits)

lemma nothing_offloaded_store:
  assumes "store_request rnd heap out (rid, groups, pre) (acc, c) = Inr (acc', c')" "nothing_offloaded N c"
    and hashes: "\<And>x. distinct (block_hashes (heap x))"
  shows "nothing_offloaded N c'"
  using assms(1)
proof (cases rule: store_request_cases)
  case skip
  then show ?thesis using assms(2) by (rule nothing_offloaded_track)
next
  case (store c1 x i j hs r m)
  have n: "nothing_offloaded N c1" by (rule nothing_offloaded_track[OF store(1) assms(2)])
  then obtain a where a: "oc_manager c1 = ARC a" "arc_ok a" by (auto simp: nothing_offloaded_def)
  have dist: "distinct hs" by (rule get_block_hashes_distinct[OF store(2) hashes])
  obtain a' where a': "m = ARC a'" using store(3) a(1) by (auto simp: rbind_Inr_iff)
  have sized: "om_sized N m" using om_sized_steps(5)[OF _ store(3)] n by (simp add: nothing_offloaded_def)
  from om.prepare_store[of "ARC a", OF _ dist] store(3) a have m: "om_ok m" and
    r: "case r of Some so \<Rightarrow> store_prepared (om_get (ARC a)) hs so (om_get m)
      | None \<Rightarrow> \<forall>h. om_get m h = om_get (ARC a) h \<or> om_get m h = None \<and> (\<exists>b. om_get (ARC a) h = Some b \<and> bs_ref_cnt b = 0)"
    by auto
  have e: "om_get (ARC a) h = None" for h using n a(1) by (simp add: nothing_offloaded_def)
  show ?thesis
  proof (cases r)
    case None
    then have "om_get m h = None" for h using r e by simp
    with None n m a' sized store(4) show ?thesis by (simp add: store_outcome_def nothing_offloaded_def)
  next
    case (Some so)
    then have sp: "store_prepared (om_get (ARC a)) hs so (om_get m)" using r by simp
    show ?thesis
    proof (cases "block_hashes_to_store so = []")
      case True
      then have "om_get m h = None" for h using sp e by (simp add: store_prepared_def)
      with True Some n m a' sized store(4) show ?thesis by (auto simp: store_outcome_def nothing_offloaded_def)
    next
      case False
      then obtain k where k: "k \<in> set (block_hashes_to_store so)" by (meson list.set_sel(1))
      then have "k \<in> set hs" using sp by (simp add: store_prepared_def)
      then have "om_touch rnd m hs2 = Inl KeyError" if "set hs \<subseteq> set hs2" for hs2
        using arc_store_then_touch[OF a(2) dist _ k, of m hs2 rnd] store(3) a(1) Some that by auto
      with False Some store(4) show ?thesis by (auto simp: store_outcome_def)
    qed
  qed
qed

lemma nothing_offloaded_meta:
  assumes "oc_build_connector_meta rnd hord sord heap out c = Inr (meta, c')" "nothing_offloaded N c"
    "\<forall>x. distinct (block_hashes (heap x))"
  shows "nothing_offloaded N c'"
proof -
  from assms(1) obtain acc c1 where c1: "get_reqs_to_store rnd heap out c = Inr (acc, c1)"
    "mfold (complete_preempted hord) (sord (out_preempted_req_ids out)) (c1\<lparr>oc_reqs_to_load := []\<rparr>) = Inr c'"
    by (auto simp: oc_build_connector_meta_def rbind_Inr_iff)
  have "(\<lambda>(acc, c). nothing_offloaded N c) (acc, c1)"
    by (rule mfold_Inr_inv[OF c1(1)[unfolded get_reqs_to_store_def]])
      (use assms(2,3) nothing_offloaded_store in auto)
  then have "nothing_offloaded N (c1\<lparr>oc_reqs_to_load := []\<rparr>)" by (simp add: nothing_offloaded_frame)
  then show ?thesis
    by (rule mfold_Inr_inv[OF c1(2)]) (auto simp: complete_preempted_def nothing_offloaded_def)
qed

lemma nothing_offloaded_output:
  assumes "oc_update_connector_output hord out c = Inr c'" "nothing_offloaded N c"
  shows "nothing_offloaded N c'"
proof -
  from assms(1) obtain c1 where c1: "mfold (finish_sending hord) (finished_sending out) c = Inr c1"
    "mfold (finish_recving hord) (finished_recving out) c1 = Inr c'"
    by (auto simp: oc_update_connector_output_def rbind_Inr_iff)
  have "nothing_offloaded N c1"
    by (rule mfold_Inr_inv[OF c1(1), where I = "nothing_offloaded N"]) (use assms(2) in \<open>auto simp: finish_sending_def nothing_offloaded_def being_delete split: if_splits\<close>)
  then show ?thesis
    by (rule mfold_Inr_inv[OF c1(2)]) (auto simp: finish_recving_def nothing_offloaded_def being_delete split: if_splits)
qed

lemma nothing_offloaded_alloc:
  assumes "oc_update_state_after_alloc x request blocks n c = Inr c'" "nothing_offloaded N c" "distinct (block_hashes request)"
  shows "nothing_offloaded N c'"
proof (cases "n = 0")
  case True
  then show ?thesis using assms(1,2) by (auto simp: oc_update_state_after_alloc_def Let_def nothing_offloaded_frame)
next
  case False
  let ?rid = "request_id request"
  have b: "being (oc_reqs_being_loaded c) ?rid = {}" using assms(2) by (simp add: nothing_offloaded_def)
  from False assms(1) obtain hs spec m i j c1 L t nx where
    h: "get_block_hashes c1 request i j = Inr hs" "om_prepare_load (oc_manager c) hs = Inr (spec, m)"
    and c': "c' = c1\<lparr>oc_manager := m, oc_reqs_to_load := t,
       oc_reqs_being_loaded := AList.update ?rid (set hs) (oc_reqs_being_loaded c),
       oc_next_stored_block_idx := nx, oc_blocks_being_loaded := L\<rparr>"
    and c1: "oc_reqs_being_stored c1 = oc_reqs_being_stored c"
    by (auto simp: oc_update_state_after_alloc_def Let_def rbind_Inr_iff b)
  have "distinct hs" by (rule get_block_hashes_distinct[OF h(1) assms(3)])
  then have "h \<notin> set hs" for h
    using om_prepare_load_ready[OF h(2), of h] assms(2) by (auto simp: nothing_offloaded_def ready_in_def)
  then have hs: "hs = []" by (cases hs) auto
  obtain a where a: "oc_manager c = ARC a" "arc_ok a" using assms(2) by (auto simp: nothing_offloaded_def)
  have "m = ARC a" using h(2) by (auto simp: hs a arc_prepare_load_def rbind_Inr_iff)
  with assms(2) c1 a show ?thesis by (simp add: c' nothing_offloaded_def being_update hs)
qed

text \<open>The offloaded blocks of a scheduled request that are complete after the step and not stored yet.\<close>

definition complete_blocks ::
  "(nat \<Rightarrow> Request) \<Rightarrow> SchedulerOutput \<Rightarrow> string \<times> int list list option \<times> bool \<Rightarrow> OffloadingConnectorScheduler \<Rightarrow> bytes list result" where
  "complete_blocks heap out = (\<lambda>(rid, groups, preempted) c.
     rbind (track_blocks rid groups preempted c) (\<lambda>c.
     rbind (dict_item (oc_request_block_ids c) rid) (\<lambda>_.
     rbind (dict_item (oc_requests c) rid) (\<lambda>x.
     rbind (dict_item (out_num_scheduled_tokens out) rid) (\<lambda>new_tokens.
     rbind (py_floordiv (num_computed_tokens (heap x) + new_tokens) (oc_offloaded_block_size c)) (\<lambda>num_blocks.
     let first = (case map_of (oc_next_stored_block_idx c) rid of None \<Rightarrow> 0 | Some i \<Rightarrow> i) in
     if num_blocks \<le> first then Inr [] else get_block_hashes c (heap x) first (Some num_blocks)))))))"

lemma arc_empty_store:
  assumes "arc_ok a" "cb_num_blocks (arc_backend a) = N" "\<And>h. arc_get a h = None" "distinct hs" "int (length hs) \<le> N"
  shows "\<exists>so m. om_prepare_store (ARC a) hs = Inr (Some so, m) \<and> block_hashes_to_store so = hs"
proof -
  have "map_of (arc_blocks a) h = None" for h using assms(3) by (simp add: arc_get_blocks)
  then have "arc_blocks a = []" by (cases "arc_blocks a") (force split: if_splits)+
  then have "arc_ids a = {#}" by (simp add: arc_ids_def)
  then have free: "cpu_get_num_free_blocks (arc_backend a) = N"
    using assms(1,2) cpu_owned_num_free[of "arc_backend a" "{#}"] by (simp add: arc_ok_def)
  from arc_prepare_store_ok[OF assms(1,4)] obtain r m' where r: "arc_prepare_store a hs = Inr (r, m')"
    "case r of Some so \<Rightarrow> store_prepared (arc_get a) hs so (arc_get m') | None \<Rightarrow> True"
    by (auto split: option.splits)
  have "nat (int (length (filter P hs)) - N) = 0" for P
    using assms(5) length_filter_le[of P hs] by linarith
  then have "r \<noteq> None" using r(1) by (auto simp: arc_prepare_store_def Let_def free rbind_Inr_iff split: if_splits)
  with r assms(3) show ?thesis by (auto simp: store_prepared_def)
qed

lemma arc_store_raises:
  assumes n: "nothing_offloaded N c" and offered: "complete_blocks heap out (rid, groups, pre) c = Inr hs" "hs \<noteq> []" "int (length hs) \<le> N"
    and hashes: "\<And>x. distinct (block_hashes (heap x))"
  shows "store_request rnd heap out (rid, groups, pre) (acc, c) = Inl KeyError"
proof -
  from offered(1,2) obtain c1 ids x tok nb first where c1: "track_blocks rid groups pre c = Inr c1"
    "dict_item (oc_request_block_ids c1) rid = Inr ids" "dict_item (oc_requests c1) rid = Inr x"
    "dict_item (out_num_scheduled_tokens out) rid = Inr tok"
    "py_floordiv (num_computed_tokens (heap x) + tok) (oc_offloaded_block_size c1) = Inr nb"
    and first: "first = (case map_of (oc_next_stored_block_idx c1) rid of None \<Rightarrow> 0 | Some i \<Rightarrow> i)" "first < nb"
    and hs: "get_block_hashes c1 (heap x) first (Some nb) = Inr hs"
    by (auto simp: complete_blocks_def rbind_Inr_iff Let_def split: if_splits)
  have "nothing_offloaded N c1" by (rule nothing_offloaded_track[OF c1(1) n])
  then obtain a where a: "oc_manager c1 = ARC a" "arc_ok a" "cb_num_blocks (arc_backend a) = N" "\<And>h. arc_get a h = None"
    by (auto simp: nothing_offloaded_def)
  have dist: "distinct hs" by (rule get_block_hashes_distinct[OF hs hashes])
  from arc_empty_store[OF a(2-4) dist offered(3)] obtain so m where
    st: "om_prepare_store (ARC a) hs = Inr (Some so, m)" "block_hashes_to_store so = hs" by blast
  obtain hs0 where hs0: "get_block_hashes c1 (heap x) 0 (Some nb) = Inr hs0"
    using hs by (auto simp: get_block_hashes_def islice_def Let_def split: if_splits)
  have "hd hs \<in> set hs0" using get_block_hashes_subset[OF hs hs0] offered(2) by auto
  then have "om_touch rnd m hs0 = Inl KeyError"
    using arc_store_then_touch[OF a(2) dist st(1), of "hd hs"] offered(2) st(2) by simp
  then show ?thesis
    using first(2) offered(2)
    by (simp add: store_request_def c1 Let_def first(1)[symmetric] hs a(1) st get_block_hashes_frame hs0 del: om_prepare_store.simps)
qed

lemma nothing_offloaded_reachable:
  assumes "oc_reachable rnd hord sord spec c" "os_eviction_policy spec = ''arc''"
  shows "nothing_offloaded (os_num_blocks spec) c"
  using assms(1)
proof (induction rule: oc_reachable.induct)
  case (oc_init ev pc c)
  then obtain m where m: "get_manager ev spec = Inr m" "oc_manager c = m" "oc_reqs_being_stored c = []" "oc_reqs_being_loaded c = []"
    by (auto simp: OffloadingConnectorScheduler_init_def rbind_Inr_iff)
  define a where "a = ARCOffloadingManager_init (CPUBackend_init (os_offloaded_block_size spec) (os_num_blocks spec)) ev"
  have "m = ARC a" using m(1) assms(2) by (simp add: get_manager_def a_def)
  moreover have "\<forall>h. arc_get a h = None" by (simp add: a_def ARCOffloadingManager_init_def arc_get_def)
  ultimately show ?case using m om_init_ok[OF m(1) oc_init(2,3)] by (simp add: nothing_offloaded_def being_def)
next
  case (oc_matched c request n r c')
  then show ?case using matched_cases[OF oc_matched(2)] nothing_offloaded_touch by blast
next
  case (oc_finished c request r c')
  then show ?case by (auto simp: oc_request_finished_def Let_def nothing_offloaded_frame)
next
  case (oc_events c es c')
  then obtain es' m where m: "om_take_events (oc_manager c) = (es', m)" "c' = c\<lparr>oc_manager := m\<rparr>"
    by (auto simp: oc_take_events_def split: prod.splits)
  with oc_events.IH obtain a where a: "oc_manager c = ARC a" by (auto simp: nothing_offloaded_def)
  then obtain a' where "m = ARC a'" using m(1) by (auto split: prod.splits)
  with oc_events.IH m om_shape_steps(4)[OF _ m(1)] om_sized_steps(4)[OF _ m(1)] take_events_get[OF m(1)] show ?case by (simp add: nothing_offloaded_def)
qed (blast intro: nothing_offloaded_alloc nothing_offloaded_meta nothing_offloaded_output)+

text \<open>
  C37 (error): with the adaptive manager the connector never offloads a block. In every state that it
  reaches without an exception the manager is empty and no transfer is in flight. And the step that
  should store raises: when the requests before the one at hand were processed, and that request has
  new complete blocks, at most as many as the backend holds, then \<^verbatim>\<open>build_connector_meta\<close> raises
  \<^verbatim>\<open>KeyError\<close>: it prepares the store, then touches the same blocks, and the touch of a block that
  is not ready removes it from the first list and asks for it again.
\<close>

theorem arc_connector_never_offloads:
  assumes "oc_reachable rnd hord sord spec c" "os_eviction_policy spec = ''arc''"
  shows "(\<forall>h. om_get (oc_manager c) h = None) \<and>
    (\<forall>r. being (oc_reqs_being_stored c) r = {} \<and> being (oc_reqs_being_loaded c) r = {}) \<and>
    (\<forall>heap out before req after acc c' hs.
       (\<forall>x. distinct (block_hashes (heap x))) \<and> yield_req_data out = before @ req # after \<and>
       mfold (store_request rnd heap out) before ([], c) = Inr (acc, c') \<and>
       complete_blocks heap out req c' = Inr hs \<and> hs \<noteq> [] \<and> int (length hs) \<le> os_num_blocks spec \<longrightarrow>
       oc_build_connector_meta rnd hord sord heap out c = Inl KeyError)"
proof -
  note n = nothing_offloaded_reachable[OF assms]
  have "oc_build_connector_meta rnd hord sord heap out c = Inl KeyError"
    if heap: "\<forall>x. distinct (block_hashes (heap x))" and out: "yield_req_data out = before @ req # after"
      and run: "mfold (store_request rnd heap out) before ([], c) = Inr (acc, c')"
      and offered: "complete_blocks heap out req c' = Inr hs" "hs \<noteq> []" "int (length hs) \<le> os_num_blocks spec"
    for heap out before req after acc c' hs
  proof -
    have "(\<lambda>(acc, c). nothing_offloaded (os_num_blocks spec) c) (acc, c')"
      by (rule mfold_Inr_inv[OF run]) (use n heap nothing_offloaded_store in auto)
    then have n': "nothing_offloaded (os_num_blocks spec) c'" by simp
    obtain rid groups pre where req: "req = (rid, groups, pre)" by (metis prod_cases3)
    have "store_request rnd heap out req (acc, c') = Inl KeyError"
      using arc_store_raises[OF n' offered[unfolded req]] heap by (simp add: req)
    then show ?thesis by (simp add: oc_build_connector_meta_def get_reqs_to_store_def out mfold_append run)
  qed
  with n show ?thesis unfolding nothing_offloaded_def by blast
qed

text \<open>The example above with the adaptive manager: the step has two blocks to store.\<close>

theorem arc_connector_never_offloads_witness:
  "\<exists>c. oc_scheduled ''arc'' = Inr c \<and>
     complete_blocks (\<lambda>_. oc_request) oc_out (hd (yield_req_data oc_out)) c = Inr [[2], [4]] \<and>
     oc_build_connector_meta id sorted_list_of_set sorted_list_of_set (\<lambda>_. oc_request) oc_out c = Inl KeyError"
proof -
  have "case oc_scheduled ''arc'' of Inl e \<Rightarrow> False
    | Inr c \<Rightarrow> complete_blocks (\<lambda>_. oc_request) oc_out (hd (yield_req_data oc_out)) c = Inr [[2], [4]]" by code_simp
  then obtain c where c: "oc_scheduled ''arc'' = Inr c"
    "complete_blocks (\<lambda>_. oc_request) oc_out (hd (yield_req_data oc_out)) c = Inr [[2], [4]]" by (auto split: sum.splits)
  obtain req after where out: "yield_req_data oc_out = [] @ req # after" by (simp add: yield_req_data_def oc_out_def)
  have spec: "os_eviction_policy (oc_spec ''arc'') = ''arc''" "int (length [[2], [4 :: 8 word]]) \<le> os_num_blocks (oc_spec ''arc'')"
    by (simp_all add: oc_spec_def)
  from c(2) out have "complete_blocks (\<lambda>_. oc_request) oc_out req c = Inr [[2], [4]]" by simp
  with arc_connector_never_offloads[OF oc_scheduled_reachable[OF c(1)] spec(1)] spec(2) out oc_hashes
  have "oc_build_connector_meta id sorted_list_of_set sorted_list_of_set (\<lambda>_. oc_request) oc_out c = Inl KeyError"
    by (metis list.distinct(1) mfold.simps(1))
  with c show ?thesis by blast
qed

end
