(* ===== verification/Offload_Accepted.thy ===== *)
theory Offload_Accepted
  imports Offload_Finished Offload_Reachable
begin

text \<open>
  The two sides of the connector together: the transfers that the scheduler side asks for have the shape
  that the handlers of the worker side insist on, so that none is refused.
\<close>

section \<open>Transfers with matching lengths\<close>

lemma slice_assign_fits:
  "idx + length vals \<le> length ys \<Longrightarrow> \<exists>out. slice_assign idx vals ys = Inr out \<and> length out = length ys"
  by (simp add: slice_assign_def)

lemma expand_fits:
  assumes "1 \<le> f" "0 \<le> skip" "skip < f"
    and "int idx + int (length ids) * f - (if i = 0 \<and> ids \<noteq> [] then skip else 0) \<le> int (length ys)"
  shows "\<exists>r. mfold (expand_one f skip) (enumerate i ids) (idx, ys) = Inr r"
  using assms(4)
proof (induction ids arbitrary: i idx ys)
  case (Cons b ids)
  let ?ix = "if i = 0 then [skip..f - 1] else [0..f - 1]"
  have len: "int (length ?ix) = f - (if i = 0 then skip else 0)" using assms(1-3) by simp
  have "0 \<le> int (length ids) * f" using assms(1) by simp
  then have "idx + length ?ix \<le> length ys" using Cons.prems len by (simp add: algebra_simps split: if_splits)
  then obtain out where o: "slice_assign idx (map (\<lambda>k. c_int64 (c_int64 (b * f) + k)) ?ix) ys = Inr out" "length out = length ys"
    using slice_assign_fits[of idx "map (\<lambda>k. c_int64 (c_int64 (b * f) + k)) ?ix" ys] by auto
  have "\<exists>r. mfold (expand_one f skip) (enumerate (Suc i) ids) (idx + length ?ix, out) = Inr r"
    using Cons.prems len o(2) by (intro Cons.IH) (simp add: algebra_simps split: if_splits)
  then show ?case using o(1) by (simp add: expand_one_def Let_def)
qed simp

lemma expand_block_ids_fits:
  assumes "1 \<le> f" "0 \<le> skip" "skip < f" "int (length ys) = int (length ids) * f - skip" "ids \<noteq> [] \<or> skip = 0"
  shows "\<exists>out. expand_block_ids ids f ys skip = Inr out"
proof -
  have "\<exists>r. mfold (expand_one f skip) (enumerate 0 ids) (0, ys) = Inr r"
    using assms by (intro expand_fits) auto
  then show ?thesis using assms(3) by (auto simp: expand_block_ids_def)
qed

lemma src_to_dst_accepts:
  assumes "0 < sd_src_block_size_factor h" "0 < sd_dst_block_size_factor h"
    and "int (length (ls_block_ids dst)) * sd_dst_block_size_factor h =
      int (length (ls_block_ids src)) * sd_src_block_size_factor h - (- int (length (ls_block_ids dst))) mod sd_src_block_size_factor h"
  shows "\<exists>m. src_to_dst uninit h src dst = Inr m"
proof -
  let ?fs = "sd_src_block_size_factor h" and ?fd = "sd_dst_block_size_factor h"
  let ?n = "int (length (ls_block_ids dst)) * ?fd" and ?skip = "(- int (length (ls_block_ids dst))) mod ?fs"
  let ?o = "map uninit [0..<nat ?n]"
  have n: "0 \<le> ?n" "int (length ?o) = ?n" using assms(2) by simp_all
  have sk: "0 \<le> ?skip" "?skip < ?fs" using assms(1) by simp_all
  have ne: "ls_block_ids src \<noteq> [] \<or> ?skip = 0" using n(1) assms(3) sk(1) by (cases "ls_block_ids src = []") auto
  have "\<exists>out. expand_block_ids (ls_block_ids src) ?fs ?o ?skip = Inr out"
    using assms(1) sk n(2) ne unfolding assms(3) by (intro expand_block_ids_fits) simp_all
  moreover have "\<exists>out. expand_block_ids (ls_block_ids dst) ?fd ?o 0 = Inr out"
    using assms(2) n(2) by (intro expand_block_ids_fits) simp_all
  ultimately show ?thesis using assms(1,3) by (auto simp: src_to_dst_def Let_def)
qed

section \<open>The number of hashes\<close>

lemma islice_hashes:
  fixes f :: nat
  assumes "0 < f"
  shows "filter (\<lambda>i. f * s + f - 1 \<le> i \<and> (i - (f * s + f - 1)) mod f = 0) [0..<f * e] = map (\<lambda>k. f * k + f - 1) [s..<e]"
proof (induction e)
  case (Suc e)
  let ?P = "\<lambda>i. f * s + f - 1 \<le> i \<and> (i - (f * s + f - 1)) mod f = 0"
  have split: "[0..<f * Suc e] = [0..<f * e] @ [f * e..<f * e + f - 1] @ [f * e + f - 1]"
    using assms upt_add_eq_append[of 0 "f * e" f] upt_Suc_append[of "f * e" "f * e + f - 1"] by (simp add: algebra_simps)
  have no: "\<not> ?P i" if i: "f * e \<le> i" "i < f * e + f - 1" for i
  proof
    assume p: "?P i"
    then obtain q where "i - (f * s + f - 1) = f * q" by (auto elim: dvdE)
    then have "i = f * (s + q) + (f - 1)" using p assms by (simp add: algebra_simps)
    then have "i mod f = f - 1" using mod_mult_self4[of f "s + q" "f - 1"] assms by simp
    moreover have d: "i = f * e + (i - f * e)" "i - f * e < f - 1" using i by simp_all
    then have "i mod f = i - f * e" using mod_mult_self4[of f e "i - f * e"] by simp
    ultimately show False using d(2) by simp
  qed
  have last: "?P (f * e + f - 1) \<longleftrightarrow> s \<le> e"
  proof
    assume "?P (f * e + f - 1)"
    then have "f * s \<le> f * e" using assms by linarith
    then show "s \<le> e" using assms by simp
  next
    assume "s \<le> e"
    then obtain d where "e = s + d" using le_Suc_ex by blast
    then show "?P (f * e + f - 1)" using assms by (simp add: algebra_simps)
  qed
  have "filter ?P [f * e..<f * e + f - 1] = []" using no by (auto simp: filter_empty_conv)
  then have "filter ?P [0..<f * Suc e] = map (\<lambda>k. f * k + f - 1) [s..<e] @ filter ?P [f * e + f - 1]"
    unfolding split by (simp only: filter_append Suc.IH append_Nil)
  then show ?case using last by simp
qed simp

lemma get_block_hashes_length:
  assumes "get_block_hashes c req s (Some e) = Inr hs" "0 < oc_block_size_factor c" "0 \<le> s" "s \<le> e" "0 < e"
    and "oc_block_size_factor c * e \<le> int (length (block_hashes req))"
  shows "int (length hs) = e - s"
proof -
  obtain f where f: "oc_block_size_factor c = int f" "0 < f" using assms(2) zero_less_imp_eq_int by blast
  obtain s' e' where se: "s = int s'" "e = int e'" using assms(3,5) by (metis less_imp_le nonneg_int_cases)
  have n: "nat (int f * int s' + int f - 1) = f * s' + f - 1" "nat (int f * int e') = f * e'"
    by (simp_all add: nat_diff_distrib' nat_add_distrib nat_mult_distrib)
  have le: "min (f * e') (length (block_hashes req)) = f * e'" using assms(6) by (simp add: f se flip: of_nat_mult)
  have "hs = map ((!) (block_hashes req)) (map (\<lambda>k. f * k + f - 1) [s'..<e'])"
    using assms(1,5) unfolding islice_hashes[OF f(2), symmetric]
    by (auto simp: get_block_hashes_def Let_def islice_def f se n le split: if_splits)
  then show ?thesis using assms(4) by (simp add: se)
qed

section \<open>Loads\<close>

lemma values_update: "snd ` set (AList.update k v d) \<subseteq> insert v (snd ` set d)"
  by (induction d) auto

definition load_fits :: "int \<Rightarrow> TransferSpec \<Rightarrow> bool" where
  "load_fits f = (\<lambda>(src, dst). ls_medium src = CPU_medium \<and> ls_medium dst = GPU_medium \<and>
     int (length (ls_block_ids dst)) = int (length (ls_block_ids src)) * f - (- int (length (ls_block_ids dst))) mod f)"

definition store_fits :: "int \<Rightarrow> TransferSpec \<Rightarrow> bool" where
  "store_fits f = (\<lambda>(src, dst). ls_medium src = GPU_medium \<and> ls_medium dst = CPU_medium \<and>
     int (length (ls_block_ids src)) = int (length (ls_block_ids dst)) * f)"

lemma mfold_load_length:
  "mfold lru_load_one hs (bs, m) = Inr (bs', m') \<Longrightarrow> length bs' = length bs + length hs"
  "mfold arc_load_one hs (bs, a) = Inr (bs', a') \<Longrightarrow> length bs' = length bs + length hs"
  by (induction hs arbitrary: bs m a)
    (auto simp: lru_load_one_def arc_load_one_def rbind_Inr_iff Let_def split: sum.splits option.splits)

lemma om_prepare_load_shape:
  "om_prepare_load m hs = Inr (spec, m') \<Longrightarrow> ls_medium spec = CPU_medium \<and> length (ls_block_ids spec) = length hs"
  by (cases m) (auto simp: lru_prepare_load_def arc_prepare_load_def rbind_Inr_iff get_load_store_spec_def CPULoadStoreSpec_def
      int64_array_def split: if_splits dest!: mfold_load_length)

lemma GPULoadStoreSpec_shape: "GPULoadStoreSpec ids = Inr spec \<Longrightarrow> ls_medium spec = GPU_medium \<and> ls_block_ids spec = ids"
  by (auto simp: GPULoadStoreSpec_def int64_array_def rbind_Inr_iff split: if_splits)

text \<open>The GPU blocks of a load, when the offloaded blocks end where the GPU blocks end.\<close>

lemma load_lengths:
  fixes f L k :: int
  assumes "0 < f" "f dvd L" "0 \<le> k" "k \<le> L"
  shows "L - k = (L div f - k div f) * f - (- (L - k)) mod f"
proof -
  obtain q where q: "L = f * q" using assms(2) by (elim dvdE)
  have "(- (L - k)) mod f = k mod f" unfolding q using mod_mult_self4[of f "- q" k] by (simp add: algebra_simps)
  moreover have "(L div f - k div f) * f = L - (k - k mod f)"
    using assms(1) unfolding minus_mod_eq_mult_div by (simp add: q algebra_simps)
  ultimately show ?thesis by simp
qed

definition oc_config :: "OffloadingConnectorScheduler \<Rightarrow> int \<times> int \<times> int" where
  "oc_config c = (oc_gpu_block_size c, oc_offloaded_block_size c, oc_block_size_factor c)"

definition offload_spec_ok :: "CPUOffloadingSpec \<Rightarrow> bool" where
  "offload_spec_ok spec \<longleftrightarrow> 0 < os_gpu_block_size spec \<and> 0 < os_offloaded_block_size spec \<and> os_gpu_block_size spec dvd os_offloaded_block_size spec"

abbreviation factor :: "CPUOffloadingSpec \<Rightarrow> int" where
  "factor spec \<equiv> os_offloaded_block_size spec div os_gpu_block_size spec"

abbreviation spec_config :: "CPUOffloadingSpec \<Rightarrow> int \<times> int \<times> int" where
  "spec_config spec \<equiv> (os_gpu_block_size spec, os_offloaded_block_size spec, factor spec)"

lemma offload_spec_factor: "offload_spec_ok spec \<Longrightarrow> 0 < factor spec \<and> os_offloaded_block_size spec = os_gpu_block_size spec * factor spec"
  by (auto simp: offload_spec_ok_def pos_imp_zdiv_pos_iff zdvd_imp_le)

lemma alloc_load_shape:
  assumes "oc_update_state_after_alloc x request blocks n c = Inr c'" "oc_config c = spec_config spec" "offload_spec_ok spec"
    "\<forall>t\<in>snd ` set (oc_reqs_to_load c). load_fits (factor spec) t"
  shows "oc_config c' = spec_config spec \<and> (\<forall>t\<in>snd ` set (oc_reqs_to_load c'). load_fits (factor spec) t)"
proof (cases "n = 0")
  case True
  then show ?thesis using assms by (auto simp: oc_update_state_after_alloc_def Let_def oc_config_def)
next
  case False
  let ?g = "os_gpu_block_size spec" and ?f = "factor spec" and ?size = "os_offloaded_block_size spec"
  note sf = offload_spec_factor[OF assms(3)]
  have g: "0 < ?g" using assms(3) by (simp add: offload_spec_ok_def)
  have cfg: "oc_gpu_block_size c = ?g" "oc_offloaded_block_size c = ?size" "oc_block_size_factor c = ?f"
    using assms(2) by (simp_all add: oc_config_def)
  from False assms(1) obtain group where group: "py_index blocks 0 = Inr group"
    by (auto simp: oc_update_state_after_alloc_def Let_def rbind_Inr_iff)
  define k where "k = int (length (filter (\<lambda>b. \<exists>y. block_hash b = Some y) group))"
  define c1 where "c1 = c\<lparr>oc_requests := AList.update (request_id request) x (oc_requests c),
    oc_request_block_ids := AList.update (request_id request) [] (oc_request_block_ids c)\<rparr>"
  have cfg1: "oc_gpu_block_size c1 = ?g" "oc_offloaded_block_size c1 = ?size" "oc_block_size_factor c1 = ?f"
    by (simp_all add: c1_def cfg)
  from False assms(1) g sf obtain hs src m dst where
    h: "get_block_hashes c1 request (k * ?g div ?size) (Some ((k * ?g + n) div ?size)) = Inr hs"
      "om_prepare_load (oc_manager c) hs = Inr (src, m)" "GPULoadStoreSpec (py_drop k (map block_id group)) = Inr dst"
    and e: "n = (int (length group) - k) * ?g" "(k * ?g + n) mod ?size = 0"
      "(k * ?g + n) div ?size \<le> int (length (block_hashes request)) div ?f"
    and c': "oc_reqs_to_load c' = AList.update (request_id request) (src, dst) (oc_reqs_to_load c)" "oc_config c' = oc_config c"
    by (auto simp: oc_update_state_after_alloc_def Let_def rbind_Inr_iff group cfg cfg1 py_floordiv_def oc_config_def
        k_def[symmetric] c1_def[symmetric] split: if_splits)
  let ?L = "int (length group)"
  have k: "0 \<le> k" "k \<le> ?L" by (simp_all add: k_def)
  have L: "k * ?g + n = ?L * ?g" by (simp add: e(1) algebra_simps)
  have "?g * ?f dvd ?g * ?L" using e(2) sf unfolding L by (metis mod_eq_0_iff_dvd mult.commute)
  then have dv: "?f dvd ?L" using g by simp
  have q: "?L * ?g div ?size = ?L div ?f" "k * ?g div ?size = k div ?f"
    using g sf by (metis div_mult_mult1_if less_irrefl mult.commute)+
  have Lp: "0 < ?L" using False k e(1) by (cases "?L = 0") auto
  have "int (length hs) = ?L div ?f - k div ?f"
  proof (rule get_block_hashes_length[OF h(1)[unfolded L q]])
    show "0 < ?L div ?f" using zdvd_imp_le[OF dv Lp] sf by (simp add: pos_imp_zdiv_pos_iff)
    have "?f * (?L div ?f) \<le> ?f * (int (length (block_hashes request)) div ?f)"
      using e(3)[unfolded L q] sf by (intro mult_left_mono) auto
    also have "\<dots> \<le> int (length (block_hashes request))" using sf by (simp add: minus_mod_eq_mult_div[symmetric])
    finally show "oc_block_size_factor c1 * (?L div ?f) \<le> int (length (block_hashes request))" by (simp add: cfg1)
  qed (use k sf in \<open>simp_all add: cfg1 pos_imp_zdiv_nonneg_iff zdiv_mono1\<close>)
  then have sl: "int (length (ls_block_ids src)) = ?L div ?f - k div ?f" using om_prepare_load_shape[OF h(2)] by simp
  have dl: "int (length (ls_block_ids dst)) = ?L - k"
    using GPULoadStoreSpec_shape[OF h(3)] k by (simp add: py_drop_def slice_pos_def)
  have "0 < ?f" using sf by blast
  then have "load_fits ?f (src, dst)"
    using om_prepare_load_shape[OF h(2)] GPULoadStoreSpec_shape[OF h(3)] load_lengths[OF _ dv k]
    unfolding load_fits_def prod.case sl dl by blast
  then show ?thesis using assms(2,4) c' values_update by fastforce
qed

section \<open>Stores\<close>

lemma track_blocks_frame:
  "track_blocks rid groups pre c = Inr c1 \<Longrightarrow> oc_config c1 = oc_config c \<and> oc_reqs_to_load c1 = oc_reqs_to_load c"
  by (auto simp: track_blocks_def Let_def rbind_Inr_iff oc_config_def split: option.splits list.splits if_splits)

lemma length_mmap: "mmap g xs = Inr ys \<Longrightarrow> length ys = length xs"
  by (induction xs arbitrary: ys) (auto simp: rbind_Inr_iff)

lemma source_block_ids_length:
  assumes "source_block_ids c ids st hs T = Inr src" "0 \<le> oc_block_size_factor c"
  shows "int (length src) = int (length (filter (\<lambda>h. h \<in> T) hs)) * oc_block_size_factor c"
proof -
  have "length src = length (concat (map (\<lambda>(idx, h). if h \<in> T
        then map (\<lambda>i. (st + int idx) * oc_block_size_factor c + i) [0..oc_block_size_factor c - 1] else []) (enumerate 0 hs)))"
    using assms(1) unfolding source_block_ids_def by (rule length_mmap)
  moreover have "int (length (concat (map (\<lambda>(idx, h). if h \<in> T
        then map (\<lambda>i. (st + int idx) * oc_block_size_factor c + i) [0..oc_block_size_factor c - 1] else []) (enumerate n hs)))) =
      int (length (filter (\<lambda>h. h \<in> T) hs)) * oc_block_size_factor c" for n
    using assms(2) by (induction hs arbitrary: n) (auto simp: algebra_simps)
  ultimately show ?thesis by simp
qed

text \<open>A request that stores: what is added to the transfers of the step.\<close>

lemma store_request_transfer:
  assumes "store_request rnd heap out (rid, groups, pre) (acc, c) = Inr (acc', c')"
  shows "oc_config c' = oc_config c \<and> oc_reqs_to_load c' = oc_reqs_to_load c \<and>
    (acc' = acc \<or> (\<exists>c1 x i j hs so m ids st src src_spec. track_blocks rid groups pre c = Inr c1 \<and>
       get_block_hashes c1 (heap x) i j = Inr hs \<and> om_prepare_store (oc_manager c1) hs = Inr (Some so, m) \<and>
       source_block_ids c1 ids st hs (set (block_hashes_to_store so)) = Inr src \<and> GPULoadStoreSpec src = Inr src_spec \<and>
       acc' = AList.update rid (src_spec, store_spec so) acc))"
proof -
  from assms obtain c1 ids x tok nb where c1: "track_blocks rid groups pre c = Inr c1" "dict_item (oc_request_block_ids c1) rid = Inr ids"
    "dict_item (oc_requests c1) rid = Inr x" "dict_item (out_num_scheduled_tokens out) rid = Inr tok"
    "py_floordiv (num_computed_tokens (heap x) + tok) (oc_offloaded_block_size c1) = Inr nb"
    by (auto simp: store_request_def rbind_Inr_iff)
  note fr = track_blocks_frame[OF c1(1)]
  define st where "st = (case map_of (oc_next_stored_block_idx c1) rid of None \<Rightarrow> 0 | Some i \<Rightarrow> i)"
  have src: "source_block_ids (oc_manager_update f d) = source_block_ids d"
    "source_block_ids (oc_next_stored_block_idx_update g d) = source_block_ids d" for f g and d :: OffloadingConnectorScheduler
    by (simp_all add: source_block_ids_def fun_eq_iff cong: if_cong)
  have cfg: "oc_config (oc_manager_update f d) = oc_config d" "oc_config (oc_next_stored_block_idx_update g d) = oc_config d"
    "oc_config (oc_reqs_being_stored_update h d) = oc_config d" for f g h and d :: OffloadingConnectorScheduler
    by (simp_all add: oc_config_def)
  show ?thesis
  proof (cases "nb - st \<le> 0")
    case True
    with assms c1 fr show ?thesis by (simp add: store_request_def Let_def st_def[symmetric])
  next
    case False
    with assms c1 obtain hs r m where
      h: "get_block_hashes c1 (heap x) st (Some nb) = Inr hs" "om_prepare_store (oc_manager c1) hs = Inr (r, m)"
      by (auto simp: store_request_def rbind_Inr_iff Let_def st_def[symmetric])
    show ?thesis
    proof (cases "\<exists>so. r = Some so \<and> block_hashes_to_store so \<noteq> []")
      case True
      then obtain so where so: "r = Some so" "block_hashes_to_store so \<noteq> []" by blast
      from assms c1 h False so obtain src src_spec where
        "source_block_ids c1 ids st hs (set (block_hashes_to_store so)) = Inr src" "GPULoadStoreSpec src = Inr src_spec"
          "acc' = AList.update rid (src_spec, store_spec so) acc" "oc_config c' = oc_config c1" "oc_reqs_to_load c' = oc_reqs_to_load c1"
        by (auto simp: store_request_def rbind_Inr_iff Let_def st_def[symmetric] src cfg)
      then show ?thesis using c1(1) h so fr by (metis (no_types, lifting))
    next
      case False
      with assms c1 h \<open>\<not> nb - st \<le> 0\<close> fr show ?thesis
        by (cases r) (auto simp: store_request_def rbind_Inr_iff Let_def st_def[symmetric] cfg)
    qed
  qed
qed

lemma store_request_shape:
  assumes "store_request rnd heap out (rid, groups, pre) (acc, c) = Inr (acc', c')" "oc_inv c" "\<forall>x. distinct (block_hashes (heap x))"
    "oc_config c = spec_config spec" "offload_spec_ok spec" "\<forall>t\<in>snd ` set acc. store_fits (factor spec) t"
  shows "\<forall>t\<in>snd ` set acc'. store_fits (factor spec) t"
proof (cases "acc' = acc")
  case False
  with store_request_transfer[OF assms(1)] obtain c1 x i j hs so m ids st src src_spec where
    t: "track_blocks rid groups pre c = Inr c1" "get_block_hashes c1 (heap x) i j = Inr hs"
      "om_prepare_store (oc_manager c1) hs = Inr (Some so, m)" "source_block_ids c1 ids st hs (set (block_hashes_to_store so)) = Inr src"
      "GPULoadStoreSpec src = Inr src_spec" "acc' = AList.update rid (src_spec, store_spec so) acc" by blast
  have dist: "distinct hs" using get_block_hashes_distinct[OF t(2)] assms(3) by blast
  have "om_ok (oc_manager c1)" using track_blocks_inv[OF t(1) assms(2)] by (rule oc_invD)
  with om.prepare_store[OF _ dist] t(3) have sp: "store_prepared (om_get (oc_manager c1)) hs so (om_get m)" by fastforce
  have f: "oc_block_size_factor c1 = factor spec" "0 < factor spec"
    using track_blocks_frame[OF t(1)] assms(4) offload_spec_factor[OF assms(5)] by (simp_all add: oc_config_def)
  have "filter (\<lambda>h. h \<in> set (block_hashes_to_store so)) hs = block_hashes_to_store so"
    using sp by (auto simp: store_prepared_def intro!: filter_cong)
  then have "store_fits (factor spec) (src_spec, store_spec so)"
    using source_block_ids_length[OF t(4)] f sp GPULoadStoreSpec_shape[OF t(5)] by (simp add: store_fits_def store_prepared_def)
  then show ?thesis using assms(6) values_update unfolding t(6) by fastforce
qed (use assms(6) in simp)

text \<open>The transfers of a step.\<close>

lemma build_meta_shapes:
  assumes "oc_build_connector_meta rnd hord sord heap out c = Inr (meta, c')" "oc_inv c" "\<forall>x. distinct (block_hashes (heap x))"
    "oc_config c = spec_config spec" "offload_spec_ok spec" "\<forall>t\<in>snd ` set (oc_reqs_to_load c). load_fits (factor spec) t"
  shows "(\<forall>t\<in>snd ` set (ocm_reqs_to_load meta). load_fits (factor spec) t) \<and>
    (\<forall>t\<in>snd ` set (ocm_reqs_to_store meta). store_fits (factor spec) t) \<and>
    oc_config c' = spec_config spec \<and> oc_reqs_to_load c' = []"
proof -
  from assms(1) obtain acc c1 where c1: "get_reqs_to_store rnd heap out c = Inr (acc, c1)"
    "mfold (complete_preempted hord) (sord (out_preempted_req_ids out)) (c1\<lparr>oc_reqs_to_load := []\<rparr>) = Inr c'"
    "meta = \<lparr>ocm_reqs_to_load = oc_reqs_to_load c1, ocm_reqs_to_store = acc\<rparr>"
    by (auto simp: oc_build_connector_meta_def rbind_Inr_iff)
  let ?I = "\<lambda>(acc, d). oc_inv d \<and> oc_config d = spec_config spec \<and> oc_reqs_to_load d = oc_reqs_to_load c \<and>
    (\<forall>t\<in>snd ` set acc. store_fits (factor spec) t)"
  have "?I (acc, c1)"
  proof (rule mfold_Inr_inv[OF c1(1)[unfolded get_reqs_to_store_def], where I = ?I])
    fix y s s' assume s: "?I s" "store_request rnd heap out y s = Inr s'"
    obtain rid groups pre where y: "y = (rid, groups, pre)" by (cases y)
    obtain a d where a: "s = (a, d)" by (cases s)
    obtain a' d' where a': "s' = (a', d')" by (cases s')
    from s show "?I s'" unfolding y a a'
      using store_request_inv[of rnd heap out rid groups pre a d a' d'] store_request_transfer[of rnd heap out rid groups pre a d a' d']
        store_request_shape[of rnd heap out rid groups pre a d a' d' spec] assms(3,5) by auto
  qed (use assms in simp)
  moreover have "oc_config c' = oc_config c1 \<and> oc_reqs_to_load c' = []"
    by (rule mfold_Inr_inv[OF c1(2), where I = "\<lambda>d. oc_config d = oc_config c1 \<and> oc_reqs_to_load d = []"])
      (auto simp: complete_preempted_def Let_def oc_config_def rbind_Inr_iff split: if_splits)
  ultimately show ?thesis using assms(6) c1(3) by simp
qed

lemma oc_reachable_shapes:
  assumes "oc_reachable rnd hord sord spec c" "hash_order hord" "offload_spec_ok spec"
  shows "oc_config c = spec_config spec \<and> (\<forall>t\<in>snd ` set (oc_reqs_to_load c). load_fits (factor spec) t)"
  using assms(1)
proof (induction rule: oc_reachable.induct)
  case (oc_init ev pc c)
  then show ?case by (auto simp: OffloadingConnectorScheduler_init_def rbind_Inr_iff py_floordiv_def oc_config_def split: if_splits)
next
  case (oc_matched c request n r c')
  then show ?case using matched_cases[OF oc_matched(2)] by (auto simp: oc_config_def)
next
  case (oc_alloc c x request blocks n c')
  then show ?case using alloc_load_shape[OF oc_alloc(2) _ assms(3)] by blast
next
  case (oc_meta c heap out meta c')
  then show ?case using build_meta_shapes[OF oc_meta(2) oc_reachable_inv[OF oc_meta(1) assms(2)] _ _ assms(3)] by simp
next
  case (oc_output c kout c')
  then obtain c1 where c1: "mfold (finish_sending hord) (finished_sending kout) c = Inr c1"
    "mfold (finish_recving hord) (finished_recving kout) c1 = Inr c'"
    by (auto simp: oc_update_connector_output_def rbind_Inr_iff)
  let ?I = "\<lambda>d. oc_config d = oc_config c \<and> oc_reqs_to_load d = oc_reqs_to_load c"
  have "?I c1" by (rule mfold_Inr_inv[OF c1(1), where I = ?I]) (auto simp: finish_sending_def Let_def rbind_Inr_iff oc_config_def split: if_splits)
  then have "?I c'" by (rule mfold_Inr_inv[OF c1(2)]) (auto simp: finish_recving_def Let_def rbind_Inr_iff oc_config_def split: if_splits)
  then show ?case using oc_output.IH by simp
next
  case (oc_finished c request r c')
  then show ?case by (auto simp: oc_request_finished_def Let_def oc_config_def)
next
  case (oc_events c es c')
  then show ?case by (auto simp: oc_take_events_def oc_config_def split: prod.splits)
qed

section \<open>The handlers of the worker\<close>

definition factors :: "SingleDirectionOffloadingHandler \<Rightarrow> int \<times> int" where
  "factors h = (sd_src_block_size_factor h, sd_dst_block_size_factor h)"

text \<open>Which handler serves which transfer, and the block size factors of the handlers.\<close>

definition serves :: "int \<Rightarrow> OffloadingWorker \<Rightarrow> bool" where
  "serves f w \<longleftrightarrow> map_of (ow_transfer_type_to_handler w) (GPU_medium, CPU_medium) = Some 0 \<and>
     map_of (ow_transfer_type_to_handler w) (CPU_medium, GPU_medium) = Some 1 \<and>
     factors (ow_heap w 0) = (1, f) \<and> factors (ow_heap w 1) = (f, 1)"

lemma ow_transfer_async_accepts:
  assumes "serves f w" "0 < f" "load_fits f t \<or> store_fits f t"
  shows "\<exists>w'. ow_transfer_async uninit job t w = Inr (True, w')"
proof -
  obtain src dst where t: "t = (src, dst)" by (cases t)
  have acc: "\<exists>cmd h'. sd_transfer_async uninit job t h = Inr (cmd, h')" if "\<exists>m. src_to_dst uninit h src dst = Inr m" for h
    using that by (auto simp: sd_transfer_async_def t Let_def split: prod.splits)
  from assms(3) show ?thesis
  proof
    assume l: "load_fits f t"
    then have "\<exists>m. src_to_dst uninit (ow_heap w 1) src dst = Inr m"
      using assms(1,2) by (intro src_to_dst_accepts) (simp_all add: serves_def factors_def load_fits_def t)
    with acc l assms(1) show ?thesis by (fastforce simp: ow_transfer_async_def serves_def load_fits_def t)
  next
    assume s: "store_fits f t"
    then have "\<exists>m. src_to_dst uninit (ow_heap w 0) src dst = Inr m"
      using assms(1,2) by (intro src_to_dst_accepts) (simp_all add: serves_def factors_def store_fits_def t)
    with acc s assms(1) show ?thesis by (fastforce simp: ow_transfer_async_def serves_def store_fits_def t)
  qed
qed

lemma sd_transfer_async_factors: "sd_transfer_async uninit job t h = Inr (cmd, h') \<Longrightarrow> factors h' = factors h"
  by (cases t; cases "pop_or_new (sd_stream_pool h) (sd_num_streams h)"; cases "pop_or_new (sd_event_pool h) (sd_num_events h)")
    (auto simp: sd_transfer_async_def rbind_Inr_iff Let_def factors_def)

lemma serves_update:
  assumes "factors h = factors (ow_heap w a)"
  shows "serves f (w\<lparr>ow_heap := (ow_heap w)(a := h)\<rparr>) = serves f w" "serves f (w\<lparr>ow_heap := (ow_heap w)(a := h), ow_commands := cs\<rparr>) = serves f w"
proof -
  have "factors (((ow_heap w)(a := h)) b) = factors (ow_heap w b)" for b using assms by simp
  then show "serves f (w\<lparr>ow_heap := (ow_heap w)(a := h)\<rparr>) = serves f w" "serves f (w\<lparr>ow_heap := (ow_heap w)(a := h), ow_commands := cs\<rparr>) = serves f w"
    by (simp_all add: serves_def del: fun_upd_apply)
qed

lemma transfer_serves: "\<lbrakk>ow_transfer_async uninit job t w = Inr (ok, w'); serves f w\<rbrakk> \<Longrightarrow> serves f w'"
  by (auto simp: ow_transfer_async_def dest!: sd_transfer_async_factors simp: serves_update split: option.splits sum.splits)

lemma finished_loop_factors: "finished_loop query ts res h = Inr (res', h') \<Longrightarrow> factors h' = factors h"
  by (induction query ts res h rule: finished_loop.induct) (auto simp: factors_def split: if_splits)

lemma get_finished_serves:
  assumes "ow_get_finished hord query w = Inr (js, w')" "serves f w"
  shows "serves f w'"
proof -
  have "(\<lambda>(js, w'). serves f w') (js, w')"
    by (rule mfold_Inr_inv[OF assms(1)[unfolded ow_get_finished_def]])
      (use assms(2) in \<open>auto simp: collect_transfers_def sd_get_finished_def rbind_Inr_iff dest!: finished_loop_factors simp: serves_update\<close>)
  then show ?thesis by simp
qed

lemma submit_job_serves: "\<lbrakk>submit_job uninit p c = Inr c'; serves f (cw_worker c)\<rbrakk> \<Longrightarrow> serves f (cw_worker c')"
  by (cases p) (auto simp: submit_job_def rbind_Inr_iff dest: transfer_serves)

lemma submit_stores_serves:
  assumes "submit_stores uninit c = Inr c'" "serves f (cw_worker c)"
  shows "serves f (cw_worker c')"
proof -
  from assms(1) obtain c1 where c1: "mfold (submit_job uninit) (cw_unsubmitted_store_jobs c) c = Inr c1" "cw_worker c' = cw_worker c1"
    by (auto simp: submit_stores_def rbind_Inr_iff)
  have "serves f (cw_worker c1)" by (rule mfold_Inr_inv[OF c1(1)]) (auto intro: submit_job_serves assms(2))
  then show ?thesis using c1(2) by simp
qed

lemma finish_job_worker: "finish_job p (S, R, c) = Inr (S', R', c') \<Longrightarrow> cw_worker c' = cw_worker c"
  by (cases p) (auto simp: finish_job_def rbind_Inr_iff Let_def split: if_splits)

lemma cw_reachable_serves: "cw_reachable hord spec c \<Longrightarrow> offload_spec_ok spec \<Longrightarrow> serves (factor spec) (cw_worker c)"
proof (induction rule: cw_reachable.induct)
  case (cw_registered allocate cuda caches backends heap c)
  from cw_registered(1) obtain st ld where h: "CpuGpuOffloadingHandlers_init allocate (os_gpu_block_size spec) (os_offloaded_block_size spec)
      (os_num_blocks spec) caches backends = Inr (st, ld)"
    and c: "cw_worker c = \<lparr>ow_handlers = {1, 0}, ow_transfer_type_to_handler = [((GPU_medium, CPU_medium), 0), ((CPU_medium, GPU_medium), 1)],
         ow_heap = heap(0 := st, 1 := ld), ow_commands = []\<rparr>"
    by (auto simp: cw_register_handlers_def get_handlers_def OffloadingConnectorWorker_init_def rbind_Inr_iff
        ow_register_handler_def GPU_medium_def CPU_medium_def split: if_splits)
  show ?case using handler_factors[OF h cw_registered(2)] cw_registered(3)
    by (simp add: c serves_def factors_def offload_spec_ok_def GPU_medium_def CPU_medium_def)
next
  case (cw_preempted c uninit preempted events c')
  then show ?case using submit_stores_serves by (auto simp: cw_handle_preemptions_def rbind_Inr_iff)
next
  case (cw_started c uninit metadata c')
  then obtain c1 where c1: "submit_stores uninit c = Inr c1" "mfold (start_load uninit) (ocm_reqs_to_load metadata) c1 = Inr c'"
    by (auto simp: cw_start_kv_transfers_def rbind_Inr_iff)
  have "serves (factor spec) (cw_worker c1)" using submit_stores_serves[OF c1(1)] cw_started by blast
  then show ?case by (rule mfold_Inr_inv[OF c1(2)]) (auto simp: start_load_def Let_def intro: submit_job_serves)
next
  case (cw_prepared c metadata)
  have "cw_worker (fold prepare_store xs c) = cw_worker c" for xs c
    by (induction xs arbitrary: c) (auto simp: prepare_store_def Let_def)
  with cw_prepared show ?case by (simp add: cw_prepare_store_kv_def)
next
  case (cw_finished c query fin r c')
  from cw_finished(2) obtain js w S R c1 where g: "ow_get_finished hord query (cw_worker c) = Inr (js, w)"
    "mfold finish_job js ({}, {}, c\<lparr>cw_worker := w\<rparr>) = Inr (S, R, c1)" and c': "c' = snd (fold finish_request fin (S, c1))"
    by (auto simp: cw_get_finished_def rbind_Inr_iff case_prod_beta)
  have "(\<lambda>(S, R, c). cw_worker c = w) (S, R, c1)"
    by (rule mfold_Inr_inv[OF g(2)]) (auto dest: finish_job_worker)
  moreover have "fold finish_request xs (S, d) = (S', d') \<Longrightarrow> cw_worker d' = cw_worker d" for xs S S' d d'
    by (induction xs arbitrary: S d) (auto simp: finish_request_def split: option.splits if_splits)
  then have "cw_worker (snd (fold finish_request fin (S, c1))) = cw_worker c1" by (metis prod.collapse)
  ultimately have "cw_worker c' = w" by (simp add: c')
  then show ?case using get_finished_serves[OF g(1)] cw_finished by simp
qed

text \<open>
  C13 (refinement): the two sides of the connector agree on the shape of transfers. Every load and every
  store that the scheduler side hands over in a step is accepted by the worker side, in whatever
  state the worker is; so the assertions on the submission of jobs hold.
\<close>

theorem offload_transfers_accepted:
  assumes "oc_reachable rnd hord sord spec c" "hash_order hord" "offload_spec_ok spec" "cw_reachable word spec w"
    "oc_build_connector_meta rnd hord sord heap out c = Inr (meta, c')" "\<forall>x. distinct (block_hashes (heap x))"
    "t \<in> snd ` set (ocm_reqs_to_load meta) \<union> snd ` set (ocm_reqs_to_store meta)"
  shows "\<exists>w'. ow_transfer_async uninit job t (cw_worker w) = Inr (True, w')"
proof -
  from oc_reachable_shapes[OF assms(1-3)] build_meta_shapes[OF assms(5) oc_reachable_inv[OF assms(1,2)] assms(6) _ assms(3)] assms(7)
  have "load_fits (factor spec) t \<or> store_fits (factor spec) t" by blast
  then show ?thesis using ow_transfer_async_accepts[OF cw_reachable_serves[OF assms(4,3)]] offload_spec_factor[OF assms(3)] by blast
qed

text \<open>The store of the connector's example, handed to a worker with the same block sizes.\<close>

definition oc_worker :: "OffloadingConnectorWorker result" where
  "oc_worker = cw_register_handlers (\<lambda>t split n. ([t, t], [t\<lparr>t_is_cuda := False\<rparr>, t\<lparr>t_is_cuda := False\<rparr>])) True (oc_spec ''lru'')
     [(''layer'', (example_tensor True)\<lparr>t_shape := [2, 100, 2, 8, 128]\<rparr>)] [(''layer'', FlashAttentionBackend ''NHD'')]
     (OffloadingConnectorWorker_init (\<lambda>_. idle_handler))"

theorem offload_transfers_accepted_witness:
  "\<exists>meta c' w t w'. oc_run ''lru'' = Inr (meta, c') \<and> oc_worker = Inr w \<and> t \<in> snd ` set (ocm_reqs_to_store meta) \<and>
     ow_transfer_async (\<lambda>_. 0) 0 t (cw_worker w) = Inr (True, w')"
proof -
  have "case oc_run ''lru'' of Inl _ \<Rightarrow> False | Inr (meta, _) \<Rightarrow> ocm_reqs_to_store meta \<noteq> []" by code_simp
  then obtain c meta c' where c: "oc_scheduled ''lru'' = Inr c" "oc_run ''lru'' = Inr (meta, c')"
    "oc_build_connector_meta id sorted_list_of_set sorted_list_of_set (\<lambda>_. oc_request) oc_out c = Inr (meta, c')" "ocm_reqs_to_store meta \<noteq> []"
    by (auto simp: oc_run_def rbind_def split: sum.splits)
  then have "snd (hd (ocm_reqs_to_store meta)) \<in> snd ` set (ocm_reqs_to_store meta)" by simp
  then obtain t where t: "t \<in> snd ` set (ocm_reqs_to_store meta)" by blast
  have "case oc_worker of Inl _ \<Rightarrow> False | Inr _ \<Rightarrow> True" by code_simp
  then obtain w where w: "oc_worker = Inr w" by (auto split: sum.splits)
  have "cw_reachable sorted_list_of_set (oc_spec ''lru'') w"
    by (rule cw_registered[OF w[unfolded oc_worker_def]]) (simp add: positive_shapes_def)
  moreover have "offload_spec_ok (oc_spec ''lru'')" by (simp add: offload_spec_ok_def oc_spec_def)
  ultimately have "\<exists>w'. ow_transfer_async (\<lambda>_. 0) 0 t (cw_worker w) = Inr (True, w')"
    using offload_transfers_accepted[OF oc_scheduled_reachable[OF c(1)] sorted_hash_order _ _ c(3)] t oc_hashes by blast
  with c(2) w t show ?thesis by blast
qed

end
