(* ===== verification/Spec2Isabelle.thy ===== *)
theory Spec2Isabelle
  imports KV_Properties Hit_Properties KV_Slots Request_Queue Encoder_Schedule Config_Properties Sched_Loop Offload_Accepted
begin

text \<open>
  \<^bold>\<open>vLLM: the scheduler, the paged KV cache and KV offloading.\<close>

  vLLM serves language models. Its engine core runs a loop: the scheduler picks requests and token counts for a step, the workers run the model
  on them, the scheduler takes the sampled tokens back. The keys and values of computed tokens live in fixed-size blocks of GPU memory; blocks are
  shared between requests with a common prefix, found by hash, and evicted in least-recently-used order. This development models that core: the
  code under \<^verbatim>\<open>src/vllm/v1/core\<close> with \<^verbatim>\<open>src/vllm/v1/request.py\<close>, \<^verbatim>\<open>src/vllm/v1/kv_cache_interface.py\<close> and the records it
  exchanges with the workers. It also models the offloading of blocks to CPU memory: \<^verbatim>\<open>src/vllm/v1/kv_offload\<close> and the connector
  \<^verbatim>\<open>offloading_connector.py\<close> that ties it to the scheduler and the workers. The source is Python; integers are unbounded, a class is a record or a datatype, an object that is compared by identity is
  a reference into a store, an exception is the left value of a result, and a loop is a recursive function.

  \<^bold>\<open>Parts and theories.\<close> Every definition keeps the name of the function it models where possible.

  \<^item> \<^verbatim>\<open>Prelude\<close>: results and exceptions, Python subscription, slicing and dictionaries, folds over results, shared lemmas.
  \<^item> \<^verbatim>\<open>Free_Block_Queue\<close> (\<^verbatim>\<open>kv_cache_utils.py\<close>: \<^verbatim>\<open>KVCacheBlock\<close>, \<^verbatim>\<open>FreeKVCacheBlockQueue\<close>): the doubly linked free list with its sentinels over a store
    of blocks; \<open>fq_repr\<close> relates it to the list it stands for and every operation is shown to implement the list operation.
  \<^item> \<^verbatim>\<open>Block_Map\<close>, \<^verbatim>\<open>Hash_Keys\<close>, \<^verbatim>\<open>Block_Hashing\<close>: the prefix-cache map, its keys (hash plus group id in bytes), and the chained hash of token blocks with
    its incremental computation. The hash function is a parameter; where a theorem needs it, the hypothesis is that it is injective on the inputs of the chains.
  \<^item> \<^verbatim>\<open>Requests\<close> (\<^verbatim>\<open>request.py\<close>, \<^verbatim>\<open>sched/utils.py\<close>): the request record, its statuses, its order and the stop rules.
  \<^item> \<^verbatim>\<open>Block_Pool\<close>, \<^verbatim>\<open>Block_Pool_Correct\<close>, \<^verbatim>\<open>Pool_Properties\<close> (\<^verbatim>\<open>block_pool.py\<close>): allocation, reference counts, caching, eviction, events. \<open>pool_repr\<close> is the
    invariant: the free list holds exactly the unreferenced blocks, and the cache and the hashes of the blocks agree.
  \<^item> \<^verbatim>\<open>KV_Specs\<close> (\<^verbatim>\<open>kv_cache_interface.py\<close>), \<^verbatim>\<open>KV_Managers\<close> (\<^verbatim>\<open>single_type_kv_cache_manager.py\<close>), \<^verbatim>\<open>KV_Coordinator\<close>, \<^verbatim>\<open>KV_Cache_Manager\<close>: formats, block
    tables for each attention type, the coordinators and the interface to the scheduler.
    \<^verbatim>\<open>KV_Ownership\<close>, \<^verbatim>\<open>KV_Invariant\<close>, \<^verbatim>\<open>KV_Properties\<close>: in every reachable manager the reference count of a block is the number of table entries that hold it.
    \<^verbatim>\<open>KV_Hits\<close>, \<^verbatim>\<open>KV_Hybrid\<close>, \<^verbatim>\<open>Hit_Properties\<close>: the searches for the longest cached prefix.
    \<^verbatim>\<open>KV_Caching\<close>: full blocks of a request can be entered into the prefix cache, as those that are not yet there have no hash and no other holder (\<open>uncached_private\<close>).
    \<^verbatim>\<open>KV_Slots\<close>: when slots are granted, and that the tables are then long enough.
  \<^item> \<^verbatim>\<open>KV_Config\<close>, \<^verbatim>\<open>Config_Properties\<close> (\<^verbatim>\<open>kv_cache_utils.py\<close>): grouping of layers, memory checks, the search for the model length, block counts and tensors.
  \<^item> \<^verbatim>\<open>Heapq\<close>, \<^verbatim>\<open>Request_Queue\<close> (\<^verbatim>\<open>sched/request_queue.py\<close>): both queue classes refine a list in service order; \<^verbatim>\<open>heapq\<close> follows its reference implementation.
  \<^item> \<^verbatim>\<open>Encoder_Cache\<close>, \<^verbatim>\<open>Encoder_Schedule\<close> (\<^verbatim>\<open>encoder_cache_manager.py\<close>, \<^verbatim>\<open>_try_schedule_encoder_inputs\<close>): slots of encoder outputs and which inputs a step encodes.
  \<^item> \<^verbatim>\<open>Sched_State\<close>, \<^verbatim>\<open>Sched_Step\<close>, \<^verbatim>\<open>Sched_Admit\<close>, \<^verbatim>\<open>Sched_Update\<close> (\<^verbatim>\<open>sched/scheduler.py\<close>, \<^verbatim>\<open>sched/async_scheduler.py\<close>, \<^verbatim>\<open>sched/output.py\<close>): the scheduler, its two
    scheduling loops with preemption, its output, the requests' lifecycle and the processing of model output. The local variables of \<^verbatim>\<open>schedule\<close> and
    \<^verbatim>\<open>update_from_output\<close> are records (\<open>sched_pass\<close>, \<open>update_acc\<close>) that the iterations thread.
  \<^item> \<^verbatim>\<open>Sched_Queues\<close>, \<^verbatim>\<open>Sched_Invariant\<close>, \<^verbatim>\<open>Sched_Reachable\<close>, \<^verbatim>\<open>Sched_Operations\<close>: the queue invariant \<open>sched_ok\<close>, kept by every operation, and the transition system
    \<open>sched_reachable\<close> of all operations in any order. \<^verbatim>\<open>Sched_Budget\<close>: token and request limits of a step. \<^verbatim>\<open>Sched_Progress\<close>: a waiting request is started.
    \<^verbatim>\<open>Sched_Tokens\<close>: which generated tokens are kept. \<^verbatim>\<open>Sched_Tracking\<close>, \<^verbatim>\<open>Sched_Loop\<close>: the engine loop \<open>loop_reachable\<close> keeps requests on track.
    \<^verbatim>\<open>Sched_Properties\<close>: the properties of the scheduler as a whole.
  \<^item> \<^verbatim>\<open>Offload_Backend\<close>, \<^verbatim>\<open>Offload_Store\<close>, \<^verbatim>\<open>Offload_LRU\<close>, \<^verbatim>\<open>Offload_ARC\<close>, \<^verbatim>\<open>Offload_Manager\<close> (\<^verbatim>\<open>kv_offload/backends/cpu.py\<close>, \<^verbatim>\<open>lru_manager.py\<close>, \<^verbatim>\<open>arc_manager.py\<close>, \<^verbatim>\<open>abstract.py\<close>,
    \<^verbatim>\<open>cpu.py\<close>): CPU blocks with 32-bit reference counts, the two eviction policies, the interface of a manager. \<^verbatim>\<open>Offload_Properties\<close>: accounting of blocks, eviction order,
    stored blocks are found, the adaptive target stays within the capacity.
  \<^item> \<^verbatim>\<open>Offload_Connector\<close>, \<^verbatim>\<open>Offload_Safety\<close>, \<^verbatim>\<open>Offload_Reachable\<close> (\<^verbatim>\<open>OffloadingConnectorScheduler\<close>): what is loaded and stored in a step, transfers in flight; \<open>oc_inv\<close> ties the reference
    counts of the manager to the requests that are loading and storing.
  \<^item> \<^verbatim>\<open>Offload_Layout\<close>, \<^verbatim>\<open>Offload_Transfer\<close> (\<^verbatim>\<open>kv_offload/worker/cpu_gpu.py\<close>): the block size of the kernels from tensor shapes, the pairs of blocks that are copied.
    \<^verbatim>\<open>Offload_Worker\<close>, \<^verbatim>\<open>Offload_Jobs\<close>, \<^verbatim>\<open>Offload_Finished\<close> (\<^verbatim>\<open>kv_offload/worker/worker.py\<close>, \<^verbatim>\<open>OffloadingConnectorWorker\<close>): queues of transfers, jobs, what is reported as finished;
    \<open>cw_inv\<close> says that every job is in one queue and that the tables agree with the queues. \<^verbatim>\<open>Offload_Accepted\<close>: the two sides of the connector together.

  \<^bold>\<open>Interfaces.\<close> The locales state what one part relies on in another and are interpreted on the model's own definitions: \<open>block_queue\<close> (the free list for the
  pool), \<open>block_index\<close> (the prefix-cache map), \<open>strict_weak_order\<close> (the comparison that the heap relies on), \<open>request_queue\<close> and \<open>request_bag\<close> (the waiting queue for the
  scheduler, for both queue classes), and \<open>table_operation\<close> with its extensions \<open>safe_table_operation\<close>, \<open>budget_operation\<close> and \<open>calm_operation\<close> (what an operation on the block
  tables of one group promises to the coordinator that runs it on all groups: ownership is kept, it does not fail, its price is paid, blocks without a hash stay private); for offloading
  \<open>offload_backend\<close> (allocation of CPU blocks for the managers), \<open>offload_store\<close> (reference counts, for both managers) and \<open>offload_manager\<close> (a manager for the connector). The
  properties use their lemmas through the interpretations.

  \<^bold>\<open>How the components interact.\<close> \<^verbatim>\<open>schedule\<close> asks the KV cache manager for cached blocks and slots, which calls the coordinator, its managers and the block
  pool; it asks the encoder cache for room and the queues for the next request. When slots are refused it preempts running requests, which frees their blocks.
  \<^verbatim>\<open>update_from_output\<close> appends tokens, applies the stop rules, and frees what finished. The theorems follow this structure: the pool
  theorems carry the manager theorems, these carry the liveness theorem of the scheduler, and the token accounting of a step carries the one of the loop. The offloading
  connector sits beside this loop: the scheduler side keeps the manager and hands transfers to the worker side in the metadata of a step, the worker side runs them and
  reports finished requests, the scheduler side then releases the blocks.

  \<^bold>\<open>What is proved.\<close> Invariants of all reachable states (pool, block tables, encoder cache, scheduler queues, engine loop); the functional behaviour of allocation,
  freeing, touching, caching and eviction with their errors; that the searches return the longest usable prefix and end; that the tensors
  fit into memory and the model length found is the longest; refinement of the queues; limits and form of the output of a step; that an idle scheduler
  starts a waiting request; that exactly the tokens up to the first stopping one are kept; for offloading, that reference counts are the transfers in flight, that the worker accepts
  every transfer it is given, reports a request exactly when its transfers are complete and waits for the stores of preempted requests, and that a store followed by a load restores
  the bytes of the blocks. The properties of kind error are behaviours of
  the code that contradict what it means to do, each with a concrete or general proof.

  \<^bold>\<open>Termination.\<close> The scheduling loops are functions with measures: the rest of the running list, the length of the waiting queue, the length of the
  running list for preemption. The hybrid search, the traversal of the free list and the hashing loop are option-valued partial functions; that they return is proved
  (\<open>hybrid_search_terminates\<close>, the representation lemmas of the free list, \<open>request_block_hasher_chain\<close>). No fuel is used.

  \<^bold>\<open>Assumptions made explicit.\<close> Block sizes are positive and attention-sink groups are excluded in \<open>kvm_reachable\<close> (sink blocks carry no reference, see
  \<open>sink_blocks_prevent_reset\<close>). The iteration order of Python sets is the parameter \<open>set_order\<close>; the clock is an argument; dtype sizes are a parameter. A KV connector is the record
  \<open>kv_connector_ops\<close> of its functions over an opaque state. The structured output manager appears as the functions \<open>ready\<close>, \<open>advance\<close> and \<open>validate\<close>. In
  \<open>sched_reachable\<close> a new request is an object that is not in the table and the token counts of an output are a dictionary; in \<open>loop_reachable\<close> a new request fits
  into the model length with its min_tokens, and the workers return a token for every request with draft tokens. The liveness theorem is for
  first-come-first-served scheduling without prefix caching and connector. In \<open>oc_reachable\<close> the block hashes of a request differ, a request has one load at a time, fewer than
  $2^{31}$ requests load at a time and the CPU has at most $2^{53}$ blocks; the rounding of the adaptive target to a float is a monotone function that fixes 0 and the capacity (\<open>rounding\<close>). In
  \<open>cw_reachable\<close> tensor dimensions are positive. A failed store (\<open>reach_failed\<close> in \<open>offload_reachable\<close>) is for the adaptive manager one of blocks that are not ready: for a block
  that is ready see \<open>arc_failed_store_leaks\<close>. The device is seen through the operator that copies blocks of a given number of bytes (\<open>copies_blocks\<close> is its documented contract), the
  allocation of tensors (\<open>contiguous_tensors\<close>) and whether an
  event has completed; \<open>offload_copy_roundtrip\<close> is for the layouts of FlashAttention in which the kernel block size is found rightly
  (\<open>kernel_block_size_found\<close>, and \<open>kernel_block_size_is_heads\<close> for the layout where it is not). Slots with prefix caching on need hashes that cover the request's tokens and block sizes
  that are multiples of the hash block size (\<open>caching_ok\<close>). The plan of encoder inputs is shown for the positions that the model computes; for the position further that an EAGLE drafter
  reads see \<open>drafter_item_not_planned\<close>.

  \<^bold>\<open>Not modelled.\<close> Model definitions, kernels, workers, compilation and multi-modal preprocessing compute on tensors of third-party libraries; engine
  processes, sockets and HTTP are I/O around the loop; the other connectors transfer blocks over networks. Of offloading, the order of streams on the device is recorded in the
  commands but not given a semantics, and a tensor's memory is a function from byte offsets that only the copy operator reads and writes. Within the modelled functions log
  output, logprobs, routed experts, trace headers, performance statistics and the acceptance of tokens by a grammar are left out: they are passed
  through or do not influence the scheduler's state.
\<close>

end
